(* ===== verification/Prelude.thy ===== *)
theory Prelude
  imports Main "HOL-Library.Word" "HOL-Library.Monad_Syntax"
begin

text \<open>
  Prelude of the kepler-formal development: the error values shared by all
  components, the sequencing of fallible steps, the names of the machine types, and
  the lemmas on lists, maps and sums that several components use.  A C++ exception is a
  value of the datatype \<open>error\<close>, and an operation that may throw returns \<open>error + 'a\<close>: \<open>Inl\<close> is the
  exception, \<open>Inr\<close> the result.
\<close>

declare split_paired_All [simp del] split_paired_Ex [simp del]

section \<open>Machine types\<close>

text \<open>\<open>size_t\<close> and \<open>uint64_t\<close> are 64-bit words; symbols (variable ids) are \<open>size_t\<close>.\<close>

type_synonym u64 = "64 word"
type_synonym var_id = "64 word"

named_theorems eval_simps \<open>semantics of the expression factories\<close>
named_theorems canon_intros \<open>factories and rewrites keep nodes canonical\<close>
named_theorems support_simps \<open>supports of constructed expressions\<close>

section \<open>Errors\<close>

datatype error =
    Invalid_Argument string
  | Runtime_Error string
  | Logic_Error string
  | Out_Of_Range string
  | Length_Error string

definition bindE :: "'e + 'a \<Rightarrow> ('a \<Rightarrow> 'e + 'b) \<Rightarrow> 'e + 'b" where
  "bindE r f = (case r of Inl e \<Rightarrow> Inl e | Inr x \<Rightarrow> f x)"

lemma bindE_simps [simp]:
  "bindE (Inl e) f = Inl e"
  "bindE (Inr x) f = f x"
  by (simp_all add: bindE_def)

lemma bindE_Inr_iff: "bindE r f = Inr y \<longleftrightarrow> (\<exists>x. r = Inr x \<and> f x = Inr y)"
  by (cases r) simp_all

lemma bindE_InrE:
  assumes "bindE r f = Inr y"
  obtains x where "r = Inr x" "f x = Inr y"
  using assms by (auto simp: bindE_Inr_iff)

lemma bindE_assoc: "bindE (bindE r f) g = bindE r (\<lambda>x. bindE (f x) g)"
  by (cases r) simp_all

lemma bindE_cong [fundef_cong]:
  "r = r' \<Longrightarrow> (\<And>x. r' = Inr x \<Longrightarrow> f x = g x) \<Longrightarrow> bindE r f = bindE r' g"
  by (cases r') simp_all

definition requireE :: "bool \<Rightarrow> 'e \<Rightarrow> 'e + unit" where
  "requireE b e = (if b then Inr () else Inl e)"

lemma requireE_simps [simp]:
  "requireE True e = Inr ()"
  "requireE False e = Inl e"
  "(requireE b e = Inr u) = b"
  by (simp_all add: requireE_def)

text \<open>A loop over a list whose body may throw; the state is threaded from left to right.\<close>

primrec foldE :: "('a \<Rightarrow> 's \<Rightarrow> 'e + 's) \<Rightarrow> 'a list \<Rightarrow> 's \<Rightarrow> 'e + 's" where
  "foldE f [] s = Inr s"
| "foldE f (x # xs) s = bindE (f x s) (foldE f xs)"

primrec mapE :: "('a \<Rightarrow> 'e + 'b) \<Rightarrow> 'a list \<Rightarrow> 'e + 'b list" where
  "mapE f [] = Inr []"
| "mapE f (x # xs) = bindE (f x) (\<lambda>y. bindE (mapE f xs) (\<lambda>ys. Inr (y # ys)))"

lemma foldE_append: "foldE f (xs @ ys) s = bindE (foldE f xs s) (foldE f ys)"
  by (induction xs arbitrary: s) (auto simp: bindE_def split: sum.splits)

lemma foldE_defined: "foldE f xs s = Inr t \<Longrightarrow> x \<in> set xs \<Longrightarrow> \<exists>u u'. f x u = Inr u'"
  by (induction xs arbitrary: s) (auto simp: bindE_Inr_iff)

lemma foldE_invariant:
  assumes "foldE f xs s = Inr t" and "P s"
    and "\<And>x s t. x \<in> set xs \<Longrightarrow> P s \<Longrightarrow> f x s = Inr t \<Longrightarrow> P t"
  shows "P t"
  using assms
proof (induction xs arbitrary: s)
  case (Cons x xs)
  then obtain u where "f x s = Inr u" "foldE f xs u = Inr t" by (auto simp: bindE_Inr_iff)
  then show ?case using Cons by (metis list.set_intros)
qed simp

lemma foldE_total:
  assumes "P s" and "\<And>x s. x \<in> set xs \<Longrightarrow> P s \<Longrightarrow> \<exists>t. f x s = Inr t \<and> P t"
  shows "\<exists>t. foldE f xs s = Inr t \<and> P t"
  using assms
proof (induction xs arbitrary: s)
  case (Cons x xs)
  obtain u where "f x s = Inr u" "P u" using Cons.prems by (meson list.set_intros(1))
  moreover have "\<exists>t. foldE f xs u = Inr t \<and> P t"
    using Cons.IH [OF \<open>P u\<close>] Cons.prems(2) by simp
  ultimately show ?case by simp
qed simp

lemma mapE_Inr_iff: "mapE f xs = Inr ys \<longleftrightarrow> list_all2 (\<lambda>x y. f x = Inr y) xs ys"
  by (induction xs arbitrary: ys) (auto simp: bindE_Inr_iff list_all2_Cons1)

lemma mapE_map [simp]: "mapE (\<lambda>x. Inr (f x)) xs = Inr (map f xs)"
  by (induction xs) simp_all

section \<open>Maps\<close>

text \<open>\<open>emplace\<close> of the C++ maps: an entry that is already there is kept.\<close>

definition emplace :: "'k \<Rightarrow> 'v \<Rightarrow> ('k \<rightharpoonup> 'v) \<Rightarrow> ('k \<rightharpoonup> 'v)" where
  "emplace k v m = (if m k = None then m(k \<mapsto> v) else m)"

lemma emplace_apply:
  "emplace k v m x = (if x = k \<and> m k = None then Some v else m x)"
  by (simp add: emplace_def)

lemma dom_emplace [simp]: "dom (emplace k v m) = insert k (dom m)"
  by (auto simp: emplace_def)

text \<open>\<open>at\<close> of the C++ maps: a missing key throws.\<close>

definition atE :: "('k \<rightharpoonup> 'v) \<Rightarrow> 'k \<Rightarrow> error + 'v" where
  "atE m k = (case m k of None \<Rightarrow> Inl (Out_Of_Range ''map::at'') | Some v \<Rightarrow> Inr v)"

lemma atE_simps [simp]:
  "m k = Some v \<Longrightarrow> atE m k = Inr v"
  "(atE m k = Inr v) = (m k = Some v)"
  by (auto simp: atE_def split: option.splits)

section \<open>Lists\<close>

text \<open>\<open>push_back\<close> of an element that is not there yet, the ordered sets built by the
  collectors.\<close>

definition push_unique :: "'a \<Rightarrow> 'a list \<Rightarrow> 'a list" where
  "push_unique x xs = (if x \<in> set xs then xs else xs @ [x])"

lemma set_push_unique [simp]: "set (push_unique x xs) = insert x (set xs)"
  by (auto simp: push_unique_def)

lemma distinct_push_unique [simp]: "distinct xs \<Longrightarrow> distinct (push_unique x xs)"
  by (simp add: push_unique_def)

lemma set_fold_push_unique [simp]: "set (fold push_unique xs ys) = set xs \<union> set ys"
  by (induction xs arbitrary: ys) auto

lemma distinct_fold_push_unique [simp]:
  "distinct ys \<Longrightarrow> distinct (fold push_unique xs ys)"
  by (induction xs arbitrary: ys) auto


section \<open>Decimal numbers\<close>

text \<open>\<open>std::to_string\<close> of an unsigned number.\<close>

fun showNat :: "nat \<Rightarrow> string" where
  "showNat n = (if n < 10 then [char_of (48 + n)] else showNat (n div 10) @ [char_of (48 + n mod 10)])"

declare showNat.simps [simp del]

definition showWord :: "u64 \<Rightarrow> string" where
  "showWord w = showNat (unat w)"

definition readDigits :: "string \<Rightarrow> nat" where
  "readDigits s = foldl (\<lambda>a c. 10 * a + (of_char c - 48)) 0 s"

lemma of_char_digit: "d < 10 \<Longrightarrow> of_char (char_of (48 + d) :: char) = (48 + d :: nat)"
  by (simp add: of_char_of)

lemma readDigits_showNat [simp]: "readDigits (showNat n) = n"
proof (induction n rule: showNat.induct)
  case (1 n)
  then show ?case
    by (subst showNat.simps) (auto simp: readDigits_def of_char_digit)
qed

lemma showNat_inject [simp]: "showNat m = showNat n \<longleftrightarrow> m = n"
  using readDigits_showNat by metis

lemma showWord_inject [simp]: "showWord v = showWord w \<longleftrightarrow> v = w"
  by (simp add: showWord_def word_unat_eq_iff)

lemma showNat_nonempty [simp]: "showNat n \<noteq> []"
  by (subst showNat.simps) simp

definition isDigit :: "char \<Rightarrow> bool" where
  "isDigit c = (48 \<le> (of_char c :: nat) \<and> (of_char c :: nat) < 58)"

lemma showNat_digits: "c \<in> set (showNat n) \<Longrightarrow> isDigit c"
proof (induction n rule: showNat.induct)
  case (1 n)
  have "isDigit (char_of (48 + d))" if "d < 10" for d :: nat
    using of_char_digit [OF that] that by (simp add: isDigit_def)
  then show ?case
    using 1 by (subst (asm) (2) showNat.simps) (auto split: if_splits)
qed

text \<open>A number is a prefix that the next non-digit delimits.\<close>

lemma digits_prefix:
  assumes "xs @ u = ys @ v" "\<forall>c \<in> set xs. P c" "\<forall>c \<in> set ys. P c"
    "\<forall>c cs. u = c # cs \<longrightarrow> \<not> P c" "\<forall>c cs. v = c # cs \<longrightarrow> \<not> P c"
  shows "xs = ys \<and> u = v"
  using assms
proof (induction xs arbitrary: ys)
  case Nil
  then show ?case by (cases ys) auto
next
  case (Cons x xs)
  then show ?case by (cases ys) (auto simp: append_eq_Cons_conv)
qed

end
