(* ===== verification/Bool_Expr.thy ===== *)
theory Bool_Expr
  imports Prelude
begin

text \<open>
  The Boolean expression nodes of \<open>formal/BoolExpr.h\<close> and \<open>formal/BoolExpr.cpp\<close>: operators,
  accessors, the 64-bit structural hash, the structural order, the canonicalising
  constructor and the constant-folding factories.  Nodes are interned (theory
  \<open>Expr_Cache\<close> models the table), so a \<open>BoolExpr*\<close> is here the tree it points to and pointer
  equality is equality of trees.
\<close>

unbundle bit_operations_syntax

section \<open>Operators and nodes\<close>

datatype op = OpVAR | OpAND | OpOR | OpNOT | OpXOR | OpNONE

primrec opIndex :: "op \<Rightarrow> nat" where
  "opIndex OpVAR = 0"
| "opIndex OpAND = 1"
| "opIndex OpOR = 2"
| "opIndex OpNOT = 3"
| "opIndex OpXOR = 4"
| "opIndex OpNONE = 5"

lemma opIndex_inject [simp]: "opIndex a = opIndex b \<longleftrightarrow> a = b"
  by (cases a; cases b) simp_all

instantiation op :: linorder
begin

definition less_eq_op :: "op \<Rightarrow> op \<Rightarrow> bool" where
  "less_eq_op a b = (opIndex a \<le> opIndex b)"

definition less_op :: "op \<Rightarrow> op \<Rightarrow> bool" where
  "less_op a b = (opIndex a < opIndex b)"

instance
  by standard (auto simp: less_eq_op_def less_op_def)

end

datatype bexpr =
    BVar var_id
  | BNot bexpr
  | BAnd bexpr bexpr
  | BOr bexpr bexpr
  | BXor bexpr bexpr

fun getOp :: "bexpr \<Rightarrow> op" where
  "getOp (BVar _) = OpVAR"
| "getOp (BNot _) = OpNOT"
| "getOp (BAnd _ _) = OpAND"
| "getOp (BOr _ _) = OpOR"
| "getOp (BXor _ _) = OpXOR"

fun getId :: "bexpr \<Rightarrow> var_id" where
  "getId (BVar v) = v"
| "getId _ = 0"

fun getLeft :: "bexpr \<Rightarrow> bexpr option" where
  "getLeft (BVar _) = None"
| "getLeft (BNot a) = Some a"
| "getLeft (BAnd a _) = Some a"
| "getLeft (BOr a _) = Some a"
| "getLeft (BXor a _) = Some a"

fun getRight :: "bexpr \<Rightarrow> bexpr option" where
  "getRight (BAnd _ b) = Some b"
| "getRight (BOr _ b) = Some b"
| "getRight (BXor _ b) = Some b"
| "getRight _ = None"

definition children :: "bexpr \<Rightarrow> bexpr list" where
  "children e = (case getLeft e of None \<Rightarrow> [] | Some l \<Rightarrow> [l]) @
                (case getRight e of None \<Rightarrow> [] | Some r \<Rightarrow> [r])"

lemma children_simps [simp]:
  "children (BVar v) = []"
  "children (BNot a) = [a]"
  "children (BAnd a b) = [a, b]"
  "children (BOr a b) = [a, b]"
  "children (BXor a b) = [a, b]"
  by (simp_all add: children_def)

lemma getLeft_size: "getLeft e = Some l \<Longrightarrow> size l < size e"
  by (cases e) auto

lemma getRight_size: "getRight e = Some r \<Longrightarrow> size r < size e"
  by (cases e) auto

lemma bexpr_eqI:
  "getOp x = getOp y \<Longrightarrow> getId x = getId y \<Longrightarrow> getLeft x = getLeft y \<Longrightarrow>
   getRight x = getRight y \<Longrightarrow> x = y"
  by (cases x; cases y) auto

definition isValid :: "bexpr \<Rightarrow> bool" where
  "isValid e = (getOp e \<noteq> OpNONE \<and>
     ((getOp e = OpVAR \<and> getId e \<noteq> - 1) \<or> (getOp e \<noteq> OpVAR \<and> getLeft e \<noteq> None)))"

section \<open>The structural hash\<close>

definition HASH_SEED :: u64 where
  "HASH_SEED = 0x9e3779b97f4a7c15"

definition splitmix64 :: "u64 \<Rightarrow> u64" where
  "splitmix64 x0 =
    (let x1 = x0 + 0x9e3779b97f4a7c15;
         x2 = (x1 XOR drop_bit 30 x1) * 0xbf58476d1ce4e5b9;
         x3 = (x2 XOR drop_bit 27 x2) * 0x94d049bb133111eb
     in x3 XOR drop_bit 31 x3)"

definition mixHash :: "u64 \<Rightarrow> u64 \<Rightarrow> u64" where
  "mixHash seed value =
     splitmix64 (seed XOR (value + 0x9e3779b97f4a7c15 + push_bit 6 seed + drop_bit 2 seed))"

text \<open>The hash computed by the node constructor from the operator, the id and the hashes
  of the children.\<close>

definition nodeHash :: "op \<Rightarrow> var_id \<Rightarrow> u64 option \<Rightarrow> u64 option \<Rightarrow> u64" where
  "nodeHash opr v hl hr =
    (let h0 = splitmix64 (of_nat (opIndex opr) XOR HASH_SEED);
         h1 = mixHash h0 v;
         h2 = mixHash h1 (case hl of None \<Rightarrow> 0x6a09e667f3bcc909 | Some h \<Rightarrow> h)
     in mixHash h2 (case hr of None \<Rightarrow> 0xbb67ae8584caa73b | Some h \<Rightarrow> h))"

primrec structuralHash :: "bexpr \<Rightarrow> u64" where
  "structuralHash (BVar v) = nodeHash OpVAR v None None"
| "structuralHash (BNot a) = nodeHash OpNOT 0 (Some (structuralHash a)) None"
| "structuralHash (BAnd a b) = nodeHash OpAND 0 (Some (structuralHash a)) (Some (structuralHash b))"
| "structuralHash (BOr a b) = nodeHash OpOR 0 (Some (structuralHash a)) (Some (structuralHash b))"
| "structuralHash (BXor a b) = nodeHash OpXOR 0 (Some (structuralHash a)) (Some (structuralHash b))"

section \<open>The structural order\<close>

text \<open>
  \<open>operator<\<close>: identical nodes are not less; then the hash, the operator (in the order of
  the enumeration), the id, the left and the right child decide; a null child comes first.
\<close>

function nodeLess :: "bexpr \<Rightarrow> bexpr \<Rightarrow> bool" where
  "nodeLess x y =
    (if x = y then False
     else if structuralHash x \<noteq> structuralHash y then structuralHash x < structuralHash y
     else if getOp x \<noteq> getOp y then getOp x < getOp y
     else if getId x \<noteq> getId y then getId x < getId y
     else
       let rightLess =
         (if getRight x \<noteq> getRight y then
            (case getRight x of None \<Rightarrow> True | Some a \<Rightarrow>
              (case getRight y of None \<Rightarrow> False | Some b \<Rightarrow> nodeLess a b))
          else False)
       in if getLeft x \<noteq> getLeft y then
            (case getLeft x of None \<Rightarrow> True | Some a \<Rightarrow>
              (case getLeft y of None \<Rightarrow> False | Some b \<Rightarrow>
                if nodeLess a b then True
                else if nodeLess b a then False
                else rightLess))
          else rightLess)"
  by pat_completeness auto
termination
  by (relation "measure (\<lambda>(x, y). size x + size y)")
     (auto dest!: getLeft_size getRight_size)

declare nodeLess.simps [simp del]


lemma nodeLess_irrefl [simp]: "\<not> nodeLess x x"
  by (simp add: nodeLess.simps)

text \<open>The position of two nodes whose hash, operator and id agree is decided by their
  children, lexicographically.\<close>

definition sameHead :: "bexpr \<Rightarrow> bexpr \<Rightarrow> bool" where
  "sameHead x y = (structuralHash x = structuralHash y \<and> getOp x = getOp y \<and> getId x = getId y)"

definition headLess :: "bexpr \<Rightarrow> bexpr \<Rightarrow> bool" where
  "headLess x y = (structuralHash x < structuralHash y \<or> structuralHash x = structuralHash y \<and>
     (getOp x < getOp y \<or> getOp x = getOp y \<and> getId x < getId y))"

lemma headLess_trichotomy: "headLess x y \<or> sameHead x y \<or> headLess y x"
  unfolding headLess_def sameHead_def by (meson linorder_less_linear)

lemma headLess_asym: "headLess x y \<Longrightarrow> \<not> headLess y x \<and> \<not> sameHead x y \<and> \<not> sameHead y x"
  unfolding headLess_def sameHead_def by auto

lemma headLess_trans: "headLess x y \<Longrightarrow> headLess y z \<Longrightarrow> headLess x z"
  unfolding headLess_def by (elim disjE conjE) auto

lemma sameHead_headLess: "sameHead x y \<Longrightarrow> headLess y z \<Longrightarrow> headLess x z"
  and headLess_sameHead: "headLess x y \<Longrightarrow> sameHead y z \<Longrightarrow> headLess x z"
  unfolding headLess_def sameHead_def by simp_all

lemma sameHead_trans: "sameHead x y \<Longrightarrow> sameHead y z \<Longrightarrow> sameHead x z"
  and sameHead_sym: "sameHead x y \<Longrightarrow> sameHead y x"
  and sameHead_refl [simp]: "sameHead x x"
  unfolding sameHead_def by auto

lemma nodeLess_headLess: "\<not> sameHead x y \<Longrightarrow> nodeLess x y = headLess x y"
  by (subst nodeLess.simps, unfold headLess_def sameHead_def) force

text \<open>The two-child nodes in one notation, and the shapes of two nodes with equal heads.\<close>

fun binNode :: "op \<Rightarrow> bexpr \<Rightarrow> bexpr \<Rightarrow> bexpr" where
  "binNode OpAND a b = BAnd a b"
| "binNode OpOR a b = BOr a b"
| "binNode _ a b = BXor a b"

lemma size_binNode [simp]: "size (binNode k a b) = Suc (size a + size b)"
  by (cases k) auto

lemma binNode_inject [simp]: "binNode k a b = binNode k c d \<longleftrightarrow> a = c \<and> b = d"
  by (cases k) auto

lemma sameHead_cases:
  assumes "sameHead x y"
  obtains (same) "x = y"
  | (unary) a c where "x = BNot a" "y = BNot c"
  | (binary) k a b c d where "x = binNode k a b" "y = binNode k c d"
proof (cases x)
  case (BVar v)
  then show ?thesis using assms same by (cases y) (auto simp: sameHead_def)
next
  case (BNot a)
  then show ?thesis using assms unary by (cases y) (auto simp: sameHead_def)
next
  case (BAnd a b)
  then show ?thesis using assms binary [of OpAND] by (cases y) (auto simp: sameHead_def)
next
  case (BOr a b)
  then show ?thesis using assms binary [of OpOR] by (cases y) (auto simp: sameHead_def)
next
  case (BXor a b)
  then show ?thesis using assms binary [of OpXOR] by (cases y) (auto simp: sameHead_def)
qed

lemma nodeLess_BNot: "sameHead (BNot a) (BNot b) \<Longrightarrow> nodeLess (BNot a) (BNot b) = nodeLess a b"
  by (subst nodeLess.simps) (auto simp: sameHead_def)

lemma nodeLess_binary:
  assumes "sameHead (binNode k a b) (binNode k c d)"
  shows "nodeLess (binNode k a b) (binNode k c d) =
    (if a = c then nodeLess b d
     else nodeLess a c \<or> \<not> nodeLess c a \<and> nodeLess b d)"
  using assms by (subst nodeLess.simps) (cases k; auto simp: sameHead_def)

lemma nodeLess_total: "x \<noteq> y \<Longrightarrow> nodeLess x y \<or> nodeLess y x"
proof (induction "size x + size y" arbitrary: x y rule: less_induct)
  case less
  show ?case
  proof (cases "sameHead x y")
    case True
    then show ?thesis
    proof (cases rule: sameHead_cases)
      case (unary a c)
      then show ?thesis using less True by (simp add: nodeLess_BNot sameHead_sym)
    next
      case (binary k a b c d)
      have IH: "a \<noteq> c \<Longrightarrow> nodeLess a c \<or> nodeLess c a" "b \<noteq> d \<Longrightarrow> nodeLess b d \<or> nodeLess d b"
        using less.hyps [of a c] less.hyps [of b d] binary by simp_all
      note lex = True [unfolded binary, THEN nodeLess_binary]
        True [THEN sameHead_sym, unfolded binary, THEN nodeLess_binary]
      show ?thesis using IH less.prems unfolding binary lex by auto
    qed (use less in simp)
  next
    case False
    then show ?thesis
      using headLess_trichotomy [of x y] nodeLess_headLess sameHead_sym by blast
  qed
qed

lemma nodeLess_asym: "nodeLess x y \<Longrightarrow> \<not> nodeLess y x"
proof (induction "size x + size y" arbitrary: x y rule: less_induct)
  case less
  show ?case
  proof (cases "sameHead x y")
    case True
    then show ?thesis
    proof (cases rule: sameHead_cases)
      case (unary a c)
      then show ?thesis using less True by (simp add: nodeLess_BNot sameHead_sym)
    next
      case (binary k a b c d)
      have IH: "nodeLess b d \<Longrightarrow> \<not> nodeLess d b" "nodeLess a c \<Longrightarrow> \<not> nodeLess c a"
        using less.hyps [of a c] less.hyps [of b d] binary by simp_all
      note lex = True [unfolded binary, THEN nodeLess_binary]
        True [THEN sameHead_sym, unfolded binary, THEN nodeLess_binary]
      show ?thesis
        using less.prems IH nodeLess_total [of a c] unfolding binary lex by (auto split: if_splits)
    qed (use less in simp)
  next
    case False
    then show ?thesis
      using less.prems headLess_asym nodeLess_headLess sameHead_sym by blast
  qed
qed

lemma nodeLess_binary_lex:
  assumes "sameHead (binNode k a b) (binNode k c d)"
  shows "nodeLess (binNode k a b) (binNode k c d) = (nodeLess a c \<or> a = c \<and> nodeLess b d)"
  using nodeLess_binary [OF assms] nodeLess_total [of a c] by auto

lemma nodeLess_trans: "nodeLess x y \<Longrightarrow> nodeLess y z \<Longrightarrow> nodeLess x z"
proof (induction "size x + size y + size z" arbitrary: x y z rule: less_induct)
  case less
  consider (nxy) "\<not> sameHead x y" | (nyz) "sameHead x y" "\<not> sameHead y z"
    | (heads) "sameHead x y" "sameHead y z" by blast
  then show ?case
  proof cases
    case heads
    show ?thesis using heads(1)
    proof (cases rule: sameHead_cases)
      case (unary a b)
      obtain c where c: "z = BNot c" using heads(2) unary by (cases z) (auto simp: sameHead_def)
      have "sameHead (BNot a) (BNot c)" using heads unary c sameHead_trans by blast
      then show ?thesis
        using less.prems less.hyps [of a b c] heads unary c by (simp add: nodeLess_BNot)
    next
      case (binary k a b c d)
      have "\<exists>e f. z = binNode k e f"
        using heads(2) unfolding binary by (cases k; cases z) (auto simp: sameHead_def)
      then obtain e f where z: "z = binNode k e f" by blast
      have IH: "nodeLess a c \<Longrightarrow> nodeLess c e \<Longrightarrow> nodeLess a e"
        "nodeLess b d \<Longrightarrow> nodeLess d f \<Longrightarrow> nodeLess b f"
        using less.hyps [of a c e] less.hyps [of b d f] binary z by simp_all
      note lex = heads(1) [unfolded binary, THEN nodeLess_binary_lex]
        heads(2) [unfolded binary z, THEN nodeLess_binary_lex]
        sameHead_trans [OF heads, unfolded binary z, THEN nodeLess_binary_lex]
      show ?thesis using less.prems IH unfolding binary z lex by blast
    qed (use less in simp)
  next
    case nxy
    then have "headLess x y" using less.prems by (simp add: nodeLess_headLess)
    then show ?thesis
      using less.prems(2) headLess_asym headLess_sameHead headLess_trans nodeLess_headLess by metis
  next
    case nyz
    then have "headLess y z" using less.prems by (simp add: nodeLess_headLess)
    then show ?thesis
      using nyz(1) headLess_asym nodeLess_headLess sameHead_headLess by metis
  qed
qed

text \<open>\<open>operator<=\<close> is \<open>!(other < *this)\<close>; with the facts above nodes are linearly ordered.\<close>

instantiation bexpr :: linorder
begin

definition less_bexpr :: "bexpr \<Rightarrow> bexpr \<Rightarrow> bool" where
  "less_bexpr x y = nodeLess x y"

definition less_eq_bexpr :: "bexpr \<Rightarrow> bexpr \<Rightarrow> bool" where
  "less_eq_bexpr x y = (\<not> nodeLess y x)"

instance
proof
  fix x y z :: bexpr
  show "x < y \<longleftrightarrow> x \<le> y \<and> \<not> y \<le> x"
    using nodeLess_asym by (auto simp: less_bexpr_def less_eq_bexpr_def)
  show "x \<le> x" by (simp add: less_eq_bexpr_def)
  show "x \<le> y \<Longrightarrow> y \<le> z \<Longrightarrow> x \<le> z"
    unfolding less_eq_bexpr_def using nodeLess_trans nodeLess_total by metis
  show "x \<le> y \<Longrightarrow> y \<le> x \<Longrightarrow> x = y"
    unfolding less_eq_bexpr_def using nodeLess_total by blast
  show "x \<le> y \<or> y \<le> x"
    unfolding less_eq_bexpr_def using nodeLess_asym by blast
qed

end

end
