(* ===== verification/Bool_Factories.thy ===== *)
theory Bool_Factories
  imports Bool_Expr
begin

text \<open>
  The factories of \<open>BoolExpr\<close> (\<open>formal/BoolExpr.cpp\<close>): constant folding, double negation,
  idempotence and complement rules, and the child order fixed by the node constructor.
  Their semantics, the canonical form every factory keeps, the support of an expression,
  and its printed form.
\<close>

section \<open>Semantics and support\<close>

text \<open>Ids 0 and 1 are the constants; every other variable is read from the environment.\<close>

primrec eval :: "(var_id \<Rightarrow> bool) \<Rightarrow> bexpr \<Rightarrow> bool" where
  "eval env (BVar v) = (if v = 0 then False else if v = 1 then True else env v)"
| "eval env (BNot a) = (\<not> eval env a)"
| "eval env (BAnd a b) = (eval env a \<and> eval env b)"
| "eval env (BOr a b) = (eval env a \<or> eval env b)"
| "eval env (BXor a b) = (eval env a \<noteq> eval env b)"

primrec vars :: "bexpr \<Rightarrow> var_id set" where
  "vars (BVar v) = {v}"
| "vars (BNot a) = vars a"
| "vars (BAnd a b) = vars a \<union> vars b"
| "vars (BOr a b) = vars a \<union> vars b"
| "vars (BXor a b) = vars a \<union> vars b"

text \<open>The variables that are not constants.\<close>

definition support :: "bexpr \<Rightarrow> var_id set" where
  "support e = {v \<in> vars e. 2 \<le> v}"

lemma not_const_ge2: "(v::var_id) \<noteq> 0 \<Longrightarrow> v \<noteq> 1 \<Longrightarrow> 2 \<le> v"
proof -
  assume "v \<noteq> 0" "v \<noteq> 1"
  then have "unat v \<noteq> 0" "unat v \<noteq> 1" by (auto simp: word_unat_eq_iff)
  then have "2 \<le> unat v" by linarith
  then show ?thesis by (simp add: word_le_nat_alt)
qed

lemma ge2_iff: "(2::var_id) \<le> v \<longleftrightarrow> v \<noteq> 0 \<and> v \<noteq> 1"
proof
  assume "2 \<le> v"
  then show "v \<noteq> 0 \<and> v \<noteq> 1" by (auto simp: word_le_nat_alt)
qed (simp add: not_const_ge2)

lemma lt2_iff: "(v::var_id) < 2 \<longleftrightarrow> v = 0 \<or> v = 1"
  using ge2_iff [of v] by (simp add: linorder_not_le [symmetric])

lemma support_simps [simp, support_simps]:
  "support (BVar v) = (if v = 0 \<or> v = 1 then {} else {v})"
  "support (BNot a) = support a"
  "support (BAnd a b) = support a \<union> support b"
  "support (BOr a b) = support a \<union> support b"
  "support (BXor a b) = support a \<union> support b"
  by (auto simp: support_def ge2_iff)

lemma finite_vars [simp]: "finite (vars e)"
  by (induction e) simp_all

lemma finite_support [simp]: "finite (support e)"
  by (simp add: support_def)

lemma eval_cong: "(\<And>v. v \<in> support e \<Longrightarrow> env v = env' v) \<Longrightarrow> eval env e = eval env' e"
  by (induction e) auto

section \<open>Constants and complements\<close>

definition isConstFalse :: "bexpr \<Rightarrow> bool" where
  "isConstFalse e = (getOp e = OpVAR \<and> getId e = 0)"

definition isConstTrue :: "bexpr \<Rightarrow> bool" where
  "isConstTrue e = (getOp e = OpVAR \<and> getId e = 1)"

definition isComplementOf :: "bexpr \<Rightarrow> bexpr \<Rightarrow> bool" where
  "isComplementOf a b = (getOp a = OpNOT \<and> getLeft a = Some b)"

lemma getOp_eq_iffs:
  "getOp e = OpVAR \<longleftrightarrow> (\<exists>v. e = BVar v)"
  "getOp e = OpNOT \<longleftrightarrow> (\<exists>a. e = BNot a)"
  "getOp e = OpAND \<longleftrightarrow> (\<exists>a b. e = BAnd a b)"
  "getOp e = OpOR \<longleftrightarrow> (\<exists>a b. e = BOr a b)"
  "getOp e = OpXOR \<longleftrightarrow> (\<exists>a b. e = BXor a b)"
  "getOp e \<noteq> OpNONE"
  by (cases e; simp)+

lemma isConst_iff [simp]:
  "isConstFalse e \<longleftrightarrow> e = BVar 0"
  "isConstTrue e \<longleftrightarrow> e = BVar 1"
  by (cases e; simp add: isConstFalse_def isConstTrue_def)+

lemma isComplementOf_iff [simp]: "isComplementOf a b \<longleftrightarrow> a = BNot b"
  by (cases a) (auto simp: isComplementOf_def)

section \<open>The factories\<close>

definition mkVar :: "var_id \<Rightarrow> bexpr" where
  "mkVar v = BVar v"

definition createFalse :: bexpr where "createFalse = mkVar 0"
definition createTrue :: bexpr where "createTrue = mkVar 1"
definition createInvalid :: bexpr where "createInvalid = mkVar (- 1)"

definition mkNot :: "bexpr \<Rightarrow> bexpr" where
  "mkNot a =
    (if getOp a = OpVAR \<and> getId a < 2 then mkVar (1 - getId a)
     else case a of BNot x \<Rightarrow> x | _ \<Rightarrow> BNot a)"

text \<open>The constructor puts the smaller child on the left (\<open>*b <= *a\<close> swaps); the order in
  which the factory hands over the children, that of their addresses, has no effect.\<close>

definition orderChildren :: "(bexpr \<Rightarrow> bexpr \<Rightarrow> bexpr) \<Rightarrow> bexpr \<Rightarrow> bexpr \<Rightarrow> bexpr" where
  "orderChildren C a b = (if b \<le> a then C b a else C a b)"

definition mkAnd :: "bexpr \<Rightarrow> bexpr \<Rightarrow> bexpr" where
  "mkAnd a b =
    (if isConstFalse a \<or> isConstFalse b then mkVar 0
     else if isConstTrue a then b
     else if isConstTrue b then a
     else if a = b then a
     else if isComplementOf a b then mkVar 0
     else if isComplementOf b a then mkVar 0
     else orderChildren BAnd a b)"

definition mkOr :: "bexpr \<Rightarrow> bexpr \<Rightarrow> bexpr" where
  "mkOr a b =
    (if isConstTrue a \<or> isConstTrue b then mkVar 1
     else if isConstFalse a then b
     else if isConstFalse b then a
     else if a = b then a
     else if isComplementOf a b then mkVar 1
     else if isComplementOf b a then mkVar 1
     else orderChildren BOr a b)"

definition mkXor :: "bexpr \<Rightarrow> bexpr \<Rightarrow> bexpr" where
  "mkXor a b =
    (if isConstFalse a then b
     else if isConstFalse b then a
     else if isConstTrue a then mkNot b
     else if isConstTrue b then mkNot a
     else if a = b then mkVar 0
     else orderChildren BXor a b)"

lemmas mk_defs = mkVar_def mkNot_def mkAnd_def mkOr_def mkXor_def orderChildren_def

section \<open>Semantics of the factories\<close>

lemma eval_const [simp, eval_simps]:
  "eval env createFalse = False"
  "eval env createTrue = True"
  "eval env (mkVar v) = (if v = 0 then False else if v = 1 then True else env v)"
  by (simp_all add: createFalse_def createTrue_def mkVar_def)

lemma eval_mkNot [simp, eval_simps]: "eval env (mkNot a) = (\<not> eval env a)"
  by (cases a) (auto simp: mkNot_def lt2_iff)

lemma eval_mkAnd [simp, eval_simps]: "eval env (mkAnd a b) = (eval env a \<and> eval env b)"
  by (auto simp: mkAnd_def orderChildren_def)

lemma eval_mkOr [simp, eval_simps]: "eval env (mkOr a b) = (eval env a \<or> eval env b)"
  by (auto simp: mkOr_def orderChildren_def)

lemma eval_mkXor [simp, eval_simps]: "eval env (mkXor a b) = (eval env a \<noteq> eval env b)"
  by (auto simp: mkXor_def orderChildren_def)

lemma support_mkVar [simp, support_simps]: "support (mkVar v) = (if v = 0 \<or> v = 1 then {} else {v})"
  by (simp add: mkVar_def)

lemma support_mkNot [simp, support_simps]: "support (mkNot a) = support a"
  by (cases a) (auto simp: mkNot_def lt2_iff mkVar_def)

lemma support_mkAnd: "support (mkAnd a b) \<subseteq> support a \<union> support b"
  and support_mkOr: "support (mkOr a b) \<subseteq> support a \<union> support b"
  and support_mkXor: "support (mkXor a b) \<subseteq> support a \<union> support b"
  by (auto simp: mkAnd_def mkOr_def mkXor_def orderChildren_def)

lemma mkAnd_commute: "mkAnd a b = mkAnd b a"
  and mkOr_commute: "mkOr a b = mkOr b a"
  and mkXor_commute: "mkXor a b = mkXor b a"
  by (auto simp: mkAnd_def mkOr_def mkXor_def orderChildren_def)

section \<open>The canonical form\<close>

text \<open>What the factories promise of every interned node: no operator over a constant, no
  double negation, no equal children, no complementary children of \<open>AND\<close> and \<open>OR\<close>, and the
  children of a commutative operator in strictly increasing structural order.\<close>

definition isConst :: "bexpr \<Rightarrow> bool" where
  "isConst e = (isConstFalse e \<or> isConstTrue e)"

primrec canonical :: "bexpr \<Rightarrow> bool" where
  "canonical (BVar v) = True"
| "canonical (BNot a) = (canonical a \<and> \<not> isConst a \<and> getOp a \<noteq> OpNOT)"
| "canonical (BAnd a b) = (canonical a \<and> canonical b \<and> \<not> isConst a \<and> \<not> isConst b \<and> a < b \<and>
     \<not> isComplementOf a b \<and> \<not> isComplementOf b a)"
| "canonical (BOr a b) = (canonical a \<and> canonical b \<and> \<not> isConst a \<and> \<not> isConst b \<and> a < b \<and>
     \<not> isComplementOf a b \<and> \<not> isComplementOf b a)"
| "canonical (BXor a b) = (canonical a \<and> canonical b \<and> \<not> isConst a \<and> \<not> isConst b \<and> a < b)"

lemma canonical_mkVar [simp, canon_intros]: "canonical (mkVar v)"
  by (simp add: mkVar_def)

lemma canonical_consts [simp]: "canonical createFalse" "canonical createTrue"
  by (simp_all add: createFalse_def createTrue_def)

lemma canonical_mkNot [canon_intros, simp]: "canonical a \<Longrightarrow> canonical (mkNot a)"
  by (cases a) (auto simp: mkNot_def isConst_def lt2_iff mkVar_def)

lemma canonical_orderChildren:
  assumes "canonical a" "canonical b" "\<not> isConst a" "\<not> isConst b" "a \<noteq> b"
  shows "a \<noteq> BNot b \<Longrightarrow> b \<noteq> BNot a \<Longrightarrow> canonical (orderChildren BAnd a b)"
    "a \<noteq> BNot b \<Longrightarrow> b \<noteq> BNot a \<Longrightarrow> canonical (orderChildren BOr a b)"
    "canonical (orderChildren BXor a b)"
  using assms by (auto simp: orderChildren_def)

lemma canonical_mkAnd [canon_intros, simp]: "canonical a \<Longrightarrow> canonical b \<Longrightarrow> canonical (mkAnd a b)"
  by (auto simp: mkAnd_def orderChildren_def isConst_def)

lemma canonical_mkOr [canon_intros, simp]: "canonical a \<Longrightarrow> canonical b \<Longrightarrow> canonical (mkOr a b)"
  by (auto simp: mkOr_def orderChildren_def isConst_def)

lemma canonical_mkXor [canon_intros, simp]: "canonical a \<Longrightarrow> canonical b \<Longrightarrow> canonical (mkXor a b)"
  by (auto simp: mkXor_def orderChildren_def isConst_def)

text \<open>On the children of a canonical node the factory rebuilds exactly that node.\<close>

lemma canonical_rebuild:
  "canonical (BNot a) \<Longrightarrow> mkNot a = BNot a"
  "canonical (BAnd a b) \<Longrightarrow> mkAnd a b = BAnd a b"
  "canonical (BOr a b) \<Longrightarrow> mkOr a b = BOr a b"
  "canonical (BXor a b) \<Longrightarrow> mkXor a b = BXor a b"
proof -
  show "canonical (BNot a) \<Longrightarrow> mkNot a = BNot a"
    by (cases a) (auto simp: mkNot_def isConst_def lt2_iff)
qed (auto simp: mkAnd_def mkOr_def mkXor_def orderChildren_def isConst_def)

lemma canonical_children: "canonical e \<Longrightarrow> c \<in> set (children e) \<Longrightarrow> canonical c"
  by (cases e) auto

end
