(* ===== verification/Expr_Cache_Correct.thy ===== *)
theory Expr_Cache_Correct
  imports Expr_Cache
begin

text \<open>
  Correctness of the interning table: the invariant of a well-formed cache, the refinement
  of the pointer factories by the factories on trees, pointer identity as structural
  identity, and independence of the shapes from the addresses the allocator chooses.
\<close>

section \<open>The tree at an address\<close>

primrec nodeReps :: "heap \<Rightarrow> node \<Rightarrow> bexpr \<Rightarrow> bool" where
  "nodeReps h n (BVar v) =
     (n = \<lparr> n_op = OpVAR, n_var = v, n_left = None, n_right = None,
            n_hash = structuralHash (BVar v) \<rparr>)"
| "nodeReps h n (BNot a) =
     (\<exists>l m. n = \<lparr> n_op = OpNOT, n_var = 0, n_left = Some l, n_right = None,
                  n_hash = structuralHash (BNot a) \<rparr> \<and> h l = Some m \<and> nodeReps h m a)"
| "nodeReps h n (BAnd a b) =
     (\<exists>l m r k. n = \<lparr> n_op = OpAND, n_var = 0, n_left = Some l, n_right = Some r,
                  n_hash = structuralHash (BAnd a b) \<rparr> \<and>
        h l = Some m \<and> nodeReps h m a \<and> h r = Some k \<and> nodeReps h k b)"
| "nodeReps h n (BOr a b) =
     (\<exists>l m r k. n = \<lparr> n_op = OpOR, n_var = 0, n_left = Some l, n_right = Some r,
                  n_hash = structuralHash (BOr a b) \<rparr> \<and>
        h l = Some m \<and> nodeReps h m a \<and> h r = Some k \<and> nodeReps h k b)"
| "nodeReps h n (BXor a b) =
     (\<exists>l m r k. n = \<lparr> n_op = OpXOR, n_var = 0, n_left = Some l, n_right = Some r,
                  n_hash = structuralHash (BXor a b) \<rparr> \<and>
        h l = Some m \<and> nodeReps h m a \<and> h r = Some k \<and> nodeReps h k b)"

definition reps :: "heap \<Rightarrow> addr \<Rightarrow> bexpr \<Rightarrow> bool" where
  "reps h p t = (\<exists>n. h p = Some n \<and> nodeReps h n t)"

lemma nodeReps_simps [simp]:
  "nodeReps h n (BNot a) = (\<exists>l. n = \<lparr> n_op = OpNOT, n_var = 0, n_left = Some l, n_right = None,
     n_hash = structuralHash (BNot a) \<rparr> \<and> reps h l a)"
  "nodeReps h n (BAnd a b) = (\<exists>l r. n = \<lparr> n_op = OpAND, n_var = 0, n_left = Some l,
     n_right = Some r, n_hash = structuralHash (BAnd a b) \<rparr> \<and> reps h l a \<and> reps h r b)"
  "nodeReps h n (BOr a b) = (\<exists>l r. n = \<lparr> n_op = OpOR, n_var = 0, n_left = Some l,
     n_right = Some r, n_hash = structuralHash (BOr a b) \<rparr> \<and> reps h l a \<and> reps h r b)"
  "nodeReps h n (BXor a b) = (\<exists>l r. n = \<lparr> n_op = OpXOR, n_var = 0, n_left = Some l,
     n_right = Some r, n_hash = structuralHash (BXor a b) \<rparr> \<and> reps h l a \<and> reps h r b)"
  by (auto simp: reps_def)

declare nodeReps.simps(2-5) [simp del]

lemma nodeReps_fields:
  assumes "nodeReps h n t"
  shows "n_op n = getOp t" "n_var n = getId t" "n_hash n = structuralHash t"
    "n_left n = None \<longleftrightarrow> getLeft t = None" "n_right n = None \<longleftrightarrow> getRight t = None"
    "n_left n = Some l \<Longrightarrow> \<exists>a. getLeft t = Some a \<and> reps h l a"
    "n_right n = Some r \<Longrightarrow> \<exists>b. getRight t = Some b \<and> reps h r b"
  using assms by (cases t; auto)+

lemma nodeReps_mono: "h \<subseteq>\<^sub>m h' \<Longrightarrow> nodeReps h n t \<Longrightarrow> nodeReps h' n t"
proof (induction t arbitrary: n)
  case (BVar v) then show ?case by simp
qed (simp_all add: reps_def map_le_def, (metis domI)+)

lemma reps_mono: "h \<subseteq>\<^sub>m h' \<Longrightarrow> reps h p t \<Longrightarrow> reps h' p t"
  unfolding reps_def by (metis domI map_le_def nodeReps_mono)

lemma nodeReps_unique: "nodeReps h n t \<Longrightarrow> nodeReps h n u \<Longrightarrow> t = u"
proof (induction t arbitrary: n u)
  case (BVar v) then show ?case by (cases u) auto
next
  case (BNot a) then show ?case by (cases u) (auto simp: reps_def)
next
  case (BAnd a b) then show ?case by (cases u) (auto simp: reps_def)
next
  case (BOr a b) then show ?case by (cases u) (auto simp: reps_def)
next
  case (BXor a b) then show ?case by (cases u) (auto simp: reps_def)
qed

lemma reps_unique: "reps h p t \<Longrightarrow> reps h p u \<Longrightarrow> t = u"
  unfolding reps_def using nodeReps_unique by fastforce

section \<open>The invariant of a cache\<close>

definition interned :: "cache \<Rightarrow> addr \<Rightarrow> bool" where
  "interned c p = (\<exists>tk. c_table c tk = Some p)"

definition nodeKey :: "node \<Rightarrow> tuple_key" where
  "nodeKey n = (case n_right n of None \<Rightarrow> (n_op n, n_var n, n_left n, None)
                | Some r \<Rightarrow> (n_op n, n_var n, Some r, n_left n))"

definition nodeOk :: "cache \<Rightarrow> node \<Rightarrow> bexpr \<Rightarrow> bool" where
  "nodeOk c n t = (nodeReps (c_heap c) n t \<and> canonical t \<and>
     (\<forall>q. n_left n = Some q \<or> n_right n = Some q \<longrightarrow> interned c q))"

definition cacheInv :: "cache \<Rightarrow> bool" where
  "cacheInv c = (finite (dom (c_heap c)) \<and>
     (\<forall>tk p. c_table c tk = Some p \<longrightarrow>
        (\<exists>n t. c_heap c p = Some n \<and> nodeOk c n t \<and> nodeKey n = tk)))"

text \<open>The tree of an interned pointer.\<close>

definition holds :: "cache \<Rightarrow> addr \<Rightarrow> bexpr \<Rightarrow> bool" where
  "holds c p t = (interned c p \<and> reps (c_heap c) p t)"

definition extends :: "cache \<Rightarrow> cache \<Rightarrow> bool" where
  "extends c c' = (c_heap c \<subseteq>\<^sub>m c_heap c' \<and> c_table c \<subseteq>\<^sub>m c_table c')"

lemma extends_refl [simp]: "extends c c"
  by (simp add: extends_def)

lemma extends_trans: "extends a b \<Longrightarrow> extends b c \<Longrightarrow> extends a c"
  unfolding extends_def by (meson map_le_trans)

lemma interned_mono: "extends c c' \<Longrightarrow> interned c p \<Longrightarrow> interned c' p"
  unfolding extends_def interned_def map_le_def by (metis domI)

lemma holds_mono: "extends c c' \<Longrightarrow> holds c p t \<Longrightarrow> holds c' p t"
  unfolding holds_def by (meson extends_def interned_mono reps_mono)

lemma holds_unique: "holds c p t \<Longrightarrow> holds c p u \<Longrightarrow> t = u"
  unfolding holds_def using reps_unique by blast

lemma cacheInv_entry:
  assumes "cacheInv c" "interned c p"
  obtains n t where "c_heap c p = Some n" "nodeOk c n t" "c_table c (nodeKey n) = Some p"
  using assms unfolding cacheInv_def interned_def by blast

lemma holdsE:
  assumes "cacheInv c" "holds c p t"
  obtains n where "c_heap c p = Some n" "nodeOk c n t" "c_table c (nodeKey n) = Some p"
proof -
  obtain n u where n: "c_heap c p = Some n" "nodeOk c n u" "c_table c (nodeKey n) = Some p"
    using assms cacheInv_entry unfolding holds_def by metis
  then have "u = t" using assms(2) unfolding holds_def reps_def nodeOk_def
    by (metis nodeReps_unique option.inject)
  then show ?thesis using n that by blast
qed

lemma holds_canonical: "cacheInv c \<Longrightarrow> holds c p t \<Longrightarrow> canonical t"
  by (erule (1) holdsE) (simp add: nodeOk_def)

lemma nodeOk_fields:
  assumes "nodeOk c n t"
  shows "n_op n = getOp t" "n_var n = getId t" "n_hash n = structuralHash t"
    "rel_option (holds c) (n_left n) (getLeft t)" "rel_option (holds c) (n_right n) (getRight t)"
  using assms unfolding nodeOk_def holds_def by (cases t; auto)+

lemma nodeKey_eqI:
  "n_op n = n_op m \<Longrightarrow> n_var n = n_var m \<Longrightarrow> n_left n = n_left m \<Longrightarrow> n_right n = n_right m \<Longrightarrow>
   nodeKey n = nodeKey m"
  by (simp add: nodeKey_def split: option.split)

text \<open>Hash consing: equal trees are at equal addresses.\<close>

lemma rel_option_inject:
  assumes "rel_option P x a" "rel_option P y a" "\<And>b p q. a = Some b \<Longrightarrow> P p b \<Longrightarrow> P q b \<Longrightarrow> p = q"
  shows "x = y"
  using assms by (cases x; cases y; cases a) auto

lemma holds_inject: "cacheInv c \<Longrightarrow> holds c p t \<Longrightarrow> holds c q t \<Longrightarrow> p = q"
proof (induction t arbitrary: p q rule: measure_induct_rule [of size])
  case (less t)
  obtain n where n: "nodeOk c n t" "c_table c (nodeKey n) = Some p"
    using less.prems(1,2) by (rule holdsE)
  obtain m where m: "nodeOk c m t" "c_table c (nodeKey m) = Some q"
    using less.prems(1,3) by (rule holdsE)
  have L: "n_left n = n_left m"
    by (rule rel_option_inject [OF n(1) [THEN nodeOk_fields(4)] m(1) [THEN nodeOk_fields(4)]])
       (use less.IH less.prems(1) getLeft_size in blast)
  have R: "n_right n = n_right m"
    by (rule rel_option_inject [OF n(1) [THEN nodeOk_fields(5)] m(1) [THEN nodeOk_fields(5)]])
       (use less.IH less.prems(1) getRight_size in blast)
  have "nodeKey n = nodeKey m"
    using L R nodeOk_fields(1,2) [OF n(1)] nodeOk_fields(1,2) [OF m(1)] by (intro nodeKey_eqI) simp_all
  then show ?case using n m by simp
qed

lemma holds_eq_iff: "cacheInv c \<Longrightarrow> holds c p t \<Longrightarrow> holds c q u \<Longrightarrow> p = q \<longleftrightarrow> t = u"
  using holds_inject holds_unique by blast


lemma rel_option_holds_eq:
  "cacheInv c \<Longrightarrow> rel_option (holds c) x a \<Longrightarrow> rel_option (holds c) y b \<Longrightarrow> x = y \<longleftrightarrow> a = b"
  by (cases x; cases y; cases a; cases b) (auto dest: holds_inject holds_unique)

section \<open>Comparing pointers\<close>

lemma holds_node: "cacheInv c \<Longrightarrow> holds c p t \<Longrightarrow> \<exists>n. c_heap c p = Some n \<and> nodeOk c n t"
  by (meson holdsE)

text \<open>On a well-formed cache the pointer comparison returns and is the structural order.\<close>

lemma ptrLess_correct:
  "cacheInv c \<Longrightarrow> holds c p s \<Longrightarrow> holds c q t \<Longrightarrow> ptrLess (c_heap c) p q = Some (nodeLess s t)"
proof (induction "size s + size t" arbitrary: p q s t rule: less_induct)
  case less
  obtain n where n: "c_heap c p = Some n" "nodeOk c n s" using less.prems holds_node by blast
  obtain m where m: "c_heap c q = Some m" "nodeOk c m t" using less.prems holds_node by blast
  note f = nodeOk_fields [OF n(2)] nodeOk_fields [OF m(2)]
  have pq: "p = q \<longleftrightarrow> s = t" using less.prems holds_eq_iff by blast
  have L: "n_left n = n_left m \<longleftrightarrow> getLeft s = getLeft t"
    using rel_option_holds_eq less.prems(1) f(4,9) .
  have R: "n_right n = n_right m \<longleftrightarrow> getRight s = getRight t"
    using rel_option_holds_eq less.prems(1) f(5,10) .
  have IHL: "ptrLess (c_heap c) a b = Some (nodeLess (the (getLeft s)) (the (getLeft t)))"
    "ptrLess (c_heap c) b a = Some (nodeLess (the (getLeft t)) (the (getLeft s)))"
    if "n_left n = Some a" "n_left m = Some b" for a b
    using that f less.hyps [of "the (getLeft s)" "the (getLeft t)" a b] less.prems(1)
      less.hyps [of "the (getLeft t)" "the (getLeft s)" b a]
      getLeft_size [of s "the (getLeft s)"] getLeft_size [of t "the (getLeft t)"]
    by (auto simp: option_rel_Some1)
  have IHR: "ptrLess (c_heap c) a b = Some (nodeLess (the (getRight s)) (the (getRight t)))"
    "ptrLess (c_heap c) b a = Some (nodeLess (the (getRight t)) (the (getRight s)))"
    if "n_right n = Some a" "n_right m = Some b" for a b
    using that f less.hyps [of "the (getRight s)" "the (getRight t)" a b] less.prems(1)
      less.hyps [of "the (getRight t)" "the (getRight s)" b a]
      getRight_size [of s "the (getRight s)"] getRight_size [of t "the (getRight t)"]
    by (auto simp: option_rel_Some1)
  have *: "getOp s = getOp t \<Longrightarrow> getLeft s = None \<longleftrightarrow> getLeft t = None"
    "getOp s = getOp t \<Longrightarrow> getRight s = None \<longleftrightarrow> getRight t = None"
    by (cases s; cases t; simp)+
  show ?case
    by (subst ptrLess.simps, subst nodeLess.simps)
       (cases rule: option.rel_cases [OF f(4)]; cases rule: option.rel_cases [OF f(9)];
        cases rule: option.rel_cases [OF f(5)]; cases rule: option.rel_cases [OF f(10)];
        use * L R in \<open>simp add: n m f(1-3) f(6-8) pq IHL IHR\<close>)
qed

lemma ptrLessEq_correct:
  "cacheInv c \<Longrightarrow> holds c p s \<Longrightarrow> holds c q t \<Longrightarrow> ptrLessEq (c_heap c) p q = Some (s \<le> t)"
  by (simp add: ptrLessEq_def ptrLess_correct less_eq_bexpr_def)


section \<open>Lookup or create\<close>

text \<open>What is required of the allocator: a new node gets an address that is not in use.\<close>

definition freshAlloc :: "(heap \<Rightarrow> addr) \<Rightarrow> bool" where
  "freshAlloc alloc = (\<forall>h. finite (dom h) \<longrightarrow> alloc h \<notin> dom h)"

text \<open>The outcome of an operation that returns a pointer to the tree \<open>t\<close>.\<close>

definition yields :: "cache \<Rightarrow> (error + addr \<times> cache) option \<Rightarrow> bexpr \<Rightarrow> bool" where
  "yields c r t = (\<exists>p c'. r = Some (Inr (p, c')) \<and> cacheInv c' \<and> extends c c' \<and> holds c' p t)"

lemma yieldsI: "cacheInv c' \<Longrightarrow> extends c c' \<Longrightarrow> holds c' p t \<Longrightarrow> yields c (Some (Inr (p, c'))) t"
  by (auto simp: yields_def)

lemma store_cong:
  assumes "c_heap c = c_heap d" "c_table c = c_table d"
  shows "cacheInv c = cacheInv d" "holds c p t = holds d p t" "extends b c = extends b d"
  using assms
  by (simp_all add: cacheInv_def nodeOk_def interned_def holds_def extends_def)

lemma cacheInv_counters [simp]:
  "cacheInv (c\<lparr> c_lastID := a \<rparr>) = cacheInv c" "cacheInv (c\<lparr> c_quaries := a \<rparr>) = cacheInv c"
  "cacheInv (c\<lparr> c_miss := a \<rparr>) = cacheInv c" "cacheInv (c\<lparr> c_hit := a \<rparr>) = cacheInv c"
  "holds (c\<lparr> c_lastID := a \<rparr>) p t = holds c p t" "holds (c\<lparr> c_quaries := a \<rparr>) p t = holds c p t"
  "holds (c\<lparr> c_miss := a \<rparr>) p t = holds c p t" "holds (c\<lparr> c_hit := a \<rparr>) p t = holds c p t"
  by (rule store_cong; simp)+

lemma extends_counters [simp]:
  "extends c (c\<lparr> c_lastID := a \<rparr>)" "extends c (c\<lparr> c_quaries := a \<rparr>)"
  "extends c (c\<lparr> c_miss := a \<rparr>)" "extends c (c\<lparr> c_hit := a \<rparr>)"
  by (simp_all add: extends_def)

lemma nodeKey_inject:
  assumes "nodeKey m = nodeKey n" "n_right m \<noteq> None \<longrightarrow> n_left m \<noteq> None"
    "n_right n \<noteq> None \<longrightarrow> n_left n \<noteq> None"
  shows "n_op m = n_op n" "n_var m = n_var n" "n_left m = n_left n" "n_right m = n_right n"
  using assms by (auto simp: nodeKey_def split: option.splits)

lemma nodeOk_left_of_right: "nodeOk c n t \<Longrightarrow> n_right n \<noteq> None \<longrightarrow> n_left n \<noteq> None"
  unfolding nodeOk_def by (cases t) auto

text \<open>A node that is built but not yet in the table represents \<open>t\<close> over interned children.\<close>

lemma hit_holds:
  assumes c: "cacheInv c" and n: "nodeOk c n t" and hit: "c_table c (nodeKey n) = Some p"
  shows "holds c p t"
proof -
  obtain m u where m: "c_heap c p = Some m" "nodeOk c m u" "nodeKey m = nodeKey n"
    using c hit unfolding cacheInv_def by blast
  note f = nodeOk_fields [OF n] and g = nodeOk_fields [OF m(2)]
  note * = nodeKey_inject [OF m(3) nodeOk_left_of_right [OF m(2)] nodeOk_left_of_right [OF n]]
  have "getOp u = getOp t" "getId u = getId t"
    using f(1,2) g(1,2) * by simp_all
  moreover have "getLeft u = getLeft t" "getRight u = getRight t"
    using rel_option_holds_eq [OF c f(4) g(4)] rel_option_holds_eq [OF c f(5) g(5)] * by simp_all
  ultimately have "u = t" by (rule bexpr_eqI)
  then show ?thesis
    using m hit unfolding holds_def interned_def reps_def nodeOk_def by blast
qed

lemma nodeOk_mono: "extends c c' \<Longrightarrow> nodeOk c n t \<Longrightarrow> nodeOk c' n t"
  unfolding nodeOk_def by (meson extends_def interned_mono nodeReps_mono)

lemma miss_holds:
  assumes c: "cacheInv c" and n: "nodeOk c n t" and miss: "c_table c (nodeKey n) = None"
    and p: "c_heap c p = None"
    and c': "c' = c\<lparr> c_heap := (c_heap c)(p \<mapsto> n), c_table := (c_table c)(nodeKey n \<mapsto> p) \<rparr>"
  shows "cacheInv c' \<and> extends c c' \<and> holds c' p t"
proof -
  have ext: "extends c c'"
    unfolding c' extends_def using miss p by (auto simp: map_le_def)
  have entry: "\<exists>m u. c_heap c' q = Some m \<and> nodeOk c' m u \<and> nodeKey m = tk"
    if "c_table c' tk = Some q" for tk q
  proof (cases "tk = nodeKey n")
    case True
    then show ?thesis using that nodeOk_mono [OF ext n] by (auto simp: c')
  next
    case False
    then have "c_table c tk = Some q" using that by (simp add: c')
    then obtain m u where "c_heap c q = Some m" "nodeOk c m u" "nodeKey m = tk"
      using c unfolding cacheInv_def by blast
    moreover have "q \<noteq> p" using p \<open>c_heap c q = Some m\<close> by auto
    ultimately show ?thesis using nodeOk_mono [OF ext] by (auto simp: c')
  qed
  have "finite (dom (c_heap c'))" using c by (simp add: c' cacheInv_def)
  then have "cacheInv c'" unfolding cacheInv_def using entry by blast
  moreover have "c_heap c' p = Some n" "c_table c' (nodeKey n) = Some p" by (simp_all add: c')
  then have "holds c' p t"
    using nodeOk_mono [OF ext n] unfolding holds_def interned_def reps_def nodeOk_def by blast
  ultimately show ?thesis using ext by blast
qed

lemma getExpression_correct:
  assumes c: "cacheInv c" and alloc: "freshAlloc alloc"
    and key: "lookupKey (c_heap c) k = Some (nodeKey n)"
    and new: "constructNode (c_heap c) (k_op k) (k_var k) (k_l k) (k_r k) = Some (Inr n)"
    and n: "nodeOk c n t"
  shows "yields c (getExpression alloc k c) t"
proof (cases "c_table c (nodeKey n)")
  case (Some p)
  then show ?thesis
    using hit_holds [OF c n Some] c
    by (auto simp: getExpression_def key countHit_def cacheInv_counters intro!: yieldsI)
       (simp add: extends_def)
next
  case None
  let ?p = "alloc (c_heap c)"
  have "c_heap c ?p = None"
    using alloc c unfolding freshAlloc_def cacheInv_def by blast
  note new_c = miss_holds [OF c n None this refl]
  let ?d = "snd (insertNode (nodeKey n) ?p n (c\<lparr> c_quaries := c_quaries c + 1 \<rparr>))"
  have "c_heap ?d = (c_heap c)(?p \<mapsto> n)" "c_table ?d = (c_table c)(nodeKey n \<mapsto> ?p)"
    by (simp_all add: insertNode_def None)
  then have "cacheInv ?d \<and> extends c ?d \<and> holds ?d ?p t"
    using new_c store_cong [of ?d "c\<lparr> c_heap := (c_heap c)(?p \<mapsto> n),
      c_table := (c_table c)(nodeKey n \<mapsto> ?p) \<rparr>"] by simp
  then show ?thesis
    unfolding getExpression_def by (auto simp: key new None yields_def insertNode_def)
qed


section \<open>The factories on pointers refine the factories on trees\<close>

lemma holds_hash: "holds c p t \<Longrightarrow> hashAt (c_heap c) (Some p) = Some (structuralHash t)"
  unfolding holds_def reps_def hashAt_def using nodeReps_fields(3) by fastforce

lemma holds_interned: "holds c p t \<Longrightarrow> interned c p"
  and holds_reps: "holds c p t \<Longrightarrow> reps (c_heap c) p t"
  by (simp_all add: holds_def)

lemma ptrVar_correct: "cacheInv c \<Longrightarrow> freshAlloc alloc \<Longrightarrow> yields c (ptrVar alloc v c) (mkVar v)"
  unfolding ptrVar_def
  by (rule getExpression_correct) (auto simp: lookupKey_def make_tuple_key_def nodeKey_def
      constructNode_def Let_def hashAt_def nodeOk_def mkVar_def)

lemma unary_correct:
  assumes "cacheInv c" "freshAlloc alloc" "holds c p t" "canonical (BNot t)"
  shows "yields c (getExpression alloc \<lparr> k_op = OpNOT, k_var = 0, k_l = Some p, k_r = None \<rparr> c) (BNot t)"
  using assms holds_hash [OF assms(3)] holds_interned [OF assms(3)] holds_reps [OF assms(3)]
  by (intro getExpression_correct) (auto simp: lookupKey_def make_tuple_key_def nodeKey_def
      constructNode_def Let_def hashAt_def nodeOk_def)

lemma nodeReps_binNode:
  assumes "k \<in> {OpAND, OpOR, OpXOR}" "reps h l a" "reps h r b"
    and "n = \<lparr> n_op = k, n_var = 0, n_left = Some l, n_right = Some r,
      n_hash = nodeHash k 0 (Some (structuralHash a)) (Some (structuralHash b)) \<rparr>"
  shows "nodeReps h n (binNode k a b)"
  using assms by auto

lemma binary_node:
  assumes c: "cacheInv c" and k: "k \<in> {OpAND, OpOR, OpXOR}"
    and p: "holds c p s" and q: "holds c q t" and can: "canonical (orderChildren (binNode k) s t)"
  shows "\<exists>n. lookupKey (c_heap c) \<lparr> k_op = k, k_var = 0, k_l = Some p, k_r = Some q \<rparr> = Some (nodeKey n) \<and>
    nodeOk c n (orderChildren (binNode k) s t) \<and>
    constructNode (c_heap c) k 0 (Some p) (Some q) = Some (Inr n)"
proof -
  note le = ptrLessEq_correct [OF c p q] ptrLessEq_correct [OF c q p]
  note facts = holds_hash [OF p] holds_hash [OF q] holds_interned [OF p] holds_interned [OF q]
    holds_reps [OF p] holds_reps [OF q]
  let ?n = "\<lambda>l r u v. \<lparr> n_op = k, n_var = 0, n_left = Some l, n_right = Some r,
      n_hash = nodeHash k 0 (Some (structuralHash u)) (Some (structuralHash v)) \<rparr>"
  show ?thesis
  proof (cases "t \<le> s")
    case True
    then have "nodeOk c (?n q p t s) (orderChildren (binNode k) s t)"
      using can facts nodeReps_binNode [OF k, of "c_heap c" q t p s]
      by (auto simp: nodeOk_def orderChildren_def)
    then show ?thesis
      using True facts le holds_eq_iff [OF c p q]
      by (intro exI [of _ "?n q p t s"])
         (auto simp: lookupKey_def constructNode_def make_tuple_key_def nodeKey_def Let_def)
  next
    case False
    then have "nodeOk c (?n p q s t) (orderChildren (binNode k) s t)"
      using can facts nodeReps_binNode [OF k, of "c_heap c" p s q t]
      by (auto simp: nodeOk_def orderChildren_def)
    then show ?thesis
      using False facts le
      by (intro exI [of _ "?n p q s t"])
         (auto simp: lookupKey_def constructNode_def make_tuple_key_def nodeKey_def Let_def)
  qed
qed

lemma binary_correct:
  assumes "cacheInv c" "freshAlloc alloc" "k \<in> {OpAND, OpOR, OpXOR}" "holds c p s" "holds c q t"
    and "canonical (orderChildren (binNode k) s t)"
  shows "yields c (getExpression alloc \<lparr> k_op = k, k_var = 0, k_l = Some p, k_r = Some q \<rparr> c)
     (orderChildren (binNode k) s t)"
  using binary_node [OF assms(1,3-6)] getExpression_correct [OF assms(1,2)] by force

lemma orderChildren_commute: "orderChildren C a b = orderChildren C b a"
  by (auto simp: orderChildren_def)

lemma binaryKey_correct:
  assumes "cacheInv c" "freshAlloc alloc" "k \<in> {OpAND, OpOR, OpXOR}" "holds c p s" "holds c q t"
    and "canonical (orderChildren (binNode k) s t)"
  shows "yields c (getExpression alloc (binaryKey k p q) c) (orderChildren (binNode k) s t)"
  using binary_correct [OF assms] binary_correct [OF assms(1-3,5,4)] assms(6)
  by (simp add: binaryKey_def orderChildren_commute [of _ s t])

text \<open>What a factory reads of the nodes behind its arguments.\<close>

definition reads :: "cache \<Rightarrow> node \<Rightarrow> bexpr \<Rightarrow> bool" where
  "reads c n t = ((\<forall>v. isVarId n v \<longleftrightarrow> t = BVar v) \<and>
     (\<forall>q u. holds c q u \<longrightarrow> (isNotOf n q \<longleftrightarrow> t = BNot u)))"

lemma nodeOk_reads:
  assumes "cacheInv c" "nodeOk c n t"
  shows "reads c n t"
proof -
  note f = nodeOk_fields [OF assms(2)]
  have "isNotOf n q \<longleftrightarrow> t = BNot u" if "holds c q u" for q u
  proof (cases t)
    case (BNot a)
    then obtain l where "n_left n = Some l" "holds c l a" using f by (auto simp: option_rel_Some2)
    then show ?thesis
      using BNot f that holds_eq_iff [OF assms(1) \<open>holds c l a\<close> that] by (simp add: isNotOf_def)
  qed (use f in \<open>simp_all add: isNotOf_def\<close>)
  moreover have "isVarId n v \<longleftrightarrow> t = BVar v" for v
    using f unfolding isVarId_def by (cases t) auto
  ultimately show ?thesis by (simp add: reads_def)
qed

lemma holds_deref:
  "cacheInv c \<Longrightarrow> holds c p t \<Longrightarrow> \<exists>n. deref p c = Some n \<and> nodeOk c n t \<and> reads c n t"
  using holds_node nodeOk_reads unfolding deref_def by blast

lemma yields_self: "cacheInv c \<Longrightarrow> holds c p t \<Longrightarrow> yields c (Some (Inr (p, c))) t"
  by (simp add: yieldsI)

lemma ptrNot_correct:
  assumes c: "cacheInv c" and alloc: "freshAlloc alloc" and p: "holds c p t"
  shows "yields c (ptrNot alloc p c) (mkNot t)"
proof -
  obtain n where n: "deref p c = Some n" "nodeOk c n t" using holds_deref [OF c p] by blast
  note f = nodeOk_fields [OF n(2)]
  have can: "canonical t" using c p holds_canonical by blast
  show ?thesis
  proof (cases t)
    case (BVar v)
    then show ?thesis
      using f n ptrVar_correct [OF c alloc, of "1 - v"] unary_correct [OF c alloc p]
      by (cases "v < 2") (simp_all add: ptrNot_def mkNot_def isConst_def lt2_iff)
  next
    case (BNot a)
    then obtain l where "n_left n = Some l" "holds c l a" using f by (auto simp: option_rel_Some2)
    then show ?thesis using BNot f n c by (simp add: ptrNot_def mkNot_def yields_self)
  qed (use f n can unary_correct [OF c alloc p] in \<open>simp_all add: ptrNot_def mkNot_def isConst_def\<close>)
qed

lemma binary_yields:
  assumes "cacheInv c" "freshAlloc alloc" "holds c p s" "holds c q t"
  shows "canonical (orderChildren BAnd s t) \<Longrightarrow>
      yields c (getExpression alloc (binaryKey OpAND p q) c) (orderChildren BAnd s t)"
    "canonical (orderChildren BOr s t) \<Longrightarrow>
      yields c (getExpression alloc (binaryKey OpOR p q) c) (orderChildren BOr s t)"
    "canonical (orderChildren BXor s t) \<Longrightarrow>
      yields c (getExpression alloc (binaryKey OpXOR p q) c) (orderChildren BXor s t)"
proof -
  have eqs: "binNode OpAND = BAnd" "binNode OpOR = BOr" "binNode OpXOR = BXor"
    by (simp_all add: fun_eq_iff)
  note * = binaryKey_correct [OF assms(1,2) _ assms(3,4)]
  show "canonical (orderChildren BAnd s t) \<Longrightarrow>
      yields c (getExpression alloc (binaryKey OpAND p q) c) (orderChildren BAnd s t)"
    "canonical (orderChildren BOr s t) \<Longrightarrow>
      yields c (getExpression alloc (binaryKey OpOR p q) c) (orderChildren BOr s t)"
    "canonical (orderChildren BXor s t) \<Longrightarrow>
      yields c (getExpression alloc (binaryKey OpXOR p q) c) (orderChildren BXor s t)"
    using * [of OpAND] * [of OpOR] * [of OpXOR] by (simp_all add: eqs)
qed

lemma ptrAnd_correct:
  assumes c: "cacheInv c" and alloc: "freshAlloc alloc" and p: "holds c p s" and q: "holds c q t"
  shows "yields c (ptrAnd alloc p q c) (mkAnd s t)"
proof -
  obtain n m where n: "deref p c = Some n" "reads c n s" and m: "deref q c = Some m" "reads c m t"
    using holds_deref [OF c p] holds_deref [OF c q] by blast
  note canon = canonical_orderChildren [OF holds_canonical [OF c p] holds_canonical [OF c q]]
  with binary_yields(1) [OF c alloc p q] show ?thesis
    using ptrVar_correct [OF c alloc] yields_self [OF c p] yields_self [OF c q] n(2) m(2) p q
    canon unfolding reads_def
    by (auto simp: ptrAnd_def mkAnd_def n(1) m(1) holds_eq_iff [OF c p q] isConst_def)
qed

lemma ptrOr_correct:
  assumes c: "cacheInv c" and alloc: "freshAlloc alloc" and p: "holds c p s" and q: "holds c q t"
  shows "yields c (ptrOr alloc p q c) (mkOr s t)"
proof -
  obtain n m where n: "deref p c = Some n" "reads c n s" and m: "deref q c = Some m" "reads c m t"
    using holds_deref [OF c p] holds_deref [OF c q] by blast
  note canon = canonical_orderChildren [OF holds_canonical [OF c p] holds_canonical [OF c q]]
  with binary_yields(2) [OF c alloc p q] show ?thesis
    using ptrVar_correct [OF c alloc] yields_self [OF c p] yields_self [OF c q] n(2) m(2) p q
    canon unfolding reads_def
    by (auto simp: ptrOr_def mkOr_def n(1) m(1) holds_eq_iff [OF c p q] isConst_def)
qed

lemma ptrXor_correct:
  assumes c: "cacheInv c" and alloc: "freshAlloc alloc" and p: "holds c p s" and q: "holds c q t"
  shows "yields c (ptrXor alloc p q c) (mkXor s t)"
proof -
  obtain n m where n: "deref p c = Some n" "reads c n s" and m: "deref q c = Some m" "reads c m t"
    using holds_deref [OF c p] holds_deref [OF c q] by blast
  note canon = canonical_orderChildren [OF holds_canonical [OF c p] holds_canonical [OF c q]]
  with binary_yields(3) [OF c alloc p q] show ?thesis
    using ptrVar_correct [OF c alloc] yields_self [OF c p] yields_self [OF c q] n(2) m(2) p q
      ptrNot_correct [OF c alloc p] ptrNot_correct [OF c alloc q]
    canon unfolding reads_def
    by (auto simp: ptrXor_def mkXor_def n(1) m(1) holds_eq_iff [OF c p q] isConst_def)
qed

end
