(* ===== verification/Expr_Store.thy ===== *)
theory Expr_Store
  imports Expr_Cache_Correct
begin

text \<open>
  Clients of the interning table.  The interface \<open>expression_store\<close> states what the factories
  promise to every builder of expressions, and its lemma says that any sequence of factory
  calls builds the trees that the same calls build on trees; it is interpreted on the cache.
  Then the life cycle of a scoped context, and the concurrent callers of
  \<open>BoolExprCache::getExpression\<close> as a step relation.
\<close>

section \<open>Sequences of factory calls\<close>

text \<open>A builder keeps the pointers it got in registers and refers to them by position.\<close>

datatype build =
    MakeVar var_id
  | MakeNot nat
  | MakeAnd nat nat
  | MakeOr nat nat
  | MakeXor nat nat

record ('s, 'p) factory =
  f_var :: "var_id \<Rightarrow> 's \<Rightarrow> (error + 'p \<times> 's) option"
  f_not :: "'p \<Rightarrow> 's \<Rightarrow> (error + 'p \<times> 's) option"
  f_and :: "'p \<Rightarrow> 'p \<Rightarrow> 's \<Rightarrow> (error + 'p \<times> 's) option"
  f_or :: "'p \<Rightarrow> 'p \<Rightarrow> 's \<Rightarrow> (error + 'p \<times> 's) option"
  f_xor :: "'p \<Rightarrow> 'p \<Rightarrow> 's \<Rightarrow> (error + 'p \<times> 's) option"

fun args :: "build \<Rightarrow> nat list" where
  "args (MakeVar _) = []"
| "args (MakeNot i) = [i]"
| "args (MakeAnd i j) = [i, j]"
| "args (MakeOr i j) = [i, j]"
| "args (MakeXor i j) = [i, j]"

fun callOn :: "('s, 'p) factory \<Rightarrow> build \<Rightarrow> 'p list \<Rightarrow> 's \<Rightarrow> (error + 'p \<times> 's) option" where
  "callOn F (MakeVar v) ps = f_var F v"
| "callOn F (MakeNot i) ps = f_not F (ps ! i)"
| "callOn F (MakeAnd i j) ps = f_and F (ps ! i) (ps ! j)"
| "callOn F (MakeOr i j) ps = f_or F (ps ! i) (ps ! j)"
| "callOn F (MakeXor i j) ps = f_xor F (ps ! i) (ps ! j)"

text \<open>A builder that refers to a register it has not filled is rejected.\<close>

fun runBuild :: "('s, 'p) factory \<Rightarrow> build list \<Rightarrow> 'p list \<Rightarrow> 's \<Rightarrow> (error + 'p list \<times> 's) option" where
  "runBuild F [] ps s = Some (Inr (ps, s))"
| "runBuild F (b # bs) ps s =
    (if \<forall>i \<in> set (args b). i < length ps then
       Option.bind (callOn F b ps s) (\<lambda>r. case r of
         Inl e \<Rightarrow> Some (Inl e)
       | Inr (p, s') \<Rightarrow> runBuild F bs (ps @ [p]) s')
     else Some (Inl (Out_Of_Range ''register'')))"

fun wellScoped :: "nat \<Rightarrow> build list \<Rightarrow> bool" where
  "wellScoped n [] = True"
| "wellScoped n (b # bs) = ((\<forall>i \<in> set (args b). i < n) \<and> wellScoped (Suc n) bs)"

fun treeOf :: "build \<Rightarrow> bexpr list \<Rightarrow> bexpr" where
  "treeOf (MakeVar v) ts = mkVar v"
| "treeOf (MakeNot i) ts = mkNot (ts ! i)"
| "treeOf (MakeAnd i j) ts = mkAnd (ts ! i) (ts ! j)"
| "treeOf (MakeOr i j) ts = mkOr (ts ! i) (ts ! j)"
| "treeOf (MakeXor i j) ts = mkXor (ts ! i) (ts ! j)"

fun treesOf :: "build list \<Rightarrow> bexpr list \<Rightarrow> bexpr list" where
  "treesOf [] ts = ts"
| "treesOf (b # bs) ts = treesOf bs (ts @ [treeOf b ts])"

locale expression_store =
  fixes ok :: "'s \<Rightarrow> bool"
    and at :: "'s \<Rightarrow> 'p \<Rightarrow> bexpr \<Rightarrow> bool"
    and grows :: "'s \<Rightarrow> 's \<Rightarrow> bool"
    and F :: "('s, 'p) factory"
  assumes at_grows: "grows s s' \<Longrightarrow> at s p t \<Longrightarrow> at s' p t"
    and var_ok: "ok s \<Longrightarrow> \<exists>p s'. f_var F v s = Some (Inr (p, s')) \<and> ok s' \<and> grows s s' \<and> at s' p (mkVar v)"
    and not_ok: "ok s \<Longrightarrow> at s p t \<Longrightarrow>
      \<exists>r s'. f_not F p s = Some (Inr (r, s')) \<and> ok s' \<and> grows s s' \<and> at s' r (mkNot t)"
    and and_ok: "ok s \<Longrightarrow> at s p t \<Longrightarrow> at s q u \<Longrightarrow>
      \<exists>r s'. f_and F p q s = Some (Inr (r, s')) \<and> ok s' \<and> grows s s' \<and> at s' r (mkAnd t u)"
    and or_ok: "ok s \<Longrightarrow> at s p t \<Longrightarrow> at s q u \<Longrightarrow>
      \<exists>r s'. f_or F p q s = Some (Inr (r, s')) \<and> ok s' \<and> grows s s' \<and> at s' r (mkOr t u)"
    and xor_ok: "ok s \<Longrightarrow> at s p t \<Longrightarrow> at s q u \<Longrightarrow>
      \<exists>r s'. f_xor F p q s = Some (Inr (r, s')) \<and> ok s' \<and> grows s s' \<and> at s' r (mkXor t u)"
    and at_inject: "ok s \<Longrightarrow> at s p t \<Longrightarrow> at s q u \<Longrightarrow> p = q \<longleftrightarrow> t = u"
begin

lemma callOn_ok:
  assumes "ok s" "list_all2 (at s) ps ts" "\<forall>i \<in> set (args b). i < length ps"
  shows "\<exists>r s'. callOn F b ps s = Some (Inr (r, s')) \<and> ok s' \<and> grows s s' \<and> at s' r (treeOf b ts)"
  using assms var_ok not_ok and_ok or_ok xor_ok
  by (cases b) (auto simp: list_all2_conv_all_nth)

lemma runBuild_ok:
  assumes "ok s" "list_all2 (at s) ps ts" "wellScoped (length ps) bs"
  shows "\<exists>qs s'. runBuild F bs ps s = Some (Inr (qs, s')) \<and> ok s' \<and> list_all2 (at s') qs (treesOf bs ts)"
  using assms
proof (induction bs arbitrary: ps ts s)
  case (Cons b bs)
  obtain r s' where call: "callOn F b ps s = Some (Inr (r, s'))" "ok s'" "grows s s'"
    "at s' r (treeOf b ts)" using callOn_ok [of s ps ts b] Cons.prems by auto
  have "list_all2 (at s') (ps @ [r]) (ts @ [treeOf b ts])"
    using Cons.prems(2) call(3,4) at_grows by (auto intro!: list_all2_appendI elim: list_all2_mono)
  from Cons.IH [OF call(2) this] show ?case using Cons.prems(3) call(1) by simp
qed simp

text \<open>Registers hold equal pointers exactly when the calls that filled them built equal trees.\<close>

lemma registers_equal_iff:
  assumes "ok s" "list_all2 (at s) qs ts" "i < length qs" "j < length qs"
  shows "qs ! i = qs ! j \<longleftrightarrow> ts ! i = ts ! j"
  using assms at_inject by (meson list_all2_nthD)

end

definition cacheFactory :: "(heap \<Rightarrow> addr) \<Rightarrow> (cache, addr) factory" where
  "cacheFactory alloc = \<lparr> f_var = ptrVar alloc, f_not = ptrNot alloc, f_and = ptrAnd alloc,
     f_or = ptrOr alloc, f_xor = ptrXor alloc \<rparr>"

definition nextFree :: "heap \<Rightarrow> addr" where
  "nextFree h = (if dom h = {} then 0 else Suc (Max (dom h)))"

lemma nextFree_fresh: "freshAlloc nextFree"
  unfolding freshAlloc_def nextFree_def by (auto dest: Max_ge)

lemma expression_store_cache:
  "freshAlloc alloc \<Longrightarrow> expression_store cacheInv holds extends (cacheFactory alloc)"
  by unfold_locales
     (auto simp: cacheFactory_def holds_mono holds_eq_iff
       dest: ptrVar_correct ptrNot_correct ptrAnd_correct ptrOr_correct ptrXor_correct
       simp: yields_def)


interpretation cache_store: expression_store cacheInv holds extends "cacheFactory nextFree"
  by (rule expression_store_cache [OF nextFree_fresh])

lemma cacheInv_empty [simp]: "cacheInv emptyCache"
  by (simp add: cacheInv_def emptyCache_def)

text \<open>The trees that a builder obtains from an empty cache do not depend on the addresses.\<close>

lemma runBuild_trees:
  assumes "freshAlloc alloc" "wellScoped 0 bs"
  shows "\<exists>ps c. runBuild (cacheFactory alloc) bs [] emptyCache = Some (Inr (ps, c)) \<and> cacheInv c \<and>
    list_all2 (holds c) ps (treesOf bs [])"
  using expression_store.runBuild_ok [OF expression_store_cache [OF assms(1)] cacheInv_empty, of "[]" "[]" bs]
    assms(2) by simp

section \<open>Cache transitions\<close>

text \<open>One factory call of a client, on pointers that are interned.\<close>

inductive factoryCall :: "(heap \<Rightarrow> addr) \<Rightarrow> cache \<Rightarrow> cache \<Rightarrow> bool" for alloc where
  call_var: "ptrVar alloc v c = Some (Inr (p, c')) \<Longrightarrow> factoryCall alloc c c'"
| call_not: "holds c a t \<Longrightarrow> ptrNot alloc a c = Some (Inr (p, c')) \<Longrightarrow> factoryCall alloc c c'"
| call_and: "holds c a t \<Longrightarrow> holds c b u \<Longrightarrow> ptrAnd alloc a b c = Some (Inr (p, c')) \<Longrightarrow>
    factoryCall alloc c c'"
| call_or: "holds c a t \<Longrightarrow> holds c b u \<Longrightarrow> ptrOr alloc a b c = Some (Inr (p, c')) \<Longrightarrow>
    factoryCall alloc c c'"
| call_xor: "holds c a t \<Longrightarrow> holds c b u \<Longrightarrow> ptrXor alloc a b c = Some (Inr (p, c')) \<Longrightarrow>
    factoryCall alloc c c'"

abbreviation factoryCalls :: "(heap \<Rightarrow> addr) \<Rightarrow> cache \<Rightarrow> cache \<Rightarrow> bool" where
  "factoryCalls alloc \<equiv> (factoryCall alloc)\<^sup>*\<^sup>*"

lemma yields_SomeD: "yields c (Some (Inr (p, c'))) t \<Longrightarrow> cacheInv c' \<and> extends c c' \<and> holds c' p t"
  by (simp add: yields_def)

lemma factoryCall_inv:
  assumes "factoryCall alloc c c'" "freshAlloc alloc" "cacheInv c"
  shows "cacheInv c' \<and> extends c c'"
  using assms
proof cases
  case (call_var v p)
  then show ?thesis using ptrVar_correct [OF assms(3,2), of v] yields_SomeD by metis
next
  case (call_not a t p)
  then show ?thesis using ptrNot_correct [OF assms(3,2)] yields_SomeD by metis
next
  case (call_and a t b u p)
  then show ?thesis using ptrAnd_correct [OF assms(3,2)] yields_SomeD by metis
next
  case (call_or a t b u p)
  then show ?thesis using ptrOr_correct [OF assms(3,2)] yields_SomeD by metis
next
  case (call_xor a t b u p)
  then show ?thesis using ptrXor_correct [OF assms(3,2)] yields_SomeD by metis
qed

text \<open>A call allocates at most one node, at an address that was free, and never changes an
  existing node or entry.\<close>

definition sameOrNew :: "(heap \<Rightarrow> addr) \<Rightarrow> cache \<Rightarrow> cache \<Rightarrow> bool" where
  "sameOrNew alloc c c' \<longleftrightarrow> c_table c' = c_table c \<and> c_heap c' = c_heap c \<or>
     (\<exists>tk n. c_table c tk = None \<and> c_table c' = (c_table c)(tk \<mapsto> alloc (c_heap c)) \<and>
             c_heap c' = (c_heap c)(alloc (c_heap c) \<mapsto> n))"

lemma getExpression_alloc:
  assumes "getExpression alloc k c = Some (Inr (p, c'))"
  shows "sameOrNew alloc c c'"
proof -
  let ?c1 = "c\<lparr> c_quaries := c_quaries c + 1 \<rparr>"
  obtain tk where tk: "lookupKey (c_heap c) k = Some tk"
    using assms by (auto simp: getExpression_def bind_eq_Some_conv)
  show ?thesis
  proof (cases "c_table c tk")
    case None
    then obtain r :: "error + node" where r: "map_sum id (\<lambda>n. insertNode tk (alloc (c_heap c)) n ?c1) r = Inr (p, c')"
      using assms tk by (auto simp: getExpression_def Let_def)
    then obtain n where "insertNode tk (alloc (c_heap c)) n ?c1 = (p, c')"
      by (cases r) auto
    then have "c_table c' = (c_table c)(tk \<mapsto> alloc (c_heap c))"
      "c_heap c' = (c_heap c)(alloc (c_heap c) \<mapsto> n)"
      using None by (auto simp: insertNode_def)
    then show ?thesis using None unfolding sameOrNew_def by blast
  qed (use assms tk in \<open>auto simp: getExpression_def countHit_def sameOrNew_def\<close>)
qed

lemma sameOrNew_refl [simp]: "sameOrNew alloc c c"
  by (simp add: sameOrNew_def)

lemma ptr_alloc:
  "ptrVar alloc v c = Some (Inr (p, c')) \<Longrightarrow> sameOrNew alloc c c'"
  "ptrNot alloc a c = Some (Inr (p, c')) \<Longrightarrow> sameOrNew alloc c c'"
  "ptrAnd alloc a b c = Some (Inr (p, c')) \<Longrightarrow> sameOrNew alloc c c'"
  "ptrOr alloc a b c = Some (Inr (p, c')) \<Longrightarrow> sameOrNew alloc c c'"
  "ptrXor alloc a b c = Some (Inr (p, c')) \<Longrightarrow> sameOrNew alloc c c'"
  by (auto simp: ptrVar_def ptrNot_def ptrAnd_def ptrOr_def ptrXor_def bind_eq_Some_conv
      dest: getExpression_alloc split: if_splits)

lemma factoryCall_alloc: "factoryCall alloc c c' \<Longrightarrow> sameOrNew alloc c c'"
  by (auto elim!: factoryCall.cases dest: ptr_alloc)

section \<open>Scoped contexts\<close>

text \<open>While a scope is open, its own nodes live at addresses that were free when it was
  entered, and the nodes of the enclosing cache are untouched.\<close>

definition scopeInv :: "cache \<Rightarrow> cache \<Rightarrow> bool" where
  "scopeInv c0 c = (cacheInv c \<and> c_heap c0 \<subseteq>\<^sub>m c_heap c \<and>
     ran (c_table c) \<inter> dom (c_heap c0) = {})"

lemma scopeInv_enter:
  assumes "cacheInv c0"
  shows "scopeInv c0 (snd (enterScope c0))"
  using assms by (simp add: scopeInv_def enterScope_def cacheInv_def)

lemma scopeInv_call:
  assumes "factoryCall alloc c c'" "freshAlloc alloc" "scopeInv c0 c"
  shows "scopeInv c0 c'"
proof -
  have inv: "cacheInv c'" "c_heap c \<subseteq>\<^sub>m c_heap c'"
    using factoryCall_inv [OF assms(1,2)] assms(3) by (auto simp: scopeInv_def extends_def)
  have "alloc (c_heap c) \<notin> dom (c_heap c0)"
    using assms(2,3) unfolding scopeInv_def freshAlloc_def cacheInv_def map_le_def by (metis domIff)
  moreover have "ran (c_table c') \<subseteq> insert (alloc (c_heap c)) (ran (c_table c))"
    using factoryCall_alloc [OF assms(1)] unfolding sameOrNew_def
    by (metis ran_map_upd subset_insertI order_refl)
  ultimately have "ran (c_table c') \<inter> dom (c_heap c0) = {}"
    using assms(3) by (auto simp: scopeInv_def)
  then show ?thesis
    using inv assms(3) map_le_trans unfolding scopeInv_def by blast
qed

lemma scopeInv_calls:
  "factoryCalls alloc c c' \<Longrightarrow> freshAlloc alloc \<Longrightarrow> scopeInv c0 c \<Longrightarrow> scopeInv c0 c'"
  by (induction rule: rtranclp_induct) (auto intro: scopeInv_call)

text \<open>Leaving the scope gives back the enclosing table, its counters and its nodes.\<close>

lemma leaveScope_restores:
  assumes "cacheInv c0" "freshAlloc alloc" "enterScope c0 = (saved, c1)" "factoryCalls alloc c1 c2"
  defines "c3 \<equiv> leaveScope saved c2"
  shows "c_table c3 = c_table c0" "c_lastID c3 = c_lastID c0" "c_quaries c3 = c_quaries c0"
    "c_miss c3 = c_miss c0" "c_hit c3 = c_hit c0" "c_heap c0 \<subseteq>\<^sub>m c_heap c3"
    "finite (dom (c_heap c3))"
proof -
  have inv: "scopeInv c0 c2"
    using scopeInv_calls [OF assms(4,2)] scopeInv_enter [OF assms(1)] assms(3) by simp
  have fields: "saved = fst (enterScope c0)" using assms(3) by simp
  show "c_table c3 = c_table c0" "c_lastID c3 = c_lastID c0" "c_quaries c3 = c_quaries c0"
    "c_miss c3 = c_miss c0" "c_hit c3 = c_hit c0"
    unfolding c3_def fields by (simp_all add: leaveScope_def enterScope_def)
  have "a \<notin> ran (c_table c2)" if "a \<in> dom (c_heap c0)" for a
    using inv that unfolding scopeInv_def by blast
  then show "c_heap c0 \<subseteq>\<^sub>m c_heap c3"
    using inv unfolding c3_def leaveScope_def clearTable_def scopeInv_def
    by (simp add: map_le_def restrict_map_def)
  show "finite (dom (c_heap c3))"
    using inv unfolding c3_def leaveScope_def clearTable_def scopeInv_def cacheInv_def
    by (auto intro: finite_subset)
qed

lemma extends_cacheInv:
  assumes "cacheInv c" "c_heap c \<subseteq>\<^sub>m c_heap d" "c_table d = c_table c" "finite (dom (c_heap d))"
  shows "cacheInv d" "extends c d"
proof -
  show ext: "extends c d" using assms by (simp add: extends_def)
  show "cacheInv d"
    unfolding cacheInv_def
  proof (intro conjI allI impI)
    show "finite (dom (c_heap d))" by fact
    fix tk p assume "c_table d tk = Some p"
    then obtain n t where "c_heap c p = Some n" "nodeOk c n t" "nodeKey n = tk"
      using assms(1,3) unfolding cacheInv_def by metis
    then show "\<exists>n t. c_heap d p = Some n \<and> nodeOk d n t \<and> nodeKey n = tk"
      using nodeOk_mono [OF ext] assms(2) unfolding map_le_def by (metis domI)
  qed
qed


lemma leaveScope_correct:
  assumes "cacheInv c0" "freshAlloc alloc" "enterScope c0 = (saved, c1)" "factoryCalls alloc c1 c2"
  shows "cacheInv (leaveScope saved c2)" "holds c0 p t \<Longrightarrow> holds (leaveScope saved c2) p t"
proof -
  note r = leaveScope_restores [OF assms]
  note ext = extends_cacheInv [OF assms(1) r(6,1,7)]
  show "cacheInv (leaveScope saved c2)" by (rule ext)
  show "holds c0 p t \<Longrightarrow> holds (leaveScope saved c2) p t" by (rule holds_mono [OF ext(2)])
qed

lemma destroy_correct: "cacheInv c \<Longrightarrow> cacheInv (destroy c) \<and> \<not> holds (destroy c) p t"
  by (auto simp: destroy_def clearTable_def cacheInv_def holds_def interned_def intro: finite_subset)

section \<open>Concurrent callers\<close>

text \<open>
  Several threads call \<open>getExpression\<close> on the shared table.  The find and the insert of the
  concurrent map are atomic; between them another thread may insert an equal node, and then
  the loser drops its own node and returns the winner's.
\<close>

datatype phase =
    Request key
  | Missed key tuple_key
  | Built tuple_key addr
  | Returned addr

type_synonym threads = "nat \<rightharpoonup> phase"

inductive concStep :: "(heap \<Rightarrow> addr) \<Rightarrow> cache \<times> threads \<Rightarrow> cache \<times> threads \<Rightarrow> bool" for alloc where
  find_hit: "th i = Some (Request k) \<Longrightarrow> lookupKey (c_heap c) k = Some tk \<Longrightarrow> c_table c tk = Some p \<Longrightarrow>
    concStep alloc (c, th) (countHit (c\<lparr> c_quaries := c_quaries c + 1 \<rparr>), th(i \<mapsto> Returned p))"
| find_miss: "th i = Some (Request k) \<Longrightarrow> lookupKey (c_heap c) k = Some tk \<Longrightarrow> c_table c tk = None \<Longrightarrow>
    concStep alloc (c, th) (c\<lparr> c_quaries := c_quaries c + 1 \<rparr>, th(i \<mapsto> Missed k tk))"
| construct: "th i = Some (Missed k tk) \<Longrightarrow>
    constructNode (c_heap c) (k_op k) (k_var k) (k_l k) (k_r k) = Some (Inr n) \<Longrightarrow>
    p = alloc (c_heap c) \<Longrightarrow>
    concStep alloc (c, th) (c\<lparr> c_heap := (c_heap c)(p \<mapsto> n) \<rparr>, th(i \<mapsto> Built tk p))"
| insert_first: "th i = Some (Built tk p) \<Longrightarrow> c_table c tk = None \<Longrightarrow>
    concStep alloc (c, th)
      (c\<lparr> c_lastID := c_lastID c + 1, c_table := (c_table c)(tk \<mapsto> p), c_miss := c_miss c + 1 \<rparr>,
       th(i \<mapsto> Returned p))"
| insert_lost: "th i = Some (Built tk p) \<Longrightarrow> c_table c tk = Some q \<Longrightarrow>
    concStep alloc (c, th)
      (c\<lparr> c_lastID := c_lastID c + 1, c_heap := (c_heap c)(p := None) \<rparr>, th(i \<mapsto> Returned q))"

inductive_cases concStepE: "concStep alloc (c, th) s"

text \<open>A request of the factories: what it asks for is the tree \<open>t\<close>.\<close>

definition keyFor :: "cache \<Rightarrow> key \<Rightarrow> bexpr \<Rightarrow> bool" where
  "keyFor c k t = (canonical t \<and>
    ((\<exists>v. k = \<lparr> k_op = OpVAR, k_var = v, k_l = None, k_r = None \<rparr> \<and> t = BVar v) \<or>
     (\<exists>p s. k = \<lparr> k_op = OpNOT, k_var = 0, k_l = Some p, k_r = None \<rparr> \<and> holds c p s \<and> t = BNot s) \<or>
     (\<exists>opr p q s u. k = \<lparr> k_op = opr, k_var = 0, k_l = Some p, k_r = Some q \<rparr> \<and>
        opr \<in> {OpAND, OpOR, OpXOR} \<and> holds c p s \<and> holds c q u \<and>
        t = orderChildren (binNode opr) s u)))"

text \<open>What such a request looks up and builds.\<close>

lemma keyFor_node:
  assumes c: "cacheInv c" and k: "keyFor c k t"
  shows "\<exists>n. lookupKey (c_heap c) k = Some (nodeKey n) \<and> nodeOk c n t \<and>
    constructNode (c_heap c) (k_op k) (k_var k) (k_l k) (k_r k) = Some (Inr n)"
  using k unfolding keyFor_def
proof (elim conjE disjE exE)
  fix v assume "k = \<lparr> k_op = OpVAR, k_var = v, k_l = None, k_r = None \<rparr>" "t = BVar v"
  then show ?thesis
    by (auto simp: lookupKey_def make_tuple_key_def nodeKey_def constructNode_def Let_def
        hashAt_def nodeOk_def)
next
  fix p s assume "canonical t" "k = \<lparr> k_op = OpNOT, k_var = 0, k_l = Some p, k_r = None \<rparr>" "holds c p s" "t = BNot s"
  then show ?thesis
    using holds_hash [of c p s] holds_interned [of c p s] holds_reps [of c p s]
    by (auto simp: lookupKey_def make_tuple_key_def nodeKey_def constructNode_def Let_def
        hashAt_def nodeOk_def)
next
  fix opr p q s u
  assume can: "canonical t" and k: "k = \<lparr> k_op = opr, k_var = 0, k_l = Some p, k_r = Some q \<rparr>"
    "opr \<in> {OpAND, OpOR, OpXOR}" "holds c p s" "holds c q u" "t = orderChildren (binNode opr) s u"
  show ?thesis using binary_node [OF c k(2-4)] can k by simp
qed


text \<open>Steps keep what is known of interned nodes, also the step that frees a node that lost.\<close>

definition keeps :: "cache \<Rightarrow> cache \<Rightarrow> bool" where
  "keeps c c' = (\<forall>p t. holds c p t \<longrightarrow> holds c' p t)"

lemma extends_keeps: "extends c c' \<Longrightarrow> keeps c c'"
  using holds_mono unfolding keeps_def by blast

lemma nodeOk_intro:
  assumes "n_op n = getOp t" "n_var n = getId t" "n_hash n = structuralHash t" "canonical t"
    "rel_option (holds c) (n_left n) (getLeft t)" "rel_option (holds c) (n_right n) (getRight t)"
  shows "nodeOk c n t"
  using assms by (cases t; cases n) (auto simp: nodeOk_def holds_def option_rel_Some2)

lemma nodeOk_keeps: "keeps c c' \<Longrightarrow> nodeOk c n t \<Longrightarrow> nodeOk c' n t"
  using nodeOk_fields [of c n t]
  by (intro nodeOk_intro) (auto simp: keeps_def nodeOk_def elim: option.rel_mono_strong)

definition dropNode :: "addr \<Rightarrow> cache \<Rightarrow> cache" where
  "dropNode p c = c\<lparr> c_heap := (c_heap c)(p := None) \<rparr>"

lemma dropNode_keeps:
  assumes c: "cacheInv c" and p: "\<not> interned c p"
  shows "keeps c (dropNode p c)"
proof -
  have "holds (dropNode p c) q t" if "holds c q t" for q t
    using that
  proof (induction t arbitrary: q rule: measure_induct_rule [of size])
    case (less t)
    obtain n where n: "c_heap c q = Some n" "nodeOk c n t" using holds_node [OF c less.prems] by blast
    have "interned c q" using less.prems by (simp add: holds_def)
    then have "q \<noteq> p" using p by blast
    note f = nodeOk_fields [OF n(2)]
    have "rel_option (holds (dropNode p c)) (n_left n) (getLeft t)"
      using f(4) less.IH getLeft_size by (auto elim!: option.rel_cases)
    moreover have "rel_option (holds (dropNode p c)) (n_right n) (getRight t)"
      using f(5) less.IH getRight_size by (auto elim!: option.rel_cases)
    ultimately have "nodeOk (dropNode p c) n t"
      using f holds_canonical [OF c less.prems] by (intro nodeOk_intro)
    then show ?case
      using n(1) \<open>q \<noteq> p\<close> \<open>interned c q\<close>
      by (auto simp: holds_def interned_def reps_def nodeOk_def dropNode_def)
  qed
  then show ?thesis by (simp add: keeps_def)
qed

lemma dropNode_cacheInv:
  assumes c: "cacheInv c" and p: "\<not> interned c p"
  shows "cacheInv (dropNode p c)"
proof -
  have "\<exists>n t. c_heap (dropNode p c) q = Some n \<and> nodeOk (dropNode p c) n t \<and> nodeKey n = tk"
    if tk: "c_table c tk = Some q" for tk q
  proof -
    obtain n t where n: "c_heap c q = Some n" "nodeOk c n t" "nodeKey n = tk"
      using c tk unfolding cacheInv_def by blast
    moreover have "q \<noteq> p" using p tk by (auto simp: interned_def)
    ultimately show ?thesis
      using nodeOk_keeps [OF dropNode_keeps [OF c p]] by (auto simp: dropNode_def)
  qed
  moreover have "finite (dom (c_heap (dropNode p c)))"
    using c by (simp add: dropNode_def cacheInv_def)
  ultimately show ?thesis unfolding cacheInv_def by (simp add: dropNode_def)
qed

lemma keyFor_keeps: "keeps c c' \<Longrightarrow> keyFor c k t \<Longrightarrow> keyFor c' k t"
  unfolding keyFor_def keeps_def by blast

lemma keyFor_lookup:
  assumes c: "cacheInv c" "cacheInv c'" and keeps: "keeps c c'" and k: "keyFor c k t"
  shows "lookupKey (c_heap c') k = lookupKey (c_heap c) k"
proof -
  have "ptrLessEq (c_heap c') p q = ptrLessEq (c_heap c) p q" if "holds c p s" "holds c q u" for p q s u
    using that ptrLessEq_correct [OF c(1)] ptrLessEq_correct [OF c(2)] keeps
    unfolding keeps_def by metis
  then show ?thesis using k unfolding keyFor_def by (auto simp: lookupKey_def)
qed


primrec phaseOk :: "cache \<Rightarrow> bexpr \<Rightarrow> phase \<Rightarrow> bool" where
  "phaseOk c t (Request k) = keyFor c k t"
| "phaseOk c t (Missed k tk) = (keyFor c k t \<and> lookupKey (c_heap c) k = Some tk)"
| "phaseOk c t (Built tk p) =
     (\<exists>n. c_heap c p = Some n \<and> nodeOk c n t \<and> nodeKey n = tk \<and> \<not> interned c p)"
| "phaseOk c t (Returned p) = holds c p t"

text \<open>Every thread \<open>i\<close> works on its request for \<open>want i\<close>, and no two threads own one new node.\<close>

definition concInv :: "(nat \<Rightarrow> bexpr) \<Rightarrow> cache \<times> threads \<Rightarrow> bool" where
  "concInv want s = (case s of (c, th) \<Rightarrow> cacheInv c \<and>
     (\<forall>i ph. th i = Some ph \<longrightarrow> phaseOk c (want i) ph) \<and>
     (\<forall>i j tk tk' p. th i = Some (Built tk p) \<longrightarrow> th j = Some (Built tk' p) \<longrightarrow> i = j))"

lemma concInv_iff:
  "concInv want (c, th) \<longleftrightarrow> cacheInv c \<and> (\<forall>i ph. th i = Some ph \<longrightarrow> phaseOk c (want i) ph) \<and>
     (\<forall>i j tk tk' p. th i = Some (Built tk p) \<longrightarrow> th j = Some (Built tk' p) \<longrightarrow> i = j)"
  by (simp add: concInv_def)

lemma concInv_cache: "concInv want (c, th) \<Longrightarrow> cacheInv c"
  and concInv_phase: "concInv want (c, th) \<Longrightarrow> th i = Some ph \<Longrightarrow> phaseOk c (want i) ph"
  and concInv_owner: "concInv want (c, th) \<Longrightarrow> th i = Some (Built tk p) \<Longrightarrow>
    th j = Some (Built tk' p) \<Longrightarrow> i = j"
  unfolding concInv_iff by blast+

lemma phaseOk_keeps:
  assumes ph: "phaseOk c t ph" and c: "cacheInv c" "cacheInv c'" "keeps c c'"
    and own: "\<And>tk p. ph = Built tk p \<Longrightarrow> c_heap c' p = c_heap c p \<and> (interned c' p \<longrightarrow> interned c p)"
  shows "phaseOk c' t ph"
proof (cases ph)
  case (Request k)
  then show ?thesis using ph keyFor_keeps [OF c(3)] by simp
next
  case (Missed k tk)
  then show ?thesis using ph keyFor_keeps [OF c(3)] keyFor_lookup [OF c, of k t] by simp
next
  case (Built tk p)
  then show ?thesis using ph own [OF Built] nodeOk_keeps [OF c(3)] by fastforce
next
  case (Returned p)
  then show ?thesis using ph c(3) by (simp add: keeps_def)
qed

text \<open>The frame of a step: the other threads are not disturbed.\<close>

lemma concInv_step:
  assumes inv: "concInv want (c, th)" and c': "cacheInv c'" "keeps c c'"
    and ph: "phaseOk c' (want i) ph"
    and frame: "\<And>j tk p. j \<noteq> i \<Longrightarrow> th j = Some (Built tk p) \<Longrightarrow>
      c_heap c' p = c_heap c p \<and> (interned c' p \<longrightarrow> interned c p) \<and> (\<forall>tk'. ph \<noteq> Built tk' p)"
  shows "concInv want (c', th(i \<mapsto> ph))"
  unfolding concInv_iff
proof (intro conjI allI impI)
  show "cacheInv c'" by fact
  fix j k tk tk' p ph'
  show "phaseOk c' (want j) ph'" if "(th(i \<mapsto> ph)) j = Some ph'"
  proof (cases "j = i")
    case False
    then show ?thesis
      using that frame [OF False]
      by (intro phaseOk_keeps [OF concInv_phase [OF inv] concInv_cache [OF inv] c']) simp_all
  qed (use that ph in simp)
  show "j = k" if "(th(i \<mapsto> ph)) j = Some (Built tk p)" "(th(i \<mapsto> ph)) k = Some (Built tk' p)"
    using that frame [of j tk p] frame [of k tk' p] concInv_owner [OF inv, of j tk p k tk']
    by (simp split: if_splits)
qed

lemma keeps_store:
  "c_heap d = c_heap c \<Longrightarrow> c_table d = c_table c \<Longrightarrow> keeps c d"
  using store_cong(2) unfolding keeps_def by metis

lemma interned_store: "c_table d = c_table c \<Longrightarrow> interned d p = interned c p"
  by (simp add: interned_def)

lemma concStep_find_hit:
  assumes "concInv want (c, th)" "th i = Some (Request k)" "lookupKey (c_heap c) k = Some tk"
    "c_table c tk = Some p"
  shows "concInv want (countHit (c\<lparr> c_quaries := c_quaries c + 1 \<rparr>), th(i \<mapsto> Returned p))"
proof -
  let ?d = "countHit (c\<lparr> c_quaries := c_quaries c + 1 \<rparr>)"
  have c: "cacheInv c" "keyFor c k (want i)"
    using concInv_cache [OF assms(1)] concInv_phase [OF assms(1,2)] by simp_all
  obtain n where "nodeOk c n (want i)" "nodeKey n = tk" using keyFor_node [OF c] assms(3) by auto
  then have p: "holds c p (want i)" using hit_holds [OF c(1)] assms(4) by blast
  have d: "c_heap ?d = c_heap c" "c_table ?d = c_table c" by (simp_all add: countHit_def)
  show ?thesis
    by (rule concInv_step [OF assms(1)])
       (use store_cong(1,2) [OF d] c p keeps_store [OF d] interned_store [OF d(2)] d in simp_all)
qed

lemma concStep_find_miss:
  assumes "concInv want (c, th)" "th i = Some (Request k)" "lookupKey (c_heap c) k = Some tk"
  shows "concInv want (c\<lparr> c_quaries := c_quaries c + 1 \<rparr>, th(i \<mapsto> Missed k tk))"
proof -
  let ?d = "c\<lparr> c_quaries := c_quaries c + 1 \<rparr>"
  have c: "cacheInv c" "keyFor c k (want i)"
    using concInv_cache [OF assms(1)] concInv_phase [OF assms(1,2)] by simp_all
  have d: "c_heap ?d = c_heap c" "c_table ?d = c_table c" by simp_all
  show ?thesis
    by (rule concInv_step [OF assms(1)])
       (use keyFor_keeps [OF keeps_store [OF d]] c keeps_store [OF d] interned_store [OF d(2)]
          assms(3) in simp_all)
qed

lemma concStep_construct:
  assumes "concInv want (c, th)" "freshAlloc alloc" "th i = Some (Missed k tk)"
    "constructNode (c_heap c) (k_op k) (k_var k) (k_l k) (k_r k) = Some (Inr n)"
    "p = alloc (c_heap c)"
  shows "concInv want (c\<lparr> c_heap := (c_heap c)(p \<mapsto> n) \<rparr>, th(i \<mapsto> Built tk p))"
proof -
  let ?d = "c\<lparr> c_heap := (c_heap c)(p \<mapsto> n) \<rparr>"
  have c: "cacheInv c" "keyFor c k (want i)" "lookupKey (c_heap c) k = Some tk"
    using concInv_cache [OF assms(1)] concInv_phase [OF assms(1,3)] by simp_all
  have n: "nodeOk c n (want i)" "nodeKey n = tk" using keyFor_node [OF c(1,2)] assms(4) c(3) by auto
  have fresh: "c_heap c p = None"
    using assms(2,5) c(1) unfolding freshAlloc_def cacheInv_def by blast
  have "c_heap c \<subseteq>\<^sub>m c_heap ?d" using fresh by (auto simp: map_le_def)
  moreover have "finite (dom (c_heap ?d))" using c(1) by (simp add: cacheInv_def)
  ultimately have d: "cacheInv ?d" "extends c ?d" using extends_cacheInv [OF c(1)] by simp_all
  have notin: "\<not> interned c p" using cacheInv_entry [OF c(1), of p] fresh by fastforce
  have own: "p \<noteq> q \<and> q \<noteq> p" if "th j = Some (Built tk' q)" for j tk' q
    using concInv_phase [OF assms(1) that] fresh by auto
  show ?thesis
    by (rule concInv_step [OF assms(1) d(1) extends_keeps [OF d(2)]])
       (use n nodeOk_mono [OF d(2) n(1)] notin own interned_store [of ?d c] in simp_all)
qed

lemma concStep_insert_first:
  assumes "concInv want (c, th)" "th i = Some (Built tk p)" "c_table c tk = None"
  shows "concInv want
    (c\<lparr> c_lastID := c_lastID c + 1, c_table := (c_table c)(tk \<mapsto> p), c_miss := c_miss c + 1 \<rparr>,
     th(i \<mapsto> Returned p))"
proof -
  let ?e = "c\<lparr> c_table := (c_table c)(tk \<mapsto> p) \<rparr>"
  let ?d = "c\<lparr> c_lastID := c_lastID c + 1, c_table := (c_table c)(tk \<mapsto> p), c_miss := c_miss c + 1 \<rparr>"
  have c: "cacheInv c" using concInv_cache [OF assms(1)] .
  obtain n where n: "c_heap c p = Some n" "nodeOk c n (want i)" "nodeKey n = tk"
    using concInv_phase [OF assms(1,2)] by auto
  have ext: "extends c ?e" using assms(3) by (auto simp: extends_def map_le_def)
  have "\<exists>m t. c_heap c q = Some m \<and> nodeOk ?e m t \<and> nodeKey m = tk'"
    if "c_table ?e tk' = Some q" for tk' q
  proof (cases "tk' = tk")
    case False
    then have "c_table c tk' = Some q" using that by simp
    then show ?thesis using c nodeOk_mono [OF ext] unfolding cacheInv_def by metis
  qed (use that n nodeOk_mono [OF ext n(2)] in auto)
  then have e: "cacheInv ?e" using c unfolding cacheInv_def by simp
  have p: "holds ?e p (want i)"
    using n nodeOk_mono [OF ext n(2)] by (auto simp: holds_def interned_def reps_def nodeOk_def)
  have d: "c_heap ?d = c_heap ?e" "c_table ?d = c_table ?e" by simp_all
  have own: "q \<noteq> p" if "j \<noteq> i" "th j = Some (Built tk' q)" for j tk' q
    using concInv_owner [OF assms(1,2)] that by blast
  have interned: "interned ?d q \<longrightarrow> interned c q" if "q \<noteq> p" for q
    using that by (auto simp: interned_def split: if_splits)
  show ?thesis
    by (rule concInv_step [OF assms(1)])
       (use store_cong [OF d] e p extends_keeps [OF ext] own interned in \<open>simp_all add: keeps_def\<close>)
qed

lemma concStep_insert_lost:
  assumes "concInv want (c, th)" "th i = Some (Built tk p)" "c_table c tk = Some q"
  shows "concInv want
    (c\<lparr> c_lastID := c_lastID c + 1, c_heap := (c_heap c)(p := None) \<rparr>, th(i \<mapsto> Returned q))"
proof -
  let ?d = "c\<lparr> c_lastID := c_lastID c + 1, c_heap := (c_heap c)(p := None) \<rparr>"
  have c: "cacheInv c" using concInv_cache [OF assms(1)] .
  obtain n where n: "c_heap c p = Some n" "nodeOk c n (want i)" "nodeKey n = tk" "\<not> interned c p"
    using concInv_phase [OF assms(1,2)] by auto
  have q: "holds c q (want i)" using hit_holds [OF c n(2)] n(3) assms(3) by blast
  note drop = dropNode_keeps [OF c n(4)] dropNode_cacheInv [OF c n(4)]
  have d: "c_heap ?d = c_heap (dropNode p c)" "c_table ?d = c_table (dropNode p c)"
    by (simp_all add: dropNode_def)
  have own: "r \<noteq> p" if "j \<noteq> i" "th j = Some (Built tk' r)" for j tk' r
    using concInv_owner [OF assms(1,2)] that by blast
  show ?thesis
    by (rule concInv_step [OF assms(1)])
       (use store_cong [OF d] drop q own interned_store [of ?d c] in \<open>simp_all add: keeps_def\<close>)
qed

lemma concStep_inv:
  assumes "concStep alloc s s'" "freshAlloc alloc" "concInv want s"
  shows "concInv want s'"
  using assms
proof cases
  case find_hit
  then show ?thesis using concStep_find_hit assms(3) by blast
next
  case find_miss
  then show ?thesis using concStep_find_miss assms(3) by blast
next
  case construct
  then show ?thesis using concStep_construct assms(2,3) by blast
next
  case insert_first
  then show ?thesis using concStep_insert_first assms(3) by blast
next
  case insert_lost
  then show ?thesis using concStep_insert_lost assms(3) by blast
qed

lemma concSteps_inv:
  "(concStep alloc)\<^sup>*\<^sup>* s s' \<Longrightarrow> freshAlloc alloc \<Longrightarrow> concInv want s \<Longrightarrow> concInv want s'"
  by (induction rule: rtranclp_induct) (auto intro: concStep_inv)

text \<open>Progress: a thread that has not returned can take a step.\<close>

lemma concStep_progress:
  assumes "concInv want (c, th)" "th i = Some ph" "\<nexists>p. ph = Returned p"
  shows "\<exists>s'. concStep alloc (c, th) s'"
proof (cases ph)
  case (Request k)
  then have "keyFor c k (want i)" using concInv_phase [OF assms(1,2)] by simp
  then obtain tk where tk: "lookupKey (c_heap c) k = Some tk"
    using keyFor_node [OF concInv_cache [OF assms(1)]] by blast
  note th = assms(2) [unfolded Request]
  show ?thesis
    using find_hit [of th i k c tk] find_miss [of th i k c tk] th tk by (cases "c_table c tk") blast+
next
  case (Missed k tk)
  then have "keyFor c k (want i)" using concInv_phase [OF assms(1,2)] by simp
  then obtain n where
    "constructNode (c_heap c) (k_op k) (k_var k) (k_l k) (k_r k) = Some (Inr n)"
    using keyFor_node [OF concInv_cache [OF assms(1)]] by blast
  with construct [of th i k tk c n] show ?thesis using assms(2) Missed by blast
next
  case (Built tk p)
  note th = assms(2) [unfolded Built]
  show ?thesis
    using insert_first [of th i tk p c] insert_lost [of th i tk p c] th by (cases "c_table c tk") blast+
qed (use assms in simp)

end
