(* ===== verification/Expr_Walk.thy ===== *)
theory Expr_Walk
  imports Bool_Factories
begin

text \<open>
  Walks over the distinct nodes of an expression DAG: a stack, a set of visited nodes and an
  action on every node that is met for the first time.  \<open>BoolExpr::getSupportVars\<close>
  (\<open>formal/BoolExpr.cpp\<close>) and \<open>countBoolExprNodes\<close>, \<open>collectBoolExprSupport\<close>
  (\<open>sec/proof/TransitionExprResolver.cpp\<close>) are walks; the two-phase ordering loop of
  \<open>BoolExpr::simplify\<close> is here too.
\<close>

section \<open>Subexpressions\<close>

primrec subs :: "bexpr \<Rightarrow> bexpr set" where
  "subs (BVar v) = {BVar v}"
| "subs (BNot a) = insert (BNot a) (subs a)"
| "subs (BAnd a b) = insert (BAnd a b) (subs a \<union> subs b)"
| "subs (BOr a b) = insert (BOr a b) (subs a \<union> subs b)"
| "subs (BXor a b) = insert (BXor a b) (subs a \<union> subs b)"

lemma subs_self [simp]: "e \<in> subs e"
  by (cases e) simp_all

lemma subs_children: "subs e = insert e (\<Union>c \<in> set (children e). subs c)"
  by (cases e) auto

lemma finite_subs [simp]: "finite (subs e)"
  by (induction e) simp_all

lemma subs_trans: "a \<in> subs b \<Longrightarrow> b \<in> subs c \<Longrightarrow> a \<in> subs c"
  by (induction c) auto

lemma vars_subs: "vars e = {v. BVar v \<in> subs e}"
  by (induction e) auto

section \<open>The walk\<close>

text \<open>A frame carries the node and the tag (here: the symbol maps) it is read with.\<close>

type_synonym 't visit = "bexpr \<times> 't"

definition visitKids :: "bool \<Rightarrow> 't visit \<Rightarrow> 't visit list" where
  "visitKids rightFirst x =
    map (\<lambda>c. (c, snd x)) (if rightFirst then rev (children (fst x)) else children (fst x))"

lemma set_visitKids [simp]: "set (visitKids b x) = (\<lambda>c. (c, snd x)) ` set (children (fst x))"
  by (simp add: visitKids_def)

lemma sum_visitKids: "(\<Sum>y\<leftarrow>visitKids b x. 2 * size (fst y) + 1) \<le> 2 * size (fst x)"
proof -
  have "(\<Sum>y\<leftarrow>visitKids b x. 2 * size (fst y) + 1) = (\<Sum>c\<leftarrow>children (fst x). 2 * size c + 1)"
    by (simp add: visitKids_def o_def rev_map [symmetric])
  also have "\<dots> \<le> 2 * size (fst x)" by (cases "fst x") auto
  finally show ?thesis .
qed

function walk :: "bool \<Rightarrow> ('t visit \<Rightarrow> 'a \<Rightarrow> 'e + 'a) \<Rightarrow> 't visit list \<Rightarrow> 't visit set \<Rightarrow> 'a \<Rightarrow>
    'e + 't visit set \<times> 'a" where
  "walk b f [] visited acc = Inr (visited, acc)"
| "walk b f (x # stack) visited acc =
    (if x \<in> visited then walk b f stack visited acc
     else bindE (f x acc)
       (\<lambda>acc'. walk b f (visitKids b x @ stack) (insert x visited) acc'))"
  by pat_completeness auto
termination
proof (relation "measure (\<lambda>(b, f, stack, visited, acc). \<Sum>y\<leftarrow>stack. 2 * size (fst y) + 1)", goal_cases)
  case (3 b f x stack visited acc acc')
  then show ?case using sum_visitKids [of b x] by simp
qed auto

declare walk.simps(2) [simp del]

definition below :: "'t visit \<Rightarrow> 't visit set" where
  "below x = (\<lambda>n. (n, snd x)) ` subs (fst x)"

lemma below_kids: "below x = insert x (\<Union>y \<in> set (visitKids b x). below y)"
proof (cases x)
  case (Pair n t)
  have "below x = (\<lambda>m. (m, t)) ` insert n (\<Union>c \<in> set (children n). subs c)"
    by (simp add: Pair below_def subs_children [of n, symmetric])
  then show ?thesis by (simp add: Pair below_def image_UN)
qed

definition closedUnder :: "'t visit set \<Rightarrow> 't visit set \<Rightarrow> bool" where
  "closedUnder visited pending = (\<forall>x \<in> visited. set (visitKids False x) \<subseteq> visited \<union> pending)"

lemma closed_below: "closedUnder visited {} \<Longrightarrow> x \<in> visited \<Longrightarrow> below x \<subseteq> visited"
proof (induction "size (fst x)" arbitrary: x rule: less_induct)
  case less
  have "below y \<subseteq> visited" if "y \<in> set (visitKids False x)" for y
  proof (rule less.hyps)
    show "size (fst y) < size (fst x)" using that by (cases "fst x") auto
    show "y \<in> visited" using less.prems that unfolding closedUnder_def by blast
  qed (rule less.prems)
  then have "(\<Union>y \<in> set (visitKids False x). below y) \<subseteq> visited" by (rule UN_least)
  then show ?case using below_kids [of x False] less.prems(2) by simp
qed

text \<open>A walk meets exactly the nodes below its roots, each once, in some order.\<close>

lemma walk_correct:
  assumes "walk b f stack visited acc = Inr (visited', acc')" "closedUnder visited (set stack)"
  shows "visited \<union> set stack \<subseteq> visited' \<and> closedUnder visited' {} \<and>
    visited' \<subseteq> visited \<union> (\<Union>x \<in> set stack. below x) \<and>
    (\<exists>ord. distinct ord \<and> set ord = visited' - visited \<and> foldE f ord acc = Inr acc')"
  using assms
proof (induction b f stack visited acc rule: walk.induct)
  case (1 b f visited acc)
  then show ?case by (auto intro!: exI [of _ "[]"])
next
  case (2 b f x stack visited acc)
  show ?case
  proof (cases "x \<in> visited")
    case True
    then have "walk b f stack visited acc = Inr (visited', acc')" using 2(3) by (simp add: walk.simps)
    moreover have "closedUnder visited (set stack)"
      using 2(4) True unfolding closedUnder_def by auto
    ultimately show ?thesis using 2(1) True by auto
  next
    case False
    then obtain acc1 where acc1: "f x acc = Inr acc1"
      "walk b f (visitKids b x @ stack) (insert x visited) acc1 = Inr (visited', acc')"
      using 2(3) by (auto simp: walk.simps bindE_Inr_iff)
    have "closedUnder (insert x visited) (set (visitKids b x @ stack))"
      using 2(4) unfolding closedUnder_def by auto
    note IH = 2(2) [OF False acc1(1,2) this]
    obtain ord where ord: "distinct ord" "set ord = visited' - insert x visited"
      "foldE f ord acc1 = Inr acc'" using IH by blast
    have ord': "distinct (x # ord)" "set (x # ord) = visited' - visited"
      "foldE f (x # ord) acc = Inr acc'"
      using ord False IH acc1(1) by auto
    have kids: "(\<Union>y \<in> set (visitKids b x @ stack). below y) \<union> insert x visited \<subseteq>
        visited \<union> (\<Union>y \<in> set (x # stack). below y)"
      using below_kids [of x b] by auto
    have "visited' \<subseteq> visited \<union> (\<Union>y \<in> set (x # stack). below y)"
      using IH kids by blast
    moreover have "visited \<union> set (x # stack) \<subseteq> visited'" "closedUnder visited' {}" using IH by auto
    ultimately show ?thesis using ord' by blast
  qed
qed

lemma walk_total:
  assumes "\<And>x acc. x \<in> (\<Union>y \<in> set stack. below y) \<Longrightarrow> \<exists>acc'. f x acc = Inr acc'"
  shows "\<exists>r. walk b f stack visited acc = Inr r"
  using assms
proof (induction b f stack visited acc rule: walk.induct)
  case (2 b f x stack visited acc)
  show ?case
  proof (cases "x \<in> visited")
    case False
    have "x \<in> below x" using below_kids [of x b] by auto
    then obtain acc1 where acc1: "f x acc = Inr acc1" using 2(3) [of x acc] by auto
    have "\<exists>acc'. f y a = Inr acc'" if "y \<in> (\<Union>z \<in> set (visitKids b x @ stack). below z)" for y a
      by (rule 2(3)) (use that below_kids [of x b] in auto)
    from 2(2) [OF False acc1 this] show ?thesis using False acc1 by (simp add: walk.simps)
  qed (use 2 in \<open>auto simp: walk.simps\<close>)
qed simp

text \<open>A walk from one root with nothing visited.\<close>

lemma walk_root:
  assumes "walk b f [x] {} acc = Inr (visited, acc')"
  shows "visited = below x" "\<exists>ord. distinct ord \<and> set ord = below x \<and> foldE f ord acc = Inr acc'"
proof -
  have "closedUnder {} (set [x])" by (simp add: closedUnder_def)
  note * = walk_correct [OF assms this]
  show "visited = below x" using * closed_below [of visited x] by auto
  then show "\<exists>ord. distinct ord \<and> set ord = below x \<and> foldE f ord acc = Inr acc'" using * by auto
qed

section \<open>Node counts and supports\<close>

text \<open>\<open>countBoolExprNodes\<close>.\<close>

definition countBoolExprNodes :: "bexpr option \<Rightarrow> nat" where
  "countBoolExprNodes formula = (case formula of None \<Rightarrow> 0 | Some e \<Rightarrow>
     (case walk False (\<lambda>x acc. Inr acc) [(e, ())] {} () of
        Inl (_ :: unit) \<Rightarrow> 0 | Inr (visited, _) \<Rightarrow> card visited))"

text \<open>\<open>collectBoolExprSupport\<close> with the mapping of the symbols, which may throw.\<close>

definition collectStep :: "(var_id \<Rightarrow> 'e + var_id) \<Rightarrow> unit visit \<Rightarrow> var_id set \<Rightarrow> 'e + var_id set" where
  "collectStep mapSymbol x acc =
    (if getOp (fst x) = OpVAR
     then bindE (mapSymbol (getId (fst x))) (\<lambda>s. Inr (insert s acc))
     else Inr acc)"

definition collectBoolExprSupport :: "bexpr option \<Rightarrow> (var_id \<Rightarrow> 'e + var_id) \<Rightarrow> 'e + var_id set" where
  "collectBoolExprSupport formula mapSymbol = (case formula of None \<Rightarrow> Inr {} | Some e \<Rightarrow>
     bindE (walk False (collectStep mapSymbol) [(e, ())] {} {}) (\<lambda>r. Inr (snd r)))"

text \<open>\<open>BoolExpr::getSupportVars\<close> pushes the left child first.\<close>

definition supportStep :: "unit visit \<Rightarrow> var_id set \<Rightarrow> error + var_id set" where
  "supportStep x acc = Inr (if getOp (fst x) = OpVAR then insert (getId (fst x)) acc else acc)"

definition getSupportVars :: "bexpr \<Rightarrow> var_id set" where
  "getSupportVars e = (case walk True supportStep [(e, ())] {} {} of Inl _ \<Rightarrow> {} | Inr (_, s) \<Rightarrow> s)"

lemma below_unit: "below (e, ()) = (\<lambda>n. (n, ())) ` subs e"
  by (simp add: below_def)

lemma countBoolExprNodes_correct: "countBoolExprNodes (Some e) = card (subs e)"
proof -
  obtain visited u where w: "walk False (\<lambda>x acc. Inr acc) [(e, ())] {} () = (Inr (visited, u) :: unit + _)"
    using walk_total [of "[(e, ())]" "\<lambda>x acc. Inr acc :: unit + unit" False "{}" "()"] by auto
  have "visited = (\<lambda>n. (n, ())) ` subs e" using walk_root(1) [OF w] below_unit by simp
  then have "card visited = card (subs e)" by (simp add: card_image inj_on_def)
  then show ?thesis by (simp add: countBoolExprNodes_def w)
qed

lemma foldE_collect:
  "foldE (collectStep g) ord acc = Inr acc' \<Longrightarrow>
   acc' = acc \<union> {s. \<exists>v t. (BVar v, t) \<in> set ord \<and> g v = Inr s}"
proof (induction ord arbitrary: acc)
  case (Cons x ord)
  obtain n t where x: "x = (n, t)" by (cases x)
  obtain acc1 where a: "collectStep g x acc = Inr acc1" "foldE (collectStep g) ord acc1 = Inr acc'"
    using Cons.prems by (auto simp: bindE_Inr_iff)
  then have "acc1 = acc \<union> {s. \<exists>v. n = BVar v \<and> g v = Inr s}"
    by (cases n) (auto simp: collectStep_def x bindE_Inr_iff)
  then show ?case using Cons.IH [OF a(2)] x by auto
qed simp

lemma collectBoolExprSupport_correct:
  assumes "collectBoolExprSupport (Some e) g = Inr s"
  shows "s = {w. \<exists>v \<in> vars e. g v = Inr w}"
proof -
  obtain visited where w: "walk False (collectStep g) [(e, ())] {} {} = Inr (visited, s)"
    using assms by (auto simp: collectBoolExprSupport_def bindE_Inr_iff)
  obtain ord where "set ord = (\<lambda>n. (n, ())) ` subs e" "foldE (collectStep g) ord {} = Inr s"
    using walk_root(2) [OF w] unfolding below_unit by blast
  then show ?thesis using foldE_collect [of g ord "{}" s] by (auto simp: vars_subs)
qed

lemma collectBoolExprSupport_total:
  assumes "\<And>v. v \<in> vars e \<Longrightarrow> \<exists>w. g v = Inr w"
  shows "\<exists>s. collectBoolExprSupport (Some e) g = Inr s"
proof -
  have *: "\<exists>acc'. collectStep g x acc = Inr acc'" if "x \<in> (\<Union>y \<in> set [(e, ())]. below y)" for x acc
  proof (cases "fst x")
    case (BVar v)
    then have "v \<in> vars e" using that by (auto simp: below_unit vars_subs)
    then obtain w where "g v = Inr w" using assms by blast
    then show ?thesis using BVar by (simp add: collectStep_def)
  qed (simp_all add: collectStep_def)
  have "\<exists>r. walk False (collectStep g) [(e, ())] {} {} = Inr r"
    by (rule walk_total) (erule *)
  then obtain r where "walk False (collectStep g) [(e, ())] {} {} = Inr r" by (elim exE)
  then show ?thesis by (simp add: collectBoolExprSupport_def)
qed

lemma getSupportVars_correct [simp]: "getSupportVars e = vars e"
proof -
  have step: "supportStep = collectStep Inr" by (simp add: fun_eq_iff supportStep_def collectStep_def)
  obtain visited s where w: "walk True supportStep [(e, ())] {} {} = Inr (visited, s)"
  proof -
    have "\<exists>r. walk True supportStep [(e, ())] {} {} = Inr r"
      by (rule walk_total) (simp add: supportStep_def)
    then obtain r where "walk True supportStep [(e, ())] {} {} = Inr r" by (elim exE)
    then show ?thesis by (cases r) (simp add: that)
  qed
  obtain ord where "set ord = (\<lambda>n. (n, ())) ` subs e" "foldE (collectStep Inr) ord {} = (Inr s :: error + _)"
    using walk_root(2) [OF w] unfolding below_unit step by blast
  then have "s = vars e" using foldE_collect [of Inr ord "{}" s] by (auto simp: vars_subs)
  then show ?thesis by (simp add: getSupportVars_def w)
qed

end
