(* ===== verification/Expr_Simplify.thy ===== *)
theory Expr_Simplify
  imports Expr_Walk
begin

text \<open>
  \<open>BoolExpr::simplify\<close>, \<open>BoolExpr::Print\<close>, \<open>BoolExpr::toString\<close> and \<open>BoolExpr::getName\<close>
  (\<open>formal/BoolExpr.cpp\<close>, \<open>formal/BoolExpr.h\<close>).  Simplification keeps the meaning of every
  expression and is the identity on interned nodes; the printed text determines the node.
\<close>

section \<open>Simplification\<close>

text \<open>The ordering loop: the first time a node is popped it is put back under its children,
  every later time it is appended to the order.\<close>

function orderLoop :: "bexpr list \<Rightarrow> bexpr set \<Rightarrow> bexpr list \<Rightarrow> bexpr list" where
  "orderLoop [] seen ord = ord"
| "orderLoop (n # stack) seen ord =
    (if n \<notin> seen then orderLoop (children n @ n # stack) (insert n seen) ord
     else orderLoop stack seen (ord @ [n]))"
  by pat_completeness auto
termination
proof (relation "measure (\<lambda>(stack, seen, ord). \<Sum>x\<leftarrow>stack. if x \<in> seen then 1 else 4 * size x + 2)",
    goal_cases)
  case (2 n stack seen ord)
  have le: "(\<Sum>x\<leftarrow>xs. if x \<in> insert n seen then 1 else 4 * size x + 2) \<le>
      (\<Sum>x\<leftarrow>xs. if x \<in> seen then 1 else 4 * size x + 2)" for xs
    by (induction xs) auto
  have "(\<Sum>x\<leftarrow>children n. if x \<in> seen then 1 else 4 * size x + 2) \<le> 4 * size n"
    by (cases n) auto
  then show ?case using 2 le [of "children n"] le [of stack] by simp
qed auto

declare orderLoop.simps(2) [simp del]

lemma orderLoop_extends: "\<exists>xs. orderLoop stack seen ord = ord @ xs"
  by (induction stack seen ord rule: orderLoop.induct) (auto simp: orderLoop.simps)

lemma orderLoop_mem: "set stack \<subseteq> set (orderLoop stack seen ord) \<union> set ord"
proof (induction stack seen ord rule: orderLoop.induct)
  case (2 n stack seen ord)
  show ?case
  proof (cases "n \<in> seen")
    case True
    have "n \<in> set (orderLoop stack seen (ord @ [n]))"
      using orderLoop_extends [of stack seen "ord @ [n]"] by auto
    then show ?thesis using 2(2) True by (auto simp: orderLoop.simps)
  next
    case False
    then show ?thesis using 2(1) by (auto simp: orderLoop.simps)
  qed
qed simp

text \<open>\<open>memo.count(x) ? memo[x] : x\<close>.\<close>

definition memoOr :: "(bexpr \<rightharpoonup> bexpr) \<Rightarrow> bexpr \<Rightarrow> bexpr" where
  "memoOr memo x = (case memo x of Some v \<Rightarrow> v | None \<Rightarrow> x)"

definition simplifyNot :: "bexpr \<Rightarrow> bexpr" where
  "simplifyNot a =
    (if isConstFalse a then mkVar 1
     else if isConstTrue a then mkVar 0
     else case a of BNot x \<Rightarrow> x | _ \<Rightarrow> mkNot a)"

definition simplifyAnd :: "bexpr \<Rightarrow> bexpr \<Rightarrow> bexpr" where
  "simplifyAnd a b =
    (if isConstFalse a \<or> isConstFalse b then mkVar 0
     else if isConstTrue a then b
     else if isConstTrue b then a
     else if a = b then a
     else if isComplementOf a b \<or> isComplementOf b a then mkVar 0
     else mkAnd a b)"

definition simplifyOr :: "bexpr \<Rightarrow> bexpr \<Rightarrow> bexpr" where
  "simplifyOr a b =
    (if isConstTrue a \<or> isConstTrue b then mkVar 1
     else if isConstFalse a then b
     else if isConstFalse b then a
     else if a = b then a
     else if isComplementOf a b \<or> isComplementOf b a then mkVar 1
     else mkOr a b)"

definition simplifyXor :: "bexpr \<Rightarrow> bexpr \<Rightarrow> bexpr" where
  "simplifyXor a b =
    (if isConstFalse a then b
     else if isConstFalse b then a
     else if isConstTrue a then mkNot b
     else if isConstTrue b then mkNot a
     else if a = b then mkVar 0
     else mkXor a b)"

fun simplifyNode :: "bexpr \<Rightarrow> (bexpr \<rightharpoonup> bexpr) \<Rightarrow> (bexpr \<rightharpoonup> bexpr)" where
  "simplifyNode (BVar v) memo = memo(BVar v \<mapsto> BVar v)"
| "simplifyNode (BNot a) memo = memo(BNot a \<mapsto> simplifyNot (memoOr memo a))"
| "simplifyNode (BAnd a b) memo = memo(BAnd a b \<mapsto> simplifyAnd (memoOr memo a) (memoOr memo b))"
| "simplifyNode (BOr a b) memo = memo(BOr a b \<mapsto> simplifyOr (memoOr memo a) (memoOr memo b))"
| "simplifyNode (BXor a b) memo = memo(BXor a b \<mapsto> simplifyXor (memoOr memo a) (memoOr memo b))"

definition simplify :: "bexpr \<Rightarrow> bexpr" where
  "simplify e =
    (if getOp e = OpVAR then e
     else memoOr (fold simplifyNode (orderLoop [e] {} []) Map.empty) e)"

lemma simplify_eval_simps [simp]:
  "eval env (simplifyNot a) = (\<not> eval env a)"
  "eval env (simplifyAnd a b) = (eval env a \<and> eval env b)"
  "eval env (simplifyOr a b) = (eval env a \<or> eval env b)"
  "eval env (simplifyXor a b) = (eval env a \<noteq> eval env b)"
     apply (cases a; simp add: simplifyNot_def)
    apply (auto simp: simplifyAnd_def simplifyOr_def simplifyXor_def)
  done

definition memoAgrees :: "(bexpr \<Rightarrow> bexpr \<Rightarrow> bool) \<Rightarrow> (bexpr \<rightharpoonup> bexpr) \<Rightarrow> bool" where
  "memoAgrees P memo = (\<forall>n v. memo n = Some v \<longrightarrow> P n v)"

lemma fold_simplifyNode:
  assumes "memoAgrees P memo" "\<And>memo n. memoAgrees P memo \<Longrightarrow> memoAgrees P (simplifyNode n memo)"
  shows "memoAgrees P (fold simplifyNode ord memo)"
  using assms by (induction ord arbitrary: memo) auto

lemma memoOr_agrees: "memoAgrees P memo \<Longrightarrow> P x x \<Longrightarrow> P x (memoOr memo x)"
  by (simp add: memoAgrees_def memoOr_def split: option.split)

lemma simplify_ind:
  assumes "\<And>memo n. memoAgrees P memo \<Longrightarrow> memoAgrees P (simplifyNode n memo)" "P e e"
  shows "P e (simplify e)"
  unfolding simplify_def
  using fold_simplifyNode [of P Map.empty, OF _ assms(1)] assms(2)
  by (auto simp: memoAgrees_def [of P Map.empty] intro: memoOr_agrees)

lemma simplify_eval: "eval env (simplify e) = eval env e"
proof -
  let ?P = "\<lambda>n v. eval env v = eval env n"
  have "memoAgrees ?P (simplifyNode n memo)" if *: "memoAgrees ?P memo" for n memo
    using * memoOr_agrees [OF *, simplified] unfolding memoAgrees_def [of ?P "simplifyNode n memo"]
    by (cases n) (auto simp: memoAgrees_def)
  then show ?thesis using simplify_ind [of ?P] by simp
qed

lemma simplify_canonical: "canonical e \<Longrightarrow> simplify e = e"
proof -
  let ?P = "\<lambda>n v. canonical n \<longrightarrow> v = n"
  have "memoAgrees ?P (simplifyNode n memo)" if *: "memoAgrees ?P memo" for n memo
  proof -
    have child: "canonical c \<Longrightarrow> memoOr memo c = c" for c
      using memoOr_agrees [OF *, of c] by simp
    have "canonical n \<Longrightarrow> simplifyNode n memo n = Some n"
      using child canonical_rebuild
      by (cases n) (auto simp: simplifyNot_def simplifyAnd_def simplifyOr_def simplifyXor_def
          isConst_def split: bexpr.split)
    moreover have "m \<noteq> n \<Longrightarrow> simplifyNode n memo m = memo m" for m by (cases n) auto
    ultimately show ?thesis using * unfolding memoAgrees_def by (metis option.inject)
  qed
  then show "canonical e \<Longrightarrow> simplify e = e" using simplify_ind [of ?P] by simp
qed

section \<open>Names and printing\<close>

definition getName :: "bexpr \<Rightarrow> error + string" where
  "getName e =
    (if getOp e \<noteq> OpVAR then Inl (Logic_Error ''getName: not a variable'')
     else if getId e = 0 then Inr ''FALSE''
     else if getId e = 1 then Inr ''TRUE''
     else Inr (''x'' @ showWord (getId e)))"

fun opToString :: "op \<Rightarrow> string" where
  "opToString OpVAR = ''VAR''"
| "opToString OpNOT = ''NOT''"
| "opToString OpAND = ''AND''"
| "opToString OpOR = ''OR''"
| "opToString OpXOR = ''XOR''"
| "opToString OpNONE = ''UNKNOWN''"

text \<open>The negation sign in UTF-8.\<close>

definition negSign :: string where
  "negSign = [CHR 0xC2, CHR 0xAC]"

definition parens :: "bexpr \<Rightarrow> string \<Rightarrow> string" where
  "parens e s = (if getOp e \<noteq> OpVAR then ''('' @ s @ '')'' else s)"

primrec toString :: "bexpr \<Rightarrow> string" where
  "toString (BVar v) = showWord v"
| "toString (BNot a) = negSign @ parens a (toString a)"
| "toString (BAnd a b) =
     parens a (toString a) @ '' '' @ opToString OpAND @ '' '' @ parens b (toString b)"
| "toString (BOr a b) =
     parens a (toString a) @ '' '' @ opToString OpOR @ '' '' @ parens b (toString b)"
| "toString (BXor a b) =
     parens a (toString a) @ '' '' @ opToString OpXOR @ '' '' @ parens b (toString b)"

lemma getName_var: "getName (BVar v) = Inr s \<Longrightarrow> getName (BVar w) = Inr s \<Longrightarrow> v = w"
  by (auto simp: getName_def split: if_splits)


text \<open>What follows a printed operand: nothing, or a character that is not a digit.\<close>

definition delimited :: "string \<Rightarrow> bool" where
  "delimited u = (\<forall>c cs. u = c # cs \<longrightarrow> \<not> isDigit c)"

lemma delimited_Cons [simp]: "delimited (c # u) \<longleftrightarrow> \<not> isDigit c"
  by (simp add: delimited_def)

lemma not_digits [simp]: "\<not> isDigit (CHR '' '')" "\<not> isDigit (CHR '')'')"
  by (simp_all add: isDigit_def)

lemma showWord_delimited:
  "showWord v @ u = showWord w @ u' \<Longrightarrow> delimited u \<Longrightarrow> delimited u' \<Longrightarrow> v = w \<and> u = u'"
  using digits_prefix [of "showWord v" u "showWord w" u' isDigit] showNat_digits
  by (auto simp: delimited_def showWord_def word_unat_eq_iff)

lemma hd_showWord: "\<exists>c cs. showWord v = c # cs \<and> isDigit c"
proof -
  obtain c cs where "showNat (unat v) = c # cs" using showNat_nonempty [of "unat v"] by (meson neq_Nil_conv)
  then show ?thesis using showNat_digits [of c "unat v"] by (simp add: showWord_def)
qed

lemma not_digit_starts: "isDigit c \<Longrightarrow> c \<noteq> CHR ''('' \<and> c \<noteq> CHR 0xC2"
  by (auto simp: isDigit_def)

lemma parens_start:
  "\<exists>c cs. parens e (toString e) @ u = c # cs \<and> c \<noteq> CHR 0xC2 \<and>
     (if getOp e = OpVAR then isDigit c else c = CHR ''('')"
proof (cases e)
  case (BVar v)
  then show ?thesis using hd_showWord [of v] not_digit_starts by (auto simp: parens_def)
qed (simp_all add: parens_def)

lemma parens_not_neg [simp]:
  "parens e (toString e) @ u \<noteq> negSign @ u'" "negSign @ u' \<noteq> parens e (toString e) @ u"
  using parens_start [of e u] by (auto simp: negSign_def)

lemma opToString_inject:
  "opToString k @ CHR '' '' # u = opToString k' @ CHR '' '' # u' \<Longrightarrow>
   k \<in> {OpAND, OpOR, OpXOR} \<Longrightarrow> k' \<in> {OpAND, OpOR, OpXOR} \<Longrightarrow> k = k' \<and> u = u'"
  by auto

lemma toString_binNode:
  "k \<in> {OpAND, OpOR, OpXOR} \<Longrightarrow> toString (binNode k a b) =
   parens a (toString a) @ CHR '' '' # opToString k @ CHR '' '' # parens b (toString b)"
  by auto

lemma bexpr_shapes:
  obtains (var) v where "e = BVar v" | (neg) a where "e = BNot a"
  | (bin) k a b where "e = binNode k a b" "k \<in> {OpAND, OpOR, OpXOR}"
proof (cases e)
  case (BAnd a b) then show ?thesis using bin [of OpAND a b] by simp
next
  case (BOr a b) then show ?thesis using bin [of OpOR a b] by simp
next
  case (BXor a b) then show ?thesis using bin [of OpXOR a b] by simp
qed (use var neg in auto)

lemma parens_prefix:
  "parens a (toString a) @ u = parens b (toString b) @ u' \<Longrightarrow> delimited u \<Longrightarrow> delimited u' \<Longrightarrow>
   a = b \<and> u = u'"
proof (induction "size a" arbitrary: a b u u' rule: less_induct)
  case less
  have var: "getOp a = OpVAR \<longleftrightarrow> getOp b = OpVAR"
    using parens_start [of a u] parens_start [of b u'] less.prems(1)
    by (auto simp: isDigit_def split: if_splits)
  show ?case
  proof (cases a rule: bexpr_shapes)
    case (var v)
    then obtain w where "b = BVar w" using \<open>getOp a = OpVAR \<longleftrightarrow> getOp b = OpVAR\<close> by (cases b) auto
    then show ?thesis using var less.prems showWord_delimited by (auto simp: parens_def)
  next
    case (neg c)
    show ?thesis
    proof (cases b rule: bexpr_shapes)
      case (neg d)
      then show ?thesis
        using less.prems less.hyps [of c "CHR '')'' # u" d "CHR '')'' # u'"] \<open>a = BNot c\<close>
        by (auto simp: parens_def)
    next
      case (bin k d e)
      then show ?thesis
        using less.prems neg
        by (auto simp: toString_binNode parens_def [of "BNot c"] parens_def [of "BAnd d e"]
            parens_def [of "BOr d e"] parens_def [of "BXor d e"])
    qed (use var neg in simp)
  next
    case (bin k c d)
    have a: "parens a (toString a) @ u = CHR ''('' # parens c (toString c) @ CHR '' '' #
        opToString k @ CHR '' '' # parens d (toString d) @ CHR '')'' # u"
      using bin by (auto simp: toString_binNode parens_def [of "BAnd c d"]
          parens_def [of "BOr c d"] parens_def [of "BXor c d"])
    show ?thesis
    proof (cases b rule: bexpr_shapes)
      case (neg e)
      then show ?thesis
        using less.prems(1) a
        by (auto simp: parens_def [of "BNot e"])
    next
      case (bin k' e f)
      have b: "parens b (toString b) @ u' = CHR ''('' # parens e (toString e) @ CHR '' '' #
          opToString k' @ CHR '' '' # parens f (toString f) @ CHR '')'' # u'"
        using bin by (auto simp: toString_binNode parens_def [of "BAnd e f"]
            parens_def [of "BOr e f"] parens_def [of "BXor e f"])
      have c: "c = e \<and> CHR '' '' # opToString k @ CHR '' '' # parens d (toString d) @ CHR '')'' # u =
          CHR '' '' # opToString k' @ CHR '' '' # parens f (toString f) @ CHR '')'' # u'"
        by (rule less.hyps) (use less.prems(1) a b \<open>a = binNode k c d\<close> in auto)
      then have k: "k = k' \<and> parens d (toString d) @ CHR '')'' # u = parens f (toString f) @ CHR '')'' # u'"
        using opToString_inject \<open>k \<in> {OpAND, OpOR, OpXOR}\<close> bin(2) by blast
      then have "d = f \<and> CHR '')'' # u = CHR '')'' # u'"
        by (intro less.hyps) (use \<open>a = binNode k c d\<close> in auto)
      then show ?thesis using c k \<open>a = binNode k c d\<close> bin(1) by simp
    qed (use var bin in auto)
  qed
qed

lemma toString_var: "toString a = showWord v \<Longrightarrow> getOp a = OpVAR"
proof (cases a rule: bexpr_shapes)
  case (neg b)
  assume "toString a = showWord v"
  then have "CHR 0xC2 \<in> set (showNat (unat v))"
    unfolding showWord_def [symmetric] by (metis neg list.set_intros(1) negSign_def toString.simps(2) append_Cons)
  then show ?thesis using showNat_digits not_digit_starts by blast
next
  case (bin k b c)
  assume "toString a = showWord v"
  then have "CHR '' '' \<in> set (showNat (unat v))"
    unfolding showWord_def [symmetric] using bin toString_binNode [OF bin(2), of b c]
    by (metis in_set_conv_decomp)
  then show ?thesis using showNat_digits not_digits by blast
qed simp

lemma toString_inject: "toString a = toString b \<Longrightarrow> a = b"
proof -
  assume *: "toString a = toString b"
  then have "getOp a = OpVAR \<longleftrightarrow> getOp b = OpVAR"
    using toString_var by (metis getOp_eq_iffs(1) toString.simps(1))
  then have "parens a (toString a) @ [] = parens b (toString b) @ []" using * by (auto simp: parens_def)
  from parens_prefix [OF this] show ?thesis by (simp add: delimited_def)
qed

end
