(* ===== verification/Postorder.thy ===== *)
theory Postorder
  imports Bool_Factories
begin

text \<open>
  The iterative post-order traversal that the expression passes share.  In the sources each
  pass writes the loop out: a stack of frames \<open>{node, visited}\<close>; a frame whose node is already
  in the memo is skipped; a variable is finished at once; any other node is pushed back as
  visited under its children on the first visit and finished on the second.  Here the loop is
  one function over a record of the parts in which the passes differ; it is proved to be the
  recursive traversal, and the interface \<open>postorder\<close> turns the laws of one step into the
  correctness of a whole pass.
\<close>

section \<open>The loop\<close>

text \<open>
  \<open>v_done\<close>: the node is in the memo.  \<open>v_leaf\<close>: variables are finished without a second visit.
  \<open>v_swap\<close>: the right child is visited first.  \<open>v_push\<close>: a child is pushed.  \<open>v_enter\<close>: the first
  visit.  \<open>v_finish\<close>: compute the node from its children and put it into the memo.
\<close>

record ('m, 'e) visitor =
  v_done :: "'m \<Rightarrow> bexpr \<Rightarrow> bool"
  v_leaf :: bool
  v_swap :: "bexpr \<Rightarrow> bool"
  v_push :: "'m \<Rightarrow> bexpr \<Rightarrow> bool"
  v_enter :: "bexpr \<Rightarrow> 'm \<Rightarrow> 'e + 'm"
  v_finish :: "bexpr \<Rightarrow> 'm \<Rightarrow> 'e + 'm"

type_synonym frame = "bexpr \<times> bool"

text \<open>The children that are pushed, the one that is popped first at the head.\<close>

definition kids :: "('m, 'e) visitor \<Rightarrow> 'm \<Rightarrow> bexpr \<Rightarrow> bexpr list" where
  "kids V m n = filter (v_push V m) (if v_swap V n then rev (children n) else children n)"

fun frameWeight :: "frame \<Rightarrow> nat" where
  "frameWeight (n, visited) = (if visited then 1 else 4 * size n + 2)"

lemma sum_list_kids: "(\<Sum>c\<leftarrow>kids V m n. 4 * size c + 2) \<le> 4 * size n"
proof -
  have "(\<Sum>c\<leftarrow>filter P xs. f c) \<le> (\<Sum>c\<leftarrow>xs. f c)" for P and xs :: "bexpr list" and f :: "bexpr \<Rightarrow> nat"
    by (induction xs) auto
  from this [where f = "\<lambda>c. 4 * size c + 2"]
  have "(\<Sum>c\<leftarrow>kids V m n. 4 * size c + 2) \<le>
    (\<Sum>c\<leftarrow>(if v_swap V n then rev (children n) else children n). 4 * size c + 2)"
    by (simp add: kids_def)
  also have "\<dots> = (\<Sum>c\<leftarrow>children n. 4 * size c + 2)" by (simp add: rev_map [symmetric])
  also have "\<dots> \<le> 4 * size n" by (cases n) auto
  finally show ?thesis .
qed

lemma kids_children: "c \<in> set (kids V m n) \<Longrightarrow> c \<in> set (children n)"
  by (auto simp: kids_def split: if_splits)

lemma kids_subset: "set (kids V m n) \<subseteq> set (children n)"
  by (rule subsetI, erule kids_children)

lemma child_size: "c \<in> set (children n) \<Longrightarrow> size c < size n"
  by (cases n) auto

function postLoop :: "('m, 'e) visitor \<Rightarrow> frame list \<Rightarrow> 'm \<Rightarrow> 'e + 'm" where
  "postLoop V [] m = Inr m"
| "postLoop V ((n, visited) # stack) m =
    (if v_done V m n then postLoop V stack m
     else if (getOp n = OpVAR \<and> v_leaf V) \<or> visited
     then bindE (v_finish V n m) (\<lambda>m'. postLoop V stack m')
     else bindE (v_enter V n m)
       (\<lambda>m'. postLoop V (map (\<lambda>c. (c, False)) (kids V m' n) @ (n, True) # stack) m'))"
  by pat_completeness auto
termination
proof (relation "measure (\<lambda>(V, stack, m). sum_list (map frameWeight stack))", goal_cases)
  case (4 V n visited stack m m')
  then show ?case using sum_list_kids [of V m' n] by (simp add: o_def)
qed auto

declare postLoop.simps(2) [simp del]

lemma postLoop_Nil [simp]: "postLoop V [] = Inr"
  by (rule ext) simp

section \<open>The recursion it implements\<close>

lemma foldE_cong [fundef_cong]:
  assumes "xs = ys" "s = t" "\<And>x u. x \<in> set ys \<Longrightarrow> f x u = g x u"
  shows "foldE f xs s = foldE g ys t"
proof -
  have "(\<And>x u. x \<in> set ys \<Longrightarrow> f x u = g x u) \<Longrightarrow> foldE f ys t = foldE g ys t" for t
    by (induction ys arbitrary: t) (auto intro!: bindE_cong)
  then show ?thesis using assms by simp
qed

function postRec :: "('m, 'e) visitor \<Rightarrow> bexpr \<Rightarrow> 'm \<Rightarrow> 'e + 'm" where
  "postRec V n m =
    (if v_done V m n then Inr m
     else if getOp n = OpVAR \<and> v_leaf V then v_finish V n m
     else bindE (v_enter V n m) (\<lambda>m1.
       bindE (foldE (\<lambda>c u. postRec V c u) (kids V m1 n) m1) (\<lambda>m2.
         if v_done V m2 n then Inr m2 else v_finish V n m2)))"
  by pat_completeness auto
termination
  by (relation "measure (\<lambda>(V, n, m). size n)") (auto dest!: kids_children child_size)

declare postRec.simps [simp del]

lemma postRec_done: "v_done V m n \<Longrightarrow> postRec V n m = Inr m"
  and postRec_leaf: "\<not> v_done V m n \<Longrightarrow> getOp n = OpVAR \<Longrightarrow> v_leaf V \<Longrightarrow> postRec V n m = v_finish V n m"
  by (subst postRec.simps, simp)+

lemma postLoop_children:
  assumes "\<And>c stack u. c \<in> set cs \<Longrightarrow>
    postLoop V ((c, False) # stack) u = bindE (postRec V c u) (postLoop V stack)"
  shows "postLoop V (map (\<lambda>c. (c, False)) cs @ stack) u =
    bindE (foldE (postRec V) cs u) (postLoop V stack)"
  using assms
proof (induction cs arbitrary: u)
  case (Cons c cs)
  then have "postLoop V (map (\<lambda>c. (c, False)) cs @ stack) =
      (\<lambda>u. bindE (foldE (postRec V) cs u) (postLoop V stack))" by (intro ext) simp
  then show ?case using Cons.prems by (simp add: bindE_assoc)
qed simp

lemma postLoop_unvisited:
  "postLoop V ((n, False) # stack) m = bindE (postRec V n m) (postLoop V stack)"
proof (induction "size n" arbitrary: n m stack rule: less_induct)
  case less
  have kids: "postLoop V (map (\<lambda>c. (c, False)) (kids V u n) @ stack') u =
      bindE (foldE (postRec V) (kids V u n) u) (postLoop V stack')" for stack' u
    by (rule postLoop_children, rule less.hyps, rule child_size, erule kids_children)
  have visited: "postLoop V ((n, True) # stack) =
      (\<lambda>u. bindE (if v_done V u n then Inr u else v_finish V n u) (postLoop V stack))"
    by (rule ext) (simp add: postLoop.simps(2))
  show ?case
    by (subst postRec.simps, subst postLoop.simps(2)) (simp add: kids bindE_assoc visited)
qed

lemma bindE_Inr [simp]: "bindE r Inr = r"
  by (cases r) simp_all

lemma postLoop_root: "postLoop V [(n, False)] m = postRec V n m"
  by (simp add: postLoop_unvisited)

section \<open>Correctness of a pass from the laws of its steps\<close>

locale postorder =
  fixes V :: "('m, 'e) visitor"
    and inv :: "'m \<Rightarrow> bool"
    and grows :: "'m \<Rightarrow> 'm \<Rightarrow> bool"
  assumes grows_refl: "grows m m"
    and grows_trans: "grows a b \<Longrightarrow> grows b c \<Longrightarrow> grows a c"
    and grows_done: "grows m m' \<Longrightarrow> v_done V m n \<Longrightarrow> v_done V m' n"
    and push_done: "v_push V m n \<or> v_done V m n"
    and enter_ok: "inv m \<Longrightarrow> \<not> v_done V m n \<Longrightarrow> v_enter V n m = Inr m' \<Longrightarrow> inv m' \<and> grows m m'"
    and finish_ok: "inv m \<Longrightarrow> \<not> v_done V m n \<Longrightarrow> (\<And>c. c \<in> set (children n) \<Longrightarrow> v_done V m c) \<Longrightarrow>
      v_finish V n m = Inr m' \<Longrightarrow> inv m' \<and> grows m m' \<and> v_done V m' n"
begin

lemma kids_done:
  assumes "\<And>c. c \<in> set (kids V m n) \<Longrightarrow> v_done V m' c" "grows m m'" "c \<in> set (children n)"
  shows "v_done V m' c"
proof (cases "v_push V m c")
  case True
  then show ?thesis using assms(1,3) by (simp add: kids_def split: if_splits)
next
  case False
  then show ?thesis using push_done grows_done [OF assms(2)] by blast
qed

lemma postRec_ok:
  "inv m \<Longrightarrow> postRec V n m = Inr m' \<Longrightarrow> inv m' \<and> grows m m' \<and> v_done V m' n"
proof (induction "size n" arbitrary: n m m' rule: less_induct)
  case less
  have fold: "inv u' \<and> grows u u' \<and> (\<forall>c \<in> set cs. v_done V u' c)"
    if "foldE (postRec V) cs u = Inr u'" "inv u" "set cs \<subseteq> set (children n)" for cs u u'
    using that
  proof (induction cs arbitrary: u)
    case (Cons c cs)
    then obtain w where w: "postRec V c u = Inr w" "foldE (postRec V) cs w = Inr u'" by (auto simp: bindE_Inr_iff)
    have "size c < size n" using Cons.prems child_size by simp
    then have ok: "inv w" "grows u w" "v_done V w c"
      using less.hyps [OF _ Cons.prems(2) w(1)] by simp_all
    have rest: "inv u'" "grows w u'" "\<forall>c \<in> set cs. v_done V u' c"
      using Cons.IH [OF w(2) ok(1)] Cons.prems(3) by simp_all
    then show ?case using grows_trans [OF ok(2) rest(2)] grows_done [OF rest(2) ok(3)] by simp
  qed (simp add: grows_refl)
  show ?case
  proof (cases "v_done V m n")
    case True
    then show ?thesis using less.prems grows_refl by (simp add: postRec_done)
  next
    case False
    show ?thesis
    proof (cases "getOp n = OpVAR \<and> v_leaf V")
      case True
      then have "children n = []" by (cases n) auto
      moreover have "v_finish V n m = Inr m'" using less.prems True False by (simp add: postRec_leaf)
      ultimately show ?thesis using finish_ok [OF less.prems(1) False] by simp
    next
      case leaf: False
      obtain m1 m2 where m1: "v_enter V n m = Inr m1" and m2: "foldE (postRec V) (kids V m1 n) m1 = Inr m2"
        and m': "(if v_done V m2 n then Inr m2 else v_finish V n m2) = Inr m'"
        using less.prems(2) False leaf
        by (subst (asm) postRec.simps) (simp only: if_False bindE_Inr_iff, blast)
      have 1: "inv m1" "grows m m1" using enter_ok [OF less.prems(1) False m1] by simp_all
      have 2: "inv m2" "grows m1 m2" "\<And>c. c \<in> set (kids V m1 n) \<Longrightarrow> v_done V m2 c"
        using fold [OF m2 1(1) kids_subset] by simp_all
      have 3: "v_done V m2 c" if "c \<in> set (children n)" for c
        by (rule kids_done [OF 2(3) 2(2) that])
      show ?thesis
      proof (cases "v_done V m2 n")
        case True
        then show ?thesis using m' 1 2 grows_trans [OF 1(2) 2(2)] by simp
      next
        case False
        then have "v_finish V n m2 = Inr m'" using m' by simp
        from finish_ok [OF 2(1) False 3 this]
        show ?thesis using grows_trans [OF grows_trans [OF 1(2) 2(2)]] by simp
      qed
    qed
  qed
qed

lemma loop_ok:
  "inv m \<Longrightarrow> postLoop V [(n, False)] m = Inr m' \<Longrightarrow> inv m' \<and> grows m m' \<and> v_done V m' n"
  using postRec_ok by (simp add: postLoop_root)

end

text \<open>A pass that also returns: every node it meets can be entered and finished.\<close>

locale total_postorder = postorder V inv grows
  for V :: "('m, 'e) visitor" and inv :: "'m \<Rightarrow> bool" and grows :: "'m \<Rightarrow> 'm \<Rightarrow> bool" +
  fixes good :: "bexpr \<Rightarrow> bool"
  assumes good_child: "good n \<Longrightarrow> c \<in> set (children n) \<Longrightarrow> good c"
    and enter_total: "good n \<Longrightarrow> inv m \<Longrightarrow> \<exists>m'. v_enter V n m = Inr m'"
    and finish_total: "good n \<Longrightarrow> inv m \<Longrightarrow> \<not> v_done V m n \<Longrightarrow>
      (\<And>c. c \<in> set (children n) \<Longrightarrow> v_done V m c) \<Longrightarrow> \<exists>m'. v_finish V n m = Inr m'"
begin

lemma postRec_total: "good n \<Longrightarrow> inv m \<Longrightarrow> \<exists>m'. postRec V n m = Inr m'"
proof (induction "size n" arbitrary: n m rule: less_induct)
  case less
  have fold: "\<exists>u'. foldE (postRec V) cs u = Inr u' \<and> inv u' \<and> grows u u' \<and> (\<forall>c \<in> set cs. v_done V u' c)"
    if "inv u" "set cs \<subseteq> set (children n)" for cs u
    using that
  proof (induction cs arbitrary: u)
    case (Cons c cs)
    have c: "size c < size n" "good c" using child_size good_child [OF less.prems(1)] Cons.prems by auto
    obtain w where w: "postRec V c u = Inr w" using less.hyps [OF c Cons.prems(1)] by blast
    then have ok: "inv w" "grows u w" "v_done V w c" using postRec_ok [OF Cons.prems(1) w] by simp_all
    obtain u' where u': "foldE (postRec V) cs w = Inr u'" "inv u'" "grows w u'" "\<forall>c \<in> set cs. v_done V u' c"
      using Cons.IH [OF ok(1)] Cons.prems(2) by auto
    then show ?case
      using w ok(1) grows_trans [OF ok(2) u'(3)] grows_done [OF u'(3) ok(3)] by simp
  qed (simp add: grows_refl)
  show ?case
  proof (cases "v_done V m n \<or> getOp n = OpVAR \<and> v_leaf V")
    case True
    moreover have "getOp n = OpVAR \<Longrightarrow> children n = []" by (cases n) auto
    ultimately show ?thesis
      using finish_total [OF less.prems] by (cases "v_done V m n") (auto simp: postRec_done postRec_leaf)
  next
    case False
    obtain m1 where m1: "v_enter V n m = Inr m1" using enter_total [OF less.prems] by blast
    have 1: "inv m1" using enter_ok [OF less.prems(2) _ m1] False by simp
    obtain m2 where m2: "foldE (postRec V) (kids V m1 n) m1 = Inr m2" "inv m2" "grows m1 m2"
      "\<forall>c \<in> set (kids V m1 n). v_done V m2 c" using fold [OF 1 kids_subset [of V m1 n]] by blast
    have 2: "v_done V m2 c" if "c \<in> set (children n)" for c
      by (rule kids_done [of m1 n m2 c, OF _ m2(3) that]) (use m2(4) in simp)
    obtain m3 where "v_done V m2 n \<or> v_finish V n m2 = Inr m3"
      using finish_total [OF less.prems(1) m2(2) _ 2] by blast
    then show ?thesis using m1 m2(1) False by (subst postRec.simps) auto
  qed
qed

lemma loop_total: "good n \<Longrightarrow> inv m \<Longrightarrow> \<exists>m'. postLoop V [(n, False)] m = Inr m' \<and> inv m' \<and>
    grows m m' \<and> v_done V m' n"
  using postRec_total [of n m] postRec_ok [of m n] by (auto simp: postLoop_root)

end

end
