(* ===== verification/Expr_Eval.thy ===== *)
theory Expr_Eval
  imports Postorder Expr_Walk
begin

text \<open>
  Memoised passes over expressions: a value per node, computed from the values of its
  children.  \<open>BoolExpr::evaluate\<close>, \<open>BoolExpr::simplify\<close>, \<open>BoolExpr::Print\<close> and \<open>getName\<close>
  of \<open>formal/BoolExpr.cpp\<close> and \<open>formal/BoolExpr.h\<close>.
\<close>

section \<open>Passes with a memo\<close>

type_synonym 'v memo = "bexpr \<rightharpoonup> 'v"

text \<open>\<open>compute n m\<close> is the value of node \<open>n\<close>, with the values of the children in \<open>m\<close>;
  \<open>skipDone\<close>: children that are in the memo are not pushed again.\<close>

definition memoPass :: "bool \<Rightarrow> (bexpr \<Rightarrow> 'v memo \<Rightarrow> 'e + 'v) \<Rightarrow> ('v memo, 'e) visitor" where
  "memoPass skipDone compute =
    \<lparr> v_done = (\<lambda>m n. m n \<noteq> None), v_leaf = True, v_swap = (\<lambda>_. False),
      v_push = (\<lambda>m c. \<not> skipDone \<or> m c = None), v_enter = (\<lambda>n m. Inr m),
      v_finish = (\<lambda>n m. bindE (compute n m) (\<lambda>v. Inr (emplace n v m))) \<rparr>"

text \<open>The loop on one root, and the value it leaves for the root.\<close>

definition runMemo :: "bool \<Rightarrow> (bexpr \<Rightarrow> 'v memo \<Rightarrow> error + 'v) \<Rightarrow> bexpr \<Rightarrow> 'v memo \<Rightarrow>
    error + 'v \<times> 'v memo" where
  "runMemo skipDone compute root m =
    bindE (postLoop (memoPass skipDone compute) [(root, False)] m)
      (\<lambda>m'. bindE (atE m' root) (\<lambda>v. Inr (v, m')))"

definition memoInv :: "(bexpr \<Rightarrow> 'v \<Rightarrow> bool) \<Rightarrow> 'v memo \<Rightarrow> bool" where
  "memoInv R m = (\<forall>n v. m n = Some v \<longrightarrow> R n v)"

lemma memoInv_empty [simp]: "memoInv R Map.empty"
  by (simp add: memoInv_def)

lemma memoInv_emplace: "memoInv R m \<Longrightarrow> R n v \<Longrightarrow> memoInv R (emplace n v m)"
  by (simp add: memoInv_def emplace_apply)

lemma emplace_extends: "m \<subseteq>\<^sub>m emplace n v m"
  by (auto simp: map_le_def emplace_apply)

text \<open>The law of a pass: the value computed from right values of the children is right.\<close>

locale memo_pass =
  fixes compute :: "bexpr \<Rightarrow> 'v memo \<Rightarrow> error + 'v"
    and R :: "bexpr \<Rightarrow> 'v \<Rightarrow> bool"
  assumes compute_ok: "(\<And>c. c \<in> set (children n) \<Longrightarrow> \<exists>w. m c = Some w \<and> R c w) \<Longrightarrow>
    compute n m = Inr v \<Longrightarrow> R n v"
begin

lemma is_postorder: "postorder (memoPass skip compute) (memoInv R) (\<subseteq>\<^sub>m)"
proof
  fix m m' :: "'v memo" and n
  show "m \<subseteq>\<^sub>m m' \<Longrightarrow> v_done (memoPass skip compute) m n \<Longrightarrow> v_done (memoPass skip compute) m' n"
    by (auto simp: memoPass_def map_le_def dom_def)
  assume inv: "memoInv R m" and fin: "v_finish (memoPass skip compute) n m = Inr m'"
    and kids: "\<And>c. c \<in> set (children n) \<Longrightarrow> v_done (memoPass skip compute) m c"
  obtain v where v: "compute n m = Inr v" "m' = emplace n v m"
    using fin by (auto simp: memoPass_def bindE_Inr_iff)
  have "R n v"
    by (rule compute_ok [OF _ v(1)]) (use kids inv in \<open>force simp: memoPass_def memoInv_def\<close>)
  then show "memoInv R m' \<and> m \<subseteq>\<^sub>m m' \<and> v_done (memoPass skip compute) m' n"
    using inv by (simp add: v memoInv_emplace emplace_extends memoPass_def emplace_apply)
qed (auto simp: memoPass_def intro: map_le_trans)

lemma run_ok:
  assumes "runMemo skip compute root m = Inr (v, m')" "memoInv R m"
  shows "R root v \<and> memoInv R m' \<and> m \<subseteq>\<^sub>m m'"
proof -
  have "postLoop (memoPass skip compute) [(root, False)] m = Inr m'" "m' root = Some v"
    using assms(1) by (auto simp: runMemo_def bindE_Inr_iff)
  then show ?thesis
    using postorder.loop_ok [OF is_postorder, OF assms(2)] by (auto simp: memoInv_def)
qed

end

locale total_memo_pass = memo_pass compute R
  for compute :: "bexpr \<Rightarrow> 'v memo \<Rightarrow> error + 'v" and R :: "bexpr \<Rightarrow> 'v \<Rightarrow> bool" +
  fixes good :: "bexpr \<Rightarrow> bool"
  assumes good_child: "good n \<Longrightarrow> c \<in> set (children n) \<Longrightarrow> good c"
    and compute_total: "good n \<Longrightarrow> (\<And>c. c \<in> set (children n) \<Longrightarrow> \<exists>w. m c = Some w) \<Longrightarrow>
      \<exists>v. compute n m = Inr v"
begin

lemma is_total: "total_postorder (memoPass skip compute) (memoInv R) (\<subseteq>\<^sub>m) good"
proof (intro total_postorder.intro is_postorder total_postorder_axioms.intro)
  fix n and m :: "'v memo" and c
  show "good n \<Longrightarrow> c \<in> set (children n) \<Longrightarrow> good c" by (rule good_child)
  show "\<exists>m'. v_enter (memoPass skip compute) n m = Inr m'" by (simp add: memoPass_def)
  assume "good n" "\<And>c. c \<in> set (children n) \<Longrightarrow> v_done (memoPass skip compute) m c"
  then have "\<exists>v. compute n m = Inr v" by (intro compute_total) (auto simp: memoPass_def)
  then show "\<exists>m'. v_finish (memoPass skip compute) n m = Inr m'" by (auto simp: memoPass_def)
qed

lemma run_total:
  assumes "good root" "memoInv R m"
  shows "\<exists>v m'. runMemo skip compute root m = Inr (v, m') \<and> R root v \<and> memoInv R m' \<and> m \<subseteq>\<^sub>m m'"
proof -
  obtain m' where m': "postLoop (memoPass skip compute) [(root, False)] m = Inr m'" "memoInv R m'"
    "m \<subseteq>\<^sub>m m'" "v_done (memoPass skip compute) m' root"
    using total_postorder.loop_total [OF is_total, OF assms] by blast
  then obtain v where "m' root = Some v" by (auto simp: memoPass_def)
  then show ?thesis using m' by (auto simp: runMemo_def memoInv_def)
qed

end

section \<open>Evaluation\<close>

text \<open>\<open>BoolExpr::evaluate\<close>: the environment is a partial map and a missing variable throws.\<close>

fun evaluateNode :: "(var_id \<rightharpoonup> bool) \<Rightarrow> bexpr \<Rightarrow> bool memo \<Rightarrow> error + bool" where
  "evaluateNode env (BVar v) m =
    (if v = 0 then Inr False
     else if v = 1 then Inr True
     else case env v of
       None \<Rightarrow> Inl (Runtime_Error (''BoolExpr::evaluate missing variable '' @ showWord v))
     | Some b \<Rightarrow> Inr b)"
| "evaluateNode env (BNot a) m = bindE (atE m a) (\<lambda>x. Inr (\<not> x))"
| "evaluateNode env (BAnd a b) m =
    bindE (atE m a) (\<lambda>x. if x then atE m b else Inr False)"
| "evaluateNode env (BOr a b) m =
    bindE (atE m a) (\<lambda>x. if x then Inr True else atE m b)"
| "evaluateNode env (BXor a b) m =
    bindE (atE m a) (\<lambda>x. bindE (atE m b) (\<lambda>y. Inr (x \<noteq> y)))"

definition evaluate :: "(var_id \<rightharpoonup> bool) \<Rightarrow> bexpr \<Rightarrow> error + bool" where
  "evaluate env e = bindE (runMemo False (evaluateNode env) e Map.empty) (\<lambda>r. Inr (fst r))"

definition evaluatesTo :: "(var_id \<rightharpoonup> bool) \<Rightarrow> bexpr \<Rightarrow> bool \<Rightarrow> bool" where
  "evaluatesTo env e b = (support e \<subseteq> dom env \<and> b = eval (\<lambda>v. env v = Some True) e)"

lemma evaluateNode_ok:
  assumes "\<And>c. c \<in> set (children n) \<Longrightarrow> \<exists>w. m c = Some w \<and> evaluatesTo env c w"
    "evaluateNode env n m = Inr b"
  shows "evaluatesTo env n b"
  using assms by (cases n) (auto simp: evaluatesTo_def split: option.splits if_splits)

interpretation evaluation: memo_pass "evaluateNode env" "evaluatesTo env" for env
  by unfold_locales (rule evaluateNode_ok)

lemma evaluateNode_total:
  assumes "support n \<subseteq> dom env" "\<And>c. c \<in> set (children n) \<Longrightarrow> \<exists>w. m c = Some w"
  shows "\<exists>v. evaluateNode env n m = Inr v"
proof (cases n)
  case (BVar v)
  then show ?thesis using assms(1) by (auto split: if_splits)
next
  case (BNot a)
  then show ?thesis using assms(2) [of a] by auto
next
  case (BAnd a b)
  then show ?thesis using assms(2) [of a] assms(2) [of b] by auto
next
  case (BOr a b)
  then show ?thesis using assms(2) [of a] assms(2) [of b] by auto
next
  case (BXor a b)
  then show ?thesis using assms(2) [of a] assms(2) [of b] by auto
qed

lemma support_child: "c \<in> set (children n) \<Longrightarrow> support c \<subseteq> support n"
  by (cases n) auto

interpretation evaluation: total_memo_pass "evaluateNode env" "evaluatesTo env"
  "\<lambda>n. support n \<subseteq> dom env" for env
  by unfold_locales (use support_child evaluateNode_total in \<open>blast+\<close>)

lemma evaluate_Inr_iff: "evaluate env e = Inr b \<longleftrightarrow> evaluatesTo env e b"
proof
  assume "evaluate env e = Inr b"
  then show "evaluatesTo env e b"
    using evaluation.run_ok [of False env e Map.empty b] by (auto simp: evaluate_def bindE_Inr_iff)
next
  assume *: "evaluatesTo env e b"
  then obtain v m' where "runMemo False (evaluateNode env) e Map.empty = Inr (v, m')" "evaluatesTo env e v"
    using evaluation.run_total [of e env Map.empty False] by (auto simp: evaluatesTo_def)
  then show "evaluate env e = Inr b" using * by (simp add: evaluate_def evaluatesTo_def)
qed

end
