(* ===== verification/Expr_Utils.thy ===== *)
theory Expr_Utils
  imports Expr_Eval
begin

text \<open>
  Renaming and partial evaluation of expressions: \<open>remapBoolExprVariables\<close> and
  \<open>substituteBoolExprVariables\<close> of \<open>sec/common/BoolExprUtils.cpp\<close>.  Both keep a memo across
  calls and keep unchanged nodes as they are.
\<close>

section \<open>Translated expressions\<close>

text \<open>\<open>v\<close> reads under \<open>env\<close> what \<open>n\<close> reads under \<open>T env\<close>, over the symbols \<open>s\<close> of the symbols
  of \<open>n\<close>, and is canonical when \<open>n\<close> is.\<close>

definition translates :: "((var_id \<Rightarrow> bool) \<Rightarrow> (var_id \<Rightarrow> bool)) \<Rightarrow> (var_id \<Rightarrow> var_id set) \<Rightarrow>
    bexpr \<Rightarrow> bexpr \<Rightarrow> bool" where
  "translates T s n v = (support v \<subseteq> (\<Union>x \<in> support n. s x) \<and> (canonical n \<longrightarrow> canonical v) \<and>
     (\<forall>env. eval env v = eval (T env) n))"

lemma translatesI:
  assumes "support v \<subseteq> (\<Union>x \<in> support n. s x)" "canonical n \<Longrightarrow> canonical v"
    "\<And>env. eval env v = eval (T env) n"
  shows "translates T s n v"
  using assms by (simp add: translates_def)

lemma translatesD:
  assumes "translates T s n v"
  shows "support v \<subseteq> (\<Union>x \<in> support n. s x)" "canonical n \<Longrightarrow> canonical v"
    "eval env v = eval (T env) n"
  using assms by (simp_all add: translates_def)

lemma translates_not:
  assumes "translates T s a l"
  shows "translates T s (BNot a) (if l = a then BNot a else mkNot l)"
proof (rule translatesI)
  show "eval env (if l = a then BNot a else mkNot l) = eval (T env) (BNot a)" for env
    using translatesD(3) [OF assms, of env] by (simp split: if_split) metis
qed (use translatesD(1,2) [OF assms] in \<open>auto split: if_splits\<close>)

lemma translates_binary:
  assumes a: "translates T s a l" and b: "translates T s b r"
  shows "translates T s (BAnd a b) (if l = a \<and> r = b then BAnd a b else mkAnd l r)"
    "translates T s (BOr a b) (if l = a \<and> r = b then BOr a b else mkOr l r)"
    "translates T s (BXor a b) (if l = a \<and> r = b then BXor a b else mkXor l r)"
proof -
  have sup: "support l \<union> support r \<subseteq> (\<Union>x \<in> support a \<union> support b. s x)"
    using translatesD(1) [OF a] translatesD(1) [OF b] by blast
  note mk = support_mkAnd [THEN subset_trans, OF sup] support_mkOr [THEN subset_trans, OF sup]
    support_mkXor [THEN subset_trans, OF sup]
  have can: "canonical (mkAnd l r)" "canonical (mkOr l r)" "canonical (mkXor l r)"
    if "canonical a" "canonical b" using translatesD(2) [OF a that(1)] translatesD(2) [OF b that(2)] by simp_all
  have ev: "l = a \<and> r = b \<Longrightarrow> eval env a = eval (T env) a" "l = a \<and> r = b \<Longrightarrow> eval env b = eval (T env) b" for env
    using translatesD(3) [OF a, of env] translatesD(3) [OF b, of env] by metis+
  show "translates T s (BAnd a b) (if l = a \<and> r = b then BAnd a b else mkAnd l r)"
  proof (rule translatesI)
    show "eval env (if l = a \<and> r = b then BAnd a b else mkAnd l r) = eval (T env) (BAnd a b)" for env
      using ev [of env] translatesD(3) [OF a, of env] translatesD(3) [OF b, of env] by auto
  qed (use sup mk can in \<open>auto split: if_splits\<close>)
  show "translates T s (BOr a b) (if l = a \<and> r = b then BOr a b else mkOr l r)"
  proof (rule translatesI)
    show "eval env (if l = a \<and> r = b then BOr a b else mkOr l r) = eval (T env) (BOr a b)" for env
      using ev [of env] translatesD(3) [OF a, of env] translatesD(3) [OF b, of env] by auto
  qed (use sup mk can in \<open>auto split: if_splits\<close>)
  show "translates T s (BXor a b) (if l = a \<and> r = b then BXor a b else mkXor l r)"
  proof (rule translatesI)
    show "eval env (if l = a \<and> r = b then BXor a b else mkXor l r) = eval (T env) (BXor a b)" for env
      using ev [of env] translatesD(3) [OF a, of env] translatesD(3) [OF b, of env] by auto
  qed (use sup mk can in \<open>auto split: if_splits\<close>)
qed

lemmas translates_intros = translates_not translates_binary

section \<open>Renaming variables\<close>

fun remapNode :: "(var_id \<rightharpoonup> var_id) \<Rightarrow> bexpr \<Rightarrow> bexpr memo \<Rightarrow> error + bexpr" where
  "remapNode varMap (BVar v) m =
    (if v < 2 then Inr (BVar v)
     else case varMap v of
       None \<Rightarrow> Inl (Runtime_Error (''Missing BoolExpr remap for variable '' @ showWord v))
     | Some w \<Rightarrow> Inr (if w = v then BVar v else mkVar w))"
| "remapNode varMap (BNot a) m =
    bindE (atE m a) (\<lambda>l. Inr (if l = a then BNot a else mkNot l))"
| "remapNode varMap (BAnd a b) m =
    bindE (atE m a) (\<lambda>l. bindE (atE m b) (\<lambda>r.
      Inr (if l = a \<and> r = b then BAnd a b else mkAnd l r)))"
| "remapNode varMap (BOr a b) m =
    bindE (atE m a) (\<lambda>l. bindE (atE m b) (\<lambda>r.
      Inr (if l = a \<and> r = b then BOr a b else mkOr l r)))"
| "remapNode varMap (BXor a b) m =
    bindE (atE m a) (\<lambda>l. bindE (atE m b) (\<lambda>r.
      Inr (if l = a \<and> r = b then BXor a b else mkXor l r)))"

text \<open>A null root is returned as it is; a root in the memo is looked up.\<close>

definition remapBoolExprVariables :: "bexpr option \<Rightarrow> (var_id \<rightharpoonup> var_id) \<Rightarrow> bexpr memo \<Rightarrow>
    error + bexpr option \<times> bexpr memo" where
  "remapBoolExprVariables root varMap memo =
    (case root of
       None \<Rightarrow> Inr (None, memo)
     | Some e \<Rightarrow>
        (case memo e of
           Some v \<Rightarrow> Inr (Some v, memo)
         | None \<Rightarrow> bindE (runMemo True (remapNode varMap) e memo)
             (\<lambda>(v, m). Inr (Some v, m))))"

text \<open>The environment in which the original reads what the renamed expression reads.\<close>

definition pullEnv :: "(var_id \<rightharpoonup> var_id) \<Rightarrow> (var_id \<Rightarrow> bool) \<Rightarrow> (var_id \<Rightarrow> bool)" where
  "pullEnv varMap env = (\<lambda>v. eval env (mkVar (the (varMap v))))"

definition remapsTo :: "(var_id \<rightharpoonup> var_id) \<Rightarrow> bexpr \<Rightarrow> bexpr \<Rightarrow> bool" where
  "remapsTo varMap n v =
     (support n \<subseteq> dom varMap \<and> translates (pullEnv varMap) (\<lambda>x. {the (varMap x)}) n v)"

lemma remapNode_ok:
  assumes kids: "\<And>c. c \<in> set (children n) \<Longrightarrow> \<exists>w. m c = Some w \<and> remapsTo varMap c w"
    and v: "remapNode varMap n m = Inr v"
  shows "remapsTo varMap n v"
proof (cases n)
  case (BVar x)
  then show ?thesis
    using v by (auto simp: remapsTo_def translates_def pullEnv_def lt2_iff split: if_splits option.splits)
next
  case (BNot a)
  then obtain l where "m a = Some l" "remapsTo varMap a l" using kids by auto
  then show ?thesis
    using v BNot translates_not [of "pullEnv varMap" "\<lambda>x. {the (varMap x)}" a l]
    by (simp add: remapsTo_def split del: if_split)
next
  case (BAnd a b)
  then obtain l r where "m a = Some l" "remapsTo varMap a l" "m b = Some r" "remapsTo varMap b r"
    using kids [of a] kids [of b] by auto
  then show ?thesis
    using v BAnd translates_binary [of "pullEnv varMap" "\<lambda>x. {the (varMap x)}" a l b r]
    by (simp add: remapsTo_def split del: if_split)
next
  case (BOr a b)
  then obtain l r where "m a = Some l" "remapsTo varMap a l" "m b = Some r" "remapsTo varMap b r"
    using kids [of a] kids [of b] by auto
  then show ?thesis
    using v BOr translates_binary [of "pullEnv varMap" "\<lambda>x. {the (varMap x)}" a l b r]
    by (simp add: remapsTo_def split del: if_split)
next
  case (BXor a b)
  then obtain l r where "m a = Some l" "remapsTo varMap a l" "m b = Some r" "remapsTo varMap b r"
    using kids [of a] kids [of b] by auto
  then show ?thesis
    using v BXor translates_binary [of "pullEnv varMap" "\<lambda>x. {the (varMap x)}" a l b r]
    by (simp add: remapsTo_def split del: if_split)
qed

lemma remapNode_total:
  assumes "support n \<subseteq> dom varMap" "\<And>c. c \<in> set (children n) \<Longrightarrow> \<exists>w. m c = Some w"
  shows "\<exists>v. remapNode varMap n m = Inr v"
proof (cases n)
  case (BVar v)
  then show ?thesis using assms(1) by (auto simp: lt2_iff split: if_splits)
next
  case (BNot a)
  then show ?thesis using assms(2) [of a] by auto
next
  case (BAnd a b)
  then show ?thesis using assms(2) [of a] assms(2) [of b] by auto
next
  case (BOr a b)
  then show ?thesis using assms(2) [of a] assms(2) [of b] by auto
next
  case (BXor a b)
  then show ?thesis using assms(2) [of a] assms(2) [of b] by auto
qed

interpretation remapping: total_memo_pass "remapNode varMap" "remapsTo varMap"
  "\<lambda>n. support n \<subseteq> dom varMap" for varMap
  by unfold_locales (use support_child remapNode_ok remapNode_total in \<open>blast+\<close>)

lemma remap_ok:
  assumes "remapBoolExprVariables (Some e) varMap memo = Inr (r, memo')" "memoInv (remapsTo varMap) memo"
  shows "\<exists>v. r = Some v \<and> remapsTo varMap e v \<and> memoInv (remapsTo varMap) memo' \<and> memo \<subseteq>\<^sub>m memo'"
proof (cases "memo e")
  case None
  then show ?thesis
    using assms remapping.run_ok [of True varMap e memo]
    by (auto simp: remapBoolExprVariables_def bindE_Inr_iff)
next
  case (Some w)
  then have "r = Some w" "memo' = memo" using assms(1) by (auto simp: remapBoolExprVariables_def)
  then show ?thesis using Some assms(2) by (simp add: memoInv_def)
qed

lemma remap_total:
  assumes "support e \<subseteq> dom varMap" "memoInv (remapsTo varMap) memo"
  shows "\<exists>v memo'. remapBoolExprVariables (Some e) varMap memo = Inr (Some v, memo') \<and>
    remapsTo varMap e v \<and> memoInv (remapsTo varMap) memo'"
proof (cases "memo e")
  case None
  then show ?thesis
    using remapping.run_total [OF assms, of True] by (auto simp: remapBoolExprVariables_def)
qed (use assms in \<open>auto simp: remapBoolExprVariables_def memoInv_def\<close>)

section \<open>Substituting constants\<close>

function substituteBoolExprVariables :: "(var_id \<rightharpoonup> bool) \<Rightarrow> bexpr \<Rightarrow> bexpr memo \<Rightarrow>
    bexpr \<times> bexpr memo" where
  "substituteBoolExprVariables A e m =
    (case m e of
       Some v \<Rightarrow> (v, m)
     | None \<Rightarrow>
        (case e of
           BVar v \<Rightarrow>
             (let s = (if v < 2 then e
                       else case A v of None \<Rightarrow> e
                            | Some b \<Rightarrow> if b then createTrue else createFalse)
              in (s, emplace e s m))
         | BNot a \<Rightarrow>
             (case substituteBoolExprVariables A a m of (l, m1) \<Rightarrow>
               let s = (if l = a then e else mkNot l) in (s, emplace e s m1))
         | BAnd a b \<Rightarrow>
             (case substituteBoolExprVariables A a m of (l, m1) \<Rightarrow>
              case substituteBoolExprVariables A b m1 of (r, m2) \<Rightarrow>
               let s = (if l = a \<and> r = b then e else mkAnd l r) in (s, emplace e s m2))
         | BOr a b \<Rightarrow>
             (case substituteBoolExprVariables A a m of (l, m1) \<Rightarrow>
              case substituteBoolExprVariables A b m1 of (r, m2) \<Rightarrow>
               let s = (if l = a \<and> r = b then e else mkOr l r) in (s, emplace e s m2))
         | BXor a b \<Rightarrow>
             (case substituteBoolExprVariables A a m of (l, m1) \<Rightarrow>
              case substituteBoolExprVariables A b m1 of (r, m2) \<Rightarrow>
               let s = (if l = a \<and> r = b then e else mkXor l r) in (s, emplace e s m2))))"
  by pat_completeness auto
termination
  by (relation "measure (\<lambda>(A, e, m). size e)") auto

declare substituteBoolExprVariables.simps [simp del]

text \<open>One level of the recursion, for a node that is not in the memo.\<close>

lemma substitute_var:
  "m (BVar x) = None \<Longrightarrow> substituteBoolExprVariables A (BVar x) m =
    (let s = (if x < 2 then BVar x
              else case A x of None \<Rightarrow> BVar x | Some b \<Rightarrow> if b then createTrue else createFalse)
     in (s, emplace (BVar x) s m))"
  by (subst substituteBoolExprVariables.simps) simp

lemma substitute_rec:
  assumes "substituteBoolExprVariables A a m = (l, m1)" "substituteBoolExprVariables A b m1 = (r, m2)"
  shows "m (BNot a) = None \<Longrightarrow> substituteBoolExprVariables A (BNot a) m =
      (let s = (if l = a then BNot a else mkNot l) in (s, emplace (BNot a) s m1))"
    "m (BAnd a b) = None \<Longrightarrow> substituteBoolExprVariables A (BAnd a b) m =
      (let s = (if l = a \<and> r = b then BAnd a b else mkAnd l r) in (s, emplace (BAnd a b) s m2))"
    "m (BOr a b) = None \<Longrightarrow> substituteBoolExprVariables A (BOr a b) m =
      (let s = (if l = a \<and> r = b then BOr a b else mkOr l r) in (s, emplace (BOr a b) s m2))"
    "m (BXor a b) = None \<Longrightarrow> substituteBoolExprVariables A (BXor a b) m =
      (let s = (if l = a \<and> r = b then BXor a b else mkXor l r) in (s, emplace (BXor a b) s m2))"
  by (subst substituteBoolExprVariables.simps; simp add: assms)+

definition fixEnv :: "(var_id \<rightharpoonup> bool) \<Rightarrow> (var_id \<Rightarrow> bool) \<Rightarrow> (var_id \<Rightarrow> bool)" where
  "fixEnv A env = (\<lambda>v. case A v of Some b \<Rightarrow> b | None \<Rightarrow> env v)"

definition substitutesTo :: "(var_id \<rightharpoonup> bool) \<Rightarrow> bexpr \<Rightarrow> bexpr \<Rightarrow> bool" where
  "substitutesTo A = translates (fixEnv A) (\<lambda>x. if x \<in> dom A then {} else {x})"

lemma substitutesTo_var:
  "substitutesTo A (BVar x) (if x < 2 then BVar x
     else case A x of None \<Rightarrow> BVar x | Some b \<Rightarrow> if b then createTrue else createFalse)"
  by (auto simp: substitutesTo_def translates_def fixEnv_def lt2_iff createTrue_def createFalse_def
      split: option.split)

lemmas sub_not = translates_not [of "fixEnv A" "\<lambda>x. if x \<in> dom A then {} else {x}",
    folded substitutesTo_def] for A
lemmas sub_binary = translates_binary [of "fixEnv A" "\<lambda>x. if x \<in> dom A then {} else {x}",
    folded substitutesTo_def] for A

text \<open>One more entry of the memo.\<close>

lemma substitutes_step:
  "(s, emplace e s m) = (v, m') \<Longrightarrow> substitutesTo A e s \<Longrightarrow> memoInv (substitutesTo A) m \<Longrightarrow>
   substitutesTo A e v \<and> memoInv (substitutesTo A) m'"
  using memoInv_emplace by auto

lemma substitute_ok:
  "memoInv (substitutesTo A) m \<Longrightarrow> substituteBoolExprVariables A e m = (v, m') \<Longrightarrow>
   substitutesTo A e v \<and> memoInv (substitutesTo A) m'"
proof (induction e arbitrary: m v m')
  case (BVar x)
  show ?case
  proof (cases "m (BVar x)")
    case None
    show ?thesis
      by (rule substitutes_step [OF _ substitutesTo_var BVar.prems(1)])
         (use BVar.prems(2) substitute_var [of m x A, OF None] in
           \<open>auto simp: Let_def split del: if_split\<close>)
  qed (use BVar.prems in \<open>simp add: substituteBoolExprVariables.simps memoInv_def\<close>)
next
  case (BNot a)
  obtain l m1 where l: "substituteBoolExprVariables A a m = (l, m1)" by fastforce
  obtain r m2 where r: "substituteBoolExprVariables A a m1 = (r, m2)" by fastforce
  note a = BNot.IH [OF BNot.prems(1) l]
  show ?case
  proof (cases "m (BNot a)")
    case None
    show ?thesis
      by (rule substitutes_step [OF _ sub_not conjunct2 [OF a]])
         (use BNot.prems(2) substitute_rec(1) [OF l r None] a in \<open>auto simp: Let_def split del: if_split\<close>)
  qed (use BNot.prems in \<open>simp add: substituteBoolExprVariables.simps memoInv_def\<close>)
next
  case (BAnd a b)
  obtain l m1 where l: "substituteBoolExprVariables A a m = (l, m1)" by fastforce
  obtain r m2 where r: "substituteBoolExprVariables A b m1 = (r, m2)" by fastforce
  note a = BAnd.IH(1) [OF BAnd.prems(1) l]
  note b = BAnd.IH(2) [OF conjunct2 [OF a] r]
  show ?case
  proof (cases "m (BAnd a b)")
    case None
    show ?thesis
      by (rule substitutes_step [OF _ sub_binary(1) conjunct2 [OF b]])
         (use BAnd.prems(2) substitute_rec(2) [OF l r None] a b in \<open>auto simp: Let_def split del: if_split\<close>)
  qed (use BAnd.prems in \<open>simp add: substituteBoolExprVariables.simps memoInv_def\<close>)
next
  case (BOr a b)
  obtain l m1 where l: "substituteBoolExprVariables A a m = (l, m1)" by fastforce
  obtain r m2 where r: "substituteBoolExprVariables A b m1 = (r, m2)" by fastforce
  note a = BOr.IH(1) [OF BOr.prems(1) l]
  note b = BOr.IH(2) [OF conjunct2 [OF a] r]
  show ?case
  proof (cases "m (BOr a b)")
    case None
    show ?thesis
      by (rule substitutes_step [OF _ sub_binary(2) conjunct2 [OF b]])
         (use BOr.prems(2) substitute_rec(3) [OF l r None] a b in \<open>auto simp: Let_def split del: if_split\<close>)
  qed (use BOr.prems in \<open>simp add: substituteBoolExprVariables.simps memoInv_def\<close>)
next
  case (BXor a b)
  obtain l m1 where l: "substituteBoolExprVariables A a m = (l, m1)" by fastforce
  obtain r m2 where r: "substituteBoolExprVariables A b m1 = (r, m2)" by fastforce
  note a = BXor.IH(1) [OF BXor.prems(1) l]
  note b = BXor.IH(2) [OF conjunct2 [OF a] r]
  show ?case
  proof (cases "m (BXor a b)")
    case None
    show ?thesis
      by (rule substitutes_step [OF _ sub_binary(3) conjunct2 [OF b]])
         (use BXor.prems(2) substitute_rec(4) [OF l r None] a b in \<open>auto simp: Let_def split del: if_split\<close>)
  qed (use BXor.prems in \<open>simp add: substituteBoolExprVariables.simps memoInv_def\<close>)
qed


section \<open>Equality of two expressions\<close>

definition makeEqualityExpr :: "bexpr \<Rightarrow> bexpr \<Rightarrow> bexpr" where
  "makeEqualityExpr lhs rhs = mkNot (mkXor lhs rhs)"

lemma eval_makeEqualityExpr [simp, eval_simps]:
  "eval env (makeEqualityExpr a b) = (eval env a = eval env b)"
  by (auto simp: makeEqualityExpr_def)

lemma canonical_makeEqualityExpr [simp, canon_intros]:
  "canonical a \<Longrightarrow> canonical b \<Longrightarrow> canonical (makeEqualityExpr a b)"
  by (simp add: makeEqualityExpr_def)

lemma support_makeEqualityExpr: "support (makeEqualityExpr a b) \<subseteq> support a \<union> support b"
  using support_mkXor by (simp add: makeEqualityExpr_def)

end
