(* ===== verification/Dual_Rail.thy ===== *)
theory Dual_Rail
  imports Expr_Utils
begin

text \<open>
  The dual-rail lift of \<open>sec/proof/DualRailEncoding.cpp\<close>: every expression becomes a pair of
  expressions, "may be one" and "may be zero".  The variable mapper is an abstract class of
  the source and is a parameter here; it may change its own state and may throw.  The lift is
  proved to compute the ternary (Kleene) semantics, to contain every concrete value, and to be
  exact on known values.
\<close>

record rails =
  mayBeOne :: bexpr
  mayBeZero :: bexpr

type_synonym 's mapper = "var_id \<Rightarrow> 's \<Rightarrow> error + rails \<times> 's"

section \<open>The lift\<close>

definition rail :: "bexpr \<Rightarrow> bexpr \<Rightarrow> rails" where
  "rail one zero = \<lparr> mayBeOne = one, mayBeZero = zero \<rparr>"

definition liftNot :: "rails \<Rightarrow> rails" where
  "liftNot x = rail (mayBeZero x) (mayBeOne x)"

definition liftAnd :: "rails \<Rightarrow> rails \<Rightarrow> rails" where
  "liftAnd x y = rail (mkAnd (mayBeOne x) (mayBeOne y)) (mkOr (mayBeZero x) (mayBeZero y))"

definition liftOr :: "rails \<Rightarrow> rails \<Rightarrow> rails" where
  "liftOr x y = rail (mkOr (mayBeOne x) (mayBeOne y)) (mkAnd (mayBeZero x) (mayBeZero y))"

definition liftXor :: "rails \<Rightarrow> rails \<Rightarrow> rails" where
  "liftXor x y =
    rail (mkOr (mkAnd (mayBeOne x) (mayBeZero y)) (mkAnd (mayBeZero x) (mayBeOne y)))
         (mkOr (mkAnd (mayBeOne x) (mayBeOne y)) (mkAnd (mayBeZero x) (mayBeZero y)))"

fun dualRailNode :: "'s mapper \<Rightarrow> bexpr \<Rightarrow> rails memo \<times> 's \<Rightarrow> error + rails \<times> 's" where
  "dualRailNode mapVariable (BVar v) (m, s) =
    (if v = 0 then Inr (rail createFalse createTrue, s)
     else if v = 1 then Inr (rail createTrue createFalse, s)
     else mapVariable v s)"
| "dualRailNode mapVariable (BNot a) (m, s) = bindE (atE m a) (\<lambda>x. Inr (liftNot x, s))"
| "dualRailNode mapVariable (BAnd a b) (m, s) =
    bindE (atE m a) (\<lambda>x. bindE (atE m b) (\<lambda>y. Inr (liftAnd x y, s)))"
| "dualRailNode mapVariable (BOr a b) (m, s) =
    bindE (atE m a) (\<lambda>x. bindE (atE m b) (\<lambda>y. Inr (liftOr x y, s)))"
| "dualRailNode mapVariable (BXor a b) (m, s) =
    bindE (atE m a) (\<lambda>x. bindE (atE m b) (\<lambda>y. Inr (liftXor x y, s)))"

definition dualRailVisitor :: "'s mapper \<Rightarrow> (rails memo \<times> 's, error) visitor" where
  "dualRailVisitor mapVariable =
    \<lparr> v_done = (\<lambda>ms n. fst ms n \<noteq> None), v_leaf = True, v_swap = (\<lambda>_. False),
      v_push = (\<lambda>ms c. fst ms c = None), v_enter = (\<lambda>n ms. Inr ms),
      v_finish = (\<lambda>n ms. bindE (dualRailNode mapVariable n ms)
        (\<lambda>(r, s). Inr (emplace n r (fst ms), s))) \<rparr>"

text \<open>A null root gives null rails.\<close>

definition buildDualRailBoolExpr :: "bexpr option \<Rightarrow> 's mapper \<Rightarrow> rails memo \<Rightarrow> 's \<Rightarrow>
    error + rails option \<times> rails memo \<times> 's" where
  "buildDualRailBoolExpr root mapVariable memo s =
    (case root of
       None \<Rightarrow> Inr (None, memo, s)
     | Some e \<Rightarrow>
        (case memo e of
           Some r \<Rightarrow> Inr (Some r, memo, s)
         | None \<Rightarrow> bindE (postLoop (dualRailVisitor mapVariable) [(e, False)] (memo, s))
             (\<lambda>(m, s'). bindE (atE m e) (\<lambda>r. Inr (Some r, m, s')))))"

section \<open>The ternary semantics\<close>

text \<open>A ternary value is the pair (may be one, may be zero).\<close>

primrec ternary :: "(var_id \<Rightarrow> bool \<times> bool) \<Rightarrow> bexpr \<Rightarrow> bool \<times> bool" where
  "ternary \<rho> (BVar v) = (if v = 0 then (False, True) else if v = 1 then (True, False) else \<rho> v)"
| "ternary \<rho> (BNot a) = (case ternary \<rho> a of (o1, z1) \<Rightarrow> (z1, o1))"
| "ternary \<rho> (BAnd a b) =
    (case ternary \<rho> a of (o1, z1) \<Rightarrow> case ternary \<rho> b of (o2, z2) \<Rightarrow> (o1 \<and> o2, z1 \<or> z2))"
| "ternary \<rho> (BOr a b) =
    (case ternary \<rho> a of (o1, z1) \<Rightarrow> case ternary \<rho> b of (o2, z2) \<Rightarrow> (o1 \<or> o2, z1 \<and> z2))"
| "ternary \<rho> (BXor a b) =
    (case ternary \<rho> a of (o1, z1) \<Rightarrow> case ternary \<rho> b of (o2, z2) \<Rightarrow>
      (o1 \<and> z2 \<or> z1 \<and> o2, o1 \<and> o2 \<or> z1 \<and> z2))"

definition contains :: "bool \<times> bool \<Rightarrow> bool \<Rightarrow> bool" where
  "contains t b = (if b then fst t else snd t)"

lemma contains_pair [simp]: "contains (x, z) b \<longleftrightarrow> (b \<longrightarrow> x) \<and> (\<not> b \<longrightarrow> z)"
  by (simp add: contains_def)

lemma ternary_contains:
  "\<forall>v \<in> support e. contains (\<rho> v) (\<sigma> v) \<Longrightarrow> contains (ternary \<rho> e) (eval \<sigma> e)"
  by (induction e) (auto simp: ball_Un split: prod.splits)

lemma ternary_exact:
  "\<forall>v \<in> support e. \<rho> v = (\<sigma> v, \<not> \<sigma> v) \<Longrightarrow> ternary \<rho> e = (eval \<sigma> e, \<not> eval \<sigma> e)"
  by (induction e) (auto simp: ball_Un)

lemma ternary_valid:
  "\<forall>v \<in> support e. fst (\<rho> v) \<or> snd (\<rho> v) \<Longrightarrow> fst (ternary \<rho> e) \<or> snd (ternary \<rho> e)"
  by (induction e) (auto simp: ball_Un split: prod.splits)

lemma ternary_cong: "(\<And>v. v \<in> support e \<Longrightarrow> \<rho> v = \<rho>' v) \<Longrightarrow> ternary \<rho> e = ternary \<rho>' e"
  by (induction e) auto

definition evalRails :: "(var_id \<Rightarrow> bool) \<Rightarrow> rails \<Rightarrow> bool \<times> bool" where
  "evalRails env r = (eval env (mayBeOne r), eval env (mayBeZero r))"

lemma evalRails_lift [simp]:
  "evalRails env (rail a b) = (eval env a, eval env b)"
  "evalRails env (liftNot x) = (case evalRails env x of (o1, z1) \<Rightarrow> (z1, o1))"
  "evalRails env (liftAnd x y) = (case evalRails env x of (o1, z1) \<Rightarrow>
     case evalRails env y of (o2, z2) \<Rightarrow> (o1 \<and> o2, z1 \<or> z2))"
  "evalRails env (liftOr x y) = (case evalRails env x of (o1, z1) \<Rightarrow>
     case evalRails env y of (o2, z2) \<Rightarrow> (o1 \<or> o2, z1 \<and> z2))"
  "evalRails env (liftXor x y) = (case evalRails env x of (o1, z1) \<Rightarrow>
     case evalRails env y of (o2, z2) \<Rightarrow> (o1 \<and> z2 \<or> z1 \<and> o2, o1 \<and> o2 \<or> z1 \<and> z2))"
  by (simp_all add: evalRails_def rail_def liftNot_def liftAnd_def liftOr_def liftXor_def)

section \<open>Correctness of the lift\<close>

text \<open>The rails that the memo holds for a variable.\<close>

definition varRails :: "rails memo \<Rightarrow> (var_id \<Rightarrow> bool) \<Rightarrow> var_id \<Rightarrow> bool \<times> bool" where
  "varRails m env v = evalRails env (the (m (BVar v)))"

definition liftsTo :: "rails memo \<Rightarrow> bexpr \<Rightarrow> rails \<Rightarrow> bool" where
  "liftsTo m n r = ((\<forall>v \<in> support n. m (BVar v) \<noteq> None) \<and>
     (\<forall>env. evalRails env r = ternary (varRails m env) n))"

definition railsInv :: "rails memo \<Rightarrow> bool" where
  "railsInv m = (\<forall>n r. m n = Some r \<longrightarrow> liftsTo m n r)"

lemma liftsTo_mono: "m \<subseteq>\<^sub>m m' \<Longrightarrow> liftsTo m n r \<Longrightarrow> liftsTo m' n r"
proof -
  assume m: "m \<subseteq>\<^sub>m m'" and lifts: "liftsTo m n r"
  have eq: "m' (BVar v) = m (BVar v)" if "v \<in> support n" for v
    using m lifts that unfolding liftsTo_def map_le_def by (metis domIff)
  then have "ternary (varRails m' env) n = ternary (varRails m env) n" for env
    by (intro ternary_cong) (simp add: varRails_def)
  then show ?thesis using lifts eq unfolding liftsTo_def by simp
qed

lemma railsInv_emplace: "railsInv m \<Longrightarrow> liftsTo (emplace n r m) n r \<Longrightarrow> railsInv (emplace n r m)"
  unfolding railsInv_def using liftsTo_mono [OF emplace_extends] by (metis emplace_apply option.inject)

lemma dualRailNode_ok:
  assumes inv: "railsInv m" and kids: "\<And>c. c \<in> set (children n) \<Longrightarrow> m c \<noteq> None"
    and r: "dualRailNode mapVariable n (m, s) = Inr (r, s')" and new: "m n = None"
  shows "liftsTo (emplace n r m) n r"
proof -
  have kid: "\<exists>x. m c = Some x \<and> liftsTo (emplace n r m) c x" if "c \<in> set (children n)" for c
    using kids [OF that] inv liftsTo_mono [OF emplace_extends] unfolding railsInv_def by blast
  show ?thesis
  proof (cases n)
    case (BVar v)
    then show ?thesis
      using r new by (auto simp: liftsTo_def varRails_def emplace_apply split: if_splits)
  next
    case (BNot a)
    then show ?thesis using kid [of a] r by (auto simp: liftsTo_def)
  next
    case (BAnd a b)
    then show ?thesis using kid [of a] kid [of b] r by (auto simp: liftsTo_def)
  next
    case (BOr a b)
    then show ?thesis using kid [of a] kid [of b] r by (auto simp: liftsTo_def)
  next
    case (BXor a b)
    then show ?thesis using kid [of a] kid [of b] r by (auto simp: liftsTo_def)
  qed
qed

interpretation dual_rail: postorder "dualRailVisitor mapVariable" "\<lambda>ms. railsInv (fst ms)"
  "\<lambda>ms ms'. fst ms \<subseteq>\<^sub>m fst ms'" for mapVariable
proof
  fix ms ms' :: "rails memo \<times> 'a" and n
  show "fst ms \<subseteq>\<^sub>m fst ms' \<Longrightarrow> v_done (dualRailVisitor mapVariable) ms n \<Longrightarrow>
      v_done (dualRailVisitor mapVariable) ms' n"
    by (auto simp: dualRailVisitor_def map_le_def dom_def)
  assume inv: "railsInv (fst ms)" and new: "\<not> v_done (dualRailVisitor mapVariable) ms n"
    and kids: "\<And>c. c \<in> set (children n) \<Longrightarrow> v_done (dualRailVisitor mapVariable) ms c"
    and fin: "v_finish (dualRailVisitor mapVariable) n ms = Inr ms'"
  obtain r s' where r: "dualRailNode mapVariable n (fst ms, snd ms) = Inr (r, s')"
    "ms' = (emplace n r (fst ms), s')"
    using fin by (auto simp: dualRailVisitor_def bindE_Inr_iff)
  have "liftsTo (emplace n r (fst ms)) n r"
    by (rule dualRailNode_ok [OF inv _ r(1)]) (use kids new in \<open>auto simp: dualRailVisitor_def\<close>)
  then show "railsInv (fst ms') \<and> fst ms \<subseteq>\<^sub>m fst ms' \<and> v_done (dualRailVisitor mapVariable) ms' n"
    using railsInv_emplace [OF inv] emplace_extends
    by (auto simp: r(2) dualRailVisitor_def emplace_apply)
qed (auto simp: dualRailVisitor_def intro: map_le_trans)

lemma dualRail_ok:
  assumes "buildDualRailBoolExpr (Some e) mapVariable memo s = Inr (Some r, memo', s')" "railsInv memo"
  shows "liftsTo memo' e r \<and> railsInv memo' \<and> memo \<subseteq>\<^sub>m memo'"
proof (cases "memo e")
  case None
  then have "postLoop (dualRailVisitor mapVariable) [(e, False)] (memo, s) = Inr (memo', s')" "memo' e = Some r"
    using assms(1) by (auto simp: buildDualRailBoolExpr_def bindE_Inr_iff)
  then show ?thesis using dual_rail.loop_ok [of "(memo, s)"] assms(2) by (fastforce simp: railsInv_def)
next
  case (Some w)
  then have "w = r \<and> memo' = memo" using assms(1) by (auto simp: buildDualRailBoolExpr_def)
  then show ?thesis using Some assms(2) by (auto simp: railsInv_def)
qed

end
