(* ===== verification/Sat_Solver.thy ===== *)
theory Sat_Solver
  imports Prelude
begin

text \<open>
  The wrapper over the SAT solvers (\<open>sat/SATSolverWrapper.h\<close>): the variable counter, the
  reservation policy, the mapping of literals, the clauses that reach the back end, the
  reading of its answers and of its model, and the work budget that several CaDiCaL queries
  share.  The solvers themselves (Kissat, Glucose, CaDiCaL) are third-party: they are the
  parameter \<open>backend\<close>, and \<open>soundBackend\<close> and \<open>completeBackend\<close> state their documented
  contract.  Literals and variable counts are \<open>int\<close> in C++; the model is exact below \<open>2 ^ 31\<close>
  variables (above, a CaDiCaL reservation throws).  Not modelled: solver options, the Craig
  tracer, and the failed assumptions of an unsatisfiable query.
\<close>

section \<open>The shared work budget\<close>

record work_budget =
  wb_conflictLimit :: u64
  wb_decisionLimit :: u64
  wb_tickLimit :: u64
  wb_conflicts :: u64
  wb_decisions :: u64
  wb_ticks :: u64

definition newBudget :: "u64 \<Rightarrow> u64 \<Rightarrow> u64 \<Rightarrow> work_budget" where
  "newBudget c d t = \<lparr> wb_conflictLimit = c, wb_decisionLimit = d, wb_tickLimit = t,
     wb_conflicts = 0, wb_decisions = 0, wb_ticks = 0 \<rparr>"

definition remaining :: "u64 \<Rightarrow> u64 \<Rightarrow> u64" where
  "remaining used limit = (if used \<ge> limit then 0 else limit - used)"

definition remainingConflicts :: "work_budget \<Rightarrow> u64" where
  "remainingConflicts b = remaining (wb_conflicts b) (wb_conflictLimit b)"

definition remainingDecisions :: "work_budget \<Rightarrow> u64" where
  "remainingDecisions b = remaining (wb_decisions b) (wb_decisionLimit b)"

definition remainingTicks :: "work_budget \<Rightarrow> u64" where
  "remainingTicks b = remaining (wb_ticks b) (wb_tickLimit b)"

definition exhausted :: "work_budget \<Rightarrow> bool" where
  "exhausted b = (remainingConflicts b = 0 \<or> remainingDecisions b = 0 \<or> remainingTicks b = 0)"

definition consume :: "u64 \<Rightarrow> u64 \<Rightarrow> u64 \<Rightarrow> work_budget \<Rightarrow> work_budget" where
  "consume c d t b = b\<lparr>
     wb_conflicts := wb_conflicts b + min c (remainingConflicts b),
     wb_decisions := wb_decisions b + min d (remainingDecisions b),
     wb_ticks := wb_ticks b + min t (remainingTicks b) \<rparr>"

definition effectiveCadicalLimit :: "int \<Rightarrow> u64 \<Rightarrow> int" where
  "effectiveCadicalLimit queryLimit remainingBudget =
    (let boundedRemaining = min (uint remainingBudget) 2147483647
     in if queryLimit < 0 then boundedRemaining else min queryLimit boundedRemaining)"

definition cadicalApiLimit :: "int \<Rightarrow> int" where
  "cadicalApiLimit limit = (if limit < 0 then - 1 else min limit 2147483647)"

text \<open>The increase of a statistics counter during one query.\<close>

definition counterDelta :: "int \<Rightarrow> int \<Rightarrow> u64" where
  "counterDelta before after = (if after > before then word_of_int (after - before) else 0)"


section \<open>Literals and models\<close>

datatype solver_type = KISSAT | GLUCOSE | CADICAL
datatype solve_status = Sat | Unsat | Unknown

primrec solverName :: "solver_type \<Rightarrow> string" where
  "solverName KISSAT = ''Kissat''"
| "solverName GLUCOSE = ''Glucose''"
| "solverName CADICAL = ''CaDiCaL''"

text \<open>The wrapper's convention: \<open>0\<close> and \<open>1\<close> are constants, a variable \<open>v\<close> is \<open>\<plusminus>(v + 2)\<close>; the
  back ends take \<open>\<plusminus>(v + 1)\<close>.\<close>

type_synonym assignment = "nat \<Rightarrow> bool"

definition litVar :: "int \<Rightarrow> nat" where
  "litVar l = nat (\<bar>l\<bar> - 2)"

definition litTrue :: "assignment \<Rightarrow> int \<Rightarrow> bool" where
  "litTrue M l = (if l > 0 then M (litVar l) else \<not> M (litVar l))"

definition validLit :: "int \<Rightarrow> bool" where
  "validLit l = (2 \<le> \<bar>l\<bar>)"

lemma validLit_uminus [simp]: "validLit (- l) = validLit l"
  by (simp add: validLit_def)

lemma litVar_uminus [simp]: "litVar (- l) = litVar l"
  by (simp add: litVar_def)

lemma litTrue_uminus [simp]: "validLit l \<Longrightarrow> litTrue M (- l) = (\<not> litTrue M l)"
  by (auto simp: litTrue_def validLit_def)

lemma validLit_nonzero: "validLit l \<Longrightarrow> l \<noteq> 0"
  by (auto simp: validLit_def)

text \<open>The literal handed to the back end.\<close>

definition internalLit :: "int \<Rightarrow> int" where
  "internalLit l = (let var = \<bar>l\<bar> - 2 in if l > 0 then var + 1 else - (var + 1))"

definition internalTrue :: "assignment \<Rightarrow> int \<Rightarrow> bool" where
  "internalTrue M k = (if k > 0 then M (nat (k - 1)) else \<not> M (nat (- k - 1)))"

lemma internalTrue_internalLit [simp]: "validLit l \<Longrightarrow> internalTrue M (internalLit l) = litTrue M l"
  by (auto simp: internalTrue_def internalLit_def litTrue_def litVar_def validLit_def Let_def nat_diff_distrib
      intro!: arg_cong [where f = M])

section \<open>The wrapper's state\<close>

record solver =
  sv_type :: solver_type
  sv_vars :: nat
  sv_reserved :: nat
  sv_clauses :: "int list list"
  sv_kissatLimits :: "int \<times> int"
  sv_budget :: "work_budget option"

definition newSolver :: "solver_type \<Rightarrow> solver" where
  "newSolver t = \<lparr> sv_type = t, sv_vars = 0, sv_reserved = 0, sv_clauses = [],
     sv_kissatLimits = (- 1, - 1), sv_budget = None \<rparr>"

text \<open>Reservations grow by half, at least by 4096, after the first one; Glucose ignores them.\<close>

definition reserveVars :: "nat \<Rightarrow> solver \<Rightarrow> solver" where
  "reserveVars n s =
    (if sv_type s = GLUCOSE \<or> n \<le> sv_reserved s then s
     else let current = sv_reserved s;
              growthSlack = max (current div 2) 4096;
              target = (if current = 0 then n else max n (current + growthSlack))
          in s\<lparr> sv_reserved := target \<rparr>)"

definition reserveAdditionalVars :: "nat \<Rightarrow> solver \<Rightarrow> solver" where
  "reserveAdditionalVars n s =
    (if sv_type s = GLUCOSE then s else reserveVars (sv_vars s + n) s)"

definition newVar :: "solver \<Rightarrow> nat \<times> solver" where
  "newVar s =
    (let s' = reserveVars (sv_vars s + 1) s in (sv_vars s', s'\<lparr> sv_vars := sv_vars s' + 1 \<rparr>))"

text \<open>A literal of a clause or of an assumption (\<open>what\<close> is the end of the message): a variable
  beyond the counter raises it, and CaDiCaL also reserves up to it.\<close>

definition checkLit :: "string \<Rightarrow> int \<Rightarrow> solver \<Rightarrow> error + int \<times> solver" where
  "checkLit what l s =
    (if l = 0 \<or> l = 1
     then Inl (Runtime_Error (''Constant literal (0/1) passed '' @ what))
     else let var = \<bar>l\<bar> - 2 in
       if var < 0 then Inl (Runtime_Error (''Invalid literal (<2) passed '' @ what))
       else if int (sv_vars s) \<le> var
       then let s' = s\<lparr> sv_vars := nat var + 1 \<rparr> in
         Inr (internalLit l, if sv_type s = CADICAL then reserveVars (sv_vars s') s' else s')
       else Inr (internalLit l, s))"

definition checkLits :: "string \<Rightarrow> int list \<Rightarrow> solver \<Rightarrow> error + int list \<times> solver" where
  "checkLits what lits s =
    foldE (\<lambda>l (ks, s'). bindE (checkLit what l s') (\<lambda>(k, s''). Inr (ks @ [k], s''))) lits ([], s)"

text \<open>The literals of a clause are checked and handed over one by one.\<close>

definition addClause :: "int list \<Rightarrow> solver \<Rightarrow> error + solver" where
  "addClause lits s = bindE (checkLits (''to '' @ solverName (sv_type s) @ '' clause'') lits s)
     (\<lambda>(ks, s'). Inr (s'\<lparr> sv_clauses := sv_clauses s' @ [ks] \<rparr>))"

definition satisfies :: "assignment \<Rightarrow> int list list \<Rightarrow> bool" where
  "satisfies M cnf = (\<forall>c \<in> set cnf. \<exists>k \<in> set c. internalTrue M k)"

definition models :: "assignment \<Rightarrow> solver \<Rightarrow> bool" where
  "models M s = satisfies M (sv_clauses s)"

definition litsBelow :: "nat \<Rightarrow> int list \<Rightarrow> bool" where
  "litsBelow n lits = (\<forall>l \<in> set lits. validLit l \<and> litVar l < n)"

text \<open>Every clause speaks about variables that exist.\<close>

definition solverInv :: "solver \<Rightarrow> bool" where
  "solverInv s = (\<forall>c \<in> set (sv_clauses s). \<forall>k \<in> set c. k \<noteq> 0 \<and> nat (\<bar>k\<bar> - 1) < sv_vars s)"

lemma reserveVars_fields [simp]:
  "sv_vars (reserveVars n s) = sv_vars s" "sv_clauses (reserveVars n s) = sv_clauses s"
  "sv_type (reserveVars n s) = sv_type s" "sv_kissatLimits (reserveVars n s) = sv_kissatLimits s"
  by (simp_all add: reserveVars_def Let_def)

lemma reserveAdditionalVars_fields [simp]:
  "sv_vars (reserveAdditionalVars n s) = sv_vars s"
  "sv_clauses (reserveAdditionalVars n s) = sv_clauses s"
  "sv_type (reserveAdditionalVars n s) = sv_type s"
  "sv_kissatLimits (reserveAdditionalVars n s) = sv_kissatLimits s"
  by (simp_all add: reserveAdditionalVars_def)

lemma newVar_fields [simp]:
  "fst (newVar s) = sv_vars s" "sv_vars (snd (newVar s)) = Suc (sv_vars s)"
  "sv_clauses (snd (newVar s)) = sv_clauses s"
  "sv_type (snd (newVar s)) = sv_type s" "sv_kissatLimits (snd (newVar s)) = sv_kissatLimits s"
  by (simp_all add: newVar_def Let_def)

lemma checkLits_steps:
  assumes "litsBelow (sv_vars s) lits"
  shows "foldE (\<lambda>l (ks, s'). bindE (checkLit what l s') (\<lambda>(k, s''). Inr (ks @ [k], s''))) lits (ks, s) =
    Inr (ks @ map internalLit lits, s)"
  using assms
proof (induction lits arbitrary: ks)
  case (Cons l lits)
  then have l: "validLit l" "litVar l < sv_vars s" by (auto simp: litsBelow_def)
  then have "checkLit what l s = Inr (internalLit l, s)"
    by (auto simp: checkLit_def validLit_def litVar_def Let_def)
  moreover have "litsBelow (sv_vars s) lits" using Cons.prems by (simp add: litsBelow_def)
  ultimately show ?case using Cons.IH [of "ks @ [internalLit l]"] by simp
qed simp

lemma checkLits_ok: "litsBelow (sv_vars s) lits \<Longrightarrow> checkLits what lits s = Inr (map internalLit lits, s)"
  by (simp add: checkLits_def checkLits_steps)

lemma addClause_ok:
  "litsBelow (sv_vars s) lits \<Longrightarrow>
   addClause lits s = Inr (s\<lparr> sv_clauses := sv_clauses s @ [map internalLit lits] \<rparr>)"
  by (simp add: addClause_def checkLits_ok)

lemma models_addClause [simp]:
  "litsBelow n lits \<Longrightarrow> models M (s\<lparr> sv_clauses := sv_clauses s @ [map internalLit lits] \<rparr>) =
    (models M s \<and> (\<exists>l \<in> set lits. litTrue M l))"
  by (auto simp: models_def satisfies_def litsBelow_def)

lemma solverInv_addClause:
  "solverInv s \<Longrightarrow> litsBelow (sv_vars s) lits \<Longrightarrow>
   solverInv (s\<lparr> sv_clauses := sv_clauses s @ [map internalLit lits] \<rparr>)"
  by (auto simp: solverInv_def litsBelow_def validLit_def litVar_def internalLit_def Let_def)

lemma models_cong:
  assumes "solverInv s" "\<And>v. v < sv_vars s \<Longrightarrow> M v = M' v"
  shows "models M s = models M' s"
proof -
  have "internalTrue M k = internalTrue M' k" if "c \<in> set (sv_clauses s)" "k \<in> set c" for c k
  proof -
    have k: "k \<noteq> 0" "nat (\<bar>k\<bar> - 1) < sv_vars s" using assms(1) that by (auto simp: solverInv_def)
    show ?thesis
    proof (cases "k > 0")
      case True
      then show ?thesis using k assms(2) [of "nat (k - 1)"] by (simp add: internalTrue_def)
    next
      case False
      then show ?thesis using k assms(2) [of "nat (- k - 1)"] by (simp add: internalTrue_def)
    qed
  qed
  then show ?thesis by (auto simp: models_def satisfies_def)
qed

lemma litTrue_cong: "M (litVar l) = M' (litVar l) \<Longrightarrow> litTrue M l = litTrue M' l"
  by (simp add: litTrue_def)

section \<open>Answers of the back end\<close>

text \<open>
  \<open>kissat_solve\<close> and the CaDiCaL \<open>solve\<close> answer 10 (satisfiable), 20 (unsatisfiable) or
  something else; Glucose's \<open>solve\<close> answers a Boolean and its \<open>solveLimited\<close> 0 (true), 1 (false)
  or 2 (undefined).  A negative limit is no limit.  CaDiCaL also reports its statistics
  (conflicts, decisions, ticks) before and after the query.  \<open>be_value\<close> is the value of a
  variable in the model of the last satisfiable query (0: unassigned).
\<close>

type_synonym stats = "int \<times> int \<times> int"

record backend =
  be_glucose :: "int list list \<Rightarrow> int list \<Rightarrow> bool"
  be_glucoseLimited :: "int \<times> int \<Rightarrow> int list list \<Rightarrow> int list \<Rightarrow> int"
  be_kissat :: "int \<times> int \<Rightarrow> int list list \<Rightarrow> int"
  be_cadical :: "stats \<Rightarrow> int list list \<Rightarrow> int list \<Rightarrow> int \<times> stats \<times> stats"
  be_value :: "int list list \<Rightarrow> int list \<Rightarrow> nat \<Rightarrow> int"

definition answerStatus :: "int \<Rightarrow> solve_status" where
  "answerStatus r = (if r = 10 then Sat else if r = 20 then Unsat else Unknown)"

definition glucoseStatus :: "int \<Rightarrow> solve_status" where
  "glucoseStatus r = (if r = 0 then Sat else if r = 1 then Unsat else Unknown)"

text \<open>One CaDiCaL query, with the budget when the caller asks for the cumulative one.\<close>

definition solveCadicalWithResourceLimits :: "backend \<Rightarrow> int list \<Rightarrow> int \<Rightarrow> int \<Rightarrow> int \<Rightarrow> bool \<Rightarrow>
    solver \<Rightarrow> solve_status \<times> solver" where
  "solveCadicalWithResourceLimits B as conflictLimit decisionLimit tickLimit useCumulativeBudget s =
    (case (if useCumulativeBudget then sv_budget s else None) of
       None \<Rightarrow>
         (case be_cadical B (cadicalApiLimit conflictLimit, cadicalApiLimit decisionLimit,
             cadicalApiLimit tickLimit) (sv_clauses s) as of
            (result, _, _) \<Rightarrow> (answerStatus result, s))
     | Some b \<Rightarrow>
         if exhausted b then (Unknown, s)
         else
           (case be_cadical B
               (cadicalApiLimit (effectiveCadicalLimit conflictLimit (remainingConflicts b)),
                cadicalApiLimit (effectiveCadicalLimit decisionLimit (remainingDecisions b)),
                cadicalApiLimit (effectiveCadicalLimit tickLimit (remainingTicks b))) (sv_clauses s) as of
              (result, (c0, d0, t0), (c1, d1, t1)) \<Rightarrow>
                (answerStatus result,
                 s\<lparr> sv_budget :=
                   Some (consume (counterDelta c0 c1) (counterDelta d0 d1) (counterDelta t0 t1) b) \<rparr>)))"

definition solveStatus :: "backend \<Rightarrow> solver \<Rightarrow> solve_status" where
  "solveStatus B s =
    (case sv_type s of
       GLUCOSE \<Rightarrow> if be_glucose B (sv_clauses s) [] then Sat else Unsat
     | KISSAT \<Rightarrow> answerStatus (be_kissat B (sv_kissatLimits s) (sv_clauses s))
     | CADICAL \<Rightarrow> fst (solveCadicalWithResourceLimits B [] (- 1) (- 1) (- 1) False s))"

definition solve :: "backend \<Rightarrow> solver \<Rightarrow> bool" where
  "solve B s = (solveStatus B s = Sat)"

text \<open>\<open>unsigned\<close> limits: the largest value is no limit.\<close>

definition unsignedLimit :: "32 word \<Rightarrow> int \<Rightarrow> int" where
  "unsignedLimit limit otherwise = (if limit \<noteq> - 1 then uint limit else otherwise)"

definition solveWithKissatResourceLimits :: "backend \<Rightarrow> 32 word \<Rightarrow> 32 word \<Rightarrow> solver \<Rightarrow>
    error + solve_status \<times> solver" where
  "solveWithKissatResourceLimits B conflictLimit decisionLimit s =
    (if sv_type s \<noteq> KISSAT
     then Inl (Runtime_Error ''Kissat resource limits requested for non-Kissat solver'')
     else let s' = s\<lparr> sv_kissatLimits := (unsignedLimit conflictLimit (fst (sv_kissatLimits s)),
                unsignedLimit decisionLimit (snd (sv_kissatLimits s))) \<rparr>
          in Inr (solveStatus B s', s'))"

definition solveWithResourceLimits :: "backend \<Rightarrow> 32 word \<Rightarrow> 32 word \<Rightarrow> solver \<Rightarrow>
    error + solve_status \<times> solver" where
  "solveWithResourceLimits B conflictLimit decisionLimit s =
    (case sv_type s of
       KISSAT \<Rightarrow> solveWithKissatResourceLimits B conflictLimit decisionLimit s
     | CADICAL \<Rightarrow> Inr (solveCadicalWithResourceLimits B [] (unsignedLimit conflictLimit (- 1))
         (unsignedLimit decisionLimit (- 1)) (- 1) True s)
     | GLUCOSE \<Rightarrow> Inr (glucoseStatus (be_glucoseLimited B
         (unsignedLimit conflictLimit (- 1), unsignedLimit decisionLimit (- 1)) (sv_clauses s) []), s))"

text \<open>Assumptions: Kissat has none; the check of the literals is that of clauses.\<close>

definition solveWithAssumptionsStatus :: "backend \<Rightarrow> int list \<Rightarrow> int \<Rightarrow> int \<Rightarrow> int \<Rightarrow> solver \<Rightarrow>
    error + solve_status \<times> solver" where
  "solveWithAssumptionsStatus B lits conflictLimit propagationLimit tickLimit s =
    (case sv_type s of
       GLUCOSE \<Rightarrow> bindE (checkLits ''as Glucose assumption'' lits s) (\<lambda>(ks, s').
         if conflictLimit \<ge> 0 \<or> propagationLimit \<ge> 0
         then Inr (glucoseStatus (be_glucoseLimited B (max conflictLimit (- 1), max propagationLimit (- 1))
                (sv_clauses s') ks), s')
         else Inr (if be_glucose B (sv_clauses s') ks then Sat else Unsat, s'))
     | KISSAT \<Rightarrow>
         if lits = [] then Inr (solveStatus B s, s)
         else Inl (Runtime_Error ''Kissat assumptions are not available in this build'')
     | CADICAL \<Rightarrow>
         let useCumulativeBudget = (conflictLimit \<ge> 0 \<or> propagationLimit \<ge> 0 \<or> tickLimit \<ge> 0) in
         if useCumulativeBudget \<and> (case sv_budget s of None \<Rightarrow> False | Some b \<Rightarrow> exhausted b)
         then Inr (Unknown, s)
         else bindE (checkLits ''as CaDiCaL assumption'' lits s) (\<lambda>(ks, s').
           Inr (solveCadicalWithResourceLimits B ks conflictLimit propagationLimit tickLimit
             useCumulativeBudget s')))"

definition solveWithAssumptions :: "backend \<Rightarrow> int list \<Rightarrow> solver \<Rightarrow> error + bool \<times> solver" where
  "solveWithAssumptions B lits s = bindE (solveWithAssumptionsStatus B lits (- 1) (- 1) (- 1) s)
     (\<lambda>(st, s'). Inr (st = Sat, s'))"

text \<open>The value of a literal after a satisfiable query with the internal assumptions \<open>as\<close>.\<close>

definition getLiteralValue :: "backend \<Rightarrow> int list \<Rightarrow> int \<Rightarrow> solver \<Rightarrow> error + bool" where
  "getLiteralValue B as l s =
    (if l = 0 then Inr False
     else if l = 1 then Inr True
     else let var = \<bar>l\<bar> - 2 in
       if var < 0 then Inl (Runtime_Error ''Invalid literal passed to getLiteralValue'')
       else let positiveValue = be_value B (sv_clauses s) as (nat var) > 0
            in Inr (if l > 0 then positiveValue else \<not> positiveValue))"

section \<open>The contract of the back ends\<close>

definition backendModel :: "backend \<Rightarrow> int list list \<Rightarrow> int list \<Rightarrow> assignment" where
  "backendModel B cnf as = (\<lambda>v. be_value B cnf as v > 0)"

definition holdsUnder :: "int list list \<Rightarrow> int list \<Rightarrow> assignment \<Rightarrow> bool" where
  "holdsUnder cnf as M = (satisfies M cnf \<and> (\<forall>k \<in> set as. internalTrue M k))"

definition satisfiableUnder :: "int list list \<Rightarrow> int list \<Rightarrow> bool" where
  "satisfiableUnder cnf as = (\<exists>M. holdsUnder cnf as M)"

definition soundStatus :: "int list list \<Rightarrow> int list \<Rightarrow> solve_status \<Rightarrow> bool" where
  "soundStatus cnf as st = ((st = Sat \<longrightarrow> satisfiableUnder cnf as) \<and> (st = Unsat \<longrightarrow> \<not> satisfiableUnder cnf as))"

definition soundBackend :: "backend \<Rightarrow> bool" where
  "soundBackend B = (\<forall>cnf as.
     be_glucose B cnf as = satisfiableUnder cnf as \<and>
     (\<forall>limits. soundStatus cnf as (glucoseStatus (be_glucoseLimited B limits cnf as))) \<and>
     (\<forall>limits. soundStatus cnf [] (answerStatus (be_kissat B limits cnf))) \<and>
     (\<forall>limits. soundStatus cnf as (answerStatus (fst (be_cadical B limits cnf as)))) \<and>
     (satisfiableUnder cnf as \<longrightarrow> holdsUnder cnf as (backendModel B cnf as)))"

text \<open>A query without limits is decided.\<close>

definition completeBackend :: "backend \<Rightarrow> bool" where
  "completeBackend B = (\<forall>cnf as.
     answerStatus (be_kissat B (- 1, - 1) cnf) \<noteq> Unknown \<and>
     answerStatus (fst (be_cadical B (- 1, - 1, - 1) cnf as)) \<noteq> Unknown)"

lemma satisfiableUnder_models: "satisfiableUnder (sv_clauses s) [] = (\<exists>M. models M s)"
  by (simp add: satisfiableUnder_def holdsUnder_def models_def)

lemma soundStatusD:
  "soundStatus (sv_clauses s) [] Sat \<Longrightarrow> \<exists>M. models M s"
  "soundStatus (sv_clauses s) [] Unsat \<Longrightarrow> \<not> models M s"
  by (auto simp: soundStatus_def satisfiableUnder_models)

lemma solveCadical_sound:
  assumes "soundBackend B"
  shows "soundStatus (sv_clauses s) as (fst (solveCadicalWithResourceLimits B as c d t u s))"
proof -
  have *: "soundStatus (sv_clauses s) as (answerStatus (fst (be_cadical B limits (sv_clauses s) as)))" for limits
    using assms by (simp add: soundBackend_def)
  have "soundStatus (sv_clauses s) as Unknown" by (simp add: soundStatus_def)
  then show ?thesis
    using * unfolding solveCadicalWithResourceLimits_def
    by (auto split: option.splits prod.splits) (metis fst_conv)+
qed

lemma solveStatus_sound:
  assumes "soundBackend B"
  shows "soundStatus (sv_clauses s) [] (solveStatus B s)"
proof (cases "sv_type s")
  case KISSAT
  then show ?thesis using assms by (simp add: solveStatus_def soundBackend_def)
next
  case GLUCOSE
  then show ?thesis using assms by (simp add: solveStatus_def soundBackend_def soundStatus_def)
next
  case CADICAL
  then show ?thesis using solveCadical_sound [OF assms] by (simp add: solveStatus_def)
qed

lemma solveStatus_unsat: "soundBackend B \<Longrightarrow> solveStatus B s = Unsat \<Longrightarrow> \<not> models M s"
  using solveStatus_sound [of B s] soundStatusD(2) by simp

lemma solveStatus_sat: "soundBackend B \<Longrightarrow> solveStatus B s = Sat \<Longrightarrow> \<exists>M. models M s"
  using solveStatus_sound [of B s] soundStatusD(1) by simp

lemma solveStatus_decides:
  assumes "completeBackend B" "sv_kissatLimits s = (- 1, - 1)"
  shows "solveStatus B s \<noteq> Unknown"
proof (cases "sv_type s")
  case KISSAT
  then show ?thesis using assms by (simp add: completeBackend_def solveStatus_def)
next
  case CADICAL
  obtain r st where r: "be_cadical B (- 1, - 1, - 1) (sv_clauses s) [] = (r, st)" by fastforce
  then have "answerStatus r \<noteq> Unknown" using assms(1) unfolding completeBackend_def by (metis fst_conv)
  then show ?thesis using CADICAL r
    by (simp add: solveStatus_def solveCadicalWithResourceLimits_def cadicalApiLimit_def split: prod.split)
qed (simp add: solveStatus_def)

lemma solve_iff:
  assumes "soundBackend B" "completeBackend B" "sv_kissatLimits s = (- 1, - 1)"
  shows "solve B s \<longleftrightarrow> (\<exists>M. models M s)"
proof (cases "solveStatus B s")
  case Sat
  then show ?thesis using solveStatus_sat [OF assms(1)] by (auto simp: solve_def)
next
  case Unsat
  then show ?thesis using solveStatus_unsat [OF assms(1)] by (auto simp: solve_def)
next
  case Unknown
  then show ?thesis using solveStatus_decides [OF assms(2,3)] by simp
qed

lemma checkLit_clauses: "checkLit what l s = Inr (k, s') \<Longrightarrow> sv_clauses s' = sv_clauses s"
  by (auto simp: checkLit_def Let_def split: if_splits)

lemma checkLits_clauses: "checkLits what lits s = Inr (ks, s') \<Longrightarrow> sv_clauses s' = sv_clauses s"
  unfolding checkLits_def
  by (drule foldE_invariant [where P = "\<lambda>(_, u). sv_clauses u = sv_clauses s"])
    (auto simp: bindE_Inr_iff checkLit_clauses)

end
