(* ===== verification/Sat_Gates.thy ===== *)
theory Sat_Gates
  imports Sat_Solver
begin

text \<open>
  Literals defined by clauses (\<open>sec/kinduction/SatEncoding.cpp\<close>): fresh solver literals,
  equivalences, XOR gates, and what a definition does to the models of a solver.  A solver
  \<open>s'\<close> extends \<open>s\<close> conservatively when it keeps the variables and clauses of \<open>s\<close> and every
  model of \<open>s\<close> is, up to the new variables, a model of \<open>s'\<close>.
\<close>

section \<open>Fresh literals and clause groups\<close>

definition newSolverLiteral :: "solver \<Rightarrow> int \<times> solver" where
  "newSolverLiteral s = (case newVar s of (v, s') \<Rightarrow> (int v + 2, s'))"

definition addClauses :: "int list list \<Rightarrow> solver \<Rightarrow> error + solver" where
  "addClauses cs s = foldE addClause cs s"

definition addLiteralEquivalence :: "int \<Rightarrow> int \<Rightarrow> solver \<Rightarrow> error + solver" where
  "addLiteralEquivalence lhs rhs s = addClauses [[- lhs, rhs], [lhs, - rhs]] s"

definition xorClauses :: "int \<Rightarrow> int \<Rightarrow> int \<Rightarrow> int list list" where
  "xorClauses lhs rhs lit =
    [[- lit, - lhs, - rhs], [- lit, lhs, rhs], [lit, - lhs, rhs], [lit, lhs, - rhs]]"

definition createXorLiteral :: "int \<Rightarrow> int \<Rightarrow> solver \<Rightarrow> error + int \<times> solver" where
  "createXorLiteral lhs rhs s = (case newSolverLiteral s of (lit, s') \<Rightarrow>
     bindE (addClauses (xorClauses lhs rhs lit) s') (\<lambda>s''. Inr (lit, s'')))"

definition clauseTrue :: "assignment \<Rightarrow> int list \<Rightarrow> bool" where
  "clauseTrue M c = (\<exists>l \<in> set c. litTrue M l)"

lemma clauseTrue_simps [simp]:
  "clauseTrue M [] = False" "clauseTrue M (l # c) = (litTrue M l \<or> clauseTrue M c)"
  by (auto simp: clauseTrue_def)

definition litBelow :: "nat \<Rightarrow> int \<Rightarrow> bool" where
  "litBelow n l = (validLit l \<and> litVar l < n)"

lemma litsBelow_simps [simp]:
  "litsBelow n []" "litsBelow n (l # ls) = (litBelow n l \<and> litsBelow n ls)"
  by (auto simp: litsBelow_def litBelow_def)

lemma litsBelow_all: "litsBelow n ls = (\<forall>l \<in> set ls. litBelow n l)"
  by (simp add: litsBelow_def litBelow_def)

lemma litBelow_uminus [simp]: "litBelow n (- l) = litBelow n l"
  by (simp add: litBelow_def)

lemma litBelow_mono: "litBelow n l \<Longrightarrow> n \<le> m \<Longrightarrow> litBelow m l"
  by (simp add: litBelow_def)

lemma litTrue_below: "litBelow n l \<Longrightarrow> (\<And>v. v < n \<Longrightarrow> M v = M' v) \<Longrightarrow> litTrue M l = litTrue M' l"
  by (rule litTrue_cong) (simp add: litBelow_def)

lemma litTrue_neg [simp]: "litBelow n l \<Longrightarrow> litTrue M (- l) = (\<not> litTrue M l)"
  by (simp add: litBelow_def)

section \<open>Conservative extensions\<close>

definition agreeBelow :: "nat \<Rightarrow> assignment \<Rightarrow> assignment \<Rightarrow> bool" where
  "agreeBelow n M M' = (\<forall>v < n. M v = M' v)"

definition sameBackend :: "solver \<Rightarrow> solver \<Rightarrow> bool" where
  "sameBackend s s' = (sv_type s' = sv_type s \<and> sv_kissatLimits s' = sv_kissatLimits s)"

lemma sameBackend_refl [simp]: "sameBackend s s"
  by (simp add: sameBackend_def)

lemma sameBackend_trans: "sameBackend a b \<Longrightarrow> sameBackend b c \<Longrightarrow> sameBackend a c"
  by (simp add: sameBackend_def)

definition conservative :: "solver \<Rightarrow> solver \<Rightarrow> bool" where
  "conservative s s' = (sameBackend s s' \<and> sv_vars s \<le> sv_vars s' \<and> (\<forall>M. models M s' \<longrightarrow> models M s) \<and>
     (\<forall>M. models M s \<longrightarrow> (\<exists>M'. models M' s' \<and> agreeBelow (sv_vars s) M M')))"

lemma agree_litTrue: "litBelow n l \<Longrightarrow> agreeBelow n M M' \<Longrightarrow> litTrue M l = litTrue M' l"
  by (rule litTrue_below) (auto simp: agreeBelow_def)

lemma conservative_refl [simp]: "conservative s s"
  by (auto simp: conservative_def agreeBelow_def)

lemma conservative_trans:
  assumes "conservative a b" "conservative b c"
  shows "conservative a c"
proof -
  have "\<exists>M''. models M'' c \<and> agreeBelow (sv_vars a) M M''" if a: "models M a" for M
  proof -
    obtain M' where 1: "models M' b" "agreeBelow (sv_vars a) M M'"
      using assms(1) a unfolding conservative_def by blast
    obtain M'' where 2: "models M'' c" "agreeBelow (sv_vars b) M' M''"
      using assms(2) 1(1) unfolding conservative_def by blast
    have "sv_vars a \<le> sv_vars b" using assms(1) unfolding conservative_def by blast
    then have "agreeBelow (sv_vars a) M M''" using 1(2) 2(2) by (simp add: agreeBelow_def)
    then show ?thesis using 2(1) by blast
  qed
  then show ?thesis using assms unfolding conservative_def by (meson le_trans sameBackend_trans)
qed

lemma conservative_models: "conservative s s' \<Longrightarrow> models M s' \<Longrightarrow> models M s"
  by (simp add: conservative_def)

lemma conservative_vars: "conservative s s' \<Longrightarrow> sv_vars s \<le> sv_vars s'"
  by (simp add: conservative_def)

lemma conservative_extend:
  assumes "conservative s s'" "models M s"
  obtains M' where "models M' s'" "\<And>v. v < sv_vars s \<Longrightarrow> M' v = M v"
  using assms unfolding conservative_def agreeBelow_def by metis

section \<open>What clauses and fresh literals do\<close>

lemma addClauses_ok:
  assumes "\<And>c. c \<in> set cs \<Longrightarrow> litsBelow (sv_vars s) c"
  shows "\<exists>s'. addClauses cs s = Inr s' \<and> sameBackend s s' \<and> sv_vars s' = sv_vars s \<and> (solverInv s \<longrightarrow> solverInv s') \<and>
    (\<forall>M. models M s' = (models M s \<and> (\<forall>c \<in> set cs. clauseTrue M c)))"
  using assms unfolding addClauses_def
proof (induction cs arbitrary: s)
  case (Cons c cs)
  let ?s = "s\<lparr> sv_clauses := sv_clauses s @ [map internalLit c] \<rparr>"
  have below: "litsBelow (sv_vars s) c" using Cons.prems by simp
  obtain s' where s': "foldE addClause cs ?s = Inr s'" "sameBackend ?s s'" "sv_vars s' = sv_vars ?s"
    "solverInv ?s \<longrightarrow> solverInv s'"
    "\<forall>M. models M s' = (models M ?s \<and> (\<forall>c \<in> set cs. clauseTrue M c))"
    using Cons.IH [of ?s] Cons.prems by auto
  have step: "addClause c s = Inr ?s" by (rule addClause_ok [OF below])
  have mod: "models M ?s = (models M s \<and> clauseTrue M c)" for M
    using models_addClause [OF below] by (simp add: clauseTrue_def)
  have inv: "solverInv s \<longrightarrow> solverInv ?s" using solverInv_addClause below by blast
  have "sameBackend s s'" using s'(2) by (simp add: sameBackend_def)
  then show ?case using s' step mod inv by (intro exI [of _ s']) auto
qed simp

lemma newSolverLiteral_fields:
  assumes "newSolverLiteral s = (lit, s')"
  shows "lit = int (sv_vars s) + 2" "sv_vars s' = Suc (sv_vars s)" "sv_clauses s' = sv_clauses s"
    "litVar lit = sv_vars s" "litBelow (sv_vars s') lit" "models M s' = models M s"
    "litTrue M lit = M (sv_vars s)" "sameBackend s s'"
proof -
  obtain v u where v: "newVar s = (v, u)" by fastforce
  then have u: "v = sv_vars s" "sv_vars u = Suc (sv_vars s)" "sv_clauses u = sv_clauses s" "sameBackend s u"
    using newVar_fields [of s] by (simp_all add: sameBackend_def)
  have lit: "lit = int (sv_vars s) + 2" "s' = u" using assms v u by (auto simp: newSolverLiteral_def)
  have var: "litVar (int (sv_vars s) + 2) = sv_vars s" by (simp add: litVar_def)
  show "lit = int (sv_vars s) + 2" "sv_vars s' = Suc (sv_vars s)" "sv_clauses s' = sv_clauses s"
    "litVar lit = sv_vars s" "litBelow (sv_vars s') lit" "models M s' = models M s"
    "litTrue M lit = M (sv_vars s)" "sameBackend s s'"
    using lit u var by (simp_all add: litBelow_def validLit_def models_def litTrue_def)
qed

lemma solverInv_mono: "solverInv s \<Longrightarrow> sv_clauses s' = sv_clauses s \<Longrightarrow> sv_vars s \<le> sv_vars s' \<Longrightarrow> solverInv s'"
  by (fastforce simp: solverInv_def)

lemma newSolverLiteral_conservative:
  assumes "newSolverLiteral s = (lit, s')"
  shows "conservative s s'" "solverInv s \<Longrightarrow> solverInv s'"
  using newSolverLiteral_fields [OF assms] solverInv_mono [of s s']
  by (auto simp: conservative_def agreeBelow_def)

text \<open>A literal defined by clauses that say it is \<open>g\<close>, where \<open>g\<close> reads older variables only.\<close>

lemma define_literal:
  assumes inv: "solverInv s" and lit: "newSolverLiteral s = (lit, s')"
    and below: "\<And>c. c \<in> set cs \<Longrightarrow> litsBelow (sv_vars s') c"
    and clauses: "\<And>M. (\<forall>c \<in> set cs. clauseTrue M c) = (litTrue M lit = g M)"
    and old: "\<And>M M'. agreeBelow (sv_vars s) M M' \<Longrightarrow> g M = g M'"
  shows "\<exists>s''. addClauses cs s' = Inr s'' \<and> sv_vars s'' = sv_vars s' \<and> solverInv s'' \<and>
    conservative s s'' \<and> litBelow (sv_vars s'') lit \<and>
    (\<forall>M. models M s'' = (models M s \<and> litTrue M lit = g M))"
proof -
  note fields = newSolverLiteral_fields [OF lit]
  obtain s'' where s'': "addClauses cs s' = Inr s''" "sameBackend s' s''" "sv_vars s'' = sv_vars s'" "solverInv s''"
    "\<And>M. models M s'' = (models M s \<and> litTrue M lit = g M)"
    using addClauses_ok [OF below] newSolverLiteral_conservative(2) [OF lit inv] clauses fields(6) by metis
  have "\<exists>M'. models M' s'' \<and> agreeBelow (sv_vars s) M M'" if M: "models M s" for M
  proof -
    let ?M = "M(sv_vars s := g M)"
    have agree: "agreeBelow (sv_vars s) M ?M" by (simp add: agreeBelow_def)
    moreover have "models ?M s" using models_cong [OF inv, of M ?M] M by simp
    moreover have "litTrue ?M lit = g ?M" using fields(7) [of ?M] old [OF agree] by simp
    ultimately show ?thesis using s''(5) by blast
  qed
  then have "conservative s s''"
    using s'' fields(2) sameBackend_trans [OF fields(8) s''(2)] by (auto simp: conservative_def)
  then show ?thesis using s'' fields(5) by auto
qed

lemma createXorLiteral_ok:
  assumes "solverInv s" "litBelow (sv_vars s) l" "litBelow (sv_vars s) r"
  shows "\<exists>lit s'. createXorLiteral l r s = Inr (lit, s') \<and> solverInv s' \<and> conservative s s' \<and>
    litBelow (sv_vars s') lit \<and>
    (\<forall>M. models M s' = (models M s \<and> litTrue M lit = (litTrue M l \<noteq> litTrue M r)))"
proof -
  obtain lit u where lit: "newSolverLiteral s = (lit, u)" by fastforce
  note fields = newSolverLiteral_fields [OF lit]
  have up: "litBelow (sv_vars u) l" "litBelow (sv_vars u) r"
    using litBelow_mono [OF assms(2), of "sv_vars u"] litBelow_mono [OF assms(3), of "sv_vars u"]
    by (simp_all add: fields(2))
  have "\<exists>s'. addClauses (xorClauses l r lit) u = Inr s' \<and> sv_vars s' = sv_vars u \<and> solverInv s' \<and>
      conservative s s' \<and> litBelow (sv_vars s') lit \<and>
      (\<forall>M. models M s' = (models M s \<and> litTrue M lit = (litTrue M l \<noteq> litTrue M r)))"
  proof (rule define_literal [OF assms(1) lit])
    show "\<And>c. c \<in> set (xorClauses l r lit) \<Longrightarrow> litsBelow (sv_vars u) c"
      using up fields(5) by (auto simp: xorClauses_def)
    show "(\<forall>c \<in> set (xorClauses l r lit). clauseTrue M c) = (litTrue M lit = (litTrue M l \<noteq> litTrue M r))" for M
      using up fields(5) by (auto simp: xorClauses_def)
    show "(litTrue M l \<noteq> litTrue M r) = (litTrue M' l \<noteq> litTrue M' r)" if "agreeBelow (sv_vars s) M M'" for M M'
      using agree_litTrue [OF assms(2) that] agree_litTrue [OF assms(3) that] by simp
  qed
  then show ?thesis by (auto simp: createXorLiteral_def lit)
qed

lemma addLiteralEquivalence_ok:
  assumes "litBelow (sv_vars s) l" "litBelow (sv_vars s) r"
  shows "\<exists>s'. addLiteralEquivalence l r s = Inr s' \<and> sameBackend s s' \<and> sv_vars s' = sv_vars s \<and> (solverInv s \<longrightarrow> solverInv s') \<and>
    (\<forall>M. models M s' = (models M s \<and> litTrue M l = litTrue M r))"
proof -
  have "\<exists>s'. addClauses [[- l, r], [l, - r]] s = Inr s' \<and> sameBackend s s' \<and> sv_vars s' = sv_vars s \<and> (solverInv s \<longrightarrow> solverInv s') \<and>
    (\<forall>M. models M s' = (models M s \<and> (\<forall>c \<in> set [[- l, r], [l, - r]]. clauseTrue M c)))"
    by (rule addClauses_ok) (use assms in auto)
  then show ?thesis using assms unfolding addLiteralEquivalence_def by fastforce
qed

section \<open>Constraints\<close>

text \<open>\<open>s'\<close> is \<open>s\<close> restricted to the models that satisfy \<open>P\<close>, up to new variables.\<close>

definition readsBelow :: "nat \<Rightarrow> (assignment \<Rightarrow> bool) \<Rightarrow> bool" where
  "readsBelow n P = (\<forall>M M'. agreeBelow n M M' \<longrightarrow> P M = P M')"

definition restricts :: "solver \<Rightarrow> solver \<Rightarrow> (assignment \<Rightarrow> bool) \<Rightarrow> bool" where
  "restricts s s' P = (sameBackend s s' \<and> sv_vars s \<le> sv_vars s' \<and> solverInv s' \<and>
     (\<forall>M. models M s' \<longrightarrow> models M s \<and> P M) \<and>
     (\<forall>M. models M s \<and> P M \<longrightarrow> (\<exists>M'. models M' s' \<and> agreeBelow (sv_vars s) M M')))"

lemma readsBelowD: "readsBelow n P \<Longrightarrow> agreeBelow n M M' \<Longrightarrow> P M = P M'"
  by (auto simp: readsBelow_def)

lemma agreeBelow_mono: "agreeBelow n M M' \<Longrightarrow> m \<le> n \<Longrightarrow> agreeBelow m M M'"
  by (simp add: agreeBelow_def)

lemma agreeBelow_trans: "agreeBelow n M M' \<Longrightarrow> agreeBelow n M' M'' \<Longrightarrow> agreeBelow n M M''"
  by (simp add: agreeBelow_def)

lemma readsBelow_litTrue: "litBelow n l \<Longrightarrow> readsBelow n (\<lambda>M. litTrue M l)"
  by (auto simp: readsBelow_def dest: agree_litTrue)

lemma restricts_refl: "solverInv s \<Longrightarrow> restricts s s (\<lambda>M. True)"
  by (auto simp: restricts_def agreeBelow_def)

lemma restricts_conservative: "conservative s s' \<Longrightarrow> solverInv s' \<Longrightarrow> restricts s s' (\<lambda>M. True)"
  by (auto simp: restricts_def conservative_def)

lemma restricts_trans:
  assumes ab: "restricts a b P" and bc: "restricts b c Q" and Q: "readsBelow (sv_vars a) Q"
  shows "restricts a c (\<lambda>M. P M \<and> Q M)"
proof -
  have le: "sv_vars a \<le> sv_vars b" "sv_vars b \<le> sv_vars c" using ab bc by (simp_all add: restricts_def)
  have "\<exists>M''. models M'' c \<and> agreeBelow (sv_vars a) M M''" if M: "models M a" "P M" "Q M" for M
  proof -
    obtain M' where 1: "models M' b" "agreeBelow (sv_vars a) M M'"
      using ab M unfolding restricts_def by blast
    then have "Q M'" using readsBelowD [OF Q 1(2)] M by simp
    then obtain M'' where 2: "models M'' c" "agreeBelow (sv_vars b) M' M''"
      using bc 1(1) unfolding restricts_def by blast
    then show ?thesis using agreeBelow_trans [OF 1(2) agreeBelow_mono [OF 2(2) le(1)]] by blast
  qed
  then show ?thesis using ab bc le unfolding restricts_def by (meson le_trans sameBackend_trans)
qed

lemma restricts_weaken: "restricts s s' P \<Longrightarrow> (\<And>M. P M = Q M) \<Longrightarrow> restricts s s' Q"
  by (simp add: restricts_def)

lemma restricts_clause:
  assumes "solverInv s" "litsBelow (sv_vars s) c"
  shows "\<exists>s'. addClause c s = Inr s' \<and> restricts s s' (\<lambda>M. clauseTrue M c) \<and> sv_vars s' = sv_vars s"
  using addClause_ok [OF assms(2)] solverInv_addClause [OF assms] models_addClause [OF assms(2)]
  by (auto simp: restricts_def clauseTrue_def agreeBelow_def sameBackend_def)

lemma foldE_restricts:
  assumes "solverInv s"
    and "\<And>x u. x \<in> set xs \<Longrightarrow> solverInv u \<Longrightarrow> sv_vars s \<le> sv_vars u \<Longrightarrow> \<exists>u'. f x u = Inr u' \<and> restricts u u' (P x)"
    and "\<And>x. x \<in> set xs \<Longrightarrow> readsBelow (sv_vars s) (P x)"
  shows "\<exists>s'. foldE f xs s = Inr s' \<and> restricts s s' (\<lambda>M. \<forall>x \<in> set xs. P x M)"
  using assms
proof (induction xs arbitrary: s)
  case (Cons x xs)
  obtain u where u: "f x s = Inr u" "restricts s u (P x)" using Cons.prems(1,2) by auto
  then have le: "sv_vars s \<le> sv_vars u" "solverInv u" by (simp_all add: restricts_def)
  have reads: "readsBelow (sv_vars u) (P y)" if "y \<in> set xs" for y
    using Cons.prems(3) [of y] that le(1) by (auto simp: readsBelow_def dest: agreeBelow_mono)
  obtain s' where s': "foldE f xs u = Inr s'" "restricts u s' (\<lambda>M. \<forall>y \<in> set xs. P y M)"
    using Cons.IH [OF le(2) _ reads] Cons.prems(2) le(1) by auto
  have "readsBelow (sv_vars s) (\<lambda>M. \<forall>y \<in> set xs. P y M)"
    using Cons.prems(3) unfolding readsBelow_def by (metis list.set_intros(2))
  then have "restricts s s' (\<lambda>M. P x M \<and> (\<forall>y \<in> set xs. P y M))"
    by (rule restricts_trans [OF u(2) s'(2)])
  then show ?case using u(1) s'(1) by (auto intro: restricts_weaken)
qed (simp add: restricts_refl)

end
