(* ===== verification/Frame_Store.thy ===== *)
theory Frame_Store
  imports Sat_Gates "HOL-Library.AList"
begin

text \<open>
  \<open>FrameVariableStore\<close> and the simple-path constraint of \<open>sec/kinduction/SatEncoding.cpp\<close>: one
  solver literal per symbol and time frame, and the clauses that make every two frames differ.
  The unordered map from symbols to the literals of the frames is an association list with
  distinct keys; no result depends on its order.
\<close>

section \<open>The store\<close>

record frame_store =
  fs_numFrames :: nat
  fs_lits :: "(var_id \<times> int list) list"

definition frameLits :: "(var_id \<times> int list) list \<Rightarrow> var_id \<Rightarrow> int list" where
  "frameLits lits symbol = (case map_of lits symbol of None \<Rightarrow> [] | Some ls \<Rightarrow> ls)"

definition reserveSymbol :: "var_id \<Rightarrow> (var_id \<times> int list) list \<Rightarrow> (var_id \<times> int list) list" where
  "reserveSymbol symbol lits = AList.update symbol (frameLits lits symbol) lits"

definition pushLit :: "var_id \<Rightarrow> (var_id \<times> int list) list \<times> solver \<Rightarrow> (var_id \<times> int list) list \<times> solver" where
  "pushLit symbol x = (case x of (lits, s) \<Rightarrow> case newSolverLiteral s of (lit, s') \<Rightarrow>
     (AList.update symbol (frameLits lits symbol @ [lit]) lits, s'))"

definition pushFrames :: "var_id list \<Rightarrow> nat \<Rightarrow> (var_id \<times> int list) list \<times> solver \<Rightarrow>
    (var_id \<times> int list) list \<times> solver" where
  "pushFrames symbols numFrames = fold (\<lambda>_. fold pushLit symbols) [0..<numFrames]"

definition newFrameStore :: "var_id list \<Rightarrow> nat \<Rightarrow> solver \<Rightarrow> frame_store \<times> solver" where
  "newFrameStore symbols numFrames s =
    (let s1 = reserveVars (length symbols * numFrames) s;
         lits = fold reserveSymbol symbols []
     in case pushFrames symbols numFrames (lits, s1) of
          (lits', s2) \<Rightarrow> (\<lparr> fs_numFrames = numFrames, fs_lits = lits' \<rparr>, s2))"

definition addSymbols :: "var_id list \<Rightarrow> frame_store \<Rightarrow> solver \<Rightarrow> frame_store \<times> solver" where
  "addSymbols symbols fs s =
    (case fold (\<lambda>symbol (lits, added).
            if map_of lits symbol \<noteq> None then (lits, added)
            else (reserveSymbol symbol lits, added @ [symbol])) symbols (fs_lits fs, []) of
       (lits, added) \<Rightarrow>
         (case pushFrames added (fs_numFrames fs) (lits, s) of
            (lits', s') \<Rightarrow> (fs\<lparr> fs_lits := lits' \<rparr>, s')))"

definition hasSymbol :: "frame_store \<Rightarrow> var_id \<Rightarrow> bool" where
  "hasSymbol fs symbol = (map_of (fs_lits fs) symbol \<noteq> None)"

definition getLiteral :: "frame_store \<Rightarrow> var_id \<Rightarrow> nat \<Rightarrow> error + int" where
  "getLiteral fs symbol frame =
    (case map_of (fs_lits fs) symbol of
       None \<Rightarrow> Inl (Runtime_Error (''Missing frame variable for symbol '' @ showWord symbol))
     | Some ls \<Rightarrow>
        if length ls \<le> frame
        then Inl (Runtime_Error (''Missing frame variable for symbol '' @ showWord symbol))
        else Inr (ls ! frame))"

text \<open>\<open>makeLeafLits\<close>: the literals of one frame, for all symbols or for some.\<close>

definition makeAllLeafLits :: "frame_store \<Rightarrow> nat \<Rightarrow> error + (var_id \<rightharpoonup> int)" where
  "makeAllLeafLits fs frame =
    foldE (\<lambda>(symbol, ls) leafLits.
        if length ls \<le> frame then Inl (Runtime_Error ''Frame index is out of range'')
        else Inr (emplace symbol (ls ! frame) leafLits)) (fs_lits fs) Map.empty"

definition makeLeafLits :: "frame_store \<Rightarrow> nat \<Rightarrow> var_id list \<Rightarrow> error + (var_id \<rightharpoonup> int)" where
  "makeLeafLits fs frame symbols =
    foldE (\<lambda>symbol leafLits.
        if symbol < 2 then Inr leafLits
        else bindE (getLiteral fs symbol frame) (\<lambda>l. Inr (emplace symbol l leafLits))) symbols Map.empty"

definition makeLeafLitsOfSet :: "frame_store \<Rightarrow> nat \<Rightarrow> var_id set \<Rightarrow> error + (var_id \<rightharpoonup> int)" where
  "makeLeafLitsOfSet fs frame symbols = makeLeafLits fs frame (sorted_list_of_set symbols)"

section \<open>Every symbol and frame has a literal of its own\<close>

definition litAt :: "(var_id \<times> int list) list \<Rightarrow> var_id \<Rightarrow> nat \<Rightarrow> int option" where
  "litAt lits symbol f =
    (if f < length (frameLits lits symbol) then Some (frameLits lits symbol ! f) else None)"

definition ownLits :: "(var_id \<times> int list) list \<Rightarrow> nat \<Rightarrow> bool" where
  "ownLits lits n =
    ((\<forall>x f l. litAt lits x f = Some l \<longrightarrow> litBelow n l \<and> 0 < l) \<and>
     (\<forall>x f y g l. litAt lits x f = Some l \<and> litAt lits y g = Some l \<longrightarrow> x = y \<and> f = g))"

definition storeInv :: "frame_store \<Rightarrow> nat \<Rightarrow> bool" where
  "storeInv fs n = (ownLits (fs_lits fs) n \<and> distinct (map fst (fs_lits fs)) \<and>
     (\<forall>x ls. map_of (fs_lits fs) x = Some ls \<longrightarrow> length ls = fs_numFrames fs))"

lemma frameLits_update [simp]:
  "frameLits (AList.update x ls lits) y = (if y = x then ls else frameLits lits y)"
  by (simp add: frameLits_def update_conv')

lemma frameLits_reserve [simp]: "frameLits (reserveSymbol x lits) = frameLits lits"
  by (rule ext) (simp add: reserveSymbol_def)

lemma dom_reserve [simp]: "dom (map_of (reserveSymbol x lits)) = insert x (dom (map_of lits))"
  by (simp add: reserveSymbol_def update_conv')

lemma litAt_reserve [simp]: "litAt (reserveSymbol x lits) = litAt lits"
  by (intro ext) (simp add: litAt_def)

lemma ownLits_mono: "ownLits lits n \<Longrightarrow> n \<le> m \<Longrightarrow> ownLits lits m"
  unfolding ownLits_def by (meson litBelow_mono)

lemma ownLits_push:
  assumes "ownLits lits (sv_vars s)" "pushLit x (lits, s) = (lits', s')"
  shows "ownLits lits' (sv_vars s') \<and> sv_vars s' = Suc (sv_vars s) \<and> sv_clauses s' = sv_clauses s \<and>
    dom (map_of lits') = insert x (dom (map_of lits)) \<and>
    (\<forall>y. frameLits lits' y = (if y = x then frameLits lits x @ [int (sv_vars s) + 2] else frameLits lits y))"
proof -
  obtain lit u where lit: "newSolverLiteral s = (lit, u)" by fastforce
  note fields = newSolverLiteral_fields [OF lit]
  have s': "s' = u" "lits' = AList.update x (frameLits lits x @ [lit]) lits"
    using assms(2) by (auto simp: pushLit_def lit)
  have at: "litAt lits' y f = (if y = x \<and> f = length (frameLits lits x) then Some lit else litAt lits y f)" for y f
    by (auto simp: s' litAt_def nth_append less_Suc_eq)
  have fresh: "litAt lits y f \<noteq> Some lit" for y f
    using assms(1) fields(4) unfolding ownLits_def litBelow_def by fastforce
  have "litBelow (sv_vars u) l \<and> 0 < l" if "litAt lits' y f = Some l" for y f l
  proof (cases "y = x \<and> f = length (frameLits lits x)")
    case True
    then show ?thesis using that at fields(1,5) by auto
  next
    case False
    then have "litAt lits y f = Some l" using that at by auto
    then show ?thesis using ownLits_mono [OF assms(1), of "sv_vars u"] fields(2) unfolding ownLits_def by simp
  qed
  moreover have "y = z \<and> f = g" if "litAt lits' y f = Some l" "litAt lits' z g = Some l" for y z f g l
  proof -
    have "litAt lits y f = Some l \<Longrightarrow> litAt lits z g = Some l \<Longrightarrow> ?thesis"
      using assms(1) unfolding ownLits_def by blast
    then show ?thesis using that fresh unfolding at by (auto split: if_splits)
  qed
  ultimately have "ownLits lits' (sv_vars u)" unfolding ownLits_def by blast
  then show ?thesis using fields(1-3) by (auto simp: s' update_conv')
qed

lemma distinct_push: "distinct (map fst lits) \<Longrightarrow> pushLit x (lits, s) = (lits', s') \<Longrightarrow> distinct (map fst lits')"
  by (auto simp: pushLit_def distinct_update split: prod.splits)

text \<open>One frame, then all frames.\<close>

definition pushed :: "var_id list \<Rightarrow> nat \<Rightarrow> (var_id \<times> int list) list \<times> solver \<Rightarrow>
    (var_id \<times> int list) list \<times> solver \<Rightarrow> bool" where
  "pushed symbols k x y = (ownLits (fst y) (sv_vars (snd y)) \<and>
     sv_vars (snd y) = sv_vars (snd x) + k * length symbols \<and> sv_clauses (snd y) = sv_clauses (snd x) \<and>
     (k \<noteq> 0 \<longrightarrow> dom (map_of (fst y)) = dom (map_of (fst x)) \<union> set symbols) \<and>
     (k = 0 \<longrightarrow> dom (map_of (fst y)) = dom (map_of (fst x))) \<and>
     (distinct (map fst (fst x)) \<longrightarrow> distinct (map fst (fst y))) \<and>
     (\<forall>z. z \<notin> set symbols \<longrightarrow> frameLits (fst y) z = frameLits (fst x) z) \<and>
     (\<forall>z \<in> set symbols. length (frameLits (fst y) z) = length (frameLits (fst x) z) + k \<and>
        take (length (frameLits (fst x) z)) (frameLits (fst y) z) = frameLits (fst x) z))"

lemma push_frame:
  assumes "ownLits lits (sv_vars s)" "distinct symbols"
  shows "pushed symbols 1 (lits, s) (fold pushLit symbols (lits, s))"
  using assms
proof (induction symbols arbitrary: lits s)
  case (Cons x symbols)
  obtain lits1 s1 where p: "pushLit x (lits, s) = (lits1, s1)" by fastforce
  note step = ownLits_push [OF Cons.prems(1) p] distinct_push [OF _ p]
  have IH: "pushed symbols 1 (lits1, s1) (fold pushLit symbols (lits1, s1))"
    by (rule Cons.IH [OF conjunct1 [OF step(1)]]) (use Cons.prems(2) in simp)
  obtain lits2 s2 where r: "fold pushLit symbols (lits1, s1) = (lits2, s2)" by fastforce
  have x: "x \<notin> set symbols" using Cons.prems(2) by simp
  show ?case using IH step x unfolding pushed_def by (auto simp: p r)
qed (auto simp: pushed_def)

lemma push_frames:
  assumes "ownLits lits (sv_vars s)" "distinct symbols"
  shows "pushed symbols k (lits, s) (pushFrames symbols k (lits, s))"
proof (induction k)
  case (Suc k)
  obtain lits1 s1 where r: "pushFrames symbols k (lits, s) = (lits1, s1)" by fastforce
  obtain lits2 s2 where r2: "fold pushLit symbols (lits1, s1) = (lits2, s2)" by fastforce
  have step: "pushFrames symbols (Suc k) (lits, s) = (lits2, s2)" by (simp add: pushFrames_def r [unfolded pushFrames_def] r2)
  have 1: "pushed symbols k (lits, s) (lits1, s1)" using Suc r by simp
  then have "ownLits lits1 (sv_vars s1)" unfolding pushed_def by (metis fst_conv snd_conv)
  from push_frame [OF this assms(2)] have 2: "pushed symbols 1 (lits1, s1) (lits2, s2)" using r2 by simp
  have take: "take (length (frameLits lits z)) (frameLits lits2 z) = frameLits lits z" if z: "z \<in> set symbols" for z
  proof -
    have len: "length (frameLits lits z) \<le> length (frameLits lits1 z)" using 1 z by (auto simp: pushed_def)
    have "take (length (frameLits lits z)) (take (length (frameLits lits1 z)) (frameLits lits2 z)) = frameLits lits z"
      using 1 2 z by (simp add: pushed_def)
    then show ?thesis using len by (simp add: min_absorb1)
  qed
  have keys: "dom (map_of lits2) = dom (map_of lits) \<union> set symbols" "ownLits lits2 (sv_vars s2)"
    "sv_clauses s2 = sv_clauses s" "sv_vars s2 = sv_vars s + Suc k * length symbols"
    "distinct (map fst lits) \<longrightarrow> distinct (map fst lits2)"
    using 1 2 by (cases k; simp add: pushed_def)+
  have lens: "\<forall>z. z \<notin> set symbols \<longrightarrow> frameLits lits2 z = frameLits lits z"
    "\<forall>z \<in> set symbols. length (frameLits lits2 z) = length (frameLits lits z) + Suc k"
    using 1 2 by (simp_all add: pushed_def)
  show ?case using take keys lens unfolding pushed_def step by simp
qed (use assms in \<open>auto simp: pushFrames_def pushed_def\<close>)

lemma litAt_map_of: "litAt lits x f = (case map_of lits x of None \<Rightarrow> None | Some ls \<Rightarrow> if f < length ls then Some (ls ! f) else None)"
  by (simp add: litAt_def frameLits_def split: option.splits)

lemma getLiteral_litAt: "getLiteral fs x f = (case litAt (fs_lits fs) x f of
    None \<Rightarrow> Inl (Runtime_Error (''Missing frame variable for symbol '' @ showWord x)) | Some l \<Rightarrow> Inr l)"
  by (simp add: getLiteral_def litAt_map_of split: option.splits)

lemma getLiteral_Inr [simp]: "getLiteral fs x f = Inr l \<longleftrightarrow> litAt (fs_lits fs) x f = Some l"
  by (simp add: getLiteral_litAt split: option.splits)

lemma ownLits_Nil [simp]: "ownLits [] n"
  by (simp add: ownLits_def litAt_def frameLits_def)

lemma fold_reserve:
  "frameLits (fold reserveSymbol symbols lits) = frameLits lits \<and>
   dom (map_of (fold reserveSymbol symbols lits)) = dom (map_of lits) \<union> set symbols \<and>
   (distinct (map fst lits) \<longrightarrow> distinct (map fst (fold reserveSymbol symbols lits)))"
proof (induction symbols arbitrary: lits)
  case (Cons x symbols)
  have "distinct (map fst lits) \<longrightarrow> distinct (map fst (reserveSymbol x lits))"
    by (simp add: reserveSymbol_def distinct_update)
  then show ?case using Cons.IH [of "reserveSymbol x lits"] by simp
qed simp

lemma frameLits_Nil [simp]: "frameLits [] x = []"
  by (simp add: frameLits_def)

lemma litAt_fold_reserve [simp]: "litAt (fold reserveSymbol symbols lits) = litAt lits"
  using fold_reserve [of symbols lits] by (intro ext) (simp add: litAt_def)

lemma ownLits_fold_reserve [simp]: "ownLits (fold reserveSymbol symbols lits) n = ownLits lits n"
  by (simp add: ownLits_def)

lemma hasSymbol_dom: "hasSymbol fs x \<longleftrightarrow> x \<in> dom (map_of (fs_lits fs))"
  by (simp add: hasSymbol_def domIff)

lemma newFrameStore_ok:
  assumes "newFrameStore symbols k s = (fs, s')" "distinct symbols"
  shows "storeInv fs (sv_vars s') \<and> (\<forall>x. hasSymbol fs x \<longleftrightarrow> x \<in> set symbols) \<and> fs_numFrames fs = k \<and>
    sv_vars s' = sv_vars s + k * length symbols \<and> sv_clauses s' = sv_clauses s"
proof -
  let ?s1 = "reserveVars (length symbols * k) s" and ?lits = "fold reserveSymbol symbols []"
  obtain lits' u where p: "pushFrames symbols k (?lits, ?s1) = (lits', u)" by fastforce
  have fs: "fs = \<lparr> fs_numFrames = k, fs_lits = lits' \<rparr>" "s' = u"
    using assms(1) p by (auto simp: newFrameStore_def Let_def)
  have "pushed symbols k (?lits, ?s1) (lits', u)"
    using push_frames [of ?lits ?s1 symbols k] p assms(2) by simp
  then have P: "ownLits lits' (sv_vars u)" "sv_vars u = sv_vars s + k * length symbols"
    "sv_clauses u = sv_clauses s" "dom (map_of lits') = set symbols" "distinct (map fst lits')"
    "\<And>z. z \<in> set symbols \<Longrightarrow> length (frameLits lits' z) = k"
    using fold_reserve [of symbols "[]"] by (cases k; simp add: pushed_def)+
  have "length ls = k" if "map_of lits' x = Some ls" for x ls
    using P(6) [of x] P(4) that by (auto simp: frameLits_def dom_def)
  moreover have "hasSymbol fs x \<longleftrightarrow> x \<in> set symbols" for x
    using P(4) by (auto simp: hasSymbol_def fs dom_def)
  ultimately show ?thesis using P by (simp add: storeInv_def fs)
qed

text \<open>Adding symbols: the ones that are there keep their literals.\<close>

definition addedSymbols :: "var_id list \<Rightarrow> (var_id \<times> int list) list \<Rightarrow> var_id list \<Rightarrow>
    (var_id \<times> int list) list \<times> var_id list" where
  "addedSymbols symbols lits added = fold (\<lambda>symbol (lits, added).
            if map_of lits symbol \<noteq> None then (lits, added)
            else (reserveSymbol symbol lits, added @ [symbol])) symbols (lits, added)"

lemma addedSymbols_ok:
  assumes "addedSymbols symbols lits added = (lits', added')" "distinct added"
    "set added \<subseteq> dom (map_of lits)"
  shows "lits' = fold reserveSymbol (drop (length added) added') lits \<and> distinct added' \<and>
    take (length added) added' = added \<and> set (drop (length added) added') \<inter> dom (map_of lits) = {} \<and>
    dom (map_of lits') = dom (map_of lits) \<union> set symbols"
  using assms
proof (induction symbols arbitrary: lits added)
  case Nil
  then show ?case by (simp add: addedSymbols_def)
next
  case (Cons x symbols)
  show ?case
  proof (cases "x \<in> dom (map_of lits)")
    case True
    then have "addedSymbols symbols lits added = (lits', added')"
      using Cons.prems(1) by (auto simp: addedSymbols_def)
    from Cons.IH [OF this Cons.prems(2,3)] True show ?thesis by auto
  next
    case False
    then have step: "addedSymbols symbols (reserveSymbol x lits) (added @ [x]) = (lits', added')"
      using Cons.prems(1) by (auto simp: addedSymbols_def domIff)
    have "distinct (added @ [x])" "set (added @ [x]) \<subseteq> dom (map_of (reserveSymbol x lits))"
      using Cons.prems(2,3) False by auto
    note IH = Cons.IH [OF step this]
    let ?rest = "drop (Suc (length added)) added'"
    have tk: "take (Suc (length added)) added' = added @ [x]" using IH by simp
    then have tk2: "take (length added) added' = added"
      by (metis append_eq_conv_conj length_append_singleton take_add take_take min.absorb1 le_add1 plus_1_eq_Suc lessI less_imp_le_nat)
    have "added' = added @ [x] @ ?rest"
      using tk append_take_drop_id [of "Suc (length added)" added'] by simp
    then have drop: "drop (length added) added' = x # ?rest" using tk2
      by (metis append_Cons append_Nil append_eq_conv_conj)
    show ?thesis using IH tk2 drop False by auto
  qed
qed

lemma addSymbols_ok:
  assumes "addSymbols symbols fs s = (fs', s')" "storeInv fs (sv_vars s)"
  shows "storeInv fs' (sv_vars s') \<and> (\<forall>x. hasSymbol fs' x \<longleftrightarrow> hasSymbol fs x \<or> x \<in> set symbols) \<and>
    fs_numFrames fs' = fs_numFrames fs \<and> sv_clauses s' = sv_clauses s \<and> sv_vars s \<le> sv_vars s' \<and>
    (\<forall>x f. hasSymbol fs x \<longrightarrow> getLiteral fs' x f = getLiteral fs x f)"
proof -
  obtain lits added where a: "addedSymbols symbols (fs_lits fs) [] = (lits, added)" by fastforce
  note added = addedSymbols_ok [OF a, simplified]
  obtain lits' u where p: "pushFrames added (fs_numFrames fs) (lits, s) = (lits', u)" by fastforce
  have fs': "fs' = fs\<lparr> fs_lits := lits' \<rparr>" "s' = u"
    using assms(1) p a by (auto simp: addSymbols_def addedSymbols_def)
  have own: "ownLits lits (sv_vars s)" "distinct (map fst lits)"
    using assms(2) fold_reserve [of added "fs_lits fs"] added by (auto simp: storeInv_def)
  have P: "pushed added (fs_numFrames fs) (lits, s) (lits', u)"
    using push_frames [OF own(1), of added "fs_numFrames fs"] p added by simp
  have frames: "frameLits lits = frameLits (fs_lits fs)" using fold_reserve added by simp
  have dom: "dom (map_of lits') = dom (map_of lits)"
    using P added fold_reserve [of added "fs_lits fs"] by (cases "fs_numFrames fs") (auto simp: pushed_def)
  have old: "frameLits lits' x = frameLits (fs_lits fs) x" if "x \<in> dom (map_of (fs_lits fs))" for x
  proof -
    have "x \<notin> set added" using added that by auto
    then show ?thesis using P frames by (simp add: pushed_def)
  qed
  have len: "length ls = fs_numFrames fs" if ls: "map_of lits' x = Some ls" for x ls
  proof (cases "x \<in> dom (map_of (fs_lits fs))")
    case True
    then show ?thesis using old [OF True] assms(2) ls by (auto simp: frameLits_def storeInv_def)
  next
    case False
    then have "frameLits (fs_lits fs) x = []" by (simp add: frameLits_def domIff)
    moreover have "x \<in> set added"
      using False dom ls added fold_reserve [of added "fs_lits fs"] by auto
    ultimately have "length (frameLits lits' x) = fs_numFrames fs" using P frames by (simp add: pushed_def)
    then show ?thesis using ls by (simp add: frameLits_def)
  qed
  have "getLiteral fs' x f = getLiteral fs x f" if "hasSymbol fs x" for x f
  proof -
    have "frameLits lits' x = frameLits (fs_lits fs) x"
      by (rule old) (use that in \<open>auto simp: hasSymbol_def dom_def\<close>)
    then show ?thesis by (simp add: getLiteral_litAt fs' litAt_def)
  qed
  moreover have "hasSymbol fs' x \<longleftrightarrow> hasSymbol fs x \<or> x \<in> set symbols" for x
    using dom added by (auto simp: hasSymbol_dom fs')
  moreover have "ownLits lits' (sv_vars u)" using P unfolding pushed_def fst_conv snd_conv by (rule conjunct1)
  moreover have "sv_clauses u = sv_clauses s" "sv_vars s \<le> sv_vars u" "distinct (map fst lits')"
    using P own(2) by (simp_all add: pushed_def)
  ultimately show ?thesis using len by (simp add: storeInv_def fs')
qed

lemma storeInv_literal:
  assumes "storeInv fs n" "hasSymbol fs x" "f < fs_numFrames fs"
  shows "\<exists>l. getLiteral fs x f = Inr l \<and> litBelow n l"
proof -
  obtain ls where ls: "map_of (fs_lits fs) x = Some ls" using assms(2) by (auto simp: hasSymbol_def)
  then have "length ls = fs_numFrames fs" using assms(1) unfolding storeInv_def by blast
  then have at: "litAt (fs_lits fs) x f = Some (ls ! f)" using ls assms(3) by (simp add: litAt_map_of)
  then have "litBelow n (ls ! f)" using assms(1) unfolding storeInv_def ownLits_def by blast
  then show ?thesis using at by simp
qed

lemma storeInv_own:
  assumes "storeInv fs n" "getLiteral fs x f = Inr l" "getLiteral fs y g = Inr l"
  shows "x = y \<and> f = g"
  using assms unfolding storeInv_def ownLits_def getLiteral_Inr by blast

lemma storeInv_below: "storeInv fs n \<Longrightarrow> getLiteral fs x f = Inr l \<Longrightarrow> litBelow n l"
  unfolding storeInv_def ownLits_def getLiteral_Inr by blast

lemma storeInv_mono: "storeInv fs n \<Longrightarrow> n \<le> m \<Longrightarrow> storeInv fs m"
  using ownLits_mono by (auto simp: storeInv_def)

section \<open>Leaf maps\<close>

definition leafStep :: "frame_store \<Rightarrow> nat \<Rightarrow> var_id \<Rightarrow> (var_id \<rightharpoonup> int) \<Rightarrow> error + (var_id \<rightharpoonup> int)" where
  "leafStep fs frame symbol leafLits =
    (if symbol < 2 then Inr leafLits
     else bindE (getLiteral fs symbol frame) (\<lambda>l. Inr (emplace symbol l leafLits)))"

lemma makeLeafLits_steps: "makeLeafLits fs frame symbols = foldE (leafStep fs frame) symbols Map.empty"
  by (simp add: makeLeafLits_def leafStep_def [abs_def])

lemma makeLeafLits_fold:
  assumes "foldE (leafStep fs frame) symbols m = Inr m'"
    "\<And>x l. m x = Some l \<Longrightarrow> getLiteral fs x frame = Inr l"
  shows "(\<forall>x l. m' x = Some l \<longrightarrow> getLiteral fs x frame = Inr l) \<and>
    dom m' = dom m \<union> {x \<in> set symbols. \<not> x < 2}"
  using assms
proof (induction symbols arbitrary: m)
  case (Cons x symbols)
  obtain m1 where m1: "leafStep fs frame x m = Inr m1" "foldE (leafStep fs frame) symbols m1 = Inr m'"
    using Cons.prems(1) by (auto simp: bindE_Inr_iff)
  have step: "(x < 2 \<and> m1 = m) \<or> (\<exists>l. \<not> x < 2 \<and> getLiteral fs x frame = Inr l \<and> m1 = emplace x l m)"
    using m1(1) by (auto simp: leafStep_def bindE_Inr_iff simp del: getLiteral_Inr split: if_splits)
  have lits: "getLiteral fs y frame = Inr k" if "m1 y = Some k" for y k
    using step that Cons.prems(2) [of y k] by (auto simp: emplace_apply simp del: getLiteral_Inr split: if_splits)
  have dom: "dom m1 = dom m \<union> {y. y = x \<and> \<not> x < 2}"
  proof (cases "x < 2")
    case False
    then obtain l where "m1 = emplace x l m" using step by blast
    then show ?thesis using False by simp
  qed (use step in simp)
  show ?case using Cons.IH [OF m1(2) lits] dom by auto
qed simp

lemma makeLeafLits_ok:
  assumes "makeLeafLits fs frame symbols = Inr m"
  shows "\<And>x l. m x = Some l \<Longrightarrow> getLiteral fs x frame = Inr l"
    "dom m = {x \<in> set symbols. \<not> x < 2}"
  using makeLeafLits_fold [of fs frame symbols Map.empty m] assms
  by (auto simp: makeLeafLits_steps simp del: getLiteral_Inr)

lemma makeLeafLits_total:
  assumes "\<And>x. x \<in> set symbols \<Longrightarrow> \<not> x < 2 \<Longrightarrow> hasSymbol fs x" "storeInv fs n" "frame < fs_numFrames fs"
  shows "\<exists>m. makeLeafLits fs frame symbols = Inr m"
proof -
  have "\<exists>t. foldE (leafStep fs frame) symbols Map.empty = Inr t \<and> True"
  proof (rule foldE_total)
    fix x and u :: "var_id \<rightharpoonup> int"
    assume x: "x \<in> set symbols"
    show "\<exists>t. leafStep fs frame x u = Inr t \<and> True"
    proof (cases "x < 2")
      case False
      then obtain l where "getLiteral fs x frame = Inr l"
        using storeInv_literal [OF assms(2) assms(1) [OF x False] assms(3)] by blast
      then show ?thesis using False by (simp add: leafStep_def del: getLiteral_Inr)
    qed (simp add: leafStep_def)
  qed simp
  then show ?thesis by (simp add: makeLeafLits_steps)
qed

section \<open>Simple paths\<close>

definition diffClause :: "frame_store \<Rightarrow> nat \<Rightarrow> nat \<Rightarrow> var_id list \<Rightarrow> solver \<Rightarrow> error + int list \<times> solver" where
  "diffClause fs i j stateSymbols s =
    foldE (\<lambda>symbol (clause, u).
       bindE (getLiteral fs symbol i) (\<lambda>li.
       bindE (getLiteral fs symbol j) (\<lambda>lj.
       bindE (createXorLiteral li lj u) (\<lambda>(l, u'). Inr (clause @ [l], u'))))) stateSymbols ([], s)"

definition addSimplePathConstraint :: "frame_store \<Rightarrow> var_id list \<Rightarrow> nat \<Rightarrow> nat \<Rightarrow> solver \<Rightarrow> error + solver" where
  "addSimplePathConstraint fs stateSymbols firstFrame numFrames s =
    (if stateSymbols = [] then Inr s
     else let lastFrame = firstFrame + numFrames in
       foldE (\<lambda>i. foldE (\<lambda>j u. bindE (diffClause fs i j stateSymbols u) (\<lambda>(clause, u'). addClause clause u'))
         [i + 1..<lastFrame]) [firstFrame..<lastFrame] s)"

definition frameValue :: "frame_store \<Rightarrow> assignment \<Rightarrow> nat \<Rightarrow> var_id \<Rightarrow> bool" where
  "frameValue fs M f x = (case getLiteral fs x f of Inl _ \<Rightarrow> False | Inr l \<Rightarrow> litTrue M l)"

lemma frameValue_lit: "getLiteral fs x f = Inr l \<Longrightarrow> frameValue fs M f x = litTrue M l"
  by (simp add: frameValue_def del: getLiteral_Inr)

lemma readsBelow_frameValue: "storeInv fs n \<Longrightarrow> readsBelow n (\<lambda>M. frameValue fs M f x)"
  unfolding readsBelow_def frameValue_def
  by (auto split: sum.splits simp del: getLiteral_Inr dest: storeInv_below agree_litTrue)

definition framesDiffer :: "frame_store \<Rightarrow> var_id list \<Rightarrow> nat \<Rightarrow> nat \<Rightarrow> assignment \<Rightarrow> bool" where
  "framesDiffer fs xs i j M = (\<exists>x \<in> set xs. frameValue fs M i x \<noteq> frameValue fs M j x)"

lemma readsBelow_framesDiffer: "storeInv fs n \<Longrightarrow> readsBelow n (framesDiffer fs xs i j)"
  using readsBelow_frameValue unfolding readsBelow_def framesDiffer_def by blast

lemma diffClause_ok:
  assumes "storeInv fs (sv_vars s)" "solverInv s" "\<And>x. x \<in> set xs \<Longrightarrow> hasSymbol fs x"
    "i < fs_numFrames fs" "j < fs_numFrames fs"
  shows "\<exists>clause s'. diffClause fs i j xs s = Inr (clause, s') \<and> conservative s s' \<and> solverInv s' \<and>
    litsBelow (sv_vars s') clause \<and> (\<forall>M. models M s' \<longrightarrow> clauseTrue M clause = framesDiffer fs xs i j M)"
proof -
  let ?f = "\<lambda>symbol (clause, u). bindE (getLiteral fs symbol i) (\<lambda>li. bindE (getLiteral fs symbol j) (\<lambda>lj.
       bindE (createXorLiteral li lj u) (\<lambda>(l, u'). Inr (clause @ [l], u'))))"
  have "\<exists>clause s'. foldE ?f xs (c0, u) = Inr (c0 @ clause, s') \<and> conservative u s' \<and> solverInv s' \<and>
    litsBelow (sv_vars s') clause \<and> (\<forall>M. models M s' \<longrightarrow> clauseTrue M clause = framesDiffer fs xs i j M)"
    if "solverInv u" "storeInv fs (sv_vars u)" for c0 u
    using that assms(3)
  proof (induction xs arbitrary: c0 u)
    case (Cons x xs)
    have prems: "\<And>y. y \<in> set xs \<Longrightarrow> hasSymbol fs y" using Cons.prems(3) by simp
    obtain li lj where l: "getLiteral fs x i = Inr li" "litBelow (sv_vars u) li"
      "getLiteral fs x j = Inr lj" "litBelow (sv_vars u) lj"
      using storeInv_literal [OF Cons.prems(2)] Cons.prems(3) assms(4,5) by (metis list.set_intros(1))
    obtain lit u1 where x: "createXorLiteral li lj u = Inr (lit, u1)" "solverInv u1" "conservative u u1"
      "litBelow (sv_vars u1) lit"
      "\<And>M. models M u1 = (models M u \<and> litTrue M lit = (litTrue M li \<noteq> litTrue M lj))"
      using createXorLiteral_ok [OF Cons.prems(1) l(2,4)] by blast
    obtain clause s' where r: "foldE ?f xs (c0 @ [lit], u1) = Inr ((c0 @ [lit]) @ clause, s')"
      "conservative u1 s'" "solverInv s'" "litsBelow (sv_vars s') clause"
      "\<And>M. models M s' \<Longrightarrow> clauseTrue M clause = framesDiffer fs xs i j M"
      using Cons.IH [OF x(2) storeInv_mono [OF Cons.prems(2) conservative_vars [OF x(3)]] prems, of "c0 @ [lit]"]
      by blast
    have "foldE ?f (x # xs) (c0, u) = Inr (c0 @ lit # clause, s')"
      using r(1) by (simp add: l x(1) del: getLiteral_Inr)
    moreover have "litsBelow (sv_vars s') (lit # clause)"
      using r(4) litBelow_mono [OF x(4) conservative_vars [OF r(2)]] by simp
    moreover have "clauseTrue M (lit # clause) = framesDiffer fs (x # xs) i j M" if M: "models M s'" for M
      using r(5) [OF M] x(5) conservative_models [OF r(2) M]
      by (simp add: framesDiffer_def frameValue_lit [OF l(1)] frameValue_lit [OF l(3)])
    ultimately show ?case using r(3) conservative_trans [OF x(3) r(2)] by blast
  qed (auto simp: framesDiffer_def)
  from this [of s "[]"] show ?thesis using assms(1,2) by (simp add: diffClause_def)
qed

lemma addDiff_ok:
  assumes "storeInv fs (sv_vars s)" "solverInv s" "\<And>x. x \<in> set xs \<Longrightarrow> hasSymbol fs x"
    "i < fs_numFrames fs" "j < fs_numFrames fs"
  shows "\<exists>s'. bindE (diffClause fs i j xs s) (\<lambda>(clause, u'). addClause clause u') = Inr s' \<and>
    restricts s s' (framesDiffer fs xs i j)"
proof -
  obtain clause u where d: "diffClause fs i j xs s = Inr (clause, u)" "conservative s u" "solverInv u"
    "litsBelow (sv_vars u) clause" "\<And>M. models M u \<Longrightarrow> clauseTrue M clause = framesDiffer fs xs i j M"
    using diffClause_ok [OF assms] by blast
  obtain s' where s': "addClause clause u = Inr s'" "restricts u s' (\<lambda>M. clauseTrue M clause)"
    using restricts_clause [OF d(3,4)] by blast
  have u: "restricts u s' (framesDiffer fs xs i j)" using s'(2) d(5) unfolding restricts_def by metis
  have "restricts s s' (\<lambda>M. True \<and> framesDiffer fs xs i j M)"
    by (rule restricts_trans [OF restricts_conservative [OF d(2,3)] u readsBelow_framesDiffer [OF assms(1)]])
  then show ?thesis using d(1) s'(1) by simp
qed

lemma addSimplePath_restricts:
  assumes "storeInv fs (sv_vars s)" "solverInv s" "\<And>x. x \<in> set xs \<Longrightarrow> hasSymbol fs x"
    "first + n \<le> fs_numFrames fs" "xs \<noteq> []"
  shows "\<exists>s'. addSimplePathConstraint fs xs first n s = Inr s' \<and>
    restricts s s' (\<lambda>M. \<forall>i \<in> set [first..<first + n]. \<forall>j \<in> set [i + 1..<first + n]. framesDiffer fs xs i j M)"
proof -
  let ?step = "\<lambda>i j u. bindE (diffClause fs i j xs u) (\<lambda>(clause, u'). addClause clause u')"
  have inner: "\<exists>u'. foldE (?step i) [i + 1..<first + n] u = Inr u' \<and>
      restricts u u' (\<lambda>M. \<forall>j \<in> set [i + 1..<first + n]. framesDiffer fs xs i j M)"
    if i: "i \<in> set [first..<first + n]" and u: "solverInv u" "sv_vars s \<le> sv_vars u" for i u
  proof (rule foldE_restricts [OF u(1)])
    fix j v
    assume j: "j \<in> set [i + 1..<first + n]" and v: "solverInv v" "sv_vars u \<le> sv_vars v"
    show "\<exists>u'. ?step i j v = Inr u' \<and> restricts v u' (framesDiffer fs xs i j)"
      by (rule addDiff_ok [OF storeInv_mono [OF assms(1)]]) (use assms i j u v in auto)
  next
    show "readsBelow (sv_vars u) (framesDiffer fs xs i j)" for j
      by (rule readsBelow_framesDiffer [OF storeInv_mono [OF assms(1) u(2)]])
  qed
  have reads: "readsBelow (sv_vars s) (\<lambda>M. \<forall>j \<in> set [i + 1..<first + n]. framesDiffer fs xs i j M)" for i
    using readsBelow_framesDiffer [OF assms(1)] unfolding readsBelow_def by blast
  show ?thesis
    unfolding addSimplePathConstraint_def Let_def if_not_P [OF assms(5)]
    by (rule foldE_restricts [OF assms(2) inner reads]) assumption+
qed

text \<open>The same, with the meaning of \<open>restricts\<close> written out.\<close>

lemma restricts_exact:
  assumes "restricts s s' P" "solverInv s" "readsBelow (sv_vars s) P"
  shows "(\<exists>M'. models M' s' \<and> agreeBelow (sv_vars s) M M') \<longleftrightarrow> models M s \<and> P M"
proof
  assume "\<exists>M'. models M' s' \<and> agreeBelow (sv_vars s) M M'"
  then obtain M' where M': "models M' s'" "agreeBelow (sv_vars s) M M'" by blast
  then have "models M' s" "P M'" using assms(1) by (auto simp: restricts_def)
  moreover have "models M s = models M' s"
    by (rule models_cong [OF assms(2)]) (use M'(2) in \<open>simp add: agreeBelow_def\<close>)
  moreover have "P M = P M'" by (rule readsBelowD [OF assms(3) M'(2)])
  ultimately show "models M s \<and> P M" by simp
next
  assume "models M s \<and> P M"
  then show "\<exists>M'. models M' s' \<and> agreeBelow (sv_vars s) M M'" using assms(1) unfolding restricts_def by blast
qed

lemma addSimplePath_exact:
  assumes "storeInv fs (sv_vars s)" "solverInv s" "\<And>x. x \<in> set xs \<Longrightarrow> hasSymbol fs x"
    "first + n \<le> fs_numFrames fs" "xs \<noteq> []"
  shows "\<exists>s'. addSimplePathConstraint fs xs first n s = Inr s' \<and> solverInv s' \<and>
    (\<forall>M. (\<exists>M'. models M' s' \<and> agreeBelow (sv_vars s) M M') \<longleftrightarrow>
      models M s \<and> (\<forall>i \<in> set [first..<first + n]. \<forall>j \<in> set [i + 1..<first + n]. framesDiffer fs xs i j M))"
proof -
  obtain s' where s': "addSimplePathConstraint fs xs first n s = Inr s'"
    "restricts s s' (\<lambda>M. \<forall>i \<in> set [first..<first + n]. \<forall>j \<in> set [i + 1..<first + n]. framesDiffer fs xs i j M)"
    using addSimplePath_restricts [OF assms] by blast
  have "readsBelow (sv_vars s) (\<lambda>M. \<forall>i \<in> set [first..<first + n]. \<forall>j \<in> set [i + 1..<first + n]. framesDiffer fs xs i j M)"
    using readsBelow_framesDiffer [OF assms(1)] unfolding readsBelow_def by blast
  from restricts_exact [OF s'(2) assms(2) this] show ?thesis using s' by (auto simp: restricts_def)
qed

end
