(* ===== verification/Node_Cache.thy ===== *)
theory Node_Cache
  imports Prelude
begin

unbundle bit_operations_syntax

text \<open>
  The flat node cache of \<open>FrameFormulaEncoder\<close> (\<open>sec/kinduction/SatEncoding.cpp\<close>): an
  open-addressing table with linear probing over a power-of-two number of slots.  Nodes are
  their addresses, and the address 0 marks an empty slot.  The probe loop has no bound in the
  source, so that it is a partial function here; it is proved to return on every table the
  operations build, and the table is proved to refine a map.  Counts are unbounded (the source
  has \<open>size_t\<close>; the reserve bounds of the encoder keep them far below).
\<close>

section \<open>The table\<close>

record node_table =
  nt_entries :: "(u64 \<times> int) list"
  nt_size :: nat
  nt_reserved :: nat

definition emptyTable :: node_table where
  "emptyTable = \<lparr> nt_entries = [], nt_size = 0, nt_reserved = 0 \<rparr>"

definition ptrHash :: "u64 \<Rightarrow> u64" where
  "ptrHash node = drop_bit 4 node * 11400714819323198485"

definition slotFor :: "u64 \<Rightarrow> nat \<Rightarrow> nat" where
  "slotFor node slotMask = (unat (ptrHash node)) AND slotMask"

function growBuckets :: "nat \<Rightarrow> nat \<Rightarrow> nat" where
  "growBuckets shift minBuckets =
    (if 16 * 2 ^ shift < minBuckets then growBuckets (Suc shift) minBuckets else 16 * 2 ^ shift)"
  by pat_completeness auto
termination
proof (relation "measure (\<lambda>(shift, minBuckets). minBuckets - 16 * 2 ^ shift)", goal_cases)
  case (2 shift minBuckets)
  have "0 < (2::nat) ^ shift" by simp
  then show ?case using 2 unfolding in_measure prod.case power_Suc by linarith
qed (rule wf_measure)

declare growBuckets.simps [simp del]

definition bucketCountFor :: "nat \<Rightarrow> nat" where
  "bucketCountFor desiredEntries = growBuckets 0 (max (desiredEntries * 4) 16)"

partial_function (option) probe :: "(u64 \<times> int) list \<Rightarrow> u64 \<Rightarrow> nat \<Rightarrow> nat option" where
  "probe entries node slot =
    (if fst (entries ! slot) = 0 then Some slot
     else if fst (entries ! slot) = node then Some slot
     else probe entries node ((slot + 1) AND (length entries - 1)))"

text \<open>\<open>insertCachedLiteral\<close> on a table that has slots.\<close>

definition insertSlot :: "u64 \<Rightarrow> int \<Rightarrow> node_table \<Rightarrow> node_table option" where
  "insertSlot node lit t =
    (case probe (nt_entries t) node (slotFor node (length (nt_entries t) - 1)) of
       None \<Rightarrow> None
     | Some slot \<Rightarrow>
        (if fst (nt_entries t ! slot) = 0
         then Some (t\<lparr> nt_entries := (nt_entries t)[slot := (node, lit)], nt_size := nt_size t + 1 \<rparr>)
         else Some (t\<lparr> nt_entries := (nt_entries t)[slot := (node, lit)] \<rparr>)))"

fun insertAll :: "(u64 \<times> int) list \<Rightarrow> node_table \<Rightarrow> node_table option" where
  "insertAll [] t = Some t"
| "insertAll ((node, lit) # rest) t =
    (if node = 0 then insertAll rest t
     else (case insertSlot node lit t of None \<Rightarrow> None | Some t' \<Rightarrow> insertAll rest t'))"

definition reserveSlots :: "nat \<Rightarrow> node_table \<Rightarrow> node_table option" where
  "reserveSlots desiredEntries t =
    (if desiredEntries \<le> nt_reserved t then Some t
     else let buckets = bucketCountFor desiredEntries in
       insertAll (nt_entries t)
         \<lparr> nt_entries = replicate buckets (0, 0), nt_size = 0, nt_reserved = buckets div 4 \<rparr>)"

definition insertCachedLiteral :: "u64 \<Rightarrow> int \<Rightarrow> node_table \<Rightarrow> node_table option" where
  "insertCachedLiteral node lit t =
    (if nt_entries t = []
     then (case reserveSlots 1 t of None \<Rightarrow> None | Some t' \<Rightarrow> insertSlot node lit t')
     else insertSlot node lit t)"

definition findLiteral :: "u64 \<Rightarrow> node_table \<Rightarrow> int option" where
  "findLiteral node t =
    (if nt_entries t = [] then Some 0
     else (case probe (nt_entries t) node (slotFor node (length (nt_entries t) - 1)) of
        None \<Rightarrow> None
      | Some slot \<Rightarrow> Some (if fst (nt_entries t ! slot) = 0 then 0 else snd (nt_entries t ! slot))))"

definition cacheLiteral :: "u64 \<Rightarrow> int \<Rightarrow> node_table \<Rightarrow> node_table option" where
  "cacheLiteral node lit t =
    (let desiredEntries = nt_size t + 1 in
     if desiredEntries > nt_reserved t
     then (case reserveSlots (desiredEntries + max (desiredEntries div 2) 4096) t of
             None \<Rightarrow> None | Some t' \<Rightarrow> insertCachedLiteral node lit t')
     else insertCachedLiteral node lit t)"

section \<open>Probe paths\<close>

lemma and_mask_mod: "(x::nat) AND (2 ^ k - 1) = x mod 2 ^ k"
  by (metis mask_eq_exp_minus_1 take_bit_eq_mask take_bit_eq_mod and.commute)

definition slotAt :: "nat \<Rightarrow> nat \<Rightarrow> nat \<Rightarrow> nat" where
  "slotAt N h i = (h + i) mod N"

definition stops :: "(u64 \<times> int) list \<Rightarrow> u64 \<Rightarrow> nat \<Rightarrow> bool" where
  "stops es node slot = (fst (es ! slot) = 0 \<or> fst (es ! slot) = node)"

lemma probe_path:
  assumes len: "length es = 2 ^ k" and h: "h < length es"
    and stop: "stops es node (slotAt (length es) h i)"
    and path: "\<And>j. j < i \<Longrightarrow> \<not> stops es node (slotAt (length es) h j)"
  shows "probe es node h = Some (slotAt (length es) h i)"
  using h stop path
proof (induction i arbitrary: h)
  case 0
  then have "slotAt (length es) h 0 = h" by (simp add: slotAt_def)
  then show ?case using 0 by (subst probe.simps) (auto simp: stops_def)
next
  case (Suc i)
  let ?h = "(h + 1) AND (length es - 1)"
  have next_h: "?h = (h + 1) mod length es" using and_mask_mod len by simp
  have shift: "slotAt (length es) ?h j = slotAt (length es) h (Suc j)" for j
    unfolding slotAt_def next_h by (simp add: mod_simps)
  have "slotAt (length es) h 0 = h" using Suc.prems(1) by (simp add: slotAt_def)
  then have "\<not> stops es node h" using Suc.prems(3) [of 0] by simp
  then have "probe es node h = probe es node ?h" by (subst probe.simps) (auto simp: stops_def)
  moreover have "?h < length es" unfolding next_h using Suc.prems(1) by (intro mod_less_divisor) linarith
  then have "probe es node ?h = Some (slotAt (length es) ?h i)"
    by (rule Suc.IH) (use Suc.prems(2,3) shift in auto)
  ultimately show ?case using shift by simp
qed

lemma slot_reached:
  assumes "slot < N" "h < N"
  shows "\<exists>i < N. slotAt N h i = slot"
proof (cases "h \<le> slot")
  case True
  then show ?thesis using assms by (intro exI [of _ "slot - h"]) (simp add: slotAt_def)
next
  case False
  then have "slotAt N h (N - h + slot) = slot" using assms by (simp add: slotAt_def)
  then show ?thesis using False assms by (intro exI [of _ "N - h + slot"]) simp
qed

section \<open>The invariant and the map\<close>

definition homeSlot :: "(u64 \<times> int) list \<Rightarrow> u64 \<Rightarrow> nat" where
  "homeSlot es node = slotFor node (length es - 1)"

text \<open>Every entry is found by probing from its home slot.\<close>

definition reachable :: "(u64 \<times> int) list \<Rightarrow> nat \<Rightarrow> bool" where
  "reachable es slot = (\<exists>i. slotAt (length es) (homeSlot es (fst (es ! slot))) i = slot \<and>
     (\<forall>j < i. \<not> stops es (fst (es ! slot)) (slotAt (length es) (homeSlot es (fst (es ! slot))) j)))"

definition entriesOk :: "(u64 \<times> int) list \<Rightarrow> bool" where
  "entriesOk es = ((\<exists>k. length es = 2 ^ k) \<and>
     (\<forall>slot < length es. fst (es ! slot) \<noteq> 0 \<longrightarrow> reachable es slot))"

definition used :: "(u64 \<times> int) list \<Rightarrow> nat" where
  "used es = length (filter (\<lambda>e. fst e \<noteq> 0) es)"

definition tableInv :: "node_table \<Rightarrow> bool" where
  "tableInv t = (entriesOk (nt_entries t) \<and> nt_size t = used (nt_entries t) \<and>
     nt_size t \<le> nt_reserved t \<and> nt_reserved t < length (nt_entries t))"

text \<open>The map that a table stands for.\<close>

definition tableMap :: "(u64 \<times> int) list \<Rightarrow> u64 \<rightharpoonup> int" where
  "tableMap es node = (if node = 0 then None else map_of es node)"

lemma homeSlot_less: "length es = 2 ^ k \<Longrightarrow> homeSlot es node < length es"
  using and_mask_mod by (simp add: homeSlot_def slotFor_def)

lemma reachable_probe:
  assumes "entriesOk es" "slot < length es" "fst (es ! slot) = node" "node \<noteq> 0"
  shows "probe es node (homeSlot es node) = Some slot"
proof -
  obtain k where k: "length es = 2 ^ k" using assms(1) by (auto simp: entriesOk_def)
  obtain i where i: "slotAt (length es) (homeSlot es node) i = slot"
    "\<forall>j < i. \<not> stops es node (slotAt (length es) (homeSlot es node) j)"
    using assms by (auto simp: entriesOk_def reachable_def)
  have "stops es node slot" using assms(3) by (simp add: stops_def)
  then show ?thesis using probe_path [OF k homeSlot_less [OF k, of node], of node i] i by simp
qed

lemma keys_distinct:
  assumes "entriesOk es" "i < length es" "j < length es" "fst (es ! i) = fst (es ! j)" "fst (es ! i) \<noteq> 0"
  shows "i = j"
  using reachable_probe [OF assms(1,2) refl assms(5)]
    reachable_probe [OF assms(1,3) assms(4) [symmetric] assms(5)] by simp

lemma map_of_slot:
  assumes "entriesOk es" "node \<noteq> 0"
  shows "tableMap es node = Some l \<longleftrightarrow> (\<exists>slot < length es. es ! slot = (node, l))"
proof
  show "tableMap es node = Some l \<Longrightarrow> \<exists>slot < length es. es ! slot = (node, l)"
    using assms(2) map_of_SomeD [of es node l] by (auto simp: tableMap_def in_set_conv_nth)
  assume "\<exists>slot < length es. es ! slot = (node, l)"
  then obtain s where s: "s < length es" "es ! s = (node, l)" by blast
  then obtain l' where l': "map_of es node = Some l'"
    by (metis nth_mem weak_map_of_SomeI)
  then obtain s' where s': "s' < length es" "es ! s' = (node, l')"
    using map_of_SomeD [OF l'] by (auto simp: in_set_conv_nth)
  have "s = s'" by (rule keys_distinct [OF assms(1) s(1) s'(1)]) (use s(2) s'(2) assms(2) in auto)
  then show "tableMap es node = Some l" using s s' l' assms(2) by (simp add: tableMap_def)
qed

lemma probe_returns:
  assumes es: "entriesOk es" and free: "slot0 < length es" "fst (es ! slot0) = 0" and node: "node \<noteq> 0"
  shows "\<exists>slot < length es. probe es node (homeSlot es node) = Some slot \<and>
    ((fst (es ! slot) = 0 \<and> tableMap es node = None) \<or> (fst (es ! slot) = node \<and> tableMap es node = Some (snd (es ! slot)))) \<and>
    (\<exists>i. slotAt (length es) (homeSlot es node) i = slot \<and>
       (\<forall>j < i. \<not> stops es node (slotAt (length es) (homeSlot es node) j)))"
proof -
  obtain k where k: "length es = 2 ^ k" using es by (auto simp: entriesOk_def)
  let ?at = "slotAt (length es) (homeSlot es node)"
  obtain i0 where "?at i0 = slot0" using slot_reached [OF free(1) homeSlot_less [OF k]] by blast
  then have "stops es node (?at i0)" using free(2) by (simp add: stops_def)
  then obtain i where i: "stops es node (?at i)" "\<And>j. j < i \<Longrightarrow> \<not> stops es node (?at j)"
    using exists_least_iff [of "\<lambda>i. stops es node (?at i)"] by blast
  have less: "?at i < length es"
    unfolding slotAt_def by (rule mod_less_divisor) (use free(1) in linarith)
  have p: "probe es node (homeSlot es node) = Some (?at i)"
    by (rule probe_path [OF k homeSlot_less [OF k] i])
  have "(fst (es ! ?at i) = 0 \<and> tableMap es node = None) \<or>
      (fst (es ! ?at i) = node \<and> tableMap es node = Some (snd (es ! ?at i)))"
  proof (cases "fst (es ! ?at i) = 0")
    case True
    have "tableMap es node = None"
    proof (rule ccontr)
      assume "tableMap es node \<noteq> None"
      then obtain s l where "s < length es" "es ! s = (node, l)" using map_of_slot [OF es node] by auto
      then have "probe es node (homeSlot es node) = Some s" using reachable_probe [OF es, of s node] node by simp
      then show False using p True \<open>es ! s = (node, l)\<close> node by simp
    qed
    then show ?thesis using True by simp
  next
    case False
    then have "fst (es ! ?at i) = node" using i(1) by (simp add: stops_def)
    then show ?thesis using map_of_slot [OF es node] less by (metis prod.collapse)
  qed
  then show ?thesis using less p i(2) by blast
qed

section \<open>Insertion\<close>

lemma used_card: "used es = card {i. i < length es \<and> fst (es ! i) \<noteq> 0}"
  by (simp add: used_def length_filter_conv_card)

lemma free_slot: "used es < length es \<Longrightarrow> \<exists>slot < length es. fst (es ! slot) = 0"
proof (rule ccontr)
  assume "used es < length es" "\<not> (\<exists>slot < length es. fst (es ! slot) = 0)"
  then have "{i. i < length es \<and> fst (es ! i) \<noteq> 0} = {..<length es}" by auto
  then show False using \<open>used es < length es\<close> by (simp add: used_card)
qed

lemma used_update:
  assumes "slot < length es" "node \<noteq> 0"
  shows "used (es[slot := (node, l)]) = used es + (if fst (es ! slot) = 0 then 1 else 0)"
proof -
  let ?A = "{i. i < length es \<and> fst (es ! i) \<noteq> 0}"
  have "{i. i < length es \<and> fst (es[slot := (node, l)] ! i) \<noteq> 0} = insert slot ?A"
    using assms by (auto simp: nth_list_update split: if_splits)
  moreover have "finite ?A" by simp
  moreover have "slot \<in> ?A \<longleftrightarrow> fst (es ! slot) \<noteq> 0" using assms(1) by simp
  ultimately show ?thesis by (simp add: used_card card_insert_if)
qed

lemma stops_update:
  "s \<noteq> slot \<Longrightarrow> stops (es[slot := e]) node s = stops es node s"
  by (simp add: stops_def)

lemma entriesOk_update:
  assumes es: "entriesOk es" and slot: "slot < length es" and node: "node \<noteq> 0"
    and stop: "fst (es ! slot) = 0 \<or> fst (es ! slot) = node"
    and path: "slotAt (length es) (homeSlot es node) i = slot"
      "\<And>j. j < i \<Longrightarrow> \<not> stops es node (slotAt (length es) (homeSlot es node) j)"
  shows "entriesOk (es[slot := (node, l)])"
  unfolding entriesOk_def
proof (intro conjI allI impI)
  let ?es = "es[slot := (node, l)]"
  show "\<exists>k. length ?es = 2 ^ k" using es by (simp add: entriesOk_def)
  fix s assume s: "s < length ?es" "fst (?es ! s) \<noteq> 0"
  have home: "homeSlot ?es = homeSlot es" by (simp add: homeSlot_def fun_eq_iff)
  show "reachable ?es s"
  proof (cases "s = slot")
    case True
    have "\<not> stops ?es node (slotAt (length es) (homeSlot es node) j)" if "j < i" for j
    proof -
      have "slotAt (length es) (homeSlot es node) j \<noteq> slot" using path(2) [OF that] stop by (auto simp: stops_def)
      then show ?thesis using path(2) [OF that] by (simp add: stops_update)
    qed
    then show ?thesis using True slot path(1) by (auto simp: reachable_def home)
  next
    case False
    then have e: "?es ! s = es ! s" by simp
    let ?n = "fst (es ! s)"
    obtain i' where i': "slotAt (length es) (homeSlot es ?n) i' = s"
      "\<And>j. j < i' \<Longrightarrow> \<not> stops es ?n (slotAt (length es) (homeSlot es ?n) j)"
      using es s e by (auto simp: entriesOk_def reachable_def)
    have "\<not> stops ?es ?n (slotAt (length es) (homeSlot es ?n) j)" if j: "j < i'" for j
    proof (cases "slotAt (length es) (homeSlot es ?n) j = slot")
      case True
      then have "fst (es ! slot) = node" using i'(2) [OF j] stop by (auto simp: stops_def)
      then have "?n \<noteq> node" using keys_distinct [OF es _ slot, of s] s e False by auto
      then show ?thesis using True slot node by (simp add: stops_def)
    next
      case other: False
      then show ?thesis using i'(2) [OF j] by (simp add: stops_update)
    qed
    then show ?thesis using i'(1) e unfolding reachable_def home by auto
  qed
qed

lemma tableMap_update:
  assumes es: "entriesOk es" and es': "entriesOk (es[slot := (node, l)])" and slot: "slot < length es"
    and node: "node \<noteq> 0" and stop: "fst (es ! slot) = 0 \<or> fst (es ! slot) = node"
  shows "tableMap (es[slot := (node, l)]) = (tableMap es)(node \<mapsto> l)"
proof
  fix m
  let ?es = "es[slot := (node, l)]"
  show "tableMap ?es m = ((tableMap es)(node \<mapsto> l)) m"
  proof (cases "m = node")
    case True
    have "?es ! slot = (node, l)" using slot by simp
    then have "tableMap ?es node = Some l" using map_of_slot [OF es' node, of l] slot by auto
    then show ?thesis using True by simp
  next
    case False
    show ?thesis
    proof (cases "m = 0")
      case zero: False
      have "(\<exists>s < length ?es. ?es ! s = (m, k)) = (\<exists>s < length es. es ! s = (m, k))" for k
      proof -
        have "?es ! s = (m, k) \<longleftrightarrow> es ! s = (m, k)" if "s < length es" for s
          using False zero stop that by (cases "s = slot") auto
        then show ?thesis by auto
      qed
      then have "tableMap ?es m = Some k \<longleftrightarrow> tableMap es m = Some k" for k
        using map_of_slot [OF es' zero] map_of_slot [OF es zero] by simp
      then have "tableMap ?es m = tableMap es m" by (metis option.exhaust)
      then show ?thesis using False by simp
    qed (use False in \<open>simp add: tableMap_def\<close>)
  qed
qed

text \<open>\<open>insertSlot\<close> on a table with a free slot.\<close>

lemma insertSlot_ok:
  assumes "entriesOk (nt_entries t)" "used (nt_entries t) < length (nt_entries t)" "node \<noteq> 0"
  shows "\<exists>t'. insertSlot node lit t = Some t' \<and> entriesOk (nt_entries t') \<and>
    tableMap (nt_entries t') = (tableMap (nt_entries t))(node \<mapsto> lit) \<and>
    length (nt_entries t') = length (nt_entries t) \<and> nt_reserved t' = nt_reserved t \<and>
    nt_size t' + used (nt_entries t) = nt_size t + used (nt_entries t') \<and>
    used (nt_entries t') = used (nt_entries t) + (if node \<in> dom (tableMap (nt_entries t)) then 0 else 1)"
proof -
  let ?es = "nt_entries t"
  obtain slot0 where free: "slot0 < length ?es" "fst (?es ! slot0) = 0" using free_slot [OF assms(2)] by blast
  obtain slot i where slot: "slot < length ?es" and p: "probe ?es node (homeSlot ?es node) = Some slot"
    and at: "(fst (?es ! slot) = 0 \<and> tableMap ?es node = None) \<or>
       (fst (?es ! slot) = node \<and> tableMap ?es node = Some (snd (?es ! slot)))"
    and path: "slotAt (length ?es) (homeSlot ?es node) i = slot"
      "\<And>j. j < i \<Longrightarrow> \<not> stops ?es node (slotAt (length ?es) (homeSlot ?es node) j)"
    using probe_returns [OF assms(1) free assms(3)] by blast
  have stop: "fst (?es ! slot) = 0 \<or> fst (?es ! slot) = node" using at by blast
  note ok = entriesOk_update [OF assms(1) slot assms(3) stop path, of lit]
  note map = tableMap_update [OF assms(1) ok slot assms(3) stop]
  note used = used_update [OF slot assms(3), of lit]
  have dom: "fst (?es ! slot) = 0 \<longleftrightarrow> node \<notin> dom (tableMap ?es)" using at assms(3) by auto
  show ?thesis
    using ok map used p dom by (cases "fst (?es ! slot) = 0") (auto simp: insertSlot_def homeSlot_def)
qed

section \<open>Growth and the operations\<close>

lemma growBuckets_ok: "minBuckets \<le> growBuckets shift minBuckets \<and> (\<exists>k. growBuckets shift minBuckets = 2 ^ k) \<and>
    16 \<le> growBuckets shift minBuckets"
proof (induction shift minBuckets rule: growBuckets.induct)
  case (1 shift minBuckets)
  show ?case
  proof (cases "16 * 2 ^ shift < minBuckets")
    case True
    then show ?thesis using 1 by (subst (1 2 3) growBuckets.simps) simp
  next
    case False
    have "(16::nat) * 2 ^ shift = 2 ^ (4 + shift)" by (simp add: power_add)
    then have "\<exists>k. (16::nat) * 2 ^ shift = 2 ^ k" by blast
    then show ?thesis using False by (subst (1 2 3) growBuckets.simps) simp
  qed
qed

lemma bucketCountFor_ok:
  "desired * 4 \<le> bucketCountFor desired" "\<exists>k. bucketCountFor desired = 2 ^ k" "16 \<le> bucketCountFor desired"
  using growBuckets_ok [of "max (desired * 4) 16" 0] by (auto simp: bucketCountFor_def)

lemma freshEntries:
  "entriesOk (replicate (2 ^ k) (0, 0))" "used (replicate n (0, 0)) = 0" "tableMap (replicate n (0, 0)) = Map.empty"
proof -
  show "entriesOk (replicate (2 ^ k) (0, 0))" unfolding entriesOk_def by auto
  show "used (replicate n (0, 0)) = 0" by (simp add: used_def)
  have "map_of (replicate n (0 :: u64, 0 :: int)) m = None" if "m \<noteq> 0" for m
    using that by (auto simp: map_of_eq_None_iff)
  then show "tableMap (replicate n (0, 0)) = Map.empty" by (simp add: tableMap_def fun_eq_iff)
qed

lemma insertAll_ok:
  assumes "entriesOk (nt_entries t)" "used (nt_entries t) + used es < length (nt_entries t)"
    "nt_size t = used (nt_entries t)"
  shows "\<exists>t'. insertAll es t = Some t' \<and> entriesOk (nt_entries t') \<and> nt_size t' = used (nt_entries t') \<and>
    length (nt_entries t') = length (nt_entries t) \<and> nt_reserved t' = nt_reserved t \<and>
    used (nt_entries t') \<le> used (nt_entries t) + used es \<and>
    tableMap (nt_entries t') = tableMap (nt_entries t) ++ map_of (rev (filter (\<lambda>e. fst e \<noteq> 0) es))"
  using assms
proof (induction es arbitrary: t)
  case (Cons e es)
  obtain node lit where e: "e = (node, lit)" by (cases e)
  show ?case
  proof (cases "node = 0")
    case True
    then show ?thesis using Cons e by (simp add: used_def)
  next
    case False
    have ue: "used (e # es) = Suc (used es)" using False e by (simp add: used_def)
    have lt: "used (nt_entries t) < length (nt_entries t)" using Cons.prems(2) by simp
    obtain t1 where t1: "insertSlot node lit t = Some t1" "entriesOk (nt_entries t1)"
      "tableMap (nt_entries t1) = (tableMap (nt_entries t))(node \<mapsto> lit)"
      "length (nt_entries t1) = length (nt_entries t)" "nt_reserved t1 = nt_reserved t"
      "nt_size t1 + used (nt_entries t) = nt_size t + used (nt_entries t1)"
      "used (nt_entries t1) \<le> Suc (used (nt_entries t))"
      using insertSlot_ok [OF Cons.prems(1) lt False, of lit] by (auto split: if_splits)
    have "\<exists>t'. insertAll es t1 = Some t' \<and> entriesOk (nt_entries t') \<and> nt_size t' = used (nt_entries t') \<and>
      length (nt_entries t') = length (nt_entries t1) \<and> nt_reserved t' = nt_reserved t1 \<and>
      used (nt_entries t') \<le> used (nt_entries t1) + used es \<and>
      tableMap (nt_entries t') = tableMap (nt_entries t1) ++ map_of (rev (filter (\<lambda>e. fst e \<noteq> 0) es))"
      by (rule Cons.IH [OF t1(2)]) (use Cons.prems(2,3) t1(4-7) ue in linarith)+
    then obtain t' where t': "insertAll es t1 = Some t'" "entriesOk (nt_entries t')" "nt_size t' = used (nt_entries t')"
      "length (nt_entries t') = length (nt_entries t1)" "nt_reserved t' = nt_reserved t1"
      "used (nt_entries t') \<le> used (nt_entries t1) + used es"
      "tableMap (nt_entries t') = tableMap (nt_entries t1) ++ map_of (rev (filter (\<lambda>e. fst e \<noteq> 0) es))" by blast
    have "insertAll (e # es) t = Some t'" using False t1(1) t'(1) by (simp add: e)
    moreover have "tableMap (nt_entries t') = tableMap (nt_entries t) ++ map_of (rev (filter (\<lambda>e. fst e \<noteq> 0) (e # es)))"
      using False t'(7) t1(3) e by simp
    ultimately show ?thesis using t' t1 ue by simp
  qed
qed (simp add: used_def)

lemma rebuilt_map:
  assumes "entriesOk es"
  shows "map_of (rev (filter (\<lambda>e. fst e \<noteq> 0) es)) = tableMap es"
proof
  fix m
  let ?xs = "rev (filter (\<lambda>e. fst e \<noteq> 0) es)"
  show "map_of ?xs m = tableMap es m"
  proof (cases "map_of ?xs m")
    case None
    then have no: "(m, l) \<notin> set ?xs" for l using weak_map_of_SomeI [of m l ?xs] by auto
    have "tableMap es m \<noteq> Some l" for l
    proof
      assume l: "tableMap es m = Some l"
      then have "m \<noteq> 0" by (auto simp: tableMap_def)
      then have "(m, l) \<in> set es" using l map_of_slot [OF assms] by (auto simp: in_set_conv_nth)
      then show False using no \<open>m \<noteq> 0\<close> by auto
    qed
    then show ?thesis using None by (metis option.exhaust)
  next
    case (Some l)
    then have "(m, l) \<in> set es" "m \<noteq> 0" using map_of_SomeD [OF Some] by auto
    then have "tableMap es m = Some l" using map_of_slot [OF assms] by (auto simp: in_set_conv_nth)
    then show ?thesis using Some by simp
  qed
qed

lemma emptyTable_map [simp]: "tableMap [] = Map.empty" "used [] = 0"
  by (simp_all add: tableMap_def used_def fun_eq_iff)

text \<open>The constructor reserves before the first insertion; later growths rehash.\<close>

lemma reserveSlots_ok:
  assumes t: "tableInv t \<or> t = emptyTable" and grow: "nt_reserved t < desired" "used (nt_entries t) < desired"
  shows "\<exists>t'. reserveSlots desired t = Some t' \<and> tableInv t' \<and> desired \<le> nt_reserved t' \<and>
    nt_size t' \<le> nt_size t \<and> tableMap (nt_entries t') = tableMap (nt_entries t)"
proof -
  let ?n = "bucketCountFor desired" and ?es = "nt_entries t"
  let ?fresh = "\<lparr> nt_entries = replicate ?n (0, 0), nt_size = 0, nt_reserved = ?n div 4 \<rparr>"
  note n = bucketCountFor_ok [of desired]
  obtain k where k: "?n = 2 ^ k" using n(2) by blast
  have "entriesOk (nt_entries ?fresh)" using freshEntries(1) [of k] k by simp
  moreover have "used (nt_entries ?fresh) + used ?es < length (nt_entries ?fresh)"
    using grow n(1) freshEntries(2) by simp
  moreover have "nt_size ?fresh = used (nt_entries ?fresh)" using freshEntries(2) by simp
  ultimately obtain t' where t': "insertAll ?es ?fresh = Some t'" "entriesOk (nt_entries t')"
    "nt_size t' = used (nt_entries t')" "length (nt_entries t') = ?n" "nt_reserved t' = ?n div 4"
    "used (nt_entries t') \<le> used ?es"
    "tableMap (nt_entries t') = map_of (rev (filter (\<lambda>e. fst e \<noteq> 0) ?es))"
    using insertAll_ok [of ?fresh ?es] freshEntries(2,3) by auto
  have "map_of (rev (filter (\<lambda>e. fst e \<noteq> 0) ?es)) = tableMap ?es"
    using t rebuilt_map by (auto simp: tableInv_def emptyTable_def)
  moreover have "nt_size t = used ?es" using t by (auto simp: tableInv_def emptyTable_def)
  moreover have "desired \<le> ?n div 4" "?n div 4 < ?n" using n(1,3) by simp_all
  moreover have "reserveSlots desired t = insertAll ?es ?fresh"
    using grow(1) by (simp add: reserveSlots_def Let_def)
  ultimately show ?thesis using t' grow(2) by (auto simp: tableInv_def)
qed

lemma insertCached_ok:
  assumes "tableInv t" "nt_size t < nt_reserved t" "node \<noteq> 0"
  shows "\<exists>t'. insertCachedLiteral node lit t = Some t' \<and> tableInv t' \<and>
    tableMap (nt_entries t') = (tableMap (nt_entries t))(node \<mapsto> lit)"
proof -
  have t: "entriesOk (nt_entries t)" "used (nt_entries t) < length (nt_entries t)" "nt_entries t \<noteq> []"
    using assms by (auto simp: tableInv_def)
  show ?thesis
    using insertSlot_ok [OF t(1,2) assms(3), of lit] assms(1,2) t(3)
    by (auto simp: insertCachedLiteral_def tableInv_def split: if_splits)
qed

lemma cacheLiteral_ok:
  assumes "tableInv t" "node \<noteq> 0"
  shows "\<exists>t'. cacheLiteral node lit t = Some t' \<and> tableInv t' \<and>
    tableMap (nt_entries t') = (tableMap (nt_entries t))(node \<mapsto> lit)"
proof (cases "nt_size t + 1 > nt_reserved t")
  case True
  let ?d = "nt_size t + 1 + max ((nt_size t + 1) div 2) 4096"
  have "nt_reserved t < ?d" "used (nt_entries t) < ?d" using assms(1) True by (auto simp: tableInv_def)
  then obtain t1 where t1: "reserveSlots ?d t = Some t1" "tableInv t1" "?d \<le> nt_reserved t1"
    "nt_size t1 \<le> nt_size t" "tableMap (nt_entries t1) = tableMap (nt_entries t)"
    using reserveSlots_ok [of t ?d] assms(1) by blast
  have "nt_size t1 < nt_reserved t1" using t1(3,4) by linarith
  then show ?thesis using insertCached_ok [OF t1(2) _ assms(2), of lit] t1 True by (simp add: cacheLiteral_def Let_def)
next
  case False
  then show ?thesis using insertCached_ok [OF assms(1) _ assms(2), of lit] by (simp add: cacheLiteral_def Let_def)
qed

lemma findLiteral_ok:
  assumes "tableInv t" "node \<noteq> 0"
  shows "findLiteral node t = Some (case tableMap (nt_entries t) node of None \<Rightarrow> 0 | Some l \<Rightarrow> l)"
proof -
  have t: "entriesOk (nt_entries t)" "used (nt_entries t) < length (nt_entries t)" "nt_entries t \<noteq> []"
    using assms by (auto simp: tableInv_def)
  obtain slot0 where free: "slot0 < length (nt_entries t)" "fst (nt_entries t ! slot0) = 0"
    using free_slot [OF t(2)] by blast
  show ?thesis
    using probe_returns [OF t(1) free assms(2)] t(3) assms(2) by (auto simp: findLiteral_def homeSlot_def)
qed

lemma constructed_ok:
  assumes "0 < desired"
  shows "\<exists>t. reserveSlots desired emptyTable = Some t \<and> tableInv t \<and> tableMap (nt_entries t) = Map.empty"
  using reserveSlots_ok [of emptyTable desired] assms by (auto simp: emptyTable_def)

section \<open>The interface of the cache\<close>

text \<open>What the encoder relies on: a found literal is the last one cached, 0 is "not cached".\<close>

locale literal_cache =
  fixes inv :: "'t \<Rightarrow> bool" and find :: "u64 \<Rightarrow> 't \<Rightarrow> int option" and cache :: "u64 \<Rightarrow> int \<Rightarrow> 't \<Rightarrow> 't option"
    and abs :: "'t \<Rightarrow> u64 \<rightharpoonup> int"
  assumes cache_ok: "inv t \<Longrightarrow> p \<noteq> 0 \<Longrightarrow> \<exists>t'. cache p l t = Some t' \<and> inv t' \<and> abs t' = (abs t)(p \<mapsto> l)"
    and find_ok: "inv t \<Longrightarrow> p \<noteq> 0 \<Longrightarrow> find p t = Some (case abs t p of None \<Rightarrow> 0 | Some l \<Rightarrow> l)"
begin

fun cacheAll :: "(u64 \<times> int) list \<Rightarrow> 't \<Rightarrow> 't option" where
  "cacheAll [] t = Some t"
| "cacheAll ((p, l) # rest) t = (case cache p l t of None \<Rightarrow> None | Some t' \<Rightarrow> cacheAll rest t')"

lemma cacheAll_ok:
  "inv t \<Longrightarrow> \<forall>x \<in> set xs. fst x \<noteq> 0 \<Longrightarrow>
   \<exists>t'. cacheAll xs t = Some t' \<and> inv t' \<and> abs t' = abs t ++ map_of (rev xs)"
proof (induction xs arbitrary: t)
  case (Cons x xs)
  obtain p l where x: "x = (p, l)" by (cases x)
  obtain t1 where t1: "cache p l t = Some t1" "inv t1" "abs t1 = (abs t)(p \<mapsto> l)"
    using cache_ok [OF Cons.prems(1), of p l] Cons.prems(2) x by auto
  obtain t' where t': "cacheAll xs t1 = Some t'" "inv t'" "abs t' = abs t1 ++ map_of (rev xs)"
    using Cons.IH [OF t1(2)] Cons.prems(2) by auto
  have "cacheAll (x # xs) t = Some t'" by (simp add: x t1(1) t'(1))
  then show ?case using t'(2,3) by (auto simp: x t1(3))
qed simp

lemma find_after:
  assumes "inv t" "\<forall>x \<in> set xs. fst x \<noteq> 0" "p \<noteq> 0"
  shows "\<exists>t'. cacheAll xs t = Some t' \<and>
    find p t' = Some (case (abs t ++ map_of (rev xs)) p of None \<Rightarrow> 0 | Some l \<Rightarrow> l)"
  using cacheAll_ok [OF assms(1,2)] find_ok [OF _ assms(3)] by fastforce

end

interpretation flat_cache: literal_cache tableInv findLiteral cacheLiteral "\<lambda>t. tableMap (nt_entries t)"
  by unfold_locales (use cacheLiteral_ok findLiteral_ok in auto)

end
