(* ===== verification/Sat_Encoding.thy ===== *)
theory Sat_Encoding
  imports Sat_Gates Expr_Eval
begin

text \<open>
  \<open>FrameFormulaEncoder\<close> of \<open>sec/kinduction/SatEncoding.cpp\<close>: the Tseitin encoding of an
  expression DAG into the clauses of a solver.  The encoder keeps the literal of every node it
  has encoded (its open-addressing table is a map here; \<open>Node_Cache\<close> refines the table to the
  map), the literals of the leaves, and the literal of the constant true, which it allocates
  on the first test for a constant.
\<close>

section \<open>The encoder\<close>

record encoder =
  en_solver :: solver
  en_leafLits :: "var_id \<rightharpoonup> int"
  en_symbolMap :: "(var_id \<rightharpoonup> var_id) option"
  en_createMissing :: bool
  en_hint :: nat
  en_nodeToLit :: "bexpr \<rightharpoonup> int"
  en_trueLit :: "int option"

definition reserveNodeCache :: "encoder \<Rightarrow> encoder" where
  "reserveNodeCache en =
    (let base = max 256 (min (card (dom (en_leafLits en)) * 4) 65536);
         expectedNodes =
           (if en_hint en \<noteq> 0
            then max base (min (en_hint en + max (en_hint en div 8) 256) 1048576)
            else base)
     in en\<lparr> en_solver := reserveAdditionalVars (min expectedNodes 1048576) (en_solver en) \<rparr>)"

definition newEncoder :: "solver \<Rightarrow> (var_id \<rightharpoonup> int) \<Rightarrow> (var_id \<rightharpoonup> var_id) option \<Rightarrow> bool \<Rightarrow> nat \<Rightarrow> encoder" where
  "newEncoder s leafLits symbolMap createMissing hint =
    reserveNodeCache \<lparr> en_solver = s, en_leafLits = leafLits, en_symbolMap = symbolMap,
      en_createMissing = createMissing, en_hint = hint, en_nodeToLit = Map.empty, en_trueLit = None \<rparr>"

definition addLeafLiteral :: "var_id \<Rightarrow> int \<Rightarrow> encoder \<Rightarrow> error + encoder" where
  "addLeafLiteral symbol literal en =
    (case en_leafLits en symbol of
       None \<Rightarrow> Inr (en\<lparr> en_leafLits := (en_leafLits en)(symbol \<mapsto> literal) \<rparr>)
     | Some existing \<Rightarrow>
        if existing \<noteq> literal then Inl (Logic_Error ''FrameFormulaEncoder leaf literal changed'')
        else Inr en)"

definition findCachedLiteral :: "bexpr \<Rightarrow> encoder \<Rightarrow> int" where
  "findCachedLiteral n en = (case en_nodeToLit en n of None \<Rightarrow> 0 | Some l \<Rightarrow> l)"

definition cachedLiteral :: "bexpr \<Rightarrow> encoder \<Rightarrow> error + int" where
  "cachedLiteral n en = (let lit = findCachedLiteral n en in
     if lit \<noteq> 0 then Inr lit else Inl (Runtime_Error ''Missing cached BoolExpr literal''))"

definition mapSymbol :: "(var_id \<rightharpoonup> var_id) option \<Rightarrow> var_id \<Rightarrow> error + var_id" where
  "mapSymbol symbolMap symbol =
    (case symbolMap of
       None \<Rightarrow> Inr symbol
     | Some sm \<Rightarrow> if symbol < 2 then Inr symbol
        else (case sm symbol of
                None \<Rightarrow> Inl (Runtime_Error (''Missing frame encoder symbol remap for variable '' @ showWord symbol))
              | Some mapped \<Rightarrow> Inr mapped))"

definition mappedSymbol :: "encoder \<Rightarrow> var_id \<Rightarrow> error + var_id" where
  "mappedSymbol en symbol = mapSymbol (en_symbolMap en) symbol"

definition cacheEncodedLiteral :: "bexpr \<Rightarrow> int \<Rightarrow> encoder \<Rightarrow> encoder" where
  "cacheEncodedLiteral n lit en = en\<lparr> en_nodeToLit := (en_nodeToLit en)(n \<mapsto> lit) \<rparr>"

text \<open>A fresh literal with the clauses that define it.\<close>

definition defineLit :: "(int \<Rightarrow> int list list) \<Rightarrow> encoder \<Rightarrow> error + int \<times> encoder" where
  "defineLit clauses en =
    (case newSolverLiteral (en_solver en) of (lit, s) \<Rightarrow>
       bindE (addClauses (clauses lit) s) (\<lambda>s'. Inr (lit, en\<lparr> en_solver := s' \<rparr>)))"

definition getConstLit :: "bool \<Rightarrow> encoder \<Rightarrow> error + int \<times> encoder" where
  "getConstLit value en =
    (case en_trueLit en of
       Some t \<Rightarrow> Inr (if value then t else - t, en)
     | None \<Rightarrow> bindE (defineLit (\<lambda>lit. [[lit]]) en)
         (\<lambda>(lit, en'). Inr (if value then lit else - lit, en'\<lparr> en_trueLit := Some lit \<rparr>)))"

definition isConstLit :: "int \<Rightarrow> bool \<Rightarrow> encoder \<Rightarrow> error + bool \<times> encoder" where
  "isConstLit lit value en = bindE (getConstLit value en) (\<lambda>(c, en'). Inr (lit = c, en'))"

text \<open>\<open>a || b\<close>, where \<open>b\<close> changes the state.\<close>

definition orElse :: "(encoder \<Rightarrow> error + bool \<times> encoder) \<Rightarrow> (encoder \<Rightarrow> error + bool \<times> encoder) \<Rightarrow>
    encoder \<Rightarrow> error + bool \<times> encoder" where
  "orElse a b en = bindE (a en) (\<lambda>(x, en'). if x then Inr (True, en') else b en')"

definition pureTest :: "bool \<Rightarrow> encoder \<Rightarrow> error + bool \<times> encoder" where
  "pureTest b en = Inr (b, en)"

definition ifE :: "(encoder \<Rightarrow> error + bool \<times> encoder) \<Rightarrow> (encoder \<Rightarrow> error + 'a) \<Rightarrow> (encoder \<Rightarrow> error + 'a) \<Rightarrow>
    encoder \<Rightarrow> error + 'a" where
  "ifE c f g en = bindE (c en) (\<lambda>(x, en'). if x then f en' else g en')"

definition keep :: "int \<Rightarrow> encoder \<Rightarrow> error + int \<times> encoder" where
  "keep lit en = Inr (lit, en)"

definition andClauses :: "int \<Rightarrow> int \<Rightarrow> int \<Rightarrow> int list list" where
  "andClauses l r lit = [[- lit, l], [- lit, r], [lit, - l, - r]]"

definition orClauses :: "int \<Rightarrow> int \<Rightarrow> int \<Rightarrow> int list list" where
  "orClauses l r lit = [[- l, lit], [- r, lit], [- lit, l, r]]"

definition encodeAnd :: "int \<Rightarrow> int \<Rightarrow> encoder \<Rightarrow> error + int \<times> encoder" where
  "encodeAnd l r =
    ifE (orElse (pureTest (l = r)) (isConstLit r True)) (keep l)
   (ifE (isConstLit l True) (keep r)
   (ifE (orElse (pureTest (l = - r)) (orElse (isConstLit l False) (isConstLit r False))) (getConstLit False)
     (defineLit (andClauses l r))))"

definition encodeOr :: "int \<Rightarrow> int \<Rightarrow> encoder \<Rightarrow> error + int \<times> encoder" where
  "encodeOr l r =
    ifE (orElse (pureTest (l = r)) (isConstLit r False)) (keep l)
   (ifE (isConstLit l False) (keep r)
   (ifE (orElse (pureTest (l = - r)) (orElse (isConstLit l True) (isConstLit r True))) (getConstLit True)
     (defineLit (orClauses l r))))"

definition encodeXor :: "int \<Rightarrow> int \<Rightarrow> encoder \<Rightarrow> error + int \<times> encoder" where
  "encodeXor l r =
    ifE (pureTest (l = r)) (getConstLit False)
   (ifE (pureTest (l = - r)) (getConstLit True)
   (ifE (isConstLit l False) (keep r)
   (ifE (isConstLit r False) (keep l)
   (ifE (isConstLit l True) (keep (- r))
   (ifE (isConstLit r True) (keep (- l))
     (defineLit (xorClauses l r)))))))"

fun encodeReadyNode :: "bexpr \<Rightarrow> encoder \<Rightarrow> error + encoder" where
  "encodeReadyNode (BVar v) en =
    (if v = 0 then bindE (getConstLit False en) (\<lambda>(l, en'). Inr (cacheEncodedLiteral (BVar v) l en'))
     else if v = 1 then bindE (getConstLit True en) (\<lambda>(l, en'). Inr (cacheEncodedLiteral (BVar v) l en'))
     else bindE (mappedSymbol en v) (\<lambda>symbol.
       case en_leafLits en symbol of
         Some l \<Rightarrow> Inr (cacheEncodedLiteral (BVar v) l en)
       | None \<Rightarrow>
          if \<not> en_createMissing en
          then Inl (Runtime_Error (''Missing leaf literal for symbol '' @ showWord symbol))
          else (case newSolverLiteral (en_solver en) of (l, s) \<Rightarrow>
            Inr (cacheEncodedLiteral (BVar v) l
              (en\<lparr> en_solver := s, en_leafLits := (en_leafLits en)(symbol \<mapsto> l) \<rparr>)))))"
| "encodeReadyNode (BNot a) en = bindE (cachedLiteral a en) (\<lambda>l. Inr (cacheEncodedLiteral (BNot a) (- l) en))"
| "encodeReadyNode (BAnd a b) en = bindE (cachedLiteral a en) (\<lambda>l. bindE (cachedLiteral b en) (\<lambda>r.
     bindE (encodeAnd l r en) (\<lambda>(lit, en'). Inr (cacheEncodedLiteral (BAnd a b) lit en'))))"
| "encodeReadyNode (BOr a b) en = bindE (cachedLiteral a en) (\<lambda>l. bindE (cachedLiteral b en) (\<lambda>r.
     bindE (encodeOr l r en) (\<lambda>(lit, en'). Inr (cacheEncodedLiteral (BOr a b) lit en'))))"
| "encodeReadyNode (BXor a b) en = bindE (cachedLiteral a en) (\<lambda>l. bindE (cachedLiteral b en) (\<lambda>r.
     bindE (encodeXor l r en) (\<lambda>(lit, en'). Inr (cacheEncodedLiteral (BXor a b) lit en'))))"

definition encodeVisitor :: "(encoder, error) visitor" where
  "encodeVisitor =
    \<lparr> v_done = (\<lambda>en n. findCachedLiteral n en \<noteq> 0), v_leaf = True, v_swap = (\<lambda>_. False),
      v_push = (\<lambda>_ _. True), v_enter = (\<lambda>_ en. Inr en), v_finish = encodeReadyNode \<rparr>"

definition encode :: "bexpr option \<Rightarrow> encoder \<Rightarrow> error + int \<times> encoder" where
  "encode expr en =
    (case expr of
       None \<Rightarrow> Inl (Invalid_Argument ''FrameFormulaEncoder::encode: null expr'')
     | Some e \<Rightarrow> bindE (postLoop encodeVisitor [(e, False)] en)
         (\<lambda>en'. bindE (cachedLiteral e en') (\<lambda>l. Inr (l, en'))))"

text \<open>Encoding along a prepared post-order.\<close>

definition encodeNextNode :: "bexpr \<Rightarrow> encoder \<Rightarrow> error + encoder" where
  "encodeNextNode n en =
    (if findCachedLiteral n en \<noteq> 0 then Inr en
     else if \<exists>c \<in> set (children n). findCachedLiteral c en = 0
     then Inl (Runtime_Error ''FrameFormulaEncoder postorder contains an unencoded child'')
     else encodeReadyNode n en)"

definition encodeAlong :: "bexpr option \<Rightarrow> bexpr list \<Rightarrow> encoder \<Rightarrow> error + int \<times> encoder" where
  "encodeAlong expr ord en =
    (case expr of
       None \<Rightarrow> Inl (Invalid_Argument ''FrameFormulaEncoder::encode: null expr'')
     | Some e \<Rightarrow> bindE (foldE encodeNextNode ord en)
         (\<lambda>en'. bindE (cachedLiteral e en') (\<lambda>l. Inr (l, en'))))"

section \<open>What the encoder maintains\<close>

definition enBelow :: "encoder \<Rightarrow> int \<Rightarrow> bool" where
  "enBelow en l = litBelow (sv_vars (en_solver en)) l"

definition enModels :: "assignment \<Rightarrow> encoder \<Rightarrow> bool" where
  "enModels M en = models M (en_solver en)"

text \<open>The value that a model gives to a symbol of the expressions.\<close>

definition leafValue :: "encoder \<Rightarrow> assignment \<Rightarrow> var_id \<Rightarrow> bool" where
  "leafValue en M v = (case mappedSymbol en v of Inl _ \<Rightarrow> False | Inr s \<Rightarrow>
     (case en_leafLits en s of None \<Rightarrow> False | Some l \<Rightarrow> litTrue M l))"

definition leafKnown :: "encoder \<Rightarrow> var_id \<Rightarrow> bool" where
  "leafKnown en v = (case mappedSymbol en v of Inl _ \<Rightarrow> False | Inr s \<Rightarrow> en_leafLits en s \<noteq> None)"

definition encodes :: "encoder \<Rightarrow> bexpr \<Rightarrow> int \<Rightarrow> bool" where
  "encodes en n l = (enBelow en l \<and> (\<forall>v \<in> support n. leafKnown en v) \<and>
     (\<forall>M. enModels M en \<longrightarrow> litTrue M l = eval (leafValue en M) n))"

definition trueLitOk :: "encoder \<Rightarrow> bool" where
  "trueLitOk en = (\<forall>t. en_trueLit en = Some t \<longrightarrow> enBelow en t \<and> (\<forall>M. enModels M en \<longrightarrow> litTrue M t))"

definition encInv :: "encoder \<Rightarrow> bool" where
  "encInv en = (solverInv (en_solver en) \<and> trueLitOk en \<and>
     (\<forall>s l. en_leafLits en s = Some l \<longrightarrow> enBelow en l) \<and>
     (\<forall>n l. en_nodeToLit en n = Some l \<longrightarrow> encodes en n l))"

definition encGrows :: "encoder \<Rightarrow> encoder \<Rightarrow> bool" where
  "encGrows en en' = (conservative (en_solver en) (en_solver en') \<and>
     en_leafLits en \<subseteq>\<^sub>m en_leafLits en' \<and> en_nodeToLit en \<subseteq>\<^sub>m en_nodeToLit en' \<and>
     en_symbolMap en' = en_symbolMap en \<and> en_createMissing en' = en_createMissing en)"

lemma encGrows_refl [simp]: "encGrows en en"
  by (simp add: encGrows_def)

lemma encGrows_trans: "encGrows a b \<Longrightarrow> encGrows b c \<Longrightarrow> encGrows a c"
  unfolding encGrows_def using conservative_trans map_le_trans by metis

lemma enBelow_grows: "encGrows en en' \<Longrightarrow> enBelow en l \<Longrightarrow> enBelow en' l"
  unfolding enBelow_def encGrows_def using litBelow_mono conservative_vars by blast

lemma enModels_grows: "encGrows en en' \<Longrightarrow> enModels M en' \<Longrightarrow> enModels M en"
  unfolding enModels_def encGrows_def using conservative_models by blast

lemma mappedSymbol_grows: "encGrows en en' \<Longrightarrow> mappedSymbol en' = mappedSymbol en"
  by (rule ext) (simp add: mappedSymbol_def encGrows_def)

lemma leafKnown_grows:
  assumes "encGrows en en'" "leafKnown en v"
  shows "leafKnown en' v" "leafValue en' M v = leafValue en M v"
proof -
  obtain s l where s: "mappedSymbol en v = Inr s" "en_leafLits en s = Some l"
    using assms(2) by (auto simp: leafKnown_def split: sum.splits)
  moreover have "en_leafLits en' s = Some l"
    using assms(1) s(2) unfolding encGrows_def map_le_def by (metis domI)
  ultimately show "leafKnown en' v" "leafValue en' M v = leafValue en M v"
    using mappedSymbol_grows [OF assms(1)] by (simp_all add: leafKnown_def leafValue_def)
qed

lemma encodes_grows:
  assumes "encGrows en en'" "encodes en n l"
  shows "encodes en' n l"
proof -
  have "eval (leafValue en' M) n = eval (leafValue en M) n" for M
    using assms leafKnown_grows by (intro eval_cong) (auto simp: encodes_def)
  then show ?thesis
    using assms leafKnown_grows(1) enBelow_grows enModels_grows unfolding encodes_def by metis
qed

section \<open>Literal steps\<close>

text \<open>A step that adds variables and clauses only.\<close>

definition litStep :: "encoder \<Rightarrow> encoder \<Rightarrow> bool" where
  "litStep en en' = (encInv en' \<and> encGrows en en' \<and> en_leafLits en' = en_leafLits en \<and>
     en_nodeToLit en' = en_nodeToLit en)"

definition gives :: "encoder \<Rightarrow> (error + int \<times> encoder) \<Rightarrow> (assignment \<Rightarrow> bool) \<Rightarrow> bool" where
  "gives en r g = (\<exists>l en'. r = Inr (l, en') \<and> litStep en en' \<and> enBelow en' l \<and>
     (\<forall>M. enModels M en' \<longrightarrow> litTrue M l = g M))"

definition decides :: "encoder \<Rightarrow> (error + bool \<times> encoder) \<Rightarrow> (assignment \<Rightarrow> bool) \<Rightarrow> bool" where
  "decides en r P = (\<exists>b en'. r = Inr (b, en') \<and> litStep en en' \<and> (b \<longrightarrow> (\<forall>M. enModels M en' \<longrightarrow> P M)))"

lemma litStep_refl: "encInv en \<Longrightarrow> litStep en en"
  by (simp add: litStep_def)

lemma litStep_trans: "litStep a b \<Longrightarrow> litStep b c \<Longrightarrow> litStep a c"
  unfolding litStep_def using encGrows_trans by metis

lemma litStep_below: "litStep en en' \<Longrightarrow> enBelow en l \<Longrightarrow> enBelow en' l"
  unfolding litStep_def using enBelow_grows by blast

lemma litStep_inv: "litStep en en' \<Longrightarrow> encInv en'"
  by (simp add: litStep_def)

lemma litStep_models: "litStep en en' \<Longrightarrow> enModels M en' \<Longrightarrow> enModels M en"
  unfolding litStep_def using enModels_grows by blast

lemma encInv_grows:
  assumes "encInv en" "encGrows en en'" "solverInv (en_solver en')" "trueLitOk en'"
    "en_leafLits en' = en_leafLits en" "en_nodeToLit en' = en_nodeToLit en"
  shows "litStep en en'"
  unfolding litStep_def encInv_def
  using assms enBelow_grows [OF assms(2)] encodes_grows [OF assms(2)] by (simp add: encInv_def)

lemma defineLit_gives:
  assumes inv: "encInv en"
    and below: "\<And>lit c. litBelow (Suc (sv_vars (en_solver en))) lit \<Longrightarrow> c \<in> set (clauses lit) \<Longrightarrow>
      litsBelow (Suc (sv_vars (en_solver en))) c"
    and clauses: "\<And>lit M. litBelow (Suc (sv_vars (en_solver en))) lit \<Longrightarrow>
      (\<forall>c \<in> set (clauses lit). clauseTrue M c) = (litTrue M lit = g M)"
    and old: "readsBelow (sv_vars (en_solver en)) g"
  shows "gives en (defineLit clauses en) g"
proof -
  obtain lit s where lit: "newSolverLiteral (en_solver en) = (lit, s)" by fastforce
  note fields = newSolverLiteral_fields [OF lit]
  have "solverInv (en_solver en)" using inv by (simp add: encInv_def)
  then have "\<exists>s'. addClauses (clauses lit) s = Inr s' \<and> sv_vars s' = sv_vars s \<and> solverInv s' \<and>
    conservative (en_solver en) s' \<and> litBelow (sv_vars s') lit \<and>
    (\<forall>M. models M s' = (models M (en_solver en) \<and> litTrue M lit = g M))"
    by (rule define_literal [OF _ lit])
      (use below clauses fields(2,5) old in \<open>auto dest: readsBelowD\<close>)
  then obtain s' where s': "addClauses (clauses lit) s = Inr s'" "solverInv s'"
    "conservative (en_solver en) s'" "litBelow (sv_vars s') lit"
    "\<And>M. models M s' = (models M (en_solver en) \<and> litTrue M lit = g M)" by blast
  let ?en = "en\<lparr> en_solver := s' \<rparr>"
  have grows: "encGrows en ?en" using s'(3) by (simp add: encGrows_def)
  have "trueLitOk ?en"
    using inv enBelow_grows [OF grows] enModels_grows [OF grows] by (simp add: encInv_def trueLitOk_def)
  then have "litStep en ?en" using encInv_grows [OF inv grows] s'(2) by simp
  moreover have "defineLit clauses en = Inr (lit, ?en)" by (simp add: defineLit_def lit s'(1))
  ultimately show ?thesis using s'(4,5) by (auto simp: gives_def enBelow_def enModels_def)
qed

lemma enBelow_litTrue: "enBelow en l \<Longrightarrow> readsBelow (sv_vars (en_solver en)) (\<lambda>M. litTrue M l)"
  unfolding enBelow_def by (rule readsBelow_litTrue)

lemma enBelow_neg [simp]: "enBelow en (- l) = enBelow en l"
  by (simp add: enBelow_def)

lemma litTrue_enBelow [simp]: "enBelow en l \<Longrightarrow> litTrue M (- l) = (\<not> litTrue M l)"
  by (simp add: enBelow_def)

lemma getConstLit_gives: "encInv en \<Longrightarrow> gives en (getConstLit value en) (\<lambda>M. value)"
proof (cases "en_trueLit en")
  case None
  assume inv: "encInv en"
  have "gives en (defineLit (\<lambda>lit. [[lit]]) en) (\<lambda>M. True)"
    by (rule defineLit_gives [OF inv]) (auto simp: readsBelow_def)
  then obtain lit en1 where d: "defineLit (\<lambda>lit. [[lit]]) en = Inr (lit, en1)" "litStep en en1"
    "enBelow en1 lit" "\<And>M. enModels M en1 \<Longrightarrow> litTrue M lit" by (auto simp: gives_def)
  let ?en = "en1\<lparr> en_trueLit := Some lit \<rparr>"
  have grows: "encGrows en1 ?en" by (simp add: encGrows_def)
  have "trueLitOk ?en" using d(3,4) by (simp add: trueLitOk_def enBelow_def enModels_def)
  then have "litStep en1 ?en"
    using encInv_grows [OF litStep_inv [OF d(2)] grows] litStep_inv [OF d(2)] by (simp add: encInv_def)
  then have "litStep en ?en" by (rule litStep_trans [OF d(2)])
  moreover have "enBelow ?en lit" "\<And>M. enModels M ?en \<Longrightarrow> litTrue M lit"
    using d(3,4) by (simp_all add: enBelow_def enModels_def)
  moreover have "getConstLit value en = Inr (if value then lit else - lit, ?en)"
    by (simp add: getConstLit_def None d(1))
  ultimately show ?thesis unfolding gives_def by (intro exI [of _ "if value then lit else - lit"] exI [of _ ?en]) simp
next
  case (Some t)
  assume inv: "encInv en"
  then have "enBelow en t" "\<And>M. enModels M en \<Longrightarrow> litTrue M t"
    using Some by (simp_all add: encInv_def trueLitOk_def)
  then show ?thesis using litStep_refl [OF inv] by (simp add: gives_def getConstLit_def Some)
qed

lemma keep_gives:
  assumes "encInv en" "enBelow en l" "\<And>M. enModels M en \<Longrightarrow> litTrue M l = g M"
  shows "gives en (keep l en) g"
  using assms litStep_refl by (simp add: gives_def keep_def)

lemma isConstLit_decides: "encInv en \<Longrightarrow> decides en (isConstLit l value en) (\<lambda>M. litTrue M l = value)"
  using getConstLit_gives [of en "value"] by (auto simp: gives_def decides_def isConstLit_def)

lemma pureTest_decides: "encInv en \<Longrightarrow> (b \<Longrightarrow> \<forall>M. P M) \<Longrightarrow> decides en (pureTest b en) P"
  using litStep_refl by (simp add: decides_def pureTest_def)

lemma decides_weaken: "decides en r P \<Longrightarrow> (\<And>M. P M \<Longrightarrow> Q M) \<Longrightarrow> decides en r Q"
  by (auto simp: decides_def)

lemma gives_when:
  assumes "gives en r g" "\<And>M. enModels M en \<Longrightarrow> g M = h M"
  shows "gives en r h"
  using assms litStep_models unfolding gives_def by metis

lemma defineLit_gate:
  assumes "encInv en" "enBelow en l" "enBelow en r"
  shows "gives en (defineLit (andClauses l r) en) (\<lambda>M. litTrue M l \<and> litTrue M r)"
    "gives en (defineLit (orClauses l r) en) (\<lambda>M. litTrue M l \<or> litTrue M r)"
    "gives en (defineLit (xorClauses l r) en) (\<lambda>M. litTrue M l \<noteq> litTrue M r)"
proof -
  let ?n = "sv_vars (en_solver en)"
  have up: "litBelow (Suc ?n) l" "litBelow (Suc ?n) r" "litBelow ?n l" "litBelow ?n r"
    using assms litBelow_mono [of ?n _ "Suc ?n"] by (simp_all add: enBelow_def)
  have reads: "readsBelow ?n (\<lambda>M. litTrue M l \<and> litTrue M r)" "readsBelow ?n (\<lambda>M. litTrue M l \<or> litTrue M r)"
    "readsBelow ?n (\<lambda>M. litTrue M l \<noteq> litTrue M r)"
    using readsBelow_litTrue [OF up(3)] readsBelow_litTrue [OF up(4)] unfolding readsBelow_def by blast+
  show "gives en (defineLit (andClauses l r) en) (\<lambda>M. litTrue M l \<and> litTrue M r)"
    by (rule defineLit_gives [OF assms(1) _ _ reads(1)]) (use up in \<open>auto simp: andClauses_def\<close>)
  show "gives en (defineLit (orClauses l r) en) (\<lambda>M. litTrue M l \<or> litTrue M r)"
    by (rule defineLit_gives [OF assms(1) _ _ reads(2)]) (use up in \<open>auto simp: orClauses_def\<close>)
  show "gives en (defineLit (xorClauses l r) en) (\<lambda>M. litTrue M l \<noteq> litTrue M r)"
    by (rule defineLit_gives [OF assms(1) _ _ reads(3)]) (use up in \<open>auto simp: xorClauses_def\<close>)
qed

text \<open>The encodings of the binary nodes are chains of tests on two literals \<open>l\<close> and \<open>r\<close>.\<close>

definition knows :: "int \<Rightarrow> int \<Rightarrow> encoder \<Rightarrow> bool" where
  "knows l r en = (encInv en \<and> enBelow en l \<and> enBelow en r)"

definition isTest :: "int \<Rightarrow> int \<Rightarrow> (encoder \<Rightarrow> error + bool \<times> encoder) \<Rightarrow> (assignment \<Rightarrow> bool) \<Rightarrow> bool" where
  "isTest l r c P = (\<forall>en. knows l r en \<longrightarrow> decides en (c en) P)"

definition isBranch :: "int \<Rightarrow> int \<Rightarrow> (encoder \<Rightarrow> error + int \<times> encoder) \<Rightarrow> (assignment \<Rightarrow> bool) \<Rightarrow>
    (assignment \<Rightarrow> bool) \<Rightarrow> bool" where
  "isBranch l r f P g = (\<forall>en. knows l r en \<and> (\<forall>M. enModels M en \<longrightarrow> P M) \<longrightarrow> gives en (f en) g)"

lemma knows_step: "knows l r en \<Longrightarrow> litStep en en' \<Longrightarrow> knows l r en'"
  unfolding knows_def using litStep_below litStep_inv by blast

lemma test_pure: "(b \<Longrightarrow> \<forall>M. P M) \<Longrightarrow> isTest l r (pureTest b) P"
  unfolding isTest_def knows_def using pureTest_decides by blast

lemma test_neg: "isTest l r (pureTest (l = - r)) (\<lambda>M. litTrue M l = (\<not> litTrue M r))"
  unfolding isTest_def
proof (intro allI impI)
  fix en assume "knows l r en"
  then have k: "encInv en" "enBelow en r" by (simp_all add: knows_def)
  have "l = - r \<Longrightarrow> \<forall>M. litTrue M l = (\<not> litTrue M r)" using litTrue_enBelow [OF k(2)] by simp
  then show "decides en (pureTest (l = - r) en) (\<lambda>M. litTrue M l = (\<not> litTrue M r))"
    by (rule pureTest_decides [OF k(1)])
qed

lemma test_const: "isTest l r (isConstLit k value) (\<lambda>M. litTrue M k = value)"
  unfolding isTest_def knows_def using isConstLit_decides by blast

lemma test_or:
  assumes "isTest l r a P" "isTest l r b Q"
  shows "isTest l r (orElse a b) (\<lambda>M. P M \<or> Q M)"
  unfolding isTest_def
proof (intro allI impI)
  fix en assume k: "knows l r en"
  obtain x en1 where x: "a en = Inr (x, en1)" "litStep en en1" "x \<longrightarrow> (\<forall>M. enModels M en1 \<longrightarrow> P M)"
    using assms(1) k by (auto simp: isTest_def decides_def)
  obtain y en2 where y: "b en1 = Inr (y, en2)" "litStep en1 en2" "y \<longrightarrow> (\<forall>M. enModels M en2 \<longrightarrow> Q M)"
    using assms(2) knows_step [OF k x(2)] by (auto simp: isTest_def decides_def)
  show "decides en (orElse a b en) (\<lambda>M. P M \<or> Q M)"
    using x y litStep_trans [OF x(2) y(2)] by (cases x) (auto simp: decides_def orElse_def)
qed

lemma branch_if:
  assumes "isTest l r c P" "isBranch l r f P g" "isBranch l r h (\<lambda>M. True) g"
  shows "isBranch l r (ifE c f h) Q g"
  unfolding isBranch_def
proof (intro allI impI, elim conjE)
  fix en assume k: "knows l r en"
  obtain b en1 where b: "c en = Inr (b, en1)" "litStep en en1" "b \<longrightarrow> (\<forall>M. enModels M en1 \<longrightarrow> P M)"
    using assms(1) k by (auto simp: isTest_def decides_def)
  have "gives en1 (if b then f en1 else h en1) g"
    using assms(2,3) knows_step [OF k b(2)] b(3) by (simp add: isBranch_def)
  then show "gives en (ifE c f h en) g"
    using litStep_trans [OF b(2)] by (auto simp: gives_def ifE_def b(1))
qed

lemma branch_keep:
  "(\<And>M. P M \<Longrightarrow> litTrue M l = g M) \<Longrightarrow> isBranch l r (keep l) P g"
  "(\<And>M. P M \<Longrightarrow> litTrue M r = g M) \<Longrightarrow> isBranch l r (keep r) P g"
  "(\<And>M. P M \<Longrightarrow> (\<not> litTrue M l) = g M) \<Longrightarrow> isBranch l r (keep (- l)) P g"
  "(\<And>M. P M \<Longrightarrow> (\<not> litTrue M r) = g M) \<Longrightarrow> isBranch l r (keep (- r)) P g"
  unfolding isBranch_def knows_def by (auto intro!: keep_gives)

lemma branch_const: "(\<And>M. P M \<Longrightarrow> value = g M) \<Longrightarrow> isBranch l r (getConstLit value) P g"
  unfolding isBranch_def knows_def by (auto intro: gives_when [OF getConstLit_gives])

lemma branch_gates:
  "isBranch l r (defineLit (andClauses l r)) P (\<lambda>M. litTrue M l \<and> litTrue M r)"
  "isBranch l r (defineLit (orClauses l r)) P (\<lambda>M. litTrue M l \<or> litTrue M r)"
  "isBranch l r (defineLit (xorClauses l r)) P (\<lambda>M. litTrue M l \<noteq> litTrue M r)"
  unfolding isBranch_def knows_def using defineLit_gate by blast+

lemma test_same: "isTest l r (pureTest (l = r)) (\<lambda>M. litTrue M l = litTrue M r)"
  by (rule test_pure) simp

lemmas gate_branches = branch_if test_or test_same test_neg test_const branch_keep branch_const branch_gates

lemma encodeAnd_branch: "isBranch l r (encodeAnd l r) (\<lambda>M. True) (\<lambda>M. litTrue M l \<and> litTrue M r)"
  unfolding encodeAnd_def by (rule gate_branches | force)+

lemma encodeOr_branch: "isBranch l r (encodeOr l r) (\<lambda>M. True) (\<lambda>M. litTrue M l \<or> litTrue M r)"
  unfolding encodeOr_def by (rule gate_branches | force)+

lemma encodeXor_branch: "isBranch l r (encodeXor l r) (\<lambda>M. True) (\<lambda>M. litTrue M l \<noteq> litTrue M r)"
  unfolding encodeXor_def by (rule gate_branches | force)+

lemmas encode_branches = encodeAnd_branch encodeOr_branch encodeXor_branch

lemma encodeGate_gives:
  assumes "encInv en" "enBelow en l" "enBelow en r"
  shows "gives en (encodeAnd l r en) (\<lambda>M. litTrue M l \<and> litTrue M r)"
    "gives en (encodeOr l r en) (\<lambda>M. litTrue M l \<or> litTrue M r)"
    "gives en (encodeXor l r en) (\<lambda>M. litTrue M l \<noteq> litTrue M r)"
  using encode_branches assms by (simp_all add: isBranch_def knows_def)

section \<open>Nodes\<close>

lemma findCached_some [simp]:
  "encInv en \<Longrightarrow> findCachedLiteral n en \<noteq> 0 \<longleftrightarrow> en_nodeToLit en n \<noteq> None"
proof -
  assume "encInv en"
  then have "en_nodeToLit en n = Some l \<Longrightarrow> l \<noteq> 0" for l
    using validLit_nonzero unfolding encInv_def encodes_def enBelow_def litBelow_def by blast
  then show ?thesis by (auto simp: findCachedLiteral_def split: option.splits)
qed

lemma cachedLiteral_Inr: "encInv en \<Longrightarrow> cachedLiteral n en = Inr l \<longleftrightarrow> en_nodeToLit en n = Some l"
  using findCached_some [of en n] by (auto simp: cachedLiteral_def findCachedLiteral_def Let_def split: option.splits if_splits)

lemma leaf_same:
  assumes "en_leafLits en' = en_leafLits en" "en_symbolMap en' = en_symbolMap en"
  shows "leafKnown en' = leafKnown en" "leafValue en' = leafValue en"
  unfolding leafKnown_def leafValue_def mappedSymbol_def fun_eq_iff
  by (auto simp: assms split: sum.splits)

lemma encodes_same:
  assumes "en_leafLits en' = en_leafLits en" "en_symbolMap en' = en_symbolMap en" "en_solver en' = en_solver en"
  shows "encodes en' n l = encodes en n l"
  by (simp add: encodes_def enBelow_def enModels_def leaf_same [OF assms(1,2)] assms(3))

lemma cache_encodes:
  assumes "encInv en" "encodes en n l"
  shows "encInv (cacheEncodedLiteral n l en)"
proof -
  let ?en = "cacheEncodedLiteral n l en"
  have same: "en_leafLits ?en = en_leafLits en" "en_symbolMap ?en = en_symbolMap en" "en_solver ?en = en_solver en"
    "en_trueLit ?en = en_trueLit en" "en_nodeToLit ?en = (en_nodeToLit en)(n \<mapsto> l)"
    by (simp_all add: cacheEncodedLiteral_def)
  have "encodes ?en m k" if "en_nodeToLit ?en m = Some k" for m k
    using that assms encodes_same [OF same(1-3), of m k] by (auto simp: same(5) encInv_def split: if_splits)
  then show ?thesis
    using assms(1) by (simp add: encInv_def trueLitOk_def enBelow_def enModels_def same(1-4))
qed

lemma cache_grows: "en_nodeToLit en n = None \<Longrightarrow> encGrows en (cacheEncodedLiteral n l en)"
  by (auto simp: encGrows_def cacheEncodedLiteral_def map_le_def)

text \<open>A gate over encoded children, cached as its node.\<close>

definition nodeOk :: "encoder \<Rightarrow> bexpr \<Rightarrow> encoder \<Rightarrow> bool" where
  "nodeOk en n en' = (encInv en' \<and> encGrows en en' \<and> en_nodeToLit en' n \<noteq> None)"

lemma gives_node:
  assumes g: "gives en r g" and new: "en_nodeToLit en n = None"
    and known: "\<And>v. v \<in> support n \<Longrightarrow> leafKnown en v"
    and sem: "\<And>M. enModels M en \<Longrightarrow> g M = eval (leafValue en M) n"
  shows "\<exists>en'. bindE r (\<lambda>(l, en'). Inr (cacheEncodedLiteral n l en')) = Inr en' \<and> nodeOk en n en'"
proof -
  obtain l en1 where r: "r = Inr (l, en1)" "litStep en en1" "enBelow en1 l"
    "\<And>M. enModels M en1 \<Longrightarrow> litTrue M l = g M" using g by (auto simp: gives_def)
  have grows: "encGrows en en1" using r(2) by (simp add: litStep_def)
  have val: "eval (leafValue en1 M) n = eval (leafValue en M) n" for M
    by (rule eval_cong) (use leafKnown_grows(2) [OF grows known] in simp)
  have "encodes en1 n l"
    using r(3,4) sem enModels_grows [OF grows] leafKnown_grows(1) [OF grows known] val
    by (simp add: encodes_def)
  then have inv: "encInv (cacheEncodedLiteral n l en1)" using cache_encodes litStep_inv [OF r(2)] by blast
  have "encGrows en1 (cacheEncodedLiteral n l en1)" using new r(2) by (intro cache_grows) (simp add: litStep_def)
  then have "encGrows en (cacheEncodedLiteral n l en1)" by (rule encGrows_trans [OF grows])
  then show ?thesis using inv r(1) by (simp add: nodeOk_def cacheEncodedLiteral_def)
qed

text \<open>A node whose children are encoded, and that is no variable, is always encoded.\<close>

lemma kid_encodes:
  assumes "encInv en" "en_nodeToLit en c \<noteq> None"
  obtains l where "cachedLiteral c en = Inr l" "encodes en c l"
  using assms by (auto simp: cachedLiteral_Inr encInv_def)

lemma encodesD:
  assumes "encodes en n l"
  shows "enBelow en l" "v \<in> support n \<Longrightarrow> leafKnown en v"
    "enModels M en \<Longrightarrow> litTrue M l = eval (leafValue en M) n"
  using assms by (simp_all add: encodes_def)

lemma encodeReadyNode_inner:
  assumes inv: "encInv en" and new: "en_nodeToLit en n = None" and op: "getOp n \<noteq> OpVAR"
    and kids: "\<And>c. c \<in> set (children n) \<Longrightarrow> en_nodeToLit en c \<noteq> None"
  shows "\<exists>en'. encodeReadyNode n en = Inr en' \<and> nodeOk en n en'"
proof (cases n)
  case (BVar v)
  then show ?thesis using op by simp
next
  case (BNot a)
  obtain l where l: "cachedLiteral a en = Inr l" "encodes en a l"
    using kid_encodes [OF inv kids] BNot by auto
  note a = encodesD [OF l(2)]
  have "gives en (keep (- l) en) (\<lambda>M. \<not> litTrue M l)" by (rule keep_gives [OF inv]) (use a(1) in simp_all)
  then have "\<exists>en'. bindE (keep (- l) en) (\<lambda>(l, en'). Inr (cacheEncodedLiteral n l en')) = Inr en' \<and> nodeOk en n en'"
    by (rule gives_node [OF _ new]) (use a BNot in auto)
  then show ?thesis by (simp add: BNot l(1) keep_def)
next
  case (BAnd a b)
  obtain l where l: "cachedLiteral a en = Inr l" "encodes en a l" using kid_encodes [OF inv kids] BAnd by auto
  obtain r where r: "cachedLiteral b en = Inr r" "encodes en b r" using kid_encodes [OF inv kids, of b] BAnd by auto
  note a = encodesD [OF l(2)] and b = encodesD [OF r(2)]
  have "\<exists>en'. bindE (encodeAnd l r en) (\<lambda>(l, en'). Inr (cacheEncodedLiteral n l en')) = Inr en' \<and> nodeOk en n en'"
    by (rule gives_node [OF encodeGate_gives(1) [OF inv a(1) b(1)] new]) (use a(2,3) b(2,3) BAnd in auto)
  then show ?thesis by (simp add: BAnd l(1) r(1))
next
  case (BOr a b)
  obtain l where l: "cachedLiteral a en = Inr l" "encodes en a l" using kid_encodes [OF inv kids] BOr by auto
  obtain r where r: "cachedLiteral b en = Inr r" "encodes en b r" using kid_encodes [OF inv kids, of b] BOr by auto
  note a = encodesD [OF l(2)] and b = encodesD [OF r(2)]
  have "\<exists>en'. bindE (encodeOr l r en) (\<lambda>(l, en'). Inr (cacheEncodedLiteral n l en')) = Inr en' \<and> nodeOk en n en'"
    by (rule gives_node [OF encodeGate_gives(2) [OF inv a(1) b(1)] new]) (use a(2,3) b(2,3) BOr in auto)
  then show ?thesis by (simp add: BOr l(1) r(1))
next
  case (BXor a b)
  obtain l where l: "cachedLiteral a en = Inr l" "encodes en a l" using kid_encodes [OF inv kids] BXor by auto
  obtain r where r: "cachedLiteral b en = Inr r" "encodes en b r" using kid_encodes [OF inv kids, of b] BXor by auto
  note a = encodesD [OF l(2)] and b = encodesD [OF r(2)]
  have "\<exists>en'. bindE (encodeXor l r en) (\<lambda>(l, en'). Inr (cacheEncodedLiteral n l en')) = Inr en' \<and> nodeOk en n en'"
    by (rule gives_node [OF encodeGate_gives(3) [OF inv a(1) b(1)] new]) (use a(2,3) b(2,3) BXor in auto)
  then show ?thesis by (simp add: BXor l(1) r(1))
qed

text \<open>Variables: constants, known leaves, and leaves that are created on demand.\<close>

definition leafReady :: "encoder \<Rightarrow> var_id \<Rightarrow> bool" where
  "leafReady en v = (leafKnown en v \<or> en_createMissing en \<and> (\<exists>s. mappedSymbol en v = Inr s))"

lemma leafReady_grows: "encGrows en en' \<Longrightarrow> leafReady en v \<Longrightarrow> leafReady en' v"
  using leafKnown_grows(1) [of en en' v] mappedSymbol_grows [of en en'] by (auto simp: leafReady_def encGrows_def)

lemma encodeReadyNode_const:
  assumes "encInv en" "en_nodeToLit en (BVar v) = None" "v < 2"
  shows "\<exists>en'. encodeReadyNode (BVar v) en = Inr en' \<and> nodeOk en (BVar v) en'"
proof -
  have v: "v = 0 \<or> v = 1" using assms(3) by (simp add: lt2_iff)
  have "\<exists>en'. bindE (getConstLit (v = 1) en) (\<lambda>(l, en'). Inr (cacheEncodedLiteral (BVar v) l en')) = Inr en' \<and>
      nodeOk en (BVar v) en'"
    by (rule gives_node [OF getConstLit_gives [OF assms(1)] assms(2)]) (use v in auto)
  then show ?thesis using v by auto
qed

lemma leaf_encodes:
  assumes "encInv en" "v \<noteq> 0" "v \<noteq> 1" "mappedSymbol en v = Inr s" "en_leafLits en s = Some l"
  shows "encodes en (BVar v) l"
  using assms by (auto simp: encodes_def encInv_def leafKnown_def leafValue_def)

lemma encodeReadyNode_leaf:
  assumes inv: "encInv en" and new: "en_nodeToLit en (BVar v) = None" and v: "v \<noteq> 0" "v \<noteq> 1"
    and r: "encodeReadyNode (BVar v) en = Inr en'"
  shows "nodeOk en (BVar v) en'"
proof -
  obtain s where s: "mappedSymbol en v = Inr s" using r v by (auto simp: bindE_Inr_iff)
  show ?thesis
  proof (cases "en_leafLits en s")
    case (Some l)
    then have "en' = cacheEncodedLiteral (BVar v) l en" using r v s by simp
    then show ?thesis
      using cache_encodes [OF inv leaf_encodes [OF inv v s Some]] cache_grows [OF new, of l]
      by (simp add: nodeOk_def cacheEncodedLiteral_def)
  next
    case None
    obtain l u where l: "newSolverLiteral (en_solver en) = (l, u)" by fastforce
    let ?en = "en\<lparr> en_solver := u, en_leafLits := (en_leafLits en)(s \<mapsto> l) \<rparr>"
    have en': "en' = cacheEncodedLiteral (BVar v) l ?en" using r v s None l by (simp split: if_splits)
    have cons: "conservative (en_solver en) u" "solverInv u"
      using newSolverLiteral_conservative [OF l] inv by (simp_all add: encInv_def)
    have grows: "encGrows en ?en" using None cons(1) by (auto simp: encGrows_def map_le_def)
    have below: "enBelow ?en l" using newSolverLiteral_fields(5) [OF l] by (simp add: enBelow_def)
    have "trueLitOk ?en"
      using inv enBelow_grows [OF grows] enModels_grows [OF grows] by (simp add: encInv_def trueLitOk_def)
    then have inv': "encInv ?en"
      unfolding encInv_def using inv cons(2) below enBelow_grows [OF grows] encodes_grows [OF grows]
      by (simp add: encInv_def)
    have "mappedSymbol ?en v = Inr s" using mappedSymbol_grows [OF grows] s by simp
    then have "encodes ?en (BVar v) l" by (rule leaf_encodes [OF inv' v]) simp
    then have "encInv en'" unfolding en' by (rule cache_encodes [OF inv'])
    moreover have "encGrows ?en en'" unfolding en' by (rule cache_grows) (use new in simp)
    ultimately show ?thesis
      using encGrows_trans [OF grows, of en'] by (simp add: nodeOk_def en' cacheEncodedLiteral_def)
  qed
qed

lemma encodeReadyNode_ok:
  assumes "encInv en" "en_nodeToLit en n = None"
    "\<And>c. c \<in> set (children n) \<Longrightarrow> en_nodeToLit en c \<noteq> None" "encodeReadyNode n en = Inr en'"
  shows "nodeOk en n en'"
proof (cases "getOp n = OpVAR")
  case True
  then obtain v where n: "n = BVar v" by (cases n) auto
  show ?thesis
  proof (cases "v < 2")
    case True
    then show ?thesis using encodeReadyNode_const [of en v] assms n by auto
  next
    case False
    then show ?thesis using encodeReadyNode_leaf [of en v en'] assms n by (auto simp: lt2_iff)
  qed
next
  case False
  then show ?thesis using encodeReadyNode_inner [OF assms(1,2) False assms(3)] assms(4) by auto
qed

lemma encodeReadyNode_total:
  assumes "encInv en" "en_nodeToLit en n = None"
    "\<And>c. c \<in> set (children n) \<Longrightarrow> en_nodeToLit en c \<noteq> None" "\<And>v. v \<in> support n \<Longrightarrow> leafReady en v"
  shows "\<exists>en'. encodeReadyNode n en = Inr en'"
proof (cases "getOp n = OpVAR")
  case True
  then obtain v where n: "n = BVar v" by (cases n) auto
  show ?thesis
  proof (cases "v < 2")
    case True
    then show ?thesis using encodeReadyNode_const [of en v] assms n by auto
  next
    case False
    then have v: "v \<noteq> 0" "v \<noteq> 1" by (auto simp: lt2_iff)
    then have "leafReady en v" using assms(4) n by simp
    then obtain s where "mappedSymbol en v = Inr s" "en_leafLits en s \<noteq> None \<or> en_createMissing en"
      by (auto simp: leafReady_def leafKnown_def split: sum.splits)
    then show ?thesis using v n by (auto split: option.splits prod.splits)
  qed
next
  case False
  then show ?thesis using encodeReadyNode_inner [OF assms(1,2) False assms(3)] by blast
qed

section \<open>The traversal\<close>

lemma findCached_grows: "encGrows en en' \<Longrightarrow> findCachedLiteral n en \<noteq> 0 \<Longrightarrow> findCachedLiteral n en' = findCachedLiteral n en"
  unfolding encGrows_def map_le_def by (auto simp: findCachedLiteral_def dom_def split: option.splits)

interpretation encoding: total_postorder encodeVisitor "\<lambda>en. encInv en \<and> encGrows en0 en" encGrows
  "\<lambda>n. \<forall>v \<in> support n. leafReady en0 v" for en0
proof
  fix en en' :: encoder and n c :: bexpr
  show "encGrows en en' \<Longrightarrow> v_done encodeVisitor en n \<Longrightarrow> v_done encodeVisitor en' n"
    using findCached_grows by (simp add: encodeVisitor_def)
  show "v_push encodeVisitor en n \<or> v_done encodeVisitor en n" by (simp add: encodeVisitor_def)
  show "encGrows en en" by simp
  show "encGrows a b \<Longrightarrow> encGrows b c \<Longrightarrow> encGrows a c" for a b c by (rule encGrows_trans)
  show "encInv en \<and> encGrows en0 en \<Longrightarrow> \<not> v_done encodeVisitor en n \<Longrightarrow> v_enter encodeVisitor n en = Inr en' \<Longrightarrow>
      (encInv en' \<and> encGrows en0 en') \<and> encGrows en en'" by (simp add: encodeVisitor_def)
  show "\<forall>v \<in> support n. leafReady en0 v \<Longrightarrow> c \<in> set (children n) \<Longrightarrow> \<forall>v \<in> support c. leafReady en0 v"
    using support_child by blast
  show "\<exists>en'. v_enter encodeVisitor n en = Inr en'" by (simp add: encodeVisitor_def)
  assume inv: "encInv en \<and> encGrows en0 en" and new: "\<not> v_done encodeVisitor en n"
    and kids: "\<And>c. c \<in> set (children n) \<Longrightarrow> v_done encodeVisitor en c"
  have 1: "en_nodeToLit en n = None" "\<And>c. c \<in> set (children n) \<Longrightarrow> en_nodeToLit en c \<noteq> None"
    using inv new kids by (simp_all add: encodeVisitor_def)
  { assume "v_finish encodeVisitor n en = Inr en'"
    then have "nodeOk en n en'"
      using encodeReadyNode_ok [OF conjunct1 [OF inv] 1] by (simp add: encodeVisitor_def)
    then show "(encInv en' \<and> encGrows en0 en') \<and> encGrows en en' \<and> v_done encodeVisitor en' n"
      using encGrows_trans [OF conjunct2 [OF inv], of en'] by (simp add: nodeOk_def encodeVisitor_def) }
  assume "\<forall>v \<in> support n. leafReady en0 v"
  then have "\<And>v. v \<in> support n \<Longrightarrow> leafReady en v" using leafReady_grows [OF conjunct2 [OF inv]] by blast
  then show "\<exists>en'. v_finish encodeVisitor n en = Inr en'"
    using encodeReadyNode_total [OF conjunct1 [OF inv] 1] by (simp add: encodeVisitor_def)
qed

lemma encode_ok:
  assumes "encode (Some e) en = Inr (l, en')" "encInv en"
  shows "encInv en' \<and> encGrows en en' \<and> encodes en' e l"
proof -
  have p: "postLoop encodeVisitor [(e, False)] en = Inr en'" and c: "cachedLiteral e en' = Inr l"
    using assms(1) by (auto simp: encode_def bindE_Inr_iff)
  have inv: "encInv en'" "encGrows en en'"
    using encoding.loop_ok [of en en e en', OF _ p] assms(2) by simp_all
  then show ?thesis using c cachedLiteral_Inr [OF inv(1)] by (simp add: encInv_def)
qed

lemma encode_total:
  assumes "encInv en" "\<And>v. v \<in> support e \<Longrightarrow> leafReady en v"
  shows "\<exists>l en'. encode (Some e) en = Inr (l, en')"
proof -
  obtain en' where p: "postLoop encodeVisitor [(e, False)] en = Inr en'" "encInv en'" "v_done encodeVisitor en' e"
    using encoding.loop_total [of e en en] assms by auto
  then obtain l where "en_nodeToLit en' e = Some l" by (auto simp: encodeVisitor_def)
  then have "cachedLiteral e en' = Inr l" using cachedLiteral_Inr [OF p(2)] by simp
  then show ?thesis by (simp add: encode_def p(1))
qed

lemma encodeNextNode_ok:
  assumes "encInv en" "encodeNextNode n en = Inr en'"
  shows "encInv en' \<and> encGrows en en' \<and> findCachedLiteral n en' \<noteq> 0"
proof (cases "findCachedLiteral n en = 0")
  case True
  then have new: "en_nodeToLit en n = None" using findCached_some [OF assms(1)] by blast
  have r: "encodeReadyNode n en = Inr en'" "\<And>c. c \<in> set (children n) \<Longrightarrow> findCachedLiteral c en \<noteq> 0"
    using assms(2) True by (auto simp: encodeNextNode_def split: if_splits)
  have "nodeOk en n en'"
    by (rule encodeReadyNode_ok [OF assms(1) new _ r(1)]) (use r(2) findCached_some [OF assms(1)] in blast)
  then show ?thesis by (simp add: nodeOk_def)
qed (use assms in \<open>simp add: encodeNextNode_def\<close>)

lemma encodeNextNode_fold:
  assumes "encInv en" "foldE encodeNextNode ord en = Inr en'"
  shows "encInv en' \<and> encGrows en en' \<and> (\<forall>n \<in> set ord. findCachedLiteral n en' \<noteq> 0)"
  using assms
proof (induction ord arbitrary: en)
  case (Cons n ord)
  obtain en1 where en1: "encodeNextNode n en = Inr en1" "foldE encodeNextNode ord en1 = Inr en'"
    using Cons.prems(2) by (auto simp: bindE_Inr_iff)
  note step = encodeNextNode_ok [OF Cons.prems(1) en1(1)]
  have rest: "encInv en'" "encGrows en1 en'" "\<forall>m \<in> set ord. findCachedLiteral m en' \<noteq> 0"
    using Cons.IH [OF _ en1(2)] step by blast+
  have "findCachedLiteral n en' = findCachedLiteral n en1"
    using findCached_grows [OF rest(2)] step by blast
  then show ?case using rest step encGrows_trans [OF _ rest(2), of en] by (simp del: findCached_some)
qed simp

lemma encodeAlong_ok:
  assumes "encodeAlong (Some e) ord en = Inr (l, en')" "encInv en"
  shows "encInv en' \<and> encGrows en en' \<and> encodes en' e l"
proof -
  have p: "foldE encodeNextNode ord en = Inr en'" and c: "cachedLiteral e en' = Inr l"
    using assms(1) by (auto simp: encodeAlong_def bindE_Inr_iff)
  note inv = encodeNextNode_fold [OF assms(2) p]
  then show ?thesis using c cachedLiteral_Inr [of en' e l] by (simp add: encInv_def)
qed

text \<open>A prepared order lists the children of every node before the node.\<close>

definition childrenFirst :: "bexpr list \<Rightarrow> bool" where
  "childrenFirst ord = (\<forall>i < length ord. \<forall>c \<in> set (children (ord ! i)). c \<in> set (take i ord))"

lemma childrenFirst_snoc:
  "childrenFirst (ord @ [n]) \<longleftrightarrow> childrenFirst ord \<and> set (children n) \<subseteq> set ord"
  unfolding childrenFirst_def by (auto simp: nth_append less_Suc_eq)

lemma encodeAlong_fold_total:
  assumes "encInv en" "childrenFirst ord" "\<And>n v. n \<in> set ord \<Longrightarrow> v \<in> support n \<Longrightarrow> leafReady en v"
  shows "\<exists>en'. foldE encodeNextNode ord en = Inr en'"
  using assms
proof (induction ord rule: rev_induct)
  case (snoc n ord)
  then obtain en1 where en1: "foldE encodeNextNode ord en = Inr en1" by (auto simp: childrenFirst_snoc)
  note ok = encodeNextNode_fold [OF assms(1) en1]
  have kids: "findCachedLiteral c en1 \<noteq> 0" if "c \<in> set (children n)" for c
    using ok that snoc.prems(2) by (auto simp: childrenFirst_snoc)
  have "\<exists>en'. encodeNextNode n en1 = Inr en'"
  proof (cases "findCachedLiteral n en1 = 0")
    case True
    have "\<exists>en'. encodeReadyNode n en1 = Inr en'"
    proof (rule encodeReadyNode_total)
      show "encInv en1" using ok by simp
      then show "en_nodeToLit en1 n = None" "\<And>c. c \<in> set (children n) \<Longrightarrow> en_nodeToLit en1 c \<noteq> None"
        using True kids findCached_some [of en1] by blast+
      show "\<And>v. v \<in> support n \<Longrightarrow> leafReady en1 v"
        using snoc.prems(3) [of n] ok leafReady_grows by (metis in_set_conv_decomp)
    qed
    then show ?thesis using True kids by (auto simp: encodeNextNode_def)
  qed (simp add: encodeNextNode_def)
  then show ?case by (auto simp: foldE_append en1)
qed simp

lemma encodeAlong_total:
  assumes "encInv en" "childrenFirst ord" "e \<in> set ord"
    "\<And>n v. n \<in> set ord \<Longrightarrow> v \<in> support n \<Longrightarrow> leafReady en v"
  shows "\<exists>l en'. encodeAlong (Some e) ord en = Inr (l, en')"
proof -
  obtain en' where en': "foldE encodeNextNode ord en = Inr en'"
    using encodeAlong_fold_total [OF assms(1,2)] assms(4) by blast
  note ok = encodeNextNode_fold [OF assms(1) en']
  then obtain l where "en_nodeToLit en' e = Some l" using assms(3) findCached_some [of en' e] by blast
  then have "cachedLiteral e en' = Inr l" using ok cachedLiteral_Inr by blast
  then show ?thesis by (simp add: encodeAlong_def en')
qed

section \<open>Construction\<close>

lemma reserveNodeCache_fields [simp]:
  "en_leafLits (reserveNodeCache en) = en_leafLits en" "en_symbolMap (reserveNodeCache en) = en_symbolMap en"
  "en_createMissing (reserveNodeCache en) = en_createMissing en" "en_nodeToLit (reserveNodeCache en) = en_nodeToLit en"
  "en_trueLit (reserveNodeCache en) = en_trueLit en"
  "sv_vars (en_solver (reserveNodeCache en)) = sv_vars (en_solver en)"
  "sv_clauses (en_solver (reserveNodeCache en)) = sv_clauses (en_solver en)"
  by (simp_all add: reserveNodeCache_def Let_def)

lemma newEncoder_inv:
  assumes "solverInv s" "\<And>x l. leafLits x = Some l \<Longrightarrow> litBelow (sv_vars s) l"
  shows "encInv (newEncoder s leafLits symbolMap createMissing hint)"
  using assms by (simp add: encInv_def newEncoder_def trueLitOk_def enBelow_def solverInv_def)

lemma addLeafLiteral_inv:
  assumes "encInv en" "addLeafLiteral x l en = Inr en'" "enBelow en l"
  shows "encInv en' \<and> encGrows en en'"
proof (cases "en_leafLits en x")
  case None
  then have en': "en' = en\<lparr> en_leafLits := (en_leafLits en)(x \<mapsto> l) \<rparr>" using assms(2) by (simp add: addLeafLiteral_def)
  have grows: "encGrows en en'" using None by (auto simp: encGrows_def en' map_le_def)
  have "encInv en'" unfolding encInv_def
    using assms enBelow_grows [OF grows] encodes_grows [OF grows]
    by (auto simp: en' encInv_def trueLitOk_def enBelow_def enModels_def)
  then show ?thesis using grows by simp
qed (use assms in \<open>auto simp: addLeafLiteral_def split: if_splits\<close>)

end
