(* ===== verification/Sat_Query.thy ===== *)
theory Sat_Query
  imports Sat_Encoding
begin

text \<open>
  SAT queries about one expression: \<open>solveBoolFormulaStatus\<close>, \<open>isBoolFormulaSatisfiable\<close> and the
  implications of \<open>sec/common/BoolExprUtils.cpp\<close>, and \<open>isProofFormulaSatisfiable\<close> and
  \<open>initialFrontierImplies\<close> of \<open>sec/proof/ProofEngineShared.cpp\<close>.  Each query builds a solver and
  an encoder of its own; solver options are not modelled, and no CaDiCaL work budget is active.
\<close>

section \<open>The queries\<close>

text \<open>One literal per symbol of the support, in increasing order.\<close>

definition leafVar :: "var_id \<Rightarrow> (var_id \<rightharpoonup> int) \<times> solver \<Rightarrow> (var_id \<rightharpoonup> int) \<times> solver" where
  "leafVar symbol ms = (case ms of (m, s) \<Rightarrow>
     if symbol < 2 then (m, s)
     else (case newSolverLiteral s of (l, s') \<Rightarrow> (emplace symbol l m, s')))"

definition allocateLeaves :: "bexpr \<Rightarrow> solver \<Rightarrow> (var_id \<rightharpoonup> int) \<times> solver" where
  "allocateLeaves formula s = fold leafVar (sorted_list_of_set (getSupportVars formula)) (Map.empty, s)"

definition assertFormula :: "bexpr \<Rightarrow> solver_type \<Rightarrow> error + solver" where
  "assertFormula formula solverType =
    (case allocateLeaves formula (newSolver solverType) of (leafLits, s) \<Rightarrow>
       bindE (encode (Some formula) (newEncoder s leafLits None False 0))
         (\<lambda>(l, en). addClause [l] (en_solver en)))"

definition solveBoolFormulaStatus :: "backend \<Rightarrow> bexpr option \<Rightarrow> solver_type \<Rightarrow> 32 word option \<Rightarrow>
    error + solve_status" where
  "solveBoolFormulaStatus B formula solverType conflictLimit =
    (case formula of
       None \<Rightarrow> Inr Unsat
     | Some f \<Rightarrow>
        if isConstFalse f then Inr Unsat
        else if isConstTrue f then Inr Sat
        else bindE (assertFormula f solverType) (\<lambda>s.
          case conflictLimit of
            None \<Rightarrow> Inr (solveStatus B s)
          | Some limit \<Rightarrow>
              if solverType = KISSAT
              then bindE (solveWithKissatResourceLimits B limit limit s) (\<lambda>(st, _). Inr st)
              else bindE (solveWithAssumptionsStatus B [] (uint limit) (- 1) (- 1) s) (\<lambda>(st, _). Inr st)))"

definition isBoolFormulaSatisfiable :: "backend \<Rightarrow> bexpr option \<Rightarrow> solver_type \<Rightarrow> error + bool" where
  "isBoolFormulaSatisfiable B formula solverType =
    bindE (solveBoolFormulaStatus B formula solverType None) (\<lambda>st. Inr (st = Sat))"

definition boolFormulaImplies :: "backend \<Rightarrow> bexpr \<Rightarrow> bexpr option \<Rightarrow> solver_type \<Rightarrow> error + bool" where
  "boolFormulaImplies B assumptions conclusion solverType =
    (case conclusion of
       None \<Rightarrow> Inr False
     | Some c \<Rightarrow>
        if isConstTrue c \<or> isConstFalse assumptions then Inr True
        else bindE (isBoolFormulaSatisfiable B (Some (mkAnd assumptions (mkNot c))) solverType)
          (\<lambda>b. Inr (\<not> b)))"

definition boolFormulaImpliesWithConflictLimit :: "backend \<Rightarrow> bexpr \<Rightarrow> bexpr option \<Rightarrow> solver_type \<Rightarrow>
    32 word \<Rightarrow> error + bool option" where
  "boolFormulaImpliesWithConflictLimit B assumptions conclusion solverType conflictLimit =
    (case conclusion of
       None \<Rightarrow> Inr (Some False)
     | Some c \<Rightarrow>
        if isConstTrue c \<or> isConstFalse assumptions then Inr (Some True)
        else bindE (solveBoolFormulaStatus B (Some (mkAnd assumptions (mkNot c))) solverType (Some conflictLimit))
          (\<lambda>st. if st = Unknown then Inr None else Inr (Some (st = Unsat))))"

definition isProofFormulaSatisfiable :: "backend \<Rightarrow> bexpr option \<Rightarrow> solver_type \<Rightarrow> error + bool" where
  "isProofFormulaSatisfiable B formula solverType =
    (case formula of
       None \<Rightarrow> Inr False
     | Some f \<Rightarrow> bindE (assertFormula f solverType) (\<lambda>s. Inr (solve B s)))"

definition initialFrontierImplies :: "backend \<Rightarrow> bexpr option \<Rightarrow> bexpr option \<Rightarrow> solver_type \<Rightarrow> error + bool" where
  "initialFrontierImplies B initFormula invariant solverType =
    (case (initFormula, invariant) of
       (Some i, Some p) \<Rightarrow>
         bindE (isProofFormulaSatisfiable B (Some (mkAnd i (mkNot p))) solverType) (\<lambda>b. Inr (\<not> b))
     | _ \<Rightarrow> Inr False)"

section \<open>The leaves\<close>

definition leavesOk :: "(var_id \<rightharpoonup> int) \<Rightarrow> nat \<Rightarrow> bool" where
  "leavesOk m n = ((\<forall>x l. m x = Some l \<longrightarrow> litBelow n l \<and> 0 < l) \<and>
     (\<forall>x y l. m x = Some l \<and> m y = Some l \<longrightarrow> x = y))"

lemma litVar_inj: "litBelow n l \<Longrightarrow> litBelow n k \<Longrightarrow> 0 < l \<Longrightarrow> 0 < k \<Longrightarrow> litVar l = litVar k \<Longrightarrow> l = k"
  by (simp add: litBelow_def validLit_def litVar_def eq_nat_nat_iff)

text \<open>Every valuation of the symbols is a model of the leaves.\<close>

definition leafModel :: "(var_id \<rightharpoonup> int) \<Rightarrow> (var_id \<Rightarrow> bool) \<Rightarrow> assignment" where
  "leafModel m env = (\<lambda>i. \<exists>x l. m x = Some l \<and> litVar l = i \<and> env x)"

lemma leavesOkD:
  assumes "leavesOk m n" "m x = Some l"
  shows "litBelow n l" "0 < l" "m y = Some l \<Longrightarrow> y = x"
  using assms unfolding leavesOk_def by blast+

lemma leafModel_lit:
  assumes "leavesOk m n" "m x = Some l"
  shows "litTrue (leafModel m env) l = env x"
proof -
  note l = leavesOkD [OF assms]
  have other: "y = x" if "m y = Some k" "litVar k = litVar l" for y k
  proof -
    have "k = l" using litVar_inj [of n k l] leavesOkD(1,2) [OF assms(1) that(1)] l(1,2) that(2) by simp
    then show ?thesis using l(3) that(1) by simp
  qed
  have "leafModel m env (litVar l) = env x"
    unfolding leafModel_def using other assms(2) by blast
  then show ?thesis using l(2) by (simp add: litTrue_def)
qed

lemma leafVar_step:
  assumes "leafVar x (m, s) = (m', s')" "leavesOk m (sv_vars s)" "x \<notin> dom m"
  shows "leavesOk m' (sv_vars s') \<and> dom m' = dom m \<union> {y. y = x \<and> \<not> x < 2} \<and>
    sv_clauses s' = sv_clauses s \<and> sameBackend s s' \<and> sv_vars s \<le> sv_vars s'"
proof (cases "x < 2")
  case False
  obtain l u where l: "newSolverLiteral s = (l, u)" by fastforce
  note fields = newSolverLiteral_fields [OF l]
  have m': "m' = m(x \<mapsto> l)" "s' = u"
    using assms(1,3) False l by (auto simp: leafVar_def emplace_def domIff)
  have up: "litBelow (sv_vars u) k" if "litBelow (sv_vars s) k" for k
    using litBelow_mono [OF that] fields(2) by simp
  have old: "litBelow (sv_vars s) k" "0 < k" "m z = Some k \<Longrightarrow> z = y" "k \<noteq> l" if "m y = Some k" for y z k
    using leavesOkD [OF assms(2) that] fields(4) by (auto simp: litBelow_def)
  have none: "m x = None" using assms(3) by auto
  have "litBelow (sv_vars u) k \<and> 0 < k" if "m' y = Some k" for y k
    using that old(1,2) [of y k] up fields(1,5) by (cases "y = x") (auto simp: m')
  moreover have "y = z" if yz: "m' y = Some k" "m' z = Some k" for y z k
  proof (cases "k = l")
    case True
    then have "y = x" "z = x" using yz old(4) [of y k] old(4) [of z k] unfolding m' by (metis fun_upd_apply)+
    then show ?thesis by simp
  next
    case False
    then have "m y = Some k" "m z = Some k" using yz unfolding m' by (metis fun_upd_apply option.inject)+
    then show ?thesis using old(3) [of z k y] by simp
  qed
  ultimately have "leavesOk m' (sv_vars u)" unfolding leavesOk_def by blast
  then show ?thesis using False m' fields by auto
qed (use assms in \<open>auto simp: leafVar_def\<close>)

lemma allocateLeaves_fold:
  assumes "fold leafVar xs (m, s) = (m', s')" "leavesOk m (sv_vars s)" "distinct xs" "set xs \<inter> dom m = {}"
  shows "leavesOk m' (sv_vars s') \<and> dom m' = dom m \<union> {x \<in> set xs. \<not> x < 2} \<and>
    sv_clauses s' = sv_clauses s \<and> sameBackend s s' \<and> sv_vars s \<le> sv_vars s'"
  using assms
proof (induction xs arbitrary: m s)
  case (Cons x xs)
  obtain m1 s1 where 1: "leafVar x (m, s) = (m1, s1)" by fastforce
  have x: "x \<notin> dom m" using Cons.prems(4) by auto
  note step = leafVar_step [OF 1 Cons.prems(2) x]
  have rest: "fold leafVar xs (m1, s1) = (m', s')" using Cons.prems(1) 1 by simp
  have "set xs \<inter> dom m1 = {}" using step Cons.prems(3,4) by auto
  note IH = Cons.IH [OF rest conjunct1 [OF step] _ this]
  show ?case using IH step Cons.prems(3) sameBackend_trans [of s s1 s'] by auto
qed simp

lemma allocateLeaves_ok:
  assumes "allocateLeaves f s = (m, s')"
  shows "leavesOk m (sv_vars s') \<and> dom m = support f \<and> sv_clauses s' = sv_clauses s \<and> sameBackend s s'"
proof -
  have "leavesOk Map.empty n" for n by (simp add: leavesOk_def)
  moreover have "set (sorted_list_of_set (vars f)) = vars f" by simp
  moreover have "support f = {x \<in> vars f. \<not> x < 2}"
    by (auto simp: support_def ge2_iff lt2_iff)
  ultimately show ?thesis
    using allocateLeaves_fold [of "sorted_list_of_set (vars f)" Map.empty s m s'] assms
    by (simp add: allocateLeaves_def)
qed

section \<open>Assertion of a formula\<close>

lemma assertFormula_ok:
  "\<exists>s. assertFormula f t = Inr s \<and> sv_kissatLimits s = (- 1, - 1) \<and> sv_type s = t \<and>
    ((\<exists>M. models M s) \<longleftrightarrow> (\<exists>env. eval env f))"
proof -
  obtain m s0 where m: "allocateLeaves f (newSolver t) = (m, s0)" by fastforce
  note leaves = allocateLeaves_ok [OF m]
  let ?en = "newEncoder s0 m None False 0"
  have s0: "sv_clauses s0 = []" "sv_kissatLimits s0 = (- 1, - 1)" "sv_type s0 = t"
    using leaves by (simp_all add: newSolver_def sameBackend_def)
  have inv: "encInv ?en"
    by (rule newEncoder_inv) (use leaves s0 in \<open>auto simp: solverInv_def leavesOk_def\<close>)
  have en: "en_leafLits ?en = m" "mappedSymbol ?en v = Inr v" for v
    by (simp_all add: newEncoder_def mappedSymbol_def mapSymbol_def)
  have known: "leafKnown ?en v" if "v \<in> support f" for v
    using that leaves en by (auto simp: leafKnown_def)
  then have "\<And>v. v \<in> support f \<Longrightarrow> leafReady ?en v" by (simp add: leafReady_def)
  then obtain l en' where e: "encode (Some f) ?en = Inr (l, en')" using encode_total [OF inv] by blast
  have ok: "encInv en'" "encGrows ?en en'" "encodes en' f l" using encode_ok [OF e inv] by simp_all
  have l: "litsBelow (sv_vars (en_solver en')) [l]" using encodesD(1) [OF ok(3)] by (simp add: enBelow_def)
  let ?s = "(en_solver en')\<lparr> sv_clauses := sv_clauses (en_solver en') @ [map internalLit [l]] \<rparr>"
  have r: "assertFormula f t = Inr ?s" by (simp add: assertFormula_def m e addClause_ok [OF l])
  have cons: "conservative (en_solver ?en) (en_solver en')" using ok(2) by (simp add: encGrows_def)
  have val: "leafValue en' M v = litTrue M (the (m v))" if "v \<in> support f" for M v
  proof -
    have "m v \<noteq> None" using that leaves by auto
    then show ?thesis
      using leafKnown_grows(2) [OF ok(2) known [OF that]] en by (auto simp: leafValue_def)
  qed
  have mod: "models M ?s = (models M (en_solver en') \<and> litTrue M l)" for M
    using models_addClause [OF l] by simp
  have "\<exists>env. eval env f" if M: "models M ?s" for M
    using encodesD(3) [OF ok(3), of M] M mod by (auto simp: enModels_def)
  moreover have "\<exists>M. models M ?s" if env: "eval env f" for env
  proof -
    have "models (leafModel m env) (en_solver ?en)"
      using s0(1) by (simp add: newEncoder_def models_def satisfies_def)
    then obtain M where M: "models M (en_solver en')" "\<And>v. v < sv_vars (en_solver ?en) \<Longrightarrow> M v = leafModel m env v"
      using conservative_extend [OF cons] by metis
    have "leafValue en' M v = env v" if v: "v \<in> support f" for v
    proof -
      obtain k where k: "m v = Some k" using leaves v by auto
      then have "litBelow (sv_vars (en_solver ?en)) k" using leaves by (auto simp: leavesOk_def newEncoder_def)
      then have "litTrue M k = litTrue (leafModel m env) k" by (rule litTrue_below) (rule M(2))
      then show ?thesis using val [OF v] k leafModel_lit [of m "sv_vars s0" v k env] leaves by simp
    qed
    then have "eval (leafValue en' M) f = eval env f" by (rule eval_cong)
    then show ?thesis using encodesD(3) [OF ok(3), of M] M(1) env mod by (auto simp: enModels_def)
  qed
  moreover have "sv_kissatLimits ?s = (- 1, - 1)" "sv_type ?s = t"
    using cons s0 by (auto simp: conservative_def sameBackend_def newEncoder_def reserveNodeCache_def Let_def)
  ultimately show ?thesis using r by blast
qed

section \<open>Correctness of the queries\<close>

definition satisfiable :: "bexpr \<Rightarrow> bool" where
  "satisfiable f = (\<exists>env. eval env f)"

definition implies :: "bexpr \<Rightarrow> bexpr \<Rightarrow> bool" where
  "implies a c = (\<forall>env. eval env a \<longrightarrow> eval env c)"

definition statusOf :: "bexpr \<Rightarrow> solve_status \<Rightarrow> bool" where
  "statusOf f st = ((st = Sat \<longrightarrow> satisfiable f) \<and> (st = Unsat \<longrightarrow> \<not> satisfiable f))"

lemma limited_sound:
  assumes B: "soundBackend B" and t: "sv_type s = t"
  shows "\<exists>st s'. (if t = KISSAT then solveWithKissatResourceLimits B limit limit s
      else solveWithAssumptionsStatus B [] (uint limit) (- 1) (- 1) s) = Inr (st, s') \<and>
    soundStatus (sv_clauses s) [] st"
proof (cases t)
  case KISSAT
  let ?s = "s\<lparr> sv_kissatLimits := (unsignedLimit limit (fst (sv_kissatLimits s)),
                unsignedLimit limit (snd (sv_kissatLimits s))) \<rparr>"
  have "soundStatus (sv_clauses ?s) [] (solveStatus B ?s)" by (rule solveStatus_sound [OF B])
  then show ?thesis using KISSAT t by (simp add: solveWithKissatResourceLimits_def Let_def)
next
  case GLUCOSE
  have "soundStatus (sv_clauses s) [] (glucoseStatus (be_glucoseLimited B limits (sv_clauses s) []))" for limits
    using B by (simp add: soundBackend_def)
  then show ?thesis using GLUCOSE t by (simp add: solveWithAssumptionsStatus_def checkLits_def)
next
  case CADICAL
  have "soundStatus (sv_clauses s) [] Unknown" by (simp add: soundStatus_def)
  then show ?thesis
    using CADICAL t solveCadical_sound [OF B, of s "[]" "uint limit" "- 1" "- 1" True]
    by (cases "solveCadicalWithResourceLimits B [] (uint limit) (- 1) (- 1) True s")
       (auto simp: solveWithAssumptionsStatus_def checkLits_def Let_def)
qed

lemma solveBoolFormulaStatus_sound:
  assumes "soundBackend B"
  shows "\<exists>st. solveBoolFormulaStatus B (Some f) t limit = Inr st \<and> statusOf f st"
proof -
  obtain s where s: "assertFormula f t = Inr s" "sv_type s = t" "(\<exists>M. models M s) = satisfiable f"
    using assertFormula_ok [of f t] by (auto simp: satisfiable_def)
  have of: "soundStatus (sv_clauses s) [] st \<Longrightarrow> statusOf f st" for st
    using s(3) by (auto simp: soundStatus_def statusOf_def satisfiableUnder_models)
  obtain st s' where lim: "(if t = KISSAT then solveWithKissatResourceLimits B (the limit) (the limit) s
      else solveWithAssumptionsStatus B [] (uint (the limit)) (- 1) (- 1) s) = Inr (st, s')" "statusOf f st"
    using limited_sound [OF assms s(2), of "the limit"] of by blast
  have const: "isConstFalse f \<Longrightarrow> statusOf f Unsat" "isConstTrue f \<Longrightarrow> statusOf f Sat"
    by (auto simp: statusOf_def satisfiable_def)
  have plain: "statusOf f (solveStatus B s)" using solveStatus_sound [OF assms] of by blast
  show ?thesis
    using const plain lim s(1) by (auto simp: solveBoolFormulaStatus_def split: option.split if_splits)
qed

lemma solveBoolFormulaStatus_decides:
  assumes "completeBackend B"
  shows "solveBoolFormulaStatus B (Some f) t None \<noteq> Inr Unknown"
proof -
  obtain s where "assertFormula f t = Inr s" "sv_kissatLimits s = (- 1, - 1)"
    using assertFormula_ok [of f t] by blast
  then show ?thesis using solveStatus_decides [OF assms] by (simp add: solveBoolFormulaStatus_def)
qed

lemma isBoolFormulaSatisfiable_ok:
  assumes "soundBackend B" "completeBackend B"
  shows "isBoolFormulaSatisfiable B (Some f) t = Inr (satisfiable f)"
proof -
  obtain st where st: "solveBoolFormulaStatus B (Some f) t None = Inr st" "statusOf f st"
    using solveBoolFormulaStatus_sound [OF assms(1)] by blast
  moreover have "st \<noteq> Unknown" using solveBoolFormulaStatus_decides [OF assms(2), of f t] st(1) by auto
  ultimately show ?thesis by (cases st) (auto simp: isBoolFormulaSatisfiable_def statusOf_def)
qed

lemma satisfiable_refutes: "satisfiable (mkAnd a (mkNot c)) = (\<not> implies a c)"
  by (auto simp: satisfiable_def implies_def)

lemma boolFormulaImplies_ok:
  assumes "soundBackend B" "completeBackend B"
  shows "boolFormulaImplies B a (Some c) t = Inr (implies a c)"
proof -
  have "isConstTrue c \<or> isConstFalse a \<Longrightarrow> implies a c" by (auto simp: implies_def)
  then show ?thesis
    using isBoolFormulaSatisfiable_ok [OF assms, of "mkAnd a (mkNot c)"]
    by (simp add: boolFormulaImplies_def satisfiable_refutes)
qed

lemma boolFormulaImplies_sound:
  assumes "soundBackend B"
  shows "\<exists>b. boolFormulaImplies B a (Some c) t = Inr b \<and>
    (b \<longleftrightarrow> implies a c \<or> solveBoolFormulaStatus B (Some (mkAnd a (mkNot c))) t None = Inr Unknown)"
proof (cases "isConstTrue c \<or> isConstFalse a")
  case True
  then have "boolFormulaImplies B a (Some c) t = Inr True" "implies a c"
    by (auto simp: boolFormulaImplies_def implies_def)
  then show ?thesis by blast
next
  case False
  obtain st where "solveBoolFormulaStatus B (Some (mkAnd a (mkNot c))) t None = Inr st"
    "statusOf (mkAnd a (mkNot c)) st"
    using solveBoolFormulaStatus_sound [OF assms] by blast
  then show ?thesis using False
    by (cases st) (auto simp: boolFormulaImplies_def isBoolFormulaSatisfiable_def statusOf_def satisfiable_refutes)
qed

lemma boolFormulaImpliesWithConflictLimit_ok:
  assumes "soundBackend B"
  shows "\<exists>r. boolFormulaImpliesWithConflictLimit B a (Some c) t limit = Inr r \<and>
    (r = Some True \<longrightarrow> implies a c) \<and> (r = Some False \<longrightarrow> \<not> implies a c)"
proof -
  obtain st where "solveBoolFormulaStatus B (Some (mkAnd a (mkNot c))) t (Some limit) = Inr st"
    "statusOf (mkAnd a (mkNot c)) st"
    using solveBoolFormulaStatus_sound [OF assms] by blast
  moreover have "isConstTrue c \<or> isConstFalse a \<Longrightarrow> implies a c" by (auto simp: implies_def)
  ultimately show ?thesis
    by (cases st) (auto simp: boolFormulaImpliesWithConflictLimit_def statusOf_def satisfiable_refutes)
qed

lemma isProofFormulaSatisfiable_ok:
  assumes "soundBackend B" "completeBackend B"
  shows "isProofFormulaSatisfiable B (Some f) t = Inr (satisfiable f)"
proof -
  obtain s where "assertFormula f t = Inr s" "sv_kissatLimits s = (- 1, - 1)" "(\<exists>M. models M s) = satisfiable f"
    using assertFormula_ok [of f t] by (auto simp: satisfiable_def)
  then show ?thesis using solve_iff [OF assms] by (simp add: isProofFormulaSatisfiable_def)
qed

lemma initialFrontierImplies_ok:
  assumes "soundBackend B" "completeBackend B"
  shows "initialFrontierImplies B (Some i) (Some p) t = Inr (implies i p)"
  using isProofFormulaSatisfiable_ok [OF assms, of "mkAnd i (mkNot p)"]
  by (simp add: initialFrontierImplies_def satisfiable_refutes)

end
