(* ===== verification/KI_Problem.thy ===== *)
theory KI_Problem
  imports Dual_Rail
begin

text \<open>
  The proof problem that the SEC engines share (\<open>sec/kinduction/KInductionProblem.h\<close>): the
  combined transition system of the two designs, its startup data, the property, the
  predicates over them, and the memory of inconclusive residual attempts.  Null expressions
  are \<open>None\<close>; signal keys are pairs of name and object paths.  The lazy transition store is a
  shared object of the code; here it is a value that its readers and writers thread.
\<close>

section \<open>The problem\<close>

datatype transition_rail = Binary | DualRailOne | DualRailZero

record rail_pair =
  railOne :: var_id
  railZero :: var_id

record lazy_source =
  src_designIndex :: nat
  src_localExpr :: "bexpr option"
  src_rail :: transition_rail

type_synonym signal_key = "nat list \<times> nat list"

record residual_attempt =
  ra_outputExpr0 :: "bexpr option"
  ra_outputExpr1 :: "bexpr option"
  ra_inductionProperty :: "bexpr option"
  ra_inductionBad :: "bexpr option"
  ra_inductionOutputCount :: nat
  ra_solverType :: nat
  ra_attemptedMaxK :: nat
  ra_resultBound :: nat

record lazy_store =
  ls_sources :: "var_id \<rightharpoonup> lazy_source"
  ls_localToCombined :: "(var_id \<rightharpoonup> var_id) list"
  ls_stateRails :: "(var_id \<rightharpoonup> rail_pair) list"
  ls_remapMemo :: "bexpr memo list"
  ls_dualRailMemo :: "rails memo list"
  ls_remapped :: "var_id \<rightharpoonup> bexpr option"
  ls_support :: "var_id \<rightharpoonup> var_id set"
  ls_nodeCount :: "var_id \<rightharpoonup> nat"
  ls_publicProperty :: "bexpr option"
  ls_publicBad :: "bexpr option"
  ls_publicOutputCount :: nat
  ls_attempts :: "residual_attempt list"

record problem =
  pb_environmentInputs :: "signal_key list"
  pb_observedOutputs :: "signal_key list"
  pb_environmentInputNames :: "string list"
  pb_observedOutputNames :: "string list"
  pb_originalObservedOutputCount :: nat
  pb_inputSymbols :: "var_id list"
  pb_resetBootstrapCycles :: nat
  pb_resetBootstrapInputs :: "(var_id \<times> bool) list"
  pb_initialStateAssignments :: "(var_id \<times> bool) list"
  pb_bootstrapStateAssignments :: "(var_id \<times> bool) list"
  pb_state0Symbols :: "var_id list"
  pb_state1Symbols :: "var_id list"
  pb_auxiliaryStateSymbols :: "var_id list"
  pb_allSymbols :: "var_id list"
  pb_complementedStatePairs0 :: "(var_id \<times> var_id) list"
  pb_complementedStatePairs1 :: "(var_id \<times> var_id) list"
  pb_sameFrameStateEqualityPairs0 :: "(var_id \<times> var_id) list"
  pb_sameFrameStateEqualityPairs1 :: "(var_id \<times> var_id) list"
  pb_learnedInternalRelationInvariant :: "bexpr option"
  pb_dualRailStatePairs :: "rail_pair list"
  pb_observedOutputExprs0 :: "bexpr list"
  pb_observedOutputExprs1 :: "bexpr list"
  pb_dualRailOutputStrictEqualityExprs :: "bexpr option list"
  pb_dualRailOutputSkipReasons :: "string list"
  pb_transitions0 :: "(var_id \<times> bexpr) list"
  pb_transitions1 :: "(var_id \<times> bexpr) list"
  pb_auxiliaryTransitions :: "(var_id \<times> bexpr) list"
  pb_lazyTransitions :: "lazy_store option"
  pb_initialCondition :: "bexpr option"
  pb_initializedStateCount :: nat
  pb_totalStateCount :: nat
  pb_property :: "bexpr option"
  pb_bad :: "bexpr option"
  pb_inductionProperty :: "bexpr option"
  pb_inductionBad :: "bexpr option"
  pb_usesDualRailStateEncoding :: bool
  pb_usesStrictDualRailEqualityProperty :: bool
  pb_deferBaseCaseChecks :: bool
  pb_description :: string

text \<open>The default-constructed problem.\<close>

definition emptyProblem :: problem where
  "emptyProblem = \<lparr> pb_environmentInputs = [],
     pb_observedOutputs = [],
     pb_environmentInputNames = [],
     pb_observedOutputNames = [],
     pb_originalObservedOutputCount = 0,
     pb_inputSymbols = [],
     pb_resetBootstrapCycles = 0,
     pb_resetBootstrapInputs = [],
     pb_initialStateAssignments = [],
     pb_bootstrapStateAssignments = [],
     pb_state0Symbols = [],
     pb_state1Symbols = [],
     pb_auxiliaryStateSymbols = [],
     pb_allSymbols = [],
     pb_complementedStatePairs0 = [],
     pb_complementedStatePairs1 = [],
     pb_sameFrameStateEqualityPairs0 = [],
     pb_sameFrameStateEqualityPairs1 = [],
     pb_learnedInternalRelationInvariant = None,
     pb_dualRailStatePairs = [],
     pb_observedOutputExprs0 = [],
     pb_observedOutputExprs1 = [],
     pb_dualRailOutputStrictEqualityExprs = [],
     pb_dualRailOutputSkipReasons = [],
     pb_transitions0 = [],
     pb_transitions1 = [],
     pb_auxiliaryTransitions = [],
     pb_lazyTransitions = None,
     pb_initialCondition = None,
     pb_initializedStateCount = 0,
     pb_totalStateCount = 0,
     pb_property = None,
     pb_bad = None,
     pb_inductionProperty = None,
     pb_inductionBad = None,
     pb_usesDualRailStateEncoding = False,
     pb_usesStrictDualRailEqualityProperty = False,
     pb_deferBaseCaseChecks = False,
     pb_description = '''' \<rparr>"

definition emptyLazyStore :: lazy_store where
  "emptyLazyStore = \<lparr> ls_sources = Map.empty, ls_localToCombined = [Map.empty, Map.empty],
     ls_stateRails = [Map.empty, Map.empty], ls_remapMemo = [Map.empty, Map.empty],
     ls_dualRailMemo = [Map.empty, Map.empty], ls_remapped = Map.empty, ls_support = Map.empty,
     ls_nodeCount = Map.empty, ls_publicProperty = None, ls_publicBad = None, ls_publicOutputCount = 0,
     ls_attempts = [] \<rparr>"

definition hasSequentialState :: "problem \<Rightarrow> bool" where
  "hasSequentialState p =
    (pb_state0Symbols p \<noteq> [] \<or> pb_state1Symbols p \<noteq> [] \<or> pb_auxiliaryStateSymbols p \<noteq> [])"

definition hasExplicitInitialState :: "problem \<Rightarrow> bool" where
  "hasExplicitInitialState p = (pb_initializedStateCount p \<noteq> 0)"

definition hasCompleteInitialState :: "problem \<Rightarrow> bool" where
  "hasCompleteInitialState p =
    (pb_initializedStateCount p \<noteq> 0 \<and> pb_initializedStateCount p = pb_totalStateCount p)"

definition hasResetBootstrap :: "problem \<Rightarrow> bool" where
  "hasResetBootstrap p = (pb_resetBootstrapInputs p \<noteq> [])"

definition effectiveTotalStateCount :: "problem \<Rightarrow> nat" where
  "effectiveTotalStateCount p =
    (if pb_totalStateCount p \<noteq> 0 then pb_totalStateCount p
     else length (pb_state0Symbols p) + length (pb_state1Symbols p) + length (pb_auxiliaryStateSymbols p))"

definition hasCompleteBootstrapStateAssignments :: "problem \<Rightarrow> bool" where
  "hasCompleteBootstrapStateAssignments p =
    (let stateCount = effectiveTotalStateCount p
     in stateCount \<noteq> 0 \<and> length (pb_bootstrapStateAssignments p) \<ge> stateCount)"

definition usesResetBootstrapObservationFrontier :: "problem \<Rightarrow> bool" where
  "usesResetBootstrapObservationFrontier p =
    (\<not> pb_usesDualRailStateEncoding p \<and> hasSequentialState p \<and> hasResetBootstrap p \<and>
     pb_resetBootstrapCycles p \<noteq> 0 \<and> pb_property p \<noteq> None \<and>
     \<not> hasCompleteBootstrapStateAssignments p)"

definition canReportSteadyFrontierMismatchAsCounterexample :: "problem \<Rightarrow> bool" where
  "canReportSteadyFrontierMismatchAsCounterexample p =
    (\<not> (hasSequentialState p \<and> hasResetBootstrap p \<and> pb_resetBootstrapCycles p \<noteq> 0))"

definition combinedStateSymbols :: "problem \<Rightarrow> var_id list" where
  "combinedStateSymbols p = pb_state0Symbols p @ pb_state1Symbols p @ pb_auxiliaryStateSymbols p"

lemma combinedStateSymbols_empty: "hasSequentialState p \<longleftrightarrow> combinedStateSymbols p \<noteq> []"
  by (auto simp: hasSequentialState_def combinedStateSymbols_def)

text \<open>A mismatch on the observation frontier is never reported as a counterexample.\<close>

lemma frontier_not_reported:
  "usesResetBootstrapObservationFrontier p \<Longrightarrow> \<not> canReportSteadyFrontierMismatchAsCounterexample p"
  by (simp add: usesResetBootstrapObservationFrontier_def canReportSteadyFrontierMismatchAsCounterexample_def)

section \<open>Inconclusive residual attempts\<close>

record attempt_key =
  ak_outputExpr0 :: "bexpr option"
  ak_outputExpr1 :: "bexpr option"
  ak_inductionProperty :: "bexpr option"
  ak_inductionBad :: "bexpr option"
  ak_inductionOutputCount :: nat
  ak_solverType :: nat

definition attemptMatches :: "residual_attempt \<Rightarrow> attempt_key \<Rightarrow> bool" where
  "attemptMatches a k =
    (ra_outputExpr0 a = ak_outputExpr0 k \<and> ra_outputExpr1 a = ak_outputExpr1 k \<and>
     ra_inductionProperty a = ak_inductionProperty k \<and> ra_inductionBad a = ak_inductionBad k \<and>
     ra_inductionOutputCount a = ak_inductionOutputCount k \<and> ra_solverType a = ak_solverType k)"

definition findInconclusiveAttempt :: "attempt_key \<Rightarrow> nat \<Rightarrow> lazy_store \<Rightarrow> nat option" where
  "findInconclusiveAttempt k requestedMaxK st =
    (case find (\<lambda>a. attemptMatches a k \<and> ra_attemptedMaxK a \<ge> requestedMaxK) (ls_attempts st) of
       None \<Rightarrow> None | Some a \<Rightarrow> Some (ra_resultBound a))"

definition hasInconclusiveAttempt :: "attempt_key \<Rightarrow> nat \<Rightarrow> lazy_store \<Rightarrow> bool" where
  "hasInconclusiveAttempt k requestedMaxK st = (findInconclusiveAttempt k requestedMaxK st \<noteq> None)"

fun mergeAttempt :: "attempt_key \<Rightarrow> nat \<Rightarrow> nat \<Rightarrow> residual_attempt list \<Rightarrow> residual_attempt list" where
  "mergeAttempt k attemptedMaxK resultBound [] =
    [\<lparr> ra_outputExpr0 = ak_outputExpr0 k, ra_outputExpr1 = ak_outputExpr1 k,
       ra_inductionProperty = ak_inductionProperty k, ra_inductionBad = ak_inductionBad k,
       ra_inductionOutputCount = ak_inductionOutputCount k, ra_solverType = ak_solverType k,
       ra_attemptedMaxK = attemptedMaxK, ra_resultBound = resultBound \<rparr>]"
| "mergeAttempt k attemptedMaxK resultBound (a # as) =
    (if attemptMatches a k
     then a\<lparr> ra_attemptedMaxK := max (ra_attemptedMaxK a) attemptedMaxK,
             ra_resultBound := max (ra_resultBound a) resultBound \<rparr> # as
     else a # mergeAttempt k attemptedMaxK resultBound as)"

definition rememberInconclusiveAttempt :: "attempt_key \<Rightarrow> nat \<Rightarrow> nat \<Rightarrow> lazy_store \<Rightarrow> lazy_store" where
  "rememberInconclusiveAttempt k attemptedMaxK resultBound st =
    st\<lparr> ls_attempts := mergeAttempt k attemptedMaxK resultBound (ls_attempts st) \<rparr>"

definition keyOf :: "residual_attempt \<Rightarrow> attempt_key" where
  "keyOf a = \<lparr> ak_outputExpr0 = ra_outputExpr0 a, ak_outputExpr1 = ra_outputExpr1 a,
     ak_inductionProperty = ra_inductionProperty a, ak_inductionBad = ra_inductionBad a,
     ak_inductionOutputCount = ra_inductionOutputCount a, ak_solverType = ra_solverType a \<rparr>"

lemma attemptMatches_key: "attemptMatches a k \<longleftrightarrow> keyOf a = k"
  by (cases k) (auto simp: attemptMatches_def keyOf_def)

definition attemptsOk :: "residual_attempt list \<Rightarrow> bool" where
  "attemptsOk as = distinct (map keyOf as)"

text \<open>The entry of a key, the largest bound tried and the largest result.\<close>

fun lookupAttempt :: "attempt_key \<Rightarrow> residual_attempt list \<Rightarrow> (nat \<times> nat) option" where
  "lookupAttempt k [] = None"
| "lookupAttempt k (a # as) =
    (if keyOf a = k then Some (ra_attemptedMaxK a, ra_resultBound a) else lookupAttempt k as)"

definition joinEntry :: "nat \<times> nat \<Rightarrow> (nat \<times> nat) option \<Rightarrow> nat \<times> nat" where
  "joinEntry x y = (case y of None \<Rightarrow> x | Some z \<Rightarrow> (max (fst z) (fst x), max (snd z) (snd x)))"

lemma keyOf_update [simp]:
  "keyOf (a\<lparr> ra_attemptedMaxK := x, ra_resultBound := y \<rparr>) = keyOf a"
  by (simp add: keyOf_def)

lemma keys_merge: "keyOf ` set (mergeAttempt k m b as) = insert k (keyOf ` set as)"
  by (induction k m b as rule: mergeAttempt.induct)
     (auto simp: attemptMatches_key keyOf_def)

lemma mergeAttempt_ok: "attemptsOk as \<Longrightarrow> attemptsOk (mergeAttempt k m b as)"
proof (induction k m b as rule: mergeAttempt.induct)
  case (2 k m b a as)
  then show ?case
    using keys_merge [of k m b as] by (auto simp: attemptsOk_def attemptMatches_key)
qed (simp add: attemptsOk_def)

lemma lookup_merge:
  "lookupAttempt j (mergeAttempt k m b as) =
    (if j = k then Some (joinEntry (m, b) (lookupAttempt k as)) else lookupAttempt j as)"
  by (induction k m b as rule: mergeAttempt.induct)
     (auto simp: attemptMatches_key keyOf_def joinEntry_def)

lemma find_lookup:
  assumes "attemptsOk as"
  shows "find (\<lambda>a. attemptMatches a k \<and> ra_attemptedMaxK a \<ge> r) as =
    (case lookupAttempt k as of None \<Rightarrow> None
     | Some (m, b) \<Rightarrow> if r \<le> m then find (\<lambda>a. keyOf a = k) as else None)"
  using assms
proof (induction as)
  case (Cons a as)
  have tail: "lookupAttempt k as = None" if "keyOf a = k"
  proof -
    have "k \<notin> keyOf ` set as" using Cons.prems that by (simp add: attemptsOk_def)
    then show ?thesis by (induction as) auto
  qed
  show ?case
    using Cons tail by (auto simp: attemptMatches_key attemptsOk_def split: option.splits)
qed simp

lemma find_bound: "find (\<lambda>a. keyOf a = k) as = Some a \<Longrightarrow> lookupAttempt k as = Some (ra_attemptedMaxK a, ra_resultBound a)"
  by (induction as) (auto split: if_splits)

lemma lookup_find: "lookupAttempt k as = Some mb \<Longrightarrow> \<exists>a. find (\<lambda>a. keyOf a = k) as = Some a"
  by (induction as) (auto split: if_splits)

lemma findInconclusive_lookup:
  assumes "attemptsOk (ls_attempts st)"
  shows "findInconclusiveAttempt k r st =
    (case lookupAttempt k (ls_attempts st) of None \<Rightarrow> None | Some (m, b) \<Rightarrow> if r \<le> m then Some b else None)"
proof (cases "lookupAttempt k (ls_attempts st)")
  case None
  then show ?thesis using find_lookup [OF assms, of k r] by (simp add: findInconclusiveAttempt_def)
next
  case (Some mb)
  obtain a where a: "find (\<lambda>a. keyOf a = k) (ls_attempts st) = Some a" using lookup_find [OF Some] by blast
  then have "mb = (ra_attemptedMaxK a, ra_resultBound a)" using find_bound [OF a] Some by simp
  then show ?thesis using find_lookup [OF assms, of k r] Some a
    by (cases "r \<le> ra_attemptedMaxK a") (simp_all add: findInconclusiveAttempt_def)
qed

end
