(* ===== verification/Proof_Formulas.thy ===== *)
theory Proof_Formulas
  imports KI_Problem Expr_Simplify
begin

text \<open>
  The formulas of \<open>sec/proof/ProofEngineShared.cpp\<close>: the initial frontier, fresh next-state
  symbols, the one-step transition relation and the legality of a state.  The transition
  system of a problem is stated first, as a relation between the values of a frame and the
  values of the next frame; the formulas are proved to express it.
\<close>

section \<open>The transition system of a problem\<close>

definition allTransitions :: "problem \<Rightarrow> (var_id \<times> bexpr) list" where
  "allTransitions p = pb_transitions0 p @ pb_transitions1 p @ pb_auxiliaryTransitions p"

definition complementPairs :: "problem \<Rightarrow> (var_id \<times> var_id) list" where
  "complementPairs p = pb_complementedStatePairs0 p @ pb_complementedStatePairs1 p"

definition symValue :: "(var_id \<Rightarrow> bool) \<Rightarrow> var_id \<Rightarrow> bool" where
  "symValue env s = eval env (mkVar s)"

definition complementsHold :: "problem \<Rightarrow> (var_id \<Rightarrow> bool) \<Rightarrow> bool" where
  "complementsHold p env = (\<forall>(primary, complemented) \<in> set (complementPairs p).
     symValue env complemented = (\<not> symValue env primary))"

definition stepHolds :: "problem \<Rightarrow> (var_id \<Rightarrow> bool) \<Rightarrow> (var_id \<Rightarrow> bool) \<Rightarrow> bool" where
  "stepHolds p env env' = (\<forall>(s, e) \<in> set (allTransitions p). env' s = eval env e)"

definition assignmentHolds :: "(var_id \<times> bool) list \<Rightarrow> (var_id \<Rightarrow> bool) \<Rightarrow> bool" where
  "assignmentHolds as env = (\<forall>(s, v) \<in> set as. symValue env s = v)"

definition needsObservationFrontier :: "problem \<Rightarrow> bool" where
  "needsObservationFrontier p =
    (hasSequentialState p \<and> pb_property p \<noteq> None \<and>
     (\<not> hasExplicitInitialState p \<or> hasExplicitInitialState p \<and> \<not> hasCompleteInitialState p))"

definition holdsOpt :: "(var_id \<Rightarrow> bool) \<Rightarrow> bexpr option \<Rightarrow> bool" where
  "holdsOpt env e = (case e of None \<Rightarrow> True | Some f \<Rightarrow> eval env f)"

text \<open>The states that a proof starts from.\<close>

definition initHolds :: "problem \<Rightarrow> (var_id \<Rightarrow> bool) \<Rightarrow> bool" where
  "initHolds p env =
    (if pb_resetBootstrapCycles p \<noteq> 0 then assignmentHolds (pb_bootstrapStateAssignments p) env
     else (if pb_initialCondition p = Some createTrue \<and> pb_initialStateAssignments p \<noteq> []
           then assignmentHolds (pb_initialStateAssignments p) env
           else holdsOpt env (pb_initialCondition p)) \<and>
          (needsObservationFrontier p \<longrightarrow> holdsOpt env (pb_property p)))"

section \<open>The initial frontier\<close>

definition assignmentLiteral :: "var_id \<times> bool \<Rightarrow> bexpr" where
  "assignmentLiteral a = (if snd a then mkVar (fst a) else mkNot (mkVar (fst a)))"

text \<open>The conjunction and whether a constraint was added.\<close>

definition appendAssignmentFacts :: "(var_id \<times> bool) list \<Rightarrow> bexpr \<times> bool \<Rightarrow> bexpr \<times> bool" where
  "appendAssignmentFacts as = fold (\<lambda>a (ini, has). (mkAnd ini (assignmentLiteral a), True)) as"

text \<open>The startup facts without a reset bootstrap: structured facts or the initial condition.\<close>

definition startFacts :: "problem \<Rightarrow> bexpr \<times> bool" where
  "startFacts p =
    (if pb_initialCondition p = Some createTrue \<and> pb_initialStateAssignments p \<noteq> []
     then appendAssignmentFacts (pb_initialStateAssignments p) (createTrue, False)
     else (case pb_initialCondition p of
             None \<Rightarrow> (createTrue, False)
           | Some c \<Rightarrow> (mkAnd createTrue c, True)))"

definition buildProofInitFormula :: "problem \<Rightarrow> bexpr option" where
  "buildProofInitFormula p =
    (let (ini, hasConstraint) =
           (if pb_resetBootstrapCycles p \<noteq> 0
            then appendAssignmentFacts (pb_bootstrapStateAssignments p) (createTrue, False)
            else if needsObservationFrontier p
            then (case pb_property p of
                    None \<Rightarrow> startFacts p | Some f \<Rightarrow> (mkAnd (fst (startFacts p)) f, True))
            else startFacts p)
     in if \<not> hasConstraint then None else Some (simplify ini))"

lemma eval_assignmentLiteral [simp]: "eval env (assignmentLiteral a) = (symValue env (fst a) = snd a)"
  by (simp add: assignmentLiteral_def symValue_def)

lemma appendAssignmentFacts_eval:
  "eval env (fst (appendAssignmentFacts as x)) = (eval env (fst x) \<and> assignmentHolds as env) \<and>
   snd (appendAssignmentFacts as x) = (snd x \<or> as \<noteq> [])"
  unfolding appendAssignmentFacts_def assignmentHolds_def
proof (induction as arbitrary: x)
  case (Cons a as)
  obtain i h where x: "x = (i, h)" by (cases x)
  show ?case using Cons.IH [of "(mkAnd i (assignmentLiteral a), True)"] by (cases a) (auto simp: x)
qed simp

lemma assignmentHolds_Nil [simp]: "assignmentHolds [] env"
  by (simp add: assignmentHolds_def)

lemma eval_createTrue [simp]: "eval env createTrue"
  by (simp add: createTrue_def)

lemma initFormula_eval:
  "(case buildProofInitFormula p of None \<Rightarrow> (\<forall>env. initHolds p env) | Some f \<Rightarrow> (\<forall>env. eval env f = initHolds p env))"
proof (cases "pb_resetBootstrapCycles p = 0")
  case False
  then show ?thesis
    using appendAssignmentFacts_eval [of _ "pb_bootstrapStateAssignments p" "(createTrue, False)"]
    by (cases "appendAssignmentFacts (pb_bootstrapStateAssignments p) (createTrue, False)")
       (auto simp: buildProofInitFormula_def initHolds_def simplify_eval)
next
  case True
  let ?start = "\<lambda>env. if pb_initialCondition p = Some createTrue \<and> pb_initialStateAssignments p \<noteq> []
           then assignmentHolds (pb_initialStateAssignments p) env
           else holdsOpt env (pb_initialCondition p)"
  obtain i h where ih: "startFacts p = (i, h)" by fastforce
  have boot: "eval env i = ?start env" "\<not> h \<Longrightarrow> ?start env" for env
    using appendAssignmentFacts_eval [of env "pb_initialStateAssignments p" "(createTrue, False)"] ih
    by (auto simp: startFacts_def holdsOpt_def split: option.splits if_splits)
  have start: "initHolds p env = (?start env \<and> (needsObservationFrontier p \<longrightarrow> holdsOpt env (pb_property p)))" for env
    using True by (simp add: initHolds_def)
  show ?thesis
  proof (cases "needsObservationFrontier p")
    case obs: True
    then obtain f where f: "pb_property p = Some f" by (auto simp: needsObservationFrontier_def)
    then have "buildProofInitFormula p = Some (simplify (mkAnd i f))"
      using True obs ih by (simp add: buildProofInitFormula_def)
    moreover have "initHolds p env = (eval env i \<and> eval env f)" for env
      unfolding start boot(1) using obs f by (simp only: holdsOpt_def option.case simp_thms)
    ultimately show ?thesis by (simp add: simplify_eval)
  next
    case obs: False
    then have "buildProofInitFormula p = (if \<not> h then None else Some (simplify i))"
      using True ih by (simp add: buildProofInitFormula_def)
    moreover have "initHolds p env = eval env i" "\<not> h \<Longrightarrow> initHolds p env" for env
      unfolding start boot(1) using boot(2) obs by blast+
    ultimately show ?thesis by (cases h) (auto simp: simplify_eval)
  qed
qed

section \<open>Fresh symbols\<close>

definition nextFreshProofSymbol :: "problem \<Rightarrow> var_id" where
  "nextFreshProofSymbol p = fold (\<lambda>symbol n. max n (symbol + 1)) (pb_allSymbols p) 2"

definition allocateFreshProofSymbols :: "var_id list \<Rightarrow> var_id \<Rightarrow> (var_id \<rightharpoonup> var_id) \<times> var_id" where
  "allocateFreshProofSymbols originals nextSymbol =
    fold (\<lambda>symbol (m, n). (emplace symbol n m, n + 1)) originals (Map.empty, nextSymbol)"

lemma fold_max_ge: "(n::var_id) \<le> fold (\<lambda>s n. max n (s + 1)) xs n"
  by (induction xs arbitrary: n) (auto intro: order_trans [OF max.cobounded1])

lemma nextFresh_above:
  assumes "s \<in> set (pb_allSymbols p)" "s \<noteq> - 1"
  shows "s < nextFreshProofSymbol p"
proof -
  have "s < fold (\<lambda>s n. max n (s + 1)) xs n" if "s \<in> set xs" for xs n
    using that
  proof (induction xs arbitrary: n)
    case (Cons x xs)
    show ?case
    proof (cases "s = x")
      case True
      have "s < s + 1" using inc_less_eq_triv_imp [of s] assms(2) by (auto simp: linorder_not_le [symmetric])
      then show ?thesis
        using fold_max_ge [of "max n (s + 1)" xs] True
        by (simp, meson less_le_trans max.cobounded2 order_trans)
    qed (use Cons in auto)
  qed simp
  then show ?thesis using assms(1) by (simp add: nextFreshProofSymbol_def)
qed

lemma nextFresh_ge2: "2 \<le> nextFreshProofSymbol p"
  unfolding nextFreshProofSymbol_def by (rule fold_max_ge)

text \<open>Without wrap-around the fresh symbols are new and pairwise distinct.\<close>

definition freshMap :: "(var_id \<rightharpoonup> var_id) \<Rightarrow> nat \<Rightarrow> nat \<Rightarrow> bool" where
  "freshMap m lo hi = ((\<forall>s w. m s = Some w \<longrightarrow> lo \<le> unat w \<and> unat w < hi) \<and>
     (\<forall>s s' w. m s = Some w \<and> m s' = Some w \<longrightarrow> s = s'))"

lemma freshMap_emplace:
  assumes "freshMap m lo (unat n)" "lo \<le> unat n"
  shows "freshMap (emplace s n m) lo (Suc (unat n))"
proof -
  have "w \<noteq> n" if "m x = Some w" for x w using assms(1) that unfolding freshMap_def by blast
  then show ?thesis
    using assms unfolding freshMap_def emplace_apply by (auto simp: less_Suc_eq split: if_splits)
qed

lemma allocateFresh_fold:
  assumes "fold (\<lambda>symbol (m, n). (emplace symbol n m, n + 1)) xs (m, n) = (m', n')"
    "freshMap m lo (unat n)" "lo \<le> unat n" "unat n + length xs < 2 ^ 64"
  shows "freshMap m' lo (unat n') \<and> dom m' = dom m \<union> set xs \<and> unat n' = unat n + length xs"
  using assms
proof (induction xs arbitrary: m n)
  case (Cons x xs)
  have n: "unat (n + 1) = Suc (unat n)"
    using Cons.prems(4) by (simp add: unat_word_ariths)
  have "freshMap (emplace x n m) lo (unat (n + 1))" using freshMap_emplace [OF Cons.prems(2,3)] n by simp
  then show ?case using Cons.IH [of "emplace x n m" "n + 1"] Cons.prems n by auto
qed simp

lemma allocateFresh_ok:
  assumes "allocateFreshProofSymbols xs next = (m, next')" "unat next + length xs < 2 ^ 64"
  shows "freshMap m (unat next) (unat next') \<and> dom m = set xs \<and> unat next' = unat next + length xs"
proof -
  have "freshMap Map.empty (unat next) (unat next)" by (simp add: freshMap_def)
  from allocateFresh_fold [OF assms(1) [unfolded allocateFreshProofSymbols_def] this le_refl assms(2)]
  show ?thesis by (metis dom_empty sup_bot_left)
qed

section \<open>The one-step transition relation\<close>

definition remapProofFormula :: "bexpr option \<Rightarrow> (var_id \<rightharpoonup> var_id) \<Rightarrow> error + bexpr option" where
  "remapProofFormula formula symbolMap =
    bindE (remapBoolExprVariables formula symbolMap Map.empty) (\<lambda>(r, _). Inr r)"

definition transitionConj :: "(var_id \<rightharpoonup> var_id) \<Rightarrow> var_id \<times> bexpr \<Rightarrow> bexpr \<Rightarrow> error + bexpr" where
  "transitionConj nextState te t = bindE (atE nextState (fst te))
     (\<lambda>n. Inr (mkAnd t (makeEqualityExpr (mkVar n) (snd te))))"

definition complementConj :: "(var_id \<rightharpoonup> var_id) \<Rightarrow> var_id \<times> var_id \<Rightarrow> bexpr \<Rightarrow> error + bexpr" where
  "complementConj nextState pc t =
    bindE (atE nextState (snd pc)) (\<lambda>c. bindE (atE nextState (fst pc))
      (\<lambda>q. Inr (mkAnd t (makeEqualityExpr (mkVar c) (mkNot (mkVar q))))))"

definition buildOneStepTransitionFormula :: "problem \<Rightarrow> (var_id \<rightharpoonup> var_id) \<Rightarrow> bexpr option \<Rightarrow> error + bexpr" where
  "buildOneStepTransitionFormula p nextState certified =
    bindE (foldE (transitionConj nextState) (pb_transitions0 p) createTrue) (\<lambda>t0.
    bindE (foldE (transitionConj nextState) (pb_transitions1 p) t0) (\<lambda>t1.
    bindE (foldE (transitionConj nextState) (pb_auxiliaryTransitions p) t1) (\<lambda>t2.
    bindE (foldE (complementConj nextState) (pb_complementedStatePairs0 p) t2) (\<lambda>t3.
    bindE (foldE (complementConj nextState) (pb_complementedStatePairs1 p) t3) (\<lambda>t4.
    bindE (case certified of
             None \<Rightarrow> Inr t4
           | Some c \<Rightarrow> bindE (remapProofFormula (Some c) nextState)
               (\<lambda>r. Inr (mkAnd t4 (mkAnd c (the r))))) (\<lambda>t5.
    Inr (simplify t5)))))))"

definition currentConj :: "var_id \<times> var_id \<Rightarrow> bexpr \<Rightarrow> bexpr" where
  "currentConj pc t = mkAnd t (makeEqualityExpr (mkVar (snd pc)) (mkNot (mkVar (fst pc))))"

definition buildCurrentStateLegalityFormula :: "problem \<Rightarrow> bexpr" where
  "buildCurrentStateLegalityFormula p =
    simplify (fold currentConj (pb_complementedStatePairs1 p)
      (fold currentConj (pb_complementedStatePairs0 p) createTrue))"

lemma currentConj_fold:
  "eval env (fold currentConj xs t) = (eval env t \<and> (\<forall>(q, c) \<in> set xs. symValue env c = (\<not> symValue env q)))"
  by (induction xs arbitrary: t) (auto simp: currentConj_def symValue_def)

lemma legality_eval: "eval env (buildCurrentStateLegalityFormula p) = complementsHold p env"
  by (auto simp: buildCurrentStateLegalityFormula_def simplify_eval currentConj_fold complementsHold_def complementPairs_def)

text \<open>The next values are those of the renamed symbols.\<close>

lemma pullEnv_value: "pullEnv m env s = symValue env (the (m s))"
  by (simp add: pullEnv_def symValue_def)

lemma transitionConj_fold:
  assumes "foldE (transitionConj nx) xs t = Inr t'"
  shows "eval env t' = (eval env t \<and> (\<forall>(s, e) \<in> set xs. pullEnv nx env s = eval env e))"
  using assms
proof (induction xs arbitrary: t)
  case (Cons x xs)
  then obtain u where u: "transitionConj nx x t = Inr u" "foldE (transitionConj nx) xs u = Inr t'"
    by (auto simp: bindE_Inr_iff)
  then obtain n where n: "nx (fst x) = Some n"
    "foldE (transitionConj nx) xs (mkAnd t (makeEqualityExpr (mkVar n) (snd x))) = Inr t'"
    by (auto simp: transitionConj_def bindE_Inr_iff)
  then show ?case using Cons.IH [OF n(2)] by (cases x) (auto simp: pullEnv_def)
qed simp

lemma complementConj_fold:
  assumes "foldE (complementConj nx) xs t = Inr t'"
  shows "eval env t' = (eval env t \<and> (\<forall>(q, c) \<in> set xs. pullEnv nx env c = (\<not> pullEnv nx env q)))"
  using assms
proof (induction xs arbitrary: t)
  case (Cons x xs)
  then obtain u where u: "complementConj nx x t = Inr u" "foldE (complementConj nx) xs u = Inr t'"
    by (auto simp: bindE_Inr_iff)
  then obtain c q where n: "nx (snd x) = Some c" "nx (fst x) = Some q"
    "foldE (complementConj nx) xs (mkAnd t (makeEqualityExpr (mkVar c) (mkNot (mkVar q)))) = Inr t'"
    by (auto simp: complementConj_def bindE_Inr_iff)
  then show ?case using Cons.IH [OF n(3)] by (cases x) (auto simp: pullEnv_def)
qed simp

lemma foldE_conj_total:
  assumes "\<And>x t. x \<in> set xs \<Longrightarrow> \<exists>t'. f x t = Inr t'"
  shows "\<exists>t'. foldE f xs t = Inr t'"
  using foldE_total [of "\<lambda>_. True" t xs f] assms by auto

definition nextComplementsHold :: "problem \<Rightarrow> (var_id \<rightharpoonup> var_id) \<Rightarrow> (var_id \<Rightarrow> bool) \<Rightarrow> bool" where
  "nextComplementsHold p nx env = (\<forall>(q, c) \<in> set (complementPairs p). pullEnv nx env c = (\<not> pullEnv nx env q))"

lemma remapProof_ok:
  assumes "remapProofFormula (Some c) nx = Inr r"
  shows "eval env (the r) = eval (pullEnv nx env) c"
proof -
  obtain m where "remapBoolExprVariables (Some c) nx Map.empty = Inr (r, m)"
    using assms by (auto simp: remapProofFormula_def bindE_Inr_iff)
  then obtain v where "r = Some v" "remapsTo nx c v"
    using remap_ok [of c nx Map.empty r m] by (auto simp: memoInv_def)
  then show ?thesis using translatesD(3) by (auto simp: remapsTo_def)
qed

lemma transition_eval:
  assumes "buildOneStepTransitionFormula p nx cert = Inr t"
  shows "eval env t = (stepHolds p env (pullEnv nx env) \<and> nextComplementsHold p nx env \<and>
    holdsOpt env cert \<and> holdsOpt (pullEnv nx env) cert)"
proof -
  obtain t0 t1 t2 t3 t4 t5 where s: "foldE (transitionConj nx) (pb_transitions0 p) createTrue = Inr t0"
    "foldE (transitionConj nx) (pb_transitions1 p) t0 = Inr t1"
    "foldE (transitionConj nx) (pb_auxiliaryTransitions p) t1 = Inr t2"
    "foldE (complementConj nx) (pb_complementedStatePairs0 p) t2 = Inr t3"
    "foldE (complementConj nx) (pb_complementedStatePairs1 p) t3 = Inr t4"
    "(case cert of None \<Rightarrow> Inr t4 | Some c \<Rightarrow> bindE (remapProofFormula (Some c) nx)
               (\<lambda>r. Inr (mkAnd t4 (mkAnd c (the r))))) = Inr t5" "t = simplify t5"
    using assms by (auto simp: buildOneStepTransitionFormula_def bindE_Inr_iff)
  have 4: "eval env t4 = (stepHolds p env (pullEnv nx env) \<and> nextComplementsHold p nx env)"
    using transitionConj_fold [OF s(1), of env] transitionConj_fold [OF s(2), of env]
      transitionConj_fold [OF s(3), of env] complementConj_fold [OF s(4), of env]
      complementConj_fold [OF s(5), of env] eval_createTrue [of env]
    unfolding stepHolds_def nextComplementsHold_def allTransitions_def complementPairs_def
      set_append ball_Un by satx
  have "eval env t5 = (eval env t4 \<and> holdsOpt env cert \<and> holdsOpt (pullEnv nx env) cert)"
    using s(6) remapProof_ok [of _ nx _ env] by (cases cert) (auto simp: bindE_Inr_iff holdsOpt_def)
  then show ?thesis using 4 s(7) by (auto simp: simplify_eval)
qed

lemma transition_total:
  assumes "fst ` set (allTransitions p) \<subseteq> dom nx" "fst ` set (complementPairs p) \<union> snd ` set (complementPairs p) \<subseteq> dom nx"
    "\<And>c. cert = Some c \<Longrightarrow> support c \<subseteq> dom nx"
  shows "\<exists>t. buildOneStepTransitionFormula p nx cert = Inr t"
proof -
  have tr: "\<exists>t'. foldE (transitionConj nx) xs t = Inr t'" if "set xs \<subseteq> set (allTransitions p)" for xs t
  proof (rule foldE_conj_total)
    fix x t assume "x \<in> set xs"
    then have "fst x \<in> dom nx" using assms(1) that by blast
    then show "\<exists>t'. transitionConj nx x t = Inr t'" by (auto simp: transitionConj_def)
  qed
  have co: "\<exists>t'. foldE (complementConj nx) xs t = Inr t'" if "set xs \<subseteq> set (complementPairs p)" for xs t
  proof (rule foldE_conj_total)
    fix x t assume "x \<in> set xs"
    then have "fst x \<in> dom nx" "snd x \<in> dom nx" using assms(2) that by blast+
    then show "\<exists>t'. complementConj nx x t = Inr t'" by (auto simp: complementConj_def)
  qed
  obtain t0 where 0: "foldE (transitionConj nx) (pb_transitions0 p) createTrue = Inr t0"
    using tr [of "pb_transitions0 p"] by (auto simp: allTransitions_def)
  obtain t1 where 1: "foldE (transitionConj nx) (pb_transitions1 p) t0 = Inr t1"
    using tr [of "pb_transitions1 p"] by (auto simp: allTransitions_def)
  obtain t2 where 2: "foldE (transitionConj nx) (pb_auxiliaryTransitions p) t1 = Inr t2"
    using tr [of "pb_auxiliaryTransitions p"] by (auto simp: allTransitions_def)
  obtain t3 where 3: "foldE (complementConj nx) (pb_complementedStatePairs0 p) t2 = Inr t3"
    using co [of "pb_complementedStatePairs0 p"] by (auto simp: complementPairs_def)
  obtain t4 where 4: "foldE (complementConj nx) (pb_complementedStatePairs1 p) t3 = Inr t4"
    using co [of "pb_complementedStatePairs1 p"] by (auto simp: complementPairs_def)
  show ?thesis
  proof (cases cert)
    case (Some c)
    obtain v m where "remapBoolExprVariables (Some c) nx Map.empty = Inr (Some v, m)"
      using remap_total [OF assms(3) [OF Some], of Map.empty] by (auto simp: memoInv_def)
    then have "remapProofFormula (Some c) nx = Inr (Some v)" by (simp add: remapProofFormula_def)
    then show ?thesis by (simp add: buildOneStepTransitionFormula_def 0 1 2 3 4 Some)
  qed (simp add: buildOneStepTransitionFormula_def 0 1 2 3 4)
qed

text \<open>Two frames in one valuation: the old values on the old symbols, the new ones on the fresh.\<close>

definition bothFrames :: "(var_id \<rightharpoonup> var_id) \<Rightarrow> (var_id \<Rightarrow> bool) \<Rightarrow> (var_id \<Rightarrow> bool) \<Rightarrow> var_id \<Rightarrow> bool" where
  "bothFrames m env env' w =
    (if \<exists>s. m s = Some w then env' (THE s. m s = Some w) else env w)"

lemma bothFrames_ok:
  assumes "freshMap m lo hi" "2 \<le> lo"
  shows "m s = Some w \<Longrightarrow> pullEnv m (bothFrames m env env') s = env' s"
    "unat w < lo \<Longrightarrow> bothFrames m env env' w = env w"
proof -
  assume w: "m s = Some w"
  then have "(THE s. m s = Some w) = s" using assms(1) unfolding freshMap_def by blast
  moreover have "\<not> w < 2" using assms w unfolding freshMap_def word_less_nat_alt by fastforce
  ultimately show "pullEnv m (bothFrames m env env') s = env' s"
    using w by (auto simp: pullEnv_def bothFrames_def lt2_iff)
next
  assume "unat w < lo"
  then have "m s \<noteq> Some w" for s using assms(1) unfolding freshMap_def by fastforce
  then show "bothFrames m env env' w = env w" by (simp add: bothFrames_def)
qed

lemma freshSymbols_above:
  assumes "allocateFreshProofSymbols xs (nextFreshProofSymbol p) = (m, n)"
    "unat (nextFreshProofSymbol p) + length xs < 2 ^ 64" "- 1 \<notin> set (pb_allSymbols p)"
  shows "dom m = set xs \<and> (\<forall>s \<in> set (pb_allSymbols p). \<forall>w \<in> ran m. s < w) \<and>
    (\<forall>w \<in> ran m. 2 \<le> w \<and> w < n) \<and> inj_on m (dom m) \<and> unat n = unat (nextFreshProofSymbol p) + length xs"
proof -
  have ok: "freshMap m (unat (nextFreshProofSymbol p)) (unat n)" "dom m = set xs"
    "unat n = unat (nextFreshProofSymbol p) + length xs" using allocateFresh_ok [OF assms(1,2)] by blast+
  have range: "nextFreshProofSymbol p \<le> w \<and> w < n" if "w \<in> ran m" for w
    using ok(1) that by (auto simp: freshMap_def ran_def word_le_nat_alt word_less_nat_alt)
  have "s < w" if "s \<in> set (pb_allSymbols p)" "w \<in> ran m" for s w
    using nextFresh_above [OF that(1)] range [OF that(2)] assms(3) that(1) by (metis order_less_le_trans)
  moreover have "2 \<le> w \<and> w < n" if "w \<in> ran m" for w
    using range [OF that] nextFresh_ge2 [of p] by (meson order_trans)
  moreover have "inj_on m (dom m)"
    using ok(1) unfolding freshMap_def inj_on_def by (metis domD)
  ultimately show ?thesis using ok by blast
qed

end
