(* ===== verification/Solver_Contract.thy ===== *)
theory Solver_Contract
  imports Sat_Gates
begin

text \<open>What the solver wrapper promises its callers: the shared work budget never runs over its
  limits and never wraps around, and a clause is accepted exactly when all its literals are
  solver literals, the variables it names being created on the way.\<close>

section \<open>The work budget\<close>

definition withinBudget :: "work_budget \<Rightarrow> bool" where
  "withinBudget b = (wb_conflicts b \<le> wb_conflictLimit b \<and> wb_decisions b \<le> wb_decisionLimit b \<and>
     wb_ticks b \<le> wb_tickLimit b)"

lemma newBudget_within: "withinBudget (newBudget c d t)"
  by (simp add: withinBudget_def newBudget_def)

lemma remaining_add:
  fixes used limit n :: u64
  assumes "used \<le> limit"
  shows "unat (used + min n (remaining used limit)) = unat used + min (unat n) (unat limit - unat used)"
    "used + min n (remaining used limit) \<le> limit"
proof -
  have r: "unat (remaining used limit) = unat limit - unat used"
    using assms by (auto simp: remaining_def unat_sub word_le_nat_alt)
  have m: "unat (min n (remaining used limit)) = min (unat n) (unat limit - unat used)"
    by (simp add: min_def word_le_nat_alt r)
  have "unat used \<le> unat limit" using assms by (simp add: word_le_nat_alt)
  then have b: "unat used + min (unat n) (unat limit - unat used) \<le> unat limit" by simp
  also have "\<dots> < 2 ^ LENGTH(64)" by (rule unsigned_less)
  finally show s: "unat (used + min n (remaining used limit)) = unat used + min (unat n) (unat limit - unat used)"
    by (simp add: unat_word_ariths m)
  show "used + min n (remaining used limit) \<le> limit" using b by (simp add: word_le_nat_alt s)
qed

lemma consume_within:
  assumes "withinBudget b"
  shows "withinBudget (consume c d t b)"
    "unat (wb_conflicts (consume c d t b)) = min (unat (wb_conflicts b) + unat c) (unat (wb_conflictLimit b))"
    "unat (wb_decisions (consume c d t b)) = min (unat (wb_decisions b) + unat d) (unat (wb_decisionLimit b))"
    "unat (wb_ticks (consume c d t b)) = min (unat (wb_ticks b) + unat t) (unat (wb_tickLimit b))"
proof -
  have le: "wb_conflicts b \<le> wb_conflictLimit b" "wb_decisions b \<le> wb_decisionLimit b"
    "wb_ticks b \<le> wb_tickLimit b" using assms by (auto simp: withinBudget_def)
  note rem = remainingConflicts_def remainingDecisions_def remainingTicks_def consume_def
  show "withinBudget (consume c d t b)"
    using le by (simp add: withinBudget_def rem remaining_add)
  have "unat u \<le> unat l \<Longrightarrow> unat u + min (unat n) (unat l - unat u) = min (unat u + unat n) (unat l)"
    for u l n :: u64 by simp
  then show "unat (wb_conflicts (consume c d t b)) = min (unat (wb_conflicts b) + unat c) (unat (wb_conflictLimit b))"
    "unat (wb_decisions (consume c d t b)) = min (unat (wb_decisions b) + unat d) (unat (wb_decisionLimit b))"
    "unat (wb_ticks (consume c d t b)) = min (unat (wb_ticks b) + unat t) (unat (wb_tickLimit b))"
    using le by (simp_all add: rem remaining_add word_le_nat_alt)
qed

text \<open>A query charges the budget and leaves everything else of the solver as it was.\<close>

lemma solveCadical_state:
  "\<exists>c d t. snd (solveCadicalWithResourceLimits B as x y z u s) =
     (case (if u then sv_budget s else None) of
        None \<Rightarrow> s
      | Some b \<Rightarrow> if exhausted b then s else s\<lparr> sv_budget := Some (consume c d t b) \<rparr>)"
  by (simp add: solveCadicalWithResourceLimits_def Let_def split: option.splits prod.splits) blast

lemma solveCadical_within:
  assumes "\<And>b. sv_budget s = Some b \<Longrightarrow> withinBudget b"
    "sv_budget (snd (solveCadicalWithResourceLimits B as x y z u s)) = Some b'"
  shows "withinBudget b' \<and> (\<exists>b. sv_budget s = Some b \<and> wb_conflictLimit b' = wb_conflictLimit b \<and>
    wb_decisionLimit b' = wb_decisionLimit b \<and> wb_tickLimit b' = wb_tickLimit b \<and>
    wb_conflicts b \<le> wb_conflicts b' \<and> wb_decisions b \<le> wb_decisions b' \<and> wb_ticks b \<le> wb_ticks b')"
proof -
  obtain c d t where st: "snd (solveCadicalWithResourceLimits B as x y z u s) =
     (case (if u then sv_budget s else None) of
        None \<Rightarrow> s
      | Some b \<Rightarrow> if exhausted b then s else s\<lparr> sv_budget := Some (consume c d t b) \<rparr>)"
    using solveCadical_state by blast
  show ?thesis
  proof (cases "u \<and> (\<exists>b. sv_budget s = Some b \<and> \<not> exhausted b)")
    case True
    then obtain b where b: "sv_budget s = Some b" "b' = consume c d t b" using assms(2) st by auto
    then have w: "withinBudget b" using assms(1) by blast
    have mono: "wb_conflicts b \<le> wb_conflicts b'" "wb_decisions b \<le> wb_decisions b'" "wb_ticks b \<le> wb_ticks b'"
      using w by (simp_all add: b(2) word_le_nat_alt consume_within [OF w]) (simp_all add: withinBudget_def word_le_nat_alt)
    show ?thesis using consume_within(1) [OF w] mono b by (simp add: consume_def)
  next
    case False
    then have "sv_budget s = Some b'" using assms(2) st by (auto split: if_splits option.splits)
    then show ?thesis using assms(1) by simp
  qed
qed

section \<open>Clauses\<close>

lemma checkLit_valid:
  "validLit l \<Longrightarrow> \<exists>s'. checkLit what l s = Inr (internalLit l, s') \<and> sv_clauses s' = sv_clauses s \<and>
    sv_vars s' = max (sv_vars s) (Suc (litVar l)) \<and> sameBackend s s'"
  by (auto simp: checkLit_def validLit_def litVar_def Let_def sameBackend_def)

lemma checkLit_invalid: "\<not> validLit l \<Longrightarrow> \<exists>m. checkLit what l s = Inl (Runtime_Error m)"
  by (auto simp: checkLit_def validLit_def Let_def)

lemma checkLits_fold:
  "(if \<forall>l \<in> set lits. validLit l
    then \<exists>s'. foldE (\<lambda>l (ks, s'). bindE (checkLit what l s') (\<lambda>(k, s''). Inr (ks @ [k], s''))) lits (ks, s) =
        Inr (ks @ map internalLit lits, s') \<and> sv_clauses s' = sv_clauses s \<and> sameBackend s s' \<and>
        sv_vars s \<le> sv_vars s' \<and> litsBelow (sv_vars s') lits
    else \<exists>m. foldE (\<lambda>l (ks, s'). bindE (checkLit what l s') (\<lambda>(k, s''). Inr (ks @ [k], s''))) lits (ks, s) =
        Inl (Runtime_Error m))"
proof (induction lits arbitrary: ks s)
  case (Cons l lits)
  show ?case
  proof (cases "validLit l")
    case True
    then obtain s1 where s1: "checkLit what l s = Inr (internalLit l, s1)" "sv_clauses s1 = sv_clauses s"
      "sv_vars s1 = max (sv_vars s) (Suc (litVar l))" "sameBackend s s1" using checkLit_valid by blast
    have below: "sv_vars s1 \<le> n \<Longrightarrow> litBelow n l" for n using True s1(3) by (simp add: litBelow_def)
    show ?thesis using Cons.IH [of "ks @ [internalLit l]" s1] s1 True below
      by (auto split: if_splits simp: sameBackend_def)
  next
    case False
    then show ?thesis using checkLit_invalid [OF False, of what s] by auto
  qed
qed simp

lemma addClause_valid:
  assumes "\<forall>l \<in> set lits. validLit l"
  shows "\<exists>s'. addClause lits s = Inr s' \<and> sameBackend s s' \<and> sv_vars s \<le> sv_vars s' \<and>
    litsBelow (sv_vars s') lits \<and> (\<forall>M. models M s' = (models M s \<and> clauseTrue M lits))"
proof -
  obtain s1 where s1: "checkLits (''to '' @ solverName (sv_type s) @ '' clause'') lits s =
      Inr (map internalLit lits, s1)" "sv_clauses s1 = sv_clauses s" "sameBackend s s1"
      "sv_vars s \<le> sv_vars s1" "litsBelow (sv_vars s1) lits"
    using checkLits_fold [of lits "''to '' @ solverName (sv_type s) @ '' clause''" "[]" s] assms
    by (auto simp: checkLits_def)
  then have "models M (s1\<lparr> sv_clauses := sv_clauses s1 @ [map internalLit lits] \<rparr>) =
      (models M s \<and> clauseTrue M lits)" for M
    using models_addClause [OF s1(5), of M s1] by (simp add: models_def clauseTrue_def)
  then show ?thesis using s1 by (auto simp: addClause_def sameBackend_def)
qed

lemma addClause_invalid:
  assumes "\<exists>l \<in> set lits. \<not> validLit l"
  shows "\<exists>m. addClause lits s = Inl (Runtime_Error m)"
  using checkLits_fold [of lits "''to '' @ solverName (sv_type s) @ '' clause''" "[]" s] assms
  by (auto simp: addClause_def checkLits_def split: if_splits)

end
