(* ===== verification/Cache_Liveness.thy ===== *)
theory Cache_Liveness
  imports Expr_Store
begin

text \<open>Concurrent requests to the expression cache do not only stay consistent, they finish: every
  step of every thread brings it closer to its answer, whatever the other threads do, so each
  run of a finite number of requests ends with all of them answered.\<close>

primrec phaseRank :: "phase \<Rightarrow> nat" where
  "phaseRank (Request k) = 3"
| "phaseRank (Missed k tk) = 2"
| "phaseRank (Built tk p) = 1"
| "phaseRank (Returned p) = 0"

definition pendingWork :: "threads \<Rightarrow> nat" where
  "pendingWork th = (\<Sum>i \<in> dom th. phaseRank (the (th i)))"

lemma pendingWork_step:
  assumes "finite (dom th)" "th i = Some ph" "phaseRank ph' < phaseRank ph"
  shows "pendingWork (th(i \<mapsto> ph')) < pendingWork th"
proof -
  have i: "i \<in> dom th" using assms(2) by blast
  have d: "dom (th(i \<mapsto> ph')) = dom th" using i by auto
  have "pendingWork (th(i \<mapsto> ph')) = phaseRank ph' + (\<Sum>j \<in> dom th - {i}. phaseRank (the (th j)))"
    unfolding pendingWork_def d by (subst sum.remove [OF assms(1) i]) (auto intro: sum.cong)
  moreover have "pendingWork th = phaseRank ph + (\<Sum>j \<in> dom th - {i}. phaseRank (the (th j)))"
    unfolding pendingWork_def by (subst sum.remove [OF assms(1) i]) (simp add: assms(2))
  ultimately show ?thesis using assms(3) by simp
qed

lemma concStep_less:
  assumes "concStep alloc s s'" "finite (dom (snd s))"
  shows "pendingWork (snd s') < pendingWork (snd s) \<and> dom (snd s') = dom (snd s)"
  using assms by (induction rule: concStep.induct) (auto intro!: pendingWork_step)

text \<open>No infinite run: the number of steps is bounded by the work pending at the start.\<close>

lemma concSteps_bounded:
  assumes "(concStep alloc ^^ n) s s'" "finite (dom (snd s))"
  shows "n + pendingWork (snd s') \<le> pendingWork (snd s) \<and> dom (snd s') = dom (snd s)"
  using assms
proof (induction n arbitrary: s')
  case (Suc n)
  then obtain s1 where s1: "(concStep alloc ^^ n) s s1" "concStep alloc s1 s'" by auto
  then have "n + pendingWork (snd s1) \<le> pendingWork (snd s) \<and> dom (snd s1) = dom (snd s)" using Suc by blast
  moreover have "pendingWork (snd s') < pendingWork (snd s1) \<and> dom (snd s') = dom (snd s1)"
    using concStep_less [OF s1(2)] calculation Suc.prems(2) by simp
  ultimately show ?case by (simp del: dom_eq_empty_conv; linarith)
qed auto

definition allReturned :: "threads \<Rightarrow> bool" where
  "allReturned th = (\<forall>i \<in> dom th. \<exists>p. th i = Some (Returned p))"

lemma concSteps_finish:
  assumes "concInv want s" "freshAlloc alloc" "finite (dom (snd s))"
  shows "\<exists>s'. (concStep alloc)\<^sup>*\<^sup>* s s' \<and> allReturned (snd s') \<and> dom (snd s') = dom (snd s)"
  using assms
proof (induction "pendingWork (snd s)" arbitrary: s rule: less_induct)
  case less
  obtain c th where s: "s = (c, th)" by (cases s)
  show ?case
  proof (cases "allReturned th")
    case False
    then obtain i ph where i: "th i = Some ph" "\<nexists>p. ph = Returned p" by (auto simp: allReturned_def)
    have inv: "concInv want (c, th)" using less.prems(1) s by simp
    obtain s1 where s1: "concStep alloc s s1" using concStep_progress [OF inv i, of alloc] s by blast
    have lt: "pendingWork (snd s1) < pendingWork (snd s)" "dom (snd s1) = dom (snd s)"
      using concStep_less [OF s1 less.prems(3)] by auto
    have fin: "finite (dom (snd s1))" using lt(2) less.prems(3) by simp
    obtain s' where s': "(concStep alloc)\<^sup>*\<^sup>* s1 s'" "allReturned (snd s')" "dom (snd s') = dom (snd s1)"
      using less.hyps [OF lt(1) concStep_inv [OF s1 less.prems(2,1)] less.prems(2) fin] by blast
    have "(concStep alloc)\<^sup>*\<^sup>* s s'" using s1 s'(1) by (rule converse_rtranclp_into_rtranclp)
    then show ?thesis using s'(2,3) lt(2) by auto
  qed (use s in auto)
qed

lemma returned_agree:
  assumes "concInv want (c, th)" "th i = Some (Returned p)" "th j = Some (Returned q)"
  shows "p = q \<longleftrightarrow> want i = want j"
proof -
  have "holds c p (want i)" "holds c q (want j)" using concInv_phase [OF assms(1)] assms(2,3) by fastforce+
  then show ?thesis using holds_eq_iff [OF concInv_cache [OF assms(1)]] by blast
qed

end
