(* ===== verification/Reference_Backend.thy ===== *)
theory Reference_Backend
  imports Sat_Query
begin

text \<open>A solver backend that decides by enumerating truth tables. The development quantifies over
  every backend that keeps the documented contract of the SAT solvers (the predicates soundBackend
  and completeBackend); this theory shows with an executable one that the contract can be met,
  and with a second one, which gives up on every query, that soundness alone decides nothing.\<close>

primrec litBound :: "int list \<Rightarrow> nat" where
  "litBound [] = 1"
| "litBound (k # ks) = max (nat \<bar>k\<bar>) (litBound ks)"

definition tableAssignment :: "bool list \<Rightarrow> assignment" where
  "tableAssignment bs v = (v < length bs \<and> bs ! v)"

definition checksUnder :: "int list list \<Rightarrow> int list \<Rightarrow> assignment \<Rightarrow> bool" where
  "checksUnder cnf as M = (list_all (list_ex (internalTrue M)) cnf \<and> list_all (internalTrue M) as)"

definition searchModel :: "int list list \<Rightarrow> int list \<Rightarrow> assignment option" where
  "searchModel cnf as = find (checksUnder cnf as)
     (map tableAssignment (List.n_lists (litBound (concat cnf @ as)) [False, True]))"

definition tableBackend :: backend where
  "tableBackend = \<lparr>
     be_glucose = (\<lambda>cnf as. searchModel cnf as \<noteq> None),
     be_glucoseLimited = (\<lambda>_ cnf as. if searchModel cnf as = None then 1 else 0),
     be_kissat = (\<lambda>_ cnf. if searchModel cnf [] = None then 20 else 10),
     be_cadical = (\<lambda>_ cnf as. (if searchModel cnf as = None then 20 else 10, (0, 0, 0), (0, 0, 0))),
     be_value = (\<lambda>cnf as v. case searchModel cnf as of None \<Rightarrow> 0 | Some M \<Rightarrow> if M v then 1 else - 1) \<rparr>"

definition givingUpBackend :: backend where
  "givingUpBackend = tableBackend\<lparr>
     be_kissat := (\<lambda>_ _. 0), be_cadical := (\<lambda>_ _ _. (0, (0, 0, 0), (0, 0, 0))) \<rparr>"

lemma litBound_pos: "1 \<le> litBound ks"
  by (induction ks) auto

lemma litBound_ge: "k \<in> set ks \<Longrightarrow> nat \<bar>k\<bar> \<le> litBound ks"
  by (induction ks) auto

lemma checksUnder_iff: "checksUnder cnf as M = holdsUnder cnf as M"
  by (simp add: checksUnder_def holdsUnder_def satisfies_def list_all_iff list_ex_iff)

lemma internalTrue_cong:
  assumes "nat \<bar>k\<bar> \<le> n" "1 \<le> n" "\<And>v. v < n \<Longrightarrow> M v = M' v"
  shows "internalTrue M k = internalTrue M' k"
proof -
  have "nat (k - 1) < n" if "k > 0" using assms(1) that by linarith
  moreover have "nat (- k - 1) < n" if "\<not> k > 0" using assms(1,2) that by linarith
  ultimately show ?thesis using assms(3) by (simp add: internalTrue_def)
qed

lemma holdsUnder_cong:
  assumes "\<And>v. v < litBound (concat cnf @ as) \<Longrightarrow> M v = M' v" "holdsUnder cnf as M"
  shows "holdsUnder cnf as M'"
proof -
  have same: "internalTrue M k = internalTrue M' k" if "k \<in> set (concat cnf @ as)" for k
    by (rule internalTrue_cong [OF litBound_ge [OF that] litBound_pos assms(1)])
  show ?thesis using assms(2) same unfolding holdsUnder_def satisfies_def by (auto; blast)
qed

lemma table_covers:
  "\<exists>bs \<in> set (List.n_lists n [False, True]). \<forall>v < n. tableAssignment bs v = M v"
proof -
  have "map M [0..<n] \<in> set (List.n_lists n [False, True])" by (auto simp: set_n_lists)
  moreover have "tableAssignment (map M [0..<n]) v = M v" if "v < n" for v
    using that by (simp add: tableAssignment_def)
  ultimately show ?thesis by blast
qed

lemma searchModel_None: "searchModel cnf as = None \<longleftrightarrow> \<not> satisfiableUnder cnf as"
proof
  assume none: "searchModel cnf as = None"
  show "\<not> satisfiableUnder cnf as"
  proof
    assume "satisfiableUnder cnf as"
    then obtain M where M: "holdsUnder cnf as M" by (auto simp: satisfiableUnder_def)
    obtain bs where bs: "bs \<in> set (List.n_lists (litBound (concat cnf @ as)) [False, True])"
      and same: "\<forall>v < litBound (concat cnf @ as). tableAssignment bs v = M v"
      using table_covers by blast
    have "holdsUnder cnf as (tableAssignment bs)" using holdsUnder_cong [OF _ M] same by simp
    then show False using none bs by (auto simp: searchModel_def find_None_iff checksUnder_iff)
  qed
qed (auto simp: searchModel_def find_None_iff checksUnder_iff satisfiableUnder_def)

lemma searchModel_Some: "searchModel cnf as = Some M \<Longrightarrow> holdsUnder cnf as M"
  by (auto simp: searchModel_def find_Some_iff checksUnder_iff)

lemma tableBackend_value: "satisfiableUnder cnf as \<Longrightarrow> holdsUnder cnf as (backendModel tableBackend cnf as)"
proof -
  assume "satisfiableUnder cnf as"
  then obtain M where M: "searchModel cnf as = Some M" using searchModel_None by (metis not_None_eq)
  then have "backendModel tableBackend cnf as = M" by (auto simp: backendModel_def tableBackend_def)
  then show ?thesis using searchModel_Some [OF M] by simp
qed

lemma tableBackend_sound: "soundBackend tableBackend"
  using tableBackend_value
  by (auto simp: soundBackend_def tableBackend_def soundStatus_def glucoseStatus_def answerStatus_def
    searchModel_None)

lemma tableBackend_complete: "completeBackend tableBackend"
  by (auto simp: completeBackend_def tableBackend_def answerStatus_def)

lemma givingUp_value: "backendModel givingUpBackend = backendModel tableBackend"
  by (simp add: givingUpBackend_def backendModel_def fun_eq_iff)

lemma givingUpBackend_sound: "soundBackend givingUpBackend"
  using tableBackend_sound
  by (simp add: soundBackend_def givingUp_value)
     (simp add: givingUpBackend_def soundStatus_def answerStatus_def)

lemma givingUp_kissat:
  "\<exists>st. solveBoolFormulaStatus givingUpBackend (Some f) KISSAT None = Inr st \<and> (st = Sat \<longrightarrow> f = BVar 1)"
proof -
  obtain s where s: "assertFormula f KISSAT = Inr s" "sv_type s = KISSAT" using assertFormula_ok by blast
  then have "solveStatus givingUpBackend s = Unknown"
    by (simp add: solveStatus_def givingUpBackend_def answerStatus_def)
  then show ?thesis using s by (simp add: solveBoolFormulaStatus_def)
qed

end
