(* ===== verification/Rail_Mapping.thy ===== *)
theory Rail_Mapping
  imports Dual_Rail
begin

text \<open>The dual-rail lift with a mapper that depends on the variable only, as the lazy transition
  store uses it: the rails of a formula depend on the formula alone, so a memo table can be kept
  across calls. They compute the ternary value over the mapped rails, and they mention only
  variables of the mapped rails.\<close>

definition pureMapper :: "(var_id \<Rightarrow> error + rails) \<Rightarrow> unit mapper" where
  "pureMapper g v s = bindE (g v) (\<lambda>r. Inr (r, s))"

definition railsOf :: "(var_id \<Rightarrow> error + rails) \<Rightarrow> var_id \<Rightarrow> rails" where
  "railsOf g v = (case g v of Inl _ \<Rightarrow> rail createFalse createFalse | Inr r \<Rightarrow> r)"

definition railSupport :: "rails \<Rightarrow> var_id set" where
  "railSupport r = support (mayBeOne r) \<union> support (mayBeZero r)"

definition liftedBy :: "(var_id \<Rightarrow> error + rails) \<Rightarrow> bexpr \<Rightarrow> rails \<Rightarrow> bool" where
  "liftedBy g n r = ((\<forall>v \<in> support n. \<exists>x. g v = Inr x) \<and>
     (\<forall>env. evalRails env r = ternary (\<lambda>v. evalRails env (railsOf g v)) n) \<and>
     railSupport r \<subseteq> (\<Union>v \<in> support n. railSupport (railsOf g v)))"

lemma railSupport_rail [simp]: "railSupport (rail a b) = support a \<union> support b"
  by (simp add: railSupport_def rail_def)

lemma railSupport_lift:
  "railSupport (liftNot x) = railSupport x"
  "railSupport (liftAnd x y) \<subseteq> railSupport x \<union> railSupport y"
  "railSupport (liftOr x y) \<subseteq> railSupport x \<union> railSupport y"
  "railSupport (liftXor x y) \<subseteq> railSupport x \<union> railSupport y"
  using support_mkAnd support_mkOr
  by (auto simp: railSupport_def liftNot_def liftAnd_def liftOr_def liftXor_def rail_def; blast)+

lemma liftedBy_node:
  assumes kids: "\<And>c. c \<in> set (children n) \<Longrightarrow> \<exists>x. m c = Some x \<and> liftedBy g c x"
    and r: "dualRailNode (pureMapper g) n (m, s) = Inr (r, s')"
  shows "liftedBy g n r"
proof (cases n)
  case (BVar v)
  then show ?thesis using r
    by (auto simp: liftedBy_def pureMapper_def railsOf_def bindE_Inr_iff evalRails_def rail_def railSupport_def
        createFalse_def createTrue_def split: if_splits)
next
  case (BNot a)
  then obtain x where x: "m a = Some x" "liftedBy g a x" using kids [of a] by auto
  then show ?thesis using r BNot by (auto simp: liftedBy_def railSupport_lift)
next
  case (BAnd a b)
  then obtain x y where x: "m a = Some x" "liftedBy g a x" "m b = Some y" "liftedBy g b y"
    using kids [of a] kids [of b] by auto
  then show ?thesis using r BAnd railSupport_lift(2) [of x y] unfolding liftedBy_def by auto
next
  case (BOr a b)
  then obtain x y where x: "m a = Some x" "liftedBy g a x" "m b = Some y" "liftedBy g b y"
    using kids [of a] kids [of b] by auto
  then show ?thesis using r BOr railSupport_lift(3) [of x y] unfolding liftedBy_def by auto
next
  case (BXor a b)
  then obtain x y where x: "m a = Some x" "liftedBy g a x" "m b = Some y" "liftedBy g b y"
    using kids [of a] kids [of b] by auto
  then show ?thesis using r BXor railSupport_lift(4) [of x y] unfolding liftedBy_def by auto
qed

lemma dualRailNode_total:
  assumes "\<And>c. c \<in> set (children n) \<Longrightarrow> \<exists>x. m c = Some x" "\<forall>v \<in> support n. \<exists>x. g v = Inr x"
  shows "\<exists>r. dualRailNode (pureMapper g) n (m, ()) = Inr (r, ())"
proof (cases n)
  case (BNot a)
  then show ?thesis using assms(1) [of a] by auto
next
  case (BAnd a b)
  then show ?thesis using assms(1) [of a] assms(1) [of b] by auto
next
  case (BOr a b)
  then show ?thesis using assms(1) [of a] assms(1) [of b] by auto
next
  case (BXor a b)
  then show ?thesis using assms(1) [of a] assms(1) [of b] by auto
qed (use assms(2) in \<open>auto simp: pureMapper_def bindE_Inr_iff split: if_splits\<close>)

interpretation mapped_rails: total_postorder "dualRailVisitor (pureMapper g)"
  "\<lambda>ms. memoInv (liftedBy g) (fst ms)" "\<lambda>ms ms'. fst ms \<subseteq>\<^sub>m fst ms'"
  "\<lambda>n. \<forall>v \<in> support n. \<exists>x. g v = Inr x" for g
proof
  fix ms ms' :: "rails memo \<times> unit" and n
  show "fst ms \<subseteq>\<^sub>m fst ms' \<Longrightarrow> v_done (dualRailVisitor (pureMapper g)) ms n \<Longrightarrow>
      v_done (dualRailVisitor (pureMapper g)) ms' n"
    by (auto simp: dualRailVisitor_def map_le_def dom_def)
  assume inv: "memoInv (liftedBy g) (fst ms)" and new: "\<not> v_done (dualRailVisitor (pureMapper g)) ms n"
    and kids: "\<And>c. c \<in> set (children n) \<Longrightarrow> v_done (dualRailVisitor (pureMapper g)) ms c"
  have kid: "\<exists>x. fst ms c = Some x \<and> liftedBy g c x" if "c \<in> set (children n)" for c
    using kids [OF that] inv by (auto simp: dualRailVisitor_def memoInv_def)
  {
    assume fin: "v_finish (dualRailVisitor (pureMapper g)) n ms = Inr ms'"
    obtain r s' where r: "dualRailNode (pureMapper g) n (fst ms, snd ms) = Inr (r, s')"
      "ms' = (emplace n r (fst ms), s')"
      using fin by (cases ms) (auto simp: dualRailVisitor_def bindE_Inr_iff)
    have "liftedBy g n r" by (rule liftedBy_node [OF kid r(1)])
    then show "memoInv (liftedBy g) (fst ms') \<and> fst ms \<subseteq>\<^sub>m fst ms' \<and> v_done (dualRailVisitor (pureMapper g)) ms' n"
      using memoInv_emplace [OF inv] emplace_extends
      by (auto simp: r(2) dualRailVisitor_def emplace_apply)
  next
    assume good: "\<forall>v \<in> support n. \<exists>x. g v = Inr x"
    have "\<exists>r. dualRailNode (pureMapper g) n (fst ms, ()) = Inr (r, ())"
      by (rule dualRailNode_total [OF _ good]) (use kid in blast)
    then show "\<exists>m'. v_finish (dualRailVisitor (pureMapper g)) n ms = Inr m'"
      by (cases ms) (auto simp: dualRailVisitor_def)
  }
qed (use support_child in \<open>blast | auto simp: dualRailVisitor_def intro: map_le_trans\<close>)+

lemma mappedRails_ok:
  assumes "buildDualRailBoolExpr (Some e) (pureMapper g) memo () = Inr (r, memo', ())" "memoInv (liftedBy g) memo"
  shows "\<exists>x. r = Some x \<and> liftedBy g e x \<and> memoInv (liftedBy g) memo'"
proof (cases "memo e")
  case None
  then obtain x where x: "postLoop (dualRailVisitor (pureMapper g)) [(e, False)] (memo, ()) = Inr (memo', ())"
    "memo' e = Some x" "r = Some x"
    using assms(1) by (auto simp: buildDualRailBoolExpr_def bindE_Inr_iff)
  then have "memoInv (liftedBy g) memo'" using mapped_rails.loop_ok [of g "(memo, ())"] assms(2) by fastforce
  then show ?thesis using x by (auto simp: memoInv_def)
next
  case (Some w)
  then have "r = Some w" "memo' = memo" using assms(1) by (auto simp: buildDualRailBoolExpr_def)
  then show ?thesis using Some assms(2) by (auto simp: memoInv_def)
qed

lemma mappedRails_total:
  assumes "\<forall>v \<in> support e. \<exists>x. g v = Inr x" "memoInv (liftedBy g) memo"
  shows "\<exists>x memo'. buildDualRailBoolExpr (Some e) (pureMapper g) memo () = Inr (Some x, memo', ())"
proof (cases "memo e")
  case None
  obtain ms where ms: "postLoop (dualRailVisitor (pureMapper g)) [(e, False)] (memo, ()) = Inr ms"
    "v_done (dualRailVisitor (pureMapper g)) ms e"
    using mapped_rails.loop_total [of e g "(memo, ())"] assms by auto
  then show ?thesis using None
    by (cases ms) (auto simp: buildDualRailBoolExpr_def dualRailVisitor_def)
qed (simp add: buildDualRailBoolExpr_def)

end
