(* ===== verification/Transition_Resolver.thy ===== *)
theory Transition_Resolver
  imports KI_Problem Rail_Mapping Expr_Walk Sat_Encoding
begin

text \<open>
  The resolver of transition expressions (\<open>sec/proof/TransitionExprResolver.cpp\<close>). Transitions
  are either given eagerly in the problem or lazily, as an expression over one design's local
  symbols that is renamed, or lifted to two rails, on first use. The resolver keeps caches of its
  own and others in the store it shares through the problem; both are threaded. An expression
  view is the expression with the symbol map that reads it, if any.
\<close>

section \<open>The resolver\<close>

record resolver =
  tr_problem :: problem
  tr_eager :: "var_id \<rightharpoonup> bexpr"
  tr_support :: "var_id \<rightharpoonup> var_id set"
  tr_postorder :: "bexpr option \<rightharpoonup> bexpr list"
  tr_nodeCount :: "var_id \<rightharpoonup> nat"
  tr_stateSymbols :: "var_id set option"
  tr_primaryByComplement :: "(var_id \<rightharpoonup> var_id) option"

definition newResolver :: "problem \<Rightarrow> resolver" where
  "newResolver p =
    \<lparr> tr_problem = p,
      tr_eager = fold (\<lambda>(s, e). emplace s e) (pb_auxiliaryTransitions p)
        (fold (\<lambda>(s, e). emplace s e) (pb_transitions1 p)
          (fold (\<lambda>(s, e). emplace s e) (pb_transitions0 p) Map.empty)),
      tr_support = Map.empty, tr_postorder = Map.empty, tr_nodeCount = Map.empty,
      tr_stateSymbols = None, tr_primaryByComplement = None \<rparr>"

definition storeOf :: "resolver \<Rightarrow> lazy_store option" where
  "storeOf r = pb_lazyTransitions (tr_problem r)"

definition putStore :: "lazy_store \<Rightarrow> resolver \<Rightarrow> resolver" where
  "putStore st r = r\<lparr> tr_problem := (tr_problem r)\<lparr> pb_lazyTransitions := Some st \<rparr> \<rparr>"

definition requireStore :: "var_id \<Rightarrow> resolver \<Rightarrow> error + lazy_store" where
  "requireStore s r = (case storeOf r of
     None \<Rightarrow> Inl (Runtime_Error (''Missing transition expression for state symbol '' @ showWord s))
   | Some st \<Rightarrow> Inr st)"

definition checkedSource :: "string \<Rightarrow> var_id \<Rightarrow> lazy_store \<Rightarrow> error + lazy_source" where
  "checkedSource what s st = (case ls_sources st s of
     None \<Rightarrow> Inl (Runtime_Error (what @ showWord s))
   | Some src \<Rightarrow>
       if length (ls_localToCombined st) \<le> src_designIndex src
       then Inl (Runtime_Error ''Invalid lazy transition design index'')
       else Inr src)"

definition resolverContains :: "var_id \<Rightarrow> resolver \<Rightarrow> bool" where
  "resolverContains s r = (tr_eager r s \<noteq> None \<or>
     (case storeOf r of None \<Rightarrow> False | Some st \<Rightarrow> ls_sources st s \<noteq> None))"

section \<open>Local symbols\<close>

definition mapLazyTransitionSymbol :: "nat \<Rightarrow> var_id \<Rightarrow> (var_id \<rightharpoonup> var_id) \<Rightarrow> error + var_id" where
  "mapLazyTransitionSymbol designIndex localSymbol symbolMap =
    (if localSymbol < 2 then Inr localSymbol
     else case symbolMap localSymbol of
       Some w \<Rightarrow> Inr w
     | None \<Rightarrow> Inl (Runtime_Error (''SEC lazy transition for design'' @ showNat designIndex @
         '' contains unpublished internal support v'' @ showWord localSymbol)))"

definition lazyRails :: "nat \<Rightarrow> (var_id \<rightharpoonup> var_id) \<Rightarrow> (var_id \<rightharpoonup> rail_pair) \<Rightarrow> var_id \<Rightarrow> error + rails" where
  "lazyRails designIndex binaryMap stateRails symbol =
    (case stateRails symbol of
       Some rp \<Rightarrow> Inr (rail (mkVar (railOne rp)) (mkVar (railZero rp)))
     | None \<Rightarrow>
        if symbol < 2
        then Inr (if symbol = 1 then rail createTrue createFalse else rail createFalse createTrue)
        else bindE (mapLazyTransitionSymbol designIndex symbol binaryMap)
          (\<lambda>w. Inr (rail (mkVar w) (mkNot (mkVar w)))))"

definition identitySupport :: "bexpr option \<Rightarrow> error + var_id set" where
  "identitySupport formula = collectBoolExprSupport formula Inr"

definition remappedSupport :: "bexpr option \<Rightarrow> nat \<Rightarrow> (var_id \<rightharpoonup> var_id) \<Rightarrow> error + var_id set" where
  "remappedSupport formula designIndex symbolMap =
    collectBoolExprSupport formula (\<lambda>localSymbol.
      if localSymbol < 2 then Inr localSymbol
      else mapLazyTransitionSymbol designIndex localSymbol symbolMap)"

definition railSupportStep :: "nat \<Rightarrow> (var_id \<rightharpoonup> var_id) \<Rightarrow> (var_id \<rightharpoonup> rail_pair) \<Rightarrow> unit visit \<Rightarrow>
    var_id set \<times> rail_pair list \<Rightarrow> error + var_id set \<times> rail_pair list" where
  "railSupportStep designIndex binaryMap stateRails x acc =
    (case acc of (found, touched) \<Rightarrow>
      if getOp (fst x) = OpVAR
      then let v = getId (fst x) in
        if v < 2 then Inr (insert v found, touched)
        else (case stateRails v of
           Some rp \<Rightarrow> Inr (insert (railOne rp) found, touched @ [rp])
         | None \<Rightarrow> bindE (mapLazyTransitionSymbol designIndex v binaryMap)
             (\<lambda>w. Inr (insert w found, touched)))
      else Inr (found, touched))"

definition remappedDualRailSupport :: "bexpr option \<Rightarrow> nat \<Rightarrow> (var_id \<rightharpoonup> var_id) \<Rightarrow>
    (var_id \<rightharpoonup> rail_pair) \<Rightarrow> error + var_id set" where
  "remappedDualRailSupport formula designIndex binaryMap stateRails =
    bindE (case formula of
             None \<Rightarrow> Inr ({}, [])
           | Some e \<Rightarrow> bindE (walk False (railSupportStep designIndex binaryMap stateRails) [(e, ())] {} ({}, []))
               (\<lambda>r. Inr (snd r)))
      (\<lambda>(found, touched). Inr ((found \<union> railZero ` set touched) - {0, 1}))"

section \<open>Resolving an expression\<close>

definition materializeLazyDualRailTransition :: "lazy_source \<Rightarrow> lazy_store \<Rightarrow>
    error + bexpr option \<times> lazy_store" where
  "materializeLazyDualRailTransition src st =
    (let d = src_designIndex src in
     if length (ls_localToCombined st) \<le> d
     then Inl (Runtime_Error ''Invalid lazy transition design index'')
     else bindE (buildDualRailBoolExpr (src_localExpr src)
         (pureMapper (lazyRails d (ls_localToCombined st ! d) (ls_stateRails st ! d)))
         (ls_dualRailMemo st ! d) ())
       (\<lambda>(lifted, memo, _).
          let st' = st\<lparr> ls_dualRailMemo := (ls_dualRailMemo st)[d := memo] \<rparr> in
          case src_rail src of
            DualRailOne \<Rightarrow> Inr (map_option mayBeOne lifted, st')
          | DualRailZero \<Rightarrow> Inr (map_option mayBeZero lifted, st')
          | Binary \<Rightarrow> Inl (Runtime_Error ''Lazy dual-rail transition requested for binary rail'')))"

definition rememberRemapped :: "var_id \<Rightarrow> bexpr option \<Rightarrow> lazy_store \<Rightarrow> lazy_store" where
  "rememberRemapped s e st = st\<lparr> ls_remapped := emplace s e (ls_remapped st) \<rparr>"

definition resolveLazy :: "var_id \<Rightarrow> lazy_source \<Rightarrow> lazy_store \<Rightarrow> error + bexpr option \<times> lazy_store" where
  "resolveLazy s src st =
    (let d = src_designIndex src in
     if src_rail src \<noteq> Binary
     then bindE (materializeLazyDualRailTransition src st) (\<lambda>(e, st'). Inr (e, rememberRemapped s e st'))
     else bindE (remappedSupport (src_localExpr src) d (ls_localToCombined st ! d)) (\<lambda>_.
       bindE (remapBoolExprVariables (src_localExpr src) (ls_localToCombined st ! d) (ls_remapMemo st ! d))
         (\<lambda>(e, memo). Inr (e, rememberRemapped s e
            (st\<lparr> ls_remapMemo := (ls_remapMemo st)[d := memo] \<rparr>)))))"

definition transitionAt :: "var_id \<Rightarrow> resolver \<Rightarrow> error + bexpr option \<times> resolver" where
  "transitionAt s r =
    (case tr_eager r s of
       Some e \<Rightarrow> Inr (Some e, r)
     | None \<Rightarrow> bindE (requireStore s r) (\<lambda>st.
         case ls_remapped st s of
           Some e \<Rightarrow> Inr (e, r)
         | None \<Rightarrow> bindE (checkedSource ''Missing lazy transition expression for state symbol '' s st) (\<lambda>src.
             bindE (resolveLazy s src st) (\<lambda>(e, st'). Inr (e, putStore st' r)))))"

definition expressionView :: "var_id \<Rightarrow> resolver \<Rightarrow>
    error + (bexpr option \<times> (var_id \<rightharpoonup> var_id) option) \<times> resolver" where
  "expressionView s r =
    (case tr_eager r s of
       Some e \<Rightarrow> Inr ((Some e, None), r)
     | None \<Rightarrow> bindE (requireStore s r) (\<lambda>st.
         bindE (checkedSource ''Missing lazy transition expression for state symbol '' s st) (\<lambda>src.
           if src_rail src \<noteq> Binary
           then bindE (transitionAt s r) (\<lambda>(e, r'). Inr ((e, None), r'))
           else Inr ((src_localExpr src, Some (ls_localToCombined st ! src_designIndex src)), r))))"

section \<open>Supports\<close>

definition sourceSupport :: "lazy_source \<Rightarrow> lazy_store \<Rightarrow> error + var_id set" where
  "sourceSupport src st =
    (let d = src_designIndex src in
     if src_rail src \<noteq> Binary
     then remappedDualRailSupport (src_localExpr src) d (ls_localToCombined st ! d) (ls_stateRails st ! d)
     else remappedSupport (src_localExpr src) d (ls_localToCombined st ! d))"

definition transitionSupport :: "var_id \<Rightarrow> resolver \<Rightarrow> error + var_id set \<times> resolver" where
  "transitionSupport s r =
    (case tr_support r s of
       Some S \<Rightarrow> Inr (S, r)
     | None \<Rightarrow>
        (case tr_eager r s of
           Some e \<Rightarrow> bindE (identitySupport (Some e)) (\<lambda>S. Inr (S, r\<lparr> tr_support := emplace s S (tr_support r) \<rparr>))
         | None \<Rightarrow> bindE (requireStore s r) (\<lambda>st.
             case ls_support st s of
               Some S \<Rightarrow> Inr (S, r)
             | None \<Rightarrow> bindE (checkedSource ''Missing lazy transition expression for state symbol '' s st) (\<lambda>src.
                 bindE (sourceSupport src st) (\<lambda>S.
                   Inr (S, putStore (st\<lparr> ls_support := emplace s S (ls_support st) \<rparr>) r))))))"

text \<open>The order in which the encoder visits the nodes of a formula.\<close>

definition orderVisitor :: "(bexpr set \<times> bexpr list, error) visitor" where
  "orderVisitor =
    \<lparr> v_done = (\<lambda>(encoded, ord) n. n \<in> encoded), v_leaf = True, v_swap = (\<lambda>_. False),
      v_push = (\<lambda>_ _. True), v_enter = (\<lambda>_ m. Inr m),
      v_finish = (\<lambda>n (encoded, ord). Inr (insert n encoded, ord @ [n])) \<rparr>"

definition buildEncodingPostorder :: "bexpr option \<Rightarrow> bexpr list" where
  "buildEncodingPostorder formula =
    (case formula of
       None \<Rightarrow> []
     | Some e \<Rightarrow> (case postLoop orderVisitor [(e, False)] ({}, []) of Inl _ \<Rightarrow> [] | Inr (_, ord) \<Rightarrow> ord))"

definition encodingPostorder :: "var_id \<Rightarrow> resolver \<Rightarrow> error + bexpr list \<times> resolver" where
  "encodingPostorder s r = bindE (expressionView s r) (\<lambda>(view, r').
     case tr_postorder r' (fst view) of
       Some ord \<Rightarrow> Inr (ord, r')
     | None \<Rightarrow> let ord = buildEncodingPostorder (fst view) in
         Inr (ord, r'\<lparr> tr_postorder := emplace (fst view) ord (tr_postorder r') \<rparr>))"

section \<open>Joint supports\<close>

definition kCachedUnionSupportTargetThreshold :: nat where
  "kCachedUnionSupportTargetThreshold = 16"

definition addCollectedSupportSymbol :: "var_id set \<Rightarrow> var_id \<Rightarrow> var_id set \<times> var_id set \<Rightarrow>
    var_id set \<times> var_id set" where
  "addCollectedSupportSymbol known symbol acc =
    (case acc of (stateSupport, allSupport) \<Rightarrow>
      if symbol < 2 then (stateSupport, allSupport)
      else (if symbol \<in> known then insert symbol stateSupport else stateSupport, insert symbol allSupport))"

text \<open>How a node of the joint walk reads its variables: directly, through the symbol map of a
  design, or through the symbol map and the state rails of a design.\<close>

datatype support_tag = EagerTag | BinaryTag nat | RailTag nat

definition targetVisit :: "var_id \<Rightarrow> resolver \<Rightarrow> error + (bexpr option \<times> support_tag)" where
  "targetVisit s r =
    (case tr_eager r s of
       Some e \<Rightarrow> Inr (Some e, EagerTag)
     | None \<Rightarrow> bindE (requireStore s r) (\<lambda>st.
         bindE (checkedSource ''Missing lazy transition expression for state symbol '' s st) (\<lambda>src.
           Inr (src_localExpr src,
             if src_rail src \<noteq> Binary then RailTag (src_designIndex src) else BinaryTag (src_designIndex src)))))"

definition pushVisit :: "bexpr option \<times> support_tag \<Rightarrow> support_tag visit list \<Rightarrow> support_tag visit list" where
  "pushVisit v stack = (case fst v of None \<Rightarrow> stack | Some e \<Rightarrow> (e, snd v) # stack)"

definition readSymbol :: "resolver \<Rightarrow> support_tag \<Rightarrow> var_id \<Rightarrow> error + var_id list" where
  "readSymbol r tag symbol =
    (case (tag, storeOf r) of
       (BinaryTag d, Some st) \<Rightarrow>
         if symbol < 2 then Inr [symbol]
         else bindE (mapLazyTransitionSymbol d symbol (ls_localToCombined st ! d)) (\<lambda>w. Inr [w])
     | (RailTag d, Some st) \<Rightarrow>
         if symbol < 2 then Inr [symbol]
         else (case (ls_stateRails st ! d) symbol of
            Some rp \<Rightarrow> Inr [railOne rp, railZero rp]
          | None \<Rightarrow> bindE (mapLazyTransitionSymbol d symbol (ls_localToCombined st ! d)) (\<lambda>w. Inr [w]))
     | _ \<Rightarrow> Inr [symbol])"

definition jointStep :: "var_id set \<Rightarrow> resolver \<Rightarrow> support_tag visit \<Rightarrow> var_id set \<times> var_id set \<Rightarrow>
    error + var_id set \<times> var_id set" where
  "jointStep known r x acc =
    (if getOp (fst x) = OpVAR
     then bindE (readSymbol r (snd x) (getId (fst x)))
       (\<lambda>symbols. Inr (fold (addCollectedSupportSymbol known) symbols acc))
     else Inr acc)"

definition collectSupportForTargets :: "var_id list \<Rightarrow> var_id set \<Rightarrow> var_id set \<times> var_id set \<Rightarrow> resolver \<Rightarrow>
    error + (var_id set \<times> var_id set) \<times> resolver" where
  "collectSupportForTargets targets known acc r =
    (if targets = [] then Inr (acc, r)
     else if \<not> pb_usesDualRailStateEncoding (tr_problem r) \<and>
         kCachedUnionSupportTargetThreshold \<le> length targets
     then foldE (\<lambda>s (acc, r). bindE (transitionSupport s r) (\<lambda>(S, r').
            Inr (fold (addCollectedSupportSymbol known) (sorted_list_of_set S) acc, r'))) targets (acc, r)
     else bindE (foldE (\<lambda>s stack. bindE (targetVisit s r) (\<lambda>v. Inr (pushVisit v stack))) targets []) (\<lambda>stack.
       bindE (walk False (jointStep known r) stack {} acc) (\<lambda>(_, acc'). Inr (acc', r))))"

section \<open>Size hints and lookups\<close>

definition nodeCountExpr :: "var_id \<Rightarrow> resolver \<Rightarrow> error + bexpr option \<times> resolver" where
  "nodeCountExpr s r =
    bindE (case tr_eager r s of
             Some e \<Rightarrow> Inr (Some e, r)
           | None \<Rightarrow>
              (case storeOf r of
                 None \<Rightarrow> Inr (None, r)
               | Some st \<Rightarrow>
                  (case ls_sources st s of
                     None \<Rightarrow> Inr (None, r)
                   | Some src \<Rightarrow> if src_rail src = Binary then Inr (src_localExpr src, r) else transitionAt s r)))
      (\<lambda>(e, r'). if e = None then transitionAt s r' else Inr (e, r'))"

definition transitionNodeCount :: "var_id \<Rightarrow> resolver \<Rightarrow> error + nat \<times> resolver" where
  "transitionNodeCount s r =
    (case tr_nodeCount r s of
       Some n \<Rightarrow> Inr (n, r)
     | None \<Rightarrow>
        (case (tr_eager r s, Option.bind (storeOf r) (\<lambda>st. ls_nodeCount st s)) of
           (None, Some n) \<Rightarrow> Inr (n, r\<lparr> tr_nodeCount := emplace s n (tr_nodeCount r) \<rparr>)
         | _ \<Rightarrow> bindE (nodeCountExpr s r) (\<lambda>(e, r1).
             let n = countBoolExprNodes e;
                 r2 = (case (tr_eager r1 s, storeOf r1) of
                         (None, Some st) \<Rightarrow> putStore (st\<lparr> ls_nodeCount := emplace s n (ls_nodeCount st) \<rparr>) r1
                       | _ \<Rightarrow> r1)
             in Inr (n, r2\<lparr> tr_nodeCount := emplace s n (tr_nodeCount r2) \<rparr>))))"

definition stateSymbolsOf :: "resolver \<Rightarrow> var_id set \<times> resolver" where
  "stateSymbolsOf r = (case tr_stateSymbols r of
     Some S \<Rightarrow> (S, r)
   | None \<Rightarrow> let S = set (combinedStateSymbols (tr_problem r)) in (S, r\<lparr> tr_stateSymbols := Some S \<rparr>))"

definition primaryByComplement :: "resolver \<Rightarrow> (var_id \<rightharpoonup> var_id) \<times> resolver" where
  "primaryByComplement r = (case tr_primaryByComplement r of
     Some m \<Rightarrow> (m, r)
   | None \<Rightarrow>
      let m = fold (\<lambda>(primary, complemented). emplace complemented primary)
                (pb_complementedStatePairs1 (tr_problem r))
                (fold (\<lambda>(primary, complemented). emplace complemented primary)
                  (pb_complementedStatePairs0 (tr_problem r)) Map.empty)
      in (m, r\<lparr> tr_primaryByComplement := Some m \<rparr>))"

end
