(* ===== verification/Transition_Correct.thy ===== *)
theory Transition_Correct
  imports Transition_Resolver
begin

text \<open>What the resolver promises: the encoding order lists every node of the expression once,
  children first; the caches are transparent; a resolved expression means what its source
  means; and the support reported for a transition contains every variable the resolved
  expression reads, so a cone of influence built from it loses nothing.\<close>

section \<open>The encoding order\<close>

definition orderInv :: "bexpr set \<times> bexpr list \<Rightarrow> bool" where
  "orderInv m = (set (snd m) = fst m \<and> distinct (snd m) \<and> childrenFirst (snd m))"

interpretation ordering: total_postorder orderVisitor orderInv "\<lambda>m m'. fst m \<subseteq> fst m'" "\<lambda>_. True"
proof
  fix m m' :: "bexpr set \<times> bexpr list" and n
  assume inv: "orderInv m" and new: "\<not> v_done orderVisitor m n"
    and kids: "\<And>c. c \<in> set (children n) \<Longrightarrow> v_done orderVisitor m c"
    and fin: "v_finish orderVisitor n m = Inr m'"
  have m': "m' = (insert n (fst m), snd m @ [n])" using fin by (cases m) (simp add: orderVisitor_def)
  have "n \<notin> fst m" "set (children n) \<subseteq> fst m" using new kids by (cases m; auto simp: orderVisitor_def)+
  then show "orderInv m' \<and> fst m \<subseteq> fst m' \<and> v_done orderVisitor m' n"
    using inv by (auto simp: orderInv_def m' childrenFirst_snoc orderVisitor_def)
qed (auto simp: orderVisitor_def)

lemma order_within: "postRec orderVisitor n m = Inr m' \<Longrightarrow> fst m' \<subseteq> fst m \<union> subs n"
proof (induction n arbitrary: m m' rule: measure_induct_rule [of size])
  case (less n)
  show ?case
  proof (cases "v_done orderVisitor m n")
    case True
    then show ?thesis using less.prems postRec_done by force
  next
    case new: False
    have fin: "v_finish orderVisitor n u = Inr u' \<Longrightarrow> fst u' = insert n (fst u)" for u u'
      by (cases u) (auto simp: orderVisitor_def)
    show ?thesis
    proof (cases "getOp n = OpVAR")
      case True
      then have "v_finish orderVisitor n m = Inr m'"
        using less.prems postRec_leaf [OF new True] by (simp add: orderVisitor_def)
      then show ?thesis using fin by fastforce
    next
      case False
      have kids: "set (kids orderVisitor u n) \<subseteq> set (children n)" for u by (rule kids_subset)
      have step: "postRec orderVisitor n m = bindE (foldE (postRec orderVisitor) (kids orderVisitor m n) m)
          (\<lambda>m2. if v_done orderVisitor m2 n then Inr m2 else v_finish orderVisitor n m2)"
        using new False by (subst postRec.simps) (simp add: orderVisitor_def)
      obtain m2 where m2: "foldE (postRec orderVisitor) (kids orderVisitor m n) m = Inr m2"
        "(if v_done orderVisitor m2 n then Inr m2 else v_finish orderVisitor n m2) = Inr m'"
        by (rule bindE_InrE [OF trans [OF sym [OF step] less.prems]])
      have "fst m2 \<subseteq> fst m \<union> subs n"
      proof (rule foldE_invariant [OF m2(1)])
        fix c u v assume c: "c \<in> set (kids orderVisitor m n)" and u: "fst u \<subseteq> fst m \<union> subs n"
          and r: "postRec orderVisitor c u = Inr v"
        have child: "c \<in> set (children n)" using kids c by blast
        have "fst v \<subseteq> fst u \<union> subs c" by (rule less.IH [OF child_size [OF child] r])
        moreover have "subs c \<subseteq> subs n" using child subs_children [of n] by blast
        ultimately show "fst v \<subseteq> fst m \<union> subs n" using u by blast
      qed simp
      then show ?thesis using m2(2) fin by (fastforce split: if_splits)
    qed
  qed
qed

lemma childrenFirst_children:
  assumes "childrenFirst ord" "e \<in> set ord"
  shows "set (children e) \<subseteq> set ord"
proof -
  obtain i where "i < length ord" "ord ! i = e" using assms(2) by (auto simp: in_set_conv_nth)
  then have "\<forall>c \<in> set (children e). c \<in> set (take i ord)" using assms(1) by (auto simp: childrenFirst_def)
  then show ?thesis using set_take_subset by fastforce
qed

lemma childrenFirst_closed: "childrenFirst ord \<Longrightarrow> e \<in> set ord \<Longrightarrow> subs e \<subseteq> set ord"
  by (induction e) (use childrenFirst_children in force)+

lemma buildEncodingPostorder_ok:
  "set (buildEncodingPostorder (Some e)) = subs e \<and> distinct (buildEncodingPostorder (Some e)) \<and>
   childrenFirst (buildEncodingPostorder (Some e))"
proof -
  have inv0: "orderInv ({}, [])" by (simp add: orderInv_def childrenFirst_def)
  obtain enc ord where r: "postLoop orderVisitor [(e, False)] ({}, []) = Inr (enc, ord)"
    "orderInv (enc, ord)" "v_done orderVisitor (enc, ord) e"
    using ordering.loop_total [OF TrueI inv0, of e] by fastforce
  have b: "buildEncodingPostorder (Some e) = ord" using r(1) by (simp add: buildEncodingPostorder_def)
  have "e \<in> set ord" "set ord = enc" "childrenFirst ord" "distinct ord"
    using r(2,3) by (auto simp: orderInv_def orderVisitor_def)
  moreover have "enc \<subseteq> subs e" using order_within [of e "({}, [])" "(enc, ord)"] r(1) by (simp add: postLoop_root)
  ultimately show ?thesis using childrenFirst_closed b by blast
qed

lemma support_subs: "n \<in> subs e \<Longrightarrow> support n \<subseteq> support e"
  by (induction e) auto

section \<open>Supports without caches\<close>

definition directSupport :: "var_id \<Rightarrow> resolver \<Rightarrow> error + var_id set" where
  "directSupport s r =
    (case tr_eager r s of
       Some e \<Rightarrow> Inr (vars e)
     | None \<Rightarrow> bindE (requireStore s r) (\<lambda>st.
         bindE (checkedSource ''Missing lazy transition expression for state symbol '' s st) (\<lambda>src.
           sourceSupport src st)))"

definition sourcesOf :: "resolver \<Rightarrow> ((var_id \<rightharpoonup> lazy_source) \<times> (var_id \<rightharpoonup> var_id) list \<times> (var_id \<rightharpoonup> rail_pair) list) option" where
  "sourcesOf r = map_option (\<lambda>st. (ls_sources st, ls_localToCombined st, ls_stateRails st)) (storeOf r)"

definition sameSources :: "resolver \<Rightarrow> resolver \<Rightarrow> bool" where
  "sameSources r r' = (tr_eager r' = tr_eager r \<and> sourcesOf r' = sourcesOf r)"

lemma sameSources_refl [simp]: "sameSources r r"
  and sameSources_trans: "sameSources a b \<Longrightarrow> sameSources b c \<Longrightarrow> sameSources a c"
  by (auto simp: sameSources_def)

lemma storeOf_simps [simp]:
  "storeOf (putStore st r) = Some st" "tr_eager (putStore st r) = tr_eager r"
  "tr_support (putStore st r) = tr_support r"
  "storeOf (r\<lparr> tr_support := a \<rparr>) = storeOf r" "storeOf (r\<lparr> tr_postorder := b \<rparr>) = storeOf r"
  "storeOf (r\<lparr> tr_nodeCount := c \<rparr>) = storeOf r"
  by (simp_all add: storeOf_def putStore_def)

lemma directSupport_cong:
  assumes "sameSources r r'"
  shows "directSupport s r' = directSupport s r"
proof (cases "storeOf r")
  case None
  then have "storeOf r' = None" using assms by (simp add: sameSources_def sourcesOf_def)
  then show ?thesis using None assms by (simp add: directSupport_def sameSources_def requireStore_def split: option.split)
next
  case (Some st)
  then obtain st' where "storeOf r' = Some st'" "ls_sources st' = ls_sources st"
    "ls_localToCombined st' = ls_localToCombined st" "ls_stateRails st' = ls_stateRails st"
    using assms by (auto simp: sameSources_def sourcesOf_def)
  then show ?thesis using Some assms
    by (simp add: directSupport_def sameSources_def requireStore_def checkedSource_def sourceSupport_def Let_def split: option.split)
qed

definition supportInv :: "resolver \<Rightarrow> bool" where
  "supportInv r = ((\<forall>s S. tr_support r s = Some S \<longrightarrow> directSupport s r = Inr S) \<and>
     (\<forall>st s S. storeOf r = Some st \<longrightarrow> ls_support st s = Some S \<longrightarrow> tr_eager r s = None \<longrightarrow>
        directSupport s r = Inr S))"

lemma identitySupport_vars: "identitySupport (Some e) = Inr (vars e)"
proof -
  obtain S where "collectBoolExprSupport (Some e) (Inr :: var_id \<Rightarrow> error + var_id) = Inr S"
    using collectBoolExprSupport_total [of e Inr] by auto
  then show ?thesis using collectBoolExprSupport_correct [of e Inr S] by (simp add: identitySupport_def)
qed

text \<open>The support caches are transparent.\<close>

lemma transitionSupport_direct:
  assumes "supportInv r"
  shows "case transitionSupport s r of
      Inl x \<Rightarrow> directSupport s r = Inl x
    | Inr (S, r') \<Rightarrow> directSupport s r = Inr S \<and> supportInv r' \<and> sameSources r r'"
proof (cases "tr_support r s")
  case None
  note own = None
  show ?thesis
  proof (cases "tr_eager r s")
    case (Some e)
    let ?r = "r\<lparr> tr_support := emplace s (vars e) (tr_support r) \<rparr>"
    have same: "sameSources r ?r" by (simp add: sameSources_def sourcesOf_def)
    have d: "directSupport s r = Inr (vars e)" using Some by (simp add: directSupport_def)
    have "supportInv ?r"
      using assms d by (auto simp: supportInv_def directSupport_cong [OF same] emplace_apply)
    then show ?thesis using own Some same d by (simp add: transitionSupport_def identitySupport_vars)
  next
    case lazy: None
    show ?thesis
    proof (cases "storeOf r")
      case None
      then show ?thesis using own lazy by (simp add: transitionSupport_def directSupport_def requireStore_def)
    next
      case st: (Some st)
      show ?thesis
      proof (cases "ls_support st s")
        case (Some S)
        then have "directSupport s r = Inr S" using assms st lazy by (auto simp: supportInv_def)
        then show ?thesis using own lazy st Some assms by (simp add: transitionSupport_def requireStore_def)
      next
        case fresh: None
        show ?thesis
        proof (cases "directSupport s r")
          case (Inl x)
          then show ?thesis using own lazy st fresh
            by (auto simp: transitionSupport_def directSupport_def requireStore_def bindE_def split: sum.splits)
        next
          case (Inr S)
          let ?st = "st\<lparr> ls_support := emplace s S (ls_support st) \<rparr>"
          have same: "sameSources r (putStore ?st r)" using st by (simp add: sameSources_def sourcesOf_def)
          have "supportInv (putStore ?st r)"
            using assms Inr st by (auto simp: supportInv_def directSupport_cong [OF same] emplace_apply)
          moreover have "transitionSupport s r = Inr (S, putStore ?st r)"
            using Inr own lazy st fresh
            by (auto simp: transitionSupport_def directSupport_def requireStore_def bindE_Inr_iff)
          ultimately show ?thesis using Inr same by simp
        qed
      qed
    qed
  qed
next
  case (Some S)
  then show ?thesis using assms by (simp add: transitionSupport_def supportInv_def)
qed

section \<open>Joint supports\<close>

text \<open>What an expression read through a symbol reader contributes.\<close>

definition readBy :: "(var_id \<Rightarrow> error + var_id list) \<Rightarrow> bexpr \<Rightarrow> var_id set" where
  "readBy g e = {w. \<exists>v \<in> vars e. \<exists>ws. g v = Inr ws \<and> w \<in> set ws}"

definition readableBy :: "(var_id \<Rightarrow> error + var_id list) \<Rightarrow> bexpr \<Rightarrow> bool" where
  "readableBy g e = (\<forall>v \<in> vars e. \<exists>ws. g v = Inr ws)"

lemma collectBoolExprSupport_defined:
  assumes "collectBoolExprSupport (Some e) g = Inr s" "v \<in> vars e"
  shows "\<exists>w. g v = Inr w"
proof -
  obtain visited where w: "walk False (collectStep g) [(e, ())] {} {} = Inr (visited, s)"
    using assms(1) by (auto simp: collectBoolExprSupport_def bindE_Inr_iff)
  obtain ord where ord: "set ord = below (e, ())" "foldE (collectStep g) ord {} = Inr s"
    using walk_root(2) [OF w] by blast
  have "(BVar v, ()) \<in> set ord" using assms(2) ord(1) by (simp add: below_unit vars_subs image_iff)
  from foldE_defined [OF ord(2) this] show ?thesis by (auto simp: collectStep_def bindE_Inr_iff)
qed

lemma image_of_partial:
  assumes "\<And>v w. g v = Inr w \<Longrightarrow> w = h v" "\<forall>v \<in> A. \<exists>w. g v = Inr w"
  shows "{w. \<exists>v \<in> A. g v = Inr w} = h ` A"
proof -
  have "g v = Inr (h v)" if "v \<in> A" for v using assms that by metis
  then show ?thesis using assms(1) by blast
qed

lemma remappedSupport_Inr:
  "remappedSupport (Some e) d m = Inr S \<longleftrightarrow>
   support e \<subseteq> dom m \<and> S = (\<lambda>v. if v < 2 then v else the (m v)) ` vars e"
proof -
  let ?g = "\<lambda>v. if v < 2 then Inr v else mapLazyTransitionSymbol d v m"
  let ?h = "\<lambda>v. if v < 2 then v else the (m v)"
  have sup: "support e = {v \<in> vars e. \<not> v < 2}" by (auto simp: support_def)
  have g: "(\<exists>w. ?g v = Inr w) \<longleftrightarrow> v < 2 \<or> v \<in> dom m" for v
    by (auto simp: mapLazyTransitionSymbol_def split: option.splits)
  have h: "?g v = Inr w \<Longrightarrow> w = ?h v" for v w
    by (auto simp: mapLazyTransitionSymbol_def split: option.splits if_splits)
  have img: "{w. \<exists>v \<in> vars e. ?g v = Inr w} = ?h ` vars e" if "\<forall>v \<in> vars e. \<exists>w. ?g v = Inr w"
    by (rule image_of_partial [OF h that])
  have all: "support e \<subseteq> dom m \<longleftrightarrow> (\<forall>v \<in> vars e. \<exists>w. ?g v = Inr w)" unfolding g sup by blast
  show ?thesis
  proof
    assume r: "remappedSupport (Some e) d m = Inr S"
    have ok: "\<forall>v \<in> vars e. \<exists>w. ?g v = Inr w"
      using collectBoolExprSupport_defined [of e ?g S] r by (simp add: remappedSupport_def)
    then show "support e \<subseteq> dom m \<and> S = ?h ` vars e"
      using collectBoolExprSupport_correct [of e ?g S] r img all by (simp add: remappedSupport_def)
  next
    assume a: "support e \<subseteq> dom m \<and> S = ?h ` vars e"
    then obtain S' where S': "remappedSupport (Some e) d m = Inr S'"
      using collectBoolExprSupport_total [of e ?g] all by (auto simp: remappedSupport_def)
    then show "remappedSupport (Some e) d m = Inr S"
      using collectBoolExprSupport_correct [of e ?g S'] img all a by (simp add: remappedSupport_def)
  qed
qed

definition railReads :: "nat \<Rightarrow> (var_id \<rightharpoonup> var_id) \<Rightarrow> (var_id \<rightharpoonup> rail_pair) \<Rightarrow> var_id \<Rightarrow> error + var_id list" where
  "railReads d m rails v =
    (if v < 2 then Inr [v]
     else case rails v of
       Some rp \<Rightarrow> Inr [railOne rp, railZero rp]
     | None \<Rightarrow> bindE (mapLazyTransitionSymbol d v m) (\<lambda>w. Inr [w]))"

lemma foldE_railStep:
  assumes "foldE (railSupportStep d m rails) ord (A, T) = Inr (A', T')"
  shows "A' \<union> railZero ` set T' = A \<union> railZero ` set T \<union>
      {w. \<exists>v t ws. (BVar v, t) \<in> set ord \<and> railReads d m rails v = Inr ws \<and> w \<in> set ws}"
  using assms
proof (induction ord arbitrary: A T)
  case (Cons x ord)
  obtain n t where x: "x = (n, t)" by (cases x)
  obtain A1 T1 where one: "railSupportStep d m rails x (A, T) = Inr (A1, T1)"
    and rest: "foldE (railSupportStep d m rails) ord (A1, T1) = Inr (A', T')"
    using Cons.prems by (auto simp: bindE_Inr_iff)
  have "A1 \<union> railZero ` set T1 = A \<union> railZero ` set T \<union>
      {w. \<exists>v ws. n = BVar v \<and> railReads d m rails v = Inr ws \<and> w \<in> set ws}"
    using one
    by (cases n) (auto simp: railSupportStep_def railReads_def x Let_def bindE_Inr_iff split: if_splits option.splits)
  then show ?case using Cons.IH [OF rest] x by auto
qed simp

lemma railStep_defined: "railSupportStep d m rails (BVar v, t) acc = Inr acc' \<Longrightarrow> \<exists>ws. railReads d m rails v = Inr ws"
  by (cases acc) (auto simp: railSupportStep_def railReads_def Let_def bindE_Inr_iff split: if_splits option.splits)

lemma railStep_total: "(\<And>v. fst x = BVar v \<Longrightarrow> \<exists>ws. railReads d m rails v = Inr ws) \<Longrightarrow>
   \<exists>acc'. railSupportStep d m rails x acc = Inr acc'"
  by (cases acc; cases "fst x")
     (auto simp: railSupportStep_def railReads_def Let_def bindE_Inr_iff split: if_splits option.splits)

lemma dualRailSupport_char:
  "case remappedDualRailSupport (Some e) d m rails of
     Inl _ \<Rightarrow> \<not> readableBy (railReads d m rails) e
   | Inr S \<Rightarrow> readableBy (railReads d m rails) e \<and> S = readBy (railReads d m rails) e - {0, 1}"
proof (cases "remappedDualRailSupport (Some e) d m rails")
  case (Inl x)
  have "\<not> readableBy (railReads d m rails) e"
  proof
    assume all: "readableBy (railReads d m rails) e"
    have "\<exists>r. walk False (railSupportStep d m rails) [(e, ())] {} ({}, []) = Inr r"
    proof (rule walk_total)
      fix x :: "unit visit" and acc assume "x \<in> (\<Union>y \<in> set [(e, ())]. below y)"
      then have "fst x \<in> subs e" by (auto simp: below_unit)
      then have "fst x = BVar v \<Longrightarrow> v \<in> vars e" for v by (simp add: vars_subs)
      then show "\<exists>acc'. railSupportStep d m rails x acc = Inr acc'"
        using all unfolding readableBy_def by (intro railStep_total) blast
    qed
    then show False using Inl by (auto simp: remappedDualRailSupport_def)
  qed
  then show ?thesis using Inl by simp
next
  case (Inr S)
  then obtain visited A T where w: "walk False (railSupportStep d m rails) [(e, ())] {} ({}, []) = Inr (visited, A, T)"
    and S: "S = (A \<union> railZero ` set T) - {0, 1}"
    by (auto simp: remappedDualRailSupport_def bindE_Inr_iff)
  obtain ord where ord: "set ord = below (e, ())" "foldE (railSupportStep d m rails) ord ({}, []) = Inr (A, T)"
    using walk_root(2) [OF w] by blast
  have mem: "(BVar v, t) \<in> set ord \<longleftrightarrow> v \<in> vars e" for v t
    using ord(1) by (auto simp: below_unit vars_subs image_iff)
  have "\<exists>ws. railReads d m rails v = Inr ws" if "v \<in> vars e" for v
  proof -
    have "(BVar v, ()) \<in> set ord" using that mem by blast
    then show ?thesis using foldE_defined [OF ord(2)] railStep_defined by blast
  qed
  moreover have "A \<union> railZero ` set T = readBy (railReads d m rails) e"
    using foldE_railStep [OF ord(2)] mem by (simp add: readBy_def) blast
  ultimately show ?thesis using S Inr by (simp add: readableBy_def)
qed

text \<open>The support of one transition is what its source reads through its tag.\<close>

lemma directSupport_visit:
  assumes v: "targetVisit s r = Inr (eo, tag)"
  shows "(\<exists>S. directSupport s r = Inr S) \<longleftrightarrow> (\<forall>e \<in> set_option eo. readableBy (readSymbol r tag) e)"
    and "directSupport s r = Inr S \<Longrightarrow> S - {0, 1} = (\<Union>e \<in> set_option eo. readBy (readSymbol r tag) e) - {0, 1}"
proof -
  let ?Q = "(\<forall>e \<in> set_option eo. readableBy (readSymbol r tag) e)"
  have "(case directSupport s r of Inl x \<Rightarrow> \<not> ?Q
     | Inr S \<Rightarrow> ?Q \<and> S - {0, 1} = (\<Union>e \<in> set_option eo. readBy (readSymbol r tag) e) - {0, 1})"
  proof (cases "tr_eager r s")
    case (Some e)
    then have "eo = Some e" "tag = EagerTag" using v by (auto simp: targetVisit_def)
    then show ?thesis using Some by (auto simp: directSupport_def readableBy_def readBy_def readSymbol_def)
  next
    case None
    then obtain st src where src: "storeOf r = Some st"
      "checkedSource ''Missing lazy transition expression for state symbol '' s st = Inr src" "eo = src_localExpr src"
      "tag = (if src_rail src \<noteq> Binary then RailTag (src_designIndex src) else BinaryTag (src_designIndex src))"
      using v by (auto simp: targetVisit_def bindE_Inr_iff requireStore_def split: option.splits)
    have ds: "directSupport s r = sourceSupport src st" using None src by (simp add: directSupport_def requireStore_def)
    let ?d = "src_designIndex src"
    show ?thesis
    proof (cases eo)
      case None
      then have "sourceSupport src st = Inr {}" using src(3)
        by (simp add: sourceSupport_def remappedDualRailSupport_def remappedSupport_def collectBoolExprSupport_def Let_def)
      then show ?thesis using ds None by simp
    next
      case (Some e)
      show ?thesis
      proof (cases "src_rail src = Binary")
        case False
        let ?g = "railReads ?d (ls_localToCombined st ! ?d) (ls_stateRails st ! ?d)"
        have read: "readSymbol r tag = ?g" using src False by (auto simp: readSymbol_def railReads_def fun_eq_iff)
        have "sourceSupport src st = remappedDualRailSupport (Some e) ?d (ls_localToCombined st ! ?d) (ls_stateRails st ! ?d)"
          using False src(3) Some by (simp add: sourceSupport_def Let_def)
        then show ?thesis
          using ds Some dualRailSupport_char [of ?d "ls_localToCombined st ! ?d" "ls_stateRails st ! ?d" e]
          by (auto simp: read split: sum.splits)
      next
        case True
        let ?m = "ls_localToCombined st ! ?d"
        have read: "readSymbol r tag v = (if v < 2 then Inr [v] else bindE (mapLazyTransitionSymbol ?d v ?m) (\<lambda>w. Inr [w]))" for v
          using src True by (auto simp: readSymbol_def)
        have sup: "sourceSupport src st = remappedSupport (Some e) ?d ?m" using True src(3) Some by (simp add: sourceSupport_def Let_def)
        have reads: "readSymbol r tag v = Inr ws \<longleftrightarrow> (v < 2 \<or> v \<in> dom ?m) \<and> ws = [if v < 2 then v else the (?m v)]" for v ws
          by (auto simp: read mapLazyTransitionSymbol_def split: option.splits)
        have "readableBy (readSymbol r tag) e \<longleftrightarrow> support e \<subseteq> dom ?m" by (auto simp: readableBy_def reads support_def)
        moreover have "readBy (readSymbol r tag) e = (\<lambda>v. if v < 2 then v else the (?m v)) ` vars e" if "support e \<subseteq> dom ?m"
          using that by (auto simp: readBy_def reads support_def image_iff; force)
        ultimately show ?thesis using ds Some sup remappedSupport_Inr [of e ?d ?m] by (auto split: sum.split)
      qed
    qed
  qed
  then show "(\<exists>S. directSupport s r = Inr S) \<longleftrightarrow> ?Q"
    and "directSupport s r = Inr S \<Longrightarrow> S - {0, 1} = (\<Union>e \<in> set_option eo. readBy (readSymbol r tag) e) - {0, 1}"
    by (auto split: sum.splits)
qed

lemma readBy_finite: "finite (readBy g e)"
proof -
  have "readBy g e \<subseteq> (\<Union>v \<in> vars e. case g v of Inl _ \<Rightarrow> {} | Inr ws \<Rightarrow> set ws)"
    by (force simp: readBy_def)
  moreover have "finite (\<Union>v \<in> vars e. case g v of Inl _ \<Rightarrow> {} | Inr ws \<Rightarrow> set ws)"
    by (auto split: sum.split)
  ultimately show ?thesis by (rule finite_subset)
qed

lemma directSupport_visited:
  assumes "directSupport s r = Inr S"
  obtains eo tag where "targetVisit s r = Inr (eo, tag)"
proof (cases "tr_eager r s")
  case (Some e)
  then show ?thesis using that by (simp add: targetVisit_def)
next
  case None
  then show ?thesis using assms that by (auto simp: targetVisit_def directSupport_def bindE_Inr_iff)
qed

lemma directSupport_finite:
  assumes "directSupport s r = Inr S"
  shows "finite S"
proof -
  obtain eo tag where v: "targetVisit s r = Inr (eo, tag)" using directSupport_visited [OF assms] .
  have "finite (S - {0, 1})"
    unfolding directSupport_visit(2) [OF v assms] by (cases eo) (simp_all add: readBy_finite)
  then show ?thesis by simp
qed

text \<open>The joint support of several transitions, without walks and caches.\<close>

definition coneReads :: "resolver \<Rightarrow> var_id list \<Rightarrow> var_id set" where
  "coneReads r targets = {w. \<exists>s \<in> set targets. \<exists>S. directSupport s r = Inr S \<and> w \<in> S \<and> \<not> w < 2}"

definition supported :: "resolver \<Rightarrow> var_id list \<Rightarrow> bool" where
  "supported r targets = (\<forall>s \<in> set targets. \<exists>S. directSupport s r = Inr S)"

definition addReads :: "var_id set \<Rightarrow> var_id set \<Rightarrow> var_id set \<times> var_id set \<Rightarrow> var_id set \<times> var_id set" where
  "addReads known W acc = (fst acc \<union> W \<inter> known, snd acc \<union> W)"

lemma addCollected_fold:
  "fold (addCollectedSupportSymbol known) ws acc = addReads known {w \<in> set ws. \<not> w < 2} acc"
  by (induction ws arbitrary: acc)
     (auto simp: addReads_def addCollectedSupportSymbol_def split: prod.splits if_splits)

lemma addReads_addReads [simp]: "addReads known V (addReads known W acc) = addReads known (W \<union> V) acc"
  by (auto simp: addReads_def)

lemma addReads_empty [simp]: "addReads known {} acc = acc"
  by (simp add: addReads_def)

lemma cached_fold:
  assumes "supportInv r"
  shows "case foldE (\<lambda>s (acc, r). bindE (transitionSupport s r) (\<lambda>(S, r').
            Inr (fold (addCollectedSupportSymbol known) (sorted_list_of_set S) acc, r'))) targets (acc, r) of
      Inl _ \<Rightarrow> \<not> supported r targets
    | Inr (acc', r') \<Rightarrow> supported r targets \<and> acc' = addReads known (coneReads r targets) acc \<and>
        supportInv r' \<and> sameSources r r'"
  using assms
proof (induction targets arbitrary: acc r)
  case Nil
  then show ?case by (simp add: supported_def coneReads_def)
next
  case (Cons s targets)
  show ?case
  proof (cases "transitionSupport s r")
    case (Inl x)
    then show ?thesis using transitionSupport_direct [OF Cons.prems, of s] by (simp add: supported_def)
  next
    case (Inr a)
    obtain S r1 where a: "a = (S, r1)" by (cases a)
    then have d: "directSupport s r = Inr S" "supportInv r1" "sameSources r r1"
      using transitionSupport_direct [OF Cons.prems, of s] Inr by auto
    have same: "supported r1 targets = supported r targets" "coneReads r1 targets = coneReads r targets"
      by (simp_all add: supported_def coneReads_def directSupport_cong [OF d(3)])
    have fin: "finite S"
      using directSupport_finite [OF d(1)] .
    have cons: "coneReads r (s # targets) = {w \<in> S. \<not> w < 2} \<union> coneReads r targets"
      "supported r (s # targets) = supported r targets"
      using d(1) by (auto simp: coneReads_def supported_def)
    have acc: "fold (addCollectedSupportSymbol known) (sorted_list_of_set S) acc =
        addReads known {w \<in> S. \<not> w < 2} acc" by (simp add: addCollected_fold fin)
    show ?thesis
      using Cons.IH [OF d(2), of "addReads known {w \<in> S. \<not> w < 2} acc"] Inr a sameSources_trans [OF d(3)]
      unfolding same cons by (auto simp: acc simp del: not_less split: sum.splits)
  qed
qed

text \<open>The joint walk over the sources of all targets.\<close>

definition roots :: "resolver \<Rightarrow> var_id list \<Rightarrow> support_tag visit set" where
  "roots r targets = {(e, tag). \<exists>s \<in> set targets. targetVisit s r = Inr (Some e, tag)}"

lemma pushTargets:
  "case foldE (\<lambda>s stack. bindE (targetVisit s r) (\<lambda>v. Inr (pushVisit v stack))) targets stack of
     Inl _ \<Rightarrow> \<exists>s \<in> set targets. \<exists>x. targetVisit s r = Inl x
   | Inr stack' \<Rightarrow> (\<forall>s \<in> set targets. \<exists>v. targetVisit s r = Inr v) \<and> set stack' = set stack \<union> roots r targets"
proof (induction targets arbitrary: stack)
  case (Cons s targets)
  show ?case
  proof (cases "targetVisit s r")
    case (Inr v)
    have "roots r (s # targets) = (case fst v of None \<Rightarrow> {} | Some e \<Rightarrow> {(e, snd v)}) \<union> roots r targets"
      using Inr by (cases v) (auto simp: roots_def split: option.splits)
    then show ?thesis using Cons.IH [of "pushVisit v stack"] Inr
      by (auto simp: pushVisit_def split: sum.splits option.splits)
  qed simp
qed (simp add: roots_def)

lemma jointStep_fold:
  assumes "foldE (jointStep known r) ord acc = Inr acc'"
  shows "acc' = addReads known
    {w. \<exists>v tag ws. (BVar v, tag) \<in> set ord \<and> readSymbol r tag v = Inr ws \<and> w \<in> set ws \<and> \<not> w < 2} acc"
  using assms
proof (induction ord arbitrary: acc)
  case (Cons x ord)
  obtain n tag where x: "x = (n, tag)" by (cases x)
  obtain acc1 where one: "jointStep known r x acc = Inr acc1" and rest: "foldE (jointStep known r) ord acc1 = Inr acc'"
    using Cons.prems by (auto simp: bindE_Inr_iff)
  have "acc1 = addReads known {w. \<exists>v ws. n = BVar v \<and> readSymbol r tag v = Inr ws \<and> w \<in> set ws \<and> \<not> w < 2} acc"
    using one by (cases n) (auto simp: jointStep_def x bindE_Inr_iff addCollected_fold simp del: not_less)
  then show ?case unfolding Cons.IH [OF rest] x by (auto simp del: not_less intro!: arg_cong2 [where f = "addReads known"])
qed (simp add: addReads_def)

lemma jointStep_defined:
  "jointStep known r (BVar v, tag) acc = Inr acc' \<Longrightarrow> \<exists>ws. readSymbol r tag v = Inr ws"
  by (auto simp: jointStep_def bindE_Inr_iff)

lemma jointStep_total:
  "(\<And>v. fst x = BVar v \<Longrightarrow> \<exists>ws. readSymbol r (snd x) v = Inr ws) \<Longrightarrow> \<exists>acc'. jointStep known r x acc = Inr acc'"
  by (cases "fst x") (auto simp: jointStep_def bindE_Inr_iff)

lemma below_var: "(BVar v, tag) \<in> below (e, t) \<longleftrightarrow> tag = t \<and> v \<in> vars e"
  by (auto simp: below_def vars_subs image_iff)

lemma joint_walk:
  assumes "\<forall>s \<in> set targets. \<exists>v. targetVisit s r = Inr v" "set stack = roots r targets"
  shows "case walk False (jointStep known r) stack {} acc of
     Inl _ \<Rightarrow> \<not> supported r targets
   | Inr (_, acc') \<Rightarrow> supported r targets \<and> acc' = addReads known (coneReads r targets) acc"
proof -
  have sup: "supported r targets \<longleftrightarrow> (\<forall>(e, tag) \<in> roots r targets. readableBy (readSymbol r tag) e)"
  proof -
    have "(\<exists>S. directSupport s r = Inr S) \<longleftrightarrow>
        (\<forall>e tag. targetVisit s r = Inr (Some e, tag) \<longrightarrow> readableBy (readSymbol r tag) e)" if s: "s \<in> set targets" for s
    proof -
      obtain eo tag where v: "targetVisit s r = Inr (eo, tag)" using assms(1) s by fastforce
      show ?thesis using directSupport_visit(1) [OF v] v by (cases eo) auto
    qed
    then show ?thesis unfolding supported_def roots_def by blast
  qed
  have cone: "coneReads r targets =
      {w. \<exists>(e, tag) \<in> roots r targets. w \<in> readBy (readSymbol r tag) e \<and> \<not> w < 2}" if "supported r targets"
  proof -
    have "(\<exists>S. directSupport s r = Inr S \<and> w \<in> S) \<longleftrightarrow>
        (\<exists>e tag. targetVisit s r = Inr (Some e, tag) \<and> w \<in> readBy (readSymbol r tag) e)"
      if s: "s \<in> set targets" and w: "\<not> w < 2" for s w
    proof -
      obtain S where S: "directSupport s r = Inr S" using \<open>supported r targets\<close> s by (auto simp: supported_def)
      obtain eo tag where v: "targetVisit s r = Inr (eo, tag)" using directSupport_visited [OF S] .
      have n: "w \<notin> {0, 1}" using w by auto
      have "w \<in> S \<longleftrightarrow> w \<in> S - {0, 1}" using n by blast
      also have "\<dots> \<longleftrightarrow> (\<exists>e \<in> set_option eo. w \<in> readBy (readSymbol r tag) e)"
        unfolding directSupport_visit(2) [OF v S] using n by blast
      finally show ?thesis using S v by (cases eo) auto
    qed
    then show ?thesis unfolding coneReads_def roots_def by blast
  qed
  show ?thesis
  proof (cases "walk False (jointStep known r) stack {} acc")
    case (Inl x)
    have "\<not> supported r targets"
    proof
      assume all: "supported r targets"
      have "\<exists>q. walk False (jointStep known r) stack {} acc = Inr q"
      proof (rule walk_total)
        fix x and acc :: "var_id set \<times> var_id set" assume "x \<in> (\<Union>y \<in> set stack. below y)"
        then obtain e tag where y: "(e, tag) \<in> roots r targets" "x \<in> below (e, tag)" using assms(2) by force
        show "\<exists>acc'. jointStep known r x acc = Inr acc'"
        proof (rule jointStep_total)
          fix v assume "fst x = BVar v"
          then have "(BVar v, snd x) \<in> below (e, tag)" using y(2) by (cases x) simp
          then show "\<exists>ws. readSymbol r (snd x) v = Inr ws"
            using all y(1) unfolding sup readableBy_def below_var by fastforce
        qed
      qed
      then show False using Inl by simp
    qed
    then show ?thesis using Inl by simp
  next
    case (Inr q)
    obtain visited acc' where q: "q = (visited, acc')" by (cases q)
    have w: "walk False (jointStep known r) stack {} acc = Inr (visited, acc')" using Inr q by simp
    obtain ord where ord: "set ord = visited" "foldE (jointStep known r) ord acc = Inr acc'"
      and vis: "set stack \<subseteq> visited" "closedUnder visited {}" "visited \<subseteq> (\<Union>x \<in> set stack. below x)"
      using walk_correct [OF w] by (auto simp: closedUnder_def)
    have V: "visited = (\<Union>x \<in> set stack. below x)" using vis closed_below [OF vis(2)] by blast
    have mem: "(BVar v, tag) \<in> set ord \<longleftrightarrow> (\<exists>e. (e, tag) \<in> roots r targets \<and> v \<in> vars e)" for v tag
    proof -
      have "(BVar v, tag) \<in> set ord \<longleftrightarrow> (\<exists>e t. (e, t) \<in> roots r targets \<and> (BVar v, tag) \<in> below (e, t))"
        using V unfolding ord(1) assms(2) by auto
      then show ?thesis unfolding below_var by blast
    qed
    have all: "supported r targets"
      unfolding sup readableBy_def
    proof clarify
      fix e tag v assume "(e, tag) \<in> roots r targets" "v \<in> vars e"
      then have "(BVar v, tag) \<in> set ord" using mem by blast
      then show "\<exists>ws. readSymbol r tag v = Inr ws" using foldE_defined [OF ord(2)] jointStep_defined by blast
    qed
    moreover have "{w. \<exists>v tag ws. (BVar v, tag) \<in> set ord \<and> readSymbol r tag v = Inr ws \<and> w \<in> set ws \<and> \<not> w < 2} =
        coneReads r targets"
      unfolding cone [OF all] readBy_def mem by blast
    ultimately show ?thesis using jointStep_fold [OF ord(2)] Inr q by simp
  qed
qed

text \<open>Both ways of collecting the support agree with the support of the single transitions.\<close>

lemma collectSupport_ok:
  assumes "supportInv r"
  shows "case collectSupportForTargets targets known acc r of
     Inl _ \<Rightarrow> \<not> supported r targets
   | Inr (acc', r') \<Rightarrow> supported r targets \<and> acc' = addReads known (coneReads r targets) acc \<and>
       supportInv r' \<and> sameSources r r'"
proof (cases "targets = []")
  case False
  show ?thesis
  proof (cases "\<not> pb_usesDualRailStateEncoding (tr_problem r) \<and> kCachedUnionSupportTargetThreshold \<le> length targets")
    case True
    then show ?thesis using False cached_fold [OF assms, where known = known and targets = targets and acc = acc] by (simp add: collectSupportForTargets_def)
  next
    case joint: False
    have c: "collectSupportForTargets targets known acc r =
        bindE (foldE (\<lambda>s stack. bindE (targetVisit s r) (\<lambda>v. Inr (pushVisit v stack))) targets []) (\<lambda>stack.
          bindE (walk False (jointStep known r) stack {} acc) (\<lambda>(_, acc'). Inr (acc', r)))"
      unfolding collectSupportForTargets_def if_not_P [OF False] if_not_P [OF joint] ..
    show ?thesis
    proof (cases "foldE (\<lambda>s stack. bindE (targetVisit s r) (\<lambda>v. Inr (pushVisit v stack))) targets []")
      case (Inl x)
      then obtain s y where s: "s \<in> set targets" "targetVisit s r = Inl y" using pushTargets [where r = r and targets = targets and stack = "[]"] by auto
      then have "\<not> supported r targets" unfolding supported_def
        using directSupport_visited by (metis sum.distinct(1))
      then show ?thesis using c Inl by simp
    next
      case (Inr stack)
      then have "\<forall>s \<in> set targets. \<exists>v. targetVisit s r = Inr v" "set stack = roots r targets"
        using pushTargets [where r = r and targets = targets and stack = "[]"] by simp_all
      then show ?thesis using joint_walk [where targets = targets and r = r and stack = stack and known = known and acc = acc] c Inr assms
        by (auto split: sum.splits)
    qed
  qed
qed (use assms in \<open>simp add: collectSupportForTargets_def supported_def coneReads_def\<close>)

section \<open>Resolved expressions\<close>

definition designRails :: "lazy_store \<Rightarrow> nat \<Rightarrow> var_id \<Rightarrow> error + rails" where
  "designRails st d = lazyRails d (ls_localToCombined st ! d) (ls_stateRails st ! d)"

text \<open>What the resolved expression of a source must be.\<close>

definition resolves :: "lazy_store \<Rightarrow> lazy_source \<Rightarrow> bexpr option \<Rightarrow> bool" where
  "resolves st src eo =
    (case src_localExpr src of
       None \<Rightarrow> eo = None
     | Some x \<Rightarrow>
        (case src_rail src of
           Binary \<Rightarrow> \<exists>v. eo = Some v \<and> remapsTo (ls_localToCombined st ! src_designIndex src) x v
         | DualRailOne \<Rightarrow> \<exists>q. eo = Some (mayBeOne q) \<and> liftedBy (designRails st (src_designIndex src)) x q
         | DualRailZero \<Rightarrow> \<exists>q. eo = Some (mayBeZero q) \<and> liftedBy (designRails st (src_designIndex src)) x q))"

abbreviation lazySource :: "var_id \<Rightarrow> lazy_store \<Rightarrow> error + lazy_source" where
  "lazySource \<equiv> checkedSource ''Missing lazy transition expression for state symbol ''"

definition memosOk :: "lazy_store \<Rightarrow> bool" where
  "memosOk st = (length (ls_remapMemo st) = length (ls_localToCombined st) \<and>
     length (ls_dualRailMemo st) = length (ls_localToCombined st) \<and>
     (\<forall>d < length (ls_localToCombined st).
        memoInv (remapsTo (ls_localToCombined st ! d)) (ls_remapMemo st ! d) \<and>
        memoInv (liftedBy (designRails st d)) (ls_dualRailMemo st ! d)) \<and>
     (\<forall>s eo. ls_remapped st s = Some eo \<longrightarrow> (\<exists>src. lazySource s st = Inr src \<and> resolves st src eo)))"

definition sameStatics :: "lazy_store \<Rightarrow> lazy_store \<Rightarrow> bool" where
  "sameStatics st st' = (ls_sources st' = ls_sources st \<and> ls_localToCombined st' = ls_localToCombined st \<and>
     ls_stateRails st' = ls_stateRails st \<and> ls_support st' = ls_support st)"

lemma sameStaticsD:
  assumes "sameStatics st st'"
  shows "designRails st' = designRails st" "resolves st' = resolves st" "lazySource s st' = lazySource s st"
proof -
  show d: "designRails st' = designRails st" using assms by (auto simp: sameStatics_def designRails_def)
  have m: "ls_localToCombined st' = ls_localToCombined st" using assms by (simp add: sameStatics_def)
  show "resolves st' = resolves st" unfolding resolves_def d m ..
  have c: "ls_sources st' = ls_sources st" using assms by (simp add: sameStatics_def)
  show "lazySource s st' = lazySource s st" unfolding checkedSource_def m c ..
qed

lemma memosOk_update:
  assumes ok: "memosOk st" and same: "sameStatics st st'"
    and len: "length (ls_remapMemo st') = length (ls_localToCombined st)"
      "length (ls_dualRailMemo st') = length (ls_localToCombined st)"
    and memo: "\<And>d. d < length (ls_localToCombined st) \<Longrightarrow>
      memoInv (remapsTo (ls_localToCombined st ! d)) (ls_remapMemo st' ! d) \<and>
      memoInv (liftedBy (designRails st d)) (ls_dualRailMemo st' ! d)"
    and remapped: "ls_remapped st' = emplace s eo (ls_remapped st)"
    and new: "lazySource s st = Inr src" "resolves st src eo"
  shows "memosOk st'"
  unfolding memosOk_def sameStaticsD [OF same] remapped
  using ok same len memo new
  by (auto simp: memosOk_def sameStatics_def emplace_apply split: if_splits)

lemma checkedSource_bound: "checkedSource what s st = Inr src \<Longrightarrow> src_designIndex src < length (ls_localToCombined st)"
  by (auto simp: checkedSource_def split: option.splits if_splits)

lemma resolveLazy_binary:
  assumes ok: "memosOk st" and src: "lazySource s st = Inr src" and rail: "src_rail src = Binary"
    and r: "resolveLazy s src st = Inr (eo, st')"
  shows "resolves st src eo \<and> memosOk st' \<and> sameStatics st st'"
proof -
  let ?d = "src_designIndex src"
  let ?m = "ls_localToCombined st ! ?d"
  obtain memo where m: "remapBoolExprVariables (src_localExpr src) ?m (ls_remapMemo st ! ?d) = Inr (eo, memo)"
    "st' = rememberRemapped s eo (st\<lparr> ls_remapMemo := (ls_remapMemo st)[?d := memo] \<rparr>)"
    using r rail by (auto simp: resolveLazy_def Let_def bindE_Inr_iff)
  have d: "?d < length (ls_localToCombined st)" by (rule checkedSource_bound [OF src])
  have inv: "memoInv (remapsTo ?m) (ls_remapMemo st ! ?d)" using ok d by (simp add: memosOk_def)
  have res: "resolves st src eo \<and> memoInv (remapsTo ?m) memo"
  proof (cases "src_localExpr src")
    case None
    then show ?thesis using m(1) inv by (auto simp: resolves_def remapBoolExprVariables_def)
  next
    case (Some x)
    then show ?thesis using remap_ok [of x ?m "ls_remapMemo st ! ?d" eo memo] m(1) inv rail
      by (auto simp: resolves_def)
  qed
  have same: "sameStatics st st'" by (simp add: m(2) sameStatics_def rememberRemapped_def)
  have "memosOk st'"
  proof (rule memosOk_update [OF ok same])
    fix d assume "d < length (ls_localToCombined st)"
    then show "memoInv (remapsTo (ls_localToCombined st ! d)) (ls_remapMemo st' ! d) \<and>
        memoInv (liftedBy (designRails st d)) (ls_dualRailMemo st' ! d)"
      using ok res by (cases "d = ?d") (auto simp: memosOk_def m(2) rememberRemapped_def)
  qed (use ok res src in \<open>auto simp: memosOk_def m(2) rememberRemapped_def\<close>)
  then show ?thesis using res same by simp
qed

lemma resolveLazy_rails:
  assumes ok: "memosOk st" and src: "lazySource s st = Inr src" and rail: "src_rail src \<noteq> Binary"
    and r: "resolveLazy s src st = Inr (eo, st')"
  shows "resolves st src eo \<and> memosOk st' \<and> sameStatics st st'"
proof -
  let ?d = "src_designIndex src"
  let ?g = "designRails st ?d"
  obtain lifted memo where m: "buildDualRailBoolExpr (src_localExpr src) (pureMapper ?g) (ls_dualRailMemo st ! ?d) () =
      Inr (lifted, memo, ())"
    "eo = map_option (if src_rail src = DualRailOne then mayBeOne else mayBeZero) lifted"
    "st' = rememberRemapped s eo (st\<lparr> ls_dualRailMemo := (ls_dualRailMemo st)[?d := memo] \<rparr>)"
    using r rail
    by (cases "src_rail src")
       (auto simp: resolveLazy_def materializeLazyDualRailTransition_def Let_def bindE_Inr_iff designRails_def split: if_splits)
  have d: "?d < length (ls_localToCombined st)" by (rule checkedSource_bound [OF src])
  have inv: "memoInv (liftedBy ?g) (ls_dualRailMemo st ! ?d)" using ok d by (simp add: memosOk_def)
  have res: "resolves st src eo \<and> memoInv (liftedBy ?g) memo"
  proof (cases "src_localExpr src")
    case None
    then show ?thesis using m(1,2) inv by (auto simp: resolves_def buildDualRailBoolExpr_def)
  next
    case (Some x)
    then obtain q where "lifted = Some q" "liftedBy ?g x q" "memoInv (liftedBy ?g) memo"
      using mappedRails_ok [of x ?g "ls_dualRailMemo st ! ?d" lifted memo] m(1) inv by auto
    then show ?thesis using Some m(2) rail by (cases "src_rail src") (auto simp: resolves_def)
  qed
  have same: "sameStatics st st'" by (simp add: m(3) sameStatics_def rememberRemapped_def)
  have "memosOk st'"
  proof (rule memosOk_update [OF ok same])
    fix d assume "d < length (ls_localToCombined st)"
    then show "memoInv (remapsTo (ls_localToCombined st ! d)) (ls_remapMemo st' ! d) \<and>
        memoInv (liftedBy (designRails st d)) (ls_dualRailMemo st' ! d)"
      using ok res by (cases "d = ?d") (auto simp: memosOk_def m(3) rememberRemapped_def)
  qed (use ok res src in \<open>auto simp: memosOk_def m(3) rememberRemapped_def\<close>)
  then show ?thesis using res same by simp
qed

text \<open>The resolver's invariant: its caches hold only what their sources give.\<close>

definition resolverInv :: "resolver \<Rightarrow> bool" where
  "resolverInv r = (supportInv r \<and> (\<forall>st. storeOf r = Some st \<longrightarrow> memosOk st))"

lemma transitionAt_ok:
  assumes inv: "resolverInv r" and r: "transitionAt s r = Inr (eo, r')"
  shows "resolverInv r' \<and> sameSources r r' \<and>
    (case tr_eager r s of
       Some e \<Rightarrow> eo = Some e
     | None \<Rightarrow> \<exists>st src. storeOf r = Some st \<and> lazySource s st = Inr src \<and> resolves st src eo)"
proof (cases "tr_eager r s")
  case (Some e)
  then have "eo = Some e" "r' = r" using r by (simp_all add: transitionAt_def)
  then show ?thesis using inv Some by simp
next
  case None
  then obtain st where st: "storeOf r = Some st" using r
    by (cases "storeOf r") (auto simp: transitionAt_def requireStore_def)
  have ok: "memosOk st" using inv st by (simp add: resolverInv_def)
  show ?thesis
  proof (cases "ls_remapped st s")
    case (Some e)
    then show ?thesis using r None st ok inv by (auto simp: transitionAt_def requireStore_def memosOk_def)
  next
    case fresh: None
    then obtain src st' where src: "lazySource s st = Inr src" "resolveLazy s src st = Inr (eo, st')" "r' = putStore st' r"
      using r None st by (auto simp: transitionAt_def requireStore_def bindE_Inr_iff)
    have res: "resolves st src eo \<and> memosOk st' \<and> sameStatics st st'"
      using resolveLazy_binary [OF ok src(1) _ src(2)] resolveLazy_rails [OF ok src(1) _ src(2)] by blast
    then have same: "sameSources r r'" using st src(3) by (simp add: sameSources_def sourcesOf_def sameStatics_def)
    have "supportInv r'"
      using inv res st src(3) unfolding resolverInv_def supportInv_def directSupport_cong [OF same]
      by (simp add: sameStatics_def)
    then show ?thesis using res same None st src by (auto simp: resolverInv_def)
  qed
qed

text \<open>The reported support covers the resolved expression.\<close>

lemma railSupport_railsOf:
  assumes "g = lazyRails d m rails" "v \<in> support x" "g v = Inr y"
  shows "\<exists>ws. railReads d m rails v = Inr ws \<and> railSupport (railsOf g v) \<subseteq> set ws - {0, 1}"
proof -
  have "\<not> v < 2" using assms(2) by (auto simp: support_def)
  then show ?thesis using assms(1,3)
    by (auto simp: railReads_def lazyRails_def railsOf_def bindE_Inr_iff split: option.splits if_splits)
qed

lemma resolves_support:
  assumes src: "lazySource s st = Inr src" and res: "resolves st src (Some v)"
    and st: "storeOf r = Some st" and lazy: "tr_eager r s = None" and S: "directSupport s r = Inr S"
  shows "support v \<subseteq> S"
proof -
  let ?d = "src_designIndex src"
  obtain x where x: "src_localExpr src = Some x" using res by (auto simp: resolves_def split: option.splits)
  have sup: "sourceSupport src st = Inr S" using S lazy st src by (simp add: directSupport_def requireStore_def)
  show ?thesis
  proof (cases "src_rail src = Binary")
    case True
    let ?m = "ls_localToCombined st ! ?d"
    have S': "support x \<subseteq> dom ?m" "S = (\<lambda>v. if v < 2 then v else the (?m v)) ` vars x"
      using sup True x remappedSupport_Inr [of x ?d ?m S] by (simp_all add: sourceSupport_def Let_def)
    have "support v \<subseteq> (\<Union>y \<in> support x. {the (?m y)})"
      using res True x by (auto simp: resolves_def remapsTo_def translates_def)
    moreover have "the (?m y) \<in> S" if "y \<in> support x" for y
    proof -
      have "y \<in> vars x" "\<not> y < 2" using that by (auto simp: support_def)
      then show ?thesis unfolding S'(2) by (intro image_eqI [of _ _ y]) simp_all
    qed
    ultimately show ?thesis by blast
  next
    case False
    let ?m = "ls_localToCombined st ! ?d" and ?r = "ls_stateRails st ! ?d"
    have S': "S = readBy (railReads ?d ?m ?r) x - {0, 1}"
      using sup False x dualRailSupport_char [of ?d ?m ?r x] by (simp add: sourceSupport_def Let_def)
    obtain q where q: "liftedBy (designRails st ?d) x q" "v = mayBeOne q \<or> v = mayBeZero q"
      using res False x by (cases "src_rail src") (auto simp: resolves_def)
    have "support v \<subseteq> railSupport q" using q(2) by (auto simp: railSupport_def)
    moreover have "railSupport (railsOf (designRails st ?d) y) \<subseteq> S" if y: "y \<in> support x" for y
    proof -
      obtain z where "designRails st ?d y = Inr z" using q(1) y by (auto simp: liftedBy_def)
      from railSupport_railsOf [OF designRails_def y this] obtain ws where
        ws: "railReads ?d ?m ?r y = Inr ws" "railSupport (railsOf (designRails st ?d) y) \<subseteq> set ws - {0, 1}" by blast
      have "y \<in> vars x" using y by (simp add: support_def)
      then have "set ws \<subseteq> readBy (railReads ?d ?m ?r) x" using ws(1) by (auto simp: readBy_def)
      then show ?thesis using ws(2) S' by blast
    qed
    ultimately show ?thesis using q(1) unfolding liftedBy_def by blast
  qed
qed

lemma transitionAt_support:
  assumes "resolverInv r" "transitionAt s r = Inr (Some v, r')" "transitionSupport s r = Inr (S, r'')"
  shows "support v \<subseteq> S"
proof -
  have S: "directSupport s r = Inr S"
    using transitionSupport_direct [of r s] assms(1,3) by (simp add: resolverInv_def)
  note ok = transitionAt_ok [OF assms(1,2)]
  show ?thesis
  proof (cases "tr_eager r s")
    case (Some e)
    then show ?thesis using ok S by (auto simp: directSupport_def support_def)
  next
    case None
    then show ?thesis using ok resolves_support [OF _ _ _ None S] by auto
  qed
qed

text \<open>Resolving succeeds exactly when the support is available.\<close>

lemma transitionAt_total:
  assumes inv: "resolverInv r" and S: "directSupport s r = Inr S"
  shows "\<exists>eo r'. transitionAt s r = Inr (eo, r')"
proof (cases "tr_eager r s")
  case None
  then obtain st src where st: "storeOf r = Some st" "lazySource s st = Inr src" "sourceSupport src st = Inr S"
    using S by (auto simp: directSupport_def bindE_Inr_iff requireStore_def split: option.splits)
  have ok: "memosOk st" using inv st(1) by (simp add: resolverInv_def)
  let ?d = "src_designIndex src"
  have d: "?d < length (ls_localToCombined st)" by (rule checkedSource_bound [OF st(2)])
  have "\<exists>q. resolveLazy s src st = Inr q"
  proof (cases "src_rail src = Binary")
    case True
    let ?m = "ls_localToCombined st ! ?d"
    have sup: "remappedSupport (src_localExpr src) ?d ?m = Inr S" using st(3) True by (simp add: sourceSupport_def Let_def)
    have "\<exists>q. remapBoolExprVariables (src_localExpr src) ?m (ls_remapMemo st ! ?d) = Inr q"
    proof (cases "src_localExpr src")
      case (Some x)
      then have "support x \<subseteq> dom ?m" using sup remappedSupport_Inr by simp
      then show ?thesis using Some remap_total [of x ?m "ls_remapMemo st ! ?d"] ok d by (auto simp: memosOk_def)
    qed (simp add: remapBoolExprVariables_def)
    then show ?thesis using True sup by (auto simp: resolveLazy_def Let_def)
  next
    case False
    let ?m = "ls_localToCombined st ! ?d" and ?r = "ls_stateRails st ! ?d"
    have "\<exists>lifted memo. buildDualRailBoolExpr (src_localExpr src) (pureMapper (designRails st ?d)) (ls_dualRailMemo st ! ?d) () =
        Inr (lifted, memo, ())"
    proof (cases "src_localExpr src")
      case (Some x)
      have "readableBy (railReads ?d ?m ?r) x"
        using st(3) False Some dualRailSupport_char [of ?d ?m ?r x] by (simp add: sourceSupport_def Let_def)
      have "\<exists>y. designRails st ?d v = Inr y" if "v \<in> support x" for v
      proof -
        have v: "v \<in> vars x" "\<not> v < 2" using that by (auto simp: support_def)
        then obtain ws where "railReads ?d ?m ?r v = Inr ws"
          using \<open>readableBy (railReads ?d ?m ?r) x\<close> by (auto simp: readableBy_def)
        then show ?thesis using v(2)
          by (auto simp: designRails_def lazyRails_def railReads_def bindE_Inr_iff split: option.splits)
      qed
      then show ?thesis using Some mappedRails_total [of x "designRails st ?d" "ls_dualRailMemo st ! ?d"] ok d
        by (auto simp: memosOk_def)
    qed (simp add: buildDualRailBoolExpr_def)
    then show ?thesis using False d
      by (cases "src_rail src")
         (auto simp: resolveLazy_def materializeLazyDualRailTransition_def Let_def designRails_def)
  qed
  then show ?thesis using None st by (cases "ls_remapped st s") (auto simp: transitionAt_def requireStore_def)
qed (simp add: transitionAt_def)

lemma newResolver_inv:
  assumes "pb_lazyTransitions p = None"
  shows "resolverInv (newResolver p)"
  using assms by (simp add: resolverInv_def supportInv_def newResolver_def storeOf_def)

end
