(* ===== verification/Invariant_Check.thy ===== *)
theory Invariant_Check
  imports Proof_Formulas Frame_Store Sat_Query
begin

text \<open>
  The inductiveness query of \<open>sec/proof/ProofEngineShared.cpp\<close>: \<open>isInductiveInvariant\<close> builds a
  two-frame SAT instance over the symbols the candidate invariant reads, with the transition
  equations of its own state symbols only, and asks for a step that leaves the invariant.  The
  support sets of formulas are kept in a cache the caller passes from query to query.
\<close>

section \<open>Symbols of the query\<close>

type_synonym support_cache = "bexpr option \<rightharpoonup> var_id list"

definition sortUniqueSymbols :: "var_id list \<Rightarrow> var_id list" where
  "sortUniqueSymbols symbols = remdups_adj (sort symbols)"

definition buildFormulaSupportVector :: "bexpr option \<Rightarrow> var_id list" where
  "buildFormulaSupportVector formula =
    (case formula of None \<Rightarrow> [] | Some f \<Rightarrow> sorted_list_of_set (getSupportVars f))"

definition cachedFormulaSupport :: "bexpr option \<Rightarrow> support_cache \<Rightarrow> var_id list \<times> support_cache" where
  "cachedFormulaSupport formula cache =
    (case cache formula of
       Some xs \<Rightarrow> (xs, cache)
     | None \<Rightarrow> let xs = buildFormulaSupportVector formula in (xs, cache(formula \<mapsto> xs)))"

definition addSupportSymbols :: "var_id list \<Rightarrow> var_id set \<Rightarrow> var_id set" where
  "addSupportSymbols xs symbols = fold (\<lambda>symbol S. if 2 \<le> symbol then insert symbol S else S) xs symbols"

definition buildCombinedStateSymbolSet :: "problem \<Rightarrow> var_id set" where
  "buildCombinedStateSymbolSet p =
    set (pb_state0Symbols p) \<union> set (pb_state1Symbols p) \<union> set (pb_auxiliaryStateSymbols p)"

definition collectStateSupportSymbols :: "problem \<Rightarrow> var_id list \<Rightarrow> var_id list" where
  "collectStateSupportSymbols p formulaSupport =
    remdups_adj (sort (filter (\<lambda>symbol. symbol \<in> buildCombinedStateSymbolSet p) formulaSupport))"

definition buildTransitionExprByStateSymbol :: "problem \<Rightarrow> var_id \<rightharpoonup> bexpr" where
  "buildTransitionExprByStateSymbol p =
    fold (\<lambda>(s, e). emplace s e) (pb_auxiliaryTransitions p)
      (fold (\<lambda>(s, e). emplace s e) (pb_transitions1 p)
        (fold (\<lambda>(s, e). emplace s e) (pb_transitions0 p) Map.empty))"

definition buildComplementPrimaryByStateSymbol :: "problem \<Rightarrow> var_id \<rightharpoonup> var_id" where
  "buildComplementPrimaryByStateSymbol p =
    fold (\<lambda>(primary, complemented). emplace complemented primary) (pb_complementedStatePairs1 p)
      (fold (\<lambda>(primary, complemented). emplace complemented primary) (pb_complementedStatePairs0 p) Map.empty)"

definition addRelevantComplementedStatePartners :: "(var_id \<times> var_id) list \<Rightarrow> var_id set \<Rightarrow> var_id set" where
  "addRelevantComplementedStatePartners pairs symbols =
    fold (\<lambda>(primary, complemented) S.
      if primary \<in> S \<or> complemented \<in> S then insert complemented (insert primary S) else S) pairs symbols"

definition addRelevantDualRailPartners :: "rail_pair list \<Rightarrow> var_id set \<Rightarrow> var_id set" where
  "addRelevantDualRailPartners pairs symbols =
    fold (\<lambda>rp S. if railOne rp \<in> S \<or> railZero rp \<in> S then insert (railZero rp) (insert (railOne rp) S) else S)
      pairs symbols"

definition expandTarget :: "(var_id \<rightharpoonup> var_id) \<Rightarrow> (var_id \<rightharpoonup> bexpr) \<Rightarrow> var_id \<Rightarrow> var_id list" where
  "expandTarget primaryByComplement transitions symbol =
    (if transitions symbol \<noteq> None then [symbol]
     else case primaryByComplement symbol of
       None \<Rightarrow> []
     | Some primary \<Rightarrow> if transitions primary \<noteq> None then [primary] else [])"

definition expandTransitionTargets :: "problem \<Rightarrow> var_id list \<Rightarrow> (var_id \<rightharpoonup> bexpr) \<Rightarrow> var_id list" where
  "expandTransitionTargets p requested transitions =
    sortUniqueSymbols
      (concat (map (expandTarget (buildComplementPrimaryByStateSymbol p) transitions) requested))"

definition addTargetSupport :: "(var_id \<rightharpoonup> bexpr) \<Rightarrow> var_id \<Rightarrow> var_id set \<times> support_cache \<Rightarrow>
    error + var_id set \<times> support_cache" where
  "addTargetSupport transitions symbol acc =
    (case acc of (symbols, cache) \<Rightarrow>
       bindE (atE transitions symbol) (\<lambda>e.
         case cachedFormulaSupport (Some e) cache of
           (xs, cache') \<Rightarrow> Inr (addSupportSymbols xs (insert symbol symbols), cache')))"

definition addResetInputs :: "problem \<Rightarrow> var_id set \<Rightarrow> var_id set" where
  "addResetInputs p symbols =
    (if pb_resetBootstrapCycles p \<noteq> 0
     then fold (\<lambda>(symbol, _). insert symbol) (pb_resetBootstrapInputs p) symbols else symbols)"

definition inductiveInvariantQuerySymbols :: "problem \<Rightarrow> bexpr option \<Rightarrow> (var_id \<rightharpoonup> bexpr) \<Rightarrow> support_cache \<Rightarrow>
    error + var_id list \<times> support_cache" where
  "inductiveInvariantQuerySymbols p invariant transitions cache =
    (case cachedFormulaSupport invariant cache of
       (invariantSupport, cache1) \<Rightarrow>
         bindE (foldE (addTargetSupport transitions)
             (expandTransitionTargets p (collectStateSupportSymbols p invariantSupport) transitions)
             (addSupportSymbols invariantSupport {}, cache1))
           (\<lambda>(symbols, cache2). Inr (sorted_list_of_set
             (addRelevantDualRailPartners (pb_dualRailStatePairs p)
               (addRelevantComplementedStatePartners (pb_complementedStatePairs1 p)
                 (addRelevantComplementedStatePartners (pb_complementedStatePairs0 p)
                   (addResetInputs p symbols)))), cache2)))"

section \<open>Constraints of the query\<close>

definition complementStep :: "frame_store \<Rightarrow> nat \<Rightarrow> var_id \<times> var_id \<Rightarrow> solver \<Rightarrow> error + solver" where
  "complementStep fs frame pc s =
    (if \<not> hasSymbol fs (fst pc) \<or> \<not> hasSymbol fs (snd pc) then Inr s
     else bindE (getLiteral fs (snd pc) frame) (\<lambda>c. bindE (getLiteral fs (fst pc) frame) (\<lambda>q.
       addLiteralEquivalence c (- q) s)))"

definition addComplementedStateRelations :: "frame_store \<Rightarrow> (var_id \<times> var_id) list \<Rightarrow> nat \<Rightarrow> solver \<Rightarrow>
    error + solver" where
  "addComplementedStateRelations fs pairs numFrames =
    foldE (\<lambda>frame. foldE (complementStep fs frame) pairs) [0..<numFrames]"

definition railStep :: "frame_store \<Rightarrow> nat \<Rightarrow> rail_pair \<Rightarrow> solver \<Rightarrow> error + solver" where
  "railStep fs frame rp s =
    (if \<not> hasSymbol fs (railOne rp) \<or> \<not> hasSymbol fs (railZero rp) then Inr s
     else bindE (getLiteral fs (railOne rp) frame) (\<lambda>one. bindE (getLiteral fs (railZero rp) frame) (\<lambda>zero.
       addClause [one, zero] s)))"

definition addDualRailStateValidity :: "frame_store \<Rightarrow> rail_pair list \<Rightarrow> nat \<Rightarrow> solver \<Rightarrow> error + solver" where
  "addDualRailStateValidity fs pairs numFrames =
    foldE (\<lambda>frame. foldE (railStep fs frame) pairs) [0..<numFrames]"

definition resetStep :: "frame_store \<Rightarrow> nat \<Rightarrow> var_id \<times> bool \<Rightarrow> solver \<Rightarrow> error + solver" where
  "resetStep fs frame input s =
    (if \<not> hasSymbol fs (fst input) then Inr s
     else bindE (getLiteral fs (fst input) frame) (\<lambda>l. addClause [if snd input then - l else l] s))"

definition addPostBootstrapResetInputConstraints :: "frame_store \<Rightarrow> problem \<Rightarrow> nat \<Rightarrow> solver \<Rightarrow> error + solver" where
  "addPostBootstrapResetInputConstraints fs p frame s =
    (if pb_resetBootstrapCycles p = 0 then Inr s
     else foldE (resetStep fs frame) (pb_resetBootstrapInputs p) s)"

definition transitionStep :: "frame_store \<Rightarrow> (var_id \<rightharpoonup> bexpr) \<Rightarrow> nat \<Rightarrow> var_id \<Rightarrow> encoder \<Rightarrow> error + encoder" where
  "transitionStep fs transitions frame symbol en =
    bindE (getLiteral fs symbol (frame + 1)) (\<lambda>lit.
    bindE (atE transitions symbol) (\<lambda>e.
    bindE (encode (Some e) en) (\<lambda>(l, en').
    bindE (addLiteralEquivalence lit l (en_solver en')) (\<lambda>s. Inr (en'\<lparr> en_solver := s \<rparr>)))))"

definition addTransitionRelationForTargets :: "frame_store \<Rightarrow> problem \<Rightarrow> (var_id \<rightharpoonup> bexpr) \<Rightarrow> nat \<Rightarrow>
    var_id list \<Rightarrow> solver \<Rightarrow> error + solver" where
  "addTransitionRelationForTargets fs p transitions frame requested s =
    bindE (makeAllLeafLits fs frame) (\<lambda>leaves.
    bindE (foldE (transitionStep fs transitions frame) (expandTransitionTargets p requested transitions)
        (newEncoder s leaves None False 0))
      (\<lambda>en. Inr (en_solver en)))"

definition encodeAndAssert :: "bexpr \<Rightarrow> encoder \<Rightarrow> error + solver" where
  "encodeAndAssert e en = bindE (encode (Some e) en) (\<lambda>(l, en'). addClause [l] (en_solver en'))"

section \<open>The queries\<close>

definition selectValidatedStrengtheningInvariant :: "backend \<Rightarrow> problem \<Rightarrow> bexpr option \<Rightarrow> solver_type \<Rightarrow>
    error + bexpr option" where
  "selectValidatedStrengtheningInvariant B p initFormula solverType =
    (if pb_inductionProperty p = None \<or> initFormula = None \<or> pb_inductionProperty p = pb_property p
     then Inr None
     else bindE (initialFrontierImplies B initFormula (pb_inductionProperty p) solverType)
       (\<lambda>b. Inr (if b then pb_inductionProperty p else None)))"

definition invariantExcludesBadStates :: "backend \<Rightarrow> problem \<Rightarrow> bexpr option \<Rightarrow> solver_type \<Rightarrow> bexpr option \<Rightarrow>
    error + bool" where
  "invariantExcludesBadStates B p invariant solverType certified =
    (case (invariant, pb_bad p) of
       (Some candidate, Some bad) \<Rightarrow>
         let query = mkAnd candidate bad;
             query' = (case certified of None \<Rightarrow> query | Some c \<Rightarrow> mkAnd query c)
         in bindE (isProofFormulaSatisfiable B (Some query') solverType) (\<lambda>b. Inr (\<not> b))
     | _ \<Rightarrow> Inr False)"

definition hypothesisOf :: "bexpr \<Rightarrow> bexpr option \<Rightarrow> bexpr" where
  "hypothesisOf invariant certified = (case certified of None \<Rightarrow> invariant | Some c \<Rightarrow> mkAnd invariant c)"

definition sideConstraints :: "frame_store \<Rightarrow> problem \<Rightarrow> solver \<Rightarrow> error + solver" where
  "sideConstraints fs p s =
    bindE (addComplementedStateRelations fs (pb_complementedStatePairs0 p) 2 s) (\<lambda>s1.
    bindE (addComplementedStateRelations fs (pb_complementedStatePairs1 p) 2 s1) (\<lambda>s2.
    bindE (addDualRailStateValidity fs (pb_dualRailStatePairs p) 2 s2) (\<lambda>s3.
    addPostBootstrapResetInputConstraints fs p 0 s3)))"

text \<open>Both encoders are constructed before either formula is encoded, as in the code.\<close>

definition assertStepQuery :: "frame_store \<Rightarrow> bexpr \<Rightarrow> var_id list \<Rightarrow> bexpr \<Rightarrow> var_id list \<Rightarrow> solver \<Rightarrow>
    error + solver" where
  "assertStepQuery fs hypothesis hypothesisSupport invariant invariantSupport s =
    bindE (makeLeafLits fs 0 hypothesisSupport) (\<lambda>currentLeaves.
    let currentEncoder = newEncoder s currentLeaves None False 0 in
    bindE (makeLeafLits fs 1 invariantSupport) (\<lambda>nextLeaves.
    let nextEncoder = newEncoder (en_solver currentEncoder) nextLeaves None False 0 in
    bindE (encodeAndAssert hypothesis (currentEncoder\<lparr> en_solver := en_solver nextEncoder \<rparr>)) (\<lambda>s1.
    encodeAndAssert (mkNot invariant) (nextEncoder\<lparr> en_solver := s1 \<rparr>))))"

definition isInductiveInvariant :: "backend \<Rightarrow> problem \<Rightarrow> bexpr option \<Rightarrow> solver_type \<Rightarrow> support_cache \<Rightarrow>
    bexpr option \<Rightarrow> error + bool \<times> support_cache" where
  "isInductiveInvariant B p invariant solverType cache certified =
    (case invariant of
       None \<Rightarrow> Inr (False, cache)
     | Some candidate \<Rightarrow>
         let transitions = buildTransitionExprByStateSymbol p;
             hypothesis = hypothesisOf candidate certified in
         bindE (inductiveInvariantQuerySymbols p (Some hypothesis) transitions cache) (\<lambda>(querySymbols, cache1).
         case cachedFormulaSupport (Some candidate) cache1 of (invariantSupport, cache2) \<Rightarrow>
         case newFrameStore querySymbols 2 (newSolver solverType) of (fs, s0) \<Rightarrow>
         bindE (sideConstraints fs p s0) (\<lambda>s1.
         bindE (addTransitionRelationForTargets fs p transitions 0
             (collectStateSupportSymbols p invariantSupport) s1) (\<lambda>s2.
         case cachedFormulaSupport (Some hypothesis) cache2 of (hypothesisSupport, cache3) \<Rightarrow>
         bindE (assertStepQuery fs hypothesis hypothesisSupport candidate invariantSupport s2) (\<lambda>s3.
         Inr (\<not> solve B s3, cache3))))))"

end
