(* ===== verification/Frame_Query.thy ===== *)
theory Frame_Query
  imports Frame_Store Sat_Query
begin

text \<open>
  Lemmas on SAT instances over a frame store: which instance a chain of constraint calls leaves
  (\<open>restricts\<close>), what an encoder over one frame adds to it, and that the valuations of the frames
  of a fresh store are free.
\<close>

section \<open>Chains of constraints\<close>

lemma restricts_weaken_models:
  assumes "restricts s s' P" "\<And>M. models M s \<Longrightarrow> P M = Q M"
  shows "restricts s s' Q"
  using assms unfolding restricts_def by metis

lemma restrictsD:
  assumes "restricts s s' P"
  shows "solverInv s'" "sv_vars s \<le> sv_vars s'" "sameBackend s s'" "models M s' \<Longrightarrow> models M s"
    "models M s' \<Longrightarrow> P M"
  using assms by (auto simp: restricts_def)

lemma readsBelow_mono: "readsBelow n P \<Longrightarrow> n \<le> m \<Longrightarrow> readsBelow m P"
  by (auto simp: readsBelow_def dest: agreeBelow_mono)

lemma readsBelow_eval:
  assumes "\<And>x. x \<in> support e \<Longrightarrow> readsBelow n (\<lambda>M. env M x)"
  shows "readsBelow n (\<lambda>M. eval (env M) e)"
  unfolding readsBelow_def using assms by (auto intro!: eval_cong dest: readsBelowD)

lemma readsBelow_all: "(\<And>x. x \<in> S \<Longrightarrow> readsBelow n (P x)) \<Longrightarrow> readsBelow n (\<lambda>M. \<forall>x \<in> S. P x M)"
  unfolding readsBelow_def by metis

lemma frameValue_agree:
  assumes "storeInv fs n" "agreeBelow n M M'"
  shows "frameValue fs M = frameValue fs M'"
  using readsBelow_frameValue [OF assms(1)] assms(2) by (intro ext) (auto dest: readsBelowD)

lemma readsBelow_frames: "storeInv fs n \<Longrightarrow> readsBelow n (\<lambda>M. P (frameValue fs M))"
  unfolding readsBelow_def using frameValue_agree by metis

text \<open>Two stages of the chain, the second total on every extension of the first.\<close>

lemma restricts_bind:
  assumes "\<exists>u. f s = Inr u \<and> restricts s u P"
    and "\<And>u. solverInv u \<Longrightarrow> sv_vars s \<le> sv_vars u \<Longrightarrow> \<exists>u'. g u = Inr u' \<and> restricts u u' Q"
    and "readsBelow (sv_vars s) Q"
  shows "\<exists>u. bindE (f s) g = Inr u \<and> restricts s u (\<lambda>M. P M \<and> Q M)"
proof -
  obtain u where u: "f s = Inr u" "restricts s u P" using assms(1) by blast
  obtain u' where u': "g u = Inr u'" "restricts u u' Q" using assms(2) restrictsD(1,2) [OF u(2)] by blast
  show ?thesis using u(1) u'(1) restricts_trans [OF u(2) u'(2) assms(3)] by auto
qed

lemma restricts_literal:
  assumes "conservative s u" "solverInv u" "litBelow (sv_vars u) l"
    "\<And>M. models M u \<Longrightarrow> litTrue M l = g M" "readsBelow (sv_vars s) g"
  shows "\<exists>u'. addClause [l] u = Inr u' \<and> restricts s u' g"
proof -
  obtain u' where u': "addClause [l] u = Inr u'" "restricts u u' (\<lambda>M. clauseTrue M [l])"
    using restricts_clause [OF assms(2), of "[l]"] assms(3) by auto
  have "restricts u u' g" by (rule restricts_weaken_models [OF u'(2)]) (simp add: assms(4))
  from restricts_trans [OF restricts_conservative [OF assms(1,2)] this assms(5)] show ?thesis
    using u'(1) by auto
qed

lemma addLiteralEquivalence_restricts:
  assumes "solverInv s" "litBelow (sv_vars s) l" "litBelow (sv_vars s) r"
  shows "\<exists>s'. addLiteralEquivalence l r s = Inr s' \<and> restricts s s' (\<lambda>M. litTrue M l = litTrue M r) \<and>
    sv_vars s' = sv_vars s"
  using addLiteralEquivalence_ok [OF assms(2,3)] assms(1) by (auto simp: restricts_def agreeBelow_def)

section \<open>Frames\<close>

lemma newFrameStore_backend:
  assumes "newFrameStore symbols k s = (fs, s')"
  shows "sameBackend s s'"
proof -
  have push: "sameBackend (snd x) (snd (pushLit y x))" for x y
    using newSolverLiteral_fields(8) by (auto simp: pushLit_def split: prod.splits)
  have inner: "sameBackend (snd x) (snd (fold pushLit ys x))" for x ys
  proof (induction ys arbitrary: x)
    case (Cons y ys)
    show ?case using sameBackend_trans [OF push Cons] by simp
  qed simp
  have "sameBackend (snd x) (snd (fold (\<lambda>_. fold pushLit symbols) fs x))" for x and fs :: "nat list"
  proof (induction fs arbitrary: x)
    case (Cons f fs)
    show ?case using sameBackend_trans [OF inner Cons] by simp
  qed simp
  then have "sameBackend (reserveVars (length symbols * k) s) s'"
    using assms unfolding newFrameStore_def pushFrames_def Let_def by (auto split: prod.splits) (metis snd_conv)
  then show ?thesis by (simp add: sameBackend_def)
qed

text \<open>Any valuation of the frames is one of the solver's.\<close>

lemma frames_free:
  assumes "storeInv fs n"
  shows "\<exists>M. \<forall>x f. hasSymbol fs x \<longrightarrow> f < fs_numFrames fs \<longrightarrow> frameValue fs M f x = envs f x"
proof -
  let ?M = "\<lambda>i. \<exists>x f l. getLiteral fs x f = Inr l \<and> litVar l = i \<and> envs f x"
  have own: "litBelow n l \<and> 0 < l" if "getLiteral fs x f = Inr l" for x f l
    using assms that unfolding storeInv_def ownLits_def by auto
  have "frameValue fs ?M f x = envs f x" if x: "hasSymbol fs x" "f < fs_numFrames fs" for x f
  proof -
    obtain l where l: "getLiteral fs x f = Inr l" using storeInv_literal [OF assms x] by blast
    have "y = x \<and> g = f" if k: "getLiteral fs y g = Inr k" "litVar k = litVar l" for y g k
    proof -
      have "k = l" using litVar_inj own [OF k(1)] own [OF l] k(2) by blast
      then show ?thesis using storeInv_own [OF assms k(1)] l by simp
    qed
    then have "?M (litVar l) = envs f x" using l by blast
    then show ?thesis using own [OF l] by (simp add: frameValue_lit [OF l] litTrue_def)
  qed
  then show ?thesis by blast
qed

section \<open>An encoder over one frame\<close>

definition frameEncoder :: "frame_store \<Rightarrow> nat \<Rightarrow> var_id set \<Rightarrow> encoder \<Rightarrow> bool" where
  "frameEncoder fs f S en = (encInv en \<and> en_symbolMap en = None \<and>
     (\<forall>x \<in> S. \<exists>l. en_leafLits en x = Some l \<and> getLiteral fs x f = Inr l))"

lemma frameEncoder_new:
  assumes "solverInv s" "storeInv fs (sv_vars s)" "\<And>x l. leaves x = Some l \<Longrightarrow> getLiteral fs x f = Inr l"
    "S \<subseteq> dom leaves"
  shows "frameEncoder fs f S (newEncoder s leaves None createMissing hint)"
proof -
  have "encInv (newEncoder s leaves None createMissing hint)"
    by (rule newEncoder_inv [OF assms(1)]) (use storeInv_below [OF assms(2) assms(3)] in blast)
  then show ?thesis using assms(3,4) by (fastforce simp: frameEncoder_def newEncoder_def)
qed

lemma encInv_solver:
  assumes "encInv en" "solverInv s" "sv_vars (en_solver en) \<le> sv_vars s"
    "\<And>M. models M s \<Longrightarrow> models M (en_solver en)"
  shows "encInv (en\<lparr> en_solver := s \<rparr>)"
proof -
  let ?en = "en\<lparr> en_solver := s \<rparr>"
  have below: "enBelow ?en l" if "enBelow en l" for l
    using that litBelow_mono assms(3) by (auto simp: enBelow_def)
  have mods: "enModels M en" if "enModels M ?en" for M using that assms(4) by (simp add: enModels_def)
  have same: "leafKnown ?en v = leafKnown en v" "leafValue ?en M v = leafValue en M v" for M v
    by (simp_all add: leafKnown_def leafValue_def mappedSymbol_def cong: sum.case_cong)
  have "encodes ?en n l" if "encodes en n l" for n l
    using that below mods unfolding encodes_def same(1) by (metis eval_cong same(2))
  then show ?thesis using assms(1,2) below mods unfolding encInv_def trueLitOk_def by auto
qed

lemma frameEncoder_solver:
  assumes "frameEncoder fs f S en" "restricts (en_solver en) s P"
  shows "frameEncoder fs f S (en\<lparr> en_solver := s \<rparr>)"
proof -
  have "encInv (en\<lparr> en_solver := s \<rparr>)"
    by (rule encInv_solver) (use assms restrictsD [OF assms(2)] in \<open>auto simp: frameEncoder_def\<close>)
  then show ?thesis using assms(1) by (simp add: frameEncoder_def)
qed

lemma frame_encode:
  assumes "frameEncoder fs f S en" "support e \<subseteq> S"
  shows "\<exists>l en'. encode (Some e) en = Inr (l, en') \<and> frameEncoder fs f S en' \<and>
    conservative (en_solver en) (en_solver en') \<and> litBelow (sv_vars (en_solver en')) l \<and>
    (\<forall>M. models M (en_solver en') \<longrightarrow> litTrue M l = eval (frameValue fs M f) e)"
proof -
  have inv: "encInv en" and nomap: "en_symbolMap en = None" using assms(1) by (simp_all add: frameEncoder_def)
  have "leafReady en v" if "v \<in> support e" for v
    using assms that nomap by (fastforce simp: frameEncoder_def leafReady_def leafKnown_def mappedSymbol_def mapSymbol_def)
  then obtain l en' where e: "encode (Some e) en = Inr (l, en')" using encode_total [OF inv] by blast
  have ok: "encInv en'" "encGrows en en'" "encodes en' e l" using encode_ok [OF e inv] by simp_all
  have nomap': "en_symbolMap en' = None" using ok(2) nomap by (simp add: encGrows_def)
  have leaf: "\<exists>k. en_leafLits en' x = Some k \<and> getLiteral fs x f = Inr k" if "x \<in> S" for x
    using assms(1) ok(2) that unfolding frameEncoder_def encGrows_def map_le_def by (metis domI)
  have "leafValue en' M v = frameValue fs M f v" if v: "v \<in> support e" for M v
  proof -
    obtain k where "en_leafLits en' v = Some k" "getLiteral fs v f = Inr k" using leaf [of v] v assms(2) by blast
    then show ?thesis using nomap' by (simp add: leafValue_def mappedSymbol_def mapSymbol_def frameValue_lit)
  qed
  then have "eval (leafValue en' M) e = eval (frameValue fs M f) e" for M by (intro eval_cong)
  then show ?thesis
    using e ok leaf nomap' by (auto simp: frameEncoder_def encodes_def enModels_def enBelow_def encGrows_def)
qed

section \<open>Folds over encoders\<close>

lemma foldE_restricts_via:
  assumes "I s" "\<And>u. I u \<Longrightarrow> solverInv (proj u)"
    and "\<And>x u. x \<in> set xs \<Longrightarrow> I u \<Longrightarrow> sv_vars (proj s) \<le> sv_vars (proj u) \<Longrightarrow>
      \<exists>u'. f x u = Inr u' \<and> I u' \<and> restricts (proj u) (proj u') (P x)"
    and "\<And>x. x \<in> set xs \<Longrightarrow> readsBelow (sv_vars (proj s)) (P x)"
  shows "\<exists>s'. foldE f xs s = Inr s' \<and> I s' \<and> restricts (proj s) (proj s') (\<lambda>M. \<forall>x \<in> set xs. P x M)"
  using assms(1,3,4)
proof (induction xs arbitrary: s)
  case Nil
  then show ?case using assms(2) by (simp add: restricts_refl)
next
  case (Cons x xs)
  obtain u where u: "f x s = Inr u" "I u" "restricts (proj s) (proj u) (P x)" using Cons.prems(1,2) by auto
  note le = restrictsD(2) [OF u(3)]
  have "\<exists>s'. foldE f xs u = Inr s' \<and> I s' \<and> restricts (proj u) (proj s') (\<lambda>M. \<forall>y \<in> set xs. P y M)"
  proof (rule Cons.IH [OF u(2)])
    fix y v
    assume "y \<in> set xs" "I v" "sv_vars (proj u) \<le> sv_vars (proj v)"
    then show "\<exists>v'. f y v = Inr v' \<and> I v' \<and> restricts (proj v) (proj v') (P y)"
      using Cons.prems(2) [of y v] le by simp
  next
    fix y
    assume "y \<in> set xs"
    then show "readsBelow (sv_vars (proj u)) (P y)" using readsBelow_mono [OF Cons.prems(3) le] by simp
  qed
  then obtain s' where s': "foldE f xs u = Inr s'" "I s'" "restricts (proj u) (proj s') (\<lambda>M. \<forall>y \<in> set xs. P y M)"
    by blast
  have "readsBelow (sv_vars (proj s)) (\<lambda>M. \<forall>y \<in> set xs. P y M)"
    by (rule readsBelow_all) (use Cons.prems(3) in simp)
  then have "restricts (proj s) (proj s') (\<lambda>M. P x M \<and> (\<forall>y \<in> set xs. P y M))"
    by (rule restricts_trans [OF u(3) s'(3)])
  then show ?case using u(1) s' by (auto intro: restricts_weaken)
qed

lemma makeAllLeafLits_fold:
  assumes "\<forall>(x, ls) \<in> set lits. f < length ls" "distinct (map fst lits)" "dom m \<inter> fst ` set lits = {}"
  shows "\<exists>m'. foldE (\<lambda>(symbol, ls) leafLits.
        if length ls \<le> f then Inl (Runtime_Error ''Frame index is out of range'')
        else Inr (emplace symbol (ls ! f) leafLits)) lits m = Inr m' \<and>
    (\<forall>x. m' x = (case map_of lits x of None \<Rightarrow> m x | Some ls \<Rightarrow> Some (ls ! f)))"
  using assms
proof (induction lits arbitrary: m)
  case (Cons a lits)
  obtain x ls where a: "a = (x, ls)" by fastforce
  have f: "\<not> length ls \<le> f" using Cons.prems(1) a by simp
  have "m x = None" using Cons.prems(3) a by auto
  then have e: "emplace x (ls ! f) m = m(x \<mapsto> ls ! f)" by (simp add: emplace_def)
  have disj: "dom (m(x \<mapsto> ls ! f)) \<inter> fst ` set lits = {}" using Cons.prems(2,3) a by auto
  let ?step = "\<lambda>(symbol, ls) leafLits. if length ls \<le> f then Inl (Runtime_Error ''Frame index is out of range'')
        else Inr (emplace symbol (ls ! f) leafLits)"
  have sub: "\<forall>(x, ls) \<in> set lits. f < length ls" using Cons.prems(1) by simp
  have dist: "distinct (map fst lits)" using Cons.prems(2) by simp
  obtain m' where m': "foldE ?step lits (m(x \<mapsto> ls ! f)) = Inr m'"
    "\<forall>y. m' y = (case map_of lits y of None \<Rightarrow> (m(x \<mapsto> ls ! f)) y | Some ks \<Rightarrow> Some (ks ! f))"
    using Cons.IH [OF sub dist disj] by blast
  have new: "map_of lits x = None" using Cons.prems(2) a by (simp add: map_of_eq_None_iff)
  have "foldE ?step (a # lits) m = Inr m'" using m'(1) f by (simp add: a e)
  moreover have "m' y = (case map_of (a # lits) y of None \<Rightarrow> m y | Some ks \<Rightarrow> Some (ks ! f))" for y
    using m'(2) new by (cases "y = x"; cases "map_of lits y") (simp_all add: a)
  ultimately show ?case by blast
qed simp

lemma makeAllLeafLits_ok:
  assumes "storeInv fs n" "f < fs_numFrames fs"
  shows "\<exists>m. makeAllLeafLits fs f = Inr m \<and> dom m = {x. hasSymbol fs x} \<and>
    (\<forall>x l. m x = Some l \<longrightarrow> getLiteral fs x f = Inr l)"
proof -
  have d: "distinct (map fst (fs_lits fs))" and len: "\<And>x ls. map_of (fs_lits fs) x = Some ls \<Longrightarrow> length ls = fs_numFrames fs"
    using assms(1) by (auto simp: storeInv_def)
  have "\<forall>(x, ls) \<in> set (fs_lits fs). f < length ls"
    using len map_of_is_SomeI [OF d] assms(2) by fastforce
  then obtain m where m: "makeAllLeafLits fs f = Inr m"
    "\<forall>x. m x = (case map_of (fs_lits fs) x of None \<Rightarrow> None | Some ls \<Rightarrow> Some (ls ! f))"
    using makeAllLeafLits_fold [OF _ d, of f Map.empty] unfolding makeAllLeafLits_def by force
  have "dom m = {x. hasSymbol fs x}" using m(2) by (auto simp: hasSymbol_def split: option.splits)
  moreover have "getLiteral fs x f = Inr l" if "m x = Some l" for x l
    using m(2) that len assms(2) by (auto simp: litAt_map_of split: option.splits)
  ultimately show ?thesis using m(1) by blast
qed

end
