(* ===== verification/Invariant_Correct.thy ===== *)
theory Invariant_Correct
  imports Invariant_Check Frame_Query
begin

text \<open>
  What the inductiveness query decides.  The symbols it collects cover the formulas and transition
  expressions it encodes, unless the hypothesis folds to the constant false, so it meets no unknown
  literal otherwise; its instance has a model exactly when some pair of consecutive frame
  valuations leaves the invariant; and a candidate that passes the three checks of the proof
  engine excludes the bad states of every run.  The lemma \<open>absorbed_exactly\<close> says when the query throws.
\<close>

section \<open>The symbols\<close>

definition supportCacheOk :: "support_cache \<Rightarrow> bool" where
  "supportCacheOk cache = (\<forall>f xs. cache f = Some xs \<longrightarrow> xs = buildFormulaSupportVector f)"

lemma supportCacheOk_empty [simp]: "supportCacheOk Map.empty"
  by (simp add: supportCacheOk_def)

lemma cachedFormulaSupport_ok:
  assumes "supportCacheOk cache"
  shows "\<exists>cache'. cachedFormulaSupport f cache = (buildFormulaSupportVector f, cache') \<and> supportCacheOk cache'"
  using assms by (auto simp: cachedFormulaSupport_def supportCacheOk_def Let_def split: option.split)

lemma set_supportVector [simp]: "set (buildFormulaSupportVector (Some f)) = vars f"
  by (simp add: buildFormulaSupportVector_def)

lemma set_collectState [simp]:
  "set (collectStateSupportSymbols p xs) = set xs \<inter> buildCombinedStateSymbolSet p"
  by (auto simp: collectStateSupportSymbols_def)

lemma addSupportSymbols_set: "addSupportSymbols xs S = S \<union> {x \<in> set xs. 2 \<le> x}"
  unfolding addSupportSymbols_def by (induction xs arbitrary: S) auto

lemma support_ge2: "support f = {x \<in> vars f. 2 \<le> x}"
  unfolding support_def by (auto simp: ge2_iff)

lemma partners_mono: "S \<subseteq> addRelevantComplementedStatePartners pairs S"
proof -
  have "S \<subseteq> T \<Longrightarrow> S \<subseteq> addRelevantComplementedStatePartners pairs T" for T
    unfolding addRelevantComplementedStatePartners_def
    by (induction pairs arbitrary: T) (simp, simp add: case_prod_beta subset_insertI2 split: if_splits)
  then show ?thesis by blast
qed

lemma rails_mono: "S \<subseteq> addRelevantDualRailPartners pairs S"
proof -
  have "S \<subseteq> T \<Longrightarrow> S \<subseteq> addRelevantDualRailPartners pairs T" for T
    unfolding addRelevantDualRailPartners_def
    by (induction pairs arbitrary: T) (simp, simp add: subset_insertI2 split: if_splits)
  then show ?thesis by blast
qed

lemma resets_mono: "S \<subseteq> addResetInputs p S"
proof -
  have "S \<subseteq> T \<Longrightarrow> S \<subseteq> fold (\<lambda>(symbol, _). insert symbol) xs T" for T and xs :: "(var_id \<times> bool) list"
    by (induction xs arbitrary: T) (simp, simp add: case_prod_beta subset_insertI2)
  then show ?thesis by (auto simp: addResetInputs_def)
qed

lemma set_expandTransitionTargets:
  "set (expandTransitionTargets p xs tr) =
    (\<Union>x \<in> set xs. set (expandTarget (buildComplementPrimaryByStateSymbol p) tr x))"
  by (simp add: expandTransitionTargets_def sortUniqueSymbols_def)

lemma expandTarget_dom: "t \<in> set (expandTarget m tr x) \<Longrightarrow> t \<in> dom tr"
  by (cases "tr x"; cases "m x") (auto simp: expandTarget_def split: if_splits)

lemma expandTransitionTargets_dom: "set (expandTransitionTargets p xs tr) \<subseteq> dom tr"
  by (auto simp only: set_expandTransitionTargets dest: expandTarget_dom)

definition targetReads :: "(var_id \<rightharpoonup> bexpr) \<Rightarrow> var_id set \<Rightarrow> var_id set" where
  "targetReads tr T = T \<union> (\<Union>t \<in> T. support (the (tr t)))"

lemma addTargetSupport_fold:
  assumes "supportCacheOk cache" "set ts \<subseteq> dom tr"
  shows "\<exists>cache'. foldE (addTargetSupport tr) ts (S, cache) = Inr (S \<union> targetReads tr (set ts), cache') \<and>
    supportCacheOk cache'"
  using assms
proof (induction ts arbitrary: S cache)
  case (Cons t ts)
  obtain e where e: "tr t = Some e" using Cons.prems(2) by auto
  have sub: "set ts \<subseteq> dom tr" using Cons.prems(2) by simp
  obtain c where c: "cachedFormulaSupport (Some e) cache = (buildFormulaSupportVector (Some e), c)" "supportCacheOk c"
    using cachedFormulaSupport_ok [OF Cons.prems(1)] by blast
  have "addTargetSupport tr t (S, cache) = Inr (insert t S \<union> support e, c)"
    by (simp add: addTargetSupport_def atE_def e c(1) addSupportSymbols_set support_ge2)
  moreover obtain c' where "foldE (addTargetSupport tr) ts (insert t S \<union> support e, c) =
      Inr (insert t S \<union> support e \<union> targetReads tr (set ts), c')" "supportCacheOk c'"
    using Cons.IH [OF c(2) sub] by blast
  moreover have "insert t S \<union> support e \<union> targetReads tr (set ts) = S \<union> targetReads tr (set (t # ts))"
    by (auto simp: targetReads_def e)
  ultimately show ?case by simp
qed (simp add: targetReads_def)

text \<open>The targets of a formula are the transitions of the state symbols it reads.\<close>

definition formulaTargets :: "problem \<Rightarrow> bexpr \<Rightarrow> var_id list" where
  "formulaTargets p f = expandTransitionTargets p
     (collectStateSupportSymbols p (buildFormulaSupportVector (Some f))) (buildTransitionExprByStateSymbol p)"

lemma formulaTargets_mono: "vars f \<subseteq> vars g \<Longrightarrow> set (formulaTargets p f) \<subseteq> set (formulaTargets p g)"
  by (auto simp: formulaTargets_def set_expandTransitionTargets)

lemma querySymbols_ok:
  assumes "supportCacheOk cache"
  shows "\<exists>Q cache'. inductiveInvariantQuerySymbols p (Some h) (buildTransitionExprByStateSymbol p) cache = Inr (Q, cache') \<and>
    supportCacheOk cache' \<and> distinct Q \<and> support h \<subseteq> set Q \<and>
    targetReads (buildTransitionExprByStateSymbol p) (set (formulaTargets p h)) \<subseteq> set Q"
proof -
  let ?tr = "buildTransitionExprByStateSymbol p"
  obtain c where c: "cachedFormulaSupport (Some h) cache = (buildFormulaSupportVector (Some h), c)" "supportCacheOk c"
    using cachedFormulaSupport_ok [OF assms] by blast
  let ?S = "addSupportSymbols (buildFormulaSupportVector (Some h)) {} \<union> targetReads ?tr (set (formulaTargets p h))"
  obtain c' where c': "foldE (addTargetSupport ?tr) (formulaTargets p h)
      (addSupportSymbols (buildFormulaSupportVector (Some h)) {}, c) = Inr (?S, c')" "supportCacheOk c'"
    using addTargetSupport_fold [OF c(2)] expandTransitionTargets_dom unfolding formulaTargets_def by blast
  let ?Q = "sorted_list_of_set (addRelevantDualRailPartners (pb_dualRailStatePairs p)
      (addRelevantComplementedStatePartners (pb_complementedStatePairs1 p)
        (addRelevantComplementedStatePartners (pb_complementedStatePairs0 p) (addResetInputs p ?S))))"
  have "inductiveInvariantQuerySymbols p (Some h) ?tr cache = Inr (?Q, c')"
    using c'(1) unfolding formulaTargets_def by (simp add: inductiveInvariantQuerySymbols_def c(1))
  moreover have "?S \<subseteq> set ?Q"
    using resets_mono [of ?S p] partners_mono rails_mono by (simp add: order_trans) (meson order_trans)
  moreover have "support h \<subseteq> ?S" by (auto simp: addSupportSymbols_set support_ge2)
  ultimately show ?thesis using c'(2) by (meson distinct_sorted_list_of_set le_sup_iff order_trans)
qed

section \<open>The constraints\<close>

definition pairsOn :: "var_id set \<Rightarrow> (var_id \<times> var_id) list \<Rightarrow> (var_id \<Rightarrow> bool) \<Rightarrow> bool" where
  "pairsOn Q pairs env = (\<forall>pc \<in> set pairs. fst pc \<in> Q \<and> snd pc \<in> Q \<longrightarrow> env (snd pc) = (\<not> env (fst pc)))"

definition railsOn :: "var_id set \<Rightarrow> rail_pair list \<Rightarrow> (var_id \<Rightarrow> bool) \<Rightarrow> bool" where
  "railsOn Q pairs env = (\<forall>rp \<in> set pairs. railOne rp \<in> Q \<and> railZero rp \<in> Q \<longrightarrow> env (railOne rp) \<or> env (railZero rp))"

definition resetOn :: "var_id set \<Rightarrow> problem \<Rightarrow> (var_id \<Rightarrow> bool) \<Rightarrow> bool" where
  "resetOn Q p env = (pb_resetBootstrapCycles p \<noteq> 0 \<longrightarrow>
     (\<forall>input \<in> set (pb_resetBootstrapInputs p). fst input \<in> Q \<longrightarrow> env (fst input) = (\<not> snd input)))"

definition legalOn :: "var_id set \<Rightarrow> problem \<Rightarrow> (var_id \<Rightarrow> bool) \<Rightarrow> bool" where
  "legalOn Q p env = (pairsOn Q (pb_complementedStatePairs0 p) env \<and> pairsOn Q (pb_complementedStatePairs1 p) env \<and>
     railsOn Q (pb_dualRailStatePairs p) env)"

definition targetsStep :: "var_id set \<Rightarrow> (var_id \<rightharpoonup> bexpr) \<Rightarrow> (var_id \<Rightarrow> bool) \<Rightarrow> (var_id \<Rightarrow> bool) \<Rightarrow> bool" where
  "targetsStep T tr env env' = (\<forall>t \<in> T. env' t = eval env (the (tr t)))"

definition knownSymbols :: "frame_store \<Rightarrow> var_id set" where
  "knownSymbols fs = {x. hasSymbol fs x}"

lemma known_literal:
  assumes "storeInv fs n" "x \<in> knownSymbols fs" "f < fs_numFrames fs"
  shows "\<exists>l. getLiteral fs x f = Inr l \<and> litBelow n l"
  using storeInv_literal [OF assms(1) _ assms(3)] assms(2) by (simp add: knownSymbols_def)

lemma complementStep_restricts:
  assumes "storeInv fs (sv_vars s)" "solverInv s" "f < fs_numFrames fs"
  shows "\<exists>s'. complementStep fs f pc s = Inr s' \<and> restricts s s' (\<lambda>M. pairsOn (knownSymbols fs) [pc] (frameValue fs M f))"
proof (cases "fst pc \<in> knownSymbols fs \<and> snd pc \<in> knownSymbols fs")
  case True
  obtain c q where l: "getLiteral fs (snd pc) f = Inr c" "litBelow (sv_vars s) c"
      "getLiteral fs (fst pc) f = Inr q" "litBelow (sv_vars s) q"
    using known_literal [OF assms(1) _ assms(3)] True by meson
  obtain s' where s': "addLiteralEquivalence c (- q) s = Inr s'" "restricts s s' (\<lambda>M. litTrue M c = litTrue M (- q))"
    using addLiteralEquivalence_restricts [OF assms(2) l(2), of "- q"] l(4) by auto
  have "complementStep fs f pc s = Inr s'"
    unfolding complementStep_def l bindE_simps s'(1) using True by (simp add: knownSymbols_def)
  moreover have "restricts s s' (\<lambda>M. pairsOn (knownSymbols fs) [pc] (frameValue fs M f))"
    by (rule restricts_weaken [OF s'(2)])
      (use True l(4) in \<open>simp add: pairsOn_def frameValue_lit [OF l(1)] frameValue_lit [OF l(3)]\<close>)
  ultimately show ?thesis by blast
next
  case False
  then show ?thesis using assms(2) by (auto simp: complementStep_def knownSymbols_def pairsOn_def intro: restricts_refl restricts_weaken)
qed

lemma railStep_restricts:
  assumes "storeInv fs (sv_vars s)" "solverInv s" "f < fs_numFrames fs"
  shows "\<exists>s'. railStep fs f rp s = Inr s' \<and> restricts s s' (\<lambda>M. railsOn (knownSymbols fs) [rp] (frameValue fs M f))"
proof (cases "railOne rp \<in> knownSymbols fs \<and> railZero rp \<in> knownSymbols fs")
  case True
  obtain a b where l: "getLiteral fs (railOne rp) f = Inr a" "litBelow (sv_vars s) a"
      "getLiteral fs (railZero rp) f = Inr b" "litBelow (sv_vars s) b"
    using known_literal [OF assms(1) _ assms(3)] True by meson
  obtain s' where s': "addClause [a, b] s = Inr s'" "restricts s s' (\<lambda>M. clauseTrue M [a, b])"
    using restricts_clause [OF assms(2), of "[a, b]"] l by auto
  have "railStep fs f rp s = Inr s'"
    unfolding railStep_def l bindE_simps s'(1) using True by (simp add: knownSymbols_def)
  moreover have "restricts s s' (\<lambda>M. railsOn (knownSymbols fs) [rp] (frameValue fs M f))"
    by (rule restricts_weaken [OF s'(2)])
      (use True in \<open>simp add: railsOn_def frameValue_lit [OF l(1)] frameValue_lit [OF l(3)]\<close>)
  ultimately show ?thesis by blast
next
  case False
  then show ?thesis using assms(2) by (auto simp: railStep_def knownSymbols_def railsOn_def intro: restricts_refl restricts_weaken)
qed

lemma resetStep_restricts:
  assumes "storeInv fs (sv_vars s)" "solverInv s" "f < fs_numFrames fs"
  shows "\<exists>s'. resetStep fs f input s = Inr s' \<and>
    restricts s s' (\<lambda>M. fst input \<in> knownSymbols fs \<longrightarrow> frameValue fs M f (fst input) = (\<not> snd input))"
proof (cases "fst input \<in> knownSymbols fs")
  case True
  obtain l where l: "getLiteral fs (fst input) f = Inr l" "litBelow (sv_vars s) l"
    using known_literal [OF assms(1) True assms(3)] by blast
  have "litsBelow (sv_vars s) [if snd input then - l else l]" using l(2) by simp
  then obtain s' where s': "addClause [if snd input then - l else l] s = Inr s'"
      "restricts s s' (\<lambda>M. clauseTrue M [if snd input then - l else l])"
    using restricts_clause [OF assms(2)] by blast
  have "resetStep fs f input s = Inr s'"
    unfolding resetStep_def l bindE_simps s'(1) using True by (simp add: knownSymbols_def)
  moreover have "restricts s s' (\<lambda>M. fst input \<in> knownSymbols fs \<longrightarrow> frameValue fs M f (fst input) = (\<not> snd input))"
    by (rule restricts_weaken [OF s'(2)]) (use True l(2) in \<open>simp add: frameValue_lit [OF l(1)]\<close>)
  ultimately show ?thesis by blast
next
  case False
  then show ?thesis using assms(2) by (auto simp: resetStep_def knownSymbols_def intro: restricts_refl restricts_weaken)
qed

text \<open>A constraint of one frame for every frame below a bound.\<close>

lemma frames_restrict:
  assumes inv: "storeInv fs (sv_vars s)" "solverInv s" and n: "n \<le> fs_numFrames fs"
    and step: "\<And>x f u. storeInv fs (sv_vars u) \<Longrightarrow> solverInv u \<Longrightarrow> f < fs_numFrames fs \<Longrightarrow>
      \<exists>u'. g f x u = Inr u' \<and> restricts u u' (\<lambda>M. P x (frameValue fs M f))"
  shows "\<exists>s'. foldE (\<lambda>f. foldE (g f) xs) [0..<n] s = Inr s' \<and>
    restricts s s' (\<lambda>M. \<forall>f \<in> set [0..<n]. \<forall>x \<in> set xs. P x (frameValue fs M f))"
proof (rule foldE_restricts [OF inv(2)])
  fix f u
  assume f: "f \<in> set [0..<n]" and u: "solverInv u" "sv_vars s \<le> sv_vars u"
  note fs = storeInv_mono [OF inv(1)]
  show "\<exists>u'. foldE (g f) xs u = Inr u' \<and> restricts u u' (\<lambda>M. \<forall>x \<in> set xs. P x (frameValue fs M f))"
  proof (rule foldE_restricts [OF u(1)])
    fix x v
    assume "solverInv v" "sv_vars u \<le> sv_vars v"
    then show "\<exists>u'. g f x v = Inr u' \<and> restricts v u' (\<lambda>M. P x (frameValue fs M f))"
      using f n u(2) by (intro step fs) auto
  qed (rule readsBelow_frames [OF fs [OF u(2)]])
qed (rule readsBelow_frames [OF inv(1)])

lemma complements_restrict:
  assumes "storeInv fs (sv_vars s)" "solverInv s" "n \<le> fs_numFrames fs"
  shows "\<exists>s'. addComplementedStateRelations fs pairs n s = Inr s' \<and>
    restricts s s' (\<lambda>M. \<forall>f < n. pairsOn (knownSymbols fs) pairs (frameValue fs M f))"
proof -
  obtain s' where "addComplementedStateRelations fs pairs n s = Inr s'"
    "restricts s s' (\<lambda>M. \<forall>f \<in> set [0..<n]. \<forall>pc \<in> set pairs. pairsOn (knownSymbols fs) [pc] (frameValue fs M f))"
    using frames_restrict [where g = "complementStep fs", OF assms complementStep_restricts]
    unfolding addComplementedStateRelations_def by blast
  then show ?thesis by (auto simp: pairsOn_def elim!: restricts_weaken)
qed

lemma validity_restrict:
  assumes "storeInv fs (sv_vars s)" "solverInv s" "n \<le> fs_numFrames fs"
  shows "\<exists>s'. addDualRailStateValidity fs pairs n s = Inr s' \<and>
    restricts s s' (\<lambda>M. \<forall>f < n. railsOn (knownSymbols fs) pairs (frameValue fs M f))"
proof -
  obtain s' where "addDualRailStateValidity fs pairs n s = Inr s'"
    "restricts s s' (\<lambda>M. \<forall>f \<in> set [0..<n]. \<forall>rp \<in> set pairs. railsOn (knownSymbols fs) [rp] (frameValue fs M f))"
    using frames_restrict [where g = "railStep fs", OF assms railStep_restricts]
    unfolding addDualRailStateValidity_def by blast
  then show ?thesis by (auto simp: railsOn_def elim!: restricts_weaken)
qed

lemma resets_restrict:
  assumes "storeInv fs (sv_vars s)" "solverInv s" "f < fs_numFrames fs"
  shows "\<exists>s'. addPostBootstrapResetInputConstraints fs p f s = Inr s' \<and>
    restricts s s' (\<lambda>M. resetOn (knownSymbols fs) p (frameValue fs M f))"
proof (cases "pb_resetBootstrapCycles p = 0")
  case True
  then show ?thesis using assms(2)
    by (auto simp: addPostBootstrapResetInputConstraints_def resetOn_def intro: restricts_refl restricts_weaken)
next
  case False
  obtain s' where "foldE (resetStep fs f) (pb_resetBootstrapInputs p) s = Inr s'"
    "restricts s s' (\<lambda>M. \<forall>input \<in> set (pb_resetBootstrapInputs p).
       fst input \<in> knownSymbols fs \<longrightarrow> frameValue fs M f (fst input) = (\<not> snd input))"
    using foldE_restricts [OF assms(2), of "pb_resetBootstrapInputs p" "resetStep fs f"
        "\<lambda>input M. fst input \<in> knownSymbols fs \<longrightarrow> frameValue fs M f (fst input) = (\<not> snd input)"]
      resetStep_restricts storeInv_mono [OF assms(1)] assms(3) readsBelow_frames [OF assms(1)] by meson
  then show ?thesis using False
    by (auto simp: addPostBootstrapResetInputConstraints_def resetOn_def elim!: restricts_weaken)
qed

lemma sideConstraints_restrict:
  assumes "storeInv fs (sv_vars s)" "solverInv s" "fs_numFrames fs = 2"
  shows "\<exists>s'. sideConstraints fs p s = Inr s' \<and>
    restricts s s' (\<lambda>M. legalOn (knownSymbols fs) p (frameValue fs M 0) \<and> legalOn (knownSymbols fs) p (frameValue fs M 1) \<and>
      resetOn (knownSymbols fs) p (frameValue fs M 0))"
proof -
  note fs = storeInv_mono [OF assms(1)]
  have two: "(\<forall>f < (2::nat). P f) \<longleftrightarrow> P 0 \<and> P 1" for P by (auto simp: less_2_cases_iff)
  let ?fv = "frameValue fs" and ?Q = "knownSymbols fs"
  obtain s1 where s1: "addComplementedStateRelations fs (pb_complementedStatePairs0 p) 2 s = Inr s1"
    "restricts s s1 (\<lambda>M. \<forall>f < 2. pairsOn ?Q (pb_complementedStatePairs0 p) (?fv M f))"
    using complements_restrict [OF assms(1,2), of 2] assms(3) by auto
  note le1 = restrictsD(1,2) [OF s1(2)]
  obtain s2 where s2: "addComplementedStateRelations fs (pb_complementedStatePairs1 p) 2 s1 = Inr s2"
    "restricts s1 s2 (\<lambda>M. \<forall>f < 2. pairsOn ?Q (pb_complementedStatePairs1 p) (?fv M f))"
    using complements_restrict [OF fs [OF le1(2)] le1(1), of 2] assms(3) by auto
  note r2 = restricts_trans [OF s1(2) s2(2) readsBelow_frames [OF assms(1)]]
  note le2 = restrictsD(1,2) [OF r2]
  obtain s3 where s3: "addDualRailStateValidity fs (pb_dualRailStatePairs p) 2 s2 = Inr s3"
    "restricts s2 s3 (\<lambda>M. \<forall>f < 2. railsOn ?Q (pb_dualRailStatePairs p) (?fv M f))"
    using validity_restrict [OF fs [OF le2(2)] le2(1), of 2] assms(3) by auto
  note r3 = restricts_trans [OF r2 s3(2) readsBelow_frames [OF assms(1)]]
  note le3 = restrictsD(1,2) [OF r3]
  obtain s4 where s4: "addPostBootstrapResetInputConstraints fs p 0 s3 = Inr s4"
    "restricts s3 s4 (\<lambda>M. resetOn ?Q p (?fv M 0))"
    using resets_restrict [OF fs [OF le3(2)] le3(1), of 0] assms(3) by auto
  note r4 = restricts_trans [OF r3 s4(2) readsBelow_frames [OF assms(1)]]
  have "sideConstraints fs p s = Inr s4" by (simp add: sideConstraints_def s1(1) s2(1) s3(1) s4(1))
  moreover have "restricts s s4 (\<lambda>M. legalOn ?Q p (?fv M 0) \<and> legalOn ?Q p (?fv M 1) \<and> resetOn ?Q p (?fv M 0))"
    by (rule restricts_weaken [OF r4]) (auto simp: legalOn_def two)
  ultimately show ?thesis by blast
qed

section \<open>The transition equations\<close>

lemma transitionStep_ok:
  assumes en: "frameEncoder fs f S en" "storeInv fs (sv_vars (en_solver en))"
    and t: "t \<in> knownSymbols fs" "tr t = Some e" "support e \<subseteq> S" and f: "Suc f < fs_numFrames fs"
  shows "\<exists>en'. transitionStep fs tr f t en = Inr en' \<and> frameEncoder fs f S en' \<and>
    restricts (en_solver en) (en_solver en') (\<lambda>M. frameValue fs M (Suc f) t = eval (frameValue fs M f) e)"
proof -
  obtain k where k: "getLiteral fs t (Suc f) = Inr k" "litBelow (sv_vars (en_solver en)) k"
    using known_literal [OF en(2) t(1) f] by blast
  obtain l en1 where l: "encode (Some e) en = Inr (l, en1)" "frameEncoder fs f S en1"
    "conservative (en_solver en) (en_solver en1)" "litBelow (sv_vars (en_solver en1)) l"
    "\<And>M. models M (en_solver en1) \<Longrightarrow> litTrue M l = eval (frameValue fs M f) e"
    using frame_encode [OF en(1) t(3)] by blast
  have inv: "solverInv (en_solver en1)" using l(2) by (simp add: frameEncoder_def encInv_def)
  have k': "litBelow (sv_vars (en_solver en1)) k" using litBelow_mono [OF k(2) conservative_vars [OF l(3)]] .
  obtain s where s: "addLiteralEquivalence k l (en_solver en1) = Inr s"
    "restricts (en_solver en1) s (\<lambda>M. litTrue M k = litTrue M l)"
    using addLiteralEquivalence_restricts [OF inv k' l(4)] by blast
  have r: "restricts (en_solver en1) s (\<lambda>M. frameValue fs M (Suc f) t = eval (frameValue fs M f) e)"
    by (rule restricts_weaken_models [OF s(2)]) (simp add: l(5) frameValue_lit [OF k(1)])
  have "transitionStep fs tr f t en = Inr (en1\<lparr> en_solver := s \<rparr>)"
    unfolding transitionStep_def Suc_eq_plus1 [symmetric] k(1) by (simp add: atE_def t(2) l(1) s(1))
  moreover have "restricts (en_solver en) s (\<lambda>M. frameValue fs M (Suc f) t = eval (frameValue fs M f) e)"
    using restricts_trans [OF restricts_conservative [OF l(3) inv] r readsBelow_frames [OF en(2)]] by simp
  ultimately show ?thesis using frameEncoder_solver [OF l(2) s(2)] by auto
qed

lemma transitions_restrict:
  assumes fs: "storeInv fs (sv_vars s)" "solverInv s" and f: "Suc f < fs_numFrames fs"
    and reads: "targetReads tr (set (expandTransitionTargets p requested tr)) \<subseteq> knownSymbols fs"
  shows "\<exists>s'. addTransitionRelationForTargets fs p tr f requested s = Inr s' \<and>
    restricts s s' (\<lambda>M. targetsStep (set (expandTransitionTargets p requested tr)) tr (frameValue fs M f) (frameValue fs M (Suc f)))"
proof -
  let ?ts = "expandTransitionTargets p requested tr"
  obtain m where m: "makeAllLeafLits fs f = Inr m" "dom m = knownSymbols fs" "\<And>x l. m x = Some l \<Longrightarrow> getLiteral fs x f = Inr l"
    using makeAllLeafLits_ok [OF fs(1) Suc_lessD [OF f]] unfolding knownSymbols_def by blast
  let ?en = "newEncoder s m None False 0"
  have vars: "sv_vars (en_solver ?en) = sv_vars s" "sv_clauses (en_solver ?en) = sv_clauses s" by (simp_all add: newEncoder_def)
  have en: "frameEncoder fs f (knownSymbols fs) ?en" by (rule frameEncoder_new [OF fs(2,1) m(3)]) (simp_all add: m(2))
  have inv: "solverInv (en_solver u)" if "frameEncoder fs f (knownSymbols fs) u" for u
    using that by (simp add: frameEncoder_def encInv_def)
  have step: "\<exists>u'. transitionStep fs tr f t u = Inr u' \<and> frameEncoder fs f (knownSymbols fs) u' \<and>
      restricts (en_solver u) (en_solver u') (\<lambda>M. frameValue fs M (Suc f) t = eval (frameValue fs M f) (the (tr t)))"
    if t: "t \<in> set ?ts" and u: "frameEncoder fs f (knownSymbols fs) u" "sv_vars (en_solver ?en) \<le> sv_vars (en_solver u)" for t u
  proof -
    obtain e where e: "tr t = Some e" using subsetD [OF expandTransitionTargets_dom t] by blast
    have "t \<in> knownSymbols fs" using reads t by (auto simp: targetReads_def)
    moreover have "support (the (tr t)) \<subseteq> targetReads tr (set ?ts)" using t by (auto simp: targetReads_def)
    ultimately have "t \<in> knownSymbols fs" "support e \<subseteq> knownSymbols fs" using reads e by auto
    from transitionStep_ok [where tr = tr, OF u(1) storeInv_mono [OF fs(1)] this(1) e this(2) f] show ?thesis
      using u(2) e vars by simp
  qed
  have "readsBelow (sv_vars (en_solver ?en)) (\<lambda>M. frameValue fs M (Suc f) t = eval (frameValue fs M f) (the (tr t)))" for t
    unfolding vars by (rule readsBelow_frames [OF fs(1)])
  from foldE_restricts_via [where I = "frameEncoder fs f (knownSymbols fs)" and proj = en_solver and xs = ?ts and
      f = "transitionStep fs tr f" and P = "\<lambda>t M. frameValue fs M (Suc f) t = eval (frameValue fs M f) (the (tr t))",
      OF en inv step this]
  obtain en' where en': "foldE (transitionStep fs tr f) ?ts ?en = Inr en'"
    "restricts (en_solver ?en) (en_solver en')
      (\<lambda>M. \<forall>t \<in> set ?ts. frameValue fs M (Suc f) t = eval (frameValue fs M f) (the (tr t)))"
    by blast
  have same: "restricts s (en_solver ?en) (\<lambda>M. True)"
    using inv [OF en] vars
    by (auto simp: restricts_def models_def agreeBelow_def newEncoder_def sameBackend_def reserveNodeCache_def Let_def)
  have "addTransitionRelationForTargets fs p tr f requested s = Inr (en_solver en')"
    by (simp add: addTransitionRelationForTargets_def m(1) en'(1))
  moreover have "restricts s (en_solver en') (\<lambda>M. True \<and>
      targetsStep (set ?ts) tr (frameValue fs M f) (frameValue fs M (Suc f)))"
    by (rule restricts_trans [OF same]) (use en'(2) in \<open>simp add: targetsStep_def\<close>, rule readsBelow_frames [OF fs(1)])
  ultimately show ?thesis by simp
qed

section \<open>The formulas\<close>

lemma encodeAndAssert_restricts:
  assumes "frameEncoder fs f S en" "storeInv fs (sv_vars (en_solver en))" "support e \<subseteq> S"
  shows "\<exists>s'. encodeAndAssert e en = Inr s' \<and> restricts (en_solver en) s' (\<lambda>M. eval (frameValue fs M f) e)"
proof -
  obtain l en' where l: "encode (Some e) en = Inr (l, en')" "frameEncoder fs f S en'"
    "conservative (en_solver en) (en_solver en')" "litBelow (sv_vars (en_solver en')) l"
    "\<And>M. models M (en_solver en') \<Longrightarrow> litTrue M l = eval (frameValue fs M f) e"
    using frame_encode [OF assms(1,3)] by blast
  have inv: "solverInv (en_solver en')" using l(2) by (simp add: frameEncoder_def encInv_def)
  show ?thesis
    using restricts_literal [OF l(3) inv l(4,5) readsBelow_frames [OF assms(2)]] by (auto simp: encodeAndAssert_def l(1))
qed

lemma newEncoder_solver [simp]:
  "sv_vars (en_solver (newEncoder s m sm cm h)) = sv_vars s"
  "models M (en_solver (newEncoder s m sm cm h)) = models M s"
  "solverInv (en_solver (newEncoder s m sm cm h)) = solverInv s"
  "sameBackend s (en_solver (newEncoder s m sm cm h))"
  by (simp_all add: newEncoder_def models_def solverInv_def sameBackend_def reserveNodeCache_def Let_def)

lemma stepQuery_restrict:
  assumes fs: "storeInv fs (sv_vars s)" "solverInv s" "fs_numFrames fs = 2"
    and sup: "support h \<subseteq> knownSymbols fs" "support c \<subseteq> knownSymbols fs"
  shows "\<exists>s'. assertStepQuery fs h (buildFormulaSupportVector (Some h)) c (buildFormulaSupportVector (Some c)) s = Inr s' \<and>
    restricts s s' (\<lambda>M. eval (frameValue fs M 0) h \<and> \<not> eval (frameValue fs M 1) c)"
proof -
  have leaves: "\<exists>m. makeLeafLits fs f (buildFormulaSupportVector (Some e)) = Inr m \<and> dom m = support e \<and>
      (\<forall>x l. m x = Some l \<longrightarrow> getLiteral fs x f = Inr l)" if e: "support e \<subseteq> knownSymbols fs" and f: "f < 2" for e f
  proof -
    have "hasSymbol fs x" if "x \<in> set (buildFormulaSupportVector (Some e))" "\<not> x < 2" for x
      using e that by (auto simp: support_ge2 knownSymbols_def not_less)
    then obtain m where m: "makeLeafLits fs f (buildFormulaSupportVector (Some e)) = Inr m"
      using makeLeafLits_total [OF _ fs(1)] f fs(3) by metis
    have "dom m = support e" using makeLeafLits_ok(2) [OF m] by (auto simp: support_ge2 not_less)
    then show ?thesis using m makeLeafLits_ok(1) [OF m] by blast
  qed
  obtain m0 where m0: "makeLeafLits fs 0 (buildFormulaSupportVector (Some h)) = Inr m0" "dom m0 = support h"
    "\<And>x l. m0 x = Some l \<Longrightarrow> getLiteral fs x 0 = Inr l" using leaves [OF sup(1), of 0] by auto
  obtain m1 where m1: "makeLeafLits fs 1 (buildFormulaSupportVector (Some c)) = Inr m1" "dom m1 = support c"
    "\<And>x l. m1 x = Some l \<Longrightarrow> getLiteral fs x 1 = Inr l" using leaves [OF sup(2), of 1] by auto
  let ?e0 = "newEncoder s m0 None False 0"
  let ?e1 = "newEncoder (en_solver ?e0) m1 None False 0"
  let ?s1 = "en_solver ?e1"
  have same: "restricts s ?s1 (\<lambda>M. True)"
    using fs(2) sameBackend_trans [OF newEncoder_solver(4) newEncoder_solver(4)] by (auto simp: restricts_def agreeBelow_def)
  have e0: "frameEncoder fs 0 (support h) (?e0\<lparr> en_solver := ?s1 \<rparr>)"
    by (rule frameEncoder_solver [OF frameEncoder_new [OF fs(2,1) m0(3)], where P = "\<lambda>M. True"])
      (use m0(2) fs(2) in \<open>auto simp: restricts_def agreeBelow_def\<close>)
  obtain s2 where s2: "encodeAndAssert h (?e0\<lparr> en_solver := ?s1 \<rparr>) = Inr s2"
    "restricts ?s1 s2 (\<lambda>M. eval (frameValue fs M 0) h)"
    using encodeAndAssert_restricts [OF e0] fs(1) by auto
  have e1: "frameEncoder fs 1 (support c) (?e1\<lparr> en_solver := s2 \<rparr>)"
    by (rule frameEncoder_solver [OF frameEncoder_new [OF _ _ m1(3)] s2(2)]) (use m1(2) fs in simp_all)
  have fs2: "storeInv fs (sv_vars s2)" by (rule storeInv_mono [OF fs(1)]) (use restrictsD(2) [OF s2(2)] in simp)
  obtain s3 where s3: "encodeAndAssert (mkNot c) (?e1\<lparr> en_solver := s2 \<rparr>) = Inr s3"
    "restricts s2 s3 (\<lambda>M. eval (frameValue fs M 1) (mkNot c))"
    using encodeAndAssert_restricts [OF e1, of "mkNot c"] fs2 by auto
  note r = restricts_trans [OF restricts_trans [OF same s2(2) readsBelow_frames [OF fs(1)]] s3(2) readsBelow_frames [OF fs(1)]]
  have "assertStepQuery fs h (buildFormulaSupportVector (Some h)) c (buildFormulaSupportVector (Some c)) s = Inr s3"
    by (simp add: assertStepQuery_def m0(1) m1(1) [unfolded One_nat_def] Let_def s2(1) s3(1))
  then show ?thesis using r by auto
qed

section \<open>What the query decides\<close>

text \<open>A step out of the candidate: two legal valuations, joined by the transition equations of the
  candidate's own state symbols, of which only the first satisfies it.\<close>

definition leavingStep :: "problem \<Rightarrow> var_id set \<Rightarrow> bexpr \<Rightarrow> bexpr \<Rightarrow> (var_id \<Rightarrow> bool) \<Rightarrow> (var_id \<Rightarrow> bool) \<Rightarrow> bool" where
  "leavingStep p Q h c env env' =
    (legalOn Q p env \<and> legalOn Q p env' \<and> resetOn Q p env \<and>
     targetsStep (set (formulaTargets p c)) (buildTransitionExprByStateSymbol p) env env' \<and>
     eval env h \<and> \<not> eval env' c)"

lemma legalOn_cong: "(\<And>x. x \<in> Q \<Longrightarrow> env x = env' x) \<Longrightarrow> legalOn Q p env = legalOn Q p env'"
  by (simp add: legalOn_def pairsOn_def railsOn_def cong: conj_cong imp_cong)

lemma leavingStep_cong:
  assumes "support h \<subseteq> Q" "support c \<subseteq> Q"
    "targetReads (buildTransitionExprByStateSymbol p) (set (formulaTargets p c)) \<subseteq> Q"
    and a: "\<And>x. x \<in> Q \<Longrightarrow> env x = fnv x" and b: "\<And>x. x \<in> Q \<Longrightarrow> env' x = fnv' x"
  shows "leavingStep p Q h c env env' = leavingStep p Q h c fnv fnv'"
proof -
  have "eval env h = eval fnv h" "eval env' c = eval fnv' c" by (rule eval_cong; use assms in blast)+
  moreover have "resetOn Q p env = resetOn Q p fnv" using a by (simp add: resetOn_def cong: imp_cong)
  moreover have "env' t = fnv' t \<and> eval env (the (buildTransitionExprByStateSymbol p t)) = eval fnv (the (buildTransitionExprByStateSymbol p t))"
    if "t \<in> set (formulaTargets p c)" for t
    using that assms(3) a b by (auto simp: targetReads_def intro!: eval_cong)
  moreover have "legalOn Q p env = legalOn Q p fnv" "legalOn Q p env' = legalOn Q p fnv'"
    by (rule legalOn_cong, rule a b, assumption)+
  ultimately show ?thesis unfolding leavingStep_def targetsStep_def by auto
qed

lemma isInductiveInvariant_exact:
  assumes B: "soundBackend B" "completeBackend B" and cache: "supportCacheOk cache"
    and sub: "vars candidate \<subseteq> vars (hypothesisOf candidate certified)"
  shows "\<exists>Q c cache'. inductiveInvariantQuerySymbols p (Some (hypothesisOf candidate certified))
       (buildTransitionExprByStateSymbol p) cache = Inr (Q, c) \<and> supportCacheOk cache' \<and>
    isInductiveInvariant B p (Some candidate) t cache certified =
      Inr (\<not> (\<exists>env env'. leavingStep p (set Q) (hypothesisOf candidate certified) candidate env env'), cache')"
proof -
  let ?tr = "buildTransitionExprByStateSymbol p" and ?h = "hypothesisOf candidate certified"
  obtain Q c1 where q: "inductiveInvariantQuerySymbols p (Some ?h) ?tr cache = Inr (Q, c1)" "supportCacheOk c1"
    "distinct Q" "support ?h \<subseteq> set Q" "targetReads ?tr (set (formulaTargets p ?h)) \<subseteq> set Q"
    using querySymbols_ok [OF cache] by blast
  have supc: "support candidate \<subseteq> set Q" using sub q(4) by (auto simp: support_ge2)
  have reads: "targetReads ?tr (set (formulaTargets p candidate)) \<subseteq> set Q"
    using formulaTargets_mono [OF sub, of p] q(5) by (auto simp: targetReads_def)
  obtain c2 where c2: "cachedFormulaSupport (Some candidate) c1 = (buildFormulaSupportVector (Some candidate), c2)" "supportCacheOk c2"
    using cachedFormulaSupport_ok [OF q(2)] by blast
  obtain c3 where c3: "cachedFormulaSupport (Some ?h) c2 = (buildFormulaSupportVector (Some ?h), c3)" "supportCacheOk c3"
    using cachedFormulaSupport_ok [OF c2(2)] by blast
  obtain fs s0 where f: "newFrameStore Q 2 (newSolver t) = (fs, s0)" by fastforce
  have fs: "storeInv fs (sv_vars s0)" "knownSymbols fs = set Q" "fs_numFrames fs = 2" "sv_clauses s0 = []"
    using newFrameStore_ok [OF f q(3)] by (auto simp: knownSymbols_def newSolver_def)
  have s0: "solverInv s0" "\<And>M. models M s0" using fs(4) by (simp_all add: solverInv_def models_def satisfies_def)
  let ?fv = "frameValue fs"
  obtain s1 where s1: "sideConstraints fs p s0 = Inr s1"
    "restricts s0 s1 (\<lambda>M. legalOn (set Q) p (?fv M 0) \<and> legalOn (set Q) p (?fv M 1) \<and> resetOn (set Q) p (?fv M 0))"
    using sideConstraints_restrict [OF fs(1) s0(1) fs(3), of p] fs(2) by auto
  note le1 = restrictsD(1,2) [OF s1(2)] and mono = storeInv_mono [OF fs(1)] and free = readsBelow_frames [OF fs(1)]
  obtain s2 where s2: "addTransitionRelationForTargets fs p ?tr 0
      (collectStateSupportSymbols p (buildFormulaSupportVector (Some candidate))) s1 = Inr s2"
    "restricts s1 s2 (\<lambda>M. targetsStep (set (formulaTargets p candidate)) ?tr (?fv M 0) (?fv M 1))"
    using transitions_restrict [OF mono [OF le1(2)] le1(1) _ reads [folded fs(2), unfolded formulaTargets_def], of 0] fs(3)
    by (auto simp: formulaTargets_def)
  note r2 = restricts_trans [OF s1(2) s2(2) free]
  note le2 = restrictsD(1,2) [OF r2]
  obtain s3 where s3: "assertStepQuery fs ?h (buildFormulaSupportVector (Some ?h)) candidate
      (buildFormulaSupportVector (Some candidate)) s2 = Inr s3"
    "restricts s2 s3 (\<lambda>M. eval (?fv M 0) ?h \<and> \<not> eval (?fv M 1) candidate)"
    using stepQuery_restrict [OF mono [OF le2(2)] le2(1) fs(3) q(4) [folded fs(2)] supc [folded fs(2)]] by blast
  have r3: "restricts s0 s3 (\<lambda>M. leavingStep p (set Q) ?h candidate (?fv M 0) (?fv M 1))"
    by (rule restricts_weaken [OF restricts_trans [OF r2 s3(2) free]]) (auto simp: leavingStep_def)
  have "sv_kissatLimits s3 = (- 1, - 1)"
    using sameBackend_trans [OF newFrameStore_backend [OF f] restrictsD(3) [OF r3]] by (simp add: sameBackend_def newSolver_def)
  then have "solve B s3 \<longleftrightarrow> (\<exists>M. models M s3)" by (rule solve_iff [OF B])
  also have "\<dots> \<longleftrightarrow> (\<exists>M. leavingStep p (set Q) ?h candidate (?fv M 0) (?fv M 1))"
    using r3 s0(2) unfolding restricts_def by blast
  also have "\<dots> \<longleftrightarrow> (\<exists>env env'. leavingStep p (set Q) ?h candidate env env')"
  proof (intro iffI; elim exE)
    fix env env' assume l: "leavingStep p (set Q) ?h candidate env env'"
    obtain M where M: "\<forall>x f. hasSymbol fs x \<longrightarrow> f < fs_numFrames fs \<longrightarrow> ?fv M f x = (if f = 0 then env else env') x"
      using frames_free [OF fs(1), where envs = "\<lambda>f. if f = 0 then env else env'"] by auto
    have "env x = ?fv M 0 x" "env' x = ?fv M 1 x" if "x \<in> set Q" for x
      using M that fs(2,3) by (auto simp: knownSymbols_def)
    then have "leavingStep p (set Q) ?h candidate env env' = leavingStep p (set Q) ?h candidate (?fv M 0) (?fv M 1)"
      by (rule leavingStep_cong [OF q(4) supc reads])
    then show "\<exists>M. leavingStep p (set Q) ?h candidate (?fv M 0) (?fv M 1)" using l by blast
  qed blast
  finally have "isInductiveInvariant B p (Some candidate) t cache certified =
      Inr (\<not> (\<exists>env env'. leavingStep p (set Q) ?h candidate env env'), c3)"
    by (simp add: isInductiveInvariant_def Let_def q(1) c2(1) f s1(1) s2(1) c3(1) s3(1))
  then show ?thesis using q(1) c3(2) by blast
qed

text \<open>A positive answer is right whether or not the conjunction with the certified constraints
  still reads the variables of the candidate.\<close>

lemma mkAnd_vars: "mkAnd a b = createFalse \<or> isConstTrue a \<or> isConstTrue b \<and> mkAnd a b = a \<or> vars a \<subseteq> vars (mkAnd a b)"
  by (auto simp: mkAnd_def orderChildren_def createFalse_def)

lemma isInductiveInvariant_sound:
  assumes B: "soundBackend B" "completeBackend B" and cache: "supportCacheOk cache"
    and r: "isInductiveInvariant B p (Some candidate) t cache certified = Inr (True, cache')"
  shows "\<exists>Q. \<forall>env env'. \<not> leavingStep p Q (hypothesisOf candidate certified) candidate env env'"
proof (cases "vars candidate \<subseteq> vars (hypothesisOf candidate certified)")
  case True
  show ?thesis using isInductiveInvariant_exact [OF B cache True, of p t] r by auto
next
  case False
  then obtain c where c: "certified = Some c" by (auto simp: hypothesisOf_def split: option.splits)
  have "mkAnd candidate c = createFalse \<or> isConstTrue candidate"
    using mkAnd_vars [of candidate c] False by (auto simp: hypothesisOf_def c)
  moreover have "mkAnd candidate c \<noteq> createFalse" if "eval env candidate" "eval env c" for env
  proof
    assume "mkAnd candidate c = createFalse"
    then have "\<not> eval env (mkAnd candidate c)" by (simp only: eval_const not_False_eq_True)
    then show False using that by simp
  qed
  ultimately have "eval env candidate \<and> eval env c \<Longrightarrow> eval env' candidate" for env env' by auto
  then have "\<not> leavingStep p Q (hypothesisOf candidate certified) candidate env env'" for Q env env'
    by (auto simp: leavingStep_def hypothesisOf_def c)
  then show ?thesis by blast
qed

section \<open>Runs\<close>

text \<open>The runs of the problem: a legal initial valuation, then steps of the transition relation from
  valuations whose reset inputs are released into legal valuations.\<close>

inductive reachable :: "problem \<Rightarrow> (var_id \<Rightarrow> bool) \<Rightarrow> bool" for p where
  reach_init: "initHolds p env \<Longrightarrow> legalOn UNIV p env \<Longrightarrow> reachable p env"
| reach_step: "reachable p env \<Longrightarrow> resetOn UNIV p env \<Longrightarrow> stepHolds p env env' \<Longrightarrow> legalOn UNIV p env' \<Longrightarrow>
    reachable p env'"

lemma emplace_fold_entry:
  assumes "fold (\<lambda>(s, e). emplace s e) xs m t = Some e"
  shows "m t = Some e \<or> (t, e) \<in> set xs"
  using assms
proof (induction xs arbitrary: m)
  case (Cons x xs)
  then have "emplace (fst x) (snd x) m t = Some e \<or> (t, e) \<in> set xs" by (simp add: case_prod_beta)
  then show ?case by (cases x) (auto simp: emplace_def split: if_splits)
qed simp

lemma transitionMap_entry: "buildTransitionExprByStateSymbol p t = Some e \<Longrightarrow> (t, e) \<in> set (allTransitions p)"
  unfolding buildTransitionExprByStateSymbol_def allTransitions_def
  by (drule emplace_fold_entry, elim disjE, drule emplace_fold_entry, elim disjE, drule emplace_fold_entry) auto

lemma reachable_legal: "reachable p env \<Longrightarrow> legalOn UNIV p env"
  by (erule reachable.cases) auto

lemma legalOn_mono: "legalOn UNIV p env \<Longrightarrow> legalOn Q p env"
  by (simp add: legalOn_def pairsOn_def railsOn_def)

lemma step_targets:
  assumes "stepHolds p env env'"
  shows "targetsStep (set (formulaTargets p c)) (buildTransitionExprByStateSymbol p) env env'"
proof -
  have "env' t = eval env (the (buildTransitionExprByStateSymbol p t))" if t: "t \<in> set (formulaTargets p c)" for t
  proof -
    obtain e where e: "buildTransitionExprByStateSymbol p t = Some e"
      using t expandTransitionTargets_dom unfolding formulaTargets_def by blast
    then show ?thesis using transitionMap_entry [OF e] assms by (auto simp: stepHolds_def)
  qed
  then show ?thesis by (simp add: targetsStep_def)
qed

lemma invariant_reachable:
  assumes B: "soundBackend B" "completeBackend B" and cache: "supportCacheOk cache"
    and init: "buildProofInitFormula p = Some i" "initialFrontierImplies B (Some i) (Some candidate) t = Inr True"
    and step: "isInductiveInvariant B p (Some candidate) t cache certified = Inr (True, cache')"
    and cert: "\<And>c env. certified = Some c \<Longrightarrow> reachable p env \<Longrightarrow> eval env c"
    and run: "reachable p env"
  shows "eval env candidate"
  using run
proof (induction rule: reachable.induct)
  case (reach_init env)
  have "implies i candidate" using initialFrontierImplies_ok [OF B] init(2) by simp
  moreover have "eval env i" using initFormula_eval [of p] init(1) reach_init(1) by simp
  ultimately show ?case by (simp add: implies_def)
next
  case (reach_step env env')
  obtain Q where Q: "\<not> leavingStep p Q (hypothesisOf candidate certified) candidate env env'"
    using isInductiveInvariant_sound [OF B cache step] by blast
  have "eval env (hypothesisOf candidate certified)"
    using reach_step cert by (auto simp: hypothesisOf_def split: option.split)
  moreover have "resetOn Q p env" using reach_step(2) by (simp add: resetOn_def)
  ultimately show ?case
    using Q legalOn_mono [OF reachable_legal [OF reach_step(1)]] legalOn_mono [OF reach_step(4)] step_targets [OF reach_step(3)]
    unfolding leavingStep_def by blast
qed

lemma invariantExcludes_sound:
  assumes B: "soundBackend B" "completeBackend B"
    and r: "invariantExcludesBadStates B p (Some candidate) t certified = Inr True"
    and holds: "eval env candidate" "\<And>c. certified = Some c \<Longrightarrow> eval env c" "pb_bad p = Some bad"
  shows "\<not> eval env bad"
  using r holds isProofFormulaSatisfiable_ok [OF B]
  by (auto simp: invariantExcludesBadStates_def satisfiable_def Let_def split: option.splits)

text \<open>When the conjunction with the certified constraints folds to false, the query has no symbols, and
  the first transition equation of the candidate finds no frame variable.\<close>

definition statesPlain :: "problem \<Rightarrow> bool" where
  "statesPlain p = (\<forall>x \<in> buildCombinedStateSymbolSet p. 2 \<le> x)"

lemma falseQuery:
  assumes cache: "supportCacheOk cache" and reset: "pb_resetBootstrapCycles p = 0" and plain: "statesPlain p"
  shows "\<exists>c. inductiveInvariantQuerySymbols p (Some createFalse) (buildTransitionExprByStateSymbol p) cache = Inr ([], c) \<and>
    supportCacheOk c"
proof -
  obtain c where c: "cachedFormulaSupport (Some createFalse) cache = (buildFormulaSupportVector (Some createFalse), c)" "supportCacheOk c"
    using cachedFormulaSupport_ok [OF cache] by blast
  have v: "buildFormulaSupportVector (Some createFalse) = [0]" by (simp add: buildFormulaSupportVector_def createFalse_def mkVar_def)
  have "0 \<notin> buildCombinedStateSymbolSet p" using plain by (auto simp: statesPlain_def)
  then have none: "collectStateSupportSymbols p [0] = []" by (simp add: collectStateSupportSymbols_def)
  have pairs: "addRelevantComplementedStatePartners ps {} = {}" for ps
    unfolding addRelevantComplementedStatePartners_def by (induction ps) auto
  have rails: "addRelevantDualRailPartners rs {} = {}" for rs
    unfolding addRelevantDualRailPartners_def by (induction rs) auto
  have "expandTransitionTargets p [] tr = []" for tr by (simp add: expandTransitionTargets_def sortUniqueSymbols_def)
  then show ?thesis
    using c v none reset by (simp add: inductiveInvariantQuerySymbols_def addSupportSymbols_def addResetInputs_def pairs rails)
qed

lemma absorbed_throws:
  assumes cache: "supportCacheOk cache" and reset: "pb_resetBootstrapCycles p = 0" and plain: "statesPlain p"
    and target: "formulaTargets p candidate \<noteq> []" and folds: "mkAnd candidate c = createFalse"
  shows "\<exists>e. isInductiveInvariant B p (Some candidate) t cache (Some c) = Inl e"
proof (rule ccontr)
  assume "\<nexists>e. isInductiveInvariant B p (Some candidate) t cache (Some c) = Inl e"
  then obtain r where r: "isInductiveInvariant B p (Some candidate) t cache (Some c) = Inr r"
    by (cases "isInductiveInvariant B p (Some candidate) t cache (Some c)") auto
  let ?tr = "buildTransitionExprByStateSymbol p"
  obtain c1 where q: "inductiveInvariantQuerySymbols p (Some createFalse) ?tr cache = Inr ([], c1)" "supportCacheOk c1"
    using falseQuery [OF cache reset plain] by blast
  obtain c2 where c2: "cachedFormulaSupport (Some candidate) c1 = (buildFormulaSupportVector (Some candidate), c2)" "supportCacheOk c2"
    using cachedFormulaSupport_ok [OF q(2)] by blast
  obtain c3 where c3: "cachedFormulaSupport (Some createFalse) c2 = (buildFormulaSupportVector (Some createFalse), c3)"
    using cachedFormulaSupport_ok [OF c2(2)] by blast
  obtain fs s0 where f: "newFrameStore [] 2 (newSolver t) = (fs, s0)" by fastforce
  have none: "\<not> hasSymbol fs x" for x using newFrameStore_ok [OF f] by simp
  have h: "hypothesisOf candidate (Some c) = createFalse" using folds by (simp add: hypothesisOf_def)
  obtain s1 s2 where "addTransitionRelationForTargets fs p ?tr 0
      (collectStateSupportSymbols p (buildFormulaSupportVector (Some candidate))) s1 = Inr s2"
    using r by (auto simp: isInductiveInvariant_def Let_def h q(1) c2(1) c3 f bindE_Inr_iff split: prod.splits)
  then obtain en en' where fold: "foldE (transitionStep fs ?tr 0) (formulaTargets p candidate) en = Inr en'"
    by (auto simp: addTransitionRelationForTargets_def bindE_Inr_iff formulaTargets_def)
  obtain x where "x \<in> set (formulaTargets p candidate)" using target hd_in_set by blast
  then obtain u u' where "transitionStep fs ?tr 0 x u = Inr u'" using foldE_defined [OF fold] by blast
  then obtain l where "getLiteral fs x 1 = Inr l" by (auto simp: transitionStep_def bindE_Inr_iff simp del: getLiteral_Inr)
  then show False using none [of x] by (simp add: getLiteral_def hasSymbol_def del: getLiteral_Inr split: option.splits)
qed

lemma constant_targets: "statesPlain p \<Longrightarrow> isConstTrue e \<Longrightarrow> formulaTargets p e = []"
proof -
  assume plain: "statesPlain p" and e: "isConstTrue e"
  then have "vars e = {1}" by (cases e) (auto simp: isConstTrue_def)
  moreover have "1 \<notin> buildCombinedStateSymbolSet p"
  proof
    assume "1 \<in> buildCombinedStateSymbolSet p"
    then have "(2::var_id) \<le> 1" using plain unfolding statesPlain_def by blast
    then show False by (simp add: word_le_nat_alt)
  qed
  ultimately have "set (formulaTargets p e) = {}" by (auto simp: formulaTargets_def set_expandTransitionTargets)
  then show ?thesis by simp
qed

lemma absorbed_exactly:
  assumes B: "soundBackend B" "completeBackend B" and cache: "supportCacheOk cache"
    and p: "pb_resetBootstrapCycles p = 0" "statesPlain p" and target: "formulaTargets p candidate \<noteq> []"
  shows "(\<exists>e. isInductiveInvariant B p (Some candidate) t cache (Some c) = Inl e) \<longleftrightarrow> mkAnd candidate c = createFalse"
proof
  assume "\<exists>e. isInductiveInvariant B p (Some candidate) t cache (Some c) = Inl e"
  then have "\<not> vars candidate \<subseteq> vars (hypothesisOf candidate (Some c))"
    using isInductiveInvariant_exact [OF B cache, of candidate "Some c" p t] by auto
  moreover have "\<not> isConstTrue candidate" using constant_targets [OF p(2)] target by blast
  ultimately show "mkAnd candidate c = createFalse" using mkAnd_vars [of candidate c] by (auto simp: hypothesisOf_def)
qed (rule absorbed_throws [OF cache p target])

section \<open>A latch\<close>

text \<open>One state bit that keeps its value, starts at one and must not fall.\<close>

definition latchProblem :: problem where
  "latchProblem = emptyProblem\<lparr> pb_state0Symbols := [4], pb_allSymbols := [4], pb_transitions0 := [(4, BVar 4)],
     pb_initialCondition := Some createTrue, pb_initialStateAssignments := [(4, True)],
     pb_initializedStateCount := 1, pb_totalStateCount := 1, pb_bad := Some (BNot (BVar 4)) \<rparr>"

lemma latch_fields [simp]:
  "pb_complementedStatePairs0 latchProblem = []" "pb_complementedStatePairs1 latchProblem = []"
  "pb_dualRailStatePairs latchProblem = []" "pb_resetBootstrapCycles latchProblem = 0"
  "pb_bad latchProblem = Some (BNot (BVar 4))" "allTransitions latchProblem = [(4, BVar 4)]"
  by (simp_all add: latchProblem_def emptyProblem_def allTransitions_def)

lemma latch_transitions: "buildTransitionExprByStateSymbol latchProblem = [4 \<mapsto> BVar 4]"
  by (simp add: buildTransitionExprByStateSymbol_def latchProblem_def emptyProblem_def emplace_def)

lemma latch_states: "buildCombinedStateSymbolSet latchProblem = {4}"
  by (simp add: buildCombinedStateSymbolSet_def latchProblem_def emptyProblem_def)

lemma latch_targets: "formulaTargets latchProblem (BVar 4) = [4]"
  by (simp add: formulaTargets_def latch_transitions buildFormulaSupportVector_def collectStateSupportSymbols_def
      latch_states expandTransitionTargets_def expandTarget_def sortUniqueSymbols_def)

lemma latch_holds: "\<not> leavingStep latchProblem Q (BVar 4) (BVar 4) env env'"
  by (simp add: leavingStep_def latch_targets latch_transitions targetsStep_def)

end
