(* ===== verification/Induction_Coi.thy ===== *)
theory Induction_Coi
  imports Transition_Resolver
begin

unbundle bit_operations_syntax

text \<open>
  The cone of influence of the induction step (\<open>sec/kinduction/InductionStepSolver.cpp\<close>): starting
  from the formulas asserted at each frame, \<open>buildInductionCoi\<close> walks the frames backwards and
  keeps the transition targets each frame needs, the symbols those transitions read, and all symbols
  of the SAT instance.  Transition supports are memoised in a cache that outlives the query, keyed by
  a hash of the targets and guarded by a signature of the problem.
\<close>

section \<open>The transition support cache\<close>

record support_entry =
  se_targets :: "var_id list"
  se_stateSupport :: "var_id list"
  se_nonStateSupport :: "var_id list"

definition entryMatches :: "support_entry \<Rightarrow> var_id list \<Rightarrow> bool" where
  "entryMatches e candidateTargets = (se_targets e = candidateTargets)"

definition symbolCount :: "support_entry \<Rightarrow> nat" where
  "symbolCount e = length (se_targets e) + length (se_stateSupport e) + length (se_nonStateSupport e)"

definition appendTo :: "support_entry \<Rightarrow> var_id set \<times> var_id set \<Rightarrow> var_id set \<times> var_id set" where
  "appendTo e outputs = (fst outputs \<union> set (se_stateSupport e), snd outputs \<union> set (se_nonStateSupport e))"

record induction_cache =
  ic_signature :: u64
  ic_entryCount :: nat
  ic_cachedSymbolCount :: nat
  ic_entries :: "u64 \<Rightarrow> support_entry list"

definition emptyInductionCache :: induction_cache where
  "emptyInductionCache = \<lparr> ic_signature = 0, ic_entryCount = 0, ic_cachedSymbolCount = 0, ic_entries = (\<lambda>_. []) \<rparr>"

definition kMaxEntries :: nat where
  "kMaxEntries = 8192"

definition kMaxCachedSymbols :: nat where
  "kMaxCachedSymbols = 4 * 1024 * 1024"

definition resetForSignature :: "u64 \<Rightarrow> induction_cache \<Rightarrow> induction_cache" where
  "resetForSignature newSignature c =
    (if ic_signature c = newSignature then c
     else \<lparr> ic_signature = newSignature, ic_entryCount = 0, ic_cachedSymbolCount = 0, ic_entries = (\<lambda>_. []) \<rparr>)"

definition findEntry :: "u64 \<Rightarrow> var_id list \<Rightarrow> induction_cache \<Rightarrow> support_entry option" where
  "findEntry targetHash targets c = find (\<lambda>e. entryMatches e targets) (ic_entries c targetHash)"

definition storeEntry :: "u64 \<Rightarrow> var_id list \<Rightarrow> var_id set \<Rightarrow> var_id set \<Rightarrow> induction_cache \<Rightarrow> induction_cache" where
  "storeEntry targetHash targets stateSupport nonStateSupport c =
    (let e = \<lparr> se_targets = targets, se_stateSupport = sorted_list_of_set stateSupport,
           se_nonStateSupport = sorted_list_of_set nonStateSupport \<rparr>
     in if kMaxEntries \<le> ic_entryCount c \<or> kMaxCachedSymbols < ic_cachedSymbolCount c + symbolCount e then c
        else c\<lparr> ic_entries := (ic_entries c)(targetHash := ic_entries c targetHash @ [e]),
                ic_entryCount := ic_entryCount c + 1,
                ic_cachedSymbolCount := ic_cachedSymbolCount c + symbolCount e \<rparr>)"

definition mixHashValue :: "u64 \<Rightarrow> u64 \<Rightarrow> u64" where
  "mixHashValue seed v = seed XOR (v + 0x9e3779b97f4a7c15 + push_bit 6 seed + drop_bit 2 seed)"

definition hashSymbols :: "var_id list \<Rightarrow> u64" where
  "hashSymbols symbols = fold (\<lambda>symbol seed. mixHashValue seed symbol) symbols (of_nat (length symbols))"

text \<open>The signature hashes the addresses of the problem's lazy store and vectors, which are a
  parameter.\<close>

record problem_addresses =
  ad_lazy :: u64
  ad_transitions0 :: u64
  ad_transitions1 :: u64
  ad_state0 :: u64
  ad_state1 :: u64

definition transitionSupportCacheSignature :: "problem_addresses \<Rightarrow> problem \<Rightarrow> u64" where
  "transitionSupportCacheSignature ad p =
    foldl mixHashValue (ad_lazy ad)
      [of_nat (length (pb_transitions0 p)), ad_transitions0 ad,
       of_nat (length (pb_transitions1 p)), ad_transitions1 ad,
       of_nat (length (pb_state0Symbols p)), ad_state0 ad,
       of_nat (length (pb_state1Symbols p)), ad_state1 ad]"

definition transitionSupportCacheForProblem :: "problem_addresses \<Rightarrow> problem \<Rightarrow> induction_cache option \<Rightarrow> induction_cache" where
  "transitionSupportCacheForProblem ad p cache =
    resetForSignature (transitionSupportCacheSignature ad p)
      (case cache of None \<Rightarrow> emptyInductionCache | Some c \<Rightarrow> c)"

definition collectTransitionSupportWithCache :: "problem_addresses \<Rightarrow> problem \<Rightarrow> var_id list \<Rightarrow> var_id set \<Rightarrow>
    var_id set \<times> var_id set \<Rightarrow> resolver \<times> induction_cache option \<Rightarrow>
    error + (var_id set \<times> var_id set) \<times> resolver \<times> induction_cache option" where
  "collectTransitionSupportWithCache ad p targets stateSymbols outputs rc =
    (if targets = [] then Inr (outputs, rc)
     else let cache = transitionSupportCacheForProblem ad p (snd rc);
              targetHash = hashSymbols targets
          in case findEntry targetHash targets cache of
               Some e \<Rightarrow> Inr (appendTo e outputs, fst rc, Some cache)
             | None \<Rightarrow>
                 bindE (collectSupportForTargets targets stateSymbols ({}, {}) (fst rc)) (\<lambda>((stateSupport, nonStateSupport), r).
                   Inr ((fst outputs \<union> stateSupport, snd outputs \<union> nonStateSupport), r,
                     Some (storeEntry targetHash targets stateSupport nonStateSupport cache))))"

section \<open>The cone\<close>

definition buildStateSymbolSet :: "problem \<Rightarrow> var_id set" where
  "buildStateSymbolSet p = set (pb_state0Symbols p) \<union> set (pb_state1Symbols p)"

definition buildPrimaryByComplementSymbol :: "problem \<Rightarrow> var_id \<rightharpoonup> var_id" where
  "buildPrimaryByComplementSymbol p =
    fold (\<lambda>(primary, complemented). emplace complemented primary) (pb_complementedStatePairs1 p)
      (fold (\<lambda>(primary, complemented). emplace complemented primary) (pb_complementedStatePairs0 p) Map.empty)"

definition mergeTransitionSupportForEncoding :: "var_id set \<Rightarrow> var_id set \<Rightarrow> var_id list" where
  "mergeTransitionSupportForEncoding stateSupport nonStateSupport = sorted_list_of_set (stateSupport \<union> nonStateSupport)"

definition addFormulaStateSupport :: "bexpr option \<Rightarrow> var_id set \<Rightarrow> var_id set \<Rightarrow> var_id set" where
  "addFormulaStateSupport formula stateSymbols output =
    (case formula of None \<Rightarrow> output | Some f \<Rightarrow> output \<union> (getSupportVars f \<inter> stateSymbols))"

definition addFormulaSupport :: "bexpr option \<Rightarrow> var_id set \<Rightarrow> var_id set" where
  "addFormulaSupport formula output =
    (case formula of None \<Rightarrow> output | Some f \<Rightarrow> output \<union> {x \<in> getSupportVars f. 2 \<le> x})"

definition expandInductionTarget :: "resolver \<Rightarrow> (var_id \<rightharpoonup> var_id) \<Rightarrow> var_id \<Rightarrow> var_id set" where
  "expandInductionTarget r primaries symbol =
    (if resolverContains symbol r then {symbol}
     else case primaries symbol of
       None \<Rightarrow> {}
     | Some primary \<Rightarrow> if resolverContains primary r then {primary} else {})"

definition expandInductionTargets :: "var_id set \<Rightarrow> resolver \<Rightarrow> (var_id \<rightharpoonup> var_id) \<Rightarrow> var_id list" where
  "expandInductionTargets requested r primaries =
    sorted_list_of_set (\<Union>symbol \<in> requested. expandInductionTarget r primaries symbol)"

definition addComplementPartners :: "(var_id \<times> var_id) list \<Rightarrow> var_id set \<Rightarrow> var_id set" where
  "addComplementPartners pairs symbols =
    fold (\<lambda>(primary, complemented) S.
      if primary \<in> S \<or> complemented \<in> S then insert complemented (insert primary S) else S) pairs symbols"

definition addRailPartners :: "rail_pair list \<Rightarrow> var_id set \<Rightarrow> var_id set" where
  "addRailPartners pairs symbols =
    fold (\<lambda>rp S. if railOne rp \<in> S \<or> railZero rp \<in> S then insert (railZero rp) (insert (railOne rp) S) else S)
      pairs symbols"

definition addPostBootstrapResetInputSymbols :: "problem \<Rightarrow> var_id set \<Rightarrow> var_id set" where
  "addPostBootstrapResetInputSymbols p symbols =
    (if pb_resetBootstrapCycles p = 0 then symbols
     else fold (\<lambda>(symbol, _). insert symbol) (pb_resetBootstrapInputs p) symbols)"

text \<open>One pass over the equality pairs, and the loop that repeats it while it inserts.\<close>

definition closePass :: "(var_id \<times> var_id) list \<Rightarrow> var_id set \<Rightarrow> var_id set" where
  "closePass pairs symbols =
    fold (\<lambda>(lhs, rhs) S. if lhs \<notin> S \<and> rhs \<notin> S then S else insert rhs (insert lhs S)) pairs symbols"

lemma closePass_mono: "S \<subseteq> closePass pairs S"
proof -
  have "S \<subseteq> T \<Longrightarrow> S \<subseteq> closePass pairs T" for T
    unfolding closePass_def
    by (induction pairs arbitrary: T) (simp, simp add: case_prod_beta subset_insertI2 split: if_splits)
  then show ?thesis by blast
qed

function closeStateEqualityDependencies :: "(var_id \<times> var_id) list \<Rightarrow> var_id set \<Rightarrow> var_id set" where
  "closeStateEqualityDependencies pairs symbols =
    (let symbols' = closePass pairs symbols
     in if symbols' = symbols then symbols' else closeStateEqualityDependencies pairs symbols')"
  by pat_completeness auto
termination
proof (relation "measure (\<lambda>(pairs, symbols). card (- symbols))")
  fix pairs :: "(var_id \<times> var_id) list" and symbols symbols' :: "var_id set"
  assume "symbols' = closePass pairs symbols" "symbols' \<noteq> symbols"
  then have "- symbols' \<subset> - symbols" using closePass_mono [of symbols pairs] by blast
  then show "((pairs, symbols'), pairs, symbols) \<in> measure (\<lambda>(pairs, symbols). card (- symbols))"
    by (simp add: psubset_card_mono)
qed simp

declare closeStateEqualityDependencies.simps [simp del]

definition closeSameFrameStateEqualityDependencies :: "problem \<Rightarrow> var_id set \<Rightarrow> var_id set" where
  "closeSameFrameStateEqualityDependencies p symbols =
    closeStateEqualityDependencies (pb_sameFrameStateEqualityPairs1 p)
      (closeStateEqualityDependencies (pb_sameFrameStateEqualityPairs0 p) symbols)"

record induction_coi =
  co_targets :: "var_id list list"
  co_support :: "var_id list list"
  co_relevant :: "var_id list"
  co_symbols :: "var_id list"
  co_symbolSet :: "var_id set"

record coi_loop =
  cl_required :: "var_id set list"
  cl_targets :: "var_id list list"
  cl_support :: "var_id list list"
  cl_symbols :: "var_id set"
  cl_resolver :: resolver
  cl_cache :: "induction_cache option"

definition coiFrame :: "problem_addresses \<Rightarrow> problem \<Rightarrow> var_id set \<Rightarrow> (var_id \<rightharpoonup> var_id) \<Rightarrow> nat \<Rightarrow> coi_loop \<Rightarrow>
    error + coi_loop" where
  "coiFrame ad p stateSymbols primaries frame st =
    (let required = (cl_required st)[frame := closeSameFrameStateEqualityDependencies p (cl_required st ! frame)];
         targets = expandInductionTargets (required ! frame) (cl_resolver st) primaries
     in bindE (collectTransitionSupportWithCache ad p targets stateSymbols ({}, {}) (cl_resolver st, cl_cache st))
       (\<lambda>((stateSupport, nonStateSupport), r, c).
         Inr \<lparr> cl_required = required[frame - 1 := required ! (frame - 1) \<union> stateSupport],
               cl_targets = (cl_targets st)[frame - 1 := targets],
               cl_support = (cl_support st)[frame - 1 := mergeTransitionSupportForEncoding stateSupport nonStateSupport],
               cl_symbols = cl_symbols st \<union> nonStateSupport,
               cl_resolver = r, cl_cache = c \<rparr>))"

definition initialCoi :: "problem \<Rightarrow> bexpr option \<Rightarrow> bexpr option \<Rightarrow> nat \<Rightarrow> resolver \<Rightarrow> induction_cache option \<Rightarrow> coi_loop" where
  "initialCoi p inductionProperty inductionBad k r c =
    \<lparr> cl_required = replicate k (addFormulaStateSupport inductionProperty (buildStateSymbolSet p) {}) @
        [addFormulaStateSupport inductionBad (buildStateSymbolSet p) {}],
      cl_targets = replicate k [], cl_support = replicate k [], cl_symbols = {}, cl_resolver = r, cl_cache = c \<rparr>"

definition coiSymbols :: "problem \<Rightarrow> var_id set \<Rightarrow> var_id set" where
  "coiSymbols p symbols =
    addPostBootstrapResetInputSymbols p
      (addRailPartners (pb_dualRailStatePairs p)
        (closeSameFrameStateEqualityDependencies p
          (addComplementPartners (pb_complementedStatePairs1 p)
            (addComplementPartners (pb_complementedStatePairs0 p) symbols))))"

definition buildInductionCoi :: "problem_addresses \<Rightarrow> problem \<Rightarrow> bexpr option \<Rightarrow> bexpr option \<Rightarrow> nat \<Rightarrow>
    induction_cache option \<Rightarrow> error + induction_coi \<times> resolver \<times> induction_cache option" where
  "buildInductionCoi ad p inductionProperty inductionBad k cache =
    bindE (foldE (coiFrame ad p (buildStateSymbolSet p) (buildPrimaryByComplementSymbol p)) (rev [1..<k + 1])
        (initialCoi p inductionProperty inductionBad k (newResolver p) cache))
      (\<lambda>st.
        let required = (cl_required st)[0 := closeSameFrameStateEqualityDependencies p (cl_required st ! 0)];
            relevant = \<Union> (set required) \<union> \<Union> (set (map set (cl_targets st)));
            symbols = coiSymbols p (addFormulaSupport inductionBad (addFormulaSupport inductionProperty {}) \<union>
              relevant \<union> cl_symbols st)
        in Inr (\<lparr> co_targets = cl_targets st, co_support = cl_support st,
                  co_relevant = sorted_list_of_set relevant, co_symbols = sorted_list_of_set symbols,
                  co_symbolSet = set (sorted_list_of_set symbols) \<rparr>, cl_resolver st, cl_cache st))"

end
