(* ===== verification/Induction_Step.thy ===== *)
theory Induction_Step
  imports Induction_Coi Invariant_Check
begin

text \<open>
  The k-induction step of \<open>sec/kinduction/InductionStepSolver.cpp\<close>: \<open>proveByInductionStatus\<close> asks
  for a window of k + 1 legal frames whose first k frames satisfy the induction property and whose
  last frame is bad.  The calls that set search options of the solver are recorded as a list of
  profiles; the answers of the solver do not depend on them beyond what any sound back end may do.
  The limit read from the process environment is a parameter.
\<close>

section \<open>Limits and profiles\<close>

definition kMaxSimplePathStateSymbols :: nat where
  "kMaxSimplePathStateSymbols = 4096"

definition kMinOriginalOutputsForCompactDualRailProfile :: nat where
  "kMinOriginalOutputsForCompactDualRailProfile = 64"

definition kMinDeferredRailStateSymbolsForDirectProfile :: nat where
  "kMinDeferredRailStateSymbolsForDirectProfile = 512"

definition kMaxExactTransitionNodeCountHintTargets :: nat where
  "kMaxExactTransitionNodeCountHintTargets = 2048"

definition kMaxTransitionNodeCountHint :: nat where
  "kMaxTransitionNodeCountHint = 262144"

definition kDefaultDualRailLeafInductionDecisionLimit :: "32 word" where
  "kDefaultDualRailLeafInductionDecisionLimit = 5000"

definition kDirectDualRailProofProfileSymbolFloor :: nat where
  "kDirectDualRailProofProfileSymbolFloor = 4096"

definition dualRailStateSymbolCount :: "problem \<Rightarrow> nat" where
  "dualRailStateSymbolCount p =
    (if pb_dualRailStatePairs p \<noteq> [] then length (pb_dualRailStatePairs p) * 2
     else length (pb_state0Symbols p) + length (pb_state1Symbols p))"

definition originalOutputCountForProblem :: "problem \<Rightarrow> nat" where
  "originalOutputCountForProblem p =
    (if pb_originalObservedOutputCount p = 0 then length (pb_observedOutputExprs0 p)
     else pb_originalObservedOutputCount p)"

definition isLargeDeferredDualRailLeafSurface :: "problem \<Rightarrow> bool" where
  "isLargeDeferredDualRailLeafSurface p =
    (pb_deferBaseCaseChecks p \<and> kMinDeferredRailStateSymbolsForDirectProfile \<le> dualRailStateSymbolCount p)"

definition directInductionDecisionLimit :: "32 word option \<Rightarrow> problem \<Rightarrow> solver_type \<Rightarrow> 32 word option" where
  "directInductionDecisionLimit envLimit p solverType =
    (if \<not> pb_usesDualRailStateEncoding p \<or> 1 < length (pb_observedOutputExprs0 p) \<or> solverType \<noteq> KISSAT then None
     else case envLimit of
       Some limit \<Rightarrow> Some limit
     | None \<Rightarrow>
        if originalOutputCountForProblem p < kMinOriginalOutputsForCompactDualRailProfile \<and>
           \<not> isLargeDeferredDualRailLeafSurface p
        then None else Some kDefaultDualRailLeafInductionDecisionLimit)"

definition shouldUseDirectDualRailLimitedProofProfile :: "problem \<Rightarrow> solver_type \<Rightarrow> 32 word option \<Rightarrow> bool" where
  "shouldUseDirectDualRailLimitedProofProfile p solverType limit =
    (pb_usesDualRailStateEncoding p \<and> solverType = KISSAT \<and> (case limit of None \<Rightarrow> False | Some l \<Rightarrow> 0 < l))"

definition isWideDualRailResidualSurface :: "problem \<Rightarrow> bool" where
  "isWideDualRailResidualSurface p =
    (kMinOriginalOutputsForCompactDualRailProfile \<le> originalOutputCountForProblem p)"

definition directDualRailProofProfileSymbols :: "problem \<Rightarrow> nat \<Rightarrow> nat" where
  "directDualRailProofProfileSymbols p solverSymbols =
    (if pb_deferBaseCaseChecks p then max solverSymbols kDirectDualRailProofProfileSymbolFloor
     else if \<not> isWideDualRailResidualSurface p \<and> \<not> isLargeDeferredDualRailLeafSurface p then solverSymbols
     else max solverSymbols kDirectDualRailProofProfileSymbolFloor)"

definition shouldUseDirectCdclProfileForCompactDualRailQuery :: "problem \<Rightarrow> bool" where
  "shouldUseDirectCdclProfileForCompactDualRailQuery p =
    (pb_usesDualRailStateEncoding p \<and> dualRailStateSymbolCount p < kMinDeferredRailStateSymbolsForDirectProfile)"

definition shouldUseDirectCdclProfileForLimitedDualRailLeaf :: "problem \<Rightarrow> bool" where
  "shouldUseDirectCdclProfileForLimitedDualRailLeaf p = isLargeDeferredDualRailLeafSurface p"

datatype solver_profile = SecConeProof nat | SecDualRailConeProof nat | SecLocalBooleanCheck nat

definition inductionProfiles :: "problem \<Rightarrow> solver_type \<Rightarrow> 32 word option \<Rightarrow> nat \<Rightarrow> bool \<Rightarrow> solver_profile list" where
  "inductionProfiles p solverType limit solverSymbols addSimplePath =
    (if shouldUseDirectDualRailLimitedProofProfile p solverType limit
     then let profileSymbols = directDualRailProofProfileSymbols p solverSymbols in
       SecDualRailConeProof profileSymbols #
         (if shouldUseDirectCdclProfileForLimitedDualRailLeaf p then [SecLocalBooleanCheck profileSymbols] else [])
     else if pb_usesDualRailStateEncoding p
     then let profileSymbols =
                (if pb_deferBaseCaseChecks p then directDualRailProofProfileSymbols p solverSymbols else solverSymbols) in
       SecDualRailConeProof profileSymbols #
         (if shouldUseDirectCdclProfileForCompactDualRailQuery p \<and> \<not> addSimplePath
          then [SecLocalBooleanCheck profileSymbols] else [])
     else [SecConeProof solverSymbols])"

definition shouldAddSimplePathConstraint :: "problem \<Rightarrow> induction_coi \<Rightarrow> bool" where
  "shouldAddSimplePathConstraint p coi =
    (if \<not> pb_usesDualRailStateEncoding p then length (co_relevant coi) \<le> kMaxSimplePathStateSymbols
     else length (co_relevant coi) \<le> kMaxSimplePathStateSymbols)"

definition boundedAddForReserveHint :: "nat \<Rightarrow> nat \<Rightarrow> nat \<Rightarrow> nat" where
  "boundedAddForReserveHint lhs rhs limit =
    (if limit \<le> lhs \<or> limit - lhs \<le> rhs then limit else lhs + rhs)"

definition transitionRelationNodeReserveHint :: "var_id list \<Rightarrow> var_id list \<Rightarrow> resolver \<Rightarrow> error + nat \<times> resolver" where
  "transitionRelationNodeReserveHint targets supportSymbols r =
    (if kMaxExactTransitionNodeCountHintTargets < length targets then Inr (length supportSymbols, r)
     else bindE (foldE (\<lambda>s (hint, r). bindE (transitionNodeCount s r) (\<lambda>(n, r').
            Inr (boundedAddForReserveHint hint n kMaxTransitionNodeCountHint, r'))) targets (0, r))
       (\<lambda>(hint, r'). Inr (max (length supportSymbols) hint, r')))"

section \<open>Constraints\<close>

definition complementPairStep :: "var_id set \<Rightarrow> frame_store \<Rightarrow> nat \<Rightarrow> var_id \<times> var_id \<Rightarrow> solver \<Rightarrow> error + solver" where
  "complementPairStep Q fs frame pc s =
    (if fst pc \<notin> Q \<or> snd pc \<notin> Q then Inr s
     else bindE (getLiteral fs (snd pc) frame) (\<lambda>c. bindE (getLiteral fs (fst pc) frame) (\<lambda>q.
       addLiteralEquivalence c (- q) s)))"

definition addInductionComplements :: "var_id set \<Rightarrow> frame_store \<Rightarrow> (var_id \<times> var_id) list \<Rightarrow> nat \<Rightarrow> solver \<Rightarrow>
    error + solver" where
  "addInductionComplements Q fs pairs numFrames = foldE (\<lambda>frame. foldE (complementPairStep Q fs frame) pairs) [0..<numFrames]"

definition equalityStep :: "var_id set \<Rightarrow> frame_store \<Rightarrow> nat \<Rightarrow> var_id \<times> var_id \<Rightarrow> solver \<Rightarrow> error + solver" where
  "equalityStep Q fs frame ab s =
    (if fst ab \<notin> Q \<or> snd ab \<notin> Q then Inr s
     else bindE (getLiteral fs (fst ab) frame) (\<lambda>a. bindE (getLiteral fs (snd ab) frame) (\<lambda>b.
       addLiteralEquivalence a b s)))"

definition addSameFrameStateEqualities :: "var_id set \<Rightarrow> frame_store \<Rightarrow> problem \<Rightarrow> nat \<Rightarrow> solver \<Rightarrow> error + solver" where
  "addSameFrameStateEqualities Q fs p numFrames s =
    bindE (foldE (\<lambda>frame. foldE (equalityStep Q fs frame) (pb_sameFrameStateEqualityPairs0 p)) [0..<numFrames] s)
      (foldE (\<lambda>frame. foldE (equalityStep Q fs frame) (pb_sameFrameStateEqualityPairs1 p)) [0..<numFrames])"

definition railClauseStep :: "var_id set \<Rightarrow> frame_store \<Rightarrow> nat \<Rightarrow> rail_pair \<Rightarrow> solver \<Rightarrow> error + solver" where
  "railClauseStep Q fs frame rp s =
    (if railOne rp \<notin> Q \<or> railZero rp \<notin> Q then Inr s
     else bindE (getLiteral fs (railOne rp) frame) (\<lambda>one. bindE (getLiteral fs (railZero rp) frame) (\<lambda>zero.
       addClause [one, zero] s)))"

definition addInductionRailValidity :: "var_id set \<Rightarrow> frame_store \<Rightarrow> rail_pair list \<Rightarrow> nat \<Rightarrow> solver \<Rightarrow> error + solver" where
  "addInductionRailValidity Q fs pairs numFrames = foldE (\<lambda>frame. foldE (railClauseStep Q fs frame) pairs) [0..<numFrames]"

definition resetInputFrames :: "frame_store \<Rightarrow> nat \<Rightarrow> var_id \<times> bool \<Rightarrow> solver \<Rightarrow> error + solver" where
  "resetInputFrames fs numFrames input s =
    (if \<not> hasSymbol fs (fst input) then Inr s
     else foldE (\<lambda>frame u. bindE (getLiteral fs (fst input) frame)
            (\<lambda>l. addClause [if snd input then - l else l] u)) [0..<numFrames] s)"

definition addResetInputConstraints :: "frame_store \<Rightarrow> problem \<Rightarrow> nat \<Rightarrow> solver \<Rightarrow> error + solver" where
  "addResetInputConstraints fs p numFrames s =
    (if pb_resetBootstrapCycles p = 0 then Inr s
     else foldE (resetInputFrames fs numFrames) (pb_resetBootstrapInputs p) s)"

definition targetEquation :: "frame_store \<Rightarrow> nat \<Rightarrow> var_id \<Rightarrow> encoder \<times> resolver \<Rightarrow> error + encoder \<times> resolver" where
  "targetEquation fs frame symbol er =
    bindE (transitionAt symbol (snd er)) (\<lambda>(expr, r).
    bindE (getLiteral fs symbol (frame + 1)) (\<lambda>lit.
    bindE (encode expr (fst er)) (\<lambda>(l, en).
    bindE (addLiteralEquivalence lit l (en_solver en)) (\<lambda>s. Inr (en\<lparr> en_solver := s \<rparr>, r)))))"

definition addTransitionRelation :: "frame_store \<Rightarrow> var_id list \<Rightarrow> var_id list \<Rightarrow> nat \<Rightarrow> solver \<times> resolver \<Rightarrow>
    error + solver \<times> resolver" where
  "addTransitionRelation fs targets supportSymbols frame sr =
    bindE (transitionRelationNodeReserveHint targets supportSymbols (snd sr)) (\<lambda>(reserveHint, r).
    bindE (makeLeafLits fs frame supportSymbols) (\<lambda>leaves.
    bindE (foldE (targetEquation fs frame) targets (newEncoder (fst sr) leaves None False reserveHint, r)) (\<lambda>(en, r').
    Inr (en_solver en, r'))))"

definition assertFrameFormula :: "frame_store \<Rightarrow> bexpr \<Rightarrow> nat \<Rightarrow> solver \<Rightarrow> error + solver" where
  "assertFrameFormula fs formula frame s =
    bindE (makeLeafLitsOfSet fs frame (getSupportVars formula)) (\<lambda>leaves.
      encodeAndAssert formula (newEncoder s leaves None False 0))"

section \<open>The step\<close>

definition inductionSideConstraints :: "induction_coi \<Rightarrow> frame_store \<Rightarrow> problem \<Rightarrow> nat \<Rightarrow> solver \<Rightarrow> error + solver" where
  "inductionSideConstraints coi fs p k s =
    (let Q = co_symbolSet coi in
     bindE (addInductionComplements Q fs (pb_complementedStatePairs0 p) (k + 1) s) (\<lambda>s1.
     bindE (addInductionComplements Q fs (pb_complementedStatePairs1 p) (k + 1) s1) (\<lambda>s2.
     bindE (addSameFrameStateEqualities Q fs p (k + 1) s2) (\<lambda>s3.
     bindE (addInductionRailValidity Q fs (pb_dualRailStatePairs p) (k + 1) s3) (\<lambda>s4.
     addResetInputConstraints fs p (k + 1) s4)))))"

definition assertWindow :: "induction_coi \<Rightarrow> frame_store \<Rightarrow> problem \<Rightarrow> bexpr \<Rightarrow> bexpr \<Rightarrow> nat \<Rightarrow> solver \<times> resolver \<Rightarrow>
    error + solver" where
  "assertWindow coi fs p inductionProperty inductionBad k sr =
    bindE (foldE (\<lambda>frame. addTransitionRelation fs (co_targets coi ! frame) (co_support coi ! frame) frame) [0..<k] sr)
      (\<lambda>(s1, _).
    bindE (foldE (assertFrameFormula fs inductionProperty) [0..<k] s1) (\<lambda>s2.
    bindE (if shouldAddSimplePathConstraint p coi
           then addSimplePathConstraint fs (co_relevant coi) 0 (k + 1) s2 else Inr s2) (\<lambda>s3.
    assertFrameFormula fs inductionBad k s3)))"

datatype induction_status = Proved | NotProved | InductionUnknown

primrec statusOfAnswer :: "solve_status \<Rightarrow> induction_status" where
  "statusOfAnswer Unsat = Proved"
| "statusOfAnswer Sat = NotProved"
| "statusOfAnswer Unknown = InductionUnknown"

definition solveWindow :: "backend \<Rightarrow> 32 word option \<Rightarrow> solver \<Rightarrow> error + solve_status" where
  "solveWindow B limit s =
    (case limit of
       None \<Rightarrow> Inr (solveStatus B s)
     | Some l \<Rightarrow>
        if sv_type s = KISSAT then bindE (solveWithKissatResourceLimits B (- 1) l s) (\<lambda>(st, _). Inr st)
        else if sv_type s = CADICAL
        then bindE (solveWithAssumptionsStatus B [] (uint l) (uint l) (- 1) s) (\<lambda>(st, _). Inr st)
        else Inr (solveStatus B s))"

text \<open>The property and the bad formula the step uses.\<close>

definition inductionPropertyOf :: "problem \<Rightarrow> bexpr option" where
  "inductionPropertyOf p = (if pb_inductionProperty p \<noteq> None then pb_inductionProperty p else pb_property p)"

definition inductionBadOf :: "problem \<Rightarrow> bexpr option" where
  "inductionBadOf p = (if pb_inductionBad p \<noteq> None then pb_inductionBad p else pb_bad p)"

text \<open>A problem without both formulas makes the code follow a null pointer; the model answers with an
  error there.\<close>

definition proveByInductionStatus :: "backend \<Rightarrow> problem_addresses \<Rightarrow> problem \<Rightarrow> solver_type \<Rightarrow> nat \<Rightarrow> 32 word option \<Rightarrow>
    induction_cache option \<Rightarrow> error + induction_status \<times> induction_cache option" where
  "proveByInductionStatus B ad p solverType k limit cache =
    bindE (buildInductionCoi ad p (inductionPropertyOf p) (inductionBadOf p) k cache) (\<lambda>(coi, r, cache').
      case (inductionPropertyOf p, inductionBadOf p) of
        (Some inductionProperty, Some inductionBad) \<Rightarrow>
          (case newFrameStore (co_symbols coi) (k + 1) (newSolver solverType) of (fs, s0) \<Rightarrow>
            bindE (inductionSideConstraints coi fs p k s0) (\<lambda>s1.
            bindE (assertWindow coi fs p inductionProperty inductionBad k (s1, newResolver (tr_problem r))) (\<lambda>s2.
            bindE (solveWindow B limit s2) (\<lambda>st. Inr (statusOfAnswer st, cache')))))
      | _ \<Rightarrow> Inl (Logic_Error ''null induction formula''))"

definition provesByInduction :: "backend \<Rightarrow> problem_addresses \<Rightarrow> 32 word option \<Rightarrow> problem \<Rightarrow> solver_type \<Rightarrow> nat \<Rightarrow>
    induction_cache option \<Rightarrow> error + bool \<times> induction_cache option" where
  "provesByInduction B ad envLimit p solverType k cache =
    bindE (proveByInductionStatus B ad p solverType k (directInductionDecisionLimit envLimit p solverType) cache)
      (\<lambda>(st, cache'). Inr (st = Proved, cache'))"

end
