(* ===== verification/Resolver_Session.thy ===== *)
theory Resolver_Session
  imports Transition_Correct
begin

text \<open>
  A session of calls on the transition resolver.  Every accessor keeps the resolver's invariant,
  its sources and all of the problem but the caches of the lazy store (\<open>session\<close>), so what a state
  symbol resolves to (\<open>resolvedTo\<close>) is the same before, during and after any sequence of calls, also
  for a resolver constructed afterwards over the same problem.
\<close>

section \<open>Sessions\<close>

definition staticProblem :: "resolver \<Rightarrow> problem" where
  "staticProblem r = (tr_problem r)\<lparr> pb_lazyTransitions := None \<rparr>"

definition session :: "resolver \<Rightarrow> resolver \<Rightarrow> bool" where
  "session r r' = (resolverInv r' \<and> sameSources r r' \<and> staticProblem r' = staticProblem r)"

lemma session_refl: "resolverInv r \<Longrightarrow> session r r"
  by (simp add: session_def)

lemma session_trans: "session a b \<Longrightarrow> session b c \<Longrightarrow> session a c"
  using sameSources_trans by (auto simp: session_def)

lemma staticProblem_simps [simp]:
  "staticProblem (putStore st r) = staticProblem r"
  "staticProblem (r\<lparr> tr_support := a \<rparr>) = staticProblem r"
  "staticProblem (r\<lparr> tr_nodeCount := b \<rparr>) = staticProblem r"
  "staticProblem (r\<lparr> tr_postorder := c \<rparr>) = staticProblem r"
  by (simp_all add: staticProblem_def putStore_def)

lemma memosOk_caches [simp]:
  "memosOk (st\<lparr> ls_support := m \<rparr>) = memosOk st" "memosOk (st\<lparr> ls_nodeCount := n \<rparr>) = memosOk st"
proof -
  have "designRails (st\<lparr> ls_support := m \<rparr>) = designRails st" "resolves (st\<lparr> ls_support := m \<rparr>) = resolves st"
    "designRails (st\<lparr> ls_nodeCount := n \<rparr>) = designRails st" "resolves (st\<lparr> ls_nodeCount := n \<rparr>) = resolves st"
    by (auto simp: designRails_def resolves_def fun_eq_iff split: option.split transition_rail.split)
  moreover have "lazySource s (st\<lparr> ls_support := m \<rparr>) = lazySource s st"
    "lazySource s (st\<lparr> ls_nodeCount := n \<rparr>) = lazySource s st" for s
    by (simp_all add: checkedSource_def cong: option.case_cong)
  ultimately show "memosOk (st\<lparr> ls_support := m \<rparr>) = memosOk st" "memosOk (st\<lparr> ls_nodeCount := n \<rparr>) = memosOk st"
    by (simp_all add: memosOk_def)
qed

lemma transitionSupport_shape:
  assumes "transitionSupport s r = Inr (S, r')"
  shows "r' = r \<or> (\<exists>m. r' = r\<lparr> tr_support := m \<rparr>) \<or>
    (\<exists>st m. storeOf r = Some st \<and> r' = putStore (st\<lparr> ls_support := m \<rparr>) r)"
  using assms
  by (auto simp: transitionSupport_def bindE_Inr_iff requireStore_def split: option.splits)

lemma transitionSupport_session:
  assumes "resolverInv r" "transitionSupport s r = Inr (S, r')"
  shows "session r r' \<and> directSupport s r = Inr S"
proof -
  have ok: "directSupport s r = Inr S" "supportInv r'" "sameSources r r'"
    using transitionSupport_direct [of r s] assms by (auto simp: resolverInv_def)
  have "resolverInv r'" "staticProblem r' = staticProblem r"
    using transitionSupport_shape [OF assms(2)] ok(2) assms(1) by (auto simp: resolverInv_def)
  then show ?thesis using ok by (simp add: session_def)
qed

lemma collectSupport_session:
  assumes inv: "resolverInv r" and c: "collectSupportForTargets targets known acc r = Inr (acc', r')"
  shows "session r r' \<and> supported r targets \<and> acc' = addReads known (coneReads r targets) acc"
proof -
  have ok: "supported r targets" "acc' = addReads known (coneReads r targets) acc"
    using collectSupport_ok [of r targets known acc] inv c by (auto simp: resolverInv_def)
  let ?step = "\<lambda>s (acc, r). bindE (transitionSupport s r) (\<lambda>(S, r').
      Inr (fold (addCollectedSupportSymbol known) (sorted_list_of_set S) acc, r'))"
  have step: "session r (snd z)" if y: "session r (snd y)" and z: "?step s y = Inr z" for s y z
  proof -
    obtain acc1 r1 where y': "y = (acc1, r1)" by fastforce
    obtain S r2 where t: "transitionSupport s r1 = Inr (S, r2)" "snd z = r2"
      using z by (auto simp: y' bindE_Inr_iff)
    have "session r r1" using y y' by simp
    moreover have "session r1 r2"
      using transitionSupport_session [OF _ t(1)] calculation by (simp add: session_def)
    ultimately show ?thesis unfolding t(2) by (rule session_trans)
  qed
  have fold: "session r (snd y)" if "foldE ?step targets (acc, r) = Inr y" for y
    using that by (rule foldE_invariant [where P = "\<lambda>y. session r (snd y)"]) (simp_all add: session_refl [OF inv] step)
  have "session r r'"
  proof (cases "targets \<noteq> [] \<and> \<not> pb_usesDualRailStateEncoding (tr_problem r) \<and>
      kCachedUnionSupportTargetThreshold \<le> length targets")
    case True
    then show ?thesis using c fold [of "(acc', r')"] by (simp add: collectSupportForTargets_def)
  next
    case False
    then have "r' = r" using c by (auto simp: collectSupportForTargets_def bindE_Inr_iff split: if_splits)
    then show ?thesis using session_refl [OF inv] by simp
  qed
  then show ?thesis using ok by blast
qed

lemma transitionAt_shape:
  assumes "transitionAt s r = Inr (eo, r')"
  shows "r' = r \<or> (\<exists>st. r' = putStore st r)"
  using assms by (auto simp: transitionAt_def bindE_Inr_iff requireStore_def split: option.splits)

lemma transitionAt_session:
  assumes "resolverInv r" "transitionAt s r = Inr (eo, r')"
  shows "session r r'"
  using transitionAt_ok [OF assms] transitionAt_shape [OF assms(2)] by (auto simp: session_def)

section \<open>What a symbol resolves to\<close>

definition resolvedTo :: "resolver \<Rightarrow> var_id \<Rightarrow> bexpr \<Rightarrow> bool" where
  "resolvedTo r s e =
    (case tr_eager r s of
       Some x \<Rightarrow> e = x
     | None \<Rightarrow> \<exists>st src. storeOf r = Some st \<and> lazySource s st = Inr src \<and> resolves st src (Some e))"

definition published :: "resolver \<Rightarrow> var_id \<Rightarrow> bool" where
  "published r s = ((\<exists>S. directSupport s r = Inr S) \<and> (\<exists>e. resolvedTo r s e))"

lemma store_statics:
  assumes "sameSources r r'"
  shows "(storeOf r = None \<longleftrightarrow> storeOf r' = None) \<and>
    (\<forall>st st'. storeOf r = Some st \<and> storeOf r' = Some st' \<longrightarrow> ls_sources st' = ls_sources st \<and>
      ls_localToCombined st' = ls_localToCombined st \<and> ls_stateRails st' = ls_stateRails st)"
  using assms by (cases "storeOf r"; cases "storeOf r'") (auto simp: sameSources_def sourcesOf_def)

lemma resolvedTo_session:
  assumes "session r r'"
  shows "resolvedTo r' s e = resolvedTo r s e"
proof (cases "tr_eager r s")
  case None
  have same: "sameSources r r'" using assms by (simp add: session_def)
  note st = store_statics [OF same]
  have eager: "tr_eager r' s = None" using None same by (simp add: sameSources_def)
  show ?thesis
  proof (cases "storeOf r")
    case store: (Some a)
    then have "storeOf r' \<noteq> None" using st by simp
    then obtain b where b: "storeOf r' = Some b" by blast
    have f: "ls_sources b = ls_sources a" "ls_localToCombined b = ls_localToCombined a" "ls_stateRails b = ls_stateRails a"
      using st store b by blast+
    have l: "lazySource s b = lazySource s a" unfolding checkedSource_def f ..
    have d: "designRails b = designRails a" unfolding designRails_def f ..
    have res: "resolves b = resolves a" unfolding resolves_def f d ..
    have "resolvedTo r' s e = (\<exists>src. lazySource s b = Inr src \<and> resolves b src (Some e))"
      by (simp only: resolvedTo_def eager b option.case option.inject) blast
    also have "\<dots> = (\<exists>src. lazySource s a = Inr src \<and> resolves a src (Some e))" unfolding l res ..
    also have "\<dots> = resolvedTo r s e"
      by (simp only: resolvedTo_def None store option.case option.inject) blast
    finally show ?thesis .
  next
    case none: None
    then have "storeOf r' = None" using st by simp
    then show ?thesis using none by (simp add: resolvedTo_def None eager)
  qed
next
  case (Some e)
  then show ?thesis using assms by (simp add: resolvedTo_def session_def sameSources_def)
qed

lemma published_session: "session r r' \<Longrightarrow> published r' s = published r s"
  using resolvedTo_session [of r r' s] directSupport_cong [of r r' s] by (auto simp: published_def session_def)

lemma resolvedTo_eval:
  assumes "resolvedTo r s e" "resolvedTo r s f"
  shows "eval env e = eval env f"
proof (cases "tr_eager r s")
  case None
  then obtain st src where st: "resolves st src (Some e)" "resolves st src (Some f)"
    using assms by (auto simp: resolvedTo_def)
  then obtain x where x: "src_localExpr src = Some x" by (auto simp: resolves_def split: option.splits)
  have lift: "eval env (mayBeOne q) = eval env (mayBeOne q') \<and> eval env (mayBeZero q) = eval env (mayBeZero q')"
    if "liftedBy g x q" "liftedBy g x q'" for g q q'
  proof -
    have "evalRails env q = evalRails env q'" using that by (simp add: liftedBy_def)
    then show ?thesis by (simp add: evalRails_def)
  qed
  show ?thesis
  proof (cases "src_rail src")
    case Binary
    then show ?thesis using st x by (simp add: resolves_def remapsTo_def translates_def)
  next
    case DualRailOne
    then show ?thesis using st x lift by (auto simp: resolves_def)
  next
    case DualRailZero
    then show ?thesis using st x lift by (auto simp: resolves_def)
  qed
qed (use assms in \<open>simp add: resolvedTo_def\<close>)

section \<open>Calls that succeed\<close>

lemma transitionAt_published:
  assumes inv: "resolverInv r" and p: "published r s"
  shows "\<exists>e r'. transitionAt s r = Inr (Some e, r') \<and> session r r' \<and> resolvedTo r s e"
proof -
  obtain S where S: "directSupport s r = Inr S" using p by (auto simp: published_def)
  obtain f where f: "resolvedTo r s f" using p by (auto simp: published_def)
  obtain eo r' where t: "transitionAt s r = Inr (eo, r')" using transitionAt_total [OF inv S] by blast
  note ok = transitionAt_ok [OF inv t]
  have "\<exists>e. eo = Some e \<and> resolvedTo r s e"
  proof (cases "tr_eager r s")
    case None
    then obtain st src where src: "storeOf r = Some st" "lazySource s st = Inr src" "resolves st src eo" using ok by auto
    have "src_localExpr src \<noteq> None" using f src(1,2) None by (auto simp: resolvedTo_def resolves_def split: option.splits)
    then obtain e where "eo = Some e" using src(3) by (cases "src_rail src") (auto simp: resolves_def)
    then show ?thesis using src None by (auto simp: resolvedTo_def)
  qed (use ok in \<open>simp add: resolvedTo_def\<close>)
  then show ?thesis using t transitionAt_session [OF inv t] by blast
qed

lemma published_contains: "published r s \<Longrightarrow> resolverContains s r"
  by (auto simp: published_def resolvedTo_def resolverContains_def checkedSource_def split: option.splits)

lemma session_nodeCount:
  assumes "resolverInv r"
  shows "session r (r\<lparr> tr_nodeCount := m \<rparr>)"
    and "storeOf r = Some st \<Longrightarrow> session r (putStore (st\<lparr> ls_nodeCount := m \<rparr>) r)"
proof -
  have same: "sameSources r (r\<lparr> tr_nodeCount := m \<rparr>)" by (simp add: sameSources_def sourcesOf_def)
  have "supportInv (r\<lparr> tr_nodeCount := m \<rparr>)"
    using assms by (auto simp: resolverInv_def supportInv_def directSupport_cong [OF same])
  then show "session r (r\<lparr> tr_nodeCount := m \<rparr>)" using assms same by (simp add: session_def resolverInv_def)
next
  assume st: "storeOf r = Some st"
  let ?r = "putStore (st\<lparr> ls_nodeCount := m \<rparr>) r"
  have same: "sameSources r ?r" using st by (simp add: sameSources_def sourcesOf_def)
  have "supportInv ?r" using assms st by (auto simp: resolverInv_def supportInv_def directSupport_cong [OF same])
  then show "session r ?r" using assms same st by (simp add: session_def resolverInv_def)
qed

lemma nodeCountExpr_session:
  assumes inv: "resolverInv r" and p: "published r s"
  shows "\<exists>eo r'. nodeCountExpr s r = Inr (eo, r') \<and> session r r'"
proof -
  let ?first = "case tr_eager r s of
      Some e \<Rightarrow> Inr (Some e, r)
    | None \<Rightarrow> (case storeOf r of
        None \<Rightarrow> Inr (None, r)
      | Some st \<Rightarrow> (case ls_sources st s of
          None \<Rightarrow> Inr (None, r)
        | Some src \<Rightarrow> if src_rail src = Binary then Inr (src_localExpr src, r) else transitionAt s r))"
  obtain e0 r0 where at: "transitionAt s r = Inr (Some e0, r0)" "session r r0" using transitionAt_published [OF inv p] by blast
  have "\<exists>eo r1. ?first = Inr (eo, r1) \<and> session r r1"
    using at session_refl [OF inv] by (auto split: option.split)
  then obtain eo r1 where first: "?first = Inr (eo, r1)" "session r r1" by blast
  have r1: "resolverInv r1" "published r1 s" using first(2) p published_session by (auto simp: session_def)
  obtain e2 r2 where two: "transitionAt s r1 = Inr (Some e2, r2)" "session r1 r2" using transitionAt_published [OF r1] by blast
  have "nodeCountExpr s r = (if eo = None then transitionAt s r1 else Inr (eo, r1))"
    unfolding nodeCountExpr_def first(1) by simp
  then show ?thesis using two first(2) session_trans [OF first(2) two(2)] by (cases eo) auto
qed

lemma transitionNodeCount_session:
  assumes inv: "resolverInv r" and p: "published r s"
  shows "\<exists>n r'. transitionNodeCount s r = Inr (n, r') \<and> session r r'"
proof (cases "tr_nodeCount r s")
  case None
  note own = None
  show ?thesis
  proof (cases "\<exists>n. tr_eager r s = None \<and> Option.bind (storeOf r) (\<lambda>st. ls_nodeCount st s) = Some n")
    case True
    then show ?thesis using own session_nodeCount(1) [OF inv] by (auto simp: transitionNodeCount_def)
  next
    case False
    obtain eo r1 where e: "nodeCountExpr s r = Inr (eo, r1)" "session r r1" using nodeCountExpr_session [OF inv p] by blast
    have inv1: "resolverInv r1" using e(2) by (simp add: session_def)
    define n where "n = countBoolExprNodes eo"
    define r2 where "r2 = (case (tr_eager r1 s, storeOf r1) of
        (None, Some st) \<Rightarrow> putStore (st\<lparr> ls_nodeCount := emplace s n (ls_nodeCount st) \<rparr>) r1
      | _ \<Rightarrow> r1)"
    have r2: "session r1 r2"
      using session_nodeCount(2) [OF inv1] session_refl [OF inv1] by (auto simp: r2_def split: option.split)
    then have "session r2 (r2\<lparr> tr_nodeCount := emplace s n (tr_nodeCount r2) \<rparr>)"
      by (intro session_nodeCount(1)) (simp add: session_def)
    then have "session r (r2\<lparr> tr_nodeCount := emplace s n (tr_nodeCount r2) \<rparr>)"
      using session_trans [OF e(2) session_trans [OF r2]] by blast
    moreover have "transitionNodeCount s r = Inr (n, r2\<lparr> tr_nodeCount := emplace s n (tr_nodeCount r2) \<rparr>)"
      using own False
      by (auto simp: transitionNodeCount_def e(1) Let_def n_def r2_def split: option.splits)
    ultimately show ?thesis by blast
  qed
next
  case (Some n)
  then show ?thesis using session_refl [OF inv] by (simp add: transitionNodeCount_def)
qed

section \<open>A resolver over the same problem\<close>

definition anchored :: "resolver \<Rightarrow> bool" where
  "anchored r = (tr_eager r = tr_eager (newResolver (tr_problem r)))"

lemma newResolver_simps [simp]:
  "tr_problem (newResolver p) = p" "storeOf (newResolver p) = pb_lazyTransitions p"
  "tr_support (newResolver p) = Map.empty" "staticProblem (newResolver p) = p\<lparr> pb_lazyTransitions := None \<rparr>"
  by (simp_all add: newResolver_def storeOf_def staticProblem_def)

lemma anchored_new [simp]: "anchored (newResolver p)"
  by (simp add: anchored_def)

lemma eager_static: "tr_eager (newResolver (tr_problem r)) = tr_eager (newResolver (staticProblem r))"
  by (simp add: newResolver_def staticProblem_def)

lemma anchored_session: "anchored r \<Longrightarrow> session r r' \<Longrightarrow> anchored r'"
  by (metis anchored_def eager_static session_def sameSources_def)

lemma newResolver_session:
  assumes "resolverInv r" "anchored r"
  shows "session r (newResolver (tr_problem r))"
proof -
  let ?r = "newResolver (tr_problem r)"
  have store: "storeOf ?r = storeOf r" by (simp add: storeOf_def)
  have same: "sameSources r ?r" using assms(2) store by (simp add: sameSources_def sourcesOf_def anchored_def)
  have "supportInv ?r"
    using assms(1) store assms(2) by (auto simp: resolverInv_def supportInv_def directSupport_cong [OF same] anchored_def)
  then have "resolverInv ?r" using assms(1) store by (simp add: resolverInv_def)
  then show ?thesis using same by (simp add: session_def staticProblem_def)
qed

end
