(* ===== verification/Induction_Coi_Correct.thy ===== *)
theory Induction_Coi_Correct
  imports Induction_Coi Resolver_Session
begin

text \<open>
  The cone of the induction step covers what the SAT instance reads: the symbols of both formulas,
  every transition target of every frame and every symbol those targets read.  The support cache
  only ever answers what the resolver would compute.
\<close>

section \<open>The support cache\<close>

definition entryOk :: "resolver \<Rightarrow> var_id set \<Rightarrow> support_entry \<Rightarrow> bool" where
  "entryOk r states e = (supported r (se_targets e) \<and>
     set (se_stateSupport e) = coneReads r (se_targets e) \<inter> states \<and>
     set (se_nonStateSupport e) = coneReads r (se_targets e))"

definition inductionCacheOk :: "problem_addresses \<Rightarrow> problem \<Rightarrow> resolver \<Rightarrow> induction_cache option \<Rightarrow> bool" where
  "inductionCacheOk ad p r cache =
    (case cache of
       None \<Rightarrow> True
     | Some c \<Rightarrow> ic_signature c = transitionSupportCacheSignature ad p \<longrightarrow>
         (\<forall>h. \<forall>e \<in> set (ic_entries c h). entryOk r (buildStateSymbolSet p) e))"

lemma cone_session:
  assumes "session r r'"
  shows "supported r' ts = supported r ts" "coneReads r' ts = coneReads r ts"
  using assms directSupport_cong [of r r'] by (simp_all add: session_def supported_def coneReads_def)

lemma entryOk_session: "session r r' \<Longrightarrow> entryOk r' states e = entryOk r states e"
  by (simp add: entryOk_def cone_session)

lemma cacheFor_ok:
  assumes "inductionCacheOk ad p r cache"
  shows "e \<in> set (ic_entries (transitionSupportCacheForProblem ad p cache) h) \<Longrightarrow> entryOk r (buildStateSymbolSet p) e"
  using assms
  by (auto simp: inductionCacheOk_def transitionSupportCacheForProblem_def resetForSignature_def emptyInductionCache_def
      split: option.splits if_splits)

lemma finite_cone [simp]: "finite (coneReads r ts)"
  by (rule finite_subset [OF subset_UNIV]) simp

lemma addReads_pair [simp]: "addReads known W (A, B) = (A \<union> W \<inter> known, B \<union> W)"
  by (simp add: addReads_def)

lemma collectWithCache_ok:
  assumes inv: "resolverInv r" and cache: "inductionCacheOk ad p r c"
  shows "case collectTransitionSupportWithCache ad p ts (buildStateSymbolSet p) outs (r, c) of
      Inl _ \<Rightarrow> \<not> supported r ts
    | Inr (outs', r', c') \<Rightarrow> supported r ts \<and> outs' = addReads (buildStateSymbolSet p) (coneReads r ts) outs \<and>
        session r r' \<and> inductionCacheOk ad p r' c'"
proof (cases "ts = []")
  case True
  then show ?thesis
    using session_refl [OF inv] cache by (simp add: collectTransitionSupportWithCache_def supported_def coneReads_def addReads_def)
next
  case ts: False
  let ?states = "buildStateSymbolSet p" and ?c = "transitionSupportCacheForProblem ad p c" and ?h = "hashSymbols ts"
  note entries = cacheFor_ok [OF cache]
  show ?thesis
  proof (cases "findEntry ?h ts ?c")
    case (Some e)
    then have e: "e \<in> set (ic_entries ?c ?h)" "se_targets e = ts"
      by (auto simp: findEntry_def find_Some_iff entryMatches_def)
    then have ok: "supported r ts" "appendTo e outs = addReads ?states (coneReads r ts) outs"
      using entries [OF e(1)] by (auto simp: entryOk_def appendTo_def addReads_def)
    have "inductionCacheOk ad p r (Some ?c)" using entries by (simp add: inductionCacheOk_def)
    then show ?thesis
      using ts Some ok session_refl [OF inv] by (simp add: collectTransitionSupportWithCache_def Let_def)
  next
    case None
    note run = collectSupport_session [OF inv, of ts ?states "({}, {})"]
    show ?thesis
    proof (cases "collectSupportForTargets ts ?states ({}, {}) r")
      case (Inl x)
      then show ?thesis
        using ts None collectSupport_ok [of r ts ?states "({}, {})"] inv
        by (simp add: collectTransitionSupportWithCache_def Let_def resolverInv_def)
    next
      case (Inr a)
      obtain S N r' where a: "a = ((S, N), r')" by (metis surj_pair)
      have ok: "session r r'" "supported r ts" "S = coneReads r ts \<inter> ?states" "N = coneReads r ts"
        using run Inr by (auto simp: a)
      have "entryOk r' ?states e" if "e \<in> set (ic_entries (storeEntry ?h ts S N ?c) h)" for e h
      proof -
        have "e \<in> set (ic_entries ?c h) \<or>
            e = \<lparr> se_targets = ts, se_stateSupport = sorted_list_of_set S, se_nonStateSupport = sorted_list_of_set N \<rparr>"
          using that by (auto simp: storeEntry_def Let_def split: if_splits)
        then have "entryOk r ?states e"
        proof
          assume "e = \<lparr> se_targets = ts, se_stateSupport = sorted_list_of_set S, se_nonStateSupport = sorted_list_of_set N \<rparr>"
          then show ?thesis using ok by (simp add: entryOk_def)
        qed (rule entries)
        then show ?thesis by (simp only: entryOk_session [OF ok(1)])
      qed
      then have "inductionCacheOk ad p r' (Some (storeEntry ?h ts S N ?c))" by (simp add: inductionCacheOk_def)
      then show ?thesis
        using ts None Inr a ok by (simp add: collectTransitionSupportWithCache_def Let_def addReads_def)
    qed
  qed
qed

section \<open>Monotone closures\<close>

lemma complementPartners_mono: "S \<subseteq> addComplementPartners pairs S"
proof -
  have "S \<subseteq> T \<Longrightarrow> S \<subseteq> addComplementPartners pairs T" for T
    unfolding addComplementPartners_def
    by (induction pairs arbitrary: T) (simp, simp add: case_prod_beta subset_insertI2 split: if_splits)
  then show ?thesis by blast
qed

lemma railPartners_mono: "S \<subseteq> addRailPartners pairs S"
proof -
  have "S \<subseteq> T \<Longrightarrow> S \<subseteq> addRailPartners pairs T" for T
    unfolding addRailPartners_def
    by (induction pairs arbitrary: T) (simp, simp add: subset_insertI2 split: if_splits)
  then show ?thesis by blast
qed

lemma resetSymbols_mono: "S \<subseteq> addPostBootstrapResetInputSymbols p S"
proof -
  have "S \<subseteq> T \<Longrightarrow> S \<subseteq> fold (\<lambda>(symbol, _). insert symbol) xs T" for T and xs :: "(var_id \<times> bool) list"
    by (induction xs arbitrary: T) (simp, simp add: case_prod_beta subset_insertI2)
  then show ?thesis by (auto simp: addPostBootstrapResetInputSymbols_def)
qed

text \<open>The closure under equality pairs is the least one: it contains the seed, it is closed, and it
  lies in every closed set above the seed.\<close>

definition equalityClosed :: "(var_id \<times> var_id) list \<Rightarrow> var_id set \<Rightarrow> bool" where
  "equalityClosed pairs S = (\<forall>(a, b) \<in> set pairs. a \<in> S \<longleftrightarrow> b \<in> S)"

lemma closePass_least: "S \<subseteq> C \<Longrightarrow> equalityClosed pairs C \<Longrightarrow> closePass pairs S \<subseteq> C"
proof (induction pairs arbitrary: S)
  case (Cons ab pairs)
  obtain a b where ab: "ab = (a, b)" by fastforce
  have "(if a \<notin> S \<and> b \<notin> S then S else insert b (insert a S)) \<subseteq> C"
    using Cons.prems by (auto simp: equalityClosed_def ab)
  moreover have "equalityClosed pairs C" using Cons.prems(2) by (simp add: equalityClosed_def)
  ultimately show ?case using Cons.IH by (simp add: closePass_def ab)
qed (simp add: closePass_def)

lemma closePass_fixed: "closePass pairs S = S \<Longrightarrow> equalityClosed pairs S"
proof (induction pairs)
  case (Cons ab pairs)
  obtain a b where ab: "ab = (a, b)" by fastforce
  let ?S = "if a \<notin> S \<and> b \<notin> S then S else insert b (insert a S)"
  have c: "closePass (ab # pairs) S = closePass pairs ?S" by (simp add: closePass_def ab)
  have "?S \<subseteq> S" using closePass_mono [of ?S pairs] Cons.prems c by simp
  then have S: "?S = S" by (auto split: if_splits)
  then have "closePass pairs S = S" using Cons.prems c by simp
  moreover have "a \<in> S \<longleftrightarrow> b \<in> S" using S by (auto split: if_splits)
  ultimately show ?case using Cons.IH by (simp add: equalityClosed_def ab)
qed (simp add: equalityClosed_def)

lemma closeDependencies_ok:
  "S \<subseteq> closeStateEqualityDependencies pairs S \<and> equalityClosed pairs (closeStateEqualityDependencies pairs S) \<and>
   (\<forall>C. S \<subseteq> C \<longrightarrow> equalityClosed pairs C \<longrightarrow> closeStateEqualityDependencies pairs S \<subseteq> C)"
proof (induction pairs S rule: closeStateEqualityDependencies.induct)
  case (1 pairs S)
  let ?S = "closePass pairs S"
  show ?case
  proof (cases "?S = S")
    case True
    then show ?thesis using closePass_fixed [OF True] by (simp add: closeStateEqualityDependencies.simps [of pairs S] Let_def)
  next
    case False
    have "closeStateEqualityDependencies pairs S = closeStateEqualityDependencies pairs ?S"
      using False by (simp add: closeStateEqualityDependencies.simps [of pairs S] Let_def)
    then show ?thesis
      using "1.IH" [OF refl False] closePass_mono [of S pairs] closePass_least [of S _ pairs] by (metis order_trans)
  qed
qed

lemma closeSameFrame_mono: "S \<subseteq> closeSameFrameStateEqualityDependencies p S"
  using closeDependencies_ok unfolding closeSameFrameStateEqualityDependencies_def by (meson order_trans)

lemma coiSymbols_mono: "S \<subseteq> coiSymbols p S"
  unfolding coiSymbols_def
  by (meson complementPartners_mono closeSameFrame_mono railPartners_mono resetSymbols_mono order_trans)

section \<open>The loop over the frames\<close>

lemma contains_sources:
  "resolverContains s r = (tr_eager r s \<noteq> None \<or> (\<exists>x. sourcesOf r = Some x \<and> fst x s \<noteq> None))"
  by (auto simp: resolverContains_def sourcesOf_def split: option.splits)

lemma contains_session: "session r r' \<Longrightarrow> resolverContains s r' = resolverContains s r"
  unfolding contains_sources session_def sameSources_def by simp

lemma expandInductionTargets_set:
  "t \<in> set (expandInductionTargets S r m) \<Longrightarrow> resolverContains t r"
  "distinct (expandInductionTargets S r m)"
  by (auto simp: expandInductionTargets_def expandInductionTarget_def split: if_splits option.splits)

definition frameOk :: "resolver \<Rightarrow> var_id list \<Rightarrow> var_id list \<Rightarrow> bool" where
  "frameOk r targets reads = ((\<forall>t \<in> set targets. resolverContains t r) \<and> set reads = coneReads r targets)"

definition loopOk :: "problem_addresses \<Rightarrow> problem \<Rightarrow> nat \<Rightarrow> resolver \<Rightarrow> coi_loop \<Rightarrow> bool" where
  "loopOk ad p k r st = (length (cl_required st) = Suc k \<and> length (cl_targets st) = k \<and> length (cl_support st) = k \<and>
     session r (cl_resolver st) \<and> inductionCacheOk ad p (cl_resolver st) (cl_cache st) \<and>
     (\<forall>f < k. frameOk r (cl_targets st ! f) (cl_support st ! f) \<and> set (cl_support st ! f) \<subseteq> cl_symbols st))"

lemma initial_loop:
  assumes "resolverInv r" "inductionCacheOk ad p r c"
  shows "loopOk ad p k r (initialCoi p prop bad k r c)"
  using assms session_refl by (simp add: loopOk_def initialCoi_def frameOk_def coneReads_def)

lemma frame_loop:
  assumes inv: "loopOk ad p k r st" and f: "0 < f" "f \<le> k"
    and pub: "\<And>t. resolverContains t r \<Longrightarrow> \<exists>S. directSupport t r = Inr S"
  shows "\<exists>st'. coiFrame ad p (buildStateSymbolSet p) m f st = Inr st' \<and> loopOk ad p k r st'"
proof -
  let ?r = "cl_resolver st" and ?states = "buildStateSymbolSet p"
  define required where
    "required = (cl_required st)[f := closeSameFrameStateEqualityDependencies p (cl_required st ! f)]"
  define ts where "ts = expandInductionTargets (required ! f) ?r m"
  define R where "R = coneReads r ts"
  have s: "session r ?r" and c: "inductionCacheOk ad p ?r (cl_cache st)" using inv by (simp_all add: loopOk_def)
  have rinv: "resolverInv ?r" using s by (simp add: session_def)
  have cont: "\<forall>t \<in> set ts. resolverContains t r"
    using expandInductionTargets_set(1) contains_session [OF s] unfolding ts_def by blast
  then have sup: "supported ?r ts" using pub cone_session(1) [OF s] by (auto simp: supported_def)
  obtain r' c' where w: "collectTransitionSupportWithCache ad p ts ?states ({}, {}) (?r, cl_cache st) = Inr ((R \<inter> ?states, R), r', c')"
    "session ?r r'" "inductionCacheOk ad p r' c'"
    using collectWithCache_ok [OF rinv c, of ts "({}, {})"] sup cone_session(2) [OF s] by (auto simp: R_def split: sum.splits)
  let ?st = "\<lparr> cl_required = required[f - 1 := required ! (f - 1) \<union> R \<inter> ?states], cl_targets = (cl_targets st)[f - 1 := ts],
      cl_support = (cl_support st)[f - 1 := mergeTransitionSupportForEncoding (R \<inter> ?states) R],
      cl_symbols = cl_symbols st \<union> R, cl_resolver = r', cl_cache = c' \<rparr>"
  have run: "coiFrame ad p ?states m f st = Inr ?st"
    unfolding coiFrame_def Let_def required_def [symmetric] ts_def [symmetric] w(1) by simp
  have merged: "set (mergeTransitionSupportForEncoding (R \<inter> ?states) R) = R"
    by (auto simp: mergeTransitionSupportForEncoding_def R_def)
  have "frameOk r ts (mergeTransitionSupportForEncoding (R \<inter> ?states) R)"
    using cont merged by (simp add: frameOk_def R_def)
  moreover have "length required = Suc k" using inv by (simp add: required_def loopOk_def)
  moreover have "session r r'" using session_trans [OF s w(2)] .
  ultimately have "loopOk ad p k r ?st"
    using inv f w(3) merged by (auto simp: loopOk_def nth_list_update)
  then show ?thesis using run by blast
qed

section \<open>The cone\<close>

definition coiOk :: "resolver \<Rightarrow> bexpr option \<Rightarrow> bexpr option \<Rightarrow> nat \<Rightarrow> induction_coi \<Rightarrow> bool" where
  "coiOk r prop bad k coi =
    (length (co_targets coi) = k \<and> length (co_support coi) = k \<and> distinct (co_symbols coi) \<and>
     co_symbolSet coi = set (co_symbols coi) \<and> set (co_relevant coi) \<subseteq> set (co_symbols coi) \<and>
     (\<forall>e \<in> set_option prop \<union> set_option bad. support e \<subseteq> set (co_symbols coi)) \<and>
     (\<forall>f < k. set (co_targets coi ! f) \<subseteq> set (co_relevant coi)) \<and>
     (\<forall>f < k. frameOk r (co_targets coi ! f) (co_support coi ! f) \<and>
        set (co_targets coi ! f) \<union> set (co_support coi ! f) \<subseteq> set (co_symbols coi)))"

lemma formulaSupport_set:
  "(\<Union>e \<in> set_option prop \<union> set_option bad. support e) \<subseteq> addFormulaSupport bad (addFormulaSupport prop {})"
  by (auto simp: addFormulaSupport_def support_def ge2_iff split: option.splits)

lemma buildInductionCoi_ok:
  assumes inv: "resolverInv (newResolver p)" and cache: "inductionCacheOk ad p (newResolver p) c"
    and pub: "\<And>t. resolverContains t (newResolver p) \<Longrightarrow> \<exists>S. directSupport t (newResolver p) = Inr S"
  shows "\<exists>coi r c'. buildInductionCoi ad p prop bad k c = Inr (coi, r, c') \<and> session (newResolver p) r \<and>
    inductionCacheOk ad p r c' \<and> coiOk (newResolver p) prop bad k coi"
proof -
  let ?r = "newResolver p"
  have "\<exists>st'. coiFrame ad p (buildStateSymbolSet p) (buildPrimaryByComplementSymbol p) f st = Inr st' \<and> loopOk ad p k ?r st'"
    if "f \<in> set (rev [1..<k + 1])" "loopOk ad p k ?r st" for f st
    by (rule frame_loop [OF that(2) _ _ pub]) (use that(1) in auto)
  from foldE_total [where P = "loopOk ad p k ?r" and xs = "rev [1..<k + 1]" and
      f = "coiFrame ad p (buildStateSymbolSet p) (buildPrimaryByComplementSymbol p)", OF initial_loop [OF inv cache] this]
  obtain st where st: "foldE (coiFrame ad p (buildStateSymbolSet p) (buildPrimaryByComplementSymbol p)) (rev [1..<k + 1])
      (initialCoi p prop bad k ?r c) = Inr st" "loopOk ad p k ?r st" by blast
  define relevant where "relevant = \<Union> (set ((cl_required st)[0 := closeSameFrameStateEqualityDependencies p (cl_required st ! 0)])) \<union>
      \<Union> (set (map set (cl_targets st)))"
  define base where "base = addFormulaSupport bad (addFormulaSupport prop {}) \<union> relevant \<union> cl_symbols st"
  let ?coi = "\<lparr> co_targets = cl_targets st, co_support = cl_support st, co_relevant = sorted_list_of_set relevant,
      co_symbols = sorted_list_of_set (coiSymbols p base), co_symbolSet = set (sorted_list_of_set (coiSymbols p base)) \<rparr>"
  have b: "buildInductionCoi ad p prop bad k c = Inr (?coi, cl_resolver st, cl_cache st)"
    unfolding buildInductionCoi_def st(1) bindE_simps Let_def relevant_def [symmetric] base_def [symmetric] ..
  have fin: "finite X" for X :: "var_id set" by (rule finite_subset [OF subset_UNIV]) simp
  have base: "base \<subseteq> coiSymbols p base" by (rule coiSymbols_mono)
  have len: "length (cl_targets st) = k" "length (cl_support st) = k" using st(2) by (simp_all add: loopOk_def)
  have targets: "set (cl_targets st ! f) \<subseteq> base" if "f < k" for f
    using nth_mem [of f "cl_targets st"] that len by (auto simp: base_def relevant_def)
  have frames: "frameOk ?r (cl_targets st ! f) (cl_support st ! f) \<and> set (cl_support st ! f) \<subseteq> base" if "f < k" for f
    using st(2) that by (auto simp: loopOk_def base_def)
  have forms: "support e \<subseteq> base" if "e \<in> set_option prop \<union> set_option bad" for e
    using formulaSupport_set [of "prop" bad] that by (auto simp: base_def)
  have rel: "relevant \<subseteq> base" by (auto simp: base_def)
  have "frameOk ?r (cl_targets st ! f) (cl_support st ! f) \<and>
      set (cl_targets st ! f) \<union> set (cl_support st ! f) \<subseteq> coiSymbols p base" if f: "f < k" for f
    using frames [OF f] subset_trans [OF targets [OF f] base] subset_trans [OF conjunct2 [OF frames [OF f]] base] by simp
  moreover have "support e \<subseteq> coiSymbols p base" if e: "e \<in> set_option prop \<union> set_option bad" for e
    by (rule subset_trans [OF forms [OF e] base])
  moreover have "relevant \<subseteq> coiSymbols p base" by (rule subset_trans [OF rel base])
  moreover have "set (cl_targets st ! f) \<subseteq> relevant" if "f < k" for f
    using nth_mem [of f "cl_targets st"] that len by (auto simp: relevant_def)
  ultimately have "coiOk ?r prop bad k ?coi" unfolding coiOk_def by (simp add: fin len)
  then show ?thesis using b st(2) by (auto simp: loopOk_def)
qed

end
