(* ===== verification/Induction_Correct.thy ===== *)
theory Induction_Correct
  imports Induction_Step Induction_Coi_Correct Invariant_Correct
begin

text \<open>
  What the induction step decides: its SAT instance has a model exactly when there is a window of
  k + 1 frames that are legal on the cone's symbols, follow the resolved transitions of the cone's
  targets, satisfy the induction property in the first k frames, are bad in the last, and do not
  repeat on the relevant state symbols where the simple-path constraint is added.
\<close>

section \<open>Symbols and their transitions\<close>

lemma resolvedTo_support:
  assumes e: "resolvedTo r t e" and S: "directSupport t r = Inr S"
  shows "support e \<subseteq> {w \<in> S. \<not> w < 2}"
proof -
  have "support e \<subseteq> S"
  proof (cases "tr_eager r t")
    case None
    then obtain st src where "storeOf r = Some st" "lazySource t st = Inr src" "resolves st src (Some e)"
      using e by (auto simp: resolvedTo_def)
    then show ?thesis using resolves_support [OF _ _ _ None S] by blast
  next
    case (Some x)
    then show ?thesis using e S by (auto simp: resolvedTo_def directSupport_def support_def)
  qed
  then show ?thesis by (auto simp: support_ge2 not_less)
qed

lemma resolvedTo_cone:
  assumes "published r t" "resolvedTo r t e" "t \<in> set ts"
  shows "support e \<subseteq> coneReads r ts"
proof -
  obtain S where S: "directSupport t r = Inr S" using assms(1) by (auto simp: published_def)
  show ?thesis using resolvedTo_support [OF assms(2) S] S assms(3) by (auto simp: coneReads_def)
qed

section \<open>Side constraints\<close>

definition equalOn :: "var_id set \<Rightarrow> (var_id \<times> var_id) list \<Rightarrow> (var_id \<Rightarrow> bool) \<Rightarrow> bool" where
  "equalOn Q pairs env = (\<forall>ab \<in> set pairs. fst ab \<in> Q \<and> snd ab \<in> Q \<longrightarrow> env (fst ab) = env (snd ab))"

definition frameLegal :: "var_id set \<Rightarrow> problem \<Rightarrow> (var_id \<Rightarrow> bool) \<Rightarrow> bool" where
  "frameLegal Q p env = (legalOn Q p env \<and> equalOn Q (pb_sameFrameStateEqualityPairs0 p) env \<and>
     equalOn Q (pb_sameFrameStateEqualityPairs1 p) env \<and> resetOn Q p env)"

lemma complementPair_step: "complementPairStep (knownSymbols fs) fs = complementStep fs"
  by (intro ext) (simp add: complementPairStep_def complementStep_def knownSymbols_def)

lemma railClause_step: "railClauseStep (knownSymbols fs) fs = railStep fs"
  by (intro ext) (simp add: railClauseStep_def railStep_def knownSymbols_def)

lemma inductionComplements_restrict:
  assumes "storeInv fs (sv_vars s)" "solverInv s" "n \<le> fs_numFrames fs"
  shows "\<exists>s'. addInductionComplements (knownSymbols fs) fs pairs n s = Inr s' \<and>
    restricts s s' (\<lambda>M. \<forall>f < n. pairsOn (knownSymbols fs) pairs (frameValue fs M f))"
  using complements_restrict [OF assms]
  by (simp add: addInductionComplements_def complementPair_step addComplementedStateRelations_def)

lemma inductionValidity_restrict:
  assumes "storeInv fs (sv_vars s)" "solverInv s" "n \<le> fs_numFrames fs"
  shows "\<exists>s'. addInductionRailValidity (knownSymbols fs) fs pairs n s = Inr s' \<and>
    restricts s s' (\<lambda>M. \<forall>f < n. railsOn (knownSymbols fs) pairs (frameValue fs M f))"
  using validity_restrict [OF assms]
  by (simp add: addInductionRailValidity_def railClause_step addDualRailStateValidity_def)

lemma equalityStep_restricts:
  assumes "storeInv fs (sv_vars s)" "solverInv s" "f < fs_numFrames fs"
  shows "\<exists>s'. equalityStep (knownSymbols fs) fs f ab s = Inr s' \<and>
    restricts s s' (\<lambda>M. equalOn (knownSymbols fs) [ab] (frameValue fs M f))"
proof (cases "fst ab \<in> knownSymbols fs \<and> snd ab \<in> knownSymbols fs")
  case True
  obtain a b where l: "getLiteral fs (fst ab) f = Inr a" "litBelow (sv_vars s) a"
      "getLiteral fs (snd ab) f = Inr b" "litBelow (sv_vars s) b"
    using known_literal [OF assms(1) _ assms(3)] True by meson
  obtain s' where s': "addLiteralEquivalence a b s = Inr s'" "restricts s s' (\<lambda>M. litTrue M a = litTrue M b)"
    using addLiteralEquivalence_restricts [OF assms(2) l(2,4)] by auto
  have "equalityStep (knownSymbols fs) fs f ab s = Inr s'"
    unfolding equalityStep_def l bindE_simps s'(1) using True by simp
  moreover have "restricts s s' (\<lambda>M. equalOn (knownSymbols fs) [ab] (frameValue fs M f))"
    by (rule restricts_weaken [OF s'(2)])
      (use True in \<open>simp add: equalOn_def frameValue_lit [OF l(1)] frameValue_lit [OF l(3)]\<close>)
  ultimately show ?thesis by blast
next
  case False
  then show ?thesis using assms(2) by (auto simp: equalityStep_def equalOn_def intro: restricts_refl restricts_weaken)
qed

lemma equalityFrames_restrict:
  assumes "storeInv fs (sv_vars s)" "solverInv s" "n \<le> fs_numFrames fs"
  shows "\<exists>s'. foldE (\<lambda>frame. foldE (equalityStep (knownSymbols fs) fs frame) pairs) [0..<n] s = Inr s' \<and>
    restricts s s' (\<lambda>M. \<forall>f < n. equalOn (knownSymbols fs) pairs (frameValue fs M f))"
proof -
  obtain s' where "foldE (\<lambda>frame. foldE (equalityStep (knownSymbols fs) fs frame) pairs) [0..<n] s = Inr s'"
    "restricts s s' (\<lambda>M. \<forall>f \<in> set [0..<n]. \<forall>ab \<in> set pairs. equalOn (knownSymbols fs) [ab] (frameValue fs M f))"
    using frames_restrict [where g = "equalityStep (knownSymbols fs) fs", OF assms equalityStep_restricts] by blast
  then show ?thesis by (auto simp: equalOn_def elim!: restricts_weaken)
qed

lemma resetFrames_restrict:
  assumes fs: "storeInv fs (sv_vars s)" "solverInv s" and n: "n \<le> fs_numFrames fs"
  shows "\<exists>s'. resetInputFrames fs n input s = Inr s' \<and>
    restricts s s' (\<lambda>M. fst input \<in> knownSymbols fs \<longrightarrow> (\<forall>f \<in> set [0..<n]. frameValue fs M f (fst input) = (\<not> snd input)))"
proof (cases "fst input \<in> knownSymbols fs")
  case True
  let ?step = "\<lambda>frame u. bindE (getLiteral fs (fst input) frame) (\<lambda>l. addClause [if snd input then - l else l] u)"
  have "\<exists>s'. foldE ?step [0..<n] s = Inr s' \<and>
      restricts s s' (\<lambda>M. \<forall>f \<in> set [0..<n]. frameValue fs M f (fst input) = (\<not> snd input))"
  proof (rule foldE_restricts [OF fs(2)])
    fix f u
    assume f: "f \<in> set [0..<n]" and u: "solverInv u" "sv_vars s \<le> sv_vars u"
    have "?step f u = resetStep fs f input u" using True by (simp add: resetStep_def knownSymbols_def)
    then show "\<exists>u'. ?step f u = Inr u' \<and> restricts u u' (\<lambda>M. frameValue fs M f (fst input) = (\<not> snd input))"
      using resetStep_restricts [OF storeInv_mono [OF fs(1) u(2)] u(1), of f input] True f n by simp
  qed (rule readsBelow_frames [OF fs(1)])
  moreover have "resetInputFrames fs n input s = foldE ?step [0..<n] s"
    using True by (simp add: resetInputFrames_def knownSymbols_def)
  ultimately show ?thesis using True by (auto elim!: restricts_weaken)
next
  case False
  then show ?thesis using fs(2) by (auto simp: resetInputFrames_def knownSymbols_def intro: restricts_refl restricts_weaken)
qed

lemma resetInputs_restrict:
  assumes fs: "storeInv fs (sv_vars s)" "solverInv s" and n: "n \<le> fs_numFrames fs"
  shows "\<exists>s'. addResetInputConstraints fs p n s = Inr s' \<and>
    restricts s s' (\<lambda>M. \<forall>f < n. resetOn (knownSymbols fs) p (frameValue fs M f))"
proof (cases "pb_resetBootstrapCycles p = 0")
  case True
  then show ?thesis using fs(2)
    by (auto simp: addResetInputConstraints_def resetOn_def intro: restricts_refl restricts_weaken)
next
  case False
  have "\<exists>s'. foldE (resetInputFrames fs n) (pb_resetBootstrapInputs p) s = Inr s' \<and>
    restricts s s' (\<lambda>M. \<forall>input \<in> set (pb_resetBootstrapInputs p). fst input \<in> knownSymbols fs \<longrightarrow>
      (\<forall>f \<in> set [0..<n]. frameValue fs M f (fst input) = (\<not> snd input)))"
  proof (rule foldE_restricts [OF fs(2)])
    fix input u
    assume "solverInv u" "sv_vars s \<le> sv_vars u"
    then show "\<exists>u'. resetInputFrames fs n input u = Inr u' \<and> restricts u u' (\<lambda>M. fst input \<in> knownSymbols fs \<longrightarrow>
        (\<forall>f \<in> set [0..<n]. frameValue fs M f (fst input) = (\<not> snd input)))"
      using resetFrames_restrict storeInv_mono [OF fs(1)] n by blast
  qed (rule readsBelow_frames [OF fs(1)])
  then obtain s' where s': "foldE (resetInputFrames fs n) (pb_resetBootstrapInputs p) s = Inr s'"
    "restricts s s' (\<lambda>M. \<forall>input \<in> set (pb_resetBootstrapInputs p). fst input \<in> knownSymbols fs \<longrightarrow>
      (\<forall>f \<in> set [0..<n]. frameValue fs M f (fst input) = (\<not> snd input)))" by blast
  have "restricts s s' (\<lambda>M. \<forall>f < n. resetOn (knownSymbols fs) p (frameValue fs M f))"
    by (rule restricts_weaken [OF s'(2)]) (unfold resetOn_def set_upt atLeastLessThan_iff Ball_def, use False in blast)
  then show ?thesis using False s'(1) by (simp add: addResetInputConstraints_def)
qed

lemma inductionSide_restrict:
  assumes fs: "storeInv fs (sv_vars s)" "solverInv s" "fs_numFrames fs = k + 1"
    and Q: "co_symbolSet coi = knownSymbols fs"
  shows "\<exists>s'. inductionSideConstraints coi fs p k s = Inr s' \<and>
    restricts s s' (\<lambda>M. \<forall>f < k + 1. frameLegal (knownSymbols fs) p (frameValue fs M f))"
proof -
  note mono = storeInv_mono [OF fs(1)] and reads = readsBelow_frames [OF fs(1)]
  let ?fv = "frameValue fs" and ?Q = "knownSymbols fs"
  obtain s1 where s1: "addInductionComplements ?Q fs (pb_complementedStatePairs0 p) (k + 1) s = Inr s1"
    "restricts s s1 (\<lambda>M. \<forall>f < k + 1. pairsOn ?Q (pb_complementedStatePairs0 p) (?fv M f))"
    using inductionComplements_restrict [OF fs(1,2), of "k + 1"] fs(3) by auto
  note le1 = restrictsD(1,2) [OF s1(2)]
  obtain s2 where s2: "addInductionComplements ?Q fs (pb_complementedStatePairs1 p) (k + 1) s1 = Inr s2"
    "restricts s1 s2 (\<lambda>M. \<forall>f < k + 1. pairsOn ?Q (pb_complementedStatePairs1 p) (?fv M f))"
    using inductionComplements_restrict [OF mono [OF le1(2)] le1(1), of "k + 1"] fs(3) by auto
  note r2 = restricts_trans [OF s1(2) s2(2) reads]
  note le2 = restrictsD(1,2) [OF r2]
  obtain s3 where s3: "foldE (\<lambda>frame. foldE (equalityStep ?Q fs frame) (pb_sameFrameStateEqualityPairs0 p)) [0..<k + 1] s2 = Inr s3"
    "restricts s2 s3 (\<lambda>M. \<forall>f < k + 1. equalOn ?Q (pb_sameFrameStateEqualityPairs0 p) (?fv M f))"
    using equalityFrames_restrict [OF mono [OF le2(2)] le2(1) eq_refl [OF sym [OF fs(3)]]] by blast
  note r3 = restricts_trans [OF r2 s3(2) reads]
  note le3 = restrictsD(1,2) [OF r3]
  obtain s4 where s4: "foldE (\<lambda>frame. foldE (equalityStep ?Q fs frame) (pb_sameFrameStateEqualityPairs1 p)) [0..<k + 1] s3 = Inr s4"
    "restricts s3 s4 (\<lambda>M. \<forall>f < k + 1. equalOn ?Q (pb_sameFrameStateEqualityPairs1 p) (?fv M f))"
    using equalityFrames_restrict [OF mono [OF le3(2)] le3(1) eq_refl [OF sym [OF fs(3)]]] by blast
  note r4 = restricts_trans [OF r3 s4(2) reads]
  note le4 = restrictsD(1,2) [OF r4]
  obtain s5 where s5: "addInductionRailValidity ?Q fs (pb_dualRailStatePairs p) (k + 1) s4 = Inr s5"
    "restricts s4 s5 (\<lambda>M. \<forall>f < k + 1. railsOn ?Q (pb_dualRailStatePairs p) (?fv M f))"
    using inductionValidity_restrict [OF mono [OF le4(2)] le4(1), of "k + 1"] fs(3) by auto
  note r5 = restricts_trans [OF r4 s5(2) reads]
  note le5 = restrictsD(1,2) [OF r5]
  obtain s6 where s6: "addResetInputConstraints fs p (k + 1) s5 = Inr s6"
    "restricts s5 s6 (\<lambda>M. \<forall>f < k + 1. resetOn ?Q p (?fv M f))"
    using resetInputs_restrict [OF mono [OF le5(2)] le5(1), of "k + 1"] fs(3) by auto
  note r6 = restricts_trans [OF r5 s6(2) reads]
  have "addSameFrameStateEqualities ?Q fs p (k + 1) s2 = Inr s4"
    unfolding addSameFrameStateEqualities_def s3(1) bindE_simps by (rule s4(1))
  then have "inductionSideConstraints coi fs p k s = Inr s6"
    unfolding inductionSideConstraints_def Let_def Q s1(1) bindE_simps s2(1) by (simp only: bindE_simps s5(1) s6(1))
  moreover have "restricts s s6 (\<lambda>M. \<forall>f < k + 1. frameLegal ?Q p (?fv M f))"
    by (rule restricts_weaken [OF r6]) (auto simp: frameLegal_def legalOn_def)
  ultimately show ?thesis by blast
qed

section \<open>The transition equations\<close>

text \<open>The equation of a target holds for whatever its symbol resolves to.\<close>

definition targetHolds :: "resolver \<Rightarrow> var_id \<Rightarrow> (var_id \<Rightarrow> bool) \<Rightarrow> (var_id \<Rightarrow> bool) \<Rightarrow> bool" where
  "targetHolds r t env env' = (\<forall>e. resolvedTo r t e \<longrightarrow> env' t = eval env e)"

lemma targetHolds_resolved: "resolvedTo r t e \<Longrightarrow> targetHolds r t env env' = (env' t = eval env e)"
  unfolding targetHolds_def by (metis resolvedTo_eval)

lemma reserveHint_session:
  assumes inv: "resolverInv r" and pub: "\<And>t. t \<in> set ts \<Longrightarrow> published r t"
  shows "\<exists>n r'. transitionRelationNodeReserveHint ts rds r = Inr (n, r') \<and> session r r'"
proof (cases "kMaxExactTransitionNodeCountHintTargets < length ts")
  case True
  then show ?thesis using session_refl [OF inv] by (simp add: transitionRelationNodeReserveHint_def)
next
  case False
  let ?step = "\<lambda>s (hint, r). bindE (transitionNodeCount s r) (\<lambda>(n, r').
      Inr (boundedAddForReserveHint hint n kMaxTransitionNodeCountHint, r'))"
  have "\<exists>y. foldE ?step ts (0, r) = Inr y \<and> session r (snd y)"
  proof (rule foldE_total [where P = "\<lambda>y. session r (snd y)"])
    show "session r (snd (0 :: nat, r))" using session_refl [OF inv] by simp
  next
    fix t and x :: "nat \<times> resolver"
    assume t: "t \<in> set ts" and x: "session r (snd x)"
    have "resolverInv (snd x)" "published (snd x) t"
      using x published_session [OF x] pub [OF t] by (simp_all add: session_def)
    then obtain n r' where "transitionNodeCount t (snd x) = Inr (n, r')" "session (snd x) r'"
      using transitionNodeCount_session by blast
    then show "\<exists>y. ?step t x = Inr y \<and> session r (snd y)"
      using session_trans [OF x] by (cases x) auto
  qed
  then show ?thesis using False by (auto simp: transitionRelationNodeReserveHint_def)
qed

lemma targetEquation_ok:
  assumes en: "frameEncoder fs f S en" "storeInv fs (sv_vars (en_solver en))" and r: "session r0 r"
    and t: "t \<in> knownSymbols fs" "published r0 t" "\<And>e. resolvedTo r0 t e \<Longrightarrow> support e \<subseteq> S"
    and f: "Suc f < fs_numFrames fs"
  shows "\<exists>en' r'. targetEquation fs f t (en, r) = Inr (en', r') \<and> frameEncoder fs f S en' \<and> session r0 r' \<and>
    restricts (en_solver en) (en_solver en') (\<lambda>M. targetHolds r0 t (frameValue fs M f) (frameValue fs M (Suc f)))"
proof -
  have inv: "resolverInv r" and pub: "published r t" using r t(2) published_session [OF r] by (simp_all add: session_def)
  obtain e r' where e: "transitionAt t r = Inr (Some e, r')" "session r r'" "resolvedTo r t e"
    using transitionAt_published [OF inv pub] by blast
  have e0: "resolvedTo r0 t e" using e(3) resolvedTo_session [OF r] by simp
  obtain en' where en': "transitionStep fs [t \<mapsto> e] f t en = Inr en'" "frameEncoder fs f S en'"
    "restricts (en_solver en) (en_solver en') (\<lambda>M. frameValue fs M (Suc f) t = eval (frameValue fs M f) e)"
    using transitionStep_ok [OF en t(1) _ t(3) [OF e0] f, of "[t \<mapsto> e]"] by auto
  have "targetEquation fs f t (en, r) = bindE (transitionStep fs [t \<mapsto> e] f t en) (\<lambda>en'. Inr (en', r'))"
    by (simp add: targetEquation_def e(1) transitionStep_def atE_def bindE_assoc split_def)
  then have "targetEquation fs f t (en, r) = Inr (en', r')" by (simp add: en'(1))
  moreover have "restricts (en_solver en) (en_solver en') (\<lambda>M. targetHolds r0 t (frameValue fs M f) (frameValue fs M (Suc f)))"
    by (rule restricts_weaken [OF en'(3)]) (simp add: targetHolds_resolved [OF e0])
  ultimately show ?thesis using en'(2) session_trans [OF r e(2)] by blast
qed

lemma newEncoder_restricts:
  assumes "solverInv s"
  shows "restricts s (en_solver (newEncoder s m sm cm h)) (\<lambda>M. True)"
  using assms by (auto simp: restricts_def agreeBelow_def)

lemma leafLits_restricted:
  assumes fs: "storeInv fs n" "f < fs_numFrames fs" and S: "set xs \<subseteq> knownSymbols fs"
  shows "\<exists>m. makeLeafLits fs f xs = Inr m \<and> dom m = {x \<in> set xs. \<not> x < 2} \<and>
    (\<forall>x l. m x = Some l \<longrightarrow> getLiteral fs x f = Inr l)"
proof -
  have "hasSymbol fs x" if "x \<in> set xs" "\<not> x < 2" for x using S that by (auto simp: knownSymbols_def)
  then obtain m where m: "makeLeafLits fs f xs = Inr m" using makeLeafLits_total [OF _ fs] by metis
  then show ?thesis using makeLeafLits_ok [OF m] by blast
qed

definition frameStep :: "resolver \<Rightarrow> induction_coi \<Rightarrow> nat \<Rightarrow> (var_id \<Rightarrow> bool) \<Rightarrow> (var_id \<Rightarrow> bool) \<Rightarrow> bool" where
  "frameStep r coi f env env' = (\<forall>t \<in> set (co_targets coi ! f). targetHolds r t env env')"

lemma addTransition_restrict:
  assumes fs: "storeInv fs (sv_vars s)" "solverInv s" and f: "Suc f < fs_numFrames fs" and r: "session r0 r"
    and ts: "set ts \<union> set rds \<subseteq> knownSymbols fs" "frameOk r0 ts rds"
    and pub: "\<And>t. resolverContains t r0 \<Longrightarrow> published r0 t"
  shows "\<exists>s' r'. addTransitionRelation fs ts rds f (s, r) = Inr (s', r') \<and> session r0 r' \<and>
    restricts s s' (\<lambda>M. \<forall>t \<in> set ts. targetHolds r0 t (frameValue fs M f) (frameValue fs M (Suc f)))"
proof -
  have pub0: "published r0 t" if "t \<in> set ts" for t using pub ts(2) that by (simp add: frameOk_def)
  have "resolverInv r" "\<And>t. t \<in> set ts \<Longrightarrow> published r t"
    using r pub0 published_session [OF r] by (simp_all add: session_def)
  then obtain h r1 where h: "transitionRelationNodeReserveHint ts rds r = Inr (h, r1)" "session r r1"
    using reserveHint_session by blast
  obtain m where m: "makeLeafLits fs f rds = Inr m" "dom m = {x \<in> set rds. \<not> x < 2}"
    "\<And>x l. m x = Some l \<Longrightarrow> getLiteral fs x f = Inr l"
    using leafLits_restricted [OF fs(1) Suc_lessD [OF f], of rds] ts(1) by auto
  let ?en = "newEncoder s m None False h" and ?S = "coneReads r0 ts"
  have dom: "?S \<subseteq> dom m" using m(2) ts(2) by (auto simp: frameOk_def coneReads_def)
  have en: "frameEncoder fs f ?S ?en" by (rule frameEncoder_new [OF fs(2,1) m(3) dom])
  let ?I = "\<lambda>x. frameEncoder fs f ?S (fst x) \<and> session r0 (snd x)" and ?proj = "\<lambda>x. en_solver (fst x)"
  let ?P = "\<lambda>t M. targetHolds r0 t (frameValue fs M f) (frameValue fs M (Suc f))"
  have start: "?I (?en, r1)" using en session_trans [OF r h(2)] by simp
  have inv: "solverInv (?proj u)" if "?I u" for u using that by (simp add: frameEncoder_def encInv_def)
  have step: "\<exists>u'. targetEquation fs f t u = Inr u' \<and> ?I u' \<and> restricts (?proj u) (?proj u') (?P t)"
    if t: "t \<in> set ts" and u: "?I u" "sv_vars (?proj (?en, r1)) \<le> sv_vars (?proj u)" for t u
  proof -
    obtain en1 r2 where u': "u = (en1, r2)" by (cases u)
    have I: "frameEncoder fs f ?S en1" "session r0 r2" using u(1) by (simp_all add: u')
    have st: "storeInv fs (sv_vars (en_solver en1))" by (rule storeInv_mono [OF fs(1)]) (use u(2) in \<open>simp add: u'\<close>)
    have "t \<in> knownSymbols fs" using ts(1) t by blast
    from targetEquation_ok [OF I(1) st I(2) this pub0 [OF t] resolvedTo_cone [OF pub0 [OF t] _ t] f] show ?thesis
      unfolding u' by fastforce
  qed
  have reads: "readsBelow (sv_vars (?proj (?en, r1))) (?P t)" for t using readsBelow_frames [OF fs(1)] by simp
  from foldE_restricts_via [where I = ?I and proj = ?proj and f = "targetEquation fs f" and xs = ts and P = ?P,
      OF start inv step reads]
  obtain x where x: "foldE (targetEquation fs f) ts (?en, r1) = Inr x" "?I x"
    "restricts (?proj (?en, r1)) (?proj x) (\<lambda>M. \<forall>t \<in> set ts. ?P t M)" by blast
  obtain en' r' where x': "x = (en', r')" by (cases x)
  have "addTransitionRelation fs ts rds f (s, r) = Inr (en_solver en', r')"
    by (simp add: addTransitionRelation_def h(1) m(1) x(1) [unfolded x'])
  moreover have "restricts s (en_solver en') (\<lambda>M. True \<and> (\<forall>t \<in> set ts. ?P t M))"
    by (rule restricts_trans [OF newEncoder_restricts [OF fs(2)]])
      (use x(3) in \<open>simp add: x'\<close>, rule readsBelow_frames [OF fs(1)])
  ultimately show ?thesis using x(2) by (simp add: x')
qed

lemma frameFormula_restrict:
  assumes fs: "storeInv fs (sv_vars s)" "solverInv s" "f < fs_numFrames fs" and e: "support e \<subseteq> knownSymbols fs"
  shows "\<exists>s'. assertFrameFormula fs e f s = Inr s' \<and> restricts s s' (\<lambda>M. eval (frameValue fs M f) e)"
proof -
  have fin: "finite (vars e)" by simp
  have "hasSymbol fs x" if "x \<in> set (sorted_list_of_set (vars e))" "\<not> x < 2" for x
    using e that by (auto simp: support_ge2 knownSymbols_def not_less)
  then obtain m where m: "makeLeafLits fs f (sorted_list_of_set (vars e)) = Inr m"
    using makeLeafLits_total [OF _ fs(1,3)] by metis
  have dom: "support e \<subseteq> dom m" using makeLeafLits_ok(2) [OF m] by (auto simp: support_ge2 not_less)
  let ?en = "newEncoder s m None False 0"
  have en: "frameEncoder fs f (support e) ?en" by (rule frameEncoder_new [OF fs(2,1) makeLeafLits_ok(1) [OF m] dom])
  obtain s' where s': "encodeAndAssert e ?en = Inr s'" "restricts (en_solver ?en) s' (\<lambda>M. eval (frameValue fs M f) e)"
    using encodeAndAssert_restricts [OF en] fs(1) by auto
  have "restricts s s' (\<lambda>M. True \<and> eval (frameValue fs M f) e)"
    by (rule restricts_trans [OF newEncoder_restricts [OF fs(2)] s'(2) readsBelow_frames [OF fs(1)]])
  then show ?thesis using s'(1) m by (simp add: assertFrameFormula_def makeLeafLitsOfSet_def)
qed

section \<open>The window\<close>

definition inductionWindow :: "problem \<Rightarrow> resolver \<Rightarrow> induction_coi \<Rightarrow> bexpr \<Rightarrow> bexpr \<Rightarrow> nat \<Rightarrow>
    (nat \<Rightarrow> var_id \<Rightarrow> bool) \<Rightarrow> bool" where
  "inductionWindow p r coi property badness k envs =
    ((\<forall>f < k + 1. frameLegal (co_symbolSet coi) p (envs f)) \<and>
     (\<forall>f < k. frameStep r coi f (envs f) (envs (Suc f))) \<and>
     (\<forall>f < k. eval (envs f) property) \<and>
     (shouldAddSimplePathConstraint p coi \<and> co_relevant coi \<noteq> [] \<longrightarrow>
        (\<forall>i < k + 1. \<forall>j < k + 1. i < j \<longrightarrow> (\<exists>x \<in> set (co_relevant coi). envs i x \<noteq> envs j x))) \<and>
     eval (envs k) badness)"

lemma transitions_restrict_all:
  assumes fs: "storeInv fs (sv_vars s)" "solverInv s" "fs_numFrames fs = k + 1" and r: "session r0 r"
    and coi: "coiOk r0 (Some property) (Some badness) k coi" "knownSymbols fs = set (co_symbols coi)"
    and pub: "\<And>t. resolverContains t r0 \<Longrightarrow> published r0 t"
  shows "\<exists>s' r'. foldE (\<lambda>f. addTransitionRelation fs (co_targets coi ! f) (co_support coi ! f) f) [0..<k] (s, r) = Inr (s', r') \<and>
    restricts s s' (\<lambda>M. \<forall>f < k. frameStep r0 coi f (frameValue fs M f) (frameValue fs M (Suc f)))"
proof -
  let ?I = "\<lambda>x. solverInv (fst x) \<and> storeInv fs (sv_vars (fst x)) \<and> session r0 (snd x)"
  let ?P = "\<lambda>f M. frameStep r0 coi f (frameValue fs M f) (frameValue fs M (Suc f))"
  have step: "\<exists>u'. addTransitionRelation fs (co_targets coi ! f) (co_support coi ! f) f u = Inr u' \<and> ?I u' \<and>
      restricts (fst u) (fst u') (?P f)"
    if f: "f \<in> set [0..<k]" and u: "?I u" "sv_vars (fst (s, r)) \<le> sv_vars (fst u)" for f u
  proof -
    obtain s1 r1 where u': "u = (s1, r1)" by (cases u)
    have I: "solverInv s1" "storeInv fs (sv_vars s1)" "session r0 r1" using u(1) by (simp_all add: u')
    have "Suc f < fs_numFrames fs" "set (co_targets coi ! f) \<union> set (co_support coi ! f) \<subseteq> knownSymbols fs"
      "frameOk r0 (co_targets coi ! f) (co_support coi ! f)"
      using f fs(3) coi by (simp_all add: coiOk_def)
    from addTransition_restrict [OF I(2,1) this(1) I(3) this(2,3) pub]
    obtain s2 r2 where s2: "addTransitionRelation fs (co_targets coi ! f) (co_support coi ! f) f (s1, r1) = Inr (s2, r2)"
      "session r0 r2"
      "restricts s1 s2 (\<lambda>M. \<forall>t \<in> set (co_targets coi ! f). targetHolds r0 t (frameValue fs M f) (frameValue fs M (Suc f)))"
      by blast
    then show ?thesis
      using storeInv_mono [OF I(2) restrictsD(2) [OF s2(3)]] restrictsD(1) [OF s2(3)] by (simp add: u' frameStep_def)
  qed
  have reads: "readsBelow (sv_vars (fst (s, r))) (?P f)" for f using readsBelow_frames [OF fs(1)] by simp
  have start: "?I (s, r)" using fs r by simp
  from foldE_restricts_via [where I = ?I and proj = fst and xs = "[0..<k]" and P = ?P and
      f = "\<lambda>f. addTransitionRelation fs (co_targets coi ! f) (co_support coi ! f) f", OF start _ step reads]
  obtain x where x: "foldE (\<lambda>f. addTransitionRelation fs (co_targets coi ! f) (co_support coi ! f) f) [0..<k] (s, r) = Inr x"
    "restricts (fst (s, r)) (fst x) (\<lambda>M. \<forall>f \<in> set [0..<k]. ?P f M)" by blast
  then show ?thesis by (cases x) (auto elim!: restricts_weaken)
qed

lemma simplePath_restrict:
  assumes fs: "storeInv fs (sv_vars s)" "solverInv s" "fs_numFrames fs = n" and xs: "set xs \<subseteq> knownSymbols fs"
  shows "\<exists>s'. (if b then addSimplePathConstraint fs xs 0 n s else Inr s) = Inr s' \<and>
    restricts s s' (\<lambda>M. b \<and> xs \<noteq> [] \<longrightarrow> (\<forall>i < n. \<forall>j < n. i < j \<longrightarrow> (\<exists>x \<in> set xs. frameValue fs M i x \<noteq> frameValue fs M j x)))"
proof (cases "b \<and> xs \<noteq> []")
  case True
  obtain s' where s': "addSimplePathConstraint fs xs 0 n s = Inr s'"
    "restricts s s' (\<lambda>M. \<forall>i \<in> set [0..<0 + n]. \<forall>j \<in> set [i + 1..<0 + n]. framesDiffer fs xs i j M)"
    using addSimplePath_restricts [OF fs(1,2), of xs 0 n] xs True fs(3) by (auto simp: knownSymbols_def)
  have "restricts s s' (\<lambda>M. b \<and> xs \<noteq> [] \<longrightarrow> (\<forall>i < n. \<forall>j < n. i < j \<longrightarrow> (\<exists>x \<in> set xs. frameValue fs M i x \<noteq> frameValue fs M j x)))"
    by (rule restricts_weaken [OF s'(2)]) (use True in \<open>auto simp: framesDiffer_def\<close>)
  then show ?thesis using s'(1) True by auto
next
  case False
  have "(if b then addSimplePathConstraint fs xs 0 n s else Inr s) = Inr s"
    using False by (auto simp: addSimplePathConstraint_def)
  moreover have "restricts s s (\<lambda>M. b \<and> xs \<noteq> [] \<longrightarrow> (\<forall>i < n. \<forall>j < n. i < j \<longrightarrow> (\<exists>x \<in> set xs. frameValue fs M i x \<noteq> frameValue fs M j x)))"
    by (rule restricts_weaken [OF restricts_refl [OF fs(2)]]) (use False in blast)
  ultimately show ?thesis by blast
qed

lemma assertWindow_restrict:
  assumes fs: "storeInv fs (sv_vars s)" "solverInv s" "fs_numFrames fs = k + 1" and r: "session r0 r"
    and coi: "coiOk r0 (Some property) (Some badness) k coi" "knownSymbols fs = set (co_symbols coi)"
    and pub: "\<And>t. resolverContains t r0 \<Longrightarrow> published r0 t"
  shows "\<exists>s'. assertWindow coi fs p property badness k (s, r) = Inr s' \<and>
    restricts s s' (\<lambda>M. (\<forall>f < k. frameStep r0 coi f (frameValue fs M f) (frameValue fs M (Suc f))) \<and>
      (\<forall>f < k. eval (frameValue fs M f) property) \<and>
      (shouldAddSimplePathConstraint p coi \<and> co_relevant coi \<noteq> [] \<longrightarrow>
        (\<forall>i < k + 1. \<forall>j < k + 1. i < j \<longrightarrow> (\<exists>x \<in> set (co_relevant coi). frameValue fs M i x \<noteq> frameValue fs M j x))) \<and>
      eval (frameValue fs M k) badness)"
proof -
  note mono = storeInv_mono [OF fs(1)] and reads = readsBelow_frames [OF fs(1)]
  have rds: "support property \<subseteq> knownSymbols fs" "support badness \<subseteq> knownSymbols fs" "set (co_relevant coi) \<subseteq> knownSymbols fs"
    using coi by (simp_all add: coiOk_def)
  obtain s1 r1 where s1: "foldE (\<lambda>f. addTransitionRelation fs (co_targets coi ! f) (co_support coi ! f) f) [0..<k] (s, r) = Inr (s1, r1)"
    "restricts s s1 (\<lambda>M. \<forall>f < k. frameStep r0 coi f (frameValue fs M f) (frameValue fs M (Suc f)))"
    using transitions_restrict_all [OF fs r coi pub] by blast
  note le1 = restrictsD(1,2) [OF s1(2)]
  have "\<exists>s2. foldE (assertFrameFormula fs property) [0..<k] s1 = Inr s2 \<and>
      restricts s1 s2 (\<lambda>M. \<forall>f \<in> set [0..<k]. eval (frameValue fs M f) property)"
  proof (rule foldE_restricts [OF le1(1)])
    fix f u
    assume "f \<in> set [0..<k]" "solverInv u" "sv_vars s1 \<le> sv_vars u"
    then show "\<exists>u'. assertFrameFormula fs property f u = Inr u' \<and> restricts u u' (\<lambda>M. eval (frameValue fs M f) property)"
      using fs(3) le1(2) by (intro frameFormula_restrict mono rds) auto
  qed (rule readsBelow_frames [OF mono [OF le1(2)]])
  then obtain s2 where s2: "foldE (assertFrameFormula fs property) [0..<k] s1 = Inr s2"
    "restricts s1 s2 (\<lambda>M. \<forall>f \<in> set [0..<k]. eval (frameValue fs M f) property)" by blast
  note r2 = restricts_trans [OF s1(2) s2(2) reads]
  note le2 = restrictsD(1,2) [OF r2]
  obtain s3 where s3: "(if shouldAddSimplePathConstraint p coi then addSimplePathConstraint fs (co_relevant coi) 0 (k + 1) s2 else Inr s2) = Inr s3"
    "restricts s2 s3 (\<lambda>M. shouldAddSimplePathConstraint p coi \<and> co_relevant coi \<noteq> [] \<longrightarrow>
        (\<forall>i < k + 1. \<forall>j < k + 1. i < j \<longrightarrow> (\<exists>x \<in> set (co_relevant coi). frameValue fs M i x \<noteq> frameValue fs M j x)))"
    using simplePath_restrict [OF mono [OF le2(2)] le2(1) fs(3) rds(3)] by blast
  note r3 = restricts_trans [OF r2 s3(2) reads]
  note le3 = restrictsD(1,2) [OF r3]
  obtain s4 where s4: "assertFrameFormula fs badness k s3 = Inr s4" "restricts s3 s4 (\<lambda>M. eval (frameValue fs M k) badness)"
    using frameFormula_restrict [OF mono [OF le3(2)] le3(1) _ rds(2), of k] fs(3) by auto
  note r4 = restricts_trans [OF r3 s4(2) reads]
  have "assertWindow coi fs p property badness k (s, r) = Inr s4"
    unfolding assertWindow_def s1(1) bindE_simps prod.case s2(1) s3(1) by (rule s4(1))
  then show ?thesis using r4 by (auto elim!: restricts_weaken)
qed

section \<open>What the step decides\<close>

lemma frameLegal_cong:
  assumes "\<And>x. x \<in> Q \<Longrightarrow> env x = fnv x"
  shows "frameLegal Q p env = frameLegal Q p fnv"
proof -
  have "legalOn Q p env = legalOn Q p fnv" by (rule legalOn_cong) (rule assms)
  moreover have "equalOn Q pairs env = equalOn Q pairs fnv" for pairs
    using assms by (simp add: equalOn_def cong: imp_cong)
  moreover have "resetOn Q p env = resetOn Q p fnv" using assms by (simp add: resetOn_def cong: imp_cong)
  ultimately show ?thesis by (simp add: frameLegal_def)
qed

lemma frameStep_cong:
  assumes coi: "coiOk r prop bad k coi" and f: "f < k" and pub: "\<And>t. resolverContains t r \<Longrightarrow> published r t"
    and a: "\<And>x. x \<in> set (co_symbols coi) \<Longrightarrow> env x = fnv x" and b: "\<And>x. x \<in> set (co_symbols coi) \<Longrightarrow> env' x = fnv' x"
  shows "frameStep r coi f env env' = frameStep r coi f fnv fnv'"
proof -
  have ok: "frameOk r (co_targets coi ! f) (co_support coi ! f)"
    "set (co_targets coi ! f) \<union> set (co_support coi ! f) \<subseteq> set (co_symbols coi)"
    using coi f by (simp_all add: coiOk_def)
  have "targetHolds r t env env' = targetHolds r t fnv fnv'" if t: "t \<in> set (co_targets coi ! f)" for t
  proof -
    have p: "published r t" using pub ok(1) t by (simp add: frameOk_def)
    have "eval env e = eval fnv e" if "resolvedTo r t e" for e
    proof (rule eval_cong)
      fix v assume "v \<in> support e"
      then have "v \<in> set (co_support coi ! f)" using resolvedTo_cone [OF p that t] ok(1) by (auto simp: frameOk_def)
      then show "env v = fnv v" using a ok(2) by blast
    qed
    moreover have "env' t = fnv' t" using b ok(2) t by blast
    ultimately show ?thesis by (auto simp: targetHolds_def)
  qed
  then show ?thesis by (simp add: frameStep_def)
qed

lemma inductionWindow_cong:
  assumes coi: "coiOk r (Some property) (Some badness) k coi" and pub: "\<And>t. resolverContains t r \<Longrightarrow> published r t"
    and e: "\<And>f x. f < k + 1 \<Longrightarrow> x \<in> set (co_symbols coi) \<Longrightarrow> envs f x = fnvs f x"
  shows "inductionWindow p r coi property badness k envs = inductionWindow p r coi property badness k fnvs"
proof -
  have Q: "co_symbolSet coi = set (co_symbols coi)" "support property \<subseteq> set (co_symbols coi)"
    "support badness \<subseteq> set (co_symbols coi)" "set (co_relevant coi) \<subseteq> set (co_symbols coi)"
    using coi by (simp_all add: coiOk_def)
  have "frameLegal (co_symbolSet coi) p (envs f) = frameLegal (co_symbolSet coi) p (fnvs f)" if "f < k + 1" for f
    unfolding Q(1) by (rule frameLegal_cong) (rule e [OF that])
  moreover have "frameStep r coi f (envs f) (envs (Suc f)) = frameStep r coi f (fnvs f) (fnvs (Suc f))" if "f < k" for f
    by (rule frameStep_cong [OF coi that pub]) (use that e in auto)
  moreover have "eval (envs f) property = eval (fnvs f) property" if "f < k" for f
    by (rule eval_cong) (use that Q(2) e in auto)
  moreover have "eval (envs k) badness = eval (fnvs k) badness"
    by (rule eval_cong) (use Q(3) e in auto)
  moreover have "(\<exists>x \<in> set (co_relevant coi). envs i x \<noteq> envs j x) = (\<exists>x \<in> set (co_relevant coi). fnvs i x \<noteq> fnvs j x)"
    if ij: "i < k + 1" "j < k + 1" for i j
  proof (rule bex_cong [OF refl])
    fix x assume "x \<in> set (co_relevant coi)"
    then have "x \<in> set (co_symbols coi)" using Q(4) by blast
    then show "(envs i x \<noteq> envs j x) = (fnvs i x \<noteq> fnvs j x)" using e [OF ij(1)] e [OF ij(2)] by simp
  qed
  ultimately show ?thesis unfolding inductionWindow_def by auto
qed

lemma solveWindow_sound:
  assumes B: "soundBackend B"
  shows "\<exists>st. solveWindow B limit s = Inr st \<and> soundStatus (sv_clauses s) [] st \<and>
    (limit = None \<longrightarrow> completeBackend B \<longrightarrow> sv_kissatLimits s = (- 1, - 1) \<longrightarrow> st \<noteq> Unknown)"
proof (cases limit)
  case None
  then show ?thesis using solveStatus_sound [OF B] solveStatus_decides by (auto simp: solveWindow_def)
next
  case (Some l)
  show ?thesis
  proof (cases "sv_type s")
    case KISSAT
    let ?s = "s\<lparr> sv_kissatLimits := (unsignedLimit (- 1) (fst (sv_kissatLimits s)), unsignedLimit l (snd (sv_kissatLimits s))) \<rparr>"
    have "soundStatus (sv_clauses ?s) [] (solveStatus B ?s)" by (rule solveStatus_sound [OF B])
    then show ?thesis using Some KISSAT by (simp add: solveWindow_def solveWithKissatResourceLimits_def Let_def)
  next
    case GLUCOSE
    then show ?thesis using Some solveStatus_sound [OF B] by (simp add: solveWindow_def)
  next
    case CADICAL
    have "soundStatus (sv_clauses s) [] Unknown" by (simp add: soundStatus_def)
    then show ?thesis
      using Some CADICAL solveCadical_sound [OF B, of s "[]" "uint l" "uint l" "- 1" True]
      by (cases "solveCadicalWithResourceLimits B [] (uint l) (uint l) (- 1) True s")
         (auto simp: solveWindow_def solveWithAssumptionsStatus_def checkLits_def Let_def)
  qed
qed

definition statusMeans :: "induction_status \<Rightarrow> bool \<Rightarrow> bool" where
  "statusMeans st windowExists = ((st = Proved \<longrightarrow> \<not> windowExists) \<and> (st = NotProved \<longrightarrow> windowExists))"

definition publishedProblem :: "problem \<Rightarrow> bool" where
  "publishedProblem p = (resolverInv (newResolver p) \<and>
     (\<forall>t. resolverContains t (newResolver p) \<longrightarrow> published (newResolver p) t))"

lemma proveByInduction_ok:
  assumes B: "soundBackend B" and pub: "publishedProblem p" and cache: "inductionCacheOk ad p (newResolver p) c"
    and forms: "inductionPropertyOf p = Some property" "inductionBadOf p = Some badness"
  shows "\<exists>coi r c' st. buildInductionCoi ad p (Some property) (Some badness) k c = Inr (coi, r, c') \<and>
    coiOk (newResolver p) (Some property) (Some badness) k coi \<and> inductionCacheOk ad p (newResolver p) c' \<and>
    proveByInductionStatus B ad p t k limit c = Inr (st, c') \<and>
    statusMeans st (\<exists>envs. inductionWindow p (newResolver p) coi property badness k envs) \<and>
    (limit = None \<longrightarrow> completeBackend B \<longrightarrow> st \<noteq> InductionUnknown)"
proof -
  let ?r = "newResolver p"
  have inv: "resolverInv ?r" and pubs: "\<And>t. resolverContains t ?r \<Longrightarrow> published ?r t"
    using pub by (simp_all add: publishedProblem_def)
  have "\<And>t. resolverContains t ?r \<Longrightarrow> \<exists>S. directSupport t ?r = Inr S" using pubs by (simp add: published_def)
  from buildInductionCoi_ok [OF inv cache this, of "Some property" "Some badness" k]
  obtain coi r c' where coi: "buildInductionCoi ad p (Some property) (Some badness) k c = Inr (coi, r, c')"
    "session ?r r" "inductionCacheOk ad p r c'" "coiOk ?r (Some property) (Some badness) k coi" by blast
  have rinv: "resolverInv r" using coi(2) by (simp add: session_def)
  have c'ok: "inductionCacheOk ad p ?r c'"
    using coi(3) entryOk_session [OF coi(2)] by (simp add: inductionCacheOk_def split: option.splits)
  have r2: "session ?r (newResolver (tr_problem r))"
    by (rule session_trans [OF coi(2) newResolver_session [OF rinv anchored_session [OF anchored_new coi(2)]]])
  obtain fs s0 where f: "newFrameStore (co_symbols coi) (k + 1) (newSolver t) = (fs, s0)" by fastforce
  have dist: "distinct (co_symbols coi)" and Q: "co_symbolSet coi = set (co_symbols coi)" using coi(4) by (simp_all add: coiOk_def)
  have fs: "storeInv fs (sv_vars s0)" "knownSymbols fs = set (co_symbols coi)" "fs_numFrames fs = k + 1" "sv_clauses s0 = []"
    using newFrameStore_ok [OF f dist] by (auto simp: knownSymbols_def newSolver_def)
  have s0: "solverInv s0" "\<And>M. models M s0" using fs(4) by (simp_all add: solverInv_def models_def satisfies_def)
  let ?fv = "frameValue fs" and ?win = "inductionWindow p ?r coi property badness k"
  obtain s1 where s1: "inductionSideConstraints coi fs p k s0 = Inr s1"
    "restricts s0 s1 (\<lambda>M. \<forall>f < k + 1. frameLegal (knownSymbols fs) p (?fv M f))"
    using inductionSide_restrict [OF fs(1) s0(1) fs(3), of coi p] Q fs(2) by auto
  note le1 = restrictsD(1,2) [OF s1(2)]
  obtain s2 where s2: "assertWindow coi fs p property badness k (s1, newResolver (tr_problem r)) = Inr s2"
    "restricts s1 s2 (\<lambda>M. (\<forall>f < k. frameStep ?r coi f (?fv M f) (?fv M (Suc f))) \<and>
      (\<forall>f < k. eval (?fv M f) property) \<and>
      (shouldAddSimplePathConstraint p coi \<and> co_relevant coi \<noteq> [] \<longrightarrow>
        (\<forall>i < k + 1. \<forall>j < k + 1. i < j \<longrightarrow> (\<exists>x \<in> set (co_relevant coi). ?fv M i x \<noteq> ?fv M j x))) \<and>
      eval (?fv M k) badness)"
    using assertWindow_restrict [OF storeInv_mono [OF fs(1) le1(2)] le1(1) fs(3) r2 coi(4) fs(2) pubs, of p] by blast
  have r: "restricts s0 s2 (\<lambda>M. ?win (?fv M))"
    by (rule restricts_weaken [OF restricts_trans [OF s1(2) s2(2) readsBelow_frames [OF fs(1)]]])
      (simp add: inductionWindow_def Q fs(2))
  have limits: "sv_kissatLimits s2 = (- 1, - 1)"
    using sameBackend_trans [OF newFrameStore_backend [OF f] restrictsD(3) [OF r]] by (simp add: sameBackend_def newSolver_def)
  have sat: "(\<exists>M. models M s2) \<longleftrightarrow> (\<exists>envs. ?win envs)"
  proof
    assume "\<exists>M. models M s2"
    then show "\<exists>envs. ?win envs" using restrictsD(5) [OF r] by blast
  next
    assume "\<exists>envs. ?win envs"
    then obtain envs where w: "?win envs" by blast
    obtain M where M: "\<forall>x f. hasSymbol fs x \<longrightarrow> f < fs_numFrames fs \<longrightarrow> ?fv M f x = envs f x"
      using frames_free [OF fs(1), where envs = envs] by blast
    have "?win envs = ?win (?fv M)"
      by (rule inductionWindow_cong [OF coi(4) pubs]) (use M fs(2,3) in \<open>auto simp: knownSymbols_def\<close>)
    then show "\<exists>M. models M s2" using w r s0(2) unfolding restricts_def by blast
  qed
  obtain st where st: "solveWindow B limit s2 = Inr st" "soundStatus (sv_clauses s2) [] st"
    "limit = None \<longrightarrow> completeBackend B \<longrightarrow> st \<noteq> Unknown"
    using solveWindow_sound [OF B, of limit s2] limits by blast
  have "statusMeans (statusOfAnswer st) (\<exists>envs. ?win envs)"
    using st(2) sat by (cases st) (auto simp: statusMeans_def dest: soundStatusD)
  moreover have "proveByInductionStatus B ad p t k limit c = Inr (statusOfAnswer st, c')"
    unfolding proveByInductionStatus_def forms coi(1) bindE_simps prod.case option.case f s1(1) s2(1) st(1) ..
  moreover have "limit = None \<longrightarrow> completeBackend B \<longrightarrow> statusOfAnswer st \<noteq> InductionUnknown"
    using st(3) by (cases st) auto
  ultimately show ?thesis using coi(1,4) c'ok by blast
qed

section \<open>Runs\<close>

text \<open>A run of the cone: every frame is legal and every relevant symbol with a transition takes the
  value of that transition.  Every run of the whole problem is one.\<close>

definition coneRun :: "problem \<Rightarrow> induction_coi \<Rightarrow> (nat \<Rightarrow> var_id \<Rightarrow> bool) \<Rightarrow> bool" where
  "coneRun p coi envs = ((\<forall>f. frameLegal (co_symbolSet coi) p (envs f)) \<and>
     (\<forall>f. \<forall>t \<in> set (co_relevant coi). resolverContains t (newResolver p) \<longrightarrow>
        targetHolds (newResolver p) t (envs f) (envs (Suc f))))"

definition agreesOn :: "var_id list \<Rightarrow> (var_id \<Rightarrow> bool) \<Rightarrow> (var_id \<Rightarrow> bool) \<Rightarrow> bool" where
  "agreesOn xs env env' = (\<forall>x \<in> set xs. env x = env' x)"

lemma run_window:
  assumes coi: "coiOk (newResolver p) (Some property) (Some badness) k coi" and run: "coneRun p coi envs"
    and w: "\<And>f. f < k \<Longrightarrow> eval (envs (a + f)) property" "eval (envs (a + k)) badness"
    and none: "\<not> (\<exists>fs. inductionWindow p (newResolver p) coi property badness k fs)"
  shows "shouldAddSimplePathConstraint p coi \<and> co_relevant coi \<noteq> [] \<and>
    (\<exists>i j. i < j \<and> j \<le> a + k \<and> agreesOn (co_relevant coi) (envs i) (envs j))"
proof -
  have "frameStep (newResolver p) coi f (envs (a + f)) (envs (a + Suc f))" if "f < k" for f
  proof -
    have "set (co_targets coi ! f) \<subseteq> set (co_relevant coi)"
      "\<forall>t \<in> set (co_targets coi ! f). resolverContains t (newResolver p)"
      using coi that by (simp_all add: coiOk_def frameOk_def)
    then show ?thesis using run unfolding frameStep_def coneRun_def by auto
  qed
  moreover have "frameLegal (co_symbolSet coi) p (envs (a + f))" for f using run by (simp add: coneRun_def)
  moreover have "\<not> inductionWindow p (newResolver p) coi property badness k (\<lambda>f. envs (a + f))" using none by blast
  ultimately obtain i j where "shouldAddSimplePathConstraint p coi" "co_relevant coi \<noteq> []" "j < k + 1" "i < j"
    "agreesOn (co_relevant coi) (envs (a + i)) (envs (a + j))"
    using w unfolding inductionWindow_def agreesOn_def by blast
  moreover from this have "a + i < a + j" "a + j \<le> a + k" by simp_all
  ultimately show ?thesis by blast
qed

text \<open>Cutting a loop of relevant symbols out of a run.\<close>

definition cutRun :: "nat \<Rightarrow> nat \<Rightarrow> (nat \<Rightarrow> 'a) \<Rightarrow> nat \<Rightarrow> 'a" where
  "cutRun i j envs f = (if f < i then envs f else envs (f + (j - i)))"

lemma cutRun_coneRun:
  assumes run: "coneRun p coi envs" and ij: "i < j" and same: "agreesOn (co_relevant coi) (envs i) (envs j)"
  shows "coneRun p coi (cutRun i j envs)"
proof -
  have "targetHolds (newResolver p) t (cutRun i j envs f) (cutRun i j envs (Suc f))"
    if t: "t \<in> set (co_relevant coi)" "resolverContains t (newResolver p)" for f t
  proof -
    have step: "targetHolds (newResolver p) t (envs g) (envs (Suc g))" for g using run t by (simp add: coneRun_def)
    show ?thesis
    proof (cases "Suc f = i")
      case True
      have "envs (Suc f) t = envs j t" using same t(1) True by (auto simp: agreesOn_def)
      then show ?thesis using step [of f] True ij by (auto simp: cutRun_def targetHolds_def)
    next
      case False
      then show ?thesis using step [of f] step [of "f + (j - i)"] by (auto simp: cutRun_def)
    qed
  qed
  then show ?thesis using run by (simp add: coneRun_def cutRun_def)
qed

text \<open>Proof of the step and of the first k frames: no run reaches a bad frame.  A shortest bad run
  has no loop, so the simple-path constraint never hides it.\<close>

lemma induction_run:
  assumes coi: "coiOk (newResolver p) (Some property) (Some badness) k coi"
    and none: "\<not> (\<exists>fs. inductionWindow p (newResolver p) coi property badness k fs)"
    and good: "\<And>env. \<not> eval env badness \<Longrightarrow> eval env property"
    and start: "\<forall>env env'. start env \<longrightarrow> agreesOn (co_relevant coi) env env' \<longrightarrow> start env'"
    and base: "\<forall>es f. coneRun p coi es \<longrightarrow> start (es 0) \<longrightarrow> f < k \<longrightarrow> \<not> eval (es f) badness"
    and run: "coneRun p coi envs" "start (envs 0)"
  shows "\<not> eval (envs n) badness"
  using run
proof (induction n arbitrary: envs rule: less_induct)
  case (less n)
  show ?case
  proof
    assume bad: "eval (envs n) badness"
    then have "k \<le> n" using base less.prems not_le_imp_less by blast
    then have n: "n - k + k = n" by simp
    have p: "eval (envs (n - k + f)) property" if "f < k" for f
      using good less.IH [OF _ less.prems, of "n - k + f"] n that by simp
    have b: "eval (envs (n - k + k)) badness" using bad by (simp only: n)
    from run_window [OF coi less.prems(1) p b none] obtain i j where
      ij: "i < j" "j \<le> n" "agreesOn (co_relevant coi) (envs i) (envs j)" unfolding n by blast
    let ?cut = "cutRun i j envs"
    have first: "start (?cut 0)"
      using less.prems(2) start ij by (cases "i = 0") (auto simp: cutRun_def)
    have end_: "\<not> n - (j - i) < i" "n - (j - i) + (j - i) = n" "n - (j - i) < n" using ij(1,2) by linarith+
    then have same: "?cut (n - (j - i)) = envs n" by (simp only: cutRun_def if_False)
    show False
      using less.IH [OF end_(3) cutRun_coneRun [OF less.prems(1) ij(1,3)] first] bad unfolding same by blast
  qed
qed

lemma proved_runs_safe:
  assumes B: "soundBackend B" and pub: "publishedProblem p" and cache: "inductionCacheOk ad p (newResolver p) c"
    and forms: "inductionPropertyOf p = Some property" "inductionBadOf p = Some badness"
    and proved: "proveByInductionStatus B ad p t k limit c = Inr (Proved, c')"
    and cone: "buildInductionCoi ad p (Some property) (Some badness) k c = Inr (coi, r, c'')"
    and good: "\<And>env. \<not> eval env badness \<Longrightarrow> eval env property"
    and start: "\<forall>env env'. start env \<longrightarrow> agreesOn (co_relevant coi) env env' \<longrightarrow> start env'"
    and base: "\<forall>es f. coneRun p coi es \<longrightarrow> start (es 0) \<longrightarrow> f < k \<longrightarrow> \<not> eval (es f) badness"
    and run: "coneRun p coi envs" "start (envs 0)"
  shows "\<not> eval (envs n) badness"
proof -
  from proveByInduction_ok [OF B pub cache forms, of k t limit]
  have coi: "coiOk (newResolver p) (Some property) (Some badness) k coi"
    and none: "\<not> (\<exists>fs. inductionWindow p (newResolver p) coi property badness k fs)"
    using proved cone by (auto simp: statusMeans_def)
  show ?thesis by (rule induction_run [where start = start and envs = envs, OF coi none good start base run])
qed

lemma eager_published: "pb_lazyTransitions p = None \<Longrightarrow> publishedProblem p"
  using newResolver_inv [of p]
  by (auto simp: publishedProblem_def published_def resolverContains_def storeOf_def directSupport_def resolvedTo_def
      newResolver_def split: option.splits)

section \<open>Twin latches\<close>

text \<open>Two state bits recorded as equal in every frame, which must not differ.\<close>

definition twinProblem :: problem where
  "twinProblem = emptyProblem\<lparr> pb_state0Symbols := [4], pb_state1Symbols := [5], pb_allSymbols := [4, 5],
     pb_transitions0 := [(4, BVar 4)], pb_transitions1 := [(5, BVar 5)], pb_sameFrameStateEqualityPairs0 := [(4, 5)],
     pb_property := Some (BNot (BXor (BVar 4) (BVar 5))), pb_bad := Some (BXor (BVar 4) (BVar 5)) \<rparr>"

definition twinAddresses :: problem_addresses where
  "twinAddresses = \<lparr> ad_lazy = 0, ad_transitions0 = 4096, ad_transitions1 = 4112, ad_state0 = 8192, ad_state1 = 8200 \<rparr>"

lemma twin_fields [simp]:
  "inductionPropertyOf twinProblem = Some (BNot (BXor (BVar 4) (BVar 5)))"
  "inductionBadOf twinProblem = Some (BXor (BVar 4) (BVar 5))"
  "pb_sameFrameStateEqualityPairs0 twinProblem = [(4, 5)]" "pb_lazyTransitions twinProblem = None"
  by (simp_all add: twinProblem_def emptyProblem_def inductionPropertyOf_def inductionBadOf_def)

lemma twin_published [simp]: "publishedProblem twinProblem"
  by (rule eager_published) simp

lemma twin_legal:
  assumes "coiOk r prop (Some (BXor (BVar 4) (BVar 5))) k coi" "frameLegal (co_symbolSet coi) twinProblem env"
  shows "env 4 = env 5"
proof -
  have "support (BXor (BVar 4) (BVar 5)) = {4, 5}" by (auto simp: support_def ge2_iff)
  then have "{4, 5} \<subseteq> co_symbolSet coi" using assms(1) unfolding coiOk_def by fastforce
  then show ?thesis using assms(2) by (simp add: frameLegal_def equalOn_def)
qed

lemma twin_step:
  assumes B: "soundBackend B" "completeBackend B"
  shows "\<exists>coi r c c'. buildInductionCoi ad twinProblem (inductionPropertyOf twinProblem) (inductionBadOf twinProblem) k None =
      Inr (coi, r, c) \<and> proveByInductionStatus B ad twinProblem t k None None = Inr (Proved, c') \<and>
    (\<forall>envs f. coneRun twinProblem coi envs \<longrightarrow> envs f 4 = envs f 5)"
proof -
  have "inductionCacheOk ad twinProblem (newResolver twinProblem) None" by (simp add: inductionCacheOk_def)
  from proveByInduction_ok [OF B(1) twin_published this twin_fields(1,2), of k t None]
  obtain coi r c' st where p: "buildInductionCoi ad twinProblem (inductionPropertyOf twinProblem) (inductionBadOf twinProblem) k None = Inr (coi, r, c')"
    "coiOk (newResolver twinProblem) (inductionPropertyOf twinProblem) (Some (BXor (BVar 4) (BVar 5))) k coi"
    "proveByInductionStatus B ad twinProblem t k None None = Inr (st, c')" "st \<noteq> InductionUnknown"
    "statusMeans st (\<exists>envs. inductionWindow twinProblem (newResolver twinProblem) coi (BNot (BXor (BVar 4) (BVar 5))) (BXor (BVar 4) (BVar 5)) k envs)"
    using B(2) unfolding twin_fields by blast
  have "\<not> inductionWindow twinProblem (newResolver twinProblem) coi (BNot (BXor (BVar 4) (BVar 5))) (BXor (BVar 4) (BVar 5)) k envs" for envs
    using twin_legal [OF p(2), of "envs k"] by (auto simp: inductionWindow_def)
  then have "st = Proved" using p(4,5) by (cases st) (auto simp: statusMeans_def)
  moreover have "envs f 4 = envs f 5" if "coneRun twinProblem coi envs" for envs f
    using twin_legal [OF p(2), of "envs f"] that by (simp add: coneRun_def)
  ultimately show ?thesis using p(1,3) by blast
qed

end
