(* ===== verification/Output_Batching.thy ===== *)
theory Output_Batching
  imports KI_Problem Expr_Utils Expr_Simplify
begin

text \<open>
  Output slices of a proof problem (\<open>sec/kinduction/OutputBatching.cpp\<close>): the limits chosen for a
  problem, the greedy cut of the outputs into ranges whose joint support stays bounded, and the
  problem of one range.  \<open>rememberDualRailResidualPublicHypothesis\<close> writes to the shared lazy
  store; it returns the problem with the updated store.
\<close>

section \<open>Limits\<close>

record batching_limits =
  bl_maxOutputBatchSize :: nat
  bl_outputBatchSupportLimit :: nat

definition kDefaultOutputBatchingLimits :: batching_limits where
  "kDefaultOutputBatchingLimits = \<lparr> bl_maxOutputBatchSize = 32, bl_outputBatchSupportLimit = 512 \<rparr>"

definition kHugeDualRailOutputBatchingLimits :: batching_limits where
  "kHugeDualRailOutputBatchingLimits = \<lparr> bl_maxOutputBatchSize = 1, bl_outputBatchSupportLimit = 1 \<rparr>"

definition kDualRailOutputBatchingLimits :: batching_limits where
  "kDualRailOutputBatchingLimits = \<lparr> bl_maxOutputBatchSize = 8, bl_outputBatchSupportLimit = 256 \<rparr>"

definition kSmallDualRailOutputBatchingLimits :: batching_limits where
  "kSmallDualRailOutputBatchingLimits = \<lparr> bl_maxOutputBatchSize = 32, bl_outputBatchSupportLimit = 4096 \<rparr>"

definition kMaxSmallDualRailBatchOutputs :: nat where
  "kMaxSmallDualRailBatchOutputs = 32"

definition kMaxSmallDualRailBatchStateSymbols :: nat where
  "kMaxSmallDualRailBatchStateSymbols = 512"

definition kMinHugeDualRailBatchStateSymbols :: nat where
  "kMinHugeDualRailBatchStateSymbols = 65536"

definition railStateSymbolCount :: "problem \<Rightarrow> nat" where
  "railStateSymbolCount p =
    (if pb_dualRailStatePairs p \<noteq> [] then length (pb_dualRailStatePairs p) * 2
     else length (pb_state0Symbols p) + length (pb_state1Symbols p))"

definition isSmallDualRailBatchingSurface :: "problem \<Rightarrow> bool" where
  "isSmallDualRailBatchingSurface p =
    (length (pb_observedOutputExprs0 p) \<le> kMaxSmallDualRailBatchOutputs \<and>
     railStateSymbolCount p \<le> kMaxSmallDualRailBatchStateSymbols)"

definition isHugeDualRailBatchingSurface :: "problem \<Rightarrow> bool" where
  "isHugeDualRailBatchingSurface p = (kMinHugeDualRailBatchStateSymbols \<le> railStateSymbolCount p)"

definition hasSelectedOutputSkips :: "problem \<Rightarrow> bool" where
  "hasSelectedOutputSkips p =
    (if length (pb_dualRailOutputSkipReasons p) \<noteq> length (pb_observedOutputExprs0 p) then False
     else list_ex (\<lambda>reason. reason \<noteq> []) (pb_dualRailOutputSkipReasons p))"

definition rememberDualRailResidualPublicHypothesis :: "problem \<Rightarrow> problem" where
  "rememberDualRailResidualPublicHypothesis p =
    (case pb_lazyTransitions p of
       None \<Rightarrow> p
     | Some st \<Rightarrow>
        if \<not> pb_usesDualRailStateEncoding p \<or> pb_property p = None \<or> pb_bad p = None \<or>
           length (pb_observedOutputExprs0 p) \<le> 1 \<or> hasSelectedOutputSkips p then p
        else if length (pb_observedOutputExprs0 p) \<le> ls_publicOutputCount st then p
        else p\<lparr> pb_lazyTransitions := Some (st\<lparr> ls_publicProperty := pb_property p, ls_publicBad := pb_bad p,
               ls_publicOutputCount := length (pb_observedOutputExprs0 p) \<rparr>) \<rparr>)"

definition defaultOutputBatchingLimitsForProblem :: "problem \<Rightarrow> batching_limits \<times> problem" where
  "defaultOutputBatchingLimitsForProblem p =
    (if pb_usesDualRailStateEncoding p
     then let p' = rememberDualRailResidualPublicHypothesis p in
       (if isSmallDualRailBatchingSurface p' then kSmallDualRailOutputBatchingLimits
        else if isHugeDualRailBatchingSurface p' then kHugeDualRailOutputBatchingLimits
        else kDualRailOutputBatchingLimits, p')
     else (kDefaultOutputBatchingLimits, p))"

section \<open>Ranges\<close>

definition appendOutputSupport :: "problem \<Rightarrow> nat \<Rightarrow> var_id set \<Rightarrow> var_id set" where
  "appendOutputSupport p outputIndex supp =
    supp \<union> getSupportVars (pb_observedOutputExprs0 p ! outputIndex) \<union>
      getSupportVars (pb_observedOutputExprs1 p ! outputIndex)"

text \<open>The inner loop: the end of the range that starts at \<open>firstOutput\<close>.\<close>

function batchEnd :: "problem \<Rightarrow> batching_limits \<Rightarrow> nat \<Rightarrow> nat \<Rightarrow> var_id set \<Rightarrow> nat" where
  "batchEnd p limits firstOutput endOutput batchSupport =
    (if endOutput < length (pb_observedOutputExprs0 p)
     then let candidateSupport = appendOutputSupport p endOutput batchSupport;
              batchAlreadyHasOutput = firstOutput < endOutput;
              exceedsCount = bl_maxOutputBatchSize limits < endOutput - firstOutput + 1;
              exceedsSupport = bl_outputBatchSupportLimit limits < card candidateSupport
          in if batchAlreadyHasOutput \<and> (exceedsCount \<or> exceedsSupport) then endOutput
             else batchEnd p limits firstOutput (endOutput + 1) candidateSupport
     else endOutput)"
  by pat_completeness auto
termination by (relation "measure (\<lambda>(p, _, _, e, _). length (pb_observedOutputExprs0 p) - e)") auto

declare batchEnd.simps [simp del]

lemma batchEnd_ge: "e \<le> batchEnd p limits first e S"
proof (induction p limits first e S rule: batchEnd.induct)
  case (1 p limits first e S)
  then show ?case by (subst batchEnd.simps) (fastforce simp: Let_def)
qed

lemma batchEnd_progress: "first < length (pb_observedOutputExprs0 p) \<Longrightarrow> first < batchEnd p limits first first S"
  using batchEnd_ge [of "Suc first" p limits first "appendOutputSupport p first S"]
  by (subst batchEnd.simps) (simp add: Let_def)

function outputBatchesFrom :: "problem \<Rightarrow> batching_limits \<Rightarrow> nat \<Rightarrow> (nat \<times> nat) list" where
  "outputBatchesFrom p limits firstOutput =
    (if firstOutput < length (pb_observedOutputExprs0 p)
     then let endOutput = batchEnd p limits firstOutput firstOutput {}
          in (firstOutput, endOutput) # outputBatchesFrom p limits endOutput
     else [])"
  by pat_completeness auto
termination
  by (relation "measure (\<lambda>(p, _, f). length (pb_observedOutputExprs0 p) - f)")
    (auto simp: batchEnd_progress diff_less_mono2)

declare outputBatchesFrom.simps [simp del]

definition buildSupportBoundedOutputBatches :: "problem \<Rightarrow> batching_limits \<Rightarrow> (nat \<times> nat) list" where
  "buildSupportBoundedOutputBatches p limits = outputBatchesFrom p limits 0"

section \<open>The problem of a range\<close>

text \<open>\<open>assign(begin + first, begin + end)\<close>.\<close>

definition slice :: "nat \<Rightarrow> nat \<Rightarrow> 'a list \<Rightarrow> 'a list" where
  "slice firstOutput endOutput xs = take (endOutput - firstOutput) (drop firstOutput xs)"

definition equalityConjunction :: "bexpr list \<Rightarrow> bexpr list \<Rightarrow> bexpr" where
  "equalityConjunction exprs0 exprs1 =
    fold (\<lambda>i acc. mkAnd acc (makeEqualityExpr (exprs0 ! i) (exprs1 ! i))) [0..<length exprs0] createTrue"

definition configureOutputBatchProblem :: "problem \<Rightarrow> problem \<Rightarrow> nat \<Rightarrow> nat \<Rightarrow> problem" where
  "configureOutputBatchProblem batch source firstOutput endOutput =
    (let outputs = length (pb_observedOutputExprs0 source);
         exprs0 = slice firstOutput endOutput (pb_observedOutputExprs0 source);
         exprs1 = slice firstOutput endOutput (pb_observedOutputExprs1 source);
         property = simplify (equalityConjunction exprs0 exprs1);
         bad = simplify (mkNot property)
     in batch\<lparr>
       pb_originalObservedOutputCount :=
         (if pb_originalObservedOutputCount source = 0 then outputs else pb_originalObservedOutputCount source),
       pb_observedOutputs :=
         (if length (pb_observedOutputs source) = outputs
          then slice firstOutput endOutput (pb_observedOutputs source) else []),
       pb_observedOutputNames := slice firstOutput endOutput (pb_observedOutputNames source),
       pb_observedOutputExprs0 := exprs0,
       pb_observedOutputExprs1 := exprs1,
       pb_dualRailOutputStrictEqualityExprs :=
         (if length (pb_dualRailOutputStrictEqualityExprs source) = outputs
          then slice firstOutput endOutput (pb_dualRailOutputStrictEqualityExprs source) else []),
       pb_dualRailOutputSkipReasons :=
         (if length (pb_dualRailOutputSkipReasons source) = outputs
          then slice firstOutput endOutput (pb_dualRailOutputSkipReasons source) else []),
       pb_property := Some property,
       pb_bad := Some bad,
       pb_inductionProperty := Some property,
       pb_inductionBad := Some bad,
       pb_description := pb_description source @ '' output batch'' \<rparr>)"

section \<open>What the ranges are\<close>

text \<open>A list of ranges that are not empty and follow one another from \<open>a\<close> to \<open>b\<close>.\<close>

fun tiles :: "nat \<Rightarrow> nat \<Rightarrow> (nat \<times> nat) list \<Rightarrow> bool" where
  "tiles a b [] = (a = b)"
| "tiles a b ((i, j) # rs) = (i = a \<and> a < j \<and> tiles j b rs)"

lemma tiles_le: "tiles a b rs \<Longrightarrow> a \<le> b"
  by (induction a b rs rule: tiles.induct) auto

lemma tiles_cover: "tiles a b rs \<Longrightarrow> a \<le> i \<Longrightarrow> i < b \<Longrightarrow> \<exists>(f, e) \<in> set rs. f \<le> i \<and> i < e"
proof (induction a b rs rule: tiles.induct)
  case (2 a b i' j rs)
  then show ?case by (cases "i < j") auto
qed simp

lemma tiles_within: "tiles a b rs \<Longrightarrow> (f, e) \<in> set rs \<Longrightarrow> a \<le> f \<and> f < e \<and> e \<le> b"
proof (induction a b rs rule: tiles.induct)
  case (2 a b i j rs)
  have "j \<le> b" by (rule tiles_le [of j b rs]) (use "2.prems"(1) in simp)
  then show ?case using 2 by auto
qed simp

lemma batchEnd_le: "e \<le> length (pb_observedOutputExprs0 p) \<Longrightarrow> batchEnd p limits first e S \<le> length (pb_observedOutputExprs0 p)"
proof (induction p limits first e S rule: batchEnd.induct)
  case (1 p limits first e S)
  then show ?case by (subst batchEnd.simps) (simp add: Let_def)
qed

lemma outputBatches_tile:
  "f \<le> length (pb_observedOutputExprs0 p) \<Longrightarrow> tiles f (length (pb_observedOutputExprs0 p)) (outputBatchesFrom p limits f)"
proof (induction p limits f rule: outputBatchesFrom.induct)
  case (1 p limits f)
  then show ?case
    by (subst outputBatchesFrom.simps) (auto simp: Let_def batchEnd_progress batchEnd_le)
qed

text \<open>Support of a range of outputs.\<close>

definition rangeSupport :: "problem \<Rightarrow> nat \<Rightarrow> nat \<Rightarrow> var_id set" where
  "rangeSupport p f e = (\<Union>i \<in> {f..<e}. getSupportVars (pb_observedOutputExprs0 p ! i) \<union>
     getSupportVars (pb_observedOutputExprs1 p ! i))"

lemma rangeSupport_step: "f \<le> e \<Longrightarrow> appendOutputSupport p e (rangeSupport p f e) = rangeSupport p f (Suc e)"
  by (auto simp: rangeSupport_def appendOutputSupport_def less_Suc_eq)

definition withinLimits :: "problem \<Rightarrow> batching_limits \<Rightarrow> nat \<Rightarrow> nat \<Rightarrow> bool" where
  "withinLimits p limits f e = (e = Suc f \<or>
     e - f \<le> bl_maxOutputBatchSize limits \<and> card (rangeSupport p f e) \<le> bl_outputBatchSupportLimit limits)"

lemma batchEnd_limits:
  assumes "f < length (pb_observedOutputExprs0 p)"
  shows "withinLimits p limits f (batchEnd p limits f f {})"
proof -
  have "withinLimits p limits f (batchEnd p limits f e (rangeSupport p f e))" if "f < e" "withinLimits p limits f e" for e
    using that
  proof (induction p limits f e "rangeSupport p f e" rule: batchEnd.induct)
    case (1 p limits f e)
    show ?case
    proof (cases "e < length (pb_observedOutputExprs0 p) \<and> \<not> (bl_maxOutputBatchSize limits < e - f + 1 \<or>
        bl_outputBatchSupportLimit limits < card (rangeSupport p f (Suc e)))")
      case True
      have w: "withinLimits p limits f (e + 1)" using True "1.prems" by (auto simp: withinLimits_def)
      have s: "appendOutputSupport p e (rangeSupport p f e) = rangeSupport p f (e + 1)"
        using rangeSupport_step "1.prems" by simp
      have "withinLimits p limits f (batchEnd p limits f (e + 1) (rangeSupport p f (e + 1)))"
        by (rule "1.hyps" [OF _ s [symmetric] refl refl refl]) (use True w "1.prems" in auto)
      then show ?thesis using True by (subst batchEnd.simps) (simp add: Let_def s)
    next
      case False
      then show ?thesis using "1.prems" rangeSupport_step [of f e p] by (subst batchEnd.simps) (auto simp: Let_def)
    qed
  qed
  then have "withinLimits p limits f (batchEnd p limits f (Suc f) (rangeSupport p f (Suc f)))"
    by (simp add: withinLimits_def)
  moreover have "rangeSupport p f f = {}" by (simp add: rangeSupport_def)
  ultimately show ?thesis
    using assms rangeSupport_step [of f f p] by (subst batchEnd.simps) (simp add: Let_def)
qed

lemma outputBatches_limits: "(f, e) \<in> set (outputBatchesFrom p limits g) \<Longrightarrow> withinLimits p limits f e"
proof (induction p limits g rule: outputBatchesFrom.induct)
  case (1 p limits g)
  then show ?case by (subst (asm) (2) outputBatchesFrom.simps) (auto simp: Let_def batchEnd_limits split: if_splits)
qed

section \<open>What the slices say\<close>

lemma length_slice [simp]: "e \<le> length xs \<Longrightarrow> length (slice f e xs) = e - f"
  by (simp add: slice_def)

lemma nth_slice [simp]: "f + i < e \<Longrightarrow> e \<le> length xs \<Longrightarrow> slice f e xs ! i = xs ! (f + i)"
  by (simp add: slice_def)

lemma eval_equalityConjunction:
  "eval env (equalityConjunction xs ys) = (\<forall>i < length xs. eval env (xs ! i) = eval env (ys ! i))"
proof -
  have "eval env (fold (\<lambda>i acc. mkAnd acc (makeEqualityExpr (xs ! i) (ys ! i))) is acc) =
      (eval env acc \<and> (\<forall>i \<in> set is. eval env (xs ! i) = eval env (ys ! i)))" for "is" acc
    by (induction "is" arbitrary: acc) (auto simp: eval_simps)
  then show ?thesis by (auto simp: equalityConjunction_def eval_simps createTrue_def)
qed

definition outputsEqual :: "problem \<Rightarrow> nat \<Rightarrow> nat \<Rightarrow> (var_id \<Rightarrow> bool) \<Rightarrow> bool" where
  "outputsEqual p f e env = (\<forall>i. f \<le> i \<and> i < e \<longrightarrow>
     eval env (pb_observedOutputExprs0 p ! i) = eval env (pb_observedOutputExprs1 p ! i))"

lemma slice_all: "f \<le> e \<Longrightarrow> (\<forall>i < e - (f::nat). P (f + i)) = (\<forall>i. f \<le> i \<and> i < e \<longrightarrow> P i)"
proof
  assume all: "\<forall>i < e - f. P (f + i)"
  show "\<forall>i. f \<le> i \<and> i < e \<longrightarrow> P i"
  proof (intro allI impI)
    fix i assume "f \<le> i \<and> i < e"
    then have "i - f < e - f" "f + (i - f) = i" by auto
    then show "P i" using all by metis
  qed
qed simp

lemma configureOutputBatch_property:
  assumes "f \<le> e" "e \<le> length (pb_observedOutputExprs0 source)" "e \<le> length (pb_observedOutputExprs1 source)"
  shows "\<exists>property bad. pb_property (configureOutputBatchProblem batch source f e) = Some property \<and>
    pb_bad (configureOutputBatchProblem batch source f e) = Some bad \<and>
    pb_inductionProperty (configureOutputBatchProblem batch source f e) = Some property \<and>
    pb_inductionBad (configureOutputBatchProblem batch source f e) = Some bad \<and>
    (\<forall>env. eval env property = outputsEqual source f e env \<and> eval env bad = (\<not> outputsEqual source f e env))"
proof -
  have "eval env (equalityConjunction (slice f e (pb_observedOutputExprs0 source)) (slice f e (pb_observedOutputExprs1 source))) =
      outputsEqual source f e env" for env
    using assms slice_all [OF assms(1), of "\<lambda>i. eval env (pb_observedOutputExprs0 source ! i) = eval env (pb_observedOutputExprs1 source ! i)"]
    by (simp add: eval_equalityConjunction outputsEqual_def)
  then show ?thesis
    by (simp add: configureOutputBatchProblem_def Let_def simplify_eval eval_simps)
qed

end
