(* ===== verification/Base_Coi.thy ===== *)
theory Base_Coi
  imports Induction_Coi Output_Batching
begin

text \<open>
  The cone of influence of the base case (\<open>sec/kinduction/BaseCaseSolver.cpp\<close>): how a problem
  starts, the adjacency index that closes symbol sets under state equalities, and the backward
  walk from the bad frames through the reset prefix.  \<open>ImcBaseCounterexampleCache\<close> keeps the
  indexes of a problem between queries of growing depth; the sub-caches it builds for output
  slices are rebuilt here, and the resolver it owns is threaded by the callers.
\<close>

section \<open>Startup\<close>

datatype initial_mode = NoInit | ObservationOnly | PartialInit | CompleteInit

definition resetBootstrapFrames :: "problem \<Rightarrow> nat" where
  "resetBootstrapFrames p =
    (if (\<not> hasCompleteInitialState p \<or> pb_usesDualRailStateEncoding p) \<and> hasResetBootstrap p
     then pb_resetBootstrapCycles p else 0)"

definition determineInitialConstraintMode :: "problem \<Rightarrow> initial_mode" where
  "determineInitialConstraintMode p =
    (if \<not> hasSequentialState p then NoInit
     else if hasCompleteInitialState p then CompleteInit
     else if hasExplicitInitialState p then PartialInit
     else ObservationOnly)"

definition hasStructuredInitialAssignments :: "problem \<Rightarrow> bool" where
  "hasStructuredInitialAssignments p = (pb_initialStateAssignments p \<noteq> [])"

section \<open>The equality index\<close>

type_synonym equality_index = "var_id \<Rightarrow> var_id list"

definition linkSymbols :: "var_id \<times> var_id \<Rightarrow> equality_index \<Rightarrow> equality_index" where
  "linkSymbols lr partners =
    (let m = partners(fst lr := partners (fst lr) @ [snd lr]) in m(snd lr := m (snd lr) @ [fst lr]))"

definition equalityIndex :: "(var_id \<times> var_id) list \<Rightarrow> equality_index" where
  "equalityIndex pairs = fold linkSymbols pairs (\<lambda>_. [])"

definition reachPartner :: "var_id \<Rightarrow> var_id list \<times> var_id set \<Rightarrow> var_id list \<times> var_id set" where
  "reachPartner partner acc =
    (case acc of (worklist, symbols) \<Rightarrow>
      if partner \<in> symbols then acc else (worklist @ [partner], insert partner symbols))"

lemma fold_reachPartner:
  "snd (fold reachPartner ps (w, S)) = S \<union> set ps"
  "set (fst (fold reachPartner ps (w, S))) = set w \<union> (set ps - S)"
  by (induction ps arbitrary: w S) (auto simp: reachPartner_def)

lemma fold_reachPartner_same: "set ps \<subseteq> S \<Longrightarrow> fold reachPartner ps (w, S) = (w, S)"
  by (induction ps) (auto simp: reachPartner_def)

lemma reachPartner_decreases:
  assumes "(w', S') = fold reachPartner ps (w, S)"
  shows "card (- S') < card (- S) \<or> card (- S') = card (- S) \<and> length w' = length w"
proof (cases "set ps \<subseteq> S")
  case True
  then show ?thesis using assms fold_reachPartner_same [OF True, of w] by simp
next
  case False
  have "S' = S \<union> set ps" using fold_reachPartner(1) [of ps w S] assms [symmetric] by simp
  then have "- S' \<subset> - S" using False by blast
  then have "card (- S') < card (- S)" by (intro psubset_card_mono) (auto intro: finite_subset [OF subset_UNIV])
  then show ?thesis by simp
qed

text \<open>The loop over the work list; the index of the code is the part of the list that is left.\<close>

function closeWork :: "equality_index \<Rightarrow> var_id list \<Rightarrow> var_id set \<Rightarrow> var_id set" where
  "closeWork partners [] symbols = symbols"
| "closeWork partners (x # worklist) symbols =
    (case fold reachPartner (partners x) (worklist, symbols) of (worklist', symbols') \<Rightarrow>
      closeWork partners worklist' symbols')"
  by pat_completeness auto
termination
  by (relation "measures [\<lambda>(_, _, S). card (- S), \<lambda>(_, w, _). length w]")
    (simp, drule reachPartner_decreases [OF trans], auto dest: reachPartner_decreases)

definition closeEqualities :: "equality_index \<Rightarrow> var_id set \<Rightarrow> var_id set" where
  "closeEqualities partners symbols = closeWork partners (sorted_list_of_set symbols) symbols"

definition closeFrameEqualityDependencies :: "(var_id \<times> var_id) list \<Rightarrow> var_id set \<Rightarrow> var_id set" where
  "closeFrameEqualityDependencies pairs = closeEqualities (equalityIndex pairs)"

definition closeBaseStateEqualities :: "problem \<Rightarrow> var_id set \<Rightarrow> var_id set" where
  "closeBaseStateEqualities p symbols =
    closeFrameEqualityDependencies (pb_sameFrameStateEqualityPairs1 p)
      (closeFrameEqualityDependencies (pb_sameFrameStateEqualityPairs0 p) symbols)"

section \<open>The cone\<close>

record base_coi =
  bc_targets :: "var_id list list"
  bc_required :: "var_id list list"
  bc_symbols :: "var_id list"
  bc_symbolSet :: "var_id set"

record imc_cache =
  im_problem :: problem
  im_stateSymbols :: "var_id set"
  im_resolver :: resolver
  im_primaries :: "var_id \<rightharpoonup> var_id"
  im_equalities0 :: equality_index
  im_equalities1 :: equality_index

definition makeImcBaseCounterexampleCache :: "problem \<Rightarrow> imc_cache" where
  "makeImcBaseCounterexampleCache p =
    \<lparr> im_problem = p, im_stateSymbols = buildStateSymbolSet p, im_resolver = newResolver p,
      im_primaries = buildPrimaryByComplementSymbol p,
      im_equalities0 = equalityIndex (pb_sameFrameStateEqualityPairs0 p),
      im_equalities1 = equalityIndex (pb_sameFrameStateEqualityPairs1 p) \<rparr>"

definition closeCachedStateEqualities :: "imc_cache \<Rightarrow> var_id set \<Rightarrow> var_id set" where
  "closeCachedStateEqualities c symbols =
    closeEqualities (im_equalities1 c) (closeEqualities (im_equalities0 c) symbols)"

text \<open>What the base query asks: how the first frame is constrained, the length of the reset prefix,
  whether the property is assumed at its end, the first bad frame, the last frame, and whether
  the frames before the bad one are asserted safe.\<close>

record base_shape =
  bs_mode :: initial_mode
  bs_bootstrapFrames :: nat
  bs_observation :: bool
  bs_firstBadFrame :: nat
  bs_internalK :: nat
  bs_safePrefix :: bool

definition seedFrame :: "var_id set \<Rightarrow> bexpr option \<Rightarrow> nat \<Rightarrow> var_id set list \<Rightarrow> var_id set list" where
  "seedFrame stateSymbols formula frame required =
    required[frame := addFormulaStateSupport formula stateSymbols (required ! frame)]"

definition seedStartup :: "problem \<Rightarrow> var_id set \<Rightarrow> base_shape \<Rightarrow> var_id set list \<times> var_id set \<Rightarrow>
    var_id set list \<times> var_id set" where
  "seedStartup p stateSymbols sh acc =
    (if bs_bootstrapFrames sh = 0
     then let acc1 =
                (if (bs_mode sh = CompleteInit \<or> bs_mode sh = PartialInit) \<and> \<not> hasStructuredInitialAssignments p
                 then (seedFrame stateSymbols (pb_initialCondition p) 0 (fst acc),
                       addFormulaSupport (pb_initialCondition p) (snd acc))
                 else acc)
          in (if bs_mode sh = ObservationOnly \<or> bs_mode sh = PartialInit
              then (seedFrame stateSymbols (pb_property p) 0 (fst acc1), addFormulaSupport (pb_property p) (snd acc1))
              else acc1)
     else if bs_observation sh
     then (seedFrame stateSymbols (pb_property p) (bs_bootstrapFrames sh) (fst acc),
           addFormulaSupport (pb_property p) (snd acc))
     else acc)"

definition seedBaseCoi :: "problem \<Rightarrow> var_id set \<Rightarrow> base_shape \<Rightarrow> var_id set list \<times> var_id set" where
  "seedBaseCoi p stateSymbols sh =
    (let symbols = addFormulaSupport (pb_bad p) (fold (\<lambda>(symbol, _). insert symbol) (pb_resetBootstrapInputs p) {});
         required = fold (seedFrame stateSymbols (pb_bad p)) [bs_firstBadFrame sh..<bs_internalK sh + 1]
           (replicate (bs_internalK sh + 1) {});
         acc = (if bs_safePrefix sh
                then (fold (seedFrame stateSymbols (pb_property p)) [bs_bootstrapFrames sh..<bs_firstBadFrame sh] required,
                      addFormulaSupport (pb_property p) symbols)
                else (required, symbols))
     in seedStartup p stateSymbols sh acc)"

record base_loop =
  bl_required :: "var_id set list"
  bl_targets :: "var_id list list"
  bl_symbols :: "var_id set"
  bl_resolver :: resolver

definition baseCoiFrame :: "(var_id set \<Rightarrow> var_id set) \<Rightarrow> var_id set \<Rightarrow> (var_id \<rightharpoonup> var_id) \<Rightarrow> nat \<Rightarrow> base_loop \<Rightarrow>
    error + base_loop" where
  "baseCoiFrame closeStates stateSymbols primaries frame st =
    (let required = (bl_required st)[frame := closeStates (bl_required st ! frame)];
         targets = expandInductionTargets (required ! frame) (bl_resolver st) primaries
     in bindE (collectSupportForTargets targets stateSymbols (required ! (frame - 1), bl_symbols st) (bl_resolver st))
       (\<lambda>((previous, symbols), r).
         Inr \<lparr> bl_required = required[frame - 1 := previous], bl_targets = (bl_targets st)[frame - 1 := targets],
               bl_symbols = symbols, bl_resolver = r \<rparr>))"

definition closeBaseSymbols :: "problem \<Rightarrow> (var_id set \<Rightarrow> var_id set) \<Rightarrow> var_id set \<Rightarrow> var_id set" where
  "closeBaseSymbols p closeStates symbols =
    addRailPartners (pb_dualRailStatePairs p)
      (closeStates (addComplementPartners (pb_complementedStatePairs1 p)
        (addComplementPartners (pb_complementedStatePairs0 p) symbols)))"

text \<open>The body the two builders of the code share.\<close>

definition baseCoiOf :: "problem \<Rightarrow> var_id set \<Rightarrow> (var_id set \<Rightarrow> var_id set) \<Rightarrow> (var_id \<rightharpoonup> var_id) \<Rightarrow> base_shape \<Rightarrow>
    resolver \<Rightarrow> error + base_coi \<times> resolver" where
  "baseCoiOf p stateSymbols closeStates primaries sh r =
    (case seedBaseCoi p stateSymbols sh of (required, symbols) \<Rightarrow>
     bindE (foldE (baseCoiFrame closeStates stateSymbols primaries) (rev [1..<bs_internalK sh + 1])
         \<lparr> bl_required = required, bl_targets = replicate (bs_internalK sh) [], bl_symbols = symbols,
           bl_resolver = r \<rparr>)
       (\<lambda>st.
         let required' = (bl_required st)[0 := closeStates (bl_required st ! 0)];
             symbols' = closeBaseSymbols p closeStates
               (bl_symbols st \<union> \<Union> (set required') \<union> \<Union> (set (map set (bl_targets st))))
         in Inr (\<lparr> bc_targets = bl_targets st, bc_required = map sorted_list_of_set required',
                   bc_symbols = sorted_list_of_set symbols',
                   bc_symbolSet = set (sorted_list_of_set symbols') \<rparr>, bl_resolver st)))"

definition buildBaseCaseCoi :: "problem \<Rightarrow> base_shape \<Rightarrow> error + base_coi \<times> resolver" where
  "buildBaseCaseCoi p sh =
    baseCoiOf p (buildStateSymbolSet p) (closeBaseStateEqualities p) (buildPrimaryByComplementSymbol p) sh (newResolver p)"

definition buildImcCachedBaseCaseCoi :: "imc_cache \<Rightarrow> base_shape \<Rightarrow> error + base_coi \<times> resolver" where
  "buildImcCachedBaseCaseCoi c sh =
    baseCoiOf (im_problem c) (im_stateSymbols c) (closeCachedStateEqualities c) (im_primaries c) sh (im_resolver c)"

end
