(* ===== verification/Base_Query.thy ===== *)
theory Base_Query
  imports Base_Coi Induction_Step
begin

text \<open>
  The base case of \<open>sec/kinduction/BaseCaseSolver.cpp\<close>: the SAT instance of a bounded run from the
  startup states through the reset prefix to the bad frames, the witness read off its model, and
  the queries built on it.  The resolver and its memo tables live as long as one query.  The calls
  that set search options are recorded by \<open>baseSolverOptions\<close>.  Frame numbers are exact (the code
  adds \<open>size_t\<close> values far below the wrap-around).
\<close>

section \<open>Results\<close>

record signal_mismatch =
  sm_signal :: string
  sm_design0Value :: bool
  sm_design1Value :: bool

record frame_inputs =
  fi_frame :: nat
  fi_assignments :: "(string \<times> bool) list"

record cex_witness =
  cw_badFrame :: nat
  cw_inputTrace :: "frame_inputs list"
  cw_outputMismatches :: "signal_mismatch list"

datatype base_profile = SecConeProfile | PdrValidation | PdrValidationProofOnly | FastCounterexampleSearch

datatype base_options = ConfiguredPdrQuery nat | ConfiguredConeProof nat

definition kFastCounterexampleSearchConflictLimit :: int where
  "kFastCounterexampleSearchConflictLimit = 5000"

definition kFastCounterexampleSearchDecisionLimit :: int where
  "kFastCounterexampleSearchDecisionLimit = 20000"

definition kMaxExactBaseNodeCountHintTargets :: nat where
  "kMaxExactBaseNodeCountHintTargets = 512"

definition baseCaseValidationUsesLocalQueryProfile :: "solver_type \<Rightarrow> bool" where
  "baseCaseValidationUsesLocalQueryProfile t = (t = CADICAL \<or> t = KISSAT)"

definition baseSolverOptions :: "base_profile \<Rightarrow> solver_type \<Rightarrow> nat \<Rightarrow> base_options" where
  "baseSolverOptions profile t solverSymbols =
    (if profile = PdrValidation \<or> profile = PdrValidationProofOnly \<or> profile = FastCounterexampleSearch \<or>
        baseCaseValidationUsesLocalQueryProfile t
     then ConfiguredPdrQuery solverSymbols else ConfiguredConeProof solverSymbols)"

text \<open>A loop that returns at its first hit.\<close>

primrec firstSomeE :: "('a \<Rightarrow> error + 'b option) \<Rightarrow> 'a list \<Rightarrow> error + 'b option" where
  "firstSomeE f [] = Inr None"
| "firstSomeE f (x # xs) = bindE (f x) (\<lambda>y. case y of None \<Rightarrow> firstSomeE f xs | Some w \<Rightarrow> Inr (Some w))"

lemma firstSomeE_cong [fundef_cong]:
  "xs = ys \<Longrightarrow> (\<And>x. x \<in> set ys \<Longrightarrow> f x = g x) \<Longrightarrow> firstSomeE f xs = firstSomeE g ys"
  by (induction xs arbitrary: ys) (auto simp: bindE_def split: sum.splits option.splits)

section \<open>Startup constraints\<close>

definition formulaSupportOrThrow :: "bexpr option \<Rightarrow> string \<Rightarrow> error + var_id set" where
  "formulaSupportOrThrow formula context =
    (case formula of
       None \<Rightarrow> Inl (Runtime_Error (''Missing BoolExpr while encoding base SEC formula: '' @ context))
     | Some f \<Rightarrow> Inr (getSupportVars f))"

definition unitClause :: "frame_store \<Rightarrow> nat \<Rightarrow> var_id \<times> bool \<Rightarrow> solver \<Rightarrow> error + solver" where
  "unitClause fs frame xv s =
    bindE (getLiteral fs (fst xv) frame) (\<lambda>l. addClause [if snd xv then l else - l] s)"

definition resetBootstrapInput :: "frame_store \<Rightarrow> nat \<Rightarrow> nat \<Rightarrow> var_id \<times> bool \<Rightarrow> solver \<Rightarrow> error + solver" where
  "resetBootstrapInput fs bootstrapFrames numFrames input s =
    bindE (foldE (\<lambda>frame. unitClause fs frame input) [0..<min bootstrapFrames numFrames] s)
      (foldE (\<lambda>frame. unitClause fs frame (fst input, \<not> snd input)) [bootstrapFrames..<numFrames])"

definition addResetBootstrapConstraints :: "frame_store \<Rightarrow> problem \<Rightarrow> nat \<Rightarrow> solver \<Rightarrow> error + solver" where
  "addResetBootstrapConstraints fs p numFrames s =
    (if resetBootstrapFrames p = 0 then Inr s
     else foldE (resetBootstrapInput fs (resetBootstrapFrames p) numFrames) (pb_resetBootstrapInputs p) s)"

definition stateAssignment :: "frame_store \<Rightarrow> var_id set \<Rightarrow> nat \<Rightarrow> var_id \<times> bool \<Rightarrow> solver \<Rightarrow> error + solver" where
  "stateAssignment fs Q frame xv s = (if fst xv \<notin> Q then Inr s else unitClause fs frame xv s)"

definition addInitialStateAssignments :: "frame_store \<Rightarrow> problem \<Rightarrow> var_id set \<Rightarrow> solver \<Rightarrow> error + solver" where
  "addInitialStateAssignments fs p Q = foldE (stateAssignment fs Q 0) (pb_initialStateAssignments p)"

definition addBootstrapStateAssignments :: "frame_store \<Rightarrow> problem \<Rightarrow> var_id set \<Rightarrow> nat \<Rightarrow> solver \<Rightarrow>
    error + solver" where
  "addBootstrapStateAssignments fs p Q frame = foldE (stateAssignment fs Q frame) (pb_bootstrapStateAssignments p)"

definition assertBaseFormula :: "frame_store \<Rightarrow> bexpr option \<Rightarrow> string \<Rightarrow> nat \<Rightarrow> solver \<Rightarrow> error + solver" where
  "assertBaseFormula fs formula context frame s =
    bindE (formulaSupportOrThrow formula context) (\<lambda>supp.
    bindE (makeLeafLitsOfSet fs frame supp) (\<lambda>leaves.
      encodeAndAssert (the formula) (newEncoder s leaves None False 0)))"

definition addInitialConstraints :: "frame_store \<Rightarrow> problem \<Rightarrow> var_id set \<Rightarrow> initial_mode \<Rightarrow> solver \<Rightarrow>
    error + solver" where
  "addInitialConstraints fs p Q mode s =
    (if mode = NoInit then Inr s
     else bindE
       (if (mode = CompleteInit \<or> mode = PartialInit) \<and> pb_initialCondition p \<noteq> None
        then if hasStructuredInitialAssignments p then addInitialStateAssignments fs p Q s
             else assertBaseFormula fs (pb_initialCondition p) ''initial condition'' 0 s
        else Inr s)
       (\<lambda>s1. if mode = ObservationOnly \<or> mode = PartialInit
             then assertBaseFormula fs (pb_property p) ''observation property'' 0 s1 else Inr s1))"

definition addObservationPropertyConstraint :: "frame_store \<Rightarrow> problem \<Rightarrow> nat \<Rightarrow> solver \<Rightarrow> error + solver" where
  "addObservationPropertyConstraint fs p frame = assertBaseFormula fs (pb_property p) ''observation property'' frame"

section \<open>Transitions\<close>

text \<open>Targets whose view uses the symbol map of the same design share an encoder; the key is the
  address of the map in the code, the index of the design here.\<close>

record encoding_group =
  eg_design :: "nat option"
  eg_symbolMap :: "(var_id \<rightharpoonup> var_id) option"
  eg_stateSymbols :: "var_id list"

definition viewDesign :: "var_id \<Rightarrow> resolver \<Rightarrow> nat option" where
  "viewDesign s r =
    (case tr_eager r s of
       Some _ \<Rightarrow> None
     | None \<Rightarrow>
        (case Option.bind (storeOf r) (\<lambda>st. ls_sources st s) of
           None \<Rightarrow> None
         | Some src \<Rightarrow> if src_rail src \<noteq> Binary then None else Some (src_designIndex src)))"

fun addToGroup :: "nat option \<Rightarrow> (var_id \<rightharpoonup> var_id) option \<Rightarrow> var_id \<Rightarrow> encoding_group list \<Rightarrow> encoding_group list" where
  "addToGroup d m s [] = [\<lparr> eg_design = d, eg_symbolMap = m, eg_stateSymbols = [s] \<rparr>]"
| "addToGroup d m s (g # gs) =
    (if eg_design g = d then g\<lparr> eg_stateSymbols := eg_stateSymbols g @ [s] \<rparr> # gs
     else g # addToGroup d m s gs)"

definition groupTarget :: "var_id \<Rightarrow> encoding_group list \<times> resolver \<Rightarrow> error + encoding_group list \<times> resolver" where
  "groupTarget symbol gr =
    bindE (expressionView symbol (snd gr)) (\<lambda>(view, r).
      Inr (addToGroup (viewDesign symbol r) (snd view) symbol (fst gr), r))"

definition groupNodeHint :: "encoding_group \<Rightarrow> resolver \<Rightarrow> error + nat \<times> resolver" where
  "groupNodeHint g r =
    (if length (eg_stateSymbols g) \<le> kMaxExactBaseNodeCountHintTargets
     then foldE (\<lambda>s (hint, r). bindE (transitionNodeCount s r) (\<lambda>(n, r'). Inr (hint + n, r'))) (eg_stateSymbols g) (0, r)
     else Inr (0, r))"

definition viewEquation :: "frame_store \<Rightarrow> nat \<Rightarrow> var_id \<Rightarrow> encoder \<times> resolver \<Rightarrow> error + encoder \<times> resolver" where
  "viewEquation fs frame symbol er =
    bindE (expressionView symbol (snd er)) (\<lambda>(view, r).
    bindE (getLiteral fs symbol (frame + 1)) (\<lambda>lit.
    bindE (encode (fst view) (fst er)) (\<lambda>(l, en).
    bindE (addLiteralEquivalence lit l (en_solver en)) (\<lambda>s. Inr (en\<lparr> en_solver := s \<rparr>, r)))))"

definition encodeGroup :: "frame_store \<Rightarrow> nat \<Rightarrow> encoding_group \<Rightarrow> solver \<times> resolver \<Rightarrow> error + solver \<times> resolver" where
  "encodeGroup fs frame g sr =
    bindE (groupNodeHint g (snd sr)) (\<lambda>(expectedNodes, r).
    bindE (makeAllLeafLits fs frame) (\<lambda>leaves.
    bindE (foldE (viewEquation fs frame) (eg_stateSymbols g)
        (newEncoder (fst sr) leaves (eg_symbolMap g) False expectedNodes, r)) (\<lambda>(en, r').
    Inr (en_solver en, r'))))"

definition addBaseTransitionRelation :: "frame_store \<Rightarrow> var_id list \<Rightarrow> nat \<Rightarrow> solver \<times> resolver \<Rightarrow>
    error + solver \<times> resolver" where
  "addBaseTransitionRelation fs targets frame sr =
    bindE (foldE groupTarget targets ([], snd sr)) (\<lambda>(groups, r).
      foldE (encodeGroup fs frame) groups (fst sr, r))"

section \<open>The instance\<close>

text \<open>The frames of a query: early returns are \<open>None\<close>; the last bad frame comes with the shape.\<close>

definition baseShapeOf :: "problem \<Rightarrow> nat \<Rightarrow> nat option \<Rightarrow> (base_shape \<times> nat) option" where
  "baseShapeOf p k exactPublicBadFrame =
    (let b = resetBootstrapFrames p;
         observation = (b \<noteq> 0 \<and> usesResetBootstrapObservationFrontier p);
         K = k + b;
         mode = (if b = 0 then determineInitialConstraintMode p else NoInit);
         first = (if b \<noteq> 0 then b + (if observation then 1 else 0)
                  else if mode = ObservationOnly \<or> mode = PartialInit then 1 else 0)
     in if K < first then None
        else (case exactPublicBadFrame of
           None \<Rightarrow> Some (\<lparr> bs_mode = mode, bs_bootstrapFrames = b, bs_observation = observation,
             bs_firstBadFrame = first, bs_internalK = K, bs_safePrefix = False \<rparr>, K)
         | Some e \<Rightarrow>
             if e + b < first \<or> K < e + b then None
             else Some (\<lparr> bs_mode = mode, bs_bootstrapFrames = b, bs_observation = observation,
               bs_firstBadFrame = e + b, bs_internalK = K, bs_safePrefix = False \<rparr>, e + b)))"

definition assertStartup :: "bool \<Rightarrow> problem \<Rightarrow> base_shape \<Rightarrow> var_id set \<Rightarrow> frame_store \<Rightarrow> solver \<Rightarrow> error + solver" where
  "assertStartup railStart p sh Q fs s =
    bindE (addResetBootstrapConstraints fs p (bs_internalK sh + 1) s) (\<lambda>s1.
    bindE (addInitialConstraints fs p Q (bs_mode sh) s1) (\<lambda>s2.
    bindE (if railStart then addInitialStateAssignments fs p Q s2 else Inr s2) (\<lambda>s3.
    if bs_observation sh then addObservationPropertyConstraint fs p (bs_bootstrapFrames sh) s3 else Inr s3)))"

definition assertFrameRelations :: "problem \<Rightarrow> var_id set \<Rightarrow> nat \<Rightarrow> frame_store \<Rightarrow> solver \<Rightarrow> error + solver" where
  "assertFrameRelations p Q numFrames fs s =
    bindE (addInductionComplements Q fs (pb_complementedStatePairs0 p) numFrames s) (\<lambda>s1.
    bindE (addInductionComplements Q fs (pb_complementedStatePairs1 p) numFrames s1) (\<lambda>s2.
    bindE (addSameFrameStateEqualities Q fs p numFrames s2) (\<lambda>s3.
    addInductionRailValidity Q fs (pb_dualRailStatePairs p) numFrames s3)))"

definition assertBasePrefix :: "bool \<Rightarrow> bool \<Rightarrow> problem \<Rightarrow> base_shape \<Rightarrow> base_coi \<Rightarrow> resolver \<Rightarrow> frame_store \<Rightarrow>
    solver \<Rightarrow> error + solver \<times> resolver" where
  "assertBasePrefix railStart bootstrapState p sh coi r fs s =
    bindE (assertStartup railStart p sh (bc_symbolSet coi) fs s) (\<lambda>s1.
    bindE (assertFrameRelations p (bc_symbolSet coi) (bs_internalK sh + 1) fs s1) (\<lambda>s2.
    bindE (foldE (\<lambda>frame. addBaseTransitionRelation fs (bc_targets coi ! frame) frame) [0..<bs_internalK sh] (s2, r))
      (\<lambda>(s3, r').
    bindE (if bootstrapState then addBootstrapStateAssignments fs p (bc_symbolSet coi) (bs_bootstrapFrames sh) s3
           else Inr s3) (\<lambda>s4. Inr (s4, r')))))"

definition badLiteral :: "frame_store \<Rightarrow> bexpr option \<Rightarrow> nat \<Rightarrow> int list \<times> solver \<Rightarrow> error + int list \<times> solver" where
  "badLiteral fs bad frame acc =
    bindE (formulaSupportOrThrow bad ''bad-state formula'') (\<lambda>supp.
    bindE (makeLeafLitsOfSet fs frame supp) (\<lambda>leaves.
    bindE (encode bad (newEncoder (snd acc) leaves None False 0)) (\<lambda>(l, en).
    Inr (fst acc @ [l], en_solver en))))"

definition assertBadClause :: "frame_store \<Rightarrow> bexpr option \<Rightarrow> nat \<Rightarrow> nat \<Rightarrow> solver \<Rightarrow> error + solver" where
  "assertBadClause fs bad firstBadFrame lastBadFrame s =
    bindE (foldE (badLiteral fs bad) [firstBadFrame..<lastBadFrame + 1] ([], s)) (\<lambda>(badClause, s').
      addClause badClause s')"

definition solveBase :: "backend \<Rightarrow> base_profile \<Rightarrow> solver \<Rightarrow> error + solve_status \<times> solver" where
  "solveBase B profile s =
    (if profile = FastCounterexampleSearch
     then if sv_type s = KISSAT
          then solveWithKissatResourceLimits B (word_of_int kFastCounterexampleSearchConflictLimit)
                 (word_of_int kFastCounterexampleSearchDecisionLimit) s
          else solveWithAssumptionsStatus B [] kFastCounterexampleSearchConflictLimit (- 1) (- 1) s
     else Inr (solveStatus B s, s))"

section \<open>The witness\<close>

text \<open>The reader is \<open>getLiteralValue\<close> of the solver after its satisfiable answer.\<close>

type_synonym model_reader = "int \<Rightarrow> error + bool"

definition readSymbol' :: "model_reader \<Rightarrow> frame_store \<Rightarrow> nat \<Rightarrow> var_id \<Rightarrow> error + bool" where
  "readSymbol' rd fs frame symbol = bindE (getLiteral fs symbol frame) rd"

definition buildFrameEnvironment :: "model_reader \<Rightarrow> frame_store \<Rightarrow> bexpr option \<Rightarrow> nat \<Rightarrow> error + (var_id \<rightharpoonup> bool)" where
  "buildFrameEnvironment rd fs formula frame =
    (case formula of
       None \<Rightarrow> Inr Map.empty
     | Some f \<Rightarrow> foldE (\<lambda>symbol env. if symbol < 2 then Inr env
           else bindE (readSymbol' rd fs frame symbol) (\<lambda>v. Inr (emplace symbol v env)))
         (sorted_list_of_set (getSupportVars f)) Map.empty)"

definition addFormulaValuesToEnvironment :: "model_reader \<Rightarrow> frame_store \<Rightarrow> bexpr \<Rightarrow> nat \<Rightarrow> (var_id \<rightharpoonup> bool) \<Rightarrow>
    error + (var_id \<rightharpoonup> bool)" where
  "addFormulaValuesToEnvironment rd fs formula frame =
    foldE (\<lambda>symbol env. if symbol < 2 \<or> env symbol \<noteq> None then Inr env
        else if \<not> hasSymbol fs symbol then Inr env
        else bindE (readSymbol' rd fs frame symbol) (\<lambda>v. Inr (emplace symbol v env)))
      (sorted_list_of_set (getSupportVars formula))"

definition formulaSupportCoveredByVariables :: "frame_store \<Rightarrow> bexpr \<Rightarrow> bool" where
  "formulaSupportCoveredByVariables fs formula =
    (\<forall>symbol \<in> getSupportVars formula. 2 \<le> symbol \<longrightarrow> hasSymbol fs symbol)"

primrec firstBadFrameIn :: "model_reader \<Rightarrow> frame_store \<Rightarrow> bexpr \<Rightarrow> nat list \<Rightarrow> error + nat" where
  "firstBadFrameIn rd fs bad [] = Inl (Runtime_Error ''SAT model does not satisfy any bad frame'')"
| "firstBadFrameIn rd fs bad (frame # frames) =
    bindE (buildFrameEnvironment rd fs (Some bad) frame) (\<lambda>env.
    bindE (evaluate env bad) (\<lambda>b. if b then Inr frame else firstBadFrameIn rd fs bad frames))"

definition findFirstBadFrame :: "model_reader \<Rightarrow> frame_store \<Rightarrow> bexpr \<Rightarrow> nat \<Rightarrow> nat \<Rightarrow> error + nat" where
  "findFirstBadFrame rd fs bad firstBadFrame maxFrame = firstBadFrameIn rd fs bad [firstBadFrame..<maxFrame + 1]"

definition inputName :: "problem \<Rightarrow> nat \<Rightarrow> string" where
  "inputName p i =
    (if i < length (pb_environmentInputNames p) then pb_environmentInputNames p ! i
     else ''input_'' @ showWord (pb_inputSymbols p ! i))"

definition frameInputs :: "model_reader \<Rightarrow> frame_store \<Rightarrow> problem \<Rightarrow> nat \<Rightarrow> error + (string \<times> bool) list" where
  "frameInputs rd fs p frame =
    mapE (\<lambda>i. bindE (readSymbol' rd fs frame (pb_inputSymbols p ! i)) (\<lambda>v. Inr (inputName p i, v)))
      (filter (\<lambda>i. hasSymbol fs (pb_inputSymbols p ! i)) [0..<length (pb_inputSymbols p)])"

definition buildInputTrace :: "model_reader \<Rightarrow> frame_store \<Rightarrow> problem \<Rightarrow> nat \<Rightarrow> nat \<Rightarrow> nat \<Rightarrow> error + frame_inputs list" where
  "buildInputTrace rd fs p firstFrame lastFrame frameOffset =
    mapE (\<lambda>frame. bindE (frameInputs rd fs p frame) (\<lambda>as.
        Inr \<lparr> fi_frame = frame - frameOffset, fi_assignments = as \<rparr>)) [firstFrame..<lastFrame + 1]"

definition outputName :: "problem \<Rightarrow> nat \<Rightarrow> string" where
  "outputName p i =
    (if i < length (pb_observedOutputNames p) then pb_observedOutputNames p ! i else ''output_'' @ showNat i)"

definition outputMismatch :: "model_reader \<Rightarrow> frame_store \<Rightarrow> problem \<Rightarrow> nat \<Rightarrow> nat \<Rightarrow> error + signal_mismatch list" where
  "outputMismatch rd fs p frame i =
    (let expr0 = pb_observedOutputExprs0 p ! i; expr1 = pb_observedOutputExprs1 p ! i in
     if \<not> formulaSupportCoveredByVariables fs expr0 \<or> \<not> formulaSupportCoveredByVariables fs expr1 then Inr []
     else bindE (addFormulaValuesToEnvironment rd fs expr0 frame Map.empty) (\<lambda>env0.
       bindE (addFormulaValuesToEnvironment rd fs expr1 frame env0) (\<lambda>env.
       bindE (evaluate env expr0) (\<lambda>value0.
       bindE (evaluate env expr1) (\<lambda>value1.
       Inr (if value0 \<noteq> value1
            then [\<lparr> sm_signal = outputName p i, sm_design0Value = value0, sm_design1Value = value1 \<rparr>]
            else []))))))"

definition collectObservedOutputMismatches :: "model_reader \<Rightarrow> frame_store \<Rightarrow> problem \<Rightarrow> nat \<Rightarrow>
    error + signal_mismatch list" where
  "collectObservedOutputMismatches rd fs p frame =
    bindE (mapE (outputMismatch rd fs p frame) [0..<length (pb_observedOutputExprs0 p)]) (\<lambda>ms. Inr (concat ms))"

text \<open>The caller has found the bad formula present.\<close>

definition buildCounterexampleWitness :: "model_reader \<Rightarrow> frame_store \<Rightarrow> problem \<Rightarrow> nat \<Rightarrow> nat \<Rightarrow> nat \<Rightarrow>
    error + cex_witness" where
  "buildCounterexampleWitness rd fs p firstBadFrame maxFrame frameOffset =
    bindE (findFirstBadFrame rd fs (the (pb_bad p)) firstBadFrame maxFrame) (\<lambda>internalBadFrame.
    bindE (buildInputTrace rd fs p frameOffset internalBadFrame frameOffset) (\<lambda>trace.
    bindE (collectObservedOutputMismatches rd fs p internalBadFrame) (\<lambda>mismatches.
    Inr \<lparr> cw_badFrame = internalBadFrame - frameOffset, cw_inputTrace = trace,
          cw_outputMismatches = mismatches \<rparr>)))"

section \<open>The query\<close>

definition baseQuery :: "backend \<Rightarrow> problem \<Rightarrow> solver_type \<Rightarrow> nat \<Rightarrow> nat option \<Rightarrow> base_profile \<Rightarrow>
    error + cex_witness option \<times> solve_status" where
  "baseQuery B p t k exactPublicBadFrame profile =
    (case baseShapeOf p k exactPublicBadFrame of
       None \<Rightarrow> Inr (None, Unsat)
     | Some (sh, lastBadFrame) \<Rightarrow>
         let b = bs_bootstrapFrames sh; rails = pb_usesDualRailStateEncoding p in
         bindE (buildBaseCaseCoi p sh) (\<lambda>(coi, r).
         case newFrameStore (bc_symbols coi) (bs_internalK sh + 1) (newSolver t) of (fs, s0) \<Rightarrow>
         bindE (assertBasePrefix (b \<noteq> 0 \<and> rails) (b \<noteq> 0 \<and> \<not> rails) p sh coi (newResolver (tr_problem r)) fs s0) (\<lambda>(s1, _).
         bindE (assertBadClause fs (pb_bad p) (bs_firstBadFrame sh) lastBadFrame s1) (\<lambda>s2.
         bindE (solveBase B profile s2) (\<lambda>(st, s3).
         if st \<noteq> Sat then Inr (None, st)
         else if profile = PdrValidationProofOnly
         then Inr (Some \<lparr> cw_badFrame = bs_firstBadFrame sh - b, cw_inputTrace = [], cw_outputMismatches = [] \<rparr>, st)
         else bindE (buildCounterexampleWitness (\<lambda>l. getLiteralValue B [] l s3) fs p (bs_firstBadFrame sh) lastBadFrame b)
           (\<lambda>w. Inr (Some w, st)))))))"

definition makeSingleObservedOutputProblem :: "problem \<Rightarrow> nat \<Rightarrow> problem" where
  "makeSingleObservedOutputProblem p outputIndex =
    (let expr0 = pb_observedOutputExprs0 p ! outputIndex; expr1 = pb_observedOutputExprs1 p ! outputIndex;
         outputBad = simplify (mkXor expr0 expr1)
     in p\<lparr> pb_observedOutputs :=
             (if outputIndex < length (pb_observedOutputs p) then [pb_observedOutputs p ! outputIndex] else []),
           pb_observedOutputNames :=
             (if outputIndex < length (pb_observedOutputNames p) then [pb_observedOutputNames p ! outputIndex] else []),
           pb_observedOutputExprs0 := [expr0], pb_observedOutputExprs1 := [expr1],
           pb_bad := Some outputBad, pb_property := Some (mkNot outputBad),
           pb_inductionBad := Some outputBad, pb_inductionProperty := Some (mkNot outputBad) \<rparr>)"

definition outputCandidates :: "problem \<Rightarrow> base_profile \<Rightarrow> nat list" where
  "outputCandidates p profile =
    (let outputs = [0..<length (pb_observedOutputExprs0 p)] in
     if profile = FastCounterexampleSearch
     then sort_key (\<lambda>i. card (getSupportVars (pb_observedOutputExprs0 p ! i)) +
            card (getSupportVars (pb_observedOutputExprs1 p ! i))) outputs
     else outputs)"

definition findPerOutputBaseCounterexampleAtFrontier :: "backend \<Rightarrow> problem \<Rightarrow> solver_type \<Rightarrow> nat \<Rightarrow> nat option \<Rightarrow>
    base_profile \<Rightarrow> error + cex_witness option" where
  "findPerOutputBaseCounterexampleAtFrontier B p t k exactPublicBadFrame profile =
    (if exactPublicBadFrame = None \<or> length (pb_observedOutputExprs0 p) \<le> 1 \<or>
        length (pb_observedOutputExprs0 p) \<noteq> length (pb_observedOutputExprs1 p)
     then Inr None
     else firstSomeE (\<lambda>i. bindE (baseQuery B (makeSingleObservedOutputProblem p i) t k exactPublicBadFrame profile)
            (\<lambda>(w, _). Inr w)) (outputCandidates p profile))"

definition findBaseCounterexampleImpl :: "backend \<Rightarrow> problem \<Rightarrow> solver_type \<Rightarrow> nat \<Rightarrow> nat option \<Rightarrow> bool \<Rightarrow>
    base_profile \<Rightarrow> error + cex_witness option \<times> solve_status" where
  "findBaseCounterexampleImpl B p t k exactPublicBadFrame localizeMultiOutputFrontier profile =
    (if localizeMultiOutputFrontier \<and> exactPublicBadFrame \<noteq> None \<and> 1 < length (pb_observedOutputExprs0 p) \<and>
        length (pb_observedOutputExprs0 p) = length (pb_observedOutputExprs1 p)
     then bindE (findPerOutputBaseCounterexampleAtFrontier B p t k exactPublicBadFrame profile)
       (\<lambda>w. Inr (w, Unsat))
     else baseQuery B p t k exactPublicBadFrame profile)"

section \<open>Cached frontier queries\<close>

definition findImcCachedBaseCounterexampleAtFrontierQuery :: "backend \<Rightarrow> imc_cache \<Rightarrow> solver_type \<Rightarrow> nat \<Rightarrow>
    base_profile \<Rightarrow> error + cex_witness option \<times> solve_status" where
  "findImcCachedBaseCounterexampleAtFrontierQuery B c t k profile =
    (let p = im_problem c in
     case baseShapeOf p k (Some k) of
       None \<Rightarrow> Inr (None, Unsat)
     | Some (sh, lastBadFrame) \<Rightarrow>
         bindE (buildImcCachedBaseCaseCoi c sh) (\<lambda>(coi, r).
         case newFrameStore (bc_symbols coi) (bs_internalK sh + 1) (newSolver t) of (fs, s0) \<Rightarrow>
         bindE (assertBasePrefix False (bs_bootstrapFrames sh \<noteq> 0) p sh coi r fs s0) (\<lambda>(s1, _).
         bindE (assertBaseFormula fs (pb_bad p) ''bad-state formula'' (bs_firstBadFrame sh) s1) (\<lambda>s2.
         bindE (solveBase B profile s2) (\<lambda>(st, s3).
         if st \<noteq> Sat then Inr (None, st)
         else bindE (buildCounterexampleWitness (\<lambda>l. getLiteralValue B [] l s3) fs p (bs_firstBadFrame sh)
             lastBadFrame (bs_bootstrapFrames sh)) (\<lambda>w. Inr (Some w, st)))))))"

definition assumptionSolverTypeFor :: "solver_type \<Rightarrow> solver_type" where
  "assumptionSolverTypeFor t = (if t = GLUCOSE then GLUCOSE else CADICAL)"

definition outputBadLiteral :: "problem \<Rightarrow> nat \<Rightarrow> int list \<times> encoder \<Rightarrow> error + int list \<times> encoder" where
  "outputBadLiteral p i acc =
    bindE (encode (Some (simplify (mkXor (pb_observedOutputExprs0 p ! i) (pb_observedOutputExprs1 p ! i)))) (snd acc))
      (\<lambda>(l, en). Inr (fst acc @ [l], en))"

definition singleOutputCache :: "imc_cache \<Rightarrow> nat \<Rightarrow> imc_cache" where
  "singleOutputCache c i = makeImcBaseCounterexampleCache (makeSingleObservedOutputProblem (im_problem c) i)"

text \<open>One solver answers an assumption query per output; an undecided one falls back to the exact
  query of the single output.\<close>

definition assumptionQuery :: "backend \<Rightarrow> imc_cache \<Rightarrow> solver_type \<Rightarrow> nat \<Rightarrow> base_shape \<Rightarrow> frame_store \<Rightarrow> solver \<Rightarrow>
    nat \<times> int \<Rightarrow> error + cex_witness option" where
  "assumptionQuery B c t k sh fs s il =
    bindE (solveWithAssumptionsStatus B [snd il] (- 1) (- 1) (- 1) s) (\<lambda>(st, s').
      case st of
        Sat \<Rightarrow> bindE (buildCounterexampleWitness (\<lambda>l. getLiteralValue B [internalLit (snd il)] l s') fs (im_problem c)
            (bs_firstBadFrame sh) (bs_firstBadFrame sh) (bs_bootstrapFrames sh)) (\<lambda>w. Inr (Some w))
      | Unknown \<Rightarrow> bindE (findImcCachedBaseCounterexampleAtFrontierQuery B (singleOutputCache c (fst il)) t k SecConeProfile)
            (\<lambda>(w, _). Inr w)
      | Unsat \<Rightarrow> Inr None)"

definition findImcAssumptionBaseCounterexampleAtFrontier :: "backend \<Rightarrow> imc_cache \<Rightarrow> solver_type \<Rightarrow> nat \<Rightarrow>
    error + cex_witness option" where
  "findImcAssumptionBaseCounterexampleAtFrontier B c t k =
    (let p = im_problem c; n = length (pb_observedOutputExprs0 p) in
     if n = 0 \<or> n \<noteq> length (pb_observedOutputExprs1 p) then Inr None
     else case baseShapeOf p k (Some k) of
       None \<Rightarrow> Inr None
     | Some (sh, _) \<Rightarrow>
         bindE (buildImcCachedBaseCaseCoi c sh) (\<lambda>(coi, r).
         case newFrameStore (bc_symbols coi) (bs_internalK sh + 1) (newSolver (assumptionSolverTypeFor t)) of (fs, s0) \<Rightarrow>
         bindE (assertBasePrefix False (bs_bootstrapFrames sh \<noteq> 0) p sh coi r fs s0) (\<lambda>(s1, _).
         bindE (makeAllLeafLits fs (bs_firstBadFrame sh)) (\<lambda>leaves.
         bindE (foldE (outputBadLiteral p) [0..<n] ([], newEncoder s1 leaves None False 0)) (\<lambda>(lits, en).
         firstSomeE (assumptionQuery B c t k sh fs (en_solver en)) (zip [0..<n] lits))))))"

definition kMaxImcAssumptionFrontierBatchOutputs :: nat where
  "kMaxImcAssumptionFrontierBatchOutputs = 64"

definition buildStrictImcOutputSubsets :: "problem \<Rightarrow> (nat \<times> nat) list" where
  "buildStrictImcOutputSubsets p =
    (let outputCount = length (pb_observedOutputExprs0 p) in
     if outputCount \<le> 1 then []
     else case defaultOutputBatchingLimitsForProblem p of (limits, p') \<Rightarrow>
       let batches = buildSupportBoundedOutputBatches p' limits in
       if batches = [(0, outputCount)]
       then [(0, outputCount div 2), (outputCount div 2, outputCount)]
       else batches)"

definition outputSubsetCache :: "imc_cache \<Rightarrow> nat \<times> nat \<Rightarrow> imc_cache" where
  "outputSubsetCache c fe =
    (if fst fe = 0 \<and> snd fe = length (pb_observedOutputExprs0 (im_problem c)) then c
     else if snd fe = fst fe + 1 then singleOutputCache c (fst fe)
     else makeImcBaseCounterexampleCache
       (configureOutputBatchProblem (im_problem c) (im_problem c) (fst fe) (snd fe)))"

lemma defaultLimits_outputs:
  "pb_observedOutputExprs0 (snd (defaultOutputBatchingLimitsForProblem p)) = pb_observedOutputExprs0 p"
  by (auto simp: defaultOutputBatchingLimitsForProblem_def rememberDualRailResidualPublicHypothesis_def Let_def
      split: option.splits)

lemma strictSubsets_smaller:
  assumes "fe \<in> set (buildStrictImcOutputSubsets (im_problem c))"
  shows "length (pb_observedOutputExprs0 (im_problem (outputSubsetCache c fe))) <
    length (pb_observedOutputExprs0 (im_problem c))"
proof -
  let ?p = "im_problem c" and ?n = "length (pb_observedOutputExprs0 (im_problem c))"
  obtain limits p' where l: "defaultOutputBatchingLimitsForProblem ?p = (limits, p')" by fastforce
  have n': "length (pb_observedOutputExprs0 p') = ?n" using defaultLimits_outputs [of ?p] by (simp add: l)
  let ?bs = "buildSupportBoundedOutputBatches p' limits"
  have n: "1 < ?n"
    by (rule ccontr) (use assms in \<open>simp add: buildStrictImcOutputSubsets_def Let_def\<close>)
  have t: "tiles 0 ?n ?bs" using outputBatches_tile [of 0 p' limits] n' by (simp add: buildSupportBoundedOutputBatches_def)
  have "fst fe < snd fe \<and> snd fe \<le> ?n \<and> (fst fe \<noteq> 0 \<or> snd fe \<noteq> ?n)"
  proof (cases "?bs = [(0, ?n)]")
    case True
    then have "fe \<in> {(0, ?n div 2), (?n div 2, ?n)}"
      using assms n by (auto simp: buildStrictImcOutputSubsets_def l Let_def)
    then show ?thesis using n by auto
  next
    case False
    then have fe: "fe \<in> set ?bs" using assms n by (simp add: buildStrictImcOutputSubsets_def l Let_def)
    then have w: "fst fe < snd fe" "snd fe \<le> ?n" using tiles_within [OF t, of "fst fe" "snd fe"] by auto
    moreover have "fst fe \<noteq> 0 \<or> snd fe \<noteq> ?n"
    proof (rule ccontr)
      assume "\<not> (fst fe \<noteq> 0 \<or> snd fe \<noteq> ?n)"
      then have e: "fe = (0, ?n)" by (cases fe) simp
      obtain j rs where bs: "?bs = (0, j) # rs" using t n by (cases ?bs) auto
      have j: "tiles j ?n rs" "0 < j" using t by (auto simp: bs)
      show False
      proof (cases "(0, ?n) \<in> set rs")
        case True
        then show ?thesis using tiles_within [OF j(1) True] j(2) by simp
      next
        case not: False
        then have "j = ?n" using fe by (simp add: bs e)
        then have "rs = []" using j(1) tiles_le by (cases rs) fastforce+
        then show ?thesis using False \<open>j = ?n\<close> by (simp add: bs)
      qed
    qed
    ultimately show ?thesis by blast
  qed
  then show ?thesis
    using n by (auto simp: outputSubsetCache_def singleOutputCache_def makeImcBaseCounterexampleCache_def
        makeSingleObservedOutputProblem_def configureOutputBatchProblem_def Let_def)
qed

function findImcBaseCounterexampleAtFrontierImpl :: "backend \<Rightarrow> imc_cache \<Rightarrow> solver_type \<Rightarrow> nat \<Rightarrow>
    error + cex_witness option" where
  "findImcBaseCounterexampleAtFrontierImpl B c t k =
    (let p = im_problem c; n = length (pb_observedOutputExprs0 p) in
     if 1 < n \<and> n = length (pb_observedOutputExprs1 p)
     then if n \<le> kMaxImcAssumptionFrontierBatchOutputs
          then if t = KISSAT
               then bindE (findImcCachedBaseCounterexampleAtFrontierQuery B c t k SecConeProfile) (\<lambda>(w, _). Inr w)
               else findImcAssumptionBaseCounterexampleAtFrontier B c t k
          else firstSomeE (\<lambda>fe. findImcBaseCounterexampleAtFrontierImpl B (outputSubsetCache c fe) t k)
            (buildStrictImcOutputSubsets p)
     else bindE (findImcCachedBaseCounterexampleAtFrontierQuery B c t k SecConeProfile) (\<lambda>(w, _). Inr w))"
  by pat_completeness auto
termination
  by (relation "measure (\<lambda>(_, c, _, _). length (pb_observedOutputExprs0 (im_problem c)))")
    (auto simp: strictSubsets_smaller)

declare findImcBaseCounterexampleAtFrontierImpl.simps [simp del]

section \<open>The public entry points\<close>

datatype base_check_status = NoCounterexample | CounterexampleFound | CheckUnknown

definition findBaseCounterexample :: "backend \<Rightarrow> problem \<Rightarrow> solver_type \<Rightarrow> nat \<Rightarrow> error + cex_witness option" where
  "findBaseCounterexample B p t k =
    bindE (findBaseCounterexampleImpl B p t k None True SecConeProfile) (\<lambda>(w, _). Inr w)"

definition checkBaseCounterexampleWithFastValidation :: "backend \<Rightarrow> problem \<Rightarrow> solver_type \<Rightarrow> nat \<Rightarrow>
    error + base_check_status \<times> cex_witness option" where
  "checkBaseCounterexampleWithFastValidation B p t k =
    bindE (findBaseCounterexampleImpl B p t k None False FastCounterexampleSearch) (\<lambda>(w, st).
      Inr (case st of Unsat \<Rightarrow> NoCounterexample | Sat \<Rightarrow> CounterexampleFound | Unknown \<Rightarrow> CheckUnknown, w))"

definition findKInductionBaseCounterexampleAtFrontier :: "backend \<Rightarrow> imc_cache \<Rightarrow> solver_type \<Rightarrow> nat \<Rightarrow>
    error + cex_witness option" where
  "findKInductionBaseCounterexampleAtFrontier B c t k = findImcBaseCounterexampleAtFrontierImpl B c t k"

definition findFastBaseCounterexampleAtFrontier :: "backend \<Rightarrow> problem \<Rightarrow> solver_type \<Rightarrow> nat \<Rightarrow>
    error + cex_witness option" where
  "findFastBaseCounterexampleAtFrontier B p t k =
    bindE (findBaseCounterexampleImpl B p t k (Some k) True FastCounterexampleSearch) (\<lambda>(w, _). Inr w)"

definition provesNoBaseCounterexampleAtFrontier :: "backend \<Rightarrow> problem \<Rightarrow> solver_type \<Rightarrow> nat \<Rightarrow> error + bool" where
  "provesNoBaseCounterexampleAtFrontier B p t k =
    bindE (findBaseCounterexampleImpl B p t k (Some k) False PdrValidationProofOnly) (\<lambda>(w, st).
      Inr (w = None \<and> st = Unsat))"

section \<open>The public prefix of dual-rail problems\<close>

text \<open>The thread-local record of the last safe prefix.  The address of the problem and the
  verification generation of the process are arguments.\<close>

record prefix_cache =
  pc_problem :: "nat option"
  pc_verificationGeneration :: nat
  pc_solverType :: solver_type
  pc_hasSafeThrough :: bool
  pc_safeThrough :: nat

definition emptyPrefixCache :: prefix_cache where
  "emptyPrefixCache = \<lparr> pc_problem = None, pc_verificationGeneration = 0, pc_solverType = KISSAT,
     pc_hasSafeThrough = False, pc_safeThrough = 0 \<rparr>"

definition resetPrefixCache :: "nat \<Rightarrow> nat \<Rightarrow> solver_type \<Rightarrow> prefix_cache" where
  "resetPrefixCache address generation t = \<lparr> pc_problem = Some address, pc_verificationGeneration = generation,
     pc_solverType = t, pc_hasSafeThrough = False, pc_safeThrough = 0 \<rparr>"

definition kDualRailPublicBasePrefixWindow :: nat where
  "kDualRailPublicBasePrefixWindow = 8"

definition kLargeDualRailPublicBasePrefixWindow :: nat where
  "kLargeDualRailPublicBasePrefixWindow = 32"

definition kMinLargeDualRailPublicBasePrefixStateSymbols :: nat where
  "kMinLargeDualRailPublicBasePrefixStateSymbols = 512"

definition canUseDualRailPublicBasePrefixCache :: "problem \<Rightarrow> bool" where
  "canUseDualRailPublicBasePrefixCache p =
    (pb_usesDualRailStateEncoding p \<and> 1 < length (pb_observedOutputExprs0 p) \<and>
     length (pb_observedOutputExprs0 p) = length (pb_observedOutputExprs1 p))"

definition dualRailBaseStateSymbolCount :: "problem \<Rightarrow> nat" where
  "dualRailBaseStateSymbolCount p =
    (if pb_dualRailStatePairs p = [] then length (pb_state0Symbols p) + length (pb_state1Symbols p)
     else length (pb_dualRailStatePairs p) * 2)"

definition shouldUseMonolithicDualRailPublicBasePrefix :: "problem \<Rightarrow> bool" where
  "shouldUseMonolithicDualRailPublicBasePrefix p =
    (kMinLargeDualRailPublicBasePrefixStateSymbols \<le> dualRailBaseStateSymbolCount p)"

definition dualRailPublicBasePrefixWindow :: "problem \<Rightarrow> nat" where
  "dualRailPublicBasePrefixWindow p =
    (if kMinLargeDualRailPublicBasePrefixStateSymbols \<le> dualRailBaseStateSymbolCount p
     then kLargeDualRailPublicBasePrefixWindow else kDualRailPublicBasePrefixWindow)"

definition findDualRailBatchedBaseCounterexampleUpTo :: "backend \<Rightarrow> problem \<Rightarrow> solver_type \<Rightarrow> nat \<Rightarrow>
    error + cex_witness option" where
  "findDualRailBatchedBaseCounterexampleUpTo B p t k =
    (if shouldUseMonolithicDualRailPublicBasePrefix p
     then bindE (findBaseCounterexampleImpl B p t k None False SecConeProfile) (\<lambda>(w, _). Inr w)
     else case defaultOutputBatchingLimitsForProblem p of (limits, p') \<Rightarrow>
       firstSomeE (\<lambda>(firstOutput, endOutput).
           bindE (findBaseCounterexampleImpl B (configureOutputBatchProblem p' p' firstOutput endOutput) t k None False
             SecConeProfile) (\<lambda>(w, _). Inr w))
         (buildSupportBoundedOutputBatches p' limits))"

definition currentPrefixCache :: "nat \<Rightarrow> nat \<Rightarrow> solver_type \<Rightarrow> prefix_cache \<Rightarrow> prefix_cache" where
  "currentPrefixCache address generation t pc =
    (if pc_problem pc \<noteq> Some address \<or> pc_solverType pc \<noteq> t \<or> pc_verificationGeneration pc \<noteq> generation
     then resetPrefixCache address generation t else pc)"

text \<open>The outer option says whether the question was handled.\<close>

definition tryDualRailPublicBasePrefixCache :: "backend \<Rightarrow> nat \<Rightarrow> nat \<Rightarrow> problem \<Rightarrow> solver_type \<Rightarrow> nat \<Rightarrow> prefix_cache \<Rightarrow>
    error + cex_witness option option \<times> prefix_cache" where
  "tryDualRailPublicBasePrefixCache B address generation p t k pc =
    (if \<not> canUseDualRailPublicBasePrefixCache p then Inr (None, pc)
     else let c = currentPrefixCache address generation t pc in
       if pc_hasSafeThrough c \<and> k \<le> pc_safeThrough c then Inr (Some None, c)
       else let prefixK = k + dualRailPublicBasePrefixWindow p in
         bindE (findDualRailBatchedBaseCounterexampleUpTo B p t prefixK) (\<lambda>w.
           case w of
             None \<Rightarrow> Inr (Some None, c\<lparr> pc_hasSafeThrough := True, pc_safeThrough := prefixK \<rparr>)
           | Some cex \<Rightarrow> if cw_badFrame cex = k then Inr (Some (Some cex), c) else Inr (None, c)))"

definition findBaseCounterexampleAtFrontier :: "backend \<Rightarrow> nat \<Rightarrow> nat \<Rightarrow> problem \<Rightarrow> solver_type \<Rightarrow> nat \<Rightarrow> prefix_cache \<Rightarrow>
    error + cex_witness option \<times> prefix_cache" where
  "findBaseCounterexampleAtFrontier B address generation p t k pc =
    bindE (tryDualRailPublicBasePrefixCache B address generation p t k pc) (\<lambda>(handled, pc').
      case handled of
        Some w \<Rightarrow> Inr (w, pc')
      | None \<Rightarrow>
          bindE (if canUseDualRailPublicBasePrefixCache p
                 then findImcBaseCounterexampleAtFrontierImpl B (makeImcBaseCounterexampleCache p) t k
                 else bindE (findBaseCounterexampleImpl B p t k (Some k) True SecConeProfile) (\<lambda>(w, _). Inr w))
            (\<lambda>w. Inr (w, pc')))"

end
