(* ===== verification/Base_Coi_Correct.thy ===== *)
theory Base_Coi_Correct
  imports Base_Coi Induction_Coi_Correct
begin

text \<open>
  The cone of the base case: its closure under state equalities is the one of the induction step,
  the sets of the frames are the levels of one backward recursion that both engines share, and
  the symbols of the query cover everything its constraints read.
\<close>

section \<open>The closure\<close>

definition partnersOf :: "(var_id \<times> var_id) list \<Rightarrow> var_id \<Rightarrow> var_id set" where
  "partnersOf pairs x = {y. (x, y) \<in> set pairs \<or> (y, x) \<in> set pairs}"

lemma linkSymbols_set:
  "set (linkSymbols (a, b) m x) = set (m x) \<union> (if x = a then {b} else {}) \<union> (if x = b then {a} else {})"
  by (auto simp: linkSymbols_def Let_def)

lemma equalityIndex_set: "set (equalityIndex pairs x) = partnersOf pairs x"
proof -
  have "set (fold linkSymbols ps m x) = set (m x) \<union> partnersOf ps x" for ps m
  proof (induction ps arbitrary: m)
    case (Cons ab ps)
    obtain a b where ab: "ab = (a, b)" by fastforce
    show ?case
      unfolding ab fold_simps(2) o_apply Cons.IH linkSymbols_set by (auto simp: partnersOf_def)
  qed (simp add: partnersOf_def)
  then show ?thesis by (simp add: equalityIndex_def)
qed

lemma closed_partners: "equalityClosed pairs C \<longleftrightarrow> (\<forall>x \<in> C. partnersOf pairs x \<subseteq> C)"
  by (auto simp: equalityClosed_def partnersOf_def)

lemma closeWork_props:
  "S \<subseteq> closeWork m w S"
  "set w \<subseteq> S \<Longrightarrow> (\<And>x. x \<in> S \<Longrightarrow> x \<notin> set w \<Longrightarrow> set (m x) \<subseteq> S) \<Longrightarrow>
    (\<forall>x \<in> closeWork m w S. set (m x) \<subseteq> closeWork m w S)"
  "S \<subseteq> C \<Longrightarrow> (\<And>x. x \<in> C \<Longrightarrow> set (m x) \<subseteq> C) \<Longrightarrow> set w \<subseteq> C \<Longrightarrow> closeWork m w S \<subseteq> C"
proof (induction m w S rule: closeWork.induct)
  case (1 m S)
  {
    case 1
    then show ?case by simp
  next
    case 2
    then show ?case by simp
  next
    case 3
    then show ?case by simp
  }
next
  case (2 m x w S)
  obtain w' S' where s: "fold reachPartner (m x) (w, S) = (w', S')" by fastforce
  have S': "S' = S \<union> set (m x)" and w': "set w' = set w \<union> (set (m x) - S)"
    using fold_reachPartner [of "m x" w S] by (simp_all add: s)
  note IH = "2.IH" [OF s [symmetric]]
  {
    case 1
    show ?case using IH(1) S' by (auto simp: s)
  next
    case 2
    have "set w' \<subseteq> S'" using 2 S' w' by auto
    moreover have "set (m y) \<subseteq> S'" if "y \<in> S'" "y \<notin> set w'" for y
      using 2(2) [of y] that S' w' by (cases "y = x") auto
    ultimately show ?case using IH(2) by (simp add: s)
  next
    case 3
    have "set (m x) \<subseteq> C" using 3 by simp
    then have "S' \<subseteq> C" "set w' \<subseteq> C" using 3 S' w' by auto
    then have "closeWork m w' S' \<subseteq> C" using IH(3) 3(2) by blast
    then show ?case by (simp add: s)
  }
qed

lemma finite_symbols [simp]: "finite (S :: var_id set)"
  by (rule finite_subset [OF subset_UNIV]) simp

text \<open>The work list computes what the repeated passes of the induction step compute.\<close>

lemma closeEqualities_dependencies:
  "closeEqualities (equalityIndex pairs) S = closeStateEqualityDependencies pairs S"
proof
  let ?C = "closeEqualities (equalityIndex pairs) S" and ?D = "closeStateEqualityDependencies pairs S"
  have D: "S \<subseteq> ?D" "equalityClosed pairs ?D" "\<And>C. S \<subseteq> C \<Longrightarrow> equalityClosed pairs C \<Longrightarrow> ?D \<subseteq> C"
    using closeDependencies_ok [of S pairs] by blast+
  have "set (equalityIndex pairs x) \<subseteq> ?D" if "x \<in> ?D" for x
    using D(2) that by (simp add: closed_partners equalityIndex_set)
  then show "?C \<subseteq> ?D" unfolding closeEqualities_def by (intro closeWork_props(3) D(1)) (use D(1) in simp_all)
  have "\<forall>x \<in> ?C. set (equalityIndex pairs x) \<subseteq> ?C"
    unfolding closeEqualities_def by (rule closeWork_props(2)) auto
  then have "equalityClosed pairs ?C" by (simp add: closed_partners equalityIndex_set)
  moreover have "S \<subseteq> ?C" unfolding closeEqualities_def by (rule closeWork_props(1))
  ultimately show "?D \<subseteq> ?C" by (intro D(3))
qed

lemma closeBase_sameFrame: "closeBaseStateEqualities = closeSameFrameStateEqualityDependencies"
  by (intro ext) (simp add: closeBaseStateEqualities_def closeFrameEqualityDependencies_def
      closeEqualities_dependencies closeSameFrameStateEqualityDependencies_def)

lemma closeCached_sameFrame:
  "closeCachedStateEqualities (makeImcBaseCounterexampleCache p) = closeSameFrameStateEqualityDependencies p"
  by (intro ext) (simp add: closeCachedStateEqualities_def makeImcBaseCounterexampleCache_def
      closeEqualities_dependencies closeSameFrameStateEqualityDependencies_def)

lemma closePass_monotone: "S \<subseteq> T \<Longrightarrow> closeStateEqualityDependencies pairs S \<subseteq> closeStateEqualityDependencies pairs T"
  using closeDependencies_ok [of S pairs] closeDependencies_ok [of T pairs] by (meson order_trans)

lemma closeSameFrame_monotone:
  "S \<subseteq> T \<Longrightarrow> closeSameFrameStateEqualityDependencies p S \<subseteq> closeSameFrameStateEqualityDependencies p T"
  by (simp add: closeSameFrameStateEqualityDependencies_def closePass_monotone)

section \<open>Levels of a cone\<close>

text \<open>The states a frame needs, by its distance from the last frame: what is asserted there and what
  the targets of the next frame read.  Closure, targets and reads are arguments.\<close>

primrec coneLevel :: "(var_id set \<Rightarrow> var_id set) \<Rightarrow> (var_id set \<Rightarrow> var_id list) \<Rightarrow> (var_id list \<Rightarrow> var_id set) \<Rightarrow>
    (nat \<Rightarrow> var_id set) \<Rightarrow> nat \<Rightarrow> var_id set" where
  "coneLevel cl tg rd seeds 0 = cl (seeds 0)"
| "coneLevel cl tg rd seeds (Suc m) = cl (seeds (Suc m) \<union> rd (tg (coneLevel cl tg rd seeds m)))"

definition levelStep :: "(var_id set \<Rightarrow> var_id set) \<Rightarrow> (var_id set \<Rightarrow> var_id list) \<Rightarrow> (var_id list \<Rightarrow> var_id set) \<Rightarrow>
    nat \<Rightarrow> var_id set list \<times> var_id list list \<Rightarrow> var_id set list \<times> var_id list list" where
  "levelStep cl tg rd f st =
    (let required = (fst st)[f := cl (fst st ! f)]; ts = tg (required ! f)
     in (required[f - 1 := required ! (f - 1) \<union> rd ts], (snd st)[f - 1 := ts]))"

lemma coneLevel_mono:
  assumes "\<And>S T. S \<subseteq> T \<Longrightarrow> cl S \<subseteq> cl T" "\<And>S T. S \<subseteq> T \<Longrightarrow> rd (tg S) \<subseteq> rd (tg T)"
    and "\<And>i. i \<le> m \<Longrightarrow> seeds i \<subseteq> seeds' i"
  shows "coneLevel cl tg rd seeds m \<subseteq> coneLevel cl tg rd seeds' m"
  using assms(3)
proof (induction m)
  case (Suc m)
  have "rd (tg (coneLevel cl tg rd seeds m)) \<subseteq> rd (tg (coneLevel cl tg rd seeds' m))"
    by (rule assms(2)) (use Suc in simp)
  moreover have "seeds (Suc m) \<subseteq> seeds' (Suc m)" using Suc.prems by simp
  ultimately show ?case by (auto intro!: assms(1) simp del: Un_subset_iff)
qed (simp add: assms(1))

text \<open>The walk from the last frame to the first computes the levels.\<close>

lemma levels_walk:
  assumes len: "length req = Suc K" "length tgs = K" and n: "n \<le> K"
    and st: "fold (levelStep cl tg rd) (map (\<lambda>m. K - m) [0..<n]) (req, tgs) = (req', tgs')"
  defines "level \<equiv> coneLevel cl tg rd (\<lambda>m. req ! (K - m))"
  shows "length req' = Suc K \<and> length tgs' = K \<and> cl (req' ! (K - n)) = level n \<and>
    (\<forall>m < n. req' ! (K - m) = level m \<and> tgs' ! (K - Suc m) = tg (level m)) \<and>
    (\<forall>f < K - n. req' ! f = req ! f \<and> tgs' ! f = tgs ! f)"
  using n st
proof (induction n arbitrary: req' tgs')
  case 0
  then show ?case using len by (simp add: level_def)
next
  case (Suc n)
  obtain R T where RT: "fold (levelStep cl tg rd) (map (\<lambda>m. K - m) [0..<n]) (req, tgs) = (R, T)" by fastforce
  have IH: "length R = Suc K" "length T = K" "cl (R ! (K - n)) = level n"
    "\<And>m. m < n \<Longrightarrow> R ! (K - m) = level m \<and> T ! (K - Suc m) = tg (level m)"
    "\<And>f. f < K - n \<Longrightarrow> R ! f = req ! f \<and> T ! f = tgs ! f"
    using Suc.IH [OF _ RT] Suc.prems(1) by auto
  have K: "K - n = Suc (K - Suc n)" using Suc.prems(1) by simp
  have "levelStep cl tg rd (K - n) (R, T) = (req', tgs')" using Suc.prems(2) RT by simp
  then have r: "req' = R[K - n := level n, K - Suc n := R ! (K - Suc n) \<union> rd (tg (level n))]"
    "tgs' = T[K - Suc n := tg (level n)]"
    using IH(1,3) K by (auto simp: levelStep_def Let_def)
  have first: "R ! (K - Suc n) = req ! (K - Suc n)" using IH(5) K by simp
  have "cl (req' ! (K - Suc n)) = level (Suc n)" using r(1) IH(1) first by (simp add: level_def)
  moreover have "req' ! (K - m) = level m \<and> tgs' ! (K - Suc m) = tg (level m)" if m: "m < Suc n" for m
  proof (cases "m = n")
    case True
    then show ?thesis using r IH(1,2) K Suc.prems(1) by simp
  next
    case False
    then have "m < n" "K - m \<noteq> K - n" "K - m \<noteq> K - Suc n" "K - Suc m \<noteq> K - Suc n" using m Suc.prems(1) by auto
    then show ?thesis using r IH(4) by simp
  qed
  moreover have "req' ! f = req ! f \<and> tgs' ! f = tgs ! f" if "f < K - Suc n" for f
    using r IH(5) [of f] that K by simp
  ultimately show ?case using r IH(1,2) by simp
qed

lemma rev_frames: "rev [1..<Suc K] = map (\<lambda>m. K - m) [0..<K]"
  by (rule nth_equalityI) (simp_all add: rev_nth del: upt_Suc)

definition targetsOf :: "resolver \<Rightarrow> (var_id \<rightharpoonup> var_id) \<Rightarrow> var_id set \<Rightarrow> var_id list" where
  "targetsOf r primaries S = expandInductionTargets S r primaries"

definition stateReads :: "resolver \<Rightarrow> var_id set \<Rightarrow> var_id list \<Rightarrow> var_id set" where
  "stateReads r states ts = coneReads r ts \<inter> states"

definition problemLevel :: "problem \<Rightarrow> (nat \<Rightarrow> var_id set) \<Rightarrow> nat \<Rightarrow> var_id set" where
  "problemLevel p = coneLevel (closeSameFrameStateEqualityDependencies p)
     (targetsOf (newResolver p) (buildPrimaryByComplementSymbol p)) (stateReads (newResolver p) (buildStateSymbolSet p))"

definition problemStep :: "problem \<Rightarrow> nat \<Rightarrow> var_id set list \<times> var_id list list \<Rightarrow> var_id set list \<times> var_id list list" where
  "problemStep p = levelStep (closeSameFrameStateEqualityDependencies p)
     (targetsOf (newResolver p) (buildPrimaryByComplementSymbol p)) (stateReads (newResolver p) (buildStateSymbolSet p))"

lemma targetsOf_session: "session r r' \<Longrightarrow> targetsOf r' m S = targetsOf r m S"
  unfolding targetsOf_def expandInductionTargets_def expandInductionTarget_def
  by (simp add: contains_session cong: option.case_cong if_cong)

lemma targetsOf_set: "set (targetsOf r m S) = (\<Union>x \<in> S. expandInductionTarget r m x)"
  by (simp add: targetsOf_def expandInductionTargets_def)

lemma targetsOf_mono: "S \<subseteq> T \<Longrightarrow> set (targetsOf r m S) \<subseteq> set (targetsOf r m T)"
  by (auto simp: targetsOf_set)

lemma stateReads_mono: "set ts \<subseteq> set us \<Longrightarrow> stateReads r states ts \<subseteq> stateReads r states us"
  by (auto simp: stateReads_def coneReads_def)

lemma problemLevel_mono:
  "(\<And>i. i \<le> m \<Longrightarrow> seeds i \<subseteq> seeds' i) \<Longrightarrow> problemLevel p seeds m \<subseteq> problemLevel p seeds' m"
  unfolding problemLevel_def
  by (erule coneLevel_mono [rotated -1]; intro closeSameFrame_monotone stateReads_mono targetsOf_mono)

section \<open>The cone of the induction step, by levels\<close>

lemma coiFrame_step:
  assumes inv: "loopOk ad p k (newResolver p) st" and f: "0 < f" "f \<le> k"
    and run: "coiFrame ad p (buildStateSymbolSet p) (buildPrimaryByComplementSymbol p) f st = Inr st'"
  shows "(cl_required st', cl_targets st') = problemStep p f (cl_required st, cl_targets st)"
proof -
  let ?r = "cl_resolver st" and ?states = "buildStateSymbolSet p" and ?m = "buildPrimaryByComplementSymbol p"
  define required where
    "required = (cl_required st)[f := closeSameFrameStateEqualityDependencies p (cl_required st ! f)]"
  define ts where "ts = expandInductionTargets (required ! f) ?r ?m"
  have s: "session (newResolver p) ?r" and c: "inductionCacheOk ad p ?r (cl_cache st)" using inv by (simp_all add: loopOk_def)
  have rinv: "resolverInv ?r" using s by (simp add: session_def)
  have ts: "ts = targetsOf (newResolver p) ?m (required ! f)"
    using targetsOf_session [OF s] by (simp add: ts_def targetsOf_def)
  obtain S N r' c' where w: "collectTransitionSupportWithCache ad p ts ?states ({}, {}) (?r, cl_cache st) = Inr ((S, N), r', c')"
    "st' = \<lparr> cl_required = required[f - 1 := required ! (f - 1) \<union> S], cl_targets = (cl_targets st)[f - 1 := ts],
      cl_support = (cl_support st)[f - 1 := mergeTransitionSupportForEncoding S N],
      cl_symbols = cl_symbols st \<union> N, cl_resolver = r', cl_cache = c' \<rparr>"
    using run unfolding coiFrame_def Let_def required_def [symmetric] ts_def [symmetric]
    by (auto simp: bindE_Inr_iff split: prod.splits)
  have "S = coneReads ?r ts \<inter> ?states" using collectWithCache_ok [OF rinv c, of ts "({}, {})"] by (simp add: w(1))
  then have S: "S = stateReads (newResolver p) ?states ts" using cone_session(2) [OF s] by (simp add: stateReads_def)
  show ?thesis
    unfolding w(2) problemStep_def levelStep_def Let_def fst_conv snd_conv required_def [symmetric] ts [symmetric]
    by (simp add: S)
qed

lemma coiFrames_walk:
  assumes "loopOk ad p k (newResolver p) st" "\<forall>f \<in> set fs. 0 < f \<and> f \<le> k"
    and pub: "\<And>t. resolverContains t (newResolver p) \<Longrightarrow> \<exists>S. directSupport t (newResolver p) = Inr S"
    and "foldE (coiFrame ad p (buildStateSymbolSet p) (buildPrimaryByComplementSymbol p)) fs st = Inr st'"
  shows "(cl_required st', cl_targets st') = fold (problemStep p) fs (cl_required st, cl_targets st)"
  using assms(1,2,4)
proof (induction fs arbitrary: st)
  case (Cons f fs)
  obtain u where u: "coiFrame ad p (buildStateSymbolSet p) (buildPrimaryByComplementSymbol p) f st = Inr u"
    "foldE (coiFrame ad p (buildStateSymbolSet p) (buildPrimaryByComplementSymbol p)) fs u = Inr st'"
    using Cons.prems(3) by (auto simp: bindE_Inr_iff)
  have f: "0 < f" "f \<le> k" using Cons.prems(2) by simp_all
  have "loopOk ad p k (newResolver p) u"
    using frame_loop [OF Cons.prems(1) f pub, of "buildPrimaryByComplementSymbol p"] u(1) by auto
  then show ?case using Cons.IH [OF _ _ u(2)] Cons.prems(2) coiFrame_step [OF Cons.prems(1) f u(1)] by simp
qed simp

text \<open>The seeds of the induction cone, and its targets.\<close>

definition inductionSeeds :: "problem \<Rightarrow> bexpr option \<Rightarrow> bexpr option \<Rightarrow> nat \<Rightarrow> var_id set" where
  "inductionSeeds p property badness m =
    addFormulaStateSupport (if m = 0 then badness else property) (buildStateSymbolSet p) {}"

lemma inductionWalk:
  assumes inv: "resolverInv (newResolver p)" and cache: "inductionCacheOk ad p (newResolver p) c"
    and pub: "\<And>t. resolverContains t (newResolver p) \<Longrightarrow> \<exists>S. directSupport t (newResolver p) = Inr S"
    and coi: "buildInductionCoi ad p property badness k c = Inr (coi, r, c')"
  shows "\<exists>required. length required = Suc k \<and> set (co_relevant coi) = \<Union> (set required) \<union> \<Union> (set (map set (co_targets coi))) \<and>
    (\<forall>m \<le> k. required ! (k - m) = problemLevel p (inductionSeeds p property badness) m) \<and>
    (\<forall>m < k. co_targets coi ! (k - Suc m) =
      targetsOf (newResolver p) (buildPrimaryByComplementSymbol p) (problemLevel p (inductionSeeds p property badness) m))"
proof -
  let ?st = "initialCoi p property badness k (newResolver p) c" and ?cl = "closeSameFrameStateEqualityDependencies p"
  let ?level = "problemLevel p (inductionSeeds p property badness)"
  obtain st where st: "foldE (coiFrame ad p (buildStateSymbolSet p) (buildPrimaryByComplementSymbol p)) (rev [1..<Suc k]) ?st = Inr st"
    "co_targets coi = cl_targets st"
    "co_relevant coi = sorted_list_of_set (\<Union> (set ((cl_required st)[0 := ?cl (cl_required st ! 0)])) \<union> \<Union> (set (map set (cl_targets st))))"
    using coi by (auto simp: buildInductionCoi_def Let_def bindE_Inr_iff)
  have walk: "fold (problemStep p) (map (\<lambda>m. k - m) [0..<k]) (cl_required ?st, cl_targets ?st) = (cl_required st, cl_targets st)"
    using coiFrames_walk [OF initial_loop [OF inv cache] _ pub st(1)] by (simp add: rev_frames [symmetric] del: upt_Suc)
  have seeds: "cl_required ?st ! (k - i) = inductionSeeds p property badness i" if "i \<le> k" for i
    using that by (auto simp: initialCoi_def inductionSeeds_def nth_append)
  have level: "problemLevel p (\<lambda>i. cl_required ?st ! (k - i)) m = ?level m" if "m \<le> k" for m
    by (rule subset_antisym) (rule problemLevel_mono, use seeds that in simp)+
  have W: "length (cl_required st) = Suc k" "?cl (cl_required st ! 0) = ?level k"
    "\<And>m. m < k \<Longrightarrow> cl_required st ! (k - m) = ?level m \<and>
      cl_targets st ! (k - Suc m) = targetsOf (newResolver p) (buildPrimaryByComplementSymbol p) (?level m)"
    using levels_walk [OF _ _ order_refl walk [unfolded problemStep_def]] level
    by (simp_all add: problemLevel_def [symmetric] initialCoi_def)
  let ?required = "(cl_required st)[0 := ?cl (cl_required st ! 0)]"
  have "?required ! (k - m) = ?level m" if "m \<le> k" for m
    using W that by (cases "m = k") simp_all
  then show ?thesis
    using W by (intro exI [of _ ?required]) (simp add: st(2,3))
qed

lemma inductionTargets_levels:
  assumes "resolverInv (newResolver p)" "inductionCacheOk ad p (newResolver p) c"
    and "\<And>t. resolverContains t (newResolver p) \<Longrightarrow> \<exists>S. directSupport t (newResolver p) = Inr S"
    and "buildInductionCoi ad p property badness k c = Inr (coi, r, c')" and "m < k"
  shows "co_targets coi ! (k - Suc m) =
    targetsOf (newResolver p) (buildPrimaryByComplementSymbol p) (problemLevel p (inductionSeeds p property badness) m)"
  using inductionWalk [OF assms(1-4)] assms(5) by blast

text \<open>The state symbols that targets read are relevant.\<close>

lemma problemLevel_reads:
  "stateReads (newResolver p) (buildStateSymbolSet p) (targetsOf (newResolver p) (buildPrimaryByComplementSymbol p) (problemLevel p seeds m))
    \<subseteq> problemLevel p seeds (Suc m)"
  unfolding problemLevel_def coneLevel.simps using closeSameFrame_mono by (meson Un_subset_iff)

lemma inductionReads_relevant:
  assumes inv: "resolverInv (newResolver p)" and cache: "inductionCacheOk ad p (newResolver p) c"
    and pub: "\<And>t. resolverContains t (newResolver p) \<Longrightarrow> \<exists>S. directSupport t (newResolver p) = Inr S"
    and coi: "buildInductionCoi ad p property badness k c = Inr (coi, r, c')" and f: "f < k"
  shows "stateReads (newResolver p) (buildStateSymbolSet p) (co_targets coi ! f) \<subseteq> set (co_relevant coi)"
proof -
  obtain required where R: "length required = Suc k"
    "set (co_relevant coi) = \<Union> (set required) \<union> \<Union> (set (map set (co_targets coi)))"
    "\<And>m. m \<le> k \<Longrightarrow> required ! (k - m) = problemLevel p (inductionSeeds p property badness) m"
    "\<And>m. m < k \<Longrightarrow> co_targets coi ! (k - Suc m) = targetsOf (newResolver p) (buildPrimaryByComplementSymbol p)
       (problemLevel p (inductionSeeds p property badness) m)"
    using inductionWalk [OF inv cache pub coi] by blast
  have k: "k - Suc (k - Suc f) = f" "Suc (k - Suc f) \<le> k" "k - Suc f < k" using f by simp_all
  have "stateReads (newResolver p) (buildStateSymbolSet p) (co_targets coi ! f) \<subseteq> required ! f"
    using problemLevel_reads R(4) [OF k(3)] R(3) [OF k(2)] by (simp add: k(1))
  moreover have "required ! f \<subseteq> set (co_relevant coi)" using nth_mem [of f required] f R(1,2) by auto
  ultimately show ?thesis by blast
qed

section \<open>The cone of the base case\<close>

lemma makeCache_fields [simp]:
  "im_problem (makeImcBaseCounterexampleCache p) = p" "im_resolver (makeImcBaseCounterexampleCache p) = newResolver p"
  "im_stateSymbols (makeImcBaseCounterexampleCache p) = buildStateSymbolSet p"
  "im_primaries (makeImcBaseCounterexampleCache p) = buildPrimaryByComplementSymbol p"
  by (simp_all add: makeImcBaseCounterexampleCache_def)

lemma cached_cone: "buildImcCachedBaseCaseCoi (makeImcBaseCounterexampleCache p) = buildBaseCaseCoi p"
  by (intro ext) (simp add: buildImcCachedBaseCaseCoi_def buildBaseCaseCoi_def closeCached_sameFrame closeBase_sameFrame)

abbreviation baseFrame :: "problem \<Rightarrow> nat \<Rightarrow> base_loop \<Rightarrow> error + base_loop" where
  "baseFrame p \<equiv> baseCoiFrame (closeSameFrameStateEqualityDependencies p) (buildStateSymbolSet p)
     (buildPrimaryByComplementSymbol p)"

definition baseLoopOk :: "nat \<Rightarrow> resolver \<Rightarrow> var_id set \<Rightarrow> base_loop \<Rightarrow> bool" where
  "baseLoopOk K r X st = (length (bl_required st) = Suc K \<and> length (bl_targets st) = K \<and>
     session r (bl_resolver st) \<and> X \<subseteq> bl_symbols st \<and>
     (\<forall>f < K. (\<forall>t \<in> set (bl_targets st ! f). resolverContains t r) \<and> coneReads r (bl_targets st ! f) \<subseteq> bl_symbols st))"

lemma baseFrame_ok:
  assumes inv: "baseLoopOk K (newResolver p) X st" and f: "0 < f" "f \<le> K"
    and pub: "\<And>t. resolverContains t (newResolver p) \<Longrightarrow> \<exists>S. directSupport t (newResolver p) = Inr S"
  shows "\<exists>st'. baseFrame p f st = Inr st' \<and> baseLoopOk K (newResolver p) X st' \<and>
    (bl_required st', bl_targets st') = problemStep p f (bl_required st, bl_targets st)"
proof -
  let ?root = "newResolver p" and ?r = "bl_resolver st" and ?states = "buildStateSymbolSet p"
    and ?m = "buildPrimaryByComplementSymbol p"
  define required where "required = (bl_required st)[f := closeSameFrameStateEqualityDependencies p (bl_required st ! f)]"
  define ts where "ts = expandInductionTargets (required ! f) ?r ?m"
  have s: "session ?root ?r" and rinv: "resolverInv ?r" using inv by (simp_all add: baseLoopOk_def session_def)
  have ts: "ts = targetsOf ?root ?m (required ! f)" using targetsOf_session [OF s] by (simp add: ts_def targetsOf_def)
  have cont: "\<forall>t \<in> set ts. resolverContains t ?root"
    using expandInductionTargets_set(1) contains_session [OF s] unfolding ts_def by blast
  have "supported ?root ts" unfolding supported_def using pub cont by blast
  then have sup: "supported ?r ts" by (simp only: cone_session(1) [OF s])
  let ?acc = "(required ! (f - 1), bl_symbols st)" and ?R = "coneReads ?root ts"
  obtain acc' r' where c: "collectSupportForTargets ts ?states ?acc ?r = Inr (acc', r')"
    using collectSupport_ok [of ?r ts ?states ?acc] rinv sup by (auto simp: resolverInv_def split: sum.splits)
  then have ok: "session ?r r'" "acc' = (required ! (f - 1) \<union> ?R \<inter> ?states, bl_symbols st \<union> ?R)"
    using collectSupport_session [OF rinv c] cone_session(2) [OF s] by (simp_all add: addReads_def)
  let ?st = "\<lparr> bl_required = required[f - 1 := required ! (f - 1) \<union> ?R \<inter> ?states], bl_targets = (bl_targets st)[f - 1 := ts],
      bl_symbols = bl_symbols st \<union> ?R, bl_resolver = r' \<rparr>"
  have "baseFrame p f st = Inr ?st"
    unfolding baseCoiFrame_def Let_def required_def [symmetric] ts_def [symmetric] c bindE_simps ok(2) by simp
  moreover have "length required = Suc K" using inv by (simp add: required_def baseLoopOk_def)
  then have "baseLoopOk K ?root X ?st"
    using inv f cont session_trans [OF s ok(1)] by (auto simp: baseLoopOk_def nth_list_update)
  moreover have "(bl_required ?st, bl_targets ?st) = problemStep p f (bl_required st, bl_targets st)"
    unfolding problemStep_def levelStep_def Let_def fst_conv snd_conv required_def [symmetric] ts [symmetric]
    by (simp add: stateReads_def)
  ultimately show ?thesis by blast
qed

lemma baseFrames_walk:
  assumes "baseLoopOk K (newResolver p) X st" "\<forall>f \<in> set fs. 0 < f \<and> f \<le> K"
    and pub: "\<And>t. resolverContains t (newResolver p) \<Longrightarrow> \<exists>S. directSupport t (newResolver p) = Inr S"
  shows "\<exists>st'. foldE (baseFrame p) fs st = Inr st' \<and> baseLoopOk K (newResolver p) X st' \<and>
    (bl_required st', bl_targets st') = fold (problemStep p) fs (bl_required st, bl_targets st)"
  using assms(1,2)
proof (induction fs arbitrary: st)
  case (Cons f fs)
  have f: "0 < f" "f \<le> K" "\<forall>f \<in> set fs. 0 < f \<and> f \<le> K" using Cons.prems(2) by simp_all
  obtain u where u: "baseFrame p f st = Inr u" "baseLoopOk K (newResolver p) X u"
    "(bl_required u, bl_targets u) = problemStep p f (bl_required st, bl_targets st)"
    using baseFrame_ok [OF Cons.prems(1) f(1,2) pub] by blast
  show ?case using Cons.IH [OF u(2) f(3)] u(1) by (simp add: u(3))
qed simp

text \<open>What is asserted at a frame, and the symbols of the formulas of a query.\<close>

definition baseSeeds :: "problem \<Rightarrow> base_shape \<Rightarrow> nat \<Rightarrow> var_id set" where
  "baseSeeds p sh m = fst (seedBaseCoi p (buildStateSymbolSet p) sh) ! (bs_internalK sh - m)"

definition assertsInitial :: "problem \<Rightarrow> base_shape \<Rightarrow> bool" where
  "assertsInitial p sh = (bs_bootstrapFrames sh = 0 \<and> (bs_mode sh = CompleteInit \<or> bs_mode sh = PartialInit) \<and>
     \<not> hasStructuredInitialAssignments p)"

definition assertsProperty :: "base_shape \<Rightarrow> bool" where
  "assertsProperty sh = (if bs_bootstrapFrames sh = 0 then bs_mode sh = ObservationOnly \<or> bs_mode sh = PartialInit
     else bs_observation sh)"

definition querySupport :: "problem \<Rightarrow> base_shape \<Rightarrow> var_id set" where
  "querySupport p sh = fst ` set (pb_resetBootstrapInputs p) \<union> addFormulaSupport (pb_bad p) {} \<union>
     (if assertsInitial p sh then addFormulaSupport (pb_initialCondition p) {} else {}) \<union>
     (if assertsProperty sh then addFormulaSupport (pb_property p) {} else {})"

lemma addFormulaSupport_Un: "addFormulaSupport e S = S \<union> addFormulaSupport e {}"
  by (auto simp: addFormulaSupport_def split: option.splits)

lemma addFormulaState_Un: "addFormulaStateSupport e states S = S \<union> addFormulaStateSupport e states {}"
  by (auto simp: addFormulaStateSupport_def split: option.splits)

lemma fold_insert_fst: "fold (\<lambda>(symbol, _). insert symbol) (xs :: (var_id \<times> bool) list) S = S \<union> fst ` set xs"
  by (induction xs arbitrary: S) auto

lemma seedFrame_nth:
  "f < length L \<Longrightarrow> seedFrame states e g L ! f = L ! f \<union> (if f = g then addFormulaStateSupport e states {} else {})"
  unfolding seedFrame_def
  by (subst addFormulaState_Un) (auto simp: nth_list_update)

lemma length_seedFrame [simp]: "length (seedFrame states e g L) = length L"
  by (simp add: seedFrame_def)

lemma length_seedFrames [simp]: "length (fold (seedFrame states e) fs L) = length L"
  by (induction fs arbitrary: L) simp_all

lemma seedFrames_nth:
  "f < length L \<Longrightarrow> fold (seedFrame states e) fs L ! f =
    L ! f \<union> (if f \<in> set fs then addFormulaStateSupport e states {} else {})"
  by (induction fs arbitrary: L) (auto simp: seedFrame_nth)

lemma seed_symbols:
  assumes "\<not> bs_safePrefix sh"
  shows "snd (seedBaseCoi p states sh) = querySupport p sh"
  using assms
  by (simp add: seedBaseCoi_def seedStartup_def querySupport_def assertsInitial_def assertsProperty_def Let_def
      fold_insert_fst addFormulaSupport_Un [of _ "fst ` _"] addFormulaSupport_Un [of _ "_ \<union> _"] Un_ac split: if_splits)

lemma seed_length:
  assumes "\<not> bs_safePrefix sh"
  shows "length (fst (seedBaseCoi p states sh)) = Suc (bs_internalK sh)"
  using assms by (simp add: seedBaseCoi_def seedStartup_def Let_def)

definition baseCoiOk :: "problem \<Rightarrow> base_shape \<Rightarrow> base_coi \<Rightarrow> bool" where
  "baseCoiOk p sh coi =
    (length (bc_targets coi) = bs_internalK sh \<and> distinct (bc_symbols coi) \<and> bc_symbolSet coi = set (bc_symbols coi) \<and>
     querySupport p sh \<subseteq> set (bc_symbols coi) \<and>
     (\<forall>f < bs_internalK sh. (\<forall>t \<in> set (bc_targets coi ! f). resolverContains t (newResolver p)) \<and>
        set (bc_targets coi ! f) \<union> coneReads (newResolver p) (bc_targets coi ! f) \<subseteq> set (bc_symbols coi)) \<and>
     (\<forall>m < bs_internalK sh. bc_targets coi ! (bs_internalK sh - Suc m) =
        targetsOf (newResolver p) (buildPrimaryByComplementSymbol p) (problemLevel p (baseSeeds p sh) m)))"

lemma closeBaseSymbols_mono: "S \<subseteq> closeBaseSymbols p (closeSameFrameStateEqualityDependencies p) S"
  unfolding closeBaseSymbols_def
  by (meson complementPartners_mono closeSameFrame_mono railPartners_mono order_trans)

lemma buildBaseCaseCoi_ok:
  assumes inv: "resolverInv (newResolver p)" and safe: "\<not> bs_safePrefix sh"
    and pub: "\<And>t. resolverContains t (newResolver p) \<Longrightarrow> \<exists>S. directSupport t (newResolver p) = Inr S"
  shows "\<exists>coi r. buildBaseCaseCoi p sh = Inr (coi, r) \<and> session (newResolver p) r \<and> baseCoiOk p sh coi"
proof -
  let ?root = "newResolver p" and ?K = "bs_internalK sh" and ?cl = "closeSameFrameStateEqualityDependencies p"
  obtain req syms where seed: "seedBaseCoi p (buildStateSymbolSet p) sh = (req, syms)" by fastforce
  have syms: "syms = querySupport p sh" using seed_symbols [OF safe, of p "buildStateSymbolSet p"] by (simp add: seed)
  have len: "length req = Suc ?K" using seed_length [OF safe, of p "buildStateSymbolSet p"] by (simp add: seed)
  let ?st = "\<lparr> bl_required = req, bl_targets = replicate ?K [], bl_symbols = syms, bl_resolver = ?root \<rparr>"
  have start: "baseLoopOk ?K ?root syms ?st"
    using len session_refl [OF inv] by (simp add: baseLoopOk_def coneReads_def)
  have fs: "\<forall>f \<in> set (rev [1..<?K + 1]). 0 < f \<and> f \<le> ?K" by auto
  obtain st where st: "foldE (baseFrame p) (rev [1..<?K + 1]) ?st = Inr st" "baseLoopOk ?K ?root syms st"
    "(bl_required st, bl_targets st) = fold (problemStep p) (rev [1..<?K + 1]) (req, replicate ?K [])"
    using baseFrames_walk [OF start fs pub] by auto
  define required where "required = (bl_required st)[0 := ?cl (bl_required st ! 0)]"
  define base where "base = bl_symbols st \<union> \<Union> (set required) \<union> \<Union> (set (map set (bl_targets st)))"
  let ?symbols = "closeBaseSymbols p ?cl base"
  let ?coi = "\<lparr> bc_targets = bl_targets st, bc_required = map sorted_list_of_set required,
      bc_symbols = sorted_list_of_set ?symbols, bc_symbolSet = set (sorted_list_of_set ?symbols) \<rparr>"
  have b: "buildBaseCaseCoi p sh = Inr (?coi, bl_resolver st)"
    unfolding buildBaseCaseCoi_def closeBase_sameFrame baseCoiOf_def seed prod.case st(1) bindE_simps Let_def
      required_def [symmetric] base_def [symmetric] ..
  have mono: "base \<subseteq> ?symbols" by (rule closeBaseSymbols_mono)
  have lens: "length (bl_targets st) = ?K" using st(2) by (simp add: baseLoopOk_def)
  have "set (bl_targets st ! f) \<union> coneReads ?root (bl_targets st ! f) \<subseteq> ?symbols" if f: "f < ?K" for f
  proof -
    have "set (bl_targets st ! f) \<subseteq> base" using nth_mem [of f "bl_targets st"] f lens by (auto simp: base_def)
    moreover have "coneReads ?root (bl_targets st ! f) \<subseteq> base" using st(2) f by (auto simp: baseLoopOk_def base_def)
    ultimately show ?thesis using mono by blast
  qed
  moreover have "\<forall>t \<in> set (bl_targets st ! f). resolverContains t ?root" if "f < ?K" for f
    using st(2) that by (simp add: baseLoopOk_def)
  moreover have "querySupport p sh \<subseteq> ?symbols"
    using st(2) mono by (auto simp: baseLoopOk_def base_def syms)
  moreover have "bl_targets st ! (?K - Suc m) =
      targetsOf ?root (buildPrimaryByComplementSymbol p) (problemLevel p (baseSeeds p sh) m)" if m: "m < ?K" for m
  proof -
    have walk: "fold (problemStep p) (map (\<lambda>m. ?K - m) [0..<?K]) (req, replicate ?K []) = (bl_required st, bl_targets st)"
      using st(3) by (simp add: rev_frames [symmetric] del: upt_Suc)
    have seeds: "baseSeeds p sh = (\<lambda>m. req ! (?K - m))" by (intro ext) (simp add: baseSeeds_def seed)
    from levels_walk [OF len _ order_refl walk [unfolded problemStep_def]] m
    show ?thesis by (simp add: problemLevel_def seeds)
  qed
  ultimately have "baseCoiOk p sh ?coi" using lens by (simp add: baseCoiOk_def)
  moreover have "session ?root (bl_resolver st)" using st(2) by (simp add: baseLoopOk_def)
  ultimately show ?thesis using b by blast
qed

section \<open>Both cones compared\<close>

lemma seedFrame_beyond: "f \<noteq> g \<Longrightarrow> seedFrame states e g L ! f = L ! f"
  by (simp add: seedFrame_def)

lemma seedStartup_beyond:
  "bs_bootstrapFrames sh < f \<Longrightarrow> fst (seedStartup p states sh acc) ! f = fst acc ! f"
  by (auto simp: seedStartup_def seedFrame_beyond Let_def)

lemma baseSeeds_beyond:
  assumes safe: "\<not> bs_safePrefix sh" and f: "bs_bootstrapFrames sh < bs_internalK sh - i"
  shows "baseSeeds p sh i \<subseteq> addFormulaStateSupport (pb_bad p) (buildStateSymbolSet p) {}"
proof -
  have i: "bs_internalK sh - i < bs_internalK sh + 1" by simp
  have e: "replicate (bs_internalK sh + 1) {} ! (bs_internalK sh - i) = ({} :: var_id set)"
    by (rule nth_replicate [OF i])
  have l: "bs_internalK sh - i < length (replicate (bs_internalK sh + 1) ({} :: var_id set))"
    unfolding length_replicate by (rule i)
  have "fold (seedFrame (buildStateSymbolSet p) (pb_bad p)) [bs_firstBadFrame sh..<bs_internalK sh + 1]
      (replicate (bs_internalK sh + 1) {}) ! (bs_internalK sh - i)
    \<subseteq> addFormulaStateSupport (pb_bad p) (buildStateSymbolSet p) {}"
    unfolding seedFrames_nth [OF l] e by auto
  then show ?thesis
    unfolding baseSeeds_def seedBaseCoi_def Let_def if_not_P [OF safe] seedStartup_beyond [OF f] by simp
qed

text \<open>After the reset prefix the base case only constrains targets of the induction step.\<close>

lemma baseTargets_within:
  assumes inv: "resolverInv (newResolver p)" and cache: "inductionCacheOk ad p (newResolver p) c"
    and pub: "\<And>t. resolverContains t (newResolver p) \<Longrightarrow> \<exists>S. directSupport t (newResolver p) = Inr S"
    and coi: "buildInductionCoi ad p (Some property) (Some badness) k c = Inr (coi, r, c')"
    and base: "baseCoiOk p sh bcoi" "\<not> bs_safePrefix sh" "pb_bad p = Some badness"
    and reads: "vars badness \<inter> buildStateSymbolSet p \<subseteq> vars property"
    and K: "bs_internalK sh \<le> bs_bootstrapFrames sh + k" and f: "bs_bootstrapFrames sh \<le> f" "f < bs_internalK sh"
  shows "\<exists>g < k. set (bc_targets bcoi ! f) \<subseteq> set (co_targets coi ! g)"
proof -
  let ?K = "bs_internalK sh"
  define m where "m = ?K - Suc f"
  have m: "m < ?K" "m < k" "?K - Suc m = f" using K f by (auto simp: m_def)
  have "baseSeeds p sh i \<subseteq> inductionSeeds p (Some property) (Some badness) i" if i: "i \<le> m" for i
  proof -
    have "bs_bootstrapFrames sh < ?K - i" using i f by (simp add: m_def)
    then have "baseSeeds p sh i \<subseteq> addFormulaStateSupport (Some badness) (buildStateSymbolSet p) {}"
      using baseSeeds_beyond [OF base(2)] base(3) by metis
    also have "\<dots> \<subseteq> inductionSeeds p (Some property) (Some badness) i"
      using reads by (auto simp: inductionSeeds_def addFormulaStateSupport_def)
    finally show ?thesis .
  qed
  then have "problemLevel p (baseSeeds p sh) m \<subseteq> problemLevel p (inductionSeeds p (Some property) (Some badness)) m"
    by (rule problemLevel_mono)
  then have "set (bc_targets bcoi ! f) \<subseteq> set (co_targets coi ! (k - Suc m))"
    using base(1) m(1,3) inductionTargets_levels [OF inv cache pub coi m(2)] targetsOf_mono
    unfolding baseCoiOk_def by metis
  then show ?thesis using m(2) by (intro exI [of _ "k - Suc m"]) simp
qed

end
