(* ===== verification/Base_View.thy ===== *)
theory Base_View
  imports Base_Query Base_Coi_Correct Induction_Correct
begin

text \<open>
  Transition equations encoded without remapping: a lazily stored transition is encoded over the
  design's own symbols, through an encoder that maps them to combined symbols.  The lemmas show
  that this says of a frame pair what the resolved transition says, and that grouping the targets
  by symbol map loses none of them.
\<close>

section \<open>Views\<close>

definition viewEnv :: "(var_id \<rightharpoonup> var_id) option \<Rightarrow> (var_id \<Rightarrow> bool) \<Rightarrow> var_id \<Rightarrow> bool" where
  "viewEnv m env x = (case mapSymbol m x of Inl _ \<Rightarrow> False | Inr y \<Rightarrow> env y)"

definition mapsToSymbols :: "resolver \<Rightarrow> bool" where
  "mapsToSymbols r = (\<forall>st m v y. storeOf r = Some st \<longrightarrow> m \<in> set (ls_localToCombined st) \<longrightarrow> m v = Some y \<longrightarrow> 2 \<le> y)"

lemma session_store:
  assumes "session r r'"
  shows "tr_eager r' = tr_eager r" "storeOf r = None \<Longrightarrow> storeOf r' = None"
    "storeOf r = Some st \<Longrightarrow> \<exists>st'. storeOf r' = Some st' \<and> ls_sources st' = ls_sources st \<and>
      ls_localToCombined st' = ls_localToCombined st"
proof -
  have same: "sameSources r r'" using assms by (simp add: session_def)
  show "tr_eager r' = tr_eager r" using same by (simp add: sameSources_def)
  show "storeOf r = None \<Longrightarrow> storeOf r' = None" using store_statics [OF same] by blast
  show "storeOf r = Some st \<Longrightarrow> \<exists>st'. storeOf r' = Some st' \<and> ls_sources st' = ls_sources st \<and>
      ls_localToCombined st' = ls_localToCombined st"
    using store_statics [OF same] by (cases "storeOf r'") simp_all
qed

lemma mapsToSymbols_session:
  assumes "session r r'"
  shows "mapsToSymbols r' = mapsToSymbols r"
proof (cases "storeOf r")
  case None
  then show ?thesis using session_store(2) [OF assms None] by (simp add: mapsToSymbols_def)
next
  case (Some st)
  then show ?thesis using session_store(3) [OF assms Some] by (auto simp: mapsToSymbols_def)
qed

definition viewed :: "resolver \<Rightarrow> var_id \<Rightarrow> bexpr \<Rightarrow> (var_id \<rightharpoonup> var_id) option \<Rightarrow> bool" where
  "viewed r t v m = (\<exists>e. resolvedTo r t e \<and> (\<forall>env. eval (viewEnv m env) v = eval env e) \<and>
     (\<forall>x \<in> support v. \<exists>y. mapSymbol m x = Inr y \<and> y \<in> coneReads r [t]))"

definition designMap :: "resolver \<Rightarrow> nat option \<Rightarrow> (var_id \<rightharpoonup> var_id) option" where
  "designMap r d = map_option (\<lambda>i. ls_localToCombined (the (storeOf r)) ! i) d"

lemma viewDesign_session:
  assumes "session r r'"
  shows "viewDesign t r' = viewDesign t r" "designMap r' (viewDesign t r) = designMap r (viewDesign t r)"
proof -
  note eager = session_store(1) [OF assms]
  show "viewDesign t r' = viewDesign t r"
  proof (cases "storeOf r")
    case None
    then show ?thesis using session_store(2) [OF assms None] eager by (cases "tr_eager r t") (simp_all add: viewDesign_def)
  next
    case (Some st)
    then show ?thesis using session_store(3) [OF assms Some] eager by (cases "tr_eager r t") (auto simp: viewDesign_def)
  qed
  show "designMap r' (viewDesign t r) = designMap r (viewDesign t r)"
  proof (cases "storeOf r")
    case None
    then have "viewDesign t r = None" by (simp add: viewDesign_def split: option.splits)
    then show ?thesis by (simp add: designMap_def)
  next
    case (Some st)
    then show ?thesis using session_store(3) [OF assms Some] by (auto simp: designMap_def)
  qed
qed

lemma viewEnv_None [simp]: "viewEnv None env = env"
  by (intro ext) (simp add: viewEnv_def mapSymbol_def)

lemma resolved_view: "published r t \<Longrightarrow> resolvedTo r t e \<Longrightarrow> viewed r t e None"
  using resolvedTo_cone [of r t e "[t]"]
  by (auto simp: viewed_def mapSymbol_def intro!: exI [of _ e])

lemma expressionView_published:
  assumes inv: "resolverInv r" and p: "published r t" and maps: "mapsToSymbols r"
  shows "\<exists>v m r'. expressionView t r = Inr ((Some v, m), r') \<and> session r r' \<and> viewed r t v m \<and>
    m = designMap r (viewDesign t r)"
proof (cases "tr_eager r t")
  case (Some e)
  then have "resolvedTo r t e" by (simp add: resolvedTo_def)
  from resolved_view [OF p this] show ?thesis
    using Some session_refl [OF inv] by (simp add: expressionView_def viewDesign_def designMap_def)
next
  case None
  obtain f where f: "resolvedTo r t f" using p by (auto simp: published_def)
  then obtain st src where st: "storeOf r = Some st" "lazySource t st = Inr src" "resolves st src (Some f)"
    using None by (auto simp: resolvedTo_def)
  have req: "requireStore t r = Inr st" and src: "ls_sources st t = Some src" "src_designIndex src < length (ls_localToCombined st)"
    using st(1,2) by (auto simp: requireStore_def checkedSource_def split: option.splits if_splits)
  show ?thesis
  proof (cases "src_rail src = Binary")
    case False
    obtain e r' where e: "transitionAt t r = Inr (Some e, r')" "session r r'" "resolvedTo r t e"
      using transitionAt_published [OF inv p] by blast
    have "expressionView t r = Inr ((Some e, None), r')"
      using None req st(2) False e(1) by (simp add: expressionView_def)
    moreover have "viewDesign t r = None" using None st(1) src False by (simp add: viewDesign_def)
    ultimately show ?thesis using e(2) resolved_view [OF p e(3)] by (simp add: designMap_def)
  next
    case True
    let ?m = "ls_localToCombined st ! src_designIndex src"
    obtain x where x: "src_localExpr src = Some x" "remapsTo ?m x f"
      using st(3) True by (auto simp: resolves_def split: option.splits)
    obtain S where S: "directSupport t r = Inr S" using p by (auto simp: published_def)
    then have sup: "support x \<subseteq> dom ?m" "S = (\<lambda>v. if v < 2 then v else the (?m v)) ` vars x"
      using None req st(2) True x(1) remappedSupport_Inr [of x "src_designIndex src" ?m S]
      by (simp_all add: directSupport_def sourceSupport_def Let_def)
    have ge2: "2 \<le> y" if "?m v = Some y" for v y
      using maps st(1) nth_mem [OF src(2)] that by (auto simp: mapsToSymbols_def)
    have known: "\<exists>y. mapSymbol (Some ?m) v = Inr y \<and> ?m v = Some y \<and> y \<in> coneReads r [t]" if v: "v \<in> support x" for v
    proof -
      obtain y where y: "?m v = Some y" using sup(1) v by blast
      have "v \<in> vars x" "\<not> v < 2" using v by (auto simp: support_def)
      then have "y \<in> S" unfolding sup(2) using y by (intro image_eqI [of _ _ v]) simp_all
      then show ?thesis using y S ge2 [OF y] \<open>\<not> v < 2\<close> by (auto simp: mapSymbol_def coneReads_def)
    qed
    have "eval (viewEnv (Some ?m) env) x = eval env f" for env
    proof -
      have "eval env f = eval (pullEnv ?m env) x" using x(2) by (auto simp: remapsTo_def translates_def)
      also have "\<dots> = eval (viewEnv (Some ?m) env) x"
      proof (rule eval_cong)
        fix v assume "v \<in> support x"
        then obtain y where "mapSymbol (Some ?m) v = Inr y" "?m v = Some y" using known by blast
        then show "pullEnv ?m env v = viewEnv (Some ?m) env v"
          using ge2 [of v y] by (auto simp: pullEnv_def viewEnv_def mkVar_def ge2_iff)
      qed
      finally show ?thesis by simp
    qed
    then have "viewed r t x (Some ?m)" using f known unfolding viewed_def by blast
    moreover have "expressionView t r = Inr ((Some x, Some ?m), r)"
      using None req st(2) True x(1) by (simp add: expressionView_def)
    moreover have "designMap r (viewDesign t r) = Some ?m"
      using None st(1) src(1) True by (simp add: viewDesign_def designMap_def)
    ultimately show ?thesis using session_refl [OF inv] by auto
  qed
qed

section \<open>Encoders over a symbol map\<close>

definition viewEncoder :: "frame_store \<Rightarrow> nat \<Rightarrow> (var_id \<rightharpoonup> var_id) option \<Rightarrow> encoder \<Rightarrow> bool" where
  "viewEncoder fs f m en = (encInv en \<and> en_symbolMap en = m \<and>
     (\<forall>x. hasSymbol fs x \<longrightarrow> (\<exists>l. en_leafLits en x = Some l \<and> getLiteral fs x f = Inr l)))"

lemma viewEncoder_new:
  assumes "solverInv s" "storeInv fs (sv_vars s)" "makeAllLeafLits fs f = Inr leaves" "f < fs_numFrames fs"
  shows "viewEncoder fs f m (newEncoder s leaves m False hint)"
proof -
  have leaves: "dom leaves = {x. hasSymbol fs x}" "\<And>x l. leaves x = Some l \<Longrightarrow> getLiteral fs x f = Inr l"
    using makeAllLeafLits_ok [OF assms(2,4)] assms(3) by auto
  have "encInv (newEncoder s leaves m False hint)"
    by (rule newEncoder_inv [OF assms(1)]) (use storeInv_below [OF assms(2) leaves(2)] in blast)
  then show ?thesis using leaves by (fastforce simp: viewEncoder_def newEncoder_def)
qed

lemma viewEncoder_solver:
  assumes "viewEncoder fs f m en" "restricts (en_solver en) s P"
  shows "viewEncoder fs f m (en\<lparr> en_solver := s \<rparr>)"
proof -
  have "encInv (en\<lparr> en_solver := s \<rparr>)"
    by (rule encInv_solver) (use assms restrictsD [OF assms(2)] in \<open>auto simp: viewEncoder_def\<close>)
  then show ?thesis using assms(1) by (simp add: viewEncoder_def)
qed

lemma view_encode:
  assumes "viewEncoder fs f m en" and known: "\<And>x. x \<in> support e \<Longrightarrow> \<exists>y. mapSymbol m x = Inr y \<and> hasSymbol fs y"
  shows "\<exists>l en'. encode (Some e) en = Inr (l, en') \<and> viewEncoder fs f m en' \<and>
    conservative (en_solver en) (en_solver en') \<and> litBelow (sv_vars (en_solver en')) l \<and>
    (\<forall>M. models M (en_solver en') \<longrightarrow> litTrue M l = eval (viewEnv m (frameValue fs M f)) e)"
proof -
  have inv: "encInv en" and sm: "en_symbolMap en = m" using assms(1) by (simp_all add: viewEncoder_def)
  have "leafReady en v" if "v \<in> support e" for v
    using known [OF that] assms(1) by (auto simp: viewEncoder_def leafReady_def leafKnown_def mappedSymbol_def)
  then obtain l en' where e: "encode (Some e) en = Inr (l, en')" using encode_total [OF inv] by blast
  have ok: "encInv en'" "encGrows en en'" "encodes en' e l" using encode_ok [OF e inv] by simp_all
  have sm': "en_symbolMap en' = m" using ok(2) sm by (simp add: encGrows_def)
  have leaf: "\<exists>k. en_leafLits en' x = Some k \<and> getLiteral fs x f = Inr k" if "hasSymbol fs x" for x
    using assms(1) ok(2) that unfolding viewEncoder_def encGrows_def map_le_def by (metis domI)
  have "leafValue en' M v = viewEnv m (frameValue fs M f) v" if v: "v \<in> support e" for M v
  proof -
    obtain y where y: "mapSymbol m v = Inr y" "hasSymbol fs y" using known [OF v] by blast
    obtain k where "en_leafLits en' y = Some k" "getLiteral fs y f = Inr k" using leaf [OF y(2)] by blast
    then show ?thesis using sm' y(1) by (simp add: leafValue_def mappedSymbol_def viewEnv_def frameValue_lit)
  qed
  then have "eval (leafValue en' M) e = eval (viewEnv m (frameValue fs M f)) e" for M by (intro eval_cong)
  then show ?thesis
    using e ok leaf sm' by (auto simp: viewEncoder_def encodes_def enModels_def enBelow_def encGrows_def)
qed

section \<open>The equation of a target\<close>

lemma viewEquation_ok:
  assumes en: "viewEncoder fs f m en" "storeInv fs (sv_vars (en_solver en))" and r: "session root r"
    and t: "hasSymbol fs t" "published root t" "\<And>x. x \<in> coneReads root [t] \<Longrightarrow> hasSymbol fs x"
    and m: "m = designMap root (viewDesign t root)" and maps: "mapsToSymbols root" and f: "Suc f < fs_numFrames fs"
  shows "\<exists>en' r'. viewEquation fs f t (en, r) = Inr (en', r') \<and> viewEncoder fs f m en' \<and> session root r' \<and>
    restricts (en_solver en) (en_solver en') (\<lambda>M. targetHolds root t (frameValue fs M f) (frameValue fs M (Suc f)))"
proof -
  have inv: "resolverInv r" and pub: "published r t" and ms: "mapsToSymbols r"
    using r t(2) maps published_session [OF r] mapsToSymbols_session [OF r] by (simp_all add: session_def)
  obtain v r' where v: "expressionView t r = Inr ((Some v, m), r')" "session r r'" "viewed r t v m"
    using expressionView_published [OF inv pub ms] viewDesign_session [OF r] m by auto
  obtain e where e: "resolvedTo root t e" "\<And>env. eval (viewEnv m env) v = eval env e"
    using v(3) resolvedTo_session [OF r] by (auto simp: viewed_def)
  have known: "\<exists>y. mapSymbol m x = Inr y \<and> hasSymbol fs y" if "x \<in> support v" for x
    using v(3) that t(3) cone_session(2) [OF r] unfolding viewed_def by fastforce
  obtain lit where lit: "getLiteral fs t (f + 1) = Inr lit" "litBelow (sv_vars (en_solver en)) lit"
    using known_literal [OF en(2) _ f, of t] t(1) by (auto simp: knownSymbols_def)
  obtain l en1 where l: "encode (Some v) en = Inr (l, en1)" "viewEncoder fs f m en1"
    "conservative (en_solver en) (en_solver en1)" "litBelow (sv_vars (en_solver en1)) l"
    "\<And>M. models M (en_solver en1) \<Longrightarrow> litTrue M l = eval (viewEnv m (frameValue fs M f)) v"
    using view_encode [OF en(1) known] by blast
  have sv: "solverInv (en_solver en1)" using l(2) by (simp add: viewEncoder_def encInv_def)
  have le: "sv_vars (en_solver en) \<le> sv_vars (en_solver en1)"
    using restrictsD(2) [OF restricts_conservative [OF l(3) sv]] .
  obtain s where s: "addLiteralEquivalence lit l (en_solver en1) = Inr s"
    "restricts (en_solver en1) s (\<lambda>M. litTrue M lit = litTrue M l)"
    using addLiteralEquivalence_restricts [OF sv litBelow_mono [OF lit(2) le] l(4)] by auto
  let ?P = "\<lambda>M. targetHolds root t (frameValue fs M f) (frameValue fs M (Suc f))"
  have "restricts (en_solver en1) s ?P"
  proof (rule restricts_weaken_models [OF s(2)])
    fix M assume "models M (en_solver en1)"
    then show "(litTrue M lit = litTrue M l) = ?P M"
      using lit(1) by (simp add: l(5) e(2) targetHolds_resolved [OF e(1)] frameValue_lit)
  qed
  from restricts_trans [OF restricts_conservative [OF l(3) sv] this readsBelow_frames [OF en(2)]]
  have "restricts (en_solver en) s ?P" by simp
  moreover have "viewEquation fs f t (en, r) = Inr (en1\<lparr> en_solver := s \<rparr>, r')"
    unfolding viewEquation_def fst_conv snd_conv v(1) bindE_simps prod.case lit(1) l(1) s(1) ..
  ultimately show ?thesis using viewEncoder_solver [OF l(2) s(2)] session_trans [OF r v(2)] by auto
qed

section \<open>Groups\<close>

definition groupOk :: "resolver \<Rightarrow> encoding_group \<Rightarrow> bool" where
  "groupOk root g = (eg_symbolMap g = designMap root (eg_design g) \<and>
     (\<forall>t \<in> set (eg_stateSymbols g). viewDesign t root = eg_design g))"

definition grouped :: "encoding_group list \<Rightarrow> var_id set" where
  "grouped gs = (\<Union>g \<in> set gs. set (eg_stateSymbols g))"

lemma grouped_Cons [simp]: "grouped (g # gs) = set (eg_stateSymbols g) \<union> grouped gs"
  by (simp add: grouped_def)

lemma groupOk_snoc:
  "groupOk root (g\<lparr> eg_stateSymbols := eg_stateSymbols g @ [t] \<rparr>) \<longleftrightarrow> groupOk root g \<and> viewDesign t root = eg_design g"
  by (auto simp: groupOk_def)

lemma addToGroup_ok:
  assumes "\<forall>g \<in> set gs. groupOk root g" "viewDesign t root = d"
  shows "(\<forall>g \<in> set (addToGroup d (designMap root d) t gs). groupOk root g) \<and>
    grouped (addToGroup d (designMap root d) t gs) = insert t (grouped gs)"
  using assms(1)
proof (induction gs)
  case Nil
  then show ?case using assms(2) by (simp add: groupOk_def grouped_def)
next
  case (Cons g gs)
  show ?case
  proof (cases "eg_design g = d")
    case True
    then show ?thesis using Cons.prems assms(2) groupOk_snoc [of root g t] by auto
  next
    case False
    then show ?thesis using Cons by auto
  qed
qed

lemma groupTargets_ok:
  assumes r: "session root r" and maps: "mapsToSymbols root" and gs: "\<forall>g \<in> set gs. groupOk root g"
    and pub: "\<And>t. t \<in> set ts \<Longrightarrow> published root t"
  shows "\<exists>gs' r'. foldE groupTarget ts (gs, r) = Inr (gs', r') \<and> session root r' \<and> (\<forall>g \<in> set gs'. groupOk root g) \<and>
    grouped gs' = grouped gs \<union> set ts"
  using r gs pub
proof (induction ts arbitrary: gs r)
  case (Cons t ts)
  have inv: "resolverInv r" and p: "published r t" and ms: "mapsToSymbols r"
    using Cons.prems(1,3) maps published_session [OF Cons.prems(1)] mapsToSymbols_session [OF Cons.prems(1)]
    by (simp_all add: session_def)
  obtain v r' where v: "expressionView t r = Inr ((Some v, designMap root (viewDesign t root)), r')" "session r r'"
    using expressionView_published [OF inv p ms] viewDesign_session [OF Cons.prems(1)] by auto
  have r': "session root r'" by (rule session_trans [OF Cons.prems(1) v(2)])
  let ?gs = "addToGroup (viewDesign t root) (designMap root (viewDesign t root)) t gs"
  have "groupTarget t (gs, r) = Inr (?gs, r')"
    using v(1) viewDesign_session(1) [OF r'] by (simp add: groupTarget_def)
  moreover have g: "\<forall>g \<in> set ?gs. groupOk root g" "grouped ?gs = insert t (grouped gs)"
    using addToGroup_ok [OF Cons.prems(2) refl, of t] by blast+
  moreover have "\<exists>gs' r''. foldE groupTarget ts (?gs, r') = Inr (gs', r'') \<and> session root r'' \<and>
      (\<forall>g \<in> set gs'. groupOk root g) \<and> grouped gs' = grouped ?gs \<union> set ts"
    by (rule Cons.IH [OF r' g(1)]) (use Cons.prems(3) in simp)
  ultimately show ?case by auto
qed simp

lemma groupHint_ok:
  assumes r: "session root r" and pub: "\<And>t. t \<in> set (eg_stateSymbols g) \<Longrightarrow> published root t"
  shows "\<exists>n r'. groupNodeHint g r = Inr (n, r') \<and> session root r'"
proof (cases "length (eg_stateSymbols g) \<le> kMaxExactBaseNodeCountHintTargets")
  case True
  let ?step = "\<lambda>s (hint, r). bindE (transitionNodeCount s r) (\<lambda>(n, r'). Inr (hint + n, r'))"
  have "\<exists>y. foldE ?step (eg_stateSymbols g) (0, r) = Inr y \<and> session root (snd y)"
  proof (rule foldE_total [where P = "\<lambda>y. session root (snd y)"])
    show "session root (snd (0 :: nat, r))" using r by simp
  next
    fix t and x :: "nat \<times> resolver"
    assume t: "t \<in> set (eg_stateSymbols g)" and x: "session root (snd x)"
    have "resolverInv (snd x)" "published (snd x) t"
      using x published_session [OF x] pub [OF t] by (simp_all add: session_def)
    then obtain n r' where "transitionNodeCount t (snd x) = Inr (n, r')" "session (snd x) r'"
      using transitionNodeCount_session by blast
    then show "\<exists>y. ?step t x = Inr y \<and> session root (snd y)" using session_trans [OF x] by (cases x) auto
  qed
  then show ?thesis using True by (auto simp: groupNodeHint_def)
qed (use r in \<open>simp add: groupNodeHint_def\<close>)

lemma encodeGroup_ok:
  assumes fs: "storeInv fs (sv_vars s)" "solverInv s" and f: "Suc f < fs_numFrames fs" and r: "session root r"
    and g: "groupOk root g" and maps: "mapsToSymbols root"
    and ts: "\<And>t. t \<in> set (eg_stateSymbols g) \<Longrightarrow> hasSymbol fs t \<and> published root t \<and> (\<forall>x \<in> coneReads root [t]. hasSymbol fs x)"
  shows "\<exists>s' r'. encodeGroup fs f g (s, r) = Inr (s', r') \<and> session root r' \<and>
    restricts s s' (\<lambda>M. \<forall>t \<in> set (eg_stateSymbols g). targetHolds root t (frameValue fs M f) (frameValue fs M (Suc f)))"
proof -
  obtain h r1 where h: "groupNodeHint g r = Inr (h, r1)" "session root r1" using groupHint_ok [OF r] ts by blast
  obtain leaves where leaves: "makeAllLeafLits fs f = Inr leaves"
    using makeAllLeafLits_ok [OF fs(1) Suc_lessD [OF f]] by blast
  let ?en = "newEncoder s leaves (eg_symbolMap g) False h" and ?proj = "\<lambda>x. en_solver (fst x)"
  let ?I = "\<lambda>x. viewEncoder fs f (eg_symbolMap g) (fst x) \<and> session root (snd x)"
  let ?P = "\<lambda>t M. targetHolds root t (frameValue fs M f) (frameValue fs M (Suc f))"
  have start: "?I (?en, r1)" using viewEncoder_new [OF fs(2,1) leaves Suc_lessD [OF f]] h(2) by simp
  have inv: "solverInv (?proj u)" if "?I u" for u using that by (simp add: viewEncoder_def encInv_def)
  have step: "\<exists>u'. viewEquation fs f t u = Inr u' \<and> ?I u' \<and> restricts (?proj u) (?proj u') (?P t)"
    if t: "t \<in> set (eg_stateSymbols g)" and u: "?I u" "sv_vars (?proj (?en, r1)) \<le> sv_vars (?proj u)" for t u
  proof -
    obtain en1 r2 where u': "u = (en1, r2)" by (cases u)
    have I: "viewEncoder fs f (eg_symbolMap g) en1" "session root r2" using u(1) by (simp_all add: u')
    have st: "storeInv fs (sv_vars (en_solver en1))" by (rule storeInv_mono [OF fs(1)]) (use u(2) in \<open>simp add: u'\<close>)
    have m: "eg_symbolMap g = designMap root (viewDesign t root)" using g t by (simp add: groupOk_def)
    have "hasSymbol fs t" "published root t" "\<And>x. x \<in> coneReads root [t] \<Longrightarrow> hasSymbol fs x" using ts [OF t] by blast+
    from viewEquation_ok [OF I(1) st I(2) this m maps f] show ?thesis unfolding u' by fastforce
  qed
  have reads: "readsBelow (sv_vars (?proj (?en, r1))) (?P t)" for t using readsBelow_frames [OF fs(1)] by simp
  from foldE_restricts_via [where I = ?I and proj = ?proj and f = "viewEquation fs f" and xs = "eg_stateSymbols g" and P = ?P,
      OF start inv step reads]
  obtain x where x: "foldE (viewEquation fs f) (eg_stateSymbols g) (?en, r1) = Inr x" "?I x"
    "restricts (?proj (?en, r1)) (?proj x) (\<lambda>M. \<forall>t \<in> set (eg_stateSymbols g). ?P t M)" by blast
  obtain en' r' where x': "x = (en', r')" by (cases x)
  have "encodeGroup fs f g (s, r) = Inr (en_solver en', r')"
    by (simp add: encodeGroup_def h(1) leaves x(1) [unfolded x'])
  moreover have "restricts s (en_solver en') (\<lambda>M. True \<and> (\<forall>t \<in> set (eg_stateSymbols g). ?P t M))"
    by (rule restricts_trans [OF newEncoder_restricts [OF fs(2)]])
      (use x(3) in \<open>simp add: x'\<close>, rule readsBelow_frames [OF fs(1)])
  ultimately show ?thesis using x(2) by (simp add: x')
qed

text \<open>The transition relation of one step says that every target takes its resolved value.\<close>

lemma addBaseTransition_ok:
  assumes fs: "storeInv fs (sv_vars s)" "solverInv s" and f: "Suc f < fs_numFrames fs" and r: "session root r"
    and maps: "mapsToSymbols root" and pub: "\<And>t. t \<in> set ts \<Longrightarrow> published root t"
    and known: "set ts \<union> coneReads root ts \<subseteq> knownSymbols fs"
  shows "\<exists>s' r'. addBaseTransitionRelation fs ts f (s, r) = Inr (s', r') \<and> session root r' \<and>
    restricts s s' (\<lambda>M. \<forall>t \<in> set ts. targetHolds root t (frameValue fs M f) (frameValue fs M (Suc f)))"
proof -
  obtain gs r1 where g: "foldE groupTarget ts ([], r) = Inr (gs, r1)" "session root r1"
    "\<forall>g \<in> set gs. groupOk root g" "grouped gs = set ts"
    using groupTargets_ok [OF r maps, of "[]" ts] pub by (auto simp: grouped_def)
  let ?I = "\<lambda>x. solverInv (fst x) \<and> session root (snd x)"
  let ?P = "\<lambda>g M. \<forall>t \<in> set (eg_stateSymbols g). targetHolds root t (frameValue fs M f) (frameValue fs M (Suc f))"
  have start: "?I (s, r1)" using fs(2) g(2) by simp
  have step: "\<exists>u'. encodeGroup fs f g u = Inr u' \<and> ?I u' \<and> restricts (fst u) (fst u') (?P g)"
    if g': "g \<in> set gs" and u: "?I u" "sv_vars (fst (s, r1)) \<le> sv_vars (fst u)" for g u
  proof -
    obtain s1 r2 where u': "u = (s1, r2)" by (cases u)
    have I: "solverInv s1" "session root r2" "storeInv fs (sv_vars s1)"
      using u storeInv_mono [OF fs(1)] by (simp_all add: u')
    have ts: "t \<in> set ts" if "t \<in> set (eg_stateSymbols g)" for t using g(4) g' that by (auto simp: grouped_def)
    have "hasSymbol fs t \<and> published root t \<and> (\<forall>x \<in> coneReads root [t]. hasSymbol fs x)"
      if "t \<in> set (eg_stateSymbols g)" for t
    proof -
      have "coneReads root [t] \<subseteq> coneReads root ts" using ts [OF that] by (auto simp: coneReads_def)
      then show ?thesis using ts [OF that] known pub by (auto simp: knownSymbols_def)
    qed
    from encodeGroup_ok [OF I(3,1) f I(2) _ maps this, of g] g(3) g' obtain s' r' where
      "encodeGroup fs f g (s1, r2) = Inr (s', r')" "session root r'" "restricts s1 s' (?P g)" by blast
    then show ?thesis using restrictsD(1) unfolding u' by fastforce
  qed
  have reads: "readsBelow (sv_vars (fst (s, r1))) (?P g)" for g using readsBelow_frames [OF fs(1)] by simp
  have inv: "solverInv (fst u)" if "?I u" for u using that by simp
  from foldE_restricts_via [where I = ?I and proj = fst and f = "encodeGroup fs f" and xs = gs and P = ?P,
      OF start inv step reads]
  obtain x where x: "foldE (encodeGroup fs f) gs (s, r1) = Inr x" "?I x" "restricts s (fst x) (\<lambda>M. \<forall>g \<in> set gs. ?P g M)"
    by auto
  have "restricts s (fst x) (\<lambda>M. \<forall>t \<in> set ts. targetHolds root t (frameValue fs M f) (frameValue fs M (Suc f)))"
    by (rule restricts_weaken [OF x(3)]) (use g(4) in \<open>auto simp: grouped_def\<close>)
  moreover have "addBaseTransitionRelation fs ts f (s, r) = Inr x"
    unfolding addBaseTransitionRelation_def fst_conv snd_conv g(1) bindE_simps prod.case x(1) ..
  ultimately show ?thesis using x(2) by (cases x) auto
qed

end
