(* ===== verification/Base_Query_Correct.thy ===== *)
theory Base_Query_Correct
  imports Base_View
begin

text \<open>
  What a base query asks: the constraints of its prefix hold of a list of frame valuations exactly
  when the list is a legal start of a run on the symbols of the cone, and the bad clause asks for
  a bad frame in the requested range.
\<close>

section \<open>Constraints on frames\<close>

definition assignsOn :: "var_id set \<Rightarrow> (var_id \<times> bool) list \<Rightarrow> (var_id \<Rightarrow> bool) \<Rightarrow> bool" where
  "assignsOn Q xs env = (\<forall>(x, v) \<in> set xs. x \<in> Q \<longrightarrow> env x = v)"

definition resetPrefix :: "problem \<Rightarrow> nat \<Rightarrow> (nat \<Rightarrow> var_id \<Rightarrow> bool) \<Rightarrow> bool" where
  "resetPrefix p n envs = (resetBootstrapFrames p \<noteq> 0 \<longrightarrow> (\<forall>(x, v) \<in> set (pb_resetBootstrapInputs p). \<forall>f < n.
     envs f x = (if f < resetBootstrapFrames p then v else \<not> v)))"

definition initialOn :: "problem \<Rightarrow> var_id set \<Rightarrow> initial_mode \<Rightarrow> (var_id \<Rightarrow> bool) \<Rightarrow> bool" where
  "initialOn p Q mode env =
    ((mode = CompleteInit \<or> mode = PartialInit \<longrightarrow> pb_initialCondition p \<noteq> None \<longrightarrow>
        (if hasStructuredInitialAssignments p then assignsOn Q (pb_initialStateAssignments p) env
         else eval env (the (pb_initialCondition p)))) \<and>
     (mode = ObservationOnly \<or> mode = PartialInit \<longrightarrow> eval env (the (pb_property p))))"

definition relationsOn :: "var_id set \<Rightarrow> problem \<Rightarrow> (var_id \<Rightarrow> bool) \<Rightarrow> bool" where
  "relationsOn Q p env = (pairsOn Q (pb_complementedStatePairs0 p) env \<and> pairsOn Q (pb_complementedStatePairs1 p) env \<and>
     equalOn Q (pb_sameFrameStateEqualityPairs0 p) env \<and> equalOn Q (pb_sameFrameStateEqualityPairs1 p) env \<and>
     railsOn Q (pb_dualRailStatePairs p) env)"

lemma unitClause_restricts:
  assumes "storeInv fs (sv_vars s)" "solverInv s" "fst xv \<in> knownSymbols fs" "f < fs_numFrames fs"
  shows "\<exists>s'. unitClause fs f xv s = Inr s' \<and> restricts s s' (\<lambda>M. frameValue fs M f (fst xv) = snd xv)"
proof -
  obtain l where l: "getLiteral fs (fst xv) f = Inr l" "litBelow (sv_vars s) l"
    using known_literal [OF assms(1,3,4)] by blast
  let ?k = "if snd xv then l else - l"
  have "litBelow (sv_vars s) ?k" using l(2) by simp
  then obtain s' where s': "addClause [?k] s = Inr s'" "restricts s s' (\<lambda>M. clauseTrue M [?k])"
    using restricts_clause [OF assms(2), of "[?k]"] by auto
  have "restricts s s' (\<lambda>M. frameValue fs M f (fst xv) = snd xv)"
    by (rule restricts_weaken [OF s'(2)]) (use litTrue_neg [OF l(2)] in \<open>simp add: frameValue_lit [OF l(1)] clauseTrue_def\<close>)
  moreover have "unitClause fs f xv s = Inr s'" unfolding unitClause_def l(1) bindE_simps by (rule s'(1))
  ultimately show ?thesis by blast
qed

lemma units_restrict:
  assumes fs: "storeInv fs (sv_vars s)" "solverInv s" and x: "x \<in> knownSymbols fs" and n: "\<And>f. f \<in> set frames \<Longrightarrow> f < fs_numFrames fs"
  shows "\<exists>s'. foldE (\<lambda>f. unitClause fs f (x, v)) frames s = Inr s' \<and>
    restricts s s' (\<lambda>M. \<forall>f \<in> set frames. frameValue fs M f x = v)"
proof (rule foldE_restricts [OF fs(2)])
  fix f u
  assume "f \<in> set frames" "solverInv u" "sv_vars s \<le> sv_vars u"
  then show "\<exists>u'. unitClause fs f (x, v) u = Inr u' \<and> restricts u u' (\<lambda>M. frameValue fs M f x = v)"
    using unitClause_restricts [OF storeInv_mono [OF fs(1)], of u "(x, v)" f] x n by simp
qed (rule readsBelow_frames [OF fs(1)])

lemma resetInput_restricts:
  assumes fs: "storeInv fs (sv_vars s)" "solverInv s" "n \<le> fs_numFrames fs" and x: "fst input \<in> knownSymbols fs"
  shows "\<exists>s'. resetBootstrapInput fs b n input s = Inr s' \<and> restricts s s' (\<lambda>M. \<forall>f < n.
    frameValue fs M f (fst input) = (if f < b then snd input else \<not> snd input))"
proof -
  let ?x = "fst input" and ?v = "snd input"
  obtain s1 where s1: "foldE (\<lambda>f. unitClause fs f (?x, ?v)) [0..<min b n] s = Inr s1"
    "restricts s s1 (\<lambda>M. \<forall>f \<in> set [0..<min b n]. frameValue fs M f ?x = ?v)"
    using units_restrict [OF fs(1,2) x, of "[0..<min b n]" ?v] fs(3) by fastforce
  note le = restrictsD(1,2) [OF s1(2)]
  obtain s2 where s2: "foldE (\<lambda>f. unitClause fs f (?x, \<not> ?v)) [b..<n] s1 = Inr s2"
    "restricts s1 s2 (\<lambda>M. \<forall>f \<in> set [b..<n]. frameValue fs M f ?x = (\<not> ?v))"
    using units_restrict [OF storeInv_mono [OF fs(1) le(2)] le(1) x, of "[b..<n]" "\<not> ?v"] fs(3) by fastforce
  have "resetBootstrapInput fs b n input s = Inr s2"
    using s1(1) s2(1) by (simp add: resetBootstrapInput_def)
  moreover have "restricts s s2 (\<lambda>M. \<forall>f < n. frameValue fs M f ?x = (if f < b then ?v else \<not> ?v))"
    by (rule restricts_weaken [OF restricts_trans [OF s1(2) s2(2) readsBelow_frames [OF fs(1)]]])
      (auto simp: not_less)
  ultimately show ?thesis by blast
qed

lemma resetBootstrap_restricts:
  assumes fs: "storeInv fs (sv_vars s)" "solverInv s" "n \<le> fs_numFrames fs"
    and x: "fst ` set (pb_resetBootstrapInputs p) \<subseteq> knownSymbols fs"
  shows "\<exists>s'. addResetBootstrapConstraints fs p n s = Inr s' \<and> restricts s s' (\<lambda>M. resetPrefix p n (frameValue fs M))"
proof (cases "resetBootstrapFrames p = 0")
  case True
  then show ?thesis using fs(2)
    by (auto simp: addResetBootstrapConstraints_def resetPrefix_def intro: restricts_refl restricts_weaken)
next
  case False
  let ?b = "resetBootstrapFrames p"
  let ?P = "\<lambda>input M. \<forall>f < n. frameValue fs M f (fst input) = (if f < ?b then snd input else \<not> snd input)"
  have "\<exists>s'. foldE (resetBootstrapInput fs ?b n) (pb_resetBootstrapInputs p) s = Inr s' \<and>
      restricts s s' (\<lambda>M. \<forall>input \<in> set (pb_resetBootstrapInputs p). ?P input M)"
  proof (rule foldE_restricts [OF fs(2)])
    fix input u
    assume "input \<in> set (pb_resetBootstrapInputs p)" "solverInv u" "sv_vars s \<le> sv_vars u"
    then show "\<exists>u'. resetBootstrapInput fs ?b n input u = Inr u' \<and> restricts u u' (?P input)"
      using resetInput_restricts [OF storeInv_mono [OF fs(1)] _ fs(3)] x by blast
  qed (rule readsBelow_frames [OF fs(1)])
  then show ?thesis using False by (auto simp: addResetBootstrapConstraints_def resetPrefix_def split_def elim!: restricts_weaken)
qed

lemma assignments_restrict:
  assumes fs: "storeInv fs (sv_vars s)" "solverInv s" and f: "f < fs_numFrames fs"
  shows "\<exists>s'. foldE (stateAssignment fs (knownSymbols fs) f) xs s = Inr s' \<and>
    restricts s s' (\<lambda>M. assignsOn (knownSymbols fs) xs (frameValue fs M f))"
proof -
  let ?P = "\<lambda>xv M. fst xv \<in> knownSymbols fs \<longrightarrow> frameValue fs M f (fst xv) = snd xv"
  have "\<exists>s'. foldE (stateAssignment fs (knownSymbols fs) f) xs s = Inr s' \<and> restricts s s' (\<lambda>M. \<forall>xv \<in> set xs. ?P xv M)"
  proof (rule foldE_restricts [OF fs(2)])
    fix xv u
    assume u: "solverInv u" "sv_vars s \<le> sv_vars u"
    show "\<exists>u'. stateAssignment fs (knownSymbols fs) f xv u = Inr u' \<and> restricts u u' (?P xv)"
    proof (cases "fst xv \<in> knownSymbols fs")
      case True
      then show ?thesis using unitClause_restricts [OF storeInv_mono [OF fs(1) u(2)] u(1) True f] by (simp add: stateAssignment_def)
    next
      case False
      then show ?thesis using u(1) by (auto simp: stateAssignment_def intro: restricts_refl restricts_weaken)
    qed
  qed (rule readsBelow_frames [OF fs(1)])
  then show ?thesis by (auto simp: assignsOn_def split_def elim!: restricts_weaken)
qed

lemma baseFormula_restricts:
  assumes "storeInv fs (sv_vars s)" "solverInv s" "f < fs_numFrames fs" "support e \<subseteq> knownSymbols fs"
  shows "\<exists>s'. assertBaseFormula fs (Some e) context f s = Inr s' \<and> restricts s s' (\<lambda>M. eval (frameValue fs M f) e)"
  using frameFormula_restrict [OF assms] by (simp add: assertBaseFormula_def assertFrameFormula_def formulaSupportOrThrow_def)

lemma optional_restricts:
  assumes "solverInv s" "c \<Longrightarrow> \<exists>s'. g s = Inr s' \<and> restricts s s' P"
  shows "\<exists>s'. (if c then g s else Inr s) = Inr s' \<and> restricts s s' (\<lambda>M. c \<longrightarrow> P M)"
  using assms by (cases c) (auto intro: restricts_refl restricts_weaken)

text \<open>The formulas that a mode reads are present and covered.\<close>

definition initialReady :: "problem \<Rightarrow> var_id set \<Rightarrow> initial_mode \<Rightarrow> bool" where
  "initialReady p Q mode =
    ((mode = CompleteInit \<or> mode = PartialInit \<longrightarrow> \<not> hasStructuredInitialAssignments p \<longrightarrow>
        (\<forall>e \<in> set_option (pb_initialCondition p). support e \<subseteq> Q)) \<and>
     (mode = ObservationOnly \<or> mode = PartialInit \<longrightarrow> (\<exists>e. pb_property p = Some e \<and> support e \<subseteq> Q)))"

lemma initial_restricts:
  assumes fs: "storeInv fs (sv_vars s)" "solverInv s" "0 < fs_numFrames fs" and ready: "initialReady p (knownSymbols fs) mode"
  shows "\<exists>s'. addInitialConstraints fs p (knownSymbols fs) mode s = Inr s' \<and>
    restricts s s' (\<lambda>M. initialOn p (knownSymbols fs) mode (frameValue fs M 0))"
proof (cases "mode = NoInit")
  case True
  then show ?thesis using fs(2)
    by (auto simp: addInitialConstraints_def initialOn_def intro: restricts_refl restricts_weaken)
next
  case False
  let ?Q = "knownSymbols fs" and ?fv = "\<lambda>M. frameValue fs M 0"
  let ?c1 = "(mode = CompleteInit \<or> mode = PartialInit) \<and> pb_initialCondition p \<noteq> None"
  let ?c2 = "mode = ObservationOnly \<or> mode = PartialInit"
  let ?init = "\<lambda>s. if hasStructuredInitialAssignments p then addInitialStateAssignments fs p ?Q s
      else assertBaseFormula fs (pb_initialCondition p) ''initial condition'' 0 s"
  let ?P1 = "\<lambda>M. if hasStructuredInitialAssignments p then assignsOn ?Q (pb_initialStateAssignments p) (?fv M)
      else eval (?fv M) (the (pb_initialCondition p))"
  have "\<exists>s1. (if ?c1 then ?init s else Inr s) = Inr s1 \<and> restricts s s1 (\<lambda>M. ?c1 \<longrightarrow> ?P1 M)"
  proof (rule optional_restricts [OF fs(2)])
    assume c: ?c1
    then obtain e where e: "pb_initialCondition p = Some e" by blast
    show "\<exists>s'. ?init s = Inr s' \<and> restricts s s' ?P1"
    proof (cases "hasStructuredInitialAssignments p")
      case True
      then show ?thesis using assignments_restrict [OF fs] by (simp add: addInitialStateAssignments_def)
    next
      case False
      then have "support e \<subseteq> ?Q" using ready c e by (auto simp: initialReady_def)
      then show ?thesis using baseFormula_restricts [OF fs] False e by simp
    qed
  qed
  then obtain s1 where s1: "(if ?c1 then ?init s else Inr s) = Inr s1" "restricts s s1 (\<lambda>M. ?c1 \<longrightarrow> ?P1 M)" by blast
  note le = restrictsD(1,2) [OF s1(2)]
  have "\<exists>s2. (if ?c2 then assertBaseFormula fs (pb_property p) ''observation property'' 0 s1 else Inr s1) = Inr s2 \<and>
      restricts s1 s2 (\<lambda>M. ?c2 \<longrightarrow> eval (?fv M) (the (pb_property p)))"
  proof (rule optional_restricts [OF le(1)])
    assume ?c2
    then obtain e where "pb_property p = Some e" "support e \<subseteq> ?Q" using ready by (auto simp: initialReady_def)
    then show "\<exists>s'. assertBaseFormula fs (pb_property p) ''observation property'' 0 s1 = Inr s' \<and>
        restricts s1 s' (\<lambda>M. eval (?fv M) (the (pb_property p)))"
      using baseFormula_restricts [OF storeInv_mono [OF fs(1) le(2)] le(1) fs(3)] by simp
  qed
  then obtain s2 where s2: "(if ?c2 then assertBaseFormula fs (pb_property p) ''observation property'' 0 s1 else Inr s1) = Inr s2"
    "restricts s1 s2 (\<lambda>M. ?c2 \<longrightarrow> eval (?fv M) (the (pb_property p)))" by blast
  have "addInitialConstraints fs p ?Q mode s = Inr s2"
    unfolding addInitialConstraints_def if_not_P [OF False] s1(1) bindE_simps by (rule s2(1))
  moreover have "restricts s s2 (\<lambda>M. initialOn p ?Q mode (?fv M))"
    by (rule restricts_weaken [OF restricts_trans [OF s1(2) s2(2) readsBelow_frames [OF fs(1)]]])
      (unfold initialOn_def, blast)
  ultimately show ?thesis by blast
qed

lemma relations_restrict:
  assumes fs: "storeInv fs (sv_vars s)" "solverInv s" "n \<le> fs_numFrames fs"
  shows "\<exists>s'. assertFrameRelations p (knownSymbols fs) n fs s = Inr s' \<and>
    restricts s s' (\<lambda>M. \<forall>f < n. relationsOn (knownSymbols fs) p (frameValue fs M f))"
proof -
  note mono = storeInv_mono [OF fs(1)] and reads = readsBelow_frames [OF fs(1)]
  let ?fv = "frameValue fs" and ?Q = "knownSymbols fs"
  obtain s1 where s1: "addInductionComplements ?Q fs (pb_complementedStatePairs0 p) n s = Inr s1"
    "restricts s s1 (\<lambda>M. \<forall>f < n. pairsOn ?Q (pb_complementedStatePairs0 p) (?fv M f))"
    using inductionComplements_restrict [OF fs] by blast
  note le1 = restrictsD(1,2) [OF s1(2)]
  obtain s2 where s2: "addInductionComplements ?Q fs (pb_complementedStatePairs1 p) n s1 = Inr s2"
    "restricts s1 s2 (\<lambda>M. \<forall>f < n. pairsOn ?Q (pb_complementedStatePairs1 p) (?fv M f))"
    using inductionComplements_restrict [OF mono [OF le1(2)] le1(1) fs(3)] by blast
  note r2 = restricts_trans [OF s1(2) s2(2) reads]
  note le2 = restrictsD(1,2) [OF r2]
  obtain s3 where s3: "foldE (\<lambda>frame. foldE (equalityStep ?Q fs frame) (pb_sameFrameStateEqualityPairs0 p)) [0..<n] s2 = Inr s3"
    "restricts s2 s3 (\<lambda>M. \<forall>f < n. equalOn ?Q (pb_sameFrameStateEqualityPairs0 p) (?fv M f))"
    using equalityFrames_restrict [OF mono [OF le2(2)] le2(1) fs(3)] by blast
  note r3 = restricts_trans [OF r2 s3(2) reads]
  note le3 = restrictsD(1,2) [OF r3]
  obtain s4 where s4: "foldE (\<lambda>frame. foldE (equalityStep ?Q fs frame) (pb_sameFrameStateEqualityPairs1 p)) [0..<n] s3 = Inr s4"
    "restricts s3 s4 (\<lambda>M. \<forall>f < n. equalOn ?Q (pb_sameFrameStateEqualityPairs1 p) (?fv M f))"
    using equalityFrames_restrict [OF mono [OF le3(2)] le3(1) fs(3)] by blast
  note r4 = restricts_trans [OF r3 s4(2) reads]
  note le4 = restrictsD(1,2) [OF r4]
  obtain s5 where s5: "addInductionRailValidity ?Q fs (pb_dualRailStatePairs p) n s4 = Inr s5"
    "restricts s4 s5 (\<lambda>M. \<forall>f < n. railsOn ?Q (pb_dualRailStatePairs p) (?fv M f))"
    using inductionValidity_restrict [OF mono [OF le4(2)] le4(1) fs(3)] by blast
  note r5 = restricts_trans [OF r4 s5(2) reads]
  have "addSameFrameStateEqualities ?Q fs p n s2 = Inr s4"
    unfolding addSameFrameStateEqualities_def s3(1) bindE_simps by (rule s4(1))
  then have "assertFrameRelations p ?Q n fs s = Inr s5"
    unfolding assertFrameRelations_def s1(1) bindE_simps s2(1) by (simp only: bindE_simps s5(1))
  moreover have "restricts s s5 (\<lambda>M. \<forall>f < n. relationsOn ?Q p (?fv M f))"
    by (rule restricts_weaken [OF r5]) (auto simp: relationsOn_def)
  ultimately show ?thesis by blast
qed

section \<open>The prefix\<close>

definition startupOn :: "bool \<Rightarrow> problem \<Rightarrow> base_shape \<Rightarrow> var_id set \<Rightarrow> (nat \<Rightarrow> var_id \<Rightarrow> bool) \<Rightarrow> bool" where
  "startupOn railStart p sh Q envs =
    (resetPrefix p (bs_internalK sh + 1) envs \<and> initialOn p Q (bs_mode sh) (envs 0) \<and>
     (railStart \<longrightarrow> assignsOn Q (pb_initialStateAssignments p) (envs 0)) \<and>
     (bs_observation sh \<longrightarrow> eval (envs (bs_bootstrapFrames sh)) (the (pb_property p))))"

definition transitionsOn :: "resolver \<Rightarrow> var_id list list \<Rightarrow> nat \<Rightarrow> (nat \<Rightarrow> var_id \<Rightarrow> bool) \<Rightarrow> bool" where
  "transitionsOn r targets K envs = (\<forall>f < K. \<forall>t \<in> set (targets ! f). targetHolds r t (envs f) (envs (Suc f)))"

definition prefixOn :: "bool \<Rightarrow> bool \<Rightarrow> problem \<Rightarrow> base_shape \<Rightarrow> base_coi \<Rightarrow> (nat \<Rightarrow> var_id \<Rightarrow> bool) \<Rightarrow> bool" where
  "prefixOn railStart bootstrapState p sh coi envs =
    (startupOn railStart p sh (bc_symbolSet coi) envs \<and>
     (\<forall>f < bs_internalK sh + 1. relationsOn (bc_symbolSet coi) p (envs f)) \<and>
     transitionsOn (newResolver p) (bc_targets coi) (bs_internalK sh) envs \<and>
     (bootstrapState \<longrightarrow> assignsOn (bc_symbolSet coi) (pb_bootstrapStateAssignments p) (envs (bs_bootstrapFrames sh))))"

text \<open>The formulas of the query exist, and the frames are in range.\<close>

definition shapeReady :: "problem \<Rightarrow> base_shape \<Rightarrow> var_id set \<Rightarrow> bool" where
  "shapeReady p sh Q =
    (bs_bootstrapFrames sh \<le> bs_internalK sh \<and> fst ` set (pb_resetBootstrapInputs p) \<subseteq> Q \<and>
     initialReady p Q (bs_mode sh) \<and> (bs_observation sh \<longrightarrow> (\<exists>e. pb_property p = Some e \<and> support e \<subseteq> Q)))"

lemma startup_restricts:
  assumes fs: "storeInv fs (sv_vars s)" "solverInv s" "fs_numFrames fs = bs_internalK sh + 1"
    and ready: "shapeReady p sh (knownSymbols fs)"
  shows "\<exists>s'. assertStartup railStart p sh (knownSymbols fs) fs s = Inr s' \<and>
    restricts s s' (\<lambda>M. startupOn railStart p sh (knownSymbols fs) (frameValue fs M))"
proof -
  note mono = storeInv_mono [OF fs(1)] and reads = readsBelow_frames [OF fs(1)]
  have nonempty: "0 < fs_numFrames fs" using fs(3) by simp
  have R: "fst ` set (pb_resetBootstrapInputs p) \<subseteq> knownSymbols fs" "initialReady p (knownSymbols fs) (bs_mode sh)"
    using ready by (simp_all add: shapeReady_def)
  let ?fv = "frameValue fs" and ?Q = "knownSymbols fs" and ?b = "bs_bootstrapFrames sh"
  obtain s1 where s1: "addResetBootstrapConstraints fs p (bs_internalK sh + 1) s = Inr s1"
    "restricts s s1 (\<lambda>M. resetPrefix p (bs_internalK sh + 1) (?fv M))"
    using resetBootstrap_restricts [OF fs(1,2) eq_refl [OF sym [OF fs(3)]] R(1)] by blast
  note le1 = restrictsD(1,2) [OF s1(2)]
  obtain s2 where s2: "addInitialConstraints fs p ?Q (bs_mode sh) s1 = Inr s2"
    "restricts s1 s2 (\<lambda>M. initialOn p ?Q (bs_mode sh) (?fv M 0))"
    using initial_restricts [OF mono [OF le1(2)] le1(1) nonempty R(2)] by blast
  note r2 = restricts_trans [OF s1(2) s2(2) reads]
  note le2 = restrictsD(1,2) [OF r2]
  have "\<exists>s3. (if railStart then addInitialStateAssignments fs p ?Q s2 else Inr s2) = Inr s3 \<and>
      restricts s2 s3 (\<lambda>M. railStart \<longrightarrow> assignsOn ?Q (pb_initialStateAssignments p) (?fv M 0))"
    by (rule optional_restricts [OF le2(1)])
      (use assignments_restrict [OF mono [OF le2(2)] le2(1), of 0] fs(3) in \<open>simp add: addInitialStateAssignments_def\<close>)
  then obtain s3 where s3: "(if railStart then addInitialStateAssignments fs p ?Q s2 else Inr s2) = Inr s3"
    "restricts s2 s3 (\<lambda>M. railStart \<longrightarrow> assignsOn ?Q (pb_initialStateAssignments p) (?fv M 0))" by blast
  note r3 = restricts_trans [OF r2 s3(2) reads]
  note le3 = restrictsD(1,2) [OF r3]
  have "\<exists>s4. (if bs_observation sh then addObservationPropertyConstraint fs p ?b s3 else Inr s3) = Inr s4 \<and>
      restricts s3 s4 (\<lambda>M. bs_observation sh \<longrightarrow> eval (?fv M ?b) (the (pb_property p)))"
  proof (rule optional_restricts [OF le3(1)])
    assume "bs_observation sh"
    then obtain e where e: "pb_property p = Some e" "support e \<subseteq> ?Q" and b: "?b < fs_numFrames fs"
      using ready fs(3) by (auto simp: shapeReady_def)
    show "\<exists>s'. addObservationPropertyConstraint fs p ?b s3 = Inr s' \<and> restricts s3 s' (\<lambda>M. eval (?fv M ?b) (the (pb_property p)))"
      using baseFormula_restricts [OF mono [OF le3(2)] le3(1) b e(2)] by (simp add: addObservationPropertyConstraint_def e(1))
  qed
  then obtain s4 where s4: "(if bs_observation sh then addObservationPropertyConstraint fs p ?b s3 else Inr s3) = Inr s4"
    "restricts s3 s4 (\<lambda>M. bs_observation sh \<longrightarrow> eval (?fv M ?b) (the (pb_property p)))" by blast
  have "assertStartup railStart p sh ?Q fs s = Inr s4"
    unfolding assertStartup_def s1(1) bindE_simps s2(1) s3(1) by (rule s4(1))
  moreover have "restricts s s4 (\<lambda>M. startupOn railStart p sh ?Q (?fv M))"
    by (rule restricts_weaken [OF restricts_trans [OF r3 s4(2) reads]]) (auto simp: startupOn_def)
  ultimately show ?thesis by blast
qed

lemma baseTransitions_restrict:
  assumes fs: "storeInv fs (sv_vars s)" "solverInv s" "fs_numFrames fs = K + 1" and r: "session root r"
    and maps: "mapsToSymbols root"
    and ts: "\<And>f. f < K \<Longrightarrow> (\<forall>t \<in> set (targets ! f). published root t) \<and>
      set (targets ! f) \<union> coneReads root (targets ! f) \<subseteq> knownSymbols fs"
  shows "\<exists>s' r'. foldE (\<lambda>f. addBaseTransitionRelation fs (targets ! f) f) [0..<K] (s, r) = Inr (s', r') \<and>
    restricts s s' (\<lambda>M. transitionsOn root targets K (frameValue fs M))"
proof -
  let ?I = "\<lambda>x. solverInv (fst x) \<and> session root (snd x)"
  let ?P = "\<lambda>f M. \<forall>t \<in> set (targets ! f). targetHolds root t (frameValue fs M f) (frameValue fs M (Suc f))"
  have step: "\<exists>u'. addBaseTransitionRelation fs (targets ! f) f u = Inr u' \<and> ?I u' \<and> restricts (fst u) (fst u') (?P f)"
    if f: "f \<in> set [0..<K]" and u: "?I u" "sv_vars (fst (s, r)) \<le> sv_vars (fst u)" for f u
  proof -
    obtain s1 r1 where u': "u = (s1, r1)" by (cases u)
    have I: "solverInv s1" "session root r1" "storeInv fs (sv_vars s1)"
      using u storeInv_mono [OF fs(1)] by (simp_all add: u')
    have f': "Suc f < fs_numFrames fs" using f fs(3) by simp
    have t: "\<And>t. t \<in> set (targets ! f) \<Longrightarrow> published root t"
      "set (targets ! f) \<union> coneReads root (targets ! f) \<subseteq> knownSymbols fs" using ts [of f] f by auto
    obtain s' r' where "addBaseTransitionRelation fs (targets ! f) f (s1, r1) = Inr (s', r')" "session root r'"
      "restricts s1 s' (?P f)"
      using addBaseTransition_ok [OF I(3,1) f' I(2) maps t] by blast
    then show ?thesis using restrictsD(1) unfolding u' by fastforce
  qed
  have reads: "readsBelow (sv_vars (fst (s, r))) (?P f)" for f using readsBelow_frames [OF fs(1)] by simp
  have start: "?I (s, r)" using fs r by simp
  have inv: "solverInv (fst u)" if "?I u" for u using that by simp
  from foldE_restricts_via [where I = ?I and proj = fst and xs = "[0..<K]" and P = ?P and
      f = "\<lambda>f. addBaseTransitionRelation fs (targets ! f) f", OF start inv step reads]
  obtain x where x: "foldE (\<lambda>f. addBaseTransitionRelation fs (targets ! f) f) [0..<K] (s, r) = Inr x"
    "restricts (fst (s, r)) (fst x) (\<lambda>M. \<forall>f \<in> set [0..<K]. ?P f M)" by blast
  then show ?thesis by (cases x) (auto simp: transitionsOn_def elim!: restricts_weaken)
qed

lemma prefix_restricts:
  assumes fs: "storeInv fs (sv_vars s)" "solverInv s" "fs_numFrames fs = bs_internalK sh + 1"
    and ready: "shapeReady p sh (bc_symbolSet coi)" and Q: "knownSymbols fs = bc_symbolSet coi"
    and r: "session (newResolver p) r" and maps: "mapsToSymbols (newResolver p)" and coi: "baseCoiOk p sh coi"
    and pub: "\<And>t. resolverContains t (newResolver p) \<Longrightarrow> published (newResolver p) t"
  shows "\<exists>s' r'. assertBasePrefix railStart bootstrapState p sh coi r fs s = Inr (s', r') \<and>
    restricts s s' (\<lambda>M. prefixOn railStart bootstrapState p sh coi (frameValue fs M))"
proof -
  note mono = storeInv_mono [OF fs(1)] and reads = readsBelow_frames [OF fs(1)]
  let ?fv = "frameValue fs" and ?Q = "bc_symbolSet coi" and ?b = "bs_bootstrapFrames sh" and ?K = "bs_internalK sh"
  obtain s1 where s1: "assertStartup railStart p sh ?Q fs s = Inr s1"
    "restricts s s1 (\<lambda>M. startupOn railStart p sh ?Q (?fv M))"
    using startup_restricts [OF fs, unfolded Q, OF ready] by blast
  note le1 = restrictsD(1,2) [OF s1(2)]
  obtain s2 where s2: "assertFrameRelations p ?Q (?K + 1) fs s1 = Inr s2"
    "restricts s1 s2 (\<lambda>M. \<forall>f < ?K + 1. relationsOn ?Q p (?fv M f))"
    using relations_restrict [OF mono [OF le1(2)] le1(1) eq_refl [OF sym [OF fs(3)]], unfolded Q] by blast
  note r2 = restricts_trans [OF s1(2) s2(2) reads]
  note le2 = restrictsD(1,2) [OF r2]
  have ts: "(\<forall>t \<in> set (bc_targets coi ! f). published (newResolver p) t) \<and>
      set (bc_targets coi ! f) \<union> coneReads (newResolver p) (bc_targets coi ! f) \<subseteq> knownSymbols fs" if "f < ?K" for f
    using coi that pub by (simp add: baseCoiOk_def Q)
  obtain s3 r3 where s3: "foldE (\<lambda>f. addBaseTransitionRelation fs (bc_targets coi ! f) f) [0..<?K] (s2, r) = Inr (s3, r3)"
    "restricts s2 s3 (\<lambda>M. transitionsOn (newResolver p) (bc_targets coi) ?K (?fv M))"
    using baseTransitions_restrict [OF mono [OF le2(2)] le2(1) fs(3) r maps ts] by blast
  note r3 = restricts_trans [OF r2 s3(2) reads]
  note le3 = restrictsD(1,2) [OF r3]
  have "\<exists>s4. (if bootstrapState then addBootstrapStateAssignments fs p ?Q ?b s3 else Inr s3) = Inr s4 \<and>
      restricts s3 s4 (\<lambda>M. bootstrapState \<longrightarrow> assignsOn ?Q (pb_bootstrapStateAssignments p) (?fv M ?b))"
    by (rule optional_restricts [OF le3(1)])
      (use assignments_restrict [OF mono [OF le3(2)] le3(1), of ?b, unfolded Q] fs(3) ready in
        \<open>simp add: addBootstrapStateAssignments_def shapeReady_def\<close>)
  then obtain s4 where s4: "(if bootstrapState then addBootstrapStateAssignments fs p ?Q ?b s3 else Inr s3) = Inr s4"
    "restricts s3 s4 (\<lambda>M. bootstrapState \<longrightarrow> assignsOn ?Q (pb_bootstrapStateAssignments p) (?fv M ?b))" by blast
  have "assertBasePrefix railStart bootstrapState p sh coi r fs s = Inr (s4, r3)"
    unfolding assertBasePrefix_def s1(1) bindE_simps s2(1) s3(1) prod.case s4(1) ..
  moreover have "restricts s s4 (\<lambda>M. prefixOn railStart bootstrapState p sh coi (?fv M))"
    by (rule restricts_weaken [OF restricts_trans [OF r3 s4(2) reads]]) (auto simp: prefixOn_def)
  ultimately show ?thesis by blast
qed

section \<open>The bad clause\<close>

lemma badLiteral_ok:
  assumes fs: "storeInv fs (sv_vars s)" "solverInv s" "f < fs_numFrames fs" and e: "support e \<subseteq> knownSymbols fs"
  shows "\<exists>l s'. badLiteral fs (Some e) f (ls, s) = Inr (ls @ [l], s') \<and> conservative s s' \<and> solverInv s' \<and>
    litBelow (sv_vars s') l \<and> (\<forall>M. models M s' \<longrightarrow> litTrue M l = eval (frameValue fs M f) e)"
proof -
  have "hasSymbol fs x" if "x \<in> set (sorted_list_of_set (vars e))" "\<not> x < 2" for x
    using e that by (auto simp: support_ge2 knownSymbols_def not_less)
  then obtain m where m: "makeLeafLits fs f (sorted_list_of_set (vars e)) = Inr m"
    using makeLeafLits_total [OF _ fs(1,3)] by metis
  have dom: "support e \<subseteq> dom m" using makeLeafLits_ok(2) [OF m] by (auto simp: support_ge2 not_less)
  let ?en = "newEncoder s m None False 0"
  have "frameEncoder fs f (support e) ?en" by (rule frameEncoder_new [OF fs(2,1) makeLeafLits_ok(1) [OF m] dom])
  then obtain l en' where l: "encode (Some e) ?en = Inr (l, en')" "frameEncoder fs f (support e) en'"
    "conservative (en_solver ?en) (en_solver en')" "litBelow (sv_vars (en_solver en')) l"
    "\<forall>M. models M (en_solver en') \<longrightarrow> litTrue M l = eval (frameValue fs M f) e"
    using frame_encode [of fs f "support e" ?en e] by blast
  have "badLiteral fs (Some e) f (ls, s) = Inr (ls @ [l], en_solver en')"
    using m l(1) by (simp add: badLiteral_def formulaSupportOrThrow_def makeLeafLitsOfSet_def)
  moreover have "solverInv (en_solver en')" using l(2) by (simp add: frameEncoder_def encInv_def)
  moreover have "conservative s (en_solver en')"
    by (rule conservative_trans [OF _ l(3)]) (simp add: conservative_def agreeBelow_def; auto)
  ultimately show ?thesis using l(4,5) by blast
qed

lemma badLiterals_ok:
  assumes fs: "storeInv fs (sv_vars s)" "solverInv s" and e: "support e \<subseteq> knownSymbols fs"
    and f: "\<forall>f \<in> set frames. f < fs_numFrames fs" and ls: "litsBelow (sv_vars s) ls"
  shows "\<exists>ks s'. foldE (badLiteral fs (Some e)) frames (ls, s) = Inr (ls @ ks, s') \<and> conservative s s' \<and> solverInv s' \<and>
    litsBelow (sv_vars s') (ls @ ks) \<and> (\<forall>M. models M s' \<longrightarrow> map (litTrue M) ks = map (\<lambda>f. eval (frameValue fs M f) e) frames)"
  using fs f ls
proof (induction frames arbitrary: ls s)
  case (Cons f frames)
  obtain l u where l: "badLiteral fs (Some e) f (ls, s) = Inr (ls @ [l], u)" "conservative s u" "solverInv u"
    "litBelow (sv_vars u) l" "\<forall>M. models M u \<longrightarrow> litTrue M l = eval (frameValue fs M f) e"
    using badLiteral_ok [OF Cons.prems(1,2) _ e, of f ls] Cons.prems(3) by auto
  have le: "sv_vars s \<le> sv_vars u" using l(2) by (simp add: conservative_def)
  have "litsBelow (sv_vars u) (ls @ [l])" using Cons.prems(4) l(4) le by (auto simp: litsBelow_def litBelow_def)
  from Cons.IH [OF storeInv_mono [OF Cons.prems(1) le] l(3) _ this] Cons.prems(3)
  obtain ks s' where k: "foldE (badLiteral fs (Some e)) frames (ls @ [l], u) = Inr ((ls @ [l]) @ ks, s')"
    "conservative u s'" "solverInv s'" "litsBelow (sv_vars s') ((ls @ [l]) @ ks)"
    "\<forall>M. models M s' \<longrightarrow> map (litTrue M) ks = map (\<lambda>f. eval (frameValue fs M f) e) frames" by auto
  have "models M u" if "models M s'" for M using k(2) that by (simp add: conservative_def)
  then have "\<forall>M. models M s' \<longrightarrow> map (litTrue M) (l # ks) = map (\<lambda>f. eval (frameValue fs M f) e) (f # frames)"
    using l(5) k(5) by simp
  moreover have "foldE (badLiteral fs (Some e)) (f # frames) (ls, s) = Inr (ls @ (l # ks), s')" using l(1) k(1) by simp
  moreover have "conservative s s'" by (rule conservative_trans [OF l(2) k(2)])
  ultimately show ?case using k(3,4) by fastforce
qed simp

lemma badClause_restricts:
  assumes fs: "storeInv fs (sv_vars s)" "solverInv s" and e: "support e \<subseteq> knownSymbols fs" and z: "z < fs_numFrames fs"
  shows "\<exists>s'. assertBadClause fs (Some e) a z s = Inr s' \<and>
    restricts s s' (\<lambda>M. \<exists>f. a \<le> f \<and> f \<le> z \<and> eval (frameValue fs M f) e)"
proof -
  let ?frames = "[a..<z + 1]"
  have "\<forall>f \<in> set ?frames. f < fs_numFrames fs" using z by auto
  from badLiterals_ok [OF fs e this, of "[]"] obtain ks u where k: "foldE (badLiteral fs (Some e)) ?frames ([], s) = Inr (ks, u)"
    "conservative s u" "solverInv u" "litsBelow (sv_vars u) ks"
    "\<forall>M. models M u \<longrightarrow> map (litTrue M) ks = map (\<lambda>f. eval (frameValue fs M f) e) ?frames" by auto
  obtain s' where s': "addClause ks u = Inr s'" "restricts u s' (\<lambda>M. clauseTrue M ks)"
    using restricts_clause [OF k(3,4)] by blast
  have "restricts u s' (\<lambda>M. \<exists>f. a \<le> f \<and> f \<le> z \<and> eval (frameValue fs M f) e)"
  proof (rule restricts_weaken_models [OF s'(2)])
    fix M assume "models M u"
    then have "litTrue M ` set ks = (\<lambda>f. eval (frameValue fs M f) e) ` set ?frames" using k(5) by (metis set_map)
    then have "True \<in> litTrue M ` set ks \<longleftrightarrow> True \<in> (\<lambda>f. eval (frameValue fs M f) e) ` set ?frames" by simp
    then show "clauseTrue M ks = (\<exists>f. a \<le> f \<and> f \<le> z \<and> eval (frameValue fs M f) e)"
      unfolding clauseTrue_def image_iff set_upt atLeastLessThan_iff Bex_def by (simp add: less_Suc_eq_le conj_assoc)
  qed
  from restricts_trans [OF restricts_conservative [OF k(2,3)] this readsBelow_frames [OF fs(1)]]
  have "restricts s s' (\<lambda>M. \<exists>f. a \<le> f \<and> f \<le> z \<and> eval (frameValue fs M f) e)" by simp
  moreover have "assertBadClause fs (Some e) a z s = Inr s'"
    unfolding assertBadClause_def k(1) bindE_simps prod.case by (rule s'(1))
  ultimately show ?thesis by blast
qed

end
