(* ===== verification/Base_Witness.thy ===== *)
theory Base_Witness
  imports Base_Query_Correct
begin

text \<open>
  The witness of a base query: read off a model, it is the first bad frame of the requested range,
  the values of the known inputs from the end of the reset prefix on, and the observed outputs
  that differ there.
\<close>

section \<open>Reading a model\<close>

definition readsModel :: "frame_store \<Rightarrow> assignment \<Rightarrow> model_reader \<Rightarrow> bool" where
  "readsModel fs M rd = (\<forall>x f l. getLiteral fs x f = Inr l \<longrightarrow> rd l = Inr (litTrue M l))"

lemma getLiteralValue_model:
  assumes "validLit l" "l \<noteq> 1"
  shows "getLiteralValue B as l s = Inr (litTrue (backendModel B (sv_clauses s) as) l)"
  using assms by (auto simp: getLiteralValue_def litTrue_def litVar_def validLit_def backendModel_def Let_def)

lemma solver_readsModel:
  assumes "storeInv fs n"
  shows "readsModel fs (backendModel B (sv_clauses s) as) (\<lambda>l. getLiteralValue B as l s)"
proof -
  have "validLit l" if "getLiteral fs x f = Inr l" for x f l
    using storeInv_below [OF assms that] by (simp add: litBelow_def)
  moreover have "l \<noteq> 1" if "validLit l" for l using that by (auto simp: validLit_def)
  ultimately show ?thesis unfolding readsModel_def using getLiteralValue_model by blast
qed

lemma readSymbol_model:
  assumes "readsModel fs M rd" "storeInv fs n" "hasSymbol fs x" "f < fs_numFrames fs"
  shows "readSymbol' rd fs f x = Inr (frameValue fs M f x)"
proof -
  obtain l where l: "getLiteral fs x f = Inr l" using storeInv_literal [OF assms(2-4)] by blast
  then have "rd l = Inr (litTrue M l)" using assms(1) unfolding readsModel_def by blast
  then show ?thesis unfolding readSymbol'_def l bindE_simps frameValue_lit [OF l] .
qed

lemma evaluate_frame:
  assumes "\<And>x. x \<in> support e \<Longrightarrow> m x = Some (env x)"
  shows "evaluate m e = Inr (eval env e)"
proof -
  have "support e \<subseteq> dom m" using assms by blast
  moreover have "eval (\<lambda>v. m v = Some True) e = eval env e" by (rule eval_cong) (simp add: assms)
  ultimately show ?thesis by (simp add: evaluate_Inr_iff evaluatesTo_def)
qed

lemma frameEnvironment_fold:
  assumes rd: "readsModel fs M rd" "storeInv fs n" "f < fs_numFrames fs" and xs: "\<And>x. x \<in> set xs \<Longrightarrow> \<not> x < 2 \<Longrightarrow> hasSymbol fs x"
    and m: "\<And>x v. m x = Some v \<Longrightarrow> v = frameValue fs M f x"
  shows "\<exists>m'. foldE (\<lambda>symbol env. if symbol < 2 then Inr env
        else bindE (readSymbol' rd fs f symbol) (\<lambda>v. Inr (emplace symbol v env))) xs m = Inr m' \<and>
    (\<forall>x \<in> set xs. \<not> x < 2 \<longrightarrow> m' x = Some (frameValue fs M f x)) \<and>
    (\<forall>x v. m' x = Some v \<longrightarrow> v = frameValue fs M f x) \<and> dom m \<subseteq> dom m'"
  using xs m
proof (induction xs arbitrary: m)
  case (Cons x xs)
  let ?m = "if x < 2 then m else emplace x (frameValue fs M f x) m"
  have xs: "\<And>y. y \<in> set xs \<Longrightarrow> \<not> y < 2 \<Longrightarrow> hasSymbol fs y" using Cons.prems(1) by simp
  have m: "\<And>y v. ?m y = Some v \<Longrightarrow> v = frameValue fs M f y"
    using Cons.prems(2) by (auto simp: emplace_apply split: if_splits)
  obtain m' where m': "foldE (\<lambda>symbol env. if symbol < 2 then Inr env
        else bindE (readSymbol' rd fs f symbol) (\<lambda>v. Inr (emplace symbol v env))) xs ?m = Inr m'"
    "\<forall>y \<in> set xs. \<not> y < 2 \<longrightarrow> m' y = Some (frameValue fs M f y)" "\<forall>y v. m' y = Some v \<longrightarrow> v = frameValue fs M f y"
    "dom ?m \<subseteq> dom m'"
    using Cons.IH [of ?m, OF xs m] by blast
  have "m' x = Some (frameValue fs M f x)" if "\<not> x < 2"
  proof -
    have "x \<in> dom m'" using m'(4) that by auto
    then show ?thesis using m'(3) by auto
  qed
  then have vals: "\<forall>y \<in> set (x # xs). \<not> y < 2 \<longrightarrow> m' y = Some (frameValue fs M f y)" using m'(2) by auto
  have dom: "dom m \<subseteq> dom m'" using m'(4) by (auto split: if_splits)
  have "(if x < 2 then Inr m else bindE (readSymbol' rd fs f x) (\<lambda>v. Inr (emplace x v m))) = Inr ?m"
    using readSymbol_model [OF rd(1,2) _ rd(3), of x] Cons.prems(1) [of x] by simp
  then have "foldE (\<lambda>symbol env. if symbol < 2 then Inr env
        else bindE (readSymbol' rd fs f symbol) (\<lambda>v. Inr (emplace symbol v env))) (x # xs) m = Inr m'"
    using m'(1) by (simp only: foldE.simps bindE_simps)
  from this vals m'(3) dom show ?case by (intro exI conjI)
qed simp

lemma buildFrameEnvironment_ok:
  assumes "readsModel fs M rd" "storeInv fs n" "f < fs_numFrames fs" "support e \<subseteq> knownSymbols fs"
  shows "\<exists>m. buildFrameEnvironment rd fs (Some e) f = Inr m \<and> (\<forall>x \<in> support e. m x = Some (frameValue fs M f x))"
proof -
  have "hasSymbol fs x" if "x \<in> set (sorted_list_of_set (vars e))" "\<not> x < 2" for x
    using assms(4) that by (auto simp: support_ge2 knownSymbols_def not_less)
  from frameEnvironment_fold [where m = Map.empty and xs = "sorted_list_of_set (vars e)", OF assms(1-3) this]
  obtain m where m: "buildFrameEnvironment rd fs (Some e) f = Inr m"
    "\<forall>x \<in> set (sorted_list_of_set (vars e)). \<not> x < 2 \<longrightarrow> m x = Some (frameValue fs M f x)"
    by (auto simp: buildFrameEnvironment_def)
  then show ?thesis by (intro exI [of _ m]) (auto simp: support_ge2 not_less)
qed

section \<open>The first bad frame\<close>

lemma firstBadFrameIn_ok:
  assumes rd: "readsModel fs M rd" "storeInv fs n" and e: "support e \<subseteq> knownSymbols fs"
    and fs: "\<forall>f \<in> set frames. f < fs_numFrames fs" and bad: "\<exists>f \<in> set frames. eval (frameValue fs M f) e"
  shows "\<exists>f before after. frames = before @ f # after \<and> firstBadFrameIn rd fs e frames = Inr f \<and>
    eval (frameValue fs M f) e \<and> (\<forall>g \<in> set before. \<not> eval (frameValue fs M g) e)"
  using fs bad
proof (induction frames)
  case (Cons f frames)
  have f: "f < fs_numFrames fs" using Cons.prems(1) by simp
  obtain m where m: "buildFrameEnvironment rd fs (Some e) f = Inr m" "\<forall>x \<in> support e. m x = Some (frameValue fs M f x)"
    using buildFrameEnvironment_ok [OF rd f e] by blast
  have v: "evaluate m e = Inr (eval (frameValue fs M f) e)" by (rule evaluate_frame) (use m(2) in simp)
  show ?case
  proof (cases "eval (frameValue fs M f) e")
    case True
    then show ?thesis by (intro exI [of _ f] exI [of _ "[]"] exI [of _ frames]) (simp add: m(1) v)
  next
    case False
    then obtain g before after where "frames = before @ g # after" "firstBadFrameIn rd fs e frames = Inr g"
      "eval (frameValue fs M g) e" "\<forall>h \<in> set before. \<not> eval (frameValue fs M h) e"
      using Cons by auto
    then show ?thesis using False
      by (intro exI [of _ g] exI [of _ "f # before"] exI [of _ after]) (simp add: m(1) v)
  qed
qed simp

lemma upt_split: "[a..<c] = before @ f # after \<Longrightarrow> a \<le> f \<and> f < c \<and> set before = {a..<f}"
proof -
  assume u: "[a..<c] = before @ f # after"
  have "f \<in> set [a..<c]" using u by simp
  then have f: "a \<le> f" "f < c" by auto
  have "[a..<c] ! length before = f" by (simp add: u)
  moreover have "length before < c - a" using arg_cong [OF u, of length] by simp
  ultimately have l: "length before = f - a" by auto
  have "before = take (length before) [a..<c]" by (simp add: u)
  then have "before = [a..<f]" using l f by (simp add: take_upt)
  then show ?thesis using f by simp
qed

lemma findFirstBadFrame_ok:
  assumes rd: "readsModel fs M rd" "storeInv fs n" and e: "support e \<subseteq> knownSymbols fs" and z: "z < fs_numFrames fs"
    and bad: "\<exists>f. a \<le> f \<and> f \<le> z \<and> eval (frameValue fs M f) e"
  shows "\<exists>f. findFirstBadFrame rd fs e a z = Inr f \<and> a \<le> f \<and> f \<le> z \<and> eval (frameValue fs M f) e \<and>
    (\<forall>g. a \<le> g \<longrightarrow> g < f \<longrightarrow> \<not> eval (frameValue fs M g) e)"
proof -
  have frames: "\<forall>f \<in> set [a..<z + 1]. f < fs_numFrames fs" "\<exists>f \<in> set [a..<z + 1]. eval (frameValue fs M f) e"
    using z bad by auto
  obtain f before after where f: "[a..<z + 1] = before @ f # after" "firstBadFrameIn rd fs e [a..<z + 1] = Inr f"
    "eval (frameValue fs M f) e" "\<forall>g \<in> set before. \<not> eval (frameValue fs M g) e"
    using firstBadFrameIn_ok [OF rd e frames] by blast
  then show ?thesis using upt_split [OF f(1)] by (auto simp: findFirstBadFrame_def)
qed

section \<open>The trace\<close>

definition inputsAt :: "var_id set \<Rightarrow> problem \<Rightarrow> (var_id \<Rightarrow> bool) \<Rightarrow> (string \<times> bool) list" where
  "inputsAt Q p env = map (\<lambda>i. (inputName p i, env (pb_inputSymbols p ! i)))
     (filter (\<lambda>i. pb_inputSymbols p ! i \<in> Q) [0..<length (pb_inputSymbols p)])"

definition traceOf :: "var_id set \<Rightarrow> problem \<Rightarrow> nat \<Rightarrow> nat \<Rightarrow> (nat \<Rightarrow> var_id \<Rightarrow> bool) \<Rightarrow> frame_inputs list" where
  "traceOf Q p b n envs = map (\<lambda>f. \<lparr> fi_frame = f - b, fi_assignments = inputsAt Q p (envs f) \<rparr>) [b..<n + 1]"

lemma mapE_total: "(\<And>x. x \<in> set xs \<Longrightarrow> f x = Inr (g x)) \<Longrightarrow> mapE f xs = Inr (map g xs)"
  by (induction xs) simp_all

lemma buildInputTrace_ok:
  assumes rd: "readsModel fs M rd" "storeInv fs n" and z: "z < fs_numFrames fs"
  shows "buildInputTrace rd fs p b z b = Inr (traceOf (knownSymbols fs) p b z (frameValue fs M))"
proof -
  have "frameInputs rd fs p f = Inr (inputsAt (knownSymbols fs) p (frameValue fs M f))" if "f < fs_numFrames fs" for f
    unfolding frameInputs_def inputsAt_def knownSymbols_def mem_Collect_eq
    by (rule mapE_total) (simp add: readSymbol_model [OF rd _ that])
  then show ?thesis unfolding buildInputTrace_def traceOf_def using z by (intro mapE_total) auto
qed

section \<open>The mismatches\<close>

definition coveredBy :: "var_id set \<Rightarrow> bexpr \<Rightarrow> bool" where
  "coveredBy Q e = (support e \<subseteq> Q)"

definition mismatchOf :: "var_id set \<Rightarrow> problem \<Rightarrow> (var_id \<Rightarrow> bool) \<Rightarrow> nat \<Rightarrow> signal_mismatch list" where
  "mismatchOf Q p env i =
    (let e0 = pb_observedOutputExprs0 p ! i; e1 = pb_observedOutputExprs1 p ! i in
     if coveredBy Q e0 \<and> coveredBy Q e1 \<and> eval env e0 \<noteq> eval env e1
     then [\<lparr> sm_signal = outputName p i, sm_design0Value = eval env e0, sm_design1Value = eval env e1 \<rparr>] else [])"

lemma formulaSupport_covered: "formulaSupportCoveredByVariables fs e = coveredBy (knownSymbols fs) e"
  by (auto simp: formulaSupportCoveredByVariables_def coveredBy_def support_ge2 knownSymbols_def)

lemma addFormulaValues_ok:
  assumes rd: "readsModel fs M rd" "storeInv fs n" "f < fs_numFrames fs" and e: "coveredBy (knownSymbols fs) e"
    and m: "\<And>x v. m x = Some v \<Longrightarrow> v = frameValue fs M f x"
  shows "\<exists>m'. addFormulaValuesToEnvironment rd fs e f m = Inr m' \<and> (\<forall>x \<in> support e. m' x = Some (frameValue fs M f x)) \<and>
    (\<forall>x v. m' x = Some v \<longrightarrow> v = frameValue fs M f x) \<and> m \<subseteq>\<^sub>m m'"
proof -
  let ?step = "\<lambda>symbol env. if symbol < 2 \<or> env symbol \<noteq> None then Inr env
        else if \<not> hasSymbol fs symbol then Inr env
        else bindE (readSymbol' rd fs f symbol) (\<lambda>v. Inr (emplace symbol v env))"
  have walk: "\<exists>m'. foldE ?step xs m = Inr m' \<and> (\<forall>x \<in> set xs. \<not> x < 2 \<longrightarrow> m' x = Some (frameValue fs M f x)) \<and>
      (\<forall>x v. m' x = Some v \<longrightarrow> v = frameValue fs M f x) \<and> m \<subseteq>\<^sub>m m'"
    if "\<And>x. x \<in> set xs \<Longrightarrow> \<not> x < 2 \<Longrightarrow> hasSymbol fs x" for xs
    using that m
  proof (induction xs arbitrary: m)
    case (Cons x xs)
    let ?m = "if x < 2 \<or> m x \<noteq> None then m else m(x \<mapsto> frameValue fs M f x)"
    have xs: "\<And>y. y \<in> set xs \<Longrightarrow> \<not> y < 2 \<Longrightarrow> hasSymbol fs y" using Cons.prems(1) by simp
    have m: "\<And>y v. ?m y = Some v \<Longrightarrow> v = frameValue fs M f y" using Cons.prems(2) by (auto split: if_splits)
    obtain m' where m': "foldE ?step xs ?m = Inr m'" "\<forall>y \<in> set xs. \<not> y < 2 \<longrightarrow> m' y = Some (frameValue fs M f y)"
      "\<forall>y v. m' y = Some v \<longrightarrow> v = frameValue fs M f y" "?m \<subseteq>\<^sub>m m'"
      using Cons.IH [of ?m, OF xs m] by blast
    have "?step x m = Inr ?m"
      using readSymbol_model [OF rd(1,2) _ rd(3), of x] Cons.prems(1) by (simp add: emplace_def)
    then have step: "foldE ?step (x # xs) m = Inr m'" using m'(1) by simp
    have "m \<subseteq>\<^sub>m ?m" by (auto simp: map_le_def)
    then have ext: "m \<subseteq>\<^sub>m m'" using m'(4) by (rule map_le_trans)
    have "m' x = Some (frameValue fs M f x)" if "\<not> x < 2"
    proof -
      have dom: "x \<in> dom ?m" using that by auto
      then obtain v where v: "?m x = Some v" by blast
      have "?m x = m' x" using m'(4) dom unfolding map_le_def by blast
      then show ?thesis using m [OF v] v by simp
    qed
    then have vals: "\<forall>y \<in> set (x # xs). \<not> y < 2 \<longrightarrow> m' y = Some (frameValue fs M f y)" using m'(2) by auto
    from step vals m'(3) ext show ?case by (intro exI conjI)
  qed simp
  have known: "hasSymbol fs x" if "x \<in> set (sorted_list_of_set (vars e))" "\<not> x < 2" for x
    using e that by (auto simp: coveredBy_def support_ge2 knownSymbols_def not_less)
  have "\<exists>m'. foldE ?step (sorted_list_of_set (vars e)) m = Inr m' \<and>
      (\<forall>x \<in> set (sorted_list_of_set (vars e)). \<not> x < 2 \<longrightarrow> m' x = Some (frameValue fs M f x)) \<and>
      (\<forall>x v. m' x = Some v \<longrightarrow> v = frameValue fs M f x) \<and> m \<subseteq>\<^sub>m m'"
    by (rule walk) (rule known)
  moreover have "set (sorted_list_of_set (vars e)) = vars e" by simp
  ultimately show ?thesis
    unfolding addFormulaValuesToEnvironment_def support_ge2 getSupportVars_correct by (simp only: not_less) blast
qed

lemma outputMismatch_ok:
  assumes rd: "readsModel fs M rd" "storeInv fs n" "f < fs_numFrames fs"
  shows "outputMismatch rd fs p f i = Inr (mismatchOf (knownSymbols fs) p (frameValue fs M f) i)"
proof -
  let ?e0 = "pb_observedOutputExprs0 p ! i" and ?e1 = "pb_observedOutputExprs1 p ! i" and ?v = "frameValue fs M f"
  show ?thesis
  proof (cases "coveredBy (knownSymbols fs) ?e0 \<and> coveredBy (knownSymbols fs) ?e1")
    case True
    obtain m0 where m0: "addFormulaValuesToEnvironment rd fs ?e0 f Map.empty = Inr m0" "\<forall>x \<in> support ?e0. m0 x = Some (?v x)"
      "\<And>x v. m0 x = Some v \<Longrightarrow> v = ?v x"
      using addFormulaValues_ok [OF rd, of ?e0 Map.empty] True by auto
    obtain m1 where m1: "addFormulaValuesToEnvironment rd fs ?e1 f m0 = Inr m1" "\<forall>x \<in> support ?e1. m1 x = Some (?v x)"
      "m0 \<subseteq>\<^sub>m m1"
      using addFormulaValues_ok [OF rd, of ?e1 m0] True m0(3) by auto
    have "evaluate m1 ?e0 = Inr (eval ?v ?e0)"
      by (rule evaluate_frame) (use m0(2) m1(3) in \<open>auto simp: map_le_def dom_def\<close>)
    moreover have "evaluate m1 ?e1 = Inr (eval ?v ?e1)" by (rule evaluate_frame) (use m1(2) in simp)
    ultimately show ?thesis using True
      by (simp add: outputMismatch_def mismatchOf_def formulaSupport_covered m0(1) m1(1) Let_def)
  next
    case False
    then show ?thesis by (auto simp: outputMismatch_def mismatchOf_def formulaSupport_covered Let_def)
  qed
qed

definition mismatchesOf :: "var_id set \<Rightarrow> problem \<Rightarrow> (var_id \<Rightarrow> bool) \<Rightarrow> signal_mismatch list" where
  "mismatchesOf Q p env = concat (map (mismatchOf Q p env) [0..<length (pb_observedOutputExprs0 p)])"

text \<open>The witness read off a model of a satisfiable query.\<close>

lemma buildWitness_ok:
  assumes rd: "readsModel fs M rd" "storeInv fs n" and bad: "pb_bad p = Some e" "support e \<subseteq> knownSymbols fs"
    and z: "z < fs_numFrames fs" and ex: "\<exists>f. a \<le> f \<and> f \<le> z \<and> eval (frameValue fs M f) e"
  shows "\<exists>f. buildCounterexampleWitness rd fs p a z b = Inr \<lparr> cw_badFrame = f - b,
      cw_inputTrace = traceOf (knownSymbols fs) p b f (frameValue fs M), cw_outputMismatches = mismatchesOf (knownSymbols fs) p (frameValue fs M f) \<rparr> \<and>
    a \<le> f \<and> f \<le> z \<and> eval (frameValue fs M f) e \<and> (\<forall>g. a \<le> g \<longrightarrow> g < f \<longrightarrow> \<not> eval (frameValue fs M g) e)"
proof -
  obtain f where f: "findFirstBadFrame rd fs e a z = Inr f" "a \<le> f" "f \<le> z" "eval (frameValue fs M f) e"
    "\<forall>g. a \<le> g \<longrightarrow> g < f \<longrightarrow> \<not> eval (frameValue fs M g) e"
    using findFirstBadFrame_ok [OF rd bad(2) z ex] by blast
  have fz: "f < fs_numFrames fs" using f(3) z by simp
  have "collectObservedOutputMismatches rd fs p f = Inr (mismatchesOf (knownSymbols fs) p (frameValue fs M f))"
    unfolding collectObservedOutputMismatches_def mismatchesOf_def
    using mapE_total [of "[0..<length (pb_observedOutputExprs0 p)]", OF outputMismatch_ok [OF rd fz]] by simp
  then show ?thesis
    using f by (auto simp: buildCounterexampleWitness_def bad(1) buildInputTrace_ok [OF rd fz])
qed

section \<open>The answer of a query\<close>

text \<open>A problem the base case can query.\<close>

definition baseProblem :: "problem \<Rightarrow> bexpr \<Rightarrow> bexpr \<Rightarrow> bool" where
  "baseProblem p property badness = (publishedProblem p \<and> mapsToSymbols (newResolver p) \<and>
     pb_property p = Some property \<and> pb_bad p = Some badness)"

definition baseWindow :: "problem \<Rightarrow> base_shape \<Rightarrow> nat \<Rightarrow> base_coi \<Rightarrow> (nat \<Rightarrow> var_id \<Rightarrow> bool) \<Rightarrow> bool" where
  "baseWindow p sh lastBadFrame coi envs =
    (prefixOn (bs_bootstrapFrames sh \<noteq> 0 \<and> pb_usesDualRailStateEncoding p)
       (bs_bootstrapFrames sh \<noteq> 0 \<and> \<not> pb_usesDualRailStateEncoding p) p sh coi envs \<and>
     (\<exists>f. bs_firstBadFrame sh \<le> f \<and> f \<le> lastBadFrame \<and> eval (envs f) (the (pb_bad p))))"

text \<open>The witness of a window: its first bad frame, its inputs and its differing outputs.\<close>

definition witnessOf :: "problem \<Rightarrow> base_shape \<Rightarrow> nat \<Rightarrow> var_id set \<Rightarrow> (nat \<Rightarrow> var_id \<Rightarrow> bool) \<Rightarrow> cex_witness \<Rightarrow> bool" where
  "witnessOf p sh lastBadFrame Q envs w =
    (\<exists>f. bs_firstBadFrame sh \<le> f \<and> f \<le> lastBadFrame \<and> eval (envs f) (the (pb_bad p)) \<and>
       (\<forall>g. bs_firstBadFrame sh \<le> g \<longrightarrow> g < f \<longrightarrow> \<not> eval (envs g) (the (pb_bad p))) \<and>
       w = \<lparr> cw_badFrame = f - bs_bootstrapFrames sh, cw_inputTrace = traceOf Q p (bs_bootstrapFrames sh) f envs,
             cw_outputMismatches = mismatchesOf Q p (envs f) \<rparr>)"

lemma solveCadical_clauses: "sv_clauses (snd (solveCadicalWithResourceLimits B as c d t u s)) = sv_clauses s"
  by (auto simp: solveCadicalWithResourceLimits_def split: option.splits prod.splits)

lemma solveBase_sound:
  assumes B: "soundBackend B"
  shows "\<exists>st s'. solveBase B profile s = Inr (st, s') \<and> soundStatus (sv_clauses s) [] st \<and> sv_clauses s' = sv_clauses s \<and>
    (profile \<noteq> FastCounterexampleSearch \<longrightarrow> completeBackend B \<longrightarrow> sv_kissatLimits s = (- 1, - 1) \<longrightarrow> st \<noteq> Unknown)"
proof (cases "profile = FastCounterexampleSearch")
  case False
  then show ?thesis using solveStatus_sound [OF B] solveStatus_decides by (auto simp: solveBase_def)
next
  case True
  let ?c = "word_of_int kFastCounterexampleSearchConflictLimit" and ?d = "word_of_int kFastCounterexampleSearchDecisionLimit"
  show ?thesis
  proof (cases "sv_type s")
    case KISSAT
    let ?s = "s\<lparr> sv_kissatLimits := (unsignedLimit ?c (fst (sv_kissatLimits s)), unsignedLimit ?d (snd (sv_kissatLimits s))) \<rparr>"
    have "soundStatus (sv_clauses ?s) [] (solveStatus B ?s)" by (rule solveStatus_sound [OF B])
    then show ?thesis using True KISSAT by (simp add: solveBase_def solveWithKissatResourceLimits_def Let_def)
  next
    case GLUCOSE
    have "soundStatus (sv_clauses s) [] (glucoseStatus (be_glucoseLimited B (kFastCounterexampleSearchConflictLimit, - 1) (sv_clauses s) []))"
      using B by (simp add: soundBackend_def)
    then show ?thesis using True GLUCOSE
      by (simp add: solveBase_def solveWithAssumptionsStatus_def checkLits_def kFastCounterexampleSearchConflictLimit_def Let_def)
  next
    case CADICAL
    let ?r = "solveCadicalWithResourceLimits B [] kFastCounterexampleSearchConflictLimit (- 1) (- 1) True s"
    have ok: "soundStatus (sv_clauses s) [] (fst ?r)" "sv_clauses (snd ?r) = sv_clauses s"
      by (rule solveCadical_sound [OF B], rule solveCadical_clauses)
    have "soundStatus (sv_clauses s) [] Unknown" by (simp add: soundStatus_def)
    moreover have "solveBase B profile s = Inr (Unknown, s) \<or> solveBase B profile s = Inr ?r"
      using True CADICAL
      by (simp add: solveBase_def solveWithAssumptionsStatus_def checkLits_def Let_def kFastCounterexampleSearchConflictLimit_def)
    ultimately show ?thesis using ok True by (cases ?r) auto
  qed
qed

lemma sat_model:
  assumes "soundBackend B" "soundStatus (sv_clauses s) [] Sat"
  shows "models (backendModel B (sv_clauses s) []) s"
  using assms by (auto simp: soundBackend_def soundStatus_def holdsUnder_def models_def)

text \<open>The shapes of a query.\<close>

definition baseShape :: "problem \<Rightarrow> base_shape \<Rightarrow> nat \<Rightarrow> bool" where
  "baseShape p sh z = (bs_bootstrapFrames sh = resetBootstrapFrames p \<and> \<not> bs_safePrefix sh \<and>
     bs_bootstrapFrames sh \<le> bs_firstBadFrame sh \<and> bs_firstBadFrame sh \<le> z \<and> z \<le> bs_internalK sh \<and>
     (bs_bootstrapFrames sh \<noteq> 0 \<longrightarrow> bs_mode sh = NoInit) \<and> (bs_observation sh \<longrightarrow> bs_bootstrapFrames sh \<noteq> 0))"

lemma baseShapeOf_shape: "baseShapeOf p k exact = Some (sh, z) \<Longrightarrow> baseShape p sh z"
  by (auto simp: baseShapeOf_def baseShape_def Let_def split: if_splits option.splits)

lemma shape_ready:
  assumes sh: "baseShape p sh z" and coi: "baseCoiOk p sh coi" and p: "pb_property p = Some e"
  shows "shapeReady p sh (bc_symbolSet coi)"
proof -
  have Q: "querySupport p sh \<subseteq> bc_symbolSet coi" using coi by (simp add: baseCoiOk_def)
  have formula: "support f \<subseteq> addFormulaSupport (Some f) {}" for f by (auto simp: addFormulaSupport_def support_ge2)
  have e: "support e \<subseteq> bc_symbolSet coi" if "assertsProperty sh"
    using Q that p formula [of e] by (auto simp: querySupport_def)
  have i: "support f \<subseteq> bc_symbolSet coi" if "assertsInitial p sh" "pb_initialCondition p = Some f" for f
    using Q that formula [of f] by (auto simp: querySupport_def)
  have b: "bs_bootstrapFrames sh = 0" if "bs_mode sh \<noteq> NoInit" using sh that by (auto simp: baseShape_def)
  have "initialReady p (bc_symbolSet coi) (bs_mode sh)"
    using e i b p by (auto simp: initialReady_def assertsInitial_def assertsProperty_def)
  moreover have "fst ` set (pb_resetBootstrapInputs p) \<subseteq> bc_symbolSet coi" using Q by (simp add: querySupport_def)
  moreover have "\<exists>e. pb_property p = Some e \<and> support e \<subseteq> bc_symbolSet coi" if "bs_observation sh"
    using e p sh that by (auto simp: assertsProperty_def baseShape_def)
  ultimately show ?thesis using sh by (auto simp: shapeReady_def baseShape_def)
qed

lemma bad_ready:
  assumes coi: "baseCoiOk p sh coi" and p: "pb_bad p = Some e"
  shows "support e \<subseteq> bc_symbolSet coi"
  using coi p by (auto simp: baseCoiOk_def querySupport_def addFormulaSupport_def support_ge2)

end
