(* ===== verification/Base_Answer.thy ===== *)
theory Base_Answer
  imports Base_Witness
begin

text \<open>
  The answers of the base queries: a query is satisfiable exactly when a window exists on the cone
  of the problem, its witness is that of such a window, and the query of the frontier cache answers
  the same question as a fresh query.
\<close>

section \<open>The valuations of the cone decide\<close>

lemma relationsOn_cong:
  assumes "\<And>x. x \<in> Q \<Longrightarrow> env x = fnv x"
  shows "relationsOn Q p env = relationsOn Q p fnv"
proof -
  have "equalOn Q pairs env = equalOn Q pairs fnv" "pairsOn Q pairs env = pairsOn Q pairs fnv"
    "railsOn Q rails env = railsOn Q rails fnv" for pairs rails
    using assms by (simp_all add: equalOn_def pairsOn_def railsOn_def cong: imp_cong)
  then show ?thesis by (simp add: relationsOn_def)
qed

lemma assignsOn_cong:
  assumes "\<And>x. x \<in> Q \<Longrightarrow> env x = fnv x"
  shows "assignsOn Q xs env = assignsOn Q xs fnv"
  using assms by (simp add: assignsOn_def split_def cong: imp_cong)

lemma startupOn_cong:
  assumes ready: "shapeReady p sh Q" and e: "\<And>f x. f < bs_internalK sh + 1 \<Longrightarrow> x \<in> Q \<Longrightarrow> envs f x = fnvs f x"
  shows "startupOn railStart p sh Q envs = startupOn railStart p sh Q fnvs"
proof -
  have first: "\<And>x. x \<in> Q \<Longrightarrow> envs 0 x = fnvs 0 x" and b: "\<And>x. x \<in> Q \<Longrightarrow> envs (bs_bootstrapFrames sh) x = fnvs (bs_bootstrapFrames sh) x"
    using e ready by (simp_all add: shapeReady_def)
  have "resetPrefix p (bs_internalK sh + 1) envs = resetPrefix p (bs_internalK sh + 1) fnvs"
  proof -
    have "envs f (fst xv) = fnvs f (fst xv)" if "xv \<in> set (pb_resetBootstrapInputs p)" "f < bs_internalK sh + 1" for f xv
    proof -
      have "fst xv \<in> Q" using ready that(1) unfolding shapeReady_def by blast
      then show ?thesis by (rule e [OF that(2)])
    qed
    then show ?thesis unfolding resetPrefix_def split_def by simp
  qed
  moreover have "initialOn p Q (bs_mode sh) (envs 0) = initialOn p Q (bs_mode sh) (fnvs 0)"
  proof -
    have same: "eval (envs 0) f = eval (fnvs 0) f" if "support f \<subseteq> Q" for f
      by (rule eval_cong) (use that first in auto)
    have init: "initialReady p Q (bs_mode sh)" using ready by (simp add: shapeReady_def)
    have "eval (envs 0) (the (pb_initialCondition p)) = eval (fnvs 0) (the (pb_initialCondition p))"
      if "bs_mode sh = CompleteInit \<or> bs_mode sh = PartialInit" "pb_initialCondition p \<noteq> None" "\<not> hasStructuredInitialAssignments p"
      by (rule same) (use init that in \<open>auto simp: initialReady_def\<close>)
    moreover have "eval (envs 0) (the (pb_property p)) = eval (fnvs 0) (the (pb_property p))"
      if "bs_mode sh = ObservationOnly \<or> bs_mode sh = PartialInit"
      by (rule same) (use init that in \<open>auto simp: initialReady_def\<close>)
    moreover have "assignsOn Q xs (envs 0) = assignsOn Q xs (fnvs 0)" for xs by (rule assignsOn_cong) (rule first)
    ultimately show ?thesis
      by (cases "bs_mode sh"; cases "hasStructuredInitialAssignments p"; cases "pb_initialCondition p")
        (simp_all add: initialOn_def)
  qed
  moreover have "assignsOn Q xs (envs 0) = assignsOn Q xs (fnvs 0)" for xs by (rule assignsOn_cong) (rule first)
  moreover have "eval (envs (bs_bootstrapFrames sh)) (the (pb_property p)) = eval (fnvs (bs_bootstrapFrames sh)) (the (pb_property p))"
    if "bs_observation sh"
  proof -
    obtain f where "pb_property p = Some f" "support f \<subseteq> Q" using ready \<open>bs_observation sh\<close> by (auto simp: shapeReady_def)
    then show ?thesis using b by (auto intro!: eval_cong)
  qed
  ultimately show ?thesis by (auto simp: startupOn_def)
qed

lemma targetHolds_cong:
  assumes p: "published r t" and reads: "coneReads r [t] \<subseteq> Q" "t \<in> Q"
    and a: "\<And>x. x \<in> Q \<Longrightarrow> env x = fnv x" and b: "\<And>x. x \<in> Q \<Longrightarrow> env' x = fnv' x"
  shows "targetHolds r t env env' = targetHolds r t fnv fnv'"
proof -
  have "eval env e = eval fnv e" if "resolvedTo r t e" for e
    by (rule eval_cong) (use resolvedTo_cone [OF p that, of "[t]"] reads(1) a in auto)
  then show ?thesis using b [OF reads(2)] by (auto simp: targetHolds_def)
qed

lemma prefixOn_cong:
  assumes ready: "shapeReady p sh (bc_symbolSet coi)" and coi: "baseCoiOk p sh coi"
    and pub: "\<And>t. resolverContains t (newResolver p) \<Longrightarrow> published (newResolver p) t"
    and e: "\<And>f x. f < bs_internalK sh + 1 \<Longrightarrow> x \<in> bc_symbolSet coi \<Longrightarrow> envs f x = fnvs f x"
  shows "prefixOn railStart bootstrapState p sh coi envs = prefixOn railStart bootstrapState p sh coi fnvs"
proof -
  let ?Q = "bc_symbolSet coi" and ?root = "newResolver p"
  have "relationsOn ?Q p (envs f) = relationsOn ?Q p (fnvs f)" if "f < bs_internalK sh + 1" for f
    by (rule relationsOn_cong) (rule e [OF that])
  moreover have "targetHolds ?root t (envs f) (envs (Suc f)) = targetHolds ?root t (fnvs f) (fnvs (Suc f))"
    if f: "f < bs_internalK sh" and t: "t \<in> set (bc_targets coi ! f)" for f t
  proof (rule targetHolds_cong)
    show "published ?root t" using coi f t pub by (simp add: baseCoiOk_def)
    have "coneReads ?root [t] \<subseteq> coneReads ?root (bc_targets coi ! f)" using t by (auto simp: coneReads_def)
    then show "coneReads ?root [t] \<subseteq> ?Q" "t \<in> ?Q" using coi f t unfolding baseCoiOk_def by (metis (no_types) Un_subset_iff subset_trans subsetD)+
  qed (use e f in auto)
  moreover have "assignsOn ?Q xs (envs (bs_bootstrapFrames sh)) = assignsOn ?Q xs (fnvs (bs_bootstrapFrames sh))" for xs
    by (rule assignsOn_cong) (use e ready in \<open>simp add: shapeReady_def\<close>)
  ultimately show ?thesis
    using startupOn_cong [OF ready, of envs fnvs railStart] e by (auto simp: prefixOn_def transitionsOn_def)
qed

section \<open>The instance\<close>

lemma baseInstance_ok:
  assumes p: "baseProblem p property badness" and sh: "baseShape p sh z" and coi: "baseCoiOk p sh coi"
    and r: "session (newResolver p) r" and f: "newFrameStore (bc_symbols coi) (bs_internalK sh + 1) (newSolver t) = (fs, s0)"
    and bad: "\<forall>s. storeInv fs (sv_vars s) \<longrightarrow> solverInv s \<longrightarrow> (\<exists>s'. assertBad s = Inr s' \<and>
      restricts s s' (\<lambda>M. \<exists>f. bs_firstBadFrame sh \<le> f \<and> f \<le> z \<and> eval (frameValue fs M f) badness))"
  shows "\<exists>s1 r' s2. assertBasePrefix railStart bootstrapState p sh coi r fs s0 = Inr (s1, r') \<and> assertBad s1 = Inr s2 \<and>
    storeInv fs (sv_vars s2) \<and> knownSymbols fs = bc_symbolSet coi \<and> fs_numFrames fs = bs_internalK sh + 1 \<and>
    sv_kissatLimits s2 = (- 1, - 1) \<and>
    (\<forall>M. models M s2 \<longrightarrow> prefixOn railStart bootstrapState p sh coi (frameValue fs M) \<and>
      (\<exists>f. bs_firstBadFrame sh \<le> f \<and> f \<le> z \<and> eval (frameValue fs M f) badness)) \<and>
    ((\<exists>envs. prefixOn railStart bootstrapState p sh coi envs \<and>
      (\<exists>f. bs_firstBadFrame sh \<le> f \<and> f \<le> z \<and> eval (envs f) badness)) \<longrightarrow> (\<exists>M. models M s2))"
proof -
  have pub: "\<And>t. resolverContains t (newResolver p) \<Longrightarrow> published (newResolver p) t" and maps: "mapsToSymbols (newResolver p)"
    and forms: "pb_property p = Some property" "pb_bad p = Some badness"
    using p by (simp_all add: baseProblem_def publishedProblem_def)
  have dist: "distinct (bc_symbols coi)" and Q: "bc_symbolSet coi = set (bc_symbols coi)" using coi by (simp_all add: baseCoiOk_def)
  have fs: "storeInv fs (sv_vars s0)" "knownSymbols fs = bc_symbolSet coi" "fs_numFrames fs = bs_internalK sh + 1" "sv_clauses s0 = []"
    using newFrameStore_ok [OF f dist] Q by (auto simp: knownSymbols_def newSolver_def)
  have s0: "solverInv s0" "\<And>M. models M s0" using fs(4) by (simp_all add: solverInv_def models_def satisfies_def)
  note ready = shape_ready [OF sh coi forms(1)]
  let ?P = "prefixOn railStart bootstrapState p sh coi"
  let ?bad = "\<lambda>envs. \<exists>f. bs_firstBadFrame sh \<le> f \<and> f \<le> z \<and> eval (envs f) badness"
  obtain s1 r' where s1: "assertBasePrefix railStart bootstrapState p sh coi r fs s0 = Inr (s1, r')"
    "restricts s0 s1 (\<lambda>M. ?P (frameValue fs M))"
    using prefix_restricts [OF fs(1) s0(1) fs(3) ready fs(2) r maps coi pub] by blast
  note le1 = restrictsD(1,2) [OF s1(2)]
  obtain s2 where s2: "assertBad s1 = Inr s2" "restricts s1 s2 (\<lambda>M. ?bad (frameValue fs M))"
    using bad storeInv_mono [OF fs(1) le1(2)] le1(1) by blast
  have all: "restricts s0 s2 (\<lambda>M. ?P (frameValue fs M) \<and> ?bad (frameValue fs M))"
    by (rule restricts_trans [OF s1(2) s2(2) readsBelow_frames [OF fs(1)]])
  have limits: "sv_kissatLimits s2 = (- 1, - 1)"
    using sameBackend_trans [OF newFrameStore_backend [OF f] restrictsD(3) [OF all]] by (simp add: sameBackend_def newSolver_def)
  have "\<exists>M. models M s2" if w: "?P envs" "?bad envs" for envs
  proof -
    obtain M where M: "\<forall>x f. hasSymbol fs x \<longrightarrow> f < fs_numFrames fs \<longrightarrow> frameValue fs M f x = envs f x"
      using frames_free [OF fs(1), where envs = envs] by blast
    have same: "frameValue fs M f x = envs f x" if "f < bs_internalK sh + 1" "x \<in> bc_symbolSet coi" for f x
      using M that fs(2,3) by (auto simp: knownSymbols_def)
    have "?P (frameValue fs M)" using w(1) prefixOn_cong [OF ready coi pub same] by simp
    moreover have "?bad (frameValue fs M)"
    proof -
      obtain f where f: "bs_firstBadFrame sh \<le> f" "f \<le> z" "eval (envs f) badness" using w(2) by blast
      have "f < bs_internalK sh + 1" using f(2) sh by (simp add: baseShape_def)
      then have "eval (frameValue fs M f) badness = eval (envs f) badness"
        by (intro eval_cong same) (use bad_ready [OF coi forms(2)] in auto)
      then show ?thesis using f by blast
    qed
    ultimately show ?thesis using all s0(2) unfolding restricts_def by blast
  qed
  then show ?thesis
    using s1(1) s2(1) fs storeInv_mono [OF fs(1) restrictsD(2) [OF all]] limits restrictsD(5) [OF all] by blast
qed

section \<open>The fresh query\<close>

definition answers :: "problem \<Rightarrow> base_shape \<Rightarrow> nat \<Rightarrow> base_coi \<Rightarrow> solve_status \<Rightarrow> bool" where
  "answers p sh z coi st = ((st = Sat \<longrightarrow> (\<exists>envs. baseWindow p sh z coi envs)) \<and>
     (st = Unsat \<longrightarrow> \<not> (\<exists>envs. baseWindow p sh z coi envs)))"

lemma answersI:
  assumes "soundStatus (sv_clauses s) [] st" "\<And>M. models M s \<Longrightarrow> baseWindow p sh z coi (frameValue fs M)"
    "\<exists>envs. baseWindow p sh z coi envs \<Longrightarrow> \<exists>M. models M s"
  shows "answers p sh z coi st"
proof (cases st)
  case Sat
  then obtain M where "models M s" using soundStatusD(1) assms(1) by blast
  then show ?thesis using assms(2) Sat unfolding answers_def by blast
next
  case Unsat
  then have "\<not> models M s" for M using soundStatusD(2) assms(1) by blast
  then show ?thesis using assms(3) Unsat unfolding answers_def by blast
qed (simp add: answers_def)

text \<open>A satisfied query yields the witness of one of its windows.\<close>

lemma satWitness:
  assumes B: "soundBackend B" and st: "soundStatus (sv_clauses s) [] Sat" "sv_clauses s' = sv_clauses s"
    and fs: "storeInv fs (sv_vars s)" "knownSymbols fs = bc_symbolSet coi" "z < fs_numFrames fs"
    and w: "\<And>M. models M s \<Longrightarrow> baseWindow p sh z coi (frameValue fs M)"
    and bad: "pb_bad p = Some badness" "support badness \<subseteq> knownSymbols fs"
  shows "\<exists>c envs. buildCounterexampleWitness (\<lambda>l. getLiteralValue B [] l s') fs p (bs_firstBadFrame sh) z (bs_bootstrapFrames sh) = Inr c \<and>
    baseWindow p sh z coi envs \<and> witnessOf p sh z (bc_symbolSet coi) envs c"
proof -
  let ?M = "backendModel B (sv_clauses s) []"
  have win: "baseWindow p sh z coi (frameValue fs ?M)" by (rule w [OF sat_model [OF B st(1)]])
  have ex: "\<exists>f. bs_firstBadFrame sh \<le> f \<and> f \<le> z \<and> eval (frameValue fs ?M f) badness"
    using win by (simp add: baseWindow_def bad)
  have rd: "readsModel fs ?M (\<lambda>l. getLiteralValue B [] l s')"
    using solver_readsModel [OF fs(1), of B s' "[]"] st(2) by simp
  show ?thesis
    using buildWitness_ok [OF rd fs(1) bad fs(3) ex, of "bs_bootstrapFrames sh"] win
    unfolding witnessOf_def bad(1) option.sel fs(2) by blast
qed

lemma root_session: "baseProblem p property badness \<Longrightarrow> session (newResolver p) r \<Longrightarrow>
    session (newResolver p) (newResolver (tr_problem r))"
  by (meson anchored_new anchored_session newResolver_session session_def session_trans)

lemma buildBase_total:
  assumes "baseProblem p property badness" "baseShape p sh z"
  shows "\<exists>coi r. buildBaseCaseCoi p sh = Inr (coi, r) \<and> session (newResolver p) r \<and> baseCoiOk p sh coi"
  using assms by (intro buildBaseCaseCoi_ok) (auto simp: baseProblem_def publishedProblem_def published_def baseShape_def)

lemma baseQuery_ok:
  assumes B: "soundBackend B" and p: "baseProblem p property badness" and s: "baseShapeOf p k exact = Some (sh, z)"
  shows "\<exists>coi r st w. buildBaseCaseCoi p sh = Inr (coi, r) \<and> baseCoiOk p sh coi \<and>
    baseQuery B p t k exact profile = Inr (w, st) \<and> answers p sh z coi st \<and> (w \<noteq> None \<longleftrightarrow> st = Sat) \<and>
    (\<forall>c. w = Some c \<longrightarrow> profile \<noteq> PdrValidationProofOnly \<longrightarrow>
      (\<exists>envs. baseWindow p sh z coi envs \<and> witnessOf p sh z (bc_symbolSet coi) envs c)) \<and>
    (profile \<noteq> FastCounterexampleSearch \<longrightarrow> completeBackend B \<longrightarrow> st \<noteq> Unknown)"
proof -
  note sh = baseShapeOf_shape [OF s]
  have forms: "pb_property p = Some property" "pb_bad p = Some badness" using p by (simp_all add: baseProblem_def)
  obtain coi r where coi: "buildBaseCaseCoi p sh = Inr (coi, r)" "session (newResolver p) r" "baseCoiOk p sh coi"
    using buildBase_total [OF p sh] by blast
  obtain fs s0 where f: "newFrameStore (bc_symbols coi) (bs_internalK sh + 1) (newSolver t) = (fs, s0)" by fastforce
  have dist: "distinct (bc_symbols coi)" and Q: "bc_symbolSet coi = set (bc_symbols coi)" using coi(3) by (simp_all add: baseCoiOk_def)
  have fs: "knownSymbols fs = bc_symbolSet coi" "fs_numFrames fs = bs_internalK sh + 1"
    using newFrameStore_ok [OF f dist] Q by (auto simp: knownSymbols_def)
  have z: "z < fs_numFrames fs" using sh fs(2) by (simp add: baseShape_def)
  have sup: "support badness \<subseteq> knownSymbols fs" using bad_ready [OF coi(3) forms(2)] fs(1) by simp
  have bad: "\<forall>s. storeInv fs (sv_vars s) \<longrightarrow> solverInv s \<longrightarrow>
      (\<exists>s'. assertBadClause fs (Some badness) (bs_firstBadFrame sh) z s = Inr s' \<and>
      restricts s s' (\<lambda>M. \<exists>f. bs_firstBadFrame sh \<le> f \<and> f \<le> z \<and> eval (frameValue fs M f) badness))"
    using badClause_restricts [OF _ _ sup z] by blast
  let ?b = "bs_bootstrapFrames sh" and ?rails = "pb_usesDualRailStateEncoding p"
  obtain s1 r' s2 where s2: "assertBasePrefix (?b \<noteq> 0 \<and> ?rails) (?b \<noteq> 0 \<and> \<not> ?rails) p sh coi (newResolver (tr_problem r)) fs s0 = Inr (s1, r')"
    "assertBadClause fs (Some badness) (bs_firstBadFrame sh) z s1 = Inr s2" "storeInv fs (sv_vars s2)"
    "sv_kissatLimits s2 = (- 1, - 1)" "\<And>M. models M s2 \<Longrightarrow> baseWindow p sh z coi (frameValue fs M)"
    "(\<exists>envs. baseWindow p sh z coi envs) \<Longrightarrow> \<exists>M. models M s2"
    using baseInstance_ok [OF p sh coi(3) root_session [OF p coi(2)] f bad, of "?b \<noteq> 0 \<and> ?rails" "?b \<noteq> 0 \<and> \<not> ?rails"]
    unfolding baseWindow_def forms option.sel by blast
  obtain st s3 where st: "solveBase B profile s2 = Inr (st, s3)" "soundStatus (sv_clauses s2) [] st" "sv_clauses s3 = sv_clauses s2"
    "profile \<noteq> FastCounterexampleSearch \<longrightarrow> completeBackend B \<longrightarrow> st \<noteq> Unknown"
    using solveBase_sound [OF B, of profile s2] s2(4) by blast
  have ans: "answers p sh z coi st"
    by (rule answersI [OF st(2) s2(5,6)])
  have q: "baseQuery B p t k exact profile = (if st \<noteq> Sat then Inr (None, st)
      else if profile = PdrValidationProofOnly
      then Inr (Some \<lparr> cw_badFrame = bs_firstBadFrame sh - ?b, cw_inputTrace = [], cw_outputMismatches = [] \<rparr>, st)
      else bindE (buildCounterexampleWitness (\<lambda>l. getLiteralValue B [] l s3) fs p (bs_firstBadFrame sh) z ?b)
        (\<lambda>w. Inr (Some w, st)))"
    unfolding baseQuery_def s option.case prod.case Let_def coi(1) bindE_simps f s2(1) forms s2(2) st(1) ..
  show ?thesis
  proof (cases "st = Sat \<and> profile \<noteq> PdrValidationProofOnly")
    case False
    then show ?thesis using q ans coi(1,3) st(4) by auto
  next
    case True
    have sat: "soundStatus (sv_clauses s2) [] Sat" using st(2) True by simp
    obtain c envs where c: "buildCounterexampleWitness (\<lambda>l. getLiteralValue B [] l s3) fs p (bs_firstBadFrame sh) z ?b = Inr c"
      "baseWindow p sh z coi envs" "witnessOf p sh z (bc_symbolSet coi) envs c"
      using satWitness [OF B sat st(3) s2(3) fs(1) z s2(5) forms(2) sup] by blast
    have "baseQuery B p t k exact profile = Inr (Some c, st)" using q True c(1) by simp
    moreover have "\<exists>envs. baseWindow p sh z coi envs \<and> witnessOf p sh z (bc_symbolSet coi) envs c" using c(2,3) by blast
    ultimately show ?thesis using ans coi(1,3) st(4) True by (intro exI [of _ coi] exI [of _ r] exI [of _ st] exI [of _ "Some c"]) simp
  qed
qed

section \<open>The cached query\<close>

lemma exact_shape: "baseShapeOf p k (Some k) = Some (sh, z) \<Longrightarrow> z = bs_firstBadFrame sh \<and> z = k + resetBootstrapFrames p"
  by (auto simp: baseShapeOf_def Let_def split: if_splits)

text \<open>Without rails the cached frontier query asserts what the fresh one asserts.\<close>

lemma cachedQuery_ok:
  assumes B: "soundBackend B" and p: "baseProblem p property badness" and rails: "\<not> pb_usesDualRailStateEncoding p"
    and s: "baseShapeOf p k (Some k) = Some (sh, z)" and profile: "profile \<noteq> PdrValidationProofOnly"
  shows "\<exists>coi r st w. buildBaseCaseCoi p sh = Inr (coi, r) \<and> baseCoiOk p sh coi \<and>
    findImcCachedBaseCounterexampleAtFrontierQuery B (makeImcBaseCounterexampleCache p) t k profile = Inr (w, st) \<and>
    answers p sh z coi st \<and> (w \<noteq> None \<longleftrightarrow> st = Sat) \<and>
    (\<forall>c. w = Some c \<longrightarrow> (\<exists>envs. baseWindow p sh z coi envs \<and> witnessOf p sh z (bc_symbolSet coi) envs c)) \<and>
    (profile \<noteq> FastCounterexampleSearch \<longrightarrow> completeBackend B \<longrightarrow> st \<noteq> Unknown)"
proof -
  note sh = baseShapeOf_shape [OF s] and one = exact_shape [OF s]
  have forms: "pb_property p = Some property" "pb_bad p = Some badness" using p by (simp_all add: baseProblem_def)
  obtain coi r where coi: "buildBaseCaseCoi p sh = Inr (coi, r)" "session (newResolver p) r" "baseCoiOk p sh coi"
    using buildBase_total [OF p sh] by blast
  have cached: "buildImcCachedBaseCaseCoi (makeImcBaseCounterexampleCache p) sh = Inr (coi, r)" by (simp add: cached_cone coi(1))
  obtain fs s0 where f: "newFrameStore (bc_symbols coi) (bs_internalK sh + 1) (newSolver t) = (fs, s0)" by fastforce
  have dist: "distinct (bc_symbols coi)" and Q: "bc_symbolSet coi = set (bc_symbols coi)" using coi(3) by (simp_all add: baseCoiOk_def)
  have fs: "knownSymbols fs = bc_symbolSet coi" "fs_numFrames fs = bs_internalK sh + 1"
    using newFrameStore_ok [OF f dist] Q by (auto simp: knownSymbols_def)
  have z: "z < fs_numFrames fs" using sh fs(2) by (simp add: baseShape_def)
  have sup: "support badness \<subseteq> knownSymbols fs" using bad_ready [OF coi(3) forms(2)] fs(1) by simp
  have only: "(\<exists>f. bs_firstBadFrame sh \<le> f \<and> f \<le> z \<and> P f) = P (bs_firstBadFrame sh)" for P
    using one by (auto dest: antisym)
  have bad: "\<forall>s. storeInv fs (sv_vars s) \<longrightarrow> solverInv s \<longrightarrow>
      (\<exists>s'. assertBaseFormula fs (Some badness) ''bad-state formula'' (bs_firstBadFrame sh) s = Inr s' \<and>
      restricts s s' (\<lambda>M. \<exists>f. bs_firstBadFrame sh \<le> f \<and> f \<le> z \<and> eval (frameValue fs M f) badness))"
    unfolding only using baseFormula_restricts [OF _ _ _ sup] z one by simp
  let ?b = "bs_bootstrapFrames sh"
  obtain s1 r' s2 where s2: "assertBasePrefix False (?b \<noteq> 0) p sh coi r fs s0 = Inr (s1, r')"
    "assertBaseFormula fs (Some badness) ''bad-state formula'' (bs_firstBadFrame sh) s1 = Inr s2" "storeInv fs (sv_vars s2)"
    "sv_kissatLimits s2 = (- 1, - 1)" "\<And>M. models M s2 \<Longrightarrow> baseWindow p sh z coi (frameValue fs M)"
    "(\<exists>envs. baseWindow p sh z coi envs) \<Longrightarrow> \<exists>M. models M s2"
    using baseInstance_ok [OF p sh coi(3,2) f bad, of False "?b \<noteq> 0"] rails
    unfolding baseWindow_def forms option.sel by auto
  obtain st s3 where st: "solveBase B profile s2 = Inr (st, s3)" "soundStatus (sv_clauses s2) [] st" "sv_clauses s3 = sv_clauses s2"
    "profile \<noteq> FastCounterexampleSearch \<longrightarrow> completeBackend B \<longrightarrow> st \<noteq> Unknown"
    using solveBase_sound [OF B, of profile s2] s2(4) by blast
  have ans: "answers p sh z coi st"
    by (rule answersI [OF st(2) s2(5,6)])
  have q: "findImcCachedBaseCounterexampleAtFrontierQuery B (makeImcBaseCounterexampleCache p) t k profile =
      (if st \<noteq> Sat then Inr (None, st)
       else bindE (buildCounterexampleWitness (\<lambda>l. getLiteralValue B [] l s3) fs p (bs_firstBadFrame sh) z ?b)
        (\<lambda>w. Inr (Some w, st)))"
    unfolding findImcCachedBaseCounterexampleAtFrontierQuery_def makeCache_fields s option.case prod.case Let_def cached
      bindE_simps f s2(1) forms s2(2) st(1) ..
  show ?thesis
  proof (cases "st = Sat")
    case False
    then show ?thesis using q ans coi(1,3) st(4) by auto
  next
    case True
    have sat: "soundStatus (sv_clauses s2) [] Sat" using st(2) True by simp
    obtain c envs where c: "buildCounterexampleWitness (\<lambda>l. getLiteralValue B [] l s3) fs p (bs_firstBadFrame sh) z ?b = Inr c"
      "baseWindow p sh z coi envs" "witnessOf p sh z (bc_symbolSet coi) envs c"
      using satWitness [OF B sat st(3) s2(3) fs(1) z s2(5) forms(2) sup] by blast
    have "findImcCachedBaseCounterexampleAtFrontierQuery B (makeImcBaseCounterexampleCache p) t k profile = Inr (Some c, st)"
      using q True c(1) by simp
    moreover have "\<exists>envs. baseWindow p sh z coi envs \<and> witnessOf p sh z (bc_symbolSet coi) envs c" using c(2,3) by blast
    ultimately show ?thesis using ans coi(1,3) st(4) True by (intro exI [of _ coi] exI [of _ r] exI [of _ st] exI [of _ "Some c"]) simp
  qed
qed

end
