(* ===== verification/KI_Engine.thy ===== *)
theory KI_Engine
  imports Base_Query
begin

text \<open>
  The k-induction engine (\<open>sec/kinduction/KInductionEngine.cpp\<close>): the loop that alternates
  induction steps and base frontiers on one problem, the split of a multi-output problem into
  ranges, the public hypotheses a dual-rail range may assume, and the memory of ranges that stayed
  inconclusive.  What outlives a call is threaded: the lazy store that all copies of the problem
  share, of which the engine reads and writes the public hypothesis and the attempts, and the
  support cache of the induction step.  The memo tables that the queries fill in the store are
  left out (they only repeat what a fresh resolver computes).  \<open>getenv\<close> and the addresses of the
  problem objects are parameters; diagnostic output is left out.
\<close>

section \<open>Limits from the environment\<close>

definition isSpaceChar :: "char \<Rightarrow> bool" where
  "isSpaceChar c = (c \<in> {CHR '' '', CHR 0x09, CHR 0x0A, CHR 0x0B, CHR 0x0C, CHR 0x0D})"

definition isDigitChar :: "char \<Rightarrow> bool" where
  "isDigitChar c = (48 \<le> (of_char c :: nat) \<and> (of_char c :: nat) \<le> 57)"

definition digitsValue :: "string \<Rightarrow> nat" where
  "digitsValue ds = foldl (\<lambda>v c. 10 * v + (of_char c - 48)) 0 ds"

text \<open>\<open>strtoul\<close> in base ten: the value (saturated, and negated in 64 bits after a minus sign) and what
  is left of the text; no digits leave the whole text.\<close>

definition strtoul :: "string \<Rightarrow> nat \<times> string" where
  "strtoul value =
    (let body = dropWhile isSpaceChar value;
         negative = (case body of [] \<Rightarrow> False | c # _ \<Rightarrow> c = CHR ''-'');
         unsigned = (case body of [] \<Rightarrow> [] | c # cs \<Rightarrow> if c = CHR ''-'' \<or> c = CHR ''+'' then cs else body);
         digits = takeWhile isDigitChar unsigned;
         magnitude = digitsValue digits
     in if digits = [] then (0, value)
        else (if 2 ^ 64 \<le> magnitude then 2 ^ 64 - 1
              else if negative then (2 ^ 64 - magnitude) mod 2 ^ 64 else magnitude,
              dropWhile isDigitChar unsigned))"

definition readUnsignedEnv :: "(string \<Rightarrow> string option) \<Rightarrow> string \<Rightarrow> 32 word option" where
  "readUnsignedEnv getenv name =
    (case getenv name of
       None \<Rightarrow> None
     | Some value \<Rightarrow>
        if value = [] then None
        else case strtoul value of (parsed, end_) \<Rightarrow>
          if end_ = value \<or> end_ \<noteq> [] \<or> 2 ^ 32 - 1 < parsed then None else Some (of_nat parsed))"

section \<open>Surfaces\<close>

definition kMinOutputsForBatchedProof :: nat where
  "kMinOutputsForBatchedProof = 2"

definition kMinOriginalOutputsForBoundedBatch :: nat where
  "kMinOriginalOutputsForBoundedBatch = 64"

definition kMinDeferredRailStateSymbolsForEarlyStop :: nat where
  "kMinDeferredRailStateSymbolsForEarlyStop = 512"

definition kHugeDeferredRailStateSymbolsForEarlyStop :: nat where
  "kHugeDeferredRailStateSymbolsForEarlyStop = 65536"

definition kDefaultDeferredDualRailLeafResourceLimitStops :: nat where
  "kDefaultDeferredDualRailLeafResourceLimitStops = 4"

definition kHugeDeferredDualRailLeafResourceLimitStops :: nat where
  "kHugeDeferredDualRailLeafResourceLimitStops = 1"

definition kMaxCompactDualRailConjunctionOutputs :: nat where
  "kMaxCompactDualRailConjunctionOutputs = 32"

definition kMaxWideDualRailSplitHypothesisOutputs :: nat where
  "kMaxWideDualRailSplitHypothesisOutputs = 8"

definition kMaxFullDualRailPublicHypothesisOutputs :: nat where
  "kMaxFullDualRailPublicHypothesisOutputs = 256"

definition kMaxStoredPublicSplitHypothesisOutputs :: nat where
  "kMaxStoredPublicSplitHypothesisOutputs = 32"

definition kMaxFullDualRailPublicHypothesisStateSymbols :: nat where
  "kMaxFullDualRailPublicHypothesisStateSymbols = 4096"

definition kDefaultBatchedInductionDecisionLimit :: "32 word" where
  "kDefaultBatchedInductionDecisionLimit = 200000"

definition kDefaultDualRailInductionDecisionLimit :: "32 word" where
  "kDefaultDualRailInductionDecisionLimit = 5000"

definition kiOriginalOutputCount :: "problem \<Rightarrow> nat" where
  "kiOriginalOutputCount p =
    (if pb_originalObservedOutputCount p = 0 then length (pb_observedOutputExprs0 p)
     else pb_originalObservedOutputCount p)"

definition kiWideResidualSurface :: "problem \<Rightarrow> bool" where
  "kiWideResidualSurface p = (kMinOriginalOutputsForBoundedBatch \<le> kiOriginalOutputCount p)"

definition kiRailStateSymbolCount :: "problem \<Rightarrow> nat" where
  "kiRailStateSymbolCount p =
    (if pb_dualRailStatePairs p \<noteq> [] then length (pb_dualRailStatePairs p) * 2
     else length (pb_state0Symbols p) + length (pb_state1Symbols p))"

definition kiLargeDeferredLeafSurface :: "problem \<Rightarrow> bool" where
  "kiLargeDeferredLeafSurface p =
    (pb_deferBaseCaseChecks p \<and> kMinDeferredRailStateSymbolsForEarlyStop \<le> kiRailStateSymbolCount p)"

definition shouldBoundDualRailBatchInduction :: "problem \<Rightarrow> bool" where
  "shouldBoundDualRailBatchInduction p =
    (if \<not> pb_usesDualRailStateEncoding p \<or> length (pb_observedOutputExprs0 p) \<le> 1 then False
     else if kiOriginalOutputCount p \<le> kMaxCompactDualRailConjunctionOutputs \<and>
             kiRailStateSymbolCount p < kMinDeferredRailStateSymbolsForEarlyStop then True
     else kiWideResidualSurface p \<or> kMinDeferredRailStateSymbolsForEarlyStop \<le> kiRailStateSymbolCount p)"

definition isCompactDualRailPublicConjunctionSurface :: "problem \<Rightarrow> bool" where
  "isCompactDualRailPublicConjunctionSurface p =
    (pb_usesDualRailStateEncoding p \<and> kiOriginalOutputCount p \<le> kMaxCompactDualRailConjunctionOutputs \<and>
     kiRailStateSymbolCount p < kMinDeferredRailStateSymbolsForEarlyStop)"

section \<open>Public hypotheses\<close>

text \<open>Formulas are compared by address in the code and by structure here, which is the same for
  expressions of the factories.\<close>

record hypothesis =
  hy_property :: "bexpr option"
  hy_bad :: "bexpr option"
  hy_outputCount :: nat
  hy_completePublicSurface :: bool

definition emptyHypothesis :: hypothesis where
  "emptyHypothesis = \<lparr> hy_property = None, hy_bad = None, hy_outputCount = 0, hy_completePublicSurface = False \<rparr>"

definition maxDualRailSplitHypothesisOutputs :: "problem \<Rightarrow> nat" where
  "maxDualRailSplitHypothesisOutputs p =
    (if isCompactDualRailPublicConjunctionSurface p then kMaxCompactDualRailConjunctionOutputs
     else kMaxWideDualRailSplitHypothesisOutputs)"

definition canUseFullPublicConjunctionHypothesis :: "problem \<Rightarrow> bool" where
  "canUseFullPublicConjunctionHypothesis p =
    (pb_usesDualRailStateEncoding p \<and> pb_property p \<noteq> None \<and> pb_bad p \<noteq> None \<and>
     length (pb_observedOutputExprs0 p) \<le> kMaxFullDualRailPublicHypothesisOutputs \<and>
     kiRailStateSymbolCount p \<le> kMaxFullDualRailPublicHypothesisStateSymbols)"

definition shouldApplyPublicConjunctionHypothesis :: "problem \<Rightarrow> problem \<Rightarrow> hypothesis \<Rightarrow> bool" where
  "shouldApplyPublicConjunctionHypothesis batch source h =
    (let isFullPublicHypothesis = (hy_property h = pb_property source \<and> hy_bad h = pb_bad source \<and>
           canUseFullPublicConjunctionHypothesis source)
     in pb_usesDualRailStateEncoding source \<and> hy_property h \<noteq> None \<and> hy_bad h \<noteq> None \<and>
        length (pb_observedOutputExprs0 batch) < hy_outputCount h \<and>
        (hy_completePublicSurface h \<or> isFullPublicHypothesis \<or>
         hy_outputCount h \<le> maxDualRailSplitHypothesisOutputs source))"

definition samePublicConjunctionHypothesis :: "hypothesis \<Rightarrow> hypothesis \<Rightarrow> bool" where
  "samePublicConjunctionHypothesis l r =
    (hy_property l = hy_property r \<and> hy_bad l = hy_bad r \<and> hy_outputCount l = hy_outputCount r \<and>
     hy_completePublicSurface l = hy_completePublicSurface r)"

definition shouldTryFallbackHypothesisAtRange :: "hypothesis \<Rightarrow> hypothesis \<Rightarrow> nat \<Rightarrow> bool" where
  "shouldTryFallbackHypothesisAtRange preferred fallback outputCount =
    (if hy_property fallback = None \<or> samePublicConjunctionHypothesis preferred fallback then False
     else if hy_completePublicSurface fallback \<and>
             kMaxStoredPublicSplitHypothesisOutputs < hy_outputCount fallback then False
     else if outputCount \<le> 1 \<and> hy_property preferred \<noteq> None \<and>
             hy_outputCount preferred < hy_outputCount fallback then False
     else True)"

definition shouldTryStoredPublicHypothesisOnStandaloneLeaf :: "hypothesis \<Rightarrow> bool" where
  "shouldTryStoredPublicHypothesisOnStandaloneLeaf h =
    (if hy_property h = None then False
     else if \<not> hy_completePublicSurface h then True
     else hy_outputCount h \<le> kMaxStoredPublicSplitHypothesisOutputs)"

definition makePublicConjunctionHypothesis :: "problem \<Rightarrow> hypothesis" where
  "makePublicConjunctionHypothesis p =
    \<lparr> hy_property = pb_property p, hy_bad = pb_bad p, hy_outputCount = length (pb_observedOutputExprs0 p),
      hy_completePublicSurface = False \<rparr>"

definition storedResidualPublicConjunctionHypothesis :: "problem \<Rightarrow> hypothesis" where
  "storedResidualPublicConjunctionHypothesis p =
    (case pb_lazyTransitions p of
       None \<Rightarrow> emptyHypothesis
     | Some st \<Rightarrow>
        if \<not> pb_usesDualRailStateEncoding p \<or>
           kMaxFullDualRailPublicHypothesisStateSymbols < kiRailStateSymbolCount p then emptyHypothesis
        else if ls_publicProperty st = None \<or> ls_publicBad st = None \<or>
           kMaxFullDualRailPublicHypothesisOutputs < ls_publicOutputCount st \<or>
           ls_publicOutputCount st \<le> length (pb_observedOutputExprs0 p) then emptyHypothesis
        else \<lparr> hy_property = ls_publicProperty st, hy_bad = ls_publicBad st,
               hy_outputCount = ls_publicOutputCount st, hy_completePublicSurface = True \<rparr>)"

definition initialPublicConjunctionHypothesis :: "problem \<Rightarrow> hypothesis" where
  "initialPublicConjunctionHypothesis p =
    (let stored = storedResidualPublicConjunctionHypothesis p in
     if hy_property stored \<noteq> None then stored
     else if \<not> canUseFullPublicConjunctionHypothesis p then emptyHypothesis
     else makePublicConjunctionHypothesis p)"

definition applyDualRailSplitHypothesis :: "problem \<Rightarrow> problem \<Rightarrow> hypothesis \<Rightarrow> problem" where
  "applyDualRailSplitHypothesis batch source h =
    (if \<not> shouldApplyPublicConjunctionHypothesis batch source h then batch
     else batch\<lparr> pb_inductionProperty := hy_property h, pb_inductionBad := pb_bad batch \<rparr>)"

definition publicHypothesisWasAppliedToLeaf :: "problem \<Rightarrow> hypothesis \<Rightarrow> bool" where
  "publicHypothesisWasAppliedToLeaf leaf h =
    (pb_inductionProperty leaf = hy_property h \<and> pb_inductionBad leaf = pb_bad leaf)"

definition activeLeafAttemptHypothesis :: "problem \<Rightarrow> hypothesis \<Rightarrow> hypothesis" where
  "activeLeafAttemptHypothesis leaf requested =
    (if hy_property requested \<noteq> None \<and> publicHypothesisWasAppliedToLeaf leaf requested then requested
     else \<lparr> hy_property = (if pb_inductionProperty leaf \<noteq> None then pb_inductionProperty leaf else pb_property leaf),
            hy_bad = (if pb_inductionBad leaf \<noteq> None then pb_inductionBad leaf else pb_bad leaf),
            hy_outputCount = length (pb_observedOutputExprs0 leaf), hy_completePublicSurface = False \<rparr>)"

section \<open>Memory of inconclusive leaves\<close>

record ki_state =
  ks_store :: "lazy_store option"
  ks_cache :: "induction_cache option"

definition withStore :: "ki_state \<Rightarrow> problem \<Rightarrow> problem" where
  "withStore st p = p\<lparr> pb_lazyTransitions := ks_store st \<rparr>"

primrec solverTypeCacheValue :: "solver_type \<Rightarrow> nat" where
  "solverTypeCacheValue KISSAT = 0"
| "solverTypeCacheValue GLUCOSE = 1"
| "solverTypeCacheValue CADICAL = 2"

definition canMemoizeDualRailResidualLeafAttempt :: "problem \<Rightarrow> hypothesis \<Rightarrow> bool" where
  "canMemoizeDualRailResidualLeafAttempt leaf h =
    (pb_usesDualRailStateEncoding leaf \<and> pb_lazyTransitions leaf \<noteq> None \<and>
     length (pb_observedOutputExprs0 leaf) = 1 \<and> length (pb_observedOutputExprs1 leaf) = 1 \<and>
     hy_property h \<noteq> None \<and> hy_bad h \<noteq> None)"

definition leafAttemptKey :: "problem \<Rightarrow> hypothesis \<Rightarrow> solver_type \<Rightarrow> attempt_key" where
  "leafAttemptKey leaf h t =
    \<lparr> ak_outputExpr0 = Some (pb_observedOutputExprs0 leaf ! 0), ak_outputExpr1 = Some (pb_observedOutputExprs1 leaf ! 0),
      ak_inductionProperty = hy_property h, ak_inductionBad = hy_bad h,
      ak_inductionOutputCount = hy_outputCount h, ak_solverType = solverTypeCacheValue t \<rparr>"

definition inconclusiveDualRailLeafAttemptBound :: "problem \<Rightarrow> hypothesis \<Rightarrow> solver_type \<Rightarrow> nat \<Rightarrow> ki_state \<Rightarrow> nat option" where
  "inconclusiveDualRailLeafAttemptBound leaf h t maxK st =
    (if \<not> canMemoizeDualRailResidualLeafAttempt (withStore st leaf) h then None
     else Option.bind (ks_store st) (findInconclusiveAttempt (leafAttemptKey leaf h t) maxK))"

definition rememberInconclusiveDualRailLeafAttempt :: "problem \<Rightarrow> hypothesis \<Rightarrow> solver_type \<Rightarrow> nat \<Rightarrow> nat \<Rightarrow> ki_state \<Rightarrow>
    ki_state" where
  "rememberInconclusiveDualRailLeafAttempt leaf h t maxK resultBound st =
    (if \<not> canMemoizeDualRailResidualLeafAttempt (withStore st leaf) h then st
     else st\<lparr> ks_store := map_option (rememberInconclusiveAttempt (leafAttemptKey leaf h t) maxK resultBound) (ks_store st) \<rparr>)"

section \<open>Decision limits\<close>

definition binaryBatchedInductionDecisionLimit :: "(string \<Rightarrow> string option) \<Rightarrow> 32 word" where
  "binaryBatchedInductionDecisionLimit getenv =
    (case readUnsignedEnv getenv ''KEPLER_SEC_KI_BATCH_DECISION_LIMIT'' of
       Some limit \<Rightarrow> limit | None \<Rightarrow> kDefaultBatchedInductionDecisionLimit)"

definition dualRailLeafInductionDecisionLimit :: "(string \<Rightarrow> string option) \<Rightarrow> problem \<Rightarrow> 32 word option" where
  "dualRailLeafInductionDecisionLimit getenv p =
    (case readUnsignedEnv getenv ''KEPLER_SEC_KI_DUAL_RAIL_LEAF_DECISION_LIMIT'' of
       Some limit \<Rightarrow> Some limit
     | None \<Rightarrow> if \<not> kiWideResidualSurface p \<and> \<not> kiLargeDeferredLeafSurface p then None
               else Some kDefaultDualRailInductionDecisionLimit)"

definition batchedInductionDecisionLimit :: "(string \<Rightarrow> string option) \<Rightarrow> problem \<Rightarrow> solver_type \<Rightarrow> 32 word option" where
  "batchedInductionDecisionLimit getenv p t =
    (if t \<noteq> KISSAT then None
     else if pb_usesDualRailStateEncoding p \<and> length (pb_observedOutputExprs0 p) \<le> 1
     then dualRailLeafInductionDecisionLimit getenv p
     else if length (pb_observedOutputExprs0 p) \<le> 1 then None
     else if \<not> pb_usesDualRailStateEncoding p then Some (binaryBatchedInductionDecisionLimit getenv)
     else case readUnsignedEnv getenv ''KEPLER_SEC_KI_DUAL_RAIL_BATCH_DECISION_LIMIT'' of
       Some limit \<Rightarrow> Some limit
     | None \<Rightarrow>
        if \<not> shouldBoundDualRailBatchInduction p then None
        else Some (case readUnsignedEnv getenv ''KEPLER_SEC_KI_BATCH_DECISION_LIMIT'' of
            Some limit \<Rightarrow> limit | None \<Rightarrow> kDefaultDualRailInductionDecisionLimit))"

section \<open>One problem\<close>

datatype ki_status = Equivalent | Different | Inconclusive

record ki_result =
  kr_status :: ki_status
  kr_bound :: nat
  kr_witness :: "cex_witness option"

definition kiResult :: "ki_status \<Rightarrow> nat \<Rightarrow> ki_result" where
  "kiResult status bound = \<lparr> kr_status = status, kr_bound = bound, kr_witness = None \<rparr>"

definition kiDifferent :: "cex_witness \<Rightarrow> ki_result" where
  "kiDifferent w = \<lparr> kr_status = Different, kr_bound = cw_badFrame w, kr_witness = Some w \<rparr>"

definition shouldCheckLocalBaseCase :: "problem \<Rightarrow> bool" where
  "shouldCheckLocalBaseCase p = (\<not> pb_deferBaseCaseChecks p)"

definition proofNeedsConcreteFrontierValidation :: "problem \<Rightarrow> bool" where
  "proofNeedsConcreteFrontierValidation p =
    (pb_resetBootstrapCycles p \<noteq> 0 \<or> pb_inductionProperty p \<noteq> None \<or> pb_inductionBad p \<noteq> None)"

definition isDeferredDualRailLeafProof :: "problem \<Rightarrow> bool" where
  "isDeferredDualRailLeafProof p =
    (pb_deferBaseCaseChecks p \<and> pb_usesDualRailStateEncoding p \<and> length (pb_observedOutputExprs0 p) \<le> 1)"

definition shouldStopDeferredDualRailLeafAfterResourceLimit :: "problem \<Rightarrow> nat \<Rightarrow> bool" where
  "shouldStopDeferredDualRailLeafAfterResourceLimit p consecutiveResourceLimitedSteps =
    (if \<not> isDeferredDualRailLeafProof p then False
     else if \<not> kiLargeDeferredLeafSurface p then False
     else (if kHugeDeferredRailStateSymbolsForEarlyStop \<le> kiRailStateSymbolCount p
           then kHugeDeferredDualRailLeafResourceLimitStops
           else kDefaultDeferredDualRailLeafResourceLimitStops) \<le> consecutiveResourceLimitedSteps)"

definition validateConcreteBasePrefix :: "backend \<Rightarrow> problem \<Rightarrow> solver_type \<Rightarrow> nat \<Rightarrow> error + ki_result option" where
  "validateConcreteBasePrefix B p t k =
    (if \<not> pb_usesDualRailStateEncoding p
     then bindE (findBaseCounterexample B p t k) (\<lambda>w. Inr (map_option kiDifferent w))
     else bindE (checkBaseCounterexampleWithFastValidation B p t k) (\<lambda>(status, w).
       Inr (if status = CounterexampleFound \<or> w \<noteq> None
            then Some \<lparr> kr_status = Different, kr_bound = (case w of Some c \<Rightarrow> cw_badFrame c | None \<Rightarrow> k), kr_witness = w \<rparr>
            else if status = NoCounterexample then None
            else Some (kiResult Inconclusive k))))"

text \<open>What the loop does with an answer of the induction step: return, or go on to the base frontier
  with the new count of resource-limited steps.\<close>

datatype step_outcome = Accept | GiveUp | Extend nat

definition stepOutcome :: "problem \<Rightarrow> induction_status \<Rightarrow> nat \<Rightarrow> step_outcome" where
  "stepOutcome p status limited =
    (case status of
       Proved \<Rightarrow> Accept
     | NotProved \<Rightarrow> Extend 0
     | InductionUnknown \<Rightarrow>
        let limited' = (if isDeferredDualRailLeafProof p then limited + 1 else limited) in
        if \<not> pb_usesDualRailStateEncoding p \<or> 1 < length (pb_observedOutputExprs0 p) then GiveUp
        else if \<not> shouldCheckLocalBaseCase p \<and>
                (\<not> pb_deferBaseCaseChecks p \<or> shouldStopDeferredDualRailLeafAfterResourceLimit p limited') then GiveUp
        else Extend limited')"

definition acceptProof :: "backend \<Rightarrow> problem \<Rightarrow> solver_type \<Rightarrow> nat \<Rightarrow> error + ki_result" where
  "acceptProof B p t k =
    (if shouldCheckLocalBaseCase p \<and> proofNeedsConcreteFrontierValidation p
     then bindE (validateConcreteBasePrefix B p t k) (\<lambda>v. case v of Some r \<Rightarrow> Inr r | None \<Rightarrow> Inr (kiResult Equivalent k))
     else Inr (kiResult Equivalent k))"

function inductionLoop :: "backend \<Rightarrow> (string \<Rightarrow> string option) \<Rightarrow> problem_addresses \<Rightarrow> problem \<Rightarrow> solver_type \<Rightarrow> nat \<Rightarrow> nat \<Rightarrow>
    nat \<Rightarrow> induction_cache option \<Rightarrow> error + ki_result \<times> induction_cache option" where
  "inductionLoop B getenv ad p t maxK k limited cache =
    (if k \<le> maxK
     then bindE (proveByInductionStatus B ad p t k (batchedInductionDecisionLimit getenv p t) cache) (\<lambda>(status, cache').
       case stepOutcome p status limited of
         Accept \<Rightarrow> bindE (acceptProof B p t k) (\<lambda>r. Inr (r, cache'))
       | GiveUp \<Rightarrow> Inr (kiResult Inconclusive k, cache')
       | Extend limited' \<Rightarrow>
           bindE (if shouldCheckLocalBaseCase p
                  then findKInductionBaseCounterexampleAtFrontier B (makeImcBaseCounterexampleCache p) t k
                  else Inr None) (\<lambda>w.
             case w of
               Some c \<Rightarrow> Inr (kiDifferent c, cache')
             | None \<Rightarrow> inductionLoop B getenv ad p t maxK (k + 1) limited' cache'))
     else bindE (if shouldCheckLocalBaseCase p then validateConcreteBasePrefix B p t maxK else Inr None) (\<lambda>v.
       Inr (case v of Some r \<Rightarrow> r | None \<Rightarrow> kiResult Inconclusive maxK, cache)))"
  by pat_completeness auto
termination by (relation "measure (\<lambda>(_, _, _, _, _, maxK, k, _). Suc maxK - k)") auto

declare inductionLoop.simps [simp del]

definition runMonolithicKInduction :: "backend \<Rightarrow> (string \<Rightarrow> string option) \<Rightarrow> problem_addresses \<Rightarrow> problem \<Rightarrow> solver_type \<Rightarrow>
    nat \<Rightarrow> induction_cache option \<Rightarrow> error + ki_result \<times> induction_cache option" where
  "runMonolithicKInduction B getenv ad p t maxK cache =
    bindE (if shouldCheckLocalBaseCase p then findBaseCounterexample B p t 0 else Inr None) (\<lambda>w.
      case w of
        Some c \<Rightarrow> Inr (kiDifferent c, cache)
      | None \<Rightarrow>
          if combinedStateSymbols p = [] then Inr (kiResult Equivalent 0, cache)
          else inductionLoop B getenv ad p t maxK 1 0 cache)"

section \<open>Ranges of outputs\<close>

definition combineBatchResults :: "ki_result \<Rightarrow> ki_result \<Rightarrow> ki_result" where
  "combineBatchResults l r =
    (if kr_status l = Different then l
     else if kr_status r = Different then r
     else l\<lparr> kr_status := (if kr_status r = Inconclusive then Inconclusive else kr_status l),
             kr_bound := max (kr_bound l) (kr_bound r) \<rparr>)"

definition runLeaf :: "backend \<Rightarrow> (string \<Rightarrow> string option) \<Rightarrow> problem_addresses \<Rightarrow> problem \<Rightarrow> solver_type \<Rightarrow> nat \<Rightarrow> ki_state \<Rightarrow>
    error + ki_result \<times> ki_state" where
  "runLeaf B getenv ad p t maxK st =
    bindE (runMonolithicKInduction B getenv ad (withStore st p) t maxK (ks_cache st)) (\<lambda>(r, cache).
      Inr (r, st\<lparr> ks_cache := cache \<rparr>))"

text \<open>One run of a slice under a hypothesis; single outputs remember an inconclusive answer under the
  hypothesis in force.\<close>

definition runAndRemember :: "backend \<Rightarrow> (string \<Rightarrow> string option) \<Rightarrow> problem_addresses \<Rightarrow> problem \<Rightarrow> hypothesis \<Rightarrow> bool \<Rightarrow>
    solver_type \<Rightarrow> nat \<Rightarrow> ki_state \<Rightarrow> error + ki_result \<times> ki_state" where
  "runAndRemember B getenv ad p active single t maxK st =
    bindE (runLeaf B getenv ad p t maxK st) (\<lambda>(r, st').
      Inr (r, if kr_status r = Inconclusive \<and> single
              then rememberInconclusiveDualRailLeafAttempt p active t maxK (kr_bound r) st' else st'))"

text \<open>The second attempt at a range: nothing, or the answer that ends the range.\<close>

definition tryFallbackAtRange :: "backend \<Rightarrow> (string \<Rightarrow> string option) \<Rightarrow> problem_addresses \<Rightarrow> problem \<Rightarrow> problem \<Rightarrow> hypothesis \<Rightarrow>
    solver_type \<Rightarrow> nat \<Rightarrow> bool \<Rightarrow> ki_state \<Rightarrow> error + ki_result option \<times> ki_state" where
  "tryFallbackAtRange B getenv ad batch source fallback t maxK single st =
    (case inconclusiveDualRailLeafAttemptBound batch fallback t maxK st of
       Some bound \<Rightarrow> Inr (Some (kiResult Inconclusive bound), st)
     | None \<Rightarrow>
        let batch' = applyDualRailSplitHypothesis batch source fallback in
        bindE (runAndRemember B getenv ad batch' (activeLeafAttemptHypothesis batch' fallback) single t maxK st) (\<lambda>(r, st').
          Inr (if kr_status r \<noteq> Inconclusive \<or> single then Some r else None, st')))"

function runOutputRangeKInduction :: "backend \<Rightarrow> (string \<Rightarrow> string option) \<Rightarrow> problem_addresses \<Rightarrow> problem \<Rightarrow> problem \<Rightarrow>
    hypothesis \<Rightarrow> hypothesis \<Rightarrow> solver_type \<Rightarrow> nat \<Rightarrow> nat \<Rightarrow> nat \<Rightarrow> ki_state \<Rightarrow> error + ki_result \<times> ki_state" where
  "runOutputRangeKInduction B getenv ad batch source preferred fallback t maxK firstOutput endOutput st =
    (let single = (endOutput - firstOutput \<le> 1);
         configured = configureOutputBatchProblem batch source firstOutput endOutput;
         leaf = applyDualRailSplitHypothesis configured source preferred;
         active = activeLeafAttemptHypothesis leaf preferred
     in case (if single then inconclusiveDualRailLeafAttemptBound leaf active t maxK st else None) of
          Some bound \<Rightarrow> Inr (kiResult Inconclusive bound, st)
        | None \<Rightarrow> bindE (runAndRemember B getenv ad leaf active single t maxK st) (\<lambda>(result, st1).
            bindE (if kr_status result = Inconclusive \<and>
                      shouldTryFallbackHypothesisAtRange preferred fallback (endOutput - firstOutput)
                   then tryFallbackAtRange B getenv ad configured source fallback t maxK single st1
                   else Inr (None, st1)) (\<lambda>(decided, st2).
              case decided of
                Some r \<Rightarrow> Inr (r, st2)
              | None \<Rightarrow>
                 if kr_status result \<noteq> Inconclusive then Inr (result, st2)
                 else if endOutput - firstOutput \<le> 1 then Inr (result, st2)
                 else let child = (if hy_property preferred \<noteq> None then preferred
                                   else makePublicConjunctionHypothesis configured);
                          middle = firstOutput + (endOutput - firstOutput) div 2
                      in bindE (runOutputRangeKInduction B getenv ad batch source child fallback t maxK firstOutput middle st2)
                        (\<lambda>(combined, st3).
                          if kr_status combined = Different then Inr (combined, st3)
                          else bindE (runOutputRangeKInduction B getenv ad batch source child fallback t maxK middle endOutput st3)
                            (\<lambda>(r, st4). Inr (combineBatchResults combined r, st4))))))"
  by pat_completeness auto
termination
  by (relation "measure (\<lambda>(_, _, _, _, _, _, _, _, _, firstOutput, endOutput, _). endOutput - firstOutput)") auto

declare runOutputRangeKInduction.simps [simp del]

text \<open>The ranges in turn: a difference ends the run, otherwise status and bound accumulate.\<close>

fun runOutputRanges :: "(nat \<times> nat \<Rightarrow> ki_state \<Rightarrow> error + ki_result \<times> ki_state) \<Rightarrow> (nat \<times> nat) list \<Rightarrow> ki_result \<Rightarrow>
    ki_state \<Rightarrow> error + ki_result \<times> ki_state" where
  "runOutputRanges run [] combined st = Inr (combined, st)"
| "runOutputRanges run (fe # fes) combined st =
    bindE (run fe st) (\<lambda>(result, st').
      if kr_status result = Different then Inr (result, st')
      else runOutputRanges run fes
        (combined\<lparr> kr_status := (if kr_status result = Inconclusive then Inconclusive else kr_status combined),
                   kr_bound := max (kr_bound combined) (kr_bound result) \<rparr>) st')"

definition runOutputBatchedKInduction :: "backend \<Rightarrow> (string \<Rightarrow> string option) \<Rightarrow> problem_addresses \<Rightarrow> problem \<Rightarrow> solver_type \<Rightarrow>
    nat \<Rightarrow> ki_state \<Rightarrow> error + ki_result \<times> ki_state" where
  "runOutputBatchedKInduction B getenv batchAd p t maxK st =
    (let public = initialPublicConjunctionHypothesis (withStore st p);
         preferred = (if hy_completePublicSurface public then emptyHypothesis else public);
         fallback = (if hy_completePublicSurface public then public else emptyHypothesis)
     in case defaultOutputBatchingLimitsForProblem (withStore st p) of (limits, source) \<Rightarrow>
       let useSharedBaseCase = (pb_usesDualRailStateEncoding p \<and> shouldCheckLocalBaseCase p);
           batch = source\<lparr> pb_deferBaseCaseChecks := (pb_deferBaseCaseChecks p \<or> useSharedBaseCase) \<rparr>
       in bindE (runOutputRanges (\<lambda>(firstOutput, endOutput).
             runOutputRangeKInduction B getenv batchAd batch source preferred fallback t maxK firstOutput endOutput)
           (buildSupportBoundedOutputBatches source limits) (kiResult Equivalent 0)
           (st\<lparr> ks_store := pb_lazyTransitions source \<rparr>)) (\<lambda>(combined, st').
         if useSharedBaseCase \<and> kr_status combined = Equivalent
         then bindE (validateConcreteBasePrefix B (withStore st' p) t (kr_bound combined)) (\<lambda>v.
           Inr (case v of Some r \<Rightarrow> r | None \<Rightarrow> combined, st'))
         else Inr (combined, st')))"

text \<open>A leaf under its own hypothesis, from memory when it was tried before.\<close>

definition runLocalLeaf :: "backend \<Rightarrow> (string \<Rightarrow> string option) \<Rightarrow> problem_addresses \<Rightarrow> problem \<Rightarrow> hypothesis \<Rightarrow> solver_type \<Rightarrow>
    nat \<Rightarrow> ki_state \<Rightarrow> error + ki_result \<times> ki_state" where
  "runLocalLeaf B getenv ad p localHypothesis t maxK st =
    (case inconclusiveDualRailLeafAttemptBound p localHypothesis t maxK st of
       Some bound \<Rightarrow> Inr (kiResult Inconclusive bound, st)
     | None \<Rightarrow> runAndRemember B getenv ad p localHypothesis True t maxK st)"

definition runSingleOutputKInduction :: "backend \<Rightarrow> (string \<Rightarrow> string option) \<Rightarrow> problem_addresses \<Rightarrow> problem_addresses \<Rightarrow> problem \<Rightarrow>
    solver_type \<Rightarrow> nat \<Rightarrow> ki_state \<Rightarrow> error + ki_result \<times> ki_state" where
  "runSingleOutputKInduction B getenv ad copyAd p t maxK st =
    (let public = initialPublicConjunctionHypothesis (withStore st p) in
     bindE (runLocalLeaf B getenv ad p (activeLeafAttemptHypothesis p emptyHypothesis) t maxK st) (\<lambda>(localResult, st1).
       if hy_property public = None \<or> kr_status localResult \<noteq> Inconclusive \<or>
          \<not> shouldTryStoredPublicHypothesisOnStandaloneLeaf public
       then Inr (localResult, st1)
       else case inconclusiveDualRailLeafAttemptBound p public t maxK st1 of
         Some bound \<Rightarrow> Inr (kiResult Inconclusive bound, st1)
       | None \<Rightarrow>
          let strengthened = applyDualRailSplitHypothesis p p public in
          runAndRemember B getenv copyAd strengthened (activeLeafAttemptHypothesis strengthened public) True t maxK st1))"

section \<open>The engine\<close>

text \<open>The addresses are those of the problem and of the copy that the engine works on.\<close>

record ki_engine =
  ke_problem :: problem
  ke_solverType :: solver_type
  ke_addresses :: problem_addresses
  ke_copyAddresses :: problem_addresses

definition runEngine :: "backend \<Rightarrow> (string \<Rightarrow> string option) \<Rightarrow> ki_engine \<Rightarrow> nat \<Rightarrow> ki_state \<Rightarrow> error + ki_result \<times> ki_state" where
  "runEngine B getenv engine maxK st =
    (if kMinOutputsForBatchedProof \<le> length (pb_observedOutputExprs0 (ke_problem engine))
     then runOutputBatchedKInduction B getenv (ke_copyAddresses engine) (ke_problem engine) (ke_solverType engine) maxK st
     else runSingleOutputKInduction B getenv (ke_addresses engine) (ke_copyAddresses engine) (ke_problem engine)
       (ke_solverType engine) maxK st)"

end
