(* ===== verification/KI_Run.thy ===== *)
theory KI_Run
  imports Base_Answer KI_Engine
begin

text \<open>
  Runs of a problem, as the k-induction engine speaks of them: a startup, legal frames, and the
  transitions of all symbols.  A hybrid run takes all transitions up to the end of the reset prefix
  and those of a set of targets from there on.  A bad frame of a hybrid run is a window of the base
  queries, and closing the induction step rules out every bad frame after the checked prefix.
\<close>

section \<open>Runs\<close>

definition startRun :: "problem \<Rightarrow> (nat \<Rightarrow> var_id \<Rightarrow> bool) \<Rightarrow> bool" where
  "startRun p envs =
    (let b = resetBootstrapFrames p in
     if b = 0 then initialOn p UNIV (determineInitialConstraintMode p) (envs 0)
     else (\<forall>(x, v) \<in> set (pb_resetBootstrapInputs p). \<forall>f < b. envs f x = v) \<and>
       (if pb_usesDualRailStateEncoding p then assignsOn UNIV (pb_initialStateAssignments p) (envs 0)
        else assignsOn UNIV (pb_bootstrapStateAssignments p) (envs b)) \<and>
       (usesResetBootstrapObservationFrontier p \<longrightarrow> eval (envs b) (the (pb_property p))))"

definition hybridRun :: "problem \<Rightarrow> var_id set \<Rightarrow> (nat \<Rightarrow> var_id \<Rightarrow> bool) \<Rightarrow> bool" where
  "hybridRun p T envs =
    (startRun p envs \<and> (\<forall>f. relationsOn UNIV p (envs f)) \<and> (\<forall>f \<ge> resetBootstrapFrames p. resetOn UNIV p (envs f)) \<and>
     (\<forall>f t. resolverContains t (newResolver p) \<longrightarrow> f < resetBootstrapFrames p \<or> t \<in> T \<longrightarrow>
        targetHolds (newResolver p) t (envs f) (envs (Suc f))))"

definition problemRun :: "problem \<Rightarrow> (nat \<Rightarrow> var_id \<Rightarrow> bool) \<Rightarrow> bool" where
  "problemRun p envs =
    (startRun p envs \<and> (\<forall>f. relationsOn UNIV p (envs f)) \<and> (\<forall>f \<ge> resetBootstrapFrames p. resetOn UNIV p (envs f)) \<and>
     (\<forall>f t. resolverContains t (newResolver p) \<longrightarrow> targetHolds (newResolver p) t (envs f) (envs (Suc f))))"

lemma problem_hybrid: "problemRun p envs \<Longrightarrow> hybridRun p T envs"
  by (simp add: problemRun_def hybridRun_def)

text \<open>The first frame whose bad states the engine looks for.\<close>

definition firstChecked :: "problem \<Rightarrow> nat" where
  "firstChecked p =
    (let b = resetBootstrapFrames p; mode = determineInitialConstraintMode p in
     if b \<noteq> 0 then b + (if usesResetBootstrapObservationFrontier p then 1 else 0)
     else if mode = ObservationOnly \<or> mode = PartialInit then 1 else 0)"

definition shapeFor :: "problem \<Rightarrow> nat \<Rightarrow> nat \<Rightarrow> base_shape" where
  "shapeFor p first K =
    \<lparr> bs_mode = (if resetBootstrapFrames p = 0 then determineInitialConstraintMode p else NoInit),
      bs_bootstrapFrames = resetBootstrapFrames p,
      bs_observation = (resetBootstrapFrames p \<noteq> 0 \<and> usesResetBootstrapObservationFrontier p),
      bs_firstBadFrame = first, bs_internalK = K, bs_safePrefix = False \<rparr>"

lemma firstChecked_range: "resetBootstrapFrames p \<le> firstChecked p" "firstChecked p \<le> resetBootstrapFrames p + 1"
  by (simp_all add: firstChecked_def Let_def)

lemma shape_frontier:
  "baseShapeOf p k (Some k) = (if k + resetBootstrapFrames p < firstChecked p then None
    else Some (shapeFor p (k + resetBootstrapFrames p) (k + resetBootstrapFrames p), k + resetBootstrapFrames p))"
  by (auto simp: baseShapeOf_def firstChecked_def shapeFor_def Let_def)

lemma shape_prefix:
  "baseShapeOf p k None = (if k + resetBootstrapFrames p < firstChecked p then None
    else Some (shapeFor p (firstChecked p) (k + resetBootstrapFrames p), k + resetBootstrapFrames p))"
  by (auto simp: baseShapeOf_def firstChecked_def shapeFor_def Let_def)

lemma shape_start:
  "baseShapeOf p 0 None = (if resetBootstrapFrames p < firstChecked p then None
    else Some (shapeFor p (resetBootstrapFrames p) (resetBootstrapFrames p), resetBootstrapFrames p))"
  using firstChecked_range(1) [of p] by (simp add: shape_prefix not_less)

section \<open>Bad frames of runs are windows of the base queries\<close>

lemma relationsOn_UNIV: "relationsOn UNIV p env \<Longrightarrow> relationsOn Q p env"
  by (simp add: relationsOn_def pairsOn_def equalOn_def railsOn_def)

lemma assignsOn_UNIV: "assignsOn UNIV xs env \<Longrightarrow> assignsOn Q xs env"
  by (auto simp: assignsOn_def)

lemma initialOn_UNIV: "initialOn p UNIV mode env \<Longrightarrow> initialOn p Q mode env"
  by (auto simp: initialOn_def assignsOn_UNIV split: if_splits)

lemma resetBootstrap_cycles: "resetBootstrapFrames p \<noteq> 0 \<Longrightarrow> pb_resetBootstrapCycles p \<noteq> 0"
  by (simp add: resetBootstrapFrames_def split: if_splits)

lemma hybrid_window:
  assumes run: "hybridRun p T envs" and coi: "baseCoiOk p (shapeFor p first K) bcoi"
    and T: "\<And>f. resetBootstrapFrames p \<le> f \<Longrightarrow> f < K \<Longrightarrow> set (bc_targets bcoi ! f) \<subseteq> T"
    and f: "first \<le> f" "f \<le> z" and bad: "pb_bad p = Some badness" "eval (envs f) badness"
  shows "baseWindow p (shapeFor p first K) z bcoi envs"
proof -
  let ?b = "resetBootstrapFrames p" and ?Q = "bc_symbolSet bcoi" and ?root = "newResolver p" and ?sh = "shapeFor p first K"
  note start = run [unfolded hybridRun_def startRun_def Let_def]
  have reset: "resetPrefix p n envs" for n
  proof -
    have "envs g x = (if g < ?b then v else \<not> v)" if "?b \<noteq> 0" "(x, v) \<in> set (pb_resetBootstrapInputs p)" for g x v
    proof (cases "g < ?b")
      case True
      then show ?thesis using start that by auto
    next
      case False
      then have "resetOn UNIV p (envs g)" using start by simp
      then show ?thesis using that resetBootstrap_cycles [OF that(1)] False by (auto simp: resetOn_def)
    qed
    then show ?thesis by (auto simp: resetPrefix_def)
  qed
  have "startupOn (?b \<noteq> 0 \<and> pb_usesDualRailStateEncoding p) p ?sh ?Q envs"
    using start reset by (auto simp: startupOn_def shapeFor_def initialOn_UNIV assignsOn_UNIV initialOn_def)
  moreover have "transitionsOn ?root (bc_targets bcoi) K envs"
  proof -
    have "targetHolds ?root t (envs g) (envs (Suc g))" if g: "g < K" and t: "t \<in> set (bc_targets bcoi ! g)" for g t
    proof -
      have "resolverContains t ?root" using coi g t by (simp add: baseCoiOk_def shapeFor_def)
      moreover have "g < ?b \<or> t \<in> T" using T [of g] g t by (cases "g < ?b") auto
      ultimately show ?thesis using start by blast
    qed
    then show ?thesis by (simp add: transitionsOn_def)
  qed
  moreover have "relationsOn ?Q p (envs g)" for g using start by (simp add: relationsOn_UNIV)
  moreover have "assignsOn ?Q (pb_bootstrapStateAssignments p) (envs ?b)"
    if "?b \<noteq> 0" "\<not> pb_usesDualRailStateEncoding p" using start that by (simp add: assignsOn_UNIV)
  ultimately show ?thesis using f bad by (auto simp: baseWindow_def prefixOn_def shapeFor_def)
qed

text \<open>A query with no window: no run is bad in the frames it looks at.\<close>

definition noWindow :: "problem \<Rightarrow> nat \<Rightarrow> nat \<Rightarrow> bool" where
  "noWindow p first K = (\<forall>bcoi r envs. buildBaseCaseCoi p (shapeFor p first K) = Inr (bcoi, r) \<longrightarrow>
     \<not> baseWindow p (shapeFor p first K) K bcoi envs)"

definition coiTargets :: "induction_coi \<Rightarrow> var_id set" where
  "coiTargets coi = \<Union> (set (map set (co_targets coi)))"

lemma noWindow_run:
  assumes p: "baseProblem p property badness" and cache: "inductionCacheOk ad p (newResolver p) c"
    and coi: "buildInductionCoi ad p (Some property) (Some badness) k c = Inr (coi, r, c')"
    and reads: "vars badness \<inter> buildStateSymbolSet p \<subseteq> vars property"
    and none: "noWindow p first K" and K: "resetBootstrapFrames p \<le> first" "first \<le> K" "K \<le> resetBootstrapFrames p + k"
    and run: "hybridRun p (coiTargets coi) envs" and f: "first \<le> f" "f \<le> K"
  shows "\<not> eval (envs f) badness"
proof
  assume bad: "eval (envs f) badness"
  let ?sh = "shapeFor p first K"
  have pub: "resolverInv (newResolver p)" "\<And>t. resolverContains t (newResolver p) \<Longrightarrow> \<exists>S. directSupport t (newResolver p) = Inr S"
    and forms: "pb_bad p = Some badness"
    using p by (auto simp: baseProblem_def publishedProblem_def published_def)
  have sh: "baseShape p ?sh K"
    using K by (simp add: baseShape_def shapeFor_def)
  obtain bcoi r' where b: "buildBaseCaseCoi p ?sh = Inr (bcoi, r')" "baseCoiOk p ?sh bcoi"
    using buildBase_total [OF p sh] by blast
  have T: "set (bc_targets bcoi ! g) \<subseteq> coiTargets coi" if "resetBootstrapFrames p \<le> g" "g < K" for g
  proof -
    have "\<exists>h < k. set (bc_targets bcoi ! g) \<subseteq> set (co_targets coi ! h)"
      by (rule baseTargets_within [OF pub(1) cache pub(2) coi b(2) _ forms reads]) (use K that in \<open>auto simp: shapeFor_def\<close>)
    moreover have "length (co_targets coi) = k"
      using buildInductionCoi_ok [OF pub(1) cache pub(2), of "Some property" "Some badness" k] coi by (auto simp: coiOk_def)
    ultimately show ?thesis unfolding coiTargets_def by fastforce
  qed
  have "baseWindow p ?sh K bcoi envs" by (rule hybrid_window [OF run b(2) T f forms bad])
  then show False using none b(1) by (auto simp: noWindow_def)
qed

section \<open>Cutting loops\<close>

text \<open>A loop after the reset prefix can be cut out: the frames that meet agree on the relevant symbols.\<close>

lemma cut_hybrid:
  assumes run: "hybridRun p T envs" and ij: "resetBootstrapFrames p < i" "i < j"
    and same: "\<And>t. t \<in> T \<Longrightarrow> envs i t = envs j t"
  shows "hybridRun p T (cutRun i j envs)"
proof -
  note h = run [unfolded hybridRun_def]
  have prefix: "cutRun i j envs f = envs f" if "f \<le> resetBootstrapFrames p" for f
    using that ij by (simp add: cutRun_def)
  have "startRun p (cutRun i j envs)"
    using h prefix unfolding startRun_def Let_def by auto
  moreover have "targetHolds (newResolver p) t (cutRun i j envs f) (cutRun i j envs (Suc f))"
    if t: "resolverContains t (newResolver p)" "f < resetBootstrapFrames p \<or> t \<in> T" for f t
  proof (cases "Suc f < i")
    case True
    then show ?thesis using h t by (auto simp: cutRun_def)
  next
    case False
    then have T: "t \<in> T" using t(2) ij(1) by auto
    show ?thesis
    proof (cases "Suc f = i")
      case True
      have "targetHolds (newResolver p) t (envs f) (envs (Suc f))" using h t(1) T by blast
      then show ?thesis using same [OF T] True ij by (auto simp: cutRun_def targetHolds_def)
    next
      case not: False
      have "targetHolds (newResolver p) t (envs (f + (j - i))) (envs (Suc (f + (j - i))))" using h t(1) T by blast
      then show ?thesis using False not by (simp add: cutRun_def)
    qed
  qed
  moreover have "resetOn UNIV p (cutRun i j envs f)" if "resetBootstrapFrames p \<le> f" for f
    using h that by (simp add: cutRun_def)
  ultimately show ?thesis using h by (simp add: hybridRun_def cutRun_def)
qed

text \<open>The start of a run with a complete initial state: its state symbols stay, its other symbols
  take the values at the end of the loop.\<close>

definition mixedEnv :: "var_id set \<Rightarrow> (var_id \<Rightarrow> bool) \<Rightarrow> (var_id \<Rightarrow> bool) \<Rightarrow> var_id \<Rightarrow> bool" where
  "mixedEnv S env env' x = (if x \<in> S then env x else env' x)"

definition mixedRun :: "var_id set \<Rightarrow> nat \<Rightarrow> (nat \<Rightarrow> var_id \<Rightarrow> bool) \<Rightarrow> nat \<Rightarrow> var_id \<Rightarrow> bool" where
  "mixedRun S j envs f = (if f = 0 then mixedEnv S (envs 0) (envs j) else envs (f + j))"

text \<open>State constraints speak of state symbols only.\<close>

definition stateClosed :: "problem \<Rightarrow> bool" where
  "stateClosed p =
    (let S = buildStateSymbolSet p in
     (\<forall>x \<in> S. 2 \<le> x) \<and>
     (\<forall>t. resolverContains t (newResolver p) \<longrightarrow> t \<in> set (combinedStateSymbols p)) \<and>
     fst ` set (pb_bootstrapStateAssignments p) \<subseteq> set (combinedStateSymbols p) \<and>
     (\<forall>(a, b) \<in> set (pb_complementedStatePairs0 p) \<union> set (pb_complementedStatePairs1 p) \<union>
        set (pb_sameFrameStateEqualityPairs0 p) \<union> set (pb_sameFrameStateEqualityPairs1 p). a \<in> S \<and> b \<in> S) \<and>
     (\<forall>rp \<in> set (pb_dualRailStatePairs p). railOne rp \<in> S \<and> railZero rp \<in> S) \<and>
     (if hasStructuredInitialAssignments p then fst ` set (pb_initialStateAssignments p) \<subseteq> S
      else \<forall>e \<in> set_option (pb_initialCondition p). support e \<subseteq> S))"

lemma mixed_relations:
  assumes "stateClosed p" "relationsOn UNIV p env"
  shows "relationsOn UNIV p (mixedEnv (buildStateSymbolSet p) env env')"
proof -
  let ?S = "buildStateSymbolSet p"
  have pairs: "a \<in> ?S \<and> b \<in> ?S" if "(a, b) \<in> set (pb_complementedStatePairs0 p) \<union> set (pb_complementedStatePairs1 p) \<union>
        set (pb_sameFrameStateEqualityPairs0 p) \<union> set (pb_sameFrameStateEqualityPairs1 p)" for a b
    using assms(1) that unfolding stateClosed_def Let_def by blast
  have rails: "railOne rp \<in> ?S \<and> railZero rp \<in> ?S" if "rp \<in> set (pb_dualRailStatePairs p)" for rp
    using assms(1) that unfolding stateClosed_def Let_def by blast
  show ?thesis
    using assms(2) pairs rails by (fastforce simp: relationsOn_def pairsOn_def equalOn_def railsOn_def mixedEnv_def)
qed

lemma mixed_initial:
  assumes "stateClosed p" "initialOn p UNIV CompleteInit env"
  shows "initialOn p UNIV CompleteInit (mixedEnv (buildStateSymbolSet p) env env')"
proof -
  let ?S = "buildStateSymbolSet p"
  have "assignsOn UNIV (pb_initialStateAssignments p) (mixedEnv ?S env env')"
    if "hasStructuredInitialAssignments p" "assignsOn UNIV (pb_initialStateAssignments p) env"
  proof -
    have "fst ` set (pb_initialStateAssignments p) \<subseteq> ?S" using assms(1) that(1) by (simp add: stateClosed_def Let_def)
    then show ?thesis using that(2) by (force simp: assignsOn_def mixedEnv_def)
  qed
  moreover have "eval (mixedEnv ?S env env') e = eval env e"
    if "\<not> hasStructuredInitialAssignments p" "pb_initialCondition p = Some e" for e
    by (rule eval_cong) (use assms(1) that in \<open>auto simp: stateClosed_def Let_def mixedEnv_def\<close>)
  ultimately show ?thesis using assms(2) by (auto simp: initialOn_def split: if_splits)
qed

lemma mixed_eval:
  assumes "support e \<inter> S \<subseteq> R" "\<And>x. x \<in> R \<Longrightarrow> env x = env' x"
  shows "eval (mixedEnv S env env') e = eval env' e"
  by (rule eval_cong) (use assms in \<open>auto simp: mixedEnv_def\<close>)

lemma mixed_hybrid:
  assumes closed: "stateClosed p" and b: "pb_resetBootstrapCycles p = 0" "determineInitialConstraintMode p = CompleteInit"
    and pub: "\<And>t. resolverContains t (newResolver p) \<Longrightarrow> published (newResolver p) t"
    and run: "hybridRun p T envs" and j: "0 < j"
    and same: "\<And>x. x \<in> R \<Longrightarrow> envs 0 x = envs j x"
    and T: "\<And>t. t \<in> T \<Longrightarrow> resolverContains t (newResolver p) \<Longrightarrow>
      coneReads (newResolver p) [t] \<inter> buildStateSymbolSet p \<subseteq> R"
  shows "hybridRun p T (mixedRun (buildStateSymbolSet p) j envs)"
proof -
  let ?S = "buildStateSymbolSet p" and ?root = "newResolver p"
  have b0: "resetBootstrapFrames p = 0" using b(1) by (simp add: resetBootstrapFrames_def)
  note h = run [unfolded hybridRun_def startRun_def b0 Let_def b(2)]
  have "targetHolds ?root t (mixedRun ?S j envs f) (mixedRun ?S j envs (Suc f))"
    if t: "resolverContains t ?root" "t \<in> T" for f t
  proof (cases f)
    case 0
    have "eval (mixedEnv ?S (envs 0) (envs j)) e = eval (envs j) e" if "resolvedTo ?root t e" for e
      by (rule mixed_eval [where R = R]) (use resolvedTo_cone [OF pub [OF t(1)] that, of "[t]"] T [OF t(2,1)] same in auto)
    moreover have "targetHolds ?root t (envs j) (envs (Suc j))" using h t by blast
    ultimately show ?thesis using 0 by (simp add: mixedRun_def targetHolds_def)
  next
    case (Suc g)
    have "targetHolds ?root t (envs (f + j)) (envs (Suc (f + j)))" using h t by blast
    then show ?thesis by (simp add: mixedRun_def Suc)
  qed
  moreover have "relationsOn UNIV p (mixedRun ?S j envs f)" for f
    using h mixed_relations [OF closed] by (simp add: mixedRun_def)
  moreover have "initialOn p UNIV CompleteInit (mixedRun ?S j envs 0)"
    using h mixed_initial [OF closed] by (simp add: mixedRun_def)
  ultimately show ?thesis by (simp add: hybridRun_def startRun_def b0 b(2) resetOn_def b(1))
qed

section \<open>Closing the induction\<close>

text \<open>The facts of a cone that the argument uses.\<close>

definition inductionCone :: "problem \<Rightarrow> bexpr \<Rightarrow> bexpr \<Rightarrow> nat \<Rightarrow> induction_coi \<Rightarrow> bool" where
  "inductionCone p property badness k coi =
    (coiOk (newResolver p) (Some property) (Some badness) k coi \<and>
     (\<forall>t \<in> coiTargets coi. resolverContains t (newResolver p) \<and> t \<in> set (co_relevant coi) \<and>
        coneReads (newResolver p) [t] \<inter> buildStateSymbolSet p \<subseteq> set (co_relevant coi)) \<and>
     support badness \<inter> buildStateSymbolSet p \<subseteq> set (co_relevant coi))"

lemma coiTargets_nth:
  assumes "length (co_targets coi) = k"
  shows "t \<in> coiTargets coi \<longleftrightarrow> (\<exists>f < k. t \<in> set (co_targets coi ! f))"
  using assms unfolding coiTargets_def by (fastforce simp: in_set_conv_nth [of _ "co_targets coi"])

lemma cone_facts:
  assumes p: "baseProblem p property badness" and cache: "inductionCacheOk ad p (newResolver p) c"
    and coi: "buildInductionCoi ad p (Some property) (Some badness) k c = Inr (coi, r, c')"
  shows "inductionCone p property badness k coi"
proof -
  let ?root = "newResolver p"
  have pub: "resolverInv ?root" "\<And>t. resolverContains t ?root \<Longrightarrow> \<exists>S. directSupport t ?root = Inr S"
    using p by (auto simp: baseProblem_def publishedProblem_def published_def)
  have ok: "coiOk ?root (Some property) (Some badness) k coi"
    using buildInductionCoi_ok [OF pub(1) cache pub(2), of "Some property" "Some badness" k] coi by auto
  have "resolverContains t ?root \<and> t \<in> set (co_relevant coi) \<and>
      coneReads ?root [t] \<inter> buildStateSymbolSet p \<subseteq> set (co_relevant coi)" if T: "t \<in> coiTargets coi" for t
  proof -
    obtain f where f: "f < k" "t \<in> set (co_targets coi ! f)"
      using T ok coiTargets_nth by (auto simp: coiOk_def)
    have "coneReads ?root [t] \<subseteq> coneReads ?root (co_targets coi ! f)" using f(2) by (auto simp: coneReads_def)
    then show ?thesis
      using inductionReads_relevant [OF pub(1) cache pub(2) coi f(1)] f ok
      by (auto simp: stateReads_def coiOk_def frameOk_def)
  qed
  moreover have "support badness \<inter> buildStateSymbolSet p \<subseteq> set (co_relevant coi)"
  proof -
    obtain required where r: "length required = Suc k"
      "set (co_relevant coi) = \<Union> (set required) \<union> \<Union> (set (map set (co_targets coi)))"
      "\<forall>m \<le> k. required ! (k - m) = problemLevel p (inductionSeeds p (Some property) (Some badness)) m"
      using inductionWalk [OF pub(1) cache pub(2) coi] by blast
    have "required ! k \<in> set required" using r(1) by simp
    moreover have "required ! k = problemLevel p (inductionSeeds p (Some property) (Some badness)) 0" using r(3) by auto
    moreover have "inductionSeeds p (Some property) (Some badness) 0
        \<subseteq> problemLevel p (inductionSeeds p (Some property) (Some badness)) 0"
      unfolding problemLevel_def by (simp add: closeSameFrame_mono)
    moreover have "support badness \<inter> buildStateSymbolSet p \<subseteq> inductionSeeds p (Some property) (Some badness) 0"
      by (auto simp: inductionSeeds_def addFormulaStateSupport_def support_def)
    ultimately show ?thesis using r(2) by blast
  qed
  ultimately show ?thesis using ok by (simp add: inductionCone_def)
qed

text \<open>A bad end after good frames holds a loop, since the step has no window.\<close>

lemma hybrid_loop:
  assumes cone: "inductionCone p property badness k coi" and run: "hybridRun p (coiTargets coi) envs"
    and a: "resetBootstrapFrames p \<le> a"
    and w: "\<And>f. f < k \<Longrightarrow> eval (envs (a + f)) property" "eval (envs (a + k)) badness"
    and none: "\<not> (\<exists>fs. inductionWindow p (newResolver p) coi property badness k fs)"
  shows "\<exists>i j. a \<le> i \<and> i < j \<and> j \<le> a + k \<and> agreesOn (co_relevant coi) (envs i) (envs j)"
proof -
  note h = run [unfolded hybridRun_def]
  have len: "length (co_targets coi) = k" using cone by (simp add: inductionCone_def coiOk_def)
  have "frameStep (newResolver p) coi f (envs (a + f)) (envs (a + Suc f))" if f: "f < k" for f
  proof -
    have "targetHolds (newResolver p) t (envs (a + f)) (envs (Suc (a + f)))" if t: "t \<in> set (co_targets coi ! f)" for t
    proof -
      have T: "t \<in> coiTargets coi" using f t coiTargets_nth [OF len] by blast
      moreover have "resolverContains t (newResolver p)" using cone T by (simp add: inductionCone_def)
      ultimately show ?thesis using h by blast
    qed
    then show ?thesis by (simp add: frameStep_def)
  qed
  moreover have "frameLegal (co_symbolSet coi) p (envs (a + f))" for f
  proof -
    have "relationsOn UNIV p (envs (a + f))" "resetOn UNIV p (envs (a + f))" using h a by auto
    then show ?thesis
      by (auto simp: frameLegal_def legalOn_def relationsOn_def pairsOn_def equalOn_def railsOn_def resetOn_def)
  qed
  moreover have "\<not> inductionWindow p (newResolver p) coi property badness k (\<lambda>f. envs (a + f))" using none by blast
  ultimately obtain i j where "j < k + 1" "i < j" "agreesOn (co_relevant coi) (envs (a + i)) (envs (a + j))"
    using w unfolding inductionWindow_def agreesOn_def by blast
  moreover from this have "a \<le> a + i" "a + i < a + j" "a + j \<le> a + k" by simp_all
  ultimately show ?thesis by blast
qed

text \<open>The checked prefix either reaches past the frame where the step starts, or starts at a
  complete initial state.\<close>

definition startsCleanly :: "problem \<Rightarrow> nat \<Rightarrow> nat \<Rightarrow> bool" where
  "startsCleanly p k e = (resetBootstrapFrames p + k \<le> e \<or>
     pb_resetBootstrapCycles p = 0 \<and> determineInitialConstraintMode p = CompleteInit \<and> k \<le> Suc e)"

lemma induction_hybrid:
  assumes closed: "stateClosed p" and pub: "\<And>t. resolverContains t (newResolver p) \<Longrightarrow> published (newResolver p) t"
    and pf: "pb_property p = Some property"
    and cone: "inductionCone p property badness k coi"
    and none: "\<not> (\<exists>fs. inductionWindow p (newResolver p) coi property badness k fs)"
    and good: "\<And>env. \<not> eval env badness \<Longrightarrow> eval env property"
    and clean: "startsCleanly p k e"
    and base: "\<And>es f. hybridRun p (coiTargets coi) es \<Longrightarrow> firstChecked p \<le> f \<Longrightarrow> f \<le> e \<Longrightarrow> \<not> eval (es f) badness"
    and run: "hybridRun p (coiTargets coi) envs" "firstChecked p \<le> n"
  shows "\<not> eval (envs n) badness"
  using run
proof (induction n arbitrary: envs rule: less_induct)
  case (less n)
  let ?b = "resetBootstrapFrames p" and ?R = "set (co_relevant coi)" and ?S = "buildStateSymbolSet p"
  show ?case
  proof
    assume bad: "eval (envs n) badness"
    have n: "e < n" using base [OF less.prems] bad by (meson not_less)
    have kn: "?b \<le> n - k" "n - k + k = n"
    proof -
      have "?b + k \<le> n"
        using clean n by (auto simp: startsCleanly_def resetBootstrapFrames_def)
      then show "?b \<le> n - k" "n - k + k = n" by simp_all
    qed
    have p: "eval (envs (n - k + f)) property" if f: "f < k" for f
    proof (cases "firstChecked p \<le> n - k + f")
      case True
      then show ?thesis using good less.IH [OF _ less.prems(1) True] f kn(2) by simp
    next
      case False
      then have g: "n - k + f = ?b" "firstChecked p = ?b + 1" using kn(1) firstChecked_range(2) [of p] by simp_all
      have "eval (envs ?b) (the (pb_property p))"
        using less.prems(1) g(2) by (auto simp: hybridRun_def startRun_def firstChecked_def initialOn_def Let_def split: if_splits)
      then show ?thesis by (simp add: g(1) pf)
    qed
    have b: "eval (envs (n - k + k)) badness" using bad by (simp only: kn)
    obtain i j where ij: "n - k \<le> i" "i < j" "j \<le> n" "agreesOn (co_relevant coi) (envs i) (envs j)"
      using hybrid_loop [OF cone less.prems(1) kn(1) p b none] unfolding kn(2) by blast
    have same: "\<And>x. x \<in> ?R \<Longrightarrow> envs i x = envs j x" using ij(4) by (simp add: agreesOn_def)
    have T: "\<And>t. t \<in> coiTargets coi \<Longrightarrow> t \<in> ?R" using cone by (simp add: inductionCone_def)
    show False
    proof (cases "?b < i")
      case True
      let ?cut = "cutRun i j envs" and ?m = "n - (j - i)"
      have m: "\<not> ?m < i" "?m + (j - i) = n" "?m < n" using ij(2,3) by linarith+
      have "hybridRun p (coiTargets coi) ?cut"
        by (rule cut_hybrid [OF less.prems(1) True ij(2)]) (rule same [OF T])
      moreover have "firstChecked p \<le> ?m" using firstChecked_range(2) [of p] True m(1) by simp
      moreover have "?cut ?m = envs n" using m by (simp only: cutRun_def if_False)
      ultimately show False using less.IH [OF m(3)] bad by metis
    next
      case False
      have "\<not> ?b + k \<le> e" using False ij(1) n by simp
      then have c: "pb_resetBootstrapCycles p = 0" "determineInitialConstraintMode p = CompleteInit"
        using clean by (simp_all add: startsCleanly_def)
      have b0: "?b = 0" "firstChecked p = 0" using c by (simp_all add: resetBootstrapFrames_def firstChecked_def)
      have i: "i = 0" using False b0 by simp
      let ?cut = "mixedRun ?S j envs"
      have j: "0 < j" "n - j < n" using ij i by simp_all
      have hyb: "hybridRun p (coiTargets coi) ?cut"
        by (rule mixed_hybrid [OF closed c pub less.prems(1) j(1), where R = ?R])
          (use same i cone in \<open>auto simp: inductionCone_def\<close>)
      have "eval (?cut (n - j)) badness"
      proof (cases "n - j = 0")
        case True
        then have "envs j = envs n" using ij(3) by simp
        moreover have "eval (mixedEnv ?S (envs 0) (envs j)) badness = eval (envs j) badness"
          by (rule mixed_eval [where R = ?R]) (use same i cone in \<open>auto simp: inductionCone_def\<close>)
        ultimately show ?thesis using bad True by (simp add: mixedRun_def)
      next
        case False
        then show ?thesis using bad ij(3) by (simp add: mixedRun_def)
      qed
      then show False using less.IH [OF j(2) hyb] b0(2) by simp
    qed
  qed
qed

end
