(* ===== verification/KI_Engine_Correct.thy ===== *)
theory KI_Engine_Correct
  imports KI_Run
begin

text \<open>
  The k-induction loop on one problem without rails, over a sound and complete back end: it always
  returns, a difference comes with the witness of a window of the base query, equivalence means that
  no run of the problem reaches a bad frame, and an undecided run without a decision limit has
  checked its whole prefix.
\<close>

section \<open>What the base queries of the loop say\<close>

definition frontierSafe :: "problem \<Rightarrow> nat \<Rightarrow> bool" where
  "frontierSafe p k = (firstChecked p \<le> k + resetBootstrapFrames p \<longrightarrow>
     noWindow p (k + resetBootstrapFrames p) (k + resetBootstrapFrames p))"

definition prefixSafe :: "problem \<Rightarrow> nat \<Rightarrow> bool" where
  "prefixSafe p k = (firstChecked p \<le> k + resetBootstrapFrames p \<longrightarrow>
     noWindow p (firstChecked p) (k + resetBootstrapFrames p))"

text \<open>The witness of a window of a base query of the problem.\<close>

definition confirmed :: "problem \<Rightarrow> cex_witness \<Rightarrow> bool" where
  "confirmed p c = (\<exists>first K coi r envs. firstChecked p \<le> first \<and> first \<le> K \<and>
     buildBaseCaseCoi p (shapeFor p first K) = Inr (coi, r) \<and> baseWindow p (shapeFor p first K) K coi envs \<and>
     witnessOf p (shapeFor p first K) K (bc_symbolSet coi) envs c)"

lemma confirmedI:
  assumes "firstChecked p \<le> first" "first \<le> K" "buildBaseCaseCoi p (shapeFor p first K) = Inr (coi, r)"
    and "\<exists>envs. baseWindow p (shapeFor p first K) K coi envs \<and> witnessOf p (shapeFor p first K) K (bc_symbolSet coi) envs c"
  shows "confirmed p c"
  using assms unfolding confirmed_def by blast

definition directFrontier :: "problem \<Rightarrow> solver_type \<Rightarrow> bool" where
  "directFrontier p t = (length (pb_observedOutputExprs0 p) \<le> 1 \<or>
     length (pb_observedOutputExprs0 p) \<noteq> length (pb_observedOutputExprs1 p) \<or>
     t = KISSAT \<and> length (pb_observedOutputExprs0 p) \<le> kMaxImcAssumptionFrontierBatchOutputs)"

lemma frontier_direct:
  assumes "directFrontier p t"
  shows "findKInductionBaseCounterexampleAtFrontier B (makeImcBaseCounterexampleCache p) t k =
    bindE (findImcCachedBaseCounterexampleAtFrontierQuery B (makeImcBaseCounterexampleCache p) t k SecConeProfile) (\<lambda>(w, _). Inr w)"
  using assms unfolding findKInductionBaseCounterexampleAtFrontier_def
  by (subst findImcBaseCounterexampleAtFrontierImpl.simps) (auto simp: directFrontier_def Let_def)

lemma frontier_ok:
  assumes B: "soundBackend B" "completeBackend B" and p: "baseProblem p property badness"
    and rails: "\<not> pb_usesDualRailStateEncoding p" and direct: "directFrontier p t"
  shows "\<exists>w. findKInductionBaseCounterexampleAtFrontier B (makeImcBaseCounterexampleCache p) t k = Inr w \<and>
    (w = None \<longrightarrow> frontierSafe p k) \<and> (\<forall>c. w = Some c \<longrightarrow> confirmed p c)"
proof (cases "k + resetBootstrapFrames p < firstChecked p")
  case True
  then have "findImcCachedBaseCounterexampleAtFrontierQuery B (makeImcBaseCounterexampleCache p) t k SecConeProfile = Inr (None, Unsat)"
    by (simp add: findImcCachedBaseCounterexampleAtFrontierQuery_def shape_frontier)
  then show ?thesis using True by (simp add: frontier_direct [OF direct] frontierSafe_def)
next
  case False
  let ?K = "k + resetBootstrapFrames p"
  let ?sh = "shapeFor p ?K ?K"
  have s: "baseShapeOf p k (Some k) = Some (?sh, ?K)" using False by (simp add: shape_frontier)
  obtain coi r st w where q: "buildBaseCaseCoi p ?sh = Inr (coi, r)"
    "findImcCachedBaseCounterexampleAtFrontierQuery B (makeImcBaseCounterexampleCache p) t k SecConeProfile = Inr (w, st)"
    "answers p ?sh ?K coi st" "w \<noteq> None \<longleftrightarrow> st = Sat"
    "\<forall>c. w = Some c \<longrightarrow> (\<exists>envs. baseWindow p ?sh ?K coi envs \<and> witnessOf p ?sh ?K (bc_symbolSet coi) envs c)" "st \<noteq> Unknown"
    using cachedQuery_ok [OF B(1) p rails s, of SecConeProfile t] B(2) by auto
  have "frontierSafe p k" if "w = None"
  proof -
    have "st = Unsat" using q(4,6) that by (cases st) auto
    then show ?thesis using q(1,3) by (simp add: frontierSafe_def noWindow_def answers_def)
  qed
  moreover have "confirmed p c" if "w = Some c" for c
    using confirmedI [OF _ order_refl q(1)] q(5) that False by simp
  ultimately show ?thesis by (simp add: frontier_direct [OF direct] q(2))
qed

lemma prefix_ok:
  assumes B: "soundBackend B" "completeBackend B" and p: "baseProblem p property badness"
  shows "\<exists>w. findBaseCounterexample B p t k = Inr w \<and> (w = None \<longrightarrow> prefixSafe p k) \<and> (\<forall>c. w = Some c \<longrightarrow> confirmed p c)"
proof (cases "k + resetBootstrapFrames p < firstChecked p")
  case True
  then show ?thesis
    by (simp add: findBaseCounterexample_def findBaseCounterexampleImpl_def baseQuery_def shape_prefix prefixSafe_def)
next
  case False
  let ?K = "k + resetBootstrapFrames p"
  let ?sh = "shapeFor p (firstChecked p) ?K"
  have s: "baseShapeOf p k None = Some (?sh, ?K)" using False by (simp add: shape_prefix)
  obtain coi r st w where q: "buildBaseCaseCoi p ?sh = Inr (coi, r)" "baseQuery B p t k None SecConeProfile = Inr (w, st)"
    "answers p ?sh ?K coi st" "w \<noteq> None \<longleftrightarrow> st = Sat"
    "\<forall>c. w = Some c \<longrightarrow> (\<exists>envs. baseWindow p ?sh ?K coi envs \<and> witnessOf p ?sh ?K (bc_symbolSet coi) envs c)" "st \<noteq> Unknown"
    using baseQuery_ok [OF B(1) p s, of t SecConeProfile] B(2) by auto
  have "prefixSafe p k" if "w = None"
  proof -
    have "st = Unsat" using q(4,6) that by (cases st) auto
    then show ?thesis using q(1,3) by (simp add: prefixSafe_def noWindow_def answers_def)
  qed
  moreover have "confirmed p c" if "w = Some c" for c
    using confirmedI [OF order_refl _ q(1)] q(5) that False by simp
  ultimately show ?thesis by (simp add: findBaseCounterexample_def findBaseCounterexampleImpl_def q(2))
qed

lemma prefix_zero: "prefixSafe p 0 \<Longrightarrow> frontierSafe p 0"
  using firstChecked_range(1) [of p] by (auto simp: prefixSafe_def frontierSafe_def)

section \<open>What a result says\<close>

definition safeProblem :: "problem \<Rightarrow> bexpr \<Rightarrow> bool" where
  "safeProblem p badness = (\<forall>envs n. problemRun p envs \<longrightarrow> firstChecked p \<le> n \<longrightarrow> \<not> eval (envs n) badness)"

text \<open>Where the accepted proof needs no validation, the startup must leave no frame unchecked.\<close>

definition soundlyStarted :: "problem \<Rightarrow> bexpr \<Rightarrow> bexpr \<Rightarrow> bool" where
  "soundlyStarted p property badness =
    (stateClosed p \<and> support badness \<subseteq> support property \<and> (\<forall>env. \<not> eval env badness \<longrightarrow> eval env property) \<and>
     (proofNeedsConcreteFrontierValidation p \<or> firstChecked p = 0))"

definition resultMeans :: "problem \<Rightarrow> bexpr \<Rightarrow> bexpr \<Rightarrow> bool \<Rightarrow> nat \<Rightarrow> ki_result \<Rightarrow> bool" where
  "resultMeans p property badness limited maxK r =
    ((kr_status r = Different \<longrightarrow> (\<exists>c. kr_witness r = Some c \<and> kr_bound r = cw_badFrame c \<and> confirmed p c)) \<and>
     (kr_status r = Equivalent \<longrightarrow> soundlyStarted p property badness \<longrightarrow> safeProblem p badness) \<and>
     (kr_status r = Inconclusive \<longrightarrow> kr_bound r \<le> maxK \<and> (\<not> limited \<longrightarrow> kr_bound r = maxK \<and> prefixSafe p maxK)))"

lemma different_means: "confirmed p c \<Longrightarrow> resultMeans p property badness limited maxK (kiDifferent c)"
  by (simp add: resultMeans_def kiDifferent_def)

lemma validated_safe:
  assumes p: "baseProblem p property badness" and cache: "inductionCacheOk ad p (newResolver p) c"
    and coi: "buildInductionCoi ad p (Some property) (Some badness) k c = Inr (coi, r, c')"
    and none: "\<not> (\<exists>fs. inductionWindow p (newResolver p) coi property badness k fs)"
    and started: "soundlyStarted p property badness"
    and base: "proofNeedsConcreteFrontierValidation p \<longrightarrow> prefixSafe p k" "\<forall>m < k. frontierSafe p m"
    and k: "0 < k" and state: "combinedStateSymbols p \<noteq> []"
  shows "safeProblem p badness"
proof -
  let ?b = "resetBootstrapFrames p"
  have sup: "support badness \<subseteq> support property" and good: "\<And>env. \<not> eval env badness \<Longrightarrow> eval env property"
    and closed: "stateClosed p" and validated: "proofNeedsConcreteFrontierValidation p \<or> firstChecked p = 0"
    using started by (auto simp: soundlyStarted_def)
  have reads: "vars badness \<inter> buildStateSymbolSet p \<subseteq> vars property"
    using sup closed by (auto simp: support_def stateClosed_def Let_def)
  have pub: "\<And>t. resolverContains t (newResolver p) \<Longrightarrow> published (newResolver p) t" and pf: "pb_property p = Some property"
    using p by (simp_all add: baseProblem_def publishedProblem_def)
  note cone = cone_facts [OF p cache coi]
  have "\<exists>e. startsCleanly p k e \<and> (\<forall>es f. hybridRun p (coiTargets coi) es \<longrightarrow> firstChecked p \<le> f \<longrightarrow> f \<le> e \<longrightarrow> \<not> eval (es f) badness)"
  proof (cases "proofNeedsConcreteFrontierValidation p")
    case True
    have "\<not> eval (es f) badness" if "hybridRun p (coiTargets coi) es" "firstChecked p \<le> f" "f \<le> ?b + k" for es f
    proof (rule noWindow_run [OF p cache coi reads _ firstChecked_range(1) _ _ that(1,2)])
      show "noWindow p (firstChecked p) (?b + k)" using base(1) True that(2,3) by (simp add: prefixSafe_def add.commute)
    qed (use that in auto)
    then show ?thesis by (intro exI [of _ "?b + k"]) (simp add: startsCleanly_def)
  next
    case False
    then have c: "pb_resetBootstrapCycles p = 0" "firstChecked p = 0" using validated by (simp_all add: proofNeedsConcreteFrontierValidation_def)
    then have b0: "?b = 0" by (simp add: resetBootstrapFrames_def)
    have mode: "determineInitialConstraintMode p = CompleteInit"
      using c(2) b0 state by (auto simp: firstChecked_def determineInitialConstraintMode_def combinedStateSymbols_empty Let_def split: if_splits)
    have "\<not> eval (es f) badness" if "hybridRun p (coiTargets coi) es" "f < k" for es f
    proof (rule noWindow_run [OF p cache coi reads _ _ order_refl _ that(1) order_refl order_refl])
      show "noWindow p f f" using base(2) that(2) c(2) b0 by (simp add: frontierSafe_def)
    qed (use that(2) b0 in auto)
    then show ?thesis using c(1) mode k by (intro exI [of _ "k - 1"]) (auto simp: startsCleanly_def)
  qed
  then obtain e where e: "startsCleanly p k e"
    "\<And>es f. hybridRun p (coiTargets coi) es \<Longrightarrow> firstChecked p \<le> f \<Longrightarrow> f \<le> e \<Longrightarrow> \<not> eval (es f) badness" by blast
  have "\<not> eval (envs n) badness" if "problemRun p envs" "firstChecked p \<le> n" for envs n
    by (rule induction_hybrid [where envs = envs and e = e, OF closed pub pf cone none good e(1) _ problem_hybrid [OF that(1)] that(2)]) (assumption | rule e(2))+
  then show ?thesis by (simp add: safeProblem_def)
qed

text \<open>A problem without state is decided by its first checked frame.\<close>

lemma stateless_safe:
  assumes p: "baseProblem p property badness" and rails: "\<not> pb_usesDualRailStateEncoding p"
    and closed: "stateClosed p" and state: "combinedStateSymbols p = []" and base: "prefixSafe p 0"
  shows "safeProblem p badness"
proof -
  let ?b = "resetBootstrapFrames p"
  have seq: "\<not> hasSequentialState p" using state combinedStateSymbols_empty by blast
  have first: "firstChecked p = ?b" and mode: "determineInitialConstraintMode p = NoInit"
    using seq by (simp_all add: firstChecked_def determineInitialConstraintMode_def usesResetBootstrapObservationFrontier_def Let_def)
  have none: "\<not> resolverContains t (newResolver p)" for t using closed state by (simp add: stateClosed_def Let_def)
  have boot: "pb_bootstrapStateAssignments p = []" using closed state by (simp add: stateClosed_def Let_def)
  obtain bcoi r where b: "buildBaseCaseCoi p (shapeFor p ?b ?b) = Inr (bcoi, r)" "baseCoiOk p (shapeFor p ?b ?b) bcoi"
    using buildBase_total [OF p, of "shapeFor p ?b ?b" ?b] by (auto simp: baseShape_def shapeFor_def)
  have safe: "noWindow p ?b ?b" using base first by (simp add: prefixSafe_def)
  have "\<not> eval (envs n) badness" if run: "problemRun p envs" and n: "?b \<le> n" for envs n
  proof
    assume bad: "eval (envs n) badness"
    let ?es = "\<lambda>f. if f < ?b then envs f else envs n"
    note h = run [unfolded problemRun_def startRun_def Let_def]
    have "hybridRun p UNIV ?es"
      using h none n seq rails mode boot
      by (auto simp: hybridRun_def startRun_def Let_def initialOn_def assignsOn_def usesResetBootstrapObservationFrontier_def)
    moreover have "pb_bad p = Some badness" using p by (simp add: baseProblem_def)
    ultimately have "baseWindow p (shapeFor p ?b ?b) ?b bcoi ?es"
      using hybrid_window [of p UNIV ?es ?b ?b bcoi ?b ?b badness] b(2) bad by simp
    then show False using safe b(1) by (simp add: noWindow_def)
  qed
  then show ?thesis by (simp add: safeProblem_def first)
qed

section \<open>The loop\<close>

lemma validate_binary:
  assumes "soundBackend B" "completeBackend B" "baseProblem p property badness" "\<not> pb_usesDualRailStateEncoding p"
  shows "\<exists>v. validateConcreteBasePrefix B p t k = Inr v \<and> (v = None \<longrightarrow> prefixSafe p k) \<and>
    (\<forall>r. v = Some r \<longrightarrow> (\<exists>c. r = kiDifferent c \<and> confirmed p c))"
proof -
  obtain w where w: "findBaseCounterexample B p t k = Inr w" "w = None \<longrightarrow> prefixSafe p k" "\<forall>c. w = Some c \<longrightarrow> confirmed p c"
    using prefix_ok [OF assms(1-3), of t k] by blast
  have "validateConcreteBasePrefix B p t k = Inr (map_option kiDifferent w)"
    using assms(4) w(1) by (simp add: validateConcreteBasePrefix_def)
  then show ?thesis using w(2,3) by (cases w) auto
qed

lemma inductionLoop_ok:
  assumes B: "soundBackend B" "completeBackend B" and p: "baseProblem p property badness"
    and forms: "inductionPropertyOf p = Some property" "inductionBadOf p = Some badness"
    and rails: "\<not> pb_usesDualRailStateEncoding p" "\<not> pb_deferBaseCaseChecks p" and direct: "directFrontier p t"
    and state: "combinedStateSymbols p \<noteq> []"
  shows "0 < k \<Longrightarrow> \<forall>m < k. frontierSafe p m \<Longrightarrow> inductionCacheOk ad p (newResolver p) cache \<Longrightarrow>
    \<exists>r c'. inductionLoop B getenv ad p t maxK k limited cache = Inr (r, c') \<and> inductionCacheOk ad p (newResolver p) c' \<and>
      resultMeans p property badness (batchedInductionDecisionLimit getenv p t \<noteq> None) maxK r"
proof (induction "Suc maxK - k" arbitrary: k limited cache rule: less_induct)
  case less
  let ?root = "newResolver p" and ?limit = "batchedInductionDecisionLimit getenv p t"
  have local: "shouldCheckLocalBaseCase p" using rails(2) by (simp add: shouldCheckLocalBaseCase_def)
  have pub: "publishedProblem p" using p by (simp add: baseProblem_def)
  show ?case
  proof (cases "k \<le> maxK")
    case False
    obtain v where v: "validateConcreteBasePrefix B p t maxK = Inr v" "v = None \<longrightarrow> prefixSafe p maxK"
      "\<forall>r. v = Some r \<longrightarrow> (\<exists>c. r = kiDifferent c \<and> confirmed p c)"
      using validate_binary [OF B p rails(1), of t maxK] by blast
    have "inductionLoop B getenv ad p t maxK k limited cache =
        Inr (case v of Some r \<Rightarrow> r | None \<Rightarrow> kiResult Inconclusive maxK, cache)"
      using False local v(1) by (subst inductionLoop.simps) simp
    moreover have "resultMeans p property badness (?limit \<noteq> None) maxK (case v of Some r \<Rightarrow> r | None \<Rightarrow> kiResult Inconclusive maxK)"
    proof (cases v)
      case None
      then show ?thesis using v(2) by (simp add: resultMeans_def kiResult_def)
    next
      case (Some r)
      then show ?thesis using v(3) different_means by auto
    qed
    ultimately show ?thesis using less.prems(3) by blast
  next
    case True
    obtain coi r c' st where ind: "buildInductionCoi ad p (Some property) (Some badness) k cache = Inr (coi, r, c')"
      "inductionCacheOk ad p ?root c'" "proveByInductionStatus B ad p t k ?limit cache = Inr (st, c')"
      "statusMeans st (\<exists>envs. inductionWindow p ?root coi property badness k envs)"
      "?limit = None \<longrightarrow> completeBackend B \<longrightarrow> st \<noteq> InductionUnknown"
      using proveByInduction_ok [OF B(1) pub less.prems(3) forms, of k t ?limit]
      by (elim exE conjE) (rule that; assumption)
    note step = inductionLoop.simps [of B getenv ad p t maxK k limited cache]
    show ?thesis
    proof (cases st)
      case Proved
      have none: "\<not> (\<exists>fs. inductionWindow p ?root coi property badness k fs)" using ind(4) Proved by (simp add: statusMeans_def)
      obtain v where v: "validateConcreteBasePrefix B p t k = Inr v" "v = None \<longrightarrow> prefixSafe p k"
        "\<forall>r. v = Some r \<longrightarrow> (\<exists>c. r = kiDifferent c \<and> confirmed p c)"
        using validate_binary [OF B p rails(1), of t k] by blast
      let ?r = "if proofNeedsConcreteFrontierValidation p then case v of Some r \<Rightarrow> r | None \<Rightarrow> kiResult Equivalent k else kiResult Equivalent k"
      have "acceptProof B p t k = Inr ?r"
        using local v(1) by (cases v) (simp_all add: acceptProof_def)
      then have run: "inductionLoop B getenv ad p t maxK k limited cache = Inr (?r, c')"
        using True ind(3) Proved by (simp add: step stepOutcome_def)
      have safe: "safeProblem p badness" if "soundlyStarted p property badness" "proofNeedsConcreteFrontierValidation p \<longrightarrow> v = None"
        by (rule validated_safe [OF p less.prems(3) ind(1) none that(1) _ less.prems(2,1) state]) (use v(2) that(2) in blast)
      have "resultMeans p property badness (?limit \<noteq> None) maxK ?r"
      proof (cases "proofNeedsConcreteFrontierValidation p \<and> v \<noteq> None")
        case True
        then show ?thesis using v(3) different_means by auto
      next
        case False
        then have "?r = kiResult Equivalent k" by auto
        then show ?thesis using safe False by (auto simp: resultMeans_def kiResult_def)
      qed
      then show ?thesis using run ind(2) by blast
    next
      case NotProved
      obtain w where w: "findKInductionBaseCounterexampleAtFrontier B (makeImcBaseCounterexampleCache p) t k = Inr w"
        "w = None \<longrightarrow> frontierSafe p k" "\<forall>c. w = Some c \<longrightarrow> confirmed p c"
        using frontier_ok [OF B p rails(1) direct, of k] by blast
      have run: "inductionLoop B getenv ad p t maxK k limited cache =
          (case w of Some c \<Rightarrow> Inr (kiDifferent c, c') | None \<Rightarrow> inductionLoop B getenv ad p t maxK (k + 1) 0 c')"
        using True ind(3) NotProved local w(1) by (simp add: step stepOutcome_def split: option.splits)
      show ?thesis
      proof (cases w)
        case None
        have "Suc maxK - (k + 1) < Suc maxK - k" using True by simp
        moreover have "\<forall>m < k + 1. frontierSafe p m" using less.prems(2) w(2) None less_Suc_eq by auto
        ultimately show ?thesis using less.hyps [of "k + 1" c' 0] ind(2) run None by simp
      next
        case (Some c)
        then show ?thesis using run w(3) ind(2) different_means by fastforce
      qed
    next
      case InductionUnknown
      then have "inductionLoop B getenv ad p t maxK k limited cache = Inr (kiResult Inconclusive k, c')"
        using True ind(3) rails(1) by (simp add: step stepOutcome_def Let_def)
      moreover have "?limit \<noteq> None" using ind(5) B(2) InductionUnknown by blast
      ultimately show ?thesis using ind(2) True by (simp add: resultMeans_def kiResult_def)
    qed
  qed
qed

lemma monolithic_ok:
  assumes B: "soundBackend B" "completeBackend B" and p: "baseProblem p property badness"
    and forms: "inductionPropertyOf p = Some property" "inductionBadOf p = Some badness"
    and rails: "\<not> pb_usesDualRailStateEncoding p" "\<not> pb_deferBaseCaseChecks p" and direct: "directFrontier p t"
    and cache: "inductionCacheOk ad p (newResolver p) cache"
  shows "\<exists>r c'. runMonolithicKInduction B getenv ad p t maxK cache = Inr (r, c') \<and> inductionCacheOk ad p (newResolver p) c' \<and>
    resultMeans p property badness (batchedInductionDecisionLimit getenv p t \<noteq> None) maxK r"
proof -
  have local: "shouldCheckLocalBaseCase p" using rails(2) by (simp add: shouldCheckLocalBaseCase_def)
  obtain w where w: "findBaseCounterexample B p t 0 = Inr w" "w = None \<longrightarrow> prefixSafe p 0" "\<forall>c. w = Some c \<longrightarrow> confirmed p c"
    using prefix_ok [OF B p, of t 0] by blast
  show ?thesis
  proof (cases w)
    case (Some c)
    then show ?thesis using w(1,3) local cache different_means by (simp add: runMonolithicKInduction_def)
  next
    case None
    show ?thesis
    proof (cases "combinedStateSymbols p = []")
      case True
      have "resultMeans p property badness limited maxK (kiResult Equivalent 0)" for limited
        using stateless_safe [OF p rails(1) _ True] w(2) None by (auto simp: resultMeans_def kiResult_def soundlyStarted_def)
      then show ?thesis using w(1) local None True cache by (simp add: runMonolithicKInduction_def)
    next
      case False
      have "\<forall>m < 1. frontierSafe p m" using w(2) None prefix_zero by simp
      from inductionLoop_ok [OF B p forms rails direct False _ this cache, of getenv maxK 0]
      show ?thesis using w(1) local None False by (simp add: runMonolithicKInduction_def)
    qed
  qed
qed

end
