(* ===== verification/KI_Batch.thy ===== *)
theory KI_Batch
  imports KI_Engine_Correct
begin

text \<open>
  The engine on problems without rails: ranges of outputs are problems over the same design, a run
  of the whole problem is a run of every range, and the ranges cover all outputs.
\<close>

section \<open>The problem of a range\<close>

lemma simplify_support: "support (simplify e) \<subseteq> support e"
proof -
  let ?P = "\<lambda>n v. support v \<subseteq> support n"
  have "memoAgrees ?P (simplifyNode n memo)" if *: "memoAgrees ?P memo" for n memo
  proof -
    have child: "support (memoOr memo c) \<subseteq> support c" for c by (rule memoOr_agrees [OF *]) simp
    have "support (simplifyNot a) \<subseteq> support a" for a by (cases a) (auto simp: simplifyNot_def)
    moreover have "support (simplifyAnd a b) \<subseteq> support a \<union> support b" "support (simplifyOr a b) \<subseteq> support a \<union> support b"
      "support (simplifyXor a b) \<subseteq> support a \<union> support b" for a b
      using support_mkAnd [of a b] support_mkOr [of a b] support_mkXor [of a b]
      by (auto simp: simplifyAnd_def simplifyOr_def simplifyXor_def)
    ultimately have "support v \<subseteq> support n" if "simplifyNode n memo n = Some v" for v
      using that by (cases n) (auto, (use child in blast)+)
    moreover have "m \<noteq> n \<Longrightarrow> simplifyNode n memo m = memo m" for m by (cases n) auto
    ultimately show ?thesis using * unfolding memoAgrees_def by metis
  qed
  then show ?thesis using simplify_ind [of ?P] by simp
qed

abbreviation rangeProblem :: "problem \<Rightarrow> nat \<Rightarrow> nat \<Rightarrow> problem" where
  "rangeProblem p f e \<equiv> configureOutputBatchProblem p p f e"

text \<open>What a range keeps of the design.\<close>

lemma range_fields [simp]:
  "pb_lazyTransitions (rangeProblem p f e) = pb_lazyTransitions p"
  "pb_usesDualRailStateEncoding (rangeProblem p f e) = pb_usesDualRailStateEncoding p"
  "pb_deferBaseCaseChecks (rangeProblem p f e) = pb_deferBaseCaseChecks p"
  "pb_observedOutputExprs0 (rangeProblem p f e) = slice f e (pb_observedOutputExprs0 p)"
  "buildStateSymbolSet (rangeProblem p f e) = buildStateSymbolSet p"
  "combinedStateSymbols (rangeProblem p f e) = combinedStateSymbols p"
  "resetBootstrapFrames (rangeProblem p f e) = resetBootstrapFrames p"
  "determineInitialConstraintMode (rangeProblem p f e) = determineInitialConstraintMode p"
  "hasStructuredInitialAssignments (rangeProblem p f e) = hasStructuredInitialAssignments p"
  "pb_initialCondition (rangeProblem p f e) = pb_initialCondition p"
  "pb_initialStateAssignments (rangeProblem p f e) = pb_initialStateAssignments p"
  "pb_bootstrapStateAssignments (rangeProblem p f e) = pb_bootstrapStateAssignments p"
  "pb_resetBootstrapInputs (rangeProblem p f e) = pb_resetBootstrapInputs p"
  "relationsOn Q (rangeProblem p f e) env = relationsOn Q p env"
  "resetOn Q (rangeProblem p f e) env = resetOn Q p env"
  "proofNeedsConcreteFrontierValidation (rangeProblem p f e)"
  by (simp_all add: configureOutputBatchProblem_def Let_def buildStateSymbolSet_def combinedStateSymbols_def resetBootstrapFrames_def
      determineInitialConstraintMode_def hasSequentialState_def hasCompleteInitialState_def hasExplicitInitialState_def
      hasResetBootstrap_def hasStructuredInitialAssignments_def relationsOn_def resetOn_def proofNeedsConcreteFrontierValidation_def)

lemma range_frontier: "pb_property p \<noteq> None \<Longrightarrow>
    usesResetBootstrapObservationFrontier (rangeProblem p f e) = usesResetBootstrapObservationFrontier p"
  by (auto simp: configureOutputBatchProblem_def Let_def usesResetBootstrapObservationFrontier_def hasSequentialState_def
      hasResetBootstrap_def hasCompleteBootstrapStateAssignments_def effectiveTotalStateCount_def)

lemma range_checked: "pb_property p \<noteq> None \<Longrightarrow> firstChecked (rangeProblem p f e) = firstChecked p"
  using range_frontier by (simp add: firstChecked_def)

lemma range_resolver: "newResolver (rangeProblem p f e) = (newResolver p)\<lparr> tr_problem := rangeProblem p f e \<rparr>"
  by (simp add: newResolver_def configureOutputBatchProblem_def Let_def)

lemma range_resolver_simps [simp]:
  "tr_eager (newResolver (rangeProblem p f e)) = tr_eager (newResolver p)"
  "resolverContains t (newResolver (rangeProblem p f e)) = resolverContains t (newResolver p)"
  "resolvedTo (newResolver (rangeProblem p f e)) t = resolvedTo (newResolver p) t"
  "directSupport t (newResolver (rangeProblem p f e)) = directSupport t (newResolver p)"
proof -
  show eager: "tr_eager (newResolver (rangeProblem p f e)) = tr_eager (newResolver p)" by (simp add: range_resolver)
  show "resolverContains t (newResolver (rangeProblem p f e)) = resolverContains t (newResolver p)"
    by (simp add: resolverContains_def eager)
  show "resolvedTo (newResolver (rangeProblem p f e)) t = resolvedTo (newResolver p) t"
    by (intro ext) (cases "tr_eager (newResolver p) t"; simp add: resolvedTo_def eager)
  show "directSupport t (newResolver (rangeProblem p f e)) = directSupport t (newResolver p)"
    by (cases "tr_eager (newResolver p) t"; simp add: directSupport_def requireStore_def eager)
qed

lemma range_holds [simp]:
  "targetHolds (newResolver (rangeProblem p f e)) = targetHolds (newResolver p)"
  by (intro ext) (simp add: targetHolds_def)

lemma range_published: "publishedProblem p \<Longrightarrow> publishedProblem (rangeProblem p f e)"
  by (simp add: publishedProblem_def published_def resolverInv_def supportInv_def)

lemma range_cache [simp]:
  "inductionCacheOk ad (rangeProblem p f e) (newResolver (rangeProblem p f e)) c = inductionCacheOk ad p (newResolver p) c"
proof -
  have "transitionSupportCacheSignature ad (rangeProblem p f e) = transitionSupportCacheSignature ad p"
    by (simp add: transitionSupportCacheSignature_def configureOutputBatchProblem_def Let_def)
  moreover have "entryOk (newResolver (rangeProblem p f e)) S = entryOk (newResolver p) S" for S
    by (intro ext) (simp add: entryOk_def supported_def coneReads_def)
  ultimately show ?thesis by (cases c) (simp_all add: inductionCacheOk_def)
qed

lemma range_closed: "stateClosed p \<Longrightarrow> stateClosed (rangeProblem p f e)"
proof -
  have "pb_complementedStatePairs0 (rangeProblem p f e) = pb_complementedStatePairs0 p"
    "pb_complementedStatePairs1 (rangeProblem p f e) = pb_complementedStatePairs1 p"
    "pb_sameFrameStateEqualityPairs0 (rangeProblem p f e) = pb_sameFrameStateEqualityPairs0 p"
    "pb_sameFrameStateEqualityPairs1 (rangeProblem p f e) = pb_sameFrameStateEqualityPairs1 p"
    "pb_dualRailStatePairs (rangeProblem p f e) = pb_dualRailStatePairs p"
    by (simp_all add: configureOutputBatchProblem_def Let_def)
  then show "stateClosed p \<Longrightarrow> stateClosed (rangeProblem p f e)" by (simp add: stateClosed_def Let_def)
qed

text \<open>The formulas of a range.\<close>

lemma range_forms:
  assumes p: "baseProblem p property0 badness0"
    and n: "f \<le> e" "e \<le> length (pb_observedOutputExprs0 p)" "e \<le> length (pb_observedOutputExprs1 p)"
  shows "\<exists>property badness. baseProblem (rangeProblem p f e) property badness \<and>
    inductionPropertyOf (rangeProblem p f e) = Some property \<and> inductionBadOf (rangeProblem p f e) = Some badness \<and>
    support badness \<subseteq> support property \<and>
    (\<forall>env. eval env property = outputsEqual p f e env \<and> eval env badness = (\<not> outputsEqual p f e env))"
proof -
  obtain property badness where q: "pb_property (rangeProblem p f e) = Some property" "pb_bad (rangeProblem p f e) = Some badness"
    "pb_inductionProperty (rangeProblem p f e) = Some property" "pb_inductionBad (rangeProblem p f e) = Some badness"
    "\<forall>env. eval env property = outputsEqual p f e env \<and> eval env badness = (\<not> outputsEqual p f e env)"
    using configureOutputBatch_property [OF n, of p] by blast
  have "badness = simplify (mkNot property)" using q(1,2) by (auto simp: configureOutputBatchProblem_def Let_def)
  then have "support badness \<subseteq> support property" using simplify_support [of "mkNot property"] by simp
  moreover have "baseProblem (rangeProblem p f e) property badness"
    using p q range_published by (simp add: baseProblem_def mapsToSymbols_def)
  ultimately show ?thesis using q by (simp add: inductionPropertyOf_def inductionBadOf_def)
qed

text \<open>A run of the problem is a run of a range when its property implies that of the range.\<close>

lemma range_run:
  assumes "problemRun p envs" "pb_property p = Some property" "pb_property (rangeProblem p f e) = Some property'"
    and "\<And>env. eval env property \<Longrightarrow> eval env property'"
  shows "problemRun (rangeProblem p f e) envs"
  using assms range_frontier [of p f e] by (auto simp: problemRun_def startRun_def initialOn_def Let_def split: if_splits)

section \<open>Ranges under the engine\<close>

text \<open>A problem whose property says that all outputs agree, closed under its state constraints.\<close>

definition outputProblem :: "problem \<Rightarrow> bool" where
  "outputProblem p = (stateClosed p \<and> (\<forall>env. eval env (the (pb_property p)) \<longrightarrow>
     outputsEqual p 0 (length (pb_observedOutputExprs0 p)) env))"

definition agreeAlways :: "problem \<Rightarrow> nat \<Rightarrow> nat \<Rightarrow> bool" where
  "agreeAlways p f e = (\<forall>envs n. problemRun p envs \<longrightarrow> firstChecked p \<le> n \<longrightarrow> outputsEqual p f e (envs n))"

definition rangeMeans :: "problem \<Rightarrow> nat \<Rightarrow> nat \<Rightarrow> ki_result \<Rightarrow> bool" where
  "rangeMeans p f e r =
    ((kr_status r = Different \<longrightarrow> (\<exists>f' e' c. f \<le> f' \<and> f' < e' \<and> e' \<le> e \<and> kr_witness r = Some c \<and>
        kr_bound r = cw_badFrame c \<and> confirmed (rangeProblem p f' e') c)) \<and>
     (kr_status r = Equivalent \<longrightarrow> outputProblem p \<longrightarrow> agreeAlways p f e))"

lemma range_result:
  assumes p: "baseProblem p property0 badness0"
    and n: "f < e" "e \<le> length (pb_observedOutputExprs0 p)" "e \<le> length (pb_observedOutputExprs1 p)"
    and q: "baseProblem (rangeProblem p f e) property badness" "support badness \<subseteq> support property"
      "\<forall>env. eval env property = outputsEqual p f e env \<and> eval env badness = (\<not> outputsEqual p f e env)"
    and r: "resultMeans (rangeProblem p f e) property badness limited maxK r"
  shows "rangeMeans p f e r"
proof -
  have pf: "pb_property p = Some property0" "pb_property (rangeProblem p f e) = Some property" using p q(1) by (simp_all add: baseProblem_def)
  have "agreeAlways p f e" if eq: "kr_status r = Equivalent" and out: "outputProblem p"
  proof -
    have "soundlyStarted (rangeProblem p f e) property badness"
      using out q(2,3) range_closed by (simp add: soundlyStarted_def outputProblem_def)
    then have safe: "safeProblem (rangeProblem p f e) badness" using r eq by (simp add: resultMeans_def)
    have "outputsEqual p f e env" if "eval env property0" for env
      using out that pf(1) n by (simp add: outputProblem_def outputsEqual_def)
    then have "problemRun (rangeProblem p f e) envs" if "problemRun p envs" for envs
      using range_run [OF that pf] q(3) by blast
    then show ?thesis using safe q(3) range_checked [of p f e] pf(1) by (simp add: agreeAlways_def safeProblem_def)
  qed
  moreover have "\<exists>c. kr_witness r = Some c \<and> kr_bound r = cw_badFrame c \<and> confirmed (rangeProblem p f e) c"
    if "kr_status r = Different" using r that by (simp add: resultMeans_def)
  ultimately show ?thesis using n(1) unfolding rangeMeans_def by blast
qed

lemma agreeAlways_join: "agreeAlways p f m \<Longrightarrow> agreeAlways p m e \<Longrightarrow> agreeAlways p f e"
  unfolding agreeAlways_def outputsEqual_def by (meson not_less)

text \<open>Hypotheses and the memory of attempts play no part without rails.\<close>

lemma no_rail_hypothesis:
  assumes "\<not> pb_usesDualRailStateEncoding p"
  shows "applyDualRailSplitHypothesis q p h = q" "initialPublicConjunctionHypothesis (withStore st p) = emptyHypothesis"
    "inconclusiveDualRailLeafAttemptBound p h t maxK st = None" "rememberInconclusiveDualRailLeafAttempt p h t maxK b st = st"
    "defaultOutputBatchingLimitsForProblem p = (kDefaultOutputBatchingLimits, p)"
  using assms
  by (simp_all add: applyDualRailSplitHypothesis_def shouldApplyPublicConjunctionHypothesis_def initialPublicConjunctionHypothesis_def
      storedResidualPublicConjunctionHypothesis_def canUseFullPublicConjunctionHypothesis_def withStore_def emptyHypothesis_def
      inconclusiveDualRailLeafAttemptBound_def canMemoizeDualRailResidualLeafAttempt_def rememberInconclusiveDualRailLeafAttempt_def
      defaultOutputBatchingLimitsForProblem_def Let_def split: option.splits)

definition stateOk :: "problem_addresses \<Rightarrow> problem \<Rightarrow> ki_state \<Rightarrow> bool" where
  "stateOk ad p st = (ks_store st = pb_lazyTransitions p \<and> inductionCacheOk ad p (newResolver p) (ks_cache st))"

lemma runAndRemember_ok:
  assumes B: "soundBackend B" "completeBackend B" and p: "baseProblem q property badness"
    and forms: "inductionPropertyOf q = Some property" "inductionBadOf q = Some badness"
    and rails: "\<not> pb_usesDualRailStateEncoding q" "\<not> pb_deferBaseCaseChecks q" and direct: "directFrontier q t"
    and st: "stateOk ad q st"
  shows "\<exists>r st'. runAndRemember B getenv ad q h single t maxK st = Inr (r, st') \<and> stateOk ad q st' \<and>
    resultMeans q property badness (batchedInductionDecisionLimit getenv q t \<noteq> None) maxK r"
proof -
  have q: "withStore st q = q" using st by (simp add: withStore_def stateOk_def)
  have cache: "inductionCacheOk ad q (newResolver q) (ks_cache st)" using st by (simp add: stateOk_def)
  obtain r c' where "runMonolithicKInduction B getenv ad q t maxK (ks_cache st) = Inr (r, c')"
    "inductionCacheOk ad q (newResolver q) c'"
    "resultMeans q property badness (batchedInductionDecisionLimit getenv q t \<noteq> None) maxK r"
    using monolithic_ok [OF B p forms rails direct cache] by blast
  then show ?thesis using st
    by (simp add: runAndRemember_def runLeaf_def q stateOk_def no_rail_hypothesis [OF rails(1)])
qed

lemma leaf_ok:
  assumes B: "soundBackend B" "completeBackend B" and p: "baseProblem p property0 badness0"
    and rails: "\<not> pb_usesDualRailStateEncoding p" "\<not> pb_deferBaseCaseChecks p"
    and n: "f < e" "e \<le> length (pb_observedOutputExprs0 p)" "e \<le> length (pb_observedOutputExprs1 p)" "e - f \<le> 64"
    and st: "stateOk ad p st"
  shows "\<exists>r st'. runAndRemember B getenv ad (rangeProblem p f e) h single KISSAT maxK st = Inr (r, st') \<and> stateOk ad p st' \<and>
    rangeMeans p f e r"
proof -
  have le: "f \<le> e" using n(1) by simp
  obtain property badness where q: "baseProblem (rangeProblem p f e) property badness"
    "inductionPropertyOf (rangeProblem p f e) = Some property" "inductionBadOf (rangeProblem p f e) = Some badness"
    "support badness \<subseteq> support property"
    "\<forall>env. eval env property = outputsEqual p f e env \<and> eval env badness = (\<not> outputsEqual p f e env)"
    using range_forms [OF p le n(2,3)] by blast
  have direct: "directFrontier (rangeProblem p f e) KISSAT"
    using n by (simp add: directFrontier_def kMaxImcAssumptionFrontierBatchOutputs_def)
  have st': "stateOk ad (rangeProblem p f e) st" using st by (simp add: stateOk_def)
  have railsq: "\<not> pb_usesDualRailStateEncoding (rangeProblem p f e)" "\<not> pb_deferBaseCaseChecks (rangeProblem p f e)"
    using rails by simp_all
  obtain r u where r: "runAndRemember B getenv ad (rangeProblem p f e) h single KISSAT maxK st = Inr (r, u)"
    "stateOk ad (rangeProblem p f e) u"
    "resultMeans (rangeProblem p f e) property badness
       (batchedInductionDecisionLimit getenv (rangeProblem p f e) KISSAT \<noteq> None) maxK r"
    using runAndRemember_ok [OF B q(1-3) railsq direct st'] by blast
  have "rangeMeans p f e r" by (rule range_result [OF p n(1-3) q(1,4,5) r(3)])
  moreover have "stateOk ad p u" using r(2) by (simp add: stateOk_def)
  ultimately show ?thesis using r(1) by blast
qed

lemma combine_means:
  assumes l: "rangeMeans p f m l" "kr_status l \<noteq> Different" and r: "rangeMeans p m e r" and m: "f \<le> m" "m \<le> e"
  shows "rangeMeans p f e (combineBatchResults l r)"
proof (cases "kr_status r = Different")
  case True
  then have "combineBatchResults l r = r" using l(2) by (simp add: combineBatchResults_def)
  moreover have "\<exists>f' e' c. f \<le> f' \<and> f' < e' \<and> e' \<le> e \<and> kr_witness r = Some c \<and>
      kr_bound r = cw_badFrame c \<and> confirmed (rangeProblem p f' e') c"
    using r True m(1) unfolding rangeMeans_def by (meson order_trans)
  ultimately show ?thesis using True by (simp add: rangeMeans_def)
next
  case False
  then have c: "kr_status (combineBatchResults l r) = (if kr_status r = Inconclusive then Inconclusive else kr_status l)"
    using l(2) by (simp add: combineBatchResults_def)
  have "agreeAlways p f e" if eq: "kr_status (combineBatchResults l r) = Equivalent" and out: "outputProblem p"
  proof -
    have s: "kr_status r \<noteq> Inconclusive" "kr_status l = Equivalent" using eq c by (simp_all split: if_splits)
    then have "kr_status r = Equivalent" using False by (cases "kr_status r") simp_all
    then show ?thesis using l(1) r s(2) out agreeAlways_join by (simp add: rangeMeans_def)
  qed
  moreover have "kr_status (combineBatchResults l r) \<noteq> Different" using c l(2) by simp
  ultimately show ?thesis by (simp add: rangeMeans_def)
qed

lemma range_ok:
  assumes B: "soundBackend B" "completeBackend B" and p: "baseProblem p property0 badness0"
    and rails: "\<not> pb_usesDualRailStateEncoding p" "\<not> pb_deferBaseCaseChecks p"
  shows "f < e \<Longrightarrow> e \<le> length (pb_observedOutputExprs0 p) \<Longrightarrow> e \<le> length (pb_observedOutputExprs1 p) \<Longrightarrow> e - f \<le> 64 \<Longrightarrow>
    stateOk ad p st \<Longrightarrow>
    \<exists>r st'. runOutputRangeKInduction B getenv ad p p preferred emptyHypothesis KISSAT maxK f e st = Inr (r, st') \<and>
      stateOk ad p st' \<and> rangeMeans p f e r"
proof (induction "e - f" arbitrary: f e st preferred rule: less_induct)
  case less
  let ?q = "rangeProblem p f e" and ?single = "e - f \<le> 1"
  have railsq: "\<not> pb_usesDualRailStateEncoding ?q" using rails(1) by simp
  let ?active = "activeLeafAttemptHypothesis ?q preferred"
  obtain r st1 where r: "runAndRemember B getenv ad ?q ?active ?single KISSAT maxK st = Inr (r, st1)" "stateOk ad p st1" "rangeMeans p f e r"
    using leaf_ok [OF B p rails less.prems(1-5), of getenv ?active ?single maxK] by blast
  have none: "(if ?single then inconclusiveDualRailLeafAttemptBound ?q ?active KISSAT maxK st else None) = None"
    by (simp add: no_rail_hypothesis [OF railsq])
  have fb: "\<not> shouldTryFallbackHypothesisAtRange preferred emptyHypothesis (e - f)"
    by (simp add: shouldTryFallbackHypothesisAtRange_def emptyHypothesis_def)
  let ?child = "if hy_property preferred \<noteq> None then preferred else makePublicConjunctionHypothesis ?q"
  let ?middle = "f + (e - f) div 2"
  have run: "runOutputRangeKInduction B getenv ad p p preferred emptyHypothesis KISSAT maxK f e st =
      (if kr_status r \<noteq> Inconclusive \<or> ?single then Inr (r, st1)
       else bindE (runOutputRangeKInduction B getenv ad p p ?child emptyHypothesis KISSAT maxK f ?middle st1) (\<lambda>(combined, st3).
          if kr_status combined = Different then Inr (combined, st3)
          else bindE (runOutputRangeKInduction B getenv ad p p ?child emptyHypothesis KISSAT maxK ?middle e st3)
            (\<lambda>(r, st4). Inr (combineBatchResults combined r, st4))))"
    unfolding runOutputRangeKInduction.simps [of B getenv ad p p preferred emptyHypothesis KISSAT maxK f e st] Let_def
      no_rail_hypothesis(1) [OF rails(1)] none option.case r(1) bindE_simps prod.case
    by (simp add: fb)
  show ?case
  proof (cases "kr_status r \<noteq> Inconclusive \<or> ?single")
    case True
    then show ?thesis using run r(2,3) by simp
  next
    case False
    have m: "f < ?middle" "?middle < e" using False by (auto simp: not_le)
    have widths: "?middle - f < e - f" "e - ?middle < e - f" using m by simp_all
    have left: "?middle \<le> length (pb_observedOutputExprs0 p)" "?middle \<le> length (pb_observedOutputExprs1 p)" "?middle - f \<le> 64"
      "e - ?middle \<le> 64" using less.prems(2-4) m by simp_all
    obtain l st3 where l: "runOutputRangeKInduction B getenv ad p p ?child emptyHypothesis KISSAT maxK f ?middle st1 = Inr (l, st3)"
      "stateOk ad p st3" "rangeMeans p f ?middle l"
      using less.hyps [OF widths(1) m(1) left(1-3) r(2)] by blast
    obtain r' st4 where r': "runOutputRangeKInduction B getenv ad p p ?child emptyHypothesis KISSAT maxK ?middle e st3 = Inr (r', st4)"
      "stateOk ad p st4" "rangeMeans p ?middle e r'"
      using less.hyps [OF widths(2) m(2) less.prems(2,3) left(4) l(2)] by blast
    show ?thesis
    proof (cases "kr_status l = Different")
      case True
      have "\<exists>f' e' c. f \<le> f' \<and> f' < e' \<and> e' \<le> e \<and> kr_witness l = Some c \<and>
          kr_bound l = cw_badFrame c \<and> confirmed (rangeProblem p f' e') c"
        using l(3) True m(2) unfolding rangeMeans_def by (meson less_imp_le order_trans)
      then have "rangeMeans p f e l" using True by (simp add: rangeMeans_def)
      then show ?thesis using run False True l(1,2) by simp
    next
      case diff: False
      have "rangeMeans p f e (combineBatchResults l r')"
        by (rule combine_means [OF l(3) diff r'(3)]) (use m in auto)
      then show ?thesis using run False diff l(1) r'(1,2) by simp
    qed
  qed
qed

section \<open>All outputs\<close>

lemma ranges_ok:
  assumes run: "\<And>f e st. f < e \<Longrightarrow> (f, e) \<in> set rs \<Longrightarrow> stateOk ad p st \<Longrightarrow>
      \<exists>r st'. run (f, e) st = Inr (r, st') \<and> stateOk ad p st' \<and> rangeMeans p f e r"
    and t: "tiles a n rs" and st: "stateOk ad p st"
    and c: "kr_status combined \<noteq> Different" "kr_status combined = Equivalent \<longrightarrow> outputProblem p \<longrightarrow> agreeAlways p 0 a"
  shows "\<exists>r st'. runOutputRanges run rs combined st = Inr (r, st') \<and> stateOk ad p st' \<and> rangeMeans p 0 n r"
  using run t st c
proof (induction rs arbitrary: a combined st)
  case Nil
  then show ?case by (simp add: rangeMeans_def)
next
  case (Cons fe rs)
  obtain e where fe: "fe = (a, e)" "a < e" "tiles e n rs" using Cons.prems(2) by (cases fe) auto
  obtain r u where r: "run fe st = Inr (r, u)" "stateOk ad p u" "rangeMeans p a e r"
    using Cons.prems(1) [of a e st] Cons.prems(3) fe by auto
  have en: "e \<le> n" by (rule tiles_le [OF fe(3)])
  show ?case
  proof (cases "kr_status r = Different")
    case True
    have "\<exists>f' e' c. 0 \<le> f' \<and> f' < e' \<and> e' \<le> n \<and> kr_witness r = Some c \<and>
        kr_bound r = cw_badFrame c \<and> confirmed (rangeProblem p f' e') c"
      using r(3) True en unfolding rangeMeans_def by (meson le0 order_trans)
    then have "rangeMeans p 0 n r" using True by (simp add: rangeMeans_def)
    then show ?thesis using True r(1,2) by simp
  next
    case False
    let ?c = "combined\<lparr> kr_status := (if kr_status r = Inconclusive then Inconclusive else kr_status combined),
                 kr_bound := max (kr_bound combined) (kr_bound r) \<rparr>"
    have r': "kr_status r = Equivalent" if "kr_status r \<noteq> Inconclusive" using False that by (cases "kr_status r") auto
    have "kr_status ?c = Equivalent \<longrightarrow> outputProblem p \<longrightarrow> agreeAlways p 0 e"
      using Cons.prems(5) r(3) r' agreeAlways_join [of p 0 a e] by (auto simp: rangeMeans_def)
    moreover have "kr_status ?c \<noteq> Different" using Cons.prems(4) by simp
    moreover have "\<And>f e st. f < e \<Longrightarrow> (f, e) \<in> set rs \<Longrightarrow> stateOk ad p st \<Longrightarrow>
      \<exists>r st'. run (f, e) st = Inr (r, st') \<and> stateOk ad p st' \<and> rangeMeans p f e r" using Cons.prems(1) by simp
    ultimately have "\<exists>r st'. runOutputRanges run rs ?c u = Inr (r, st') \<and> stateOk ad p st' \<and> rangeMeans p 0 n r"
      using Cons.IH [OF _ fe(3) r(2), of ?c] by blast
    then show ?thesis using False r(1) by simp
  qed
qed

lemma batched_ok:
  assumes B: "soundBackend B" "completeBackend B" and p: "baseProblem p property0 badness0"
    and rails: "\<not> pb_usesDualRailStateEncoding p" "\<not> pb_deferBaseCaseChecks p"
    and len: "length (pb_observedOutputExprs1 p) = length (pb_observedOutputExprs0 p)" and st: "stateOk ad p st"
  shows "\<exists>r st'. runOutputBatchedKInduction B getenv ad p KISSAT maxK st = Inr (r, st') \<and> stateOk ad p st' \<and>
    rangeMeans p 0 (length (pb_observedOutputExprs0 p)) r"
proof -
  let ?n = "length (pb_observedOutputExprs0 p)"
  let ?rs = "buildSupportBoundedOutputBatches p kDefaultOutputBatchingLimits"
  have w: "withStore st p = p" using st by (simp add: withStore_def stateOk_def)
  have batch: "p\<lparr> pb_deferBaseCaseChecks := False \<rparr> = p" using rails(2) by simp
  have st': "st\<lparr> ks_store := pb_lazyTransitions p \<rparr> = st" using st by (simp add: stateOk_def)
  have t: "tiles 0 ?n ?rs" using outputBatches_tile [of 0 p] by (simp add: buildSupportBoundedOutputBatches_def)
  have one: "\<exists>r st'. runOutputRangeKInduction B getenv ad p p emptyHypothesis emptyHypothesis KISSAT maxK f e u = Inr (r, st') \<and>
      stateOk ad p st' \<and> rangeMeans p f e r" if "f < e" "(f, e) \<in> set ?rs" "stateOk ad p u" for f e u
  proof -
    have "e \<le> ?n" using tiles_within [OF t] that(2) by blast
    moreover have "withinLimits p kDefaultOutputBatchingLimits f e"
      using outputBatches_limits that(2) by (simp add: buildSupportBoundedOutputBatches_def)
    then have "e - f \<le> 64" using that(1) by (auto simp: withinLimits_def kDefaultOutputBatchingLimits_def)
    ultimately show ?thesis using range_ok [OF B p rails that(1) _ _ _ that(3)] len by simp
  qed
  let ?run = "\<lambda>(f, e). runOutputRangeKInduction B getenv ad p p emptyHypothesis emptyHypothesis KISSAT maxK f e"
  have start: "kr_status (kiResult Equivalent 0) \<noteq> Different"
    "kr_status (kiResult Equivalent 0) = Equivalent \<longrightarrow> outputProblem p \<longrightarrow> agreeAlways p 0 0"
    by (simp_all add: kiResult_def agreeAlways_def outputsEqual_def)
  have runs: "\<exists>r st'. ?run (f, e) u = Inr (r, st') \<and> stateOk ad p st' \<and> rangeMeans p f e r"
    if "f < e" "(f, e) \<in> set ?rs" "stateOk ad p u" for f e u
    unfolding prod.case by (rule one [OF that])
  obtain r u where r: "runOutputRanges ?run ?rs (kiResult Equivalent 0) st = Inr (r, u)" "stateOk ad p u" "rangeMeans p 0 ?n r"
    using ranges_ok [where run = ?run, OF runs t st start] by blast
  have hyp: "\<not> hy_completePublicSurface emptyHypothesis" by (simp add: emptyHypothesis_def)
  have i: "initialPublicConjunctionHypothesis p = emptyHypothesis"
    using no_rail_hypothesis(2) [OF rails(1), of st] by (simp add: w)
  have "runOutputBatchedKInduction B getenv ad p KISSAT maxK st = Inr (r, u)"
    using r(1) rails
    by (simp add: runOutputBatchedKInduction_def w i no_rail_hypothesis(5) [OF rails(1)] hyp batch st')
  then show ?thesis using r(2,3) by blast
qed

text \<open>One output: the problem itself.\<close>

lemma single_ok:
  assumes B: "soundBackend B" "completeBackend B" and p: "baseProblem p property badness"
    and forms: "inductionPropertyOf p = Some property" "inductionBadOf p = Some badness"
    and rails: "\<not> pb_usesDualRailStateEncoding p" "\<not> pb_deferBaseCaseChecks p"
    and one: "length (pb_observedOutputExprs0 p) \<le> 1" and st: "stateOk ad p st"
  shows "\<exists>r st'. runSingleOutputKInduction B getenv ad copyAd p t maxK st = Inr (r, st') \<and> stateOk ad p st' \<and>
    resultMeans p property badness (batchedInductionDecisionLimit getenv p t \<noteq> None) maxK r"
proof -
  have direct: "directFrontier p t" using one by (simp add: directFrontier_def)
  let ?h = "activeLeafAttemptHypothesis p emptyHypothesis"
  obtain r u where r: "runAndRemember B getenv ad p ?h True t maxK st = Inr (r, u)" "stateOk ad p u"
    "resultMeans p property badness (batchedInductionDecisionLimit getenv p t \<noteq> None) maxK r"
    using runAndRemember_ok [OF B p forms rails direct st] by blast
  have "hy_property emptyHypothesis = None" by (simp add: emptyHypothesis_def)
  then have "runSingleOutputKInduction B getenv ad copyAd p t maxK st = Inr (r, u)"
    using r(1) by (simp add: runSingleOutputKInduction_def no_rail_hypothesis [OF rails(1)] runLocalLeaf_def Let_def)
  then show ?thesis using r(2,3) by blast
qed

end
