(* ===== verification/KI_Unvalidated.thy ===== *)
theory KI_Unvalidated
  imports KI_Batch Reference_Backend
begin

text \<open>
  A problem whose startup is only observed: its single state bit holds its value, and the output
  shows it when an input is set.  The engine accepts the step at depth one without looking at the
  first frontier, where the base query has a counterexample.
\<close>

section \<open>The problem\<close>

definition heldBad :: bexpr where
  "heldBad = BAnd (BVar 4) (BVar 6)"

definition heldProblem :: problem where
  "heldProblem = emptyProblem\<lparr> pb_inputSymbols := [6], pb_state0Symbols := [4], pb_allSymbols := [4, 6],
     pb_totalStateCount := 1, pb_transitions0 := [(4, BVar 4)], pb_observedOutputExprs0 := [heldBad],
     pb_observedOutputExprs1 := [createFalse], pb_property := Some (BNot heldBad), pb_bad := Some heldBad \<rparr>"

lemma held_fields [simp]:
  "inductionPropertyOf heldProblem = Some (BNot heldBad)" "inductionBadOf heldProblem = Some heldBad"
  "pb_property heldProblem = Some (BNot heldBad)" "pb_bad heldProblem = Some heldBad"
  "\<not> pb_usesDualRailStateEncoding heldProblem" "\<not> pb_deferBaseCaseChecks heldProblem"
  "pb_lazyTransitions heldProblem = None" "combinedStateSymbols heldProblem = [4]"
  "\<not> proofNeedsConcreteFrontierValidation heldProblem" "resetBootstrapFrames heldProblem = 0"
  "determineInitialConstraintMode heldProblem = ObservationOnly" "firstChecked heldProblem = 1"
  "length (pb_observedOutputExprs0 heldProblem) = 1" "buildStateSymbolSet heldProblem = {4}"
  "relationsOn Q heldProblem env" "resetOn Q heldProblem env"
  by (simp_all add: heldProblem_def emptyProblem_def inductionPropertyOf_def inductionBadOf_def combinedStateSymbols_def
      proofNeedsConcreteFrontierValidation_def resetBootstrapFrames_def hasResetBootstrap_def firstChecked_def
      determineInitialConstraintMode_def hasSequentialState_def hasCompleteInitialState_def hasExplicitInitialState_def
      buildStateSymbolSet_def relationsOn_def resetOn_def pairsOn_def equalOn_def railsOn_def)

lemma held_base: "baseProblem heldProblem (BNot heldBad) heldBad"
  using eager_published [of heldProblem] by (simp add: baseProblem_def mapsToSymbols_def)

lemma held_eager: "tr_eager (newResolver heldProblem) = [4 \<mapsto> BVar 4]"
  by (simp add: newResolver_def heldProblem_def emptyProblem_def emplace_def)

lemma held_contains: "resolverContains t (newResolver heldProblem) \<longleftrightarrow> t = 4"
  by (simp add: resolverContains_def held_eager)

lemma held_holds: "targetHolds (newResolver heldProblem) 4 env env' \<longleftrightarrow> env' 4 = env 4"
  by (simp add: targetHolds_def resolvedTo_def held_eager)

lemma held_close: "closeSameFrameStateEqualityDependencies heldProblem S = S"
  by (simp add: closeSameFrameStateEqualityDependencies_def heldProblem_def emptyProblem_def
      closeStateEqualityDependencies.simps closePass_def Let_def)

section \<open>The step at depth one\<close>

lemma held_level: "problemLevel heldProblem (inductionSeeds heldProblem (Some (BNot heldBad)) (Some heldBad)) m = {4}"
proof (induction m)
  case 0
  then show ?case
    by (auto simp: problemLevel_def held_close inductionSeeds_def addFormulaStateSupport_def heldBad_def)
next
  case (Suc m)
  have t: "targetsOf (newResolver heldProblem) pr {4} = [4]" for pr
    by (simp add: targetsOf_def expandInductionTargets_def expandInductionTarget_def held_contains)
  have "stateReads (newResolver heldProblem) {4} [4] \<subseteq> {4}" by (auto simp: stateReads_def)
  moreover have "inductionSeeds heldProblem (Some (BNot heldBad)) (Some heldBad) (Suc m) = {4}"
    by (auto simp: inductionSeeds_def addFormulaStateSupport_def heldBad_def)
  ultimately show ?case using Suc by (auto simp: problemLevel_def held_close t)
qed

lemma held_cone:
  assumes "inductionCacheOk ad heldProblem (newResolver heldProblem) c"
    and "buildInductionCoi ad heldProblem (Some (BNot heldBad)) (Some heldBad) 1 c = Inr (coi, r, c')"
  shows "co_relevant coi = [4]" "co_targets coi = [[4]]"
proof -
  have pub: "resolverInv (newResolver heldProblem)"
    "\<And>t. resolverContains t (newResolver heldProblem) \<Longrightarrow> \<exists>S. directSupport t (newResolver heldProblem) = Inr S"
    using held_base by (auto simp: baseProblem_def publishedProblem_def published_def)
  have t: "targetsOf (newResolver heldProblem) pr {4} = [4]" for pr
    by (simp add: targetsOf_def expandInductionTargets_def expandInductionTarget_def held_contains)
  obtain required where r: "length required = Suc 1" "set (co_relevant coi) = \<Union> (set required) \<union> \<Union> (set (map set (co_targets coi)))"
    "\<forall>m \<le> 1. required ! (1 - m) = {4}" "\<forall>m < 1. co_targets coi ! (1 - Suc m) = [4]"
    using inductionWalk [OF pub(1) assms(1) pub(2) assms(2)] by (auto simp: held_level t)
  have ok: "coiOk (newResolver heldProblem) (Some (BNot heldBad)) (Some heldBad) 1 coi"
    using cone_facts [OF held_base assms] by (simp add: inductionCone_def)
  show tg: "co_targets coi = [[4]]"
    using ok r(4) by (cases "co_targets coi") (auto simp: coiOk_def)
  have "required ! 0 = {4}" "required ! 1 = {4}" using spec [OF r(3), of 1] spec [OF r(3), of 0] by simp_all
  then have "required = [{4}, {4}]" using r(1) by (cases required; cases "tl required") auto
  then have "set (co_relevant coi) = {4}" using r(2) tg by simp
  moreover have "distinct (co_relevant coi)"
    using assms(2) by (auto simp: buildInductionCoi_def bindE_Inr_iff Let_def)
  ultimately have "length (co_relevant coi) = 1" using distinct_card by fastforce
  then show "co_relevant coi = [4]"
    using \<open>set (co_relevant coi) = {4}\<close> by (cases "co_relevant coi") auto
qed

lemma held_step:
  assumes B: "soundBackend B" "completeBackend B"
  shows "\<exists>c. proveByInductionStatus B ad heldProblem t 1 None None = Inr (Proved, c)"
proof -
  have none: "inductionCacheOk ad heldProblem (newResolver heldProblem) None" by (simp add: inductionCacheOk_def)
  have pub: "publishedProblem heldProblem" using held_base by (simp add: baseProblem_def)
  let ?win = "\<lambda>coi. \<exists>envs. inductionWindow heldProblem (newResolver heldProblem) coi (BNot heldBad) heldBad 1 envs"
  obtain coi r c' st where ind: "buildInductionCoi ad heldProblem (Some (BNot heldBad)) (Some heldBad) 1 None = Inr (coi, r, c')"
    "proveByInductionStatus B ad heldProblem t 1 None None = Inr (st, c')" "statusMeans st (?win coi)"
    "None = (None :: 32 word option) \<longrightarrow> completeBackend B \<longrightarrow> st \<noteq> InductionUnknown"
    using proveByInduction_ok [OF B(1) pub none held_fields(1,2), of 1 t None]
    by (elim exE conjE) (rule that; assumption)
  note cone = held_cone [OF none ind(1)]
  have "\<not> ?win coi"
    using cone by (auto simp: inductionWindow_def shouldAddSimplePathConstraint_def kMaxSimplePathStateSymbols_def
        frameStep_def held_holds)
  then have "st = Proved" using ind(3,4) B(2) by (cases st) (auto simp: statusMeans_def)
  then show ?thesis using ind(2) by blast
qed

section \<open>Accepted, and refuted one frame later\<close>

lemma held_accepted:
  assumes B: "soundBackend B" "completeBackend B" and k: "1 \<le> maxK"
  shows "\<exists>c. runMonolithicKInduction B getenv ad heldProblem t maxK None = Inr (kiResult Equivalent 1, c)"
proof -
  have local: "shouldCheckLocalBaseCase heldProblem" by (simp add: shouldCheckLocalBaseCase_def)
  have start: "findBaseCounterexample B heldProblem t 0 = Inr None"
    by (simp add: findBaseCounterexample_def findBaseCounterexampleImpl_def baseQuery_def shape_prefix)
  have limit: "batchedInductionDecisionLimit getenv heldProblem t = None" by (simp add: batchedInductionDecisionLimit_def)
  obtain c where "proveByInductionStatus B ad heldProblem t 1 None None = Inr (Proved, c)" using held_step [OF B] by blast
  then have "inductionLoop B getenv ad heldProblem t maxK 1 0 None = Inr (kiResult Equivalent 1, c)"
    using k limit by (subst inductionLoop.simps) (simp add: stepOutcome_def acceptProof_def)
  then show ?thesis by (simp add: runMonolithicKInduction_def local start)
qed

lemma held_run: "problemRun heldProblem (\<lambda>f x. x = 4 \<or> x = 6 \<and> f = 1)"
  by (simp add: problemRun_def startRun_def initialOn_def heldBad_def held_contains held_holds)

lemma held_refuted:
  assumes B: "soundBackend B" "completeBackend B"
  shows "\<exists>w. findKInductionBaseCounterexampleAtFrontier B (makeImcBaseCounterexampleCache heldProblem) t 1 = Inr (Some w)"
proof -
  have direct: "directFrontier heldProblem t" by (simp add: directFrontier_def)
  obtain w where w: "findKInductionBaseCounterexampleAtFrontier B (makeImcBaseCounterexampleCache heldProblem) t 1 = Inr w"
    "w = None \<longrightarrow> frontierSafe heldProblem 1"
    using frontier_ok [OF B held_base held_fields(5) direct, of 1] by blast
  have "\<not> frontierSafe heldProblem 1"
  proof
    assume safe: "frontierSafe heldProblem 1"
    let ?sh = "shapeFor heldProblem 1 1"
    have sh: "baseShape heldProblem ?sh 1" by (simp add: baseShape_def shapeFor_def)
    obtain bcoi r where b: "buildBaseCaseCoi heldProblem ?sh = Inr (bcoi, r)" "baseCoiOk heldProblem ?sh bcoi"
      using buildBase_total [OF held_base sh] by blast
    have "baseWindow heldProblem ?sh 1 bcoi (\<lambda>f x. x = 4 \<or> x = 6 \<and> f = 1)"
      by (rule hybrid_window [OF problem_hybrid [OF held_run, of UNIV] b(2) _ order_refl order_refl held_fields(4)])
        (simp_all add: heldBad_def)
    then show False using safe b(1) by (simp add: frontierSafe_def noWindow_def)
  qed
  then show ?thesis using w by (cases w) auto
qed

end
