(* ===== verification/KI_Limits.thy ===== *)
theory KI_Limits
  imports KI_Batch
begin

text \<open>
  The limits read from the environment: decimal texts are read back exactly up to the width of an
  unsigned, and nothing else is accepted.  The limit of a batch is one of the configured values or a
  default.
\<close>

lemma isDigitChar_isDigit: "isDigitChar = isDigit"
  by (intro ext) (auto simp: isDigitChar_def isDigit_def)

lemma digitsValue_readDigits: "digitsValue = readDigits"
  by (intro ext) (simp add: digitsValue_def readDigits_def)

lemma digit_not_space: "isDigit c \<Longrightarrow> \<not> isSpaceChar c \<and> c \<noteq> CHR ''-'' \<and> c \<noteq> CHR ''+''"
  by (auto simp: isDigit_def isSpaceChar_def)

lemma strtoul_number:
  assumes ws: "\<forall>c \<in> set ws. isSpaceChar c" and rest: "\<forall>c cs. rest = c # cs \<longrightarrow> \<not> isDigit c"
  shows "strtoul (ws @ showNat n @ rest) = (if 2 ^ 64 \<le> n then 2 ^ 64 - 1 else n, rest)"
proof -
  obtain c cs where d: "showNat n = c # cs" using showNat_nonempty [of n] by (cases "showNat n") auto
  then have c: "isDigit c" using showNat_digits [of c n] by simp
  have body: "dropWhile isSpaceChar (ws @ showNat n @ rest) = showNat n @ rest"
    using ws digit_not_space [OF c] by (simp add: d dropWhile_append2)
  have digits: "takeWhile isDigit (showNat n @ rest) = showNat n" "dropWhile isDigit (showNat n @ rest) = rest"
    using showNat_digits [of _ n] rest by (cases rest; simp add: takeWhile_append2 dropWhile_append2)+
  have sign: "(case showNat n @ rest of [] \<Rightarrow> [] | x # xs \<Rightarrow> if x = CHR ''-'' \<or> x = CHR ''+'' then xs else showNat n @ rest) = showNat n @ rest"
    "(case showNat n @ rest of [] \<Rightarrow> False | x # xs \<Rightarrow> x = CHR ''-'') = False"
    using digit_not_space [OF c] by (simp_all add: d)
  show ?thesis
    unfolding strtoul_def Let_def body sign isDigitChar_isDigit digits digitsValue_readDigits by simp
qed

lemma readUnsigned_number:
  assumes "\<forall>c \<in> set ws. isSpaceChar c" "getenv name = Some (ws @ showNat n)"
  shows "readUnsignedEnv getenv name = (if n < 2 ^ 32 then Some (of_nat n) else None)"
proof -
  have "strtoul (ws @ showNat n) = (if 2 ^ 64 \<le> n then 2 ^ 64 - 1 else n, [])"
    using strtoul_number [OF assms(1), of "[]" n] by simp
  then show ?thesis using assms(2) by (auto simp: readUnsignedEnv_def)
qed

lemma readUnsigned_garbage:
  assumes "\<forall>c \<in> set ws. isSpaceChar c" "getenv name = Some (ws @ showNat n @ c # rest)" "\<not> isDigit c"
  shows "readUnsignedEnv getenv name = None"
  using strtoul_number [OF assms(1), of "c # rest" n] assms(2,3) by (simp add: readUnsignedEnv_def)

text \<open>Without a limit the step is asked to decide; a limit is set for Kissat only.\<close>

lemma decisionLimit_kissat:
  "batchedInductionDecisionLimit getenv p t \<noteq> None \<Longrightarrow> t = KISSAT \<and>
     (pb_usesDualRailStateEncoding p \<or> 1 < length (pb_observedOutputExprs0 p))"
  by (auto simp: batchedInductionDecisionLimit_def split: if_splits)

section \<open>The cache of the public prefix\<close>

text \<open>The record of the last safe prefix is recognised by the address of a problem, so within one
  verification its answer is given to whatever problem lies at that address.\<close>

lemma stale_prefix_answer:
  assumes "canUseDualRailPublicBasePrefixCache p" "pc_problem pc = Some address" "pc_solverType pc = t"
    "pc_verificationGeneration pc = generation" "pc_hasSafeThrough pc" "k \<le> pc_safeThrough pc"
  shows "findBaseCounterexampleAtFrontier B address generation p t k pc = Inr (None, pc)"
  using assms by (simp add: findBaseCounterexampleAtFrontier_def tryDualRailPublicBasePrefixCache_def currentPrefixCache_def Let_def)

section \<open>A pair of latches\<close>

text \<open>Two state bits that start equal and hold their values, observed by any number of outputs.\<close>

definition pairProblem :: "nat \<Rightarrow> problem" where
  "pairProblem n = emptyProblem\<lparr> pb_state0Symbols := [4], pb_state1Symbols := [5], pb_allSymbols := [4, 5],
     pb_transitions0 := [(4, BVar 4)], pb_transitions1 := [(5, BVar 5)], pb_initialCondition := Some createTrue,
     pb_initialStateAssignments := [(4, True), (5, True)], pb_initializedStateCount := 2, pb_totalStateCount := 2,
     pb_observedOutputExprs0 := replicate n (BVar 4), pb_observedOutputExprs1 := replicate n (BVar 5),
     pb_property := Some (BNot (BXor (BVar 4) (BVar 5))), pb_bad := Some (BXor (BVar 4) (BVar 5)) \<rparr>"

lemma pair_fields [simp]:
  "inductionPropertyOf (pairProblem n) = Some (BNot (BXor (BVar 4) (BVar 5)))"
  "inductionBadOf (pairProblem n) = Some (BXor (BVar 4) (BVar 5))"
  "pb_property (pairProblem n) = Some (BNot (BXor (BVar 4) (BVar 5)))"
  "pb_bad (pairProblem n) = Some (BXor (BVar 4) (BVar 5))"
  "\<not> pb_usesDualRailStateEncoding (pairProblem n)" "\<not> pb_deferBaseCaseChecks (pairProblem n)"
  "pb_lazyTransitions (pairProblem n) = None"
  "length (pb_observedOutputExprs0 (pairProblem n)) = n" "length (pb_observedOutputExprs1 (pairProblem n)) = n"
  "buildStateSymbolSet (pairProblem n) = {4, 5}" "resetBootstrapFrames (pairProblem n) = 0" "firstChecked (pairProblem n) = 0"
  by (auto simp: pairProblem_def emptyProblem_def inductionPropertyOf_def inductionBadOf_def buildStateSymbolSet_def
      resetBootstrapFrames_def hasResetBootstrap_def firstChecked_def determineInitialConstraintMode_def
      hasSequentialState_def hasCompleteInitialState_def)

lemma pair_base: "baseProblem (pairProblem n) (BNot (BXor (BVar 4) (BVar 5))) (BXor (BVar 4) (BVar 5))"
  using eager_published [of "pairProblem n"] by (simp add: baseProblem_def mapsToSymbols_def)

lemma pair_eager: "tr_eager (newResolver (pairProblem n)) = [4 \<mapsto> BVar 4, 5 \<mapsto> BVar 5]"
  by (auto simp: newResolver_def pairProblem_def emptyProblem_def emplace_def)

lemma pair_closed: "stateClosed (pairProblem n)"
proof -
  have c: "resolverContains t (newResolver (pairProblem n)) \<Longrightarrow> t = 4 \<or> t = 5" for t
    by (simp add: resolverContains_def pair_eager split: if_splits)
  have "\<forall>x \<in> {4, 5 :: var_id}. 2 \<le> x" by (auto simp: ge2_iff)
  then show ?thesis using c
    by (auto simp: stateClosed_def Let_def pairProblem_def emptyProblem_def combinedStateSymbols_def hasStructuredInitialAssignments_def
        buildStateSymbolSet_def)
qed

lemma pair_outputs: "outputProblem (pairProblem n)"
  using pair_closed by (simp add: outputProblem_def) (simp add: outputsEqual_def pairProblem_def emptyProblem_def)

lemma pair_started: "soundlyStarted (pairProblem n) (BNot (BXor (BVar 4) (BVar 5))) (BXor (BVar 4) (BVar 5))"
  by (simp add: soundlyStarted_def pair_closed)

lemma pair_run: "problemRun (pairProblem n) (\<lambda>f x. True)"
proof -
  have "targetHolds (newResolver (pairProblem n)) t (\<lambda>x. True) (\<lambda>x. True)"
    if "resolverContains t (newResolver (pairProblem n))" for t
    using that by (auto simp: targetHolds_def resolvedTo_def resolverContains_def pair_eager split: if_splits)
  moreover have "relationsOn UNIV (pairProblem n) (\<lambda>x. True)" "resetOn UNIV (pairProblem n) (\<lambda>x. True)"
    "initialOn (pairProblem n) UNIV (determineInitialConstraintMode (pairProblem n)) (\<lambda>x. True)"
    by (simp_all add: initialOn_def determineInitialConstraintMode_def hasSequentialState_def createTrue_def mkVar_def
        hasCompleteInitialState_def relationsOn_def resetOn_def pairsOn_def equalOn_def railsOn_def assignsOn_def
        pairProblem_def emptyProblem_def)
  ultimately show ?thesis by (simp add: problemRun_def startRun_def)
qed

end
