(* ===== verification/Cnf_Writer.thy ===== *)
theory Cnf_Writer
  imports Expr_Simplify Postorder
begin

text \<open>
  The DIMACS export of an expression, \<open>formal/BoolExprCnfWriter.cpp\<close>.  The exporter orders the
  operands of the commutative gates by structural keys, gives every distinct node one variable
  with the Tseitin clauses of its operator, and prints the clauses.  Its variables are named by
  the leaves they stand for; the two constants are variables forced by unit clauses.
\<close>

unbundle bit_operations_syntax

section \<open>Stable keys\<close>

record stable_key =
  sk_h0 :: u64
  sk_h1 :: u64
  sk_size :: u64
  sk_op :: op
  sk_varID :: var_id

definition mix64 :: "u64 \<Rightarrow> u64" where
  "mix64 v0 =
    (let v1 = v0 + 0x9e3779b97f4a7c15;
         v2 = (v1 XOR drop_bit 30 v1) * 0xbf58476d1ce4e5b9;
         v3 = (v2 XOR drop_bit 27 v2) * 0x94d049bb133111eb
     in v3 XOR drop_bit 31 v3)"

definition isCommutative :: "op \<Rightarrow> bool" where
  "isCommutative k = (k = OpAND \<or> k = OpOR \<or> k = OpXOR)"

definition stableLess :: "stable_key \<Rightarrow> stable_key \<Rightarrow> bool" where
  "stableLess a b =
    (sk_h0 a < sk_h0 b \<or> sk_h0 a = sk_h0 b \<and>
    (sk_h1 a < sk_h1 b \<or> sk_h1 a = sk_h1 b \<and>
    (sk_size a < sk_size b \<or> sk_size a = sk_size b \<and>
    (sk_op a < sk_op b \<or> sk_op a = sk_op b \<and> sk_varID a < sk_varID b))))"

definition absorbKey :: "stable_key option \<Rightarrow> stable_key \<Rightarrow> stable_key" where
  "absorbKey child key =
    (case child of
       None \<Rightarrow> key
     | Some c \<Rightarrow> key\<lparr> sk_h0 := mix64 (sk_h0 key XOR sk_h0 c XOR push_bit 1 (sk_h1 c)),
                     sk_h1 := mix64 (sk_h1 key XOR sk_h1 c XOR drop_bit 1 (sk_h0 c)) \<rparr>)"

definition combineKey :: "op \<Rightarrow> var_id \<Rightarrow> stable_key option \<Rightarrow> stable_key option \<Rightarrow> stable_key" where
  "combineKey opr v l r =
    absorbKey r (absorbKey l
      \<lparr> sk_h0 = mix64 (of_nat (opIndex opr) XOR push_bit 1 (mix64 v)),
        sk_h1 = mix64 (push_bit 32 (of_nat (opIndex opr)) XOR mix64 (v + 0x517cc1b727220a95)),
        sk_size = 1 + (case l of None \<Rightarrow> 0 | Some k \<Rightarrow> sk_size k) + (case r of None \<Rightarrow> 0 | Some k \<Rightarrow> sk_size k),
        sk_op = opr, sk_varID = v \<rparr>)"

type_synonym key_map = "bexpr \<rightharpoonup> stable_key"

definition childKey :: "key_map \<Rightarrow> bexpr option \<Rightarrow> error + stable_key option" where
  "childKey keys c = (case c of None \<Rightarrow> Inr None | Some n \<Rightarrow> bindE (atE keys n) (\<lambda>k. Inr (Some k)))"

definition orderKeys :: "op \<Rightarrow> stable_key option \<Rightarrow> stable_key option \<Rightarrow> stable_key option \<times> stable_key option" where
  "orderKeys opr l r =
    (case (l, r) of
       (Some kl, Some kr) \<Rightarrow> if isCommutative opr \<and> stableLess kr kl then (r, l) else (l, r)
     | _ \<Rightarrow> (l, r))"

definition finishKey :: "bexpr \<Rightarrow> key_map \<Rightarrow> error + key_map" where
  "finishKey e keys =
    bindE (childKey keys (getLeft e)) (\<lambda>l. bindE (childKey keys (getRight e)) (\<lambda>r.
      case orderKeys (getOp e) l r of (l', r') \<Rightarrow>
        Inr (emplace e (combineKey (getOp e) (getId e) l' r') keys)))"

definition keyVisitor :: "(key_map, error) visitor" where
  "keyVisitor =
    \<lparr> v_done = (\<lambda>keys n. keys n \<noteq> None), v_leaf = False, v_swap = (\<lambda>_. False),
      v_push = (\<lambda>_ _. True), v_enter = (\<lambda>_ keys. Inr keys), v_finish = finishKey \<rparr>"

definition buildStableKeys :: "bexpr \<Rightarrow> error + key_map" where
  "buildStableKeys root = postLoop keyVisitor [(root, False)] Map.empty"

section \<open>Clauses\<close>

record cnf_formula =
  cf_numVars :: int
  cf_rootLit :: int
  cf_clauses :: "int list list"
  cf_varNameToDimacs :: "string \<rightharpoonup> int"

text \<open>The locals of the encoder: the formula under construction, the literals of the nodes,
  the constants that have their unit clause and the last variable given out.\<close>

record cnf_state =
  cs_clauses :: "int list list"
  cs_names :: "string \<rightharpoonup> int"
  cs_node2lit :: "bexpr \<rightharpoonup> int"
  cs_forced :: "string set"
  cs_nextVar :: int

definition emptyCnfState :: cnf_state where
  "emptyCnfState = \<lparr> cs_clauses = [], cs_names = Map.empty, cs_node2lit = Map.empty,
     cs_forced = {}, cs_nextVar = 0 \<rparr>"

definition allocVar :: "cnf_state \<Rightarrow> int \<times> cnf_state" where
  "allocVar s = (cs_nextVar s + 1, s\<lparr> cs_nextVar := cs_nextVar s + 1 \<rparr>)"

definition getOrCreateVar :: "string \<Rightarrow> cnf_state \<Rightarrow> int \<times> cnf_state" where
  "getOrCreateVar key s =
    (case cs_names s key of
       Some v \<Rightarrow> (v, s)
     | None \<Rightarrow> (case allocVar s of (v, s') \<Rightarrow> (v, s'\<lparr> cs_names := emplace key v (cs_names s') \<rparr>)))"

definition constName :: "bool \<Rightarrow> string" where
  "constName b = (if b then ''$__CONST_TRUE__'' else ''$__CONST_FALSE__'')"

definition pushClauses :: "int list list \<Rightarrow> cnf_state \<Rightarrow> cnf_state" where
  "pushClauses cs s = s\<lparr> cs_clauses := cs_clauses s @ cs \<rparr>"

definition constVar :: "bool \<Rightarrow> cnf_state \<Rightarrow> int \<times> cnf_state" where
  "constVar b s =
    (case getOrCreateVar (constName b) s of (v, s') \<Rightarrow>
       (v, if constName b \<in> cs_forced s' then s'
           else pushClauses [[if b then v else - v]]
             (s'\<lparr> cs_forced := insert (constName b) (cs_forced s') \<rparr>)))"

definition leafGiven :: "bexpr \<Rightarrow> cnf_state \<Rightarrow> error + int \<times> cnf_state" where
  "leafGiven e s =
    (if getId e = 0 then Inr (constVar False s)
     else if getId e = 1 then Inr (constVar True s)
     else bindE (getName e) (\<lambda>name. Inr (getOrCreateVar name s)))"

text \<open>The operands, the smaller key first at a commutative gate.\<close>

definition operandsSwapped :: "key_map \<Rightarrow> bexpr \<Rightarrow> error + bool" where
  "operandsSwapped keys e =
    (case (getLeft e, getRight e) of
       (Some l, Some r) \<Rightarrow>
         if isCommutative (getOp e)
         then bindE (atE keys r) (\<lambda>kr. bindE (atE keys l) (\<lambda>kl. Inr (stableLess kr kl)))
         else Inr False
     | _ \<Rightarrow> Inr False)"

definition nodeLit :: "cnf_state \<Rightarrow> bexpr option \<Rightarrow> int" where
  "nodeLit s c = (case c of None \<Rightarrow> 0 | Some n \<Rightarrow> (case cs_node2lit s n of None \<Rightarrow> 0 | Some l \<Rightarrow> l))"

definition gateClauses :: "op \<Rightarrow> int \<Rightarrow> int \<Rightarrow> int \<Rightarrow> error + int list list" where
  "gateClauses opr lit l r =
    (case opr of
       OpNOT \<Rightarrow> Inr [[- lit, - l], [lit, l]]
     | OpAND \<Rightarrow> Inr [[- lit, l], [- lit, r], [lit, - l, - r]]
     | OpOR \<Rightarrow> Inr [[- l, lit], [- r, lit], [- lit, l, r]]
     | OpXOR \<Rightarrow> Inr [[- lit, - l, - r], [- lit, l, r], [lit, - l, r], [lit, l, - r]]
     | _ \<Rightarrow> Inl (Runtime_Error ''encodeBoolExprToCnf: unsupported op''))"

definition setNodeLit :: "bexpr \<Rightarrow> int \<Rightarrow> cnf_state \<Rightarrow> cnf_state" where
  "setNodeLit e lit s = s\<lparr> cs_node2lit := (cs_node2lit s)(e \<mapsto> lit) \<rparr>"

definition finishGate :: "key_map \<Rightarrow> bexpr \<Rightarrow> cnf_state \<Rightarrow> error + cnf_state" where
  "finishGate keys e s =
    (if getOp e = OpVAR
     then bindE (leafGiven e s) (\<lambda>(lit, s'). Inr (setNodeLit e lit s'))
     else bindE (operandsSwapped keys e) (\<lambda>swap.
       let l = nodeLit s (if swap then getRight e else getLeft e);
           r = nodeLit s (if swap then getLeft e else getRight e)
       in case allocVar s of (lit, s') \<Rightarrow>
         bindE (gateClauses (getOp e) lit l r) (\<lambda>cs. Inr (pushClauses cs (setNodeLit e lit s')))))"

definition gateVisitor :: "key_map \<Rightarrow> (cnf_state, error) visitor" where
  "gateVisitor keys =
    \<lparr> v_done = (\<lambda>s n. cs_node2lit s n \<noteq> None), v_leaf = True,
      v_swap = (\<lambda>n. operandsSwapped keys n = Inr True), v_push = (\<lambda>_ _. True),
      v_enter = (\<lambda>n s. bindE (operandsSwapped keys n) (\<lambda>_. Inr s)),
      v_finish = finishGate keys \<rparr>"

definition encodeBoolExprToCnf :: "bexpr option \<Rightarrow> error + cnf_formula" where
  "encodeBoolExprToCnf root =
    (case root of
       None \<Rightarrow> Inl (Invalid_Argument ''encodeBoolExprToCnf: root is null'')
     | Some e \<Rightarrow>
        bindE (buildStableKeys e) (\<lambda>keys.
        bindE (postLoop (gateVisitor keys) [(e, False)] emptyCnfState) (\<lambda>s.
          Inr \<lparr> cf_numVars = cs_nextVar s, cf_rootLit = nodeLit s (Some e),
                cf_clauses = cs_clauses s, cf_varNameToDimacs = cs_names s \<rparr>)))"

section \<open>Text\<close>

definition showInt :: "int \<Rightarrow> string" where
  "showInt k = (if k < 0 then ''-'' @ showNat (nat (- k)) else showNat (nat k))"

definition newline :: string where
  "newline = [CHR 0x0A]"

text \<open>A stream holds the text it has taken and whether it is good.  What the device takes is a
  parameter \<open>accepts\<close>, a predicate on the whole text up to and with the next character; a refused
  character makes the stream bad, and a bad stream drops what is inserted, the rest of a piece too.\<close>

record ostream =
  os_text :: string
  os_good :: bool

definition putChar :: "(string \<Rightarrow> bool) \<Rightarrow> char \<Rightarrow> ostream \<Rightarrow> ostream" where
  "putChar accepts c out =
    (if \<not> os_good out then out
     else if accepts (os_text out @ [c]) then out\<lparr> os_text := os_text out @ [c] \<rparr>
     else out\<lparr> os_good := False \<rparr>)"

definition streamPut :: "(string \<Rightarrow> bool) \<Rightarrow> string \<Rightarrow> ostream \<Rightarrow> ostream" where
  "streamPut accepts piece out = fold (putChar accepts) piece out"

text \<open>The pieces that are inserted one after the other.\<close>

definition clausePieces :: "int list \<Rightarrow> string list" where
  "clausePieces clause = concat (map (\<lambda>l. [showInt l, '' '']) clause) @ [''0'' @ newline]"

definition dimacsPieces :: "cnf_formula \<Rightarrow> bool \<Rightarrow> string list" where
  "dimacsPieces cnf assertRoot =
    [''p cnf '', showInt (cf_numVars cnf), '' '', showNat (length (cf_clauses cnf) + (if assertRoot then 1 else 0)), newline] @
    concat (map clausePieces (cf_clauses cnf)) @
    (if assertRoot then [showInt (cf_rootLit cnf), '' 0'' @ newline] else [])"

definition writeDimacsCnf :: "(string \<Rightarrow> bool) \<Rightarrow> cnf_formula \<Rightarrow> ostream \<Rightarrow> bool \<Rightarrow> bool \<times> ostream" where
  "writeDimacsCnf accepts cnf out assertRoot =
    (if \<not> os_good out then (False, out)
     else let out' = fold (streamPut accepts) (dimacsPieces cnf assertRoot) out in (os_good out', out'))"

text \<open>\<open>dumpDimacsCnf\<close> and \<open>dumpBoolExprToDimacs\<close>: a file opens as an empty good stream or not at all.\<close>

definition dumpDimacsCnf :: "(string \<Rightarrow> bool) \<Rightarrow> cnf_formula \<Rightarrow> bool \<Rightarrow> bool \<Rightarrow> bool \<times> ostream option" where
  "dumpDimacsCnf accepts cnf opens assertRoot =
    (if \<not> opens then (False, None)
     else case writeDimacsCnf accepts cnf \<lparr> os_text = [], os_good = True \<rparr> assertRoot of (ok, out) \<Rightarrow> (ok, Some out))"

definition dumpBoolExprToDimacs :: "(string \<Rightarrow> bool) \<Rightarrow> bexpr option \<Rightarrow> bool \<Rightarrow> bool \<Rightarrow> error + bool \<times> ostream option" where
  "dumpBoolExprToDimacs accepts root opens assertRoot =
    bindE (encodeBoolExprToCnf root) (\<lambda>cnf. Inr (dumpDimacsCnf accepts cnf opens assertRoot))"

end
