(* ===== verification/Cnf_Writer_Correct.thy ===== *)
theory Cnf_Writer_Correct
  imports Cnf_Writer Expr_Walk Expr_Eval
begin

text \<open>
  Correctness of the DIMACS exporter: the stable keys depend on the expression only, the export
  never fails on an expression, the models of its clauses give the root literal the value of the
  expression, every assignment of the leaves extends to a model, and the text can be read back.
\<close>

section \<open>The keys\<close>

primrec stableKey :: "bexpr \<Rightarrow> stable_key" where
  "stableKey (BVar v) = combineKey OpVAR v None None"
| "stableKey (BNot a) = combineKey OpNOT 0 (Some (stableKey a)) None"
| "stableKey (BAnd a b) = (case orderKeys OpAND (Some (stableKey a)) (Some (stableKey b)) of (l, r) \<Rightarrow> combineKey OpAND 0 l r)"
| "stableKey (BOr a b) = (case orderKeys OpOR (Some (stableKey a)) (Some (stableKey b)) of (l, r) \<Rightarrow> combineKey OpOR 0 l r)"
| "stableKey (BXor a b) = (case orderKeys OpXOR (Some (stableKey a)) (Some (stableKey b)) of (l, r) \<Rightarrow> combineKey OpXOR 0 l r)"

definition keysInv :: "key_map \<Rightarrow> bool" where
  "keysInv keys = (\<forall>n k. keys n = Some k \<longrightarrow> k = stableKey n \<and> subs n \<subseteq> dom keys)"

lemma keysInvD: "keysInv keys \<Longrightarrow> n \<in> dom keys \<Longrightarrow> keys n = Some (stableKey n) \<and> subs n \<subseteq> dom keys"
  by (auto simp: keysInv_def)

lemma finishKey_ok:
  assumes "keysInv keys" "\<And>c. c \<in> set (children n) \<Longrightarrow> keys c \<noteq> None"
  shows "finishKey n keys = Inr (emplace n (stableKey n) keys)"
proof -
  have "keys c = Some (stableKey c)" if "c \<in> set (children n)" for c
    using assms(1) assms(2) [OF that] by (auto simp: keysInv_def)
  then show ?thesis
    by (cases n) (auto simp: finishKey_def childKey_def orderKeys_def split: prod.splits)
qed

lemma keysInv_emplace:
  assumes "keysInv keys" "\<And>c. c \<in> set (children n) \<Longrightarrow> keys c \<noteq> None"
  shows "keysInv (emplace n (stableKey n) keys)"
proof -
  have "subs n \<subseteq> insert n (dom keys)"
    using keysInvD [OF assms(1)] assms(2) by (subst subs_children) blast
  moreover have "subs m \<subseteq> insert n (dom keys)" if "m \<in> dom keys" for m
    using keysInvD [OF assms(1) that] by blast
  moreover have "emplace n (stableKey n) keys m = Some (stableKey m)" if "m \<in> insert n (dom keys)" for m
    using keysInvD [OF assms(1), of m] keysInvD [OF assms(1), of n] that by (auto simp: emplace_apply)
  ultimately show ?thesis unfolding keysInv_def
    by (metis domIff dom_emplace insertE option.distinct(1) option.inject)
qed

interpretation key_pass: total_postorder keyVisitor keysInv "(\<subseteq>\<^sub>m)" "\<lambda>_. True"
proof
  fix m m' :: key_map and n :: bexpr
  assume inv: "keysInv m" and kids: "\<And>c. c \<in> set (children n) \<Longrightarrow> v_done keyVisitor m c"
  have kids': "\<And>c. c \<in> set (children n) \<Longrightarrow> m c \<noteq> None" using kids by (simp add: keyVisitor_def)
  have fin: "v_finish keyVisitor n m = Inr (emplace n (stableKey n) m)"
    using finishKey_ok [OF inv kids'] by (simp add: keyVisitor_def)
  then show "\<exists>m'. v_finish keyVisitor n m = Inr m'" by blast
  assume "v_finish keyVisitor n m = Inr m'"
  then have "m' = emplace n (stableKey n) m" using fin by simp
  then show "keysInv m' \<and> m \<subseteq>\<^sub>m m' \<and> v_done keyVisitor m' n"
    using keysInv_emplace [OF inv kids'] by (simp add: keyVisitor_def emplace_apply map_le_def dom_def)
qed (auto simp: keyVisitor_def map_le_def dom_def)

lemma buildStableKeys_ok:
  obtains keys where "buildStableKeys root = Inr keys" "keysInv keys" "subs root \<subseteq> dom keys"
proof -
  have "keysInv Map.empty" by (simp add: keysInv_def)
  from key_pass.loop_total [OF TrueI this, of root] obtain keys where
    k: "postLoop keyVisitor [(root, False)] Map.empty = Inr keys" "keysInv keys" "v_done keyVisitor keys root"
    by blast
  have "subs root \<subseteq> dom keys" using keysInvD [OF k(2)] k(3) by (auto simp: keyVisitor_def)
  then show ?thesis using that k by (simp add: buildStableKeys_def)
qed

text \<open>With the keys present, the order of the operands is a function of the expression.\<close>

fun swapsOperands :: "bexpr \<Rightarrow> bool" where
  "swapsOperands (BAnd a b) = stableLess (stableKey b) (stableKey a)"
| "swapsOperands (BOr a b) = stableLess (stableKey b) (stableKey a)"
| "swapsOperands (BXor a b) = stableLess (stableKey b) (stableKey a)"
| "swapsOperands _ = False"

lemma operandsSwapped_ok:
  assumes "keysInv keys" "subs n \<subseteq> dom keys"
  shows "operandsSwapped keys n = Inr (swapsOperands n)"
proof -
  have "keys c = Some (stableKey c)" if "c \<in> set (children n)" for c
  proof -
    have "c \<in> subs n" using that subs_children [of n] subs_self [of c] by blast
    then show ?thesis using keysInvD [OF assms(1)] assms(2) by blast
  qed
  then show ?thesis by (cases n) (auto simp: operandsSwapped_def isCommutative_def)
qed

section \<open>The meaning of the clauses\<close>

text \<open>A DIMACS literal under an assignment of the variables 1, 2, and so on.\<close>

definition dimTrue :: "(nat \<Rightarrow> bool) \<Rightarrow> int \<Rightarrow> bool" where
  "dimTrue M l = (if l > 0 then M (nat l) else \<not> M (nat (- l)))"

definition dimModels :: "(nat \<Rightarrow> bool) \<Rightarrow> int list list \<Rightarrow> bool" where
  "dimModels M cs = (\<forall>c \<in> set cs. \<exists>l \<in> set c. dimTrue M l)"

definition dimBelow :: "int \<Rightarrow> int \<Rightarrow> bool" where
  "dimBelow n l = (l \<noteq> 0 \<and> \<bar>l\<bar> \<le> n)"

lemma dimTrue_neg [simp]: "dimBelow n l \<Longrightarrow> dimTrue M (- l) = (\<not> dimTrue M l)"
  by (auto simp: dimTrue_def dimBelow_def)

lemma dimBelow_neg [simp]: "dimBelow n (- l) = dimBelow n l"
  by (simp add: dimBelow_def)

lemma dimBelow_mono: "dimBelow n l \<Longrightarrow> n \<le> m \<Longrightarrow> dimBelow m l"
  by (simp add: dimBelow_def)

lemma dimTrue_upd: "dimBelow n l \<Longrightarrow> 0 \<le> n \<Longrightarrow> dimTrue (M(nat (n + 1) := b)) l = dimTrue M l"
  by (auto simp: dimTrue_def dimBelow_def)

lemma dimModels_append [simp]: "dimModels M (xs @ ys) = (dimModels M xs \<and> dimModels M ys)"
  by (auto simp: dimModels_def)

definition clausesBelow :: "int \<Rightarrow> int list list \<Rightarrow> bool" where
  "clausesBelow n cs = (\<forall>c \<in> set cs. \<forall>l \<in> set c. dimBelow n l)"

lemma clausesBelow_append [simp]: "clausesBelow n (xs @ ys) = (clausesBelow n xs \<and> clausesBelow n ys)"
  by (auto simp: clausesBelow_def)

lemma clausesBelow_mono: "clausesBelow n cs \<Longrightarrow> n \<le> m \<Longrightarrow> clausesBelow m cs"
  unfolding clausesBelow_def using dimBelow_mono by blast

lemma dimModels_upd: "clausesBelow n cs \<Longrightarrow> 0 \<le> n \<Longrightarrow> dimModels (M(nat (n + 1) := b)) cs = dimModels M cs"
  unfolding dimModels_def clausesBelow_def by (simp add: dimTrue_upd)

text \<open>The name of a variable and the value that a model gives to it.\<close>

definition leafName :: "var_id \<Rightarrow> string" where
  "leafName v = ''x'' @ showWord v"

lemma getName_leaf: "v \<noteq> 0 \<Longrightarrow> v \<noteq> 1 \<Longrightarrow> getName (BVar v) = Inr (leafName v)"
  by (simp add: getName_def leafName_def)

lemma leafName_inject [simp]: "leafName v = leafName w \<longleftrightarrow> v = w"
  by (simp add: leafName_def)

lemma leafName_const [simp]: "leafName v \<noteq> constName b" "constName b \<noteq> leafName v"
  by (auto simp: leafName_def constName_def)

lemma constName_inject [simp]: "constName b = constName c \<longleftrightarrow> b = c"
  by (simp add: constName_def)

definition namedValue :: "(string \<rightharpoonup> int) \<Rightarrow> (nat \<Rightarrow> bool) \<Rightarrow> var_id \<Rightarrow> bool" where
  "namedValue names M v = (case names (leafName v) of None \<Rightarrow> False | Some x \<Rightarrow> dimTrue M x)"

text \<open>An assignment agrees with an environment on the variables named so far.\<close>

definition agreesNamed :: "(string \<rightharpoonup> int) \<Rightarrow> (nat \<Rightarrow> bool) \<Rightarrow> (var_id \<Rightarrow> bool) \<Rightarrow> bool" where
  "agreesNamed names M env =
    ((\<forall>v x. names (leafName v) = Some x \<longrightarrow> dimTrue M x = env v) \<and>
     (\<forall>b x. names (constName b) = Some x \<longrightarrow> dimTrue M x = b))"

definition litMeans :: "cnf_state \<Rightarrow> bexpr \<Rightarrow> int \<Rightarrow> bool" where
  "litMeans s n l = (dimBelow (cs_nextVar s) l \<and> (\<forall>v \<in> support n. cs_names s (leafName v) \<noteq> None) \<and>
     (\<forall>M. dimModels M (cs_clauses s) \<longrightarrow> dimTrue M l = eval (namedValue (cs_names s) M) n))"

definition cnfInv :: "cnf_state \<Rightarrow> bool" where
  "cnfInv s = (0 \<le> cs_nextVar s \<and> clausesBelow (cs_nextVar s) (cs_clauses s) \<and>
     (\<forall>k x. cs_names s k = Some x \<longrightarrow> dimBelow (cs_nextVar s) x \<and> x > 0) \<and>
     (\<forall>b. constName b \<in> cs_forced s \<longleftrightarrow> cs_names s (constName b) \<noteq> None) \<and>
     (\<forall>b x. cs_names s (constName b) = Some x \<longrightarrow> [if b then x else - x] \<in> set (cs_clauses s)) \<and>
     (\<forall>env. \<exists>M. dimModels M (cs_clauses s) \<and> agreesNamed (cs_names s) M env) \<and>
     (\<forall>n l. cs_node2lit s n = Some l \<longrightarrow> litMeans s n l))"

definition cnfGrows :: "cnf_state \<Rightarrow> cnf_state \<Rightarrow> bool" where
  "cnfGrows s t = (cs_nextVar s \<le> cs_nextVar t \<and> set (cs_clauses s) \<subseteq> set (cs_clauses t) \<and>
     cs_names s \<subseteq>\<^sub>m cs_names t \<and> cs_node2lit s \<subseteq>\<^sub>m cs_node2lit t)"

lemma cnfGrows_refl: "cnfGrows s s"
  by (simp add: cnfGrows_def)

lemma cnfGrows_trans: "cnfGrows a b \<Longrightarrow> cnfGrows b c \<Longrightarrow> cnfGrows a c"
  unfolding cnfGrows_def using map_le_trans by (metis order_trans subset_trans)

lemma dimModels_subset: "set cs \<subseteq> set ds \<Longrightarrow> dimModels M ds \<Longrightarrow> dimModels M cs"
  by (auto simp: dimModels_def)

lemma litMeans_grows:
  assumes "cnfGrows s t" "litMeans s n l"
  shows "litMeans t n l"
proof -
  have names: "cs_names t (leafName v) = cs_names s (leafName v)" if "v \<in> support n" for v
    using assms that unfolding cnfGrows_def litMeans_def map_le_def by (metis domIff)
  have "eval (namedValue (cs_names t) M) n = eval (namedValue (cs_names s) M) n" for M
    by (rule eval_cong) (simp add: namedValue_def names)
  moreover have "dimBelow (cs_nextVar t) l"
    using assms dimBelow_mono unfolding cnfGrows_def litMeans_def by blast
  ultimately show ?thesis
    using assms names dimModels_subset unfolding litMeans_def cnfGrows_def by metis
qed

section \<open>One step\<close>

text \<open>A variable is added with clauses that a value of it satisfies.\<close>

lemma add_variable:
  assumes inv: "cnfInv s" and t: "cs_nextVar t = cs_nextVar s + 1" "cs_clauses t = cs_clauses s @ cs"
    "cs_names t = cs_names s" "cs_node2lit t = cs_node2lit s" "cs_forced t = cs_forced s"
    and cs: "clausesBelow (cs_nextVar t) cs"
    and sat: "\<And>M. dimModels (M(nat (cs_nextVar s + 1) := f M)) cs"
  shows "cnfInv t" "cnfGrows s t"
proof -
  let ?n = "cs_nextVar s"
  show grows: "cnfGrows s t" using t by (simp add: cnfGrows_def)
  have n: "0 \<le> ?n" and old: "clausesBelow ?n (cs_clauses s)"
    and names: "\<And>k x. cs_names s k = Some x \<Longrightarrow> dimBelow ?n x \<and> x > 0"
    using inv by (auto simp: cnfInv_def)
  have "\<exists>M. dimModels M (cs_clauses t) \<and> agreesNamed (cs_names t) M env" for env
  proof -
    obtain M where M: "dimModels M (cs_clauses s)" "agreesNamed (cs_names s) M env"
      using inv unfolding cnfInv_def by meson
    let ?M = "M(nat (?n + 1) := f M)"
    have "dimModels ?M (cs_clauses t)" using M(1) sat by (simp add: t(2) dimModels_upd [OF old n])
    moreover have "agreesNamed (cs_names t) ?M env"
      using M(2) dimTrue_upd names n unfolding agreesNamed_def t(3) by metis
    ultimately show ?thesis by blast
  qed
  moreover have "dimBelow (cs_nextVar t) x \<and> x > 0" if "cs_names s k = Some x" for k x
    using names [OF that] by (auto simp: dimBelow_def t(1))
  ultimately show "cnfInv t"
    using inv litMeans_grows [OF grows] clausesBelow_mono [OF old] cs
    unfolding cnfInv_def t by simp
qed

text \<open>A name is given to a new variable.\<close>

lemma add_name:
  assumes inv: "cnfInv s" and key: "cs_names s key = None" "key = leafName v \<or> key = constName b"
    and t: "t = s\<lparr> cs_nextVar := cs_nextVar s + 1, cs_names := (cs_names s)(key \<mapsto> cs_nextVar s + 1),
      cs_forced := forced, cs_clauses := cs_clauses s @ unit \<rparr>"
    and leaf: "key = leafName v \<Longrightarrow> unit = [] \<and> forced = cs_forced s"
    and const: "key = constName b \<Longrightarrow> unit = [[if b then cs_nextVar s + 1 else - (cs_nextVar s + 1)]] \<and>
      forced = insert key (cs_forced s)"
  shows "cnfInv t" "cnfGrows s t"
proof -
  let ?x = "cs_nextVar s + 1"
  show grows: "cnfGrows s t" using key(1) unfolding t cnfGrows_def by (auto simp: map_le_def)
  have n: "0 \<le> cs_nextVar s" and old: "clausesBelow (cs_nextVar s) (cs_clauses s)"
    and names: "\<And>k x. cs_names s k = Some x \<Longrightarrow> dimBelow (cs_nextVar s) x \<and> x > 0"
    and forced: "\<And>c. constName c \<in> cs_forced s \<longleftrightarrow> cs_names s (constName c) \<noteq> None"
    and units: "\<And>c x. cs_names s (constName c) = Some x \<Longrightarrow> [if c then x else - x] \<in> set (cs_clauses s)"
    using inv unfolding cnfInv_def by blast+
  have unit: "clausesBelow ?x unit" using n leaf const key(2) by (cases b) (auto simp: clausesBelow_def dimBelow_def)
  have "\<exists>M. dimModels M (cs_clauses t) \<and> agreesNamed (cs_names t) M env" for env
  proof -
    obtain M where M: "dimModels M (cs_clauses s)" "agreesNamed (cs_names s) M env"
      using inv unfolding cnfInv_def by meson
    let ?M = "M(nat ?x := (if key = constName b then b else env v))"
    have x: "dimTrue ?M ?x = (if key = constName b then b else env v)" using n by (simp add: dimTrue_def)
    have "dimModels ?M unit" using leaf const key(2) x n by (auto simp: dimModels_def dimTrue_def)
    then have "dimModels ?M (cs_clauses t)" using M(1) by (simp add: t dimModels_upd [OF old n])
    moreover have "agreesNamed (cs_names t) ?M env"
    proof -
      have prev: "dimTrue ?M y = dimTrue M y" if "cs_names s k = Some y" for k y
        using dimTrue_upd [OF _ n] names that by blast
      have 1: "dimTrue ?M y = env w" if "((cs_names s)(key \<mapsto> ?x)) (leafName w) = Some y" for w y
        using that x prev M(2) key(2) unfolding agreesNamed_def by (cases "key = leafName w") auto
      have 2: "dimTrue ?M y = c" if "((cs_names s)(key \<mapsto> ?x)) (constName c) = Some y" for c y
        using that x prev M(2) key(2) unfolding agreesNamed_def by (cases "key = constName c") auto
      show ?thesis using 1 2 by (simp add: t agreesNamed_def)
    qed
    ultimately show ?thesis by blast
  qed
  moreover have "constName c \<in> forced \<longleftrightarrow> ((cs_names s)(key \<mapsto> ?x)) (constName c) \<noteq> None" for c
    using forced [of c] leaf const key(2) by auto
  moreover have "[if c then y else - y] \<in> set (cs_clauses s @ unit)"
    if "((cs_names s)(key \<mapsto> ?x)) (constName c) = Some y" for c y
    using that units [of c y] const key(2) by (auto split: if_splits)
  moreover have "dimBelow ?x y \<and> y > 0" if "((cs_names s)(key \<mapsto> ?x)) k = Some y" for k y
  proof (cases "k = key")
    case True
    then show ?thesis using that n by (auto simp: dimBelow_def)
  next
    case False
    then show ?thesis using that names [of k y] by (auto simp: dimBelow_def)
  qed
  moreover have "clausesBelow ?x (cs_clauses s @ unit)" using clausesBelow_mono [OF old] unit by simp
  moreover have "litMeans t m l" if "cs_node2lit s m = Some l" for m l
    using litMeans_grows [OF grows] that inv by (auto simp: cnfInv_def)
  ultimately show "cnfInv t" using n unfolding cnfInv_def t by simp
qed


lemma set_literal:
  assumes "cnfInv s" "litMeans s n l" "cs_node2lit s n = None"
  shows "cnfInv (setNodeLit n l s)" "cnfGrows s (setNodeLit n l s)"
proof -
  show grows: "cnfGrows s (setNodeLit n l s)"
    using assms(3) by (auto simp: cnfGrows_def setNodeLit_def map_le_def)
  show "cnfInv (setNodeLit n l s)"
    using assms litMeans_grows [OF grows] unfolding cnfInv_def by (simp add: setNodeLit_def)
qed

lemma getOrCreateVar_leaf:
  assumes inv: "cnfInv s" and r: "getOrCreateVar (leafName v) s = (x, t)"
  shows "cnfInv t \<and> cnfGrows s t \<and> cs_names t (leafName v) = Some x \<and> cs_node2lit t = cs_node2lit s"
proof (cases "cs_names s (leafName v)")
  case None
  then have t: "t = s\<lparr> cs_nextVar := cs_nextVar s + 1, cs_names := (cs_names s)(leafName v \<mapsto> cs_nextVar s + 1),
      cs_forced := cs_forced s, cs_clauses := cs_clauses s @ [] \<rparr>" and x: "x = cs_nextVar s + 1"
    using r by (auto simp: getOrCreateVar_def allocVar_def emplace_def)
  show ?thesis using add_name [OF inv None _ t, of v] by (simp add: t x)
next
  case (Some y)
  then show ?thesis using r inv by (simp add: getOrCreateVar_def cnfGrows_refl)
qed

lemma constVar_ok:
  assumes inv: "cnfInv s" and r: "constVar b s = (x, t)"
  shows "cnfInv t \<and> cnfGrows s t \<and> cs_names t (constName b) = Some x \<and> cs_node2lit t = cs_node2lit s"
proof (cases "cs_names s (constName b)")
  case None
  then have "constName b \<notin> cs_forced s" using inv by (simp add: cnfInv_def)
  then have t: "t = s\<lparr> cs_nextVar := cs_nextVar s + 1, cs_names := (cs_names s)(constName b \<mapsto> cs_nextVar s + 1),
      cs_forced := insert (constName b) (cs_forced s),
      cs_clauses := cs_clauses s @ [[if b then cs_nextVar s + 1 else - (cs_nextVar s + 1)]] \<rparr>"
    and x: "x = cs_nextVar s + 1"
    using r None by (auto simp: constVar_def getOrCreateVar_def allocVar_def emplace_def pushClauses_def)
  show ?thesis using add_name [OF inv None _ t, of undefined b] by (simp add: t x)
next
  case (Some y)
  then have "constName b \<in> cs_forced s" using inv by (simp add: cnfInv_def)
  then show ?thesis using r inv Some by (simp add: constVar_def getOrCreateVar_def cnfGrows_refl)
qed

lemma leafGiven_ok:
  assumes inv: "cnfInv s"
  shows "\<exists>x t. leafGiven (BVar v) s = Inr (x, t) \<and> cnfInv t \<and> cnfGrows s t \<and> litMeans t (BVar v) x \<and>
    cs_node2lit t = cs_node2lit s"
proof -
  have unit: "litMeans t (BVar v) x" if "cnfInv t" "cs_names t (constName b) = Some x" "v = (if b then 1 else 0)" for t x b
  proof -
    have "[if b then x else - x] \<in> set (cs_clauses t)" "dimBelow (cs_nextVar t) x" "x > 0"
      using that unfolding cnfInv_def by blast+
    then have "dimTrue M x = b" if "dimModels M (cs_clauses t)" for M
      using that by (cases b) (force simp: dimModels_def)+
    then show ?thesis using that(3) \<open>dimBelow (cs_nextVar t) x\<close> by (cases b) (auto simp: litMeans_def)
  qed
  consider "v = 0" | "v = 1" | "v \<noteq> 0" "v \<noteq> 1" by blast
  then show ?thesis
  proof cases
    case 1
    obtain x t where r: "constVar False s = (x, t)" by fastforce
    then show ?thesis using constVar_ok [OF inv r] unit [of t False x] 1 by (simp add: leafGiven_def)
  next
    case 2
    obtain x t where r: "constVar True s = (x, t)" by fastforce
    then show ?thesis using constVar_ok [OF inv r] unit [of t True x] 2 by (simp add: leafGiven_def)
  next
    case 3
    obtain x t where r: "getOrCreateVar (leafName v) s = (x, t)" by fastforce
    note ok = getOrCreateVar_leaf [OF inv r]
    then have "dimBelow (cs_nextVar t) x" unfolding cnfInv_def by blast
    then have "litMeans t (BVar v) x" using ok 3 by (auto simp: litMeans_def namedValue_def)
    then show ?thesis using ok 3 r by (simp add: leafGiven_def getName_leaf)
  qed
qed

section \<open>The pass\<close>

fun gateValue :: "op \<Rightarrow> bool \<Rightarrow> bool \<Rightarrow> bool" where
  "gateValue OpNOT a b = (\<not> a)"
| "gateValue OpAND a b = (a \<and> b)"
| "gateValue OpOR a b = (a \<or> b)"
| "gateValue _ a b = (a \<noteq> b)"

lemma gateClauses_ok:
  assumes "gateClauses k lit l r = Inr cs" "dimBelow n lit" "dimBelow n l" "k \<noteq> OpNOT \<Longrightarrow> dimBelow n r"
  shows "clausesBelow n cs" "dimModels M cs = (dimTrue M lit = gateValue k (dimTrue M l) (dimTrue M r))"
  using assms by (auto simp: gateClauses_def clausesBelow_def dimModels_def split: op.splits)

lemma add_gate:
  assumes inv: "cnfInv s" and new: "cs_node2lit s n = None"
    and l: "litMeans s a l" and r: "k \<noteq> OpNOT \<Longrightarrow> litMeans s b r"
    and cs: "gateClauses k (cs_nextVar s + 1) l r = Inr cs"
    and supp: "support n = support a \<union> (if k = OpNOT then {} else support b)"
    and ev: "\<And>env. eval env n = gateValue k (eval env a) (eval env b)"
    and t: "t = pushClauses cs (setNodeLit n (cs_nextVar s + 1) (s\<lparr> cs_nextVar := cs_nextVar s + 1 \<rparr>))"
  shows "cnfInv t \<and> cnfGrows s t \<and> cs_node2lit t n \<noteq> None"
proof -
  let ?x = "cs_nextVar s + 1"
  let ?u = "pushClauses cs (s\<lparr> cs_nextVar := ?x \<rparr>)"
  have n: "0 \<le> cs_nextVar s" using inv by (simp add: cnfInv_def)
  have bl: "dimBelow (cs_nextVar s) l" and br: "k \<noteq> OpNOT \<Longrightarrow> dimBelow (cs_nextVar s) r"
    using l r by (simp_all add: litMeans_def)
  have x: "dimBelow ?x ?x" using n by (simp add: dimBelow_def)
  have up: "dimBelow ?x l" "k \<noteq> OpNOT \<Longrightarrow> dimBelow ?x r" using bl br dimBelow_mono [of "cs_nextVar s"] by simp_all
  note gate = gateClauses_ok [OF cs x up]
  let ?f = "\<lambda>M. gateValue k (dimTrue M l) (dimTrue M r)"
  have sat: "dimModels (M(nat ?x := ?f M)) cs" for M
  proof -
    have "dimTrue (M(nat ?x := ?f M)) ?x = ?f M" using n by (simp add: dimTrue_def)
    moreover have "gateValue k (dimTrue (M(nat ?x := ?f M)) l) (dimTrue (M(nat ?x := ?f M)) r) = ?f M"
      using dimTrue_upd [OF bl n] dimTrue_upd [OF br n] by (cases k) simp_all
    ultimately show ?thesis using gate(2) by simp
  qed
  have u: "cnfInv ?u" "cnfGrows s ?u"
    by (rule add_variable [OF inv, where cs = cs and f = ?f];
        use gate(1) sat in \<open>simp add: pushClauses_def\<close>)+
  have la: "litMeans ?u a l" and rb: "k \<noteq> OpNOT \<Longrightarrow> litMeans ?u b r"
    using litMeans_grows [OF u(2)] l r by simp_all
  have "dimTrue M ?x = eval (namedValue (cs_names ?u) M) n" if "dimModels M (cs_clauses ?u)" for M
    using that gate(2) [of M] la rb ev by (cases k) (simp_all add: litMeans_def pushClauses_def)
  then have "litMeans ?u n ?x"
    using x la rb supp by (auto simp: litMeans_def pushClauses_def split: if_splits)
  moreover have tu: "t = setNodeLit n ?x ?u" by (simp add: t setNodeLit_def pushClauses_def)
  ultimately show ?thesis
    using set_literal [OF u(1), of n ?x] new cnfGrows_trans [OF u(2)]
    by (simp add: tu) (simp add: pushClauses_def setNodeLit_def)
qed

lemma gateClauses_total:
  assumes "getOp n \<noteq> OpVAR"
  obtains cs where "gateClauses (getOp n) lit l r = Inr cs"
  using assms by (cases n) (auto simp: gateClauses_def)

lemma finishGate_ok:
  assumes keys: "operandsSwapped keys n = Inr sw" and inv: "cnfInv s" and new: "cs_node2lit s n = None"
    and kids: "\<And>c. c \<in> set (children n) \<Longrightarrow> cs_node2lit s c \<noteq> None"
  shows "\<exists>t. finishGate keys n s = Inr t \<and> cnfInv t \<and> cnfGrows s t \<and> cs_node2lit t n \<noteq> None"
proof (cases "getOp n = OpVAR")
  case True
  then obtain v where v: "n = BVar v" by (cases n) auto
  obtain x t where xt: "leafGiven (BVar v) s = Inr (x, t)" "cnfInv t" "cnfGrows s t" "litMeans t (BVar v) x"
    "cs_node2lit t = cs_node2lit s" using leafGiven_ok [OF inv] by blast
  then show ?thesis
    using set_literal [OF xt(2,4)] new cnfGrows_trans [OF xt(3)]
    by (auto simp: v finishGate_def) (simp add: setNodeLit_def)
next
  case False
  have lit: "\<exists>l. cs_node2lit s c = Some l \<and> nodeLit s (Some c) = l \<and> litMeans s c l" if "c \<in> set (children n)" for c
    using kids [OF that] inv by (auto simp: cnfInv_def nodeLit_def)
  let ?l = "nodeLit s (if sw then getRight n else getLeft n)"
  let ?r = "nodeLit s (if sw then getLeft n else getRight n)"
  let ?s = "s\<lparr> cs_nextVar := cs_nextVar s + 1 \<rparr>"
  obtain cs where cs: "gateClauses (getOp n) (cs_nextVar s + 1) ?l ?r = Inr cs"
    using gateClauses_total [OF False] by blast
  have run: "finishGate keys n s = Inr (pushClauses cs (setNodeLit n (cs_nextVar s + 1) ?s))"
    using False keys cs by (simp add: finishGate_def allocVar_def)
  have binary: ?thesis if "getLeft n = Some a" "getRight n = Some b" "getOp n \<noteq> OpNOT"
    and "support n = support a \<union> support b"
    and "\<And>env. eval env n = gateValue (getOp n) (eval env a) (eval env b)"
    and "\<And>env. eval env n = gateValue (getOp n) (eval env b) (eval env a)" for a b
  proof -
    have ab: "litMeans s a (nodeLit s (Some a))" "litMeans s b (nodeLit s (Some b))"
      using lit [of a] lit [of b] that(1,2) by (auto simp: children_def)
    show ?thesis
    proof (cases sw)
      case True
      then show ?thesis
        using add_gate [OF inv new ab(2) ab(1) _ _ that(6) refl] cs that by (simp add: run Un_commute)
    next
      case False
      then show ?thesis
        using add_gate [OF inv new ab(1) ab(2) _ _ that(5) refl] cs that by (simp add: run)
    qed
  qed
  show ?thesis
  proof (cases n)
    case (BNot a)
    have "litMeans s a (nodeLit s (Some a))" using lit [of a] by (auto simp: BNot)
    moreover have "sw = False" using keys by (simp add: BNot operandsSwapped_def)
    ultimately show ?thesis using add_gate [OF inv new, of a _ OpNOT _ _ cs, OF _ _ _ _ _ refl] cs run by (simp add: BNot)
  qed (use False binary in auto)
qed

lemma finishGate_Inr:
  assumes "finishGate keys n s = Inr t" "cnfInv s" "cs_node2lit s n = None"
    "\<And>c. c \<in> set (children n) \<Longrightarrow> cs_node2lit s c \<noteq> None"
  shows "cnfInv t \<and> cnfGrows s t \<and> cs_node2lit t n \<noteq> None"
proof -
  obtain sw where sw: "operandsSwapped keys n = Inr sw"
  proof (cases "getOp n = OpVAR")
    case True
    then have "operandsSwapped keys n = Inr False" by (cases n) (auto simp: operandsSwapped_def)
    then show ?thesis by (rule that)
  next
    case False
    then show ?thesis using assms(1) that by (auto simp: finishGate_def bindE_Inr_iff)
  qed
  show ?thesis using finishGate_ok [OF sw assms(2-4)] assms(1) by auto
qed

interpretation gate_pass: total_postorder "gateVisitor keys" cnfInv cnfGrows
  "\<lambda>n. keysInv keys \<and> subs n \<subseteq> dom keys" for keys
proof
  fix n :: bexpr and s t :: cnf_state and c
  show "cnfGrows s t \<Longrightarrow> v_done (gateVisitor keys) s n \<Longrightarrow> v_done (gateVisitor keys) t n"
    by (auto simp: gateVisitor_def cnfGrows_def map_le_def dom_def)
  show "cnfInv s \<Longrightarrow> v_enter (gateVisitor keys) n s = Inr t \<Longrightarrow> cnfInv t \<and> cnfGrows s t"
    by (auto simp: gateVisitor_def bindE_Inr_iff cnfGrows_refl)
  show "cnfInv s \<Longrightarrow> \<not> v_done (gateVisitor keys) s n \<Longrightarrow>
      (\<And>c. c \<in> set (children n) \<Longrightarrow> v_done (gateVisitor keys) s c) \<Longrightarrow> v_finish (gateVisitor keys) n s = Inr t \<Longrightarrow>
      cnfInv t \<and> cnfGrows s t \<and> v_done (gateVisitor keys) t n"
    using finishGate_Inr [of keys n s t] by (simp add: gateVisitor_def)
  assume good: "keysInv keys \<and> subs n \<subseteq> dom keys"
  then have sw: "operandsSwapped keys n = Inr (swapsOperands n)" using operandsSwapped_ok by blast
  show "c \<in> set (children n) \<Longrightarrow> keysInv keys \<and> subs c \<subseteq> dom keys"
    using good subs_children [of n] by blast
  show "\<exists>t. v_enter (gateVisitor keys) n s = Inr t" using sw by (simp add: gateVisitor_def)
  show "cnfInv s \<Longrightarrow> \<not> v_done (gateVisitor keys) s n \<Longrightarrow>
      (\<And>c. c \<in> set (children n) \<Longrightarrow> v_done (gateVisitor keys) s c) \<Longrightarrow>
      \<exists>t. v_finish (gateVisitor keys) n s = Inr t"
    using finishGate_ok [OF sw, of s] by (auto simp: gateVisitor_def)
qed (auto simp: gateVisitor_def cnfGrows_refl intro: cnfGrows_trans)

lemma cnfInv_empty: "cnfInv emptyCnfState"
  by (simp add: cnfInv_def emptyCnfState_def clausesBelow_def dimModels_def agreesNamed_def)

text \<open>What the exported formula says of the expression.\<close>

definition cnfMeans :: "cnf_formula \<Rightarrow> bexpr \<Rightarrow> bool" where
  "cnfMeans c e =
    (dimBelow (cf_numVars c) (cf_rootLit c) \<and> clausesBelow (cf_numVars c) (cf_clauses c) \<and>
     (\<forall>v \<in> support e. cf_varNameToDimacs c (leafName v) \<noteq> None) \<and>
     (\<forall>M. dimModels M (cf_clauses c) \<longrightarrow>
        dimTrue M (cf_rootLit c) = eval (namedValue (cf_varNameToDimacs c) M) e) \<and>
     (\<forall>env. \<exists>M. dimModels M (cf_clauses c) \<and> (\<forall>v \<in> support e. namedValue (cf_varNameToDimacs c) M v = env v)))"

lemma encodeBoolExprToCnf_ok:
  obtains c where "encodeBoolExprToCnf (Some e) = Inr c" "cnfMeans c e"
proof -
  obtain keys where keys: "buildStableKeys e = Inr keys" "keysInv keys" "subs e \<subseteq> dom keys"
    by (rule buildStableKeys_ok)
  obtain s where s: "postLoop (gateVisitor keys) [(e, False)] emptyCnfState = Inr s" "cnfInv s"
      "v_done (gateVisitor keys) s e"
    using gate_pass.loop_total [of keys e, OF _ cnfInv_empty] keys(2,3) by blast
  then obtain l where l: "cs_node2lit s e = Some l" by (auto simp: gateVisitor_def)
  then have m: "litMeans s e l" using s(2) by (simp add: cnfInv_def)
  let ?c = "\<lparr> cf_numVars = cs_nextVar s, cf_rootLit = l, cf_clauses = cs_clauses s, cf_varNameToDimacs = cs_names s \<rparr>"
  have "\<exists>M. dimModels M (cs_clauses s) \<and> (\<forall>v \<in> support e. namedValue (cs_names s) M v = env v)" for env
  proof -
    obtain M where M: "dimModels M (cs_clauses s)" "agreesNamed (cs_names s) M env"
      using s(2) unfolding cnfInv_def by meson
    have "namedValue (cs_names s) M v = env v" if v: "v \<in> support e" for v
    proof -
      obtain x where "cs_names s (leafName v) = Some x" using m v unfolding litMeans_def by blast
      then show ?thesis using M(2) by (simp add: agreesNamed_def namedValue_def)
    qed
    then show ?thesis using M(1) by blast
  qed
  moreover have "clausesBelow (cs_nextVar s) (cs_clauses s)" using s(2) unfolding cnfInv_def by blast
  moreover have "dimBelow (cs_nextVar s) l" "\<forall>v \<in> support e. cs_names s (leafName v) \<noteq> None"
    "\<forall>M. dimModels M (cs_clauses s) \<longrightarrow> dimTrue M l = eval (namedValue (cs_names s) M) e"
    using m unfolding litMeans_def by blast+
  ultimately have "cnfMeans ?c e" unfolding cnfMeans_def by simp
  then show ?thesis using that [of ?c] keys s(1) l by (simp add: encodeBoolExprToCnf_def nodeLit_def)
qed

lemma cnfMeans_root:
  "cnfMeans c e \<Longrightarrow> dimModels M (cf_clauses c) \<Longrightarrow>
    dimTrue M (cf_rootLit c) = eval (namedValue (cf_varNameToDimacs c) M) e"
  unfolding cnfMeans_def by blast

lemma cnfMeans_extend:
  assumes "cnfMeans c e"
  shows "\<exists>M. dimModels M (cf_clauses c) \<and> (\<forall>v \<in> support e. namedValue (cf_varNameToDimacs c) M v = env v)"
proof -
  have "\<forall>env. \<exists>M. dimModels M (cf_clauses c) \<and> (\<forall>v \<in> support e. namedValue (cf_varNameToDimacs c) M v = env v)"
    using assms unfolding cnfMeans_def by (elim conjE)
  from spec [OF this, of env] show ?thesis .
qed

lemma cnf_satisfiable:
  assumes "cnfMeans c e"
  shows "(\<exists>M. dimModels M (cf_clauses c @ [[cf_rootLit c]])) \<longleftrightarrow> (\<exists>env. eval env e)"
proof
  assume "\<exists>M. dimModels M (cf_clauses c @ [[cf_rootLit c]])"
  then show "\<exists>env. eval env e" using cnfMeans_root [OF assms] by (auto simp: dimModels_def)
next
  assume "\<exists>env. eval env e"
  then obtain env where env: "eval env e" by blast
  obtain M where M: "dimModels M (cf_clauses c)" "\<forall>v \<in> support e. namedValue (cf_varNameToDimacs c) M v = env v"
    using cnfMeans_extend [OF assms, of env] by blast
  have "eval (namedValue (cf_varNameToDimacs c) M) e = eval env e" by (rule eval_cong) (use M in simp)
  then have "dimTrue M (cf_rootLit c)" using cnfMeans_root [OF assms M(1)] env by simp
  then have "dimModels M (cf_clauses c @ [[cf_rootLit c]])" using M(1) by (simp add: dimModels_def)
  then show "\<exists>M. dimModels M (cf_clauses c @ [[cf_rootLit c]])" by blast
qed

end
