(* ===== verification/Cnf_Text.thy ===== *)
theory Cnf_Text
  imports Cnf_Writer_Correct
begin

text \<open>
  The DIMACS text read back.  The reader splits lines at the newline and numbers at the space; it
  is the meaning of the format, against which \<open>writeDimacsCnf\<close> is judged.
\<close>

section \<open>A reader\<close>

fun splitOn :: "char \<Rightarrow> string \<Rightarrow> string list" where
  "splitOn d [] = [[]]"
| "splitOn d (c # cs) =
    (if c = d then [] # splitOn d cs
     else (case splitOn d cs of [] \<Rightarrow> [[c]] | w # ws \<Rightarrow> (c # w) # ws))"

definition readInt :: "string \<Rightarrow> int" where
  "readInt s = (case s of [] \<Rightarrow> 0 | c # r \<Rightarrow>
     if c = CHR ''-'' then - int (readDigits r) else int (readDigits s))"

definition readClause :: "string \<Rightarrow> int list" where
  "readClause line = butlast (map readInt (splitOn (CHR '' '') line))"

definition readDimacs :: "string \<Rightarrow> (int \<times> int \<times> int list list) option" where
  "readDimacs text =
    (case splitOn (CHR 0x0A) text of
       [] \<Rightarrow> None
     | header # rest \<Rightarrow>
        (case splitOn (CHR '' '') header of
           [p, f, n, m] \<Rightarrow> if p = ''p'' \<and> f = ''cnf''
             then Some (readInt n, readInt m, map readClause (butlast rest)) else None
         | _ \<Rightarrow> None))"

lemma splitOn_last: "d \<notin> set x \<Longrightarrow> splitOn d x = [x]"
  by (induction x) auto

lemma splitOn_sep: "d \<notin> set x \<Longrightarrow> splitOn d (x @ d # y) = x # splitOn d y"
  by (induction x) auto

lemma splitOn_many:
  "(\<And>x. x \<in> set xs \<Longrightarrow> d \<notin> set x) \<Longrightarrow> splitOn d (concat (map (\<lambda>x. x @ [d]) xs) @ y) = xs @ splitOn d y"
  by (induction xs) (simp_all add: splitOn_sep)

lemma showNat_chars: "c \<in> set (showNat n) \<Longrightarrow> 48 \<le> (of_char c :: nat)"
  using showNat_digits [of c n] by (simp add: isDigit_def)

lemma showInt_chars:
  assumes "c \<in> set (showInt k)"
  shows "45 \<le> (of_char c :: nat)"
  using assms showNat_chars by (fastforce simp: showInt_def split: if_splits)

lemma showInt_free [simp]:
  "CHR '' '' \<notin> set (showInt k)" "CHR 0x0A \<notin> set (showInt k)"
  "CHR '' '' \<notin> set (showNat n)" "CHR 0x0A \<notin> set (showNat n)"
  using showInt_chars [of "CHR '' ''" k] showInt_chars [of "CHR 0x0A" k]
    showNat_chars [of "CHR '' ''" n] showNat_chars [of "CHR 0x0A" n] by auto

lemma readInt_showNat [simp]: "readInt (showNat n) = int n"
proof (cases "showNat n")
  case (Cons c r)
  then have "c \<noteq> CHR ''-''" using showNat_chars [of c n] by auto
  then show ?thesis using Cons readDigits_showNat [of n] by (simp add: readInt_def)
qed simp

lemma readInt_showInt [simp]: "readInt (showInt k) = k"
proof (cases "k < 0")
  case True
  then show ?thesis by (simp add: readInt_def showInt_def)
qed (simp add: showInt_def)

section \<open>The round trip\<close>

definition numberLine :: "int list \<Rightarrow> string" where
  "numberLine ls = concat (map (\<lambda>x. x @ [CHR '' '']) (map showInt ls)) @ ''0''"

lemma numberLine_free: "CHR 0x0A \<notin> set (numberLine ls)"
  by (auto simp: numberLine_def)

lemma readClause_numberLine [simp]: "readClause (numberLine ls) = ls"
proof -
  have "splitOn (CHR '' '') (numberLine ls) = map showInt ls @ [''0'']"
    unfolding numberLine_def by (subst splitOn_many) auto
  then show ?thesis by (simp add: readClause_def o_def)
qed

lemma clausePieces_number: "concat (clausePieces ls) = numberLine ls @ newline"
  by (induction ls) (simp_all add: clausePieces_def numberLine_def)

definition dimacsClauses :: "cnf_formula \<Rightarrow> bool \<Rightarrow> int list list" where
  "dimacsClauses c assertRoot = cf_clauses c @ (if assertRoot then [[cf_rootLit c]] else [])"

definition dimacsText :: "cnf_formula \<Rightarrow> bool \<Rightarrow> string" where
  "dimacsText cnf assertRoot = concat (dimacsPieces cnf assertRoot)"

lemma dimacsText_lines:
  "dimacsText c assertRoot =
    (''p cnf '' @ showInt (cf_numVars c) @ '' '' @ showNat (length (dimacsClauses c assertRoot))) @
      CHR 0x0A # concat (map (\<lambda>x. x @ [CHR 0x0A]) (map numberLine (dimacsClauses c assertRoot))) @ []"
proof -
  have lines: "concat (concat (map clausePieces cs)) = concat (map (\<lambda>x. x @ [CHR 0x0A]) (map numberLine cs))" for cs
    by (induction cs) (simp_all add: clausePieces_number newline_def)
  have unit: "showInt k @ '' 0'' = numberLine [k]" for k
    by (simp add: numberLine_def)
  show ?thesis
    by (simp add: dimacsText_def dimacsPieces_def dimacsClauses_def lines unit newline_def)
qed

lemma read_written:
  "readDimacs (dimacsText c assertRoot) =
    Some (cf_numVars c, int (length (dimacsClauses c assertRoot)), dimacsClauses c assertRoot)"
proof -
  let ?h = "''p cnf '' @ showInt (cf_numVars c) @ '' '' @ showNat (length (dimacsClauses c assertRoot))"
  have "splitOn (CHR 0x0A) (dimacsText c assertRoot) =
      ?h # map numberLine (dimacsClauses c assertRoot) @ [[]]"
  proof -
    have "CHR 0x0A \<notin> set ?h" by simp
    from splitOn_sep [OF this] show ?thesis
      unfolding dimacsText_lines by (simp only:) (subst splitOn_many, auto simp: numberLine_free)
  qed
  moreover have "splitOn (CHR '' '') ?h = [''p'', ''cnf'', showInt (cf_numVars c), showNat (length (dimacsClauses c assertRoot))]"
    using splitOn_sep [of "CHR '' ''" "showInt (cf_numVars c)" "showNat (length (dimacsClauses c assertRoot))"]
    by (simp add: splitOn_last)
  ultimately show ?thesis by (simp add: readDimacs_def o_def)
qed

section \<open>The stream\<close>

lemma putChar_bad: "\<not> os_good out \<Longrightarrow> fold (putChar accepts) cs out = out"
  by (induction cs) (simp_all add: putChar_def)

lemma putChar_all:
  "(os_good (fold (putChar accepts) cs out) \<longrightarrow> os_text (fold (putChar accepts) cs out) = os_text out @ cs) \<and>
   (\<exists>rest. os_text out @ cs = os_text (fold (putChar accepts) cs out) @ rest) \<and>
   (os_good out \<longrightarrow> (\<forall>t rest. os_text out @ cs = t @ rest \<longrightarrow> accepts t) \<longrightarrow> os_good (fold (putChar accepts) cs out))"
proof (induction cs arbitrary: out)
  case (Cons c cs)
  show ?case
  proof (cases "os_good out \<and> accepts (os_text out @ [c])")
    case True
    then have "putChar accepts c out = out\<lparr> os_text := os_text out @ [c] \<rparr>" by (simp add: putChar_def)
    then show ?thesis using Cons.IH [of "out\<lparr> os_text := os_text out @ [c] \<rparr>"] True by simp
  next
    case False
    then have bad: "\<not> os_good (putChar accepts c out)" "os_text (putChar accepts c out) = os_text out"
      by (simp_all add: putChar_def)
    have "os_text out @ c # cs = (os_text out @ [c]) @ cs" by simp
    then show ?thesis using bad putChar_bad [OF bad(1)] False by (metis fold_simps(2))
  qed
qed simp

lemma streamPut_pieces: "fold (streamPut accepts) ps out = fold (putChar accepts) (concat ps) out"
  by (induction ps arbitrary: out) (simp_all add: streamPut_def)

text \<open>A reader of the file decides the satisfiability of the expression.\<close>

lemma dump_decides:
  "\<exists>text n cs. readDimacs text = Some (n, int (length cs), cs) \<and>
    clausesBelow n cs \<and> ((\<exists>M. dimModels M cs) \<longleftrightarrow> (\<exists>env. eval env e)) \<and>
    (\<exists>ok out. dumpBoolExprToDimacs accepts (Some e) True True = Inr (ok, Some out) \<and>
      (ok \<longrightarrow> os_text out = text) \<and> (\<exists>rest. text = os_text out @ rest) \<and>
      ((\<forall>t rest. text = t @ rest \<longrightarrow> accepts t) \<longrightarrow> ok))"
proof -
  obtain c where c: "encodeBoolExprToCnf (Some e) = Inr c" "cnfMeans c e" by (rule encodeBoolExprToCnf_ok)
  let ?new = "\<lparr> os_text = [], os_good = True \<rparr>"
  let ?out = "fold (streamPut accepts) (dimacsPieces c True) ?new"
  have r: "dumpBoolExprToDimacs accepts (Some e) True True = Inr (os_good ?out, Some ?out)"
    using c(1) by (simp add: dumpBoolExprToDimacs_def dumpDimacsCnf_def writeDimacsCnf_def Let_def)
  have cs: "dimacsClauses c True = cf_clauses c @ [[cf_rootLit c]]" by (simp add: dimacsClauses_def)
  have below: "clausesBelow (cf_numVars c) (dimacsClauses c True)"
    using c(2) unfolding cnfMeans_def cs by (auto simp: clausesBelow_def)
  have sat: "(\<exists>M. dimModels M (dimacsClauses c True)) \<longleftrightarrow> (\<exists>env. eval env e)"
    using cnf_satisfiable [OF c(2)] unfolding cs .
  have out: "os_good ?out \<longrightarrow> os_text ?out = dimacsText c True" "\<exists>rest. dimacsText c True = os_text ?out @ rest"
    "(\<forall>t rest. dimacsText c True = t @ rest \<longrightarrow> accepts t) \<longrightarrow> os_good ?out"
    using putChar_all [of accepts "concat (dimacsPieces c True)" ?new] by (simp_all add: dimacsText_def streamPut_pieces)
  show ?thesis
    by (rule exI [of _ "dimacsText c True"], rule exI [of _ "cf_numVars c"], rule exI [of _ "dimacsClauses c True"])
      (use r read_written [of c True] below sat out in blast)
qed

end
