(* ===== verification/Cnf_Stable.thy ===== *)
theory Cnf_Stable
  imports Cnf_Text
begin

text \<open>
  Stability of the export.  The factories order the operands of commutative gates by properties of
  the nodes that differ from run to run; the exporter's own keys do not.  Two expressions that
  differ in the order of such operands have the same keys, and when the keys tell their nodes
  apart they are exported to the same formula, clause for clause.
\<close>

section \<open>The order of the keys\<close>

lemma stableLess_asym: "stableLess a b \<Longrightarrow> \<not> stableLess b a"
  unfolding stableLess_def by auto

lemma stableLess_total: "\<not> stableLess a b \<Longrightarrow> \<not> stableLess b a \<Longrightarrow> a = b"
  unfolding stableLess_def by (auto intro!: stable_key.equality)

lemma orderKeys_commute:
  "isCommutative k \<Longrightarrow> orderKeys k (Some a) (Some b) = orderKeys k (Some b) (Some a)"
  using stableLess_asym [of a b] stableLess_total [of a b] by (auto simp: orderKeys_def)

lemma commutative_ops [simp]: "isCommutative OpAND" "isCommutative OpOR" "isCommutative OpXOR"
  by (simp_all add: isCommutative_def)

section \<open>Expressions up to the order of operands\<close>

fun commEq :: "bexpr \<Rightarrow> bexpr \<Rightarrow> bool" where
  "commEq (BVar v) (BVar w) = (v = w)"
| "commEq (BNot a) (BNot c) = commEq a c"
| "commEq (BAnd a b) (BAnd c d) = (commEq a c \<and> commEq b d \<or> commEq a d \<and> commEq b c)"
| "commEq (BOr a b) (BOr c d) = (commEq a c \<and> commEq b d \<or> commEq a d \<and> commEq b c)"
| "commEq (BXor a b) (BXor c d) = (commEq a c \<and> commEq b d \<or> commEq a d \<and> commEq b c)"
| "commEq _ _ = False"

lemma commEq_stableKey: "commEq e e' \<Longrightarrow> stableKey e = stableKey e'"
  by (induction e e' rule: commEq.induct) (auto simp: orderKeys_commute)

lemma commEq_getOp: "commEq e e' \<Longrightarrow> getOp e = getOp e'"
  by (cases "(e, e')" rule: commEq.cases) auto

definition keysDistinct :: "bexpr \<Rightarrow> bool" where
  "keysDistinct e = (\<forall>n \<in> subs e. \<forall>m \<in> subs e. stableKey n = stableKey m \<longrightarrow> n = m)"

lemma keysDistinct_commEq:
  assumes "keysDistinct e'" "commEq n n'" "commEq n m'" "n' \<in> subs e'" "m' \<in> subs e'"
  shows "m' = n'"
  using assms commEq_stableKey unfolding keysDistinct_def by metis

lemma keysDistinct_commEq_left:
  assumes "keysDistinct e" "commEq n n'" "commEq m n'" "n \<in> subs e" "m \<in> subs e"
  shows "m = n"
  using assms commEq_stableKey unfolding keysDistinct_def by metis

definition ordered :: "bexpr \<Rightarrow> bexpr list" where
  "ordered n = (if swapsOperands n then rev (children n) else children n)"

lemma set_ordered [simp]: "set (ordered n) = set (children n)"
  by (simp add: ordered_def)

lemma ordered_binary:
  assumes key: "swapsOperands n = stableLess (stableKey b) (stableKey a)" "children n = [a, b]"
    and key': "swapsOperands n' = stableLess (stableKey d) (stableKey c)" "children n' = [c, d]"
    and eq: "commEq a c \<and> commEq b d \<or> commEq a d \<and> commEq b c"
    and same: "stableKey a = stableKey b \<Longrightarrow> a = b" "stableKey c = stableKey d \<Longrightarrow> c = d"
  shows "list_all2 commEq (ordered n) (ordered n')"
proof -
  have straight: ?thesis if "commEq a c" "commEq b d"
    using that commEq_stableKey [OF that(1)] commEq_stableKey [OF that(2)]
    by (simp add: ordered_def key key')
  show ?thesis
  proof (cases "commEq a c \<and> commEq b d")
    case False
    then have x: "commEq a d" "commEq b c" using eq by blast+
    note k = commEq_stableKey [OF x(1)] commEq_stableKey [OF x(2)]
    show ?thesis
    proof (cases "stableKey a = stableKey b")
      case True
      then have "stableKey c = stableKey d" using k by simp
      then have "a = b" "c = d" using True same by blast+
      then show ?thesis using x straight by simp
    next
      case False
      then show ?thesis
        using x k stableLess_asym [of "stableKey a" "stableKey b"] stableLess_total [of "stableKey a" "stableKey b"]
        by (auto simp: ordered_def key key')
    qed
  qed (use straight in blast)
qed

lemma ordered_commEq:
  assumes "commEq n n'" "keysDistinct e" "keysDistinct e'" "n \<in> subs e" "n' \<in> subs e'"
  shows "list_all2 commEq (ordered n) (ordered n')"
proof -
  have same: "stableKey a = stableKey b \<Longrightarrow> a = b" if "a \<in> set (children m)" "b \<in> set (children m)"
    "m \<in> subs f" "keysDistinct f" for a b m f
  proof -
    have "set (children m) \<subseteq> subs f"
      using that(3) subs_children [of m] subs_self subs_trans by blast
    then show ?thesis if "stableKey a = stableKey b" using that \<open>a \<in> set (children m)\<close>
      \<open>b \<in> set (children m)\<close> \<open>keysDistinct f\<close> unfolding keysDistinct_def by blast
  qed
  show ?thesis
  proof (cases "(n, n')" rule: commEq.cases)
    case (3 a b c d)
    then show ?thesis using assms same [of a n b e] same [of c n' d e'] by (intro ordered_binary [where a = a and b = b and c = c and d = d]) simp_all
  next
    case (4 a b c d)
    then show ?thesis using assms same [of a n b e] same [of c n' d e'] by (intro ordered_binary [where a = a and b = b and c = c and d = d]) simp_all
  next
    case (5 a b c d)
    then show ?thesis using assms same [of a n b e] same [of c n' d e'] by (intro ordered_binary [where a = a and b = b and c = c and d = d]) simp_all
  qed (use assms(1) in \<open>auto simp: ordered_def\<close>)
qed

section \<open>Two exports in step\<close>

definition inStep :: "bexpr \<Rightarrow> bexpr \<Rightarrow> cnf_state \<Rightarrow> cnf_state \<Rightarrow> bool" where
  "inStep e e' s t = (cs_clauses s = cs_clauses t \<and> cs_names s = cs_names t \<and> cs_forced s = cs_forced t \<and>
     cs_nextVar s = cs_nextVar t \<and>
     (\<forall>n \<in> subs e. \<forall>n' \<in> subs e'. commEq n n' \<longrightarrow> cs_node2lit s n = cs_node2lit t n'))"

text \<open>The last step at a gate, over the literals of its operands in order.\<close>

definition gateStep :: "bexpr \<Rightarrow> int list \<Rightarrow> cnf_state \<Rightarrow> error + cnf_state" where
  "gateStep n lits s = bindE (gateClauses (getOp n) (cs_nextVar s + 1) (lits ! 0) (if getOp n = OpNOT then 0 else lits ! 1))
     (\<lambda>cs. Inr (pushClauses cs (setNodeLit n (cs_nextVar s + 1) (s\<lparr> cs_nextVar := cs_nextVar s + 1 \<rparr>))))"

lemma finishGate_step:
  assumes "operandsSwapped keys n = Inr (swapsOperands n)" "getOp n \<noteq> OpVAR"
  shows "finishGate keys n s = gateStep n (map (\<lambda>c. nodeLit s (Some c)) (ordered n)) s"
  using assms by (cases n) (simp_all add: finishGate_def gateStep_def allocVar_def ordered_def gateClauses_def nodeLit_def Let_def)

lemma gateStep_inStep:
  assumes step: "inStep e e' s t" and dis: "keysDistinct e" "keysDistinct e'"
    and n: "commEq n n'" "n \<in> subs e" "n' \<in> subs e'" "getOp n \<noteq> OpVAR"
  shows "\<exists>u v. gateStep n lits s = Inr u \<and> gateStep n' lits t = Inr v \<and> inStep e e' u v"
proof -
  let ?x = "cs_nextVar s + 1"
  obtain cs where cs: "gateClauses (getOp n) ?x (lits ! 0) (if getOp n = OpNOT then 0 else lits ! 1) = Inr cs"
    using gateClauses_total [OF n(4)] by blast
  have nv: "cs_nextVar t = cs_nextVar s" using step by (simp add: inStep_def)
  have "((cs_node2lit s)(n \<mapsto> ?x)) m = ((cs_node2lit t)(n' \<mapsto> ?x)) m'"
    if "m \<in> subs e" "m' \<in> subs e'" "commEq m m'" for m m'
  proof (cases "m = n")
    case True
    then show ?thesis using keysDistinct_commEq [OF dis(2) n(1) _ n(3) that(2)] that(3) by simp
  next
    case False
    then have "m' \<noteq> n'" using keysDistinct_commEq_left [OF dis(1) n(1) _ n(2) that(1)] that(3) by blast
    then show ?thesis using False that step by (simp add: inStep_def)
  qed
  then show ?thesis
    using step cs commEq_getOp [OF n(1)] nv
    by (simp add: gateStep_def inStep_def pushClauses_def setNodeLit_def)
qed

lemma leafGiven_inStep:
  assumes step: "inStep e e' s t"
  shows "\<exists>x u v. leafGiven (BVar w) s = Inr (x, u) \<and> leafGiven (BVar w) t = Inr (x, v) \<and> inStep e e' u v"
proof -
  have "getOrCreateVar k s = (x, u) \<Longrightarrow> \<exists>v. getOrCreateVar k t = (x, v) \<and> inStep e e' u v" for k x u
    using step by (auto simp: getOrCreateVar_def allocVar_def inStep_def split: option.splits)
  then have named: "\<exists>x u v. getOrCreateVar k s = (x, u) \<and> getOrCreateVar k t = (x, v) \<and> inStep e e' u v" for k
    by (cases "getOrCreateVar k s") blast
  have const: "\<exists>x u v. constVar b s = (x, u) \<and> constVar b t = (x, v) \<and> inStep e e' u v" for b
  proof -
    obtain x u v where "getOrCreateVar (constName b) s = (x, u)" "getOrCreateVar (constName b) t = (x, v)"
      "inStep e e' u v" using named by blast
    then show ?thesis by (simp add: constVar_def inStep_def pushClauses_def)
  qed
  consider "w = 0" | "w = 1" | "w \<noteq> 0" "w \<noteq> 1" by blast
  then show ?thesis
  proof cases
    case 1
    then show ?thesis using const [of False] by (auto simp: leafGiven_def)
  next
    case 2
    then show ?thesis using const [of True] by (auto simp: leafGiven_def)
  next
    case 3
    then show ?thesis using named [of "leafName w"] by (auto simp: leafGiven_def getName_leaf)
  qed
qed


lemma kids_gate:
  assumes "operandsSwapped keys n = Inr (swapsOperands n)"
  shows "kids (gateVisitor keys) s n = ordered n"
  using assms by (simp add: kids_def gateVisitor_def ordered_def)

lemma lits_inStep:
  assumes "inStep e e' s t" "list_all2 commEq xs ys" "set xs \<subseteq> subs e" "set ys \<subseteq> subs e'"
  shows "map (\<lambda>c. nodeLit s (Some c)) xs = map (\<lambda>c. nodeLit t (Some c)) ys"
  using assms(2-4)
proof (induction rule: list_all2_induct)
  case (Cons x xs y ys)
  then have "cs_node2lit s x = cs_node2lit t y" using assms(1) by (simp add: inStep_def)
  then show ?case using Cons by (simp add: nodeLit_def)
qed simp

lemma finish_inStep:
  assumes keys: "operandsSwapped keys n = Inr (swapsOperands n)" "operandsSwapped keys' n' = Inr (swapsOperands n')"
    and step: "inStep e e' s t" and dis: "keysDistinct e" "keysDistinct e'"
    and n: "commEq n n'" "n \<in> subs e" "n' \<in> subs e'"
  shows "\<exists>u v. finishGate keys n s = Inr u \<and> finishGate keys' n' t = Inr v \<and> inStep e e' u v"
proof (cases "getOp n = OpVAR")
  case True
  then obtain w where w: "n = BVar w" by (cases n) auto
  then have w': "n' = BVar w" using n(1) by (cases n') auto
  obtain x u v where l: "leafGiven (BVar w) s = Inr (x, u)" "leafGiven (BVar w) t = Inr (x, v)" "inStep e e' u v"
    using leafGiven_inStep [OF step] by blast
  have "((cs_node2lit u)(BVar w \<mapsto> x)) m = ((cs_node2lit v)(BVar w \<mapsto> x)) m'"
    if "m \<in> subs e" "m' \<in> subs e'" "commEq m m'" for m m'
  proof (cases "m = BVar w")
    case True
    then have "m' = BVar w" using that(3) by (cases m') auto
    then show ?thesis using True by simp
  next
    case False
    then have "m' \<noteq> BVar w" using that(3) by (cases m) auto
    then show ?thesis using False that l(3) by (simp add: inStep_def)
  qed
  then have "inStep e e' (setNodeLit (BVar w) x u) (setNodeLit (BVar w) x v)"
    using l(3) by (simp add: inStep_def setNodeLit_def)
  then show ?thesis using l by (simp add: w w' finishGate_def)
next
  case False
  have sub: "set (ordered n) \<subseteq> subs e" "set (ordered n') \<subseteq> subs e'"
    using n(2,3) subs_children [of n] subs_children [of n'] subs_self subs_trans by (metis UN_I insertCI set_ordered subsetI)+
  have "map (\<lambda>c. nodeLit s (Some c)) (ordered n) = map (\<lambda>c. nodeLit t (Some c)) (ordered n')"
    by (rule lits_inStep [OF step ordered_commEq [OF n(1) dis n(2,3)] sub])
  then show ?thesis
    using gateStep_inStep [OF step dis n False] finishGate_step [OF keys(1) False]
      finishGate_step [OF keys(2)] commEq_getOp [OF n(1)] False by simp
qed

lemma pass_inStep:
  assumes keys: "keysInv keys" "subs e \<subseteq> dom keys" "keysInv keys'" "subs e' \<subseteq> dom keys'"
    and dis: "keysDistinct e" "keysDistinct e'"
  shows "commEq n n' \<Longrightarrow> n \<in> subs e \<Longrightarrow> n' \<in> subs e' \<Longrightarrow> inStep e e' s t \<Longrightarrow>
    \<exists>u v. postRec (gateVisitor keys) n s = Inr u \<and> postRec (gateVisitor keys') n' t = Inr v \<and> inStep e e' u v"
proof (induction "size n" arbitrary: n n' s t rule: less_induct)
  case less
  let ?V = "gateVisitor keys" and ?W = "gateVisitor keys'"
  have sw: "operandsSwapped keys n = Inr (swapsOperands n)" "operandsSwapped keys' n' = Inr (swapsOperands n')"
    using operandsSwapped_ok [OF keys(1)] operandsSwapped_ok [OF keys(3)] less.prems(2,3) keys(2,4) subs_trans
    by (meson subset_iff)+
  have done_eq: "v_done ?V s n = v_done ?W t n'" if "inStep e e' s t" for s t
    using that less.prems by (simp add: inStep_def gateVisitor_def)
  note finish = finish_inStep [OF sw _ dis less.prems(1-3)]
  have fold: "\<exists>u v. foldE (postRec ?V) cs s = Inr u \<and> foldE (postRec ?W) cs' t = Inr v \<and> inStep e e' u v"
    if "list_all2 commEq cs cs'" "set cs \<subseteq> set (children n)" "set cs' \<subseteq> set (children n')" "inStep e e' s t" for cs cs' s t
    using that
  proof (induction arbitrary: s t rule: list_all2_induct)
    case (Cons c cs c' cs')
    have "c \<in> subs e" "c' \<in> subs e'" "size c < size n"
      using Cons.prems less.prems subs_children [of n] subs_children [of n'] subs_self subs_trans child_size
      by (metis UN_I insertCI list.set_intros(1) subsetD)+
    then obtain u v where uv: "postRec ?V c s = Inr u" "postRec ?W c' t = Inr v" "inStep e e' u v"
      using less.hyps [of c c' s t] Cons.hyps(1) Cons.prems(3) by blast
    then show ?case using Cons.IH [of u v] Cons.prems by simp
  qed simp
  have kids: "kids ?V s n = ordered n" "kids ?W t n' = ordered n'" for s t
    using kids_gate sw by blast+
  have enter: "v_enter ?V n s = Inr s" "v_enter ?W n' t = Inr t" for s t
    using sw by (simp_all add: gateVisitor_def)
  have fin: "v_finish ?V = finishGate keys" "v_finish ?W = finishGate keys'" "v_leaf ?V" "v_leaf ?W"
    by (simp_all add: gateVisitor_def)
  obtain u v where uv: "foldE (postRec ?V) (ordered n) s = Inr u" "foldE (postRec ?W) (ordered n') t = Inr v" "inStep e e' u v"
    using fold [OF ordered_commEq [OF less.prems(1) dis less.prems(2,3)] _ _ less.prems(4)] by auto
  obtain a b where ab: "finishGate keys n u = Inr a" "finishGate keys' n' v = Inr b" "inStep e e' a b"
    using finish [OF uv(3)] by blast
  obtain a' b' where ab': "finishGate keys n s = Inr a'" "finishGate keys' n' t = Inr b'" "inStep e e' a' b'"
    using finish [OF less.prems(4)] by blast
  have op: "getOp n' = getOp n" using commEq_getOp [OF less.prems(1)] by simp
  have "postRec ?V n s = (if v_done ?V s n then Inr s else if getOp n = OpVAR then Inr a'
      else if v_done ?V u n then Inr u else Inr a)"
    by (subst postRec.simps) (simp add: enter kids fin uv ab ab')
  moreover have "postRec ?W n' t = (if v_done ?W t n' then Inr t else if getOp n = OpVAR then Inr b'
      else if v_done ?W v n' then Inr v else Inr b)"
    by (subst postRec.simps) (simp add: enter kids fin uv ab ab' op)
  ultimately show ?case
    using less.prems(4) done_eq [OF less.prems(4)] done_eq [OF uv(3)] uv(3) ab(3) ab'(3) by auto
qed

lemma export_stable:
  assumes "commEq e e'" "keysDistinct e" "keysDistinct e'"
  shows "encodeBoolExprToCnf (Some e) = encodeBoolExprToCnf (Some e')"
proof -
  obtain keys where k: "buildStableKeys e = Inr keys" "keysInv keys" "subs e \<subseteq> dom keys"
    by (rule buildStableKeys_ok)
  obtain keys' where k': "buildStableKeys e' = Inr keys'" "keysInv keys'" "subs e' \<subseteq> dom keys'"
    by (rule buildStableKeys_ok)
  have "inStep e e' emptyCnfState emptyCnfState" by (simp add: inStep_def emptyCnfState_def)
  from pass_inStep [OF k(2,3) k'(2,3) assms(2,3,1) subs_self subs_self this] obtain s t where
    st: "postRec (gateVisitor keys) e emptyCnfState = Inr s" "postRec (gateVisitor keys') e' emptyCnfState = Inr t"
      "inStep e e' s t" by blast
  have "cs_node2lit s e = cs_node2lit t e'" using st(3) assms(1) unfolding inStep_def by (metis subs_self)
  then show ?thesis
    using st k(1) k'(1) by (simp add: encodeBoolExprToCnf_def postLoop_root inStep_def nodeLit_def)
qed

end
