(* ===== verification/Btor2_Writer.thy ===== *)
theory Btor2_Writer
  imports Postorder
begin

text \<open>
  The streaming BTOR2 writer, \<open>formal/Btor2Writer.cpp\<close>.  A line of the format is a datatype with
  its text beside it; the writer appends lines, numbers the nodes, and keeps the kind of every
  node, whether it depends on an input, the constants, the bindings of the variables and the nodes
  of the expressions written so far.  The output stream is the list of lines and a predicate that
  says which lines it accepts.
\<close>

unbundle bit_operations_syntax

section \<open>Lines\<close>

datatype node_kind = OtherNode | ValueNode | StateNode | InputNode

datatype gate_op = GateAnd | GateOr | GateXor | GateEq

datatype relation_op = RelInit | RelNext

datatype property_op = PropConstraint | PropBad | PropOutput

datatype btor_body =
    SortLine
  | InputLine string
  | StateLine string
  | ConstLine bool
  | NotLine nat
  | GateLine gate_op nat nat
  | RelationLine relation_op nat nat
  | PropertyLine property_op nat string

datatype btor_line = NodeLine nat btor_body | CommentLine string

definition hexDigit :: "nat \<Rightarrow> char" where
  "hexDigit d = ''0123456789ABCDEF'' ! d"

definition plainChar :: "char \<Rightarrow> bool" where
  "plainChar c = (32 < (of_char c :: nat) \<and> (of_char c :: nat) < 127 \<and> c \<noteq> CHR '';'' \<and> c \<noteq> CHR ''%'')"

definition encodeChar :: "char \<Rightarrow> string" where
  "encodeChar c = (if plainChar c then [c]
     else [CHR ''%'', hexDigit (of_char c div 16), hexDigit (of_char c mod 16)])"

definition symbolSuffix :: "string \<Rightarrow> string" where
  "symbolSuffix symbol = (if symbol = [] then [] else '' '' @ concat (map encodeChar symbol))"

primrec gateName :: "gate_op \<Rightarrow> string" where
  "gateName GateAnd = ''and''"
| "gateName GateOr = ''or''"
| "gateName GateXor = ''xor''"
| "gateName GateEq = ''eq''"

primrec relationName :: "relation_op \<Rightarrow> string" where
  "relationName RelInit = ''init''"
| "relationName RelNext = ''next''"

primrec propertyName :: "property_op \<Rightarrow> string" where
  "propertyName PropConstraint = ''constraint''"
| "propertyName PropBad = ''bad''"
| "propertyName PropOutput = ''output''"

definition boolSort :: nat where
  "boolSort = 1"

primrec bodyText :: "btor_body \<Rightarrow> string" where
  "bodyText SortLine = ''sort bitvec 1''"
| "bodyText (InputLine symbol) = ''input '' @ showNat boolSort @ symbolSuffix symbol"
| "bodyText (StateLine symbol) = ''state '' @ showNat boolSort @ symbolSuffix symbol"
| "bodyText (ConstLine b) = ''const '' @ showNat boolSort @ (if b then '' 1'' else '' 0'')"
| "bodyText (NotLine a) = ''not '' @ showNat boolSort @ '' '' @ showNat a"
| "bodyText (GateLine opr l r) = gateName opr @ '' '' @ showNat boolSort @ '' '' @ showNat l @ '' '' @ showNat r"
| "bodyText (RelationLine opr s v) =
     relationName opr @ '' '' @ showNat boolSort @ '' '' @ showNat s @ '' '' @ showNat v"
| "bodyText (PropertyLine opr v symbol) = propertyName opr @ '' '' @ showNat v @ symbolSuffix symbol"

definition commentChar :: "char \<Rightarrow> char" where
  "commentChar c = (if 32 \<le> (of_char c :: nat) \<and> (of_char c :: nat) \<noteq> 127 then c else CHR '' '')"

primrec lineText :: "btor_line \<Rightarrow> string" where
  "lineText (NodeLine n body) = showNat n @ '' '' @ bodyText body @ [CHR 0x0A]"
| "lineText (CommentLine text) = ''; '' @ map commentChar text @ [CHR 0x0A]"

section \<open>The writer\<close>

record btor_writer =
  bw_accepts :: "nat \<Rightarrow> bool"
  bw_out :: "btor_line list"
  bw_nodes :: "node_kind list"
  bw_dependsOnInput :: "bool list"
  bw_constants :: "bool \<Rightarrow> nat"
  bw_variables :: "var_id \<rightharpoonup> nat"
  bw_expressions :: "bexpr \<rightharpoonup> nat"
  bw_initialized :: "nat set"
  bw_transitioned :: "nat set"

type_synonym 'a written = "error + 'a \<times> btor_writer"

definition writeLine :: "string \<Rightarrow> btor_line \<Rightarrow> btor_writer \<Rightarrow> error + btor_writer" where
  "writeLine what line w =
    (if bw_accepts w (length (bw_out w)) then Inr (w\<lparr> bw_out := bw_out w @ [line] \<rparr>)
     else Inl (Runtime_Error what))"

text \<open>The C++ exception of the first branch, \<open>std::overflow_error\<close>, is a runtime error.\<close>

definition maxNodes :: int where
  "maxNodes = 9223372036854775807"

definition emit :: "btor_body \<Rightarrow> node_kind \<Rightarrow> btor_writer \<Rightarrow> nat written" where
  "emit body kind w =
    (let node = length (bw_nodes w) in
     if maxNodes \<le> int node then Inl (Runtime_Error ''BTOR2 node ID limit exceeded'')
     else bindE (writeLine ''Failed to write BTOR2 output'' (NodeLine node body) w) (\<lambda>w.
       Inr (node, w\<lparr> bw_nodes := bw_nodes w @ [kind],
         bw_dependsOnInput := bw_dependsOnInput w @ [kind = InputNode] \<rparr>)))"

definition newBtor2Writer :: "(nat \<Rightarrow> bool) \<Rightarrow> error + btor_writer" where
  "newBtor2Writer accepts =
    bindE (emit SortLine OtherNode \<lparr> bw_accepts = accepts, bw_out = [], bw_nodes = [OtherNode],
      bw_dependsOnInput = [False], bw_constants = (\<lambda>_. 0), bw_variables = Map.empty,
      bw_expressions = Map.empty, bw_initialized = {}, bw_transitioned = {} \<rparr>) (\<lambda>(_, w). Inr w)"

definition isValue :: "btor_writer \<Rightarrow> nat \<Rightarrow> bool" where
  "isValue w node = (node < length (bw_nodes w) \<and> bw_nodes w ! node \<noteq> OtherNode)"

definition isState :: "btor_writer \<Rightarrow> nat \<Rightarrow> bool" where
  "isState w node = (node < length (bw_nodes w) \<and> bw_nodes w ! node = StateNode)"

definition requireValue :: "nat \<Rightarrow> btor_writer \<Rightarrow> error + unit" where
  "requireValue node w = requireE (isValue w node) (Invalid_Argument (''Invalid BTOR2 value node '' @ showNat node))"

definition requireState :: "nat \<Rightarrow> btor_writer \<Rightarrow> error + unit" where
  "requireState node w = requireE (isState w node) (Invalid_Argument (''Invalid BTOR2 state node '' @ showNat node))"

definition writeInput :: "string \<Rightarrow> btor_writer \<Rightarrow> nat written" where
  "writeInput symbol = emit (InputLine symbol) InputNode"

definition writeState :: "string \<Rightarrow> btor_writer \<Rightarrow> nat written" where
  "writeState symbol = emit (StateLine symbol) StateNode"

definition writeConstant :: "bool \<Rightarrow> btor_writer \<Rightarrow> nat written" where
  "writeConstant b w =
    (if bw_constants w b \<noteq> 0 then Inr (bw_constants w b, w)
     else bindE (emit (ConstLine b) ValueNode w) (\<lambda>(n, w).
       Inr (n, w\<lparr> bw_constants := (bw_constants w)(b := n) \<rparr>)))"

definition bindVariable :: "var_id \<Rightarrow> nat \<Rightarrow> btor_writer \<Rightarrow> error + btor_writer" where
  "bindVariable symbol node w =
    bindE (requireValue node w) (\<lambda>_.
      if symbol < 2 \<or> symbol = - 1
      then Inl (Invalid_Argument (''Cannot bind reserved BoolExpr variable '' @ showWord symbol))
      else (case bw_variables w symbol of
          None \<Rightarrow> Inr (w\<lparr> bw_variables := (bw_variables w)(symbol \<mapsto> node) \<rparr>)
        | Some old \<Rightarrow>
            if old \<noteq> node
            then Inl (Invalid_Argument (''BoolExpr variable already bound: '' @ showWord symbol))
            else Inr w))"

definition setDepends :: "nat \<Rightarrow> bool \<Rightarrow> btor_writer \<Rightarrow> btor_writer" where
  "setDepends node b w = w\<lparr> bw_dependsOnInput := (bw_dependsOnInput w)[node := b] \<rparr>"

definition logicalNot :: "nat \<Rightarrow> btor_writer \<Rightarrow> nat written" where
  "logicalNot v w =
    bindE (requireValue v w) (\<lambda>_.
    bindE (emit (NotLine v) ValueNode w) (\<lambda>(n, w).
      Inr (n, setDepends n (bw_dependsOnInput w ! v) w)))"

definition binaryNode :: "gate_op \<Rightarrow> nat \<Rightarrow> nat \<Rightarrow> btor_writer \<Rightarrow> nat written" where
  "binaryNode opr l r w =
    bindE (requireValue l w) (\<lambda>_.
    bindE (requireValue r w) (\<lambda>_.
    bindE (emit (GateLine opr l r) ValueNode w) (\<lambda>(n, w).
      Inr (n, setDepends n (bw_dependsOnInput w ! l \<or> bw_dependsOnInput w ! r) w))))"

definition logicalAnd :: "nat \<Rightarrow> nat \<Rightarrow> btor_writer \<Rightarrow> nat written" where
  "logicalAnd = binaryNode GateAnd"

definition logicalOr :: "nat \<Rightarrow> nat \<Rightarrow> btor_writer \<Rightarrow> nat written" where
  "logicalOr = binaryNode GateOr"

definition logicalXor :: "nat \<Rightarrow> nat \<Rightarrow> btor_writer \<Rightarrow> nat written" where
  "logicalXor = binaryNode GateXor"

definition equalNode :: "nat \<Rightarrow> nat \<Rightarrow> btor_writer \<Rightarrow> nat written" where
  "equalNode = binaryNode GateEq"

definition stateRelation :: "relation_op \<Rightarrow> nat \<Rightarrow> nat \<Rightarrow> nat set \<Rightarrow> btor_writer \<Rightarrow> (nat \<times> nat set) written" where
  "stateRelation opr s v assigned w =
    bindE (requireState s w) (\<lambda>_.
    bindE (requireValue v w) (\<lambda>_.
      if s \<in> assigned
      then Inl (Invalid_Argument (''Duplicate BTOR2 '' @ relationName opr @ '' for state '' @ showNat s))
      else bindE (emit (RelationLine opr s v) OtherNode w) (\<lambda>(n, w). Inr ((n, insert s assigned), w))))"

definition writeInit :: "nat \<Rightarrow> nat \<Rightarrow> btor_writer \<Rightarrow> nat written" where
  "writeInit s v w =
    bindE (requireState s w) (\<lambda>_.
    bindE (requireValue v w) (\<lambda>_.
      if s \<le> v then Inl (Invalid_Argument ''BTOR2 initialization value must precede its state'')
      else if bw_dependsOnInput w ! v
      then Inl (Invalid_Argument ''BTOR2 initialization cannot depend on inputs'')
      else bindE (stateRelation RelInit s v (bw_initialized w) w) (\<lambda>((n, assigned), w).
        Inr (n, w\<lparr> bw_initialized := assigned \<rparr>))))"

definition writeNext :: "nat \<Rightarrow> nat \<Rightarrow> btor_writer \<Rightarrow> nat written" where
  "writeNext s v w =
    bindE (stateRelation RelNext s v (bw_transitioned w) w) (\<lambda>((n, assigned), w).
      Inr (n, w\<lparr> bw_transitioned := assigned \<rparr>))"

definition propertyNode :: "property_op \<Rightarrow> nat \<Rightarrow> string \<Rightarrow> btor_writer \<Rightarrow> nat written" where
  "propertyNode opr v symbol w =
    bindE (requireValue v w) (\<lambda>_. emit (PropertyLine opr v symbol) OtherNode w)"

definition writeConstraint :: "nat \<Rightarrow> btor_writer \<Rightarrow> nat written" where
  "writeConstraint v = propertyNode PropConstraint v []"

definition writeBad :: "nat \<Rightarrow> string \<Rightarrow> btor_writer \<Rightarrow> nat written" where
  "writeBad v symbol = propertyNode PropBad v symbol"

definition writeOutput :: "nat \<Rightarrow> string \<Rightarrow> btor_writer \<Rightarrow> nat written" where
  "writeOutput v symbol = propertyNode PropOutput v symbol"

definition writeComment :: "string \<Rightarrow> btor_writer \<Rightarrow> error + btor_writer" where
  "writeComment text = writeLine ''Failed to write BTOR2 comment'' (CommentLine text)"

section \<open>Expressions\<close>

text \<open>The loop keeps the nodes that are entered and not finished, to reject cycles.\<close>

type_synonym expr_walk = "btor_writer \<times> bexpr set"

definition checkValid :: "bexpr \<Rightarrow> error + unit" where
  "checkValid n = requireE (isValid n) (Invalid_Argument ''Cannot export invalid BoolExpr to BTOR2'')"

definition checkOperands :: "bexpr \<Rightarrow> error + unit" where
  "checkOperands n =
    (if getOp n \<notin> {OpNOT, OpAND, OpOR, OpXOR}
     then Inl (Invalid_Argument ''Unsupported BoolExpr operator in BTOR2 export'')
     else if getLeft n = None \<or> (getOp n \<noteq> OpNOT \<and> getRight n = None) \<or> (getOp n = OpNOT \<and> getRight n \<noteq> None)
     then Inl (Invalid_Argument ''Malformed BoolExpr operands in BTOR2 export'')
     else Inr ())"

definition putExpression :: "bexpr \<Rightarrow> nat \<Rightarrow> btor_writer \<Rightarrow> btor_writer" where
  "putExpression n node w = w\<lparr> bw_expressions := emplace n node (bw_expressions w) \<rparr>"

definition variableNode :: "bexpr \<Rightarrow> btor_writer \<Rightarrow> error + btor_writer" where
  "variableNode n w =
    (let symbol = getId n in
     if symbol < 2 then bindE (writeConstant (symbol = 1) w) (\<lambda>(c, w). Inr (putExpression n c w))
     else (case bw_variables w symbol of
         None \<Rightarrow> Inl (Invalid_Argument (''Unbound BoolExpr variable in BTOR2 export: '' @ showWord symbol))
       | Some node \<Rightarrow> Inr (putExpression n node w)))"

definition operandNode :: "bexpr option \<Rightarrow> btor_writer \<Rightarrow> error + nat" where
  "operandNode c w = (case c of None \<Rightarrow> Inl (Out_Of_Range ''map::at'') | Some n \<Rightarrow> atE (bw_expressions w) n)"

definition gateNode :: "op \<Rightarrow> nat \<Rightarrow> nat \<Rightarrow> btor_writer \<Rightarrow> nat written" where
  "gateNode opr l r w =
    (case opr of
       OpAND \<Rightarrow> logicalAnd l r w
     | OpOR \<Rightarrow> logicalOr l r w
     | OpXOR \<Rightarrow> logicalXor l r w
     | _ \<Rightarrow> Inl (Logic_Error ''Unexpected BTOR2 binary operator''))"

definition operatorNode :: "bexpr \<Rightarrow> btor_writer \<Rightarrow> nat written" where
  "operatorNode n w =
    bindE (operandNode (getLeft n) w) (\<lambda>l.
      if getOp n = OpNOT then logicalNot l w
      else bindE (operandNode (getRight n) w) (\<lambda>r. gateNode (getOp n) l r w))"

definition finishExpression :: "bexpr \<Rightarrow> expr_walk \<Rightarrow> error + expr_walk" where
  "finishExpression n wa =
    (case wa of (w, active) \<Rightarrow>
      bindE (checkValid n) (\<lambda>_.
        if getOp n = OpVAR then bindE (variableNode n w) (\<lambda>w. Inr (w, active))
        else bindE (checkOperands n) (\<lambda>_.
          bindE (operatorNode n w) (\<lambda>(node, w). Inr (putExpression n node w, active - {n})))))"

definition enterExpression :: "bexpr \<Rightarrow> expr_walk \<Rightarrow> error + expr_walk" where
  "enterExpression n wa =
    (case wa of (w, active) \<Rightarrow>
      bindE (checkValid n) (\<lambda>_.
      bindE (checkOperands n) (\<lambda>_.
        if n \<in> active then Inl (Invalid_Argument ''Cyclic BoolExpr in BTOR2 export'')
        else Inr (w, insert n active))))"

definition expressionVisitor :: "(expr_walk, error) visitor" where
  "expressionVisitor =
    \<lparr> v_done = (\<lambda>wa n. isValid n \<and> bw_expressions (fst wa) n \<noteq> None), v_leaf = True,
      v_swap = (\<lambda>_. False), v_push = (\<lambda>_ _. True), v_enter = enterExpression, v_finish = finishExpression \<rparr>"

definition writeExpression :: "bexpr option \<Rightarrow> btor_writer \<Rightarrow> nat written" where
  "writeExpression expr w =
    (case expr of
       None \<Rightarrow> Inl (Invalid_Argument ''Cannot export invalid BoolExpr to BTOR2'')
     | Some e \<Rightarrow>
        bindE (postLoop expressionVisitor [(e, False)] (w, {})) (\<lambda>(w, _).
        bindE (atE (bw_expressions w) e) (\<lambda>node. Inr (node, w))))"

text \<open>The text that has been written.\<close>

definition btorText :: "btor_writer \<Rightarrow> string" where
  "btorText w = concat (map lineText (bw_out w))"

end
