(* ===== verification/Btor2_System.thy ===== *)
theory Btor2_System
  imports Btor2_Writer Expr_Walk
begin

text \<open>
  The meaning of a BTOR2 file of one-bit nodes, as a transition system, and the invariant of the
  writer: its state is what a reader computes from the lines it has written.
\<close>

section \<open>A file as a transition system\<close>

fun kindOf :: "btor_body \<Rightarrow> node_kind" where
  "kindOf (InputLine _) = InputNode"
| "kindOf (StateLine _) = StateNode"
| "kindOf (ConstLine _) = ValueNode"
| "kindOf (NotLine _) = ValueNode"
| "kindOf (GateLine _ _ _) = ValueNode"
| "kindOf _ = OtherNode"

primrec gateBit :: "gate_op \<Rightarrow> bool \<Rightarrow> bool \<Rightarrow> bool" where
  "gateBit GateAnd a b = (a \<and> b)"
| "gateBit GateOr a b = (a \<or> b)"
| "gateBit GateXor a b = (a \<noteq> b)"
| "gateBit GateEq a b = (a = b)"

text \<open>The values of the nodes, in the order of the lines, from a valuation of inputs and states;
  index 0 is unused.\<close>

fun bodyValue :: "(nat \<Rightarrow> bool) \<Rightarrow> bool list \<Rightarrow> btor_body \<Rightarrow> bool" where
  "bodyValue s vs (InputLine _) = s (length vs)"
| "bodyValue s vs (StateLine _) = s (length vs)"
| "bodyValue s vs (ConstLine b) = b"
| "bodyValue s vs (NotLine a) = (\<not> vs ! a)"
| "bodyValue s vs (GateLine opr l r) = gateBit opr (vs ! l) (vs ! r)"
| "bodyValue s vs _ = False"

definition nodeValues :: "(nat \<Rightarrow> bool) \<Rightarrow> btor_body list \<Rightarrow> bool list" where
  "nodeValues s bs = foldl (\<lambda>vs b. vs @ [bodyValue s vs b]) [False] bs"

definition nodeValue :: "(nat \<Rightarrow> bool) \<Rightarrow> btor_body list \<Rightarrow> nat \<Rightarrow> bool" where
  "nodeValue s bs n = nodeValues s bs ! n"

definition btorStart :: "btor_body list \<Rightarrow> (nat \<Rightarrow> bool) \<Rightarrow> bool" where
  "btorStart bs s = (\<forall>x v. RelationLine RelInit x v \<in> set bs \<longrightarrow> s x = nodeValue s bs v)"

definition btorStep :: "btor_body list \<Rightarrow> (nat \<Rightarrow> bool) \<Rightarrow> (nat \<Rightarrow> bool) \<Rightarrow> bool" where
  "btorStep bs s t = (\<forall>x v. RelationLine RelNext x v \<in> set bs \<longrightarrow> t x = nodeValue s bs v)"

definition btorLegal :: "btor_body list \<Rightarrow> (nat \<Rightarrow> bool) \<Rightarrow> bool" where
  "btorLegal bs s = (\<forall>v symbol. PropertyLine PropConstraint v symbol \<in> set bs \<longrightarrow> nodeValue s bs v)"

definition btorBad :: "btor_body list \<Rightarrow> (nat \<Rightarrow> bool) \<Rightarrow> bool" where
  "btorBad bs s = (\<exists>v symbol. PropertyLine PropBad v symbol \<in> set bs \<and> nodeValue s bs v)"

text \<open>A run up to a frame: constraints hold in every frame of it.\<close>

definition btorRun :: "btor_body list \<Rightarrow> nat \<Rightarrow> (nat \<Rightarrow> nat \<Rightarrow> bool) \<Rightarrow> bool" where
  "btorRun bs k ss = (btorStart bs (ss 0) \<and> (\<forall>f < k. btorStep bs (ss f) (ss (Suc f))) \<and>
     (\<forall>f \<le> k. btorLegal bs (ss f)))"

lemma length_nodeValues [simp]: "length (nodeValues s bs) = Suc (length bs)"
  unfolding nodeValues_def by (induction bs rule: rev_induct) simp_all

lemma nodeValues_snoc: "nodeValues s (bs @ [b]) = nodeValues s bs @ [bodyValue s (nodeValues s bs) b]"
  by (simp add: nodeValues_def)

lemma nodeValue_append [simp]: "n \<le> length bs \<Longrightarrow> nodeValue s (bs @ cs) n = nodeValue s bs n"
proof (induction cs rule: rev_induct)
  case (snoc c cs)
  then show ?case
    using nodeValues_snoc [of s "bs @ cs" c] by (simp add: nodeValue_def nth_append)
qed simp

lemma nodeValue_new: "nodeValue s (bs @ [b]) (Suc (length bs)) = bodyValue s (nodeValues s bs) b"
  by (simp add: nodeValue_def nodeValues_snoc nth_append)

section \<open>Well-formed files\<close>

text \<open>Which nodes depend on an input, computed from the lines.\<close>

fun bodyFlag :: "bool list \<Rightarrow> btor_body \<Rightarrow> bool" where
  "bodyFlag fs (InputLine _) = True"
| "bodyFlag fs (NotLine a) = fs ! a"
| "bodyFlag fs (GateLine _ l r) = (fs ! l \<or> fs ! r)"
| "bodyFlag fs _ = False"

definition inputFlags :: "btor_body list \<Rightarrow> bool list" where
  "inputFlags bs = foldl (\<lambda>fs b. fs @ [bodyFlag fs b]) [False] bs"

lemma inputFlags_snoc: "inputFlags (bs @ [b]) = inputFlags bs @ [bodyFlag (inputFlags bs) b]"
  by (simp add: inputFlags_def)

lemma length_inputFlags [simp]: "length (inputFlags bs) = Suc (length bs)"
  unfolding inputFlags_def by (induction bs rule: rev_induct) simp_all

definition kinds :: "btor_body list \<Rightarrow> node_kind list" where
  "kinds bs = OtherNode # map kindOf bs"

definition valueAt :: "btor_body list \<Rightarrow> nat \<Rightarrow> bool" where
  "valueAt bs n = (n \<le> length bs \<and> kinds bs ! n \<noteq> OtherNode)"

definition stateAt :: "btor_body list \<Rightarrow> nat \<Rightarrow> bool" where
  "stateAt bs n = (n \<le> length bs \<and> kinds bs ! n = StateNode)"

lemma length_kinds [simp]: "length (kinds bs) = Suc (length bs)"
  by (simp add: kinds_def)

lemma kinds_append: "n \<le> length bs \<Longrightarrow> kinds (bs @ cs) ! n = kinds bs ! n"
  by (simp add: kinds_def nth_append nth_Cons split: nat.splits)

lemma valueAt_append: "valueAt bs n \<Longrightarrow> valueAt (bs @ cs) n"
  and stateAt_append: "stateAt bs n \<Longrightarrow> stateAt (bs @ cs) n"
  by (simp_all add: valueAt_def stateAt_def kinds_append)

lemma stateAt_valueAt: "stateAt bs n \<Longrightarrow> valueAt bs n"
  by (simp add: stateAt_def valueAt_def)

lemma valueAt_le: "valueAt bs n \<Longrightarrow> n \<le> length bs"
  by (simp add: valueAt_def)

lemma valueAt_pos: "valueAt bs n \<Longrightarrow> 0 < n"
  by (cases n) (simp_all add: valueAt_def kinds_def)

lemma valueAt_new: "valueAt (bs @ [b]) (Suc (length bs)) = (kindOf b \<noteq> OtherNode)"
  and stateAt_new: "stateAt (bs @ [b]) (Suc (length bs)) = (kindOf b = StateNode)"
  by (simp_all add: valueAt_def stateAt_def kinds_def nth_append)

text \<open>A line refers to earlier values only; a state is initialised at most once, from an earlier node
  that no input reaches, and has at most one next value.\<close>

fun lineOk :: "btor_body list \<Rightarrow> btor_body \<Rightarrow> bool" where
  "lineOk bs (NotLine a) = valueAt bs a"
| "lineOk bs (GateLine _ l r) = (valueAt bs l \<and> valueAt bs r)"
| "lineOk bs (RelationLine opr x v) =
    (stateAt bs x \<and> valueAt bs v \<and> (\<forall>u. RelationLine opr x u \<notin> set bs) \<and>
     (opr = RelInit \<longrightarrow> v < x \<and> \<not> inputFlags bs ! v))"
| "lineOk bs (PropertyLine _ v _) = valueAt bs v"
| "lineOk bs _ = True"

definition fileOk :: "btor_body list \<Rightarrow> bool" where
  "fileOk bs = (\<forall>k < length bs. lineOk (take k bs) (bs ! k))"

lemma fileOk_snoc: "fileOk (bs @ [b]) = (fileOk bs \<and> lineOk bs b)"
  by (auto simp: fileOk_def less_Suc_eq nth_append)

lemma fileOk_line:
  assumes "fileOk bs" "b \<in> set bs"
  obtains pre suf where "bs = pre @ b # suf" "lineOk pre b"
proof -
  obtain pre suf where bs: "bs = pre @ b # suf" using split_list [OF assms(2)] by blast
  have "\<forall>k < length bs. lineOk (take k bs) (bs ! k)" using assms(1) by (simp add: fileOk_def)
  moreover have "length pre < length bs" by (simp add: bs)
  ultimately have "lineOk (take (length pre) bs) (bs ! length pre)" by blast
  then show ?thesis using that bs by simp
qed

section \<open>The invariant of the writer\<close>

fun nodeBody :: "btor_line \<Rightarrow> btor_body option" where
  "nodeBody (NodeLine _ b) = Some b"
| "nodeBody (CommentLine _) = None"

fun nodeNumber :: "btor_line \<Rightarrow> nat option" where
  "nodeNumber (NodeLine n _) = Some n"
| "nodeNumber (CommentLine _) = None"

definition bodies :: "btor_writer \<Rightarrow> btor_body list" where
  "bodies w = List.map_filter nodeBody (bw_out w)"

definition numbered :: "btor_line list \<Rightarrow> bool" where
  "numbered ls = (List.map_filter nodeNumber ls = [1..<Suc (length (List.map_filter nodeBody ls))])"

definition boundValue :: "btor_writer \<Rightarrow> (nat \<Rightarrow> bool) \<Rightarrow> var_id \<Rightarrow> bool" where
  "boundValue w s x = (case bw_variables w x of None \<Rightarrow> False | Some n \<Rightarrow> nodeValue s (bodies w) n)"

definition nodeMeans :: "btor_writer \<Rightarrow> bexpr \<Rightarrow> nat \<Rightarrow> bool" where
  "nodeMeans w e n = (valueAt (bodies w) n \<and> support e \<subseteq> dom (bw_variables w) \<and>
     (\<forall>s. nodeValue s (bodies w) n = eval (boundValue w s) e))"

definition relatedStates :: "relation_op \<Rightarrow> btor_body list \<Rightarrow> nat set" where
  "relatedStates opr bs = {x. \<exists>v. RelationLine opr x v \<in> set bs}"

definition btorInv :: "btor_writer \<Rightarrow> bool" where
  "btorInv w =
    (bw_nodes w = kinds (bodies w) \<and> bw_dependsOnInput w = inputFlags (bodies w) \<and>
     numbered (bw_out w) \<and> fileOk (bodies w) \<and>
     (\<forall>b. bw_constants w b \<noteq> 0 \<longrightarrow> bw_constants w b \<le> length (bodies w) \<and> bodies w ! (bw_constants w b - 1) = ConstLine b) \<and>
     (\<forall>x n. bw_variables w x = Some n \<longrightarrow> valueAt (bodies w) n \<and> 2 \<le> x) \<and>
     (\<forall>e n. bw_expressions w e = Some n \<longrightarrow> nodeMeans w e n) \<and>
     bw_initialized w = relatedStates RelInit (bodies w) \<and> bw_transitioned w = relatedStates RelNext (bodies w))"

text \<open>Lines that declare no value: the relations and the properties.\<close>

fun isDirective :: "btor_body \<Rightarrow> bool" where
  "isDirective (RelationLine _ _ _) = True"
| "isDirective (PropertyLine _ _ _) = True"
| "isDirective _ = False"

definition directives :: "btor_writer \<Rightarrow> btor_body list" where
  "directives w = filter isDirective (bodies w)"

text \<open>A step of the writer: it keeps the invariant, appends lines and adds the given directives.\<close>

definition wrote :: "btor_writer \<Rightarrow> btor_writer \<Rightarrow> btor_body list \<Rightarrow> bool" where
  "wrote w w' ds = (btorInv w' \<and> (\<exists>new. bodies w' = bodies w @ new) \<and>
     bw_variables w \<subseteq>\<^sub>m bw_variables w' \<and> bw_expressions w \<subseteq>\<^sub>m bw_expressions w' \<and>
     directives w' = directives w @ ds)"

lemma wrote_refl: "btorInv w \<Longrightarrow> wrote w w []"
  by (simp add: wrote_def)

lemma wrote_trans: "wrote a b ds \<Longrightarrow> wrote b c es \<Longrightarrow> wrote a c (ds @ es)"
  unfolding wrote_def using map_le_trans by (metis append.assoc)

lemma wrote_inv: "wrote w w' ds \<Longrightarrow> btorInv w'"
  and wrote_directives: "wrote w w' ds \<Longrightarrow> directives w' = directives w @ ds"
  and wrote_variables: "wrote w w' ds \<Longrightarrow> bw_variables w \<subseteq>\<^sub>m bw_variables w'"
  by (simp_all add: wrote_def)

lemma wrote_value:
  assumes "wrote w w' ds" "valueAt (bodies w) n"
  shows "valueAt (bodies w') n" "nodeValue s (bodies w') n = nodeValue s (bodies w) n"
  using assms by (auto simp: wrote_def valueAt_append valueAt_le)

lemma wrote_state: "wrote w w' ds \<Longrightarrow> stateAt (bodies w) n \<Longrightarrow> stateAt (bodies w') n"
  by (auto simp: wrote_def stateAt_append)

lemma boundValue_grows:
  assumes inv: "btorInv w" and bodies: "bodies w' = bodies w @ new" and vars: "bw_variables w \<subseteq>\<^sub>m bw_variables w'"
    and x: "x \<in> dom (bw_variables w)"
  shows "boundValue w' s x = boundValue w s x"
proof -
  obtain n where n: "bw_variables w x = Some n" using x by auto
  then have "bw_variables w' x = Some n" using vars unfolding map_le_def by (metis domI)
  moreover have "valueAt (bodies w) n" using inv n unfolding btorInv_def by blast
  ultimately show ?thesis using n by (simp add: boundValue_def bodies valueAt_le)
qed

lemma nodeMeans_grows:
  assumes inv: "btorInv w" and bodies: "bodies w' = bodies w @ new" and vars: "bw_variables w \<subseteq>\<^sub>m bw_variables w'"
    and n: "nodeMeans w e n"
  shows "nodeMeans w' e n"
proof -
  have supp: "support e \<subseteq> dom (bw_variables w)" "valueAt (bodies w) n" using n by (simp_all add: nodeMeans_def)
  have "eval (boundValue w' s) e = eval (boundValue w s) e" for s
    by (rule eval_cong) (use boundValue_grows [OF inv bodies vars] supp in blast)
  moreover have "dom (bw_variables w) \<subseteq> dom (bw_variables w')" using vars by (rule map_le_implies_dom_le)
  ultimately show ?thesis
    using n supp by (auto simp: nodeMeans_def bodies valueAt_append valueAt_le)
qed

section \<open>One line\<close>

lemma boundValue_same:
  "bodies w' = bodies w \<Longrightarrow> bw_variables w' = bw_variables w \<Longrightarrow> boundValue w' = boundValue w"
  by (intro ext) (simp add: boundValue_def split: option.split)

lemma isValue_inv: "btorInv w \<Longrightarrow> isValue w n = valueAt (bodies w) n"
  and isState_inv: "btorInv w \<Longrightarrow> isState w n = stateAt (bodies w) n"
  by (simp_all add: btorInv_def isValue_def isState_def valueAt_def stateAt_def less_Suc_eq_le)

lemma emit_Inr:
  assumes "emit body kind w = Inr (n, w')"
  shows "n = length (bw_nodes w)" "bw_nodes w' = bw_nodes w @ [kind]"
    "bw_dependsOnInput w' = bw_dependsOnInput w @ [kind = InputNode]"
    "bw_out w' = bw_out w @ [NodeLine n body]"
    "bw_constants w' = bw_constants w" "bw_variables w' = bw_variables w" "bw_expressions w' = bw_expressions w"
    "bw_initialized w' = bw_initialized w" "bw_transitioned w' = bw_transitioned w"
  using assms by (auto simp: emit_def writeLine_def Let_def bindE_Inr_iff split: if_splits)

text \<open>A line that is in order may be appended.\<close>

lemma append_line:
  assumes inv: "btorInv w" and ok: "lineOk (bodies w) b"
    and out: "bw_out w' = bw_out w @ [NodeLine (Suc (length (bodies w))) b]"
    and nodes: "bw_nodes w' = bw_nodes w @ [kindOf b]"
    and flags: "bw_dependsOnInput w' = bw_dependsOnInput w @ [bodyFlag (bw_dependsOnInput w) b]"
    and same: "bw_constants w' = bw_constants w" "bw_variables w' = bw_variables w" "bw_expressions w' = bw_expressions w"
    and rel: "bw_initialized w' = bw_initialized w \<union> relatedStates RelInit [b]"
      "bw_transitioned w' = bw_transitioned w \<union> relatedStates RelNext [b]"
  shows "wrote w w' (filter isDirective [b]) \<and> bodies w' = bodies w @ [b]"
proof -
  have bodies: "bodies w' = bodies w @ [b]" by (simp add: bodies_def out List.map_filter_def)
  have n: "numbered (bw_out w')"
    using inv by (simp add: btorInv_def numbered_def bodies_def out List.map_filter_def)
  have cnodes: "bw_constants w c \<le> length (bodies w') \<and> bodies w' ! (bw_constants w c - 1) = ConstLine c"
    if "bw_constants w c \<noteq> 0" for c
  proof -
    have "bw_constants w c \<le> length (bodies w)" "bodies w ! (bw_constants w c - 1) = ConstLine c"
      using inv that unfolding btorInv_def by blast+
    then show ?thesis using that by (auto simp: bodies nth_append)
  qed
  have exprs: "nodeMeans w' e m" if "bw_expressions w e = Some m" for e m
  proof (rule nodeMeans_grows [OF inv bodies])
    show "nodeMeans w e m" using inv that unfolding btorInv_def by blast
  qed (simp add: same)
  have vars: "valueAt (bodies w') m \<and> 2 \<le> x" if "bw_variables w x = Some m" for x m
    using inv that valueAt_append unfolding btorInv_def bodies by blast
  have rels: "relatedStates opr (bodies w') = relatedStates opr (bodies w) \<union> relatedStates opr [b]" for opr
    by (auto simp: relatedStates_def bodies)
  have "btorInv w'"
    unfolding btorInv_def same rels
    using inv n cnodes exprs vars ok
    by (auto simp: btorInv_def nodes flags rel bodies fileOk_snoc kinds_def inputFlags_snoc)
  then show ?thesis using bodies by (simp add: wrote_def same directives_def)
qed

lemma node_number: "btorInv w \<Longrightarrow> length (bw_nodes w) = Suc (length (bodies w))"
  by (simp add: btorInv_def)


section \<open>The operations\<close>

text \<open>A step that gives a node with a value and adds no directive.\<close>

definition givesNode :: "btor_writer \<Rightarrow> btor_writer \<Rightarrow> nat \<Rightarrow> ((nat \<Rightarrow> bool) \<Rightarrow> bool) \<Rightarrow> bool" where
  "givesNode w w' n g = (wrote w w' [] \<and> valueAt (bodies w') n \<and> (\<forall>s. nodeValue s (bodies w') n = g s) \<and>
     bw_variables w' = bw_variables w)"

lemma givesNodeD:
  assumes "givesNode w w' n g"
  shows "wrote w w' []" "valueAt (bodies w') n" "nodeValue s (bodies w') n = g s" "bw_variables w' = bw_variables w"
    "btorInv w'"
  using assms by (simp_all add: givesNode_def wrote_def)

lemma emit_leaf:
  assumes inv: "btorInv w" and r: "emit b (kindOf b) w = Inr (n, w')"
    and leaf: "bodyFlag fs b = (kindOf b = InputNode)" "\<And>fs. bodyFlag fs b = bodyFlag [] b" "lineOk (bodies w) b" "\<not> isDirective b" "kindOf b \<noteq> OtherNode"
  shows "givesNode w w' n (\<lambda>s. bodyValue s (nodeValues s (bodies w)) b)" "n = Suc (length (bodies w))"
    "bodies w' = bodies w @ [b]" "bw_expressions w' = bw_expressions w"
proof -
  note e = emit_Inr [OF r]
  show n: "n = Suc (length (bodies w))" using e(1) node_number [OF inv] by simp
  have rel: "relatedStates opr [b] = {}" for opr using leaf(4) by (cases b) (auto simp: relatedStates_def)
  have "bodyFlag (bw_dependsOnInput w) b = (kindOf b = InputNode)"
    using leaf(1) leaf(2) [of fs] leaf(2) [of "bw_dependsOnInput w"] by simp
  then have a: "wrote w w' (filter isDirective [b]) \<and> bodies w' = bodies w @ [b]"
    by (intro append_line [OF inv leaf(3)]) (simp_all add: e(2-9) n rel)
  then show "bodies w' = bodies w @ [b]" "bw_expressions w' = bw_expressions w" using e by simp_all
  show "givesNode w w' n (\<lambda>s. bodyValue s (nodeValues s (bodies w)) b)"
    using a leaf(4,5) by (simp add: givesNode_def n valueAt_new nodeValue_new e(6))
qed

lemma writeInput_ok:
  assumes "btorInv w" "writeInput symbol w = Inr (n, w')"
  shows "givesNode w w' n (\<lambda>s. s n)" "n = Suc (length (bodies w))" "bodies w' = bodies w @ [InputLine symbol]"
    "bw_expressions w' = bw_expressions w"
  using emit_leaf [OF assms(1), of "InputLine symbol" n w' "[]"] assms(2) by (simp_all add: writeInput_def)

lemma writeState_ok:
  assumes "btorInv w" "writeState symbol w = Inr (n, w')"
  shows "givesNode w w' n (\<lambda>s. s n)" "n = Suc (length (bodies w))" "bodies w' = bodies w @ [StateLine symbol]"
    "stateAt (bodies w') n" "bw_expressions w' = bw_expressions w"
  using emit_leaf [OF assms(1), of "StateLine symbol" n w' "[]"] assms(2)
  by (simp_all add: writeState_def stateAt_new)

lemma writeConstant_ok:
  assumes inv: "btorInv w" and r: "writeConstant b w = Inr (n, w')"
  shows "givesNode w w' n (\<lambda>s. b)"
proof (cases "bw_constants w b = 0")
  case False
  then have n: "n = bw_constants w b" "w' = w" using r by (auto simp: writeConstant_def)
  have c: "n \<le> length (bodies w)" "bodies w ! (n - 1) = ConstLine b" "n \<noteq> 0"
    using inv False unfolding btorInv_def n by blast+
  obtain pre suf where bs: "bodies w = pre @ ConstLine b # suf" "length pre = n - 1"
    using c id_take_nth_drop [of "n - 1" "bodies w"] by (metis Suc_diff_1 Suc_le_eq length_take min.absorb2 gr0I less_imp_le_nat)
  have "n = Suc (length pre)" using bs(2) c(3) by simp
  then have "valueAt (bodies w) n" "\<forall>s. nodeValue s (bodies w) n = b"
    using valueAt_append [of "pre @ [ConstLine b]" n suf] nodeValue_append [of n "pre @ [ConstLine b]" _ suf]
    by (simp_all add: bs(1) valueAt_new nodeValue_new)
  then show ?thesis using wrote_refl [OF inv] by (simp add: givesNode_def n(2))
next
  case True
  obtain w1 where w1: "emit (ConstLine b) ValueNode w = Inr (n, w1)" "w' = w1\<lparr> bw_constants := (bw_constants w1)(b := n) \<rparr>"
    using r True by (auto simp: writeConstant_def bindE_Inr_iff)
  have e: "givesNode w w1 n (\<lambda>s. b)" "n = Suc (length (bodies w))" "bodies w1 = bodies w @ [ConstLine b]"
    using emit_leaf [OF inv, of "ConstLine b" n w1 "[]"] w1(1) by simp_all
  have same: "bodies w' = bodies w1" by (simp add: w1(2) bodies_def)
  have fields: "bw_variables w' = bw_variables w1" "bw_expressions w' = bw_expressions w1" "bw_out w' = bw_out w1"
    "bw_nodes w' = bw_nodes w1" "bw_dependsOnInput w' = bw_dependsOnInput w1"
    "bw_initialized w' = bw_initialized w1" "bw_transitioned w' = bw_transitioned w1"
    by (simp_all add: w1(2))
  have inv1: "btorInv w1" by (rule givesNodeD(5) [OF e(1)])
  have "bw_constants w' c \<le> length (bodies w1) \<and> bodies w1 ! (bw_constants w' c - 1) = ConstLine c"
    if "bw_constants w' c \<noteq> 0" for c
  proof (cases "c = b")
    case True
    then show ?thesis using e(2,3) by (simp add: w1(2))
  next
    case False
    then have "bw_constants w1 c \<noteq> 0" using that by (simp add: w1(2))
    then show ?thesis using inv1 False unfolding btorInv_def by (simp add: w1(2))
  qed
  then have "btorInv w'"
    using inv1 unfolding btorInv_def nodeMeans_def same fields boundValue_same [OF same fields(1)] by blast
  then show ?thesis
    using e(1) by (simp add: givesNode_def wrote_def directives_def same fields)
qed

lemma emit_gate:
  assumes inv: "btorInv w" and r: "emit b ValueNode w = Inr (n, w1)" and w': "w' = setDepends n (bodyFlag (bw_dependsOnInput w) b) w1"
    and b: "kindOf b = ValueNode" "lineOk (bodies w) b" "\<not> isDirective b"
  shows "givesNode w w' n (\<lambda>s. bodyValue s (nodeValues s (bodies w)) b)"
proof -
  note e = emit_Inr [OF r]
  have n: "n = Suc (length (bodies w))" using e(1) node_number [OF inv] by simp
  have rel: "relatedStates opr [b] = {}" for opr using b(3) by (cases b) (auto simp: relatedStates_def)
  have len: "length (bw_dependsOnInput w) = n" using inv n by (simp add: btorInv_def)
  have a: "wrote w w' (filter isDirective [b]) \<and> bodies w' = bodies w @ [b]"
  proof (rule append_line [OF inv b(2)])
    show "bw_out w' = bw_out w @ [NodeLine (Suc (length (bodies w))) b]"
      by (simp add: w' setDepends_def e(4) n)
    show "bw_dependsOnInput w' = bw_dependsOnInput w @ [bodyFlag (bw_dependsOnInput w) b]"
      using len by (simp add: w' setDepends_def e(3) list_update_append)
  qed (simp_all add: w' setDepends_def e(2-9) b(1) rel)
  then show ?thesis using b by (simp add: givesNode_def n valueAt_new nodeValue_new) (simp add: w' setDepends_def e(6))
qed

lemma logicalNot_ok:
  assumes "btorInv w" "logicalNot v w = Inr (n, w')"
  shows "givesNode w w' n (\<lambda>s. \<not> nodeValue s (bodies w) v)" "valueAt (bodies w) v"
proof -
  obtain w1 where e: "emit (NotLine v) ValueNode w = Inr (n, w1)" "w' = setDepends n (bw_dependsOnInput w1 ! v) w1"
    and v: "valueAt (bodies w) v"
    using assms isValue_inv [OF assms(1)] by (auto simp: logicalNot_def requireValue_def bindE_Inr_iff)
  show "valueAt (bodies w) v" by (rule v)
  have "v < length (bw_dependsOnInput w)" using v assms(1) by (simp add: btorInv_def valueAt_def)
  then have "w' = setDepends n (bodyFlag (bw_dependsOnInput w) (NotLine v)) w1"
    using e emit_Inr(3) [OF e(1)] by (simp add: nth_append)
  from emit_gate [OF assms(1) e(1) this] v show "givesNode w w' n (\<lambda>s. \<not> nodeValue s (bodies w) v)"
    by (simp add: nodeValue_def)
qed

lemma binaryNode_ok:
  assumes "btorInv w" "binaryNode opr l r w = Inr (n, w')"
  shows "givesNode w w' n (\<lambda>s. gateBit opr (nodeValue s (bodies w) l) (nodeValue s (bodies w) r))"
    "valueAt (bodies w) l" "valueAt (bodies w) r"
proof -
  obtain w1 where e: "emit (GateLine opr l r) ValueNode w = Inr (n, w1)"
      "w' = setDepends n (bw_dependsOnInput w1 ! l \<or> bw_dependsOnInput w1 ! r) w1"
    and v: "valueAt (bodies w) l" "valueAt (bodies w) r"
    using assms isValue_inv [OF assms(1)] by (auto simp: binaryNode_def requireValue_def bindE_Inr_iff)
  show "valueAt (bodies w) l" "valueAt (bodies w) r" by (rule v)+
  have "l < length (bw_dependsOnInput w)" "r < length (bw_dependsOnInput w)"
    using v assms(1) by (simp_all add: btorInv_def valueAt_def)
  then have "w' = setDepends n (bodyFlag (bw_dependsOnInput w) (GateLine opr l r)) w1"
    using e emit_Inr(3) [OF e(1)] by (simp add: nth_append)
  from emit_gate [OF assms(1) e(1) this] v
  show "givesNode w w' n (\<lambda>s. gateBit opr (nodeValue s (bodies w) l) (nodeValue s (bodies w) r))"
    by (simp add: nodeValue_def)
qed

lemma propertyNode_ok:
  assumes inv: "btorInv w" and r: "propertyNode opr v symbol w = Inr (n, w')"
  shows "wrote w w' [PropertyLine opr v symbol]" "valueAt (bodies w) v" "bw_variables w' = bw_variables w"
proof -
  have e: "emit (PropertyLine opr v symbol) OtherNode w = Inr (n, w')" and v: "valueAt (bodies w) v"
    using r isValue_inv [OF inv] by (auto simp: propertyNode_def requireValue_def bindE_Inr_iff)
  note f = emit_Inr [OF e]
  have "wrote w w' (filter isDirective [PropertyLine opr v symbol]) \<and> bodies w' = bodies w @ [PropertyLine opr v symbol]"
    by (rule append_line [OF inv]) (simp_all add: f v relatedStates_def node_number [OF inv])
  then show "wrote w w' [PropertyLine opr v symbol]" "valueAt (bodies w) v" "bw_variables w' = bw_variables w"
    using v f by simp_all
qed

lemma stateRelation_line:
  assumes inv: "btorInv w" and r: "stateRelation opr s v assigned w = Inr ((n, assigned'), w1)"
    and assigned: "assigned = relatedStates opr (bodies w)"
    and init: "opr = RelInit \<Longrightarrow> v < s \<and> \<not> bw_dependsOnInput w ! v"
    and w': "w' = (case opr of RelInit \<Rightarrow> w1\<lparr> bw_initialized := assigned' \<rparr> | RelNext \<Rightarrow> w1\<lparr> bw_transitioned := assigned' \<rparr>)"
  shows "wrote w w' [RelationLine opr s v]" "stateAt (bodies w) s" "valueAt (bodies w) v" "bw_variables w' = bw_variables w"
proof -
  have e: "emit (RelationLine opr s v) OtherNode w = Inr (n, w1)" "assigned' = insert s assigned"
    and v: "stateAt (bodies w) s" "valueAt (bodies w) v" "s \<notin> assigned"
    using r isValue_inv [OF inv] isState_inv [OF inv]
    by (auto simp: stateRelation_def requireValue_def requireState_def bindE_Inr_iff split: if_splits)
  note f = emit_Inr [OF e(1)]
  have flags: "bw_dependsOnInput w = inputFlags (bodies w)"
    and sets: "bw_initialized w = relatedStates RelInit (bodies w)" "bw_transitioned w = relatedStates RelNext (bodies w)"
    using inv by (simp_all add: btorInv_def)
  have ok: "lineOk (bodies w) (RelationLine opr s v)"
    using v init unfolding assigned relatedStates_def flags by auto
  have "wrote w w' (filter isDirective [RelationLine opr s v]) \<and> bodies w' = bodies w @ [RelationLine opr s v]"
    by (rule append_line [OF inv ok])
      (use f e(2) assigned sets node_number [OF inv] in \<open>cases opr; auto simp: w' relatedStates_def\<close>)+
  then show "wrote w w' [RelationLine opr s v]" "bw_variables w' = bw_variables w"
    using f by (auto simp: w' split: relation_op.splits)
qed (use r isValue_inv [OF inv] isState_inv [OF inv] in
  \<open>auto simp: stateRelation_def requireValue_def requireState_def bindE_Inr_iff\<close>)

lemma writeNext_ok:
  assumes inv: "btorInv w" and r: "writeNext s v w = Inr (n, w')"
  shows "wrote w w' [RelationLine RelNext s v]" "stateAt (bodies w) s" "valueAt (bodies w) v" "bw_variables w' = bw_variables w"
proof -
  obtain assigned w1 where e: "stateRelation RelNext s v (bw_transitioned w) w = Inr ((n, assigned), w1)"
    "w' = w1\<lparr> bw_transitioned := assigned \<rparr>"
    using r by (auto simp: writeNext_def bindE_Inr_iff)
  have t: "bw_transitioned w = relatedStates RelNext (bodies w)" using inv by (simp add: btorInv_def)
  from stateRelation_line [OF inv e(1) t, of w'] e(2)
  show "wrote w w' [RelationLine RelNext s v]" "stateAt (bodies w) s" "valueAt (bodies w) v" "bw_variables w' = bw_variables w"
    by simp_all
qed

lemma writeInit_ok:
  assumes inv: "btorInv w" and r: "writeInit s v w = Inr (n, w')"
  shows "wrote w w' [RelationLine RelInit s v]" "stateAt (bodies w) s" "valueAt (bodies w) v" "bw_variables w' = bw_variables w"
proof -
  obtain assigned w1 where e: "stateRelation RelInit s v (bw_initialized w) w = Inr ((n, assigned), w1)"
    "w' = w1\<lparr> bw_initialized := assigned \<rparr>" "v < s" "\<not> bw_dependsOnInput w ! v"
    using r by (auto simp: writeInit_def bindE_Inr_iff not_le split: if_splits)
  have t: "bw_initialized w = relatedStates RelInit (bodies w)" using inv by (simp add: btorInv_def)
  from stateRelation_line [OF inv e(1) t, of w'] e(2-4)
  show "wrote w w' [RelationLine RelInit s v]" "stateAt (bodies w) s" "valueAt (bodies w) v" "bw_variables w' = bw_variables w"
    by simp_all
qed

lemma writeComment_ok:
  assumes inv: "btorInv w" and r: "writeComment text w = Inr w'"
  shows "wrote w w' []" "bodies w' = bodies w" "bw_variables w' = bw_variables w" "bw_expressions w' = bw_expressions w"
proof -
  have w': "w' = w\<lparr> bw_out := bw_out w @ [CommentLine text] \<rparr>"
    using r by (simp add: writeComment_def writeLine_def split: if_splits)
  show b: "bodies w' = bodies w" by (simp add: w' bodies_def List.map_filter_def)
  have "numbered (bw_out w')" using inv by (simp add: w' btorInv_def numbered_def List.map_filter_def)
  then have "btorInv w'"
    using inv boundValue_same [OF b] unfolding btorInv_def nodeMeans_def b by (simp add: w')
  then show "wrote w w' []" by (simp add: wrote_def b directives_def) (simp add: w')
qed (use r in \<open>auto simp: writeComment_def writeLine_def split: if_splits\<close>)

end
