(* ===== verification/Btor2_Expression.thy ===== *)
theory Btor2_Expression
  imports Btor2_System Expr_Eval
begin

text \<open>
  The expression pass of the BTOR2 writer: the node it returns has the value of the expression
  under the bound variables, in every valuation; on an expression whose variables are bound it
  always returns, and its guard against cycles never fires.
\<close>

section \<open>One node\<close>

lemma putExpression_fields [simp]:
  "bodies (putExpression n node w) = bodies w" "bw_variables (putExpression n node w) = bw_variables w"
  "bw_expressions (putExpression n node w) = emplace n node (bw_expressions w)"
  "bw_accepts (putExpression n node w) = bw_accepts w" "bw_nodes (putExpression n node w) = bw_nodes w"
  by (simp_all add: putExpression_def bodies_def)

lemma nodeMeans_same:
  "bodies w' = bodies w \<Longrightarrow> bw_variables w' = bw_variables w \<Longrightarrow> nodeMeans w' = nodeMeans w"
  by (intro ext) (simp add: nodeMeans_def boundValue_same [of w' w])

lemma btorInv_expression: "btorInv w \<Longrightarrow> bw_expressions w f = Some m \<Longrightarrow> nodeMeans w f m"
  unfolding btorInv_def by blast

lemma putExpression_inv:
  assumes "btorInv w" "nodeMeans w e n"
  shows "btorInv (putExpression e n w)"
proof -
  have ex: "\<forall>f m. emplace e n (bw_expressions w) f = Some m \<longrightarrow> nodeMeans w f m"
    using btorInv_expression [OF assms(1)] assms(2) by (simp add: emplace_apply)
  have means: "nodeMeans (putExpression e n w) = nodeMeans w" by (rule nodeMeans_same) simp_all
  have fields: "bw_dependsOnInput (putExpression e n w) = bw_dependsOnInput w" "bw_out (putExpression e n w) = bw_out w"
    "bw_constants (putExpression e n w) = bw_constants w" "bw_initialized (putExpression e n w) = bw_initialized w"
    "bw_transitioned (putExpression e n w) = bw_transitioned w"
    by (simp_all add: putExpression_def)
  show ?thesis using assms(1) ex unfolding btorInv_def putExpression_fields means fields by blast
qed

lemma boundValue_eval:
  assumes "btorInv w" "bodies w' = bodies w @ new" "bw_variables w' = bw_variables w" "support e \<subseteq> dom (bw_variables w)"
  shows "eval (boundValue w' s) e = eval (boundValue w s) e"
  by (rule eval_cong, rule boundValue_grows [OF assms(1,2)]) (use assms(3,4) in auto)

text \<open>The writer moves on: lines and entries are added, and nothing is bound or directed.\<close>

definition walkGrows :: "expr_walk \<Rightarrow> expr_walk \<Rightarrow> bool" where
  "walkGrows a b = ((\<exists>new. bodies (fst b) = bodies (fst a) @ new) \<and> bw_variables (fst b) = bw_variables (fst a) \<and>
     bw_expressions (fst a) \<subseteq>\<^sub>m bw_expressions (fst b) \<and> directives (fst b) = directives (fst a))"

lemma walkGrows_refl: "walkGrows a a"
  by (simp add: walkGrows_def)

lemma walkGrows_trans: "walkGrows a b \<Longrightarrow> walkGrows b c \<Longrightarrow> walkGrows a c"
  unfolding walkGrows_def using map_le_trans by (metis append.assoc)

lemma givesNode_walk: "givesNode w w' n g \<Longrightarrow> walkGrows (w, a) (w', a')"
  by (auto simp: givesNode_def wrote_def walkGrows_def)

lemma walk_put:
  assumes "btorInv w'" "walkGrows (w, a) (w', a')" "nodeMeans w' n node" "bw_expressions w' n = None"
  shows "btorInv (putExpression n node w') \<and> walkGrows (w, a) (putExpression n node w', a'') \<and>
    bw_expressions (putExpression n node w') n \<noteq> None"
proof -
  have "bw_expressions w \<subseteq>\<^sub>m emplace n node (bw_expressions w')"
    using assms(2,4) by (auto simp: walkGrows_def map_le_def emplace_apply dom_def)
  then show ?thesis
    using putExpression_inv [OF assms(1,3)] assms(2) by (auto simp: walkGrows_def emplace_apply directives_def)
qed

definition exprOf :: "btor_writer \<Rightarrow> bexpr \<Rightarrow> bool" where
  "exprOf w n = (bw_expressions w n \<noteq> None)"

lemma operandNode_ok:
  assumes "btorInv w" "operandNode (Some c) w = Inr n"
  shows "nodeMeans w c n"
  using assms unfolding btorInv_def by (simp add: operandNode_def)

lemma atE_operand: "operandNode (Some c) w = Inr n \<longleftrightarrow> bw_expressions w c = Some n"
  by (simp add: operandNode_def)

text \<open>A node computed from its operands is not entered by the lines it writes.\<close>

lemma emit_expressions: "emit b k w = Inr (n, w') \<Longrightarrow> bw_expressions w' = bw_expressions w"
  by (simp add: emit_Inr)

lemma gate_expressions:
  "logicalNot l w = Inr (n, w') \<Longrightarrow> bw_expressions w' = bw_expressions w"
  "binaryNode opr l r w = Inr (n, w') \<Longrightarrow> bw_expressions w' = bw_expressions w"
  "writeConstant b w = Inr (n, w') \<Longrightarrow> bw_expressions w' = bw_expressions w"
  by (auto simp: logicalNot_def binaryNode_def writeConstant_def bindE_Inr_iff setDepends_def
      dest: emit_expressions split: if_splits)

lemma givesNode_means:
  assumes "givesNode w w' n (\<lambda>s. eval (boundValue w s) e)" "support e \<subseteq> dom (bw_variables w)" "btorInv w"
  shows "nodeMeans w' e n"
proof -
  note g = givesNodeD [OF assms(1)]
  obtain new where new: "bodies w' = bodies w @ new" using g(1) by (auto simp: wrote_def)
  have "eval (boundValue w' s) e = eval (boundValue w s) e" for s
    by (rule boundValue_eval [OF assms(3) new g(4) assms(2)])
  then show ?thesis using g assms(2) by (simp add: nodeMeans_def)
qed

lemma variableNode_ok:
  assumes inv: "btorInv w" and r: "variableNode (BVar v) w = Inr w'" and new: "bw_expressions w (BVar v) = None"
  shows "btorInv w' \<and> walkGrows (w, a) (w', a') \<and> bw_expressions w' (BVar v) \<noteq> None"
proof (cases "v < 2")
  case True
  then have "unat v = 0 \<or> unat v = 1" by (simp add: word_less_nat_alt less_2_cases)
  then have v: "v = 0 \<or> v = 1" by (simp add: word_unat_eq_iff)
  obtain c w1 where w1: "writeConstant (v = 1) w = Inr (c, w1)" "w' = putExpression (BVar v) c w1"
    using r True by (auto simp: variableNode_def bindE_Inr_iff)
  note g = writeConstant_ok [OF inv w1(1)]
  have "nodeMeans w1 (BVar v) c"
    by (rule givesNode_means [OF _ _ inv]) (use g v in auto)
  then show ?thesis
    using walk_put [OF givesNodeD(5) [OF g] givesNode_walk [OF g]] gate_expressions(3) [OF w1(1)] new w1(2) by simp
next
  case False
  then obtain node where n: "bw_variables w v = Some node" "w' = putExpression (BVar v) node w"
    using r by (auto simp: variableNode_def split: option.splits)
  have v: "v \<noteq> 0" "v \<noteq> 1" using False by auto
  have "valueAt (bodies w) node" using inv n(1) unfolding btorInv_def by blast
  then have "nodeMeans w (BVar v) node" using n(1) v by (auto simp: nodeMeans_def boundValue_def)
  then show ?thesis using walk_put [OF inv walkGrows_refl _ new] n(2) by (simp add: walkGrows_def)
qed

lemma binaryNode_means:
  assumes inv: "btorInv w" and r: "binaryNode opr l r w = Inr (n, w')"
    and means: "nodeMeans w a l" "nodeMeans w b r"
    and e: "support e = support a \<union> support b" "\<And>env. eval env e = gateBit opr (eval env a) (eval env b)"
  shows "givesNode w w' n (\<lambda>s. eval (boundValue w s) e)" "support e \<subseteq> dom (bw_variables w)"
  using binaryNode_ok(1) [OF inv r] means e by (simp_all add: nodeMeans_def)

lemma operatorNode_ok:
  assumes inv: "btorInv w" and r: "operatorNode n w = Inr (node, w')" and op: "getOp n \<noteq> OpVAR"
  shows "givesNode w w' node (\<lambda>s. eval (boundValue w s) n)" "support n \<subseteq> dom (bw_variables w)"
    "bw_expressions w' = bw_expressions w"
proof -
  have "givesNode w w' node (\<lambda>s. eval (boundValue w s) n) \<and> support n \<subseteq> dom (bw_variables w) \<and>
    bw_expressions w' = bw_expressions w"
  proof (cases n)
    case (BNot a)
    then obtain l where l: "operandNode (Some a) w = Inr l" "logicalNot l w = Inr (node, w')"
      using r by (auto simp: operatorNode_def bindE_Inr_iff)
    then show ?thesis
      using logicalNot_ok(1) [OF inv l(2)] operandNode_ok [OF inv l(1)] gate_expressions(1) [OF l(2)]
      by (simp add: BNot nodeMeans_def)
  next
    case (BAnd a b)
    then obtain l r' where l: "operandNode (Some a) w = Inr l" "operandNode (Some b) w = Inr r'" "binaryNode GateAnd l r' w = Inr (node, w')"
      using r by (auto simp: operatorNode_def gateNode_def logicalAnd_def bindE_Inr_iff)
    then show ?thesis
      using binaryNode_means [OF inv l(3) operandNode_ok [OF inv l(1)] operandNode_ok [OF inv l(2)], of n]
        gate_expressions(2) [OF l(3)] by (simp add: BAnd)
  next
    case (BOr a b)
    then obtain l r' where l: "operandNode (Some a) w = Inr l" "operandNode (Some b) w = Inr r'" "binaryNode GateOr l r' w = Inr (node, w')"
      using r by (auto simp: operatorNode_def gateNode_def logicalOr_def bindE_Inr_iff)
    then show ?thesis
      using binaryNode_means [OF inv l(3) operandNode_ok [OF inv l(1)] operandNode_ok [OF inv l(2)], of n]
        gate_expressions(2) [OF l(3)] by (simp add: BOr)
  next
    case (BXor a b)
    then obtain l r' where l: "operandNode (Some a) w = Inr l" "operandNode (Some b) w = Inr r'" "binaryNode GateXor l r' w = Inr (node, w')"
      using r by (auto simp: operatorNode_def gateNode_def logicalXor_def bindE_Inr_iff)
    then show ?thesis
      using binaryNode_means [OF inv l(3) operandNode_ok [OF inv l(1)] operandNode_ok [OF inv l(2)], of n]
        gate_expressions(2) [OF l(3)] by (simp add: BXor)
  qed (use op in simp)
  then show "givesNode w w' node (\<lambda>s. eval (boundValue w s) n)" "support n \<subseteq> dom (bw_variables w)"
    "bw_expressions w' = bw_expressions w" by simp_all
qed

lemma finishExpression_ok:
  assumes inv: "btorInv w" and r: "finishExpression n (w, a) = Inr (w', a')" and new: "bw_expressions w n = None"
  shows "btorInv w' \<and> walkGrows (w, a) (w', a') \<and> bw_expressions w' n \<noteq> None"
proof (cases "getOp n = OpVAR")
  case True
  then obtain v where v: "n = BVar v" by (cases n) auto
  show ?thesis
    by (rule variableNode_ok [of w v, folded v]) (use inv r new True in \<open>auto simp: finishExpression_def bindE_Inr_iff v\<close>)
next
  case False
  then obtain node w1 where o: "operatorNode n w = Inr (node, w1)" "w' = putExpression n node w1"
    using r by (auto simp: finishExpression_def bindE_Inr_iff)
  note g = operatorNode_ok [OF inv o(1) False]
  show ?thesis
    using walk_put [OF givesNodeD(5) [OF g(1)] givesNode_walk [OF g(1)] givesNode_means [OF g(1,2) inv], of a a'] new g(3)
    by (simp add: o(2))
qed

interpretation expression_pass: postorder expressionVisitor "\<lambda>wa. btorInv (fst wa)" walkGrows
proof
  fix m m' :: expr_walk and n :: bexpr
  show "walkGrows m m' \<Longrightarrow> v_done expressionVisitor m n \<Longrightarrow> v_done expressionVisitor m' n"
    by (auto simp: expressionVisitor_def walkGrows_def map_le_def dom_def)
  show "btorInv (fst m) \<Longrightarrow> v_enter expressionVisitor n m = Inr m' \<Longrightarrow> btorInv (fst m') \<and> walkGrows m m'"
    by (auto simp: expressionVisitor_def enterExpression_def bindE_Inr_iff walkGrows_def split: prod.splits if_splits)
  assume inv: "btorInv (fst m)" and new: "\<not> v_done expressionVisitor m n" and r: "v_finish expressionVisitor n m = Inr m'"
  have valid: "isValid n" using r by (auto simp: expressionVisitor_def finishExpression_def checkValid_def bindE_Inr_iff split: prod.splits)
  then have "bw_expressions (fst m) n = None" using new by (simp add: expressionVisitor_def)
  then show "btorInv (fst m') \<and> walkGrows m m' \<and> v_done expressionVisitor m' n"
    using finishExpression_ok [of "fst m" n "snd m" "fst m'" "snd m'"] inv r valid by (simp add: expressionVisitor_def)
qed (auto simp: expressionVisitor_def walkGrows_refl intro: walkGrows_trans)

lemma writeExpression_ok:
  assumes inv: "btorInv w" and r: "writeExpression (Some e) w = Inr (n, w')"
  shows "givesNode w w' n (\<lambda>s. eval (boundValue w s) e)" "support e \<subseteq> dom (bw_variables w)"
proof -
  obtain a where p: "postLoop expressionVisitor [(e, False)] (w, {}) = Inr (w', a)" "bw_expressions w' e = Some n"
    using r by (auto simp: writeExpression_def bindE_Inr_iff)
  have ok: "btorInv w'" "walkGrows (w, {}) (w', a)" using expression_pass.loop_ok [OF _ p(1)] inv by simp_all
  have m: "nodeMeans w' e n" using ok(1) p(2) unfolding btorInv_def by blast
  obtain new where new: "bodies w' = bodies w @ new" "bw_variables w' = bw_variables w"
    using ok(2) by (auto simp: walkGrows_def)
  show supp: "support e \<subseteq> dom (bw_variables w)" using m by (simp add: nodeMeans_def new(2))
  have "eval (boundValue w' s) e = eval (boundValue w s) e" for s
    by (rule boundValue_eval [OF inv new supp])
  then show "givesNode w w' n (\<lambda>s. eval (boundValue w s) e)"
    using m ok new by (auto simp: givesNode_def wrote_def nodeMeans_def walkGrows_def)
qed


section \<open>The pass returns\<close>

text \<open>The lines that an expression may take, and a writer with room for that many nodes.\<close>

primrec nodeCost :: "bexpr \<Rightarrow> nat" where
  "nodeCost (BVar v) = 1"
| "nodeCost (BNot a) = Suc (nodeCost a)"
| "nodeCost (BAnd a b) = Suc (nodeCost a + nodeCost b)"
| "nodeCost (BOr a b) = Suc (nodeCost a + nodeCost b)"
| "nodeCost (BXor a b) = Suc (nodeCost a + nodeCost b)"

definition room :: "btor_writer \<Rightarrow> nat \<Rightarrow> bool" where
  "room w c = ((\<forall>k. bw_accepts w k) \<and> int (length (bw_nodes w) + c) \<le> maxNodes)"

definition uses :: "btor_writer \<Rightarrow> btor_writer \<Rightarrow> nat \<Rightarrow> bool" where
  "uses w w' c = (bw_accepts w' = bw_accepts w \<and> length (bw_nodes w') \<le> length (bw_nodes w) + c)"

lemma uses_refl [simp]: "uses w w c"
  and uses_trans: "uses a b c \<Longrightarrow> uses b d e \<Longrightarrow> uses a d (c + e)"
  by (auto simp: uses_def)

lemma room_uses: "room w (c + d) \<Longrightarrow> uses w w' c \<Longrightarrow> room w' d"
  by (auto simp: room_def uses_def)

lemma room_mono: "room w c \<Longrightarrow> d \<le> c \<Longrightarrow> room w d"
  by (auto simp: room_def)

lemma emit_total: "room w 1 \<Longrightarrow> \<exists>n w'. emit b k w = Inr (n, w') \<and> uses w w' 1"
  by (simp add: emit_def writeLine_def room_def uses_def Let_def not_le)

lemma uses_setDepends: "uses w (setDepends n b w') c = uses w w' c"
  and uses_put: "uses w (putExpression e n w') c = uses w w' c"
  by (simp_all add: uses_def setDepends_def putExpression_def)

lemma writeConstant_total: "room w 1 \<Longrightarrow> \<exists>n w'. writeConstant b w = Inr (n, w') \<and> uses w w' 1"
  using emit_total [of w "ConstLine b" ValueNode] by (auto simp: writeConstant_def uses_def)

lemma logicalNot_total: "btorInv w \<Longrightarrow> valueAt (bodies w) v \<Longrightarrow> room w 1 \<Longrightarrow> \<exists>n w'. logicalNot v w = Inr (n, w') \<and> uses w w' 1"
  using emit_total [of w "NotLine v" ValueNode]
  by (auto simp: logicalNot_def requireValue_def isValue_inv uses_setDepends)

lemma binaryNode_total:
  "btorInv w \<Longrightarrow> valueAt (bodies w) l \<Longrightarrow> valueAt (bodies w) r \<Longrightarrow> room w 1 \<Longrightarrow>
    \<exists>n w'. binaryNode opr l r w = Inr (n, w') \<and> uses w w' 1"
  using emit_total [of w "GateLine opr l r" ValueNode]
  by (auto simp: binaryNode_def requireValue_def isValue_inv uses_setDepends)

lemma finishExpression_total:
  assumes inv: "btorInv w" and r: "room w 1" and valid: "isValid n" and supp: "support n \<subseteq> dom (bw_variables w)"
    and kids: "\<And>c. c \<in> set (children n) \<Longrightarrow> bw_expressions w c \<noteq> None"
  shows "\<exists>w'. finishExpression n (w, a) = Inr (w', if getOp n = OpVAR then a else a - {n}) \<and> uses w w' 1 \<and>
    dom (bw_expressions w') \<subseteq> insert n (dom (bw_expressions w))"
proof -
  have kid: "\<exists>m. operandNode (Some c) w = Inr m \<and> valueAt (bodies w) m" if "c \<in> set (children n)" for c
    using kids [OF that] btorInv_expression [OF inv] by (auto simp: atE_operand nodeMeans_def)
  have put: "dom (bw_expressions (putExpression n m w')) \<subseteq> insert n (dom (bw_expressions w))"
    if "bw_expressions w' = bw_expressions w" for m w'
    using that by simp
  have gate: ?thesis if g: "operatorNode n w = Inr (m, w')" "uses w w' 1" "checkOperands n = Inr ()" "getOp n \<noteq> OpVAR" for m w'
    using g valid put [OF operatorNode_ok(3) [OF inv g(1,4)], of m]
    by (simp add: finishExpression_def checkValid_def uses_put)
  show ?thesis
  proof (cases n)
    case (BVar v)
    show ?thesis
    proof (cases "v < 2")
      case True
      obtain c w' where c: "writeConstant (v = 1) w = Inr (c, w')" "uses w w' 1" using writeConstant_total [OF r] by blast
      then show ?thesis
        using valid True put [OF gate_expressions(3) [OF c(1)], of c]
        by (simp add: BVar finishExpression_def checkValid_def variableNode_def uses_put)
    next
      case False
      then have "v \<in> support n" by (auto simp: BVar support_def)
      then obtain node where "bw_variables w v = Some node" using supp by auto
      then show ?thesis
        using valid False put [OF refl, of node]
        by (simp add: BVar finishExpression_def checkValid_def variableNode_def uses_put)
    qed
  next
    case (BNot x)
    obtain m where m: "operandNode (Some x) w = Inr m" "valueAt (bodies w) m" using kid [of x] by (auto simp: BNot)
    obtain k w' where k: "logicalNot m w = Inr (k, w')" "uses w w' 1" using logicalNot_total [OF inv m(2) r] by blast
    show ?thesis by (rule gate [of k w']) (use m k in \<open>simp_all add: BNot operatorNode_def checkOperands_def\<close>)
  next
    case (BAnd x y)
    obtain l where l: "operandNode (Some x) w = Inr l" "valueAt (bodies w) l" using kid [of x] by (auto simp: BAnd)
    obtain m where m: "operandNode (Some y) w = Inr m" "valueAt (bodies w) m" using kid [of y] by (auto simp: BAnd)
    obtain k w' where k: "binaryNode GateAnd l m w = Inr (k, w')" "uses w w' 1" using binaryNode_total [OF inv l(2) m(2) r] by blast
    show ?thesis by (rule gate [of k w']) (use l m k in \<open>simp_all add: BAnd operatorNode_def checkOperands_def gateNode_def logicalAnd_def\<close>)
  next
    case (BOr x y)
    obtain l where l: "operandNode (Some x) w = Inr l" "valueAt (bodies w) l" using kid [of x] by (auto simp: BOr)
    obtain m where m: "operandNode (Some y) w = Inr m" "valueAt (bodies w) m" using kid [of y] by (auto simp: BOr)
    obtain k w' where k: "binaryNode GateOr l m w = Inr (k, w')" "uses w w' 1" using binaryNode_total [OF inv l(2) m(2) r] by blast
    show ?thesis by (rule gate [of k w']) (use l m k in \<open>simp_all add: BOr operatorNode_def checkOperands_def gateNode_def logicalOr_def\<close>)
  next
    case (BXor x y)
    obtain l where l: "operandNode (Some x) w = Inr l" "valueAt (bodies w) l" using kid [of x] by (auto simp: BXor)
    obtain m where m: "operandNode (Some y) w = Inr m" "valueAt (bodies w) m" using kid [of y] by (auto simp: BXor)
    obtain k w' where k: "binaryNode GateXor l m w = Inr (k, w')" "uses w w' 1" using binaryNode_total [OF inv l(2) m(2) r] by blast
    show ?thesis by (rule gate [of k w']) (use l m k in \<open>simp_all add: BXor operatorNode_def checkOperands_def gateNode_def logicalXor_def\<close>)
  qed
qed

definition exportable :: "btor_writer \<Rightarrow> bexpr \<Rightarrow> bool" where
  "exportable w e = ((\<forall>c \<in> subs e. isValid c) \<and> support e \<subseteq> dom (bw_variables w))"

lemma exportable_child: "exportable w e \<Longrightarrow> c \<in> set (children e) \<Longrightarrow> exportable w c"
  using subs_children [of e] support_child [of c e] unfolding exportable_def by blast


lemma subs_size: "c \<in> subs e \<Longrightarrow> size c \<le> size e"
  by (induction e) auto

lemma expressionRec_total:
  "exportable w n \<Longrightarrow> btorInv w \<Longrightarrow> room w (nodeCost n) \<Longrightarrow> (\<forall>a \<in> active. size n < size a) \<Longrightarrow>
    \<exists>w'. postRec expressionVisitor n (w, active) = Inr (w', active) \<and> uses w w' (nodeCost n) \<and>
      dom (bw_expressions w') \<subseteq> dom (bw_expressions w) \<union> subs n"
proof (induction "size n" arbitrary: n w active rule: less_induct)
  case less
  let ?V = expressionVisitor
  have valid: "isValid n" and supp: "support n \<subseteq> dom (bw_variables w)" using less.prems(1) by (simp_all add: exportable_def)
  have cost: "1 \<le> nodeCost n" by (cases n) simp_all
  have sub: "subs n = insert n (\<Union>c \<in> set (children n). subs c)" by (rule subs_children)
  have fold: "\<exists>u. foldE (postRec ?V) cs (v, insert n active) = Inr (u, insert n active) \<and> uses v u (\<Sum>c\<leftarrow>cs. nodeCost c) \<and>
      dom (bw_expressions u) \<subseteq> dom (bw_expressions v) \<union> (\<Union>c \<in> set cs. subs c) \<and> btorInv u \<and> walkGrows (v, insert n active) (u, insert n active) \<and>
      (\<forall>c \<in> set cs. bw_expressions u c \<noteq> None)"
    if "btorInv v" "room v (\<Sum>c\<leftarrow>cs. nodeCost c)" "set cs \<subseteq> set (children n)" "bw_variables v = bw_variables w" for cs v
    using that
  proof (induction cs arbitrary: v)
    case Nil
    then show ?case by (simp add: walkGrows_refl)
  next
    case (Cons c cs)
    have c: "c \<in> set (children n)" "size c < size n" using Cons.prems(3) child_size by simp_all
    have act: "\<forall>a \<in> insert n active. size c < size a" using c(2) less.prems(4) by auto
    have ex: "exportable v c" using exportable_child [OF less.prems(1) c(1)] Cons.prems(4) by (simp add: exportable_def)
    obtain u where u: "postRec ?V c (v, insert n active) = Inr (u, insert n active)" "uses v u (nodeCost c)"
      "dom (bw_expressions u) \<subseteq> dom (bw_expressions v) \<union> subs c"
      using less.hyps [OF c(2) ex Cons.prems(1) room_mono [OF Cons.prems(2)] act] by auto
    have ok: "btorInv u" "walkGrows (v, insert n active) (u, insert n active)" "bw_expressions u c \<noteq> None"
      using expression_pass.postRec_ok [OF _ u(1)] Cons.prems(1) by (auto simp: expressionVisitor_def)
    have u4: "bw_variables u = bw_variables w" using ok(2) Cons.prems(4) by (simp add: walkGrows_def)
    have r: "room u (\<Sum>c\<leftarrow>cs. nodeCost c)" using room_uses [OF _ u(2)] Cons.prems(2) by simp
    obtain t where t: "foldE (postRec ?V) cs (u, insert n active) = Inr (t, insert n active)" "uses u t (\<Sum>c\<leftarrow>cs. nodeCost c)"
      "dom (bw_expressions t) \<subseteq> dom (bw_expressions u) \<union> (\<Union>c \<in> set cs. subs c)" "btorInv t"
      "walkGrows (u, insert n active) (t, insert n active)" "\<forall>c \<in> set cs. bw_expressions t c \<noteq> None"
      using Cons.IH [OF ok(1) r _ u4] Cons.prems(3) by auto
    have "bw_expressions t c \<noteq> None"
      using ok(3) t(5) unfolding walkGrows_def map_le_def fst_conv by (metis domIff)
    moreover have "dom (bw_expressions t) \<subseteq> dom (bw_expressions v) \<union> (\<Union>c \<in> set (c # cs). subs c)"
      using u(3) t(3) by (simp only: list.set UN_insert) (rule order_trans, assumption, rule Un_least, blast+)
    moreover have "\<forall>d \<in> set (c # cs). bw_expressions t d \<noteq> None" using calculation(1) t(6) by simp
    moreover have "foldE (postRec ?V) (c # cs) (v, insert n active) = Inr (t, insert n active)" using u(1) t(1) by simp
    moreover have "uses v t (\<Sum>c\<leftarrow>c # cs. nodeCost c)" using uses_trans [OF u(2) t(2)] by simp
    ultimately show ?case using t(4) walkGrows_trans [OF ok(2) t(5)] by blast
  qed
  show ?case
  proof (cases "bw_expressions w n = None")
    case False
    then have "v_done ?V (w, active) n" using valid by (simp add: expressionVisitor_def)
    then show ?thesis by (auto simp: postRec_done)
  next
    case None: True
    then have new: "\<not> v_done ?V (w, active) n" by (simp add: expressionVisitor_def)
    show ?thesis
    proof (cases "getOp n = OpVAR")
      case True
      then have leaf: "children n = []" "nodeCost n = 1" by (cases n; simp)+
      obtain w' where "finishExpression n (w, active) = Inr (w', active)" "uses w w' 1"
        "dom (bw_expressions w') \<subseteq> insert n (dom (bw_expressions w))"
        using finishExpression_total [OF less.prems(2) _ valid supp, of active] less.prems(3) leaf True by auto
      then show ?thesis
        using new True leaf(2) by (intro exI [of _ w']) (auto simp: postRec_leaf expressionVisitor_def)
    next
      case False
      have na: "n \<notin> active" using less.prems(4) by auto
      have costs: "nodeCost n = Suc (\<Sum>c\<leftarrow>children n. nodeCost c)" using False by (cases n) simp_all
      have check: "checkOperands n = Inr ()" using False by (cases n) (simp_all add: checkOperands_def)
      have kids: "kids ?V m n = children n" for m by (simp add: kids_def expressionVisitor_def)
      obtain u where u: "foldE (postRec ?V) (children n) (w, insert n active) = Inr (u, insert n active)"
        "uses w u (\<Sum>c\<leftarrow>children n. nodeCost c)" "dom (bw_expressions u) \<subseteq> dom (bw_expressions w) \<union> (\<Union>c \<in> set (children n). subs c)"
        "btorInv u" "walkGrows (w, insert n active) (u, insert n active)" "\<forall>c \<in> set (children n). bw_expressions u c \<noteq> None"
        using fold [OF less.prems(2) room_mono [OF less.prems(3)], of "children n"] costs by auto
      have "n \<notin> (\<Union>c \<in> set (children n). subs c)"
        using child_size [of _ n] subs_size by fastforce
      then have undone: "bw_expressions u n = None" using u(3) None by auto
      have ru: "room u 1" by (rule room_uses [OF _ u(2)]) (use less.prems(3) costs in \<open>simp add: add.commute\<close>)
      have su: "support n \<subseteq> dom (bw_variables u)" using supp u(5) by (simp add: walkGrows_def)
      obtain w' where f: "finishExpression n (u, insert n active) = Inr (w', active)" "uses u w' 1"
        "dom (bw_expressions w') \<subseteq> insert n (dom (bw_expressions u))"
        using finishExpression_total [OF u(4) ru valid su, of "insert n active"] u(6) False na by auto
      have "postRec ?V n (w, active) = Inr (w', active)"
        using new False valid check na u(1) undone f(1)
        by (subst postRec.simps) (simp add: kids, simp add: expressionVisitor_def enterExpression_def checkValid_def)
      moreover have "uses w w' (nodeCost n)" using uses_trans [OF u(2) f(2)] by (simp add: costs)
      ultimately show ?thesis using f(3) u(3) sub by auto
    qed
  qed
qed

lemma writeExpression_total:
  assumes "exportable w e" "btorInv w" "room w (nodeCost e)"
  shows "\<exists>n w'. writeExpression (Some e) w = Inr (n, w') \<and> uses w w' (nodeCost e)"
proof -
  obtain w' where w': "postRec expressionVisitor e (w, {}) = Inr (w', {})" "uses w w' (nodeCost e)"
    using expressionRec_total [OF assms, of "{}"] by auto
  then have "bw_expressions w' e \<noteq> None"
    using expression_pass.postRec_ok [OF _ w'(1)] assms(2) by (simp add: expressionVisitor_def)
  then show ?thesis using w' by (auto simp: writeExpression_def postLoop_root)
qed

end
