(* ===== verification/Btor2_Export.thy ===== *)
theory Btor2_Export
  imports Btor2_Writer Base_Coi
begin

text \<open>
  \<open>sec/export/SecBtor2Exporter.cpp\<close>: the export of a prepared problem as a BTOR2 transition
  system.  Inputs and states are declared in the order of their symbols, every state gets its
  next-state expression from the transition resolver, the relations between states become
  constraints, and a saturating counter of one-bit states gives the startup constraints and the
  bad property their frames.  The C++ order of evaluation of two arguments that both write nodes
  is unspecified at one call; it is the parameter \<open>frameFirst\<close>.
\<close>

section \<open>Ordered maps\<close>

text \<open>\<open>std::map\<close> as a list in the order of its keys; \<open>emplace\<close> keeps an entry that is there.\<close>

fun ordEmplace :: "'k::linorder \<Rightarrow> 'v \<Rightarrow> ('k \<times> 'v) list \<Rightarrow> ('k \<times> 'v) list" where
  "ordEmplace k v [] = [(k, v)]"
| "ordEmplace k v ((l, u) # xs) =
    (if k < l then (k, v) # (l, u) # xs
     else if k = l then (l, u) # xs
     else (l, u) # ordEmplace k v xs)"

section \<open>The timeline\<close>

fun bitWidth :: "nat \<Rightarrow> nat" where
  "bitWidth n = (if n = 0 then 0 else Suc (bitWidth (n div 2)))"

declare bitWidth.simps [simp del]

definition frameBit :: "nat \<Rightarrow> nat \<Rightarrow> bool" where
  "frameBit frame b = odd (frame div 2 ^ b)"

record timeline =
  tl_bits :: "nat list"
  tl_first :: nat

definition frameMatch :: "nat \<Rightarrow> nat \<times> nat \<Rightarrow> nat \<times> btor_writer \<Rightarrow> nat written" where
  "frameMatch frame bn rw =
    (case bn of (b, node) \<Rightarrow> case rw of (result, w) \<Rightarrow>
      if frameBit frame b then logicalAnd result node w
      else bindE (logicalNot node w) (\<lambda>(n, w). logicalAnd result n w))"

definition timelineAt :: "nat list \<Rightarrow> nat \<Rightarrow> btor_writer \<Rightarrow> nat written" where
  "timelineAt bits frame w =
    bindE (writeConstant True w) (\<lambda>rw. foldE (frameMatch frame) (List.enumerate 0 bits) rw)"

definition beforeStep :: "nat \<Rightarrow> nat \<times> nat \<Rightarrow> (nat \<times> nat) \<times> btor_writer \<Rightarrow> (nat \<times> nat) written" where
  "beforeStep frame bn lw =
    (case bn of (b, node) \<Rightarrow> case lw of ((smaller, same), w) \<Rightarrow>
      if frameBit frame b
      then bindE (logicalNot node w) (\<lambda>(n, w).
           bindE (logicalAnd same n w) (\<lambda>(m, w).
           bindE (logicalOr smaller m w) (\<lambda>(smaller, w).
           bindE (logicalAnd same node w) (\<lambda>(same, w). Inr ((smaller, same), w)))))
      else bindE (logicalNot node w) (\<lambda>(n, w).
           bindE (logicalAnd same n w) (\<lambda>(same, w). Inr ((smaller, same), w))))"

definition timelineBefore :: "nat list \<Rightarrow> nat \<Rightarrow> btor_writer \<Rightarrow> nat written" where
  "timelineBefore bits frame w =
    bindE (writeConstant False w) (\<lambda>(smaller, w).
    bindE (writeConstant True w) (\<lambda>(same, w).
    bindE (foldE (beforeStep frame) (rev (List.enumerate 0 bits)) ((smaller, same), w)) (\<lambda>((smaller, _), w).
      Inr (smaller, w))))"

definition timelineBit :: "nat \<Rightarrow> nat list \<times> btor_writer \<Rightarrow> nat list written" where
  "timelineBit b bw =
    (case bw of (bits, w) \<Rightarrow>
      bindE (writeState (''kf_export_cycle_'' @ showNat b) w) (\<lambda>(node, w).
      bindE (writeConstant False w) (\<lambda>(c, w).
      bindE (writeInit node c w) (\<lambda>(_, w). Inr (bits @ [node], w)))))"

definition timelineCarry :: "nat \<Rightarrow> nat \<Rightarrow> nat \<times> btor_writer \<Rightarrow> nat written" where
  "timelineCarry advance node cw =
    (case cw of (carry, w) \<Rightarrow>
      bindE (logicalAnd carry advance w) (\<lambda>(a, w).
      bindE (logicalXor node a w) (\<lambda>(x, w).
      bindE (writeNext node x w) (\<lambda>(_, w).
        logicalAnd carry node w))))"

definition newTimeline :: "nat \<Rightarrow> btor_writer \<Rightarrow> timeline written" where
  "newTimeline lastFrame w =
    bindE (foldE timelineBit [0..<bitWidth lastFrame] ([], w)) (\<lambda>(bits, w).
      if bits = [] then Inr (\<lparr> tl_bits = bits, tl_first = 0 \<rparr>, w)
      else bindE (timelineAt bits lastFrame w) (\<lambda>(reached, w).
           bindE (logicalNot reached w) (\<lambda>(advance, w).
           bindE (writeConstant True w) (\<lambda>cw.
           bindE (foldE (timelineCarry advance) bits cw) (\<lambda>(_, w).
             Inr (\<lparr> tl_bits = bits, tl_first = 0 \<rparr>, w))))))"

definition timelineFirstFrame :: "timeline \<Rightarrow> btor_writer \<Rightarrow> (nat \<times> timeline) written" where
  "timelineFirstFrame tm w =
    (if tl_bits tm \<noteq> [] then bindE (timelineAt (tl_bits tm) 0 w) (\<lambda>(n, w). Inr ((n, tm), w))
     else if tl_first tm = 0
     then bindE (writeState ''kf_export_initial_frame'' w) (\<lambda>(first, w).
          bindE (writeConstant True w) (\<lambda>(t, w).
          bindE (writeInit first t w) (\<lambda>(_, w).
          bindE (writeConstant False w) (\<lambda>(f, w).
          bindE (writeNext first f w) (\<lambda>(_, w). Inr ((first, tm\<lparr> tl_first := first \<rparr>), w))))))
     else Inr ((tl_first tm, tm), w))"

definition constrainWhen :: "nat \<Rightarrow> nat \<Rightarrow> btor_writer \<Rightarrow> error + btor_writer" where
  "constrainWhen when condition w =
    bindE (logicalNot when w) (\<lambda>(n, w).
    bindE (logicalOr n condition w) (\<lambda>(c, w).
    bindE (writeConstraint c w) (\<lambda>(_, w). Inr w)))"

section \<open>Declarations\<close>

record metadata =
  md_totalOutputCount :: nat
  md_skippedOutputs :: "string list"

definition exportComments :: "problem \<Rightarrow> metadata \<Rightarrow> string list" where
  "exportComments p md =
    [''Kepler Formal: prepared SEC equivalence obligation; no proof result'',
     ''encoding='' @ (if pb_usesDualRailStateEncoding p then ''dual_rail_steady'' else ''binary''),
     ''startup=SEC concrete base-case observation semantics'',
     ''covered_outputs='' @ showNat (length (pb_observedOutputNames p)) @ '' total_outputs='' @
       showNat (if md_totalOutputCount md \<noteq> 0 then md_totalOutputCount md else length (pb_observedOutputNames p))] @
    map (\<lambda>name. ''covered_output='' @ name) (pb_observedOutputNames p) @
    map (\<lambda>name. ''skipped_output='' @ name) (md_skippedOutputs md)"

type_synonym symbol_names = "(var_id \<times> string) list"

definition addStates :: "string \<Rightarrow> var_id list \<Rightarrow> symbol_names \<Rightarrow> error + symbol_names" where
  "addStates prfx symbols states =
    foldE (\<lambda>symbol states.
      if symbol < 2 \<or> map_of states symbol \<noteq> None
      then Inl (Runtime_Error (''Invalid or duplicate SEC state symbol '' @ showWord symbol))
      else Inr (ordEmplace symbol (prfx @ showWord symbol) states)) symbols states"

definition exportStates :: "problem \<Rightarrow> error + symbol_names" where
  "exportStates p =
    bindE (addStates ''design0_state_'' (pb_state0Symbols p) []) (\<lambda>states.
    bindE (addStates ''design1_state_'' (pb_state1Symbols p) states) (\<lambda>states.
      addStates ''auxiliary_state_'' (pb_auxiliaryStateSymbols p) states))"

definition exportInputName :: "string list \<Rightarrow> nat \<times> var_id \<Rightarrow> string" where
  "exportInputName names ix =
    (let name = (if fst ix < length names then names ! fst ix else []) in
     ''input_'' @ showWord (snd ix) @ (if name = [] then [] else ''_'' @ name))"

definition exportInputs :: "problem \<Rightarrow> symbol_names \<Rightarrow> error + symbol_names" where
  "exportInputs p states =
    bindE (foldE (\<lambda>ix inputs.
      if snd ix < 2 \<or> map_of states (snd ix) \<noteq> None
      then Inl (Runtime_Error (''Invalid SEC input symbol '' @ showWord (snd ix)))
      else Inr (ordEmplace (snd ix) (exportInputName (pb_environmentInputNames p) ix) inputs))
      (List.enumerate 0 (pb_inputSymbols p)) []) (\<lambda>inputs.
    Inr (fold (\<lambda>symbol inputs.
      if 2 \<le> symbol \<and> map_of states symbol = None
      then ordEmplace symbol (''input_'' @ showWord symbol) inputs else inputs) (pb_allSymbols p) inputs))"

type_synonym node_map = "var_id \<rightharpoonup> nat"

definition declareSymbol :: "(string \<Rightarrow> btor_writer \<Rightarrow> nat written) \<Rightarrow> var_id \<times> string \<Rightarrow>
    node_map \<times> btor_writer \<Rightarrow> node_map written" where
  "declareSymbol declareNode sn nw =
    (case sn of (symbol, name) \<Rightarrow> case nw of (nodes, w) \<Rightarrow>
      bindE (declareNode name w) (\<lambda>(node, w).
      bindE (bindVariable symbol node w) (\<lambda>w. Inr (emplace symbol node nodes, w))))"

definition declareSymbols :: "symbol_names \<Rightarrow> symbol_names \<Rightarrow> btor_writer \<Rightarrow> node_map written" where
  "declareSymbols inputs states w =
    bindE (foldE (declareSymbol writeInput) inputs (Map.empty, w)) (\<lambda>nw.
      foldE (declareSymbol writeState) states nw)"

definition nodeForState :: "symbol_names \<Rightarrow> node_map \<Rightarrow> var_id \<Rightarrow> error + nat" where
  "nodeForState states nodes symbol =
    (if map_of states symbol = None
     then Inl (Runtime_Error (''BTOR2 export references undeclared state '' @ showWord symbol))
     else atE nodes symbol)"

section \<open>Transitions and relations\<close>

definition nextState :: "node_map \<Rightarrow> var_id \<times> string \<Rightarrow> resolver \<times> btor_writer \<Rightarrow> resolver written" where
  "nextState nodes sn rw =
    (case sn of (symbol, name) \<Rightarrow> case rw of (r, w) \<Rightarrow>
      if resolverContains symbol r
      then bindE (transitionAt symbol r) (\<lambda>(e, r).
           bindE (writeExpression e w) (\<lambda>(value, w).
           bindE (atE nodes symbol) (\<lambda>node.
           bindE (writeNext node value w) (\<lambda>(_, w). Inr (r, w)))))
      else (case primaryByComplement r of (primaries, r) \<Rightarrow>
        case primaries symbol of
          Some primary \<Rightarrow>
            if resolverContains primary r
            then bindE (transitionAt primary r) (\<lambda>(e, r).
                 bindE (writeExpression e w) (\<lambda>(value, w).
                 bindE (logicalNot value w) (\<lambda>(value, w).
                 bindE (atE nodes symbol) (\<lambda>node.
                 bindE (writeNext node value w) (\<lambda>(_, w). Inr (r, w))))))
            else Inl (Runtime_Error (''BTOR2 export missing next-state expression for '' @ name))
        | None \<Rightarrow> Inl (Runtime_Error (''BTOR2 export missing next-state expression for '' @ name))))"

definition addRelation :: "(var_id \<Rightarrow> error + nat) \<Rightarrow> bool \<Rightarrow> var_id \<times> var_id \<Rightarrow> btor_writer \<Rightarrow> error + btor_writer" where
  "addRelation nodeFor complement lr w =
    bindE (nodeFor (fst lr)) (\<lambda>lhs.
    bindE (if complement then logicalNot lhs w else Inr (lhs, w)) (\<lambda>(lhs, w).
    bindE (nodeFor (snd lr)) (\<lambda>rhs.
    bindE (equalNode lhs rhs w) (\<lambda>(c, w).
    bindE (writeConstraint c w) (\<lambda>(_, w). Inr w)))))"

definition addRails :: "(var_id \<Rightarrow> error + nat) \<Rightarrow> rail_pair \<Rightarrow> btor_writer \<Rightarrow> error + btor_writer" where
  "addRails nodeFor rails w =
    bindE (nodeFor (railOne rails)) (\<lambda>one.
    bindE (nodeFor (railZero rails)) (\<lambda>zero.
    bindE (logicalOr one zero w) (\<lambda>(c, w).
    bindE (writeConstraint c w) (\<lambda>(_, w). Inr w))))"

definition exportRelations :: "problem \<Rightarrow> (var_id \<Rightarrow> error + nat) \<Rightarrow> btor_writer \<Rightarrow> error + btor_writer" where
  "exportRelations p nodeFor w =
    bindE (foldE (addRelation nodeFor True) (pb_complementedStatePairs0 p) w) (\<lambda>w.
    bindE (foldE (addRelation nodeFor True) (pb_complementedStatePairs1 p) w) (\<lambda>w.
    bindE (foldE (addRelation nodeFor False) (pb_sameFrameStateEqualityPairs0 p) w) (\<lambda>w.
    bindE (foldE (addRelation nodeFor False) (pb_sameFrameStateEqualityPairs1 p) w) (\<lambda>w.
      foldE (addRails nodeFor) (pb_dualRailStatePairs p) w))))"

section \<open>Startup\<close>

text \<open>The frames of the startup, which mirror the base-case query.\<close>

definition exportResetFrames :: "problem \<Rightarrow> nat" where
  "exportResetFrames p =
    (if (\<not> hasCompleteInitialState p \<or> pb_usesDualRailStateEncoding p) \<and> hasResetBootstrap p
     then pb_resetBootstrapCycles p else 0)"

definition resetObservation :: "problem \<Rightarrow> bool" where
  "resetObservation p = (exportResetFrames p \<noteq> 0 \<and> usesResetBootstrapObservationFrontier p)"

definition initialObservation :: "problem \<Rightarrow> bool" where
  "initialObservation p = (exportResetFrames p = 0 \<and> hasSequentialState p \<and> \<not> hasCompleteInitialState p)"

definition firstBadFrame :: "problem \<Rightarrow> nat" where
  "firstBadFrame p =
    (if exportResetFrames p \<noteq> 0 then exportResetFrames p + (if resetObservation p then 1 else 0)
     else if initialObservation p then 1 else 0)"

definition timelineEnd :: "problem \<Rightarrow> nat" where
  "timelineEnd p =
    (if exportResetFrames p \<noteq> 0 then max (firstBadFrame p) (exportResetFrames p + 1) else firstBadFrame p)"

definition exportInitializes :: "problem \<Rightarrow> bool" where
  "exportInitializes p =
    (if exportResetFrames p \<noteq> 0 then pb_usesDualRailStateEncoding p
     else hasSequentialState p \<and> hasExplicitInitialState p)"

definition initialValue :: "var_id \<times> bool \<Rightarrow> (var_id \<times> bool) list \<Rightarrow> error + (var_id \<times> bool) list" where
  "initialValue sv vals =
    (case map_of vals (fst sv) of
       None \<Rightarrow> Inr (ordEmplace (fst sv) (snd sv) vals)
     | Some old \<Rightarrow> if old \<noteq> snd sv then Inl (Runtime_Error ''Conflicting SEC initial assignments'') else Inr vals)"

definition initState :: "(var_id \<Rightarrow> error + nat) \<Rightarrow> var_id \<times> bool \<Rightarrow> btor_writer \<Rightarrow> error + btor_writer" where
  "initState nodeFor sv w =
    bindE (nodeFor (fst sv)) (\<lambda>node.
    bindE (writeConstant (snd sv) w) (\<lambda>(c, w).
    bindE (writeInit node c w) (\<lambda>(_, w). Inr w)))"

definition initialFrameFormula :: "bool \<Rightarrow> bexpr option \<Rightarrow> timeline \<Rightarrow> btor_writer \<Rightarrow> timeline written" where
  "initialFrameFormula frameFirst formula tm w =
    bindE (if frameFirst
      then bindE (timelineFirstFrame tm w) (\<lambda>((when, tm), w).
           bindE (writeExpression formula w) (\<lambda>(c, w). Inr ((when, c, tm), w)))
      else bindE (writeExpression formula w) (\<lambda>(c, w).
           bindE (timelineFirstFrame tm w) (\<lambda>((when, tm), w). Inr ((when, c, tm), w))))
      (\<lambda>((when, c, tm), w). bindE (constrainWhen when c w) (\<lambda>w. Inr (tm, w)))"

definition exportInitial :: "bool \<Rightarrow> problem \<Rightarrow> (var_id \<Rightarrow> error + nat) \<Rightarrow> timeline \<Rightarrow> btor_writer \<Rightarrow> timeline written" where
  "exportInitial frameFirst p nodeFor tm w =
    (if exportInitializes p \<and> (exportResetFrames p \<noteq> 0 \<or> pb_initialCondition p \<noteq> None)
     then (if pb_initialStateAssignments p \<noteq> []
       then bindE (foldE initialValue (pb_initialStateAssignments p) []) (\<lambda>vals.
            bindE (foldE (initState nodeFor) vals w) (\<lambda>w. Inr (tm, w)))
       else if exportResetFrames p = 0 \<and> pb_initialCondition p \<noteq> Some createTrue
       then initialFrameFormula frameFirst (pb_initialCondition p) tm w
       else Inr (tm, w))
     else Inr (tm, w))"

definition resetInput :: "symbol_names \<Rightarrow> node_map \<Rightarrow> nat \<Rightarrow> var_id \<times> bool \<Rightarrow> btor_writer \<Rightarrow> error + btor_writer" where
  "resetInput inputs nodes active sa w =
    (if map_of inputs (fst sa) = None then Inl (Runtime_Error ''BTOR2 export reset port is not an input'')
     else bindE (atE nodes (fst sa)) (\<lambda>node.
       bindE (if snd sa then Inr (active, w) else logicalNot active w) (\<lambda>(value, w).
       bindE (equalNode node value w) (\<lambda>(c, w).
       bindE (writeConstraint c w) (\<lambda>(_, w). Inr w)))))"

definition bootstrapState :: "(var_id \<Rightarrow> error + nat) \<Rightarrow> nat \<Rightarrow> var_id \<times> bool \<Rightarrow> btor_writer \<Rightarrow> error + btor_writer" where
  "bootstrapState nodeFor frontier sv w =
    bindE (nodeFor (fst sv)) (\<lambda>node.
    bindE (if snd sv then Inr (node, w) else logicalNot node w) (\<lambda>(value, w).
      constrainWhen frontier value w))"

definition exportReset :: "problem \<Rightarrow> symbol_names \<Rightarrow> node_map \<Rightarrow> (var_id \<Rightarrow> error + nat) \<Rightarrow> nat list \<Rightarrow> nat \<Rightarrow>
    btor_writer \<Rightarrow> error + btor_writer" where
  "exportReset p inputs nodes nodeFor bits property w =
    (if exportResetFrames p = 0 then Inr w
     else bindE (timelineBefore bits (exportResetFrames p) w) (\<lambda>(active, w).
       bindE (foldE (resetInput inputs nodes active) (pb_resetBootstrapInputs p) w) (\<lambda>w.
       bindE (timelineAt bits (exportResetFrames p) w) (\<lambda>(frontier, w).
       bindE (if resetObservation p then constrainWhen frontier property w else Inr w) (\<lambda>w.
         if pb_usesDualRailStateEncoding p then Inr w
         else foldE (bootstrapState nodeFor frontier) (pb_bootstrapStateAssignments p) w)))))"

definition exportBad :: "problem \<Rightarrow> nat list \<Rightarrow> btor_writer \<Rightarrow> error + btor_writer" where
  "exportBad p bits w =
    bindE (writeExpression (pb_bad p) w) (\<lambda>(badness, w).
    bindE (if firstBadFrame p \<noteq> 0
      then bindE (timelineBefore bits (firstBadFrame p) w) (\<lambda>(early, w).
           bindE (logicalNot early w) (\<lambda>(n, w). logicalAnd n badness w))
      else Inr (badness, w)) (\<lambda>(badness, w).
    bindE (writeBad badness ''equivalence_mismatch'' w) (\<lambda>(_, w). Inr w)))"

section \<open>The export\<close>

definition exportStartup :: "bool \<Rightarrow> problem \<Rightarrow> symbol_names \<Rightarrow> node_map \<Rightarrow> (var_id \<Rightarrow> error + nat) \<Rightarrow> btor_writer \<Rightarrow>
    error + btor_writer" where
  "exportStartup frameFirst p inputs nodes nodeFor w =
    bindE (newTimeline (timelineEnd p) w) (\<lambda>(tm, w).
    bindE (exportInitial frameFirst p nodeFor tm w) (\<lambda>(tm, w).
    bindE (writeExpression (pb_property p) w) (\<lambda>(property, w).
    bindE (if initialObservation p
      then bindE (timelineFirstFrame tm w) (\<lambda>((when, tm), w).
           bindE (constrainWhen when property w) (\<lambda>w. Inr (tm, w)))
      else Inr (tm, w)) (\<lambda>(tm, w).
    bindE (exportReset p inputs nodes nodeFor (tl_bits tm) property w) (\<lambda>w.
      exportBad p (tl_bits tm) w)))))"

definition exportSecBtor2 :: "bool \<Rightarrow> problem \<Rightarrow> metadata \<Rightarrow> (nat \<Rightarrow> bool) \<Rightarrow> error + btor_writer" where
  "exportSecBtor2 frameFirst p md accepts =
    (if pb_bad p = None \<or> pb_property p = None
     then Inl (Runtime_Error ''BTOR2 export requires a prepared SEC property'')
     else bindE (newBtor2Writer accepts) (\<lambda>w.
       bindE (writeConstant False w) (\<lambda>(_, w).
       bindE (writeConstant True w) (\<lambda>(_, w).
       bindE (foldE writeComment (exportComments p md) w) (\<lambda>w.
       bindE (exportStates p) (\<lambda>states.
       bindE (exportInputs p states) (\<lambda>inputs.
       bindE (declareSymbols inputs states w) (\<lambda>(nodes, w).
       bindE (foldE (nextState nodes) states (newResolver p, w)) (\<lambda>(_, w).
       bindE (exportRelations p (nodeForState states nodes) w) (\<lambda>w.
       if int (exportResetFrames p) = 18446744073709551615
       then Inl (Runtime_Error ''BTOR2 export reset cycle count is too large'')
       else bindE (writeComment (''reset_prefix_frames='' @ showNat (exportResetFrames p) @
              '' first_bad_frame='' @ showNat (firstBadFrame p)) w) (\<lambda>w.
         exportStartup frameFirst p inputs nodes (nodeForState states nodes) w)))))))))))"

end
