(* ===== verification/Btor2_View.thy ===== *)
theory Btor2_View
  imports Btor2_Expression Btor2_Export
begin

text \<open>
  What a stretch of the export adds to the transition system: a view with its share of the start,
  the step, the legal frames and the bad frames.  Views compose along the writer, because values
  of nodes do not change when lines are appended.
\<close>

section \<open>Views\<close>

record view =
  vw_start :: "(nat \<Rightarrow> bool) \<Rightarrow> bool"
  vw_step :: "(nat \<Rightarrow> bool) \<Rightarrow> (nat \<Rightarrow> bool) \<Rightarrow> bool"
  vw_legal :: "(nat \<Rightarrow> bool) \<Rightarrow> bool"
  vw_bad :: "(nat \<Rightarrow> bool) \<Rightarrow> bool"

definition noView :: view where
  "noView = \<lparr> vw_start = (\<lambda>_. True), vw_step = (\<lambda>_ _. True), vw_legal = (\<lambda>_. True), vw_bad = (\<lambda>_. False) \<rparr>"

definition startView :: "((nat \<Rightarrow> bool) \<Rightarrow> bool) \<Rightarrow> view" where
  "startView P = noView\<lparr> vw_start := P \<rparr>"

definition stepView :: "((nat \<Rightarrow> bool) \<Rightarrow> (nat \<Rightarrow> bool) \<Rightarrow> bool) \<Rightarrow> view" where
  "stepView P = noView\<lparr> vw_step := P \<rparr>"

definition legalView :: "((nat \<Rightarrow> bool) \<Rightarrow> bool) \<Rightarrow> view" where
  "legalView P = noView\<lparr> vw_legal := P \<rparr>"

definition badView :: "((nat \<Rightarrow> bool) \<Rightarrow> bool) \<Rightarrow> view" where
  "badView P = noView\<lparr> vw_bad := P \<rparr>"

definition joinView :: "view \<Rightarrow> view \<Rightarrow> view" where
  "joinView a b = \<lparr> vw_start = (\<lambda>s. vw_start a s \<and> vw_start b s), vw_step = (\<lambda>s t. vw_step a s t \<and> vw_step b s t),
     vw_legal = (\<lambda>s. vw_legal a s \<and> vw_legal b s), vw_bad = (\<lambda>s. vw_bad a s \<or> vw_bad b s) \<rparr>"

lemmas view_defs = noView_def startView_def stepView_def legalView_def badView_def joinView_def

lemma joinView_none [simp]: "joinView noView v = v" "joinView v noView = v"
  by (simp_all add: view_defs)

lemma joinView_assoc: "joinView (joinView a b) c = joinView a (joinView b c)"
  by (simp add: joinView_def conj_assoc disj_assoc)

lemma joinView_same:
  "joinView (startView P) (startView Q) = startView (\<lambda>s. P s \<and> Q s)"
  "joinView (stepView F) (stepView G) = stepView (\<lambda>s t. F s t \<and> G s t)"
  "joinView (legalView P) (legalView Q) = legalView (\<lambda>s. P s \<and> Q s)"
  by (simp_all add: view_defs)

lemma view_True [simp]: "startView (\<lambda>s. True) = noView" "stepView (\<lambda>s t. True) = noView" "legalView (\<lambda>s. True) = noView"
  by (simp_all add: view_defs)

text \<open>The view of directives, with the values of the nodes taken from the whole file.\<close>

definition viewOf :: "btor_body list \<Rightarrow> btor_body list \<Rightarrow> view" where
  "viewOf ds bs =
    \<lparr> vw_start = (\<lambda>s. \<forall>x v. RelationLine RelInit x v \<in> set ds \<longrightarrow> s x = nodeValue s bs v),
      vw_step = (\<lambda>s t. \<forall>x v. RelationLine RelNext x v \<in> set ds \<longrightarrow> t x = nodeValue s bs v),
      vw_legal = (\<lambda>s. \<forall>v symbol. PropertyLine PropConstraint v symbol \<in> set ds \<longrightarrow> nodeValue s bs v),
      vw_bad = (\<lambda>s. \<exists>v symbol. PropertyLine PropBad v symbol \<in> set ds \<and> nodeValue s bs v) \<rparr>"

lemma viewOf_append: "viewOf (ds @ es) bs = joinView (viewOf ds bs) (viewOf es bs)"
  by (simp add: viewOf_def joinView_def all_conj_distrib imp_conjR disj_imp ex_disj_distrib conj_disj_distribR)
    (auto intro!: ext)

lemma viewOf_Nil [simp]: "viewOf [] bs = noView"
  by (simp add: viewOf_def noView_def)

lemma viewOf_one:
  "viewOf [RelationLine RelInit x v] bs = startView (\<lambda>s. s x = nodeValue s bs v)"
  "viewOf [RelationLine RelNext x v] bs = stepView (\<lambda>s t. t x = nodeValue s bs v)"
  "viewOf [PropertyLine PropConstraint v symbol] bs = legalView (\<lambda>s. nodeValue s bs v)"
  "viewOf [PropertyLine PropBad v symbol] bs = badView (\<lambda>s. nodeValue s bs v)"
  by (simp_all add: viewOf_def view_defs)

lemma viewOf_bodies:
  "viewOf (filter isDirective bs) bs = \<lparr> vw_start = btorStart bs, vw_step = btorStep bs, vw_legal = btorLegal bs, vw_bad = btorBad bs \<rparr>"
  by (auto simp: viewOf_def btorStart_def btorStep_def btorLegal_def btorBad_def intro!: ext; blast)

section \<open>A writer adds a view\<close>

definition adds :: "btor_writer \<Rightarrow> btor_writer \<Rightarrow> view \<Rightarrow> bool" where
  "adds w w' v = (\<exists>ds. wrote w w' ds \<and> bw_variables w' = bw_variables w \<and> (\<forall>new. viewOf ds (bodies w' @ new) = v))"

lemma adds_wrote:
  assumes "adds w w' v"
  obtains ds where "wrote w w' ds" "bw_variables w' = bw_variables w"
  using assms by (auto simp: adds_def)

lemma adds_inv: "adds w w' v \<Longrightarrow> btorInv w'"
  and adds_variables: "adds w w' v \<Longrightarrow> bw_variables w' = bw_variables w"
  by (auto simp: adds_def wrote_def)

lemma adds_value:
  assumes "adds w w' v" "valueAt (bodies w) n"
  shows "valueAt (bodies w') n" "nodeValue s (bodies w') n = nodeValue s (bodies w) n"
  using assms wrote_value by (auto simp: adds_def)

lemma adds_state: "adds w w' v \<Longrightarrow> stateAt (bodies w) n \<Longrightarrow> stateAt (bodies w') n"
  using wrote_state by (auto simp: adds_def)

lemma adds_refl: "btorInv w \<Longrightarrow> adds w w noView"
  unfolding adds_def using wrote_refl by (intro exI [of _ "[]"]) simp

lemma adds_trans:
  assumes "adds a b v" "adds b c u"
  shows "adds a c (joinView v u)"
proof -
  obtain ds where ds: "wrote a b ds" "bw_variables b = bw_variables a" "\<And>new. viewOf ds (bodies b @ new) = v"
    using assms(1) by (auto simp: adds_def)
  obtain es where es: "wrote b c es" "bw_variables c = bw_variables b" "\<And>new. viewOf es (bodies c @ new) = u"
    using assms(2) by (auto simp: adds_def)
  obtain n where "bodies c = bodies b @ n" using es(1) by (auto simp: wrote_def)
  then have "viewOf ds (bodies c @ new) = v" for new using ds(3) by simp
  then have "viewOf (ds @ es) (bodies c @ new) = joinView v u" for new by (simp add: viewOf_append es(3))
  then show ?thesis using wrote_trans [OF ds(1) es(1)] ds(2) es(2) by (auto simp: adds_def)
qed

lemma givesNode_adds: "givesNode w w' n g \<Longrightarrow> adds w w' noView"
  by (auto simp: givesNode_def adds_def)

lemma adds_given: "adds a b noView \<Longrightarrow> adds b c v \<Longrightarrow> adds a c v"
  using adds_trans [of a b noView c v] by simp

lemma adds_then_given: "adds a b v \<Longrightarrow> adds b c noView \<Longrightarrow> adds a c v"
  using adds_trans [of a b v c noView] by simp

lemma givesNode_trans:
  assumes "adds a b noView" "givesNode b c n g"
  shows "adds a c noView" "valueAt (bodies c) n" "nodeValue s (bodies c) n = g s"
  using assms adds_given [OF assms(1) givesNode_adds [OF assms(2)]] by (auto simp: givesNode_def)

lemma writeComment_adds: "btorInv w \<Longrightarrow> writeComment msg w = Inr w' \<Longrightarrow> adds w w' noView"
  using writeComment_ok [of w msg w'] by (auto simp: adds_def)

lemma directive_adds:
  assumes w: "wrote w w' [d]" "bw_variables w' = bw_variables w" and v: "valueAt (bodies w) n"
    and view: "\<And>bs. viewOf [d] bs = f (\<lambda>s. nodeValue s bs n)"
  shows "adds w w' (f (\<lambda>s. nodeValue s (bodies w) n))"
proof -
  have "nodeValue s (bodies w' @ new) n = nodeValue s (bodies w) n" for s new
    using wrote_value [OF w(1) v] valueAt_le by simp
  then show ?thesis using w by (auto simp: adds_def view)
qed

lemma writeConstraint_adds:
  assumes inv: "btorInv w" and r: "writeConstraint c w = Inr (n, w')"
  shows "adds w w' (legalView (\<lambda>s. nodeValue s (bodies w) c))" "valueAt (bodies w) c"
  using propertyNode_ok [OF inv, of PropConstraint c "[]" n w'] r
    directive_adds [of w w' "PropertyLine PropConstraint c []" c legalView]
  by (simp_all add: writeConstraint_def viewOf_one)

lemma writeBad_adds:
  assumes inv: "btorInv w" and r: "writeBad c symbol w = Inr (n, w')"
  shows "adds w w' (badView (\<lambda>s. nodeValue s (bodies w) c))" "valueAt (bodies w) c"
  using propertyNode_ok [OF inv, of PropBad c symbol n w'] r
    directive_adds [of w w' "PropertyLine PropBad c symbol" c badView]
  by (simp_all add: writeBad_def viewOf_one)

lemma writeNext_adds:
  assumes inv: "btorInv w" and r: "writeNext x c w = Inr (n, w')"
  shows "adds w w' (stepView (\<lambda>s t. t x = nodeValue s (bodies w) c))" "valueAt (bodies w) c" "stateAt (bodies w) x"
  using writeNext_ok [OF inv r]
    directive_adds [of w w' "RelationLine RelNext x c" c "\<lambda>g. stepView (\<lambda>s t. t x = g s)"]
  by (simp_all add: viewOf_one)

lemma writeInit_adds:
  assumes inv: "btorInv w" and r: "writeInit x c w = Inr (n, w')"
  shows "adds w w' (startView (\<lambda>s. s x = nodeValue s (bodies w) c))" "valueAt (bodies w) c" "stateAt (bodies w) x"
  using writeInit_ok [OF inv r]
    directive_adds [of w w' "RelationLine RelInit x c" c "\<lambda>g. startView (\<lambda>s. s x = g s)"]
  by (simp_all add: viewOf_one)



text \<open>A loop whose every round adds a view.\<close>

definition joinViews :: "('a \<Rightarrow> view) \<Rightarrow> 'a list \<Rightarrow> view" where
  "joinViews V xs = foldr (\<lambda>x. joinView (V x)) xs noView"

lemma joinViews_simps [simp]:
  "joinViews V [] = noView" "joinViews V (x # xs) = joinView (V x) (joinViews V xs)"
  by (simp_all add: joinViews_def)

lemma joinViews_kinds:
  "joinViews (\<lambda>x. startView (P x)) xs = startView (\<lambda>s. \<forall>x \<in> set xs. P x s)"
  "joinViews (\<lambda>x. stepView (F x)) xs = stepView (\<lambda>s t. \<forall>x \<in> set xs. F x s t)"
  "joinViews (\<lambda>x. legalView (P x)) xs = legalView (\<lambda>s. \<forall>x \<in> set xs. P x s)"
  by (induction xs) (simp_all add: joinView_same)

lemma foldE_adds:
  assumes "foldE f xs w = Inr w'" "J w"
    and "\<And>v. J v \<Longrightarrow> btorInv v"
    and "\<And>x v v'. x \<in> set xs \<Longrightarrow> J v \<Longrightarrow> f x v = Inr v' \<Longrightarrow> J v' \<and> adds v v' (V x)"
  shows "J w' \<and> adds w w' (joinViews V xs)"
  using assms
proof (induction xs arbitrary: w)
  case Nil
  then show ?case by (simp add: adds_refl)
next
  case (Cons x xs)
  then obtain u where u: "f x w = Inr u" "foldE f xs u = Inr w'" by (auto simp: bindE_Inr_iff)
  have 1: "J u \<and> adds w u (V x)" by (rule Cons.prems(4) [OF _ Cons.prems(2) u(1)]) simp
  have "J w' \<and> adds u w' (joinViews V xs)"
    by (rule Cons.IH [OF u(2)]) (use 1 Cons.prems(3) in blast, use Cons.prems(3) in blast, rule Cons.prems(4), simp_all)
  then show ?case using 1 adds_trans [of w u "V x" w' "joinViews V xs"] by simp
qed

end
