(* ===== verification/Btor2_Timeline.thy ===== *)
theory Btor2_Timeline
  imports Btor2_View
begin

text \<open>
  The timeline of the export: a saturating counter made of one-bit states.  Its bits count the
  frames up to the last one, and the tests of a frame compare the count.
\<close>

section \<open>Numbers in bits\<close>

primrec bitsNumber :: "(nat \<Rightarrow> bool) \<Rightarrow> nat list \<Rightarrow> nat" where
  "bitsNumber s [] = 0"
| "bitsNumber s (n # ns) = (if s n then 1 else 0) + 2 * bitsNumber s ns"

lemma bitsNumber_less: "bitsNumber s ns < 2 ^ length ns"
  by (induction ns) auto

primrec bitsMatch :: "(nat \<Rightarrow> bool) \<Rightarrow> nat \<Rightarrow> nat list \<Rightarrow> bool" where
  "bitsMatch s frame [] = True"
| "bitsMatch s frame (n # ns) = (s n = odd frame \<and> bitsMatch s (frame div 2) ns)"

lemma mod_double: "(frame :: nat) mod (2 * m) = frame mod 2 + 2 * (frame div 2 mod m)"
  by (simp add: mod_mult2_eq add.commute)

lemma bit_step: "((if b then 1 else 0) + 2 * x = (if c then 1 else 0) + 2 * (y :: nat)) = (b = c \<and> x = y)"
  by (cases b; cases c; simp) presburger+

lemma bitsMatch_number: "bitsMatch s frame ns = (bitsNumber s ns = frame mod 2 ^ length ns)"
proof (induction ns arbitrary: frame)
  case (Cons n ns)
  have "frame mod 2 ^ length (n # ns) = (if odd frame then 1 else 0) + 2 * (frame div 2 mod 2 ^ length ns)"
    using mod_double [of frame "2 ^ length ns"] by (simp add: mod2_eq_if)
  then have "(bitsNumber s (n # ns) = frame mod 2 ^ length (n # ns)) =
      ((if s n then 1 else 0) + 2 * bitsNumber s ns = (if odd frame then 1 else 0) + 2 * (frame div 2 mod 2 ^ length ns))"
    by simp
  then show ?case using Cons unfolding bit_step by simp
qed simp

lemma bitsNumber_inject:
  "bitsNumber s ns = bitsNumber t ns \<longleftrightarrow> (\<forall>n \<in> set ns. s n = t n)"
proof (induction ns)
  case (Cons n ns)
  then show ?case using bit_step [of "s n" "bitsNumber s ns" "t n" "bitsNumber t ns"] by simp
qed simp

lemma frameBit_shift: "frameBit frame k = odd (frame div 2 ^ k)"
  by (simp add: frameBit_def)

lemma div_Suc_power: "(frame :: nat) div (2 * 2 ^ k) = frame div 2 ^ k div 2"
  using div_mult2_eq [of frame "2 ^ k" 2] by (simp add: mult.commute)

lemma bitWidth_bound: "n < 2 ^ bitWidth n"
proof (induction n rule: bitWidth.induct)
  case (1 n)
  then show ?case by (subst bitWidth.simps) (cases "n = 0"; auto)
qed

lemma bitWidth_zero [simp]: "bitWidth n = 0 \<longleftrightarrow> n = 0"
  by (subst bitWidth.simps) simp

lemma bitWidth_nil [simp]: "bitWidth 0 = 0"
  by simp

section \<open>The value of a state\<close>

lemma nodeValue_at:
  assumes "0 < n" "n \<le> length bs"
  shows "nodeValue s bs n = bodyValue s (nodeValues s (take (n - 1) bs)) (bs ! (n - 1))"
proof -
  have "bs = (take (n - 1) bs @ [bs ! (n - 1)]) @ drop n bs"
    using id_take_nth_drop [of "n - 1" bs] assms by simp
  moreover have "length (take (n - 1) bs @ [bs ! (n - 1)]) = n" using assms by simp
  ultimately have "nodeValue s bs n = nodeValue s (take (n - 1) bs @ [bs ! (n - 1)]) n"
    by (metis nodeValue_append order_refl)
  then show ?thesis using nodeValue_new [of s "take (n - 1) bs" "bs ! (n - 1)"] assms by simp
qed

definition leafAt :: "btor_body list \<Rightarrow> nat \<Rightarrow> bool" where
  "leafAt bs n = (n \<le> length bs \<and> (kinds bs ! n = StateNode \<or> kinds bs ! n = InputNode))"

lemma stateAt_leaf: "stateAt bs n \<Longrightarrow> leafAt bs n"
  by (simp add: stateAt_def leafAt_def)

lemma leafAt_value: "leafAt bs n \<Longrightarrow> valueAt bs n"
  by (auto simp: leafAt_def valueAt_def)

lemma leafAt_append: "leafAt bs n \<Longrightarrow> leafAt (bs @ cs) n"
  by (simp add: leafAt_def kinds_append)

lemma leaf_nodeValue [simp]:
  assumes "leafAt bs n"
  shows "nodeValue s bs n = s n"
proof -
  have n: "0 < n" "n \<le> length bs" using valueAt_pos [OF leafAt_value [OF assms]] assms by (simp_all add: leafAt_def)
  have "kindOf (bs ! (n - 1)) = StateNode \<or> kindOf (bs ! (n - 1)) = InputNode"
    using assms n by (simp add: leafAt_def kinds_def nth_Cons')
  then have "bodyValue s (nodeValues s (take (n - 1) bs)) (bs ! (n - 1)) = s n"
    using n by (cases "bs ! (n - 1)") simp_all
  then show ?thesis using nodeValue_at [OF n] by simp
qed

lemma adds_leaf: "adds w w' v \<Longrightarrow> leafAt (bodies w) n \<Longrightarrow> leafAt (bodies w') n"
  by (auto simp: adds_def wrote_def leafAt_append)

section \<open>The tests of a frame\<close>

text \<open>A node with a value, written without directives.\<close>

definition computes :: "btor_writer \<Rightarrow> btor_writer \<Rightarrow> nat \<Rightarrow> ((nat \<Rightarrow> bool) \<Rightarrow> bool) \<Rightarrow> bool" where
  "computes w w' n g = (adds w w' noView \<and> valueAt (bodies w') n \<and> (\<forall>s. nodeValue s (bodies w') n = g s))"

lemma computesD:
  assumes "computes w w' n g"
  shows "adds w w' noView" "valueAt (bodies w') n" "nodeValue s (bodies w') n = g s" "btorInv w'"
    "bw_variables w' = bw_variables w"
  using assms adds_inv adds_variables by (auto simp: computes_def)

lemma computes_given: "givesNode w w' n g \<Longrightarrow> computes w w' n g"
  using givesNode_adds by (auto simp: computes_def givesNode_def)

lemma computes_after: "adds a b noView \<Longrightarrow> computes b c n g \<Longrightarrow> computes a c n g"
  using adds_given by (auto simp: computes_def)

lemma computes_keep:
  assumes "computes a b n g" "adds b c noView"
  shows "computes a c n g"
proof -
  have 1: "adds a b noView" "valueAt (bodies b) n" "\<forall>s. nodeValue s (bodies b) n = g s"
    using assms(1) by (simp_all add: computes_def)
  have "adds a c noView" by (rule adds_given [OF 1(1) assms(2)])
  then show ?thesis using adds_value [OF assms(2) 1(2)] 1(3) by (simp add: computes_def)
qed

lemma not_computes:
  assumes "computes u w a g" "logicalNot a w = Inr (n, w')"
  shows "computes u w' n (\<lambda>s. \<not> g s)"
  using computes_after [OF computesD(1) [OF assms(1)] computes_given [OF logicalNot_ok(1) [OF computesD(4) [OF assms(1)] assms(2)]]]
    computesD(3) [OF assms(1)] by simp

lemma gate_computes:
  assumes "computes u w a g" "computes u w b h" "binaryNode opr a b w = Inr (n, w')"
  shows "computes u w' n (\<lambda>s. gateBit opr (g s) (h s))"
  using computes_after [OF computesD(1) [OF assms(1)] computes_given [OF binaryNode_ok(1) [OF computesD(4) [OF assms(1)] assms(3)]]]
    computesD(3) [OF assms(1)] computesD(3) [OF assms(2)] by simp

lemmas gate_defs = logicalAnd_def logicalOr_def logicalXor_def equalNode_def

lemma leaf_computes: "adds u w noView \<Longrightarrow> leafAt (bodies w) n \<Longrightarrow> computes u w n (\<lambda>s. s n)"
  by (simp add: computes_def leafAt_value)

lemma constant_computes: "btorInv w \<Longrightarrow> writeConstant b w = Inr (n, w') \<Longrightarrow> computes w w' n (\<lambda>s. b)"
  by (rule computes_given, rule writeConstant_ok)

lemma computes_refl:
  assumes "computes u w n g"
  shows "computes w w n g"
proof -
  have "adds w w noView" by (rule adds_refl [OF computesD(4) [OF assms]])
  then show ?thesis using assms by (simp add: computes_def)
qed

lemma frameMatch_computes:
  assumes "computes u w r g" "leafAt (bodies w) n" "frameMatch frame (b, n) (r, w) = Inr (m, w')"
  shows "computes u w' m (\<lambda>s. g s \<and> s n = frameBit frame b)"
proof (cases "frameBit frame b")
  case True
  then have r: "binaryNode GateAnd r n w = Inr (m, w')" using assms(3) by (simp add: frameMatch_def gate_defs)
  show ?thesis
    using gate_computes [OF assms(1) leaf_computes [OF computesD(1) [OF assms(1)] assms(2)] r] True by simp
next
  case False
  then obtain k v where v: "logicalNot n w = Inr (k, v)" "binaryNode GateAnd r k v = Inr (m, w')"
    using assms(3) by (auto simp: frameMatch_def gate_defs bindE_Inr_iff)
  have 1: "computes u v k (\<lambda>s. \<not> s n)"
    by (rule not_computes [OF leaf_computes [OF computesD(1) [OF assms(1)] assms(2)] v(1)])
  have "adds w v noView"
    using givesNode_adds [OF logicalNot_ok(1) [OF computesD(4) [OF assms(1)] v(1)]] .
  from gate_computes [OF computes_keep [OF assms(1) this] 1 v(2)] show ?thesis using False by simp
qed

lemma frameMatch_fold:
  assumes "foldE (frameMatch frame) (List.enumerate k ns) (r, w) = Inr (m, w')" "computes u w r g"
    "\<forall>n \<in> set ns. leafAt (bodies w) n"
  shows "computes u w' m (\<lambda>s. g s \<and> bitsMatch s (frame div 2 ^ k) ns)"
  using assms
proof (induction ns arbitrary: k r w g)
  case (Cons n ns)
  obtain q v where v: "frameMatch frame (k, n) (r, w) = Inr (q, v)" "foldE (frameMatch frame) (List.enumerate (Suc k) ns) (q, v) = Inr (m, w')"
    using Cons.prems(1) by (auto simp: bindE_Inr_iff)
  have c: "computes u v q (\<lambda>s. g s \<and> s n = frameBit frame k)"
    by (rule frameMatch_computes [OF Cons.prems(2) _ v(1)]) (use Cons.prems(3) in simp)
  have "computes w v q (\<lambda>s. g s \<and> s n = frameBit frame k)"
    by (rule frameMatch_computes [OF computes_refl [OF Cons.prems(2)] _ v(1)]) (use Cons.prems(3) in simp)
  then have "\<forall>x \<in> set ns. leafAt (bodies v) x" using adds_leaf computesD(1) Cons.prems(3) by fastforce
  from Cons.IH [OF v(2) c this] show ?case
    by (simp add: div_Suc_power frameBit_shift conj_assoc)
qed simp

lemma timelineAt_computes:
  assumes "btorInv w" "timelineAt bits frame w = Inr (n, w')" "\<forall>b \<in> set bits. leafAt (bodies w) b" "frame < 2 ^ length bits"
  shows "computes w w' n (\<lambda>s. bitsNumber s bits = frame)"
proof -
  obtain r v where v: "writeConstant True w = Inr (r, v)" "foldE (frameMatch frame) (List.enumerate 0 bits) (r, v) = Inr (n, w')"
    using assms(2) by (auto simp: timelineAt_def bindE_Inr_iff)
  have c: "computes w v r (\<lambda>s. True)" by (rule constant_computes [OF assms(1) v(1)])
  have "\<forall>b \<in> set bits. leafAt (bodies v) b" using adds_leaf [OF computesD(1) [OF c]] assms(3) by blast
  from frameMatch_fold [OF v(2) c this] show ?thesis using assms(4) by (simp add: bitsMatch_number)
qed

lemma beforeStep_computes:
  assumes l: "computes u w l g" and e: "computes u w q h" and n: "leafAt (bodies w) n"
    and r: "beforeStep frame (b, n) ((l, q), w) = Inr ((l', q'), w')"
  shows "computes u w' l' (\<lambda>s. g s \<or> h s \<and> frameBit frame b \<and> \<not> s n)" "computes u w' q' (\<lambda>s. h s \<and> s n = frameBit frame b)"
    "adds w w' noView"
proof -
  note leaf = leaf_computes [OF computesD(1) [OF l] n]
  have "computes u w' l' (\<lambda>s. g s \<or> h s \<and> frameBit frame b \<and> \<not> s n) \<and> computes u w' q' (\<lambda>s. h s \<and> s n = frameBit frame b) \<and> adds w w' noView"
  proof (cases "frameBit frame b")
    case True
    then obtain k w1 m w2 w3 where s: "logicalNot n w = Inr (k, w1)" "binaryNode GateAnd q k w1 = Inr (m, w2)"
      "binaryNode GateOr l m w2 = Inr (l', w3)" "binaryNode GateAnd q n w3 = Inr (q', w')"
      using r by (auto simp: beforeStep_def gate_defs bindE_Inr_iff)
    have 1: "computes u w1 k (\<lambda>s. \<not> s n)" "computes w w1 k (\<lambda>s. \<not> s n)"
      using not_computes [OF leaf s(1)] not_computes [OF computes_refl [OF leaf] s(1)] .
    note a1 = computesD(1) [OF 1(2)]
    have 2: "computes u w2 m (\<lambda>s. h s \<and> \<not> s n)" "computes w w2 m (\<lambda>s. h s \<and> \<not> s n)"
      using gate_computes [OF computes_keep [OF e a1] 1(1) s(2)]
        gate_computes [OF computes_keep [OF computes_refl [OF e] a1] 1(2) s(2)] by simp_all
    note a2 = computesD(1) [OF 2(2)]
    have 3: "computes u w3 l' (\<lambda>s. g s \<or> h s \<and> \<not> s n)" "computes w w3 l' (\<lambda>s. g s \<or> h s \<and> \<not> s n)"
      using gate_computes [OF computes_keep [OF l a2] 2(1) s(3)]
        gate_computes [OF computes_keep [OF computes_refl [OF l] a2] 2(2) s(3)] by simp_all
    note a3 = computesD(1) [OF 3(2)]
    have 4: "computes u w' q' (\<lambda>s. h s \<and> s n)" "computes w w' q' (\<lambda>s. h s \<and> s n)"
      using gate_computes [OF computes_keep [OF e a3] computes_keep [OF leaf a3] s(4)]
        gate_computes [OF computes_keep [OF computes_refl [OF e] a3] computes_keep [OF computes_refl [OF leaf] a3] s(4)] by simp_all
    have "computes w3 w' q' (\<lambda>s. h s \<and> s n)"
      using gate_computes [OF computes_refl [OF computes_keep [OF e a3]] computes_refl [OF computes_keep [OF leaf a3]] s(4)] by simp
    from computes_keep [OF 3(1) computesD(1) [OF this]] show ?thesis
      using True 4 computesD(1) [OF 4(2)] by simp
  next
    case False
    then obtain k w1 where s: "logicalNot n w = Inr (k, w1)" "binaryNode GateAnd q k w1 = Inr (q', w')" "l' = l"
      using r by (auto simp: beforeStep_def gate_defs bindE_Inr_iff)
    have 1: "computes u w1 k (\<lambda>s. \<not> s n)" "computes w w1 k (\<lambda>s. \<not> s n)"
      using not_computes [OF leaf s(1)] not_computes [OF computes_refl [OF leaf] s(1)] .
    note a1 = computesD(1) [OF 1(2)]
    have 2: "computes u w' q' (\<lambda>s. h s \<and> \<not> s n)" "computes w w' q' (\<lambda>s. h s \<and> \<not> s n)"
      using gate_computes [OF computes_keep [OF e a1] 1(1) s(2)]
        gate_computes [OF computes_keep [OF computes_refl [OF e] a1] 1(2) s(2)] by simp_all
    show ?thesis using False 2 computes_keep [OF l computesD(1) [OF 2(2)]] computesD(1) [OF 2(2)] s(3) by simp
  qed
  then show "computes u w' l' (\<lambda>s. g s \<or> h s \<and> frameBit frame b \<and> \<not> s n)" "computes u w' q' (\<lambda>s. h s \<and> s n = frameBit frame b)"
    "adds w w' noView" by simp_all
qed

lemma count_less:
  "(if b then 1 else 0) + 2 * x < (if c then 1 else 0) + 2 * (y :: nat) \<longleftrightarrow> x < y \<or> x = y \<and> c \<and> \<not> b"
  by (cases b; cases c; simp) presburger+

lemma mod_bits: "frame mod (2 * 2 ^ k) = (if odd frame then 1 else 0) + 2 * (frame div 2 mod 2 ^ k)" for frame :: nat
  using mod_double [of frame "2 ^ k"] by (simp add: mod2_eq_if)

lemma beforeFold:
  assumes "foldE (beforeStep frame) (rev (List.enumerate k ns)) ((l0, q0), w) = Inr ((l, q), w')"
    "computes u w l0 (\<lambda>s. False)" "computes u w q0 (\<lambda>s. True)" "\<forall>n \<in> set ns. leafAt (bodies w) n"
  shows "computes u w' l (\<lambda>s. bitsNumber s ns < frame div 2 ^ k mod 2 ^ length ns)"
    "computes u w' q (\<lambda>s. bitsNumber s ns = frame div 2 ^ k mod 2 ^ length ns)" "adds w w' noView"
proof -
  have "computes u w' l (\<lambda>s. bitsNumber s ns < frame div 2 ^ k mod 2 ^ length ns) \<and>
      computes u w' q (\<lambda>s. bitsNumber s ns = frame div 2 ^ k mod 2 ^ length ns) \<and> adds w w' noView"
    using assms
  proof (induction ns arbitrary: k l q w')
    case Nil
    then show ?case using adds_refl [OF computesD(4)] by simp
  next
    case (Cons n ns)
    obtain l1 q1 v where v: "foldE (beforeStep frame) (rev (List.enumerate (Suc k) ns)) ((l0, q0), w) = Inr ((l1, q1), v)"
      "beforeStep frame (k, n) ((l1, q1), v) = Inr ((l, q), w')"
      using Cons.prems(1) by (auto simp: foldE_append bindE_Inr_iff)
    note ih = Cons.IH [OF v(1) Cons.prems(2, 3)]
    have c: "computes u v l1 (\<lambda>s. bitsNumber s ns < frame div 2 ^ Suc k mod 2 ^ length ns)"
        "computes u v q1 (\<lambda>s. bitsNumber s ns = frame div 2 ^ Suc k mod 2 ^ length ns)" "adds w v noView"
      using ih Cons.prems(4) by simp_all
    have "leafAt (bodies v) n" using adds_leaf [OF c(3)] Cons.prems(4) by simp
    note b = beforeStep_computes [OF c(1, 2) this v(2)]
    have "frame div 2 ^ k mod (2 * 2 ^ length ns) =
        (if frameBit frame k then 1 else 0) + 2 * (frame div 2 ^ Suc k mod 2 ^ length ns)"
      using mod_bits [of "frame div 2 ^ k" "length ns"] by (simp add: frameBit_shift div_Suc_power)
    then show ?case
      using b adds_given [OF c(3) b(3)] unfolding bitsNumber.simps length_Cons power_Suc
      by (simp add: count_less bit_step conj_commute)
  qed
  then show "computes u w' l (\<lambda>s. bitsNumber s ns < frame div 2 ^ k mod 2 ^ length ns)"
    "computes u w' q (\<lambda>s. bitsNumber s ns = frame div 2 ^ k mod 2 ^ length ns)" "adds w w' noView" by blast+
qed

lemma timelineBefore_computes:
  assumes "btorInv w" "timelineBefore bits frame w = Inr (n, w')" "\<forall>b \<in> set bits. leafAt (bodies w) b" "frame < 2 ^ length bits"
  shows "computes w w' n (\<lambda>s. bitsNumber s bits < frame)"
proof -
  obtain l w1 q w2 q' where v: "writeConstant False w = Inr (l, w1)" "writeConstant True w1 = Inr (q, w2)"
    "foldE (beforeStep frame) (rev (List.enumerate 0 bits)) ((l, q), w2) = Inr ((n, q'), w')"
    using assms(2) by (auto simp: timelineBefore_def bindE_Inr_iff)
  have c: "computes w w1 l (\<lambda>s. False)" by (rule constant_computes [OF assms(1) v(1)])
  have d: "computes w1 w2 q (\<lambda>s. True)" by (rule constant_computes [OF computesD(4) [OF c] v(2)])
  have leaves: "\<forall>b \<in> set bits. leafAt (bodies w2) b"
    using adds_leaf [OF computesD(1) [OF d]] adds_leaf [OF computesD(1) [OF c]] assms(3) by blast
  from beforeFold(1) [OF v(3) computes_keep [OF c computesD(1) [OF d]] computes_after [OF computesD(1) [OF c] d] leaves]
  show ?thesis using assms(4) by simp
qed

end
