(* ===== verification/Btor2_Counter.thy ===== *)
theory Btor2_Counter
  imports Btor2_Timeline
begin

text \<open>
  The counter of the export: its states start at zero, and every step adds one until the last
  frame is reached.  The first frame of a problem without a timeline is a state of its own.
\<close>

section \<open>Nodes across directives\<close>

lemma computes_adds: "computes u w n g \<Longrightarrow> adds w w' v \<Longrightarrow> computes w' w' n g"
  using adds_value [of w w' v n] adds_refl [OF adds_inv] by (simp add: computes_def)

lemma computes_writeInit:
  assumes "computes u w c g" "writeInit x c w = Inr (n, w')"
  shows "adds w w' (startView (\<lambda>s. s x = g s))" "stateAt (bodies w) x"
  using writeInit_adds [OF computesD(4) [OF assms(1)] assms(2)] computesD(3) [OF assms(1)] by simp_all

lemma computes_writeNext:
  assumes "computes u w c g" "writeNext x c w = Inr (n, w')"
  shows "adds w w' (stepView (\<lambda>s t. t x = g s))" "stateAt (bodies w) x"
  using writeNext_adds [OF computesD(4) [OF assms(1)] assms(2)] computesD(3) [OF assms(1)] by simp_all

lemma computes_writeConstraint:
  assumes "computes u w c g" "writeConstraint c w = Inr (n, w')"
  shows "adds w w' (legalView g)"
  using writeConstraint_adds [OF computesD(4) [OF assms(1)] assms(2)] computesD(3) [OF assms(1)] by simp

lemma computes_writeBad:
  assumes "computes u w c g" "writeBad c name w = Inr (n, w')"
  shows "adds w w' (badView g)"
  using writeBad_adds [OF computesD(4) [OF assms(1)] assms(2)] computesD(3) [OF assms(1)] by simp

lemma constrainWhen_adds:
  assumes "computes w w a g" "computes w w c h" "constrainWhen a c w = Inr w'"
  shows "adds w w' (legalView (\<lambda>s. g s \<longrightarrow> h s))"
proof -
  obtain n w1 m w2 q where v: "logicalNot a w = Inr (n, w1)" "logicalOr n c w1 = Inr (m, w2)" "writeConstraint m w2 = Inr (q, w')"
    using assms(3) by (auto simp: constrainWhen_def bindE_Inr_iff)
  have 1: "computes w w1 n (\<lambda>s. \<not> g s)" by (rule not_computes [OF assms(1) v(1)])
  have 2: "computes w w2 m (\<lambda>s. g s \<longrightarrow> h s)"
    using gate_computes [OF 1 computes_keep [OF assms(2) computesD(1) [OF 1]] v(2) [unfolded gate_defs]]
    by simp
  show ?thesis by (rule adds_given [OF computesD(1) [OF 2] computes_writeConstraint [OF 2 v(3)]])
qed

section \<open>The bits\<close>

text \<open>States that start at zero, numbered above what is there.\<close>

definition freshBits :: "btor_writer \<Rightarrow> btor_writer \<Rightarrow> nat list \<Rightarrow> bool" where
  "freshBits w w' ns = (adds w w' (startView (\<lambda>s. \<forall>n \<in> set ns. \<not> s n)) \<and> distinct ns \<and>
     (\<forall>n \<in> set ns. stateAt (bodies w') n \<and> length (bodies w) < n))"

lemma timelineBit_fresh:
  assumes "freshBits u w ns" "timelineBit b (ns, w) = Inr (ms, w')"
  shows "freshBits u w' ms" "length ms = Suc (length ns)"
proof -
  note f = assms(1) [unfolded freshBits_def]
  have inv: "btorInv w" using f adds_inv by blast
  obtain n w1 c w2 q where v: "writeState (''kf_export_cycle_'' @ showNat b) w = Inr (n, w1)" "writeConstant False w1 = Inr (c, w2)"
    "writeInit n c w2 = Inr (q, w')" "ms = ns @ [n]"
    using assms(2) by (auto simp: timelineBit_def bindE_Inr_iff)
  note st = writeState_ok [OF inv v(1)]
  have 1: "adds w w1 noView" by (rule givesNode_adds [OF st(1)])
  have 2: "computes w1 w2 c (\<lambda>s. False)" by (rule constant_computes [OF adds_inv [OF 1] v(2)])
  have 3: "adds w2 w' (startView (\<lambda>s. s n = False))" by (rule computes_writeInit(1) [OF 2 v(3)])
  have all: "adds u w' (startView (\<lambda>s. \<forall>n \<in> set ms. \<not> s n))"
    using adds_trans [OF conjunct1 [OF f] adds_given [OF 1 adds_given [OF computesD(1) [OF 2] 3]]] v(4)
    by (simp add: joinView_same conj_commute)
  have step: "adds w w' (startView (\<lambda>s. s n = False))" by (rule adds_given [OF 1 adds_given [OF computesD(1) [OF 2] 3]])
  have n: "stateAt (bodies w') n" using st(4) adds_state [OF adds_given [OF computesD(1) [OF 2] 3]] by blast
  have le: "\<forall>m \<in> set ns. m \<le> length (bodies w)" using f by (simp add: stateAt_def)
  have "length (bodies u) \<le> length (bodies w)" using f by (auto simp: adds_def wrote_def)
  then show "freshBits u w' ms" using all n v(4) f st(2) le adds_state [OF step] by (auto simp: freshBits_def)
  show "length ms = Suc (length ns)" using v(4) by simp
qed

lemma timelineBits_fresh:
  assumes "foldE timelineBit bs (ns, w) = Inr (ms, w')" "freshBits u w ns"
  shows "freshBits u w' ms \<and> length ms = length ns + length bs"
  using assms
proof (induction bs arbitrary: ns w)
  case (Cons b bs)
  obtain ns1 w1 where v: "timelineBit b (ns, w) = Inr (ns1, w1)" "foldE timelineBit bs (ns1, w1) = Inr (ms, w')"
    using Cons.prems(1) by (auto simp: bindE_Inr_iff)
  from Cons.IH [OF v(2) timelineBit_fresh(1) [OF Cons.prems(2) v(1)]] timelineBit_fresh(2) [OF Cons.prems(2) v(1)]
  show ?case by simp
qed simp

section \<open>The step\<close>

primrec carryStep :: "bool \<Rightarrow> (nat \<Rightarrow> bool) \<Rightarrow> (nat \<Rightarrow> bool) \<Rightarrow> bool \<Rightarrow> nat list \<Rightarrow> bool" where
  "carryStep a s t c [] = True"
| "carryStep a s t c (n # ns) = (t n = (s n \<noteq> (c \<and> a)) \<and> carryStep a s t (c \<and> s n) ns)"

lemma carryStep_number:
  "carryStep a s t c ns = (bitsNumber t ns = (bitsNumber s ns + (if c \<and> a then 1 else 0)) mod 2 ^ length ns)"
proof (induction ns arbitrary: c)
  case (Cons n ns)
  let ?S = "bitsNumber s ns" and ?d = "if c \<and> a then 1 else 0 :: nat"
  have q: "((if s n then 1 else 0) + 2 * ?S + ?d) div 2 = ?S + (if (c \<and> s n) \<and> a then 1 else 0)"
    "odd ((if s n then 1 else 0) + 2 * ?S + ?d) = (s n \<noteq> (c \<and> a))" by auto
  have "(bitsNumber s (n # ns) + ?d) mod 2 ^ length (n # ns) =
      (if s n \<noteq> (c \<and> a) then 1 else 0) + 2 * ((?S + (if (c \<and> s n) \<and> a then 1 else 0)) mod 2 ^ length ns)"
    using mod_bits [of "(if s n then 1 else 0) + 2 * ?S + ?d" "length ns"] unfolding q by simp
  then have "(bitsNumber t (n # ns) = (bitsNumber s (n # ns) + ?d) mod 2 ^ length (n # ns)) =
      ((if t n then 1 else 0) + 2 * bitsNumber t ns =
       (if s n \<noteq> (c \<and> a) then 1 else 0) + 2 * ((?S + (if (c \<and> s n) \<and> a then 1 else 0)) mod 2 ^ length ns))"
    by simp
  then show ?case unfolding bit_step carryStep.simps Cons.IH by blast
qed simp

lemma timelineCarry_adds:
  assumes c: "computes w w c g" and a: "computes w w a h" and n: "stateAt (bodies w) n"
    and r: "timelineCarry a n (c, w) = Inr (d, w')"
  shows "adds w w' (stepView (\<lambda>s t. t n = (s n \<noteq> (g s \<and> h s))))" "computes w' w' d (\<lambda>s. g s \<and> s n)"
proof -
  obtain x w1 y w2 q w3 where v: "logicalAnd c a w = Inr (x, w1)" "logicalXor n x w1 = Inr (y, w2)"
    "writeNext n y w2 = Inr (q, w3)" "logicalAnd c n w3 = Inr (d, w')"
    using r by (auto simp: timelineCarry_def bindE_Inr_iff)
  have leaf: "computes w w n (\<lambda>s. s n)" by (rule leaf_computes [OF computesD(1) [OF c] stateAt_leaf [OF n]])
  have 1: "computes w w1 x (\<lambda>s. g s \<and> h s)"
    using gate_computes [OF c a, of GateAnd x w1] v(1) by (simp add: gate_defs)
  have 2: "computes w w2 y (\<lambda>s. s n \<noteq> (g s \<and> h s))"
    using gate_computes [OF computes_keep [OF leaf computesD(1) [OF 1]] 1, of GateXor y w2] v(2) by (simp add: gate_defs)
  have 3: "adds w2 w3 (stepView (\<lambda>s t. t n = (s n \<noteq> (g s \<and> h s))))" by (rule computes_writeNext(1) [OF 2 v(3)])
  have 4: "adds w w3 (stepView (\<lambda>s t. t n = (s n \<noteq> (g s \<and> h s))))" by (rule adds_given [OF computesD(1) [OF 2] 3])
  have 5: "computes w3 w' d (\<lambda>s. g s \<and> s n)"
    using gate_computes [OF computes_adds [OF c 4] computes_adds [OF leaf 4], of GateAnd d w'] v(4) by (simp add: gate_defs)
  show "adds w w' (stepView (\<lambda>s t. t n = (s n \<noteq> (g s \<and> h s))))" by (rule adds_then_given [OF 4 computesD(1) [OF 5]])
  show "computes w' w' d (\<lambda>s. g s \<and> s n)" by (rule computes_refl [OF 5])
qed

lemma timelineCarries_adds:
  assumes "foldE (timelineCarry a) ns (c, w) = Inr (d, w')" "computes w w c g" "computes w w a h"
    "\<forall>n \<in> set ns. stateAt (bodies w) n"
  shows "adds w w' (stepView (\<lambda>s t. carryStep (h s) s t (g s) ns))"
  using assms
proof (induction ns arbitrary: c w g)
  case Nil
  then show ?case using adds_refl [OF computesD(4) [OF Nil.prems(2)]] by simp
next
  case (Cons n ns)
  obtain c1 w1 where v: "timelineCarry a n (c, w) = Inr (c1, w1)" "foldE (timelineCarry a) ns (c1, w1) = Inr (d, w')"
    using Cons.prems(1) by (auto simp: bindE_Inr_iff)
  have n: "stateAt (bodies w) n" using Cons.prems(4) by simp
  note s = timelineCarry_adds [OF Cons.prems(2, 3) n v(1)]
  have "\<forall>n \<in> set ns. stateAt (bodies w1) n" using adds_state [OF s(1)] Cons.prems(4) by simp
  from Cons.IH [OF v(2) s(2) computes_adds [OF Cons.prems(3) s(1)] this]
  have "adds w1 w' (stepView (\<lambda>s t. carryStep (h s) s t (g s \<and> s n) ns))" .
  from adds_trans [OF s(1) this] show ?case by (simp add: joinView_same)
qed

section \<open>The timeline\<close>

text \<open>The counter of the bits: it starts at zero and stops at the last frame.\<close>

definition counterView :: "nat list \<Rightarrow> nat \<Rightarrow> view" where
  "counterView bits lastFrame = joinView (startView (\<lambda>s. bitsNumber s bits = 0))
     (stepView (\<lambda>s t. bitsNumber t bits =
       (bitsNumber s bits + (if bitsNumber s bits = lastFrame then 0 else 1)) mod 2 ^ length bits))"

lemma bitsNumber_zero: "bitsNumber s ns = 0 \<longleftrightarrow> (\<forall>n \<in> set ns. \<not> s n)"
  by (induction ns) auto

lemma newTimeline_adds:
  assumes inv: "btorInv w" and r: "newTimeline lastFrame w = Inr (tm, w')"
  shows "adds w w' (if lastFrame = 0 then noView else counterView (tl_bits tm) lastFrame)"
    "length (tl_bits tm) = bitWidth lastFrame" "tl_first tm = 0" "distinct (tl_bits tm)"
    "\<forall>n \<in> set (tl_bits tm). stateAt (bodies w') n \<and> length (bodies w) < n"
proof -
  obtain bits w1 where b: "foldE timelineBit [0..<bitWidth lastFrame] ([], w) = Inr (bits, w1)"
    using r by (auto simp: newTimeline_def bindE_Inr_iff)
  have "freshBits w w []" using adds_refl [OF inv] by (simp add: freshBits_def)
  from timelineBits_fresh [OF b this]
  have f: "adds w w1 (startView (\<lambda>s. bitsNumber s bits = 0))" "distinct bits" "length bits = bitWidth lastFrame"
    "\<forall>n \<in> set bits. stateAt (bodies w1) n \<and> length (bodies w) < n"
    by (simp_all add: freshBits_def bitsNumber_zero)
  have inv1: "btorInv w1" by (rule adds_inv [OF f(1)])
  have tm: "tl_bits tm = bits \<and> tl_first tm = 0" using r b by (auto simp: newTimeline_def bindE_Inr_iff split: if_splits)
  have "adds w1 w' (if lastFrame = 0 then noView else
      stepView (\<lambda>s t. bitsNumber t bits = (bitsNumber s bits + (if bitsNumber s bits = lastFrame then 0 else 1)) mod 2 ^ length bits))"
  proof (cases "bits = []")
    case True
    then have "lastFrame = 0" "w' = w1" using f(3) r b by (auto simp: newTimeline_def)
    then show ?thesis using adds_refl [OF inv1] by simp
  next
    case False
    then obtain q w2 a w3 c w4 d where v: "timelineAt bits lastFrame w1 = Inr (q, w2)" "logicalNot q w2 = Inr (a, w3)"
      "writeConstant True w3 = Inr (c, w4)" "foldE (timelineCarry a) bits (c, w4) = Inr (d, w')"
      using r b by (auto simp: newTimeline_def bindE_Inr_iff)
    have st: "\<forall>b \<in> set bits. stateAt (bodies w1) b" using f(4) by blast
    then have leaves: "\<forall>b \<in> set bits. leafAt (bodies w1) b" using stateAt_leaf by blast
    have bound: "lastFrame < 2 ^ length bits" using bitWidth_bound f(3) by simp
    have 1: "computes w1 w3 a (\<lambda>s. bitsNumber s bits \<noteq> lastFrame)"
      by (rule not_computes [OF timelineAt_computes [OF inv1 v(1) leaves bound] v(2)])
    have 2: "computes w3 w4 c (\<lambda>s. True)" by (rule constant_computes [OF computesD(4) [OF 1] v(3)])
    have 3: "adds w1 w4 noView" by (rule adds_given [OF computesD(1) [OF 1] computesD(1) [OF 2]])
    have st4: "\<forall>b \<in> set bits. stateAt (bodies w4) b" using adds_state [OF 3] st by blast
    have "adds w4 w' (stepView (\<lambda>s t. carryStep (bitsNumber s bits \<noteq> lastFrame) s t True bits))"
      by (rule timelineCarries_adds [OF v(4) computes_refl [OF 2] computes_refl [OF computes_keep [OF 1 computesD(1) [OF 2]]] st4])
    moreover have "lastFrame \<noteq> 0" using False f(3) by (cases lastFrame) simp_all
    moreover have "(if m \<noteq> lastFrame then 1 else 0) = (if m = lastFrame then 0 else 1 :: nat)" for m by simp
    ultimately show ?thesis using adds_given [OF 3] by (simp add: carryStep_number)
  qed
  note step = this
  show "adds w w' (if lastFrame = 0 then noView else counterView (tl_bits tm) lastFrame)"
    using adds_trans [OF f(1) step] tm f(3) by (cases "lastFrame = 0") (simp_all add: counterView_def)
  show "\<forall>n \<in> set (tl_bits tm). stateAt (bodies w') n \<and> length (bodies w) < n"
    using tm f(4) adds_state [OF step] by auto
  show "length (tl_bits tm) = bitWidth lastFrame" "tl_first tm = 0" "distinct (tl_bits tm)" using tm f by simp_all
qed

text \<open>The test for the first frame: the count is zero, or it is a state of its own.\<close>

lemma timelineFirstFrame_bits:
  assumes "btorInv w" "timelineFirstFrame tm w = Inr ((n, tm'), w')" "tl_bits tm \<noteq> []" "\<forall>b \<in> set (tl_bits tm). stateAt (bodies w) b"
  shows "computes w w' n (\<lambda>s. bitsNumber s (tl_bits tm) = 0)" "tm' = tm"
proof -
  have t: "timelineAt (tl_bits tm) 0 w = Inr (n, w')" "tm' = tm"
    using assms(2,3) by (auto simp: timelineFirstFrame_def bindE_Inr_iff)
  show "tm' = tm" by (rule t(2))
  show "computes w w' n (\<lambda>s. bitsNumber s (tl_bits tm) = 0)"
    by (rule timelineAt_computes [OF assms(1) t(1)]) (use assms(4) stateAt_leaf in auto)
qed

lemma timelineFirstFrame_state:
  assumes inv: "btorInv w" and r: "timelineFirstFrame tm w = Inr ((n, tm'), w')" and none: "tl_bits tm = []" "tl_first tm = 0"
  shows "adds w w' (joinView (startView (\<lambda>s. s n)) (stepView (\<lambda>s t. \<not> t n)))" "computes w' w' n (\<lambda>s. s n)"
    "n = Suc (length (bodies w))" "tl_bits tm' = []"
proof -
  obtain w1 t w2 i w3 f w4 j where v: "writeState ''kf_export_initial_frame'' w = Inr (n, w1)" "writeConstant True w1 = Inr (t, w2)"
    "writeInit n t w2 = Inr (i, w3)" "writeConstant False w3 = Inr (f, w4)" "writeNext n f w4 = Inr (j, w')"
    and tm: "tm' = tm\<lparr> tl_first := n \<rparr>"
    using r none by (auto simp: timelineFirstFrame_def bindE_Inr_iff)
  note st = writeState_ok [OF inv v(1)]
  have 1: "adds w w1 noView" by (rule givesNode_adds [OF st(1)])
  have 2: "computes w1 w2 t (\<lambda>s. True)" by (rule constant_computes [OF adds_inv [OF 1] v(2)])
  have 3: "adds w2 w3 (startView (\<lambda>s. s n = True))" by (rule computes_writeInit(1) [OF 2 v(3)])
  have 4: "computes w3 w4 f (\<lambda>s. False)" by (rule constant_computes [OF adds_inv [OF 3] v(4)])
  have 5: "adds w4 w' (stepView (\<lambda>s t. t n = False))" by (rule computes_writeNext(1) [OF 4 v(5)])
  have 6: "adds w1 w' (joinView (startView (\<lambda>s. s n)) (stepView (\<lambda>s t. \<not> t n)))"
    using adds_given [OF computesD(1) [OF 2] adds_trans [OF 3 adds_given [OF computesD(1) [OF 4] 5]]] by simp
  show "adds w w' (joinView (startView (\<lambda>s. s n)) (stepView (\<lambda>s t. \<not> t n)))" by (rule adds_given [OF 1 6])
  have "stateAt (bodies w') n" by (rule adds_state [OF 6 st(4)])
  then show "computes w' w' n (\<lambda>s. s n)" using leaf_computes [OF adds_refl [OF adds_inv [OF 6]] stateAt_leaf] by blast
  show "n = Suc (length (bodies w))" by (rule st(2))
  show "tl_bits tm' = []" using tm none by simp
qed

end
