(* ===== verification/Btor2_Declare.thy ===== *)
theory Btor2_Declare
  imports Btor2_Counter Resolver_Session
begin

text \<open>
  The declarations of the export: every symbol is bound to an input or a state of its own, and an
  expression written afterwards means the expression over the values of these leaves.
\<close>

section \<open>Valuations of symbols\<close>

text \<open>The values of the bound symbols; other symbols have those of \<open>base\<close>.\<close>

definition envWith :: "node_map \<Rightarrow> (var_id \<Rightarrow> bool) \<Rightarrow> (nat \<Rightarrow> bool) \<Rightarrow> var_id \<Rightarrow> bool" where
  "envWith nodes base s x = (case nodes x of None \<Rightarrow> base x | Some n \<Rightarrow> s n)"

lemma envWith_bound [simp]: "nodes x = Some n \<Longrightarrow> envWith nodes base s x = s n"
  by (simp add: envWith_def)

definition leavesOf :: "node_map \<Rightarrow> btor_writer \<Rightarrow> bool" where
  "leavesOf nodes w = (btorInv w \<and> bw_variables w = nodes \<and> (\<forall>x n. nodes x = Some n \<longrightarrow> leafAt (bodies w) n))"

lemma leavesOf_adds: "leavesOf nodes w \<Longrightarrow> adds w w' v \<Longrightarrow> leavesOf nodes w'"
  using adds_inv adds_variables adds_leaf by (fastforce simp: leavesOf_def)

lemma leavesOf_computes: "leavesOf nodes w \<Longrightarrow> computes w w' n g \<Longrightarrow> leavesOf nodes w'"
  using leavesOf_adds computesD(1) by blast

lemma expression_computes:
  assumes l: "leavesOf nodes w" and r: "writeExpression eo w = Inr (n, w')"
  shows "\<exists>e. eo = Some e \<and> (\<forall>base. computes w w' n (\<lambda>s. eval (envWith nodes base s) e))"
proof -
  obtain e where e: "eo = Some e" using r by (auto simp: writeExpression_def split: option.splits)
  have inv: "btorInv w" and vars: "bw_variables w = nodes" and leaf: "\<forall>x n. nodes x = Some n \<longrightarrow> leafAt (bodies w) n"
    using l by (simp_all add: leavesOf_def)
  note ok = writeExpression_ok [OF inv r [unfolded e]]
  have "eval (boundValue w s) e = eval (envWith nodes base s) e" for s base
  proof (rule eval_cong)
    fix x assume "x \<in> support e"
    then obtain m where m: "nodes x = Some m" using ok(2) vars by auto
    then show "boundValue w s x = envWith nodes base s x" using leaf vars by (simp add: boundValue_def)
  qed
  then have "(\<lambda>s. eval (boundValue w s) e) = (\<lambda>s. eval (envWith nodes base s) e)" for base by auto
  then show ?thesis using computes_given [OF ok(1)] e by metis
qed

lemma symbol_computes:
  assumes "leavesOf nodes w" "nodes x = Some n"
  shows "computes w w n (\<lambda>s. envWith nodes base s x)"
proof -
  have "computes w w n (\<lambda>s. s n)"
    by (rule leaf_computes) (use assms adds_refl in \<open>auto simp: leavesOf_def\<close>)
  then show ?thesis using assms(2) by simp
qed

lemma nodeForState_Inr: "nodeForState states nodes x = Inr n \<longleftrightarrow> map_of states x \<noteq> None \<and> nodes x = Some n"
  by (auto simp: nodeForState_def atE_def split: option.splits)

section \<open>Declared symbols\<close>

lemma bindVariable_ok:
  assumes inv: "btorInv w" and r: "bindVariable x n w = Inr w'" and new: "bw_variables w x = None"
  shows "btorInv w'" "bodies w' = bodies w" "bw_variables w' = (bw_variables w)(x \<mapsto> n)"
proof -
  have w': "w' = w\<lparr> bw_variables := (bw_variables w)(x \<mapsto> n) \<rparr>" and v: "valueAt (bodies w) n" "2 \<le> x"
    using r new isValue_inv [OF inv]
    by (auto simp: bindVariable_def requireValue_def bindE_Inr_iff not_less split: if_splits)
  show b: "bodies w' = bodies w" by (simp add: w' bodies_def)
  show vars: "bw_variables w' = (bw_variables w)(x \<mapsto> n)" by (simp add: w')
  have means: "nodeMeans w' e m" if "nodeMeans w e m" for e m
    by (rule nodeMeans_grows [OF inv _ _ that, of w' "[]"]) (use b vars new in \<open>auto simp: map_le_def\<close>)
  have parts: "bw_nodes w' = bw_nodes w" "bw_dependsOnInput w' = bw_dependsOnInput w" "bw_out w' = bw_out w"
    "bw_constants w' = bw_constants w" "bw_expressions w' = bw_expressions w" "bw_initialized w' = bw_initialized w"
    "bw_transitioned w' = bw_transitioned w" by (simp_all add: w')
  have "\<forall>y m. bw_variables w' y = Some m \<longrightarrow> valueAt (bodies w) m \<and> 2 \<le> y"
    using inv v unfolding btorInv_def vars by (simp add: fun_upd_def)
  moreover have "\<forall>e m. bw_expressions w e = Some m \<longrightarrow> nodeMeans w' e m"
    using inv means unfolding btorInv_def by blast
  ultimately show "btorInv w'" using inv unfolding btorInv_def parts b by blast
qed

definition declared :: "node_map \<Rightarrow> btor_writer \<Rightarrow> bool" where
  "declared nodes w = (leavesOf nodes w \<and> directives w = [] \<and> (\<forall>x y n. nodes x = Some n \<and> nodes y = Some n \<longrightarrow> x = y))"

definition leafMaker :: "(string \<Rightarrow> btor_writer \<Rightarrow> nat written) \<Rightarrow> bool" where
  "leafMaker declareNode = (\<forall>name n v v'. btorInv v \<longrightarrow> declareNode name v = Inr (n, v') \<longrightarrow>
     givesNode v v' n (\<lambda>s. s n) \<and> n = Suc (length (bodies v)) \<and> leafAt (bodies v') n)"

lemma declareSymbol_ok:
  assumes d: "declared nodes w" and new: "nodes (fst sn) = None"
    and node: "leafMaker declareNode"
    and r: "declareSymbol declareNode sn (nodes, w) = Inr (nodes', w')"
  shows "declared nodes' w'" "\<exists>n. nodes' = nodes(fst sn \<mapsto> n)"
proof -
  obtain n w1 where v: "declareNode (snd sn) w = Inr (n, w1)" "bindVariable (fst sn) n w1 = Inr w'"
    "nodes' = nodes(fst sn \<mapsto> n)"
    using r new by (cases sn) (auto simp: declareSymbol_def bindE_Inr_iff emplace_def)
  have inv: "btorInv w" "bw_variables w = nodes" "directives w = []" using d by (simp_all add: declared_def leavesOf_def)
  have n: "givesNode w w1 n (\<lambda>s. s n)" "n = Suc (length (bodies w))" "leafAt (bodies w1) n"
    using node inv(1) v(1) unfolding leafMaker_def by blast+
  have vars: "bw_variables w1 = nodes" using givesNodeD(4) [OF n(1)] inv(2) by simp
  note b = bindVariable_ok [OF givesNodeD(5) [OF n(1)] v(2) trans [OF fun_cong [OF vars] new]]
  have old: "nodes x = Some m \<Longrightarrow> leafAt (bodies w1) m \<and> m \<le> length (bodies w)" for x m
    using d adds_leaf [OF givesNode_adds [OF n(1)]] by (auto simp: declared_def leavesOf_def leafAt_def)
  have "directives w' = []" using givesNodeD(1) [OF n(1)] inv(3) b(2) by (simp add: wrote_def directives_def)
  moreover have "leavesOf nodes' w'" using b vars v(3) n(3) old by (auto simp: leavesOf_def)
  moreover have "\<forall>x y m. nodes' x = Some m \<and> nodes' y = Some m \<longrightarrow> x = y"
    using d old n(2) v(3) unfolding declared_def by (auto split: if_splits) fastforce+
  ultimately show "declared nodes' w'" by (simp add: declared_def)
  show "\<exists>n. nodes' = nodes(fst sn \<mapsto> n)" using v(3) by blast
qed

lemma declareSymbols_fold:
  assumes node: "leafMaker declareNode"
    and "foldE (declareSymbol declareNode) xs (nodes, w) = Inr (nodes', w')" "declared nodes w"
    "distinct (map fst xs)" "fst ` set xs \<inter> dom nodes = {}"
  shows "declared nodes' w' \<and> dom nodes' = dom nodes \<union> fst ` set xs"
  using assms(2-)
proof (induction xs arbitrary: nodes w)
  case (Cons x xs)
  obtain nodes1 w1 where v: "declareSymbol declareNode x (nodes, w) = Inr (nodes1, w1)"
    "foldE (declareSymbol declareNode) xs (nodes1, w1) = Inr (nodes', w')"
    using Cons.prems(1) by (auto simp: bindE_Inr_iff)
  have "nodes (fst x) = None" using Cons.prems(4) by auto
  note s = declareSymbol_ok [OF Cons.prems(2) this node v(1)]
  have "dom nodes1 = insert (fst x) (dom nodes)" using s(2) by (elim exE) simp
  moreover have "declared nodes' w' \<and> dom nodes' = dom nodes1 \<union> fst ` set xs"
    by (rule Cons.IH [OF v(2) s(1)]) (use Cons.prems(3,4) calculation in auto)
  ultimately show ?case by simp
qed simp

lemma leafMaker_state: "leafMaker writeState"
  unfolding leafMaker_def by (intro allI impI conjI) (blast dest: writeState_ok(1), blast dest: writeState_ok(2),
    blast dest: writeState_ok(4) stateAt_leaf)

lemma leafMaker_input: "leafMaker writeInput"
proof -
  have "leafAt (bodies v') n" if "btorInv v" "writeInput name v = Inr (n, v')" for name v n v'
    unfolding leafAt_def writeInput_ok(2,3) [OF that] by (simp add: kinds_def nth_append)
  then show ?thesis using writeInput_ok(1,2) unfolding leafMaker_def by blast
qed

lemma declareSymbols_ok:
  assumes "declareSymbols inputs states w = Inr (nodes, w')" "declared Map.empty w"
    "distinct (map fst inputs)" "distinct (map fst states)" "fst ` set inputs \<inter> fst ` set states = {}"
  shows "declared nodes w'" "dom nodes = fst ` set inputs \<union> fst ` set states"
proof -
  obtain nodes1 w1 where v: "foldE (declareSymbol writeInput) inputs (Map.empty, w) = Inr (nodes1, w1)"
    "foldE (declareSymbol writeState) states (nodes1, w1) = Inr (nodes, w')"
    using assms(1) by (auto simp: declareSymbols_def bindE_Inr_iff)
  have 1: "declared nodes1 w1 \<and> dom nodes1 = dom (Map.empty :: node_map) \<union> fst ` set inputs"
    by (rule declareSymbols_fold [OF leafMaker_input v(1)]) (use assms(2,3) in auto)
  have "declared nodes w' \<and> dom nodes = dom nodes1 \<union> fst ` set states"
    by (rule declareSymbols_fold [OF leafMaker_state v(2)]) (use 1 assms(4,5) in auto)
  then show "declared nodes w'" "dom nodes = fst ` set inputs \<union> fst ` set states" using 1 by simp_all
qed

end
