(* ===== verification/Btor2_Next.thy ===== *)
theory Btor2_Next
  imports Btor2_Declare KI_Run
begin

text \<open>
  The transition part of the export: which symbols are states and inputs, the next-state lines as
  the transitions of the resolver, and the constraints as the relations between states.
\<close>

section \<open>The symbols\<close>

lemma ordEmplace_keys: "fst ` set (ordEmplace k v xs) = insert k (fst ` set xs)"
proof (induction xs)
  case (Cons x xs)
  then show ?case by (cases x) auto
qed simp

lemma ordEmplace_sorted:
  "sorted_wrt (<) (map fst xs) \<Longrightarrow> sorted_wrt (<) (map fst (ordEmplace k v xs))"
proof (induction xs)
  case (Cons x xs)
  have "\<forall>y \<in> set (map fst (ordEmplace k v xs)). y = k \<or> y \<in> fst ` set xs" using ordEmplace_keys [of k v xs] by auto
  then show ?case using Cons by (cases x) fastforce
qed simp

lemma map_of_keys: "map_of xs k \<noteq> None \<longleftrightarrow> k \<in> fst ` set xs"
  by (simp only: map_of_eq_None_iff not_not)

definition stateSymbolSet :: "problem \<Rightarrow> var_id set" where
  "stateSymbolSet p = set (pb_state0Symbols p) \<union> set (pb_state1Symbols p) \<union> set (pb_auxiliaryStateSymbols p)"

lemma addStates_ok:
  assumes "addStates prfx xs states = Inr states'" "sorted_wrt (<) (map fst states)"
  shows "sorted_wrt (<) (map fst states') \<and> fst ` set states' = fst ` set states \<union> set xs"
  using assms
proof (induction xs arbitrary: states)
  case (Cons x xs)
  have r: "addStates prfx xs (ordEmplace x (prfx @ showWord x) states) = Inr states'"
    using Cons.prems(1) by (auto simp: addStates_def bindE_Inr_iff split: if_splits)
  from Cons.IH [OF r ordEmplace_sorted [OF Cons.prems(2)]] show ?case by (simp add: ordEmplace_keys)
qed (simp add: addStates_def)

lemma exportStates_ok:
  assumes "exportStates p = Inr states"
  shows "distinct (map fst states)" "fst ` set states = stateSymbolSet p"
proof -
  obtain a b where v: "addStates ''design0_state_'' (pb_state0Symbols p) [] = Inr a"
    "addStates ''design1_state_'' (pb_state1Symbols p) a = Inr b" "addStates ''auxiliary_state_'' (pb_auxiliaryStateSymbols p) b = Inr states"
    using assms by (auto simp: exportStates_def bindE_Inr_iff)
  note 1 = addStates_ok [OF v(1)]
  have a: "sorted_wrt (<) (map fst a)" "fst ` set a = set (pb_state0Symbols p)" using 1 [simplified] by simp_all
  note 2 = addStates_ok [OF v(2) a(1)]
  note 3 = addStates_ok [OF v(3) conjunct1 [OF 2]]
  show "distinct (map fst states)" using 3 strict_sorted_iff by blast
  show "fst ` set states = stateSymbolSet p" using a(2) 2 3 by (simp add: stateSymbolSet_def)
qed

lemma exportInputs_ok:
  assumes "exportInputs p states = Inr inputs"
  shows "distinct (map fst inputs)" "fst ` set inputs \<inter> fst ` set states = {}"
proof -
  let ?step = "\<lambda>ix inputs. if snd ix < 2 \<or> map_of states (snd ix) \<noteq> None
      then Inl (Runtime_Error (''Invalid SEC input symbol '' @ showWord (snd ix)))
      else Inr (ordEmplace (snd ix) (exportInputName (pb_environmentInputNames p) ix) inputs)"
  let ?more = "\<lambda>symbol inputs. if 2 \<le> symbol \<and> map_of states symbol = None
      then ordEmplace symbol (''input_'' @ showWord symbol) inputs else inputs"
  let ?P = "\<lambda>xs. sorted_wrt (<) (map fst xs) \<and> fst ` set xs \<inter> fst ` set states = {}"
  obtain a where a: "foldE ?step (List.enumerate 0 (pb_inputSymbols p)) [] = Inr a" "inputs = fold ?more (pb_allSymbols p) a"
    using assms by (auto simp: exportInputs_def bindE_Inr_iff)
  have put: "?P (ordEmplace k v xs)" if "?P xs" "k \<notin> fst ` set states" for k v xs
    using that ordEmplace_sorted [of xs k v] ordEmplace_keys [of k v xs] by simp
  have step: "?P t" if "?P s" "?step ix s = Inr t" for ix s t
  proof -
    have "snd ix \<notin> fst ` set states" and t: "ordEmplace (snd ix) (exportInputName (pb_environmentInputNames p) ix) s = t"
      using that(2) by (simp_all add: map_of_eq_None_iff split: if_splits)
    show ?thesis unfolding t [symmetric] by (rule put [OF that(1) \<open>snd ix \<notin> fst ` set states\<close>])
  qed
  have "?P a" by (rule foldE_invariant [OF a(1), where P = ?P]) (simp, rule step)
  moreover have "?P ys \<Longrightarrow> ?P (fold ?more xs ys)" for xs ys
    by (induction xs arbitrary: ys) (auto simp: ordEmplace_sorted ordEmplace_keys map_of_eq_None_iff)
  ultimately have "?P inputs" using a(2) by blast
  then show "distinct (map fst inputs)" "fst ` set inputs \<inter> fst ` set states = {}" using strict_sorted_iff by blast+
qed

section \<open>Relations between states\<close>

lemma complement_view:
  assumes l: "leavesOf nodes w" and r: "addRelation (nodeForState states nodes) c xy w = Inr w'"
  shows "adds w w' (legalView (\<lambda>s. envWith nodes base s (snd xy) = ((\<not> c) = envWith nodes base s (fst xy))))"
    "fst xy \<in> fst ` set states" "snd xy \<in> fst ` set states"
proof -
  obtain a a' w1 b m w2 q where v: "nodeForState states nodes (fst xy) = Inr a"
    "(if c then logicalNot a w else Inr (a, w)) = Inr (a', w1)" "nodeForState states nodes (snd xy) = Inr b"
    "binaryNode GateEq a' b w1 = Inr (m, w2)" "writeConstraint m w2 = Inr (q, w')"
    using r by (auto simp: addRelation_def gate_defs bindE_Inr_iff)
  have a: "nodes (fst xy) = Some a" "nodes (snd xy) = Some b" using v(1,3) by (simp_all add: nodeForState_Inr)
  have 1: "computes w w1 a' (\<lambda>s. (\<not> c) = envWith nodes base s (fst xy))"
  proof (cases c)
    case True
    then show ?thesis using not_computes [OF symbol_computes [OF l a(1)]] v(2) by simp
  next
    case False
    then show ?thesis using symbol_computes [OF l a(1)] v(2) by simp
  qed
  have 2: "computes w w2 m (\<lambda>s. envWith nodes base s (snd xy) = ((\<not> c) = envWith nodes base s (fst xy)))"
    using gate_computes [OF 1 computes_keep [OF symbol_computes [OF l a(2)] computesD(1) [OF 1]] v(4)] by (simp add: eq_commute)
  show "adds w w' (legalView (\<lambda>s. envWith nodes base s (snd xy) = ((\<not> c) = envWith nodes base s (fst xy))))"
    by (rule adds_given [OF computesD(1) [OF 2] computes_writeConstraint [OF 2 v(5)]])
  show "fst xy \<in> fst ` set states" "snd xy \<in> fst ` set states" using v(1,3) unfolding nodeForState_Inr map_of_keys by blast+
qed

lemma rails_view:
  assumes l: "leavesOf nodes w" and r: "addRails (nodeForState states nodes) rp w = Inr w'"
  shows "adds w w' (legalView (\<lambda>s. envWith nodes base s (railOne rp) \<or> envWith nodes base s (railZero rp)))"
proof -
  obtain a b m w1 q where v: "nodes (railOne rp) = Some a" "nodes (railZero rp) = Some b"
    "binaryNode GateOr a b w = Inr (m, w1)" "writeConstraint m w1 = Inr (q, w')"
    using r by (auto simp: addRails_def gate_defs bindE_Inr_iff nodeForState_Inr)
  have 1: "computes w w1 m (\<lambda>s. envWith nodes base s (railOne rp) \<or> envWith nodes base s (railZero rp))"
    using gate_computes [OF symbol_computes [OF l v(1)] symbol_computes [OF l v(2)] v(3)] by simp
  show ?thesis by (rule adds_given [OF computesD(1) [OF 1] computes_writeConstraint [OF 1 v(4)]])
qed

lemma leaves_fold:
  assumes "foldE f xs w = Inr w'" "leavesOf nodes w"
    and "\<And>x v v'. x \<in> set xs \<Longrightarrow> leavesOf nodes v \<Longrightarrow> f x v = Inr v' \<Longrightarrow> adds v v' (V x)"
  shows "leavesOf nodes w'" "adds w w' (joinViews V xs)"
proof -
  have "leavesOf nodes w' \<and> adds w w' (joinViews V xs)"
    by (rule foldE_adds [where J = "leavesOf nodes", OF assms(1,2)]) (use assms(3) leavesOf_adds leavesOf_def in blast)+
  then show "leavesOf nodes w'" "adds w w' (joinViews V xs)" by simp_all
qed

lemma relations_view:
  assumes l: "leavesOf nodes w" and r: "exportRelations p (nodeForState states nodes) w = Inr w'"
  shows "adds w w' (legalView (\<lambda>s. relationsOn UNIV p (envWith nodes base s)))"
    "\<forall>xy \<in> set (pb_complementedStatePairs0 p) \<union> set (pb_complementedStatePairs1 p). fst xy \<in> fst ` set states"
proof -
  let ?env = "envWith nodes base" and ?rel = "addRelation (nodeForState states nodes)"
  obtain w1 w2 w3 w4 where v: "foldE (?rel True) (pb_complementedStatePairs0 p) w = Inr w1"
    "foldE (?rel True) (pb_complementedStatePairs1 p) w1 = Inr w2"
    "foldE (?rel False) (pb_sameFrameStateEqualityPairs0 p) w2 = Inr w3"
    "foldE (?rel False) (pb_sameFrameStateEqualityPairs1 p) w3 = Inr w4"
    "foldE (addRails (nodeForState states nodes)) (pb_dualRailStatePairs p) w4 = Inr w'"
    using r by (auto simp: exportRelations_def bindE_Inr_iff)
  have pairs: "leavesOf nodes b \<and> adds a b (legalView (\<lambda>s. \<forall>xy \<in> set xs. ?env s (snd xy) = ((\<not> c) = ?env s (fst xy))))"
    if "leavesOf nodes a" "foldE (?rel c) xs a = Inr b" for a b c xs
    using leaves_fold [OF that(2,1) complement_view(1)] by (simp add: joinViews_kinds)
  have member: "\<forall>xy \<in> set xs. fst xy \<in> fst ` set states" if "leavesOf nodes a" "foldE (?rel c) xs a = Inr b" for a b c xs
    using that
  proof (induction xs arbitrary: a)
    case (Cons x xs)
    obtain d where d: "?rel c x a = Inr d" "foldE (?rel c) xs d = Inr b" using Cons.prems(2) by (auto simp: bindE_Inr_iff)
    from Cons.IH [OF leavesOf_adds [OF Cons.prems(1) complement_view(1) [OF Cons.prems(1) d(1)]] d(2)]
      complement_view(2) [OF Cons.prems(1) d(1)] show ?case by simp
  qed simp
  note 1 = pairs [OF l v(1)]
  note 2 = pairs [OF conjunct1 [OF 1] v(2)]
  note 3 = pairs [OF conjunct1 [OF 2] v(3)]
  note 4 = pairs [OF conjunct1 [OF 3] v(4)]
  note 5 = leaves_fold(2) [OF v(5) conjunct1 [OF 4] rails_view]
  have "adds w w' (joinView (legalView (\<lambda>s. \<forall>xy \<in> set (pb_complementedStatePairs0 p). ?env s (snd xy) = ((\<not> True) = ?env s (fst xy))))
     (joinView (legalView (\<lambda>s. \<forall>xy \<in> set (pb_complementedStatePairs1 p). ?env s (snd xy) = ((\<not> True) = ?env s (fst xy))))
     (joinView (legalView (\<lambda>s. \<forall>xy \<in> set (pb_sameFrameStateEqualityPairs0 p). ?env s (snd xy) = ((\<not> False) = ?env s (fst xy))))
     (joinView (legalView (\<lambda>s. \<forall>xy \<in> set (pb_sameFrameStateEqualityPairs1 p). ?env s (snd xy) = ((\<not> False) = ?env s (fst xy))))
       (joinViews (\<lambda>rp. legalView (\<lambda>s. ?env s (railOne rp) \<or> ?env s (railZero rp))) (pb_dualRailStatePairs p))))))"
    by (rule adds_trans [OF conjunct2 [OF 1] adds_trans [OF conjunct2 [OF 2] adds_trans [OF conjunct2 [OF 3] adds_trans [OF conjunct2 [OF 4] 5]]]])
  moreover have "relationsOn UNIV p = (\<lambda>env. (\<forall>xy \<in> set (pb_complementedStatePairs0 p). env (snd xy) = (\<not> env (fst xy))) \<and>
      (\<forall>xy \<in> set (pb_complementedStatePairs1 p). env (snd xy) = (\<not> env (fst xy))) \<and>
      (\<forall>xy \<in> set (pb_sameFrameStateEqualityPairs0 p). env (snd xy) = env (fst xy)) \<and>
      (\<forall>xy \<in> set (pb_sameFrameStateEqualityPairs1 p). env (snd xy) = env (fst xy)) \<and>
      (\<forall>rp \<in> set (pb_dualRailStatePairs p). env (railOne rp) \<or> env (railZero rp)))"
    by (rule ext) (simp add: relationsOn_def pairsOn_def equalOn_def railsOn_def eq_commute [of "_ (fst _)" "_ (snd _)"])
  ultimately show "adds w w' (legalView (\<lambda>s. relationsOn UNIV p (?env s)))"
    by (simp add: joinView_same joinViews_kinds)
  show "\<forall>xy \<in> set (pb_complementedStatePairs0 p) \<union> set (pb_complementedStatePairs1 p). fst xy \<in> fst ` set states"
    using member [OF l v(1)] member [OF conjunct1 [OF 1] v(2)] by blast
qed

section \<open>The next state\<close>

definition primaries :: "problem \<Rightarrow> var_id \<rightharpoonup> var_id" where
  "primaries p = fst (primaryByComplement (newResolver p))"

lemma primaries_pair:
  assumes "primaries p x = Some y"
  shows "(y, x) \<in> set (pb_complementedStatePairs0 p) \<union> set (pb_complementedStatePairs1 p)"
proof -
  have fold: "fold (\<lambda>(a, b). emplace b a) xs m x = Some y \<Longrightarrow> (y, x) \<in> set xs \<or> m x = Some y"
    for xs :: "(var_id \<times> var_id) list" and m
  proof (induction xs arbitrary: m)
    case (Cons ab xs)
    obtain a b where ab: "ab = (a, b)" by (cases ab)
    have "fold (\<lambda>(a, b). emplace b a) xs (emplace b a m) x = Some y" using Cons.prems by (simp add: ab)
    from Cons.IH [OF this] show ?case by (auto simp: ab emplace_apply split: if_splits)
  qed simp
  show ?thesis
    using assms fold [of "pb_complementedStatePairs1 p"] fold [of "pb_complementedStatePairs0 p" Map.empty]
    by (fastforce simp: primaries_def primaryByComplement_def newResolver_def Let_def)
qed

definition exporting :: "problem \<Rightarrow> resolver \<Rightarrow> bool" where
  "exporting p r = (session (newResolver p) r \<and>
     (tr_primaryByComplement r = None \<or> tr_primaryByComplement r = Some (primaries p)))"

lemma exporting_new: "resolverInv (newResolver p) \<Longrightarrow> exporting p (newResolver p)"
  using session_refl by (simp add: exporting_def newResolver_def)

lemma exporting_pairs:
  assumes "exporting p r"
  shows "pb_complementedStatePairs0 (tr_problem r) = pb_complementedStatePairs0 p"
    "pb_complementedStatePairs1 (tr_problem r) = pb_complementedStatePairs1 p"
proof -
  have "(tr_problem r)\<lparr> pb_lazyTransitions := None \<rparr> = p\<lparr> pb_lazyTransitions := None \<rparr>"
    using assms by (simp add: exporting_def session_def staticProblem_def newResolver_def)
  from arg_cong [OF this, of pb_complementedStatePairs0] arg_cong [OF this, of pb_complementedStatePairs1]
  show "pb_complementedStatePairs0 (tr_problem r) = pb_complementedStatePairs0 p"
    "pb_complementedStatePairs1 (tr_problem r) = pb_complementedStatePairs1 p" by simp_all
qed

lemma exporting_primaries:
  assumes "exporting p r"
  shows "\<exists>r'. primaryByComplement r = (primaries p, r') \<and> exporting p r'"
proof (cases "tr_primaryByComplement r")
  case None
  let ?r = "r\<lparr> tr_primaryByComplement := Some (primaries p) \<rparr>"
  have "primaryByComplement r = (primaries p, ?r)"
    using None exporting_pairs [OF assms] by (simp add: primaryByComplement_def primaries_def newResolver_def Let_def)
  moreover have same: "sameSources r ?r" by (simp add: sameSources_def sourcesOf_def storeOf_def)
  moreover have inv: "resolverInv r" using assms by (simp add: exporting_def session_def)
  moreover have "supportInv ?r"
    using inv by (auto simp: resolverInv_def supportInv_def storeOf_def directSupport_cong [OF same])
  ultimately have "session r ?r" by (simp add: session_def resolverInv_def staticProblem_def storeOf_def)
  then show ?thesis using \<open>primaryByComplement r = (primaries p, ?r)\<close> assms session_trans
    by (fastforce simp: exporting_def)
next
  case (Some m)
  then show ?thesis using assms by (simp add: primaryByComplement_def exporting_def)
qed

lemma exporting_transition:
  assumes e: "exporting p r" and t: "transitionAt x r = Inr (Some e, r')"
  shows "exporting p r'" "resolvedTo (newResolver p) x e"
proof -
  have inv: "resolverInv r" "session (newResolver p) r" using e by (simp_all add: exporting_def session_def)
  have "tr_primaryByComplement r' = tr_primaryByComplement r" using transitionAt_shape [OF t] by (auto simp: putStore_def)
  then show "exporting p r'" using e session_trans [OF inv(2) transitionAt_session [OF inv(1) t]] by (simp add: exporting_def)
  have "resolvedTo r x e"
    using transitionAt_ok [OF inv(1) t] by (auto simp: resolvedTo_def split: option.splits)
  then show "resolvedTo (newResolver p) x e" using resolvedTo_session [OF inv(2)] by blast
qed

text \<open>The next value of a state: by its transition, or as the complement of its primary.\<close>

definition nextHolds :: "problem \<Rightarrow> var_id \<Rightarrow> (var_id \<Rightarrow> bool) \<Rightarrow> (var_id \<Rightarrow> bool) \<Rightarrow> bool" where
  "nextHolds p x env env' =
    (if resolverContains x (newResolver p) then targetHolds (newResolver p) x env env'
     else \<forall>y. primaries p x = Some y \<longrightarrow> targetHolds (newResolver p) y env (env'(y := \<not> env' x)))"

lemma nextState_view:
  assumes l: "leavesOf nodes w" and e: "exporting p r" and r: "nextState nodes sn (r, w) = Inr (r', w')"
  shows "exporting p r'"
    "adds w w' (stepView (\<lambda>s t. nextHolds p (fst sn) (envWith nodes base s) (envWith nodes base' t)))"
proof -
  let ?root = "newResolver p" and ?x = "fst sn"
  have contains: "resolverContains x q = resolverContains x ?root" if "exporting p q" for x q
    using that contains_session by (simp add: exporting_def)
  have line: "adds v w' (stepView (\<lambda>s t. envWith nodes base' t ?x = g s))"
    if "computes u v c g" "atE nodes ?x = Inr n" "writeNext n c v = Inr (q, w')" for u v c g n q
    using computes_writeNext(1) [OF that(1,3)] that(2) by (auto simp: atE_def split: option.splits)
  have "exporting p r' \<and> adds w w' (stepView (\<lambda>s t. nextHolds p ?x (envWith nodes base s) (envWith nodes base' t)))"
  proof (cases "resolverContains ?x r")
    case True
    obtain eo c w1 n q where v: "transitionAt ?x r = Inr (eo, r')" "writeExpression eo w = Inr (c, w1)"
      "atE nodes ?x = Inr n" "writeNext n c w1 = Inr (q, w')"
      using r True by (cases sn) (auto simp: nextState_def bindE_Inr_iff)
    obtain f where f: "eo = Some f" "computes w w1 c (\<lambda>s. eval (envWith nodes base s) f)"
      using expression_computes [OF l v(2)] by blast
    note t = exporting_transition [OF e v(1) [unfolded f(1)]]
    have "nextHolds p ?x = (\<lambda>env env'. env' ?x = eval env f)"
      using True contains [OF e] by (intro ext) (simp add: nextHolds_def targetHolds_resolved [OF t(2)])
    then show ?thesis using adds_given [OF computesD(1) [OF f(2)] line [OF f(2) v(3,4)]] t(1) by simp
  next
    case False
    obtain r1 where r1: "primaryByComplement r = (primaries p, r1)" "exporting p r1" using exporting_primaries [OF e] by blast
    obtain y eo c w1 d w2 n q where y: "primaries p ?x = Some y" and v: "transitionAt y r1 = Inr (eo, r')"
      "writeExpression eo w = Inr (c, w1)" "logicalNot c w1 = Inr (d, w2)" "atE nodes ?x = Inr n" "writeNext n d w2 = Inr (q, w')"
      using r False r1(1) by (cases sn) (auto simp: nextState_def bindE_Inr_iff split: option.splits if_splits)
    obtain f where f: "eo = Some f" "computes w w1 c (\<lambda>s. eval (envWith nodes base s) f)"
      using expression_computes [OF l v(2)] by blast
    have d: "computes w w2 d (\<lambda>s. \<not> eval (envWith nodes base s) f)" by (rule not_computes [OF f(2) v(3)])
    note t = exporting_transition [OF r1(2) v(1) [unfolded f(1)]]
    have "nextHolds p ?x = (\<lambda>env env'. env' ?x = (\<not> eval env f))"
      using False contains [OF e] y by (intro ext) (auto simp: nextHolds_def targetHolds_resolved [OF t(2)])
    then show ?thesis using adds_given [OF computesD(1) [OF d] line [OF d v(4,5)]] t(1) by simp
  qed
  then show "exporting p r'"
    "adds w w' (stepView (\<lambda>s t. nextHolds p (fst sn) (envWith nodes base s) (envWith nodes base' t)))" by simp_all
qed

lemma nextStates_view:
  assumes "foldE (nextState nodes) xs (r, w) = Inr (r', w')" "leavesOf nodes w" "exporting p r"
  shows "leavesOf nodes w' \<and>
    adds w w' (stepView (\<lambda>s t. \<forall>x \<in> fst ` set xs. nextHolds p x (envWith nodes base s) (envWith nodes base' t)))"
  using assms
proof (induction xs arbitrary: r w)
  case Nil
  then show ?case using adds_refl by (simp add: leavesOf_def)
next
  case (Cons x xs)
  obtain r1 w1 where v: "nextState nodes x (r, w) = Inr (r1, w1)" "foldE (nextState nodes) xs (r1, w1) = Inr (r', w')"
    using Cons.prems(1) by (auto simp: bindE_Inr_iff)
  note s = nextState_view [OF Cons.prems(2,3) v(1)]
  note i = Cons.IH [OF v(2) leavesOf_adds [OF Cons.prems(2) s(2)] s(1)]
  from adds_trans [OF s(2) conjunct2 [OF i]] i show ?case by (simp add: joinView_same)
qed

text \<open>On legal frames the complements follow: the next state is that of the transitions.\<close>

lemma nextHolds_legal:
  assumes rel: "relationsOn UNIV p env'"
    and member: "\<forall>xy \<in> set (pb_complementedStatePairs0 p) \<union> set (pb_complementedStatePairs1 p). fst xy \<in> X"
  shows "(\<forall>x \<in> X. nextHolds p x env env') \<longleftrightarrow>
    (\<forall>x \<in> X. resolverContains x (newResolver p) \<longrightarrow> targetHolds (newResolver p) x env env')"
proof (intro iffI ballI impI)
  fix x
  assume all: "\<forall>x \<in> X. resolverContains x (newResolver p) \<longrightarrow> targetHolds (newResolver p) x env env'" and x: "x \<in> X"
  have "targetHolds (newResolver p) y env (env'(y := \<not> env' x))" if y: "primaries p x = Some y" for y
  proof -
    have pair: "(y, x) \<in> set (pb_complementedStatePairs0 p) \<union> set (pb_complementedStatePairs1 p)" by (rule primaries_pair [OF y])
    then have "env' x = (\<not> env' y)" using rel by (auto simp: relationsOn_def pairsOn_def)
    then have same: "env'(y := \<not> env' x) = env'" by auto
    show ?thesis
    proof (cases "resolverContains y (newResolver p)")
      case True
      moreover have "y \<in> X" using bspec [OF member pair] by simp
      ultimately show ?thesis using all unfolding same by blast
    next
      case False
      then have "\<not> resolvedTo (newResolver p) y e" for e
        by (auto simp: resolvedTo_def resolverContains_def checkedSource_def split: option.splits)
      then show ?thesis by (simp add: targetHolds_def)
    qed
  qed
  then show "nextHolds p x env env'" using all x by (simp add: nextHolds_def)
qed (auto simp: nextHolds_def split: if_splits)

end
