(* ===== verification/Btor2_Startup.thy ===== *)
theory Btor2_Startup
  imports Btor2_Next
begin

text \<open>
  The startup of the export: clocks, that is, parts of the system whose states are the same in
  every run, and the constraints that a clock puts at their frames.
\<close>

section \<open>Clocks\<close>

definition onTime :: "(nat \<Rightarrow> nat \<Rightarrow> bool) \<Rightarrow> nat set \<Rightarrow> nat \<Rightarrow> (nat \<Rightarrow> bool) \<Rightarrow> bool" where
  "onTime tick N f s = (\<forall>n \<in> N. s n = tick f n)"

definition clock :: "view \<Rightarrow> nat set \<Rightarrow> (nat \<Rightarrow> nat \<Rightarrow> bool) \<Rightarrow> bool" where
  "clock C N tick = (vw_legal C = (\<lambda>s. True) \<and> vw_bad C = (\<lambda>s. False) \<and>
     (\<forall>ss K. (vw_start C (ss 0) \<and> (\<forall>f < K. vw_step C (ss f) (ss (Suc f)))) = (\<forall>f \<le> K. onTime tick N f (ss f))))"

lemma clock_none: "clock noView {} tick"
  by (simp add: clock_def onTime_def noView_def)

lemma clock_run:
  "clock C N tick \<Longrightarrow> (vw_start C (ss 0) \<and> (\<forall>f < K. vw_step C (ss f) (ss (Suc f)))) = (\<forall>f \<le> K. onTime tick N f (ss f))"
  by (simp add: clock_def)

lemma clock_join:
  assumes "clock C N t" "clock D M u" "N \<inter> M = {}"
  shows "clock (joinView C D) (N \<union> M) (\<lambda>f n. if n \<in> N then t f n else u f n)"
proof -
  have "onTime (\<lambda>f n. if n \<in> N then t f n else u f n) (N \<union> M) f s = (onTime t N f s \<and> onTime u M f s)" for f s
    using assms(3) by (fastforce simp: onTime_def)
  then have "(vw_start (joinView C D) (ss 0) \<and> (\<forall>f < K. vw_step (joinView C D) (ss f) (ss (Suc f)))) =
      (\<forall>f \<le> K. onTime (\<lambda>f n. if n \<in> N then t f n else u f n) (N \<union> M) f (ss f))" for ss K
    using clock_run [OF assms(1), of ss K] clock_run [OF assms(2), of ss K] by (auto simp: joinView_def)
  then show ?thesis using assms by (simp add: clock_def) (simp add: joinView_def)
qed

lemma step_clock:
  assumes C: "C = joinView (startView S) (stepView T)"
    and S: "\<And>s. S s = onTime tick N 0 s" and T: "\<And>f s t. onTime tick N f s \<Longrightarrow> T s t = onTime tick N (Suc f) t"
  shows "clock C N tick"
proof -
  have "(S (ss 0) \<and> (\<forall>f < K. T (ss f) (ss (Suc f)))) = (\<forall>f \<le> K. onTime tick N f (ss f))" for ss K
  proof (induction K)
    case (Suc K)
    have "(\<forall>f \<le> Suc K. onTime tick N f (ss f)) = ((\<forall>f \<le> K. onTime tick N f (ss f)) \<and> onTime tick N (Suc K) (ss (Suc K)))"
      by (auto simp: le_Suc_eq)
    moreover have "(S (ss 0) \<and> (\<forall>f < Suc K. T (ss f) (ss (Suc f)))) =
        ((\<forall>f \<le> K. onTime tick N f (ss f)) \<and> T (ss K) (ss (Suc K)))"
      using Suc.IH by (auto simp: less_Suc_eq)
    ultimately show ?case using T by blast
  qed (simp add: S)
  then show ?thesis by (simp add: clock_def C view_defs)
qed

lemma first_clock: "clock (joinView (startView (\<lambda>s. s n)) (stepView (\<lambda>s t. \<not> t n))) {n} (\<lambda>f m. f = 0)"
  by (rule step_clock) (auto simp: onTime_def)

lemma bitsNumber_surj:
  assumes "distinct bits" "m < 2 ^ length bits"
  shows "\<exists>s. bitsNumber s bits = m"
  using assms
proof (induction bits arbitrary: m)
  case (Cons n ns)
  then obtain s where s: "bitsNumber s ns = m div 2" by fastforce
  let ?s = "s(n := odd m)"
  have "bitsNumber ?s ns = bitsNumber s ns" using Cons.prems(1) by (auto simp: bitsNumber_inject)
  then have "bitsNumber ?s (n # ns) = m" using s by (simp add: mod2_eq_if [symmetric])
  then show ?case by blast
qed simp

lemma counter_clock:
  assumes "distinct bits" "L < 2 ^ length bits"
  shows "\<exists>tick. clock (counterView bits L) (set bits) tick \<and>
    (\<forall>f s. onTime tick (set bits) f s \<longrightarrow> bitsNumber s bits = min f L)"
proof -
  have "\<forall>f. \<exists>s. bitsNumber s bits = min f L" using bitsNumber_surj [OF assms(1)] assms(2) by (simp add: min_def)
  then obtain tick where tick: "\<forall>f. bitsNumber (tick f) bits = min f L" by metis
  have num: "onTime tick (set bits) f s = (bitsNumber s bits = min f L)" for f s
    using bitsNumber_inject [of s bits "tick f"] tick by (simp add: onTime_def)
  have "clock (counterView bits L) (set bits) tick"
    by (rule step_clock [OF counterView_def]) (use assms(2) in \<open>auto simp: num min_def\<close>)
  then show ?thesis using num by blast
qed

section \<open>Initial values\<close>

lemma ordEmplace_set: "map_of xs k = None \<Longrightarrow> set (ordEmplace k v xs) = insert (k, v) (set xs)"
proof (induction xs)
  case (Cons x xs)
  then show ?case by (cases x) (auto split: if_splits)
qed simp

lemma initialValues_mean:
  assumes "foldE initialValue xs vals = Inr vals'"
  shows "(\<forall>(x, v) \<in> set vals'. env x = v) = ((\<forall>(x, v) \<in> set vals. env x = v) \<and> (\<forall>(x, v) \<in> set xs. env x = v))"
  using assms
proof (induction xs arbitrary: vals)
  case (Cons xv xs)
  obtain mid where r: "initialValue xv vals = Inr mid" "foldE initialValue xs mid = Inr vals'"
    using Cons.prems by (auto simp: bindE_Inr_iff)
  have "(\<forall>(x, v) \<in> set mid. env x = v) = ((\<forall>(x, v) \<in> set vals. env x = v) \<and> env (fst xv) = snd xv)"
  proof (cases "map_of vals (fst xv)")
    case None
    then show ?thesis using r(1) ordEmplace_set [OF None, of "snd xv"] by (auto simp: initialValue_def)
  next
    case (Some old)
    then have mid: "mid = vals" "old = snd xv" using r(1) by (auto simp: initialValue_def split: if_splits)
    have "env (fst xv) = snd xv" if "\<forall>(x, v) \<in> set vals. env x = v"
      using bspec [OF that map_of_SomeD [OF Some]] mid(2) by (simp add: case_prod_beta)
    then show ?thesis unfolding mid(1) by blast
  qed
  then show ?case unfolding Cons.IH [OF r(2)] by (simp add: case_prod_beta)
qed simp

lemma initState_view:
  assumes l: "leavesOf nodes w" and r: "initState (nodeForState states nodes) xv w = Inr w'"
  shows "adds w w' (startView (\<lambda>s. envWith nodes base s (fst xv) = snd xv))"
proof -
  obtain n c w1 q where v: "nodes (fst xv) = Some n" "writeConstant (snd xv) w = Inr (c, w1)" "writeInit n c w1 = Inr (q, w')"
    using r by (auto simp: initState_def bindE_Inr_iff nodeForState_Inr)
  have 1: "computes w w1 c (\<lambda>s. snd xv)" by (rule constant_computes [OF _ v(2)]) (use l in \<open>simp add: leavesOf_def\<close>)
  show ?thesis using adds_given [OF computesD(1) [OF 1] computes_writeInit(1) [OF 1 v(3)]] v(1) by simp
qed

lemma initStates_view:
  assumes "foldE initialValue xs [] = Inr vals" "foldE (initState (nodeForState states nodes)) vals w = Inr w'" "leavesOf nodes w"
  shows "adds w w' (startView (\<lambda>s. assignsOn UNIV xs (envWith nodes base s)))"
proof -
  have "adds w w' (startView (\<lambda>s. \<forall>xv \<in> set vals. envWith nodes base s (fst xv) = snd xv))"
    using leaves_fold(2) [OF assms(2,3) initState_view] by (simp add: joinViews_kinds)
  moreover have "(\<forall>xv \<in> set vals. env (fst xv) = snd xv) = assignsOn UNIV xs env" for env
    using initialValues_mean [OF assms(1), of env] by (simp add: assignsOn_def case_prod_beta)
  ultimately show ?thesis by simp
qed

section \<open>The first frame\<close>

text \<open>A timeline whose bits are states, with nothing written for the first frame yet.\<close>

definition timelineOk :: "timeline \<Rightarrow> btor_writer \<Rightarrow> bool" where
  "timelineOk tm w = (if tl_bits tm = [] then tl_first tm = 0 else \<forall>n \<in> set (tl_bits tm). stateAt (bodies w) n)"

lemma timelineOk_adds: "timelineOk tm w \<Longrightarrow> adds w w' v \<Longrightarrow> timelineOk tm w'"
  using adds_state by (auto simp: timelineOk_def)

text \<open>A clock above the given lines, and a test that holds in the first frame.\<close>

definition firstTest :: "timeline \<Rightarrow> nat \<Rightarrow> view \<Rightarrow> nat set \<Rightarrow> (nat \<Rightarrow> nat \<Rightarrow> bool) \<Rightarrow> ((nat \<Rightarrow> bool) \<Rightarrow> bool) \<Rightarrow> bool" where
  "firstTest tm low C N tick F = (clock C N tick \<and> (\<forall>n \<in> N. low < n) \<and>
     (if tl_bits tm = [] then \<forall>f s. onTime tick N f s \<longrightarrow> F s = (f = 0)
      else C = noView \<and> N = {} \<and> F = (\<lambda>s. bitsNumber s (tl_bits tm) = 0)))"

lemma timelineFirstFrame_test:
  assumes ok: "timelineOk tm w" and inv: "btorInv w" and r: "timelineFirstFrame tm w = Inr ((n, tm'), w')"
  shows "\<exists>C N tick F. firstTest tm (length (bodies w)) C N tick F \<and> adds w w' C \<and> computes w' w' n F"
    "tl_bits tm' = tl_bits tm"
proof -
  have "(\<exists>C N tick F. firstTest tm (length (bodies w)) C N tick F \<and> adds w w' C \<and> computes w' w' n F) \<and> tl_bits tm' = tl_bits tm"
  proof (cases "tl_bits tm = []")
    case True
    note s = timelineFirstFrame_state [OF inv r True]
    have "tl_first tm = 0" using ok True by (simp add: timelineOk_def)
    note s = s [OF this]
    have "firstTest tm (length (bodies w)) (joinView (startView (\<lambda>s. s n)) (stepView (\<lambda>s t. \<not> t n))) {n} (\<lambda>f m. f = 0) (\<lambda>s. s n)"
      using first_clock s(3) True by (simp add: firstTest_def onTime_def)
    then show ?thesis using s True by auto
  next
    case False
    have "\<forall>b \<in> set (tl_bits tm). stateAt (bodies w) b" using ok False by (simp add: timelineOk_def)
    note s = timelineFirstFrame_bits [OF inv r False this]
    have "firstTest tm (length (bodies w)) noView {} (\<lambda>f m. False) (\<lambda>s. bitsNumber s (tl_bits tm) = 0)"
      using clock_none False by (simp add: firstTest_def)
    then show ?thesis using s(2) computesD(1) [OF s(1)] computes_refl [OF s(1)] by blast
  qed
  then show "\<exists>C N tick F. firstTest tm (length (bodies w)) C N tick F \<and> adds w w' C \<and> computes w' w' n F"
    "tl_bits tm' = tl_bits tm" by simp_all
qed

text \<open>A formula asked for in the first frame, in either order of the two writes.\<close>

lemma initialFrame_view:
  assumes ok: "timelineOk tm w" and l: "leavesOf nodes w"
    and r: "initialFrameFormula frameFirst eo tm w = Inr (tm', w')"
  shows "\<exists>e C N tick F. eo = Some e \<and> firstTest tm (length (bodies w)) C N tick F \<and>
    (\<forall>base. adds w w' (joinView C (legalView (\<lambda>s. F s \<longrightarrow> eval (envWith nodes base s) e))))" "tl_bits tm' = tl_bits tm"
proof -
  have inv: "btorInv w" using l by (simp add: leavesOf_def)
  have "(\<exists>e C N tick F. eo = Some e \<and> firstTest tm (length (bodies w)) C N tick F \<and>
    (\<forall>base. adds w w' (joinView C (legalView (\<lambda>s. F s \<longrightarrow> eval (envWith nodes base s) e))))) \<and> tl_bits tm' = tl_bits tm"
  proof (cases frameFirst)
    case True
    then obtain n w1 c w2 where v: "timelineFirstFrame tm w = Inr ((n, tm'), w1)" "writeExpression eo w1 = Inr (c, w2)"
      "constrainWhen n c w2 = Inr w'"
      using r by (auto simp: initialFrameFormula_def bindE_Inr_iff)
    obtain C N tick F where t: "firstTest tm (length (bodies w)) C N tick F" "adds w w1 C" "computes w1 w1 n F"
      using timelineFirstFrame_test(1) [OF ok inv v(1)] by blast
    obtain e where e: "eo = Some e" "\<forall>base. computes w1 w2 c (\<lambda>s. eval (envWith nodes base s) e)"
      using expression_computes [OF leavesOf_adds [OF l t(2)] v(2)] by blast
    have "adds w w' (joinView C (legalView (\<lambda>s. F s \<longrightarrow> eval (envWith nodes base s) e)))" for base
    proof -
      have c: "computes w1 w2 c (\<lambda>s. eval (envWith nodes base s) e)" using e(2) by blast
      have "adds w2 w' (legalView (\<lambda>s. F s \<longrightarrow> eval (envWith nodes base s) e))"
        by (rule constrainWhen_adds [OF computes_refl [OF computes_keep [OF t(3) computesD(1) [OF c]]] computes_refl [OF c] v(3)])
      from adds_trans [OF t(2) adds_given [OF computesD(1) [OF c] this]] show ?thesis .
    qed
    then show ?thesis using t(1) e(1) timelineFirstFrame_test(2) [OF ok inv v(1)] by blast
  next
    case False
    then obtain c w1 n w2 where v: "writeExpression eo w = Inr (c, w1)" "timelineFirstFrame tm w1 = Inr ((n, tm'), w2)"
      "constrainWhen n c w2 = Inr w'"
      using r by (auto simp: initialFrameFormula_def bindE_Inr_iff)
    obtain e where e: "eo = Some e" "\<forall>base. computes w w1 c (\<lambda>s. eval (envWith nodes base s) e)"
      using expression_computes [OF l v(1)] by blast
    have a: "adds w w1 noView" using e(2) computesD(1) by blast
    obtain C N tick F where t: "firstTest tm (length (bodies w1)) C N tick F" "adds w1 w2 C" "computes w2 w2 n F"
      using timelineFirstFrame_test(1) [OF timelineOk_adds [OF ok a] adds_inv [OF a] v(2)] by blast
    have "length (bodies w) \<le> length (bodies w1)" using a by (auto simp: adds_def wrote_def)
    then have low: "firstTest tm (length (bodies w)) C N tick F" using t(1) by (fastforce simp: firstTest_def)
    have "adds w w' (joinView C (legalView (\<lambda>s. F s \<longrightarrow> eval (envWith nodes base s) e)))" for base
    proof -
      have c: "computes w w1 c (\<lambda>s. eval (envWith nodes base s) e)" using e(2) by blast
      have "adds w2 w' (legalView (\<lambda>s. F s \<longrightarrow> eval (envWith nodes base s) e))"
        by (rule constrainWhen_adds [OF t(3) computes_adds [OF c t(2)] v(3)])
      from adds_given [OF a adds_trans [OF t(2) this]] show ?thesis .
    qed
    then show ?thesis using low e(1) timelineFirstFrame_test(2) [OF timelineOk_adds [OF ok a] adds_inv [OF a] v(2)] by blast
  qed
  then show "\<exists>e C N tick F. eo = Some e \<and> firstTest tm (length (bodies w)) C N tick F \<and>
    (\<forall>base. adds w w' (joinView C (legalView (\<lambda>s. F s \<longrightarrow> eval (envWith nodes base s) e))))" "tl_bits tm' = tl_bits tm"
    by simp_all
qed

end
