(* ===== verification/Btor2_Frames.thy ===== *)
theory Btor2_Frames
  imports Btor2_Startup
begin

text \<open>
  The constraints of the startup at their frames: the initial values, the reset prefix, the
  observation of the property and the bad frames, as views over the symbols and the count.
\<close>

section \<open>Initial values\<close>

definition startsWith :: "problem \<Rightarrow> (var_id \<Rightarrow> bool) \<Rightarrow> bool" where
  "startsWith p env = (exportInitializes p \<and> (exportResetFrames p \<noteq> 0 \<or> pb_initialCondition p \<noteq> None) \<longrightarrow>
     assignsOn UNIV (pb_initialStateAssignments p) env)"

definition firstHolds :: "problem \<Rightarrow> (var_id \<Rightarrow> bool) \<Rightarrow> bool" where
  "firstHolds p env = (exportInitializes p \<and> exportResetFrames p = 0 \<and> pb_initialStateAssignments p = [] \<longrightarrow>
     (\<forall>e. pb_initialCondition p = Some e \<longrightarrow> eval env e))"

text \<open>A clock above the given lines, there only when the timeline has no bits, and a constraint on
  the first frame.\<close>

definition firstClock :: "nat list \<Rightarrow> nat \<Rightarrow> view \<Rightarrow> nat set \<Rightarrow> (nat \<Rightarrow> nat \<Rightarrow> bool) \<Rightarrow> bool" where
  "firstClock bits low C N tick = (clock C N tick \<and> (\<forall>n \<in> N. low < n) \<and> (bits \<noteq> [] \<longrightarrow> C = noView \<and> N = {}))"

definition atFirst :: "nat list \<Rightarrow> nat set \<Rightarrow> (nat \<Rightarrow> nat \<Rightarrow> bool) \<Rightarrow> ((nat \<Rightarrow> bool) \<Rightarrow> 'e \<Rightarrow> bool) \<Rightarrow> ('e \<Rightarrow> bool) \<Rightarrow> bool" where
  "atFirst bits N tick G P = (\<forall>f s env. onTime tick N f s \<longrightarrow> (bits \<noteq> [] \<longrightarrow> (bitsNumber s bits = 0) = (f = 0)) \<longrightarrow>
     G s env = (f = 0 \<longrightarrow> P env))"

lemma firstTest_clock:
  assumes "firstTest tm low C N tick F"
  shows "firstClock (tl_bits tm) low C N tick" "atFirst (tl_bits tm) N tick (\<lambda>s env. F s \<longrightarrow> P env) P"
  using assms by (auto simp: firstTest_def firstClock_def atFirst_def split: if_splits)

lemma firstClock_none: "firstClock bits low noView {} tick"
  using clock_none by (simp add: firstClock_def)

lemma exportInitial_view:
  assumes ok: "timelineOk tm w" and l: "leavesOf nodes w"
    and r: "exportInitial frameFirst p (nodeForState states nodes) tm w = Inr (tm', w')"
  shows "\<exists>C N tick G. firstClock (tl_bits tm) (length (bodies w)) C N tick \<and> atFirst (tl_bits tm) N tick G (firstHolds p) \<and>
    (\<forall>base. adds w w' (joinView C (joinView (startView (\<lambda>s. startsWith p (envWith nodes base s)))
       (legalView (\<lambda>s. G s (envWith nodes base s))))))" (is "\<exists>C N tick G. ?ok C N tick G \<and> ?at N tick G \<and> ?view C G")
    and "tl_bits tm' = tl_bits tm"
proof -
  have inv: "btorInv w" using l by (simp add: leavesOf_def)
  let ?xs = "pb_initialStateAssignments p"
  let ?goal = "(\<exists>C N tick G. ?ok C N tick G \<and> ?at N tick G \<and> ?view C G) \<and> tl_bits tm' = tl_bits tm"
  have plain: ?goal if "tl_bits tm' = tl_bits tm" "\<forall>env. firstHolds p env"
    "\<forall>base. adds w w' (startView (\<lambda>s. startsWith p (envWith nodes base s)))"
  proof -
    have "atFirst (tl_bits tm) {} (\<lambda>f n. False) (\<lambda>s env. True) (firstHolds p)" using that(2) by (simp add: atFirst_def)
    then show ?thesis using firstClock_none that by fastforce
  qed
  consider (assign) "exportInitializes p" "exportResetFrames p \<noteq> 0 \<or> pb_initialCondition p \<noteq> None" "?xs \<noteq> []"
    | (formula) "exportInitializes p" "pb_initialCondition p \<noteq> None" "?xs = []" "exportResetFrames p = 0" "pb_initialCondition p \<noteq> Some createTrue"
    | (skipped) "\<not> (exportInitializes p \<and> (exportResetFrames p \<noteq> 0 \<or> pb_initialCondition p \<noteq> None)) \<or>
        ?xs = [] \<and> \<not> (exportResetFrames p = 0 \<and> pb_initialCondition p \<noteq> Some createTrue)"
    by argo
  then have ?goal
  proof cases
    case assign
    then obtain vals where v: "foldE initialValue ?xs [] = Inr vals"
      "foldE (initState (nodeForState states nodes)) vals w = Inr w'" "tm' = tm"
      using r by (auto simp: exportInitial_def bindE_Inr_iff)
    show ?thesis
      by (rule plain) (use initStates_view [OF v(1,2) l] assign v(3) in \<open>simp_all add: startsWith_def firstHolds_def\<close>)
  next
    case formula
    then have "initialFrameFormula frameFirst (pb_initialCondition p) tm w = Inr (tm', w')" using r by (simp add: exportInitial_def)
    from initialFrame_view [OF ok l this] obtain e C N tick F where e: "pb_initialCondition p = Some e"
      "firstTest tm (length (bodies w)) C N tick F" "tl_bits tm' = tl_bits tm"
      "\<And>base. adds w w' (joinView C (legalView (\<lambda>s. F s \<longrightarrow> eval (envWith nodes base s) e)))" by blast
    have "firstHolds p = (\<lambda>env. eval env e)" "startsWith p = (\<lambda>env. True)"
      using formula e(1) by (auto simp: firstHolds_def startsWith_def assignsOn_def)
    then have "?ok C N tick (\<lambda>s env. F s \<longrightarrow> eval env e) \<and> ?at N tick (\<lambda>s env. F s \<longrightarrow> eval env e) \<and> ?view C (\<lambda>s env. F s \<longrightarrow> eval env e)"
      using firstTest_clock(1) [OF e(2)] firstTest_clock(2) [OF e(2), of "\<lambda>env. eval env e"] e(4) by simp
    then show ?thesis using e(3) by blast
  next
    case skipped
    then have "w' = w \<and> tm' = tm" using r by (auto simp: exportInitial_def split: if_splits)
    moreover have "startsWith p env" for env
    proof (cases "?xs = []")
      case False
      then have "\<not> (exportInitializes p \<and> (exportResetFrames p \<noteq> 0 \<or> pb_initialCondition p \<noteq> None))" using skipped by argo
      then show ?thesis unfolding startsWith_def by argo
    qed (simp add: startsWith_def assignsOn_def)
    moreover have "firstHolds p env" for env
      unfolding firstHolds_def using skipped by auto
    ultimately show ?thesis by (intro plain) (use adds_refl [OF inv] in simp_all)
  qed
  then show "\<exists>C N tick G. ?ok C N tick G \<and> ?at N tick G \<and> ?view C G" "tl_bits tm' = tl_bits tm" by simp_all
qed

section \<open>The reset prefix\<close>

definition resetHolds :: "problem \<Rightarrow> nat \<Rightarrow> (var_id \<Rightarrow> bool) \<Rightarrow> bool" where
  "resetHolds p c env = (exportResetFrames p \<noteq> 0 \<longrightarrow>
     (\<forall>(x, v) \<in> set (pb_resetBootstrapInputs p). env x = (v = (c < exportResetFrames p))) \<and>
     (c = exportResetFrames p \<longrightarrow> resetObservation p \<longrightarrow> eval env (the (pb_property p))) \<and>
     (c = exportResetFrames p \<longrightarrow> \<not> pb_usesDualRailStateEncoding p \<longrightarrow> assignsOn UNIV (pb_bootstrapStateAssignments p) env))"

lemma resetInput_view:
  assumes l: "leavesOf nodes w" and a: "computes w w active g" and r: "resetInput inputs nodes active xv w = Inr w'"
  shows "adds w w' (legalView (\<lambda>s. envWith nodes base s (fst xv) = (snd xv = g s)))"
proof -
  obtain n v w1 m w2 q where v: "nodes (fst xv) = Some n" "(if snd xv then Inr (active, w) else logicalNot active w) = Inr (v, w1)"
    "binaryNode GateEq n v w1 = Inr (m, w2)" "writeConstraint m w2 = Inr (q, w')"
    using r by (auto simp: resetInput_def gate_defs bindE_Inr_iff atE_def split: if_splits option.splits)
  have 1: "computes w w1 v (\<lambda>s. snd xv = g s)"
    using not_computes [OF a, of v w1] a v(2) by (cases "snd xv") simp_all
  have 2: "computes w w2 m (\<lambda>s. envWith nodes base s (fst xv) = (snd xv = g s))"
    using gate_computes [OF computes_keep [OF symbol_computes [OF l v(1)] computesD(1) [OF 1]] 1 v(3)] by simp
  show ?thesis by (rule adds_given [OF computesD(1) [OF 2] computes_writeConstraint [OF 2 v(4)]])
qed

lemma bootstrapState_view:
  assumes l: "leavesOf nodes w" and a: "computes w w frontier g" and r: "bootstrapState (nodeForState states nodes) frontier xv w = Inr w'"
  shows "adds w w' (legalView (\<lambda>s. g s \<longrightarrow> envWith nodes base s (fst xv) = snd xv))"
proof -
  obtain n v w1 where v: "nodes (fst xv) = Some n" "(if snd xv then Inr (n, w) else logicalNot n w) = Inr (v, w1)"
    "constrainWhen frontier v w1 = Inr w'"
    using r by (auto simp: bootstrapState_def bindE_Inr_iff nodeForState_Inr)
  have 1: "computes w w1 v (\<lambda>s. envWith nodes base s (fst xv) = snd xv)"
    using not_computes [OF symbol_computes [OF l v(1)], of v w1] symbol_computes [OF l v(1)] v(2) by (cases "snd xv") simp_all
  have "adds w1 w' (legalView (\<lambda>s. g s \<longrightarrow> envWith nodes base s (fst xv) = snd xv))"
    by (rule constrainWhen_adds [OF computes_refl [OF computes_keep [OF a computesD(1) [OF 1]]] computes_refl [OF 1] v(3)])
  then show ?thesis by (rule adds_given [OF computesD(1) [OF 1]])
qed

text \<open>A loop over leaves that also reads a node written before it.\<close>

lemma leaves_fold_with:
  assumes "foldE f xs w = Inr w'" "leavesOf nodes w" "computes w w a g"
    and "\<And>x v v'. x \<in> set xs \<Longrightarrow> leavesOf nodes v \<Longrightarrow> computes v v a g \<Longrightarrow> f x v = Inr v' \<Longrightarrow> adds v v' (V x)"
  shows "adds w w' (joinViews V xs)"
proof -
  have "(leavesOf nodes w' \<and> computes w' w' a g) \<and> adds w w' (joinViews V xs)"
    by (rule foldE_adds [where J = "\<lambda>v. leavesOf nodes v \<and> computes v v a g", OF assms(1)])
      (use assms(2-) leavesOf_adds computes_adds leavesOf_def in blast)+
  then show ?thesis by simp
qed

lemma exportReset_view:
  assumes l: "leavesOf nodes w" and t: "timelineOk tm w" and size: "exportResetFrames p < 2 ^ length (tl_bits tm)"
    and asked: "pb_property p = Some q" "computes w w property (\<lambda>s. eval (envWith nodes base s) q)"
    and r: "exportReset p inputs nodes (nodeForState states nodes) (tl_bits tm) property w = Inr w'"
  shows "adds w w' (legalView (\<lambda>s. resetHolds p (bitsNumber s (tl_bits tm)) (envWith nodes base s)))"
proof (cases "exportResetFrames p = 0")
  case True
  then show ?thesis using r adds_refl l by (simp add: exportReset_def resetHolds_def leavesOf_def)
next
  case False
  let ?R = "exportResetFrames p" and ?bits = "tl_bits tm" and ?env = "envWith nodes base"
  have bits: "\<forall>b \<in> set ?bits. leafAt (bodies v) b" if "adds w v u" for v u
    using timelineOk_adds [OF t that] stateAt_leaf by (auto simp: timelineOk_def split: if_splits)
  have inv: "btorInv w" using l by (simp add: leavesOf_def)
  obtain active w1 w2 frontier w3 w4 where v: "timelineBefore ?bits ?R w = Inr (active, w1)"
    "foldE (resetInput inputs nodes active) (pb_resetBootstrapInputs p) w1 = Inr w2"
    "timelineAt ?bits ?R w2 = Inr (frontier, w3)"
    "(if resetObservation p then constrainWhen frontier property w3 else Inr w3) = Inr w4"
    "(if pb_usesDualRailStateEncoding p then Inr w4
      else foldE (bootstrapState (nodeForState states nodes) frontier) (pb_bootstrapStateAssignments p) w4) = Inr w'"
    using r False by (auto simp: exportReset_def bindE_Inr_iff)
  have 1: "computes w w1 active (\<lambda>s. bitsNumber s ?bits < ?R)"
    by (rule timelineBefore_computes [OF inv v(1) bits [OF adds_refl [OF inv]] size])
  note l1 = leavesOf_computes [OF l 1]
  have 2: "adds w1 w2 (legalView (\<lambda>s. \<forall>xv \<in> set (pb_resetBootstrapInputs p). ?env s (fst xv) = (snd xv = (bitsNumber s ?bits < ?R))))"
    using leaves_fold_with [OF v(2) l1 computes_refl [OF 1] resetInput_view] by (simp add: joinViews_kinds)
  note a2 = adds_given [OF computesD(1) [OF 1] 2]
  have 3: "computes w2 w3 frontier (\<lambda>s. bitsNumber s ?bits = ?R)"
    by (rule timelineAt_computes [OF adds_inv [OF a2] v(3) bits [OF a2] size])
  have p3: "computes w3 w3 property (\<lambda>s. eval (?env s) q)"
    by (rule computes_adds [OF computes_adds [OF asked(2) a2] computesD(1) [OF 3]])
  have 4: "adds w3 w4 (legalView (\<lambda>s. bitsNumber s ?bits = ?R \<longrightarrow> resetObservation p \<longrightarrow> eval (?env s) q))"
  proof (cases "resetObservation p")
    case True
    then show ?thesis using constrainWhen_adds [OF computes_refl [OF 3] p3] v(4) by simp
  next
    case False
    then show ?thesis using v(4) adds_refl [OF computesD(4) [OF 3]] by simp
  qed
  note l4 = leavesOf_adds [OF leavesOf_adds [OF leavesOf_adds [OF l a2] computesD(1) [OF 3]] 4]
  have 5: "adds w4 w' (legalView (\<lambda>s. bitsNumber s ?bits = ?R \<longrightarrow> \<not> pb_usesDualRailStateEncoding p \<longrightarrow>
      assignsOn UNIV (pb_bootstrapStateAssignments p) (?env s)))"
  proof (cases "pb_usesDualRailStateEncoding p")
    case True
    then show ?thesis using v(5) adds_refl [OF adds_inv [OF 4]] by simp
  next
    case False
    then have f: "foldE (bootstrapState (nodeForState states nodes) frontier) (pb_bootstrapStateAssignments p) w4 = Inr w'"
      using v(5) by simp
    have "adds w4 w' (joinViews (\<lambda>xv. legalView (\<lambda>s. bitsNumber s ?bits = ?R \<longrightarrow> ?env s (fst xv) = snd xv)) (pb_bootstrapStateAssignments p))"
      by (rule leaves_fold_with [OF f l4 computes_adds [OF computes_refl [OF 3] 4]]) (rule bootstrapState_view)
    then have "adds w4 w' (legalView (\<lambda>s. \<forall>xv \<in> set (pb_bootstrapStateAssignments p). bitsNumber s ?bits = ?R \<longrightarrow> ?env s (fst xv) = snd xv))"
      unfolding joinViews_kinds .
    moreover have "(\<forall>xv \<in> set xs. c \<longrightarrow> env (fst xv) = snd xv) = (c \<longrightarrow> assignsOn UNIV xs env)" for c env and xs :: "(var_id \<times> bool) list"
      by (auto simp: assignsOn_def)
    ultimately show ?thesis using False by simp
  qed
  have "resetHolds p = (\<lambda>c env. (\<forall>xv \<in> set (pb_resetBootstrapInputs p). env (fst xv) = (snd xv = (c < ?R))) \<and>
      (c = ?R \<longrightarrow> resetObservation p \<longrightarrow> eval env q) \<and>
      (c = ?R \<longrightarrow> \<not> pb_usesDualRailStateEncoding p \<longrightarrow> assignsOn UNIV (pb_bootstrapStateAssignments p) env))"
    using False asked(1) by (intro ext) (auto simp: resetHolds_def)
  then show ?thesis
    using adds_trans [OF a2 adds_given [OF computesD(1) [OF 3] adds_trans [OF 4 5]]] by (simp add: joinView_same)
qed

section \<open>The bad frames\<close>

lemma exportBad_view:
  assumes l: "leavesOf nodes w" and t: "timelineOk tm w" and size: "firstBadFrame p < 2 ^ length (tl_bits tm)"
    and r: "exportBad p (tl_bits tm) w = Inr w'"
  shows "\<exists>e. pb_bad p = Some e \<and> (\<forall>base. adds w w' (badView (\<lambda>s. firstBadFrame p \<le> bitsNumber s (tl_bits tm) \<and> eval (envWith nodes base s) e)))"
proof -
  let ?bits = "tl_bits tm"
  obtain c w1 d w2 q where v: "writeExpression (pb_bad p) w = Inr (c, w1)"
    "(if firstBadFrame p \<noteq> 0
      then bindE (timelineBefore ?bits (firstBadFrame p) w1) (\<lambda>(early, w). bindE (logicalNot early w) (\<lambda>(n, w). logicalAnd n c w))
      else Inr (c, w1)) = Inr (d, w2)"
    "writeBad d ''equivalence_mismatch'' w2 = Inr (q, w')"
    using r by (auto simp: exportBad_def bindE_Inr_iff)
  obtain e where e: "pb_bad p = Some e" "\<And>base. computes w w1 c (\<lambda>s. eval (envWith nodes base s) e)"
    using expression_computes [OF l v(1)] by blast
  have inv1: "btorInv w1" by (rule computesD(4) [OF e(2)])
  have bits: "\<forall>b \<in> set ?bits. leafAt (bodies w1) b"
    using timelineOk_adds [OF t computesD(1) [OF e(2)]] stateAt_leaf by (auto simp: timelineOk_def split: if_splits)
  have "computes w w2 d (\<lambda>s. firstBadFrame p \<le> bitsNumber s ?bits \<and> eval (envWith nodes base s) e)" for base
  proof (cases "firstBadFrame p = 0")
    case True
    then show ?thesis using v(2) e(2) by simp
  next
    case False
    then obtain early w3 n w4 where b: "timelineBefore ?bits (firstBadFrame p) w1 = Inr (early, w3)" "logicalNot early w3 = Inr (n, w4)"
      "binaryNode GateAnd n c w4 = Inr (d, w2)"
      using v(2) by (auto simp: bindE_Inr_iff gate_defs)
    have 1: "computes w1 w4 n (\<lambda>s. \<not> bitsNumber s ?bits < firstBadFrame p)"
      by (rule not_computes [OF timelineBefore_computes [OF inv1 b(1) bits size] b(2)])
    from gate_computes [OF computes_after [OF computesD(1) [OF e(2)] 1] computes_keep [OF e(2) computesD(1) [OF 1]] b(3)]
    show ?thesis by (simp add: not_less)
  qed
  then have "adds w w' (badView (\<lambda>s. firstBadFrame p \<le> bitsNumber s ?bits \<and> eval (envWith nodes base s) e))" for base
    using adds_given [OF computesD(1) computes_writeBad [OF _ v(3)]] by blast
  then show ?thesis using e(1) by blast
qed

end
