(* ===== verification/Btor2_Export_Correct.thy ===== *)
theory Btor2_Export_Correct
  imports Btor2_Frames KI_Unvalidated
begin

text \<open>
  The exported system: its runs are the runs of the problem that the export describes, and a bad
  frame of a run is a bad frame of the problem from the first checked one on.
\<close>

section \<open>The startup as a whole\<close>

definition exportFrameOk :: "problem \<Rightarrow> nat \<Rightarrow> (var_id \<Rightarrow> bool) \<Rightarrow> bool" where
  "exportFrameOk p f env = ((f = 0 \<longrightarrow> firstHolds p env) \<and> (f = 0 \<longrightarrow> initialObservation p \<longrightarrow> eval env (the (pb_property p))) \<and>
     resetHolds p f env)"

definition badFrame :: "problem \<Rightarrow> nat \<Rightarrow> (var_id \<Rightarrow> bool) \<Rightarrow> bool" where
  "badFrame p f env = (firstBadFrame p \<le> f \<and> eval env (the (pb_bad p)))"

lemma timelineEnd_frames:
  "firstBadFrame p \<le> timelineEnd p" "exportResetFrames p \<le> timelineEnd p"
  "exportResetFrames p \<noteq> 0 \<Longrightarrow> exportResetFrames p < timelineEnd p"
  "initialObservation p \<Longrightarrow> timelineEnd p \<noteq> 0"
  by (auto simp: timelineEnd_def firstBadFrame_def initialObservation_def)

lemma resetHolds_count: "resetHolds p (min f (timelineEnd p)) env = resetHolds p f env"
  using timelineEnd_frames(3) [of p] by (auto simp: resetHolds_def min_def)

lemma timeline_clock:
  assumes "distinct bits" "length bits = bitWidth L"
  shows "\<exists>tick. clock (if L = 0 then noView else counterView bits L) (set bits) tick \<and>
    (\<forall>f s. onTime tick (set bits) f s \<longrightarrow> bitsNumber s bits = min f L)"
proof (cases "L = 0")
  case True
  then have "bits = []" using assms(2) by simp
  then show ?thesis using True clock_none by auto
next
  case False
  then show ?thesis using counter_clock [OF assms(1), of L] bitWidth_bound assms(2) by simp
qed

lemma observation_view:
  assumes ok: "timelineOk tm w" and bits: "initialObservation p \<Longrightarrow> tl_bits tm \<noteq> []"
    and q: "computes w w property g"
    and r: "(if initialObservation p
      then bindE (timelineFirstFrame tm w) (\<lambda>((when, tm), w). bindE (constrainWhen when property w) (\<lambda>w. Inr (tm, w)))
      else Inr (tm, w)) = Inr (tm', w')"
  shows "adds w w' (legalView (\<lambda>s. initialObservation p \<longrightarrow> bitsNumber s (tl_bits tm) = 0 \<longrightarrow> g s))" "tl_bits tm' = tl_bits tm"
proof -
  have inv: "btorInv w" by (rule computesD(4) [OF q])
  have "adds w w' (legalView (\<lambda>s. initialObservation p \<longrightarrow> bitsNumber s (tl_bits tm) = 0 \<longrightarrow> g s)) \<and> tl_bits tm' = tl_bits tm"
  proof (cases "initialObservation p")
    case True
    then obtain n tm1 w1 where v: "timelineFirstFrame tm w = Inr ((n, tm1), w1)" "constrainWhen n property w1 = Inr w'" "tm' = tm1"
      using r by (auto simp: bindE_Inr_iff)
    have "\<forall>b \<in> set (tl_bits tm). stateAt (bodies w) b" using ok bits [OF True] by (simp add: timelineOk_def)
    note t = timelineFirstFrame_bits [OF inv v(1) bits [OF True] this]
    have "adds w1 w' (legalView (\<lambda>s. bitsNumber s (tl_bits tm) = 0 \<longrightarrow> g s))"
      by (rule constrainWhen_adds [OF computes_refl [OF t(1)] computes_adds [OF q computesD(1) [OF t(1)]] v(2)])
    then show ?thesis using adds_given [OF computesD(1) [OF t(1)]] True v(3) t(2) by simp
  next
    case False
    then show ?thesis using r adds_refl [OF inv] by simp
  qed
  then show "adds w w' (legalView (\<lambda>s. initialObservation p \<longrightarrow> bitsNumber s (tl_bits tm) = 0 \<longrightarrow> g s))" "tl_bits tm' = tl_bits tm"
    by simp_all
qed

lemma startup_parts:
  "joinView C (joinView (joinView (joinView D (joinView S (legalView (\<lambda>s. G s)))) (legalView (\<lambda>s. H s)))
     (joinView (legalView (\<lambda>s. R s)) B)) =
   joinView (joinView C D) (joinView S (joinView (legalView (\<lambda>s. G s \<and> H s \<and> R s)) B))"
  by (simp add: joinView_def legalView_def noView_def conj_assoc disj_assoc)

lemma exportStartup_view:
  assumes l: "leavesOf nodes w"
    and r: "exportStartup frameFirst p inputs nodes (nodeForState states nodes) w = Inr W"
  shows "\<exists>C N tick G B. clock C N tick \<and> (\<forall>n \<in> N. length (bodies w) < n) \<and>
    (\<forall>f s env. onTime tick N f s \<longrightarrow> G s env = exportFrameOk p f env \<and> B s env = badFrame p f env) \<and>
    (\<forall>base. adds w W (joinView C (joinView (startView (\<lambda>s. startsWith p (envWith nodes base s)))
      (joinView (legalView (\<lambda>s. G s (envWith nodes base s))) (badView (\<lambda>s. B s (envWith nodes base s)))))))"
proof -
  let ?L = "timelineEnd p" and ?env = "envWith nodes" and ?R = "exportResetFrames p"
  have inv: "btorInv w" using l by (simp add: leavesOf_def)
  obtain tm w1 tm2 w2 property w3 tm4 w4 w5 where v: "newTimeline ?L w = Inr (tm, w1)"
    "exportInitial frameFirst p (nodeForState states nodes) tm w1 = Inr (tm2, w2)"
    "writeExpression (pb_property p) w2 = Inr (property, w3)"
    "(if initialObservation p
      then bindE (timelineFirstFrame tm2 w3) (\<lambda>((when, tm), w). bindE (constrainWhen when property w) (\<lambda>w. Inr (tm, w)))
      else Inr (tm2, w3)) = Inr (tm4, w4)"
    "exportReset p inputs nodes (nodeForState states nodes) (tl_bits tm4) property w4 = Inr w5"
    "exportBad p (tl_bits tm4) w5 = Inr W"
    using r unfolding exportStartup_def by (auto simp: bindE_Inr_iff)
  let ?bits = "tl_bits tm" and ?C1 = "if ?L = 0 then noView else counterView (tl_bits tm) ?L"
  note t = newTimeline_adds [OF inv v(1)]
  have small: "n < 2 ^ length ?bits" if "n \<le> ?L" for n using bitWidth_bound [of ?L] t(2) that by simp
  obtain tick1 where tick1: "clock ?C1 (set ?bits) tick1"
    "\<And>f s. onTime tick1 (set ?bits) f s \<Longrightarrow> bitsNumber s ?bits = min f ?L"
    using timeline_clock [OF t(4,2)] by blast
  have ok1: "timelineOk tm w1" using t(3,5) by (simp add: timelineOk_def)
  have l1: "leavesOf nodes w1" by (rule leavesOf_adds [OF l t(1)])
  obtain C2 N2 tick2 G where i: "firstClock ?bits (length (bodies w1)) C2 N2 tick2" "atFirst ?bits N2 tick2 G (firstHolds p)"
    and iv: "\<And>base. adds w1 w2 (joinView C2 (joinView (startView (\<lambda>s. startsWith p (?env base s))) (legalView (\<lambda>s. G s (?env base s)))))"
    using exportInitial_view(1) [OF ok1 l1 v(2)] by blast
  have b2: "tl_bits tm2 = ?bits" by (rule exportInitial_view(2) [OF ok1 l1 v(2)])
  have l2: "leavesOf nodes w2" by (rule leavesOf_adds [OF l1 iv])
  obtain q where q: "pb_property p = Some q" "\<And>base. computes w2 w3 property (\<lambda>s. eval (?env base s) q)"
    using expression_computes [OF l2 v(3)] by blast
  have l3: "leavesOf nodes w3" by (rule leavesOf_computes [OF l2 q(2)])
  have bits: "\<forall>b \<in> set ?bits. stateAt (bodies u) b" if "adds w1 u a" for u a using t(5) adds_state [OF that] by blast
  have ok: "timelineOk tm u" if "adds w1 u a" for u a by (rule timelineOk_adds [OF ok1 that])
  have ok3: "timelineOk tm2 w3" if "initialObservation p"
    using bits [OF adds_then_given [OF iv computesD(1) [OF q(2)]]] b2 timelineEnd_frames(4) [OF that] t(2) by (auto simp: timelineOk_def)
  have nonempty: "initialObservation p \<Longrightarrow> ?bits \<noteq> []" using timelineEnd_frames(4) [of p] t(2) by auto
  have o: "adds w3 w4 (legalView (\<lambda>s. initialObservation p \<longrightarrow> bitsNumber s ?bits = 0 \<longrightarrow> eval (?env base s) q)) \<and> tl_bits tm4 = ?bits" for base
  proof (cases "initialObservation p")
    case True
    show ?thesis using observation_view [OF ok3 [OF True] _ computes_refl [OF q(2)] v(4)] nonempty b2 by simp
  next
    case False
    then show ?thesis using v(4) b2 adds_refl [OF computesD(4) [OF q(2)]] by simp
  qed
  have l4: "leavesOf nodes w4" by (rule leavesOf_adds [OF l3 conjunct1 [OF o]])
  have a4: "adds w1 w4 (joinView (joinView C2 (joinView (startView (\<lambda>s. startsWith p (?env base s))) (legalView (\<lambda>s. G s (?env base s)))))
      (legalView (\<lambda>s. initialObservation p \<longrightarrow> bitsNumber s ?bits = 0 \<longrightarrow> eval (?env base s) q)))" for base
    by (rule adds_trans [OF iv adds_given [OF computesD(1) [OF q(2)] conjunct1 [OF o]]])
  have b4: "tl_bits tm4 = ?bits" using o by blast
  have rv: "adds w4 w5 (legalView (\<lambda>s. resetHolds p (bitsNumber s ?bits) (?env base s)))" for base
    by (rule exportReset_view [OF l4 ok [OF a4] small [OF timelineEnd_frames(2)] q(1)
          computes_adds [OF q(2) conjunct1 [OF o]] v(5) [unfolded b4]])
  have l5: "leavesOf nodes w5" by (rule leavesOf_adds [OF l4 rv])
  obtain e where e: "pb_bad p = Some e" "\<And>base. adds w5 W (badView (\<lambda>s. firstBadFrame p \<le> bitsNumber s ?bits \<and> eval (?env base s) e))"
    using exportBad_view [OF l5 ok [OF adds_trans [OF a4 rv]] small [OF timelineEnd_frames(1)] v(6) [unfolded b4]] by blast
  let ?C = "joinView ?C1 C2" and ?N = "set ?bits \<union> N2" and ?tick = "\<lambda>f n. if n \<in> set ?bits then tick1 f n else tick2 f n"
  let ?G = "\<lambda>s env. G s env \<and> (initialObservation p \<longrightarrow> bitsNumber s ?bits = 0 \<longrightarrow> eval env q) \<and> resetHolds p (bitsNumber s ?bits) env"
  let ?B = "\<lambda>s env. firstBadFrame p \<le> bitsNumber s ?bits \<and> eval env e"
  have low: "length (bodies w) \<le> length (bodies w1)" using t(1) by (auto simp: adds_def wrote_def)
  have apart: "set ?bits \<inter> N2 = {}" using t(5) i(1) by (fastforce simp: firstClock_def stateAt_def)
  have clock: "clock ?C ?N ?tick" by (rule clock_join [OF tick1(1) _ apart]) (use i(1) in \<open>simp add: firstClock_def\<close>)
  have above: "\<forall>n \<in> ?N. length (bodies w) < n" using t(5) i(1) low by (fastforce simp: firstClock_def)
  have means: "?G s env = exportFrameOk p f env \<and> ?B s env = badFrame p f env" if s: "onTime ?tick ?N f s" for f s env
  proof -
    have c: "bitsNumber s ?bits = min f ?L" by (rule tick1(2)) (use s in \<open>simp add: onTime_def\<close>)
    have on: "onTime tick2 N2 f s" using s apart by (auto simp: onTime_def)
    have "?L = 0 \<Longrightarrow> ?bits = []" using t(2) by simp
    then have "(bitsNumber s ?bits = 0) = (f = 0)" if "?bits \<noteq> []" using that unfolding c by (auto simp: min_def)
    then have "G s env = (f = 0 \<longrightarrow> firstHolds p env)" by (rule i(2) [unfolded atFirst_def, rule_format, OF on])
    moreover have "initialObservation p \<longrightarrow> (min f ?L = 0) = (f = 0)" using timelineEnd_frames(4) by (auto simp: min_def)
    moreover have "(firstBadFrame p \<le> min f ?L) = (firstBadFrame p \<le> f)" using timelineEnd_frames(1) [of p] by simp
    ultimately show ?thesis unfolding c resetHolds_count exportFrameOk_def badFrame_def q(1) e(1) option.sel by argo
  qed
  have "adds w W (joinView ?C (joinView (startView (\<lambda>s. startsWith p (?env base s)))
      (joinView (legalView (\<lambda>s. ?G s (?env base s))) (badView (\<lambda>s. ?B s (?env base s))))))" for base
    using adds_trans [OF t(1) adds_trans [OF a4 adds_trans [OF rv e(2)]], of base base base] unfolding startup_parts .
  note view = this
  show ?thesis
    by (rule exI [of _ ?C], rule exI [of _ ?N], rule exI [of _ ?tick], rule exI [of _ ?G], rule exI [of _ ?B], intro conjI)
      (rule clock, rule above, intro allI impI, rule means, assumption, intro allI, rule view)
qed

section \<open>The exported system\<close>

lemma newBtor2Writer_ok:
  assumes "newBtor2Writer accepts = Inr w"
  shows "btorInv w" "bw_variables w = Map.empty" "directives w = []"
proof -
  let ?w = "\<lparr> bw_accepts = accepts, bw_out = [], bw_nodes = [OtherNode],
      bw_dependsOnInput = [False], bw_constants = (\<lambda>_. 0), bw_variables = Map.empty,
      bw_expressions = Map.empty, bw_initialized = {}, bw_transitioned = {} \<rparr> :: btor_writer"
  obtain n where e: "emit SortLine OtherNode ?w = Inr (n, w)" using assms by (auto simp: newBtor2Writer_def bindE_Inr_iff)
  note l = emit_Inr [OF e]
  have b: "bodies ?w = []" by (simp add: bodies_def List.map_filter_def)
  have inv: "btorInv ?w"
    by (simp add: btorInv_def b kinds_def inputFlags_def numbered_def fileOk_def relatedStates_def List.map_filter_def)
  have "wrote ?w w (filter isDirective [SortLine]) \<and> bodies w = bodies ?w @ [SortLine]"
    by (rule append_line [OF inv]) (simp_all add: l b relatedStates_def)
  then show "btorInv w" "bw_variables w = Map.empty" "directives w = []"
    using l(6) b by (simp_all add: wrote_def directives_def)
qed

lemma declared_constant:
  assumes "declared nodes w" "writeConstant b w = Inr (n, w')"
  shows "declared nodes w'"
proof -
  have inv: "btorInv w" using assms(1) by (simp add: declared_def leavesOf_def)
  have g: "givesNode w w' n (\<lambda>s. b)" by (rule writeConstant_ok [OF inv assms(2)])
  have "directives w' = []" using givesNodeD(1) [OF g] assms(1) by (simp add: wrote_def declared_def)
  then show ?thesis using assms(1) leavesOf_adds [OF _ givesNode_adds [OF g]] by (simp add: declared_def)
qed

lemma declared_comment:
  assumes "declared nodes w" "writeComment msg w = Inr w'"
  shows "declared nodes w'"
proof -
  have inv: "btorInv w" using assms(1) by (simp add: declared_def leavesOf_def)
  show ?thesis
    using assms(1) leavesOf_adds [OF _ writeComment_adds [OF inv assms(2)]] writeComment_ok(2) [OF inv assms(2)]
    by (simp add: declared_def directives_def)
qed

text \<open>The runs that the file describes, over all symbols.\<close>

definition exportRun :: "problem \<Rightarrow> nat \<Rightarrow> (nat \<Rightarrow> var_id \<Rightarrow> bool) \<Rightarrow> bool" where
  "exportRun p K envs = (startsWith p (envs 0) \<and> (\<forall>f \<le> K. relationsOn UNIV p (envs f) \<and> exportFrameOk p f (envs f)) \<and>
     (\<forall>f < K. \<forall>x \<in> stateSymbolSet p. resolverContains x (newResolver p) \<longrightarrow>
        targetHolds (newResolver p) x (envs f) (envs (Suc f))))"

definition exportSteps :: "problem \<Rightarrow> (var_id \<Rightarrow> bool) \<Rightarrow> (var_id \<Rightarrow> bool) \<Rightarrow> bool" where
  "exportSteps p env env' = (\<forall>x \<in> stateSymbolSet p. nextHolds p x env env')"

lemma export_view:
  assumes r: "exportSecBtor2 frameFirst p md accepts = Inr W" and inv: "resolverInv (newResolver p)"
  shows "\<exists>nodes C N tick G B. btorInv W \<and> (\<forall>x y n. nodes x = Some n \<and> nodes y = Some n \<longrightarrow> x = y) \<and> (\<forall>x n. nodes x = Some n \<longrightarrow> n \<notin> N) \<and> clock C N tick \<and>
    (\<forall>f s env. onTime tick N f s \<longrightarrow> G s env = exportFrameOk p f env \<and> B s env = badFrame p f env) \<and>
    (\<forall>base base'. viewOf (directives W) (bodies W) =
      joinView (stepView (\<lambda>s t. exportSteps p (envWith nodes base s) (envWith nodes base' t)))
      (joinView (legalView (\<lambda>s. relationsOn UNIV p (envWith nodes base s)))
      (joinView C (joinView (startView (\<lambda>s. startsWith p (envWith nodes base s)))
      (joinView (legalView (\<lambda>s. G s (envWith nodes base s))) (badView (\<lambda>s. B s (envWith nodes base s)))))))) \<and>
    (\<forall>xy \<in> set (pb_complementedStatePairs0 p) \<union> set (pb_complementedStatePairs1 p). fst xy \<in> stateSymbolSet p)"
proof -
  obtain w0 c0 w1 c1 w2 w3 states inputs nodes w4 r5 w5 w6 w7 where v: "newBtor2Writer accepts = Inr w0"
    "writeConstant False w0 = Inr (c0, w1)" "writeConstant True w1 = Inr (c1, w2)"
    "foldE writeComment (exportComments p md) w2 = Inr w3" "exportStates p = Inr states" "exportInputs p states = Inr inputs"
    "declareSymbols inputs states w3 = Inr (nodes, w4)" "foldE (nextState nodes) states (newResolver p, w4) = Inr (r5, w5)"
    "exportRelations p (nodeForState states nodes) w5 = Inr w6"
    "writeComment (''reset_prefix_frames='' @ showNat (exportResetFrames p) @ '' first_bad_frame='' @ showNat (firstBadFrame p)) w6 = Inr w7"
    "exportStartup frameFirst p inputs nodes (nodeForState states nodes) w7 = Inr W"
    using r unfolding exportSecBtor2_def
    by (clarsimp simp: bindE_Inr_iff split: if_split_asm)
  have 0: "declared Map.empty w0" using newBtor2Writer_ok [OF v(1)] by (simp add: declared_def leavesOf_def)
  have 2: "declared Map.empty w2" by (rule declared_constant [OF declared_constant [OF 0 v(2)] v(3)])
  have 3: "declared Map.empty w3" by (rule foldE_invariant [where P = "declared Map.empty", OF v(4) 2]) (rule declared_comment)
  note st = exportStates_ok [OF v(5)] and inp = exportInputs_ok [OF v(6)]
  have 4: "declared nodes w4" by (rule declareSymbols_ok(1) [OF v(7) 3 inp(1) st(1) inp(2)])
  have l4: "leavesOf nodes w4" using 4 by (simp add: declared_def)
  note n = nextStates_view [OF v(8) l4 exporting_new [OF inv]]
  have l5: "leavesOf nodes w5" using n by blast
  note rel = relations_view [OF l5 v(9)]
  have l6: "leavesOf nodes w6" by (rule leavesOf_adds [OF l5 rel(1)])
  have a7: "adds w6 w7 noView" by (rule writeComment_adds [OF _ v(10)]) (use l6 in \<open>simp add: leavesOf_def\<close>)
  have l7: "leavesOf nodes w7" by (rule leavesOf_adds [OF l6 a7])
  obtain C N tick G B where s: "clock C N tick" "\<forall>n \<in> N. length (bodies w7) < n"
    "\<forall>f s env. onTime tick N f s \<longrightarrow> G s env = exportFrameOk p f env \<and> B s env = badFrame p f env"
    "\<And>base. adds w7 W (joinView C (joinView (startView (\<lambda>s. startsWith p (envWith nodes base s)))
      (joinView (legalView (\<lambda>s. G s (envWith nodes base s))) (badView (\<lambda>s. B s (envWith nodes base s))))))"
    using exportStartup_view [OF l7 v(11)] by blast
  have apart: "\<forall>x n. nodes x = Some n \<longrightarrow> n \<notin> N"
    using l7 s(2) by (fastforce simp: leavesOf_def leafAt_def)
  have inj: "\<forall>x y n. nodes x = Some n \<and> nodes y = Some n \<longrightarrow> x = y" using 4 by (simp add: declared_def)
  have view: "viewOf (directives W) (bodies W) =
      joinView (stepView (\<lambda>s t. exportSteps p (envWith nodes base s) (envWith nodes base' t)))
      (joinView (legalView (\<lambda>s. relationsOn UNIV p (envWith nodes base s)))
      (joinView C (joinView (startView (\<lambda>s. startsWith p (envWith nodes base s)))
      (joinView (legalView (\<lambda>s. G s (envWith nodes base s))) (badView (\<lambda>s. B s (envWith nodes base s)))))))" for base base'
  proof -
    have "adds w4 W (joinView (stepView (\<lambda>s t. exportSteps p (envWith nodes base s) (envWith nodes base' t)))
      (joinView (legalView (\<lambda>s. relationsOn UNIV p (envWith nodes base s)))
      (joinView C (joinView (startView (\<lambda>s. startsWith p (envWith nodes base s)))
      (joinView (legalView (\<lambda>s. G s (envWith nodes base s))) (badView (\<lambda>s. B s (envWith nodes base s))))))))"
      unfolding exportSteps_def st(2) [symmetric]
      by (rule adds_trans [OF conjunct2 [OF n] adds_trans [OF rel(1) adds_given [OF a7 s(4)]]])
    then obtain ds where ds: "wrote w4 W ds" "\<And>new. viewOf ds (bodies W @ new) =
      joinView (stepView (\<lambda>s t. exportSteps p (envWith nodes base s) (envWith nodes base' t)))
      (joinView (legalView (\<lambda>s. relationsOn UNIV p (envWith nodes base s)))
      (joinView C (joinView (startView (\<lambda>s. startsWith p (envWith nodes base s)))
      (joinView (legalView (\<lambda>s. G s (envWith nodes base s))) (badView (\<lambda>s. B s (envWith nodes base s)))))))"
      unfolding adds_def by blast
    have "directives W = ds" using ds(1) 4 by (simp add: wrote_def declared_def)
    then show ?thesis using ds(2) [of "[]"] by simp
  qed
  show ?thesis
    by (rule exI [of _ nodes], rule exI [of _ C], rule exI [of _ N], rule exI [of _ tick], rule exI [of _ G],
        rule exI [of _ B], intro conjI)
      (rule adds_inv [OF s(4)], rule inj, rule apart, rule s(1), rule s(3), intro allI, rule view, rule rel(2) [unfolded st(2)])
qed

section \<open>Runs\<close>

lemma joined_run:
  assumes "\<forall>base base'. viewOf (directives W) (bodies W) =
      joinView (stepView (\<lambda>s t. T (E base s) (E base' t)))
      (joinView (legalView (\<lambda>s. R (E base s)))
      (joinView C (joinView (startView (\<lambda>s. S (E base s)))
      (joinView (legalView (\<lambda>s. G s (E base s))) (badView (\<lambda>s. B s (E base s)))))))"
    and "clock C N tick"
  shows "btorRun (bodies W) K ss \<longleftrightarrow> (\<forall>f \<le> K. onTime tick N f (ss f)) \<and> S (E (envs 0) (ss 0)) \<and>
      (\<forall>f < K. T (E (envs f) (ss f)) (E (envs (Suc f)) (ss (Suc f)))) \<and>
      (\<forall>f \<le> K. R (E (envs f) (ss f)) \<and> G (ss f) (E (envs f) (ss f)))"
    and "btorBad (bodies W) s = B s (E base s)"
proof -
  have v: "\<lparr> vw_start = btorStart (bodies W), vw_step = btorStep (bodies W), vw_legal = btorLegal (bodies W), vw_bad = btorBad (bodies W) \<rparr> =
      joinView (stepView (\<lambda>s t. T (E base s) (E base' t)))
      (joinView (legalView (\<lambda>s. R (E base s)))
      (joinView C (joinView (startView (\<lambda>s. S (E base s)))
      (joinView (legalView (\<lambda>s. G s (E base s))) (badView (\<lambda>s. B s (E base s)))))))" for base base'
    using assms(1) viewOf_bodies [of "bodies W"] by (simp add: directives_def)
  have C: "vw_legal C = (\<lambda>s. True)" "vw_bad C = (\<lambda>s. False)" using assms(2) by (simp_all add: clock_def)
  have start: "btorStart (bodies W) s = (vw_start C s \<and> S (E base s))" for s base
    using arg_cong [OF v [of base base], of vw_start] by (simp add: view_defs)
  have step: "btorStep (bodies W) s t = (T (E base s) (E base' t) \<and> vw_step C s t)" for s t base base'
    using arg_cong [OF v [of base base'], of vw_step] by (simp add: view_defs)
  have legal: "btorLegal (bodies W) s = (R (E base s) \<and> G s (E base s))" for s base
    using arg_cong [OF v [of base base], of vw_legal] by (simp add: view_defs C)
  show "btorBad (bodies W) s = B s (E base s)"
    using arg_cong [OF v [of base base], of vw_bad] by (simp add: view_defs C)
  show "btorRun (bodies W) K ss \<longleftrightarrow> (\<forall>f \<le> K. onTime tick N f (ss f)) \<and> S (E (envs 0) (ss 0)) \<and>
      (\<forall>f < K. T (E (envs f) (ss f)) (E (envs (Suc f)) (ss (Suc f)))) \<and>
      (\<forall>f \<le> K. R (E (envs f) (ss f)) \<and> G (ss f) (E (envs f) (ss f)))"
    unfolding btorRun_def start [of _ "envs 0"] step [of "ss f" "ss (Suc f)" "envs f" "envs (Suc f)" for f] legal [of "ss f" "envs f" for f]
      clock_run [OF assms(2), symmetric] by blast
qed

lemma exportSteps_legal:
  assumes "relationsOn UNIV p env'"
    and "\<forall>xy \<in> set (pb_complementedStatePairs0 p) \<union> set (pb_complementedStatePairs1 p). fst xy \<in> stateSymbolSet p"
  shows "exportSteps p env env' = (\<forall>x \<in> stateSymbolSet p. resolverContains x (newResolver p) \<longrightarrow>
    targetHolds (newResolver p) x env env')"
  unfolding exportSteps_def by (rule nextHolds_legal [OF assms])

lemma run_parts:
  "G = G' \<Longrightarrow> (G' \<Longrightarrow> T = T') \<Longrightarrow> B = B' \<Longrightarrow> ((C \<and> S \<and> T \<and> G) \<and> B) = (C \<and> (S \<and> G' \<and> T') \<and> B')"
  by blast

lemma export_exact:
  assumes r: "exportSecBtor2 frameFirst p md accepts = Inr W" and inv: "resolverInv (newResolver p)"
  shows "(\<exists>ss. btorRun (bodies W) K ss \<and> btorBad (bodies W) (ss K)) \<longleftrightarrow>
    (\<exists>envs. exportRun p K envs \<and> badFrame p K (envs K))"
proof -
  obtain nodes C N tick G B where inj: "\<forall>x y n. nodes x = Some n \<and> nodes y = Some n \<longrightarrow> x = y"
    and apart: "\<forall>x n. nodes x = Some n \<longrightarrow> n \<notin> N" and C: "clock C N tick"
    and GB: "\<forall>f s env. onTime tick N f s \<longrightarrow> G s env = exportFrameOk p f env \<and> B s env = badFrame p f env"
    and V: "\<forall>base base'. viewOf (directives W) (bodies W) =
      joinView (stepView (\<lambda>s t. exportSteps p (envWith nodes base s) (envWith nodes base' t)))
      (joinView (legalView (\<lambda>s. relationsOn UNIV p (envWith nodes base s)))
      (joinView C (joinView (startView (\<lambda>s. startsWith p (envWith nodes base s)))
      (joinView (legalView (\<lambda>s. G s (envWith nodes base s))) (badView (\<lambda>s. B s (envWith nodes base s)))))))"
    and pairs: "\<forall>xy \<in> set (pb_complementedStatePairs0 p) \<union> set (pb_complementedStatePairs1 p). fst xy \<in> stateSymbolSet p"
    using export_view [OF r inv] by blast
  let ?E = "\<lambda>base f ss. envWith nodes (base f) (ss f)"
  note jr = joined_run [where E = "envWith nodes" and T = "exportSteps p" and R = "relationsOn UNIV p" and S = "startsWith p"
      and G = G and B = B]
  have run: "btorRun (bodies W) K ss \<and> btorBad (bodies W) (ss K) \<longleftrightarrow>
      (\<forall>f \<le> K. onTime tick N f (ss f)) \<and> exportRun p K (\<lambda>f. ?E base f ss) \<and> badFrame p K (?E base K ss)" for ss base
  proof (cases "\<forall>f \<le> K. onTime tick N f (ss f)")
    case True
    have each: "G (ss f) env = exportFrameOk p f env" if "f \<le> K" for f env using GB True that by blast
    have G: "(\<forall>f \<le> K. relationsOn UNIV p (?E base f ss) \<and> G (ss f) (?E base f ss)) =
        (\<forall>f \<le> K. relationsOn UNIV p (?E base f ss) \<and> exportFrameOk p f (?E base f ss))"
      by (simp add: each cong: imp_cong)
    have B: "B (ss K) (?E base K ss) = badFrame p K (?E base K ss)" using GB True by simp
    have steps: "(\<forall>f < K. exportSteps p (?E base f ss) (?E base (Suc f) ss)) =
        (\<forall>f < K. \<forall>x \<in> stateSymbolSet p. resolverContains x (newResolver p) \<longrightarrow>
          targetHolds (newResolver p) x (?E base f ss) (?E base (Suc f) ss))"
      if "\<forall>f \<le> K. relationsOn UNIV p (?E base f ss) \<and> exportFrameOk p f (?E base f ss)"
      using exportSteps_legal [OF _ pairs] that by (simp add: Suc_le_eq)
    show ?thesis
      unfolding jr(1) [OF V C, of K ss base] jr(2) [OF V C, of _ "base K"] exportRun_def
      by (rule run_parts [OF G steps B])
  next
    case False
    then show ?thesis unfolding jr(1) [OF V C, of K ss base] by blast
  qed
  show ?thesis
  proof
    assume "\<exists>ss. btorRun (bodies W) K ss \<and> btorBad (bodies W) (ss K)"
    then obtain ss where "btorRun (bodies W) K ss \<and> btorBad (bodies W) (ss K)" by blast
    then show "\<exists>envs. exportRun p K envs \<and> badFrame p K (envs K)" using run [of ss "\<lambda>f x. False"] by blast
  next
    assume "\<exists>envs. exportRun p K envs \<and> badFrame p K (envs K)"
    then obtain envs where e: "exportRun p K envs" "badFrame p K (envs K)" by blast
    let ?ss = "\<lambda>f n. if n \<in> N then tick f n else \<exists>x. nodes x = Some n \<and> envs f x"
    have env: "envWith nodes (envs f) (?ss f) = envs f" for f
    proof
      fix x
      show "envWith nodes (envs f) (?ss f) x = envs f x"
      proof (cases "nodes x")
        case (Some n)
        then have "n \<notin> N" "(\<exists>y. nodes y = Some n \<and> envs f y) = envs f x" using apart inj by blast+
        then show ?thesis using Some by simp
      qed (simp add: envWith_def)
    qed
    have "\<forall>f \<le> K. onTime tick N f (?ss f)" by (simp add: onTime_def)
    then have "btorRun (bodies W) K ?ss \<and> btorBad (bodies W) (?ss K)"
      using run [of ?ss envs] e unfolding env by blast
    then show "\<exists>ss. btorRun (bodies W) K ss \<and> btorBad (bodies W) (ss K)" by blast
  qed
qed

section \<open>The startup of the engine\<close>

text \<open>The export mirrors the base-case query: its frames and its startup are those of the engine's runs.\<close>

lemma export_frames:
  "exportResetFrames p = resetBootstrapFrames p" "firstBadFrame p = firstChecked p"
  "resetObservation p = (resetBootstrapFrames p \<noteq> 0 \<and> usesResetBootstrapObservationFrontier p)"
proof -
  show r: "exportResetFrames p = resetBootstrapFrames p" by (simp add: exportResetFrames_def resetBootstrapFrames_def)
  show "resetObservation p = (resetBootstrapFrames p \<noteq> 0 \<and> usesResetBootstrapObservationFrontier p)"
    by (simp add: resetObservation_def r)
  show "firstBadFrame p = firstChecked p"
    by (simp add: firstBadFrame_def firstChecked_def r resetObservation_def initialObservation_def
        determineInitialConstraintMode_def hasCompleteInitialState_def hasExplicitInitialState_def Let_def)
qed

lemma initialOn_export:
  assumes "exportResetFrames p = 0"
  shows "initialOn p UNIV (determineInitialConstraintMode p) env =
    (startsWith p env \<and> firstHolds p env \<and> (initialObservation p \<longrightarrow> eval env (the (pb_property p))))"
proof -
  let ?mode = "determineInitialConstraintMode p"
  have init: "(?mode = CompleteInit \<or> ?mode = PartialInit) = (exportInitializes p)"
    "(?mode = ObservationOnly \<or> ?mode = PartialInit) = initialObservation p"
    using assms by (simp_all add: determineInitialConstraintMode_def exportInitializes_def initialObservation_def
        hasCompleteInitialState_def hasExplicitInitialState_def)
  show ?thesis
    unfolding initialOn_def init startsWith_def firstHolds_def hasStructuredInitialAssignments_def
    using assms by (cases "pb_initialCondition p"; cases "pb_initialStateAssignments p = []") (auto simp: assignsOn_def)
qed

lemma resetHolds_frames:
  assumes b: "resetBootstrapFrames p \<noteq> 0" "resetBootstrapFrames p \<le> K"
  shows "(\<forall>f \<le> K. resetHolds p f (envs f)) \<longleftrightarrow>
    (\<forall>(x, v) \<in> set (pb_resetBootstrapInputs p). \<forall>f < resetBootstrapFrames p. envs f x = v) \<and>
    (\<forall>f. resetBootstrapFrames p \<le> f \<and> f \<le> K \<longrightarrow> resetOn UNIV p (envs f)) \<and>
    (\<not> pb_usesDualRailStateEncoding p \<longrightarrow> assignsOn UNIV (pb_bootstrapStateAssignments p) (envs (resetBootstrapFrames p))) \<and>
    (usesResetBootstrapObservationFrontier p \<longrightarrow> eval (envs (resetBootstrapFrames p)) (the (pb_property p)))"
proof -
  let ?b = "resetBootstrapFrames p" and ?I = "pb_resetBootstrapInputs p"
  have cycles: "pb_resetBootstrapCycles p \<noteq> 0" using b(1) by (simp add: resetBootstrapFrames_def split: if_splits)
  have reset: "resetOn UNIV p (envs f) = (\<forall>(x, v) \<in> set ?I. envs f x = (\<not> v))" for f
    using cycles by (simp add: resetOn_def case_prod_beta)
  have one: "resetHolds p f env = ((\<forall>(x, v) \<in> set ?I. env x = (v = (f < ?b))) \<and>
      (f = ?b \<longrightarrow> usesResetBootstrapObservationFrontier p \<longrightarrow> eval env (the (pb_property p))) \<and>
      (f = ?b \<longrightarrow> \<not> pb_usesDualRailStateEncoding p \<longrightarrow> assignsOn UNIV (pb_bootstrapStateAssignments p) env))" for f env
    using b(1) by (simp add: resetHolds_def export_frames)
  have inputs: "(\<forall>f \<le> K. \<forall>(x, v) \<in> set ?I. envs f x = (v = (f < ?b))) \<longleftrightarrow>
      (\<forall>(x, v) \<in> set ?I. \<forall>f < ?b. envs f x = v) \<and> (\<forall>f. ?b \<le> f \<and> f \<le> K \<longrightarrow> (\<forall>(x, v) \<in> set ?I. envs f x = (\<not> v)))"
    (is "?all = (?early \<and> ?late)")
  proof (intro iffI conjI)
    assume a: ?all
    show ?early
    proof (intro ballI, clarify)
      fix x v f assume "(x, v) \<in> set ?I" "f < ?b"
      then show "envs f x = v" using a [rule_format, of f "(x, v)"] b(2) by simp
    qed
    show ?late
    proof (intro allI impI ballI, clarify)
      fix f x v assume "(x, v) \<in> set ?I" "?b \<le> f" "f \<le> K"
      then show "envs f x = (\<not> v)" using a [rule_format, of f "(x, v)"] by auto
    qed
  next
    assume a: "?early \<and> ?late"
    show ?all
    proof (intro allI impI ballI, clarify)
      fix f x v assume m: "(x, v) \<in> set ?I" "f \<le> K"
      show "envs f x = (v = (f < ?b))"
      proof (cases "f < ?b")
        case True
        then show ?thesis using bspec [OF conjunct1 [OF a] m(1)] by simp
      next
        case False
        then show ?thesis using conjunct2 [OF a, rule_format, of f "(x, v)"] m by auto
      qed
    qed
  qed
  have "(\<forall>f \<le> K. resetHolds p f (envs f)) \<longleftrightarrow> (\<forall>f \<le> K. \<forall>(x, v) \<in> set ?I. envs f x = (v = (f < ?b))) \<and>
      (usesResetBootstrapObservationFrontier p \<longrightarrow> eval (envs ?b) (the (pb_property p))) \<and>
      (\<not> pb_usesDualRailStateEncoding p \<longrightarrow> assignsOn UNIV (pb_bootstrapStateAssignments p) (envs ?b))"
    unfolding one using b(2) by blast
  then show ?thesis unfolding inputs reset by blast
qed

lemma exportRun_startup:
  assumes "firstChecked p \<le> K"
  shows "exportRun p K envs \<longleftrightarrow> startRun p envs \<and> (\<forall>f \<le> K. relationsOn UNIV p (envs f)) \<and>
    (\<forall>f. resetBootstrapFrames p \<noteq> 0 \<and> resetBootstrapFrames p \<le> f \<and> f \<le> K \<longrightarrow> resetOn UNIV p (envs f)) \<and>
    (\<forall>f < K. \<forall>x \<in> stateSymbolSet p. resolverContains x (newResolver p) \<longrightarrow>
        targetHolds (newResolver p) x (envs f) (envs (Suc f)))"
proof (cases "resetBootstrapFrames p = 0")
  case True
  have z: "exportResetFrames p = 0" using True by (simp add: export_frames)
  have "(\<forall>f \<le> K. exportFrameOk p f (envs f)) =
      (firstHolds p (envs 0) \<and> (initialObservation p \<longrightarrow> eval (envs 0) (the (pb_property p))))"
    using z by (auto simp: exportFrameOk_def resetHolds_def)
  moreover have "startRun p envs = initialOn p UNIV (determineInitialConstraintMode p) (envs 0)"
    using True by (simp add: startRun_def)
  ultimately show ?thesis
    unfolding exportRun_def using initialOn_export [OF z, of "envs 0"] True by blast
next
  case False
  let ?b = "resetBootstrapFrames p"
  have b: "?b \<le> K" using assms firstChecked_range(1) [of p] by linarith
  have "exportFrameOk p f env = resetHolds p f env" for f env
    using False by (simp add: exportFrameOk_def firstHolds_def initialObservation_def export_frames)
  moreover have "startsWith p env = (pb_usesDualRailStateEncoding p \<longrightarrow> assignsOn UNIV (pb_initialStateAssignments p) env)" for env
    using False by (simp add: startsWith_def exportInitializes_def export_frames)
  moreover have "startRun p envs = ((\<forall>(x, v) \<in> set (pb_resetBootstrapInputs p). \<forall>f < ?b. envs f x = v) \<and>
       (if pb_usesDualRailStateEncoding p then assignsOn UNIV (pb_initialStateAssignments p) (envs 0)
        else assignsOn UNIV (pb_bootstrapStateAssignments p) (envs ?b)) \<and>
       (usesResetBootstrapObservationFrontier p \<longrightarrow> eval (envs ?b) (the (pb_property p))))"
    unfolding startRun_def Let_def using False by (simp only: if_False)
  ultimately show ?thesis
    unfolding exportRun_def all_conj_distrib imp_conjR using resetHolds_frames [OF False b, of envs] False by simp argo
qed

text \<open>A run of the problem up to a frame, over the transitions of its state symbols.\<close>

definition problemPrefix :: "problem \<Rightarrow> nat \<Rightarrow> (nat \<Rightarrow> var_id \<Rightarrow> bool) \<Rightarrow> bool" where
  "problemPrefix p K envs = (startRun p envs \<and> (\<forall>f \<le> K. relationsOn UNIV p (envs f)) \<and>
     (\<forall>f. resetBootstrapFrames p \<noteq> 0 \<and> resetBootstrapFrames p \<le> f \<and> f \<le> K \<longrightarrow> resetOn UNIV p (envs f)) \<and>
     (\<forall>f < K. \<forall>x \<in> stateSymbolSet p. resolverContains x (newResolver p) \<longrightarrow>
        targetHolds (newResolver p) x (envs f) (envs (Suc f))))"

lemma problemRun_prefix: "problemRun p envs \<Longrightarrow> problemPrefix p K envs"
  by (simp add: problemRun_def problemPrefix_def)

lemma exported_runs:
  assumes "exportSecBtor2 frameFirst p md accepts = Inr W" "resolverInv (newResolver p)"
  shows "(\<exists>ss. btorRun (bodies W) K ss \<and> btorBad (bodies W) (ss K)) \<longleftrightarrow>
    firstChecked p \<le> K \<and> (\<exists>envs. problemPrefix p K envs \<and> eval (envs K) (the (pb_bad p)))"
  unfolding export_exact [OF assms] badFrame_def export_frames(2)
  using exportRun_startup [of p K] by (auto simp: problemPrefix_def)

lemma exported_file_ok:
  assumes "exportSecBtor2 frameFirst p md accepts = Inr W" "resolverInv (newResolver p)"
  shows "numbered (bw_out W)" "fileOk (bodies W)"
proof -
  have "btorInv W" using export_view [OF assms] by blast
  then show "numbered (bw_out W)" "fileOk (bodies W)" unfolding btorInv_def by blast+
qed

lemma no_bad_run_safe:
  assumes "exportSecBtor2 frameFirst p md accepts = Inr W" "resolverInv (newResolver p)"
    and none: "\<forall>K ss. btorRun (bodies W) K ss \<longrightarrow> \<not> btorBad (bodies W) (ss K)"
  shows "safeProblem p (the (pb_bad p))"
  unfolding safeProblem_def
proof (intro allI impI notI)
  fix envs n
  assume "problemRun p envs" "firstChecked p \<le> n" "eval (envs n) (the (pb_bad p))"
  then show False using exported_runs [OF assms(1,2), of n] none problemRun_prefix by blast
qed

section \<open>Two exports\<close>

definition exampleMetadata :: metadata where
  "exampleMetadata = \<lparr> md_totalOutputCount = 1, md_skippedOutputs = [] \<rparr>"

lemma held_exports: "\<exists>W. exportSecBtor2 True heldProblem exampleMetadata (\<lambda>_. True) = Inr W"
proof -
  have "\<not> isl (exportSecBtor2 True heldProblem exampleMetadata (\<lambda>_. True))" by code_simp
  then show ?thesis by (metis sum.collapse(2))
qed

lemma twin_exports: "\<exists>W. exportSecBtor2 False twinProblem exampleMetadata (\<lambda>_. True) = Inr W"
proof -
  have "\<not> isl (exportSecBtor2 False twinProblem exampleMetadata (\<lambda>_. True))" by code_simp
  then show ?thesis by (metis sum.collapse(2))
qed

end
