(* ===== verification/Btor2_Text.thy ===== *)
theory Btor2_Text
  imports Btor2_Writer
begin

text \<open>
  The symbols of a BTOR2 line: percent encoding keeps a symbol on its line and outside comments,
  and a reader gets it back.
\<close>

definition hexValue :: "char \<Rightarrow> nat" where
  "hexValue c = (if (of_char c :: nat) < 58 then of_char c - 48 else of_char c - 55)"

fun decodeSymbol :: "string \<Rightarrow> string" where
  "decodeSymbol (c # cs) =
    (if c = CHR ''%''
     then (case cs of a # b # ds \<Rightarrow> char_of (16 * hexValue a + hexValue b) # decodeSymbol ds | _ \<Rightarrow> [])
     else c # decodeSymbol cs)"
| "decodeSymbol [] = []"

lemma hexDigit_value: "d < 16 \<Longrightarrow> hexValue (hexDigit d) = d"
  and hexDigit_plain: "d < 16 \<Longrightarrow> plainChar (hexDigit d)"
proof -
  have "\<forall>d \<in> set [0..<16]. hexValue (hexDigit d) = d \<and> plainChar (hexDigit d)" by code_simp
  then show "d < 16 \<Longrightarrow> hexValue (hexDigit d) = d" "d < 16 \<Longrightarrow> plainChar (hexDigit d)" by simp_all
qed

lemma char_nibbles: "(of_char c :: nat) div 16 < 16"
  using nat_of_char_less_256 [of c] by (simp add: less_mult_imp_div_less del: nat_of_char_less_256)

lemma decode_encodeChar: "decodeSymbol (encodeChar c @ rest) = c # decodeSymbol rest"
proof (cases "plainChar c")
  case True
  then show ?thesis by (auto simp: encodeChar_def plainChar_def)
next
  case False
  have "16 * ((of_char c :: nat) div 16) + of_char c mod 16 = of_char c" by simp
  then show ?thesis using False char_nibbles [of c] by (simp add: encodeChar_def hexDigit_value)
qed

lemma decode_encode: "decodeSymbol (concat (map encodeChar symbol)) = symbol"
  by (induction symbol) (simp_all add: decode_encodeChar)

lemma encode_printable: "x \<in> set (encodeChar c) \<Longrightarrow> 32 < (of_char x :: nat) \<and> (of_char x :: nat) < 127 \<and> x \<noteq> CHR '';''"
  using hexDigit_plain [of "of_char c div 16"] hexDigit_plain [of "of_char c mod 16"] char_nibbles [of c]
  by (auto simp: encodeChar_def plainChar_def split: if_splits)

end
