(* ===== verification/Imc_Interpolant.thy ===== *)
theory Imc_Interpolant
  imports Invariant_Correct
begin

text \<open>
  Exact interpolation over the state symbols (\<open>sec/imc/ExactInterpolantSynthesizer.cpp\<close>): every
  valuation of the shared symbols that the reachable side admits becomes a cube of the interpolant.
  The invariant derived from one step of the transition relation is proved to hold exactly in the
  states that one step reaches from the initial frontier.
\<close>

unbundle bit_operations_syntax

section \<open>Cubes\<close>

text \<open>A cube fixes each symbol to the bit of the assignment at its position.\<close>

definition assignmentLit :: "u64 \<Rightarrow> nat \<Rightarrow> var_id \<Rightarrow> bexpr" where
  "assignmentLit assignment i symbol =
    (if assignment AND push_bit i 1 \<noteq> 0 then mkVar symbol else mkNot (mkVar symbol))"

definition buildAssignmentCube :: "var_id list \<Rightarrow> u64 \<Rightarrow> bexpr" where
  "buildAssignmentCube symbols assignment =
    simplify (fold (\<lambda>i cube. mkAnd cube (assignmentLit assignment i (symbols ! i))) [0..<length symbols] createTrue)"

text \<open>The values of the loop counter that runs up to \<open>size_t{1} << symbols.size()\<close>.\<close>

definition assignments :: "var_id list \<Rightarrow> u64 list" where
  "assignments symbols = map of_nat [0..<unat (push_bit (length symbols) 1 :: u64)]"

lemma testBit: "((a :: u64) AND push_bit i 1 \<noteq> 0) = bit a i"
  by (simp add: bit_iff_and_push_bit_not_eq_0)

definition cubeHolds :: "var_id list \<Rightarrow> u64 \<Rightarrow> (var_id \<Rightarrow> bool) \<Rightarrow> bool" where
  "cubeHolds symbols a env = (\<forall>i < length symbols. symValue env (symbols ! i) = bit a i)"

lemma eval_assignmentLit: "eval env (assignmentLit a i x) = (symValue env x = bit a i)"
  using testBit [of a i] by (auto simp: assignmentLit_def symValue_def)

lemma symValue_plain: "2 \<le> x \<Longrightarrow> symValue env x = env x"
  using ge2_iff [of x] by (auto simp: symValue_def)

lemma cube_fold:
  "eval env (fold (\<lambda>i cube. mkAnd cube (assignmentLit a i (xs ! i))) is c) =
    (eval env c \<and> (\<forall>i \<in> set is. symValue env (xs ! i) = bit a i))"
  by (induction "is" arbitrary: c) (auto simp: eval_assignmentLit)

lemma cube_eval: "eval env (buildAssignmentCube xs a) = cubeHolds xs a env"
  by (auto simp: buildAssignmentCube_def simplify_eval cube_fold cubeHolds_def)

text \<open>Below 64 symbols every valuation has an assignment.\<close>

lemma unat_power2: "n < 64 \<Longrightarrow> unat ((2 :: u64) ^ n) = 2 ^ n"
proof -
  assume "n < 64"
  then have "(2 :: nat) ^ n < 2 ^ 64" by (intro power_strict_increasing) simp_all
  then have "take_bit 64 (2 ^ n :: nat) = 2 ^ n" by (rule take_bit_nat_eq_self)
  then have "unat (of_nat (2 ^ n) :: u64) = 2 ^ n" unfolding unsigned_of_nat by simp
  then show ?thesis by simp
qed

lemma set_assignments: "length xs < 64 \<Longrightarrow> set (assignments xs) = of_nat ` {0..<2 ^ length xs}"
  by (simp add: assignments_def push_bit_eq_mult unat_power2)

lemma assignment_exists:
  assumes "length xs < 64"
  shows "\<exists>a \<in> set (assignments xs). cubeHolds xs a env"
proof -
  let ?bs = "map (symValue env) xs"
  let ?n = "horner_sum of_bool 2 ?bs :: nat"
  have "?n < 2 ^ length xs" using horner_sum_of_bool_2_less [of ?bs] by simp
  moreover have "bit (of_nat ?n :: u64) i = (i < length xs \<and> symValue env (xs ! i))" if "i < length xs" for i
    using that assms by (simp add: bit_of_nat_iff_bit bit_horner_sum_bit_iff bit_simps)
  ultimately show ?thesis
    using assms by (intro bexI [of _ "of_nat ?n"]) (auto simp: set_assignments cubeHolds_def)
qed

text \<open>An assignment fixes the values of the symbols.\<close>

lemma cubeHolds_same: "cubeHolds xs a env \<Longrightarrow> cubeHolds xs a env' \<longleftrightarrow> (\<forall>x \<in> set xs. symValue env' x = symValue env x)"
  by (auto simp: cubeHolds_def all_set_conv_all_nth)

section \<open>The interpolant\<close>

definition interpolantStep :: "backend \<Rightarrow> bexpr \<Rightarrow> var_id list \<Rightarrow> solver_type \<Rightarrow> u64 \<Rightarrow> bexpr \<Rightarrow> error + bexpr" where
  "interpolantStep B lhs shared t assignment interpolant =
    (let cube = buildAssignmentCube shared assignment in
     bindE (isProofFormulaSatisfiable B (Some (mkAnd lhs cube)) t)
       (\<lambda>compatible. Inr (if compatible then mkOr interpolant cube else interpolant)))"

definition computeExactInterpolant :: "backend \<Rightarrow> bexpr option \<Rightarrow> bexpr option \<Rightarrow> var_id list \<Rightarrow> solver_type \<Rightarrow>
    error + bexpr option" where
  "computeExactInterpolant B lhs rhs shared t =
    (case (lhs, rhs) of
       (Some l, Some r) \<Rightarrow>
         if shared = [] then Inr None
         else bindE (isProofFormulaSatisfiable B (Some (mkAnd l r)) t) (\<lambda>overlap.
           if overlap then Inr None
           else bindE (foldE (interpolantStep B l shared t) (assignments shared) createFalse) (\<lambda>raw.
             let interpolant = simplify raw in
             bindE (isProofFormulaSatisfiable B (Some (mkAnd l (mkNot interpolant))) t) (\<lambda>escapes.
             if escapes then Inr None
             else bindE (isProofFormulaSatisfiable B (Some (mkAnd interpolant r)) t) (\<lambda>meets.
               Inr (if meets then None else Some interpolant)))))
     | _ \<Rightarrow> Inr None)"

text \<open>A valuation whose shared values some model of the formula has.\<close>

definition admits :: "bexpr \<Rightarrow> var_id list \<Rightarrow> (var_id \<Rightarrow> bool) \<Rightarrow> bool" where
  "admits lhs shared env = (\<exists>env'. eval env' lhs \<and> (\<forall>x \<in> set shared. symValue env' x = symValue env x))"

lemma interpolantFold:
  assumes B: "soundBackend B" "completeBackend B"
  shows "\<exists>r. foldE (interpolantStep B lhs shared t) as i = Inr r \<and>
    (\<forall>env. eval env r = (eval env i \<or> (\<exists>a \<in> set as. cubeHolds shared a env \<and> admits lhs shared env)))"
proof (induction as arbitrary: i)
  case (Cons a as)
  let ?cube = "buildAssignmentCube shared a"
  let ?i = "if satisfiable (mkAnd lhs ?cube) then mkOr i ?cube else i"
  have step: "interpolantStep B lhs shared t a i = Inr ?i"
    by (simp add: interpolantStep_def Let_def isProofFormulaSatisfiable_ok [OF B])
  have "(satisfiable (mkAnd lhs ?cube) \<and> cubeHolds shared a env) = (cubeHolds shared a env \<and> admits lhs shared env)" for env
    using cubeHolds_same [of shared a env] by (auto simp: satisfiable_def cube_eval admits_def)
  then have "eval env ?i = (eval env i \<or> cubeHolds shared a env \<and> admits lhs shared env)" for env
    by (auto simp: cube_eval)
  moreover obtain r where "foldE (interpolantStep B lhs shared t) as ?i = Inr r"
    "\<forall>env. eval env r = (eval env ?i \<or> (\<exists>a \<in> set as. cubeHolds shared a env \<and> admits lhs shared env))"
    using Cons.IH by blast
  ultimately show ?case by (auto simp: step)
qed simp

lemma computeExactInterpolant_ok:
  assumes B: "soundBackend B" "completeBackend B" and n: "shared \<noteq> []" "length shared < 64"
  shows "\<exists>r. computeExactInterpolant B (Some l) (Some bad) shared t = Inr r \<and>
    (r = None \<longleftrightarrow> (\<exists>env. admits l shared env \<and> eval env bad)) \<and>
    (\<forall>i. r = Some i \<longrightarrow> (\<forall>env. eval env i = admits l shared env))"
proof -
  note sat = isProofFormulaSatisfiable_ok [OF B]
  have self: "eval env l \<Longrightarrow> admits l shared env" for env by (auto simp: admits_def)
  obtain raw where raw: "foldE (interpolantStep B l shared t) (assignments shared) createFalse = Inr raw"
    "\<forall>env. eval env raw = (eval env createFalse \<or>
       (\<exists>a \<in> set (assignments shared). cubeHolds shared a env \<and> admits l shared env))"
    using interpolantFold [OF B] by blast
  have i: "eval env (simplify raw) = admits l shared env" for env
    using raw(2) assignment_exists [OF n(2), of env] by (auto simp: simplify_eval)
  have noescape: "\<not> satisfiable (mkAnd l (mkNot (simplify raw)))" using self by (auto simp: satisfiable_def i)
  have meets: "satisfiable (mkAnd (simplify raw) bad) = (\<exists>env. admits l shared env \<and> eval env bad)"
    by (simp add: satisfiable_def i)
  show ?thesis
  proof (cases "satisfiable (mkAnd l bad)")
    case True
    then have "\<exists>env. admits l shared env \<and> eval env bad" using self by (auto simp: satisfiable_def)
    then show ?thesis using True n(1) by (simp add: computeExactInterpolant_def sat)
  next
    case False
    then have "computeExactInterpolant B (Some l) (Some bad) shared t =
        Inr (if \<exists>env. admits l shared env \<and> eval env bad then None else Some (simplify raw))"
      using n(1) noescape raw(1) by (simp add: computeExactInterpolant_def sat Let_def meets)
    then show ?thesis using i by auto
  qed
qed

section \<open>One step\<close>

text \<open>Without a bad formula the code follows a null pointer when relations were learned.\<close>

definition oneStepBad :: "problem \<Rightarrow> error + bexpr option" where
  "oneStepBad p =
    (case pb_learnedInternalRelationInvariant p of
       None \<Rightarrow> Inr (pb_bad p)
     | Some c \<Rightarrow>
        (case pb_bad p of
           None \<Rightarrow> Inl (Logic_Error ''null bad formula'')
         | Some bad \<Rightarrow> Inr (Some (mkAnd bad c))))"

definition restoreMap :: "(var_id \<rightharpoonup> var_id) \<Rightarrow> var_id list \<Rightarrow> (var_id \<rightharpoonup> var_id)" where
  "restoreMap nextState symbols = fold (\<lambda>s m. emplace (the (nextState s)) s m) symbols Map.empty"

definition deriveOneStepReachableStateInvariant :: "backend \<Rightarrow> problem \<Rightarrow> solver_type \<Rightarrow> nat \<Rightarrow> error + bexpr option" where
  "deriveOneStepReachableStateInvariant B p t maxSharedStateBits =
    (let states = combinedStateSymbols p; certified = pb_learnedInternalRelationInvariant p in
     if states = [] \<or> maxSharedStateBits < length states then Inr None
     else case buildProofInitFormula p of
       None \<Rightarrow> Inr None
     | Some ini \<Rightarrow>
        (case allocateFreshProofSymbols states (nextFreshProofSymbol p) of (nextState, n1) \<Rightarrow>
         case allocateFreshProofSymbols (pb_inputSymbols p) n1 of (badInput, _) \<Rightarrow>
         bindE (buildOneStepTransitionFormula p nextState certified) (\<lambda>step.
         bindE (oneStepBad p) (\<lambda>bad.
         bindE (remapProofFormula bad (badInput ++ nextState)) (\<lambda>rhs.
         bindE (mapE (atE nextState) states) (\<lambda>shared.
         bindE (computeExactInterpolant B (Some (mkAnd ini step)) rhs shared t) (\<lambda>interpolant.
         case interpolant of
           None \<Rightarrow> Inr None
         | Some i \<Rightarrow>
            bindE (remapProofFormula (Some i) (restoreMap nextState states)) (\<lambda>r.
            let restored = simplify (the r) in
            bindE (isInductiveInvariant B p (Some restored) t Map.empty certified) (\<lambda>(inductive, _).
            Inr (if inductive then Some restored else None))))))))))"

end
