(* ===== verification/Imc_Engine.thy ===== *)
theory Imc_Engine
  imports Imc_Interpolant KI_Engine
begin

text \<open>
  The interpolation engine on explicit frontiers (\<open>sec/imc/IMCEngine.cpp\<close>): the SAT instance that
  asks whether a state is reached at a depth, the frontier built from it, the strengthening derived
  at the start, and the loop of \<open>IMCEngine::run\<close>.  The Craig branch for large dual-rail problems is
  not modelled: its answer is an argument of \<open>runImc\<close>.
\<close>

section \<open>Results\<close>

datatype imc_status = ImcEquivalent | ImcDifferent | ImcInconclusive

record imc_result =
  ir_status :: imc_status
  ir_bound :: nat
  ir_witness :: "cex_witness option"
  ir_coveredOutputs :: "bool list"

definition imcResult :: "imc_status \<Rightarrow> nat \<Rightarrow> imc_result" where
  "imcResult status bound = \<lparr> ir_status = status, ir_bound = bound, ir_witness = None, ir_coveredOutputs = [] \<rparr>"

definition imcDifferent :: "cex_witness \<Rightarrow> imc_result" where
  "imcDifferent w = \<lparr> ir_status = ImcDifferent, ir_bound = cw_badFrame w, ir_witness = Some w, ir_coveredOutputs = [] \<rparr>"

section \<open>Reachability at a depth\<close>

definition imcComplementStep :: "frame_store \<Rightarrow> nat \<Rightarrow> var_id \<times> var_id \<Rightarrow> solver \<Rightarrow> error + solver" where
  "imcComplementStep fs frame pc s =
    bindE (getLiteral fs (snd pc) frame) (\<lambda>c. bindE (getLiteral fs (fst pc) frame) (\<lambda>q.
      addLiteralEquivalence c (- q) s))"

definition addImcComplementedStateRelations :: "frame_store \<Rightarrow> (var_id \<times> var_id) list \<Rightarrow> nat \<Rightarrow> solver \<Rightarrow>
    error + solver" where
  "addImcComplementedStateRelations fs pairs numFrames =
    foldE (\<lambda>frame. foldE (imcComplementStep fs frame) pairs) [0..<numFrames]"

definition imcTransitionStep :: "frame_store \<Rightarrow> nat \<Rightarrow> var_id \<times> bexpr \<Rightarrow> encoder \<Rightarrow> error + encoder" where
  "imcTransitionStep fs frame te en =
    bindE (getLiteral fs (fst te) (frame + 1)) (\<lambda>lit.
    bindE (encode (Some (snd te)) en) (\<lambda>(l, en').
    bindE (addLiteralEquivalence lit l (en_solver en')) (\<lambda>s. Inr (en'\<lparr> en_solver := s \<rparr>))))"

text \<open>The auxiliary transitions are not asserted.\<close>

definition addImcTransitionRelation :: "frame_store \<Rightarrow> problem \<Rightarrow> nat \<Rightarrow> solver \<Rightarrow> error + solver" where
  "addImcTransitionRelation fs p frame s =
    bindE (makeAllLeafLits fs frame) (\<lambda>leaves.
    bindE (foldE (imcTransitionStep fs frame) (pb_transitions0 p) (newEncoder s leaves None False 0)) (\<lambda>en.
    bindE (foldE (imcTransitionStep fs frame) (pb_transitions1 p) en) (\<lambda>en'. Inr (en_solver en'))))"

definition assertOnFrame :: "frame_store \<Rightarrow> nat \<Rightarrow> bexpr \<Rightarrow> solver \<Rightarrow> error + solver" where
  "assertOnFrame fs frame e s =
    bindE (makeAllLeafLits fs frame) (\<lambda>leaves. encodeAndAssert e (newEncoder s leaves None False 0))"

definition assertCertifiedFrames :: "frame_store \<Rightarrow> problem \<Rightarrow> nat \<Rightarrow> solver \<Rightarrow> error + solver" where
  "assertCertifiedFrames fs p depth s =
    (case pb_learnedInternalRelationInvariant p of
       None \<Rightarrow> Inr s
     | Some c \<Rightarrow> foldE (\<lambda>frame. assertOnFrame fs frame c) [0..<depth + 1] s)"

definition reachInstance :: "frame_store \<Rightarrow> problem \<Rightarrow> bexpr \<Rightarrow> bexpr \<Rightarrow> nat \<Rightarrow> solver \<Rightarrow> error + solver" where
  "reachInstance fs p initFormula target depth s =
    bindE (addImcComplementedStateRelations fs (pb_complementedStatePairs0 p) (depth + 1) s) (\<lambda>s1.
    bindE (addImcComplementedStateRelations fs (pb_complementedStatePairs1 p) (depth + 1) s1) (\<lambda>s2.
    bindE (assertCertifiedFrames fs p depth s2) (\<lambda>s3.
    bindE (foldE (addImcTransitionRelation fs p) [0..<depth] s3) (\<lambda>s4.
    bindE (assertOnFrame fs 0 initFormula s4) (assertOnFrame fs depth target)))))"

definition isStateReachableAtDepth :: "backend \<Rightarrow> problem \<Rightarrow> solver_type \<Rightarrow> bexpr \<Rightarrow> var_id list \<Rightarrow> u64 \<Rightarrow> nat \<Rightarrow>
    error + bool" where
  "isStateReachableAtDepth B p t initFormula stateSymbols assignment depth =
    (case newFrameStore (pb_allSymbols p) (depth + 1) (newSolver t) of (fs, s) \<Rightarrow>
     bindE (reachInstance fs p initFormula (buildAssignmentCube stateSymbols assignment) depth s) (\<lambda>s'.
     Inr (solve B s')))"

text \<open>A loop that breaks at its first hit.\<close>

primrec anyE :: "('a \<Rightarrow> error + bool) \<Rightarrow> 'a list \<Rightarrow> error + bool" where
  "anyE f [] = Inr False"
| "anyE f (x # xs) = bindE (f x) (\<lambda>hit. if hit then Inr True else anyE f xs)"

definition collectReachable :: "backend \<Rightarrow> problem \<Rightarrow> solver_type \<Rightarrow> bexpr \<Rightarrow> nat \<Rightarrow> u64 \<Rightarrow> bexpr \<times> bool \<Rightarrow>
    error + bexpr \<times> bool" where
  "collectReachable B p t initFormula depth assignment acc =
    bindE (anyE (isStateReachableAtDepth B p t initFormula (combinedStateSymbols p) assignment) [0..<depth + 1]) (\<lambda>within.
      Inr (if within then (mkOr (fst acc) (buildAssignmentCube (combinedStateSymbols p) assignment), True) else acc))"

definition buildExactReachableStateInvariant :: "backend \<Rightarrow> problem \<Rightarrow> solver_type \<Rightarrow> bexpr option \<Rightarrow> nat \<Rightarrow> nat \<Rightarrow>
    error + bexpr option" where
  "buildExactReachableStateInvariant B p t initFormula depth maxStateBits =
    (let states = combinedStateSymbols p in
     case initFormula of
       None \<Rightarrow> Inr None
     | Some ini \<Rightarrow>
        if states = [] \<or> maxStateBits < length states then Inr None
        else bindE (foldE (collectReachable B p t ini depth) (assignments states) (createFalse, False)) (\<lambda>(reached, found).
          Inr (if \<not> found then None else Some (simplify reached))))"

section \<open>Proofs\<close>

definition kImcMaxStateBits :: nat where
  "kImcMaxStateBits = 12"

definition buildInitialImcStrengthening :: "backend \<Rightarrow> problem \<Rightarrow> solver_type \<Rightarrow> bexpr option \<Rightarrow> error + bexpr option" where
  "buildInitialImcStrengthening B p t initFormula =
    (if initFormula = None then Inr None
     else bindE (selectValidatedStrengtheningInvariant B p initFormula t) (\<lambda>selected.
       bindE (deriveOneStepReachableStateInvariant B p t kImcMaxStateBits) (\<lambda>interpolant.
         let strengthening = (case interpolant of
               None \<Rightarrow> selected
             | Some i \<Rightarrow> Some (case selected of None \<Rightarrow> i | Some s \<Rightarrow> simplify (mkAnd s i)))
         in Inr (case strengthening of None \<Rightarrow> pb_property p | Some s \<Rightarrow> Some s))))"

definition provesImcInvariant :: "backend \<Rightarrow> problem \<Rightarrow> solver_type \<Rightarrow> bexpr option \<Rightarrow> bexpr option \<Rightarrow> error + bool" where
  "provesImcInvariant B p t initFormula invariant =
    (if invariant = None then Inr False
     else bindE (initialFrontierImplies B initFormula invariant t) (\<lambda>starts.
       if \<not> starts then Inr False
       else bindE (isInductiveInvariant B p invariant t Map.empty (pb_learnedInternalRelationInvariant p)) (\<lambda>(inductive, _).
         if \<not> inductive then Inr False
         else invariantExcludesBadStates B p invariant t (pb_learnedInternalRelationInvariant p))))"

definition findImcCounterexample :: "backend \<Rightarrow> imc_cache \<Rightarrow> solver_type \<Rightarrow> nat \<Rightarrow> error + imc_result option" where
  "findImcCounterexample B c t depth =
    bindE (findKInductionBaseCounterexampleAtFrontier B c t depth) (\<lambda>w. Inr (map_option imcDifferent w))"

definition shouldBuildExplicitImcInitFormula :: "problem \<Rightarrow> bool" where
  "shouldBuildExplicitImcInitFormula p = (\<not> pb_usesDualRailStateEncoding p \<or> pb_totalStateCount p \<le> 12)"

section \<open>The engine\<close>

definition usesCraigImc :: "problem \<Rightarrow> bool" where
  "usesCraigImc p =
    (pb_usesDualRailStateEncoding p \<and> 12 < effectiveTotalStateCount p \<and> pb_observedOutputExprs0 p \<noteq> [] \<and>
     length (pb_observedOutputExprs0 p) = length (pb_observedOutputExprs1 p))"

definition imcInitFormula :: "problem \<Rightarrow> bexpr option" where
  "imcInitFormula p =
    (case (if shouldBuildExplicitImcInitFormula p then buildProofInitFormula p else None) of
       None \<Rightarrow> None
     | Some ini \<Rightarrow> Some (case pb_learnedInternalRelationInvariant p of None \<Rightarrow> ini | Some c \<Rightarrow> mkAnd ini c))"

text \<open>One depth of the loop: a counterexample, a proof, or nothing.\<close>

definition imcDepth :: "backend \<Rightarrow> problem \<Rightarrow> imc_cache \<Rightarrow> solver_type \<Rightarrow> bexpr option \<Rightarrow> bexpr option \<Rightarrow> nat \<Rightarrow>
    error + imc_result option" where
  "imcDepth B p cache t initFormula sharedStrengthening k =
    bindE (findImcCounterexample B cache t k) (\<lambda>counterexample.
      case counterexample of
        Some r \<Rightarrow> Inr (Some r)
      | None \<Rightarrow>
         if initFormula = None then Inr None
         else bindE (buildExactReachableStateInvariant B p t initFormula k kImcMaxStateBits) (\<lambda>frontier.
           case frontier of
             None \<Rightarrow> Inr None
           | Some f \<Rightarrow>
              bindE (provesImcInvariant B p t initFormula
                  (Some (case sharedStrengthening of None \<Rightarrow> f | Some s \<Rightarrow> simplify (mkAnd f s))))
                (\<lambda>proved. Inr (if proved then Some (imcResult ImcEquivalent k) else None))))"

definition runImc :: "backend \<Rightarrow> problem \<Rightarrow> solver_type \<Rightarrow> nat \<Rightarrow> (error + imc_result) \<Rightarrow> error + imc_result" where
  "runImc B p t maxK craig =
    (let cache = makeImcBaseCounterexampleCache p in
     if combinedStateSymbols p = []
     then bindE (findImcCounterexample B cache t 0) (\<lambda>counterexample.
       Inr (case counterexample of Some r \<Rightarrow> r | None \<Rightarrow> imcResult ImcEquivalent 0))
     else if usesCraigImc p then craig
     else bindE (findImcCounterexample B cache t 0) (\<lambda>counterexample.
       case counterexample of
         Some r \<Rightarrow> Inr r
       | None \<Rightarrow>
          let initFormula = imcInitFormula p in
          bindE (buildInitialImcStrengthening B p t initFormula) (\<lambda>shared.
          bindE (if initFormula = None then Inr False else provesImcInvariant B p t initFormula shared) (\<lambda>proved.
          if proved then Inr (imcResult ImcEquivalent 1)
          else bindE (firstSomeE (imcDepth B p cache t initFormula shared) [1..<maxK + 1]) (\<lambda>result.
            Inr (case result of Some r \<Rightarrow> r | None \<Rightarrow> imcResult ImcInconclusive maxK))))))"

end
