(* ===== verification/Imc_Interpolant_Exact.thy ===== *)
theory Imc_Interpolant_Exact
  imports Imc_Interpolant KI_Batch
begin

text \<open>
  What the exact interpolant is: the states that one step of the transition relation reaches from
  the initial frontier, on the symbols of the state.  The synthesizer returns an invariant exactly
  when none of these states is bad and the set is inductive.
\<close>

section \<open>The image of the initial frontier\<close>

definition oneStepImage :: "problem \<Rightarrow> (var_id \<Rightarrow> bool) \<Rightarrow> bool" where
  "oneStepImage p env = (\<exists>env0 env1. initHolds p env0 \<and> stepHolds p env0 env1 \<and> complementsHold p env1 \<and>
     (\<forall>x \<in> set (combinedStateSymbols p). env1 x = env x))"

text \<open>The formulas speak of known symbols, and there is room for fresh ones.\<close>

definition exactReady :: "problem \<Rightarrow> bool" where
  "exactReady p =
    (let S = set (combinedStateSymbols p); A = set (pb_allSymbols p) in
     S \<subseteq> A \<and> set (pb_inputSymbols p) \<subseteq> A \<and> - 1 \<notin> A \<and> (\<forall>x \<in> S \<union> set (pb_inputSymbols p). 2 \<le> x) \<and>
     fst ` set (allTransitions p) \<subseteq> S \<and> (\<forall>(t, e) \<in> set (allTransitions p). support e \<subseteq> A) \<and>
     fst ` set (complementPairs p) \<union> snd ` set (complementPairs p) \<subseteq> S \<and>
     (\<forall>i. buildProofInitFormula p = Some i \<longrightarrow> support i \<subseteq> A) \<and>
     (\<forall>b. pb_bad p = Some b \<longrightarrow> support b \<subseteq> S \<union> set (pb_inputSymbols p)) \<and>
     unat (nextFreshProofSymbol p) + length (combinedStateSymbols p) + length (pb_inputSymbols p) < 2 ^ 64)"

lemma exactReadyD:
  assumes "exactReady p"
  shows "set (combinedStateSymbols p) \<subseteq> set (pb_allSymbols p)" "set (pb_inputSymbols p) \<subseteq> set (pb_allSymbols p)"
    "- 1 \<notin> set (pb_allSymbols p)" "x \<in> set (combinedStateSymbols p) \<Longrightarrow> 2 \<le> x"
    "buildProofInitFormula p = Some i \<Longrightarrow> support i \<subseteq> set (pb_allSymbols p)"
    "pb_bad p = Some b \<Longrightarrow> support b \<subseteq> set (combinedStateSymbols p) \<union> set (pb_inputSymbols p)"
    "(t, e) \<in> set (allTransitions p) \<Longrightarrow> t \<in> set (combinedStateSymbols p) \<and> support e \<subseteq> set (pb_allSymbols p)"
    "(q, c) \<in> set (complementPairs p) \<Longrightarrow> q \<in> set (combinedStateSymbols p) \<and> c \<in> set (combinedStateSymbols p)"
    "x \<in> set (pb_inputSymbols p) \<Longrightarrow> 2 \<le> x"
    "unat (nextFreshProofSymbol p) + length (combinedStateSymbols p) + length (pb_inputSymbols p) < 2 ^ 64"
    "fst ` set (allTransitions p) \<subseteq> set (combinedStateSymbols p)"
    "fst ` set (complementPairs p) \<union> snd ` set (complementPairs p) \<subseteq> set (combinedStateSymbols p)"
proof -
  note all = assms [unfolded exactReady_def Let_def]
  note r = conjunct1 [OF all] conjunct2 [OF all]
  note r2 = conjunct1 [OF r(2)] conjunct2 [OF r(2)]
  note r3 = conjunct1 [OF r2(2)] conjunct2 [OF r2(2)]
  note r4 = conjunct1 [OF r3(2)] conjunct2 [OF r3(2)]
  note r5 = conjunct1 [OF r4(2)] conjunct2 [OF r4(2)]
  note r6 = conjunct1 [OF r5(2)] conjunct2 [OF r5(2)]
  note r7 = conjunct1 [OF r6(2)] conjunct2 [OF r6(2)]
  note r8 = conjunct1 [OF r7(2)] conjunct2 [OF r7(2)]
  note r9 = conjunct1 [OF r8(2)] conjunct2 [OF r8(2)]
  show "set (combinedStateSymbols p) \<subseteq> set (pb_allSymbols p)" by (rule r(1))
  show "set (pb_inputSymbols p) \<subseteq> set (pb_allSymbols p)" by (rule r2(1))
  show "- 1 \<notin> set (pb_allSymbols p)" by (rule r3(1))
  show "x \<in> set (combinedStateSymbols p) \<Longrightarrow> 2 \<le> x" "x \<in> set (pb_inputSymbols p) \<Longrightarrow> 2 \<le> x"
    by (rule bspec [OF r4(1)], rule UnI1, assumption) (rule bspec [OF r4(1)], rule UnI2, assumption)
  show a: "fst ` set (allTransitions p) \<subseteq> set (combinedStateSymbols p)" by (rule r5(1))
  show c: "fst ` set (complementPairs p) \<union> snd ` set (complementPairs p) \<subseteq> set (combinedStateSymbols p)" by (rule r7(1))
  show "(t, e) \<in> set (allTransitions p) \<Longrightarrow> t \<in> set (combinedStateSymbols p) \<and> support e \<subseteq> set (pb_allSymbols p)"
    using a r6(1) by force
  show "(q, c) \<in> set (complementPairs p) \<Longrightarrow> q \<in> set (combinedStateSymbols p) \<and> c \<in> set (combinedStateSymbols p)"
    using c by force
  show "buildProofInitFormula p = Some i \<Longrightarrow> support i \<subseteq> set (pb_allSymbols p)" using r8(1) by simp
  show "pb_bad p = Some b \<Longrightarrow> support b \<subseteq> set (combinedStateSymbols p) \<union> set (pb_inputSymbols p)" using r9(1) by simp
  show "unat (nextFreshProofSymbol p) + length (combinedStateSymbols p) + length (pb_inputSymbols p) < 2 ^ 64" by (rule r9(2))
qed

lemma freshMap_merge:
  assumes "freshMap m a b" "freshMap n b c" "a \<le> b" "b \<le> c"
  shows "freshMap (n ++ m) a c"
proof -
  have "a \<le> unat w \<and> unat w < c" if "(n ++ m) s = Some w" for s w
    using that assms unfolding freshMap_def by (fastforce simp: map_add_Some_iff)
  moreover have "s = s'" if e: "(n ++ m) s = Some w" "(n ++ m) s' = Some w" for s s' w
  proof -
    have off: "\<not> (m x = Some w \<and> n y = Some w)" for x y
      using assms(1,2) unfolding freshMap_def by (meson not_less)
    then show ?thesis
      using e off assms(1,2) unfolding freshMap_def map_add_Some_iff by blast
  qed
  ultimately show ?thesis unfolding freshMap_def by metis
qed

lemma emplace_keep: "m k = Some v \<Longrightarrow> emplace a b m k = Some v"
  by (auto simp: emplace_apply)

lemma fold_emplace_at:
  assumes "inj_on g (set xs)" "\<forall>x \<in> set xs. m (g x) = None \<or> m (g x) = Some x" "x \<in> set xs"
  shows "fold (\<lambda>s m. emplace (g s) s m) xs m (g x) = Some x"
  using assms
proof (induction xs arbitrary: m)
  case (Cons y ys)
  have keep: "fold (\<lambda>s m. emplace (g s) s m) zs n k = Some v" if "n k = Some v" for zs n k v
    using that by (induction zs arbitrary: n) (simp_all add: emplace_keep)
  have y: "emplace (g y) y m (g y) = Some y" using Cons.prems(2) by (auto simp: emplace_apply)
  show ?case
  proof (cases "x = y")
    case True
    then show ?thesis using keep [where n = "emplace (g y) y m" and zs = ys, OF y] by simp
  next
    case False
    then have x: "x \<in> set ys" using Cons.prems(3) by simp
    have "\<forall>z \<in> set ys. emplace (g y) y m (g z) = None \<or> emplace (g y) y m (g z) = Some z"
    proof
      fix z assume z: "z \<in> set ys"
      show "emplace (g y) y m (g z) = None \<or> emplace (g y) y m (g z) = Some z"
      proof (cases "z = y")
        case True
        then show ?thesis using y by simp
      next
        case False
        then have "g z \<noteq> g y" using Cons.prems(1) z by (auto simp: inj_on_def)
        then show ?thesis using Cons.prems(2) z by (simp add: emplace_apply)
      qed
    qed
    then show ?thesis using Cons.IH [OF _ _ x, of "emplace (g y) y m"] Cons.prems(1) by (simp add: inj_on_def)
  qed
qed simp

lemma mapE_atE: "mapE (atE m) xs = Inr ys \<Longrightarrow> ys = map (\<lambda>s. the (m s)) xs"
  by (induction xs arbitrary: ys) (auto simp: bindE_Inr_iff)

section \<open>The two sides of the interpolation\<close>

lemma reachable_side:
  assumes ready: "exactReady p" and ini: "buildProofInitFormula p = Some i"
    and nx: "freshMap nx (unat (nextFreshProofSymbol p)) hi" "dom nx = set (combinedStateSymbols p)"
    and step: "buildOneStepTransitionFormula p nx None = Inr t"
    and shared: "mapE (atE nx) (combinedStateSymbols p) = Inr shared"
  shows "admits (mkAnd i t) shared fenv = oneStepImage p (pullEnv nx fenv)"
proof -
  let ?S = "set (combinedStateSymbols p)" and ?A = "set (pb_allSymbols p)"
  note sym = exactReadyD(1,3,4) [OF ready] and tr = exactReadyD(7) [OF ready] and co = exactReadyD(8) [OF ready]
  note inA = exactReadyD(5) [OF ready ini]
  have val: "eval env (mkAnd i t) = (initHolds p env \<and> stepHolds p env (pullEnv nx env) \<and> nextComplementsHold p nx env)" for env
    using transition_eval [OF step, of env] initFormula_eval [of p] ini by (simp add: holdsOpt_def)
  have same: "nextComplementsHold p nx env = complementsHold p (pullEnv nx env)" for env
    using co sym(3) by (fastforce simp: nextComplementsHold_def complementsHold_def symValue_plain)
  have sh: "set shared = (\<lambda>s. the (nx s)) ` ?S"
  proof -
    have "shared = map (\<lambda>s. the (nx s)) (combinedStateSymbols p)" by (rule mapE_atE [OF shared])
    then show ?thesis by simp
  qed
  have agree: "(\<forall>x \<in> set shared. symValue env x = symValue fenv x) = (\<forall>s \<in> ?S. pullEnv nx env s = pullEnv nx fenv s)" for env
    by (simp add: sh pullEnv_value)
  show ?thesis
  proof
    assume "admits (mkAnd i t) shared fenv"
    then show "oneStepImage p (pullEnv nx fenv)"
      unfolding admits_def val same agree oneStepImage_def by blast
  next
    assume "oneStepImage p (pullEnv nx fenv)"
    then obtain env0 env1 where e: "initHolds p env0" "stepHolds p env0 env1" "complementsHold p env1"
      "\<forall>x \<in> ?S. env1 x = pullEnv nx fenv x" by (auto simp: oneStepImage_def)
    let ?env = "bothFrames nx env0 env1"
    have lo: "2 \<le> unat (nextFreshProofSymbol p)" using nextFresh_ge2 [of p] by (simp add: word_le_nat_alt)
    have new: "pullEnv nx ?env s = env1 s" if "s \<in> ?S" for s
    proof -
      obtain w where "nx s = Some w" using nx(2) \<open>s \<in> ?S\<close> by blast
      then show ?thesis by (rule bothFrames_ok(1) [OF nx(1) lo])
    qed
    have old: "?env w = env0 w" if "w \<in> ?A" for w
    proof -
      have "w \<noteq> - 1" using sym(2) that by metis
      then have "unat w < unat (nextFreshProofSymbol p)" using nextFresh_above [OF that] by (simp add: word_less_nat_alt)
      then show ?thesis by (rule bothFrames_ok(2) [OF nx(1) lo])
    qed
    have "initHolds p ?env = initHolds p env0"
    proof -
      have "eval ?env i = eval env0 i" by (rule eval_cong) (use inA old in blast)
      then show ?thesis using initFormula_eval [of p] ini by simp
    qed
    moreover have "stepHolds p ?env (pullEnv nx ?env)"
    proof -
      have "pullEnv nx ?env s = eval ?env e" if m: "(s, e) \<in> set (allTransitions p)" for s e
      proof -
        have "eval ?env e = eval env0 e" by (rule eval_cong) (use tr [OF m] old in blast)
        then show ?thesis using e(2) m new [of s] tr [OF m] by (auto simp: stepHolds_def)
      qed
      then show ?thesis by (auto simp: stepHolds_def)
    qed
    moreover have "complementsHold p (pullEnv nx ?env)"
      using e(3) co new sym(3) by (fastforce simp: complementsHold_def symValue_plain)
    ultimately show "admits (mkAnd i t) shared fenv"
      unfolding admits_def val same agree using e(1,4) new by (intro exI [of _ ?env]) auto
  qed
qed

lemma image_states:
  "(\<And>x. x \<in> set (combinedStateSymbols p) \<Longrightarrow> env x = env' x) \<Longrightarrow> oneStepImage p env = oneStepImage p env'"
  by (simp add: oneStepImage_def)

lemma bad_side:
  assumes ready: "exactReady p" and bad: "pb_bad p = Some b"
    and nx: "freshMap nx lo mid" "dom nx = set (combinedStateSymbols p)"
    and inp: "freshMap inp mid hi" "dom inp = set (pb_inputSymbols p)" and le: "2 \<le> lo" "lo \<le> mid" "mid \<le> hi"
    and r: "remapProofFormula (Some b) (inp ++ nx) = Inr (Some r)"
  shows "(\<exists>fenv. oneStepImage p (pullEnv nx fenv) \<and> eval fenv r) = (\<exists>env. oneStepImage p env \<and> eval env b)"
proof -
  let ?m = "inp ++ nx"
  have fresh: "freshMap ?m lo hi" by (rule freshMap_merge [OF nx(1) inp(1) le(2,3)])
  have val: "eval fenv r = eval (pullEnv ?m fenv) b" for fenv using remapProof_ok [OF r] by simp
  have states: "pullEnv ?m fenv x = pullEnv nx fenv x" if "x \<in> set (combinedStateSymbols p)" for fenv x
    using that nx(2) [symmetric] by (auto simp: pullEnv_def map_add_dom_app_simps)
  have sub: "support b \<subseteq> set (combinedStateSymbols p) \<union> set (pb_inputSymbols p)"
    by (rule exactReadyD(6) [OF ready bad])
  show ?thesis
  proof
    assume "\<exists>fenv. oneStepImage p (pullEnv nx fenv) \<and> eval fenv r"
    then obtain fenv where f: "oneStepImage p (pullEnv nx fenv)" "eval (pullEnv ?m fenv) b" using val by blast
    have "oneStepImage p (pullEnv ?m fenv)" using f(1) image_states [of p, OF states] by simp
    then show "\<exists>env. oneStepImage p env \<and> eval env b" using f(2) by blast
  next
    assume "\<exists>env. oneStepImage p env \<and> eval env b"
    then obtain env where e: "oneStepImage p env" "eval env b" by blast
    let ?f = "bothFrames ?m env env"
    have pull: "pullEnv ?m ?f x = env x" if "x \<in> set (combinedStateSymbols p) \<union> set (pb_inputSymbols p)" for x
    proof -
      obtain w where "?m x = Some w" using \<open>x \<in> _\<close> nx(2) inp(2) by (metis Un_commute dom_map_add domD)
      then show ?thesis by (rule bothFrames_ok(1) [OF fresh le(1)])
    qed
    have "eval ?f r" unfolding val using e(2) eval_cong [of b "pullEnv ?m ?f" env] pull sub by blast
    moreover have "oneStepImage p (pullEnv nx ?f)"
      using e(1) pull states image_states [of p "pullEnv nx ?f" env] by (metis UnI1)
    ultimately show "\<exists>fenv. oneStepImage p (pullEnv nx fenv) \<and> eval fenv r" by blast
  qed
qed

section \<open>Supports\<close>

lemma cube_support: "support (buildAssignmentCube xs a) \<subseteq> set xs"
proof -
  have lit: "support (assignmentLit a i x) \<subseteq> {x}" for i x by (simp add: assignmentLit_def)
  have "support (fold (\<lambda>i cube. mkAnd cube (assignmentLit a i (xs ! i))) is c) \<subseteq> support c \<union> set xs"
    if "set is \<subseteq> {0..<length xs}" for "is" c
    using that
  proof (induction "is" arbitrary: c)
    case (Cons i "is")
    have i: "xs ! i \<in> set xs" using Cons.prems by simp
    have "support (mkAnd c (assignmentLit a i (xs ! i))) \<subseteq> support c \<union> set xs"
      using support_mkAnd [of c "assignmentLit a i (xs ! i)"] lit [of i "xs ! i"] i by blast
    then show ?case using Cons.IH [of "mkAnd c (assignmentLit a i (xs ! i))"] Cons.prems by auto
  qed simp
  from this [of "[0..<length xs]" createTrue]
  have "support (fold (\<lambda>i cube. mkAnd cube (assignmentLit a i (xs ! i))) [0..<length xs] createTrue) \<subseteq> set xs"
    by (simp add: createTrue_def)
  then show ?thesis unfolding buildAssignmentCube_def by (rule order_trans [OF simplify_support])
qed

lemma interpolantFold_support:
  assumes "foldE (interpolantStep B l shared t) as i = Inr r" "support i \<subseteq> set shared"
  shows "support r \<subseteq> set shared"
  using assms(1)
proof (rule foldE_invariant [where P = "\<lambda>r. support r \<subseteq> set shared"])
  fix a x y
  assume x: "support x \<subseteq> set shared" and "interpolantStep B l shared t a x = Inr y"
  then consider "y = x" | "y = mkOr x (buildAssignmentCube shared a)"
    by (auto simp: interpolantStep_def Let_def bindE_Inr_iff split: if_splits)
  then show "support y \<subseteq> set shared"
    using x support_mkOr [of x "buildAssignmentCube shared a"] cube_support [of shared a] by cases blast+
qed (rule assms(2))

lemma computeExactInterpolant_support:
  assumes "computeExactInterpolant B l r shared t = Inr (Some i)"
  shows "support i \<subseteq> set shared"
proof -
  obtain lhs raw where raw: "foldE (interpolantStep B lhs shared t) (assignments shared) createFalse = Inr raw" "i = simplify raw"
    using assms by (auto simp: computeExactInterpolant_def Let_def bindE_Inr_iff split: option.splits if_splits)
  have "support createFalse \<subseteq> set shared" by (simp add: createFalse_def)
  then have "support raw \<subseteq> set shared" by (rule interpolantFold_support [OF raw(1)])
  then show ?thesis using simplify_support [of raw] raw(2) by blast
qed

section \<open>The derived invariant\<close>

lemma restored_ok:
  assumes ready: "exactReady p"
    and nx: "freshMap nx (unat (nextFreshProofSymbol p)) hi" "dom nx = set (combinedStateSymbols p)"
    and i: "support i \<subseteq> (\<lambda>s. the (nx s)) ` set (combinedStateSymbols p)"
  shows "\<exists>r. remapProofFormula (Some i) (restoreMap nx (combinedStateSymbols p)) = Inr (Some r) \<and>
    (\<forall>env. \<exists>fenv. eval env r = eval fenv i \<and> (\<forall>s \<in> set (combinedStateSymbols p). pullEnv nx fenv s = env s))"
proof -
  let ?S = "combinedStateSymbols p" and ?g = "\<lambda>s. the (nx s)"
  let ?m = "restoreMap nx ?S"
  have inj: "inj_on ?g (set ?S)"
    using nx unfolding freshMap_def inj_on_def by (metis domD option.sel)
  have at: "?m (?g s) = Some s" if "s \<in> set ?S" for s
    unfolding restoreMap_def by (rule fold_emplace_at [OF inj _ that]) simp
  then have dom: "support i \<subseteq> dom ?m" using i by fastforce
  obtain r memo where rm: "remapBoolExprVariables (Some i) ?m Map.empty = Inr (Some r, memo)"
    using remap_total [OF dom, of Map.empty] by (auto simp: memoInv_def)
  then have r: "remapProofFormula (Some i) ?m = Inr (Some r)" by (simp add: remapProofFormula_def)
  have "eval env r = eval (pullEnv ?m env) i \<and> (\<forall>s \<in> set ?S. pullEnv nx (pullEnv ?m env) s = env s)" for env
  proof (intro conjI ballI)
    show "eval env r = eval (pullEnv ?m env) i" using remapProof_ok [OF r] by simp
    fix s assume s: "s \<in> set ?S"
    obtain w where w: "nx s = Some w" using nx(2) s by blast
    then have "nextFreshProofSymbol p \<le> w" using nx(1) by (simp add: freshMap_def word_le_nat_alt)
    then have "2 \<le> ?g s" using nextFresh_ge2 [of p] w by simp
    then have "pullEnv nx (pullEnv ?m env) s = symValue env s"
      by (simp add: pullEnv_value symValue_plain at [OF s])
    then show "pullEnv nx (pullEnv ?m env) s = env s" using symValue_plain [OF exactReadyD(4) [OF ready s]] by simp
  qed
  then show ?thesis using r by blast
qed

text \<open>Why no invariant comes back: there is no state, no constraint on the start, no bad formula, a bad
  state one step away, or the states one step away are not closed under the steps.\<close>

definition openImage :: "backend \<Rightarrow> problem \<Rightarrow> solver_type \<Rightarrow> bool" where
  "openImage B p t = (\<exists>i c. (\<forall>env. eval env i = oneStepImage p env) \<and>
     isInductiveInvariant B p (Some i) t Map.empty None = Inr (False, c))"

lemma remapProof_total:
  assumes "support e \<subseteq> dom m"
  shows "\<exists>r. remapProofFormula (Some e) m = Inr (Some r)"
proof -
  obtain r memo where "remapBoolExprVariables (Some e) m Map.empty = Inr (Some r, memo)"
    using remap_total [OF assms, of Map.empty] by (auto simp: memoInv_def)
  then show ?thesis by (simp add: remapProofFormula_def)
qed

lemma derive_ok:
  assumes B: "soundBackend B" "completeBackend B" and ready: "exactReady p"
    and cert: "pb_learnedInternalRelationInvariant p = None" and n: "length (combinedStateSymbols p) \<le> m" "m < 64"
  shows "\<exists>r. deriveOneStepReachableStateInvariant B p t m = Inr r \<and>
    (\<forall>i. r = Some i \<longrightarrow> (\<forall>env. eval env i = oneStepImage p env) \<and>
      (\<exists>c. isInductiveInvariant B p (Some i) t Map.empty None = Inr (True, c))) \<and>
    (r = None \<longrightarrow> combinedStateSymbols p = [] \<or> buildProofInitFormula p = None \<or> pb_bad p = None \<or>
      (\<exists>env. oneStepImage p env \<and> holdsOpt env (pb_bad p)) \<or> openImage B p t)"
proof (cases "combinedStateSymbols p = [] \<or> buildProofInitFormula p = None")
  case True
  then show ?thesis by (auto simp: deriveOneStepReachableStateInvariant_def Let_def split: option.split)
next
  case False
  let ?S = "combinedStateSymbols p"
  obtain ini where ini: "buildProofInitFormula p = Some ini" using False by blast
  note room = exactReadyD(10) [OF ready]
  obtain nx n1 where a: "allocateFreshProofSymbols ?S (nextFreshProofSymbol p) = (nx, n1)" by fastforce
  have nx: "freshMap nx (unat (nextFreshProofSymbol p)) (unat n1)" "dom nx = set ?S"
    "unat n1 = unat (nextFreshProofSymbol p) + length ?S" using allocateFresh_ok [OF a add_lessD1 [OF room]] by blast+
  obtain inp n2 where b: "allocateFreshProofSymbols (pb_inputSymbols p) n1 = (inp, n2)" by fastforce
  have inp: "freshMap inp (unat n1) (unat n2)" "dom inp = set (pb_inputSymbols p)" "unat n1 \<le> unat n2"
    using allocateFresh_ok [OF b room [folded nx(3)]] by (blast, blast, linarith)
  obtain step where step: "buildOneStepTransitionFormula p nx None = Inr step"
    using transition_total [of p nx None] exactReadyD(11,12) [OF ready] nx(2) by auto
  let ?shared = "map (\<lambda>s. the (nx s)) ?S"
  have shared: "mapE (atE nx) ?S = Inr ?shared"
  proof -
    have "mapE (atE nx) xs = Inr (map (\<lambda>s. the (nx s)) xs)" if "set xs \<subseteq> dom nx" for xs
      using that by (induction xs) (auto simp: dom_def)
    then show ?thesis using nx(2) by simp
  qed
  have len: "?shared \<noteq> []" "length ?shared < 64" using False n by simp_all
  have run: "deriveOneStepReachableStateInvariant B p t m =
    bindE (remapProofFormula (pb_bad p) (inp ++ nx)) (\<lambda>rhs.
    bindE (computeExactInterpolant B (Some (mkAnd ini step)) rhs ?shared t) (\<lambda>interpolant.
      case interpolant of
        None \<Rightarrow> Inr None
      | Some i \<Rightarrow> bindE (remapProofFormula (Some i) (restoreMap nx ?S)) (\<lambda>r.
          bindE (isInductiveInvariant B p (Some (simplify (the r))) t Map.empty None) (\<lambda>(inductive, _).
          Inr (if inductive then Some (simplify (the r)) else None)))))"
    using False n by (simp add: deriveOneStepReachableStateInvariant_def Let_def ini a b cert step shared oneStepBad_def)
  show ?thesis
  proof (cases "pb_bad p")
    case None
    then have "remapProofFormula (pb_bad p) (inp ++ nx) = Inr None"
      by (simp add: remapProofFormula_def remapBoolExprVariables_def)
    then show ?thesis using run None by (simp add: computeExactInterpolant_def)
  next
    case (Some bad)
    obtain r where r: "remapProofFormula (Some bad) (inp ++ nx) = Inr (Some r)"
      using remapProof_total [of bad "inp ++ nx"] exactReadyD(6) [OF ready Some] nx(2) inp(2) by auto
    have image: "admits (mkAnd ini step) ?shared fenv = oneStepImage p (pullEnv nx fenv)" for fenv
      by (rule reachable_side [OF ready ini nx(1,2) step shared])
    have lo: "2 \<le> unat (nextFreshProofSymbol p)" "unat (nextFreshProofSymbol p) \<le> unat n1"
      using nextFresh_ge2 [of p] nx(3) by (simp_all add: word_le_nat_alt)
    have badside: "(\<exists>fenv. oneStepImage p (pullEnv nx fenv) \<and> eval fenv r) = (\<exists>env. oneStepImage p env \<and> eval env bad)"
      by (rule bad_side [OF ready Some nx(1,2) inp(1,2) lo inp(3) r])
    obtain v where v: "computeExactInterpolant B (Some (mkAnd ini step)) (Some r) ?shared t = Inr v"
      "v = None \<longleftrightarrow> (\<exists>fenv. admits (mkAnd ini step) ?shared fenv \<and> eval fenv r)"
      "\<forall>i. v = Some i \<longrightarrow> (\<forall>fenv. eval fenv i = admits (mkAnd ini step) ?shared fenv)"
      using computeExactInterpolant_ok [OF B len, of "mkAnd ini step" r t] by blast
    show ?thesis
    proof (cases v)
      case None
      then show ?thesis using run Some r v(1,2) badside image by (auto simp: holdsOpt_def)
    next
      case vi: (Some i)
      have "support i \<subseteq> set ?shared" using computeExactInterpolant_support v(1) vi by blast
      then have "support i \<subseteq> (\<lambda>s. the (nx s)) ` set ?S" by simp
      from restored_ok [OF ready nx(1,2) this] obtain q where
        q: "remapProofFormula (Some i) (restoreMap nx ?S) = Inr (Some q)"
          "\<forall>env. \<exists>fenv. eval env q = eval fenv i \<and> (\<forall>s \<in> set ?S. pullEnv nx fenv s = env s)" by blast
      let ?r = "simplify q"
      have exact: "eval env ?r = oneStepImage p env" for env
      proof -
        obtain fenv where f: "eval env q = eval fenv i" "\<forall>s \<in> set ?S. pullEnv nx fenv s = env s" using q(2) by blast
        have "eval fenv i = oneStepImage p (pullEnv nx fenv)" using v(3) vi image by blast
        also have "\<dots> = oneStepImage p env" by (rule image_states) (use f(2) in blast)
        finally show ?thesis using f(1) by (simp add: simplify_eval)
      qed
      obtain ok c where ind: "isInductiveInvariant B p (Some ?r) t Map.empty None = Inr (ok, c)"
        using isInductiveInvariant_exact [OF B supportCacheOk_empty, of ?r None p t] by (auto simp: hypothesisOf_def)
      have "deriveOneStepReachableStateInvariant B p t m = Inr (if ok then Some ?r else None)"
        using run Some r v(1) vi q(1) ind by (simp add: Let_def)
      then show ?thesis using exact ind by (cases ok) (auto simp: openImage_def)
    qed
  qed
qed

lemma derive_all:
  assumes B: "soundBackend B" "completeBackend B" and ready: "exactReady p"
    and cert: "pb_learnedInternalRelationInvariant p = None" and m: "m < 64"
  shows "\<exists>r. deriveOneStepReachableStateInvariant B p t m = Inr r \<and>
    (\<forall>i. r = Some i \<longrightarrow> (\<forall>env. eval env i = oneStepImage p env) \<and>
      (\<exists>c. isInductiveInvariant B p (Some i) t Map.empty None = Inr (True, c))) \<and>
    (r = None \<longrightarrow> combinedStateSymbols p = [] \<or> m < length (combinedStateSymbols p) \<or>
      buildProofInitFormula p = None \<or> pb_bad p = None \<or>
      (\<exists>env. oneStepImage p env \<and> holdsOpt env (pb_bad p)) \<or> openImage B p t)"
proof (cases "m < length (combinedStateSymbols p)")
  case True
  then show ?thesis by (simp add: deriveOneStepReachableStateInvariant_def Let_def)
next
  case False
  then show ?thesis using derive_ok [OF B ready cert _ m, of t] by auto
qed

end
