(* ===== verification/Imc_Frontier.thy ===== *)
theory Imc_Frontier
  imports Imc_Engine Imc_Interpolant_Exact
begin

text \<open>
  What the reachability instances of the interpolation engine ask, and that the frontier built from
  them holds exactly in the states that a path of at most the given length reaches from the initial
  formula.
\<close>

section \<open>Paths\<close>

text \<open>The steps of the instance: the transitions of the two designs, not the auxiliary ones.\<close>

definition imcStep :: "problem \<Rightarrow> (var_id \<Rightarrow> bool) \<Rightarrow> (var_id \<Rightarrow> bool) \<Rightarrow> bool" where
  "imcStep p env env' = (\<forall>te \<in> set (pb_transitions0 p @ pb_transitions1 p). env' (fst te) = eval env (snd te))"

definition imcLegal :: "problem \<Rightarrow> (var_id \<Rightarrow> bool) \<Rightarrow> bool" where
  "imcLegal p env = ((\<forall>pc \<in> set (complementPairs p). env (snd pc) = (\<not> env (fst pc))) \<and>
     holdsOpt env (pb_learnedInternalRelationInvariant p))"

definition imcPath :: "problem \<Rightarrow> bexpr \<Rightarrow> nat \<Rightarrow> (nat \<Rightarrow> var_id \<Rightarrow> bool) \<Rightarrow> bool" where
  "imcPath p ini d envs = ((\<forall>f \<le> d. imcLegal p (envs f)) \<and> (\<forall>f < d. imcStep p (envs f) (envs (Suc f))) \<and> eval (envs 0) ini)"

text \<open>The symbols of the formulas are among all symbols.\<close>

definition imcReady :: "problem \<Rightarrow> bexpr \<Rightarrow> bool" where
  "imcReady p ini =
    (let A = set (pb_allSymbols p) in
     distinct (pb_allSymbols p) \<and> set (combinedStateSymbols p) \<subseteq> A \<and> support ini \<subseteq> A \<and>
     (\<forall>te \<in> set (pb_transitions0 p @ pb_transitions1 p). fst te \<in> A \<and> support (snd te) \<subseteq> A) \<and>
     (\<forall>pc \<in> set (complementPairs p). fst pc \<in> A \<and> snd pc \<in> A) \<and>
     (\<forall>c. pb_learnedInternalRelationInvariant p = Some c \<longrightarrow> support c \<subseteq> A))"

section \<open>Constraints\<close>

lemma ball_upt: "(\<forall>f \<in> set [0..<n]. P f) = (\<forall>f < n. P f)"
  by auto

lemma imcComplementStep_restricts:
  assumes fs: "storeInv fs (sv_vars s)" and s: "solverInv s" and f: "f < fs_numFrames fs"
    and known: "fst pc \<in> knownSymbols fs" "snd pc \<in> knownSymbols fs"
  shows "\<exists>s'. imcComplementStep fs f pc s = Inr s' \<and>
    restricts s s' (\<lambda>M. frameValue fs M f (snd pc) = (\<not> frameValue fs M f (fst pc)))"
proof -
  have "complementStep fs f pc s = imcComplementStep fs f pc s"
    using known by (simp add: complementStep_def imcComplementStep_def knownSymbols_def)
  then show ?thesis
    using complementStep_restricts [OF fs s f, of pc] known by (simp add: pairsOn_def)
qed

lemma imcComplements_restrict:
  assumes fs: "storeInv fs (sv_vars s)" and s: "solverInv s" and n: "n \<le> fs_numFrames fs"
    and known: "\<And>pc. pc \<in> set pairs \<Longrightarrow> fst pc \<in> knownSymbols fs \<and> snd pc \<in> knownSymbols fs"
  shows "\<exists>s'. addImcComplementedStateRelations fs pairs n s = Inr s' \<and>
    restricts s s' (\<lambda>M. \<forall>f < n. \<forall>pc \<in> set pairs. frameValue fs M f (snd pc) = (\<not> frameValue fs M f (fst pc)))"
proof -
  have inner: "\<exists>u'. foldE (imcComplementStep fs f) pairs u = Inr u' \<and>
      restricts u u' (\<lambda>M. \<forall>pc \<in> set pairs. frameValue fs M f (snd pc) = (\<not> frameValue fs M f (fst pc)))"
    if f: "f \<in> set [0..<n]" and u: "solverInv u" "sv_vars s \<le> sv_vars u" for f u
  proof (rule foldE_restricts [OF u(1)])
    fix pc v
    assume pc: "pc \<in> set pairs" and v: "solverInv v" "sv_vars u \<le> sv_vars v"
    have "storeInv fs (sv_vars v)" by (rule storeInv_mono [OF fs le_trans [OF u(2) v(2)]])
    then show "\<exists>u'. imcComplementStep fs f pc v = Inr u' \<and>
        restricts v u' (\<lambda>M. frameValue fs M f (snd pc) = (\<not> frameValue fs M f (fst pc)))"
      using imcComplementStep_restricts [OF _ v(1)] f n known [OF pc] by simp
  qed (rule readsBelow_frames [OF storeInv_mono [OF fs u(2)]])
  have "\<exists>s'. addImcComplementedStateRelations fs pairs n s = Inr s' \<and>
    restricts s s' (\<lambda>M. \<forall>f \<in> set [0..<n]. \<forall>pc \<in> set pairs. frameValue fs M f (snd pc) = (\<not> frameValue fs M f (fst pc)))"
    unfolding addImcComplementedStateRelations_def
    by (rule foldE_restricts [OF s inner readsBelow_frames [OF fs]])
  then show ?thesis unfolding ball_upt .
qed

lemma frame_leaves:
  assumes "storeInv fs (sv_vars s)" "solverInv s" "f < fs_numFrames fs"
  shows "\<exists>m. makeAllLeafLits fs f = Inr m \<and> frameEncoder fs f (knownSymbols fs) (newEncoder s m None False 0)"
proof -
  obtain m where m: "makeAllLeafLits fs f = Inr m" "dom m = knownSymbols fs" "\<And>x l. m x = Some l \<Longrightarrow> getLiteral fs x f = Inr l"
    using makeAllLeafLits_ok [OF assms(1,3)] unfolding knownSymbols_def by blast
  have "frameEncoder fs f (knownSymbols fs) (newEncoder s m None False 0)"
    by (rule frameEncoder_new [OF assms(2,1) m(3)]) (simp_all add: m(2))
  then show ?thesis using m(1) by blast
qed

lemma newEncoder_same:
  assumes "solverInv s"
  shows "restricts s (en_solver (newEncoder s m sm cm h)) (\<lambda>M. True)"
  using assms by (auto simp: restricts_def agreeBelow_def)

lemma assertOnFrame_restricts:
  assumes fs: "storeInv fs (sv_vars s)" and s: "solverInv s" and f: "f < fs_numFrames fs"
    and e: "support e \<subseteq> knownSymbols fs"
  shows "\<exists>s'. assertOnFrame fs f e s = Inr s' \<and> restricts s s' (\<lambda>M. eval (frameValue fs M f) e)"
proof -
  obtain m where m: "makeAllLeafLits fs f = Inr m" "frameEncoder fs f (knownSymbols fs) (newEncoder s m None False 0)"
    using frame_leaves [OF fs s f] by blast
  obtain s' where s': "encodeAndAssert e (newEncoder s m None False 0) = Inr s'"
    "restricts (en_solver (newEncoder s m None False 0)) s' (\<lambda>M. eval (frameValue fs M f) e)"
    using encodeAndAssert_restricts [OF m(2) _ e] fs by auto
  have "restricts s s' (\<lambda>M. True \<and> eval (frameValue fs M f) e)"
    by (rule restricts_trans [OF newEncoder_same [OF s] s'(2) readsBelow_frames [OF fs]])
  then show ?thesis using s'(1) m(1) by (simp add: assertOnFrame_def)
qed

section \<open>Transitions\<close>

lemma imcTransitionStep_ok:
  assumes en: "frameEncoder fs f (knownSymbols fs) en" "storeInv fs (sv_vars (en_solver en))"
    and t: "fst te \<in> knownSymbols fs" "support (snd te) \<subseteq> knownSymbols fs" and f: "Suc f < fs_numFrames fs"
  shows "\<exists>en'. imcTransitionStep fs f te en = Inr en' \<and> frameEncoder fs f (knownSymbols fs) en' \<and>
    restricts (en_solver en) (en_solver en') (\<lambda>M. frameValue fs M (Suc f) (fst te) = eval (frameValue fs M f) (snd te))"
proof -
  have "imcTransitionStep fs f te en = transitionStep fs [fst te \<mapsto> snd te] f (fst te) en"
    by (simp add: imcTransitionStep_def transitionStep_def)
  then show ?thesis
    using transitionStep_ok [where tr = "[fst te \<mapsto> snd te]" and e = "snd te", OF en t(1) _ t(2) f] by simp
qed

definition transitionsHold :: "(var_id \<times> bexpr) list \<Rightarrow> (var_id \<Rightarrow> bool) \<Rightarrow> (var_id \<Rightarrow> bool) \<Rightarrow> bool" where
  "transitionsHold ts env env' = (\<forall>te \<in> set ts. env' (fst te) = eval env (snd te))"

lemma imcTransitions_fold:
  assumes en: "frameEncoder fs f (knownSymbols fs) en" "storeInv fs (sv_vars (en_solver en))"
    and t: "\<And>te. te \<in> set ts \<Longrightarrow> fst te \<in> knownSymbols fs \<and> support (snd te) \<subseteq> knownSymbols fs" and f: "Suc f < fs_numFrames fs"
  shows "\<exists>en'. foldE (imcTransitionStep fs f) ts en = Inr en' \<and> frameEncoder fs f (knownSymbols fs) en' \<and>
    restricts (en_solver en) (en_solver en') (\<lambda>M. transitionsHold ts (frameValue fs M f) (frameValue fs M (Suc f)))"
proof -
  have inv: "solverInv (en_solver u)" if "frameEncoder fs f (knownSymbols fs) u" for u
    using that by (simp add: frameEncoder_def encInv_def)
  have step: "\<exists>u'. imcTransitionStep fs f te u = Inr u' \<and> frameEncoder fs f (knownSymbols fs) u' \<and>
      restricts (en_solver u) (en_solver u') (\<lambda>M. frameValue fs M (Suc f) (fst te) = eval (frameValue fs M f) (snd te))"
    if "te \<in> set ts" "frameEncoder fs f (knownSymbols fs) u" "sv_vars (en_solver en) \<le> sv_vars (en_solver u)" for te u
    using imcTransitionStep_ok [OF that(2) storeInv_mono [OF en(2) that(3)] _ _ f] t [OF that(1)] by blast
  have reads: "readsBelow (sv_vars (en_solver en)) (\<lambda>M. frameValue fs M (Suc f) (fst te) = eval (frameValue fs M f) (snd te))" for te
    by (rule readsBelow_frames [OF en(2)])
  from foldE_restricts_via [where I = "frameEncoder fs f (knownSymbols fs)" and proj = en_solver and xs = ts and
      f = "imcTransitionStep fs f" and P = "\<lambda>te M. frameValue fs M (Suc f) (fst te) = eval (frameValue fs M f) (snd te)",
      OF en(1) inv step reads]
  show ?thesis unfolding transitionsHold_def by blast
qed

lemma imcTransitions_restrict:
  assumes fs: "storeInv fs (sv_vars s)" and s: "solverInv s" and f: "Suc f < fs_numFrames fs"
    and t: "\<And>te. te \<in> set (pb_transitions0 p @ pb_transitions1 p) \<Longrightarrow> fst te \<in> knownSymbols fs \<and> support (snd te) \<subseteq> knownSymbols fs"
  shows "\<exists>s'. addImcTransitionRelation fs p f s = Inr s' \<and>
    restricts s s' (\<lambda>M. imcStep p (frameValue fs M f) (frameValue fs M (Suc f)))"
proof -
  obtain m where m: "makeAllLeafLits fs f = Inr m" "frameEncoder fs f (knownSymbols fs) (newEncoder s m None False 0)"
    using frame_leaves [OF fs s Suc_lessD [OF f]] by blast
  let ?en = "newEncoder s m None False 0"
  have fs0: "storeInv fs (sv_vars (en_solver ?en))" using fs by simp
  obtain en1 where e1: "foldE (imcTransitionStep fs f) (pb_transitions0 p) ?en = Inr en1" "frameEncoder fs f (knownSymbols fs) en1"
    "restricts (en_solver ?en) (en_solver en1) (\<lambda>M. transitionsHold (pb_transitions0 p) (frameValue fs M f) (frameValue fs M (Suc f)))"
    using imcTransitions_fold [OF m(2) fs0 _ f, of "pb_transitions0 p"] t by auto
  have fs1: "storeInv fs (sv_vars (en_solver en1))" by (rule storeInv_mono [OF fs0 restrictsD(2) [OF e1(3)]])
  obtain en2 where e2: "foldE (imcTransitionStep fs f) (pb_transitions1 p) en1 = Inr en2"
    "restricts (en_solver en1) (en_solver en2) (\<lambda>M. transitionsHold (pb_transitions1 p) (frameValue fs M f) (frameValue fs M (Suc f)))"
    using imcTransitions_fold [OF e1(2) fs1 _ f, of "pb_transitions1 p"] t by auto
  note r = restricts_trans [OF newEncoder_same [OF s] restricts_trans [OF e1(3) e2(2) readsBelow_frames [OF fs0]] readsBelow_frames [OF fs]]
  have "restricts s (en_solver en2) (\<lambda>M. imcStep p (frameValue fs M f) (frameValue fs M (Suc f)))"
    by (rule restricts_weaken [OF r]) (auto simp: imcStep_def transitionsHold_def)
  then show ?thesis using m(1) e1(1) e2(1) by (simp add: addImcTransitionRelation_def)
qed

section \<open>The instance\<close>

lemma certified_restrict:
  assumes fs: "storeInv fs (sv_vars s)" and s: "solverInv s" and n: "d < fs_numFrames fs"
    and known: "\<And>c. pb_learnedInternalRelationInvariant p = Some c \<Longrightarrow> support c \<subseteq> knownSymbols fs"
  shows "\<exists>s'. assertCertifiedFrames fs p d s = Inr s' \<and>
    restricts s s' (\<lambda>M. \<forall>f < d + 1. holdsOpt (frameValue fs M f) (pb_learnedInternalRelationInvariant p))"
proof (cases "pb_learnedInternalRelationInvariant p")
  case None
  then show ?thesis using restricts_refl [OF s] by (simp add: assertCertifiedFrames_def holdsOpt_def)
next
  case (Some c)
  have "\<exists>s'. foldE (\<lambda>f. assertOnFrame fs f c) [0..<d + 1] s = Inr s' \<and>
      restricts s s' (\<lambda>M. \<forall>f \<in> set [0..<d + 1]. eval (frameValue fs M f) c)"
  proof (rule foldE_restricts [OF s])
    fix f u
    assume f: "f \<in> set [0..<d + 1]" and u: "solverInv u" "sv_vars s \<le> sv_vars u"
    show "\<exists>u'. assertOnFrame fs f c u = Inr u' \<and> restricts u u' (\<lambda>M. eval (frameValue fs M f) c)"
      by (rule assertOnFrame_restricts [OF storeInv_mono [OF fs u(2)] u(1) _ known [OF Some]]) (use f n in \<open>simp add: less_Suc_eq; linarith\<close>)
  qed (rule readsBelow_frames [OF fs])
  then show ?thesis unfolding ball_upt by (simp add: assertCertifiedFrames_def holdsOpt_def Some)
qed

lemma steps_restrict:
  assumes fs: "storeInv fs (sv_vars s)" and s: "solverInv s" and n: "d < fs_numFrames fs"
    and t: "\<And>te. te \<in> set (pb_transitions0 p @ pb_transitions1 p) \<Longrightarrow> fst te \<in> knownSymbols fs \<and> support (snd te) \<subseteq> knownSymbols fs"
  shows "\<exists>s'. foldE (addImcTransitionRelation fs p) [0..<d] s = Inr s' \<and>
    restricts s s' (\<lambda>M. \<forall>f < d. imcStep p (frameValue fs M f) (frameValue fs M (Suc f)))"
proof -
  have "\<exists>s'. foldE (addImcTransitionRelation fs p) [0..<d] s = Inr s' \<and>
    restricts s s' (\<lambda>M. \<forall>f \<in> set [0..<d]. imcStep p (frameValue fs M f) (frameValue fs M (Suc f)))"
  proof (rule foldE_restricts [OF s])
    fix f u
    assume f: "f \<in> set [0..<d]" and u: "solverInv u" "sv_vars s \<le> sv_vars u"
    show "\<exists>u'. addImcTransitionRelation fs p f u = Inr u' \<and>
        restricts u u' (\<lambda>M. imcStep p (frameValue fs M f) (frameValue fs M (Suc f)))"
      by (rule imcTransitions_restrict [OF storeInv_mono [OF fs u(2)] u(1) _ t]) (use f n in auto)
  qed (rule readsBelow_frames [OF fs])
  then show ?thesis unfolding ball_upt .
qed

lemma reachInstance_restricts:
  assumes fs: "storeInv fs (sv_vars s)" and s: "solverInv s" and n: "fs_numFrames fs = d + 1"
    and ready: "imcReady p ini" and known: "knownSymbols fs = set (pb_allSymbols p)" and target: "support target \<subseteq> knownSymbols fs"
  shows "\<exists>s'. reachInstance fs p ini target d s = Inr s' \<and>
    restricts s s' (\<lambda>M. imcPath p ini d (frameValue fs M) \<and> eval (frameValue fs M d) target)"
proof -
  let ?v = "frameValue fs" and ?pairs = "\<lambda>ps M. \<forall>f < d + 1. \<forall>pc \<in> set ps. frameValue fs M f (snd pc) = (\<not> frameValue fs M f (fst pc))"
  note r = ready [unfolded imcReady_def Let_def, folded known]
  have pairs: "fst pc \<in> knownSymbols fs \<and> snd pc \<in> knownSymbols fs" if "pc \<in> set (complementPairs p)" for pc using r that by blast
  have pairs01: "fst pc \<in> knownSymbols fs \<and> snd pc \<in> knownSymbols fs"
    if "pc \<in> set (pb_complementedStatePairs0 p) \<or> pc \<in> set (pb_complementedStatePairs1 p)" for pc
    using pairs [of pc] that by (auto simp: complementPairs_def)
  have tr: "fst te \<in> knownSymbols fs \<and> support (snd te) \<subseteq> knownSymbols fs" if "te \<in> set (pb_transitions0 p @ pb_transitions1 p)" for te
    using r that by blast
  have cert: "support c \<subseteq> knownSymbols fs" if "pb_learnedInternalRelationInvariant p = Some c" for c using r that by blast
  have ini: "support ini \<subseteq> knownSymbols fs" using r by blast
  note free = readsBelow_frames [OF fs]
  have le: "d + 1 \<le> fs_numFrames fs" "d < fs_numFrames fs" "0 < fs_numFrames fs" using n by simp_all
  obtain s1 where 1: "addImcComplementedStateRelations fs (pb_complementedStatePairs0 p) (d + 1) s = Inr s1"
    "restricts s s1 (?pairs (pb_complementedStatePairs0 p))"
    using imcComplements_restrict [OF fs s le(1), of "pb_complementedStatePairs0 p"] pairs01 by blast
  note i1 = storeInv_mono [OF fs restrictsD(2) [OF 1(2)]] restrictsD(1) [OF 1(2)]
  obtain s2 where 2: "addImcComplementedStateRelations fs (pb_complementedStatePairs1 p) (d + 1) s1 = Inr s2"
    "restricts s1 s2 (?pairs (pb_complementedStatePairs1 p))"
    using imcComplements_restrict [OF i1 le(1), of "pb_complementedStatePairs1 p"] pairs01 by blast
  note r2 = restricts_trans [OF 1(2) 2(2) free]
  note i2 = storeInv_mono [OF fs restrictsD(2) [OF r2]] restrictsD(1) [OF r2]
  obtain s3 where 3: "assertCertifiedFrames fs p d s2 = Inr s3"
    "restricts s2 s3 (\<lambda>M. \<forall>f < d + 1. holdsOpt (?v M f) (pb_learnedInternalRelationInvariant p))"
    using certified_restrict [OF i2 le(2) cert] by blast
  note r3 = restricts_trans [OF r2 3(2) free]
  note i3 = storeInv_mono [OF fs restrictsD(2) [OF r3]] restrictsD(1) [OF r3]
  obtain s4 where 4: "foldE (addImcTransitionRelation fs p) [0..<d] s3 = Inr s4"
    "restricts s3 s4 (\<lambda>M. \<forall>f < d. imcStep p (?v M f) (?v M (Suc f)))"
    using steps_restrict [OF i3 le(2) tr] by blast
  note r4 = restricts_trans [OF r3 4(2) free]
  note i4 = storeInv_mono [OF fs restrictsD(2) [OF r4]] restrictsD(1) [OF r4]
  obtain s5 where 5: "assertOnFrame fs 0 ini s4 = Inr s5" "restricts s4 s5 (\<lambda>M. eval (?v M 0) ini)"
    using assertOnFrame_restricts [OF i4 le(3) ini] by blast
  note r5 = restricts_trans [OF r4 5(2) free]
  note i5 = storeInv_mono [OF fs restrictsD(2) [OF r5]] restrictsD(1) [OF r5]
  obtain s6 where 6: "assertOnFrame fs d target s5 = Inr s6" "restricts s5 s6 (\<lambda>M. eval (?v M d) target)"
    using assertOnFrame_restricts [OF i5 le(2) target] by blast
  have "restricts s s6 (\<lambda>M. imcPath p ini d (?v M) \<and> eval (?v M d) target)"
    by (rule restricts_weaken [OF restricts_trans [OF r5 6(2) free]])
      (unfold imcPath_def imcLegal_def complementPairs_def set_append ball_Un less_Suc_eq_le Suc_eq_plus1 [symmetric], blast)
  moreover have "reachInstance fs p ini target d s = Inr s6"
    by (simp add: reachInstance_def 1(1) [unfolded Suc_eq_plus1 [symmetric]] 2(1) [unfolded Suc_eq_plus1 [symmetric]] 3(1) 4(1) 5(1) 6(1))
  ultimately show ?thesis by blast
qed

section \<open>What the instance decides\<close>

lemma imcPath_cong:
  assumes ready: "imcReady p ini" and same: "\<And>f x. f \<le> d \<Longrightarrow> x \<in> set (pb_allSymbols p) \<Longrightarrow> envs f x = envs' f x"
  shows "imcPath p ini d envs = imcPath p ini d envs'"
proof -
  note r = ready [unfolded imcReady_def Let_def]
  have on: "eval (envs f) e = eval (envs' f) e" if "f \<le> d" "support e \<subseteq> set (pb_allSymbols p)" for f e
    by (rule eval_cong) (use same that in blast)
  have pairs: "envs f (snd pc) = envs' f (snd pc) \<and> envs f (fst pc) = envs' f (fst pc)" if "f \<le> d" "pc \<in> set (complementPairs p)" for f pc
    using r same that by blast
  have legal: "imcLegal p (envs f) = imcLegal p (envs' f)" if f: "f \<le> d" for f
    using pairs [OF f] on [OF f] r unfolding imcLegal_def holdsOpt_def by (auto split: option.splits)
  have step: "imcStep p (envs f) (envs (Suc f)) = imcStep p (envs' f) (envs' (Suc f))" if f: "f < d" for f
  proof -
    have "(envs (Suc f) (fst te) = eval (envs f) (snd te)) = (envs' (Suc f) (fst te) = eval (envs' f) (snd te))"
      if te: "te \<in> set (pb_transitions0 p @ pb_transitions1 p)" for te
    proof -
      have "fst te \<in> set (pb_allSymbols p)" "support (snd te) \<subseteq> set (pb_allSymbols p)" using r te by blast+
      then show ?thesis using same [of "Suc f" "fst te"] on [of f "snd te"] f by simp
    qed
    then show ?thesis by (simp add: imcStep_def)
  qed
  have "eval (envs 0) ini = eval (envs' 0) ini" by (rule on) (use r in auto)
  then show ?thesis using legal step by (simp add: imcPath_def)
qed

lemma cubeHolds_cong:
  assumes "\<And>x. x \<in> set xs \<Longrightarrow> env x = env' x"
  shows "cubeHolds xs a env = cubeHolds xs a env'"
proof -
  have "symValue env (xs ! i) = symValue env' (xs ! i)" if "i < length xs" for i
    using assms [OF nth_mem [OF that]] by (simp add: symValue_def)
  then show ?thesis by (simp add: cubeHolds_def)
qed

lemma isStateReachable_ok:
  assumes B: "soundBackend B" "completeBackend B" and ready: "imcReady p ini" and xs: "set xs \<subseteq> set (pb_allSymbols p)"
  shows "isStateReachableAtDepth B p t ini xs a d = Inr (\<exists>envs. imcPath p ini d envs \<and> cubeHolds xs a (envs d))"
proof -
  let ?A = "set (pb_allSymbols p)" and ?cube = "buildAssignmentCube xs a"
  have dist: "distinct (pb_allSymbols p)" using ready by (simp add: imcReady_def Let_def)
  obtain fs s where f: "newFrameStore (pb_allSymbols p) (d + 1) (newSolver t) = (fs, s)" by fastforce
  have fs: "storeInv fs (sv_vars s)" "knownSymbols fs = ?A" "fs_numFrames fs = d + 1" "sv_clauses s = []"
    using newFrameStore_ok [OF f dist] by (auto simp: knownSymbols_def newSolver_def)
  have s0: "solverInv s" "\<And>M. models M s" using fs(4) by (simp_all add: solverInv_def models_def satisfies_def)
  have target: "support ?cube \<subseteq> knownSymbols fs" using cube_support [of xs a] xs fs(2) by blast
  obtain s' where s': "reachInstance fs p ini ?cube d s = Inr s'"
    "restricts s s' (\<lambda>M. imcPath p ini d (frameValue fs M) \<and> eval (frameValue fs M d) ?cube)"
    using reachInstance_restricts [OF fs(1) s0(1) fs(3) ready fs(2) target] by blast
  have "sv_kissatLimits s' = (- 1, - 1)"
    using sameBackend_trans [OF newFrameStore_backend [OF f] restrictsD(3) [OF s'(2)]] by (simp add: sameBackend_def newSolver_def)
  then have "solve B s' \<longleftrightarrow> (\<exists>M. models M s')" by (rule solve_iff [OF B])
  also have "\<dots> \<longleftrightarrow> (\<exists>M. imcPath p ini d (frameValue fs M) \<and> cubeHolds xs a (frameValue fs M d))"
    using s'(2) s0(2) unfolding restricts_def cube_eval by blast
  also have "\<dots> \<longleftrightarrow> (\<exists>envs. imcPath p ini d envs \<and> cubeHolds xs a (envs d))"
  proof (intro iffI; elim exE)
    fix envs assume e: "imcPath p ini d envs \<and> cubeHolds xs a (envs d)"
    obtain M where M: "\<forall>x f. hasSymbol fs x \<longrightarrow> f < fs_numFrames fs \<longrightarrow> frameValue fs M f x = envs f x"
      using frames_free [OF fs(1), where envs = envs] by auto
    have same: "frameValue fs M f x = envs f x" if "f \<le> d" "x \<in> ?A" for f x
      using M that fs(2,3) by (auto simp: knownSymbols_def)
    have "cubeHolds xs a (frameValue fs M d) = cubeHolds xs a (envs d)"
      by (rule cubeHolds_cong) (use same [OF order_refl] xs in blast)
    then show "\<exists>M. imcPath p ini d (frameValue fs M) \<and> cubeHolds xs a (frameValue fs M d)"
      using e imcPath_cong [where envs = "frameValue fs M" and envs' = envs, OF ready same] by blast
  qed blast
  finally show ?thesis by (simp add: isStateReachableAtDepth_def f s'(1) del: add_Suc_right One_nat_def)
qed

section \<open>The frontier\<close>

definition reachedAt :: "problem \<Rightarrow> bexpr \<Rightarrow> nat \<Rightarrow> (var_id \<Rightarrow> bool) \<Rightarrow> bool" where
  "reachedAt p ini d env = (\<exists>envs. imcPath p ini d envs \<and>
     (\<forall>x \<in> set (combinedStateSymbols p). symValue (envs d) x = symValue env x))"

definition reachedWithin :: "problem \<Rightarrow> bexpr \<Rightarrow> nat \<Rightarrow> (var_id \<Rightarrow> bool) \<Rightarrow> bool" where
  "reachedWithin p ini k env = (\<exists>d \<le> k. reachedAt p ini d env)"

lemma anyE_total: "(\<And>x. x \<in> set xs \<Longrightarrow> f x = Inr (P x)) \<Longrightarrow> anyE f xs = Inr (\<exists>x \<in> set xs. P x)"
  by (induction xs) auto

lemma collectReachable_ok:
  assumes B: "soundBackend B" "completeBackend B" and ready: "imcReady p ini"
  shows "collectReachable B p t ini k a acc =
    Inr (if \<exists>d \<le> k. \<exists>envs. imcPath p ini d envs \<and> cubeHolds (combinedStateSymbols p) a (envs d)
      then (mkOr (fst acc) (buildAssignmentCube (combinedStateSymbols p) a), True) else acc)"
proof -
  have states: "set (combinedStateSymbols p) \<subseteq> set (pb_allSymbols p)" using ready by (simp add: imcReady_def Let_def)
  have "anyE (isStateReachableAtDepth B p t ini (combinedStateSymbols p) a) [0..<k + 1] =
      Inr (\<exists>d \<in> set [0..<k + 1]. \<exists>envs. imcPath p ini d envs \<and> cubeHolds (combinedStateSymbols p) a (envs d))"
    by (rule anyE_total) (rule isStateReachable_ok [OF B ready states])
  moreover have "set [0..<k + 1] = {..k}" by auto
  ultimately show ?thesis by (simp only: collectReachable_def bindE_simps Bex_def atMost_iff)
qed

lemma cube_reached:
  assumes "cubeHolds (combinedStateSymbols p) a env"
  shows "(\<exists>d \<le> k. \<exists>envs. imcPath p ini d envs \<and> cubeHolds (combinedStateSymbols p) a (envs d)) = reachedWithin p ini k env"
  unfolding reachedWithin_def reachedAt_def using cubeHolds_same [OF assms] by blast

lemma collectReachable_fold:
  assumes B: "soundBackend B" "completeBackend B" and ready: "imcReady p ini"
  shows "\<exists>r b. foldE (collectReachable B p t ini k) as (e, b0) = Inr (r, b) \<and>
    (\<forall>env. eval env r = (eval env e \<or> (\<exists>a \<in> set as. cubeHolds (combinedStateSymbols p) a env) \<and> reachedWithin p ini k env)) \<and>
    (b = (b0 \<or> (\<exists>a \<in> set as. \<exists>d \<le> k. \<exists>envs. imcPath p ini d envs \<and> cubeHolds (combinedStateSymbols p) a (envs d))))"
proof (induction as arbitrary: e b0)
  case (Cons a as)
  let ?hit = "\<exists>d \<le> k. \<exists>envs. imcPath p ini d envs \<and> cubeHolds (combinedStateSymbols p) a (envs d)"
  let ?e = "if ?hit then mkOr e (buildAssignmentCube (combinedStateSymbols p) a) else e" and ?b = "b0 \<or> ?hit"
  have step: "collectReachable B p t ini k a (e, b0) = Inr (?e, ?b)"
    unfolding collectReachable_ok [OF B ready]
    by (cases ?hit) (simp_all only: if_True if_False fst_conv simp_thms)
  have e: "eval env ?e = (eval env e \<or> cubeHolds (combinedStateSymbols p) a env \<and> reachedWithin p ini k env)" for env
    using cube_reached [of p a env k ini] by (auto simp: cube_eval)
  obtain r b where r: "foldE (collectReachable B p t ini k) as (?e, ?b) = Inr (r, b)"
    "\<forall>env. eval env r = (eval env ?e \<or> (\<exists>a \<in> set as. cubeHolds (combinedStateSymbols p) a env) \<and> reachedWithin p ini k env)"
    "b = (?b \<or> (\<exists>a \<in> set as. \<exists>d \<le> k. \<exists>envs. imcPath p ini d envs \<and> cubeHolds (combinedStateSymbols p) a (envs d)))"
    using Cons.IH by blast
  have "foldE (collectReachable B p t ini k) (a # as) (e, b0) = Inr (r, b)" using step r(1) by simp
  moreover have "eval env r = (eval env e \<or> (\<exists>a \<in> set (a # as). cubeHolds (combinedStateSymbols p) a env) \<and> reachedWithin p ini k env)" for env
    using r(2) e [of env] by auto
  moreover have "b = (b0 \<or> (\<exists>a \<in> set (a # as). \<exists>d \<le> k. \<exists>envs. imcPath p ini d envs \<and> cubeHolds (combinedStateSymbols p) a (envs d)))"
    using r(3) by auto
  ultimately show ?case by blast
qed simp

lemma exactFrontier_ok:
  assumes B: "soundBackend B" "completeBackend B" and ready: "imcReady p ini"
    and n: "combinedStateSymbols p \<noteq> []" "length (combinedStateSymbols p) \<le> m" "m < 64"
  shows "\<exists>r. buildExactReachableStateInvariant B p t (Some ini) k m = Inr r \<and>
    (r = None \<longleftrightarrow> \<not> (\<exists>env. reachedWithin p ini k env)) \<and>
    (\<forall>f. r = Some f \<longrightarrow> (\<forall>env. eval env f = reachedWithin p ini k env))"
proof -
  let ?S = "combinedStateSymbols p"
  obtain r b where r: "foldE (collectReachable B p t ini k) (assignments ?S) (createFalse, False) = Inr (r, b)"
    "\<forall>env. eval env r = (eval env createFalse \<or> (\<exists>a \<in> set (assignments ?S). cubeHolds ?S a env) \<and> reachedWithin p ini k env)"
    "b = (\<exists>a \<in> set (assignments ?S). \<exists>d \<le> k. \<exists>envs. imcPath p ini d envs \<and> cubeHolds ?S a (envs d))"
    using collectReachable_fold [OF B ready, of t k "assignments ?S" createFalse False] by auto
  have all: "\<exists>a \<in> set (assignments ?S). cubeHolds ?S a env" for env by (rule assignment_exists) (use n in simp)
  have "eval env (simplify r) = reachedWithin p ini k env" for env using r(2) all [of env] by (simp add: simplify_eval)
  moreover have "b = (\<exists>env. reachedWithin p ini k env)"
    unfolding r(3) reachedWithin_def reachedAt_def using all by (metis cubeHolds_same)
  ultimately show ?thesis using r(1) n by (simp add: buildExactReachableStateInvariant_def Let_def)
qed

lemma exactFrontier_all:
  assumes B: "soundBackend B" "completeBackend B" and ready: "imcReady p ini" and m: "m < 64"
  shows "\<exists>r. buildExactReachableStateInvariant B p t (Some ini) k m = Inr r \<and>
    (r = None \<longleftrightarrow> combinedStateSymbols p = [] \<or> m < length (combinedStateSymbols p) \<or> \<not> (\<exists>env. reachedWithin p ini k env)) \<and>
    (\<forall>f. r = Some f \<longrightarrow> (\<forall>env. eval env f = reachedWithin p ini k env))"
proof (cases "combinedStateSymbols p = [] \<or> m < length (combinedStateSymbols p)")
  case True
  then have "buildExactReachableStateInvariant B p t (Some ini) k m = Inr None"
    by (auto simp: buildExactReachableStateInvariant_def Let_def)
  with True show ?thesis by (intro exI [of _ None]) blast
next
  case False
  then show ?thesis using exactFrontier_ok [OF B ready _ _ m, of t k] by auto
qed

end
