(* ===== verification/Imc_Run.thy ===== *)
theory Imc_Run
  imports Imc_Frontier KI_Engine_Correct
begin

text \<open>
  Why an accepted proof of the interpolation engine is right: a formula that the initial frontier
  implies and that the induction query finds closed holds in every frame of a run from the end of
  the reset prefix on, when the startup of the base queries is the one the proof formulas state.
\<close>

section \<open>The two startups\<close>

text \<open>The base queries read the startup from the reset prefix, the assignments and the modes, the proofs
  from \<open>buildProofInitFormula\<close>.  They agree when the reset prefix is run whenever it is configured,
  and when initial facts are only given where the modes look at them.\<close>

definition startAgrees :: "problem \<Rightarrow> bool" where
  "startAgrees p =
    ((resetBootstrapFrames p = 0 \<longrightarrow> pb_resetBootstrapCycles p = 0) \<and>
     (\<forall>(x, v) \<in> set (pb_initialStateAssignments p) \<union> set (pb_bootstrapStateAssignments p). 2 \<le> x) \<and>
     (pb_resetBootstrapCycles p = 0 \<longrightarrow>
       (pb_initialStateAssignments p \<noteq> [] \<longrightarrow> pb_initialCondition p = Some createTrue \<and> hasExplicitInitialState p) \<and>
       (hasExplicitInitialState p \<or> pb_initialCondition p = None \<or> pb_initialCondition p = Some createTrue)))"

lemma assignments_agree:
  assumes "\<forall>(x, v) \<in> set xs. 2 \<le> x"
  shows "assignmentHolds xs env = assignsOn UNIV xs env"
  using assms symValue_plain by (fastforce simp: assignmentHolds_def assignsOn_def)

lemma start_initial:
  assumes run: "startRun p envs" and agree: "startAgrees p" and rails: "\<not> pb_usesDualRailStateEncoding p"
    and state: "combinedStateSymbols p \<noteq> []"
  shows "initHolds p (envs (resetBootstrapFrames p))"
proof (cases "resetBootstrapFrames p = 0")
  case False
  then have "pb_resetBootstrapCycles p \<noteq> 0" by (rule resetBootstrap_cycles)
  moreover have "assignmentHolds (pb_bootstrapStateAssignments p) (envs (resetBootstrapFrames p))"
    using run False rails assignments_agree [of "pb_bootstrapStateAssignments p"] agree
    by (auto simp: startRun_def Let_def startAgrees_def)
  ultimately show ?thesis by (simp add: initHolds_def)
next
  case True
  then have c: "pb_resetBootstrapCycles p = 0" using agree by (simp add: startAgrees_def)
  have ini: "initialOn p UNIV (determineInitialConstraintMode p) (envs 0)" using run True by (simp add: startRun_def)
  have seq: "hasSequentialState p" using state combinedStateSymbols_empty by blast
  let ?as = "pb_initialStateAssignments p"
  have facts: "?as \<noteq> [] \<Longrightarrow> pb_initialCondition p = Some createTrue \<and> hasExplicitInitialState p"
    "hasExplicitInitialState p \<or> pb_initialCondition p = None \<or> pb_initialCondition p = Some createTrue"
    using agree c by (auto simp: startAgrees_def)
  have as: "assignmentHolds ?as env = assignsOn UNIV ?as env" for env
    by (rule assignments_agree) (use agree in \<open>auto simp: startAgrees_def\<close>)
  have complete: "hasCompleteInitialState p \<Longrightarrow> hasExplicitInitialState p"
    by (simp add: hasCompleteInitialState_def hasExplicitInitialState_def)
  have start: "if pb_initialCondition p = Some createTrue \<and> ?as \<noteq> [] then assignmentHolds ?as (envs 0)
      else holdsOpt (envs 0) (pb_initialCondition p)"
  proof (cases "hasExplicitInitialState p")
    case True
    then have "determineInitialConstraintMode p \<in> {CompleteInit, PartialInit}"
      using seq by (simp add: determineInitialConstraintMode_def)
    then show ?thesis using ini facts(1) as
      by (auto simp: initialOn_def hasStructuredInitialAssignments_def holdsOpt_def split: if_splits option.splits)
  next
    case False
    then show ?thesis using facts by (auto simp: holdsOpt_def)
  qed
  have "holdsOpt (envs 0) (pb_property p)" if obs: "needsObservationFrontier p"
  proof -
    have "determineInitialConstraintMode p \<in> {ObservationOnly, PartialInit}"
      using obs complete by (auto simp: determineInitialConstraintMode_def needsObservationFrontier_def)
    then show ?thesis using ini obs by (auto simp: initialOn_def holdsOpt_def split: option.splits)
  qed
  then show ?thesis using start c True by (simp add: initHolds_def)
qed

section \<open>Runs stay inside an inductive formula\<close>

lemma eager_transitions: "buildTransitionExprByStateSymbol p = tr_eager (newResolver p)"
  by (simp add: buildTransitionExprByStateSymbol_def newResolver_def)

lemma run_targets:
  assumes "problemRun p envs"
  shows "targetsStep (set (formulaTargets p c)) (buildTransitionExprByStateSymbol p) (envs n) (envs (Suc n))"
proof -
  have "envs (Suc n) t = eval (envs n) (the (buildTransitionExprByStateSymbol p t))" if t: "t \<in> set (formulaTargets p c)" for t
  proof -
    obtain e where e: "tr_eager (newResolver p) t = Some e"
      using t expandTransitionTargets_dom unfolding formulaTargets_def eager_transitions by blast
    then have "resolverContains t (newResolver p)" "resolvedTo (newResolver p) t e"
      by (simp_all add: resolverContains_def resolvedTo_def)
    then have "envs (Suc n) t = eval (envs n) e"
      using assms unfolding problemRun_def targetHolds_def by blast
    then show ?thesis by (simp add: eager_transitions e)
  qed
  then show ?thesis by (simp add: targetsStep_def)
qed

lemma relations_legal: "relationsOn UNIV p env \<Longrightarrow> legalOn UNIV p env"
  by (simp add: relationsOn_def legalOn_def)

lemma invariant_run:
  assumes B: "soundBackend B" "completeBackend B" and cache: "supportCacheOk cache"
    and step: "isInductiveInvariant B p (Some candidate) t cache certified = Inr (True, cache')"
    and start: "eval (envs (resetBootstrapFrames p)) candidate"
    and cert: "\<And>c f. certified = Some c \<Longrightarrow> resetBootstrapFrames p \<le> f \<Longrightarrow> eval (envs f) c"
    and run: "problemRun p envs" and n: "resetBootstrapFrames p \<le> n"
  shows "eval (envs n) candidate"
  using n
proof (induction n rule: dec_induct)
  case base
  then show ?case by (rule start)
next
  case (step n)
  obtain Q where Q: "\<not> leavingStep p Q (hypothesisOf candidate certified) candidate (envs n) (envs (Suc n))"
    using isInductiveInvariant_sound [OF B cache assms(4)] by blast
  have "eval (envs n) (hypothesisOf candidate certified)"
    using step.IH cert [OF _ step.hyps(1)] by (auto simp: hypothesisOf_def split: option.split)
  moreover have "resetOn Q p (envs n)" using run step.hyps(1) by (simp add: problemRun_def resetOn_def)
  moreover have "legalOn Q p (envs f)" for f
    using run legalOn_mono [OF relations_legal] by (simp add: problemRun_def)
  ultimately show ?case using Q run_targets [OF run] unfolding leavingStep_def by blast
qed

section \<open>An accepted proof\<close>

text \<open>The relations learned between internal states hold in the runs.\<close>

definition certifiedOnRuns :: "problem \<Rightarrow> bool" where
  "certifiedOnRuns p = (\<forall>c envs f. pb_learnedInternalRelationInvariant p = Some c \<longrightarrow> problemRun p envs \<longrightarrow>
     resetBootstrapFrames p \<le> f \<longrightarrow> eval (envs f) c)"

lemma provesImc_safe:
  assumes B: "soundBackend B" "completeBackend B" and p: "baseProblem p property badness"
    and rails: "\<not> pb_usesDualRailStateEncoding p" and state: "combinedStateSymbols p \<noteq> []"
    and agree: "startAgrees p" and cert: "certifiedOnRuns p"
    and r: "provesImcInvariant B p t (imcInitFormula p) invariant = Inr True"
  shows "safeProblem p badness"
proof -
  let ?cert = "pb_learnedInternalRelationInvariant p"
  obtain candidate where c: "invariant = Some candidate" using r by (auto simp: provesImcInvariant_def split: if_splits)
  obtain i where i: "imcInitFormula p = Some i"
    using r by (cases "imcInitFormula p") (auto simp: provesImcInvariant_def initialFrontierImplies_def split: if_splits)
  obtain cache where s: "initialFrontierImplies B (Some i) (Some candidate) t = Inr True"
    "isInductiveInvariant B p (Some candidate) t Map.empty ?cert = Inr (True, cache)"
    "invariantExcludesBadStates B p (Some candidate) t ?cert = Inr True"
    using r by (auto simp: provesImcInvariant_def c i bindE_Inr_iff split: if_splits)
  obtain ini where ini: "buildProofInitFormula p = Some ini"
    "i = (case ?cert of None \<Rightarrow> ini | Some f \<Rightarrow> mkAnd ini f)"
    using i by (auto simp: imcInitFormula_def split: option.splits if_splits)
  have bad: "pb_bad p = Some badness" using p by (simp add: baseProblem_def)
  have "\<not> eval (envs n) badness" if run: "problemRun p envs" and n: "firstChecked p \<le> n" for envs n
  proof -
    have n': "resetBootstrapFrames p \<le> n" using firstChecked_range(1) [of p] n by simp
    have holds: "\<And>f g. ?cert = Some f \<Longrightarrow> resetBootstrapFrames p \<le> g \<Longrightarrow> eval (envs g) f"
      using cert run by (auto simp: certifiedOnRuns_def)
    have "initHolds p (envs (resetBootstrapFrames p))"
      by (rule start_initial [OF _ agree rails state]) (use run in \<open>simp add: problemRun_def\<close>)
    then have "eval (envs (resetBootstrapFrames p)) i"
      using initFormula_eval [of p] ini holds by (auto split: option.splits)
    then have "eval (envs (resetBootstrapFrames p)) candidate"
      using initialFrontierImplies_ok [OF B] s(1) by (simp add: implies_def)
    then have "eval (envs n) candidate"
      by (rule invariant_run [OF B supportCacheOk_empty s(2) _ holds run n'])
    then show ?thesis by (rule invariantExcludes_sound [OF B s(3) _ holds [OF _ n'] bad])
  qed
  then show ?thesis by (simp add: safeProblem_def)
qed

section \<open>What an answer says\<close>

definition imcMeans :: "problem \<Rightarrow> bexpr \<Rightarrow> nat \<Rightarrow> imc_result \<Rightarrow> bool" where
  "imcMeans p badness maxK r =
    ((ir_status r = ImcDifferent \<longrightarrow> (\<exists>c. ir_witness r = Some c \<and> ir_bound r = cw_badFrame c \<and> confirmed p c)) \<and>
     (ir_status r = ImcEquivalent \<longrightarrow> stateClosed p \<longrightarrow> startAgrees p \<longrightarrow> certifiedOnRuns p \<longrightarrow> safeProblem p badness) \<and>
     (ir_status r = ImcInconclusive \<longrightarrow> ir_bound r = maxK \<and> (\<forall>k \<le> maxK. frontierSafe p k)))"

lemma different_imc: "confirmed p c \<Longrightarrow> imcMeans p badness maxK (imcDifferent c)"
  by (simp add: imcMeans_def imcDifferent_def)

lemma equivalent_imc:
  "(stateClosed p \<Longrightarrow> startAgrees p \<Longrightarrow> certifiedOnRuns p \<Longrightarrow> safeProblem p badness) \<Longrightarrow> imcMeans p badness maxK (imcResult ImcEquivalent n)"
  by (simp add: imcMeans_def imcResult_def)

lemma firstSome_none: "firstSomeE f xs = Inr None \<Longrightarrow> x \<in> set xs \<Longrightarrow> f x = Inr None"
  by (induction xs) (auto simp: bindE_Inr_iff split: option.splits)

lemma firstSome_some: "firstSomeE f xs = Inr (Some y) \<Longrightarrow> \<exists>x \<in> set xs. f x = Inr (Some y)"
  by (induction xs) (auto simp: bindE_Inr_iff split: option.splits)

lemma firstSome_total: "(\<And>x. x \<in> set xs \<Longrightarrow> \<exists>y. f x = Inr y) \<Longrightarrow> \<exists>y. firstSomeE f xs = Inr y"
proof (induction xs)
  case (Cons x xs)
  obtain y where "f x = Inr y" using Cons.prems by auto
  moreover obtain z where "firstSomeE f xs = Inr z" using Cons by auto
  ultimately show ?case by (cases y) auto
qed simp

lemma imcCounterexample_ok:
  assumes "soundBackend B" "completeBackend B" "baseProblem p property badness" "\<not> pb_usesDualRailStateEncoding p" "directFrontier p t"
  shows "\<exists>w. findImcCounterexample B (makeImcBaseCounterexampleCache p) t k = Inr (map_option imcDifferent w) \<and>
    (w = None \<longrightarrow> frontierSafe p k) \<and> (\<forall>c. w = Some c \<longrightarrow> confirmed p c)"
proof -
  obtain w where "findKInductionBaseCounterexampleAtFrontier B (makeImcBaseCounterexampleCache p) t k = Inr w"
    "w = None \<longrightarrow> frontierSafe p k" "\<forall>c. w = Some c \<longrightarrow> confirmed p c"
    using frontier_ok [OF assms, of k] by blast
  then show ?thesis by (intro exI [of _ w]) (simp add: findImcCounterexample_def)
qed

lemma imcDepth_means:
  assumes B: "soundBackend B" "completeBackend B" and p: "baseProblem p property badness"
    and rails: "\<not> pb_usesDualRailStateEncoding p" and direct: "directFrontier p t" and state: "combinedStateSymbols p \<noteq> []"
    and r: "imcDepth B p (makeImcBaseCounterexampleCache p) t (imcInitFormula p) shared k = Inr v"
  shows "(v = None \<longrightarrow> frontierSafe p k) \<and> (\<forall>r. v = Some r \<longrightarrow> imcMeans p badness maxK r \<and> ir_status r \<noteq> ImcInconclusive)"
proof -
  obtain w where w: "findImcCounterexample B (makeImcBaseCounterexampleCache p) t k = Inr (map_option imcDifferent w)"
    "w = None \<longrightarrow> frontierSafe p k" "\<forall>c. w = Some c \<longrightarrow> confirmed p c"
    using imcCounterexample_ok [OF B p rails direct] by blast
  show ?thesis
  proof (cases w)
    case (Some c)
    then have "v = Some (imcDifferent c)" using r w(1) by (simp add: imcDepth_def)
    then show ?thesis using w(3) Some different_imc by (auto simp: imcDifferent_def)
  next
    case None
    have "v = None \<or> v = Some (imcResult ImcEquivalent k) \<and> (\<exists>c. provesImcInvariant B p t (imcInitFormula p) c = Inr True)"
    proof (cases "imcInitFormula p")
      case i: (Some i)
      obtain f where f: "buildExactReachableStateInvariant B p t (Some i) k kImcMaxStateBits = Inr f"
        "(case f of None \<Rightarrow> Inr None
          | Some f \<Rightarrow> bindE (provesImcInvariant B p t (Some i) (Some (case shared of None \<Rightarrow> f | Some s \<Rightarrow> simplify (mkAnd f s))))
              (\<lambda>proved. Inr (if proved then Some (imcResult ImcEquivalent k) else None))) = Inr v"
        using r w(1) None i by (auto simp: imcDepth_def bindE_Inr_iff)
      show ?thesis
      proof (cases f)
        case (Some g)
        then obtain proved where "provesImcInvariant B p t (Some i) (Some (case shared of None \<Rightarrow> g | Some s \<Rightarrow> simplify (mkAnd g s))) = Inr proved"
          "v = (if proved then Some (imcResult ImcEquivalent k) else None)"
          using f(2) by (auto simp: bindE_Inr_iff simp del: option.case_eq_if)
        then show ?thesis using i by (cases proved) auto
      qed (use f(2) in simp)
    qed (use r w(1) None in \<open>simp add: imcDepth_def\<close>)
    then show ?thesis
      using w(2) None equivalent_imc provesImc_safe [OF B p rails state] by (auto simp: imcResult_def)
  qed
qed

lemma runImc_means:
  assumes B: "soundBackend B" "completeBackend B" and p: "baseProblem p property badness"
    and rails: "\<not> pb_usesDualRailStateEncoding p" and direct: "directFrontier p t"
    and r: "runImc B p t maxK craig = Inr r"
  shows "imcMeans p badness maxK r"
proof -
  let ?c = "makeImcBaseCounterexampleCache p"
  obtain w where w: "findImcCounterexample B ?c t 0 = Inr (map_option imcDifferent w)"
    "w = None \<longrightarrow> frontierSafe p 0" "\<forall>c. w = Some c \<longrightarrow> confirmed p c"
    using imcCounterexample_ok [OF B p rails direct] by blast
  have craig: "\<not> usesCraigImc p" using rails by (simp add: usesCraigImc_def)
  show ?thesis
  proof (cases w)
    case (Some c)
    then have "r = imcDifferent c" using r w(1) craig by (auto simp: runImc_def Let_def split: if_splits)
    then show ?thesis using w(3) Some different_imc by blast
  next
    case None
    show ?thesis
    proof (cases "combinedStateSymbols p = []")
      case True
      have seq: "\<not> hasSequentialState p" using True combinedStateSymbols_empty by blast
      have "firstChecked p = resetBootstrapFrames p"
        using seq by (simp add: firstChecked_def determineInitialConstraintMode_def usesResetBootstrapObservationFrontier_def Let_def)
      then have "prefixSafe p 0" using w(2) None by (simp add: prefixSafe_def frontierSafe_def)
      then have "stateClosed p \<Longrightarrow> safeProblem p badness" using stateless_safe [OF p rails _ True] by blast
      moreover have "r = imcResult ImcEquivalent 0" using r w(1) None True by (simp add: runImc_def Let_def)
      ultimately show ?thesis using equivalent_imc by blast
    next
      case False
      obtain shared proved where run: "(if imcInitFormula p = None then Inr False else provesImcInvariant B p t (imcInitFormula p) shared) = Inr proved"
        "(if proved then Inr (imcResult ImcEquivalent 1)
          else bindE (firstSomeE (imcDepth B p ?c t (imcInitFormula p) shared) [1..<maxK + 1]) (\<lambda>result.
            Inr (case result of Some r \<Rightarrow> r | None \<Rightarrow> imcResult ImcInconclusive maxK))) = Inr r"
        using r w(1) None False craig by (auto simp: runImc_def Let_def bindE_Inr_iff)
      show ?thesis
      proof (cases proved)
        case True
        then show ?thesis using run provesImc_safe [OF B p rails False] equivalent_imc by (auto split: if_splits)
      next
        case notyet: False
        then obtain v where v: "firstSomeE (imcDepth B p ?c t (imcInitFormula p) shared) [1..<maxK + 1] = Inr v"
          "r = (case v of Some r \<Rightarrow> r | None \<Rightarrow> imcResult ImcInconclusive maxK)"
          using run(2) by (auto simp: bindE_Inr_iff)
        note depth = imcDepth_means [OF B p rails direct False]
        show ?thesis
        proof (cases v)
          case (Some x)
          obtain k where "imcDepth B p ?c t (imcInitFormula p) shared k = Inr (Some x)"
            using firstSome_some [OF v(1) [unfolded Some]] by blast
          from depth [OF this, where maxK = maxK] have "imcMeans p badness maxK x" by blast
          then show ?thesis using v(2) Some by simp
        next
          case vn: None
          have "frontierSafe p k" if "k \<le> maxK" for k
          proof (cases "k = 0")
            case False
            then have "k \<in> set [1..<maxK + 1]" unfolding set_upt using that by (intro atLeastLessThan_iff [THEN iffD2] conjI) linarith+
            from depth [OF firstSome_none [OF v(1) [unfolded vn] this]] show ?thesis by blast
          qed (use w(2) None in simp)
          then show ?thesis using v(2) vn by (simp add: imcMeans_def imcResult_def)
        qed
      qed
    qed
  qed
qed

section \<open>The engine returns\<close>

text \<open>Without learned relations no query of the engine can miss a symbol.\<close>

lemma provesImc_total:
  assumes B: "soundBackend B" "completeBackend B" and cert: "pb_learnedInternalRelationInvariant p = None"
  shows "\<exists>b. provesImcInvariant B p t (Some i) invariant = Inr b"
proof (cases invariant)
  case (Some c)
  obtain b cache where ind: "isInductiveInvariant B p (Some c) t Map.empty None = Inr (b, cache)"
    using isInductiveInvariant_exact [OF B supportCacheOk_empty, of c None p t] by (auto simp: hypothesisOf_def)
  have "\<exists>b. invariantExcludesBadStates B p (Some c) t None = Inr b"
    by (cases "pb_bad p") (auto simp: invariantExcludesBadStates_def isProofFormulaSatisfiable_ok [OF B])
  then show ?thesis using ind by (auto simp: provesImcInvariant_def Some cert initialFrontierImplies_ok [OF B])
qed (auto simp: provesImcInvariant_def)

lemma strengthening_total:
  assumes B: "soundBackend B" "completeBackend B" and ready: "exactReady p" and cert: "pb_learnedInternalRelationInvariant p = None"
  shows "\<exists>s. buildInitialImcStrengthening B p t ini = Inr s"
proof (cases ini)
  case (Some i)
  obtain d where d: "deriveOneStepReachableStateInvariant B p t kImcMaxStateBits = Inr d"
  proof (cases "length (combinedStateSymbols p) \<le> kImcMaxStateBits")
    case True
    then show ?thesis using derive_ok [OF B ready cert True, of t] that by (auto simp: kImcMaxStateBits_def)
  qed (use that in \<open>simp add: deriveOneStepReachableStateInvariant_def Let_def\<close>)
  have "\<exists>s. selectValidatedStrengtheningInvariant B p (Some i) t = Inr s"
    by (cases "pb_inductionProperty p") (simp_all add: selectValidatedStrengtheningInvariant_def initialFrontierImplies_ok [OF B])
  then show ?thesis using d by (auto simp: buildInitialImcStrengthening_def Some Let_def)
qed (simp add: buildInitialImcStrengthening_def)

lemma runImc_total:
  assumes B: "soundBackend B" "completeBackend B" and p: "baseProblem p property badness"
    and rails: "\<not> pb_usesDualRailStateEncoding p" and direct: "directFrontier p t"
    and ready: "exactReady p" and cert: "pb_learnedInternalRelationInvariant p = None"
    and frames: "\<And>i. imcInitFormula p = Some i \<Longrightarrow> imcReady p i"
  shows "\<exists>r. runImc B p t maxK craig = Inr r"
proof -
  let ?c = "makeImcBaseCounterexampleCache p"
  have cex: "\<exists>w. findImcCounterexample B ?c t k = Inr w" for k
    using imcCounterexample_ok [OF B p rails direct, of k] by blast
  have frontier: "\<exists>f. buildExactReachableStateInvariant B p t (Some i) k kImcMaxStateBits = Inr f" if "imcInitFormula p = Some i" for i k
  proof (cases "combinedStateSymbols p = [] \<or> kImcMaxStateBits < length (combinedStateSymbols p)")
    case False
    then show ?thesis using exactFrontier_ok [OF B frames [OF that], of kImcMaxStateBits t k] by (auto simp: kImcMaxStateBits_def)
  qed (simp add: buildExactReachableStateInvariant_def Let_def)
  have proves: "\<exists>b. provesImcInvariant B p t (Some i) c = Inr b" for i c by (rule provesImc_total [OF B cert])
  have depth: "\<exists>v. imcDepth B p ?c t (imcInitFormula p) shared k = Inr v" for shared k
  proof -
    obtain w where w: "findImcCounterexample B ?c t k = Inr w" using cex by blast
    show ?thesis
    proof (cases "w = None \<and> imcInitFormula p \<noteq> None")
      case True
      then obtain i where i: "imcInitFormula p = Some i" by blast
      obtain f where f: "buildExactReachableStateInvariant B p t (Some i) k kImcMaxStateBits = Inr f" using frontier [OF i] by blast
      show ?thesis
      proof (cases f)
        case (Some g)
        obtain b where "provesImcInvariant B p t (Some i) (Some (case shared of None \<Rightarrow> g | Some s \<Rightarrow> simplify (mkAnd g s))) = Inr b"
          using proves by blast
        then show ?thesis using w True i f Some by (simp add: imcDepth_def)
      qed (use w True i f in \<open>simp add: imcDepth_def\<close>)
    qed (use w in \<open>auto simp: imcDepth_def split: option.splits\<close>)
  qed
  obtain w where w: "findImcCounterexample B ?c t 0 = Inr w" using cex by blast
  obtain s where s: "buildInitialImcStrengthening B p t (imcInitFormula p) = Inr s" using strengthening_total [OF B ready cert] by blast
  obtain b where b: "(if imcInitFormula p = None then Inr False else provesImcInvariant B p t (imcInitFormula p) s) = Inr b"
    using proves by (cases "imcInitFormula p") auto
  obtain v where v: "firstSomeE (imcDepth B p ?c t (imcInitFormula p) s) [1..<maxK + 1] = Inr v"
    using firstSome_total [of "[1..<maxK + 1]" "imcDepth B p ?c t (imcInitFormula p) s"] depth by blast
  have craig: "\<not> usesCraigImc p" using rails by (simp add: usesCraigImc_def)
  show ?thesis
    using w s b v craig by (cases w; cases b) (simp_all add: runImc_def Let_def)
qed

end
