(* ===== verification/Imc_Blocked.thy ===== *)
theory Imc_Blocked
  imports Imc_Run
begin

text \<open>
  A problem on which the derived interpolant stands in the way of the proof.  The register of the
  first design starts at one and is cleared, and the outputs of both designs are an input, so that
  no state is bad.  The states one step away are those with the register at zero, a closed set that
  the initial state is not in; the engine conjoins it to every candidate.
\<close>

definition pulseProblem :: problem where
  "pulseProblem = emptyProblem\<lparr> pb_inputSymbols := [6], pb_state0Symbols := [4], pb_allSymbols := [4, 6],
     pb_transitions0 := [(4, createFalse)], pb_initialCondition := Some createTrue, pb_initialStateAssignments := [(4, True)],
     pb_initializedStateCount := 1, pb_totalStateCount := 1, pb_observedOutputExprs0 := [BVar 6],
     pb_observedOutputExprs1 := [BVar 6], pb_property := Some createTrue, pb_bad := Some createFalse \<rparr>"

lemma pulse_fields [simp]:
  "pb_property pulseProblem = Some createTrue" "pb_bad pulseProblem = Some createFalse"
  "\<not> pb_usesDualRailStateEncoding pulseProblem" "pb_lazyTransitions pulseProblem = None"
  "combinedStateSymbols pulseProblem = [4]" "resetBootstrapFrames pulseProblem = 0"
  "pb_inductionProperty pulseProblem = None" "pb_learnedInternalRelationInvariant pulseProblem = None"
  "allTransitions pulseProblem = [(4, createFalse)]" "complementPairs pulseProblem = []"
  "pb_transitions0 pulseProblem = [(4, createFalse)]" "pb_transitions1 pulseProblem = []"
  "pb_inputSymbols pulseProblem = [6]" "pb_allSymbols pulseProblem = [4, 6]"
  "length (pb_observedOutputExprs0 pulseProblem) = 1" "pb_complementedStatePairs0 pulseProblem = []"
  "pb_complementedStatePairs1 pulseProblem = []"
  by (simp_all add: pulseProblem_def emptyProblem_def combinedStateSymbols_def resetBootstrapFrames_def
      hasResetBootstrap_def allTransitions_def complementPairs_def)

lemma pulse_base: "baseProblem pulseProblem createTrue createFalse"
  using eager_published [of pulseProblem] by (simp add: baseProblem_def mapsToSymbols_def)

lemma pulse_init: "buildProofInitFormula pulseProblem = Some (BVar 4)"
  by code_simp

lemma pulse_initFormula: "imcInitFormula pulseProblem = Some (BVar 4)"
  by (simp add: imcInitFormula_def shouldBuildExplicitImcInitFormula_def pulse_init)

lemma pulse_initHolds: "initHolds pulseProblem env = env 4"
  using initFormula_eval [of pulseProblem] by (simp add: pulse_init)

lemma pulse_fresh: "nextFreshProofSymbol pulseProblem = 7"
  by code_simp

lemma pulse_ready: "exactReady pulseProblem" "imcReady pulseProblem (BVar 4)"
  by (simp_all add: exactReady_def imcReady_def Let_def pulse_init pulse_fresh createFalse_def)

lemma pulse_image: "oneStepImage pulseProblem env = (\<not> env 4)"
proof -
  have "oneStepImage pulseProblem env" if "\<not> env 4"
    unfolding oneStepImage_def
    by (intro exI [of _ "\<lambda>x. True"] exI [of _ env]) (use that in \<open>simp add: pulse_initHolds stepHolds_def complementsHold_def\<close>)
  then show ?thesis by (auto simp: oneStepImage_def stepHolds_def)
qed

lemma pulse_transitions: "buildTransitionExprByStateSymbol pulseProblem = [4 \<mapsto> createFalse]"
  by (simp add: buildTransitionExprByStateSymbol_def pulseProblem_def emptyProblem_def emplace_def)

lemma pulse_targets:
  assumes "\<And>env. eval env i = (\<not> env 4)"
  shows "4 \<in> set (formulaTargets pulseProblem i)"
proof -
  have "4 \<in> support i"
  proof (rule ccontr)
    assume "4 \<notin> support i"
    then have "eval (\<lambda>x. False) i = eval (\<lambda>x. x = 4) i" by (intro eval_cong) auto
    then show False using assms by simp
  qed
  then have "4 \<in> vars i" by (simp add: support_ge2)
  moreover have "4 \<in> buildCombinedStateSymbolSet pulseProblem"
    by (simp add: buildCombinedStateSymbolSet_def pulseProblem_def emptyProblem_def)
  ultimately show ?thesis
    by (auto simp: formulaTargets_def set_expandTransitionTargets expandTarget_def pulse_transitions intro!: bexI [of _ 4])
qed

text \<open>A formula that says the register is zero is closed under the steps.\<close>

lemma pulse_closed:
  assumes B: "soundBackend B" "completeBackend B" and i: "\<And>env. eval env i = (\<not> env 4)"
  shows "\<exists>c. isInductiveInvariant B pulseProblem (Some i) t Map.empty None = Inr (True, c)"
proof -
  have "\<not> leavingStep pulseProblem Q h i env env'" for Q h env env'
    using pulse_targets [OF i] i by (auto simp: leavingStep_def targetsStep_def pulse_transitions)
  then show ?thesis
    using isInductiveInvariant_exact [OF B supportCacheOk_empty, of i None pulseProblem t] by (auto simp: hypothesisOf_def)
qed

lemma pulse_derived:
  assumes B: "soundBackend B" "completeBackend B"
  shows "\<exists>i. deriveOneStepReachableStateInvariant B pulseProblem t kImcMaxStateBits = Inr (Some i) \<and> (\<forall>env. eval env i = (\<not> env 4))"
proof -
  have n: "length (combinedStateSymbols pulseProblem) \<le> kImcMaxStateBits" "kImcMaxStateBits < 64" by (simp_all add: kImcMaxStateBits_def)
  obtain r where r: "deriveOneStepReachableStateInvariant B pulseProblem t kImcMaxStateBits = Inr r"
    "\<forall>i. r = Some i \<longrightarrow> (\<forall>env. eval env i = oneStepImage pulseProblem env) \<and>
      (\<exists>c. isInductiveInvariant B pulseProblem (Some i) t Map.empty None = Inr (True, c))"
    "r = None \<longrightarrow> combinedStateSymbols pulseProblem = [] \<or> buildProofInitFormula pulseProblem = None \<or> pb_bad pulseProblem = None \<or>
      (\<exists>env. oneStepImage pulseProblem env \<and> holdsOpt env (pb_bad pulseProblem)) \<or> openImage B pulseProblem t"
    using derive_ok [OF B pulse_ready(1) pulse_fields(8) n, of t] by (elim exE conjE) (rule that; assumption)
  have "\<not> openImage B pulseProblem t"
  proof
    assume "openImage B pulseProblem t"
    then obtain i c where i: "\<forall>env. eval env i = oneStepImage pulseProblem env"
      "isInductiveInvariant B pulseProblem (Some i) t Map.empty None = Inr (False, c)" unfolding openImage_def by blast
    from pulse_closed [OF B, of i t] i show False by (auto simp: pulse_image)
  qed
  then have "r \<noteq> None" using r(3) by (simp add: pulse_init holdsOpt_def)
  then obtain i where i: "r = Some i" by blast
  then have "\<forall>env. eval env i = oneStepImage pulseProblem env" using r(2) by blast
  then show ?thesis using r(1) i by (simp add: pulse_image)
qed

lemma pulse_strengthening:
  assumes B: "soundBackend B" "completeBackend B"
  shows "\<exists>i. buildInitialImcStrengthening B pulseProblem t (Some (BVar 4)) = Inr (Some i) \<and> (\<forall>env. eval env i = (\<not> env 4))"
  using pulse_derived [OF B, of t]
  by (auto simp: buildInitialImcStrengthening_def selectValidatedStrengtheningInvariant_def)

lemma pulse_refused:
  assumes B: "soundBackend B" "completeBackend B" and c: "\<And>env. eval env c \<Longrightarrow> \<not> env 4"
  shows "provesImcInvariant B pulseProblem t (Some (BVar 4)) (Some c) = Inr False"
proof -
  have "eval (\<lambda>x. True) (BVar 4) \<and> \<not> eval (\<lambda>x. True) c" using c [of "\<lambda>x. True"] by auto
  then have "\<not> implies (BVar 4) c" unfolding implies_def by blast
  then show ?thesis by (simp add: provesImcInvariant_def initialFrontierImplies_ok [OF B])
qed

lemma pulse_none:
  assumes B: "soundBackend B" "completeBackend B"
  shows "findImcCounterexample B (makeImcBaseCounterexampleCache pulseProblem) t k = Inr None"
proof -
  have direct: "directFrontier pulseProblem t" by (simp add: directFrontier_def)
  obtain w where w: "findImcCounterexample B (makeImcBaseCounterexampleCache pulseProblem) t k = Inr (map_option imcDifferent w)"
    "\<forall>c. w = Some c \<longrightarrow> confirmed pulseProblem c"
    using imcCounterexample_ok [OF B pulse_base _ direct, of k] by auto
  have "\<not> confirmed pulseProblem c" for c by (auto simp: confirmed_def baseWindow_def)
  then show ?thesis using w by (cases w) auto
qed

lemma pulse_depth:
  assumes B: "soundBackend B" "completeBackend B" and i: "\<And>env. eval env i = (\<not> env 4)"
  shows "imcDepth B pulseProblem (makeImcBaseCounterexampleCache pulseProblem) t (Some (BVar 4)) (Some i) k = Inr None"
proof -
  have n: "length (combinedStateSymbols pulseProblem) \<le> kImcMaxStateBits" "kImcMaxStateBits < 64" by (simp_all add: kImcMaxStateBits_def)
  obtain f where f: "buildExactReachableStateInvariant B pulseProblem t (Some (BVar 4)) k kImcMaxStateBits = Inr f"
    using exactFrontier_ok [OF B pulse_ready(2) _ n, of t k] by auto
  have "provesImcInvariant B pulseProblem t (Some (BVar 4)) (Some (simplify (mkAnd g i))) = Inr False" for g
    by (rule pulse_refused [OF B]) (simp add: simplify_eval i)
  then show ?thesis using f pulse_none [OF B] by (cases f) (simp_all add: imcDepth_def)
qed

lemma pulse_inconclusive:
  assumes B: "soundBackend B" "completeBackend B"
  shows "runImc B pulseProblem t maxK craig = Inr (imcResult ImcInconclusive maxK)"
proof -
  obtain i where i: "buildInitialImcStrengthening B pulseProblem t (Some (BVar 4)) = Inr (Some i)" "\<And>env. eval env i = (\<not> env 4)"
    using pulse_strengthening [OF B, of t] by blast
  have "firstSomeE (imcDepth B pulseProblem (makeImcBaseCounterexampleCache pulseProblem) t (Some (BVar 4)) (Some i)) ks = Inr None" for ks
    by (induction ks) (simp_all add: pulse_depth [OF B i(2)])
  then show ?thesis
    using i pulse_refused [OF B, of i t]
    by (simp add: runImc_def Let_def usesCraigImc_def pulse_initFormula pulse_none [OF B])
qed

text \<open>The property alone is a proof.\<close>

lemma pulse_proof:
  assumes B: "soundBackend B" "completeBackend B"
  shows "provesImcInvariant B pulseProblem t (Some (BVar 4)) (pb_property pulseProblem) = Inr True"
proof -
  have "\<not> leavingStep pulseProblem Q h createTrue env env'" for Q h env env' by (simp add: leavingStep_def)
  then obtain c where "isInductiveInvariant B pulseProblem (Some createTrue) t Map.empty None = Inr (True, c)"
    using isInductiveInvariant_exact [OF B supportCacheOk_empty, of createTrue None pulseProblem t] by (auto simp: hypothesisOf_def)
  then show ?thesis
    by (simp add: provesImcInvariant_def initialFrontierImplies_ok [OF B] implies_def invariantExcludesBadStates_def
        isProofFormulaSatisfiable_ok [OF B] satisfiable_def)
qed

lemma pulse_safe: "safeProblem pulseProblem createFalse"
  by (simp add: safeProblem_def)

end
