(* ===== verification/Spec2Isabelle.thy ===== *)
theory Spec2Isabelle
  imports Expr_Store Expr_Simplify Dual_Rail Frame_Store Node_Cache Sat_Query Proof_Formulas Solver_Contract Cache_Liveness Reference_Backend Transition_Correct Invariant_Correct Induction_Correct KI_Unvalidated KI_Limits Cnf_Stable Btor2_Export_Correct Btor2_Text Imc_Blocked
begin

section \<open>Kepler Formal: a verification development\<close>

text \<open>
  Kepler Formal decides whether two netlists are equivalent, combinationally and sequentially.
  This development models the reasoning core of the C++ program (paths below are under
  src/src/): the shared Boolean expressions, the encodings that turn them into clauses, the
  wrapper over the SAT solvers, and the proof problem and formulas of the sequential engines.

  How the parts interact. Front ends build expressions with the factories of
  formal/BoolExpr.cpp, which intern every node in formal/BoolExprCache.cpp, so that pointer
  equality is structural equality. A sequential problem (sec/kinduction/KInductionProblem.h)
  holds the two designs as transition expressions over shared symbols; the engines rename and
  conjoin those expressions (sec/common/BoolExprUtils.cpp, sec/proof/ProofEngineShared.cpp,
  with the two-rail lift of sec/proof/DualRailEncoding.cpp for unknown values), give each
  symbol a solver variable per time frame and encode the formulas frame by frame
  (sec/kinduction/SatEncoding.cpp), and ask the solver wrapper (sat/SATSolverWrapper.h).

  The theories, in the order of the code they model:
  \<^item> Prelude: results with errors as values, folds over them, insertion into maps as the
    C++ containers do it, decimal printing.
  \<^item> Bool_Expr, Bool_Factories: expressions as trees, their hash and structural order, the
    factories, evaluation and canonical form. Null pointers are \<^theory_text>\<open>None\<close>, size_t is a 64-bit word.
  \<^item> Expr_Cache, Expr_Cache_Correct, Expr_Store, Cache_Liveness: the pointer level. Nodes are
    heap cells, the concurrent table is a map from keys to addresses, the factories are
    programs over it; they refine the tree factories (an interpretation of the locale
    expression_store). Scopes, destruction, and concurrent requests as interleaved atomic
    steps with their invariant, progress and termination.
  \<^item> Postorder, Expr_Walk, Expr_Eval, Expr_Simplify, Expr_Utils, Dual_Rail: the iterative DAG
    traversals. One loop with an explicit stack (postLoop) and one with a visited set (walk)
    stand for the loops the code repeats; the locales postorder and memo_pass say what a
    memo pass must provide and are interpreted for evaluation, renaming, the dual-rail lift
    and clause encoding.
  \<^item> Sat_Solver, Sat_Gates, Solver_Contract, Reference_Backend: the solver wrapper over a
    parameter for the third-party solvers, with soundness and completeness of their answers as
    named hypotheses; an executable truth-table back end shows that they can be met.
  \<^item> Frame_Store, Sat_Encoding, Node_Cache, Sat_Query: frame variables, the Tseitin encoder,
    its flat hash table (probing in a partial function, refined to a map), and the
    satisfiability and implication queries.
  \<^item> KI_Problem, Proof_Formulas: the problem record, its predicates and its memory of
    inconclusive attempts; the initial, transition and legality formulas.
  \<^item> Theories \<^verbatim>\<open>Rail_Mapping\<close>, \<^verbatim>\<open>Transition_Resolver\<close> and \<^verbatim>\<open>Transition_Correct\<close>: the cone-of-influence
    resolver of \<^verbatim>\<open>sec/proof/TransitionExprResolver.cpp\<close> (class \<^verbatim>\<open>TransitionExprResolver\<close>). The record
    \<^verbatim>\<open>resolver\<close> holds its caches and the problem whose lazy transition store it mutates; every accessor
    returns the updated record. The lemmas show that memoised answers are those a fresh computation
    gives, that a resolved expression means the source expression under the design's renaming, and
    that the support sets cover it.
  \<^item> Theories \<^verbatim>\<open>Frame_Query\<close>, \<^verbatim>\<open>Invariant_Check\<close> and \<^verbatim>\<open>Invariant_Correct\<close>: the inductiveness query of
    \<^verbatim>\<open>sec/proof/ProofEngineShared.cpp\<close> (\<^verbatim>\<open>isInductiveInvariant\<close> and the checks around it). The query
    collects its symbols, allocates two frames, asserts the side constraints and the transition
    equations of the candidate's own state symbols, and asks for a step that leaves the candidate.
    The lemmas show that it decides exactly whether such a step exists, that (without reset
    cycles, for a candidate that reads a state with a transition) it misses a literal exactly when
    the candidate and the certified constraints fold to false, and that a candidate passing all checks excludes the bad states of every run.
  \<^item> Theories \<^verbatim>\<open>Resolver_Session\<close>, \<^verbatim>\<open>Induction_Coi\<close>, \<^verbatim>\<open>Induction_Coi_Correct\<close>,
    \<^verbatim>\<open>Induction_Step\<close> and \<^verbatim>\<open>Induction_Correct\<close>: the k-induction step of
    \<^verbatim>\<open>sec/kinduction/InductionStepSolver.cpp\<close>. \<^verbatim>\<open>buildInductionCoi\<close> walks the cone backwards from the
    bad frame through the resolver and the support cache kept between calls; \<^verbatim>\<open>proveByInductionStatus\<close>
    asserts the window and solves it. The lemmas show that the cache is transparent, that the cone
    covers what the formula reads, that the status says whether a window exists, and that a proved
    step extends good first frames to every frame of every run.
  \<^item> Theories \<^verbatim>\<open>Output_Batching\<close>, \<^verbatim>\<open>Base_Coi\<close> and \<^verbatim>\<open>Base_Query\<close>: the ranges of outputs of
    \<^verbatim>\<open>sec/kinduction/OutputBatching.cpp\<close> and the bounded base queries of
    \<^verbatim>\<open>sec/kinduction/BaseCaseSolver.cpp\<close>, with their cones, startup constraints, witnesses, the
    frontier cache shared by the engines and the cache of the public prefix. \<^verbatim>\<open>Base_Coi_Correct\<close>,
    \<^verbatim>\<open>Base_View\<close>, \<^verbatim>\<open>Base_Query_Correct\<close>, \<^verbatim>\<open>Base_Witness\<close> and \<^verbatim>\<open>Base_Answer\<close> show that the cone
    covers what the query reads and stays within the cone of the induction step after the reset
    prefix, that encoding a transition through the symbol map of its design gives the equation of the
    resolved transition, that the query is satisfiable exactly when a window exists, and that the
    witness is that of a window.
  \<^item> Theory \<^verbatim>\<open>KI_Engine\<close>: the engine of \<^verbatim>\<open>sec/kinduction/KInductionEngine.cpp\<close>, from the limits read
    from the environment to \<^verbatim>\<open>KInductionEngine::run\<close>. \<^verbatim>\<open>KI_Run\<close> says what a run of a problem is and cuts
    loops out of runs, \<^verbatim>\<open>KI_Engine_Correct\<close> proves the loop on one problem, \<^verbatim>\<open>KI_Batch\<close> the split into
    ranges, \<^verbatim>\<open>KI_Limits\<close> the limits, and \<^verbatim>\<open>KI_Unvalidated\<close> holds a problem that the engine accepts
    wrongly. The engine theorems are about problems without rails.
  \<^item> Theories \<^verbatim>\<open>Cnf_Writer\<close>, \<^verbatim>\<open>Cnf_Writer_Correct\<close>, \<^verbatim>\<open>Cnf_Text\<close> and \<^verbatim>\<open>Cnf_Stable\<close>: the DIMACS
    export of \<^verbatim>\<open>formal/BoolExprCnfWriter.cpp\<close>. Structural keys order the operands of commutative
    gates, the gates become clauses, and the text is modelled down to its characters. The stream
    keeps what its device has accepted and goes bad at the first character refused, so the dump
    reports a failed write. The lemmas show that a reader of the whole text gets a formula that is
    satisfiable exactly when the expression is, that success means that the whole text was taken,
    and that the export does not depend on the order of operands.
  \<^item> Theories \<^verbatim>\<open>Btor2_Writer\<close> and \<^verbatim>\<open>Btor2_Export\<close>: the streaming writer of \<^verbatim>\<open>formal/Btor2Writer.cpp\<close>
    and the export of a prepared problem, \<^verbatim>\<open>exportSecBtor2\<close> of \<^verbatim>\<open>sec/export/SecBtor2Exporter.cpp\<close>.
    The record \<^verbatim>\<open>btor_writer\<close> is the object's state, with the lines written so far in place of the
    stream; \<^verbatim>\<open>timeline\<close> is the saturating counter of one-bit states. \<^verbatim>\<open>Btor2_System\<close> reads a file as a
    transition system and states the invariant of the writer; \<^verbatim>\<open>Btor2_Expression\<close> shows that a node
    has the value of its expression and that writing it returns; \<^verbatim>\<open>Btor2_View\<close> composes what the
    stretches of the export add to the system; \<^verbatim>\<open>Btor2_Timeline\<close> and \<^verbatim>\<open>Btor2_Counter\<close> are about the
    counter, \<^verbatim>\<open>Btor2_Declare\<close> and \<^verbatim>\<open>Btor2_Next\<close> about symbols, relations and next values,
    \<^verbatim>\<open>Btor2_Startup\<close> and \<^verbatim>\<open>Btor2_Frames\<close> about the startup, and \<^verbatim>\<open>Btor2_Export_Correct\<close> proves that the
    file has a bad run exactly when the problem has one. \<^verbatim>\<open>Btor2_Text\<close> decodes the symbols.
  \<^item> Theories \<^verbatim>\<open>Imc_Interpolant\<close> and \<^verbatim>\<open>Imc_Engine\<close>: the exact interpolant of
    \<^verbatim>\<open>sec/imc/ExactInterpolantSynthesizer.cpp\<close> and the engine of \<^verbatim>\<open>sec/imc/IMCEngine.cpp\<close> on explicit
    frontiers. \<^verbatim>\<open>Imc_Interpolant_Exact\<close> shows that the derived invariant holds exactly one step from
    the initial frontier, \<^verbatim>\<open>Imc_Frontier\<close> that the frontier holds exactly in the states that the SAT
    instances reach, \<^verbatim>\<open>Imc_Run\<close> what an answer of the engine says about the runs of the problem, and
    \<^verbatim>\<open>Imc_Blocked\<close> holds a problem on which the interpolant stands in the way of the proof. Cubes are
    over at most 12 symbols (\<^verbatim>\<open>kImcMaxStateBits\<close>), so the 64-bit counter of assignments does not wrap.
    The answer of the Craig branch for large dual-rail problems is an argument of \<^verbatim>\<open>runImc\<close>.
    The engine theorem is about problems without rails whose frontier query is asked directly
    (\<^verbatim>\<open>directFrontier\<close>), not through the assumption solver or a split of the outputs.
  What the lemmas show. Each component has its invariant, kept by every operation, and the
  meaning of its results: formulas keep their value under every transformation, literals
  represent formulas in every model, added clauses are conservative or say exactly what they
  should, queries decide what they ask. The properties below are the main statements; each
  rests on the lemmas of its component.

  Choices and bounds. Loops are total functions with explicit measures, except pointer
  comparison and table probing, which are partial functions proved to return on valid states.
  No fuel is used. Symbols, hashes and limits are words and wrap as in the code; literals and
  variable counts are unbounded integers, exact below two to the power 31 (above, a reservation
  throws). The variable numbers of the DIMACS export are unbounded integers too, and the device
  behind its stream is a predicate on the text it accepts. Where C++ leaves the order of two
  arguments open and both may throw or extend the solver (the literal of a symbol and the encoding
  of its next-state formula, in transitionStep, targetEquation, viewEquation and
  imcTransitionStep), the model evaluates from left to right; getLiteral only reads, so the order
  decides at most which of two errors is thrown. Allocation returns a fresh address, a parameter
  of the pointer-level model.

  Not modelled: the PDR engine, the Craig branch of the interpolation engine (large
  dual-rail problems), and the reachability queries at the reset frontier that only PDR asks of
  the base case solver; the extraction of designs from the netlist database (a submodule
  whose code is not in the repository) and the strategies and bindings around it; solver
  options; the temporary file of the BTOR2 export; logging and diagnostics. The manifest
  lists every component.
\<close>


text \<open>C1. The k-induction engine on a binary problem with several outputs and Kissat, over a sound and
  complete back end, always returns. When it answers Equivalent, no run of the problem ever
  shows two different values on an output pair from the first checked frame on, provided the
  problem asserts that its outputs agree and its state constraints speak of state symbols. When
  it answers Different, it returns the witness of a window of the base query of one range of
  outputs. Splitting into ranges, the induction steps, the frontier queries and the final
  validation are all covered.\<close>

theorem kinduction_batched_sound:
  assumes "soundBackend B" "completeBackend B" "baseProblem (ke_problem engine) property badness"
    and "\<not> pb_usesDualRailStateEncoding (ke_problem engine)" "\<not> pb_deferBaseCaseChecks (ke_problem engine)"
    and "ke_solverType engine = KISSAT" "2 \<le> length (pb_observedOutputExprs0 (ke_problem engine))"
    and "length (pb_observedOutputExprs1 (ke_problem engine)) = length (pb_observedOutputExprs0 (ke_problem engine))"
    and "stateOk (ke_copyAddresses engine) (ke_problem engine) st"
  shows "\<exists>r st'. runEngine B getenv engine maxK st = Inr (r, st') \<and> stateOk (ke_copyAddresses engine) (ke_problem engine) st' \<and>
    (kr_status r = Equivalent \<longrightarrow> outputProblem (ke_problem engine) \<longrightarrow>
      (\<forall>envs n. problemRun (ke_problem engine) envs \<longrightarrow> firstChecked (ke_problem engine) \<le> n \<longrightarrow>
        outputsEqual (ke_problem engine) 0 (length (pb_observedOutputExprs0 (ke_problem engine))) (envs n))) \<and>
    (kr_status r = Different \<longrightarrow> (\<exists>f e c. f < e \<and> e \<le> length (pb_observedOutputExprs0 (ke_problem engine)) \<and>
      kr_witness r = Some c \<and> kr_bound r = cw_badFrame c \<and>
      confirmed (configureOutputBatchProblem (ke_problem engine) (ke_problem engine) f e) c))"
proof -
  obtain r u where r: "runOutputBatchedKInduction B getenv (ke_copyAddresses engine) (ke_problem engine) KISSAT maxK st = Inr (r, u)"
    "stateOk (ke_copyAddresses engine) (ke_problem engine) u"
    "rangeMeans (ke_problem engine) 0 (length (pb_observedOutputExprs0 (ke_problem engine))) r"
    using batched_ok [OF assms(1-5,8,9)] by blast
  have "runEngine B getenv engine maxK st = Inr (r, u)"
    using r(1) assms(6,7) by (simp add: runEngine_def kMinOutputsForBatchedProof_def)
  then show ?thesis using r(2,3) unfolding rangeMeans_def agreeAlways_def by blast
qed

theorem kinduction_batched_sound_witness:
  "\<exists>r st. runEngine tableBackend (\<lambda>_. None) \<lparr> ke_problem = pairProblem 3, ke_solverType = KISSAT,
       ke_addresses = twinAddresses, ke_copyAddresses = twinAddresses \<rparr> 4 \<lparr> ks_store = None, ks_cache = None \<rparr> = Inr (r, st) \<and>
     problemRun (pairProblem 3) (\<lambda>f x. True) \<and>
     (kr_status r = Equivalent \<longrightarrow> outputsEqual (pairProblem 3) 0 3 (\<lambda>x. True))"
proof -
  let ?e = "\<lparr> ke_problem = pairProblem 3, ke_solverType = KISSAT, ke_addresses = twinAddresses, ke_copyAddresses = twinAddresses \<rparr>"
  have st: "stateOk (ke_copyAddresses ?e) (ke_problem ?e) \<lparr> ks_store = None, ks_cache = None \<rparr>"
    by (simp add: stateOk_def inductionCacheOk_def)
  have b: "baseProblem (ke_problem ?e) (BNot (BXor (BVar 4) (BVar 5))) (BXor (BVar 4) (BVar 5))" by (simp add: pair_base)
  from kinduction_batched_sound [OF tableBackend_sound tableBackend_complete b _ _ _ _ _ st, of "\<lambda>_. None" 4]
  obtain r u where r: "runEngine tableBackend (\<lambda>_. None) ?e 4 \<lparr> ks_store = None, ks_cache = None \<rparr> = Inr (r, u)"
    "kr_status r = Equivalent \<longrightarrow> (\<forall>envs n. problemRun (pairProblem 3) envs \<longrightarrow> outputsEqual (pairProblem 3) 0 3 (envs n))"
    using pair_outputs by auto
  have "kr_status r = Equivalent \<longrightarrow> outputsEqual (pairProblem 3) 0 3 (\<lambda>x. True)"
    using r(2) pair_run [of 3] by blast
  then show ?thesis using r(1) pair_run by blast
qed

text \<open>C2. The k-induction engine on a binary problem with at most one output always returns over a
  sound and complete back end, with any solver. Equivalent means that no run of the problem
  reaches a bad frame from the first checked frame on, if the property is the complement of the
  bad formula, the state constraints speak of state symbols, and either an accepted proof is
  validated or the startup leaves no frame unchecked. Different comes with the witness of a
  window of the base query. Inconclusive without a decision limit means that the whole prefix up
  to the depth was checked and no window exists.\<close>

theorem kinduction_single_sound:
  assumes "soundBackend B" "completeBackend B" "baseProblem (ke_problem engine) property badness"
    and "inductionPropertyOf (ke_problem engine) = Some property" "inductionBadOf (ke_problem engine) = Some badness"
    and "\<not> pb_usesDualRailStateEncoding (ke_problem engine)" "\<not> pb_deferBaseCaseChecks (ke_problem engine)"
    and "length (pb_observedOutputExprs0 (ke_problem engine)) \<le> 1"
    and "stateOk (ke_addresses engine) (ke_problem engine) st"
  shows "\<exists>r st'. runEngine B getenv engine maxK st = Inr (r, st') \<and> stateOk (ke_addresses engine) (ke_problem engine) st' \<and>
    (kr_status r = Equivalent \<longrightarrow> soundlyStarted (ke_problem engine) property badness \<longrightarrow>
      (\<forall>envs n. problemRun (ke_problem engine) envs \<longrightarrow> firstChecked (ke_problem engine) \<le> n \<longrightarrow> \<not> eval (envs n) badness)) \<and>
    (kr_status r = Different \<longrightarrow> (\<exists>c. kr_witness r = Some c \<and> kr_bound r = cw_badFrame c \<and> confirmed (ke_problem engine) c)) \<and>
    (kr_status r = Inconclusive \<longrightarrow> kr_bound r = maxK \<and> prefixSafe (ke_problem engine) maxK)"
proof -
  let ?p = "ke_problem engine"
  have limit: "batchedInductionDecisionLimit getenv ?p (ke_solverType engine) = None"
    using decisionLimit_kissat [of getenv ?p "ke_solverType engine"] assms(6,8) by linarith
  obtain r u where r: "runSingleOutputKInduction B getenv (ke_addresses engine) (ke_copyAddresses engine) ?p (ke_solverType engine) maxK st = Inr (r, u)"
    "stateOk (ke_addresses engine) ?p u" "resultMeans ?p property badness False maxK r"
    using single_ok [OF assms, of getenv "ke_copyAddresses engine" "ke_solverType engine" maxK] limit by auto
  have "runEngine B getenv engine maxK st = Inr (r, u)"
    using r(1) assms(8) by (simp add: runEngine_def kMinOutputsForBatchedProof_def)
  then show ?thesis using r(2,3) unfolding resultMeans_def safeProblem_def by blast
qed

theorem kinduction_single_sound_witness:
  "\<exists>r st. runEngine tableBackend (\<lambda>_. None) \<lparr> ke_problem = pairProblem 1, ke_solverType = CADICAL,
       ke_addresses = twinAddresses, ke_copyAddresses = twinAddresses \<rparr> 4 \<lparr> ks_store = None, ks_cache = None \<rparr> = Inr (r, st) \<and>
     problemRun (pairProblem 1) (\<lambda>f x. True) \<and> (kr_status r = Inconclusive \<longrightarrow> prefixSafe (pairProblem 1) 4)"
proof -
  let ?e = "\<lparr> ke_problem = pairProblem 1, ke_solverType = CADICAL, ke_addresses = twinAddresses, ke_copyAddresses = twinAddresses \<rparr>"
  have st: "stateOk (ke_addresses ?e) (ke_problem ?e) \<lparr> ks_store = None, ks_cache = None \<rparr>"
    by (simp add: stateOk_def inductionCacheOk_def)
  have b: "baseProblem (ke_problem ?e) (BNot (BXor (BVar 4) (BVar 5))) (BXor (BVar 4) (BVar 5))" by (simp add: pair_base)
  from kinduction_single_sound [OF tableBackend_sound tableBackend_complete b _ _ _ _ _ st, of "\<lambda>_. None" 4]
  obtain r u where "runEngine tableBackend (\<lambda>_. None) ?e 4 \<lparr> ks_store = None, ks_cache = None \<rparr> = Inr (r, u)"
    "kr_status r = Inconclusive \<longrightarrow> prefixSafe (pairProblem 1) 4" by auto
  then show ?thesis using pair_run by blast
qed

text \<open>C3. The interpolation engine over a sound and complete back end, on a well-formed problem
  (baseProblem) that satisfies two restrictions: it has no rails, and its frontier query is
  asked directly (directFrontier: at most one observed output, or two designs with different
  numbers of outputs, or Kissat with at most 64 outputs; the assumption solver and the splitting
  of larger output sets are not covered here). It always returns when no internal relations were
  learned and its formulas speak of listed symbols with room for fresh ones (exactReady,
  imcReady). When it answers Equivalent, no run of the problem ever reaches a bad state from the
  first checked frame on, provided the state constraints speak of state symbols (stateClosed),
  the startup of the base queries is the one the proof formulas state (startAgrees), and the
  learned relations, where there are any, hold on the runs (certifiedOnRuns). When it answers
  Different, it returns the witness of a window of a base query. When it answers Inconclusive,
  every frontier up to the requested depth was searched and has no counterexample.\<close>

theorem imc_sound:
  assumes "soundBackend B" "completeBackend B" "baseProblem p property badness"
    and "\<not> pb_usesDualRailStateEncoding p" "directFrontier p t"
  shows "(pb_learnedInternalRelationInvariant p = None \<and> exactReady p \<and>
      (\<forall>i. imcInitFormula p = Some i \<longrightarrow> imcReady p i) \<longrightarrow> (\<exists>r. runImc B p t maxK craig = Inr r)) \<and>
    (\<forall>r. runImc B p t maxK craig = Inr r \<longrightarrow>
      (ir_status r = ImcDifferent \<longrightarrow> (\<exists>c. ir_witness r = Some c \<and> ir_bound r = cw_badFrame c \<and> confirmed p c)) \<and>
      (ir_status r = ImcEquivalent \<longrightarrow> stateClosed p \<longrightarrow> startAgrees p \<longrightarrow> certifiedOnRuns p \<longrightarrow>
        (\<forall>envs n. problemRun p envs \<longrightarrow> firstChecked p \<le> n \<longrightarrow> \<not> eval (envs n) badness)) \<and>
      (ir_status r = ImcInconclusive \<longrightarrow> ir_bound r = maxK \<and> (\<forall>k \<le> maxK. frontierSafe p k)))"
proof (intro conjI impI)
  assume "pb_learnedInternalRelationInvariant p = None \<and> exactReady p \<and> (\<forall>i. imcInitFormula p = Some i \<longrightarrow> imcReady p i)"
  then show "\<exists>r. runImc B p t maxK craig = Inr r" using runImc_total [OF assms] by blast
next
  show "\<forall>r. runImc B p t maxK craig = Inr r \<longrightarrow>
      (ir_status r = ImcDifferent \<longrightarrow> (\<exists>c. ir_witness r = Some c \<and> ir_bound r = cw_badFrame c \<and> confirmed p c)) \<and>
      (ir_status r = ImcEquivalent \<longrightarrow> stateClosed p \<longrightarrow> startAgrees p \<longrightarrow> certifiedOnRuns p \<longrightarrow>
        (\<forall>envs n. problemRun p envs \<longrightarrow> firstChecked p \<le> n \<longrightarrow> \<not> eval (envs n) badness)) \<and>
      (ir_status r = ImcInconclusive \<longrightarrow> ir_bound r = maxK \<and> (\<forall>k \<le> maxK. frontierSafe p k))"
    using runImc_means [OF assms] unfolding imcMeans_def safeProblem_def by blast
qed

theorem imc_sound_witness:
  "\<exists>r. runImc tableBackend pulseProblem KISSAT 3 (Inl (Logic_Error '''')) = Inr r \<and> ir_status r \<noteq> ImcDifferent \<and>
     (ir_status r = ImcInconclusive \<longrightarrow> ir_bound r = 3)"
proof -
  have direct: "directFrontier pulseProblem KISSAT" by (simp add: directFrontier_def)
  have never: "\<not> confirmed pulseProblem c" for c by (auto simp: confirmed_def baseWindow_def)
  note sound = imc_sound [OF tableBackend_sound tableBackend_complete pulse_base pulse_fields(3) direct, of 3 "Inl (Logic_Error '''')"]
  then obtain r where r: "runImc tableBackend pulseProblem KISSAT 3 (Inl (Logic_Error '''')) = Inr r"
    using pulse_ready by (auto simp: pulse_initFormula)
  then show ?thesis using sound never by blast
qed

text \<open>C4. The frontier formula that the interpolation engine builds by one SAT query per state and
  depth, over a sound and complete back end, from an initial formula, for a problem whose
  formulas speak of listed symbols (imcReady) and a limit below 64 state bits: the construction
  raises no error; it gives no formula exactly when there are no state symbols, more of them
  than the limit, or no state reached within the given number of steps; and a formula it gives
  holds exactly in the states that a path of at most that many steps reaches from the initial
  formula.\<close>

theorem imc_frontier_exact:
  assumes "soundBackend B" "completeBackend B" "imcReady p ini" "m < 64"
  shows "\<exists>r. buildExactReachableStateInvariant B p t (Some ini) k m = Inr r \<and>
    (r = None \<longleftrightarrow> combinedStateSymbols p = [] \<or> m < length (combinedStateSymbols p) \<or> \<not> (\<exists>env. reachedWithin p ini k env)) \<and>
    (\<forall>f. r = Some f \<longrightarrow> (\<forall>env. eval env f = reachedWithin p ini k env))"
  by (rule exactFrontier_all [OF assms])

theorem imc_frontier_exact_witness:
  "\<exists>f. buildExactReachableStateInvariant tableBackend pulseProblem KISSAT (Some (BVar 4)) 0 12 = Inr (Some f) \<and>
     eval (\<lambda>x. True) f \<and> \<not> eval (\<lambda>x. False) f"
proof -
  have reached: "reachedWithin pulseProblem (BVar 4) 0 env = env 4" for env
  proof
    assume "env 4"
    then show "reachedWithin pulseProblem (BVar 4) 0 env"
      unfolding reachedWithin_def reachedAt_def
      by (intro exI [of _ 0] conjI exI [of _ "\<lambda>_. env"]) (simp_all add: imcPath_def imcLegal_def holdsOpt_def)
  qed (auto simp: reachedWithin_def reachedAt_def imcPath_def symValue_plain)
  from imc_frontier_exact [OF tableBackend_sound tableBackend_complete pulse_ready(2), of 12 KISSAT 0]
  obtain r where r: "buildExactReachableStateInvariant tableBackend pulseProblem KISSAT (Some (BVar 4)) 0 12 = Inr r"
    "r = None \<longrightarrow> combinedStateSymbols pulseProblem = [] \<or> 12 < length (combinedStateSymbols pulseProblem) \<or>
      \<not> (\<exists>env. reachedWithin pulseProblem (BVar 4) 0 env)"
    "\<forall>f. r = Some f \<longrightarrow> (\<forall>env. eval env f = reachedWithin pulseProblem (BVar 4) 0 env)"
    by auto
  then obtain f where "r = Some f" using reached by fastforce
  then show ?thesis using r reached by auto
qed

text \<open>C5. The exact interpolant over the state symbols, over a sound and complete back end, for a
  problem whose formulas speak of listed symbols with room for fresh ones (exactReady), that has
  no learned relations, and a limit below 64 state bits: the derivation raises no error; a
  formula it returns holds exactly in the states one step away from the initial frontier and
  passed the inductiveness query; and when it returns nothing, there are no state symbols or
  more of them than the limit, there is no initial or no bad formula, a state one step away is
  bad, or the image is not closed under the steps.\<close>

theorem imc_interpolant_exact:
  assumes "soundBackend B" "completeBackend B" "exactReady p" "pb_learnedInternalRelationInvariant p = None" "m < 64"
  shows "\<exists>r. deriveOneStepReachableStateInvariant B p t m = Inr r \<and>
    (\<forall>i. r = Some i \<longrightarrow> (\<forall>env. eval env i = oneStepImage p env) \<and>
      (\<exists>c. isInductiveInvariant B p (Some i) t Map.empty None = Inr (True, c))) \<and>
    (r = None \<longrightarrow> combinedStateSymbols p = [] \<or> m < length (combinedStateSymbols p) \<or>
      buildProofInitFormula p = None \<or> pb_bad p = None \<or>
      (\<exists>env. oneStepImage p env \<and> holdsOpt env (pb_bad p)) \<or> openImage B p t)"
  by (rule derive_all [OF assms])

theorem imc_interpolant_exact_witness:
  "\<exists>r. deriveOneStepReachableStateInvariant tableBackend pulseProblem KISSAT 12 = Inr r \<and>
     (\<forall>i. r = Some i \<longrightarrow> eval (\<lambda>x. False) i \<and> \<not> eval (\<lambda>x. True) i)"
proof -
  from imc_interpolant_exact [OF tableBackend_sound tableBackend_complete pulse_ready(1) pulse_fields(8), of 12 KISSAT]
  obtain r where "deriveOneStepReachableStateInvariant tableBackend pulseProblem KISSAT 12 = Inr r"
    "\<forall>i. r = Some i \<longrightarrow> (\<forall>env. eval env i = oneStepImage pulseProblem env)" by auto
  then show ?thesis by (simp add: pulse_image)
qed

text \<open>C6. A problem that the property alone proves, and on which the interpolation engine stays
  inconclusive at every depth: the states one step away form a closed set that the initial state
  is not in, the engine conjoins the interpolant to every candidate, and so every candidate
  fails at the initial frontier.\<close>

theorem imc_interpolant_blocks_proof:
  assumes "soundBackend B" "completeBackend B"
  shows "runImc B pulseProblem t maxK craig = Inr (imcResult ImcInconclusive maxK) \<and>
    provesImcInvariant B pulseProblem t (imcInitFormula pulseProblem) (pb_property pulseProblem) = Inr True \<and>
    safeProblem pulseProblem createFalse"
  using pulse_inconclusive [OF assms] pulse_proof [OF assms] pulse_safe unfolding pulse_initFormula by blast

theorem imc_interpolant_blocks_proof_witness:
  "runImc tableBackend pulseProblem GLUCOSE 8 (Inl (Logic_Error '''')) = Inr (imcResult ImcInconclusive 8)"
  using imc_interpolant_blocks_proof [OF tableBackend_sound tableBackend_complete] by blast

text \<open>C7. The engine accepts an induction step that the base case refutes: on a problem whose startup
  is only observed (no initial or reset values, no separate induction formulas), frame 0 is
  assumed good and frame 1 is never queried when the step at depth one closes. For a held state
  bit shown under an input, the step closes because no two frames of a simple path share the
  bit, the answer is Equivalent at depth one, and yet the frontier query at depth one finds a
  counterexample and a run of the problem is bad there.\<close>

theorem unvalidated_step_accepted:
  assumes "soundBackend B" "completeBackend B" "1 \<le> maxK"
  shows "(\<exists>c. runMonolithicKInduction B getenv ad heldProblem t maxK None = Inr (kiResult Equivalent 1, c)) \<and>
    (\<exists>w. findKInductionBaseCounterexampleAtFrontier B (makeImcBaseCounterexampleCache heldProblem) t 1 = Inr (Some w)) \<and>
    (\<exists>envs. problemRun heldProblem envs \<and> eval (envs 1) heldBad)"
proof -
  have "eval ((\<lambda>f x. x = 4 \<or> x = 6 \<and> f = (1 :: nat)) 1) heldBad" by (simp add: heldBad_def)
  then show ?thesis
    using held_accepted [OF assms, of getenv ad t] held_refuted [OF assms(1,2), of t] held_run by blast
qed

theorem unvalidated_step_accepted_witness:
  "\<exists>c. runMonolithicKInduction tableBackend (\<lambda>_. None) twinAddresses heldProblem KISSAT 8 None = Inr (kiResult Equivalent 1, c)"
  using unvalidated_step_accepted [OF tableBackend_sound tableBackend_complete, of 8] by simp

text \<open>C8. The bounded base query is exact on a problem whose transitions are published: it returns,
  satisfiable means that a window exists (a startup, the reset prefix, legal frames and the
  transitions of the cone, ending in a bad frame of the range), unsatisfiable means that none
  does, a witness is returned exactly for a satisfiable answer, and the witness is that of a
  window: its first bad frame counted from the end of the reset prefix, the inputs of the cone
  in each frame and the outputs that differ there.\<close>

theorem base_query_exact:
  assumes "soundBackend B" "baseProblem p property badness" "baseShapeOf p k exact = Some (sh, z)"
  shows "\<exists>coi r st w. buildBaseCaseCoi p sh = Inr (coi, r) \<and> baseCoiOk p sh coi \<and>
    baseQuery B p t k exact profile = Inr (w, st) \<and>
    (st = Sat \<longrightarrow> (\<exists>envs. baseWindow p sh z coi envs)) \<and> (st = Unsat \<longrightarrow> \<not> (\<exists>envs. baseWindow p sh z coi envs)) \<and>
    (w \<noteq> None \<longleftrightarrow> st = Sat) \<and>
    (\<forall>c. w = Some c \<longrightarrow> profile \<noteq> PdrValidationProofOnly \<longrightarrow>
      (\<exists>envs. baseWindow p sh z coi envs \<and> witnessOf p sh z (bc_symbolSet coi) envs c)) \<and>
    (profile \<noteq> FastCounterexampleSearch \<longrightarrow> completeBackend B \<longrightarrow> st \<noteq> Unknown)"
  using baseQuery_ok [OF assms, of t profile] unfolding answers_def by simp

theorem base_query_exact_witness:
  "\<exists>w st. baseQuery tableBackend (pairProblem 1) GLUCOSE 2 None SecConeProfile = Inr (w, st) \<and> (w \<noteq> None \<longleftrightarrow> st = Sat) \<and> st \<noteq> Unknown"
proof -
  have s: "baseShapeOf (pairProblem 1) 2 None = Some (shapeFor (pairProblem 1) 0 2, 2)" by (simp add: shape_prefix)
  show ?thesis
    using base_query_exact [OF tableBackend_sound pair_base s, of GLUCOSE SecConeProfile] tableBackend_complete by auto
qed

text \<open>C9. The output ranges of a problem follow one another without gap or overlap from the first
  output to the last, none is empty, and every range of more than one output stays within the
  limits on its size and on the size of its joint support.\<close>

theorem output_ranges_tile:
  "tiles 0 (length (pb_observedOutputExprs0 p)) (buildSupportBoundedOutputBatches p limits) \<and>
    (\<forall>(f, e) \<in> set (buildSupportBoundedOutputBatches p limits). f < e \<and> (e = Suc f \<or>
      e - f \<le> bl_maxOutputBatchSize limits \<and> card (rangeSupport p f e) \<le> bl_outputBatchSupportLimit limits))"
proof -
  have t: "tiles 0 (length (pb_observedOutputExprs0 p)) (buildSupportBoundedOutputBatches p limits)"
    using outputBatches_tile [of 0 p limits] by (simp add: buildSupportBoundedOutputBatches_def)
  moreover have "f < e \<and> (e = Suc f \<or>
      e - f \<le> bl_maxOutputBatchSize limits \<and> card (rangeSupport p f e) \<le> bl_outputBatchSupportLimit limits)"
    if "(f, e) \<in> set (buildSupportBoundedOutputBatches p limits)" for f e
    using tiles_within [OF t that] outputBatches_limits [of f e p limits 0] that
    by (auto simp: buildSupportBoundedOutputBatches_def withinLimits_def)
  ultimately show ?thesis by blast
qed

theorem output_ranges_tile_witness:
  "tiles 0 3 (buildSupportBoundedOutputBatches (pairProblem 3) kDefaultOutputBatchingLimits)"
  using output_ranges_tile [of "pairProblem 3" kDefaultOutputBatchingLimits] by simp

text \<open>C10. The exported BTOR2 file is exact: read as a transition system (initial values, next values,
  constraints in every frame, bad states), it has a run of length K that ends in a bad state
  exactly when K is not before the first checked frame and the problem has a run of that length
  that ends in a bad frame, with the startup, reset prefix, observation, state relations and
  transitions that the k-induction engine speaks of. The saturating counter of one-bit states is
  part of the file and of the claim. It holds for either order of evaluation of the one C++ call
  that leaves the order open.\<close>

theorem btor2_export_exact:
  assumes "exportSecBtor2 frameFirst p md accepts = Inr W" "resolverInv (newResolver p)"
  shows "(\<exists>ss. btorRun (bodies W) K ss \<and> btorBad (bodies W) (ss K)) \<longleftrightarrow>
    firstChecked p \<le> K \<and> (\<exists>envs. problemPrefix p K envs \<and> eval (envs K) (the (pb_bad p)))"
  by (rule exported_runs [OF assms])

theorem btor2_export_exact_witness:
  "\<exists>W ss. exportSecBtor2 True heldProblem exampleMetadata (\<lambda>_. True) = Inr W \<and>
     btorRun (bodies W) 1 ss \<and> btorBad (bodies W) (ss 1)"
proof -
  obtain W where W: "exportSecBtor2 True heldProblem exampleMetadata (\<lambda>_. True) = Inr W" using held_exports by blast
  have inv: "resolverInv (newResolver heldProblem)" by (rule newResolver_inv) simp
  have "problemPrefix heldProblem 1 (\<lambda>f x. x = 4 \<or> x = 6 \<and> f = 1)" by (rule problemRun_prefix [OF held_run])
  moreover have "eval (\<lambda>x. x = 4 \<or> x = 6) (the (pb_bad heldProblem))" by (simp add: heldBad_def)
  ultimately have "\<exists>envs. problemPrefix heldProblem 1 envs \<and> eval (envs 1) (the (pb_bad heldProblem))"
    by (intro exI [of _ "\<lambda>f x. x = 4 \<or> x = 6 \<and> f = 1"]) simp
  then show ?thesis using W btor2_export_exact [OF W inv, of 1] by auto
qed

text \<open>C11. An external model checker that finds no bad run in the exported file has proved the
  problem: no run of the problem, over the transitions of all symbols and for ever, shows a bad
  frame from the first checked one on. This is the statement the k-induction engine's Equivalent
  stands for, so the two answers are about the same thing.\<close>

theorem btor2_export_safe:
  assumes "exportSecBtor2 frameFirst p md accepts = Inr W" "resolverInv (newResolver p)"
    and "\<forall>K ss. btorRun (bodies W) K ss \<longrightarrow> \<not> btorBad (bodies W) (ss K)"
  shows "safeProblem p (the (pb_bad p))"
  by (rule no_bad_run_safe [OF assms])

theorem btor2_export_safe_witness:
  "safeProblem twinProblem (BXor (BVar 4) (BVar 5))"
proof -
  obtain W where W: "exportSecBtor2 False twinProblem exampleMetadata (\<lambda>_. True) = Inr W" using twin_exports by blast
  have inv: "resolverInv (newResolver twinProblem)" using twin_published by (simp add: publishedProblem_def)
  have bad: "pb_bad twinProblem = Some (BXor (BVar 4) (BVar 5))" by (simp add: twinProblem_def)
  have "\<not> eval (envs K) (BXor (BVar 4) (BVar 5))" if "problemPrefix twinProblem K envs" for K envs
    using that by (auto simp: problemPrefix_def relationsOn_def equalOn_def)
  then have "\<forall>K ss. btorRun (bodies W) K ss \<longrightarrow> \<not> btorBad (bodies W) (ss K)"
    using exported_runs [OF W inv] bad by (metis option.sel)
  from btor2_export_safe [OF W inv this] show ?thesis by (simp add: bad)
qed

text \<open>C12. A file that the export writes is well formed: the numbered lines count up from 1 without
  gaps (comments have no number), every line refers to earlier value lines only, every initial
  and next value is given to a declared state, at most once each, and an initial value is an
  earlier line that no input reaches.\<close>

theorem btor2_file_well_formed:
  assumes "exportSecBtor2 frameFirst p md accepts = Inr W" "resolverInv (newResolver p)"
  shows "numbered (bw_out W) \<and> fileOk (bodies W)"
  using exported_file_ok [OF assms] by blast

theorem btor2_file_well_formed_witness:
  "\<exists>W. exportSecBtor2 True heldProblem exampleMetadata (\<lambda>_. True) = Inr W \<and> fileOk (bodies W)"
proof -
  obtain W where W: "exportSecBtor2 True heldProblem exampleMetadata (\<lambda>_. True) = Inr W" using held_exports by blast
  have inv: "resolverInv (newResolver heldProblem)" by (rule newResolver_inv) simp
  from btor2_file_well_formed [OF W inv] show ?thesis using W by blast
qed



text \<open>C14. The percent encoding of a symbol can be undone: decoding what follows the space gives the
  symbol back byte for byte, so different names stay different, and every character written is
  printable and neither a space nor a semicolon, so no name can end its line, start a comment or
  be split in two.\<close>

theorem btor2_symbol_decodes:
  assumes "symbol \<noteq> []"
  shows "\<exists>body. symbolSuffix symbol = CHR '' '' # body \<and> decodeSymbol body = symbol \<and>
    list_all (\<lambda>c. 32 < (of_char c :: nat) \<and> (of_char c :: nat) < 127 \<and> c \<noteq> CHR '';'') body"
  using assms encode_printable by (auto simp: symbolSuffix_def decode_encode list_all_iff)

theorem btor2_symbol_decodes_witness:
  "symbolSuffix ''a;b %'' = '' a%3Bb%20%25'' \<and> decodeSymbol ''a%3Bb%20%25'' = ''a;b %''"
proof -
  have "symbolSuffix ''a;b %'' = '' a%3Bb%20%25''" by code_simp
  then show ?thesis using btor2_symbol_decodes [of "''a;b %''"] by auto
qed

text \<open>C15. Dumping an expression with its root asserted to a file that opens: there is a DIMACS text
  that a reader takes back as a number of variables, the number of clauses it announces and
  clauses over those variables, and these clauses are satisfiable exactly when some assignment
  makes the expression true. Whatever the device accepts, the dump raises no error, the stream
  has taken a prefix of that text, it reports success only when it has taken the whole text, and
  it does report success when the device accepts every prefix of it.\<close>

theorem dimacs_dump_decides:
  shows "\<exists>text n cs. readDimacs text = Some (n, int (length cs), cs) \<and>
    clausesBelow n cs \<and> ((\<exists>M. dimModels M cs) \<longleftrightarrow> (\<exists>env. eval env e)) \<and>
    (\<exists>ok out. dumpBoolExprToDimacs accepts (Some e) True True = Inr (ok, Some out) \<and>
      (ok \<longrightarrow> os_text out = text) \<and> (\<exists>rest. text = os_text out @ rest) \<and>
      ((\<forall>t rest. text = t @ rest \<longrightarrow> accepts t) \<longrightarrow> ok))"
  by (rule dump_decides)

theorem dimacs_dump_decides_witness:
  "\<exists>out n cs. dumpBoolExprToDimacs (\<lambda>_. True) (Some (mkAnd (mkVar 2) (mkNot (mkVar 3)))) True True = Inr (True, Some out) \<and>
    readDimacs (os_text out) = Some (n, int (length cs), cs) \<and> (\<exists>M. dimModels M cs)"
proof -
  have sat: "\<exists>env. eval env (mkAnd (mkVar 2) (mkNot (mkVar 3)))"
    by (rule exI [of _ "\<lambda>v. v = 2"]) (simp add: eval_simps)
  from dimacs_dump_decides [of "mkAnd (mkVar 2) (mkNot (mkVar 3))" "\<lambda>_. True"]
  obtain w n cs ok out where "readDimacs w = Some (n, int (length cs), cs)"
    "(\<exists>M. dimModels M cs) \<longleftrightarrow> (\<exists>env. eval env (mkAnd (mkVar 2) (mkNot (mkVar 3))))"
    "dumpBoolExprToDimacs (\<lambda>_. True) (Some (mkAnd (mkVar 2) (mkNot (mkVar 3)))) True True = Inr (ok, Some out)"
    "ok \<longrightarrow> os_text out = w" "ok"
    by blast
  then show ?thesis using sat by (intro exI [of _ out] exI [of _ n] exI [of _ cs]) simp
qed

text \<open>C16. The DIMACS export does not depend on the order in which the factories happened to put the
  operands of commutative gates: two expressions that differ only in such orders are exported to
  the same formula, clause for clause, when the structural keys tell the nodes of each
  expression apart.\<close>

theorem dimacs_export_stable:
  assumes "commEq e e'" "keysDistinct e" "keysDistinct e'"
  shows "encodeBoolExprToCnf (Some e) = encodeBoolExprToCnf (Some e')"
  using export_stable [OF assms] .

theorem dimacs_export_stable_witness:
  "encodeBoolExprToCnf (Some (BAnd (BVar 2) (BVar 3))) = encodeBoolExprToCnf (Some (BAnd (BVar 3) (BVar 2)))"
proof -
  have a: "keysDistinct (BAnd (BVar 2) (BVar 3))" unfolding keysDistinct_def by code_simp
  have b: "keysDistinct (BAnd (BVar 3) (BVar 2))" unfolding keysDistinct_def by code_simp
  show ?thesis by (rule dimacs_export_stable [OF _ a b]) simp
qed

text \<open>C17. The induction step over a sound back end, on a published problem (publishedProblem) with a
  valid support cache, provided that every valuation that is not bad satisfies the induction
  property (as when the property is the negation of the bad formula; a step whose property is a
  stronger conjunction than the bad formula it negates, as the leaves of a batch use, is outside
  this statement, because a step on a property that fails everywhere is proved vacuously). When
  the step answers Proved and the first k frames of every run are good, no run of the cone
  reaches a bad state, for any predicate on the starting states that reads only the relevant
  state symbols. A run takes, in every frame, the transitions of the relevant symbols and meets
  the legality, equality and reset constraints; the simple-path constraint is harmless because a
  shortest bad run repeats no relevant state.\<close>

theorem induction_step_sound:
  assumes "soundBackend B" "publishedProblem p" "inductionCacheOk ad p (newResolver p) c"
    "inductionPropertyOf p = Some property" "inductionBadOf p = Some badness"
    "proveByInductionStatus B ad p t k limit c = Inr (Proved, c')"
    "buildInductionCoi ad p (Some property) (Some badness) k c = Inr (coi, r, c'')"
    "\<And>env. \<not> eval env badness \<Longrightarrow> eval env property"
    "\<forall>env env'. start env \<longrightarrow> agreesOn (co_relevant coi) env env' \<longrightarrow> start env'"
    "\<forall>es f. coneRun p coi es \<longrightarrow> start (es 0) \<longrightarrow> f < k \<longrightarrow> \<not> eval (es f) badness"
    "coneRun p coi envs" "start (envs 0)"
  shows "\<not> eval (envs n) badness"
  by (rule proved_runs_safe [where start = start and envs = envs, OF assms])

theorem induction_step_sound_witness:
  "\<exists>coi r c. buildInductionCoi twinAddresses twinProblem (inductionPropertyOf twinProblem) (inductionBadOf twinProblem) 1 None =
      Inr (coi, r, c) \<and>
    (\<forall>envs n. coneRun twinProblem coi envs \<longrightarrow> \<not> eval (envs n) (BXor (BVar 4) (BVar 5)))"
  (is "\<exists>coi r c. ?build coi r c \<and> _ coi")
proof -
  obtain coi r c c' where s: "?build coi r c"
    "proveByInductionStatus tableBackend twinAddresses twinProblem KISSAT 1 None None = Inr (Proved, c')"
    "\<forall>envs f. coneRun twinProblem coi envs \<longrightarrow> envs f 4 = envs f 5"
    using twin_step [OF tableBackend_sound tableBackend_complete] by blast
  have none: "inductionCacheOk twinAddresses twinProblem (newResolver twinProblem) None" by (simp add: inductionCacheOk_def)
  have "\<not> eval (envs n) (BXor (BVar 4) (BVar 5))" if run: "coneRun twinProblem coi envs" for envs n
    by (rule induction_step_sound [where start = "\<lambda>_. True", OF tableBackend_sound twin_published none twin_fields(1,2) s(2)
          s(1) [unfolded twin_fields] _ _ _ run]) (use s(3) in auto)
  then show ?thesis using s(1) by blast
qed

text \<open>C18. If the initial frontier implies a candidate, the inductiveness query accepts it and the
  bad-state check accepts it, over a sound and complete SAT back end, then no state of any run
  of the problem is bad; the certified constraints handed to the checks need only hold in every
  run.\<close>

theorem validated_invariants_are_safe:
  assumes B: "soundBackend B" "completeBackend B" and cache: "supportCacheOk cache"
    and init: "buildProofInitFormula p = Some i" "initialFrontierImplies B (Some i) (Some candidate) t = Inr True"
    and step: "isInductiveInvariant B p (Some candidate) t cache certified = Inr (True, cache')"
    and bad: "invariantExcludesBadStates B p (Some candidate) t certified = Inr True" "pb_bad p = Some bad"
    and cert: "\<And>c env. certified = Some c \<Longrightarrow> reachable p env \<Longrightarrow> eval env c"
    and run: "reachable p env"
  shows "\<not> eval env bad"
  by (rule invariantExcludes_sound [OF B bad(1) invariant_reachable [OF B cache init step cert run] cert [OF _ run] bad(2)])

theorem validated_invariants_are_safe_witness:
  "reachable latchProblem (\<lambda>x. x = 4) \<and> \<not> eval (\<lambda>x. x = 4) (BNot (BVar 4))"
proof -
  note B = tableBackend_sound tableBackend_complete
  have i: "buildProofInitFormula latchProblem = Some (BVar 4)"
    by (simp add: buildProofInitFormula_def startFacts_def needsObservationFrontier_def latchProblem_def emptyProblem_def
        appendAssignmentFacts_def assignmentLiteral_def createTrue_def mkVar_def mkAnd_def; code_simp)
  have run: "reachable latchProblem (\<lambda>x. x = 4)"
    by (rule reach_init) (use initFormula_eval [of latchProblem] in \<open>auto simp: i legalOn_def pairsOn_def railsOn_def\<close>)
  have ini: "initialFrontierImplies tableBackend (Some (BVar 4)) (Some (BVar 4)) GLUCOSE = Inr True"
    using initialFrontierImplies_ok [OF B] by (simp add: implies_def)
  have h: "hypothesisOf (BVar 4) None = BVar 4" by (simp add: hypothesisOf_def)
  obtain cache' where ind: "isInductiveInvariant tableBackend latchProblem (Some (BVar 4)) GLUCOSE Map.empty None = Inr (True, cache')"
    using isInductiveInvariant_exact [OF B supportCacheOk_empty, of "BVar 4" None latchProblem GLUCOSE] by (auto simp: h latch_holds)
  have bad: "invariantExcludesBadStates tableBackend latchProblem (Some (BVar 4)) GLUCOSE None = Inr True"
    using isProofFormulaSatisfiable_ok [OF B] by (simp add: invariantExcludesBadStates_def satisfiable_def)
  show ?thesis
    using validated_invariants_are_safe [OF B supportCacheOk_empty i ini ind bad latch_fields(5) _ run] run by simp
qed

text \<open>C19. On a problem whose transitions are all published the induction step returns without an
  exception and leaves the support cache valid; Proved means that no window of k + 1 legal
  frames joined by the cone's transitions keeps the induction property for k frames and then is
  bad, NotProved that there is one, and without a decision limit a complete solver never leaves
  the step undecided.\<close>

theorem induction_step_exact:
  assumes "soundBackend B" "publishedProblem p" "inductionCacheOk ad p (newResolver p) c"
    "inductionPropertyOf p = Some property" "inductionBadOf p = Some badness"
  shows "\<exists>coi r c' st. buildInductionCoi ad p (Some property) (Some badness) k c = Inr (coi, r, c') \<and>
    coiOk (newResolver p) (Some property) (Some badness) k coi \<and> inductionCacheOk ad p (newResolver p) c' \<and>
    proveByInductionStatus B ad p t k limit c = Inr (st, c') \<and>
    statusMeans st (\<exists>envs. inductionWindow p (newResolver p) coi property badness k envs) \<and>
    (limit = None \<longrightarrow> completeBackend B \<longrightarrow> st \<noteq> InductionUnknown)"
  by (rule proveByInduction_ok [OF assms])

theorem induction_step_exact_witness:
  "\<exists>st c. proveByInductionStatus tableBackend twinAddresses twinProblem CADICAL 2 None None = Inr (st, c) \<and> st \<noteq> InductionUnknown"
proof -
  have none: "inductionCacheOk twinAddresses twinProblem (newResolver twinProblem) None" by (simp add: inductionCacheOk_def)
  show ?thesis
    using induction_step_exact [OF tableBackend_sound twin_published none twin_fields(1,2), of 2 CADICAL None]
      tableBackend_complete by blast
qed

text \<open>C20. For a candidate whose variables the hypothesis still reads, the inductiveness query returns
  on every problem, keeps the support cache correct, and answers true exactly when no pair of
  valuations that are legal on the query's symbols and joined by the transition equations of the
  candidate's state symbols leaves the candidate.\<close>

theorem inductive_query_exact:
  assumes "soundBackend B" "completeBackend B" "supportCacheOk cache"
    "vars candidate \<subseteq> vars (hypothesisOf candidate certified)"
  shows "\<exists>Q c cache'. inductiveInvariantQuerySymbols p (Some (hypothesisOf candidate certified))
       (buildTransitionExprByStateSymbol p) cache = Inr (Q, c) \<and> supportCacheOk cache' \<and>
    isInductiveInvariant B p (Some candidate) t cache certified =
      Inr (\<not> (\<exists>env env'. leavingStep p (set Q) (hypothesisOf candidate certified) candidate env env'), cache')"
  by (rule isInductiveInvariant_exact [OF assms])

theorem inductive_query_exact_witness:
  "\<exists>cache. isInductiveInvariant tableBackend latchProblem (Some (BVar 4)) CADICAL Map.empty None = Inr (True, cache)"
proof -
  have h: "hypothesisOf (BVar 4) None = BVar 4" by (simp add: hypothesisOf_def)
  show ?thesis
    using inductive_query_exact [OF tableBackend_sound tableBackend_complete supportCacheOk_empty,
        of "BVar 4" None latchProblem CADICAL] by (auto simp: h latch_holds)
qed

text \<open>C21. The inductiveness query with certified constraints, over a sound and complete back end and
  a valid support cache, on a problem without reset cycles whose state symbols are variables
  (not the constants 0 and 1), for a candidate that reads a state with a transition: it throws
  exactly when the factory folds the conjunction of the candidate and the certified constraints
  to the constant false. The query then has no symbols and the transition equation of the
  candidate finds no frame variable. A contradiction that the factory does not fold is answered
  without an error. Which error it is, is not stated.\<close>

theorem absorbed_hypothesis_throws:
  assumes "soundBackend B" "completeBackend B" "supportCacheOk cache"
    and "pb_resetBootstrapCycles p = 0" "statesPlain p" "formulaTargets p candidate \<noteq> []"
  shows "(\<exists>e. isInductiveInvariant B p (Some candidate) t cache (Some c) = Inl e) \<longleftrightarrow> mkAnd candidate c = createFalse"
  by (rule absorbed_exactly [OF assms])

theorem absorbed_hypothesis_throws_witness:
  "(\<exists>e. isInductiveInvariant tableBackend latchProblem (Some (BVar 4)) KISSAT Map.empty (Some (BNot (BVar 4))) = Inl e) \<and>
   (\<exists>r. isInductiveInvariant tableBackend latchProblem (Some (BVar 4)) KISSAT Map.empty (Some (BVar 5)) = Inr r)"
proof -
  have plain: "statesPlain latchProblem" by (simp add: statesPlain_def latch_states word_le_nat_alt)
  have target: "formulaTargets latchProblem (BVar 4) \<noteq> []" by (simp add: latch_targets)
  note law = absorbed_hypothesis_throws [OF tableBackend_sound tableBackend_complete supportCacheOk_empty latch_fields(4)
      plain target, of KISSAT]
  have "mkAnd (BVar 4) (BNot (BVar 4)) = createFalse" by code_simp
  moreover have "mkAnd (BVar 4) (BVar 5) \<noteq> createFalse" by code_simp
  ultimately show ?thesis using law [of "BNot (BVar 4)"] law [of "BVar 5"] by (metis old.sum.exhaust)
qed

text \<open>C22. The hash-consed, pointer-based expression cache refines the tree algebra of the factories:
  any sequence of factory calls on an empty cache succeeds, keeps the cache invariant, returns
  pointers that represent the trees the factories compute, and two results are the same pointer
  exactly when they are the same tree.\<close>

theorem runBuild_refines:
  assumes "freshAlloc alloc" "wellScoped 0 bs"
  shows "\<exists>ps c. runBuild (cacheFactory alloc) bs [] emptyCache = Some (Inr (ps, c)) \<and> cacheInv c \<and>
    list_all2 (holds c) ps (treesOf bs []) \<and>
    (\<forall>i j. i < length ps \<and> j < length ps \<longrightarrow> (ps ! i = ps ! j) = (treesOf bs [] ! i = treesOf bs [] ! j))"
proof -
  obtain ps c where r: "runBuild (cacheFactory alloc) bs [] emptyCache = Some (Inr (ps, c))" "cacheInv c"
    "list_all2 (holds c) ps (treesOf bs [])" using runBuild_trees [OF assms] by blast
  have "(ps ! i = ps ! j) = (treesOf bs [] ! i = treesOf bs [] ! j)" if "i < length ps" "j < length ps" for i j
    by (rule expression_store.registers_equal_iff
        [OF expression_store_cache [OF assms(1)] r(2,3) that])
  then show ?thesis using r by blast
qed

theorem runBuild_refines_witness:
  "\<exists>ps c. runBuild (cacheFactory nextFree) [MakeVar 2, MakeVar 3, MakeAnd 0 1, MakeAnd 1 0] [] emptyCache =
     Some (Inr (ps, c)) \<and> ps ! 2 = ps ! 3 \<and> ps ! 0 \<noteq> ps ! 1"
proof -
  let ?bs = "[MakeVar 2, MakeVar 3, MakeAnd 0 1, MakeAnd 1 0]"
  have "wellScoped 0 ?bs" by simp
  from runBuild_refines [OF nextFree_fresh this] obtain ps c
    where r: "runBuild (cacheFactory nextFree) ?bs [] emptyCache = Some (Inr (ps, c))"
      "list_all2 (holds c) ps (treesOf ?bs [])"
      "\<And>i j. i < length ps \<and> j < length ps \<Longrightarrow> (ps ! i = ps ! j) = (treesOf ?bs [] ! i = treesOf ?bs [] ! j)"
    by blast
  have "length ps = 4" using list_all2_lengthD [OF r(2)] by simp
  then show ?thesis using r(1) r(3) [of 2 3] r(3) [of 0 1] mkAnd_commute by (auto simp: mkVar_def numeral_eq_Suc)
qed

text \<open>C23. The Tseitin encoding of a frame formula is faithful: the literal that encode returns is
  equal, in every model of the clauses emitted, to the value of the formula under the values of
  its leaf literals; the encoder invariant is kept and no model of the clauses that were there
  before is lost.\<close>

theorem encode_represents:
  assumes "encode (Some e) en = Inr (l, en')" "encInv en"
  shows "encInv en' \<and> conservative (en_solver en) (en_solver en') \<and> enBelow en' l \<and>
    (\<forall>M. models M (en_solver en') \<longrightarrow> litTrue M l = eval (leafValue en' M) e)"
  using encode_ok [OF assms] by (simp add: encGrows_def encodes_def enModels_def)

theorem encode_represents_witness:
  "let en = newEncoder (snd (newSolverLiteral (newSolver CADICAL))) [2 \<mapsto> 2] None False 0 in
   \<exists>l en'. encode (Some (BAnd (BVar 2) (BNot (BVar 2)))) en = Inr (l, en') \<and>
     (\<forall>M. models M (en_solver en') \<longrightarrow> \<not> litTrue M l)"
proof -
  let ?s = "snd (newSolverLiteral (newSolver CADICAL))"
  let ?en = "newEncoder ?s [2 \<mapsto> 2] None False 0" and ?e = "BAnd (BVar 2) (BNot (BVar 2))"
  have inv: "encInv ?en"
    by (rule newEncoder_inv)
       (auto simp: newSolverLiteral_def newVar_def newSolver_def solverInv_def litBelow_def validLit_def
          litVar_def reserveVars_def Let_def split: if_splits)
  have "leafReady ?en v" if "v \<in> support ?e" for v
    using that by (auto simp: leafReady_def leafKnown_def newEncoder_def mappedSymbol_def mapSymbol_def)
  then obtain l en' where r: "encode (Some ?e) ?en = Inr (l, en')" using encode_total [OF inv] by blast
  show ?thesis using encode_represents [OF r inv] r by (auto simp: Let_def)
qed

text \<open>C24. Encoding always returns: if every support variable of the formula has a leaf literal (or
  the encoder may create it and its symbol is mapped), the iterative traversal ends with a
  literal.\<close>

theorem encode_returns:
  assumes "encInv en" "\<And>v. v \<in> support e \<Longrightarrow> leafReady en v"
  shows "\<exists>l en'. encode (Some e) en = Inr (l, en')"
  using assms by (rule encode_total)

theorem encode_returns_witness:
  "\<exists>l en'. encode (Some (BXor (BVar 2) (BVar 3))) (newEncoder (newSolver KISSAT) Map.empty None True 7) = Inr (l, en')"
proof (rule encode_returns)
  show "encInv (newEncoder (newSolver KISSAT) Map.empty None True 7)"
    by (rule newEncoder_inv) (auto simp: newSolver_def solverInv_def)
qed (auto simp: leafReady_def newEncoder_def mappedSymbol_def mapSymbol_def)

text \<open>C25. The flat open-addressing table of encoded nodes behaves like a map: an insertion always
  returns (probing terminates and growth keeps a free slot), keeps the table invariant, and
  afterwards a lookup gives the new literal at the inserted node and the old answer everywhere
  else.\<close>

theorem flat_cache_is_a_map:
  assumes "tableInv t" "node \<noteq> 0"
  shows "\<exists>t'. cacheLiteral node lit t = Some t' \<and> tableInv t' \<and>
    (\<forall>q. q \<noteq> 0 \<longrightarrow> findLiteral q t' = (if q = node then Some lit else findLiteral q t))"
proof -
  obtain t' where t': "cacheLiteral node lit t = Some t'" "tableInv t'"
    "tableMap (nt_entries t') = (tableMap (nt_entries t))(node \<mapsto> lit)" using cacheLiteral_ok [OF assms] by blast
  then show ?thesis by (simp add: findLiteral_ok [OF t'(2)] findLiteral_ok [OF assms(1)])
qed

theorem flat_cache_is_a_map_witness:
  "\<exists>t t'. reserveSlots 1 emptyTable = Some t \<and> cacheLiteral 4096 7 t = Some t' \<and>
     findLiteral 4096 t' = Some 7 \<and> findLiteral 8192 t' = Some 0"
proof -
  obtain t where t: "reserveSlots 1 emptyTable = Some t" "tableInv t" "tableMap (nt_entries t) = Map.empty"
    using constructed_ok [of 1] by auto
  show ?thesis using flat_cache_is_a_map [OF t(2), of 4096 7] t findLiteral_ok [OF t(2), of 8192] by auto
qed

text \<open>C26. Concurrent requests for expressions, interleaved at the atomic operations of the shared
  table, keep the cache consistent, and two threads that have received their answers hold the
  same pointer exactly when they asked for the same expression.\<close>

theorem concurrent_requests_agree:
  assumes "(concStep alloc)\<^sup>*\<^sup>* s (c, th)" "freshAlloc alloc" "concInv want s"
  shows "cacheInv c \<and> (\<forall>i j p q. th i = Some (Returned p) \<and> th j = Some (Returned q) \<longrightarrow>
    holds c p (want i) \<and> (p = q \<longleftrightarrow> want i = want j))"
proof -
  have inv: "concInv want (c, th)" by (rule concSteps_inv [OF assms])
  have "holds c p (want i)" if "th i = Some (Returned p)" for i p
    using concInv_phase [OF inv that] by simp
  then show ?thesis using concInv_cache [OF inv] returned_agree [OF inv] by blast
qed

theorem concurrent_requests_agree_witness:
  "let k = \<lparr> k_op = OpVAR, k_var = 2, k_l = None, k_r = None \<rparr> in
   \<exists>c th p q. (concStep nextFree)\<^sup>*\<^sup>* (emptyCache, [0 \<mapsto> Request k, 1 \<mapsto> Request k]) (c, th) \<and>
     th 0 = Some (Returned p) \<and> th 1 = Some (Returned q) \<and> p = q"
proof -
  let ?k = "\<lparr> k_op = OpVAR, k_var = 2, k_l = None, k_r = None \<rparr>"
  let ?s = "(emptyCache, [0 \<mapsto> Request ?k, 1 \<mapsto> Request ?k] :: threads)"
  have inv: "concInv (\<lambda>_. BVar 2) ?s"
    by (auto simp: concInv_iff keyFor_def split: if_splits)
  have fin: "finite (dom (snd ?s))" by simp
  obtain s' where s': "(concStep nextFree)\<^sup>*\<^sup>* ?s s'" "allReturned (snd s')" "dom (snd s') = dom (snd ?s)"
    using concSteps_finish [OF inv nextFree_fresh fin] by blast
  obtain c th where s: "s' = (c, th)" by (cases s')
  have d: "0 \<in> dom th" "1 \<in> dom th" using s'(3) s by auto
  have ar: "\<forall>i \<in> dom th. \<exists>p. th i = Some (Returned p)" using s'(2) s by (simp add: allReturned_def)
  obtain p q where pq: "th 0 = Some (Returned p)" "th 1 = Some (Returned q)"
    using bspec [OF ar d(1)] bspec [OF ar d(2)] by blast
  have run: "(concStep nextFree)\<^sup>*\<^sup>* ?s (c, th)" using s'(1) s by simp
  have "p = q" using concurrent_requests_agree [OF run nextFree_fresh inv] pq by blast
  then show ?thesis unfolding Let_def using run pq by blast
qed

text \<open>C27. Concurrent requests finish: every run from a consistent state with finitely many threads
  has a number of steps bounded by the work pending at its start, and a run that answers every
  request exists (no thread can be stuck).\<close>

theorem concurrent_requests_finish:
  assumes "concInv want s" "freshAlloc alloc" "finite (dom (snd s))"
  shows "(\<forall>n s'. (concStep alloc ^^ n) s s' \<longrightarrow> n \<le> pendingWork (snd s)) \<and>
    (\<exists>s'. (concStep alloc)\<^sup>*\<^sup>* s s' \<and> allReturned (snd s') \<and> dom (snd s') = dom (snd s)) \<and>
    (allReturned (snd s) \<or> (\<exists>s'. concStep alloc s s'))"
proof (intro conjI allI impI)
  show "n \<le> pendingWork (snd s)" if "(concStep alloc ^^ n) s s'" for n s'
    using concSteps_bounded [OF that assms(3)] by linarith
  show "\<exists>s'. (concStep alloc)\<^sup>*\<^sup>* s s' \<and> allReturned (snd s') \<and> dom (snd s') = dom (snd s)"
    by (rule concSteps_finish [OF assms])
  obtain c th where s: "s = (c, th)" by (cases s)
  show "allReturned (snd s) \<or> (\<exists>s'. concStep alloc s s')"
    using concStep_progress [of want c th _ _ alloc] assms(1) s by (fastforce simp: allReturned_def)
qed

theorem concurrent_requests_finish_witness:
  "let k = \<lparr> k_op = OpVAR, k_var = 2, k_l = None, k_r = None \<rparr> in
   \<exists>s'. (concStep nextFree)\<^sup>*\<^sup>* (emptyCache, [0 \<mapsto> Request k]) s' \<and> allReturned (snd s') \<and> dom (snd s') = {0}"
proof -
  let ?s = "(emptyCache, [0 \<mapsto> Request \<lparr> k_op = OpVAR, k_var = 2, k_l = None, k_r = None \<rparr>] :: threads)"
  have "concInv (\<lambda>_. BVar 2) ?s" by (auto simp: concInv_iff keyFor_def split: if_splits)
  from concurrent_requests_finish [OF this nextFree_fresh] show ?thesis by (simp add: Let_def)
qed

text \<open>C28. Entering and leaving an isolated cache scope is invisible: whatever expressions are built
  inside, the table, the id and the statistics of the outer cache come back unchanged, no outer
  node is freed, the cache invariant holds, and every outer pointer still represents its
  expression.\<close>

theorem scope_restores_cache:
  assumes "cacheInv c0" "freshAlloc alloc" "enterScope c0 = (saved, c1)" "factoryCalls alloc c1 c2"
  shows "c_table (leaveScope saved c2) = c_table c0 \<and> c_lastID (leaveScope saved c2) = c_lastID c0 \<and>
    c_quaries (leaveScope saved c2) = c_quaries c0 \<and> c_miss (leaveScope saved c2) = c_miss c0 \<and>
    c_hit (leaveScope saved c2) = c_hit c0 \<and> c_heap c0 \<subseteq>\<^sub>m c_heap (leaveScope saved c2) \<and>
    cacheInv (leaveScope saved c2) \<and> (\<forall>p t. holds c0 p t \<longrightarrow> holds (leaveScope saved c2) p t)"
  using leaveScope_restores [OF assms] leaveScope_correct [OF assms] by blast

theorem scope_restores_cache_witness:
  "\<exists>p c2. ptrVar nextFree 2 (snd (enterScope emptyCache)) = Some (Inr (p, c2)) \<and>
     c_table (leaveScope (fst (enterScope emptyCache)) c2) = Map.empty"
proof -
  have inv: "cacheInv (snd (enterScope emptyCache))"
    using scopeInv_enter [OF cacheInv_empty] by (simp add: scopeInv_def)
  obtain p c2 where r: "ptrVar nextFree 2 (snd (enterScope emptyCache)) = Some (Inr (p, c2))"
    using cache_store.var_ok [OF inv, of 2] by (auto simp: cacheFactory_def)
  have "factoryCalls nextFree (snd (enterScope emptyCache)) c2" using call_var [OF r] by blast
  from scope_restores_cache [OF cacheInv_empty nextFree_fresh prod.collapse [symmetric] this]
  show ?thesis using r by (simp add: emptyCache_def)
qed

text \<open>C29. BoolExpr::simplify keeps the value of every expression under every assignment, and leaves
  an expression built by the factories unchanged.\<close>

theorem simplify_correct:
  shows "eval env (simplify e) = eval env e \<and> (canonical e \<longrightarrow> simplify e = e)"
  using simplify_eval simplify_canonical by blast

theorem simplify_correct_witness:
  "simplify (mkAnd (mkVar 2) (mkNot (mkVar 3))) = mkAnd (mkVar 2) (mkNot (mkVar 3))"
  using simplify_correct [of "\<lambda>_. True" "mkAnd (mkVar 2) (mkNot (mkVar 3))"] by simp



text \<open>C31. The structural order of expressions (hash first, then operator, identifier and operands) is
  a strict total order, and the pointer comparison of the code computes it on interned nodes.\<close>

theorem nodeLess_strict_order:
  shows "\<not> nodeLess x x \<and> (nodeLess x y \<and> nodeLess y z \<longrightarrow> nodeLess x z) \<and>
    (x = y \<or> nodeLess x y \<or> nodeLess y x) \<and>
    (cacheInv c \<and> holds c p x \<and> holds c q y \<longrightarrow> ptrLess (c_heap c) p q = Some (nodeLess x y))"
  using nodeLess_trans nodeLess_total ptrLess_correct by (metis nodeLess_irrefl)

theorem nodeLess_strict_order_witness:
  "nodeLess (mkVar 2) (mkVar 3) \<or> nodeLess (mkVar 3) (mkVar 2)"
  using nodeLess_strict_order [of "mkVar 2" "mkVar 3" "mkVar 2" emptyCache 0 0] by (simp add: mkVar_def)

text \<open>C32. The dual-rail encoding over-approximates: if the rails of every variable allow its value,
  the rails built for a formula allow the formula's value, so a value the rails exclude is never
  taken.\<close>

theorem dualRail_contains:
  assumes "buildDualRailBoolExpr (Some e) mapVariable Map.empty s = Inr (Some r, memo, s')"
    "\<forall>v \<in> support e. contains (varRails memo env v) (\<sigma> v)"
  shows "contains (evalRails env r) (eval \<sigma> e)"
proof -
  have "liftsTo memo e r" using dualRail_ok [OF assms(1)] by (simp add: railsInv_def)
  then have "evalRails env r = ternary (varRails memo env) e" by (simp add: liftsTo_def)
  then show ?thesis using ternary_contains [OF assms(2)] by simp
qed

theorem dualRail_contains_witness:
  "\<exists>r memo. buildDualRailBoolExpr (Some (BNot (BVar 2))) (\<lambda>v s. Inr (rail (mkVar 5) (mkVar 6), s)) Map.empty () =
     Inr (Some r, memo, ()) \<and> contains (evalRails (\<lambda>v. v = 5) r) (eval (\<lambda>_. True) (BNot (BVar 2)))"
proof -
  let ?m = "[BVar 2 \<mapsto> rail (mkVar 5) (mkVar 6), BNot (BVar 2) \<mapsto> liftNot (rail (mkVar 5) (mkVar 6))]"
  have r: "buildDualRailBoolExpr (Some (BNot (BVar 2))) (\<lambda>v s. Inr (rail (mkVar 5) (mkVar 6), s)) Map.empty () =
      Inr (Some (liftNot (rail (mkVar 5) (mkVar 6))), ?m, ())"
    by (simp add: buildDualRailBoolExpr_def dualRailVisitor_def kids_def emplace_def postLoop.simps)
  have "varRails ?m (\<lambda>v. v = 5) 2 = (True, False)" by (simp add: varRails_def)
  then show ?thesis using dualRail_contains [OF r, of "\<lambda>v. v = 5" "\<lambda>_. True"] r by simp
qed

text \<open>C33. The dual-rail encoding is exact on binary inputs: where the rails of every variable say
  exactly its value, the rails of a formula say exactly the formula's value; and valid rails (at
  least one set) give valid rails.\<close>

theorem dualRail_exact:
  assumes "buildDualRailBoolExpr (Some e) mapVariable Map.empty s = Inr (Some r, memo, s')"
  shows "((\<forall>v \<in> support e. varRails memo env v = (\<sigma> v, \<not> \<sigma> v)) \<longrightarrow> evalRails env r = (eval \<sigma> e, \<not> eval \<sigma> e)) \<and>
    ((\<forall>v \<in> support e. fst (varRails memo env v) \<or> snd (varRails memo env v)) \<longrightarrow>
     fst (evalRails env r) \<or> snd (evalRails env r))"
proof -
  have "liftsTo memo e r" using dualRail_ok [OF assms(1)] by (simp add: railsInv_def)
  then have r: "evalRails env r = ternary (varRails memo env) e" by (simp add: liftsTo_def)
  show ?thesis using ternary_exact ternary_valid r by simp
qed

theorem dualRail_exact_witness:
  "\<exists>r memo. buildDualRailBoolExpr (Some (BNot (BVar 2))) (\<lambda>v s. Inr (rail (mkVar 5) (mkNot (mkVar 5)), s)) Map.empty () =
     Inr (Some r, memo, ()) \<and> evalRails (\<lambda>v. True) r = (False, True)"
proof -
  let ?x = "rail (mkVar 5) (mkNot (mkVar 5))"
  let ?m = "[BVar 2 \<mapsto> ?x, BNot (BVar 2) \<mapsto> liftNot ?x]"
  have r: "buildDualRailBoolExpr (Some (BNot (BVar 2))) (\<lambda>v s. Inr (?x, s)) Map.empty () =
      Inr (Some (liftNot ?x), ?m, ())"
    by (simp add: buildDualRailBoolExpr_def dualRailVisitor_def kids_def emplace_def postLoop.simps)
  have "varRails ?m (\<lambda>v. True) 2 = (True, False)" by (simp add: varRails_def)
  then have "evalRails (\<lambda>v. True) (liftNot ?x) = (False, True)"
    using dualRail_exact [OF r, of "\<lambda>v. True" "\<lambda>_. True"] by simp
  then show ?thesis using r by blast
qed

text \<open>C34. Renaming the variables of an expression succeeds exactly when every support variable has an
  image, and the result has the value of the original under the renamed assignment, reads only
  the images, and stays canonical.\<close>

theorem remap_is_substitution:
  shows "((\<exists>r. remapBoolExprVariables (Some e) varMap Map.empty = Inr r) = (support e \<subseteq> dom varMap)) \<and>
    (remapBoolExprVariables (Some e) varMap Map.empty = Inr (r, memo) \<longrightarrow>
     (\<exists>v. r = Some v \<and> eval env v = eval (pullEnv varMap env) e \<and>
       support v \<subseteq> (\<lambda>x. the (varMap x)) ` support e \<and> (canonical e \<longrightarrow> canonical v)))"
proof -
  have ok: "\<exists>v. r = Some v \<and> remapsTo varMap e v" if "remapBoolExprVariables (Some e) varMap Map.empty = Inr (r, memo)"
    for r memo using remap_ok [OF that] by auto
  have "(\<exists>r. remapBoolExprVariables (Some e) varMap Map.empty = Inr r) = (support e \<subseteq> dom varMap)"
  proof
    assume "\<exists>r. remapBoolExprVariables (Some e) varMap Map.empty = Inr r"
    then obtain r memo where "remapBoolExprVariables (Some e) varMap Map.empty = Inr (r, memo)" by fastforce
    then show "support e \<subseteq> dom varMap" using ok by (fastforce simp: remapsTo_def)
  qed (use remap_total [of e varMap Map.empty] in auto)
  moreover have "remapBoolExprVariables (Some e) varMap Map.empty = Inr (r, memo) \<longrightarrow>
     (\<exists>v. r = Some v \<and> eval env v = eval (pullEnv varMap env) e \<and>
       support v \<subseteq> (\<lambda>x. the (varMap x)) ` support e \<and> (canonical e \<longrightarrow> canonical v))"
    using ok unfolding remapsTo_def translates_def by fastforce
  ultimately show ?thesis by blast
qed

theorem remap_is_substitution_witness:
  "\<exists>v memo. remapBoolExprVariables (Some (BAnd (BVar 2) (BVar 3))) [2 \<mapsto> 8, 3 \<mapsto> 8] Map.empty = Inr (Some v, memo) \<and>
     eval (\<lambda>x. x = 8) v"
proof -
  have "support (BAnd (BVar 2) (BVar 3)) \<subseteq> dom [2 \<mapsto> 8, 3 \<mapsto> (8::var_id)]" by auto
  then obtain r memo where r: "remapBoolExprVariables (Some (BAnd (BVar 2) (BVar 3))) [2 \<mapsto> 8, 3 \<mapsto> 8] Map.empty = Inr (r, memo)"
    using remap_is_substitution [of "BAnd (BVar 2) (BVar 3)" "[2 \<mapsto> 8, 3 \<mapsto> 8]"] by fastforce
  then show ?thesis
    using remap_is_substitution [of "BAnd (BVar 2) (BVar 3)" "[2 \<mapsto> 8, 3 \<mapsto> 8]" r memo "\<lambda>x. x = 8"]
    by (auto simp: pullEnv_def)
qed

text \<open>C35. Substituting constants computes the cofactor: the result has the value of the original with
  the assigned variables fixed, mentions none of them, and stays canonical.\<close>

theorem substitute_is_cofactor:
  shows "eval env (fst (substituteBoolExprVariables A e Map.empty)) = eval (fixEnv A env) e \<and>
    support (fst (substituteBoolExprVariables A e Map.empty)) \<subseteq> support e - dom A \<and>
    (canonical e \<longrightarrow> canonical (fst (substituteBoolExprVariables A e Map.empty)))"
proof -
  have "substitutesTo A e (fst (substituteBoolExprVariables A e Map.empty))"
    using substitute_ok [of A Map.empty e] by (cases "substituteBoolExprVariables A e Map.empty") auto
  then show ?thesis by (force simp: substitutesTo_def translates_def split: if_splits)
qed

theorem substitute_is_cofactor_witness:
  "canonical (fst (substituteBoolExprVariables [2 \<mapsto> True] (mkAnd (mkVar 2) (mkVar 3)) Map.empty)) \<and>
   eval (\<lambda>_. True) (fst (substituteBoolExprVariables [2 \<mapsto> True] (mkAnd (mkVar 2) (mkVar 3)) Map.empty))"
  using substitute_is_cofactor [of "\<lambda>_. True" "[2 \<mapsto> True]" "mkAnd (mkVar 2) (mkVar 3)"]
  by (auto simp: fixEnv_def)

text \<open>C36. What the implication query answers over a back end that is sound but may give up: it raises
  no error, and it returns true exactly when the implication holds or the status of the query
  (assumptions and not conclusion, without a limit) is Unknown. An undecided query is thus
  reported as an implication: isBoolFormulaSatisfiable compares the status with satisfiable, and
  boolFormulaImplies negates the comparison. The witness is a sound back end that gives up and
  an implication that does not hold and is reported.\<close>

theorem unknown_reported_as_implied:
  assumes "soundBackend B"
  shows "\<exists>b. boolFormulaImplies B a (Some c) t = Inr b \<and>
    (b \<longleftrightarrow> implies a c \<or> solveBoolFormulaStatus B (Some (mkAnd a (mkNot c))) t None = Inr Unknown)"
  by (rule boolFormulaImplies_sound [OF assms])

theorem unknown_reported_as_implied_witness:
  "boolFormulaImplies givingUpBackend createTrue (Some (mkVar 2)) KISSAT = Inr True \<and>
    \<not> implies createTrue (mkVar 2)"
proof -
  obtain st where st: "solveBoolFormulaStatus givingUpBackend (Some (mkNot (mkVar 2))) KISSAT None = Inr st"
    "st = Sat \<longrightarrow> mkNot (mkVar 2) = BVar 1" using givingUp_kissat by blast
  have conj: "mkAnd createTrue (mkNot (mkVar 2)) = mkNot (mkVar 2)"
    by (simp add: mkAnd_def createTrue_def mkNot_def mkVar_def)
  have no: "\<not> implies createTrue (mkVar 2)" by (auto simp: implies_def)
  have "st \<noteq> Unsat"
    using solveBoolFormulaStatus_sound [OF givingUpBackend_sound, of "mkNot (mkVar 2)" KISSAT None] st(1)
    by (auto simp: statusOf_def satisfiable_def)
  then have "st = Unknown" using st(2) by (cases st) (auto simp: mkNot_def mkVar_def)
  then show ?thesis
    using unknown_reported_as_implied [OF givingUpBackend_sound, of createTrue "mkVar 2" KISSAT] st(1) no by (auto simp: conj)
qed

text \<open>C37. The work budget shared by CaDiCaL queries is never overrun and never wraps: after any query
  the amounts used are within their limits, the limits are unchanged and no amount has
  decreased.\<close>

theorem budget_never_overrun:
  assumes "\<And>b. sv_budget s = Some b \<Longrightarrow> withinBudget b"
    "sv_budget (snd (solveCadicalWithResourceLimits B as x y z u s)) = Some b'"
  shows "withinBudget b' \<and> (\<exists>b. sv_budget s = Some b \<and> wb_conflictLimit b' = wb_conflictLimit b \<and>
    wb_decisionLimit b' = wb_decisionLimit b \<and> wb_tickLimit b' = wb_tickLimit b \<and>
    wb_conflicts b \<le> wb_conflicts b' \<and> wb_decisions b \<le> wb_decisions b' \<and> wb_ticks b \<le> wb_ticks b')"
  using assms by (rule solveCadical_within)

theorem budget_never_overrun_witness:
  "let s = (newSolver CADICAL)\<lparr> sv_budget := Some (newBudget 10 20 (- 1)) \<rparr>;
       B = tableBackend\<lparr> be_cadical := (\<lambda>_ _ _. (20, (0, 0, 0), (500, 7, 3))) \<rparr>
   in \<exists>b'. sv_budget (snd (solveCadicalWithResourceLimits B [] (- 1) (- 1) (- 1) True s)) = Some b' \<and>
     withinBudget b' \<and> wb_conflicts b' = 10"
proof -
  let ?s = "(newSolver CADICAL)\<lparr> sv_budget := Some (newBudget 10 20 (- 1)) \<rparr>"
  let ?B = "tableBackend\<lparr> be_cadical := (\<lambda>_ _ _. (20, (0, 0, 0), (500, 7, 3))) \<rparr>"
  let ?b = "\<lparr> wb_conflictLimit = 10, wb_decisionLimit = 20, wb_tickLimit = - 1, wb_conflicts = 10,
    wb_decisions = 7, wb_ticks = 3 \<rparr> :: work_budget"
  have r: "sv_budget (snd (solveCadicalWithResourceLimits ?B [] (- 1) (- 1) (- 1) True ?s)) = Some ?b"
    by (simp add: solveCadicalWithResourceLimits_def newBudget_def exhausted_def remainingConflicts_def
      remainingDecisions_def remainingTicks_def remaining_def consume_def counterDelta_def newSolver_def)
  have "withinBudget ?b" using budget_never_overrun [OF _ r] by (simp add: newBudget_within)
  then show ?thesis using r by (simp add: Let_def)
qed

text \<open>C38. Asking the resolver for a transition whose symbols are all published always succeeds, keeps
  the resolver's caches consistent and its sources unchanged, and gives the eager expression or
  the lazy source renamed (or lifted to the requested rail) through the design's symbol map.\<close>

theorem resolved_transition_meaning:
  assumes "resolverInv r" "directSupport s r = Inr S"
  shows "\<exists>eo r'. transitionAt s r = Inr (eo, r') \<and> resolverInv r' \<and> sameSources r r' \<and>
    (case tr_eager r s of
       Some e \<Rightarrow> eo = Some e
     | None \<Rightarrow> \<exists>st src. storeOf r = Some st \<and> lazySource s st = Inr src \<and> resolves st src eo)"
proof -
  obtain eo r' where t: "transitionAt s r = Inr (eo, r')" using transitionAt_total [OF assms] by blast
  then show ?thesis using transitionAt_ok [OF assms(1) t] by blast
qed

theorem resolved_transition_meaning_witness:
  "\<exists>r'. transitionAt 4 (newResolver (emptyProblem\<lparr> pb_transitions0 := [(4, BNot (BVar 5))] \<rparr>)) =
     Inr (Some (BNot (BVar 5)), r') \<and> resolverInv r'"
proof -
  let ?r = "newResolver (emptyProblem\<lparr> pb_transitions0 := [(4, BNot (BVar 5))] \<rparr>)"
  have i: "resolverInv ?r" by (rule newResolver_inv) (simp add: emptyProblem_def)
  have e: "tr_eager ?r 4 = Some (BNot (BVar 5))" by (simp add: newResolver_def emptyProblem_def emplace_def)
  have "directSupport 4 ?r = Inr (vars (BNot (BVar 5)))" by (simp add: directSupport_def e)
  from resolved_transition_meaning [OF i this] show ?thesis unfolding e by fastforce
qed

text \<open>C39. The support the resolver reports for a state symbol, cached or computed in the local symbol
  space without materializing the expression, covers every variable of the expression it later
  resolves for that symbol.\<close>

theorem transition_support_covers:
  assumes "resolverInv r" "transitionAt s r = Inr (Some v, r')" "transitionSupport s r = Inr (S, r'')"
  shows "support v \<subseteq> S"
  by (rule transitionAt_support [OF assms])

theorem transition_support_covers_witness:
  "\<exists>v r' S r''. transitionAt 4 (newResolver (emptyProblem\<lparr> pb_transitions0 := [(4, BAnd (BVar 5) (BVar 6))] \<rparr>)) = Inr (Some v, r') \<and>
     transitionSupport 4 (newResolver (emptyProblem\<lparr> pb_transitions0 := [(4, BAnd (BVar 5) (BVar 6))] \<rparr>)) = Inr (S, r'') \<and>
     support v \<subseteq> S \<and> 5 \<in> S"
proof -
  let ?r = "newResolver (emptyProblem\<lparr> pb_transitions0 := [(4, BAnd (BVar 5) (BVar 6))] \<rparr>)"
  have i: "resolverInv ?r" by (rule newResolver_inv) (simp add: emptyProblem_def)
  have e: "tr_eager ?r 4 = Some (BAnd (BVar 5) (BVar 6))" by (simp add: newResolver_def emptyProblem_def emplace_def)
  have t: "transitionAt 4 ?r = Inr (Some (BAnd (BVar 5) (BVar 6)), ?r)" by (simp add: transitionAt_def e)
  have d: "directSupport 4 ?r = Inr (vars (BAnd (BVar 5) (BVar 6)))" by (simp add: directSupport_def e)
  obtain S r'' where s: "transitionSupport 4 ?r = Inr (S, r'')" "5 \<in> S"
    using transitionSupport_direct [of ?r 4] i d by (auto simp: resolverInv_def split: sum.splits)
  show ?thesis using transition_support_covers [OF i t s(1)] t s by blast
qed

text \<open>C40. The encoding order built for a transition expression lists each node once with its children
  first, so that encoding along it never meets a malformed recipe and gives a literal equivalent
  to the expression.\<close>

theorem transition_orders_encode:
  assumes "encInv en" "\<And>v. v \<in> support e \<Longrightarrow> leafReady en v"
  shows "distinct (buildEncodingPostorder (Some e)) \<and>
    (\<exists>l en'. encodeAlong (Some e) (buildEncodingPostorder (Some e)) en = Inr (l, en') \<and> encInv en' \<and>
       (\<forall>M. models M (en_solver en') \<longrightarrow> litTrue M l = eval (leafValue en' M) e))"
proof -
  let ?o = "buildEncodingPostorder (Some e)"
  have o: "set ?o = subs e" "distinct ?o" "childrenFirst ?o" using buildEncodingPostorder_ok [of e] by auto
  have "\<And>n v. n \<in> set ?o \<Longrightarrow> v \<in> support n \<Longrightarrow> leafReady en v" using assms(2) support_subs o(1) by blast
  then obtain l en' where r: "encodeAlong (Some e) ?o en = Inr (l, en')"
    using encodeAlong_total [OF assms(1) o(3)] o(1) by (metis subs_self)
  show ?thesis using encodeAlong_ok [OF r assms(1)] r o(2) by (auto simp: encodes_def enModels_def)
qed

theorem transition_orders_encode_witness:
  "distinct (buildEncodingPostorder (Some (BAnd (BVar 2) (BNot (BVar 3)))))"
proof -
  let ?en = "newEncoder (newSolver GLUCOSE) Map.empty None True 0"
  have inv: "encInv ?en" by (rule newEncoder_inv) (auto simp: newSolver_def solverInv_def)
  have lr: "leafReady ?en v" for v by (auto simp: leafReady_def newEncoder_def mappedSymbol_def mapSymbol_def)
  show ?thesis using transition_orders_encode [OF inv lr] by blast
qed

text \<open>On binary problems the frontier query of the cache shared by KI and IMC answers as a fresh
  frontier query: both return, with the same status and a witness in the same cases.\<close>

lemma cached_frontier_agrees:
  assumes "soundBackend B" "completeBackend B" "baseProblem p property badness" "\<not> pb_usesDualRailStateEncoding p"
  shows "\<exists>w w' st. findImcCachedBaseCounterexampleAtFrontierQuery B (makeImcBaseCounterexampleCache p) t k SecConeProfile = Inr (w, st) \<and>
    baseQuery B p t k (Some k) SecConeProfile = Inr (w', st) \<and> (w = None \<longleftrightarrow> w' = None) \<and> st \<noteq> Unknown"
proof (cases "baseShapeOf p k (Some k)")
  case None
  then show ?thesis by (simp add: findImcCachedBaseCounterexampleAtFrontierQuery_def baseQuery_def)
next
  case (Some shz)
  then obtain sh z where s: "baseShapeOf p k (Some k) = Some (sh, z)" by (cases shz) simp
  have profile: "SecConeProfile \<noteq> PdrValidationProofOnly" "SecConeProfile \<noteq> FastCounterexampleSearch" by simp_all
  obtain coi r st w where c: "buildBaseCaseCoi p sh = Inr (coi, r)"
    "findImcCachedBaseCounterexampleAtFrontierQuery B (makeImcBaseCounterexampleCache p) t k SecConeProfile = Inr (w, st)"
    "answers p sh z coi st" "w \<noteq> None \<longleftrightarrow> st = Sat" "st \<noteq> Unknown"
    using cachedQuery_ok [OF assms(1,3,4) s profile(1), of t] assms(2) profile(2) by blast
  obtain coi' r' st' w' where q: "buildBaseCaseCoi p sh = Inr (coi', r')" "baseQuery B p t k (Some k) SecConeProfile = Inr (w', st')"
    "answers p sh z coi' st'" "w' \<noteq> None \<longleftrightarrow> st' = Sat" "st' \<noteq> Unknown"
    using baseQuery_ok [OF assms(1,3) s, of t SecConeProfile] assms(2) profile(2) by blast
  have "coi' = coi" using c(1) q(1) by simp
  then have "st' = st" using c(3,5) q(3,5) by (cases st; cases st') (auto simp: answers_def)
  then show ?thesis using c(2,4,5) q(2,4) by auto
qed

lemma cached_frontier_agrees_witness:
  "\<exists>w w' st. findImcCachedBaseCounterexampleAtFrontierQuery tableBackend (makeImcBaseCounterexampleCache (pairProblem 1)) KISSAT 3 SecConeProfile = Inr (w, st) \<and>
    baseQuery tableBackend (pairProblem 1) KISSAT 3 (Some 3) SecConeProfile = Inr (w', st) \<and> (w = None \<longleftrightarrow> w' = None) \<and> st \<noteq> Unknown"
  by (rule cached_frontier_agrees [OF tableBackend_sound tableBackend_complete pair_base]) simp

text \<open>The indexes kept by the frontier cache do not change the cone of a base query: for every problem
  and every shape of query, the cone and the resolver built from a new cache are those built
  from the problem, errors included. The work-list closure over the indexed equalities gives the
  set that repeated passes over the equality pairs give.\<close>

lemma cached_cone_is_fresh:
  "buildImcCachedBaseCaseCoi (makeImcBaseCounterexampleCache p) sh = buildBaseCaseCoi p sh \<and>
    closeEqualities (equalityIndex pairs) S = closeStateEqualityDependencies pairs S"
  by (simp add: cached_cone closeEqualities_dependencies)

text \<open>The problem of a range of outputs states exactly that range: its property holds where the
  outputs of the range agree, its bad formula is the complement, and both are its induction
  formulas too.\<close>

lemma output_range_property:
  assumes "f \<le> e" "e \<le> length (pb_observedOutputExprs0 source)" "e \<le> length (pb_observedOutputExprs1 source)"
  shows "\<exists>property bad. pb_property (configureOutputBatchProblem batch source f e) = Some property \<and>
    pb_bad (configureOutputBatchProblem batch source f e) = Some bad \<and>
    pb_inductionProperty (configureOutputBatchProblem batch source f e) = Some property \<and>
    pb_inductionBad (configureOutputBatchProblem batch source f e) = Some bad \<and>
    (\<forall>env. eval env property = outputsEqual source f e env \<and> eval env bad = (\<not> outputsEqual source f e env))"
  by (rule configureOutputBatch_property [OF assms])

lemma output_range_property_witness:
  "\<exists>property. pb_property (configureOutputBatchProblem (pairProblem 3) (pairProblem 3) 1 3) = Some property \<and>
    (\<forall>env. eval env property = outputsEqual (pairProblem 3) 1 3 env)"
  using output_range_property [of 1 3 "pairProblem 3" "pairProblem 3"] by auto

text \<open>A limit written in decimal to the environment is read back as it is when it fits an unsigned,
  after any white space, and is rejected when it does not fit or when anything follows the
  number.\<close>

lemma environment_limit_read:
  assumes "\<forall>c \<in> set ws. isSpaceChar c"
  shows "(getenv name = Some (ws @ showNat n) \<longrightarrow> readUnsignedEnv getenv name = (if n < 2 ^ 32 then Some (of_nat n) else None)) \<and>
    (getenv name = Some (ws @ showNat n @ c # rest) \<longrightarrow> \<not> isDigit c \<longrightarrow> readUnsignedEnv getenv name = None)"
  using readUnsigned_number [OF assms, of getenv name n] readUnsigned_garbage [OF assms, of getenv name n c rest] by blast

lemma environment_limit_read_witness:
  "readUnsignedEnv (\<lambda>_. Some ('' '' @ showNat 4200)) ''KEPLER_SEC_KI_BATCH_DECISION_LIMIT'' = Some 4200"
  using environment_limit_read [of "'' ''" "\<lambda>_. Some ('' '' @ showNat 4200)" "''KEPLER_SEC_KI_BATCH_DECISION_LIMIT''" 4200]
  by (simp add: isSpaceChar_def)

text \<open>The implication query of the SEC engines is a decision procedure: over a sound and complete SAT
  back end, boolFormulaImplies returns true exactly when every assignment that satisfies the
  assumptions satisfies the conclusion, and it never raises an error.\<close>

lemma boolFormulaImplies_decides:
  assumes "soundBackend B" "completeBackend B"
  shows "boolFormulaImplies B a (Some c) t = Inr (implies a c)"
  using assms by (rule boolFormulaImplies_ok)

lemma boolFormulaImplies_decides_witness:
  "boolFormulaImplies tableBackend (mkAnd (mkVar 2) (mkVar 3)) (Some (mkVar 2)) CADICAL = Inr True \<and>
   boolFormulaImplies tableBackend (mkVar 2) (Some (mkVar 3)) KISSAT = Inr False"
  using boolFormulaImplies_decides [OF tableBackend_sound tableBackend_complete,
      of "mkAnd (mkVar 2) (mkVar 3)" "mkVar 2" CADICAL]
    boolFormulaImplies_decides [OF tableBackend_sound tableBackend_complete, of "mkVar 2" "mkVar 3" KISSAT]
  by (auto simp: implies_def intro!: exI [of _ "\<lambda>v. v = (2::var_id)"])

text \<open>The factory functions compute their connectives and are insensitive to the order of their
  operands: negation, conjunction, disjunction and exclusive or of the results have the values
  of the Boolean connectives, and swapped operands give the same node.\<close>

lemma factories_compute:
  shows "eval env (mkNot a) = (\<not> eval env a) \<and> eval env (mkAnd a b) = (eval env a \<and> eval env b) \<and>
    eval env (mkOr a b) = (eval env a \<or> eval env b) \<and> eval env (mkXor a b) = (eval env a \<noteq> eval env b) \<and>
    mkAnd a b = mkAnd b a \<and> mkOr a b = mkOr b a \<and> mkXor a b = mkXor b a"
  using mkAnd_commute mkOr_commute mkXor_commute by auto

text \<open>Evaluation under a partial assignment returns a value exactly when every support variable is
  assigned, and then it is the value of the expression; a missing variable is reported as a
  runtime error, never as a wrong value.\<close>

lemma evaluate_characterised:
  shows "evaluate env e = Inr b \<longleftrightarrow> support e \<subseteq> dom env \<and> b = eval (\<lambda>v. env v = Some True) e"
  by (simp add: evaluate_Inr_iff evaluatesTo_def)

text \<open>The printed form determines the expression: two expressions print to the same text exactly when
  they are the same expression.\<close>

lemma toString_unambiguous:
  shows "toString a = toString b \<longleftrightarrow> a = b"
  using toString_inject by blast

text \<open>The support cache of the induction step is transparent: a hit or a miss adds exactly the union
  of the targets' supports to the outputs, filed under the state symbols, throws exactly when a
  target has no support, and keeps the cache valid whatever its eviction limits drop.\<close>

lemma support_cache_transparent:
  assumes "resolverInv r" "inductionCacheOk ad p r c"
  shows "case collectTransitionSupportWithCache ad p ts (buildStateSymbolSet p) outs (r, c) of
      Inl _ \<Rightarrow> \<not> supported r ts
    | Inr (outs', r', c') \<Rightarrow> supported r ts \<and> outs' = addReads (buildStateSymbolSet p) (coneReads r ts) outs \<and>
        session r r' \<and> inductionCacheOk ad p r' c'"
  by (rule collectWithCache_ok [OF assms])

lemma support_cache_transparent_witness:
  "\<exists>r c. collectTransitionSupportWithCache twinAddresses twinProblem [4, 5] (buildStateSymbolSet twinProblem) ({}, {})
     (newResolver twinProblem, None) = Inr (({4, 5}, {4, 5}), r, c) \<and> inductionCacheOk twinAddresses twinProblem r c"
proof -
  let ?r = "newResolver twinProblem"
  have inv: "resolverInv ?r" using twin_published by (simp add: publishedProblem_def)
  have e: "tr_eager ?r 4 = Some (BVar 4)" "tr_eager ?r 5 = Some (BVar 5)"
    by (simp_all add: newResolver_def twinProblem_def emptyProblem_def emplace_def)
  have s: "supported ?r [4, 5]" by (simp add: supported_def directSupport_def e)
  have c: "coneReads ?r [4, 5] = {4, 5}" by (auto simp: coneReads_def directSupport_def e)
  have b: "buildStateSymbolSet twinProblem = {4, 5}" by (auto simp: buildStateSymbolSet_def twinProblem_def emptyProblem_def)
  have none: "inductionCacheOk twinAddresses twinProblem ?r None" by (simp add: inductionCacheOk_def)
  show ?thesis using support_cache_transparent [OF inv none, of "[4, 5]" "({}, {})"] s c b
    by (auto simp: addReads_def split: sum.splits)
qed

text \<open>The fixed-point loop that closes a symbol set under state equality pairs ends on every input,
  and its result is the least set that contains the seed and holds both or neither symbol of
  every pair.\<close>

lemma equality_closure_least:
  shows "S \<subseteq> closeStateEqualityDependencies pairs S \<and> equalityClosed pairs (closeStateEqualityDependencies pairs S) \<and>
    (\<forall>C. S \<subseteq> C \<longrightarrow> equalityClosed pairs C \<longrightarrow> closeStateEqualityDependencies pairs S \<subseteq> C)"
  by (rule closeDependencies_ok)

lemma equality_closure_least_witness:
  "closeStateEqualityDependencies [(4, 5), (5, 6), (7, 8)] {4} = {4, 5, 6}"
proof
  show "closeStateEqualityDependencies [(4, 5), (5, 6), (7, 8)] {4} \<subseteq> {4, 5, 6}"
    using equality_closure_least [of "{4}" "[(4, 5), (5, 6), (7, 8)]"] by (auto simp: equalityClosed_def)
  show "{4, 5, 6} \<subseteq> closeStateEqualityDependencies [(4, 5), (5, 6), (7, 8)] {4}"
    using equality_closure_least [of "{4}" "[(4, 5), (5, 6), (7, 8)]"] by (auto simp: equalityClosed_def)
qed

text \<open>An implication query under a conflict limit may give up but never lies: the answer true is an
  implication, the answer false has a counterexample, and there is no error.\<close>

lemma conflict_limit_sound:
  assumes "soundBackend B"
  shows "\<exists>r. boolFormulaImpliesWithConflictLimit B a (Some c) t limit = Inr r \<and>
    (r = Some True \<longrightarrow> implies a c) \<and> (r = Some False \<longrightarrow> \<not> implies a c)"
  using assms by (rule boolFormulaImpliesWithConflictLimit_ok)

lemma conflict_limit_sound_witness:
  "\<exists>r. boolFormulaImpliesWithConflictLimit givingUpBackend (mkVar 2) (Some (mkVar 3)) CADICAL 100 = Inr r \<and>
     r \<noteq> Some True"
proof -
  have "\<not> implies (mkVar 2) (mkVar 3)" by (auto simp: implies_def intro!: exI [of _ "\<lambda>v. v = (2::var_id)"])
  then show ?thesis using conflict_limit_sound [OF givingUpBackend_sound, of "mkVar 2" "mkVar 3" CADICAL 100] by blast
qed

text \<open>A clause reaches the solver exactly when all its literals are solver literals (magnitude at
  least two): then it is added, its variables exist afterwards and the models are those that
  satisfy it; otherwise the call throws a runtime error.\<close>

lemma clauses_checked:
  shows "(if \<forall>l \<in> set lits. validLit l
    then \<exists>s'. addClause lits s = Inr s' \<and> sv_vars s \<le> sv_vars s' \<and> litsBelow (sv_vars s') lits \<and>
      (\<forall>M. models M s' = (models M s \<and> clauseTrue M lits))
    else \<exists>m. addClause lits s = Inl (Runtime_Error m))"
proof (cases "\<forall>l \<in> set lits. validLit l")
  case True
  then show ?thesis using addClause_valid [OF True, of s] by auto
next
  case False
  then show ?thesis using addClause_invalid [of lits s] by auto
qed

lemma clauses_checked_witness:
  "(\<exists>s. addClause [2, - 3] (newSolver KISSAT) = Inr s) \<and>
   (\<exists>m. addClause [2, 1] (newSolver KISSAT) = Inl (Runtime_Error m))"
  using clauses_checked [of "[2, - 3]" "newSolver KISSAT"] clauses_checked [of "[2, 1]" "newSolver KISSAT"]
  by (auto simp: validLit_def)

text \<open>A frame store allocates one solver variable for every symbol and frame: after construction every
  (symbol, frame) pair has a literal, no two pairs share one, exactly the given symbols are
  known, and no clause has been added.\<close>

lemma frame_variables_independent:
  assumes "newFrameStore symbols k s = (fs, s')" "distinct symbols"
  shows "(\<forall>x. hasSymbol fs x \<longleftrightarrow> x \<in> set symbols) \<and> sv_clauses s' = sv_clauses s \<and>
    sv_vars s' = sv_vars s + k * length symbols \<and>
    (\<forall>x \<in> set symbols. \<forall>f < k. \<exists>l. getLiteral fs x f = Inr l \<and> litBelow (sv_vars s') l) \<and>
    (\<forall>x f y g l. getLiteral fs x f = Inr l \<and> getLiteral fs y g = Inr l \<longrightarrow> x = y \<and> f = g)"
proof -
  have ok: "storeInv fs (sv_vars s')" "\<forall>x. hasSymbol fs x \<longleftrightarrow> x \<in> set symbols" "fs_numFrames fs = k"
    "sv_vars s' = sv_vars s + k * length symbols" "sv_clauses s' = sv_clauses s"
    using newFrameStore_ok [OF assms] by blast+
  have "\<exists>l. getLiteral fs x f = Inr l \<and> litBelow (sv_vars s') l" if "x \<in> set symbols" "f < k" for x f
    using storeInv_literal [OF ok(1)] ok(2,3) that by simp
  moreover have "x = y \<and> f = g" if "getLiteral fs x f = Inr l" "getLiteral fs y g = Inr l" for x f y g l
    by (rule storeInv_own [OF ok(1) that])
  ultimately show ?thesis using ok by blast
qed

lemma frame_variables_independent_witness:
  "\<exists>fs s l. newFrameStore [5, 9] 3 (newSolver KISSAT) = (fs, s) \<and> getLiteral fs 9 2 = Inr l \<and> sv_vars s = 6"
proof -
  obtain fs s where r: "newFrameStore [5, 9] 3 (newSolver KISSAT) = (fs, s)" by fastforce
  have d: "distinct [5, 9 :: var_id]" by simp
  note f = frame_variables_independent [OF r d]
  have vars: "sv_vars s = 6" using f by (simp add: newSolver_def)
  have "\<forall>x \<in> set [5, 9]. \<forall>f < 3. \<exists>l. getLiteral fs x f = Inr l \<and> litBelow (sv_vars s) l" using f by blast
  moreover have "9 \<in> set [5, 9 :: var_id]" "2 < (3 :: nat)" by simp_all
  ultimately have "\<exists>l. getLiteral fs 9 2 = Inr l" by meson
  then show ?thesis using r vars by blast
qed

text \<open>The simple-path constraint is exact: it returns, adds only auxiliary variables, and an
  assignment of the earlier variables extends to a model of the new clauses exactly when it
  satisfies the old ones and any two of the frames differ in some state symbol.\<close>

lemma simple_path_exact:
  assumes "storeInv fs (sv_vars s)" "solverInv s" "\<And>x. x \<in> set xs \<Longrightarrow> hasSymbol fs x"
    "first + n \<le> fs_numFrames fs" "xs \<noteq> []"
  shows "\<exists>s'. addSimplePathConstraint fs xs first n s = Inr s' \<and> solverInv s' \<and>
    (\<forall>M. (\<exists>M'. models M' s' \<and> agreeBelow (sv_vars s) M M') \<longleftrightarrow>
      models M s \<and> (\<forall>i \<in> set [first..<first + n]. \<forall>j \<in> set [i + 1..<first + n]. framesDiffer fs xs i j M))"
  using addSimplePath_exact [OF assms] by blast

lemma simple_path_exact_witness:
  "\<exists>fs s s'. newFrameStore [5] 2 (newSolver KISSAT) = (fs, s) \<and> addSimplePathConstraint fs [5] 0 2 s = Inr s' \<and>
     solverInv s'"
proof -
  obtain fs s where r: "newFrameStore [5] 2 (newSolver KISSAT) = (fs, s)" by fastforce
  have ok: "storeInv fs (sv_vars s)" "hasSymbol fs 5" "fs_numFrames fs = 2" "sv_clauses s = sv_clauses (newSolver KISSAT)"
    using newFrameStore_ok [OF r] by auto
  have "solverInv s" using ok(4) by (simp add: solverInv_def newSolver_def)
  from simple_path_exact [OF ok(1) this, of "[5]" 0 2] show ?thesis using ok(2,3) r by auto
qed

text \<open>The one-step transition formula over current and next state symbols says exactly that the next
  values are those of the transition functions, that complemented state pairs are complementary
  in the next frame, and that a certified invariant holds in both frames.\<close>

lemma one_step_formula_exact:
  assumes "fst ` set (allTransitions p) \<subseteq> dom nx"
    "fst ` set (complementPairs p) \<union> snd ` set (complementPairs p) \<subseteq> dom nx"
    "\<And>c. cert = Some c \<Longrightarrow> support c \<subseteq> dom nx"
  shows "\<exists>t. buildOneStepTransitionFormula p nx cert = Inr t \<and>
    (\<forall>env. eval env t = (stepHolds p env (pullEnv nx env) \<and> nextComplementsHold p nx env \<and>
      holdsOpt env cert \<and> holdsOpt (pullEnv nx env) cert))"
  using transition_total [OF assms] transition_eval by blast

lemma one_step_formula_exact_witness:
  "\<exists>t. buildOneStepTransitionFormula (emptyProblem\<lparr> pb_transitions0 := [(2, mkNot (mkVar 2))] \<rparr>) [2 \<mapsto> 3] None = Inr t \<and>
     eval (\<lambda>v. v = 2) t \<and> \<not> eval (\<lambda>v. True) t"
proof -
  let ?p = "emptyProblem\<lparr> pb_transitions0 := [(2, mkNot (mkVar 2))] \<rparr>"
  have sets: "allTransitions ?p = [(2, mkNot (mkVar 2))]" "complementPairs ?p = []"
    by (simp_all add: allTransitions_def complementPairs_def emptyProblem_def)
  obtain t where t: "buildOneStepTransitionFormula ?p [2 \<mapsto> 3] None = Inr t"
    "\<And>env. eval env t = (stepHolds ?p env (pullEnv [2 \<mapsto> 3] env) \<and> nextComplementsHold ?p [2 \<mapsto> 3] env \<and>
      holdsOpt env None \<and> holdsOpt (pullEnv [2 \<mapsto> 3] env) None)"
    using one_step_formula_exact [of ?p "[2 \<mapsto> 3]" None] by (auto simp: sets)
  show ?thesis using t
    by (simp add: stepHolds_def nextComplementsHold_def holdsOpt_def sets pullEnv_def)
qed

text \<open>The initial formula of the proof engines describes exactly the startup states: bootstrap
  assignments after a reset bootstrap, otherwise the structured assignments or the initial
  condition, with the property itself assumed where no complete initial state is known; no
  formula is returned only when every state is allowed.\<close>

lemma initial_formula_exact:
  shows "case buildProofInitFormula p of
     None \<Rightarrow> (\<forall>env. initHolds p env) | Some f \<Rightarrow> (\<forall>env. eval env f = initHolds p env)"
  by (rule initFormula_eval)

text \<open>Fresh proof symbols do not wrap and do not collide: the first one lies above every symbol of the
  problem and above the constants, and those allocated for a list of symbols are pairwise
  different and lie in an interval of exactly the list's length.\<close>

lemma fresh_symbols_disjoint:
  assumes "allocateFreshProofSymbols xs (nextFreshProofSymbol p) = (m, n)"
    "unat (nextFreshProofSymbol p) + length xs < 2 ^ 64" "- 1 \<notin> set (pb_allSymbols p)"
  shows "dom m = set xs \<and> (\<forall>s \<in> set (pb_allSymbols p). \<forall>w \<in> ran m. s < w) \<and>
    (\<forall>w \<in> ran m. 2 \<le> w \<and> w < n) \<and> inj_on m (dom m) \<and> unat n = unat (nextFreshProofSymbol p) + length xs"
  using freshSymbols_above [OF assms] by blast

lemma fresh_symbols_disjoint_witness:
  "\<exists>m n. allocateFreshProofSymbols [2, 7] (nextFreshProofSymbol (emptyProblem\<lparr> pb_allSymbols := [2, 7, 4] \<rparr>)) = (m, n) \<and>
     dom m = {2, 7} \<and> (\<forall>w \<in> ran m. 7 < w) \<and> n = 10"
proof -
  let ?p = "emptyProblem\<lparr> pb_allSymbols := [2, 7, 4] \<rparr>"
  obtain m n where r: "allocateFreshProofSymbols [2, 7] (nextFreshProofSymbol ?p) = (m, n)" by fastforce
  have f: "nextFreshProofSymbol ?p = 8" by (simp add: nextFreshProofSymbol_def max_def)
  have "dom m = set [2, 7] \<and> (\<forall>s \<in> set (pb_allSymbols ?p). \<forall>w \<in> ran m. s < w) \<and>
    (\<forall>w \<in> ran m. 2 \<le> w \<and> w < n) \<and> inj_on m (dom m) \<and> unat n = unat (nextFreshProofSymbol ?p) + length [2, 7 :: var_id]"
    by (rule fresh_symbols_disjoint [OF r]) (simp_all add: f)
  then have "dom m = {2, 7}" "\<forall>w \<in> ran m. 7 < w" "unat n = 10" by (auto simp: f)
  moreover have "n = 10" using calculation(3) by (simp add: word_unat_eq_iff)
  ultimately show ?thesis using r by blast
qed

text \<open>The current-state legality formula holds exactly in the states whose complemented state pairs
  are complementary.\<close>

lemma legality_formula_exact:
  shows "eval env (buildCurrentStateLegalityFormula p) = complementsHold p env"
  by (rule legality_eval)

text \<open>The memory of inconclusive residual attempts behaves like a map from attempt keys to the largest
  bound tried: remembering joins bounds and touches no other key, keys stay unique, and a find
  succeeds exactly when the remembered bound covers the request.\<close>

lemma residual_attempts_remembered:
  assumes "attemptsOk (ls_attempts st)"
  shows "attemptsOk (ls_attempts (rememberInconclusiveAttempt k m b st)) \<and>
    lookupAttempt j (ls_attempts (rememberInconclusiveAttempt k m b st)) =
     (if j = k then Some (joinEntry (m, b) (lookupAttempt k (ls_attempts st))) else lookupAttempt j (ls_attempts st)) \<and>
    findInconclusiveAttempt k r st = (case lookupAttempt k (ls_attempts st) of
       None \<Rightarrow> None | Some (x, y) \<Rightarrow> if r \<le> x then Some y else None)"
  using assms mergeAttempt_ok lookup_merge findInconclusive_lookup
  by (simp_all add: rememberInconclusiveAttempt_def)

lemma residual_attempts_remembered_witness:
  "let k = \<lparr> ak_outputExpr0 = None, ak_outputExpr1 = None, ak_inductionProperty = None, ak_inductionBad = None,
       ak_inductionOutputCount = 3, ak_solverType = 0 \<rparr>;
       st = rememberInconclusiveAttempt k 5 4 emptyLazyStore
   in findInconclusiveAttempt k 5 st = Some 4 \<and> findInconclusiveAttempt k 6 st = None"
proof -
  let ?k = "\<lparr> ak_outputExpr0 = None, ak_outputExpr1 = None, ak_inductionProperty = None, ak_inductionBad = None,
       ak_inductionOutputCount = 3, ak_solverType = 0 \<rparr>"
  have e: "attemptsOk (ls_attempts emptyLazyStore)" "lookupAttempt ?k (ls_attempts emptyLazyStore) = None"
    by (simp_all add: attemptsOk_def emptyLazyStore_def)
  note r = residual_attempts_remembered [OF e(1), of ?k 5 4 ?k]
  then have ok: "attemptsOk (ls_attempts (rememberInconclusiveAttempt ?k 5 4 emptyLazyStore))" by blast
  show ?thesis
    using residual_attempts_remembered [OF ok, of ?k 0 0 ?k 5] residual_attempts_remembered [OF ok, of ?k 0 0 ?k 6]
      r e(2) by (simp add: Let_def joinEntry_def)
qed

text \<open>Collecting the support of many transition targets, by the cached sets for large binary requests
  or by one walk over all roots otherwise, gives exactly the union of the single supports, filed
  under the known state symbols, and throws exactly when one of the targets has no support.\<close>

lemma joint_support_is_union:
  assumes "supportInv r"
  shows "case collectSupportForTargets targets known acc r of
     Inl _ \<Rightarrow> \<not> supported r targets
   | Inr (acc', r') \<Rightarrow> supported r targets \<and> acc' = addReads known (coneReads r targets) acc \<and>
       supportInv r' \<and> sameSources r r'"
  by (rule collectSupport_ok [OF assms])

lemma joint_support_is_union_witness:
  "\<exists>r'. collectSupportForTargets [4, 7] {5} ({}, {})
     (newResolver (emptyProblem\<lparr> pb_transitions0 := [(4, BVar 5), (7, BNot (BVar 6))] \<rparr>)) = Inr (({5}, {5, 6}), r')"
proof -
  let ?r = "newResolver (emptyProblem\<lparr> pb_transitions0 := [(4, BVar 5), (7, BNot (BVar 6))] \<rparr>)"
  have i: "supportInv ?r" using newResolver_inv [of "emptyProblem\<lparr> pb_transitions0 := [(4, BVar 5), (7, BNot (BVar 6))] \<rparr>"]
    by (simp add: resolverInv_def emptyProblem_def)
  have e: "tr_eager ?r 4 = Some (BVar 5)" "tr_eager ?r 7 = Some (BNot (BVar 6))"
    by (simp_all add: newResolver_def emptyProblem_def emplace_def)
  have s: "supported ?r [4, 7]" by (simp add: supported_def directSupport_def e)
  have c: "coneReads ?r [4, 7] = {5, 6}" by (auto simp: coneReads_def directSupport_def e)
  show ?thesis using joint_support_is_union [OF i, of "[4, 7]" "{5}" "({}, {})"] s c
    by (auto simp: addReads_def split: sum.splits)
qed

end
